(* ===== verification/Prelude.thy ===== *)
theory Prelude
  imports
    Main
    "HOL-Library.Char_ord"
    "HOL-Library.List_Lexorder"
    "HOL-Library.Product_Lexorder"
    "HOL-Library.Multiset"
    "HOL-Library.Word"
begin

text \<open>
  What the components share. Bytes are \<^typ>\<open>char\<close>, which has exactly 256 values, so a Rust
  \<^verbatim>\<open>Vec<u8>\<close> and the UTF-8 bytes of a Rust \<^verbatim>\<open>String\<close> are both a \<^typ>\<open>string\<close> and byte literals
  read like the source; their order is the byte-wise lexicographic order of Rust's
  \<^verbatim>\<open>Ord for [u8]\<close>. Fallible code returns a sum type with the error on the left. Machine integers
  whose overflow the source handles by saturation are natural numbers with the bound written
  out; hashing arithmetic, which wraps, uses \<^typ>\<open>64 word\<close>.
\<close>

section \<open>Types and collections of facts\<close>

type_synonym byte = char
type_synonym bytes = "char list"
type_synonym ('e, 'a) result = "'e + 'a"

named_theorems rust_std \<open>facts about the model of the Rust standard library\<close>
named_theorems codec \<open>facts that invert the length-prefixed byte encodings\<close>

subsection \<open>Results: the question-mark operator\<close>

definition try_bind :: "('e, 'a) result \<Rightarrow> ('a \<Rightarrow> ('e, 'b) result) \<Rightarrow> ('e, 'b) result" where
  "try_bind r f = (case r of Inl e \<Rightarrow> Inl e | Inr a \<Rightarrow> f a)"

lemma try_bind_simps [simp]:
  "try_bind (Inl e) f = Inl e"
  "try_bind (Inr a) f = f a"
  by (simp_all add: try_bind_def)

lemma try_bind_Inr_iff: "try_bind r f = Inr b \<longleftrightarrow> (\<exists>a. r = Inr a \<and> f a = Inr b)"
  by (cases r) auto

lemma try_bind_Inl_iff: "try_bind r f = Inl e \<longleftrightarrow> r = Inl e \<or> (\<exists>a. r = Inr a \<and> f a = Inl e)"
  by (cases r) auto

text \<open>\<^verbatim>\<open>Option::ok_or\<close> and \<^verbatim>\<open>Result::ok\<close>.\<close>

definition ok_or :: "'e \<Rightarrow> 'a option \<Rightarrow> ('e, 'a) result" where
  "ok_or e x = (case x of None \<Rightarrow> Inl e | Some a \<Rightarrow> Inr a)"

lemma ok_or_simps [simp]:
  "ok_or e None = Inl e"
  "ok_or e (Some a) = Inr a"
  by (simp_all add: ok_or_def)

subsection \<open>Saturating machine integers\<close>

definition usize_max :: nat where "usize_max = 18446744073709551615"
definition u32_max :: nat where "u32_max = 4294967295"

definition sat_add :: "nat \<Rightarrow> nat \<Rightarrow> nat" where
  "sat_add a b = min (a + b) usize_max"

definition sat_add32 :: "nat \<Rightarrow> nat \<Rightarrow> nat" where
  "sat_add32 a b = min (a + b) u32_max"

text \<open>\<^verbatim>\<open>u32::try_from(n).unwrap_or(u32::MAX)\<close>.\<close>

definition to_u32 :: "nat \<Rightarrow> nat" where
  "to_u32 n = min n u32_max"

lemma sat_add_exact [rust_std]: "a + b \<le> usize_max \<Longrightarrow> sat_add a b = a + b"
  by (simp add: sat_add_def)

lemma sat_add_le: "sat_add a b \<le> usize_max"
  by (simp add: sat_add_def)

lemma sat_add_mono: "a \<le> b \<Longrightarrow> sat_add a c \<le> sat_add b c"
  by (auto simp: sat_add_def min_def)

lemma to_u32_exact [rust_std]: "n \<le> u32_max \<Longrightarrow> to_u32 n = n"
  by (simp add: to_u32_def)

lemma to_u32_le: "to_u32 n \<le> u32_max"
  by (simp add: to_u32_def)

lemma to_u32_mono: "a \<le> b \<Longrightarrow> to_u32 a \<le> to_u32 b"
  by (auto simp: to_u32_def min_def)

subsection \<open>Big-endian integers and length prefixes\<close>

text \<open>\<^verbatim>\<open>to_be_bytes\<close> of a \<open>w\<close>-byte integer, and \<^verbatim>\<open>from_be_bytes\<close>.\<close>

fun be_bytes :: "nat \<Rightarrow> nat \<Rightarrow> bytes" where
  "be_bytes 0 n = []"
| "be_bytes (Suc w) n = be_bytes w (n div 256) @ [char_of n]"

definition from_be :: "bytes \<Rightarrow> nat" where
  "from_be bs = foldl (\<lambda>a c. a * 256 + of_char c) 0 bs"

lemma length_be_bytes [simp]: "length (be_bytes w n) = w"
  by (induction w arbitrary: n) auto

lemma from_be_snoc: "from_be (bs @ [c]) = from_be bs * 256 + of_char c"
  by (simp add: from_be_def)

lemma from_be_be_bytes: "from_be (be_bytes w n) = n mod 256 ^ w"
proof (induction w arbitrary: n)
  case 0
  show ?case by (simp add: from_be_def)
next
  case (Suc w)
  have "from_be (be_bytes (Suc w) n) = (n div 256 mod 256 ^ w) * 256 + n mod 256"
    by (simp add: from_be_snoc Suc.IH of_char_of)
  also have "\<dots> = n mod 256 ^ Suc w"
    by (simp add: mod_mult2_eq)
  finally show ?case .
qed

lemma from_be_be_bytes_exact [codec]: "n < 256 ^ w \<Longrightarrow> from_be (be_bytes w n) = n"
  by (simp add: from_be_be_bytes)

lemma be_bytes_inject:
  "m < 256 ^ w \<Longrightarrow> n < 256 ^ w \<Longrightarrow> be_bytes w m = be_bytes w n \<longleftrightarrow> m = n"
  by (metis from_be_be_bytes_exact)

text \<open>A field written as its 8-byte length followed by its bytes.\<close>

definition length_prefixed :: "bytes \<Rightarrow> bytes" where
  "length_prefixed bs = be_bytes 8 (length bs) @ bs"

lemma length_length_prefixed [simp]: "length (length_prefixed bs) = 8 + length bs"
  by (simp add: length_prefixed_def)

lemma length_prefixed_append_inject [codec]:
  assumes "length_prefixed a @ x = length_prefixed b @ y"
    and "length a \<le> usize_max" and "length b \<le> usize_max"
  shows "a = b \<and> x = y"
proof -
  from assms(1) have eq: "be_bytes 8 (length a) = be_bytes 8 (length b) \<and> a @ x = b @ y"
    by (simp add: length_prefixed_def append_eq_append_conv)
  have "length a < 256 ^ 8" "length b < 256 ^ 8"
    using assms(2,3) by (simp_all add: usize_max_def)
  with eq have "length a = length b"
    using be_bytes_inject by blast
  with eq show ?thesis by (simp add: append_eq_append_conv)
qed

subsection \<open>Bytes\<close>

text \<open>\<^verbatim>\<open>u8::is_ascii_whitespace\<close>: space, tab, line feed, form feed, carriage return.\<close>

definition is_ascii_whitespace :: "byte \<Rightarrow> bool" where
  "is_ascii_whitespace c \<longleftrightarrow> c \<in> {CHR '' '', CHR 0x09, CHR 0x0A, CHR 0x0C, CHR 0x0D}"

definition is_ascii_lowercase :: "byte \<Rightarrow> bool" where
  "is_ascii_lowercase c \<longleftrightarrow> CHR ''a'' \<le> c \<and> c \<le> CHR ''z''"

definition is_ascii_uppercase :: "byte \<Rightarrow> bool" where
  "is_ascii_uppercase c \<longleftrightarrow> CHR ''A'' \<le> c \<and> c \<le> CHR ''Z''"

definition is_ascii_alphabetic :: "byte \<Rightarrow> bool" where
  "is_ascii_alphabetic c \<longleftrightarrow> is_ascii_lowercase c \<or> is_ascii_uppercase c"

text \<open>\<^verbatim>\<open>slice::strip_prefix\<close>, \<^verbatim>\<open>slice::starts_with\<close>, \<^verbatim>\<open>slice::ends_with\<close>.\<close>

fun strip_prefix :: "'a list \<Rightarrow> 'a list \<Rightarrow> 'a list option" where
  "strip_prefix [] xs = Some xs"
| "strip_prefix (p # ps) [] = None"
| "strip_prefix (p # ps) (x # xs) = (if p = x then strip_prefix ps xs else None)"

lemma strip_prefix_Some [rust_std]: "strip_prefix p xs = Some s \<longleftrightarrow> xs = p @ s"
  by (induction p xs rule: strip_prefix.induct) auto

definition starts_with :: "'a list \<Rightarrow> 'a list \<Rightarrow> bool" where
  "starts_with p xs \<longleftrightarrow> take (length p) xs = p"

definition ends_with :: "'a list \<Rightarrow> 'a list \<Rightarrow> bool" where
  "ends_with s xs \<longleftrightarrow> length s \<le> length xs \<and> drop (length xs - length s) xs = s"

lemma starts_with_iff [rust_std]: "starts_with p xs \<longleftrightarrow> (\<exists>s. xs = p @ s)"
  unfolding starts_with_def by (metis append_eq_conv_conj append_take_drop_id)

lemma ends_with_iff [rust_std]: "ends_with s xs \<longleftrightarrow> (\<exists>p. xs = p @ s)"
  unfolding ends_with_def
  by (metis append_take_drop_id append_eq_conv_conj diff_add_inverse2 le_add2 length_append)

text \<open>\<^verbatim>\<open>slice::split\<close>: the maximal runs between separators, empty runs included.\<close>

fun split_on :: "('a \<Rightarrow> bool) \<Rightarrow> 'a list \<Rightarrow> 'a list list" where
  "split_on p [] = [[]]"
| "split_on p (x # xs) =
     (if p x then [] # split_on p xs
      else case split_on p xs of [] \<Rightarrow> [[x]] | y # ys \<Rightarrow> (x # y) # ys)"

lemma split_on_neq_Nil [simp]: "split_on p xs \<noteq> []"
  by (cases xs) (auto split: list.splits)

lemma split_on_no_sep [rust_std]: "part \<in> set (split_on p xs) \<Longrightarrow> x \<in> set part \<Longrightarrow> \<not> p x"
  by (induction xs arbitrary: part) (fastforce split: list.splits if_splits)+

lemma split_on_subset: "part \<in> set (split_on p xs) \<Longrightarrow> set part \<subseteq> set xs"
  by (induction xs arbitrary: part) (fastforce split: list.splits if_splits)+

lemma split_on_id: "\<forall>x\<in>set xs. \<not> p x \<Longrightarrow> split_on p xs = [xs]"
  by (induction xs) auto

lemma split_on_append_sep:
  "p s \<Longrightarrow> split_on p (xs @ s # ys) = split_on p xs @ split_on p ys"
  by (induction xs) (auto split: list.splits)

text \<open>Splitting at two kinds of separators is splitting the parts of the first at the second.\<close>

lemma split_on_disj: "split_on (\<lambda>x. p x \<or> q x) xs = concat (map (split_on q) (split_on p xs))"
proof (induction xs)
  case Nil
  show ?case by simp
next
  case (Cons x xs)
  obtain y ys where y: "split_on p xs = y # ys" by (cases "split_on p xs") auto
  obtain z zs where z: "split_on q y = z # zs" by (cases "split_on q y") auto
  show ?case using Cons.IH by (simp add: y z)
qed

text \<open>\<^verbatim>\<open>Iterator::position\<close> and \<^verbatim>\<open>rposition\<close>.\<close>

fun position :: "('a \<Rightarrow> bool) \<Rightarrow> 'a list \<Rightarrow> nat option" where
  "position p [] = None"
| "position p (x # xs) = (if p x then Some 0 else map_option Suc (position p xs))"

lemma position_None [rust_std]: "position p xs = None \<longleftrightarrow> (\<forall>x\<in>set xs. \<not> p x)"
  by (induction xs) auto

lemma position_Some:
  "position p xs = Some i \<Longrightarrow> i < length xs \<and> p (xs ! i) \<and> (\<forall>j<i. \<not> p (xs ! j))"
proof (induction xs arbitrary: i)
  case Nil
  then show ?case by simp
next
  case (Cons x xs)
  then show ?case
    by (auto simp: nth_Cons split: if_splits nat.splits)
qed

definition rposition :: "('a \<Rightarrow> bool) \<Rightarrow> 'a list \<Rightarrow> nat option" where
  "rposition p xs = map_option (\<lambda>i. length xs - 1 - i) (position p (rev xs))"

lemma rposition_Some:
  assumes "rposition p xs = Some i"
  shows "i < length xs \<and> p (xs ! i) \<and> (\<forall>j. i < j \<and> j < length xs \<longrightarrow> \<not> p (xs ! j))"
proof -
  from assms obtain k where k: "position p (rev xs) = Some k" and i: "i = length xs - 1 - k"
    by (auto simp: rposition_def)
  from position_Some [OF k] have len: "k < length xs" and pk: "p (rev xs ! k)"
    and bef: "\<And>j. j < k \<Longrightarrow> \<not> p (rev xs ! j)"
    by auto
  have "\<not> p (xs ! j)" if "i < j" "j < length xs" for j
    using bef [of "length xs - 1 - j"] that len i by (simp add: rev_nth)
  with pk len i show ?thesis by (simp add: rev_nth)
qed

lemma rposition_None [rust_std]: "rposition p xs = None \<longleftrightarrow> (\<forall>x\<in>set xs. \<not> p x)"
  by (simp add: rposition_def position_None)

text \<open>\<^verbatim>\<open>slice::get\<close>, and \<^verbatim>\<open>slice::partition_point\<close> of a slice partitioned by the predicate.\<close>

definition get_at :: "'a list \<Rightarrow> nat \<Rightarrow> 'a option" where
  "get_at xs i = (if i < length xs then Some (xs ! i) else None)"

lemma get_at_Some [rust_std]: "get_at xs i = Some x \<longleftrightarrow> i < length xs \<and> xs ! i = x"
  by (simp add: get_at_def)

definition partition_point :: "('a \<Rightarrow> bool) \<Rightarrow> 'a list \<Rightarrow> nat" where
  "partition_point p xs = length (takeWhile p xs)"

lemma takeWhile_le_sorted:
  fixes xs :: "'a::linorder list"
  shows "sorted xs \<Longrightarrow> takeWhile (\<lambda>x. x \<le> b) xs = filter (\<lambda>x. x \<le> b) xs"
  by (induction xs) (auto intro!: filter_False [symmetric] dest: order_trans)

subsection \<open>Decimal text\<close>

text \<open>\<^verbatim>\<open>Display\<close> of an unsigned integer.\<close>

fun show_nat :: "nat \<Rightarrow> bytes" where
  "show_nat n =
     (if n < 10 then [char_of (48 + n)] else show_nat (n div 10) @ [char_of (48 + n mod 10)])"

declare show_nat.simps [simp del]

subsection \<open>Comparisons\<close>

text \<open>\<^verbatim>\<open>std::cmp::Ordering\<close>, \<^verbatim>\<open>Ord::cmp\<close> and \<^verbatim>\<open>Ordering::then_with\<close>.\<close>

datatype ordering = Less | Equal | Greater

definition cmp :: "'a::linorder \<Rightarrow> 'a \<Rightarrow> ordering" where
  "cmp a b = (if a < b then Less else if a = b then Equal else Greater)"

fun then_with :: "ordering \<Rightarrow> ordering \<Rightarrow> ordering" where
  "then_with Equal o2 = o2"
| "then_with o1 o2 = o1"

lemma cmp_Pair [rust_std]: "cmp (a, b) (c, d) = then_with (cmp a c) (cmp b d)"
  by (auto simp: cmp_def)

lemma cmp_Less_iff [simp]: "cmp a b = Less \<longleftrightarrow> a < b"
  by (auto simp: cmp_def)

subsection \<open>Sorting by a key\<close>

text \<open>\<^verbatim>\<open>slice::sort_by\<close> is stable, as \<^const>\<open>sort_key\<close> is. With distinct keys the result depends on
  the elements only, not on their order.\<close>

lemma sort_key_cong_mset:
  assumes "distinct (map f xs)" and "mset xs = mset ys"
  shows "sort_key f xs = sort_key f ys"
proof (rule map_sorted_distinct_set_unique)
  have st: "set xs = set ys" by (rule mset_eq_setD [OF assms(2)])
  have "mset (map f ys) = mset (map f xs)" using assms(2) by simp
  then have dy: "distinct (map f ys)" using assms(1) mset_eq_imp_distinct_iff by blast
  show "inj_on f (set (sort_key f xs) \<union> set (sort_key f ys))"
    using assms(1) by (simp add: st [symmetric] distinct_map)
  show "sorted (map f (sort_key f xs))" "sorted (map f (sort_key f ys))" by simp_all
  show "distinct (map f (sort_key f xs))" "distinct (map f (sort_key f ys))"
    using assms(1) dy by (simp_all add: distinct_map)
  show "set (sort_key f xs) = set (sort_key f ys)" by (simp add: st)
qed

lemma sort_key_snoc_distinct:
  assumes "distinct (map f (xs @ [x]))"
  shows "sort_key f (xs @ [x]) = insort_key f x (sort_key f xs)"
  using sort_key_cong_mset [OF assms, of "x # xs"] by simp

lemma length_filter_key: "distinct (map f xs) \<Longrightarrow> length (filter (\<lambda>x. f x = c) xs) \<le> 1"
proof (induction xs)
  case Nil
  show ?case by simp
next
  case (Cons x xs)
  have "filter (\<lambda>y. f y = f x) xs = []" using Cons.prems
    by (simp add: filter_empty_conv) (metis image_eqI)
  with Cons show ?case by auto
qed

lemma mset_eq_short: "length xs \<le> 1 \<Longrightarrow> mset xs = mset ys \<Longrightarrow> xs = ys"
proof (cases xs)
  case (Cons a as)
  assume "length xs \<le> 1" "mset xs = mset ys"
  with Cons have "mset ys = {#a#}" "xs = [a]" by simp_all
  then show ?thesis by simp
qed simp

lemma filter_key_unique:
  assumes "distinct (map f xs)" and "mset xs = mset ys"
  shows "filter (\<lambda>x. f x = c) xs = filter (\<lambda>x. f x = c) ys"
  using length_filter_key [OF assms(1), of c] assms(2) by (intro mset_eq_short) simp_all

lemma sort_key_append_cong:
  assumes "distinct (map f xs)" and "mset xs = mset ys"
  shows "sort_key f (xs @ zs) = sort_key f (ys @ zs)"
proof (rule properties_for_sort_key)
  show "mset (sort_key f (ys @ zs)) = mset (xs @ zs)" using assms(2) by simp
  show "sorted (map f (sort_key f (ys @ zs)))" by simp
  show "filter (\<lambda>x. f k = f x) (sort_key f (ys @ zs)) = filter (\<lambda>x. f k = f x) (xs @ zs)" for k
    using filter_key_unique [OF assms, of "f k"] by (simp add: sort_key_stable eq_commute [of "f k"])
qed

text \<open>The \<open>k\<close> smallest elements after one more insertion, computed from the \<open>k\<close> smallest before.\<close>

lemma take_insort_key: "take k (insort_key f x xs) = take k (insort_key f x (take k xs))"
proof (induction xs arbitrary: k)
  case Nil
  show ?case by simp
next
  case (Cons y ys)
  then show ?case by (cases k) (auto simp: take_Cons')
qed

lemma insort_key_append_last:
  "\<forall>y\<in>set xs. f y < f x \<Longrightarrow> insort_key f x xs = xs @ [x]"
  by (induction xs) (auto simp: not_le)

lemma insort_key_butlast:
  "xs \<noteq> [] \<Longrightarrow> sorted (map f xs) \<Longrightarrow> f x < f (last xs) \<Longrightarrow>
   butlast (insort_key f x xs) = insort_key f x (butlast xs)"
proof (induction xs)
  case Nil
  then show ?case by simp
next
  case (Cons y ys)
  then show ?case by (cases ys) (auto simp: insort_key.simps)
qed

lemma sorted_map_le_last: "y \<in> set xs \<Longrightarrow> sorted (map f xs) \<Longrightarrow> f y \<le> f (last xs)"
  by (induction xs) auto

lemma take_insort_key_full:
  assumes "sorted (map f xs)" and "k \<le> length xs" and "0 < k" and "f x \<notin> f ` set xs"
  shows "take k (insort_key f x xs) =
          (if f x < f (last (take k xs)) then insort_key f x (butlast (take k xs)) else take k xs)"
proof -
  let ?h = "take k xs"
  have len: "length ?h = k" and ne: "?h \<noteq> []" using assms(2,3) by auto
  have srt: "sorted (map f ?h)" using assms(1) by (simp add: sorted_wrt_take take_map [symmetric])
  have b: "take k (insort_key f x xs) = butlast (insort_key f x ?h)"
    using len by (subst take_insort_key) (simp add: butlast_conv_take)
  show ?thesis
  proof (cases "f x < f (last ?h)")
    case True
    with b show ?thesis by (simp add: insort_key_butlast [OF ne srt True])
  next
    case False
    have "f y \<le> f (last ?h)" if "y \<in> set ?h" for y
      using that srt by (rule sorted_map_le_last)
    with False assms(4) have "\<forall>y\<in>set ?h. f y < f x"
      by (metis image_eqI in_set_takeD le_less_trans linorder_neqE order_le_less)
    with b False show ?thesis by (simp add: insort_key_append_last)
  qed
qed

end
