(* ===== verification/Budgets.thy ===== *)
theory Budgets
  imports Prelude
begin

text \<open>
  The resource bounds of \<^verbatim>\<open>src/limits.rs\<close> and the rule thresholds \<^verbatim>\<open>RuleLimits\<close> with their
  defaults. Every bound a component of this development tests is named here as in the source.
\<close>

definition MAX_REPOSITORY_PATH_BYTES :: nat where "MAX_REPOSITORY_PATH_BYTES = 4096"

definition MAX_FRAME_BYTES :: nat where "MAX_FRAME_BYTES = 8 * 1024 * 1024"
definition MAX_SOURCE_BYTES :: nat where "MAX_SOURCE_BYTES = 4 * 1024 * 1024"
definition MAX_LINE_BYTES :: nat where "MAX_LINE_BYTES = 1024 * 1024"
definition MAX_FILES :: nat where "MAX_FILES = 10000"
definition MAX_TOTAL_SOURCE_BYTES :: nat where "MAX_TOTAL_SOURCE_BYTES = 256 * 1024 * 1024"
definition MAX_DIAGNOSTICS :: nat where "MAX_DIAGNOSTICS = 10000"
definition MAX_CACHE_ENTRY_BYTES :: nat where "MAX_CACHE_ENTRY_BYTES = 16 * 1024 * 1024"
definition MAX_CACHE_BYTES :: nat where "MAX_CACHE_BYTES = 2 * 1024 * 1024 * 1024"
definition MAX_MEMORY_CACHE_BYTES :: nat where "MAX_MEMORY_CACHE_BYTES = 256 * 1024 * 1024"
definition MAX_MEMORY_CACHE_ENTRIES :: nat where "MAX_MEMORY_CACHE_ENTRIES = 50000"
definition MAX_CALLABLE_FINGERPRINTS_PER_FILE :: nat where "MAX_CALLABLE_FINGERPRINTS_PER_FILE = 4096"
definition MIN_DEDUP_CALLABLE_TOKENS :: nat where "MIN_DEDUP_CALLABLE_TOKENS = 48"
definition MAX_REGION_FINGERPRINTS_PER_FILE :: nat where "MAX_REGION_FINGERPRINTS_PER_FILE = 4096"
definition DEDUP_REGION_KGRAM_TOKENS :: nat where "DEDUP_REGION_KGRAM_TOKENS = 32"
definition DEDUP_REGION_WINNOW_SPAN :: nat where "DEDUP_REGION_WINNOW_SPAN = 17"
definition MIN_DEDUP_REGION_TOKENS :: nat where
  "MIN_DEDUP_REGION_TOKENS = DEDUP_REGION_KGRAM_TOKENS + DEDUP_REGION_WINNOW_SPAN - 1"
definition MAX_CALLABLE_FINGERPRINTS_PER_REQUEST :: nat where "MAX_CALLABLE_FINGERPRINTS_PER_REQUEST = 200000"
definition MAX_REGION_FINGERPRINTS_PER_REQUEST :: nat where "MAX_REGION_FINGERPRINTS_PER_REQUEST = 200000"
definition MAX_DEDUP_TOKEN_COMPARISONS :: nat where "MAX_DEDUP_TOKEN_COMPARISONS = 4000000"
definition MAX_OBSERVATION_PATHS :: nat where "MAX_OBSERVATION_PATHS = 5"
definition MAX_IMPACT_EDGE_VISITS :: nat where "MAX_IMPACT_EDGE_VISITS = 200000"
definition MAX_SENSE_FINDINGS :: nat where "MAX_SENSE_FINDINGS = 32"
definition MAX_SENSE_OBSERVATIONS :: nat where "MAX_SENSE_OBSERVATIONS = 4096"
definition MAX_GRAPH_EDGES :: nat where "MAX_GRAPH_EDGES = 200000"
definition MAX_INTERFACE_SELECTORS :: nat where "MAX_INTERFACE_SELECTORS = 400000"
definition MAX_SENSE_SAMPLE_PATHS :: nat where "MAX_SENSE_SAMPLE_PATHS = 1024"
definition MAX_CYCLE_MEMBER_PATHS :: nat where "MAX_CYCLE_MEMBER_PATHS = 10"
definition MAX_CYCLE_WITNESS_PATHS :: nat where "MAX_CYCLE_WITNESS_PATHS = 10"

text \<open>\<^verbatim>\<open>RuleLimits\<close>: six \<^verbatim>\<open>u32\<close> thresholds.\<close>

record rule_limits =
  max_file_lines :: nat
  max_line_bytes :: nat
  max_function_lines :: nat
  max_parameters :: nat
  max_nesting :: nat
  max_cyclomatic_complexity :: nat

definition default_rule_limits :: rule_limits where
  "default_rule_limits =
     \<lparr> max_file_lines = 1500, max_line_bytes = 512, max_function_lines = 100,
       max_parameters = 5, max_nesting = 4, max_cyclomatic_complexity = 10 \<rparr>"

text \<open>Bounds that keep the saturating counters of the engine exact.\<close>

lemma MAX_FILES_exact: "MAX_FILES * 2 \<le> usize_max"
  by (simp add: MAX_FILES_def usize_max_def)

lemma MAX_DIAGNOSTICS_pos [simp]: "0 < MAX_DIAGNOSTICS" "MAX_DIAGNOSTICS \<noteq> 0"
  by (simp_all add: MAX_DIAGNOSTICS_def)

end
