(* ===== verification/RepoPaths.thy ===== *)
theory RepoPaths
  imports Budgets
begin

text \<open>
  Repository paths: \<^verbatim>\<open>src/path.rs\<close>. A \<^verbatim>\<open>RepoPath\<close> is a byte string that \<open>validate\<close> accepted;
  it is shown losslessly by \<open>display_lossless\<close> and travels over the wire by
  \<open>serialize_path\<close> and \<open>deserialize_path\<close>. The lemmas show that an accepted path never leaves
  the directory it is joined to, that the display form determines the path, and that the wire
  form never names another path than the one it was made from.
\<close>

section \<open>The type and its order\<close>

datatype repo_path = RepoPath (as_bytes: bytes)

instantiation repo_path :: linorder
begin

definition less_eq_repo_path :: "repo_path \<Rightarrow> repo_path \<Rightarrow> bool" where
  "p \<le> q \<longleftrightarrow> as_bytes p \<le> as_bytes q"

definition less_repo_path :: "repo_path \<Rightarrow> repo_path \<Rightarrow> bool" where
  "p < q \<longleftrightarrow> as_bytes p < as_bytes q"

instance
  by standard (auto simp: less_eq_repo_path_def less_repo_path_def intro: repo_path.expand)

end

datatype path_error = Empty | Absolute | InvalidComponent | Nul | TooLong

definition request_marker :: repo_path where
  "request_marker = RepoPath ''_request''"

section \<open>Operations\<close>

abbreviation slash :: byte where "slash \<equiv> CHR ''/''"
abbreviation backslash :: byte where "backslash \<equiv> CHR 0x5C"

definition path_separator :: "byte \<Rightarrow> bool" where
  "path_separator b \<longleftrightarrow> b = slash \<or> b = backslash"

definition bad_component :: "bytes \<Rightarrow> bool" where
  "bad_component part \<longleftrightarrow> part = [] \<or> part = ''.'' \<or> part = ''..''"

definition validate :: "bytes \<Rightarrow> (path_error, unit) result" where
  "validate bs =
     (if bs = [] then Inl Empty
      else if length bs > MAX_REPOSITORY_PATH_BYTES then Inl TooLong
      else if CHR 0x00 \<in> set bs then Inl Nul
      else if hd bs = slash \<or> hd bs = backslash then Inl Absolute
      else if length bs \<ge> 2 \<and> bs ! 1 = CHR '':'' \<and> is_ascii_alphabetic (hd bs) then Inl Absolute
      else if \<exists>part\<in>set (split_on path_separator bs). bad_component part then Inl InvalidComponent
      else Inr ())"

definition RepoPath_new :: "bytes \<Rightarrow> (path_error, repo_path) result" where
  "RepoPath_new bs = try_bind (validate bs) (\<lambda>_. Inr (RepoPath bs))"

definition from_protocol :: "bytes \<Rightarrow> (path_error, repo_path) result" where
  "from_protocol value =
     (if backslash \<in> set value then Inl InvalidComponent else RepoPath_new value)"

text \<open>
  \<^verbatim>\<open>std::str::from_utf8\<close>: the length of the first well-formed scalar (Unicode, Table 3-7),
  and validity of a whole byte string.
\<close>

definition in_range :: "nat \<Rightarrow> nat \<Rightarrow> byte \<Rightarrow> bool" where
  "in_range lo hi b \<longleftrightarrow> lo \<le> of_char b \<and> of_char b \<le> hi"

definition utf8_scalar_len :: "bytes \<Rightarrow> nat option" where
  "utf8_scalar_len bs =
     (case bs of
        [] \<Rightarrow> None
      | a # r \<Rightarrow>
          if in_range 0 127 a then Some 1
          else case r of
            [] \<Rightarrow> None
          | b # r2 \<Rightarrow>
              if in_range 194 223 a then (if in_range 128 191 b then Some 2 else None)
              else case r2 of
                [] \<Rightarrow> None
              | c # r3 \<Rightarrow>
                  if in_range 224 239 a then
                    (if in_range 128 191 c \<and>
                        (if of_char a = (224::nat) then in_range 160 191 b
                         else if of_char a = (237::nat) then in_range 128 159 b
                         else in_range 128 191 b)
                     then Some 3 else None)
                  else case r3 of
                    [] \<Rightarrow> None
                  | d # _ \<Rightarrow>
                      if in_range 240 244 a \<and> in_range 128 191 c \<and> in_range 128 191 d \<and>
                         (if of_char a = (240::nat) then in_range 144 191 b
                          else if of_char a = (244::nat) then in_range 128 143 b
                          else in_range 128 191 b)
                      then Some 4 else None)"

lemma utf8_scalar_len_pos: "utf8_scalar_len bs = Some n \<Longrightarrow> 0 < n \<and> n \<le> length bs"
  by (auto simp: utf8_scalar_len_def split: list.splits if_splits)

function utf8_valid :: "bytes \<Rightarrow> bool" where
  "utf8_valid bs =
     (if bs = [] then True
      else case utf8_scalar_len bs of None \<Rightarrow> False | Some n \<Rightarrow> utf8_valid (drop n bs))"
  by pat_completeness auto
termination
  by (relation "measure length") (auto dest: utf8_scalar_len_pos)

declare utf8_valid.simps [simp del]

definition as_utf8 :: "repo_path \<Rightarrow> bytes option" where
  "as_utf8 p = (if utf8_valid (as_bytes p) then Some (as_bytes p) else None)"

definition HEX :: bytes where "HEX = ''0123456789abcdef''"

definition display_byte :: "byte \<Rightarrow> bytes" where
  "display_byte b =
     (if CHR '' '' \<le> b \<and> b \<le> CHR ''~'' \<and> b \<noteq> backslash then [b]
      else if b = backslash then [backslash, backslash]
      else [backslash, CHR ''x'', HEX ! (of_char b div 16), HEX ! (of_char b mod 16)])"

definition display_lossless :: "repo_path \<Rightarrow> bytes" where
  "display_lossless p = concat (map display_byte (as_bytes p))"

definition serialize_path :: "repo_path \<Rightarrow> bytes" where
  "serialize_path p = (case as_utf8 p of Some s \<Rightarrow> s | None \<Rightarrow> display_lossless p)"

definition deserialize_path :: "bytes \<Rightarrow> (path_error, repo_path) result" where
  "deserialize_path value = from_protocol value"

section \<open>What validation guarantees\<close>

lemma validate_Inr_iff:
  "validate bs = Inr () \<longleftrightarrow>
     bs \<noteq> [] \<and> length bs \<le> MAX_REPOSITORY_PATH_BYTES \<and> CHR 0x00 \<notin> set bs \<and>
     \<not> path_separator (hd bs) \<and>
     \<not> (length bs \<ge> 2 \<and> bs ! 1 = CHR '':'' \<and> is_ascii_alphabetic (hd bs)) \<and>
     (\<forall>part\<in>set (split_on path_separator bs). \<not> bad_component part)"
  by (auto simp: validate_def path_separator_def)

lemma RepoPath_new_Inr: "RepoPath_new bs = Inr p \<longleftrightarrow> validate bs = Inr () \<and> p = RepoPath bs"
  by (auto simp: RepoPath_new_def try_bind_Inr_iff)

lemma from_protocol_Inr:
  "from_protocol v = Inr p \<longleftrightarrow> backslash \<notin> set v \<and> validate v = Inr () \<and> p = RepoPath v"
  by (auto simp: from_protocol_def RepoPath_new_Inr)

definition path_wf :: "repo_path \<Rightarrow> bool" where
  "path_wf p \<longleftrightarrow> validate (as_bytes p) = Inr ()"

lemma path_wf_new: "RepoPath_new bs = Inr p \<Longrightarrow> path_wf p"
  by (auto simp: path_wf_def RepoPath_new_Inr)

lemma path_wf_request_marker: "path_wf request_marker"
  by (simp add: path_wf_def request_marker_def validate_def MAX_REPOSITORY_PATH_BYTES_def
      path_separator_def bad_component_def is_ascii_alphabetic_def)

text \<open>
  Lexical resolution of a relative path from a directory given by its components, as a file
  system does it: an empty or dot component stays, a parent component goes up.
\<close>

fun resolve_components :: "bytes list \<Rightarrow> bytes list \<Rightarrow> bytes list" where
  "resolve_components dir [] = dir"
| "resolve_components dir (c # cs) =
     (if c = [] \<or> c = ''.'' then resolve_components dir cs
      else if c = ''..'' then resolve_components (butlast dir) cs
      else resolve_components (dir @ [c]) cs)"

lemma resolve_good_components:
  "\<forall>c\<in>set cs. \<not> bad_component c \<Longrightarrow> resolve_components dir cs = dir @ cs"
  by (induction cs arbitrary: dir) (auto simp: bad_component_def)

text \<open>
  The components as a file system sees them, independently of how the program splits: the slash
  alone separates them, or the slash and the backslash do.
\<close>

definition unix_components :: "bytes \<Rightarrow> bytes list" where
  "unix_components bs = split_on (\<lambda>b. b = CHR ''/'') bs"

definition windows_components :: "bytes \<Rightarrow> bytes list" where
  "windows_components bs = split_on (\<lambda>b. b = CHR ''/'' \<or> b = CHR 0x5C) bs"

fun rooted :: "bytes \<Rightarrow> bool" where
  "rooted [] = False"
| "rooted (b # _) \<longleftrightarrow> b = CHR ''/'' \<or> b = CHR 0x5C"

fun drive_prefixed :: "bytes \<Rightarrow> bool" where
  "drive_prefixed (a # b # _) \<longleftrightarrow>
     b = CHR '':'' \<and> ((CHR ''A'' \<le> a \<and> a \<le> CHR ''Z'') \<or> (CHR ''a'' \<le> a \<and> a \<le> CHR ''z''))"
| "drive_prefixed _ = False"

lemma windows_components_separator: "windows_components bs = split_on path_separator bs"
proof -
  have "path_separator = (\<lambda>b. b = CHR ''/'' \<or> b = CHR 0x5C)" by (auto simp: path_separator_def)
  then show ?thesis by (simp add: windows_components_def)
qed

lemma unix_components_good:
  assumes "\<forall>c\<in>set (windows_components bs). \<not> bad_component c"
  shows "\<forall>c\<in>set (unix_components bs). \<not> bad_component c"
proof
  fix c assume c: "c \<in> set (unix_components bs)"
  show "\<not> bad_component c"
  proof
    assume bad: "bad_component c"
    then have "split_on (\<lambda>b. b = CHR 0x5C) c = [c]" by (intro split_on_id) (auto simp: bad_component_def)
    with c have "c \<in> set (windows_components bs)"
      by (force simp: windows_components_def unix_components_def split_on_disj)
    with assms bad show False by blast
  qed
qed

lemma rooted_iff: "rooted bs \<longleftrightarrow> bs \<noteq> [] \<and> (hd bs = CHR ''/'' \<or> hd bs = CHR 0x5C)"
  by (cases bs) auto

lemma drive_prefixed_iff:
  "drive_prefixed bs \<longleftrightarrow> length bs \<ge> 2 \<and> bs ! 1 = CHR '':'' \<and> is_ascii_alphabetic (hd bs)"
  by (cases bs rule: drive_prefixed.cases)
    (auto simp: is_ascii_alphabetic_def is_ascii_lowercase_def is_ascii_uppercase_def)

section \<open>The display form\<close>

lemma display_byte_neq_Nil [simp]: "display_byte b \<noteq> []"
  by (simp add: display_byte_def)

lemma HEX_nth_inject: "i < 16 \<Longrightarrow> j < 16 \<Longrightarrow> HEX ! i = HEX ! j \<longleftrightarrow> i = j"
  by (rule nth_eq_iff_index_eq) (simp_all add: HEX_def)

lemma char_eq_nibbles:
  "of_char a div 16 = (of_char b div 16 :: nat) \<Longrightarrow> of_char a mod 16 = (of_char b mod 16 :: nat) \<Longrightarrow> a = b"
  by (metis div_mult_mod_eq of_char_eq_iff)

lemma nibble_bounds: "of_char (b::char) div 16 < (16::nat)" "of_char (b::char) mod 16 < (16::nat)"
  using less_mult_imp_div_less [of "of_char b" 16 16] by simp_all

lemma display_byte_cases:
  obtains (plain) "display_byte b = [b]" "b \<noteq> backslash"
  | (escaped) "display_byte b = [backslash, backslash]" "b = backslash"
  | (hex) h l where "display_byte b = [backslash, CHR ''x'', h, l]"
      "h = HEX ! (of_char b div 16)" "l = HEX ! (of_char b mod 16)"
  by (metis display_byte_def)

lemma hex_pair_inject:
  "HEX ! (of_char a div 16) = HEX ! (of_char b div 16) \<Longrightarrow>
   HEX ! (of_char a mod 16) = HEX ! (of_char b mod 16) \<Longrightarrow> a = b"
  by (rule char_eq_nibbles) (simp_all add: HEX_nth_inject nibble_bounds)

lemma display_byte_append_inject:
  assumes "display_byte a @ x = display_byte b @ y"
  shows "a = b \<and> x = y"
  using assms
  by (cases a rule: display_byte_cases; cases b rule: display_byte_cases)
    (auto dest: hex_pair_inject)

lemma concat_display_inject: "concat (map display_byte p) = concat (map display_byte q) \<Longrightarrow> p = q"
proof (induction p arbitrary: q)
  case Nil
  then show ?case by (cases q) auto
next
  case (Cons a p)
  then obtain b r where q: "q = b # r" by (cases q) auto
  with Cons.prems have "a = b \<and> concat (map display_byte p) = concat (map display_byte r)"
    by (intro display_byte_append_inject) simp
  with Cons.IH q show ?case by blast
qed

lemma ascii_display: "in_range 32 126 c" if "c \<in> set (display_byte b)"
proof -
  have hex: "in_range 32 126 (HEX ! i)" if "i < 16" for i
  proof -
    have "HEX ! i \<in> set HEX" by (rule nth_mem) (use that in \<open>simp add: HEX_def\<close>)
    moreover have "\<forall>c\<in>set HEX. in_range 32 126 c" by (simp add: HEX_def in_range_def)
    ultimately show ?thesis by blast
  qed
  have esc: "in_range 32 126 backslash" "in_range 32 126 (CHR ''x'')"
    by (simp_all add: in_range_def)
  from that show ?thesis
    unfolding display_byte_def
    by (auto simp: hex nibble_bounds esc split: if_splits) (simp add: in_range_def less_eq_char_def)
qed

lemma utf8_valid_ascii: "\<forall>b\<in>set bs. in_range 0 127 b \<Longrightarrow> utf8_valid bs"
proof (induction bs)
  case Nil
  show ?case by (simp add: utf8_valid.simps)
next
  case (Cons b bs)
  then show ?case
    by (subst utf8_valid.simps) (simp add: utf8_scalar_len_def)
qed

lemma display_plain: "backslash \<notin> set (concat (map display_byte bs)) \<Longrightarrow> utf8_valid bs"
proof (rule utf8_valid_ascii, rule ballI)
  fix b assume no: "backslash \<notin> set (concat (map display_byte bs))" and b: "b \<in> set bs"
  then have "backslash \<notin> set (display_byte b)" by auto
  then have "CHR '' '' \<le> b \<and> b \<le> CHR ''~''"
    by (auto simp: display_byte_def split: if_splits)
  then show "in_range 0 127 b" by (simp add: in_range_def less_eq_char_def)
qed

section \<open>Properties\<close>

text \<open>
  C13. A path that \<open>RepoPath_new\<close> accepts, joined to any directory, resolves strictly below that
  directory, both where only the slash separates components and where the backslash does too:
  its resolution is the directory's components followed by the path's own components, at least
  one, none of them empty, dot or parent. It is relative in both worlds: it begins neither with a
  slash nor with a backslash nor with a drive letter and a colon. It is the text that was given,
  not longer than 4096 bytes, and has no zero byte.
\<close>

theorem accepted_path_stays_below:
  assumes "RepoPath_new bs = Inr p"
  shows "resolve_components dir (unix_components (as_bytes p)) = dir @ unix_components (as_bytes p) \<and>
    resolve_components dir (windows_components (as_bytes p)) = dir @ windows_components (as_bytes p) \<and>
    unix_components (as_bytes p) \<noteq> [] \<and> windows_components (as_bytes p) \<noteq> [] \<and>
    \<not> rooted (as_bytes p) \<and> \<not> drive_prefixed (as_bytes p) \<and>
    as_bytes p = bs \<and> length bs \<le> 4096 \<and> CHR 0x00 \<notin> set bs"
proof -
  from assms have ok: "validate bs = Inr ()" and p: "as_bytes p = bs"
    by (auto simp: RepoPath_new_Inr)
  then have good: "\<forall>c\<in>set (windows_components bs). \<not> bad_component c"
    by (simp add: validate_Inr_iff windows_components_separator)
  then have "\<forall>c\<in>set (unix_components bs). \<not> bad_component c" by (rule unix_components_good)
  with good ok show ?thesis
    by (auto simp: p resolve_good_components validate_Inr_iff path_separator_def rooted_iff
        drive_prefixed_iff MAX_REPOSITORY_PATH_BYTES_def unix_components_def windows_components_def)
qed

theorem accepted_path_stays_below_witness:
  "RepoPath_new ''src/a.rs'' = Inr (RepoPath ''src/a.rs'') \<and>
   resolve_components [''home'', ''repo''] (unix_components ''src/a.rs'') = [''home'', ''repo'', ''src'', ''a.rs''] \<and>
   \<not> rooted ''src/a.rs'' \<and> \<not> drive_prefixed ''src/a.rs''"
proof -
  have h: "RepoPath_new ''src/a.rs'' = Inr (RepoPath ''src/a.rs'')"
    by (simp add: RepoPath_new_Inr validate_def MAX_REPOSITORY_PATH_BYTES_def path_separator_def
        bad_component_def is_ascii_alphabetic_def)
  have "unix_components ''src/a.rs'' = [''src'', ''a.rs'']" by (simp add: unix_components_def)
  with h accepted_path_stays_below [OF h, of "[''home'', ''repo'']"] show ?thesis by simp
qed

text \<open>
  The display form is printable ASCII and lossless: two paths with the same display form
  are the same path.
\<close>

lemma display_lossless_injective:
  "(display_lossless p = display_lossless q \<longleftrightarrow> p = q) \<and>
   list_all (in_range 32 126) (display_lossless p)"
proof -
  have "display_lossless p = display_lossless q \<Longrightarrow> p = q"
    unfolding display_lossless_def by (rule repo_path.expand) (simp add: concat_display_inject)
  moreover have "list_all (in_range 32 126) (display_lossless p)"
    using ascii_display by (auto simp: display_lossless_def list_all_iff)
  ultimately show ?thesis by blast
qed

text \<open>
  C36. The wire form never names another path: reading back what was written for a valid path
  gives that path exactly when the path is UTF-8 without a backslash, and is otherwise rejected
  as an invalid component.
\<close>

theorem path_wire_roundtrip:
  assumes "path_wf p"
  shows "deserialize_path (serialize_path p) =
           (if utf8_valid (as_bytes p) \<and> backslash \<notin> set (as_bytes p) then Inr p
            else Inl InvalidComponent)"
proof (cases "utf8_valid (as_bytes p)")
  case True
  with assms show ?thesis
    by (auto simp: deserialize_path_def serialize_path_def as_utf8_def from_protocol_def
        path_wf_def RepoPath_new_def)
next
  case False
  then have "backslash \<in> set (display_lossless p)"
    using display_plain by (auto simp: display_lossless_def)
  with False show ?thesis
    by (simp add: deserialize_path_def serialize_path_def as_utf8_def from_protocol_def)
qed

theorem path_wire_roundtrip_witness:
  "path_wf (RepoPath ''a/b'') \<and> deserialize_path (serialize_path (RepoPath ''a/b'')) = Inr (RepoPath ''a/b'')"
proof -
  have wf: "path_wf (RepoPath ''a/b'')"
    by (simp add: path_wf_def validate_def MAX_REPOSITORY_PATH_BYTES_def path_separator_def
        bad_component_def is_ascii_alphabetic_def)
  have "utf8_valid ''a/b''" by (rule utf8_valid_ascii) (simp add: in_range_def)
  with wf path_wire_roundtrip [OF wf] show ?thesis by simp
qed

text \<open>
  Writing is not injective across the two forms: a path that is not UTF-8 is written escaped, and a
  UTF-8 path verbatim even when it contains backslashes.
\<close>

lemma serialized_paths_collide:
  "path_wf (RepoPath [CHR ''a'', CHR 0xFF])
   \<and> path_wf (RepoPath [CHR ''a'', backslash, CHR ''x'', CHR ''f'', CHR ''f''])
   \<and> serialize_path (RepoPath [CHR ''a'', CHR 0xFF]) =
     serialize_path (RepoPath [CHR ''a'', backslash, CHR ''x'', CHR ''f'', CHR ''f''])"
  (is "?wf1 \<and> ?wf2 \<and> ?eq")
proof (intro conjI)
  show ?wf1
    by (simp add: path_wf_def validate_def MAX_REPOSITORY_PATH_BYTES_def path_separator_def
        bad_component_def is_ascii_alphabetic_def)
  show ?wf2
    by (simp add: path_wf_def validate_def MAX_REPOSITORY_PATH_BYTES_def path_separator_def
        bad_component_def is_ascii_alphabetic_def)
  have "\<not> utf8_valid [CHR ''a'', CHR 0xFF]"
    by (simp add: utf8_valid.simps [of "CHR ''a'' # _"] utf8_valid.simps [of "[CHR 0xFF]"]
        utf8_scalar_len_def in_range_def)
  moreover have "utf8_valid [CHR ''a'', backslash, CHR ''x'', CHR ''f'', CHR ''f'']"
    by (rule utf8_valid_ascii) (simp add: in_range_def)
  ultimately show ?eq
    by (simp add: serialize_path_def as_utf8_def display_lossless_def display_byte_def HEX_def)
qed

end
