(* ===== verification/BTree.thy ===== *)
theory BTree
  imports Prelude
begin

text \<open>
  The ordered collections of the Rust standard library as the source uses them. A
  \<^verbatim>\<open>BTreeMap\<close> is the list of its entries in key order, a \<^verbatim>\<open>BTreeSet\<close> the list of its elements
  in order, so that iteration, which the source relies on for deterministic output, is list
  traversal. A \<^verbatim>\<open>HashMap\<close> whose iteration order the source never observes uses the same
  representation. The well-formedness predicates say that the list is strictly ordered;
  every operation keeps them.
\<close>

section \<open>BTreeMap\<close>

type_synonym ('k, 'v) btree_map = "('k \<times> 'v) list"
type_synonym 'k btree_set = "'k list"

named_theorems btree \<open>lookups and invariants of the ordered collections\<close>

definition bt_wf :: "('k::linorder, 'v) btree_map \<Rightarrow> bool" where
  "bt_wf m \<longleftrightarrow> sorted_wrt (<) (map fst m)"

abbreviation bt_get :: "('k, 'v) btree_map \<Rightarrow> 'k \<Rightarrow> 'v option" where
  "bt_get \<equiv> map_of"

fun bt_insert :: "'k::linorder \<Rightarrow> 'v \<Rightarrow> ('k, 'v) btree_map \<Rightarrow> ('k, 'v) btree_map" where
  "bt_insert k v [] = [(k, v)]"
| "bt_insert k v (e # m) =
     (if fst e < k then e # bt_insert k v m
      else if fst e = k then (k, v) # m
      else (k, v) # e # m)"

definition bt_remove :: "'k \<Rightarrow> ('k, 'v) btree_map \<Rightarrow> ('k, 'v) btree_map" where
  "bt_remove k m = filter (\<lambda>e. fst e \<noteq> k) m"

text \<open>\<^verbatim>\<open>*map.entry(k).or_default()\<close> followed by an update \<open>f\<close> of the value.\<close>

definition bt_entry :: "'v \<Rightarrow> ('v \<Rightarrow> 'v) \<Rightarrow> 'k::linorder \<Rightarrow> ('k, 'v) btree_map \<Rightarrow> ('k, 'v) btree_map" where
  "bt_entry d f k m = bt_insert k (f (case bt_get m k of None \<Rightarrow> d | Some v \<Rightarrow> v)) m"

text \<open>\<^verbatim>\<open>collect()\<close> into a map: later pairs replace earlier ones.\<close>

definition bt_collect :: "('k::linorder \<times> 'v) list \<Rightarrow> ('k, 'v) btree_map" where
  "bt_collect es = fold (\<lambda>e. bt_insert (fst e) (snd e)) es []"

lemma bt_wf_Nil [simp, btree]: "bt_wf []"
  by (simp add: bt_wf_def)

lemma bt_wf_Cons [simp]: "bt_wf (e # m) \<longleftrightarrow> (\<forall>k\<in>fst ` set m. fst e < k) \<and> bt_wf m"
  by (auto simp: bt_wf_def)

lemma bt_wf_distinct [dest]: "bt_wf m \<Longrightarrow> distinct (map fst m)"
  by (induction m) force+

lemma bt_wf_sorted: "bt_wf m \<Longrightarrow> sorted (map fst m)"
  by (auto simp: bt_wf_def strict_sorted_iff)

lemma bt_insert_keys [simp]: "fst ` set (bt_insert k v m) = insert k (fst ` set m)"
  by (induction m) auto

lemma bt_wf_insert [simp, btree]: "bt_wf m \<Longrightarrow> bt_wf (bt_insert k v m)"
  by (induction m) (auto simp: not_less_iff_gr_or_eq)

lemma map_of_fst_greater:
  fixes k :: "'k::linorder"
  shows "\<forall>j\<in>fst ` set m. k < j \<Longrightarrow> map_of m k = None"
  by (metis less_irrefl map_of_eq_None_iff)

lemma bt_get_insert [simp, btree]:
  "bt_wf m \<Longrightarrow> bt_get (bt_insert k v m) = (bt_get m)(k \<mapsto> v)"
proof (induction m)
  case Nil
  show ?case by (simp add: fun_eq_iff)
next
  case (Cons e m)
  then show ?case
    by (cases e) (auto simp: fun_eq_iff map_of_fst_greater)
qed

lemma bt_wf_remove [simp, btree]: "bt_wf m \<Longrightarrow> bt_wf (bt_remove k m)"
  by (induction m) (auto simp: bt_remove_def)

lemma bt_get_remove [simp, btree]: "bt_get (bt_remove k m) = (bt_get m)(k := None)"
  by (induction m) (auto simp: bt_remove_def fun_eq_iff)

lemma bt_remove_keys [simp]: "fst ` set (bt_remove k m) = fst ` set m - {k}"
  by (auto simp: bt_remove_def)

lemma bt_wf_entry [simp, btree]: "bt_wf m \<Longrightarrow> bt_wf (bt_entry d f k m)"
  by (simp add: bt_entry_def)

lemma bt_get_entry [simp, btree]:
  "bt_wf m \<Longrightarrow>
   bt_get (bt_entry d f k m) = (bt_get m)(k \<mapsto> f (case bt_get m k of None \<Rightarrow> d | Some v \<Rightarrow> v))"
  by (simp add: bt_entry_def)

lemma bt_entry_keys [simp]: "fst ` set (bt_entry d f k m) = insert k (fst ` set m)"
  by (simp add: bt_entry_def)

lemma bt_wf_fold_insert:
  "bt_wf m \<Longrightarrow> bt_wf (fold (\<lambda>e. bt_insert (fst e) (snd e)) es m)"
  by (induction es arbitrary: m) auto

lemma bt_get_fold_insert:
  "bt_wf m \<Longrightarrow>
   bt_get (fold (\<lambda>e. bt_insert (fst e) (snd e)) es m) = bt_get m ++ map_of (rev es)"
  by (induction es arbitrary: m) (auto simp: fun_eq_iff map_add_def split: option.splits)

lemma bt_wf_collect [simp, btree]: "bt_wf (bt_collect es)"
  by (simp add: bt_collect_def bt_wf_fold_insert)

lemma bt_get_collect [btree]: "bt_get (bt_collect es) = map_of (rev es)"
  by (simp add: bt_collect_def bt_get_fold_insert)

lemma bt_get_collect_distinct:
  "distinct (map fst ps) \<Longrightarrow> bt_get (bt_collect ps) k = Some v \<longleftrightarrow> (k, v) \<in> set ps"
  by (simp add: bt_get_collect rev_map [symmetric])

lemma bt_get_in_set: "bt_wf m \<Longrightarrow> bt_get m k = Some v \<longleftrightarrow> (k, v) \<in> set m"
  by (simp add: bt_wf_distinct)

lemma bt_as_keys: "bt_wf m \<Longrightarrow> m = map (\<lambda>k. (k, the (bt_get m k))) (map fst m)"
proof (induction m)
  case Nil
  show ?case by simp
next
  case (Cons e m)
  obtain k v where e: "e = (k, v)" by (cases e)
  from Cons.prems have wf: "bt_wf m" and gt: "\<forall>j\<in>fst ` set m. k < j"
    by (auto simp: e)
  have "map (\<lambda>j. (j, the (bt_get (e # m) j))) (map fst m)
      = map (\<lambda>j. (j, the (bt_get m j))) (map fst m)"
    using gt by (auto simp: e)
  also have "\<dots> = m" using Cons.IH [OF wf] by simp
  finally show ?case by (simp add: e)
qed

text \<open>Two well-formed maps with the same lookups are the same list: iteration order is
  determined by the contents.\<close>

lemma bt_ext:
  assumes "bt_wf m" and "bt_wf m'" and "bt_get m = bt_get m'"
  shows "m = m'"
proof -
  have "set (map fst m) = set (map fst m')"
    using assms(3) by (metis dom_map_of_conv_image_fst list.set_map)
  then have keys: "map fst m = map fst m'"
    using assms(1,2) by (simp add: bt_wf_def strict_sorted_equal)
  have "m = map (\<lambda>k. (k, the (bt_get m k))) (map fst m)"
    by (rule bt_as_keys [OF assms(1)])
  also have "\<dots> = map (\<lambda>k. (k, the (bt_get m' k))) (map fst m')"
    using keys assms(3) by simp
  also have "\<dots> = m'"
    by (rule bt_as_keys [OF assms(2), symmetric])
  finally show ?thesis .
qed

lemma length_bt_insert:
  "bt_wf m \<Longrightarrow> length (bt_insert k v m) = (if bt_get m k = None then Suc (length m) else length m)"
  by (induction m) (auto simp: map_of_fst_greater dest!: map_of_SomeD)

lemma length_bt_remove:
  "bt_wf m \<Longrightarrow> length (bt_remove k m) = (if bt_get m k = None then length m else length m - 1)"
proof (induction m)
  case Nil
  show ?case by (simp add: bt_remove_def)
next
  case (Cons e m)
  have "k \<notin> fst ` set m \<Longrightarrow> bt_remove k m = m"
    by (force simp: bt_remove_def filter_id_conv)
  moreover have "bt_get m k \<noteq> None \<Longrightarrow> 0 < length m" by (cases m) auto
  ultimately show ?case
    using Cons by (cases e) (auto simp: bt_remove_def dest!: map_of_SomeD)
qed

subsection \<open>Grouping\<close>

text \<open>\<^verbatim>\<open>map.entry(key).or_default().push(value)\<close> for the pairs \<open>f x\<close> of the elements \<open>x\<close> that have one.\<close>

definition bt_group :: "('x \<Rightarrow> ('k::linorder \<times> 'v) option) \<Rightarrow> 'x list \<Rightarrow> ('k, 'v list) btree_map" where
  "bt_group f xs =
     fold (\<lambda>x m. case f x of None \<Rightarrow> m | Some kv \<Rightarrow> bt_entry [] (\<lambda>vs. vs @ [snd kv]) (fst kv) m) xs []"

definition members :: "('x \<Rightarrow> ('k \<times> 'v) option) \<Rightarrow> 'x list \<Rightarrow> 'k \<Rightarrow> 'v list" where
  "members f xs k = map (\<lambda>x. snd (the (f x))) (filter (\<lambda>x. f x \<noteq> None \<and> fst (the (f x)) = k) xs)"

lemma members_simps [simp]:
  "members f [] k = []"
  "members f (x # xs) k =
     (case f x of None \<Rightarrow> members f xs k
      | Some kv \<Rightarrow> if fst kv = k then snd kv # members f xs k else members f xs k)"
  by (auto simp: members_def split: option.splits)

lemma in_members: "v \<in> set (members f xs k) \<longleftrightarrow> (\<exists>x\<in>set xs. f x = Some (k, v))"
  by (induction xs) (auto split: option.splits)

lemma bt_group_fold:
  "bt_wf m \<Longrightarrow>
   bt_wf (fold (\<lambda>x m. case f x of None \<Rightarrow> m | Some kv \<Rightarrow> bt_entry [] (\<lambda>vs. vs @ [snd kv]) (fst kv) m) xs m) \<and>
   bt_get (fold (\<lambda>x m. case f x of None \<Rightarrow> m | Some kv \<Rightarrow> bt_entry [] (\<lambda>vs. vs @ [snd kv]) (fst kv) m) xs m) k
     = (if members f xs k = [] then bt_get m k
        else Some ((case bt_get m k of None \<Rightarrow> [] | Some vs \<Rightarrow> vs) @ members f xs k))"
  by (induction xs arbitrary: m) (auto split: option.splits)

lemma bt_wf_group [simp, btree]: "bt_wf (bt_group f xs)"
  by (simp add: bt_group_def bt_group_fold)

lemma bt_get_group [btree]:
  "bt_get (bt_group f xs) k = (if members f xs k = [] then None else Some (members f xs k))"
  by (simp add: bt_group_def bt_group_fold)

section \<open>BTreeSet\<close>

definition bs_wf :: "'k::linorder btree_set \<Rightarrow> bool" where
  "bs_wf s \<longleftrightarrow> sorted_wrt (<) s"

fun bs_insert :: "'k::linorder \<Rightarrow> 'k btree_set \<Rightarrow> 'k btree_set" where
  "bs_insert k [] = [k]"
| "bs_insert k (x # s) =
     (if x < k then x # bs_insert k s else if x = k then x # s else k # x # s)"

definition bs_extend :: "'k::linorder btree_set \<Rightarrow> 'k list \<Rightarrow> 'k btree_set" where
  "bs_extend s xs = fold bs_insert xs s"

abbreviation bs_collect :: "'k::linorder list \<Rightarrow> 'k btree_set" where
  "bs_collect xs \<equiv> bs_extend [] xs"

lemma bs_wf_Nil [simp, btree]: "bs_wf []"
  by (simp add: bs_wf_def)

lemma bs_wf_Cons [simp]: "bs_wf (x # s) \<longleftrightarrow> (\<forall>y\<in>set s. x < y) \<and> bs_wf s"
  by (simp add: bs_wf_def)

lemma set_bs_insert [simp, btree]: "set (bs_insert k s) = insert k (set s)"
  by (induction s) auto

lemma bs_wf_insert [simp, btree]: "bs_wf s \<Longrightarrow> bs_wf (bs_insert k s)"
  by (induction s) (auto simp: not_less_iff_gr_or_eq)

lemma set_bs_extend [simp, btree]: "set (bs_extend s xs) = set s \<union> set xs"
  unfolding bs_extend_def by (induction xs arbitrary: s) auto

lemma bs_wf_extend [simp, btree]: "bs_wf s \<Longrightarrow> bs_wf (bs_extend s xs)"
  unfolding bs_extend_def by (induction xs arbitrary: s) auto

lemma bs_wf_distinct [dest]: "bs_wf s \<Longrightarrow> distinct s"
  by (induction s) auto

lemma bs_ext: "bs_wf s \<Longrightarrow> bs_wf t \<Longrightarrow> set s = set t \<Longrightarrow> s = t"
  by (simp add: bs_wf_def strict_sorted_equal)

lemma bs_insert_commute: "bs_wf s \<Longrightarrow> bs_insert a (bs_insert b s) = bs_insert b (bs_insert a s)"
  by (rule bs_ext) auto

lemma bs_keys_wf: "bt_wf m \<Longrightarrow> bs_wf (map fst m)"
  by (simp add: bt_wf_def bs_wf_def)

end
