(* ===== verification/UniqueJson.thy ===== *)
theory UniqueJson
  imports BTree
begin

unbundle bit_operations_syntax

text \<open>
  Strict JSON: \<^verbatim>\<open>src/json.rs\<close>. The JSON values are those of \<^verbatim>\<open>serde_json\<close>; its tokenizer is a
  parameter that answers a visitor's calls, written here as the tree of calls it makes
  (\<open>visit\<close>), where every sequence and map may end in a parse error. \<open>unique_value\<close> is the
  visitor \<^verbatim>\<open>UniqueValueVisitor\<close>: it builds the value and refuses a repeated object key at any
  depth.
\<close>

section \<open>Values\<close>

text \<open>A number is a \<^verbatim>\<open>u64\<close>, a negative \<^verbatim>\<open>i64\<close> or the bits of a finite \<^verbatim>\<open>f64\<close>.\<close>

datatype json_number = PosInt nat | NegInt int | Float "64 word"

datatype json =
    Null
  | Bool bool
  | Number json_number
  | String bytes
  | Array "json list"
  | Object "(bytes \<times> json) list"

text \<open>\<^verbatim>\<open>i64::into\<close> a number keeps the sign only of negative values.\<close>

definition number_of_i64 :: "int \<Rightarrow> json_number" where
  "number_of_i64 i = (if i < 0 then NegInt i else PosInt (nat i))"

text \<open>\<^verbatim>\<open>Number::from_f64\<close>: a float is finite unless its exponent bits are all set.\<close>

definition f64_finite :: "64 word \<Rightarrow> bool" where
  "f64_finite w \<longleftrightarrow> drop_bit 52 w AND 2047 \<noteq> 2047"

definition number_from_f64 :: "64 word \<Rightarrow> json_number option" where
  "number_from_f64 w = (if f64_finite w then Some (Float w) else None)"

section \<open>The visitor\<close>

text \<open>
  What \<^verbatim>\<open>deserialize_any\<close> calls, with \<^typ>\<open>'e\<close> the tokenizer's errors. A sequence or a map carries
  the elements read and, when the tokenizer fails before the closing bracket, its error.
\<close>

datatype 'e visit =
    VErr 'e
  | VUnit
  | VNone
  | VBool bool
  | VI64 int
  | VU64 nat
  | VF64 "64 word"
  | VStr bytes
  | VString bytes
  | VSeq "'e visit list" "'e option"
  | VMap "(bytes \<times> 'e visit) list" "'e option"

datatype 'e json_error = Tokenizer 'e | NotFinite | DuplicateKey bytes

fun unique_value :: "'e visit \<Rightarrow> ('e json_error, json) result"
  and unique_seq :: "json list \<Rightarrow> 'e visit list \<Rightarrow> 'e option \<Rightarrow> ('e json_error, json list) result"
  and unique_map :: "(bytes, json) btree_map \<Rightarrow> (bytes \<times> 'e visit) list \<Rightarrow> 'e option
        \<Rightarrow> ('e json_error, (bytes, json) btree_map) result"
  where
  "unique_value (VErr e) = Inl (Tokenizer e)"
| "unique_value VUnit = Inr Null"
| "unique_value VNone = Inr Null"
| "unique_value (VBool b) = Inr (Bool b)"
| "unique_value (VI64 i) = Inr (Number (number_of_i64 i))"
| "unique_value (VU64 n) = Inr (Number (PosInt n))"
| "unique_value (VF64 w) =
     (case number_from_f64 w of None \<Rightarrow> Inl NotFinite | Some n \<Rightarrow> Inr (Number n))"
| "unique_value (VStr s) = Inr (String s)"
| "unique_value (VString s) = Inr (String s)"
| "unique_value (VSeq vs e) = try_bind (unique_seq [] vs e) (\<lambda>xs. Inr (Array xs))"
| "unique_value (VMap ms e) = try_bind (unique_map [] ms e) (\<lambda>kvs. Inr (Object kvs))"
| "unique_seq acc [] e = (case e of None \<Rightarrow> Inr acc | Some err \<Rightarrow> Inl (Tokenizer err))"
| "unique_seq acc (v # vs) e =
     try_bind (unique_value v) (\<lambda>x. unique_seq (acc @ [x]) vs e)"
| "unique_map acc [] e = (case e of None \<Rightarrow> Inr acc | Some err \<Rightarrow> Inl (Tokenizer err))"
| "unique_map acc ((k, v) # ms) e =
     (if bt_get acc k \<noteq> None then Inl (DuplicateKey k)
      else try_bind (unique_value v) (\<lambda>x. unique_map (bt_insert k x acc) ms e))"

definition parse_unique_json ::
  "(bytes \<Rightarrow> 'e visit) \<Rightarrow> (bytes \<Rightarrow> 'e option) \<Rightarrow> bytes \<Rightarrow> ('e json_error, json) result" where
  "parse_unique_json deserialize trailing bs =
     try_bind (unique_value (deserialize bs))
       (\<lambda>v. case trailing bs of None \<Rightarrow> Inr v | Some e \<Rightarrow> Inl (Tokenizer e))"

section \<open>What the visitor accepts\<close>

text \<open>A call tree is accepted when the tokenizer finished it, every float is finite and no
  object repeats a key.\<close>

fun visit_ok :: "'e visit \<Rightarrow> bool" where
  "visit_ok (VErr e) = False"
| "visit_ok (VF64 w) = f64_finite w"
| "visit_ok (VSeq vs e) = (e = None \<and> (\<forall>v\<in>set vs. visit_ok v))"
| "visit_ok (VMap ms e) =
     (e = None \<and> distinct (map fst ms) \<and> (\<forall>m\<in>set ms. visit_ok (snd m)))"
| "visit_ok v = True"

text \<open>The value an accepted tree stands for, read off without any duplicate test.\<close>

fun visit_json :: "'e visit \<Rightarrow> json" where
  "visit_json (VErr e) = Null"
| "visit_json VUnit = Null"
| "visit_json VNone = Null"
| "visit_json (VBool b) = Bool b"
| "visit_json (VI64 i) = Number (number_of_i64 i)"
| "visit_json (VU64 n) = Number (PosInt n)"
| "visit_json (VF64 w) = Number (Float w)"
| "visit_json (VStr s) = String s"
| "visit_json (VString s) = String s"
| "visit_json (VSeq vs e) = Array (map visit_json vs)"
| "visit_json (VMap ms e) = Object (bt_collect (map (\<lambda>m. (fst m, visit_json (snd m))) ms))"

definition seq_json :: "json list \<Rightarrow> 'e visit list \<Rightarrow> json list" where
  "seq_json acc vs = acc @ map visit_json vs"

definition map_json :: "(bytes, json) btree_map \<Rightarrow> (bytes \<times> 'e visit) list \<Rightarrow> (bytes, json) btree_map" where
  "map_json acc ms =
     fold (\<lambda>e. bt_insert (fst e) (snd e)) (map (\<lambda>m. (fst m, visit_json (snd m))) ms) acc"

lemma unique_Inr_iff:
  fixes v :: "'e visit" and vs :: "'e visit list" and ms :: "(bytes \<times> 'e visit) list"
  shows "unique_value v = Inr j \<longleftrightarrow> visit_ok v \<and> j = visit_json v"
    and "unique_seq acc vs e = Inr js \<longleftrightarrow> e = None \<and> (\<forall>v\<in>set vs. visit_ok v) \<and> js = seq_json acc vs"
    and "bt_wf macc \<Longrightarrow>
   unique_map macc ms e = Inr kvs \<longleftrightarrow>
     e = None \<and> distinct (map fst ms) \<and> fst ` set ms \<inter> fst ` set macc = {} \<and>
     (\<forall>m\<in>set ms. visit_ok (snd m)) \<and> kvs = map_json macc ms"
proof (induction v and acc vs e and macc ms e arbitrary: j and js and kvs
    rule: unique_value_unique_seq_unique_map.induct)
  case (10 vs e)
  then show ?case by (auto simp: try_bind_Inr_iff seq_json_def)
next
  case (11 ms e)
  then show ?case by (auto simp: try_bind_Inr_iff map_json_def bt_collect_def)
next
  case (15 acc k v ms e)
  show ?case
  proof (cases "bt_get acc k")
    case None
    then have "k \<notin> fst ` set acc" by (simp add: map_of_eq_None_iff)
    with 15 None show ?thesis
      by (auto simp: try_bind_Inr_iff map_json_def)
  next
    case (Some w)
    then have "k \<in> fst ` set acc" by (metis domI dom_map_of_conv_image_fst)
    with Some show ?thesis by auto
  qed
qed (auto simp: number_from_f64_def try_bind_Inr_iff seq_json_def map_json_def split: option.splits)

section \<open>Properties\<close>

text \<open>
  C34. Parsing succeeds exactly when the tokenizer read the whole input, every number is finite
  and no object at any depth repeats a key; the value is then the one the input denotes, with
  no member dropped or replaced.
\<close>

theorem parse_unique_json_exact:
  "parse_unique_json deserialize trailing bs = Inr j \<longleftrightarrow>
     visit_ok (deserialize bs) \<and> trailing bs = None \<and> j = visit_json (deserialize bs)"
  by (auto simp: parse_unique_json_def try_bind_Inr_iff unique_Inr_iff split: option.splits)

inductive nested_in :: "'e visit \<Rightarrow> 'e visit \<Rightarrow> bool" where
  here: "nested_in v v"
| in_seq: "nested_in v w \<Longrightarrow> w \<in> set vs \<Longrightarrow> nested_in v (VSeq vs e)"
| in_map: "nested_in v w \<Longrightarrow> (k, w) \<in> set ms \<Longrightarrow> nested_in v (VMap ms e)"

lemma nested_not_ok: "nested_in v w \<Longrightarrow> \<not> visit_ok v \<Longrightarrow> \<not> visit_ok w"
  by (induction rule: nested_in.induct) force+

text \<open>
  A repeated key, at whatever depth the object stands, makes parsing fail.
\<close>

lemma nested_duplicate_refused:
  assumes "nested_in (VMap ms e) (deserialize bs)" and "\<not> distinct (map fst ms)"
  shows "\<exists>err. parse_unique_json deserialize trailing bs = Inl err"
proof -
  have "\<not> visit_ok (deserialize bs)"
    using assms by (intro nested_not_ok [OF assms(1)]) simp
  then have "parse_unique_json deserialize trailing bs \<noteq> Inr j" for j
    by (simp add: parse_unique_json_def try_bind_Inr_iff unique_Inr_iff)
  then show ?thesis by (cases "parse_unique_json deserialize trailing bs") auto
qed

end
