(* ===== verification/Identity.thy ===== *)
theory Identity
  imports Prelude
begin

text \<open>
  Content-derived identities: \<^verbatim>\<open>src/identity.rs\<close>. SHA-256 and hexadecimal text come from the
  crates \<^verbatim>\<open>sha2\<close> and \<^verbatim>\<open>hex\<close>, which are parameters, collected in the record \<open>crates\<close>. What is
  proved is about the byte string the program hashes: distinct domains and parts give distinct
  byte strings, so two equal identities of different things are a collision of SHA-256 itself.
\<close>

section \<open>Third-party functions\<close>

record crates =
  sha256 :: "bytes \<Rightarrow> bytes"
  hex_encode :: "bytes \<Rightarrow> bytes"
  hex_decode :: "bytes \<Rightarrow> bytes option"

text \<open>Documented behaviour: a SHA-256 digest has 32 bytes; decoding inverts encoding.\<close>

definition sha256_digest_len :: "crates \<Rightarrow> bool" where
  "sha256_digest_len K \<longleftrightarrow> (\<forall>x. length (sha256 K x) = 32)"

definition hex_roundtrip :: "crates \<Rightarrow> bool" where
  "hex_roundtrip K \<longleftrightarrow> (\<forall>x. hex_decode K (hex_encode K x) = Some x)"

definition sha_collision :: "crates \<Rightarrow> bytes \<Rightarrow> bytes \<Rightarrow> bool" where
  "sha_collision K x y \<longleftrightarrow> x \<noteq> y \<and> sha256 K x = sha256 K y"

lemma hex_encode_inject: "hex_roundtrip K \<Longrightarrow> hex_encode K x = hex_encode K y \<longleftrightarrow> x = y"
  by (metis hex_roundtrip_def option.inject)

section \<open>Operations\<close>

type_synonym digest = bytes
type_synonym content_id = digest
type_synonym content_view_id = digest
type_synonym file_fact_key = digest

text \<open>The bytes fed to the hasher, and the digest.\<close>

definition hash_input :: "bytes \<Rightarrow> bytes list \<Rightarrow> bytes" where
  "hash_input domain parts =
     ''opcore'' @ [CHR 0x00] @ length_prefixed domain @ concat (map length_prefixed parts)"

definition hash_domain :: "crates \<Rightarrow> bytes \<Rightarrow> bytes list \<Rightarrow> digest" where
  "hash_domain K domain parts = sha256 K (hash_input domain parts)"

definition ContentId_of :: "crates \<Rightarrow> bytes \<Rightarrow> content_id" where
  "ContentId_of K bs = hash_domain K ''content/v1'' [bs]"

definition FileFactKey_new :: "crates \<Rightarrow> content_id \<Rightarrow> bytes \<Rightarrow> bytes \<Rightarrow> bytes \<Rightarrow> file_fact_key" where
  "FileFactKey_new K content mode parser_options abi =
     hash_domain K ''file-fact/v1'' [content, mode, parser_options, abi]"

datatype digest_error = NotHex | NotA32ByteDigest

definition digest_serialize :: "crates \<Rightarrow> digest \<Rightarrow> bytes" where
  "digest_serialize K d = hex_encode K d"

definition digest_deserialize :: "crates \<Rightarrow> bytes \<Rightarrow> (digest_error, digest) result" where
  "digest_deserialize K text =
     try_bind (ok_or NotHex (hex_decode K text))
       (\<lambda>bs. if length bs = 32 then Inr bs else Inl NotA32ByteDigest)"

section \<open>Injectivity of the hashed encoding\<close>

lemma concat_length_prefixed_inject [codec]:
  assumes "concat (map length_prefixed ps) = concat (map length_prefixed qs)"
    and "\<forall>p\<in>set ps. length p \<le> usize_max" and "\<forall>q\<in>set qs. length q \<le> usize_max"
  shows "ps = qs"
  using assms
proof (induction ps arbitrary: qs)
  case Nil
  then show ?case by (cases qs) (auto simp: length_prefixed_def simp flip: length_0_conv)
next
  case (Cons p ps)
  then obtain q qs' where qs: "qs = q # qs'"
    by (cases qs) (auto simp: length_prefixed_def simp flip: length_0_conv)
  with Cons.prems have "p = q \<and> concat (map length_prefixed ps) = concat (map length_prefixed qs')"
    by (intro length_prefixed_append_inject) auto
  with Cons qs show ?case by auto
qed

lemma hash_input_inject [codec]:
  assumes "hash_input d ps = hash_input e qs"
    and "\<forall>p\<in>set (d # ps). length p \<le> usize_max" and "\<forall>q\<in>set (e # qs). length q \<le> usize_max"
  shows "d = e \<and> ps = qs"
proof -
  from assms(1) have "concat (map length_prefixed (d # ps)) = concat (map length_prefixed (e # qs))"
    by (simp add: hash_input_def)
  then have "d # ps = e # qs"
    using assms(2,3) by (rule concat_length_prefixed_inject)
  then show ?thesis by simp
qed

lemma hash_domain_eqD:
  assumes "hash_domain K d ps = hash_domain K e qs"
    and "\<forall>p\<in>set (d # ps). length p \<le> usize_max" and "\<forall>q\<in>set (e # qs). length q \<le> usize_max"
  shows "(d = e \<and> ps = qs) \<or> sha_collision K (hash_input d ps) (hash_input e qs)"
  using assms(1) hash_input_inject [OF _ assms(2,3)]
  by (auto simp: hash_domain_def sha_collision_def)

section \<open>Properties\<close>

text \<open>
  C37. Fact keys separate what enters them: two equal keys have the same content identity, language
  mode, parser options and fact ABI, or the two hashed byte strings are a collision of SHA-256. The
  path does not enter a key.
\<close>

theorem fact_key_separates:
  assumes "FileFactKey_new K c m opts abi = FileFactKey_new K c' m' opts' abi'"
    and "\<forall>x\<in>{c, m, opts, abi, c', m', opts', abi'}. length x \<le> usize_max"
  shows "(c, m, opts, abi) = (c', m', opts', abi') \<or>
         sha_collision K (hash_input ''file-fact/v1'' [c, m, opts, abi])
           (hash_input ''file-fact/v1'' [c', m', opts', abi'])"
  using hash_domain_eqD [OF assms(1) [unfolded FileFactKey_new_def]] assms(2)
  by (simp add: usize_max_def)

theorem fact_key_separates_witness:
  "FileFactKey_new \<lparr> sha256 = id, hex_encode = id, hex_decode = Some \<rparr> ''ab'' ''c'' ''o'' ''1'' \<noteq>
     FileFactKey_new \<lparr> sha256 = id, hex_encode = id, hex_decode = Some \<rparr> ''a'' ''bc'' ''o'' ''1'' \<and>
   FileFactKey_new \<lparr> sha256 = (\<lambda>_. replicate 32 (CHR 0x00)), hex_encode = id, hex_decode = Some \<rparr> ''c'' ''m'' ''o'' ''1'' =
     FileFactKey_new \<lparr> sha256 = (\<lambda>_. replicate 32 (CHR 0x00)), hex_encode = id, hex_decode = Some \<rparr> ''c'' ''m'' ''o'' ''2'' \<and>
   sha_collision \<lparr> sha256 = (\<lambda>_. replicate 32 (CHR 0x00)), hex_encode = id, hex_decode = Some \<rparr>
     (hash_input ''file-fact/v1'' [''c'', ''m'', ''o'', ''1'']) (hash_input ''file-fact/v1'' [''c'', ''m'', ''o'', ''2''])"
proof -
  define plain where "plain = \<lparr> sha256 = id, hex_encode = id, hex_decode = Some :: bytes \<Rightarrow> bytes option \<rparr>"
  define flat where
    "flat = \<lparr> sha256 = (\<lambda>_. replicate 32 (CHR 0x00)), hex_encode = id, hex_decode = Some :: bytes \<Rightarrow> bytes option \<rparr>"
  have 1: "FileFactKey_new plain ''ab'' ''c'' ''o'' ''1'' \<noteq> FileFactKey_new plain ''a'' ''bc'' ''o'' ''1''"
    using fact_key_separates [of plain "''ab''" "''c''" "''o''" "''1''" "''a''" "''bc''" "''o''" "''1''"]
    by (auto simp: usize_max_def sha_collision_def plain_def)
  have 2: "FileFactKey_new flat ''c'' ''m'' ''o'' ''1'' = FileFactKey_new flat ''c'' ''m'' ''o'' ''2''"
    by (simp add: FileFactKey_new_def hash_domain_def flat_def)
  have "sha_collision flat (hash_input ''file-fact/v1'' [''c'', ''m'', ''o'', ''1''])
      (hash_input ''file-fact/v1'' [''c'', ''m'', ''o'', ''2''])"
    using fact_key_separates [OF 2] by (simp add: usize_max_def)
  with 1 2 show ?thesis unfolding plain_def flat_def by blast
qed

text \<open>
  Digests survive the wire: a 32-byte digest is read back from its hexadecimal text, and
  text that does not decode to 32 bytes is refused.
\<close>

lemma digest_wire_roundtrip:
  assumes "hex_roundtrip K"
  shows "digest_deserialize K (digest_serialize K d) =
           (if length d = 32 then Inr d else Inl NotA32ByteDigest)"
  using assms by (simp add: digest_deserialize_def digest_serialize_def hex_roundtrip_def)

end
