(* ===== verification/DataModel.thy ===== *)
theory DataModel
  imports RepoPaths UniqueJson Identity
begin

text \<open>
  The shared data types of \<^verbatim>\<open>src/model.rs\<close>, one record or datatype per struct or enum, with
  the derived orders that the program relies on for its ordered maps.
\<close>

section \<open>Requests and sources\<close>

datatype comparison = Introduced | All

datatype scope = Changeset | Workspace | Paths "repo_path list"

datatype language = JavaScript | TypeScript | Rust | Python | Go | Hcl | Shell | Protobuf

fun language_index :: "language \<Rightarrow> nat" where
  "language_index JavaScript = 0"
| "language_index TypeScript = 1"
| "language_index Rust = 2"
| "language_index Python = 3"
| "language_index Go = 4"
| "language_index Hcl = 5"
| "language_index Shell = 6"
| "language_index Protobuf = 7"

lemma language_index_inject [simp]: "language_index a = language_index b \<longleftrightarrow> a = b"
  by (cases a; cases b) simp_all

instantiation language :: linorder
begin

definition less_eq_language :: "language \<Rightarrow> language \<Rightarrow> bool" where
  "a \<le> b \<longleftrightarrow> language_index a \<le> language_index b"

definition less_language :: "language \<Rightarrow> language \<Rightarrow> bool" where
  "a < b \<longleftrightarrow> language_index a < language_index b"

instance
  by standard (auto simp: less_eq_language_def less_language_def)

end

fun family :: "language \<Rightarrow> bytes" where
  "family JavaScript = ''node''"
| "family TypeScript = ''node''"
| "family Rust = ''rust''"
| "family Python = ''python''"
| "family Go = ''go''"
| "family Hcl = ''hcl''"
| "family Shell = ''shell''"
| "family Protobuf = ''protobuf''"

record source_file =
  sf_path :: repo_path
  sf_bytes :: bytes
  sf_content_id :: content_id
  sf_language :: language
  sf_language_mode :: bytes

definition SourceFile_new :: "crates \<Rightarrow> repo_path \<Rightarrow> bytes \<Rightarrow> language \<Rightarrow> bytes \<Rightarrow> source_file" where
  "SourceFile_new K path bs lang mode =
     \<lparr> sf_path = path, sf_bytes = bs, sf_content_id = ContentId_of K bs,
       sf_language = lang, sf_language_mode = mode \<rparr>"

section \<open>Diagnostics\<close>

datatype severity = Error | Warning | Info

record position =
  pos_line :: nat
  pos_column :: nat
  pos_byte :: nat

record source_range =
  range_start :: position
  range_end :: position

type_synonym evidence = "(bytes, json) btree_map"

record diagnostic =
  diag_rule_id :: bytes
  diag_severity :: severity
  diag_message :: bytes
  diag_path :: repo_path
  diag_range :: "source_range option"
  diag_fingerprint :: bytes
  diag_language :: language
  diag_evidence :: evidence

record raw_diagnostic =
  raw_rule_id :: bytes
  raw_severity :: severity
  raw_message :: bytes
  raw_range :: "source_range option"
  raw_entity_key :: bytes
  raw_cause_key :: bytes
  raw_evidence :: evidence

section \<open>File facts\<close>

datatype fingerprint_extraction_status =
  FComplete | FTruncated | FParserFailed | FUnsupported

datatype interface_surface_status = SComplete | SPartial | STruncated | SUnsupported

datatype interface_extraction_status =
  IComplete | IPartial | ITruncated | IParserFailed | IUnsupported

datatype dependency_extraction_status =
  DComplete | DTruncated | DParserFailed | DUnsupported

datatype callable_kind = Function | Method | Arrow | Closure | Lambda

record callable_fingerprint =
  cf_kind :: callable_kind
  cf_range :: source_range
  cf_token_count :: nat
  cf_token_line_count :: nat
  cf_digest :: bytes

record callable_fingerprint_facts =
  cff_status :: fingerprint_extraction_status
  cff_callables :: "callable_fingerprint list"

record region_fingerprint =
  hash_one :: "64 word"
  hash_two :: "64 word"
  token_index :: nat

record region_fingerprint_facts =
  rff_status :: fingerprint_extraction_status
  rff_token_count :: nat
  rff_encoded_tokens :: bytes
  rff_anchors :: "region_fingerprint list"

datatype interface_import_role = Import | ReExport

datatype interface_namespace = Runtime | TypeOnly

datatype interface_selector_kind = Named | Default | Namespace | SideEffect

record interface_selector =
  sel_kind :: interface_selector_kind
  sel_name :: bytes

record interface_import_fact =
  imp_specifier :: bytes
  imp_level :: nat
  imp_role :: interface_import_role
  imp_namespace :: interface_namespace
  imp_selector :: interface_selector

datatype interface_export_namespace = ExValue | ExTypeOnly | ExNamespace

datatype interface_export_origin = OriginLocal | OriginReExport

datatype interface_declaration_kind =
    DeclFunction | DeclMethod | DeclClass | DeclVariable | DeclConstant | DeclStruct
  | DeclInterface | DeclTypeAlias | DeclEnum | DeclDefaultExpression | DeclUnknown

record interface_export_fact =
  exp_exported_name :: bytes
  exp_namespace :: interface_export_namespace
  exp_origin :: interface_export_origin
  exp_declaration_kind :: interface_declaration_kind

datatype interface_shape_kind = ShapeInterface | ShapeStruct | ShapeTypeLiteralAlias

record interface_shape_fact =
  shape_exported_name :: bytes
  shape_kind :: interface_shape_kind
  shape_member_count :: nat
  shape_fingerprint :: bytes

record interface_gap_counts =
  wildcard_exports :: nat
  namespace_imports :: nat
  common_js_exports :: nat
  dynamic_loaders :: nat
  unsupported_patterns :: nat

record interface_facts =
  if_status :: interface_extraction_status
  if_public_surface_status :: interface_surface_status
  if_imports :: "interface_import_fact list"
  if_exports :: "interface_export_fact list"
  if_shapes :: "interface_shape_fact list"
  if_gaps :: interface_gap_counts

datatype dependency_reference_kind =
    NodeRuntime | NodeType | NodeUnsupportedDynamic | PythonRelative | PythonUnsupportedRelative
  | PythonAbsolute | RustModule | RustUse | RustUnsupported | GoImport | GoUnsupportedImport
  | GoUnsupportedConditional

record dependency_reference =
  ref_kind :: dependency_reference_kind
  ref_specifier :: bytes
  ref_level :: nat

record dependency_facts =
  dep_status :: dependency_extraction_status
  dep_references :: "dependency_reference list"

record file_facts =
  ff_diagnostics :: "raw_diagnostic list"
  ff_parser :: bytes
  ff_parser_version :: bytes
  ff_dependencies :: dependency_facts
  ff_callable_fingerprints :: callable_fingerprint_facts
  ff_region_fingerprints :: region_fingerprint_facts
  ff_interfaces :: interface_facts

text \<open>\<^verbatim>\<open>Default\<close> of the fact structs: the \<^verbatim>\<open>#[default]\<close> variants and empty collections.\<close>

definition default_callable_fingerprint_facts :: callable_fingerprint_facts where
  "default_callable_fingerprint_facts = \<lparr> cff_status = FUnsupported, cff_callables = [] \<rparr>"

definition default_region_fingerprint_facts :: region_fingerprint_facts where
  "default_region_fingerprint_facts =
     \<lparr> rff_status = FUnsupported, rff_token_count = 0, rff_encoded_tokens = [], rff_anchors = [] \<rparr>"

definition default_interface_facts :: interface_facts where
  "default_interface_facts =
     \<lparr> if_status = IUnsupported, if_public_surface_status = SUnsupported, if_imports = [],
       if_exports = [], if_shapes = [],
       if_gaps = \<lparr> wildcard_exports = 0, namespace_imports = 0, common_js_exports = 0,
                   dynamic_loaders = 0, unsupported_patterns = 0 \<rparr> \<rparr>"

definition default_dependency_facts :: dependency_facts where
  "default_dependency_facts = \<lparr> dep_status = DUnsupported, dep_references = [] \<rparr>"

definition default_file_facts :: file_facts where
  "default_file_facts =
     \<lparr> ff_diagnostics = [], ff_parser = [], ff_parser_version = [],
       ff_dependencies = default_dependency_facts,
       ff_callable_fingerprints = default_callable_fingerprint_facts,
       ff_region_fingerprints = default_region_fingerprint_facts,
       ff_interfaces = default_interface_facts \<rparr>"

section \<open>Assessments\<close>

datatype coverage_status = NotChecked | Unsupported | Incomplete

record coverage_gap =
  gap_path :: repo_path
  gap_status :: coverage_status
  gap_language :: "language option"
  gap_reason :: "bytes option"

record coverage =
  files_considered :: nat
  files_covered :: nat
  gaps :: "coverage_gap list"

definition default_coverage :: coverage where
  "default_coverage = \<lparr> files_considered = 0, files_covered = 0, gaps = [] \<rparr>"

datatype assessment_status =
    StatusClean | StatusFindings | StatusNotChecked | StatusIncomplete | StatusUnsupported
  | StatusCancelled | StatusError

record provider_metadata =
  provider_name :: bytes
  provider_version :: bytes
  provider_fact_abi :: bytes

record timing =
  duration_ms :: nat
  files_read :: nat
  files_parsed :: nat

definition default_timing :: timing where
  "default_timing = \<lparr> duration_ms = 0, files_read = 0, files_parsed = 0 \<rparr>"

text \<open>\<^verbatim>\<open>Timing::with_duration\<close>: milliseconds, clamped to \<^verbatim>\<open>u64\<close>.\<close>

definition with_duration :: "timing \<Rightarrow> nat \<Rightarrow> timing" where
  "with_duration t millis = t\<lparr> duration_ms := min millis usize_max \<rparr>"

record cache_metadata =
  cache_state :: bytes
  cache_hits :: nat
  cache_misses :: nat
  cache_writes :: nat

definition default_cache_metadata :: cache_metadata where
  "default_cache_metadata =
     \<lparr> cache_state = [], cache_hits = 0, cache_misses = 0, cache_writes = 0 \<rparr>"

record assessment =
  as_status :: assessment_status
  as_diagnostics :: "diagnostic list"
  as_coverage :: coverage
  as_valid_as_of :: bytes
  as_provider :: provider_metadata
  as_timing :: timing
  as_cache :: cache_metadata

definition FACT_ABI :: bytes where "FACT_ABI = ''opcore.file-facts.v20''"

definition default_provider_metadata :: provider_metadata where
  "default_provider_metadata =
     \<lparr> provider_name = ''opcore'', provider_version = ''0.3.3'', provider_fact_abi = FACT_ABI \<rparr>"

end
