(* ===== verification/Bounded.thy ===== *)
theory Bounded
  imports DataModel
begin

text \<open>
  The bounded diagnostic working set of \<^verbatim>\<open>src/engine.rs\<close>: \<^verbatim>\<open>EvaluatedDiagnostic\<close> with its total
  order, \<^verbatim>\<open>BoundedDiagnostics\<close> with \<^verbatim>\<open>push\<close>, \<^verbatim>\<open>merge\<close> and \<^verbatim>\<open>into_sorted\<close>, and \<^verbatim>\<open>materialize\<close>.
  The abstract specification is \<open>smallest\<close>: whatever the order of pushes and merges, the set holds
  the \<open>MAX_DIAGNOSTICS\<close> smallest diagnostics and knows whether any was dropped. That is what
  makes a parallel run deterministic.
\<close>

section \<open>Evaluated diagnostics\<close>

record evaluated_diagnostic =
  ev_diagnostic :: diagnostic
  ev_comparison_key :: bytes
  ev_materialization_order :: nat

definition diagnostic_order :: "evaluated_diagnostic \<Rightarrow> evaluated_diagnostic \<Rightarrow> ordering" where
  "diagnostic_order left right =
     then_with (cmp (diag_path (ev_diagnostic left)) (diag_path (ev_diagnostic right)))
     (then_with (cmp (diag_rule_id (ev_diagnostic left)) (diag_rule_id (ev_diagnostic right)))
     (then_with (cmp (diag_fingerprint (ev_diagnostic left)) (diag_fingerprint (ev_diagnostic right)))
       (cmp (ev_materialization_order left) (ev_materialization_order right))))"

definition ev_less :: "evaluated_diagnostic \<Rightarrow> evaluated_diagnostic \<Rightarrow> bool" where
  "ev_less a b \<longleftrightarrow> diagnostic_order a b = Less"

text \<open>The sort key whose order is \<open>diagnostic_order\<close>.\<close>

definition ev_key :: "evaluated_diagnostic \<Rightarrow> repo_path \<times> bytes \<times> bytes \<times> nat" where
  "ev_key e = (diag_path (ev_diagnostic e), diag_rule_id (ev_diagnostic e),
               diag_fingerprint (ev_diagnostic e), ev_materialization_order e)"

lemma diagnostic_order_key: "diagnostic_order a b = cmp (ev_key a) (ev_key b)"
  by (simp only: diagnostic_order_def ev_key_def cmp_Pair)

lemma ev_less_key: "ev_less a b \<longleftrightarrow> ev_key a < ev_key b"
  by (simp add: ev_less_def diagnostic_order_key)

section \<open>BinaryHeap\<close>

text \<open>
  A max-heap by its contents in ascending order: \<^verbatim>\<open>peek\<close> is the last element, \<^verbatim>\<open>pop\<close> removes it,
  \<^verbatim>\<open>into_sorted_vec\<close> is the list itself.
\<close>

type_synonym diagnostic_heap = "evaluated_diagnostic list"

definition heap_from :: "evaluated_diagnostic list \<Rightarrow> diagnostic_heap" where
  "heap_from items = sort_key ev_key items"

definition heap_peek :: "diagnostic_heap \<Rightarrow> evaluated_diagnostic option" where
  "heap_peek h = (if h = [] then None else Some (last h))"

definition heap_pop :: "diagnostic_heap \<Rightarrow> diagnostic_heap" where
  "heap_pop h = butlast h"

definition heap_push :: "evaluated_diagnostic \<Rightarrow> diagnostic_heap \<Rightarrow> diagnostic_heap" where
  "heap_push d h = insort_key ev_key d h"

section \<open>BoundedDiagnostics\<close>

datatype diagnostic_storage =
    Exact "evaluated_diagnostic list"
  | Truncated diagnostic_heap

record bounded_diagnostics =
  bd_storage :: diagnostic_storage
  bd_overflowed :: bool

definition bd_default :: bounded_diagnostics where
  "bd_default = \<lparr> bd_storage = Exact [], bd_overflowed = False \<rparr>"

definition retain_bounded :: "diagnostic_heap \<Rightarrow> evaluated_diagnostic \<Rightarrow> diagnostic_heap" where
  "retain_bounded retained candidate =
     (case heap_peek retained of
        None \<Rightarrow> retained
      | Some largest \<Rightarrow>
          if ev_less candidate largest then heap_push candidate (heap_pop retained) else retained)"

definition bd_push :: "bounded_diagnostics \<Rightarrow> evaluated_diagnostic \<Rightarrow> bounded_diagnostics" where
  "bd_push b d =
     (case bd_storage b of
        Exact items \<Rightarrow>
          if length items < MAX_DIAGNOSTICS then b\<lparr> bd_storage := Exact (items @ [d]) \<rparr>
          else b\<lparr> bd_overflowed := True,
                  bd_storage := Truncated (retain_bounded (heap_from items) d) \<rparr>
      | Truncated items \<Rightarrow>
          b\<lparr> bd_overflowed := True, bd_storage := Truncated (retain_bounded items d) \<rparr>)"

definition bd_items :: "bounded_diagnostics \<Rightarrow> evaluated_diagnostic list" where
  "bd_items b = (case bd_storage b of Exact items \<Rightarrow> items | Truncated items \<Rightarrow> items)"

definition bd_merge :: "bounded_diagnostics \<Rightarrow> bounded_diagnostics \<Rightarrow> bounded_diagnostics" where
  "bd_merge b other =
     foldl bd_push (b\<lparr> bd_overflowed := bd_overflowed b \<or> bd_overflowed other \<rparr>) (bd_items other)"

definition bd_into_sorted :: "bounded_diagnostics \<Rightarrow> evaluated_diagnostic list" where
  "bd_into_sorted b =
     (case bd_storage b of Exact items \<Rightarrow> sort_key ev_key items | Truncated items \<Rightarrow> items)"

section \<open>Materialization of file facts\<close>

definition diagnostic_comparison_key :: "crates \<Rightarrow> source_file \<Rightarrow> raw_diagnostic \<Rightarrow> bytes" where
  "diagnostic_comparison_key K file raw =
     hex_encode K (hash_domain K ''diagnostic-comparison/v1''
       [raw_rule_id raw, family (sf_language file), raw_entity_key raw, raw_cause_key raw])"

definition evaluate_raw :: "crates \<Rightarrow> source_file \<Rightarrow> nat \<times> raw_diagnostic \<Rightarrow> evaluated_diagnostic" where
  "evaluate_raw K file ir =
     (let raw = snd ir;
          comparison_key = diagnostic_comparison_key K file raw;
          fingerprint = hex_encode K (hash_domain K ''diagnostic-fingerprint/v1''
            [as_bytes (sf_path file), comparison_key])
      in \<lparr> ev_diagnostic =
             \<lparr> diag_rule_id = raw_rule_id raw, diag_severity = raw_severity raw,
               diag_message = raw_message raw, diag_path = sf_path file,
               diag_range = raw_range raw, diag_fingerprint = fingerprint,
               diag_language = sf_language file, diag_evidence = raw_evidence raw \<rparr>,
           ev_comparison_key = comparison_key,
           ev_materialization_order = fst ir \<rparr>)"

definition evaluated_list :: "crates \<Rightarrow> source_file \<Rightarrow> file_facts \<Rightarrow> evaluated_diagnostic list" where
  "evaluated_list K file facts =
     map (evaluate_raw K file) (zip [0..<length (ff_diagnostics facts)] (ff_diagnostics facts))"

definition materialize :: "crates \<Rightarrow> source_file \<Rightarrow> file_facts \<Rightarrow> bounded_diagnostics" where
  "materialize K file facts = foldl bd_push bd_default (evaluated_list K file facts)"

section \<open>Specification: the smallest diagnostics\<close>

definition smallest :: "evaluated_diagnostic list \<Rightarrow> evaluated_diagnostic list" where
  "smallest ds = take MAX_DIAGNOSTICS (sort_key ev_key ds)"

abbreviation keys_distinct :: "evaluated_diagnostic list \<Rightarrow> bool" where
  "keys_distinct ds \<equiv> distinct (map ev_key ds)"

text \<open>The storage of a working set holds the smallest of the diagnostics \<open>ds\<close> pushed into it; the
  whole set represents \<open>ds\<close> when it also knows whether any was dropped.\<close>

definition holds :: "bounded_diagnostics \<Rightarrow> evaluated_diagnostic list \<Rightarrow> bool" where
  "holds b ds \<longleftrightarrow>
     (case bd_storage b of
        Exact items \<Rightarrow> mset items = mset (smallest ds)
      | Truncated items \<Rightarrow> items = smallest ds \<and> length items = MAX_DIAGNOSTICS)"

definition represents :: "bounded_diagnostics \<Rightarrow> evaluated_diagnostic list \<Rightarrow> bool" where
  "represents b ds \<longleftrightarrow> holds b ds \<and> (bd_overflowed b \<longleftrightarrow> MAX_DIAGNOSTICS < length ds)"

lemma length_smallest: "length (smallest ds) = min MAX_DIAGNOSTICS (length ds)"
  by (simp add: smallest_def min.commute)

lemma smallest_all: "length ds \<le> MAX_DIAGNOSTICS \<Longrightarrow> smallest ds = sort_key ev_key ds"
  by (simp add: smallest_def)

lemma set_smallest: "set (smallest ds) \<subseteq> set ds"
  by (auto simp: smallest_def dest: in_set_takeD)

lemma sorted_smallest: "sorted (map ev_key (smallest ds))"
  by (simp add: smallest_def sorted_wrt_take take_map [symmetric])

lemma smallest_cong: "keys_distinct ds \<Longrightarrow> mset ds = mset es \<Longrightarrow> smallest ds = smallest es"
  by (simp add: smallest_def sort_key_cong_mset)

lemma keys_distinct_smallest: "keys_distinct ds \<Longrightarrow> keys_distinct (smallest ds)"
proof -
  assume "keys_distinct ds"
  then have "keys_distinct (sort_key ev_key ds)" by (simp add: distinct_map)
  then show ?thesis by (simp add: smallest_def take_map [symmetric] distinct_take)
qed

lemma keys_distinct_shrink: "keys_distinct (ds @ es) \<Longrightarrow> keys_distinct (smallest ds @ es)"
  using keys_distinct_smallest [of ds] set_smallest [of ds] by (fastforce simp: image_iff)

lemma keys_distinct_cong: "keys_distinct ds \<Longrightarrow> mset ds = mset es \<Longrightarrow> keys_distinct es"
  by (metis mset_eq_imp_distinct_iff mset_map)

lemma sort_smallest [simp]: "sort_key ev_key (smallest ds) = smallest ds"
  by (simp add: sorted_smallest sort_key_id_if_sorted)

lemma smallest_snoc:
  "keys_distinct (ds @ [d]) \<Longrightarrow>
   smallest (ds @ [d]) = take MAX_DIAGNOSTICS (insort_key ev_key d (smallest ds))"
  unfolding smallest_def by (simp only: sort_key_snoc_distinct) (rule take_insort_key)

lemma smallest_smallest_append:
  "keys_distinct (ds @ es) \<Longrightarrow> smallest (smallest ds @ es) = smallest (ds @ es)"
proof (induction es rule: rev_induct)
  case Nil
  then show ?case by (simp add: smallest_all length_smallest)
next
  case (snoc e es)
  from snoc.prems have kd: "keys_distinct ((ds @ es) @ [e])" by simp
  have "keys_distinct ((smallest ds @ es) @ [e])"
    using keys_distinct_shrink [of ds "es @ [e]"] kd by simp
  from smallest_snoc [OF this] smallest_snoc [OF kd] snoc.IH kd show ?case by simp
qed

lemma smallest_append_cong:
  assumes "keys_distinct (ds @ es)" and "mset items = mset (smallest es)"
  shows "keys_distinct (ds @ items)" and "smallest (ds @ items) = smallest (ds @ es)"
proof -
  have kd: "keys_distinct (es @ ds)" using assms(1) by auto
  have ks: "keys_distinct (smallest es @ ds)"
    by (rule keys_distinct_shrink [OF kd])
  have m: "mset (smallest es @ ds) = mset (ds @ items)" using assms(2) by simp
  show "keys_distinct (ds @ items)" by (rule keys_distinct_cong [OF ks m])
  have "smallest (ds @ items) = smallest (smallest es @ ds)"
    by (rule smallest_cong [OF ks m, symmetric])
  also have "\<dots> = smallest (es @ ds)" by (rule smallest_smallest_append [OF kd])
  also have "\<dots> = smallest (ds @ es)" by (rule smallest_cong [OF kd]) simp
  finally show "smallest (ds @ items) = smallest (ds @ es)" .
qed

section \<open>The working set implements the specification\<close>

lemma holds_cong: "smallest ds = smallest es \<Longrightarrow> holds b ds \<longleftrightarrow> holds b es"
  unfolding holds_def by (simp split: diagnostic_storage.splits)

lemma holds_items: "holds b ds \<Longrightarrow> mset (bd_items b) = mset (smallest ds)"
  by (auto simp: holds_def bd_items_def split: diagnostic_storage.splits)

lemma holds_into_sorted: "holds b ds \<Longrightarrow> keys_distinct ds \<Longrightarrow> bd_into_sorted b = smallest ds"
  by (auto simp: holds_def bd_into_sorted_def split: diagnostic_storage.splits)
    (metis keys_distinct_cong keys_distinct_smallest sort_key_cong_mset sort_smallest)

lemma retain_bounded_smallest:
  assumes "keys_distinct (ds @ [d])" and "MAX_DIAGNOSTICS \<le> length ds"
  shows "retain_bounded (smallest ds) d = smallest (ds @ [d])"
proof -
  have fresh: "ev_key d \<notin> ev_key ` set ds" and ne: "smallest ds \<noteq> []"
    using assms MAX_DIAGNOSTICS_pos by (auto simp: smallest_def simp flip: length_0_conv)
  have "smallest (ds @ [d]) = take MAX_DIAGNOSTICS (insort_key ev_key d (sort_key ev_key ds))"
    by (simp add: smallest_def sort_key_snoc_distinct [OF assms(1)])
  also have "\<dots> = retain_bounded (smallest ds) d"
    using assms(2) fresh ne
    by (subst take_insort_key_full)
      (simp_all add: retain_bounded_def heap_peek_def heap_push_def heap_pop_def ev_less_key
        smallest_def)
  finally show ?thesis by simp
qed

lemma holds_push:
  assumes "holds b ds" and "keys_distinct (ds @ [d])"
  shows "holds (bd_push b d) (ds @ [d])"
    and "bd_overflowed (bd_push b d) \<longleftrightarrow> bd_overflowed b \<or> MAX_DIAGNOSTICS \<le> length ds"
proof -
  have "holds (bd_push b d) (ds @ [d]) \<and>
    (bd_overflowed (bd_push b d) \<longleftrightarrow> bd_overflowed b \<or> MAX_DIAGNOSTICS \<le> length ds)"
  proof (cases "bd_storage b")
    case (Exact items)
    with assms(1) have ms: "mset items = mset (smallest ds)" by (simp add: holds_def)
    then have len: "length items = min MAX_DIAGNOSTICS (length ds)"
      by (metis length_smallest size_mset)
    show ?thesis
    proof (cases "length ds < MAX_DIAGNOSTICS")
      case True
      with ms have "mset (items @ [d]) = mset (smallest (ds @ [d]))"
        by (simp add: smallest_all)
      with True Exact len show ?thesis by (simp add: holds_def bd_push_def)
    next
      case False
      then have full: "MAX_DIAGNOSTICS \<le> length ds" by simp
      have "heap_from items = smallest ds"
        using holds_into_sorted [of b ds] assms Exact
        by (simp add: heap_from_def bd_into_sorted_def)
      with False Exact full len show ?thesis
        by (simp add: holds_def bd_push_def retain_bounded_smallest [OF assms(2) full] length_smallest)
    qed
  next
    case (Truncated items)
    have eq: "items = smallest ds \<and> length items = MAX_DIAGNOSTICS"
      using assms(1) unfolding holds_def Truncated diagnostic_storage.case .
    then have full: "MAX_DIAGNOSTICS \<le> length ds" by (metis length_smallest min.cobounded2)
    have it: "items = smallest ds" and len: "length (smallest ds) = MAX_DIAGNOSTICS"
      using eq by auto
    with full Truncated show ?thesis
      by (simp add: holds_def bd_push_def retain_bounded_smallest [OF assms(2) full] length_smallest)
  qed
  then show "holds (bd_push b d) (ds @ [d])"
    and "bd_overflowed (bd_push b d) \<longleftrightarrow> bd_overflowed b \<or> MAX_DIAGNOSTICS \<le> length ds"
    by blast+
qed

lemma holds_pushes:
  assumes "holds b ds" and "keys_distinct (ds @ es)"
  shows "holds (foldl bd_push b es) (ds @ es) \<and>
    (bd_overflowed (foldl bd_push b es) \<longleftrightarrow>
       bd_overflowed b \<or> (es \<noteq> [] \<and> MAX_DIAGNOSTICS < length ds + length es))"
  using assms
proof (induction es arbitrary: b ds)
  case Nil
  then show ?case by simp
next
  case (Cons e es)
  have kd: "keys_distinct (ds @ [e])" and kd2: "keys_distinct ((ds @ [e]) @ es)"
    using Cons.prems(2) by auto
  have len: "MAX_DIAGNOSTICS \<le> length ds \<Longrightarrow> MAX_DIAGNOSTICS < length ds + length (e # es)"
    by simp
  from Cons.IH [OF holds_push(1) [OF Cons.prems(1) kd] kd2] holds_push(2) [OF Cons.prems(1) kd]
  show ?case by (cases es) auto
qed

lemma represents_default: "represents bd_default []"
  by (simp add: represents_def holds_def bd_default_def smallest_def)

lemma represents_pushes:
  "represents b ds \<Longrightarrow> keys_distinct (ds @ es) \<Longrightarrow> represents (foldl bd_push b es) (ds @ es)"
  using holds_pushes [of b ds es] by (auto simp: represents_def)

lemma represents_merge:
  assumes "represents b ds" and "represents c es" and "keys_distinct (ds @ es)"
  shows "represents (bd_merge b c) (ds @ es)"
proof -
  let ?b = "b\<lparr> bd_overflowed := bd_overflowed b \<or> bd_overflowed c \<rparr>"
  have hb: "holds ?b ds" using assms(1) by (simp add: represents_def holds_def)
  have items: "mset (bd_items c) = mset (smallest es)"
    using assms(2) by (auto simp: represents_def intro: holds_items)
  then have len: "length (bd_items c) = min MAX_DIAGNOSTICS (length es)"
    by (metis length_smallest size_mset)
  note kd = smallest_append_cong [OF assms(3) items]
  have 1: "holds (bd_merge b c) (ds @ es)"
    using holds_pushes [OF hb kd(1)] holds_cong [OF kd(2)] by (simp add: bd_merge_def)
  have "bd_overflowed (bd_merge b c) \<longleftrightarrow> bd_overflowed b \<or> bd_overflowed c \<or>
      (bd_items c \<noteq> [] \<and> MAX_DIAGNOSTICS < length ds + length (bd_items c))"
    using holds_pushes [OF hb kd(1)] by (simp add: bd_merge_def)
  also have "\<dots> \<longleftrightarrow> MAX_DIAGNOSTICS < length (ds @ es)"
    using assms(1,2) len MAX_DIAGNOSTICS_pos
    by (cases "bd_items c = []") (auto simp: represents_def min_def split: if_splits)
  finally show ?thesis using 1 by (simp add: represents_def)
qed

lemma represents_into_sorted:
  "represents b ds \<Longrightarrow> keys_distinct ds \<Longrightarrow> bd_into_sorted b = smallest ds"
  by (auto simp: represents_def intro: holds_into_sorted)

section \<open>Properties\<close>

lemma represents_merges:
  assumes "keys_distinct (ds @ concat dss)" and "represents b ds"
  shows "represents (foldl bd_merge b (map (foldl bd_push bd_default) dss)) (ds @ concat dss)"
  using assms
proof (induction dss arbitrary: b ds)
  case Nil
  then show ?case by simp
next
  case (Cons es dss)
  have kd: "keys_distinct es" "keys_distinct (ds @ es)" "keys_distinct ((ds @ es) @ concat dss)"
    using Cons.prems(1) by auto
  have "represents (foldl bd_push bd_default es) es"
    using represents_pushes [OF represents_default, of es] kd(1) by simp
  from represents_merge [OF Cons.prems(2) this kd(2)] Cons.IH [OF kd(3)] show ?case by simp
qed

text \<open>
  C31. The bounded working set does not depend on the order of work: however the findings of the
  files are grouped, pushed and merged, it ends up with the smallest of them in order, as many as
  the limit allows, and reports an overflow exactly when there were more than the limit.
\<close>

theorem working_set_is_smallest:
  assumes "mset (concat dss) = mset ds" and "keys_distinct ds"
  shows "bd_into_sorted (foldl bd_merge bd_default (map (foldl bd_push bd_default) dss)) =
           take MAX_DIAGNOSTICS (sort_key ev_key ds) \<and>
         (bd_overflowed (foldl bd_merge bd_default (map (foldl bd_push bd_default) dss)) \<longleftrightarrow>
           MAX_DIAGNOSTICS < length ds)"
proof -
  have kd: "keys_distinct (concat dss)" using assms by (metis keys_distinct_cong)
  have rep: "represents (foldl bd_merge bd_default (map (foldl bd_push bd_default) dss)) (concat dss)"
    using represents_merges [OF _ represents_default, of dss] kd by simp
  have "smallest (concat dss) = smallest ds" by (rule smallest_cong [OF kd assms(1)])
  moreover have "length (concat dss) = length ds" by (rule mset_eq_length [OF assms(1)])
  ultimately show ?thesis
    using rep represents_into_sorted [OF rep kd] by (simp add: smallest_def represents_def)
qed

definition sample_finding :: "bytes \<Rightarrow> nat \<Rightarrow> evaluated_diagnostic" where
  "sample_finding rule n =
     \<lparr> ev_diagnostic =
         \<lparr> diag_rule_id = rule, diag_severity = Warning, diag_message = ''finding'',
           diag_path = RepoPath ''a.js'', diag_range = None, diag_fingerprint = [],
           diag_language = JavaScript, diag_evidence = [] \<rparr>,
       ev_comparison_key = [], ev_materialization_order = n \<rparr>"

theorem working_set_is_smallest_witness:
  "bd_into_sorted (foldl bd_merge bd_default (map (foldl bd_push bd_default)
     [[sample_finding ''b'' 0], [sample_finding ''a'' 1]])) = [sample_finding ''a'' 1, sample_finding ''b'' 0]"
proof -
  have "sort_key ev_key [sample_finding ''a'' 1, sample_finding ''b'' 0] = [sample_finding ''a'' 1, sample_finding ''b'' 0]"
    by (simp add: ev_key_def sample_finding_def)
  then show ?thesis
    using working_set_is_smallest [of "[[sample_finding ''b'' 0], [sample_finding ''a'' 1]]"
        "[sample_finding ''a'' 1, sample_finding ''b'' 0]"]
    by (simp add: ev_key_def sample_finding_def MAX_DIAGNOSTICS_def)
qed

end
