(* ===== verification/Snapshot.thy ===== *)
theory Snapshot
  imports DataModel
begin

text \<open>
  Immutable source views: \<^verbatim>\<open>src/source/snapshot.rs\<close>. A snapshot is the ordered map of its files
  and the identity derived from them: the digest of a manifest that lists, per file, the
  length-prefixed path, language name and language mode and the 32-byte content identity.
\<close>

section \<open>Operations\<close>

record source_snapshot =
  snap_id :: content_view_id
  snap_files :: "(repo_path, source_file) btree_map"

fun language_name :: "language \<Rightarrow> bytes" where
  "language_name JavaScript = ''javascript''"
| "language_name TypeScript = ''typescript''"
| "language_name Rust = ''rust''"
| "language_name Python = ''python''"
| "language_name Go = ''go''"
| "language_name Hcl = ''hcl''"
| "language_name Shell = ''shell''"
| "language_name Protobuf = ''protobuf''"

definition manifest_entry :: "repo_path \<times> source_file \<Rightarrow> bytes" where
  "manifest_entry e =
     length_prefixed (as_bytes (fst e)) @
     length_prefixed (language_name (sf_language (snd e))) @
     length_prefixed (sf_language_mode (snd e)) @
     sf_content_id (snd e)"

definition snapshot_manifest :: "(repo_path, source_file) btree_map \<Rightarrow> bytes" where
  "snapshot_manifest m = concat (map manifest_entry m)"

definition snapshot_new :: "crates \<Rightarrow> source_file list \<Rightarrow> source_snapshot" where
  "snapshot_new K fs =
     (let m = bt_collect (map (\<lambda>f. (sf_path f, f)) fs)
      in \<lparr> snap_id = hash_domain K ''source-snapshot/v2'' [snapshot_manifest m], snap_files = m \<rparr>)"

definition snapshot_paths :: "source_snapshot \<Rightarrow> repo_path list" where
  "snapshot_paths s = map fst (snap_files s)"

definition snapshot_file_list :: "source_snapshot \<Rightarrow> source_file list" where
  "snapshot_file_list s = map snd (snap_files s)"

definition snapshot_len :: "source_snapshot \<Rightarrow> nat" where
  "snapshot_len s = length (snap_files s)"

definition snapshot_is_empty :: "source_snapshot \<Rightarrow> bool" where
  "snapshot_is_empty s \<longleftrightarrow> snap_files s = []"

definition snapshot_read :: "source_snapshot \<Rightarrow> repo_path \<Rightarrow> source_file option" where
  "snapshot_read s p = bt_get (snap_files s) p"

section \<open>Well-formed snapshots\<close>

text \<open>Each entry is filed under its own path.\<close>

definition snapshot_wf :: "source_snapshot \<Rightarrow> bool" where
  "snapshot_wf s \<longleftrightarrow> bt_wf (snap_files s) \<and> (\<forall>e\<in>set (snap_files s). sf_path (snd e) = fst e)"

lemma snapshot_read_path: "snapshot_wf s \<Longrightarrow> snapshot_read s p = Some f \<Longrightarrow> sf_path f = p"
  by (fastforce simp: snapshot_wf_def snapshot_read_def dest: map_of_SomeD)

lemma snapshot_new_wf: "snapshot_wf (snapshot_new K fs)"
proof -
  let ?m = "bt_collect (map (\<lambda>f. (sf_path f, f)) fs)"
  have "sf_path v = k" if "(k, v) \<in> set ?m" for k v
  proof -
    from that have "bt_get ?m k = Some v" by (simp add: bt_get_in_set)
    then have "map_of (rev (map (\<lambda>f. (sf_path f, f)) fs)) k = Some v" by (simp add: bt_get_collect)
    then show ?thesis by (auto dest!: map_of_SomeD)
  qed
  then show ?thesis by (auto simp: snapshot_wf_def snapshot_new_def Let_def)
qed

lemma snapshot_paths_wf: "snapshot_wf s \<Longrightarrow> bs_wf (snapshot_paths s)"
  by (simp add: snapshot_wf_def snapshot_paths_def bs_keys_wf)

lemma snapshot_read_None: "snapshot_read s p = None \<longleftrightarrow> p \<notin> set (snapshot_paths s)"
  by (simp add: snapshot_read_def snapshot_paths_def map_of_eq_None_iff)

lemma language_name_inject [simp]: "language_name a = language_name b \<longleftrightarrow> a = b"
  by (cases a; cases b) simp_all

text \<open>What the identity covers of a file.\<close>

definition file_identity :: "repo_path \<times> source_file \<Rightarrow> repo_path \<times> language \<times> bytes \<times> content_id" where
  "file_identity e = (fst e, sf_language (snd e), sf_language_mode (snd e), sf_content_id (snd e))"

definition entry_bounded :: "repo_path \<times> source_file \<Rightarrow> bool" where
  "entry_bounded e \<longleftrightarrow>
     length (as_bytes (fst e)) \<le> usize_max \<and> length (sf_language_mode (snd e)) \<le> usize_max \<and>
     length (sf_content_id (snd e)) = 32"

lemma length_language_name: "length (language_name l) \<le> usize_max"
  by (cases l) (simp_all add: usize_max_def)

lemma manifest_entry_append_inject:
  assumes "manifest_entry a @ x = manifest_entry b @ y" and "entry_bounded a" and "entry_bounded b"
  shows "file_identity a = file_identity b \<and> x = y"
proof -
  obtain p f where a: "a = (p, f)" by (cases a)
  obtain q g where b: "b = (q, g)" by (cases b)
  from assms have eq: "length_prefixed (as_bytes p) @ (length_prefixed (language_name (sf_language f)) @
        length_prefixed (sf_language_mode f) @ sf_content_id f @ x) =
      length_prefixed (as_bytes q) @ (length_prefixed (language_name (sf_language g)) @
        length_prefixed (sf_language_mode g) @ sf_content_id g @ y)"
    by (simp add: a b manifest_entry_def)
  note bounds = assms(2,3) [unfolded entry_bounded_def a b fst_conv snd_conv]
  from length_prefixed_append_inject [OF eq] bounds have
    1: "as_bytes p = as_bytes q" and
    eq1: "length_prefixed (language_name (sf_language f)) @
        (length_prefixed (sf_language_mode f) @ sf_content_id f @ x) =
      length_prefixed (language_name (sf_language g)) @
        (length_prefixed (sf_language_mode g) @ sf_content_id g @ y)"
    by auto
  from length_prefixed_append_inject [OF eq1] have
    2: "sf_language f = sf_language g" and
    eq2: "length_prefixed (sf_language_mode f) @ (sf_content_id f @ x) =
      length_prefixed (sf_language_mode g) @ (sf_content_id g @ y)"
    by (auto simp: length_language_name)
  from length_prefixed_append_inject [OF eq2] bounds have
    3: "sf_language_mode f = sf_language_mode g" and "sf_content_id f @ x = sf_content_id g @ y"
    by auto
  then have "sf_content_id f = sf_content_id g \<and> x = y"
    using bounds by (simp add: append_eq_append_conv)
  with 1 2 3 show ?thesis by (simp add: a b file_identity_def repo_path.expand)
qed

lemma manifest_entry_neq_Nil: "manifest_entry e \<noteq> []"
  by (simp add: manifest_entry_def length_prefixed_def flip: length_0_conv)

lemma snapshot_manifest_inject:
  assumes "snapshot_manifest m = snapshot_manifest m'"
    and "\<forall>e\<in>set m. entry_bounded e" and "\<forall>e\<in>set m'. entry_bounded e"
  shows "map file_identity m = map file_identity m'"
  using assms unfolding snapshot_manifest_def
proof (induction m arbitrary: m')
  case Nil
  then show ?case by (cases m') (auto simp: manifest_entry_neq_Nil)
next
  case (Cons a m)
  then obtain b r where m': "m' = b # r"
    by (cases m') (auto simp: manifest_entry_neq_Nil)
  with Cons.prems have "file_identity a = file_identity b \<and>
      concat (map manifest_entry m) = concat (map manifest_entry r)"
    by (intro manifest_entry_append_inject) auto
  with Cons m' show ?case by auto
qed

lemma map_eq_elements:
  assumes "map f xs = map f ys" and "\<And>a b. a \<in> set xs \<Longrightarrow> b \<in> set ys \<Longrightarrow> f a = f b \<Longrightarrow> a = b"
  shows "xs = ys"
proof (rule nth_equalityI)
  show len: "length xs = length ys" using map_eq_imp_length_eq [OF assms(1)] .
  fix i assume "i < length xs"
  with len assms(1) show "xs ! i = ys ! i"
    by (intro assms(2)) (auto simp: list_eq_iff_nth_eq)
qed

lemma manifest_bounded:
  "length x \<le> usize_max \<Longrightarrow> \<forall>p\<in>set [''source-snapshot/v2'', x]. length p \<le> usize_max"
  by (simp add: usize_max_def)

lemma snapshot_new_entry:
  assumes "e \<in> set (snap_files (snapshot_new K fs))"
  shows "snd e \<in> set fs" and "fst e = sf_path (snd e)" and "snapshot_read (snapshot_new K fs) (fst e) = Some (snd e)"
proof -
  have m: "snap_files (snapshot_new K fs) = bt_collect (map (\<lambda>f. (sf_path f, f)) fs)"
    by (simp add: snapshot_new_def Let_def)
  then show read: "snapshot_read (snapshot_new K fs) (fst e) = Some (snd e)"
    using assms by (cases e) (simp add: snapshot_read_def bt_get_in_set)
  then have "map_of (rev (map (\<lambda>f. (sf_path f, f)) fs)) (fst e) = Some (snd e)"
    by (simp add: snapshot_read_def m bt_get_collect)
  then show "snd e \<in> set fs" "fst e = sf_path (snd e)" by (auto dest!: map_of_SomeD)
qed

lemma content_id_bytes:
  assumes "sf_content_id f = ContentId_of K (sf_bytes f)" and "sf_content_id g = ContentId_of K (sf_bytes g)"
    and "sf_content_id f = sf_content_id g"
    and "length (sf_bytes f) \<le> usize_max" and "length (sf_bytes g) \<le> usize_max"
  shows "sf_bytes f = sf_bytes g \<or>
    sha_collision K (hash_input ''content/v1'' [sf_bytes f]) (hash_input ''content/v1'' [sf_bytes g])"
  using hash_domain_eqD [of K "''content/v1''" "[sf_bytes f]" "''content/v1''" "[sf_bytes g]"] assms
  by (simp add: ContentId_of_def usize_max_def)

text \<open>Entries with the same identity are the same entry when their contents do not collide.\<close>

lemma same_entry:
  assumes "file_identity a = file_identity b"
    and "a \<in> set (snap_files (snapshot_new K fs))" and "b \<in> set (snap_files (snapshot_new K gs))"
    and "sf_bytes (snd a) = sf_bytes (snd b)"
  shows "a = b"
  using assms(1,4) snapshot_new_entry(2) [OF assms(2)] snapshot_new_entry(2) [OF assms(3)]
  by (cases a; cases b) (auto simp: file_identity_def intro: source_file.equality)

section \<open>Properties\<close>

text \<open>
  C38. The identity of a snapshot determines its files: two snapshots of files whose content
  identities are the digests of their bytes, with the same identity, are the same list of
  paths, languages, language modes and contents; or their two manifests are a collision of
  SHA-256; or the contents that both give to some path are one.
\<close>

theorem snapshot_id_determines_files:
  assumes "snap_id (snapshot_new K fs) = snap_id (snapshot_new K gs)"
    and "\<forall>f\<in>set fs \<union> set gs. sf_content_id f = ContentId_of K (sf_bytes f)"
    and "\<forall>f\<in>set fs \<union> set gs. length (as_bytes (sf_path f)) \<le> usize_max \<and>
      length (sf_language_mode f) \<le> usize_max \<and> length (sf_bytes f) \<le> usize_max"
    and "sha256_digest_len K"
    and "length (snapshot_manifest (snap_files (snapshot_new K fs))) \<le> usize_max"
    and "length (snapshot_manifest (snap_files (snapshot_new K gs))) \<le> usize_max"
  shows "snap_files (snapshot_new K fs) = snap_files (snapshot_new K gs) \<or>
    sha_collision K
      (hash_input ''source-snapshot/v2'' [snapshot_manifest (snap_files (snapshot_new K fs))])
      (hash_input ''source-snapshot/v2'' [snapshot_manifest (snap_files (snapshot_new K gs))]) \<or>
    (\<exists>p f g. snapshot_read (snapshot_new K fs) p = Some f \<and> snapshot_read (snapshot_new K gs) p = Some g \<and>
       sha_collision K (hash_input ''content/v1'' [sf_bytes f]) (hash_input ''content/v1'' [sf_bytes g]))"
proof (rule disjCI)
  let ?S = "snapshot_new K fs" and ?T = "snapshot_new K gs"
  let ?m = "snap_files ?S" and ?m' = "snap_files ?T"
  assume no: "\<not> (sha_collision K (hash_input ''source-snapshot/v2'' [snapshot_manifest ?m])
      (hash_input ''source-snapshot/v2'' [snapshot_manifest ?m']) \<or>
    (\<exists>p f g. snapshot_read ?S p = Some f \<and> snapshot_read ?T p = Some g \<and>
       sha_collision K (hash_input ''content/v1'' [sf_bytes f]) (hash_input ''content/v1'' [sf_bytes g])))"
  have wf: "snd e \<in> set fs \<union> set gs \<and> entry_bounded e" if "e \<in> set ?m \<union> set ?m'" for e
    using that snapshot_new_entry(1,2) [of e K fs] snapshot_new_entry(1,2) [of e K gs] assms(2-4)
    by (auto simp: entry_bounded_def ContentId_of_def hash_domain_def sha256_digest_len_def)
  from assms(1) have "hash_domain K ''source-snapshot/v2'' [snapshot_manifest ?m] =
      hash_domain K ''source-snapshot/v2'' [snapshot_manifest ?m']"
    by (simp add: snapshot_new_def Let_def)
  from hash_domain_eqD [OF this manifest_bounded [OF assms(5)] manifest_bounded [OF assms(6)]] no
  have "snapshot_manifest ?m = snapshot_manifest ?m'" by simp
  with wf have ids: "map file_identity ?m = map file_identity ?m'"
    by (intro snapshot_manifest_inject) auto
  have "a = b" if ab: "a \<in> set ?m" "b \<in> set ?m'" "file_identity a = file_identity b" for a b
  proof (rule same_entry [OF ab(3,1,2)])
    from wf ab have "snd a \<in> set fs \<union> set gs" "snd b \<in> set fs \<union> set gs" by blast+
    then have "sf_bytes (snd a) = sf_bytes (snd b) \<or> sha_collision K
        (hash_input ''content/v1'' [sf_bytes (snd a)]) (hash_input ''content/v1'' [sf_bytes (snd b)])"
      using assms(2,3) ab(3) by (intro content_id_bytes) (auto simp: file_identity_def)
    moreover have "fst a = fst b" using ab(3) by (simp add: file_identity_def)
    ultimately show "sf_bytes (snd a) = sf_bytes (snd b)"
      using no snapshot_new_entry(3) [OF ab(1)] snapshot_new_entry(3) [OF ab(2)] by auto
  qed
  with ids show "?m = ?m'" by (auto intro: map_eq_elements)
qed

text \<open>
  The hypotheses at a hash that keeps the last 32 bytes: the first file given for a path is
  replaced, and the order of the files does not matter.
\<close>

theorem snapshot_id_determines_files_witness:
  "\<exists>K. snap_id (snapshot_new K [SourceFile_new K (RepoPath ''a'') ''old'' Rust ''m'',
        SourceFile_new K (RepoPath ''b'') ''y'' Go ''n'', SourceFile_new K (RepoPath ''a'') ''x'' Rust ''m'']) =
      snap_id (snapshot_new K [SourceFile_new K (RepoPath ''a'') ''x'' Rust ''m'',
        SourceFile_new K (RepoPath ''b'') ''y'' Go ''n'']) \<and>
    ContentId_of K ''old'' \<noteq> ContentId_of K ''x'' \<and>
    snap_files (snapshot_new K [SourceFile_new K (RepoPath ''a'') ''old'' Rust ''m'',
        SourceFile_new K (RepoPath ''b'') ''y'' Go ''n'', SourceFile_new K (RepoPath ''a'') ''x'' Rust ''m'']) =
      snap_files (snapshot_new K [SourceFile_new K (RepoPath ''a'') ''x'' Rust ''m'',
        SourceFile_new K (RepoPath ''b'') ''y'' Go ''n''])"
proof -
  define K where "K = \<lparr> sha256 = (\<lambda>x. take 32 (rev x @ replicate 32 (CHR 0x00))), hex_encode = id,
    hex_decode = Some :: bytes \<Rightarrow> bytes option \<rparr>"
  define fs where "fs = [SourceFile_new K (RepoPath ''a'') ''old'' Rust ''m'',
    SourceFile_new K (RepoPath ''b'') ''y'' Go ''n'', SourceFile_new K (RepoPath ''a'') ''x'' Rust ''m'']"
  define gs where "gs = [SourceFile_new K (RepoPath ''a'') ''x'' Rust ''m'',
    SourceFile_new K (RepoPath ''b'') ''y'' Go ''n'']"
  have len: "sha256_digest_len K" by (auto simp: sha256_digest_len_def K_def min_def)
  then have id_len: "length (ContentId_of K b) = 32" for b
    by (simp add: sha256_digest_len_def ContentId_of_def hash_domain_def)
  have m: "snapshot_manifest (snap_files (snapshot_new K fs)) = snapshot_manifest (snap_files (snapshot_new K gs))"
    by (simp add: fs_def gs_def snapshot_new_def bt_collect_def snapshot_manifest_def manifest_entry_def SourceFile_new_def
        less_repo_path_def)
  have eq: "snap_id (snapshot_new K fs) = snap_id (snapshot_new K gs)"
    using m by (simp add: snapshot_new_def Let_def)
  have bounded: "length (snapshot_manifest (snap_files (snapshot_new K gs))) \<le> usize_max"
    by (simp add: gs_def snapshot_new_def bt_collect_def snapshot_manifest_def manifest_entry_def SourceFile_new_def
        less_repo_path_def length_prefixed_def id_len usize_max_def)
  have reads: "sf_bytes f = sf_bytes g" if "snapshot_read (snapshot_new K fs) p = Some f"
    "snapshot_read (snapshot_new K gs) p = Some g" for p f g
    using that by (auto simp: snapshot_read_def fs_def gs_def snapshot_new_def bt_collect_def SourceFile_new_def
        less_repo_path_def split: if_splits)
  have ids: "\<forall>f\<in>set fs \<union> set gs. sf_content_id f = ContentId_of K (sf_bytes f)"
    by (simp add: fs_def gs_def SourceFile_new_def)
  have lens: "\<forall>f\<in>set fs \<union> set gs. length (as_bytes (sf_path f)) \<le> usize_max \<and>
      length (sf_language_mode f) \<le> usize_max \<and> length (sf_bytes f) \<le> usize_max"
    by (simp add: fs_def gs_def SourceFile_new_def usize_max_def)
  have "snap_files (snapshot_new K fs) = snap_files (snapshot_new K gs)"
    using snapshot_id_determines_files [OF eq ids lens len bounded [folded m] bounded]
  proof (elim disjE exE conjE)
    fix p f g
    assume "snapshot_read (snapshot_new K fs) p = Some f" "snapshot_read (snapshot_new K gs) p = Some g"
      and "sha_collision K (hash_input ''content/v1'' [sf_bytes f]) (hash_input ''content/v1'' [sf_bytes g])"
    then show ?thesis using reads [of p f g] by (simp add: sha_collision_def)
  qed (simp_all add: m sha_collision_def)
  moreover have "ContentId_of K ''old'' \<noteq> ContentId_of K ''x''"
    by (simp add: ContentId_of_def hash_domain_def hash_input_def length_prefixed_def K_def)
  ultimately show ?thesis using eq unfolding fs_def gs_def by blast
qed

text \<open>
  Reading a snapshot returns, for every path, the last file given for it, and the files are
  listed once each in path order.
\<close>

lemma snapshot_reads_last_file:
  "snapshot_read (snapshot_new K fs) p = find (\<lambda>f. sf_path f = p) (rev fs) \<and>
   bs_wf (snapshot_paths (snapshot_new K fs)) \<and>
   set (snapshot_paths (snapshot_new K fs)) = sf_path ` set fs"
proof -
  have 1: "map_of (map (\<lambda>f. (sf_path f, f)) gs) p = find (\<lambda>f. sf_path f = p) gs" for gs p
    by (induction gs) auto
  have "snapshot_read (snapshot_new K fs) p = map_of (map (\<lambda>f. (sf_path f, f)) (rev fs)) p" for p
    by (simp add: snapshot_read_def snapshot_new_def Let_def bt_get_collect rev_map)
  then have 2: "snapshot_read (snapshot_new K fs) p = find (\<lambda>f. sf_path f = p) (rev fs)" for p
    by (simp add: 1)
  have "q \<in> set (snapshot_paths (snapshot_new K fs)) \<longleftrightarrow> q \<in> sf_path ` set fs" for q
    using snapshot_read_None [of "snapshot_new K fs" q]
    by (simp add: 2 [of q] find_None_iff image_iff) (metis)
  then show ?thesis
    using 2 snapshot_paths_wf [OF snapshot_new_wf] by blast
qed

end
