(* ===== verification/Compare.thy ===== *)
theory Compare
  imports Bounded Snapshot "HOL-Library.Sublist"
begin

text \<open>
  Comparing a baseline with a candidate: \<^verbatim>\<open>exact_content_path_continuity\<close>,
  \<^verbatim>\<open>semantic_difference\<close>, \<^verbatim>\<open>public_fingerprint_difference\<close> and \<^verbatim>\<open>compared_diagnostics\<close> of
  \<^verbatim>\<open>src/engine.rs\<close>. The continuity map pairs removed with added paths of equal content; the
  semantic difference subtracts, per path and comparison key, as many candidate findings as
  the baseline had there or at the path's predecessor.
\<close>

section \<open>Inputs\<close>

record evaluation_input =
  in_path :: repo_path
  in_before :: "source_file option"
  in_after :: "source_file option"

definition file_count :: "evaluation_input \<Rightarrow> nat" where
  "file_count i = (if in_before i = None then 0 else 1) + (if in_after i = None then 0 else 1)"

definition opt_len :: "source_file option \<Rightarrow> nat" where
  "opt_len f = (case f of None \<Rightarrow> 0 | Some g \<Rightarrow> length (sf_bytes g))"

definition byte_count :: "evaluation_input \<Rightarrow> nat" where
  "byte_count i = sat_add (opt_len (in_before i)) (opt_len (in_after i))"

section \<open>Path continuity\<close>

type_synonym continuity_key = "content_id \<times> language \<times> bytes"
type_synonym continuity = "(repo_path, repo_path) btree_map"

definition continuity_key :: "source_file \<Rightarrow> continuity_key" where
  "continuity_key f = (sf_content_id f, sf_language f, sf_language_mode f)"

definition removed_entry :: "evaluation_input \<Rightarrow> (continuity_key \<times> repo_path) option" where
  "removed_entry i =
     (case (in_before i, in_after i) of
        (Some b, None) \<Rightarrow> Some (continuity_key b, in_path i)
      | _ \<Rightarrow> None)"

definition added_entry :: "evaluation_input \<Rightarrow> (continuity_key \<times> repo_path) option" where
  "added_entry i =
     (case (in_before i, in_after i) of
        (None, Some a) \<Rightarrow> Some (continuity_key a, in_path i)
      | _ \<Rightarrow> None)"

definition exact_content_path_continuity :: "evaluation_input list \<Rightarrow> continuity" where
  "exact_content_path_continuity inputs =
     (let removed = bt_group removed_entry inputs;
          added = bt_group added_entry inputs
      in fold (\<lambda>e c. case bt_get added (fst e) of
                   None \<Rightarrow> c
                 | Some after_paths \<Rightarrow>
                     fold (\<lambda>p. bt_insert (fst p) (snd p)) (zip (sort (snd e)) (sort after_paths)) c)
           removed [])"

definition path_continuity :: "comparison \<Rightarrow> evaluation_input list \<Rightarrow> continuity" where
  "path_continuity c inputs = (if c = All then [] else exact_content_path_continuity inputs)"

section \<open>Differences\<close>

definition decrement :: "('k::linorder, nat) btree_map \<Rightarrow> 'k \<Rightarrow> bool \<times> ('k, nat) btree_map" where
  "decrement counts key =
     (case bt_get counts key of
        None \<Rightarrow> (False, counts)
      | Some n \<Rightarrow> if n = 0 then (False, counts) else (True, bt_insert key (n - 1) counts))"

type_synonym diff_key = "repo_path \<times> bytes"

definition diff_key :: "evaluated_diagnostic \<Rightarrow> diff_key" where
  "diff_key item = (diag_path (ev_diagnostic item), ev_comparison_key item)"

definition alias_key :: "continuity \<Rightarrow> evaluated_diagnostic \<Rightarrow> diff_key option" where
  "alias_key continuity item =
     map_option (\<lambda>after. (after, ev_comparison_key item)) (bt_get continuity (diag_path (ev_diagnostic item)))"

definition exact_counts :: "evaluated_diagnostic list \<Rightarrow> (diff_key, nat) btree_map" where
  "exact_counts subtract = fold (\<lambda>item. bt_entry 0 Suc (diff_key item)) subtract []"

definition alias_counts :: "continuity \<Rightarrow> evaluated_diagnostic list \<Rightarrow> (diff_key, nat) btree_map" where
  "alias_counts continuity subtract =
     fold (\<lambda>item m. case alias_key continuity item of
                None \<Rightarrow> m | Some k \<Rightarrow> bt_entry 0 Suc k m) subtract []"

text \<open>Both passes of the source keep, in order, the items whose count is exhausted.\<close>

fun retain_unmatched :: "(diff_key, nat) btree_map \<Rightarrow> evaluated_diagnostic list \<Rightarrow> evaluated_diagnostic list" where
  "retain_unmatched counts [] = []"
| "retain_unmatched counts (item # items) =
     (let (hit, counts') = decrement counts (diff_key item)
      in if hit then retain_unmatched counts' items else item # retain_unmatched counts' items)"

definition semantic_survivors ::
  "evaluated_diagnostic list \<Rightarrow> evaluated_diagnostic list \<Rightarrow> continuity \<Rightarrow> evaluated_diagnostic list" where
  "semantic_survivors candidates subtract continuity =
     retain_unmatched (alias_counts continuity subtract)
       (retain_unmatched (exact_counts subtract) candidates)"

definition semantic_difference ::
  "evaluated_diagnostic list \<Rightarrow> evaluated_diagnostic list \<Rightarrow> continuity \<Rightarrow> diagnostic list" where
  "semantic_difference candidates subtract continuity =
     map ev_diagnostic (semantic_survivors candidates subtract continuity)"

definition public_fingerprint_difference ::
  "evaluated_diagnostic list \<Rightarrow> evaluated_diagnostic list \<Rightarrow> diagnostic list" where
  "public_fingerprint_difference candidates subtract =
     (let prior = bs_collect (map (\<lambda>item. diag_fingerprint (ev_diagnostic item)) subtract)
      in map ev_diagnostic
           (filter (\<lambda>item. diag_fingerprint (ev_diagnostic item) \<notin> set prior) candidates))"

definition compared_diagnostics ::
  "comparison \<Rightarrow> evaluated_diagnostic list \<Rightarrow> evaluated_diagnostic list \<Rightarrow> continuity \<Rightarrow> bool \<Rightarrow> diagnostic list" where
  "compared_diagnostics comparison before after continuity public_fingerprint_comparison =
     (case comparison of
        All \<Rightarrow> map ev_diagnostic after
      | Introduced \<Rightarrow>
          if public_fingerprint_comparison then public_fingerprint_difference after before
          else semantic_difference after before continuity)"

section \<open>Counting\<close>

definition cnt :: "(diff_key, nat) btree_map \<Rightarrow> diff_key \<Rightarrow> nat" where
  "cnt m k = (case bt_get m k of None \<Rightarrow> 0 | Some n \<Rightarrow> n)"

lemma cnt_Nil [simp]: "cnt [] k = 0"
  by (simp add: cnt_def)

lemma cnt_bump: "bt_wf m \<Longrightarrow> cnt (bt_entry 0 Suc k m) j = (if j = k then Suc (cnt m k) else cnt m j)"
  by (auto simp: cnt_def split: option.splits)

lemma decrement_hit: "fst (decrement m k) \<longleftrightarrow> 0 < cnt m k"
  by (auto simp: decrement_def cnt_def split: option.splits)

lemma decrement_wf: "bt_wf m \<Longrightarrow> bt_wf (snd (decrement m k))"
  by (auto simp: decrement_def split: option.splits)

lemma decrement_cnt: "bt_wf m \<Longrightarrow> cnt (snd (decrement m k)) j = (if j = k then cnt m k - 1 else cnt m j)"
  by (auto simp: decrement_def cnt_def split: option.splits)

lemma exact_counts_cnt:
  "bt_wf m \<Longrightarrow>
   bt_wf (fold (\<lambda>item. bt_entry 0 Suc (diff_key item)) xs m) \<and>
   cnt (fold (\<lambda>item. bt_entry 0 Suc (diff_key item)) xs m) k
     = cnt m k + count_list (map diff_key xs) k"
  by (induction xs arbitrary: m) (auto simp: cnt_bump)

lemma cnt_exact_counts: "cnt (exact_counts xs) k = count_list (map diff_key xs) k"
  and wf_exact_counts: "bt_wf (exact_counts xs)"
  by (simp_all add: exact_counts_def exact_counts_cnt)

lemma alias_counts_cnt:
  "bt_wf m \<Longrightarrow>
   bt_wf (fold (\<lambda>item m. case alias_key c item of None \<Rightarrow> m | Some k \<Rightarrow> bt_entry 0 Suc k m) xs m) \<and>
   cnt (fold (\<lambda>item m. case alias_key c item of None \<Rightarrow> m | Some k \<Rightarrow> bt_entry 0 Suc k m) xs m) k
     = cnt m k + count_list (map (alias_key c) xs) (Some k)"
  by (induction xs arbitrary: m) (auto simp: cnt_bump split: option.splits)

lemma cnt_alias_counts: "cnt (alias_counts c xs) k = count_list (map (alias_key c) xs) (Some k)"
  and wf_alias_counts: "bt_wf (alias_counts c xs)"
  by (simp_all add: alias_counts_def alias_counts_cnt)

lemma retain_unmatched_count:
  "bt_wf m \<Longrightarrow>
   count_list (map diff_key (retain_unmatched m xs)) k = count_list (map diff_key xs) k - cnt m k"
proof (induction xs arbitrary: m)
  case Nil
  then show ?case by simp
next
  case (Cons x xs)
  obtain hit m' where d: "decrement m (diff_key x) = (hit, m')" by fastforce
  have hit: "hit \<longleftrightarrow> 0 < cnt m (diff_key x)"
    using decrement_hit [of m "diff_key x"] by (simp add: d)
  have m': "bt_wf m'" "\<And>j. cnt m' j = (if j = diff_key x then cnt m (diff_key x) - 1 else cnt m j)"
    using decrement_wf [OF Cons.prems, of "diff_key x"] decrement_cnt [OF Cons.prems, of "diff_key x"]
    by (simp_all add: d)
  show ?case using Cons.IH [OF m'(1)] hit m'(2) by (auto simp: d)
qed

lemma retain_unmatched_subseq: "subseq (retain_unmatched m xs) xs"
  by (induction xs arbitrary: m) (auto split: prod.split)

subsection \<open>The pairs of the continuity map\<close>

definition continuity_pairs :: "evaluation_input list \<Rightarrow> (continuity_key \<times> repo_path list) \<Rightarrow> (repo_path \<times> repo_path) list" where
  "continuity_pairs inputs e = zip (sort (snd e)) (sort (members added_entry inputs (fst e)))"

definition all_pairs :: "evaluation_input list \<Rightarrow> (repo_path \<times> repo_path) list" where
  "all_pairs inputs = concat (map (continuity_pairs inputs) (bt_group removed_entry inputs))"

lemma fold_fold_concat: "fold (\<lambda>e. fold f (g e)) es c = fold f (concat (map g es)) c"
  by (induction es arbitrary: c) auto

lemma continuity_collect: "exact_content_path_continuity inputs = bt_collect (all_pairs inputs)"
proof -
  have step: "(case bt_get (bt_group added_entry inputs) (fst e) of None \<Rightarrow> c
       | Some ps \<Rightarrow> fold (\<lambda>p. bt_insert (fst p) (snd p)) (zip (sort (snd e)) (sort ps)) c)
     = fold (\<lambda>p. bt_insert (fst p) (snd p)) (continuity_pairs inputs e) c" for e c
    by (simp add: bt_get_group continuity_pairs_def)
  show ?thesis
    by (simp add: exact_content_path_continuity_def bt_collect_def all_pairs_def Let_def step
        fold_fold_concat)
qed

text \<open>Grouping the paths of distinct inputs: each group is distinct and groups are disjoint.\<close>

definition entry_of_path :: "(evaluation_input \<Rightarrow> (continuity_key \<times> repo_path) option) \<Rightarrow> bool" where
  "entry_of_path f \<longleftrightarrow> (\<forall>i k p. f i = Some (k, p) \<longrightarrow> p = in_path i)"

lemma entry_of_path_removed: "entry_of_path removed_entry"
  and entry_of_path_added: "entry_of_path added_entry"
  by (auto simp: entry_of_path_def removed_entry_def added_entry_def split: option.splits)

lemma members_distinct:
  "entry_of_path f \<Longrightarrow> distinct (map in_path inputs) \<Longrightarrow> distinct (members f inputs k)"
proof (induction inputs)
  case Nil
  then show ?case by simp
next
  case (Cons i inputs)
  then show ?case
    by (auto simp: entry_of_path_def in_members split: option.splits) (metis image_eqI)
qed

lemma members_disjoint:
  assumes "entry_of_path f" and "distinct (map in_path inputs)"
    and "p \<in> set (members f inputs k)" and "p \<in> set (members f inputs k')"
  shows "k = k'"
  using assms unfolding in_members entry_of_path_def
  by (metis distinct_map inj_onD option.inject prod.inject)

lemma in_zip_sort: "(a, b) \<in> set (zip (sort xs) (sort ys)) \<Longrightarrow> a \<in> set xs \<and> b \<in> set ys"
  by (metis set_sort set_zip_leftD set_zip_rightD)

lemma group_entry_members: "(k, ps) \<in> set (bt_group f xs) \<Longrightarrow> ps = members f xs k"
  by (metis bt_get_group bt_get_in_set bt_wf_group option.distinct(1) option.inject)

lemma all_pairsE:
  assumes "(b, a) \<in> set (all_pairs inputs)"
  obtains k where "b \<in> set (members removed_entry inputs k)" "a \<in> set (members added_entry inputs k)"
  using assms unfolding all_pairs_def continuity_pairs_def
  by (auto dest!: in_zip_sort group_entry_members)

lemma distinct_fst_zip: "distinct xs \<Longrightarrow> distinct (map fst (zip xs ys))"
  by (simp add: map_fst_zip_take distinct_take)

lemma distinct_snd_zip: "distinct ys \<Longrightarrow> distinct (map snd (zip xs ys))"
  by (simp add: map_snd_zip_take distinct_take)

lemma distinct_map_concat_groups:
  assumes "bt_wf es" and "\<And>e. e \<in> set es \<Longrightarrow> distinct (map h (g e))"
    and "\<And>e e' x y. e \<in> set es \<Longrightarrow> e' \<in> set es \<Longrightarrow> x \<in> set (g e) \<Longrightarrow> y \<in> set (g e') \<Longrightarrow> h x = h y \<Longrightarrow> fst e = fst e'"
  shows "distinct (map h (concat (map g es)))"
  using assms
proof (induction es)
  case Nil
  then show ?case by simp
next
  case (Cons e es)
  have "distinct (map h (concat (map g es)))"
    using Cons.prems by (intro Cons.IH) (auto simp: Ball_def)
  moreover have "h x \<noteq> h y" if "x \<in> set (g e)" "e' \<in> set es" "y \<in> set (g e')" for x y e'
  proof
    assume "h x = h y"
    with Cons.prems(3) [of e e' x y] that have "fst e = fst e'" by simp
    with Cons.prems(1) that(2) show False by auto
  qed
  ultimately show ?case using Cons.prems(2) [of e] by (fastforce simp: image_iff)
qed

lemma all_pairs_distinct:
  assumes "distinct (map in_path inputs)"
  shows "distinct (map fst (all_pairs inputs))" and "distinct (map snd (all_pairs inputs))"
proof -
  let ?es = "bt_group removed_entry inputs"
  have mem: "snd e = members removed_entry inputs (fst e)" if "e \<in> set ?es" for e
    using that group_entry_members by (metis prod.collapse)
  have in_pairs: "fst x \<in> set (members removed_entry inputs (fst e)) \<and>
      snd x \<in> set (members added_entry inputs (fst e))"
    if "e \<in> set ?es" "x \<in> set (continuity_pairs inputs e)" for e x
    using that(2) mem [OF that(1)] in_zip_sort [of "fst x" "snd x"]
    by (simp add: continuity_pairs_def)
  show "distinct (map fst (all_pairs inputs))"
    unfolding all_pairs_def
  proof (rule distinct_map_concat_groups)
    show "distinct (map fst (continuity_pairs inputs e))" if "e \<in> set ?es" for e
      using members_distinct [OF entry_of_path_removed assms] mem [OF that]
      by (simp add: continuity_pairs_def distinct_fst_zip)
    show "fst e = fst e'" if "e \<in> set ?es" "e' \<in> set ?es" "x \<in> set (continuity_pairs inputs e)"
      "y \<in> set (continuity_pairs inputs e')" "fst x = fst y" for e e' x y
      using members_disjoint [OF entry_of_path_removed assms] in_pairs that by metis
  qed simp
  show "distinct (map snd (all_pairs inputs))"
    unfolding all_pairs_def
  proof (rule distinct_map_concat_groups)
    show "distinct (map snd (continuity_pairs inputs e))" if "e \<in> set ?es" for e
      using members_distinct [OF entry_of_path_added assms]
      by (simp add: continuity_pairs_def distinct_snd_zip)
    show "fst e = fst e'" if "e \<in> set ?es" "e' \<in> set ?es" "x \<in> set (continuity_pairs inputs e)"
      "y \<in> set (continuity_pairs inputs e')" "snd x = snd y" for e e' x y
      using members_disjoint [OF entry_of_path_added assms] in_pairs that by metis
  qed simp
qed

lemma continuity_get:
  assumes "distinct (map in_path inputs)"
  shows "bt_get (exact_content_path_continuity inputs) b = Some a \<longleftrightarrow> (b, a) \<in> set (all_pairs inputs)"
  by (simp add: continuity_collect bt_get_collect_distinct [OF all_pairs_distinct(1) [OF assms]])

text \<open>No pair of a group is left over on both sides.\<close>

lemma zip_covers:
  assumes "x \<in> set xs" and "y \<in> set ys"
  shows "x \<in> fst ` set (zip xs ys) \<or> y \<in> snd ` set (zip xs ys)"
proof (cases "length xs \<le> length ys")
  case True
  then have "map fst (zip xs ys) = xs" by (simp add: map_fst_zip_take)
  then have "fst ` set (zip xs ys) = set xs" by (metis list.set_map)
  with assms(1) show ?thesis by simp
next
  case False
  then have "map snd (zip xs ys) = ys" by (simp add: map_snd_zip_take)
  then have "snd ` set (zip xs ys) = set ys" by (metis list.set_map)
  with assms(2) show ?thesis by simp
qed

lemma all_pairs_cover:
  assumes "b \<in> set (members removed_entry inputs k)" and "a \<in> set (members added_entry inputs k)"
  shows "b \<in> fst ` set (all_pairs inputs) \<or> a \<in> snd ` set (all_pairs inputs)"
proof -
  let ?e = "(k, members removed_entry inputs k)"
  have "?e \<in> set (bt_group removed_entry inputs)"
    using assms(1) by (simp add: bt_get_group flip: bt_get_in_set) auto
  then have "set (continuity_pairs inputs ?e) \<subseteq> set (all_pairs inputs)"
    by (auto simp: all_pairs_def)
  moreover have "b \<in> fst ` set (continuity_pairs inputs ?e) \<or> a \<in> snd ` set (continuity_pairs inputs ?e)"
    using assms unfolding continuity_pairs_def by (intro zip_covers) simp_all
  ultimately show ?thesis by blast
qed

lemma survivors_count:
  "count_list (map diff_key (semantic_survivors cs ss c)) k =
     count_list (map diff_key cs) k
       - (count_list (map diff_key ss) k + count_list (map (alias_key c) ss) (Some k))"
  by (simp add: semantic_survivors_def retain_unmatched_count wf_exact_counts wf_alias_counts
      cnt_exact_counts cnt_alias_counts)

section \<open>Properties\<close>

text \<open>
  C15. The semantic difference keeps the candidates' order and drops, for every path and
  comparison key, exactly as many candidates as the baseline has findings with that key at the
  path itself plus at a path whose content moved there: nothing else is suppressed and nothing
  is added.
\<close>

theorem semantic_difference_counts:
  "semantic_difference cs ss c = map ev_diagnostic (semantic_survivors cs ss c) \<and>
   subseq (semantic_survivors cs ss c) cs \<and>
   count_list (map diff_key (semantic_survivors cs ss c)) k =
     count_list (map diff_key cs) k
       - (count_list (map diff_key ss) k + count_list (map (alias_key c) ss) (Some k))"
proof -
  have "subseq (semantic_survivors cs ss c) cs"
    unfolding semantic_survivors_def
    by (rule subseq_order.trans [OF retain_unmatched_subseq retain_unmatched_subseq])
  then show ?thesis by (simp add: semantic_difference_def survivors_count)
qed

lemma count_list_all_zero: "(\<And>k. count_list xs k = 0) \<Longrightarrow> xs = []"
  by (metis count_list_0_iff last_in_set)

lemma semantic_difference_covered:
  assumes "\<And>k. count_list (map diff_key cs) k \<le>
              count_list (map diff_key ss) k + count_list (map (alias_key c) ss) (Some k)"
  shows "semantic_difference cs ss c = []"
proof -
  have "count_list (map diff_key (semantic_survivors cs ss c)) k = 0" for k
    using assms [of k] by (simp add: survivors_count)
  then have "map diff_key (semantic_survivors cs ss c) = []" by (rule count_list_all_zero)
  then show ?thesis by (simp add: semantic_difference_def)
qed

text \<open>
  Findings the baseline already has are never reported as introduced: when every key occurs
  among the candidates at most as often as in the baseline, at the same path or its predecessor,
  the semantic difference is empty; in particular an unchanged view introduces nothing.
\<close>

lemma no_finding_introduced:
  assumes "\<And>k. count_list (map diff_key cs) k \<le>
              count_list (map diff_key ss) k + count_list (map (alias_key c) ss) (Some k)"
  shows "semantic_difference cs ss c = []"
  using assms by (rule semantic_difference_covered)

definition sample_evaluated :: "bytes \<Rightarrow> bytes \<Rightarrow> evaluated_diagnostic" where
  "sample_evaluated path key =
     \<lparr> ev_diagnostic =
         \<lparr> diag_rule_id = ''test.rule'', diag_severity = Error, diag_message = ''finding'',
           diag_path = RepoPath path, diag_range = None, diag_fingerprint = key,
           diag_language = JavaScript, diag_evidence = [] \<rparr>,
       ev_comparison_key = key, ev_materialization_order = 0 \<rparr>"

text \<open>
  C33. Rename continuity is sound, one-to-one and maximal. It maps a removed path only to an
  added path with the same content, language and mode; no added path has two predecessors; and
  of a removed and an added file with the same content at least one is paired.
\<close>

theorem continuity_one_to_one:
  assumes "distinct (map in_path inputs)"
  shows "(bt_get (exact_content_path_continuity inputs) b = Some a \<longrightarrow>
           (\<exists>i\<in>set inputs. \<exists>j\<in>set inputs. \<exists>f g.
              in_path i = b \<and> in_before i = Some f \<and> in_after i = None \<and>
              in_path j = a \<and> in_before j = None \<and> in_after j = Some g \<and>
              continuity_key f = continuity_key g)) \<and>
         (bt_get (exact_content_path_continuity inputs) b = Some a \<longrightarrow>
          bt_get (exact_content_path_continuity inputs) b' = Some a \<longrightarrow> b = b') \<and>
         (i \<in> set inputs \<longrightarrow> j \<in> set inputs \<longrightarrow>
          in_before i = Some f \<longrightarrow> in_after i = None \<longrightarrow> in_before j = None \<longrightarrow> in_after j = Some g \<longrightarrow>
          continuity_key f = continuity_key g \<longrightarrow>
          bt_get (exact_content_path_continuity inputs) (in_path i) \<noteq> None \<or>
          (\<exists>p. bt_get (exact_content_path_continuity inputs) p = Some (in_path j)))"
proof (intro conjI impI)
  assume "bt_get (exact_content_path_continuity inputs) b = Some a"
  then have "(b, a) \<in> set (all_pairs inputs)" by (simp add: continuity_get [OF assms])
  then obtain k where "b \<in> set (members removed_entry inputs k)" "a \<in> set (members added_entry inputs k)"
    by (rule all_pairsE)
  then show "\<exists>i\<in>set inputs. \<exists>j\<in>set inputs. \<exists>f g.
              in_path i = b \<and> in_before i = Some f \<and> in_after i = None \<and>
              in_path j = a \<and> in_before j = None \<and> in_after j = Some g \<and>
              continuity_key f = continuity_key g"
    unfolding in_members removed_entry_def added_entry_def by (fastforce split: option.splits)
next
  assume "bt_get (exact_content_path_continuity inputs) b = Some a"
    and "bt_get (exact_content_path_continuity inputs) b' = Some a"
  then show "b = b'"
    using all_pairs_distinct(2) [OF assms] inj_onD [of snd "set (all_pairs inputs)" "(b, a)" "(b', a)"]
    by (simp add: continuity_get [OF assms] distinct_map)
next
  assume "i \<in> set inputs" "j \<in> set inputs" "in_before i = Some f" "in_after i = None"
    "in_before j = None" "in_after j = Some g" "continuity_key f = continuity_key g"
  then have "in_path i \<in> set (members removed_entry inputs (continuity_key f))"
    "in_path j \<in> set (members added_entry inputs (continuity_key f))"
    unfolding in_members removed_entry_def added_entry_def by force+
  from all_pairs_cover [OF this]
  show "bt_get (exact_content_path_continuity inputs) (in_path i) \<noteq> None \<or>
        (\<exists>p. bt_get (exact_content_path_continuity inputs) p = Some (in_path j))"
    using continuity_get [OF assms] by (force simp: not_None_eq)
qed

definition sample_file :: "bytes \<Rightarrow> source_file" where
  "sample_file path =
     \<lparr> sf_path = RepoPath path, sf_bytes = ''x'', sf_content_id = ''c'', sf_language = JavaScript,
       sf_language_mode = ''js'' \<rparr>"

theorem continuity_one_to_one_witness:
  "bt_get (exact_content_path_continuity
     [\<lparr> in_path = RepoPath ''a'', in_before = Some (sample_file ''a''), in_after = None \<rparr>,
      \<lparr> in_path = RepoPath ''b'', in_before = None, in_after = Some (sample_file ''b'') \<rparr>])
     (RepoPath ''a'') \<noteq> None"
proof -
  let ?i = "\<lparr> in_path = RepoPath ''a'', in_before = Some (sample_file ''a''), in_after = None \<rparr>"
  let ?j = "\<lparr> in_path = RepoPath ''b'', in_before = None, in_after = Some (sample_file ''b'') \<rparr>"
  have d: "distinct (map in_path [?i, ?j])" by simp
  have key: "continuity_key (sample_file ''a'') = continuity_key (sample_file ''b'')"
    by (simp add: continuity_key_def sample_file_def)
  note cover = continuity_one_to_one [OF d, THEN conjunct2, THEN conjunct2, rule_format,
      of ?i ?j "sample_file ''a''" "sample_file ''b''"]
  have "bt_get (exact_content_path_continuity [?i, ?j]) (in_path ?i) \<noteq> None \<or>
    (\<exists>p. bt_get (exact_content_path_continuity [?i, ?j]) p = Some (in_path ?j))"
    by (rule cover) (simp_all add: key)
  moreover have "p = RepoPath ''a''"
    if "bt_get (exact_content_path_continuity [?i, ?j]) p = Some (in_path ?j)" for p
  proof -
    note sound = continuity_one_to_one [OF d, THEN conjunct1, rule_format, OF that]
    then show ?thesis by auto
  qed
  ultimately show ?thesis by auto
qed

end
