(* ===== verification/LineIndex.thy ===== *)
theory LineIndex
  imports DataModel
begin

text \<open>
  Lines and positions of a source: \<^verbatim>\<open>src/analysis/line_index.rs\<close>. A line ends at \<^verbatim>\<open>\n\<close>, \<^verbatim>\<open>\r\<close> or
  \<^verbatim>\<open>\r\n\<close>. \<open>line_start\<close> says which offsets begin a line without scanning; the scanner is proved
  to collect exactly these, and a position to name the line and column its byte is on. Offsets into
  a slice are below \<^verbatim>\<open>isize::MAX\<close>, so the scanner's saturating additions are plain additions.
\<close>

section \<open>The scanner\<close>

abbreviation LF :: byte where "LF \<equiv> CHR 0x0A"
abbreviation CR :: byte where "CR \<equiv> CHR 0x0D"

definition is_terminator :: "byte \<Rightarrow> bool" where
  "is_terminator b \<longleftrightarrow> b = LF \<or> b = CR"

record line_index =
  li_starts :: "nat list"
  li_byte_base :: nat

definition advance :: "bytes \<Rightarrow> nat \<Rightarrow> nat list \<Rightarrow> nat \<times> nat list" where
  "advance source index starts =
     (if source ! index = CR \<and> get_at source (index + 1) = Some LF then
        (index + 2, starts @ [index + 2])
      else if source ! index = CR \<or> source ! index = LF then
        (index + 1, starts @ [index + 1])
      else (index + 1, starts))"

lemma advance_progress: "index < fst (advance source index starts)"
  by (simp add: advance_def)

function scan_lines :: "bytes \<Rightarrow> nat \<Rightarrow> nat list \<Rightarrow> nat list" where
  "scan_lines source index starts =
     (if index < length source then
        scan_lines source (fst (advance source index starts)) (snd (advance source index starts))
      else starts)"
  by pat_completeness auto
termination
  by (relation "measure (\<lambda>(source, index, starts). length source - index)")
    (auto intro!: diff_less_mono2 advance_progress simp: case_prod_unfold)

declare scan_lines.simps [simp del]

definition LineIndex_new :: "bytes \<Rightarrow> nat \<Rightarrow> line_index" where
  "LineIndex_new source byte_base =
     \<lparr> li_starts = scan_lines source 0 [0], li_byte_base = byte_base \<rparr>"

definition li_position :: "line_index \<Rightarrow> nat \<Rightarrow> position" where
  "li_position li byte =
     (let line = partition_point (\<lambda>start. start \<le> byte) (li_starts li) - 1;
          line_start = (case get_at (li_starts li) line of None \<Rightarrow> 0 | Some s \<Rightarrow> s)
      in \<lparr> pos_line = to_u32 (sat_add line 1),
           pos_column = to_u32 (sat_add (byte - line_start) 1),
           pos_byte = to_u32 (sat_add byte (li_byte_base li)) \<rparr>)"

definition byte_range :: "line_index \<Rightarrow> nat \<Rightarrow> nat \<Rightarrow> source_range" where
  "byte_range li start end = \<lparr> range_start = li_position li start, range_end = li_position li end \<rparr>"

definition line_span :: "line_index \<Rightarrow> nat \<Rightarrow> nat \<Rightarrow> nat" where
  "line_span li start end =
     sat_add32 (pos_line (li_position li end) - pos_line (li_position li start)) 1"

section \<open>Which offsets begin a line\<close>

definition line_start :: "bytes \<Rightarrow> nat \<Rightarrow> bool" where
  "line_start src i \<longleftrightarrow>
     i = 0 \<or> (i \<le> length src \<and>
       (src ! (i - 1) = LF \<or> (src ! (i - 1) = CR \<and> get_at src i \<noteq> Some LF)))"

text \<open>The offset is not between the two bytes of a \<^verbatim>\<open>\r\n\<close>.\<close>

definition between_lines :: "bytes \<Rightarrow> nat \<Rightarrow> bool" where
  "between_lines src i \<longleftrightarrow> \<not> (0 < i \<and> src ! (i - 1) = CR \<and> get_at src i = Some LF)"

lemma line_start_0 [simp]: "line_start src 0"
  by (simp add: line_start_def)

lemma line_start_le: "line_start src i \<Longrightarrow> i \<le> length src"
  by (auto simp: line_start_def)

lemma line_start_Suc:
  "line_start src (Suc i) \<longleftrightarrow>
     Suc i \<le> length src \<and> (src ! i = LF \<or> (src ! i = CR \<and> get_at src (Suc i) \<noteq> Some LF))"
  by (simp add: line_start_def)

text \<open>One step of the scanner, seen as the line starts it adds.\<close>

lemma advance_cases:
  assumes "index < length src" and "between_lines src index"
  obtains (crlf) "src ! index = CR" "Suc index < length src" "src ! Suc index = LF"
      "advance src index starts = (Suc (Suc index), starts @ [Suc (Suc index)])"
      "\<not> line_start src (Suc index)" "line_start src (Suc (Suc index))" "between_lines src (Suc (Suc index))"
  | (single) "is_terminator (src ! index)"
      "\<not> (src ! index = CR \<and> get_at src (Suc index) = Some LF)"
      "advance src index starts = (Suc index, starts @ [Suc index])"
      "line_start src (Suc index)" "between_lines src (Suc index)"
  | (inside) "\<not> is_terminator (src ! index)" "advance src index starts = (Suc index, starts)"
      "\<not> line_start src (Suc index)" "between_lines src (Suc index)"
proof (cases "src ! index = CR \<and> get_at src (Suc index) = Some LF")
  case True
  then show ?thesis
    by (intro crlf) (auto simp: advance_def line_start_Suc between_lines_def get_at_Some)
next
  case other: False
  show ?thesis
  proof (cases "is_terminator (src ! index)")
    case True
    with other assms show ?thesis
      by (intro single) (auto simp: advance_def line_start_Suc between_lines_def is_terminator_def)
  next
    case False
    with assms show ?thesis
      by (intro inside) (auto simp: advance_def line_start_Suc between_lines_def is_terminator_def)
  qed
qed

text \<open>The scanner collects, in order, the line starts up to where it is.\<close>

definition starts_upto :: "bytes \<Rightarrow> nat \<Rightarrow> nat list" where
  "starts_upto src n = filter (line_start src) [0..<Suc n]"

lemma starts_upto_Suc:
  "starts_upto src (Suc n) = starts_upto src n @ (if line_start src (Suc n) then [Suc n] else [])"
  by (simp add: starts_upto_def)

lemma scan_lines_starts:
  assumes "index \<le> length src" and "between_lines src index"
  shows "scan_lines src index (starts_upto src index) = starts_upto src (length src)"
  using assms
proof (induction "length src - index" arbitrary: index rule: less_induct)
  case less
  show ?case
  proof (cases "index < length src")
    case False
    with less.prems show ?thesis by (simp add: scan_lines.simps)
  next
    case True
    from True less.prems(2) show ?thesis
    proof (cases rule: advance_cases [where starts = "starts_upto src index"])
      case crlf
      then have "scan_lines src index (starts_upto src index)
          = scan_lines src (Suc (Suc index)) (starts_upto src (Suc (Suc index)))"
        using True by (subst scan_lines.simps) (simp add: starts_upto_Suc)
      then show ?thesis using crlf less.hyps [of "Suc (Suc index)"] by simp
    next
      case single
      then have "scan_lines src index (starts_upto src index)
          = scan_lines src (Suc index) (starts_upto src (Suc index))"
        using True by (subst scan_lines.simps) (simp add: starts_upto_Suc)
      then show ?thesis using True single less.hyps [of "Suc index"] by simp
    next
      case inside
      then have "scan_lines src index (starts_upto src index)
          = scan_lines src (Suc index) (starts_upto src (Suc index))"
        using True by (subst scan_lines.simps) (simp add: starts_upto_Suc)
      then show ?thesis using True inside less.hyps [of "Suc index"] by simp
    qed
  qed
qed

lemma LineIndex_starts: "li_starts (LineIndex_new src base) = starts_upto src (length src)"
  using scan_lines_starts [of 0 src]
  by (simp add: LineIndex_new_def starts_upto_def between_lines_def)

lemma sorted_starts_upto [simp]: "sorted (starts_upto src n)" "distinct (starts_upto src n)"
  by (simp_all add: starts_upto_def sorted_wrt_filter del: upt_Suc)

lemma set_starts_upto: "set (starts_upto src n) = {i. i \<le> n \<and> line_start src i}"
  by (auto simp: starts_upto_def less_Suc_eq_le simp del: upt_Suc)

lemma length_starts_upto: "length (starts_upto src n) = card {i. i \<le> n \<and> line_start src i}"
  using distinct_card [of "starts_upto src n"] by (simp add: set_starts_upto)

section \<open>Positions\<close>

text \<open>The line a byte is on: the greatest line start at or before it.\<close>

definition start_of :: "bytes \<Rightarrow> nat \<Rightarrow> nat" where
  "start_of src byte = last (starts_upto src (min byte (length src)))"

lemma starts_upto_neq_Nil [simp]: "starts_upto src n \<noteq> []"
  by (auto simp: starts_upto_def filter_empty_conv simp del: upt_Suc intro!: bexI [of _ 0])

lemma filter_le_starts_upto:
  "filter (\<lambda>s. s \<le> byte) (starts_upto src n) = starts_upto src (min byte n)"
proof (rule sorted_distinct_set_unique)
  show "set (filter (\<lambda>s. s \<le> byte) (starts_upto src n)) = set (starts_upto src (min byte n))"
    by (auto simp: set_starts_upto)
qed (simp_all add: sorted_filter [of id, simplified])

lemma start_of_props:
  "line_start src (start_of src byte)" "start_of src byte \<le> byte" "start_of src byte \<le> length src"
  "line_start src s \<Longrightarrow> s \<le> byte \<Longrightarrow> s \<le> start_of src byte"
proof -
  have "start_of src byte \<in> set (starts_upto src (min byte (length src)))"
    by (simp add: start_of_def)
  then show "line_start src (start_of src byte)" "start_of src byte \<le> byte" "start_of src byte \<le> length src"
    by (simp_all add: set_starts_upto)
  assume "line_start src s" "s \<le> byte"
  then have "s \<in> set (starts_upto src (min byte (length src)))"
    by (simp add: set_starts_upto line_start_le)
  then show "s \<le> start_of src byte"
    using sorted_map_le_last [of s "starts_upto src (min byte (length src))" id]
    by (simp add: start_of_def)
qed

lemma starts_upto_prefix: "n \<le> m \<Longrightarrow> \<exists>ys. starts_upto src m = starts_upto src n @ ys"
proof (induction m)
  case 0
  then show ?case by simp
next
  case (Suc m)
  then show ?case by (cases "n = Suc m") (auto simp: starts_upto_Suc)
qed

lemma position_of_new:
  "li_position (LineIndex_new src base) byte =
     \<lparr> pos_line = to_u32 (sat_add (card {s. line_start src s \<and> s \<le> byte} - 1) 1),
       pos_column = to_u32 (sat_add (byte - start_of src byte) 1),
       pos_byte = to_u32 (sat_add byte base) \<rparr>"
proof -
  let ?m = "min byte (length src)"
  have pp: "partition_point (\<lambda>s. s \<le> byte) (starts_upto src (length src)) = length (starts_upto src ?m)"
    by (simp add: partition_point_def takeWhile_le_sorted filter_le_starts_upto)
  have card: "length (starts_upto src ?m) = card {s. line_start src s \<and> s \<le> byte}"
    unfolding length_starts_upto by (rule arg_cong [where f = card]) (auto dest: line_start_le)
  have "get_at (starts_upto src (length src)) (length (starts_upto src ?m) - 1) = Some (start_of src byte)"
  proof -
    obtain ys where ys: "starts_upto src (length src) = starts_upto src ?m @ ys"
      using starts_upto_prefix [of ?m "length src" src] by auto
    have "0 < length (starts_upto src ?m)" by simp
    then have "length (starts_upto src ?m) - 1 < length (starts_upto src ?m)"
      and "length (starts_upto src ?m) - 1 < length (starts_upto src ?m) + length ys"
      by linarith+
    then show ?thesis
      unfolding ys by (simp add: get_at_def nth_append start_of_def last_conv_nth)
  qed
  with pp card show ?thesis
    by (simp add: li_position_def LineIndex_starts Let_def) (simp add: LineIndex_new_def)
qed

abbreviation lines_at :: "bytes \<Rightarrow> nat \<Rightarrow> nat set" where
  "lines_at src byte \<equiv> {s. line_start src s \<and> s \<le> byte}"

lemma finite_lines_at [simp]: "finite (lines_at src byte)"
  by (rule finite_subset [of _ "{..byte}"]) auto

lemma card_lines_at: "0 < card (lines_at src byte)" "card (lines_at src byte) \<le> Suc byte"
proof -
  show "0 < card (lines_at src byte)"
    by (auto simp: card_gt_0_iff intro!: exI [of _ 0])
  show "card (lines_at src byte) \<le> Suc byte"
    using card_mono [of "{..byte}" "lines_at src byte"] by auto
qed

lemma position_exact:
  assumes "length src + base < u32_max" and "byte \<le> length src"
  shows "li_position (LineIndex_new src base) byte =
    \<lparr> pos_line = card (lines_at src byte), pos_column = Suc (byte - start_of src byte),
      pos_byte = byte + base \<rparr>"
  using assms card_lines_at [of src byte] diff_le_self [of byte "start_of src byte"]
  by (auto simp: position_of_new sat_add_def to_u32_def u32_max_def usize_max_def min_def)

text \<open>Two bytes are on the same line, or the later one is on a later line.\<close>

lemma later_byte:
  assumes "a < b"
  shows "(start_of src a = start_of src b \<and> card (lines_at src a) = card (lines_at src b)) \<or>
         card (lines_at src a) < card (lines_at src b)"
proof (cases "start_of src b \<le> a")
  case True
  then have "start_of src a = start_of src b"
    using start_of_props [of src] assms by (meson le_antisym less_imp_le order_trans)
  moreover have "lines_at src a = lines_at src b"
    using True assms start_of_props(4) [of src _ b] by fastforce
  ultimately show ?thesis by simp
next
  case False
  then have "start_of src b \<in> lines_at src b - lines_at src a"
    using start_of_props [of src] by simp
  then have "lines_at src a \<subset> lines_at src b"
    using assms by auto
  then show ?thesis using psubset_card_mono [OF finite_lines_at] by blast
qed

section \<open>Properties\<close>

text \<open>
  C40. Positions name the byte they are for: on a source smaller than 4 GiB, the reported line is the
  number of line starts at or before the byte, the reported column is its distance from the last
  of them, counted from one, and the order of two bytes is the lexicographic order of their
  positions, so no two bytes share a position.
\<close>

theorem position_names_byte:
  assumes "length src + base < u32_max" and "a \<le> length src" and "b \<le> length src"
  defines "p \<equiv> li_position (LineIndex_new src base) a"
    and "q \<equiv> li_position (LineIndex_new src base) b"
  shows "pos_line p = card {s. line_start src s \<and> s \<le> a} \<and>
    (\<exists>s. line_start src s \<and> (\<forall>t. line_start src t \<and> t \<le> a \<longrightarrow> t \<le> s) \<and>
         a + 1 = s + pos_column p) \<and>
    (a < b \<longrightarrow> (pos_line p, pos_column p) < (pos_line q, pos_column q))"
proof -
  have p: "pos_line p = card (lines_at src a)" "pos_column p = Suc (a - start_of src a)"
    and q: "pos_line q = card (lines_at src b)" "pos_column q = Suc (b - start_of src b)"
    using assms by (simp_all add: position_exact)
  have "\<exists>s. line_start src s \<and> (\<forall>t. line_start src t \<and> t \<le> a \<longrightarrow> t \<le> s) \<and> a + 1 = s + pos_column p"
    using start_of_props [of src] p by (intro exI [of _ "start_of src a"]) simp
  moreover have "(pos_line p, pos_column p) < (pos_line q, pos_column q)" if "a < b"
    using later_byte [OF that, of src] start_of_props(2) [of src a] that
    by (auto simp: p q less_prod_def)
  ultimately show ?thesis using p by blast
qed

theorem position_names_byte_witness:
  "(pos_line (li_position (LineIndex_new ''ab'' 0) 0), pos_column (li_position (LineIndex_new ''ab'' 0) 0))
     < (pos_line (li_position (LineIndex_new ''ab'' 0) 1), pos_column (li_position (LineIndex_new ''ab'' 0) 1))"
  using position_names_byte [of "''ab''" 0 0 1, THEN conjunct2, THEN conjunct2]
  by (simp add: u32_max_def)

end
