(* ===== verification/AnalysisBase.thy ===== *)
theory AnalysisBase
  imports LineIndex Budgets
begin

text \<open>
  What the analyzers share: \<^verbatim>\<open>src/analysis/mod.rs\<close> without its dispatcher, which is in the theory
  \<open>Analyze\<close>. The line anchor, a digest of the source line a finding is on, is what lets a finding
  keep its identity when lines are inserted or removed around it.
\<close>

section \<open>Errors and fact skeletons\<close>

datatype analysis_error = AnalysisCancelled | AnalysisUnsupported bytes | AnalysisParser bytes

definition parser_failed_dependencies :: dependency_facts where
  "parser_failed_dependencies = \<lparr> dep_status = DParserFailed, dep_references = [] \<rparr>"

definition parser_failed :: callable_fingerprint_facts where
  "parser_failed = \<lparr> cff_status = FParserFailed, cff_callables = [] \<rparr>"

definition region_parser_failed :: region_fingerprint_facts where
  "region_parser_failed = default_region_fingerprint_facts\<lparr> rff_status := FParserFailed \<rparr>"

definition parser_failure_facts :: "bytes \<Rightarrow> bytes \<Rightarrow> raw_diagnostic list \<Rightarrow> file_facts" where
  "parser_failure_facts parser parser_version diagnostics =
     \<lparr> ff_diagnostics = diagnostics, ff_parser = parser, ff_parser_version = parser_version,
       ff_dependencies = parser_failed_dependencies,
       ff_callable_fingerprints = parser_failed,
       ff_region_fingerprints = region_parser_failed,
       ff_interfaces = default_interface_facts\<lparr> if_status := IParserFailed \<rparr> \<rparr>"

definition parser_evidence :: "bytes \<Rightarrow> bytes \<Rightarrow> evidence" where
  "parser_evidence parser parser_version =
     bt_collect [(''parser'', String parser), (''parserVersion'', String parser_version)]"

definition json_nat :: "nat \<Rightarrow> json" where
  "json_nat n = Number (PosInt n)"

definition metric_evidence :: "evidence \<Rightarrow> nat \<Rightarrow> nat \<Rightarrow> evidence" where
  "metric_evidence evidence actual limit =
     bt_insert ''limit'' (json_nat limit) (bt_insert ''actual'' (json_nat actual) evidence)"

section \<open>Source text helpers\<close>

abbreviation UTF8_BOM :: bytes where
  "UTF8_BOM \<equiv> [CHR 0xEF, CHR 0xBB, CHR 0xBF]"

definition source_without_utf8_bom :: "bytes \<Rightarrow> bytes \<times> nat" where
  "source_without_utf8_bom bs =
     (case strip_prefix UTF8_BOM bs of None \<Rightarrow> (bs, 0) | Some body \<Rightarrow> (body, length UTF8_BOM))"

text \<open>\<^verbatim>\<open>Vec::dedup\<close> drops an element equal to its predecessor.\<close>

definition sort_and_dedup :: "'a::linorder list \<Rightarrow> 'a list" where
  "sort_and_dedup items = remdups_adj (sort items)"

definition trim_ascii_whitespace :: "bytes \<Rightarrow> bytes" where
  "trim_ascii_whitespace bs =
     rev (dropWhile is_ascii_whitespace (rev (dropWhile is_ascii_whitespace bs)))"

definition slice :: "'a list \<Rightarrow> nat \<Rightarrow> nat \<Rightarrow> 'a list" where
  "slice xs start end = take (end - start) (drop start xs)"

definition line_begin :: "bytes \<Rightarrow> nat \<Rightarrow> nat" where
  "line_begin bs offset =
     (case rposition is_terminator (take offset bs) of None \<Rightarrow> 0 | Some index \<Rightarrow> index + 1)"

definition line_finish :: "bytes \<Rightarrow> nat \<Rightarrow> nat" where
  "line_finish bs offset =
     (case position is_terminator (drop offset bs) of None \<Rightarrow> length bs | Some index \<Rightarrow> offset + index)"

text \<open>The inner loop: walk back over line terminators.\<close>

definition skip_terminators_back :: "bytes \<Rightarrow> nat \<Rightarrow> nat" where
  "skip_terminators_back bs end = length (dropWhile is_terminator (rev (take end bs)))"

lemma line_begin_le: "line_begin bs n \<le> min n (length bs)"
  by (cases "rposition is_terminator (take n bs)") (auto simp: line_begin_def dest!: rposition_Some)

lemma rposition_not_last:
  assumes "rposition p xs = Some i" and "\<not> p (last xs)"
  shows "i + 1 < length xs"
proof -
  from rposition_Some [OF assms(1)] have "i < length xs" "p (xs ! i)" by auto
  moreover from this assms(2) have "i \<noteq> length xs - 1"
    by (metis last_conv_nth length_0_conv not_less_zero)
  ultimately show ?thesis by linarith
qed

lemma line_begin_less:
  assumes "0 < start"
  shows "line_begin bs (skip_terminators_back bs start) < start"
proof -
  let ?e = "skip_terminators_back bs start"
  have le: "?e \<le> start" "?e \<le> length bs"
    using length_dropWhile_le [of is_terminator "rev (take start bs)"]
    by (auto simp: skip_terminators_back_def)
  show ?thesis
  proof (cases "?e = 0")
    case True
    with assms show ?thesis by (simp add: line_begin_def rposition_def)
  next
    case False
    let ?d = "dropWhile is_terminator (rev (take start bs))"
    from False have ne: "?d \<noteq> []" by (simp add: skip_terminators_back_def)
    have pre: "take start bs = rev ?d @ rev (takeWhile is_terminator (rev (take start bs)))"
      by (metis rev_append rev_rev_ident takeWhile_dropWhile_id)
    have "take ?e bs = take ?e (take start bs)" using le by (simp add: min_def)
    also have "\<dots> = rev ?d" by (subst pre) (simp add: skip_terminators_back_def)
    finally have tk: "take ?e bs = rev ?d" .
    have last: "\<not> is_terminator (last (take ?e bs))"
      using hd_dropWhile [OF ne] by (simp add: tk last_rev)
    have "line_begin bs ?e < ?e"
    proof (cases "rposition is_terminator (take ?e bs)")
      case None
      with False show ?thesis by (simp add: line_begin_def)
    next
      case (Some i)
      from rposition_not_last [OF Some last] have "i + 1 < ?e" by simp
      with Some show ?thesis by (simp add: line_begin_def)
    qed
    with le show ?thesis by simp
  qed
qed

text \<open>The outer loop: while the line is blank, take the last line before its start.\<close>

function anchor_line :: "bytes \<Rightarrow> bytes \<Rightarrow> nat \<Rightarrow> bytes" where
  "anchor_line bs line start =
     (if line = [] \<and> start > 0 then
        let end = skip_terminators_back bs start; start' = line_begin bs end
        in anchor_line bs (trim_ascii_whitespace (slice bs start' end)) start'
      else line)"
  by pat_completeness auto
termination
  by (relation "measure (\<lambda>(bs, line, start). start)") (auto simp: line_begin_less)

declare anchor_line.simps [simp del]

lemma anchor_line_nonblank: "line \<noteq> [] \<Longrightarrow> anchor_line bs line start = line"
  by (subst anchor_line.simps) simp

definition strip_bom :: "bytes \<Rightarrow> bytes" where
  "strip_bom line = (case strip_prefix UTF8_BOM line of None \<Rightarrow> line | Some r \<Rightarrow> r)"

definition line_anchor :: "crates \<Rightarrow> bytes \<Rightarrow> nat \<Rightarrow> bytes" where
  "line_anchor K bs offset0 =
     (let offset = min offset0 (length bs);
          start = line_begin bs offset;
          end = line_finish bs offset;
          line = trim_ascii_whitespace (strip_bom (slice bs start end))
      in hex_encode K (take 12 (hash_domain K ''source-line-anchor/v1'' [anchor_line bs line start])))"

definition next_char_end :: "bytes \<Rightarrow> nat \<Rightarrow> nat" where
  "next_char_end source start =
     (let tail = drop start source
      in if utf8_valid tail
         then (case utf8_scalar_len tail of None \<Rightarrow> start | Some n \<Rightarrow> sat_add start n)
         else start)"

text \<open>\<^verbatim>\<open>std::str::Utf8Error\<close>, and the diagnostic built from it.\<close>

record utf8_error =
  valid_up_to :: nat
  error_len :: "nat option"

record invalid_utf8_input =
  iu_language :: bytes
  iu_rule_id :: bytes
  iu_source :: bytes
  iu_lines :: line_index
  iu_error :: utf8_error
  iu_evidence :: evidence

definition invalid_utf8_diagnostic :: "crates \<Rightarrow> invalid_utf8_input \<Rightarrow> raw_diagnostic" where
  "invalid_utf8_diagnostic K input =
     (let start = valid_up_to (iu_error input);
          end = min (sat_add start (case error_len (iu_error input) of None \<Rightarrow> 1 | Some n \<Rightarrow> n))
                  (length (iu_source input))
      in \<lparr> raw_rule_id = iu_rule_id input, raw_severity = Error,
           raw_message = iu_language input @ '' source is not valid UTF-8'',
           raw_range = Some (byte_range (iu_lines input) start end),
           raw_entity_key = ''syntax:invalid-utf8:'' @ line_anchor K (iu_source input) start,
           raw_cause_key = ''invalid_utf8'',
           raw_evidence = iu_evidence input \<rparr>)"

section \<open>The anchor of a line\<close>

lemma position_append:
  "position p (xs @ ys) =
     (case position p xs of Some i \<Rightarrow> Some i | None \<Rightarrow> map_option (\<lambda>i. length xs + i) (position p ys))"
proof (induction xs)
  case Nil
  show ?case by (cases "position p ys") simp_all
next
  case (Cons x xs)
  then show ?case by (cases "position p ys") (auto split: option.splits)
qed

lemma rposition_append:
  "\<forall>y\<in>set ys. \<not> p y \<Longrightarrow> rposition p (xs @ ys) = rposition p xs"
proof -
  assume "\<forall>y\<in>set ys. \<not> p y"
  then have "position p (rev ys) = None" by (simp add: position_None)
  then have "position p (rev (xs @ ys)) = map_option (\<lambda>i. length ys + i) (position p (rev xs))"
    by (simp add: position_append)
  then show ?thesis
    unfolding rposition_def by (cases "position p (rev xs)") auto
qed

lemma rposition_last: "xs \<noteq> [] \<Longrightarrow> p (last xs) \<Longrightarrow> rposition p xs = Some (length xs - 1)"
  by (cases xs rule: rev_cases) (auto simp: rposition_def)

lemma line_bounds:
  assumes "pre = [] \<or> is_terminator (last pre)" and "\<forall>b\<in>set line. \<not> is_terminator b"
    and "post = [] \<or> is_terminator (hd post)" and "k \<le> length line"
  shows "line_begin (pre @ line @ post) (length pre + k) = length pre"
    and "line_finish (pre @ line @ post) (length pre + k) = length pre + length line"
proof -
  have sub: "\<forall>b\<in>set (take k line). \<not> is_terminator b" "\<forall>b\<in>set (drop k line). \<not> is_terminator b"
    using assms(2) by (auto dest: in_set_takeD in_set_dropD)
  show "line_begin (pre @ line @ post) (length pre + k) = length pre"
    using assms(1,4) sub(1)
    by (cases "pre = []") (simp_all add: line_begin_def rposition_append rposition_last rposition_None [THEN iffD2])
  have "position is_terminator (drop k line) = None"
    using sub(2) by (simp add: position_None)
  then show "line_finish (pre @ line @ post) (length pre + k) = length pre + length line"
    using assms(3,4) by (cases post) (auto simp: line_finish_def position_append)
qed

text \<open>
  Inserting or deleting text on other lines does not move an anchor: for any offset within or
  at the end of a line that is not blank, whatever comes before and after the line, the anchor is
  the digest of the trimmed line alone.
\<close>

lemma line_anchor_local:
  assumes "pre = [] \<or> is_terminator (last pre)" and "\<forall>b\<in>set line. \<not> is_terminator b"
    and "post = [] \<or> is_terminator (hd post)" and "k \<le> length line"
    and "trim_ascii_whitespace (strip_bom line) \<noteq> []"
  shows "line_anchor K (pre @ line @ post) (length pre + k) =
    hex_encode K (take 12 (hash_domain K ''source-line-anchor/v1'' [trim_ascii_whitespace (strip_bom line)]))"
  using line_bounds [OF assms(1-4)] assms(4,5)
  by (simp add: line_anchor_def Let_def min_def slice_def anchor_line_nonblank)

end
