(* ===== verification/Hygiene.thy ===== *)
theory Hygiene
  imports AnalysisBase
begin

text \<open>
  Line and file length rules, the analysis every source gets whatever its language:
  \<^verbatim>\<open>src/analysis/hygiene.rs\<close>. The scanner is its own loop over the bytes; it is proved to visit
  exactly the lines the line index of the parsers knows, and its outcome to be a function of
  their lengths. The integers it increments are below the length of a slice.
\<close>

section \<open>The analyzer\<close>

record metric_input =
  mi_rule_id :: bytes
  mi_message :: bytes
  mi_line :: nat
  mi_start :: nat
  mi_end :: nat
  mi_entity :: bytes
  mi_actual :: nat
  mi_limit :: nat

definition hygiene_metric :: "metric_input \<Rightarrow> raw_diagnostic" where
  "hygiene_metric input =
     \<lparr> raw_rule_id = mi_rule_id input, raw_severity = Warning, raw_message = mi_message input,
       raw_range = Some \<lparr>
         range_start = \<lparr> pos_line = mi_line input, pos_column = 1, pos_byte = to_u32 (mi_start input) \<rparr>,
         range_end = \<lparr> pos_line = mi_line input, pos_column = to_u32 (mi_end input - mi_start input + 1),
                       pos_byte = to_u32 (mi_end input) \<rparr> \<rparr>,
       raw_entity_key = mi_entity input,
       raw_cause_key = ''limit:'' @ show_nat (mi_limit input),
       raw_evidence = bt_insert ''limit'' (json_nat (mi_limit input))
                        (bt_insert ''actual'' (json_nat (mi_actual input)) []) \<rparr>"

record line_input =
  ln_file :: source_file
  ln_limits :: rule_limits
  ln_number :: nat
  ln_start :: nat
  ln_end :: nat

definition line_content_start :: "line_input \<Rightarrow> nat" where
  "line_content_start input =
     (if ln_number input = 1 \<and>
         starts_with UTF8_BOM (slice (sf_bytes (ln_file input)) (ln_start input) (ln_end input))
      then sat_add (ln_start input) 3 else ln_start input)"

definition line_content_len :: "line_input \<Rightarrow> nat" where
  "line_content_len input = ln_end input - line_content_start input"

definition line_too_long :: "line_input \<Rightarrow> analysis_error" where
  "line_too_long input =
     AnalysisUnsupported (''line '' @ show_nat (ln_number input) @ '' is '' @
       show_nat (line_content_len input) @ '' bytes; hard limit is '' @ show_nat MAX_LINE_BYTES)"

definition line_diagnostic :: "crates \<Rightarrow> line_input \<Rightarrow> raw_diagnostic" where
  "line_diagnostic K input =
     hygiene_metric \<lparr>
       mi_rule_id = ''hygiene.max-line-bytes'',
       mi_message = ''line has '' @ show_nat (line_content_len input) @
         '' bytes; configured maximum is '' @ show_nat (max_line_bytes (ln_limits input)),
       mi_line = ln_number input, mi_start = line_content_start input, mi_end = ln_end input,
       mi_entity = ''line:'' @ line_anchor K (sf_bytes (ln_file input)) (ln_start input),
       mi_actual = line_content_len input, mi_limit = max_line_bytes (ln_limits input) \<rparr>"

definition check_line ::
  "crates \<Rightarrow> raw_diagnostic list \<Rightarrow> line_input \<Rightarrow> (analysis_error, raw_diagnostic list) result" where
  "check_line K diagnostics input =
     (if line_content_len input > MAX_LINE_BYTES then Inl (line_too_long input)
      else if line_content_len input > max_line_bytes (ln_limits input) then
        Inr (diagnostics @ [line_diagnostic K input])
      else Inr diagnostics)"

text \<open>Where the scan goes after a terminator.\<close>

definition after_terminator :: "bytes \<Rightarrow> nat \<Rightarrow> nat" where
  "after_terminator bs cursor =
     (if bs ! cursor = CR \<and> get_at bs (cursor + 1) = Some LF then cursor + 2 else cursor + 1)"

text \<open>The \<^verbatim>\<open>while\<close> loop: cursor, start of the current line, lines completed, diagnostics.\<close>

function hygiene_scan ::
  "crates \<Rightarrow> source_file \<Rightarrow> rule_limits \<Rightarrow> nat \<Rightarrow> nat \<Rightarrow> nat \<Rightarrow> raw_diagnostic list
    \<Rightarrow> (analysis_error, nat \<times> nat \<times> raw_diagnostic list) result" where
  "hygiene_scan K file limits cursor start line_count diagnostics =
     (if cursor < length (sf_bytes file) then
        if \<not> is_terminator (sf_bytes file ! cursor) then
          hygiene_scan K file limits (cursor + 1) start line_count diagnostics
        else
          case check_line K diagnostics \<lparr> ln_file = file, ln_limits = limits,
                 ln_number = sat_add32 line_count 1, ln_start = start, ln_end = cursor \<rparr> of
            Inl e \<Rightarrow> Inl e
          | Inr ds \<Rightarrow>
              hygiene_scan K file limits (after_terminator (sf_bytes file) cursor)
                (after_terminator (sf_bytes file) cursor) (sat_add32 line_count 1) ds
      else Inr (line_count, start, diagnostics))"
  by pat_completeness auto
termination
  by (relation "measure (\<lambda>(K, file, limits, cursor, _). length (sf_bytes file) - cursor)")
    (auto simp: after_terminator_def)

declare hygiene_scan.simps [simp del]

definition hygiene_finish ::
  "crates \<Rightarrow> source_file \<Rightarrow> rule_limits \<Rightarrow> nat \<times> nat \<times> raw_diagnostic list
    \<Rightarrow> (analysis_error, nat \<times> raw_diagnostic list) result" where
  "hygiene_finish K file limits st =
     (let line_count = fst st; start = fst (snd st); diagnostics = snd (snd st)
      in if start < length (sf_bytes file) then
           try_bind (check_line K diagnostics \<lparr> ln_file = file, ln_limits = limits,
               ln_number = sat_add32 line_count 1, ln_start = start,
               ln_end = length (sf_bytes file) \<rparr>)
             (\<lambda>ds. Inr (sat_add32 line_count 1, ds))
         else Inr (line_count, diagnostics))"

definition file_lines_diagnostic :: "source_file \<Rightarrow> rule_limits \<Rightarrow> nat \<Rightarrow> raw_diagnostic" where
  "file_lines_diagnostic file limits line_count =
     hygiene_metric \<lparr>
       mi_rule_id = ''hygiene.max-file-lines'',
       mi_message = ''file has '' @ show_nat line_count @
         '' lines; configured maximum is '' @ show_nat (max_file_lines limits),
       mi_line = 1, mi_start = 0, mi_end = length (sf_bytes file), mi_entity = ''file'',
       mi_actual = line_count, mi_limit = max_file_lines limits \<rparr>"

definition hygiene_analyze ::
  "crates \<Rightarrow> source_file \<Rightarrow> rule_limits \<Rightarrow> (analysis_error, file_facts) result" where
  "hygiene_analyze K file limits =
     (if length (sf_bytes file) > MAX_SOURCE_BYTES then
        Inl (AnalysisUnsupported (''file is '' @ show_nat (length (sf_bytes file)) @
          '' bytes; limit is '' @ show_nat MAX_SOURCE_BYTES))
      else
        try_bind (try_bind (hygiene_scan K file limits 0 0 0 []) (hygiene_finish K file limits))
          (\<lambda>st. Inr (default_file_facts\<lparr> ff_diagnostics :=
             snd st @ (if fst st > max_file_lines limits
                       then [file_lines_diagnostic file limits (fst st)] else []) \<rparr>)))"

section \<open>The lines of the line index\<close>

text \<open>The lines of a source: every line start before its end, with the offset where the line ends.\<close>

definition source_lines :: "bytes \<Rightarrow> (nat \<times> nat) list" where
  "source_lines bs =
     map (\<lambda>s. (s, line_finish bs s))
       (filter (\<lambda>s. s < length bs) (li_starts (LineIndex_new bs 0)))"

definition line_inputs :: "source_file \<Rightarrow> rule_limits \<Rightarrow> nat \<Rightarrow> (nat \<times> nat) list \<Rightarrow> line_input list" where
  "line_inputs file limits n spans =
     map (\<lambda>(i, s, e). \<lparr> ln_file = file, ln_limits = limits, ln_number = i, ln_start = s, ln_end = e \<rparr>)
       (zip [Suc n..<Suc n + length spans] spans)"

text \<open>Checking a list of lines in order, stopping at the first error.\<close>

fun check_lines :: "crates \<Rightarrow> raw_diagnostic list \<Rightarrow> line_input list
    \<Rightarrow> (analysis_error, raw_diagnostic list) result" where
  "check_lines K ds [] = Inr ds"
| "check_lines K ds (l # ls) = try_bind (check_line K ds l) (\<lambda>ds'. check_lines K ds' ls)"

lemma line_inputs_simps [simp]:
  "line_inputs file limits n [] = []"
  "line_inputs file limits n ((s, e) # spans) =
     \<lparr> ln_file = file, ln_limits = limits, ln_number = Suc n, ln_start = s, ln_end = e \<rparr>
       # line_inputs file limits (Suc n) spans"
  by (simp_all add: line_inputs_def upt_conv_Cons del: upt_Suc)

text \<open>The line starts after an offset, and the lines not yet checked when the scan is there.\<close>

definition starts_after :: "bytes \<Rightarrow> nat \<Rightarrow> nat list" where
  "starts_after bs n = filter (line_start bs) [Suc n..<Suc (length bs)]"

definition pending :: "bytes \<Rightarrow> nat \<Rightarrow> nat \<Rightarrow> (nat \<times> nat) list" where
  "pending bs cursor start =
     map (\<lambda>s. (s, line_finish bs s)) (filter (\<lambda>s. s < length bs) (start # starts_after bs cursor))"

lemma starts_after_step:
  "n < length bs \<Longrightarrow>
   starts_after bs n = (if line_start bs (Suc n) then [Suc n] else []) @ starts_after bs (Suc n)"
  by (simp add: starts_after_def upt_conv_Cons del: upt_Suc)

lemma starts_after_end [simp]: "starts_after bs (length bs) = []"
  by (simp add: starts_after_def)

lemma source_lines_pending: "source_lines bs = pending bs 0 0"
proof -
  have "[0..<Suc (length bs)] = 0 # [Suc 0..<Suc (length bs)]" by (rule upt_conv_Cons) simp
  then show ?thesis
    by (simp add: source_lines_def pending_def starts_after_def LineIndex_starts starts_upto_def
        del: upt_Suc)
qed

definition no_terminator :: "bytes \<Rightarrow> nat \<Rightarrow> nat \<Rightarrow> bool" where
  "no_terminator bs i j \<longleftrightarrow> (\<forall>k. i \<le> k \<and> k < j \<longrightarrow> \<not> is_terminator (bs ! k))"

lemma line_finish_at:
  assumes "no_terminator bs i j" and "i \<le> j" and "j \<le> length bs"
    and "j = length bs \<or> is_terminator (bs ! j)"
  shows "line_finish bs i = j"
proof -
  have split: "drop i bs = slice bs i j @ drop j bs"
    using assms(2) by (simp add: slice_def) (metis add.commute append_take_drop_id drop_drop le_add_diff_inverse)
  have "\<forall>b\<in>set (slice bs i j). \<not> is_terminator b"
    using assms(1-3) by (auto simp: no_terminator_def slice_def in_set_conv_nth)
  then have "position is_terminator (slice bs i j) = None" by (simp add: position_None)
  moreover have "length (slice bs i j) = j - i" using assms(3) by (simp add: slice_def)
  ultimately have "position is_terminator (drop i bs) =
      map_option (\<lambda>k. j - i + k) (position is_terminator (drop j bs))"
    by (simp add: split position_append)
  moreover have "position is_terminator (drop j bs) = (if j = length bs then None else Some 0)"
    using assms(3,4) by (auto simp: Cons_nth_drop_Suc [symmetric])
  ultimately show ?thesis using assms(2) by (simp add: line_finish_def)
qed

text \<open>What a terminator leaves to be checked.\<close>

lemma pending_terminator:
  assumes "cursor < length bs" and "between_lines bs cursor" and "is_terminator (bs ! cursor)"
    and "start \<le> cursor" and "no_terminator bs start cursor"
  defines "nxt \<equiv> after_terminator bs cursor"
  shows "pending bs cursor start = (start, cursor) # pending bs nxt nxt"
    and "cursor < nxt" and "nxt \<le> length bs" and "between_lines bs nxt"
proof -
  have fin: "line_finish bs start = cursor"
    using assms by (intro line_finish_at) auto
  have "starts_after bs cursor = nxt # starts_after bs nxt \<and> cursor < nxt \<and> nxt \<le> length bs \<and>
      between_lines bs nxt"
    using assms(1,2)
  proof (cases rule: advance_cases [where starts = "[]"])
    case crlf
    then show ?thesis using assms(1)
      by (simp add: nxt_def after_terminator_def starts_after_step get_at_def)
  next
    case single
    then have "nxt = Suc cursor" by (auto simp: nxt_def after_terminator_def)
    with single assms(1) show ?thesis by (simp add: starts_after_step)
  next
    case inside
    with assms(3) show ?thesis by simp
  qed
  with fin assms(1,4) show "pending bs cursor start = (start, cursor) # pending bs nxt nxt"
    and "cursor < nxt" and "nxt \<le> length bs" and "between_lines bs nxt"
    by (simp_all add: pending_def)
qed

lemma pending_inside:
  assumes "cursor < length bs" and "between_lines bs cursor" and "\<not> is_terminator (bs ! cursor)"
  shows "pending bs cursor start = pending bs (Suc cursor) start" "between_lines bs (Suc cursor)"
  using assms(1,2)
  by (cases rule: advance_cases [where starts = "[]"];
      use assms in \<open>simp add: pending_def starts_after_step is_terminator_def\<close>)+

lemma no_terminator_Suc:
  "no_terminator bs i j \<Longrightarrow> \<not> is_terminator (bs ! j) \<Longrightarrow> no_terminator bs i (Suc j)"
  by (auto simp: no_terminator_def less_Suc_eq)

text \<open>The scanner and its final check are the check of the lines of the line index, in order.\<close>

lemma hygiene_scan_lines:
  assumes "cursor \<le> length (sf_bytes file)" and "start \<le> cursor"
    and "no_terminator (sf_bytes file) start cursor" and "between_lines (sf_bytes file) cursor"
    and "n + (length (sf_bytes file) - cursor) < u32_max"
  shows "try_bind (hygiene_scan K file limits cursor start n ds) (hygiene_finish K file limits) =
    try_bind (check_lines K ds (line_inputs file limits n (pending (sf_bytes file) cursor start)))
      (\<lambda>ds'. Inr (n + length (pending (sf_bytes file) cursor start), ds'))"
  using assms
proof (induction "length (sf_bytes file) - cursor" arbitrary: cursor start n ds rule: less_induct)
  case less
  let ?bs = "sf_bytes file"
  show ?case
  proof (cases "cursor < length ?bs")
    case False
    then have c: "cursor = length ?bs" using less.prems(1) by simp
    have "start < length ?bs \<Longrightarrow> line_finish ?bs start = length ?bs"
      using less.prems by (intro line_finish_at) (auto simp: c)
    with c less.prems(5) show ?thesis
      by (subst hygiene_scan.simps)
        (auto simp: pending_def hygiene_finish_def sat_add32_def Let_def try_bind_def split: sum.splits)
  next
    case True
    show ?thesis
    proof (cases "is_terminator (?bs ! cursor)")
      case False
      have "try_bind (hygiene_scan K file limits (Suc cursor) start n ds) (hygiene_finish K file limits) =
        try_bind (check_lines K ds (line_inputs file limits n (pending ?bs (Suc cursor) start)))
          (\<lambda>ds'. Inr (n + length (pending ?bs (Suc cursor) start), ds'))"
        using True False less.prems pending_inside [OF True less.prems(4) False]
        by (intro less.hyps no_terminator_Suc) auto
      with True False pending_inside(1) [OF True less.prems(4) False, of start] show ?thesis
        by (subst hygiene_scan.simps) simp
    next
      case trm: True
      let ?nxt = "after_terminator ?bs cursor"
      note step = pending_terminator [OF True less.prems(4) trm less.prems(2,3)]
      have sat: "sat_add32 n 1 = Suc n" using less.prems(5) by (simp add: sat_add32_def)
      have IH: "try_bind (hygiene_scan K file limits ?nxt ?nxt (Suc n) ds') (hygiene_finish K file limits) =
          try_bind (check_lines K ds' (line_inputs file limits (Suc n) (pending ?bs ?nxt ?nxt)))
            (\<lambda>ds''. Inr (Suc n + length (pending ?bs ?nxt ?nxt), ds''))" for ds'
        using step(2-4) less.prems(5) True by (intro less.hyps) (auto simp: no_terminator_def)
      show ?thesis
      proof (cases "check_line K ds \<lparr> ln_file = file, ln_limits = limits, ln_number = Suc n,
          ln_start = start, ln_end = cursor \<rparr>")
        case (Inl e)
        then show ?thesis
          by (subst hygiene_scan.simps) (simp add: True trm sat [simplified] step(1))
      next
        case (Inr ds')
        then show ?thesis using IH [of ds']
          by (subst hygiene_scan.simps) (simp add: True trm sat [simplified] step(1))
      qed
    qed
  qed
qed

lemma check_lines_exact:
  "check_lines K ds ls =
     (case find (\<lambda>l. line_content_len l > MAX_LINE_BYTES) ls of
        Some l \<Rightarrow> Inl (line_too_long l)
      | None \<Rightarrow> Inr (ds @ map (line_diagnostic K)
                   (filter (\<lambda>l. line_content_len l > max_line_bytes (ln_limits l)) ls)))"
  by (induction ls arbitrary: ds) (auto simp: check_line_def split: option.splits)

lemma length_line_inputs [simp]: "length (line_inputs file limits n spans) = length spans"
  by (simp add: line_inputs_def del: upt_Suc)

lemma hygiene_outcome:
  assumes "length (sf_bytes src) \<le> MAX_SOURCE_BYTES"
  shows "hygiene_analyze K src limits =
    (let ls = line_inputs src limits 0 (source_lines (sf_bytes src))
     in case find (\<lambda>l. line_content_len l > MAX_LINE_BYTES) ls of
       Some l \<Rightarrow> Inl (line_too_long l)
     | None \<Rightarrow> Inr (default_file_facts\<lparr> ff_diagnostics :=
         map (line_diagnostic K) (filter (\<lambda>l. line_content_len l > max_line_bytes (ln_limits l)) ls) @
         (if length ls > max_file_lines limits
          then [file_lines_diagnostic src limits (length ls)] else []) \<rparr>))"
proof -
  let ?ls = "line_inputs src limits 0 (source_lines (sf_bytes src))"
  have "try_bind (hygiene_scan K src limits 0 0 0 []) (hygiene_finish K src limits) =
      try_bind (check_lines K [] ?ls) (\<lambda>ds. Inr (length ?ls, ds))"
    using hygiene_scan_lines [of 0 src 0 0 K limits "[]"] assms(1)
    by (simp add: source_lines_pending no_terminator_def between_lines_def
        MAX_SOURCE_BYTES_def u32_max_def)
  with assms show ?thesis
    by (simp add: hygiene_analyze_def check_lines_exact Let_def split: option.splits)
qed

lemma hygiene_Inl: "hygiene_analyze K src limits = Inl e \<Longrightarrow> \<exists>m. e = AnalysisUnsupported m"
proof (cases "length (sf_bytes src) \<le> MAX_SOURCE_BYTES")
  case True
  assume "hygiene_analyze K src limits = Inl e"
  then show ?thesis
    unfolding hygiene_outcome [OF True] Let_def by (auto simp: line_too_long_def split: option.splits)
next
  case False
  assume "hygiene_analyze K src limits = Inl e"
  with False show ?thesis by (auto simp: hygiene_analyze_def)
qed

text \<open>The outcome depends on the bytes of the file alone.\<close>

lemma line_inputs_file:
  "line_inputs src' limits n spans = map (\<lambda>l. l\<lparr> ln_file := src' \<rparr>) (line_inputs src limits n spans)"
  by (induction spans arbitrary: n) (auto simp: line_inputs_def simp del: upt_Suc)

lemma line_of_other_file:
  assumes "sf_bytes (ln_file l) = sf_bytes src'"
  shows "line_content_len (l\<lparr> ln_file := src' \<rparr>) = line_content_len l"
    and "line_diagnostic K (l\<lparr> ln_file := src' \<rparr>) = line_diagnostic K l"
    and "line_too_long (l\<lparr> ln_file := src' \<rparr>) = line_too_long l"
  using assms
  by (simp_all add: line_content_len_def line_content_start_def line_diagnostic_def line_too_long_def)

lemma line_inputs_ln_file: "l \<in> set (line_inputs src limits n spans) \<Longrightarrow> ln_file l = src"
  by (auto simp: line_inputs_def)

lemma check_line_other_file:
  "sf_bytes (ln_file l) = sf_bytes src' \<Longrightarrow> check_line K ds (l\<lparr> ln_file := src' \<rparr>) = check_line K ds l"
  by (simp add: check_line_def line_of_other_file)

lemma check_lines_other_file:
  "\<forall>l\<in>set ls. sf_bytes (ln_file l) = sf_bytes src' \<Longrightarrow>
   check_lines K ds (map (\<lambda>l. l\<lparr> ln_file := src' \<rparr>) ls) = check_lines K ds ls"
  by (induction ls arbitrary: ds) (auto simp: check_line_other_file try_bind_def split: sum.splits)

lemma hygiene_bytes:
  assumes "sf_bytes src = sf_bytes src'"
  shows "hygiene_analyze K src limits = hygiene_analyze K src' limits"
proof (cases "length (sf_bytes src) \<le> MAX_SOURCE_BYTES")
  case False
  with assms show ?thesis by (simp add: hygiene_analyze_def)
next
  case True
  have scan: "try_bind (hygiene_scan K f limits 0 0 0 []) (hygiene_finish K f limits) =
      try_bind (check_lines K [] (line_inputs f limits 0 (source_lines (sf_bytes f))))
        (\<lambda>ds. Inr (length (source_lines (sf_bytes f)), ds))"
    if "sf_bytes f = sf_bytes src" for f
    using hygiene_scan_lines [of 0 f 0 0 K limits "[]"] True that
    by (simp add: source_lines_pending no_terminator_def between_lines_def
        MAX_SOURCE_BYTES_def u32_max_def)
  have "check_lines K [] (line_inputs src' limits 0 (source_lines (sf_bytes src))) =
      check_lines K [] (line_inputs src limits 0 (source_lines (sf_bytes src)))"
    unfolding line_inputs_file [of src' limits 0 "source_lines (sf_bytes src)" src]
    using assms by (intro check_lines_other_file) (auto dest: line_inputs_ln_file)
  with scan [of src] scan [of src'] assms show ?thesis
    by (simp add: hygiene_analyze_def file_lines_diagnostic_def cong: if_cong)
qed

text \<open>
  C26. The hygiene rules report exactly what they mean to: on a file within the size limit the
  analysis fails on the first line longer than the hard limit, if there is one; otherwise it
  reports, in order, every line of the line index longer than the configured maximum (a leading
  byte order mark not counted), followed by one finding on the file when it has more lines than
  the configured maximum.
\<close>

theorem hygiene_exact:
  fixes limits :: rule_limits
  assumes "length (sf_bytes src) \<le> MAX_SOURCE_BYTES"
  defines "ls \<equiv> line_inputs src limits 0 (source_lines (sf_bytes src))"
  shows "hygiene_analyze K src limits =
    (case find (\<lambda>l. line_content_len l > MAX_LINE_BYTES) ls of
       Some l \<Rightarrow> Inl (line_too_long l)
     | None \<Rightarrow> Inr (default_file_facts\<lparr> ff_diagnostics :=
         map (line_diagnostic K) (filter (\<lambda>l. line_content_len l > max_line_bytes (ln_limits l)) ls) @
         (if length ls > max_file_lines limits
          then [file_lines_diagnostic src limits (length ls)] else []) \<rparr>))"
  using hygiene_outcome [OF assms(1), of K limits] unfolding ls_def Let_def .

theorem hygiene_exact_witness:
  "let K = \<lparr> sha256 = id, hex_encode = id, hex_decode = Some \<rparr>;
       file = SourceFile_new K (RepoPath ''a'') ''x'' Python [];
       limits = default_rule_limits\<lparr> max_line_bytes := 0 \<rparr>
   in hygiene_analyze K file limits =
      Inr (default_file_facts\<lparr> ff_diagnostics := [line_diagnostic K
        \<lparr> ln_file = file, ln_limits = limits, ln_number = 1, ln_start = 0, ln_end = 1 \<rparr>] \<rparr>)"
proof -
  define K where "K = \<lparr> sha256 = id, hex_encode = id, hex_decode = Some :: bytes \<Rightarrow> bytes option \<rparr>"
  define src where "src = SourceFile_new K (RepoPath ''a'') ''x'' Python []"
  have "source_lines (sf_bytes src) = [(0, 1)]"
    by (simp add: src_def SourceFile_new_def source_lines_pending pending_def starts_after_def
        line_start_def is_terminator_def line_finish_def)
  then show ?thesis
    using hygiene_exact [of src K "default_rule_limits\<lparr> max_line_bytes := 0 \<rparr>"]
    unfolding Let_def K_def [symmetric] src_def [symmetric]
    by (simp add: line_content_len_def line_content_start_def default_rule_limits_def MAX_LINE_BYTES_def
        MAX_SOURCE_BYTES_def src_def SourceFile_new_def slice_def starts_with_def)
qed

end
