(* ===== verification/Preflight.thy ===== *)
theory Preflight
  imports AnalysisBase
begin

text \<open>
  Cooperative cancellation (\<^verbatim>\<open>src/cancel.rs\<close>) and the structural bounds checked before a recursive
  parser is called (\<^verbatim>\<open>src/analysis/preflight.rs\<close>). A cancellation flag is set by another thread,
  so a computation sees it through the answers to its successive polls: a token is a function
  from the number of the poll to the answer, and every polling operation returns the number of
  the next poll. Depths count bytes of a slice, so their saturating additions are exact.
\<close>

section \<open>Cancellation\<close>

text \<open>The shared flag and how often its waiters were woken.\<close>

record cancel_inner =
  ct_cancelled :: bool
  ct_notified :: nat

definition CancelToken_new :: cancel_inner where
  "CancelToken_new = \<lparr> ct_cancelled = False, ct_notified = 0 \<rparr>"

definition cancel :: "cancel_inner \<Rightarrow> cancel_inner" where
  "cancel c =
     (if \<not> ct_cancelled c then c\<lparr> ct_cancelled := True, ct_notified := ct_notified c + 1 \<rparr>
      else c\<lparr> ct_cancelled := True \<rparr>)"

definition is_cancelled :: "cancel_inner \<Rightarrow> bool" where
  "is_cancelled c = ct_cancelled c"

lemma cancel_idempotent: "cancel (cancel c) = cancel c"
  by (simp add: cancel_def)

text \<open>What a computation observes: poll \<open>n\<close> sees the flag after the first \<open>h n\<close> cancellations.\<close>

type_synonym cancel_token = "nat \<Rightarrow> bool"

definition observed :: "(nat \<Rightarrow> nat) \<Rightarrow> cancel_token" where
  "observed h n = is_cancelled ((cancel ^^ h n) CancelToken_new)"

definition never_cancelled :: cancel_token where
  "never_cancelled = (\<lambda>_. False)"

lemma observed_iff: "observed h n \<longleftrightarrow> 0 < h n"
  by (cases "h n") (auto simp: observed_def is_cancelled_def CancelToken_new_def cancel_def)

lemma observed_sticky: "mono h \<Longrightarrow> observed h m \<Longrightarrow> m \<le> n \<Longrightarrow> observed h n"
  unfolding observed_iff by (meson less_le_trans monoD)

definition CANCELLATION_POLL_INTERVAL :: nat where
  "CANCELLATION_POLL_INTERVAL = 256"

section \<open>Depth measures\<close>

definition line_parts :: "bytes \<Rightarrow> bytes list" where
  "line_parts source = split_on is_terminator source"

definition comment_only :: "bytes \<Rightarrow> bool" where
  "comment_only line0 =
     (let line = (case position (\<lambda>b. \<not> is_ascii_whitespace b) line0 of
                    None \<Rightarrow> [] | Some start \<Rightarrow> drop start line0)
      in starts_with ''#'' line \<or> starts_with ''//'' line)"

definition is_open :: "byte \<Rightarrow> bool" where
  "is_open b \<longleftrightarrow> b = CHR ''('' \<or> b = CHR ''['' \<or> b = CHR ''{''"

definition is_close :: "byte \<Rightarrow> bool" where
  "is_close b \<longleftrightarrow> b = CHR '')'' \<or> b = CHR '']'' \<or> b = CHR ''}''"

text \<open>A depth loop: the current depth and the maximum so far.\<close>

definition delimiter_step :: "byte \<Rightarrow> nat \<times> nat \<Rightarrow> nat \<times> nat" where
  "delimiter_step b = (\<lambda>(current, maximum).
     if is_open b then (current + 1, max maximum (current + 1))
     else if is_close b then (current - 1, maximum)
     else (current, maximum))"

definition delimiter_depth :: "bytes \<Rightarrow> nat" where
  "delimiter_depth source =
     snd (fold (\<lambda>line st. if comment_only line then st else fold delimiter_step line st)
            (line_parts source) (0, 0))"

definition max_or_zero :: "nat list \<Rightarrow> nat" where
  "max_or_zero ns = fold max ns 0"

definition code_lines :: "bytes \<Rightarrow> bytes list" where
  "code_lines source = filter (\<lambda>line. \<not> comment_only line) (line_parts source)"

definition indentation_depth :: "bytes \<Rightarrow> nat" where
  "indentation_depth source =
     max_or_zero (map (\<lambda>line.
       sum_list (map (\<lambda>b. if b = CHR 0x09 then 4 else 1)
         (takeWhile (\<lambda>b. b = CHR '' '' \<or> b = CHR 0x09) line)) div 4) (code_lines source))"

definition operator_step :: "(byte \<Rightarrow> bool) \<Rightarrow> (byte \<Rightarrow> bool) \<Rightarrow> byte \<Rightarrow> nat \<times> nat \<Rightarrow> nat \<times> nat" where
  "operator_step is_operator resets b = (\<lambda>(current, maximum).
     if is_operator b then (current + 1, max maximum (current + 1))
     else if resets b then (0, maximum)
     else (current, maximum))"

definition contiguous_operator_depth :: "bytes \<Rightarrow> (byte \<Rightarrow> bool) \<Rightarrow> nat" where
  "contiguous_operator_depth source is_operator =
     snd (fold (operator_step is_operator (\<lambda>_. True)) source (0, 0))"

definition segment_chain_depth :: "bytes \<Rightarrow> (byte \<Rightarrow> bool) \<Rightarrow> nat" where
  "segment_chain_depth source is_operator =
     snd (fold (operator_step is_operator (\<lambda>b. b \<in> set '';,{}'')) source (0, 0))"

definition expression_chain_depth :: "bytes \<Rightarrow> (byte \<Rightarrow> bool) \<Rightarrow> nat" where
  "expression_chain_depth source is_operator =
     max_or_zero (map (\<lambda>line. segment_chain_depth line is_operator) (code_lines source))"

definition unary_depth :: "bytes \<Rightarrow> nat" where
  "unary_depth source =
     max_or_zero (map (\<lambda>line. contiguous_operator_depth line (\<lambda>b. b \<in> set ''!~-'')) (code_lines source))"

definition binary_depth :: "bytes \<Rightarrow> nat" where
  "binary_depth source = expression_chain_depth source (\<lambda>b. b \<in> set ''+-*/%<>&|?'')"

definition postfix_depth :: "bytes \<Rightarrow> nat" where
  "postfix_depth source = expression_chain_depth source (\<lambda>b. b \<in> set ''.['')"

section \<open>The check\<close>

text \<open>One poll per chunk of 256 bytes.\<close>

fun poll_chunks :: "nat \<Rightarrow> cancel_token \<Rightarrow> nat \<Rightarrow> (analysis_error, unit) result \<times> nat" where
  "poll_chunks 0 c n = (Inr (), n)"
| "poll_chunks (Suc k) c n = (if c n then (Inl AnalysisCancelled, n + 1) else poll_chunks k c (n + 1))"

definition check_cancellation :: "bytes \<Rightarrow> cancel_token \<Rightarrow> nat \<Rightarrow> (analysis_error, unit) result \<times> nat" where
  "check_cancellation source c n =
     poll_chunks ((length source + CANCELLATION_POLL_INTERVAL - 1) div CANCELLATION_POLL_INTERVAL) c n"

definition reject_depth :: "bytes \<Rightarrow> bytes \<Rightarrow> nat \<Rightarrow> nat \<Rightarrow> (analysis_error, unit) result" where
  "reject_depth language kind depth max_depth =
     (if depth > max_depth then
        Inl (AnalysisUnsupported (language @ '' '' @ kind @ '' depth exceeds the '' @
          show_nat max_depth @ ''-level parser safety limit''))
      else Inr ())"

fun reject_depths :: "bytes \<Rightarrow> nat \<Rightarrow> (bytes \<times> nat) list \<Rightarrow> (analysis_error, unit) result" where
  "reject_depths language max_depth [] = Inr ()"
| "reject_depths language max_depth (kd # kds) =
     try_bind (reject_depth language (fst kd) (snd kd) max_depth)
       (\<lambda>_. reject_depths language max_depth kds)"

definition bounded_structure ::
  "bytes \<Rightarrow> bytes \<Rightarrow> nat \<Rightarrow> cancel_token \<Rightarrow> nat \<Rightarrow> (analysis_error, unit) result \<times> nat" where
  "bounded_structure source language max_depth c n =
     (case check_cancellation source c n of
        (Inl e, m) \<Rightarrow> (Inl e, m)
      | (Inr _, m) \<Rightarrow>
          (reject_depths language max_depth
             [(''delimiter'', delimiter_depth source),
              (''indentation'', indentation_depth source),
              (''unary expression'', unary_depth source),
              (''binary expression'', binary_depth source),
              (''postfix expression'', postfix_depth source)], m))"

section \<open>What acceptance guarantees\<close>

lemma poll_chunks_Inr: "fst (poll_chunks k c n) = Inr u \<longleftrightarrow> (\<forall>i<k. \<not> c (n + i))"
proof (induction k arbitrary: n)
  case 0
  show ?case by simp
next
  case (Suc k)
  have "(\<forall>i<Suc k. \<not> c (n + i)) \<longleftrightarrow> \<not> c n \<and> (\<forall>i<k. \<not> c (Suc n + i))"
    by (simp add: All_less_Suc2)
  with Suc [of "Suc n"] show ?case by simp
qed

lemma reject_depths_Inr:
  "reject_depths language max_depth kds = Inr u \<longleftrightarrow> (\<forall>kd\<in>set kds. snd kd \<le> max_depth)"
  by (induction kds) (auto simp: reject_depth_def try_bind_Inr_iff)

lemma max_or_zero_le: "max_or_zero ns \<le> m \<longleftrightarrow> (\<forall>n\<in>set ns. n \<le> m)"
proof -
  have "fold max ns a \<le> m \<longleftrightarrow> a \<le> m \<and> (\<forall>n\<in>set ns. n \<le> m)" for a
    by (induction ns arbitrary: a) auto
  then show ?thesis by (simp add: max_or_zero_def)
qed

text \<open>How many delimiters a piece of text opens and closes, and the longest run without a reset.\<close>

abbreviation opens :: "bytes \<Rightarrow> nat" where "opens bs \<equiv> length (filter is_open bs)"
abbreviation closes :: "bytes \<Rightarrow> nat" where "closes bs \<equiv> length (filter is_close bs)"

lemma open_not_close: "is_open b \<Longrightarrow> \<not> is_close b"
  by (auto simp: is_open_def is_close_def)

lemma fold_snd_mono:
  assumes "\<And>b st. snd st \<le> snd (f b st)"
  shows "(snd st :: nat) \<le> snd (fold f bs st)"
proof (induction bs arbitrary: st)
  case Nil
  show ?case by simp
next
  case (Cons b bs)
  from assms [of st b] Cons [of "f b st"] show ?case by simp
qed

lemma delimiter_fold_maximum: "snd st \<le> snd (fold delimiter_step bs st)"
  by (rule fold_snd_mono) (auto simp: delimiter_step_def split: prod.splits)

lemma delimiter_fold_current:
  "fst st \<le> snd st \<Longrightarrow>
   fst (fold delimiter_step bs st) \<le> snd (fold delimiter_step bs st) \<and>
   fst st + opens bs \<le> fst (fold delimiter_step bs st) + closes bs"
proof (induction bs arbitrary: st)
  case Nil
  then show ?case by simp
next
  case (Cons b bs)
  have "fst (delimiter_step b st) \<le> snd (delimiter_step b st)"
    using Cons.prems by (auto simp: delimiter_step_def split: prod.splits)
  from Cons.IH [OF this] show ?case
    by (auto simp: delimiter_step_def open_not_close split: prod.splits if_splits)
qed

lemma delimiter_fold_segment:
  assumes "bs = a @ seg @ b"
  shows "opens seg \<le> snd (fold delimiter_step bs (0, 0)) + closes seg"
proof -
  let ?st = "fold delimiter_step a (0, 0)"
  have "fst ?st \<le> snd ?st" using delimiter_fold_current [of "(0, 0)" a] by simp
  from delimiter_fold_current [OF this, of seg]
  have "opens seg \<le> snd (fold delimiter_step seg ?st) + closes seg" by linarith
  also have "\<dots> \<le> snd (fold delimiter_step bs (0, 0)) + closes seg"
    using delimiter_fold_maximum [of "fold delimiter_step seg ?st" b] by (simp add: assms)
  finally show ?thesis .
qed

lemma fold_lines_concat:
  "fold (\<lambda>line st. if comment_only line then st else fold delimiter_step line st) ls st =
   fold delimiter_step (concat (filter (\<lambda>line. \<not> comment_only line) ls)) st"
  by (induction ls arbitrary: st) auto

lemma delimiter_depth_concat:
  "delimiter_depth source = snd (fold delimiter_step (concat (code_lines source)) (0, 0))"
  by (simp add: delimiter_depth_def fold_lines_concat code_lines_def)

lemma operator_fold_maximum: "snd st \<le> snd (fold (operator_step p r) bs st)"
  by (rule fold_snd_mono) (auto simp: operator_step_def split: prod.splits)

lemma operator_fold_run:
  assumes "\<forall>b\<in>set run. \<not> p b \<longrightarrow> \<not> r b" and "fst st \<le> snd st"
  shows "fst st + length (filter p run) \<le> fst (fold (operator_step p r) run st) \<and>
    fst (fold (operator_step p r) run st) \<le> snd (fold (operator_step p r) run st)"
  using assms
proof (induction run arbitrary: st)
  case Nil
  then show ?case by simp
next
  case (Cons b run)
  have "fst (operator_step p r b st) \<le> snd (operator_step p r b st)"
    using Cons.prems by (auto simp: operator_step_def split: prod.splits)
  from Cons.IH [OF _ this] Cons.prems show ?case
    by (auto simp: operator_step_def split: prod.splits if_splits)
qed

lemma operator_fold_ordered:
  "fst st \<le> snd st \<Longrightarrow> fst (fold (operator_step p r) bs st) \<le> snd (fold (operator_step p r) bs st)"
  by (induction bs arbitrary: st) (auto simp: operator_step_def split: prod.splits)

lemma operator_fold_segment:
  assumes "bs = a @ run @ b" and "\<forall>x\<in>set run. \<not> p x \<longrightarrow> \<not> r x"
  shows "length (filter p run) \<le> snd (fold (operator_step p r) bs (0, 0))"
proof -
  let ?st = "fold (operator_step p r) a (0, 0)"
  have "fst ?st \<le> snd ?st" by (rule operator_fold_ordered) simp
  from operator_fold_run [OF assms(2) this]
  have "length (filter p run) \<le> snd (fold (operator_step p r) run ?st)" by linarith
  also have "\<dots> \<le> snd (fold (operator_step p r) bs (0, 0))"
    using operator_fold_maximum [of "fold (operator_step p r) run ?st" p r b] by (simp add: assms(1))
  finally show ?thesis .
qed

text \<open>
  C35. The parser safety limits hold of what is accepted: if the preflight check succeeds, then no
  stretch of the code (comment lines left out) opens more than the limit of delimiters beyond those it closes, no line
  has more consecutive unary operators than the limit, and no stretch of a line without a
  separator has more binary or more postfix operators than the limit; and no poll was answered
  with a cancellation.
\<close>

theorem preflight_bounds_nesting:
  assumes "bounded_structure source language max_depth c n = (Inr (), m)"
  shows "(\<forall>a seg b. concat (code_lines source) = a @ seg @ b \<longrightarrow> opens seg \<le> max_depth + closes seg) \<and>
    (\<forall>a run b. a @ run @ b \<in> set (code_lines source) \<longrightarrow>
       (set run \<subseteq> set ''!~-'' \<longrightarrow> length run \<le> max_depth) \<and>
       (set run \<inter> set '';,{}'' = {} \<longrightarrow>
          length (filter (\<lambda>x. x \<in> set ''+-*/%<>&|?'') run) \<le> max_depth \<and>
          length (filter (\<lambda>x. x \<in> set ''.['') run) \<le> max_depth)) \<and>
    (\<forall>i < (length source + 255) div 256. \<not> c (n + i))"
proof -
  obtain r where cc: "check_cancellation source c n = (r, m)" and r: "r = Inr ()"
    and rd: "\<forall>d\<in>{delimiter_depth source, indentation_depth source, unary_depth source,
      binary_depth source, postfix_depth source}. d \<le> max_depth"
    using assms by (auto simp: bounded_structure_def reject_depths_Inr
        simp del: reject_depths.simps split: prod.splits sum.splits)
  have dl: "snd (fold delimiter_step (concat (code_lines source)) (0, 0)) \<le> max_depth"
    using rd by (simp add: delimiter_depth_concat)
  have ln: "contiguous_operator_depth line (\<lambda>b. b \<in> set ''!~-'') \<le> max_depth"
    "segment_chain_depth line (\<lambda>b. b \<in> set ''+-*/%<>&|?'') \<le> max_depth"
    "segment_chain_depth line (\<lambda>b. b \<in> set ''.['') \<le> max_depth"
    if "line \<in> set (code_lines source)" for line
    using rd that
    by (simp_all add: unary_depth_def binary_depth_def postfix_depth_def expression_chain_depth_def
        max_or_zero_le)
  have 1: "opens seg \<le> max_depth + closes seg" if "concat (code_lines source) = a @ seg @ b" for a seg b
    using delimiter_fold_segment [OF that] dl by linarith
  have 2: "length run \<le> max_depth" if "a @ run @ b \<in> set (code_lines source)" "set run \<subseteq> set ''!~-''" for a run b
  proof -
    have "filter (\<lambda>x. x \<in> set ''!~-'') run = run" using that(2) by (intro filter_True) auto
    with operator_fold_segment [OF refl, of run "\<lambda>x. x \<in> set ''!~-''" "\<lambda>_. True" a b] that(2) ln(1) [OF that(1)]
    show ?thesis by (simp add: contiguous_operator_depth_def subset_iff)
  qed
  have 3: "length (filter p run) \<le> segment_chain_depth (a @ run @ b) p"
    if "set run \<inter> set '';,{}'' = {}" for a run b p
    unfolding segment_chain_depth_def using that by (intro operator_fold_segment [OF refl]) blast
  have 4: "length (filter (\<lambda>x. x \<in> set ''+-*/%<>&|?'') run) \<le> max_depth"
    "length (filter (\<lambda>x. x \<in> set ''.['') run) \<le> max_depth"
    if "a @ run @ b \<in> set (code_lines source)" "set run \<inter> set '';,{}'' = {}" for a run b
    by (rule order_trans [OF 3 [OF that(2), where a = a and b = b] ln(2) [OF that(1)]],
        rule order_trans [OF 3 [OF that(2), where a = a and b = b] ln(3) [OF that(1)]])
  have 5: "\<forall>i < (length source + 255) div 256. \<not> c (n + i)"
    using cc r poll_chunks_Inr [of "(length source + 255) div 256" c n "()"]
    by (simp add: check_cancellation_def CANCELLATION_POLL_INTERVAL_def add.commute)
  show ?thesis by (intro conjI allI impI; (rule 1 2 4 5 [rule_format]; assumption))
qed

theorem preflight_bounds_nesting_witness:
  "bounded_structure ''a(-b.c)[d]'' ''HCL'' 2 (\<lambda>_. False) 0 = (Inr (), 1) \<and>
   concat (code_lines ''a(-b.c)[d]'') = ''a'' @ ''(-b'' @ ''.c)[d]'' \<and>
   opens ''(-b'' \<le> 2 + closes ''(-b'' \<and> length (filter (\<lambda>x. x \<in> set ''.['') ''b.c)[d'') \<le> 2"
proof -
  have ok: "bounded_structure ''a(-b.c)[d]'' ''HCL'' 2 (\<lambda>_. False) 0 = (Inr (), 1)" by code_simp
  note bounds = preflight_bounds_nesting [OF ok]
  have seg: "concat (code_lines ''a(-b.c)[d]'') = ''a'' @ ''(-b'' @ ''.c)[d]''" by code_simp
  have line: "''a(-'' @ ''b.c)[d'' @ '']'' \<in> set (code_lines ''a(-b.c)[d]'')" by code_simp
  have "length (filter (\<lambda>x. x \<in> set ''.['') ''b.c)[d'') \<le> 2"
    using bounds [THEN conjunct2, THEN conjunct1, rule_format, OF line] by simp
  with ok bounds seg show ?thesis by blast
qed

end
