(* ===== verification/Analyze.thy ===== *)
theory Analyze
  imports Hygiene Preflight
begin

text \<open>
  The analysis of one file: \<^verbatim>\<open>analyze\<close>, \<^verbatim>\<open>analyze_language\<close> and \<^verbatim>\<open>analyze_declarative\<close> of
  \<^verbatim>\<open>src/analysis/mod.rs\<close>. The language modules walk the syntax trees of third-party parsers and are
  parameters, collected in the record \<open>analyzers\<close>; what the engine relies on about them is
  \<open>analyzers_cooperate\<close>: polling a cancellation token can only cut an analysis short.
\<close>

section \<open>The dispatcher\<close>

type_synonym analysis = "cancel_token \<Rightarrow> nat \<Rightarrow> (analysis_error, file_facts) result \<times> nat"

record analyzers =
  node_analyze :: "source_file \<Rightarrow> rule_limits \<Rightarrow> analysis"
  rust_analyze :: "source_file \<Rightarrow> rule_limits \<Rightarrow> analysis"
  python_analyze :: "source_file \<Rightarrow> rule_limits \<Rightarrow> analysis"
  go_analyze :: "source_file \<Rightarrow> rule_limits \<Rightarrow> analysis"
  hcl_analyze :: "source_file \<Rightarrow> analysis"
  shell_analyze :: "source_file \<Rightarrow> analysis"
  protobuf_analyze :: "source_file \<Rightarrow> analysis"

definition analyze_declarative :: "analyzers \<Rightarrow> source_file \<Rightarrow> analysis" where
  "analyze_declarative A src c n =
     (case sf_language src of
        Hcl \<Rightarrow> hcl_analyze A src c n
      | Shell \<Rightarrow> shell_analyze A src c n
      | Protobuf \<Rightarrow> protobuf_analyze A src c n
      | l \<Rightarrow> (Inl (AnalysisUnsupported (family l @ '' is not declarative source'')), n))"

definition analyze_language :: "analyzers \<Rightarrow> source_file \<Rightarrow> rule_limits \<Rightarrow> analysis" where
  "analyze_language A src limits c n =
     (case sf_language src of
        JavaScript \<Rightarrow> node_analyze A src limits c n
      | TypeScript \<Rightarrow> node_analyze A src limits c n
      | Rust \<Rightarrow> rust_analyze A src limits c n
      | Python \<Rightarrow> python_analyze A src limits c n
      | Go \<Rightarrow> go_analyze A src limits c n
      | Hcl \<Rightarrow> analyze_declarative A src c n
      | Shell \<Rightarrow> analyze_declarative A src c n
      | Protobuf \<Rightarrow> analyze_declarative A src c n)"

definition with_language_facts :: "file_facts \<Rightarrow> file_facts \<Rightarrow> file_facts" where
  "with_language_facts facts lang =
     facts\<lparr> ff_diagnostics := ff_diagnostics facts @ ff_diagnostics lang,
            ff_parser := ff_parser lang,
            ff_parser_version := ff_parser_version lang,
            ff_dependencies := ff_dependencies lang,
            ff_callable_fingerprints := ff_callable_fingerprints lang,
            ff_region_fingerprints := ff_region_fingerprints lang,
            ff_interfaces := ff_interfaces lang \<rparr>"

definition analyze :: "crates \<Rightarrow> analyzers \<Rightarrow> source_file \<Rightarrow> rule_limits \<Rightarrow> analysis" where
  "analyze K A src limits c n =
     (if c n then (Inl AnalysisCancelled, n + 1)
      else case hygiene_analyze K src limits of
        Inl e \<Rightarrow> (Inl e, n + 1)
      | Inr facts \<Rightarrow>
          (case analyze_language A src limits c (n + 1) of
             (Inl e, m) \<Rightarrow> (Inl e, m)
           | (Inr lang, m) \<Rightarrow> (Inr (with_language_facts facts lang), m)))"

section \<open>Cancellation only cuts short\<close>

text \<open>
  An analysis cooperates with outcome \<open>r\<close> if, whatever its polls are answered, it gives \<open>r\<close>, or is
  cancelled and one of the polls it made was answered with a cancellation.
\<close>

definition outcome :: "analysis \<Rightarrow> (analysis_error, file_facts) result \<Rightarrow> bool" where
  "outcome f r \<longleftrightarrow> r \<noteq> Inl AnalysisCancelled \<and>
     (\<forall>c n. fst (f c n) = r \<or> (fst (f c n) = Inl AnalysisCancelled \<and> (\<exists>i\<ge>n. i < snd (f c n) \<and> c i)))"

definition analyzers_cooperate :: "analyzers \<Rightarrow> bool" where
  "analyzers_cooperate A \<longleftrightarrow>
     (\<forall>src limits. \<forall>f\<in>{node_analyze A src limits, rust_analyze A src limits, python_analyze A src limits,
        go_analyze A src limits, hcl_analyze A src, shell_analyze A src, protobuf_analyze A src}.
        \<exists>r. outcome f r)"

lemma outcome_poll:
  "outcome f r \<Longrightarrow> f c n = (x, m) \<Longrightarrow> x = r \<or> (x = Inl AnalysisCancelled \<and> (\<exists>i\<ge>n. i < m \<and> c i))"
  unfolding outcome_def by (metis fst_conv snd_conv)

lemma outcome_unique: "outcome f r \<Longrightarrow> r = fst (f never_cancelled 0)"
  by (auto simp: outcome_def never_cancelled_def)

lemma analyze_language_outcome:
  assumes "analyzers_cooperate A"
  shows "\<exists>r. outcome (analyze_language A src limits) r"
proof -
  have "\<exists>f. analyze_language A src limits = f \<and> (\<exists>r. outcome f r)"
    using assms
    by (cases "sf_language src")
      (auto simp: analyze_language_def analyze_declarative_def analyzers_cooperate_def fun_eq_iff)
  then show ?thesis by blast
qed

lemma hygiene_not_cancelled: "hygiene_analyze K src limits \<noteq> Inl AnalysisCancelled"
  by (auto dest: hygiene_Inl)

text \<open>The facts of a file: what the analysis gives when it is not interrupted.\<close>

definition file_analysis :: "crates \<Rightarrow> analyzers \<Rightarrow> source_file \<Rightarrow> rule_limits \<Rightarrow> (analysis_error, file_facts) result" where
  "file_analysis K A src limits = fst (analyze K A src limits never_cancelled 0)"

lemma fst_analyze:
  "fst (analyze K A src limits c n) =
     (if c n then Inl AnalysisCancelled
      else try_bind (hygiene_analyze K src limits) (\<lambda>facts.
        try_bind (fst (analyze_language A src limits c (n + 1)))
          (\<lambda>lang. Inr (with_language_facts facts lang))))"
  by (auto simp: analyze_def try_bind_def split: sum.splits prod.splits)

lemma analyze_outcome:
  assumes "analyzers_cooperate A"
  shows "outcome (analyze K A src limits) (file_analysis K A src limits)"
proof -
  obtain r where r: "outcome (analyze_language A src limits) r"
    using analyze_language_outcome [OF assms] by blast
  let ?r = "try_bind (hygiene_analyze K src limits) (\<lambda>facts.
      try_bind r (\<lambda>lang. Inr (with_language_facts facts lang)))"
  have lang: "fst (analyze_language A src limits c m) = r \<or>
      (fst (analyze_language A src limits c m) = Inl AnalysisCancelled \<and>
       (\<exists>i\<ge>m. i < snd (analyze_language A src limits c m) \<and> c i))" for c m
    using r by (simp add: outcome_def)
  have "?r \<noteq> Inl AnalysisCancelled"
    using hygiene_not_cancelled [of K src limits] r by (auto simp: try_bind_Inl_iff outcome_def)
  moreover have "fst (analyze K A src limits c n) = ?r \<or>
      (fst (analyze K A src limits c n) = Inl AnalysisCancelled \<and>
       (\<exists>i\<ge>n. i < snd (analyze K A src limits c n) \<and> c i))" for c n
  proof (cases "c n")
    case True
    then show ?thesis by (auto simp: analyze_def)
  next
    case False
    obtain l m where lm: "analyze_language A src limits c (n + 1) = (l, m)" by fastforce
    with False have "analyze K A src limits c n = (case hygiene_analyze K src limits of Inl e \<Rightarrow> (Inl e, n + 1)
        | Inr facts \<Rightarrow> (try_bind l (\<lambda>lang. Inr (with_language_facts facts lang)), m))"
      by (auto simp: analyze_def try_bind_def split: sum.split)
    moreover from lang [of c "n + 1"] lm have "l = r \<or> (l = Inl AnalysisCancelled \<and> (\<exists>i\<ge>n. i < m \<and> c i))"
      by (auto intro: Suc_leD)
    ultimately show ?thesis by (cases "hygiene_analyze K src limits") auto
  qed
  ultimately have "outcome (analyze K A src limits) ?r" by (simp add: outcome_def)
  with outcome_unique [OF this] show ?thesis by (simp add: file_analysis_def)
qed

lemma file_analysis_eq:
  "file_analysis K A src limits =
     try_bind (hygiene_analyze K src limits) (\<lambda>facts.
       try_bind (fst (analyze_language A src limits never_cancelled 1))
         (\<lambda>lang. Inr (with_language_facts facts lang)))"
  by (simp add: file_analysis_def fst_analyze never_cancelled_def)

end
