(* ===== verification/RustStr.thy ===== *)
theory RustStr
  imports Prelude
begin

text \<open>
  The operations on text of the Rust standard library that the language table and the resolver use, on the
  bytes of the text. All separators and markers involved are ASCII, so working on bytes and working on
  Unicode scalars give the same result.
\<close>

section \<open>ASCII case\<close>

definition to_ascii_lowercase :: "bytes \<Rightarrow> bytes" where
  "to_ascii_lowercase = map (\<lambda>b. if is_ascii_uppercase b then char_of (of_char b + 32 :: nat) else b)"

definition eq_ignore_ascii_case :: "bytes \<Rightarrow> bytes \<Rightarrow> bool" where
  "eq_ignore_ascii_case a b \<longleftrightarrow> to_ascii_lowercase a = to_ascii_lowercase b"

lemma eq_ignore_ascii_case_refl [simp]: "eq_ignore_ascii_case a a"
  by (simp add: eq_ignore_ascii_case_def)

lemma eq_ignore_ascii_case_length: "eq_ignore_ascii_case a b \<Longrightarrow> length a = length b"
  by (auto simp: eq_ignore_ascii_case_def to_ascii_lowercase_def dest: map_eq_imp_length_eq)

definition is_ascii_graphic :: "byte \<Rightarrow> bool" where
  "is_ascii_graphic b \<longleftrightarrow> CHR ''!'' \<le> b \<and> b \<le> CHR ''~''"

section \<open>Searching and splitting\<close>

definition contains_bytes :: "bytes \<Rightarrow> bytes \<Rightarrow> bool" where
  "contains_bytes needle hay \<longleftrightarrow> (\<exists>i\<in>set [0..<Suc (length hay)]. starts_with needle (drop i hay))"

text \<open>\<^verbatim>\<open>strip_suffix\<close>, \<^verbatim>\<open>split_once\<close> by text and \<^verbatim>\<open>rsplit_once\<close> by a character.\<close>

definition strip_suffix :: "'a list \<Rightarrow> 'a list \<Rightarrow> 'a list option" where
  "strip_suffix s xs = (if ends_with s xs then Some (take (length xs - length s) xs) else None)"

lemma strip_suffix_Some [rust_std]: "strip_suffix s xs = Some p \<longleftrightarrow> xs = p @ s"
  by (auto simp: strip_suffix_def ends_with_iff)

fun split_once :: "'a list \<Rightarrow> 'a list \<Rightarrow> ('a list \<times> 'a list) option" where
  "split_once pat [] = (if pat = [] then Some ([], []) else None)"
| "split_once pat (x # xs) =
     (if starts_with pat (x # xs) then Some ([], drop (length pat) (x # xs))
      else map_option (\<lambda>(a, b). (x # a, b)) (split_once pat xs))"

lemma split_once_Some [rust_std]: "split_once pat xs = Some (a, b) \<Longrightarrow> xs = a @ pat @ b"
proof (induction pat xs arbitrary: a rule: split_once.induct)
  case (2 pat x xs)
  show ?case
  proof (cases "starts_with pat (x # xs)")
    case True
    then show ?thesis using 2(2) by (auto simp: starts_with_iff)
  qed (use 2 in auto)
qed (auto split: if_splits)

definition rsplit_once :: "'a \<Rightarrow> 'a list \<Rightarrow> ('a list \<times> 'a list) option" where
  "rsplit_once c xs = map_option (\<lambda>i. (take i xs, drop (Suc i) xs)) (rposition (\<lambda>x. x = c) xs)"

lemma rsplit_once_Some: "rsplit_once c xs = Some (a, b) \<Longrightarrow> xs = a @ c # b \<and> c \<notin> set b"
proof -
  assume "rsplit_once c xs = Some (a, b)"
  then obtain i where i: "rposition (\<lambda>x. x = c) xs = Some i" and ab: "a = take i xs" "b = drop (Suc i) xs"
    by (auto simp: rsplit_once_def)
  note r = rposition_Some [OF i]
  have "c \<notin> set b"
  proof
    assume "c \<in> set b"
    then obtain j where "j < length xs - Suc i" "xs ! (Suc i + j) = c" by (auto simp: ab in_set_conv_nth)
    with r show False by (auto dest!: spec [of _ "Suc i + j"])
  qed
  moreover have "xs = a @ c # b" using r by (simp add: ab id_take_nth_drop [symmetric] del: drop_Suc)
      (metis id_take_nth_drop)
  ultimately show ?thesis by simp
qed

lemma rsplit_once_None: "rsplit_once c xs = None \<longleftrightarrow> c \<notin> set xs"
  by (simp add: rsplit_once_def rposition_None) metis

text \<open>\<^verbatim>\<open>str::split\<close> by a non-empty text.\<close>

function split_str :: "bytes \<Rightarrow> bytes \<Rightarrow> bytes list" where
  "split_str sep xs =
     (if sep = [] then [xs]
      else case split_once sep xs of None \<Rightarrow> [xs] | Some (a, b) \<Rightarrow> a # split_str sep b)"
  by pat_completeness auto
termination
  by (relation "measure (length \<circ> snd)") (auto dest!: split_once_Some [OF sym] split_once_Some)

declare split_str.simps [simp del]

lemma split_str_neq_Nil [simp]: "split_str sep xs \<noteq> []"
  by (subst split_str.simps) (auto split: option.split)

text \<open>\<^verbatim>\<open>join\<close>.\<close>

fun join_on :: "'a list \<Rightarrow> 'a list list \<Rightarrow> 'a list" where
  "join_on sep [] = []"
| "join_on sep [x] = x"
| "join_on sep (x # y # ys) = x @ sep @ join_on sep (y # ys)"

lemma join_split_on: "join_on [c] (split_on (\<lambda>b. b = c) xs) = xs"
proof (induction xs)
  case (Cons x xs)
  obtain y ys where s: "split_on (\<lambda>b. b = c) xs = y # ys" by (cases "split_on (\<lambda>b. b = c) xs") auto
  then show ?case using Cons by (cases ys) auto
qed simp

text \<open>\<^verbatim>\<open>str::lines\<close> and \<^verbatim>\<open>split_ascii_whitespace\<close>.\<close>

abbreviation line_feed :: byte where "line_feed \<equiv> CHR 0x0A"
abbreviation carriage_return :: byte where "carriage_return \<equiv> CHR 0x0D"

fun strip_returns :: "bytes list \<Rightarrow> bytes list" where
  "strip_returns [] = []"
| "strip_returns [x] = (if x = [] then [] else [x])"
| "strip_returns (x # y # ys) =
     (case strip_suffix [carriage_return] x of None \<Rightarrow> x | Some s \<Rightarrow> s) # strip_returns (y # ys)"

definition str_lines :: "bytes \<Rightarrow> bytes list" where
  "str_lines xs = strip_returns (split_on (\<lambda>b. b = line_feed) xs)"

definition split_ascii_whitespace :: "bytes \<Rightarrow> bytes list" where
  "split_ascii_whitespace xs = filter (\<lambda>w. w \<noteq> []) (split_on is_ascii_whitespace xs)"

end
