(* ===== verification/GoBuild.thy ===== *)
theory GoBuild
  imports Analyze RustStr
begin

text \<open>
  Which Go files take part in a build: \<^verbatim>\<open>src/analysis/go/input.rs\<close> and the part of
  \<^verbatim>\<open>src/analysis/go.rs\<close> that depends on it. The language mode names the target, the name of the file
  and the build directives above the package clause decide whether the file is active, and the facts
  of an inactive or conditional file do not come from its syntax tree. The file name is read from the
  path, which is no part of the key facts are cached under; the theory \<open>Facts\<close> shows what follows.
\<close>

section \<open>The target\<close>

record go_target =
  gt_os :: bytes
  gt_arch :: bytes
  gt_test :: bool

definition validate_language_mode :: "source_file \<Rightarrow> (analysis_error, go_target) result" where
  "validate_language_mode src =
     (if sf_language src \<noteq> Go
      then Inl (AnalysisUnsupported (family (sf_language src) @ '' is not Go source''))
      else
        (case split_on (\<lambda>b. b = CHR '':'') (sf_language_mode src) of
           [lang, kind, os, arch] \<Rightarrow>
             if lang = ''go'' \<and> (kind = ''source'' \<or> kind = ''test'') \<and> os \<noteq> [] \<and> arch \<noteq> []
             then Inr \<lparr> gt_os = os, gt_arch = arch, gt_test = (kind = ''test'') \<rparr>
             else Inl (AnalysisUnsupported (''unsupported Go language mode '' @ [CHR 0x27] @ sf_language_mode src @ [CHR 0x27] @
               ''; expected go:source:<goos>:<goarch> or go:test:<goos>:<goarch>''))
         | _ \<Rightarrow> Inl (AnalysisUnsupported (''unsupported Go language mode '' @ [CHR 0x27] @ sf_language_mode src @ [CHR 0x27] @
               ''; expected go:source:<goos>:<goarch> or go:test:<goos>:<goarch>''))))"

definition known_go_os :: "bytes \<Rightarrow> bool" where
  "known_go_os value \<longleftrightarrow> value \<in> set
     [''aix'', ''android'', ''darwin'', ''dragonfly'', ''freebsd'', ''hurd'', ''illumos'', ''ios'', ''js'', ''linux'',
      ''netbsd'', ''openbsd'', ''plan9'', ''solaris'', ''wasip1'', ''windows'']"

definition unix_go_os :: "bytes \<Rightarrow> bool" where
  "unix_go_os value \<longleftrightarrow> value \<in> set
     [''aix'', ''android'', ''darwin'', ''dragonfly'', ''freebsd'', ''hurd'', ''illumos'', ''ios'', ''linux'', ''netbsd'',
      ''openbsd'', ''solaris'']"

definition known_go_arch :: "bytes \<Rightarrow> bool" where
  "known_go_arch value \<longleftrightarrow> value \<in> set
     [''386'', ''amd64'', ''arm'', ''arm64'', ''loong64'', ''mips'', ''mips64'', ''mips64le'', ''mipsle'', ''ppc64'',
      ''ppc64le'', ''riscv64'', ''s390x'', ''wasm'']"

section \<open>The file name\<close>

definition architecture_constraint :: "bytes list \<Rightarrow> go_target \<Rightarrow> bytes \<Rightarrow> bool" where
  "architecture_constraint parts target arch =
     (case parts of
        _ # os # _ \<Rightarrow> if known_go_os os then os = gt_os target \<and> arch = gt_arch target else arch = gt_arch target
      | _ \<Rightarrow> arch = gt_arch target)"

text \<open>\<^verbatim>\<open>rsplit('_').take(3)\<close> gives the last three parts, the last one first.\<close>

definition filename_constraint :: "source_file \<Rightarrow> go_target \<Rightarrow> bool option" where
  "filename_constraint src target =
     Option.bind (as_utf8 (sf_path src)) (\<lambda>path.
     Option.bind (strip_suffix ''.go'' (last (split_on (\<lambda>b. b = slash) path))) (\<lambda>stem.
     Option.bind (if gt_test target then strip_suffix ''_test'' stem else Some stem) (\<lambda>stem.
       (let parts = take 3 (rev (split_on (\<lambda>b. b = CHR ''_'') stem))
        in case parts of
             [] \<Rightarrow> None
           | first # _ \<Rightarrow>
               if known_go_arch first then Some (architecture_constraint parts target first)
               else if known_go_os first then Some (first = gt_os target)
               else None))))"

section \<open>Build directives\<close>

datatype truth = TFalse | TTrue | TUnknown

fun truth_not :: "truth \<Rightarrow> truth" where
  "truth_not TFalse = TTrue"
| "truth_not TTrue = TFalse"
| "truth_not TUnknown = TUnknown"

fun truth_and :: "truth \<Rightarrow> truth \<Rightarrow> truth" where
  "truth_and TFalse _ = TFalse"
| "truth_and _ TFalse = TFalse"
| "truth_and TTrue TTrue = TTrue"
| "truth_and _ _ = TUnknown"

fun truth_or :: "truth \<Rightarrow> truth \<Rightarrow> truth" where
  "truth_or TTrue _ = TTrue"
| "truth_or _ TTrue = TTrue"
| "truth_or TFalse TFalse = TFalse"
| "truth_or _ _ = TUnknown"

definition truth_from_bool :: "bool \<Rightarrow> truth" where
  "truth_from_bool value = (if value then TTrue else TFalse)"

definition evaluate_tag :: "bytes \<Rightarrow> go_target \<Rightarrow> truth" where
  "evaluate_tag tag target =
     (if \<not> utf8_valid tag then TUnknown
      else if tag = gt_os target \<or> tag = gt_arch target then TTrue
      else if known_go_os tag \<or> known_go_arch tag then TFalse
      else if tag = ''unix'' then truth_from_bool (unix_go_os (gt_os target))
      else TUnknown)"

definition evaluate_legacy :: "bytes list \<Rightarrow> go_target \<Rightarrow> truth" where
  "evaluate_legacy lines target =
     foldl (\<lambda>all_lines line. truth_and all_lines
       (foldl (\<lambda>any option. truth_or any
         (foldl (\<lambda>all part. truth_and all
            (case strip_prefix ''!'' part of
               None \<Rightarrow> evaluate_tag part target
             | Some tag \<Rightarrow> truth_not (evaluate_tag tag target)))
          TTrue (split_on (\<lambda>b. b = CHR '','') option)))
        TFalse (split_ascii_whitespace line)))
      TTrue lines"

text \<open>
  \<^verbatim>\<open>BuildExpression\<close>: a recursive descent parser. The offset is the text that remains. A goal stands for
  the method to run: \<^verbatim>\<open>parse_or\<close> and its loop, \<^verbatim>\<open>parse_and\<close> and its loop, \<^verbatim>\<open>parse_unary\<close>. The fuel
  that \<open>parse_expression\<close> gives never runs out (\<open>expression_fuel_enough\<close>).
\<close>

definition MAX_STRUCTURAL_DEPTH :: nat where "MAX_STRUCTURAL_DEPTH = 256"

datatype parsed = OutOfFuel | Rejected | Parsed truth bytes

definition tag_byte :: "byte \<Rightarrow> bool" where
  "tag_byte b \<longleftrightarrow> is_ascii_alphabetic b \<or> (CHR ''0'' \<le> b \<and> b \<le> CHR ''9'') \<or> b = CHR ''_'' \<or> b = CHR ''.''"

abbreviation skip_space :: "bytes \<Rightarrow> bytes" where
  "skip_space \<equiv> dropWhile is_ascii_whitespace"

definition parse_tag :: "go_target \<Rightarrow> bytes \<Rightarrow> parsed" where
  "parse_tag target bs =
     (let bs = skip_space bs; tag = takeWhile tag_byte bs
      in if tag = [] then Rejected else Parsed (evaluate_tag tag target) (dropWhile tag_byte bs))"

datatype expression_goal = ParseOr | OrLoop truth | ParseAnd | AndLoop truth | ParseUnary

definition parsed_then :: "parsed \<Rightarrow> (truth \<Rightarrow> bytes \<Rightarrow> parsed) \<Rightarrow> parsed" where
  "parsed_then r f = (case r of Parsed value bs \<Rightarrow> f value bs | _ \<Rightarrow> r)"

primrec parse_goal :: "nat \<Rightarrow> go_target \<Rightarrow> expression_goal \<Rightarrow> nat \<Rightarrow> bytes \<Rightarrow> parsed" where
  "parse_goal 0 target goal depth bs = OutOfFuel"
| "parse_goal (Suc n) target goal depth bs =
     (case goal of
        ParseOr \<Rightarrow> parsed_then (parse_goal n target ParseAnd depth bs) (\<lambda>value. parse_goal n target (OrLoop value) depth)
      | OrLoop value \<Rightarrow>
          (case strip_prefix ''||'' (skip_space bs) of
             None \<Rightarrow> Parsed value (skip_space bs)
           | Some bs \<Rightarrow> parsed_then (parse_goal n target ParseAnd depth bs)
               (\<lambda>other. parse_goal n target (OrLoop (truth_or value other)) depth))
      | ParseAnd \<Rightarrow> parsed_then (parse_goal n target ParseUnary depth bs) (\<lambda>value. parse_goal n target (AndLoop value) depth)
      | AndLoop value \<Rightarrow>
          (case strip_prefix ''&&'' (skip_space bs) of
             None \<Rightarrow> Parsed value (skip_space bs)
           | Some bs \<Rightarrow> parsed_then (parse_goal n target ParseUnary depth bs)
               (\<lambda>other. parse_goal n target (AndLoop (truth_and value other)) depth))
      | ParseUnary \<Rightarrow>
          (case strip_prefix ''!'' (skip_space bs) of
             Some bs \<Rightarrow> parsed_then (parse_goal n target ParseUnary depth bs) (\<lambda>value. Parsed (truth_not value))
           | None \<Rightarrow>
          (case strip_prefix ''('' (skip_space bs) of
             Some bs \<Rightarrow>
               if depth \<ge> MAX_STRUCTURAL_DEPTH then Rejected
               else parsed_then (parse_goal n target ParseOr (sat_add depth 1) bs)
                 (\<lambda>value bs. case strip_prefix '')'' (skip_space bs) of
                    Some bs \<Rightarrow> Parsed value bs
                  | None \<Rightarrow> Rejected)
           | None \<Rightarrow> parse_tag target (skip_space bs))))"

definition parse_expression :: "bytes \<Rightarrow> go_target \<Rightarrow> truth" where
  "parse_expression source target =
     (case parse_goal (4 * length source + 3) target ParseOr 0 source of
        Parsed value bs \<Rightarrow> if skip_space bs = [] then value else TUnknown
      | _ \<Rightarrow> TUnknown)"

text \<open>
  \<^verbatim>\<open>str::trim_start\<close> and \<^verbatim>\<open>str::trim\<close> drop the characters with the property White_Space, here in
  UTF-8.
\<close>

definition white_space :: "bytes list" where
  "white_space =
     map (\<lambda>n. [char_of n]) [9::nat, 10, 11, 12, 13, 32] @
     map (\<lambda>n. [CHR 0xC2, char_of n]) [0x85::nat, 0xA0] @
     [[CHR 0xE1, CHR 0x9A, CHR 0x80]] @
     map (\<lambda>n. [CHR 0xE2, CHR 0x80, char_of n]) ([0x80::nat ..< 0x8B] @ [0xA8, 0xA9, 0xAF]) @
     [[CHR 0xE2, CHR 0x81, CHR 0x9F], [CHR 0xE3, CHR 0x80, CHR 0x80]]"

function trim_prefixes :: "bytes list \<Rightarrow> bytes \<Rightarrow> bytes" where
  "trim_prefixes ws bs =
     (case find (\<lambda>w. w \<noteq> [] \<and> starts_with w bs) ws of
        None \<Rightarrow> bs
      | Some w \<Rightarrow> trim_prefixes ws (drop (length w) bs))"
  by pat_completeness auto
termination
  by (relation "measure (\<lambda>(ws, bs). length bs)") (auto simp: find_Some_iff starts_with_iff)

declare trim_prefixes.simps [simp del]

definition trim_start :: "bytes \<Rightarrow> bytes" where
  "trim_start bs = trim_prefixes white_space bs"

definition str_trim :: "bytes \<Rightarrow> bytes" where
  "str_trim bs = rev (trim_prefixes (map rev white_space) (rev (trim_start bs)))"

definition blank_first :: "bytes \<Rightarrow> bool" where
  "blank_first bs \<longleftrightarrow> bs \<noteq> [] \<and> (hd bs = CHR '' '' \<or> hd bs = CHR 0x09)"

record build_directives =
  bdr_modern :: "bytes list"
  bdr_legacy :: "bytes list"

fun directives_of_lines :: "bytes list \<Rightarrow> build_directives \<Rightarrow> build_directives" where
  "directives_of_lines [] directives = directives"
| "directives_of_lines (line # lines) directives =
     (let line = trim_start line
      in if starts_with ''package '' line \<or> starts_with (''package'' @ [CHR 0x09]) line then directives
         else directives_of_lines lines
           (case strip_prefix ''//go:build'' line of
              Some expression \<Rightarrow>
                if blank_first expression
                then directives\<lparr> bdr_modern := bdr_modern directives @ [str_trim expression] \<rparr> else directives
            | None \<Rightarrow>
                (case strip_prefix ''// +build'' line of
                   Some expression \<Rightarrow>
                     if blank_first expression
                     then directives\<lparr> bdr_legacy := bdr_legacy directives @ [str_trim expression] \<rparr> else directives
                 | None \<Rightarrow> directives)))"

definition collect_build_directives :: "bytes \<Rightarrow> build_directives" where
  "collect_build_directives source =
     directives_of_lines (str_lines source) \<lparr> bdr_modern = [], bdr_legacy = [] \<rparr>"

datatype build_status = BuildActive | BuildInactive | BuildConditional

definition evaluate_build_directives :: "bytes \<Rightarrow> go_target \<Rightarrow> build_status" where
  "evaluate_build_directives source target =
     (let directives = collect_build_directives source
      in case (case bdr_modern directives of
                 [] \<Rightarrow> evaluate_legacy (bdr_legacy directives) target
               | [expression] \<Rightarrow> parse_expression expression target
               | _ \<Rightarrow> TUnknown) of
           TTrue \<Rightarrow> BuildActive
         | TFalse \<Rightarrow> BuildInactive
         | TUnknown \<Rightarrow> BuildConditional)"

definition build_status_of :: "source_file \<Rightarrow> bytes \<Rightarrow> go_target \<Rightarrow> build_status" where
  "build_status_of src source target =
     (if filename_constraint src target = Some False then BuildInactive
      else evaluate_build_directives source target)"

section \<open>Facts of a module\<close>

definition complete_dependencies :: "dependency_reference list \<Rightarrow> dependency_facts" where
  "complete_dependencies references = \<lparr> dep_status = DComplete, dep_references = references \<rparr>"

definition complete_interfaces :: interface_facts where
  "complete_interfaces = default_interface_facts\<lparr> if_status := IComplete, if_public_surface_status := SComplete \<rparr>"

definition conditional_facts :: "dependency_facts \<times> interface_facts" where
  "conditional_facts =
     (complete_dependencies
        [\<lparr> ref_kind = GoUnsupportedConditional, ref_specifier = ''build_constraint'', ref_level = 0 \<rparr>],
      default_interface_facts\<lparr> if_status := IPartial, if_public_surface_status := SPartial,
        if_gaps := (if_gaps default_interface_facts)\<lparr> unsupported_patterns := 1 \<rparr> \<rparr>)"

text \<open>\<open>extracted\<close> is what \<^verbatim>\<open>interfaces::extract\<close> reads from the syntax tree.\<close>

definition module_facts ::
    "build_status \<Rightarrow> (analysis_error, dependency_facts \<times> interface_facts) result
     \<Rightarrow> (analysis_error, dependency_facts \<times> interface_facts) result" where
  "module_facts status extracted =
     (case status of
        BuildActive \<Rightarrow> extracted
      | BuildInactive \<Rightarrow> Inr (complete_dependencies [], complete_interfaces)
      | BuildConditional \<Rightarrow> Inr conditional_facts)"

record go_metric_facts =
  gm_diagnostics :: "raw_diagnostic list"
  gm_callables :: callable_fingerprint_facts
  gm_regions :: region_fingerprint_facts

definition GO_PARSER_NAME :: bytes where "GO_PARSER_NAME = ''tree-sitter-go''"
definition GO_GRAMMAR_VERSION :: bytes where "GO_GRAMMAR_VERSION = ''0.25.0''"

definition analyze_tree ::
    "source_file \<Rightarrow> bytes \<Rightarrow> go_target \<Rightarrow> (analysis_error, go_metric_facts) result
     \<Rightarrow> (analysis_error, dependency_facts \<times> interface_facts) result \<Rightarrow> (analysis_error, file_facts) result" where
  "analyze_tree src source target metrics extracted =
     try_bind metrics (\<lambda>metric_facts.
     try_bind (module_facts (build_status_of src source target) extracted) (\<lambda>(dependencies, interfaces).
       Inr \<lparr> ff_diagnostics = gm_diagnostics metric_facts, ff_parser = GO_PARSER_NAME,
             ff_parser_version = GO_GRAMMAR_VERSION, ff_dependencies = dependencies,
             ff_callable_fingerprints = gm_callables metric_facts,
             ff_region_fingerprints = gm_regions metric_facts,
             ff_interfaces = (if gt_test target then interfaces\<lparr> if_exports := [], if_shapes := [] \<rparr> else interfaces) \<rparr>))"

section \<open>The parser ends\<close>

lemma strip_prefix_length: "strip_prefix p xs = Some ys \<Longrightarrow> length xs = length p + length ys"
  by (induction p xs rule: strip_prefix.induct) (auto split: if_splits)

lemma skip_space_length: "length (skip_space bs) \<le> length bs"
  by (rule length_dropWhile_le)

definition settled :: "bytes \<Rightarrow> parsed \<Rightarrow> bool" where
  "settled bs r \<longleftrightarrow> r \<noteq> OutOfFuel \<and> (\<forall>v rest. r = Parsed v rest \<longrightarrow> length rest \<le> length bs)"

lemma settled_shorter: "settled bs r \<Longrightarrow> length bs \<le> length cs \<Longrightarrow> settled cs r"
  by (auto simp: settled_def)

lemma settled_tag: "settled bs (parse_tag target bs)"
proof -
  have "length (dropWhile tag_byte (skip_space bs)) \<le> length bs"
    using length_dropWhile_le [of tag_byte "skip_space bs"] skip_space_length [of bs] by linarith
  then show ?thesis by (auto simp: settled_def parse_tag_def Let_def)
qed

lemma strip_after_space:
  "strip_prefix p (skip_space bs) = Some cs \<Longrightarrow> length p + length cs \<le> length bs"
  using strip_prefix_length [of p "skip_space bs" cs] skip_space_length [of bs] by linarith

fun goal_fuel :: "expression_goal \<Rightarrow> nat" where
  "goal_fuel ParseOr = 3"
| "goal_fuel (OrLoop _) = 2"
| "goal_fuel ParseAnd = 2"
| "goal_fuel (AndLoop _) = 1"
| "goal_fuel ParseUnary = 1"

lemma settled_then:
  assumes "settled cs r" and "length cs \<le> length bs"
    and "\<And>v rest. length rest \<le> length cs \<Longrightarrow> settled rest (f v rest)"
  shows "settled bs (parsed_then r f)"
proof (cases r)
  case (Parsed v rest)
  with assms(1) have "length rest \<le> length cs" by (simp add: settled_def)
  with assms(2) have "length rest \<le> length bs" by linarith
  from settled_shorter [OF assms(3) [OF \<open>length rest \<le> length cs\<close>] this] Parsed show ?thesis
    by (simp add: parsed_then_def)
qed (use assms(1) in \<open>simp_all add: parsed_then_def settled_def\<close>)

lemma parse_goal_settles:
  "4 * length bs + goal_fuel goal \<le> n \<Longrightarrow> settled bs (parse_goal n target goal depth bs)"
proof (induction n arbitrary: goal depth bs)
  case 0
  then show ?case by (cases goal) simp_all
next
  case (Suc n)
  have space: "settled bs (Parsed v (skip_space bs))" for v
    by (simp add: settled_def skip_space_length)
  show ?case
  proof (cases goal)
    case ParseOr
    with Suc.prems show ?thesis by (auto intro!: settled_then [of bs] Suc.IH)
  next
    case (OrLoop v)
    show ?thesis
    proof (cases "strip_prefix ''||'' (skip_space bs)")
      case (Some cs)
      from strip_after_space [OF Some] Suc.prems OrLoop Some show ?thesis
        by (auto intro!: settled_then [of cs] Suc.IH)
    qed (use OrLoop space in simp)
  next
    case ParseAnd
    with Suc.prems show ?thesis by (auto intro!: settled_then [of bs] Suc.IH)
  next
    case (AndLoop v)
    show ?thesis
    proof (cases "strip_prefix ''&&'' (skip_space bs)")
      case (Some cs)
      from strip_after_space [OF Some] Suc.prems AndLoop Some show ?thesis
        by (auto intro!: settled_then [of cs] Suc.IH)
    qed (use AndLoop space in simp)
  next
    case ParseUnary
    show ?thesis
    proof (cases "strip_prefix ''!'' (skip_space bs)")
      case (Some cs)
      from strip_after_space [OF Some] Suc.prems ParseUnary Some show ?thesis
        by (auto intro!: settled_then [of cs] Suc.IH simp: settled_def [of _ "Parsed _ _"])
    next
      case no: None
      show ?thesis
      proof (cases "strip_prefix ''('' (skip_space bs)")
        case None
        with no ParseUnary show ?thesis
          using settled_shorter [OF settled_tag [of "skip_space bs" target] skip_space_length] by simp
      next
        case (Some cs)
        have close: "settled rest (case strip_prefix '')'' (skip_space rest) of Some bs \<Rightarrow> Parsed v bs | None \<Rightarrow> Rejected)" for v rest
          using strip_after_space [of "'')''" rest] by (auto simp: settled_def split: option.splits)
        from strip_after_space [OF Some] Suc.prems no Some ParseUnary show ?thesis
          by (auto intro!: settled_then [of cs] Suc.IH close simp: settled_def [of _ Rejected])
      qed
    qed
  qed
qed

lemma expression_fuel_enough: "parse_goal (4 * length source + 3) target ParseOr 0 source \<noteq> OutOfFuel"
  using parse_goal_settles [of source ParseOr] by (simp add: settled_def)

end
