(* ===== verification/FactCache.thy ===== *)
theory FactCache
  imports DataModel
begin

text \<open>
  The fact cache interface and its in-memory implementation: the trait \<^verbatim>\<open>FactCache\<close> and
  \<^verbatim>\<open>MemoryFactCache\<close> of \<^verbatim>\<open>src/cache.rs\<close>. A cache object is a state with the record of its
  trait methods; each method returns its result and the next state. The locale \<open>fact_cache\<close> states what
  a client may rely on: a hit returns what is stored, a store adds nothing but the stored pair,
  and a determinism error is only reported against a conflicting entry. \<^verbatim>\<open>serde_json\<close> is a
  parameter (\<open>to_vec\<close>, which may fail).
\<close>

section \<open>The trait\<close>

datatype cache_error = InvalidRoot bytes | Io | Serialization | TooLarge | NonDeterministic

record 'c fact_cache_ops =
  fc_get :: "'c \<Rightarrow> file_fact_key \<Rightarrow> (cache_error, file_facts option) result \<times> 'c"
  fc_put :: "'c \<Rightarrow> file_fact_key \<Rightarrow> file_facts \<Rightarrow> (cache_error, unit) result \<times> 'c"
  fc_metadata :: "'c \<Rightarrow> cache_metadata"

definition metadata_delta :: "cache_metadata \<Rightarrow> cache_metadata \<Rightarrow> cache_metadata" where
  "metadata_delta before after =
     \<lparr> cache_state = cache_state after,
       cache_hits = cache_hits after - cache_hits before,
       cache_misses = cache_misses after - cache_misses before,
       cache_writes = cache_writes after - cache_writes before \<rparr>"

text \<open>
  What a client relies on. \<open>cinv\<close> is the invariant of the implementation and \<open>view\<close> the facts
  stored under each key.
\<close>

locale fact_cache =
  fixes ops :: "'c fact_cache_ops"
    and cinv :: "'c \<Rightarrow> bool"
    and view :: "'c \<Rightarrow> file_fact_key \<Rightarrow> file_facts option"
  assumes get_keeps: "cinv c \<Longrightarrow> cinv (snd (fc_get ops c k)) \<and> view (snd (fc_get ops c k)) = view c"
    and get_hit: "cinv c \<Longrightarrow> fst (fc_get ops c k) = Inr (Some f) \<Longrightarrow> view c k = Some f"
    and get_deterministic: "cinv c \<Longrightarrow> fst (fc_get ops c k) \<noteq> Inl NonDeterministic"
    and put_keeps: "cinv c \<Longrightarrow> cinv (snd (fc_put ops c k f))"
    and put_adds: "cinv c \<Longrightarrow> view (snd (fc_put ops c k f)) j = Some g \<Longrightarrow>
                     view c j = Some g \<or> (j = k \<and> g = f)"
    and put_conflict: "cinv c \<Longrightarrow> fst (fc_put ops c k f) = Inl NonDeterministic \<Longrightarrow>
                     \<exists>g. view c k = Some g \<and> g \<noteq> f"

text \<open>Relaxed atomic counters; \<^verbatim>\<open>fetch_add\<close> wraps.\<close>

record counters =
  ctr_hits :: nat
  ctr_misses :: nat
  ctr_writes :: nat

definition default_counters :: counters where
  "default_counters = \<lparr> ctr_hits = 0, ctr_misses = 0, ctr_writes = 0 \<rparr>"

definition fetch_add_one :: "nat \<Rightarrow> nat" where
  "fetch_add_one n = (n + 1) mod (usize_max + 1)"

definition counters_metadata :: "counters \<Rightarrow> bytes \<Rightarrow> cache_metadata" where
  "counters_metadata c state =
     \<lparr> cache_state = state, cache_hits = ctr_hits c, cache_misses = ctr_misses c,
       cache_writes = ctr_writes c \<rparr>"

definition count_lookup :: "bool \<Rightarrow> counters \<Rightarrow> counters" where
  "count_lookup hit c =
     (if hit then c\<lparr> ctr_hits := fetch_add_one (ctr_hits c) \<rparr>
      else c\<lparr> ctr_misses := fetch_add_one (ctr_misses c) \<rparr>)"

definition count_write :: "counters \<Rightarrow> counters" where
  "count_write c = c\<lparr> ctr_writes := fetch_add_one (ctr_writes c) \<rparr>"

section \<open>MemoryFactCache\<close>

record memory_fact_cache =
  mem_entries :: "(file_fact_key, file_facts \<times> nat) btree_map"
  mem_insertion_order :: "file_fact_key list"
  mem_bytes :: nat
  mem_counters :: counters

definition MemoryFactCache_new :: memory_fact_cache where
  "MemoryFactCache_new =
     \<lparr> mem_entries = [], mem_insertion_order = [], mem_bytes = 0, mem_counters = default_counters \<rparr>"

definition memory_get ::
  "memory_fact_cache \<Rightarrow> file_fact_key \<Rightarrow> (cache_error, file_facts option) result \<times> memory_fact_cache" where
  "memory_get c key =
     (let found = map_option fst (bt_get (mem_entries c) key)
      in (Inr found, c\<lparr> mem_counters := count_lookup (found \<noteq> None) (mem_counters c) \<rparr>))"

text \<open>The eviction loop: oldest insertions go while there is no room for \<open>n\<close> more bytes.\<close>

fun evict :: "nat \<Rightarrow> (file_fact_key, file_facts \<times> nat) btree_map \<Rightarrow> file_fact_key list \<Rightarrow> nat
    \<Rightarrow> (file_fact_key, file_facts \<times> nat) btree_map \<times> file_fact_key list \<times> nat" where
  "evict n entries [] used = (entries, [], used)"
| "evict n entries (oldest # fifo) used =
     (if length entries \<ge> MAX_MEMORY_CACHE_ENTRIES \<or> sat_add used n > MAX_MEMORY_CACHE_BYTES then
        (case bt_get entries oldest of
           None \<Rightarrow> evict n entries fifo used
         | Some fs \<Rightarrow> evict n (bt_remove oldest entries) fifo (used - snd fs))
      else (entries, oldest # fifo, used))"

definition memory_put ::
  "(file_facts \<Rightarrow> bytes option) \<Rightarrow> memory_fact_cache \<Rightarrow> file_fact_key \<Rightarrow> file_facts
    \<Rightarrow> (cache_error, unit) result \<times> memory_fact_cache" where
  "memory_put to_vec c key facts =
     (case to_vec facts of
        None \<Rightarrow> (Inl Serialization, c)
      | Some payload \<Rightarrow>
          if length payload > MAX_MEMORY_CACHE_BYTES then (Inr (), c)
          else case bt_get (mem_entries c) key of
            Some existing \<Rightarrow>
              if fst existing \<noteq> facts then (Inl NonDeterministic, c) else (Inr (), c)
          | None \<Rightarrow>
              let (entries, fifo, used) =
                    evict (length payload) (mem_entries c) (mem_insertion_order c) (mem_bytes c)
              in (Inr (),
                  c\<lparr> mem_entries := bt_insert key (facts, length payload) entries,
                     mem_insertion_order := fifo @ [key],
                     mem_bytes := sat_add used (length payload),
                     mem_counters := count_write (mem_counters c) \<rparr>))"

definition memory_metadata :: "memory_fact_cache \<Rightarrow> cache_metadata" where
  "memory_metadata c = counters_metadata (mem_counters c) ''memory''"

definition memory_ops :: "(file_facts \<Rightarrow> bytes option) \<Rightarrow> memory_fact_cache fact_cache_ops" where
  "memory_ops to_vec =
     \<lparr> fc_get = memory_get, fc_put = memory_put to_vec, fc_metadata = memory_metadata \<rparr>"

section \<open>Invariant of the memory cache\<close>

definition entry_bytes :: "(file_fact_key, file_facts \<times> nat) btree_map \<Rightarrow> nat" where
  "entry_bytes m = sum_list (map (\<lambda>e. snd (snd e)) m)"

definition table_ok ::
  "(file_fact_key, file_facts \<times> nat) btree_map \<Rightarrow> file_fact_key list \<Rightarrow> nat \<Rightarrow> bool" where
  "table_ok entries fifo used \<longleftrightarrow>
     bt_wf entries \<and> distinct fifo \<and> set fifo = fst ` set entries \<and> used = entry_bytes entries \<and>
     length entries \<le> MAX_MEMORY_CACHE_ENTRIES \<and> used \<le> MAX_MEMORY_CACHE_BYTES"

definition memory_inv :: "memory_fact_cache \<Rightarrow> bool" where
  "memory_inv c \<longleftrightarrow> table_ok (mem_entries c) (mem_insertion_order c) (mem_bytes c)"

definition memory_view :: "memory_fact_cache \<Rightarrow> file_fact_key \<Rightarrow> file_facts option" where
  "memory_view c k = map_option fst (bt_get (mem_entries c) k)"

lemma entry_bytes_insert:
  "bt_wf m \<Longrightarrow> bt_get m k = None \<Longrightarrow> entry_bytes (bt_insert k (f, n) m) = entry_bytes m + n"
  by (induction m) (auto simp: entry_bytes_def split: if_splits)

lemma entry_bytes_remove:
  "bt_wf m \<Longrightarrow> bt_get m k = Some (f, n) \<Longrightarrow> entry_bytes (bt_remove k m) + n = entry_bytes m"
proof (induction m)
  case Nil
  then show ?case by simp
next
  case (Cons e m)
  show ?case
  proof (cases "fst e = k")
    case True
    with Cons.prems have "k \<notin> fst ` set m" by auto
    then have "bt_remove k m = m" by (force simp: bt_remove_def filter_id_conv)
    with True Cons.prems show ?thesis by (cases e) (simp add: bt_remove_def entry_bytes_def)
  next
    case False
    with Cons show ?thesis by (cases e) (simp add: bt_remove_def entry_bytes_def)
  qed
qed

lemma table_ok_empty_order: "table_ok entries [] used \<Longrightarrow> entries = [] \<and> used = 0"
  by (simp add: table_ok_def entry_bytes_def)

lemma table_ok_evict_one:
  assumes "table_ok entries (k # fifo) used"
  obtains f n where "bt_get entries k = Some (f, n)" "table_ok (bt_remove k entries) fifo (used - n)"
proof -
  from assms have wf: "bt_wf entries" and k: "k \<in> fst ` set entries"
    and tot: "used = entry_bytes entries"
    by (auto simp: table_ok_def)
  from k obtain f n where get: "bt_get entries k = Some (f, n)"
    by (metis domD dom_map_of_conv_image_fst prod.exhaust)
  have "entry_bytes (bt_remove k entries) = used - n"
    using entry_bytes_remove [OF wf get] tot by simp
  with assms get have "table_ok (bt_remove k entries) fifo (used - n)"
    by (auto simp: table_ok_def length_bt_remove)
  with get that show ?thesis by blast
qed

text \<open>
  The loop ends with a suffix of the insertion order, a table restricted to it, and room for the
  new entry whenever the entry fits an empty cache.
\<close>

lemma evict_spec:
  assumes "table_ok entries fifo used" and "n \<le> MAX_MEMORY_CACHE_BYTES"
    and "evict n entries fifo used = (entries', fifo', used')"
  shows "table_ok entries' fifo' used' \<and>
    (\<exists>gone. fifo = gone @ fifo' \<and> bt_get entries' = (bt_get entries) |` set fifo') \<and>
    length entries' < MAX_MEMORY_CACHE_ENTRIES \<and> used' + n \<le> MAX_MEMORY_CACHE_BYTES"
  using assms
proof (induction fifo arbitrary: entries used)
  case Nil
  then have "entries = [] \<and> used = 0" by (blast dest: table_ok_empty_order)
  with Nil show ?case by (auto simp: MAX_MEMORY_CACHE_ENTRIES_def restrict_map_def fun_eq_iff)
next
  case (Cons k fifo)
  show ?case
  proof (cases "length entries \<ge> MAX_MEMORY_CACHE_ENTRIES \<or> sat_add used n > MAX_MEMORY_CACHE_BYTES")
    case True
    from Cons.prems(1) obtain f m where get: "bt_get entries k = Some (f, m)"
      and ok: "table_ok (bt_remove k entries) fifo (used - m)"
      by (rule table_ok_evict_one)
    from True get Cons.prems(3) have ev: "evict n (bt_remove k entries) fifo (used - m) = (entries', fifo', used')"
      by simp
    note IH = Cons.IH [OF ok Cons.prems(2) ev]
    from IH obtain gone where g: "fifo = gone @ fifo'"
      and sub: "bt_get entries' = (bt_get (bt_remove k entries)) |` set fifo'" by blast
    have "k \<notin> set fifo'" using Cons.prems(1) g by (auto simp: table_ok_def)
    then have "bt_get entries' = (bt_get entries) |` set fifo'"
      using sub by (auto simp: restrict_map_def fun_eq_iff)
    moreover have "k # fifo = (k # gone) @ fifo'" using g by simp
    ultimately show ?thesis using IH by blast
  next
    case False
    with Cons.prems(3) have eq: "entries' = entries" "fifo' = k # fifo" "used' = used" by auto
    have "used + n \<le> MAX_MEMORY_CACHE_BYTES"
      using False Cons.prems(1,2)
      by (auto simp: sat_add_def table_ok_def MAX_MEMORY_CACHE_BYTES_def usize_max_def min_def split: if_splits)
    moreover have "bt_get entries = (bt_get entries) |` set (k # fifo)"
      using Cons.prems(1)
      by (auto simp: table_ok_def restrict_map_def fun_eq_iff map_of_eq_None_iff)
    ultimately show ?thesis
      using False Cons.prems(1) by (auto simp: eq intro!: exI [of _ "[]"])
  qed
qed

text \<open>The effect of a store of new facts that fit.\<close>

lemma memory_put_new:
  assumes "memory_inv c" and "to_vec facts = Some payload" and "length payload \<le> MAX_MEMORY_CACHE_BYTES"
    and "bt_get (mem_entries c) key = None"
  shows "\<exists>gone fifo. fst (memory_put to_vec c key facts) = Inr () \<and>
    memory_inv (snd (memory_put to_vec c key facts)) \<and>
    mem_insertion_order c = gone @ fifo \<and>
    mem_insertion_order (snd (memory_put to_vec c key facts)) = fifo @ [key] \<and>
    memory_view (snd (memory_put to_vec c key facts)) = (memory_view c |` set fifo)(key \<mapsto> facts)"
proof -
  let ?n = "length payload"
  obtain entries fifo used where
    ev: "evict ?n (mem_entries c) (mem_insertion_order c) (mem_bytes c) = (entries, fifo, used)"
    by (metis prod_cases3)
  from evict_spec [OF assms(1) [unfolded memory_inv_def] assms(3) ev]
  obtain gone where ok: "table_ok entries fifo used"
    and g: "mem_insertion_order c = gone @ fifo"
    and sub: "bt_get entries = (bt_get (mem_entries c)) |` set fifo"
    and room: "length entries < MAX_MEMORY_CACHE_ENTRIES" "used + ?n \<le> MAX_MEMORY_CACHE_BYTES"
    by blast
  have none: "bt_get entries key = None" using sub assms(4) by (simp add: restrict_map_def)
  have sat: "sat_add used ?n = used + ?n"
    using room(2) by (simp add: sat_add_def MAX_MEMORY_CACHE_BYTES_def usize_max_def)
  have "table_ok (bt_insert key (facts, ?n) entries) (fifo @ [key]) (used + ?n)"
    using ok room none
    by (auto simp: table_ok_def entry_bytes_insert length_bt_insert map_of_eq_None_iff)
  moreover have put: "memory_put to_vec c key facts =
      (Inr (), c\<lparr> mem_entries := bt_insert key (facts, ?n) entries, mem_insertion_order := fifo @ [key],
         mem_bytes := used + ?n, mem_counters := count_write (mem_counters c) \<rparr>)"
    using assms(2,3,4) by (simp add: memory_put_def ev sat not_less)
  moreover have "bt_wf entries" using ok by (simp add: table_ok_def)
  ultimately show ?thesis
    using g sub
    by (intro exI [of _ gone] exI [of _ fifo])
      (simp add: memory_inv_def memory_view_def restrict_map_def fun_eq_iff)
qed

lemma memory_inv_new: "memory_inv MemoryFactCache_new"
  by (simp add: memory_inv_def MemoryFactCache_new_def table_ok_def entry_bytes_def)

lemma memory_put_cases:
  assumes "memory_inv c"
  obtains (same) "memory_put to_vec c key facts = (Inr (), c)"
  | (bad) "memory_put to_vec c key facts = (Inl Serialization, c)"
  | (conflict) f where "memory_put to_vec c key facts = (Inl NonDeterministic, c)"
      "memory_view c key = Some f" "f \<noteq> facts"
  | (new) payload where "to_vec facts = Some payload" "length payload \<le> MAX_MEMORY_CACHE_BYTES"
      "bt_get (mem_entries c) key = None"
proof (cases "to_vec facts")
  case None
  then show ?thesis by (intro bad) (simp add: memory_put_def)
next
  case (Some payload)
  show ?thesis
  proof (cases "length payload > MAX_MEMORY_CACHE_BYTES")
    case True
    with Some show ?thesis by (intro same) (simp add: memory_put_def)
  next
    case fits: False
    show ?thesis
    proof (cases "bt_get (mem_entries c) key")
      case None
      with Some fits show ?thesis by (intro new) (simp_all add: not_less)
    next
      case (Some existing)
      with \<open>to_vec facts = Some payload\<close> fits show ?thesis
        by (cases "fst existing = facts")
          (auto simp: memory_put_def memory_view_def intro: same conflict)
    qed
  qed
qed

section \<open>The memory cache implements the interface\<close>

lemma memory_get_keeps:
  "memory_inv (snd (memory_get c k)) \<longleftrightarrow> memory_inv c"
  "memory_view (snd (memory_get c k)) = memory_view c"
  by (simp_all add: memory_get_def memory_inv_def memory_view_def Let_def fun_eq_iff)

lemma memory_get_result: "fst (memory_get c k) = Inr (memory_view c k)"
  by (simp add: memory_get_def memory_view_def Let_def)

lemma memory_put_inv:
  assumes "memory_inv c"
  shows "memory_inv (snd (memory_put to_vec c key facts))"
  using assms
proof (cases rule: memory_put_cases [of c to_vec key facts])
  case (new payload)
  from memory_put_new [of c to_vec facts payload key, OF assms new] show ?thesis by metis
qed (use assms in simp_all)

lemma memory_put_adds:
  assumes "memory_inv c" and "memory_view (snd (memory_put to_vec c key facts)) j = Some g"
  shows "memory_view c j = Some g \<or> (j = key \<and> g = facts)"
  using assms(1)
proof (cases rule: memory_put_cases [of c to_vec key facts])
  case (new payload)
  from memory_put_new [of c to_vec facts payload key, OF assms(1) new] assms(2) show ?thesis
    by (metis fun_upd_apply option.inject restrict_in restrict_out option.distinct(1))
qed (use assms(2) in simp_all)

lemma memory_put_conflict:
  assumes "memory_inv c" and "fst (memory_put to_vec c key facts) = Inl NonDeterministic"
  shows "\<exists>g. memory_view c key = Some g \<and> g \<noteq> facts"
  using assms(1)
proof (cases rule: memory_put_cases [of c to_vec key facts])
  case (new payload)
  from memory_put_new [of c to_vec facts payload key, OF assms(1) new] assms(2) show ?thesis by (metis Inl_Inr_False)
qed (use assms(2) in simp_all)

interpretation mem: fact_cache "memory_ops to_vec" memory_inv memory_view
  for to_vec
  by unfold_locales
    (auto simp: memory_ops_def memory_get_keeps memory_get_result memory_put_inv
      dest: memory_put_adds memory_put_conflict)

section \<open>Properties\<close>

datatype cache_call = Get file_fact_key | Put file_fact_key file_facts

fun run_cache :: "'c fact_cache_ops \<Rightarrow> cache_call list \<Rightarrow> 'c \<Rightarrow> 'c" where
  "run_cache ops [] c = c"
| "run_cache ops (Get k # calls) c = run_cache ops calls (snd (fc_get ops c k))"
| "run_cache ops (Put k f # calls) c = run_cache ops calls (snd (fc_put ops c k f))"

lemma run_cache_inv: "memory_inv c \<Longrightarrow> memory_inv (run_cache (memory_ops to_vec) calls c)"
proof (induction calls arbitrary: c)
  case Nil
  then show ?case by simp
next
  case (Cons call calls)
  then show ?case using mem.get_keeps mem.put_keeps by (cases call) auto
qed

text \<open>
  C14. The memory cache never exceeds its quotas: from the empty cache, after any sequence of
  lookups and stores, it has at most \<open>MAX_MEMORY_CACHE_ENTRIES\<close> entries, their recorded sizes sum
  to the byte counter, and that counter is at most \<open>MAX_MEMORY_CACHE_BYTES\<close>.
\<close>

theorem memory_cache_quota:
  "length (mem_entries (run_cache (memory_ops to_vec) calls MemoryFactCache_new)) \<le> MAX_MEMORY_CACHE_ENTRIES \<and>
   mem_bytes (run_cache (memory_ops to_vec) calls MemoryFactCache_new) \<le> MAX_MEMORY_CACHE_BYTES \<and>
   mem_bytes (run_cache (memory_ops to_vec) calls MemoryFactCache_new) =
     entry_bytes (mem_entries (run_cache (memory_ops to_vec) calls MemoryFactCache_new))"
  using run_cache_inv [OF memory_inv_new, of to_vec calls]
  by (auto simp: memory_inv_def table_ok_def)

text \<open>
  C39. A store of facts that serialize within the quota under a new key succeeds; a lookup then
  returns them; and what the store evicts is a prefix of the insertion order, oldest first, every
  other entry staying as it was.
\<close>

theorem memory_put_then_get:
  assumes "memory_inv c" and "to_vec facts = Some payload"
    and "length payload \<le> MAX_MEMORY_CACHE_BYTES" and "memory_view c key = None"
  shows "\<exists>gone fifo. fst (memory_put to_vec c key facts) = Inr () \<and>
    fst (memory_get (snd (memory_put to_vec c key facts)) key) = Inr (Some facts) \<and>
    mem_insertion_order c = gone @ fifo \<and>
    mem_insertion_order (snd (memory_put to_vec c key facts)) = fifo @ [key] \<and>
    (\<forall>k. k \<noteq> key \<longrightarrow> fst (memory_get (snd (memory_put to_vec c key facts)) k) =
        (if k \<in> set fifo then fst (memory_get c k) else Inr None))"
proof -
  have none: "bt_get (mem_entries c) key = None" using assms(4) by (simp add: memory_view_def)
  from memory_put_new [of c to_vec facts payload key, OF assms(1,2,3) none] obtain gone fifo where
    "fst (memory_put to_vec c key facts) = Inr ()" "mem_insertion_order c = gone @ fifo"
    "mem_insertion_order (snd (memory_put to_vec c key facts)) = fifo @ [key]"
    "memory_view (snd (memory_put to_vec c key facts)) = (memory_view c |` set fifo)(key \<mapsto> facts)"
    by blast
  then show ?thesis by (intro exI [of _ gone] exI [of _ fifo]) (simp add: memory_get_result restrict_map_def)
qed

theorem memory_put_then_get_witness:
  "fst (memory_get (snd (memory_put (\<lambda>_. Some ''{}'') MemoryFactCache_new ''k'' default_file_facts)) ''k'') =
     Inr (Some default_file_facts)"
proof -
  have "memory_view MemoryFactCache_new ''k'' = None"
    by (simp add: memory_view_def MemoryFactCache_new_def)
  from memory_put_then_get [OF memory_inv_new _ _ this, of "\<lambda>_. Some ''{}''" default_file_facts "''{}''"]
  show ?thesis by (auto simp: MAX_MEMORY_CACHE_BYTES_def)
qed

text \<open>
  Storing different facts under a stored key is reported as a determinism error and leaves
  the cache as it was, and that error is reported in no other case.
\<close>

lemma memory_put_nondeterministic:
  assumes "to_vec facts = Some payload" and "length payload \<le> MAX_MEMORY_CACHE_BYTES" and "memory_inv c"
  shows "(fst (memory_put to_vec c key facts) = Inl NonDeterministic \<longleftrightarrow>
            (\<exists>g. memory_view c key = Some g \<and> g \<noteq> facts)) \<and>
         (fst (memory_put to_vec c key facts) = Inl NonDeterministic \<longrightarrow>
            snd (memory_put to_vec c key facts) = c)"
proof -
  have "memory_put to_vec c key facts = (Inl NonDeterministic, c)"
    if "memory_view c key = Some g" "g \<noteq> facts" for g
    using assms(1,2) that by (auto simp: memory_put_def memory_view_def not_less)
  then show ?thesis
    using memory_put_conflict [OF assms(3), of to_vec key facts] by (metis fst_conv snd_conv)
qed

end
