(* ===== verification/Facts.thy ===== *)
theory Facts
  imports GoBuild FactCache
begin

text \<open>
  Loading the facts of a file through the cache: \<^verbatim>\<open>src/facts.rs\<close>. The cache is shared by worker
  threads, and each of its operations is atomic. A computation that uses it is therefore written as a
  tree of cache operations (\<open>prog\<close>): \<open>run\<close> performs them one after the other, and the interleaved
  execution of several computations is the step relation of the theory \<open>Schedule\<close>. Inside the
  locale of the cache interface it is proved that a cache whose entries are right for a set of files
  stays right and is invisible: what is loaded for one of the files is what its analysis gives, as
  long as no two files of the set share a key and differ in their analysis. That can happen: the key
  leaves out the path, which the analysis of a Go file reads (\<open>windows_twin_shares_facts\<close>).
\<close>

section \<open>Computations over a shared cache\<close>

datatype 'r prog =
    Done 'r
  | Get file_fact_key "(cache_error, file_facts option) result \<Rightarrow> 'r prog"
  | Put file_fact_key file_facts "(cache_error, unit) result \<Rightarrow> 'r prog"

primrec prog_bind :: "'r prog \<Rightarrow> ('r \<Rightarrow> 's prog) \<Rightarrow> 's prog" where
  "prog_bind (Done r) f = f r"
| "prog_bind (Get k g) f = Get k (\<lambda>x. prog_bind (g x) f)"
| "prog_bind (Put k v g) f = Put k v (\<lambda>x. prog_bind (g x) f)"

primrec run :: "'c fact_cache_ops \<Rightarrow> 'r prog \<Rightarrow> 'c \<Rightarrow> 'r \<times> 'c" where
  "run ops (Done r) c = (r, c)"
| "run ops (Get k f) c = run ops (f (fst (fc_get ops c k))) (snd (fc_get ops c k))"
| "run ops (Put k v f) c = run ops (f (fst (fc_put ops c k v))) (snd (fc_put ops c k v))"

lemma run_bind: "run ops (prog_bind p f) c = (let (r, c') = run ops p c in run ops (f r) c')"
  by (induction p arbitrary: c) (auto simp: Let_def split: prod.splits)

section \<open>load\<close>

definition fact_key :: "crates \<Rightarrow> source_file \<Rightarrow> bytes \<Rightarrow> file_fact_key" where
  "fact_key K src parser_options =
     FileFactKey_new K (sf_content_id src) (sf_language_mode src) parser_options FACT_ABI"

definition nondeterministic_cache_error :: analysis_error where
  "nondeterministic_cache_error =
     AnalysisParser ''same fact key produced unequal deterministic payloads''"

type_synonym loaded = "(analysis_error, file_facts) result \<times> nat"

definition compute_and_store ::
  "crates \<Rightarrow> analyzers \<Rightarrow> source_file \<Rightarrow> rule_limits \<Rightarrow> bytes \<Rightarrow> cancel_token \<Rightarrow> nat \<Rightarrow> loaded prog" where
  "compute_and_store K A src limits parser_options tok n =
     (case analyze K A src limits tok n of
        (Inl e, m) \<Rightarrow> Done (Inl e, m)
      | (Inr facts, m) \<Rightarrow>
          Put (fact_key K src parser_options) facts (\<lambda>stored.
            if stored = Inl NonDeterministic then Done (Inl nondeterministic_cache_error, m)
            else Done (Inr facts, m)))"

definition load ::
  "crates \<Rightarrow> analyzers \<Rightarrow> source_file \<Rightarrow> rule_limits \<Rightarrow> bytes \<Rightarrow> cancel_token \<Rightarrow> nat \<Rightarrow> loaded prog" where
  "load K A src limits parser_options tok n =
     (if tok n then Done (Inl AnalysisCancelled, n + 1)
      else Get (fact_key K src parser_options) (\<lambda>found.
        case found of
          Inr (Some facts) \<Rightarrow>
            if tok (n + 1) then Done (Inl AnalysisCancelled, n + 2) else Done (Inr facts, n + 2)
        | Inr None \<Rightarrow> compute_and_store K A src limits parser_options tok (n + 1)
        | Inl e \<Rightarrow>
            if e = NonDeterministic then Done (Inl nondeterministic_cache_error, n + 1)
            else compute_and_store K A src limits parser_options tok (n + 1)))"

section \<open>Coherence\<close>

definition file_wf :: "crates \<Rightarrow> source_file \<Rightarrow> bool" where
  "file_wf K src \<longleftrightarrow> sf_content_id src = ContentId_of K (sf_bytes src) \<and>
     length (sf_bytes src) \<le> usize_max div 2 \<and> length (sf_language_mode src) \<le> usize_max div 2"

definition limits_wf :: "rule_limits \<Rightarrow> bool" where
  "limits_wf l \<longleftrightarrow> max_file_lines l \<le> u32_max \<and> max_line_bytes l \<le> u32_max \<and> max_function_lines l \<le> u32_max \<and>
     max_parameters l \<le> u32_max \<and> max_nesting l \<le> u32_max \<and> max_cyclomatic_complexity l \<le> u32_max"

text \<open>
  An entry of the cache is right for a set of files, analysed under the same limits, when it is the
  analysis of every file of the set with its key. \<open>opts\<close> is the serialization of the limits
  (\<^verbatim>\<open>serde_json::to_vec\<close>), which is part of the key.
\<close>

definition good_entry ::
  "crates \<Rightarrow> analyzers \<Rightarrow> rule_limits \<Rightarrow> bytes \<Rightarrow> source_file set \<Rightarrow> file_fact_key \<Rightarrow> file_facts \<Rightarrow> bool" where
  "good_entry K A limits opts F k f \<longleftrightarrow>
     (\<forall>src\<in>F. fact_key K src opts = k \<longrightarrow> file_analysis K A src limits = Inr f)"

text \<open>No two files of the set that share a key are analysed differently.\<close>

definition no_key_conflict ::
  "crates \<Rightarrow> analyzers \<Rightarrow> rule_limits \<Rightarrow> bytes \<Rightarrow> source_file set \<Rightarrow> bool" where
  "no_key_conflict K A limits opts F \<longleftrightarrow>
     (\<forall>src\<in>F. \<forall>src'\<in>F. fact_key K src opts = fact_key K src' opts \<longrightarrow>
        file_analysis K A src limits = file_analysis K A src' limits)"

lemma no_key_conflict_single: "no_key_conflict K A limits opts {src}"
  by (simp add: no_key_conflict_def)

lemma no_key_conflict_subset: "no_key_conflict K A limits opts F \<Longrightarrow> G \<subseteq> F \<Longrightarrow> no_key_conflict K A limits opts G"
  by (auto simp: no_key_conflict_def)

lemma good_entry_analysis:
  "no_key_conflict K A limits opts F \<Longrightarrow> src \<in> F \<Longrightarrow> file_analysis K A src limits = Inr f \<Longrightarrow>
   good_entry K A limits opts F (fact_key K src opts) f"
  unfolding good_entry_def no_key_conflict_def by metis

lemma good_entry_only:
  "src \<in> F \<Longrightarrow> file_analysis K A src limits = Inr f \<Longrightarrow>
   good_entry K A limits opts F (fact_key K src opts) g \<Longrightarrow> g = f"
  unfolding good_entry_def by (metis sum.inject(2))

text \<open>
  A computation is safe when, answered by a coherent cache, it stores under a key only the one entry
  that is good there, and its result satisfies \<open>P\<close>.
\<close>

primrec safe :: "(file_fact_key \<Rightarrow> file_facts \<Rightarrow> bool) \<Rightarrow> ('r \<Rightarrow> bool) \<Rightarrow> 'r prog \<Rightarrow> bool" where
  "safe good P (Done r) \<longleftrightarrow> P r"
| "safe good P (Get k f) \<longleftrightarrow>
     (\<forall>x. x \<noteq> Inl NonDeterministic \<and> (\<forall>g. x = Inr (Some g) \<longrightarrow> good k g) \<longrightarrow> safe good P (f x))"
| "safe good P (Put k v f) \<longleftrightarrow> good k v \<and> (\<forall>g. good k g \<longrightarrow> g = v) \<and> (\<forall>x. x \<noteq> Inl NonDeterministic \<longrightarrow> safe good P (f x))"

text \<open>All cache operations of a computation are on one key.\<close>

primrec keyed :: "file_fact_key \<Rightarrow> 'r prog \<Rightarrow> bool" where
  "keyed k (Done r) \<longleftrightarrow> True"
| "keyed k (Get k' f) \<longleftrightarrow> k' = k \<and> (\<forall>x. keyed k (f x))"
| "keyed k (Put k' v f) \<longleftrightarrow> k' = k \<and> (\<forall>x. keyed k (f x))"

lemma load_keyed: "keyed (fact_key K src opts) (load K A src limits opts tok n)"
  by (auto simp: load_def compute_and_store_def split: sum.splits option.splits prod.splits)

text \<open>At most \<open>n\<close> cache operations, whatever they answer.\<close>

primrec ops_le :: "'r prog \<Rightarrow> nat \<Rightarrow> bool" where
  "ops_le (Done r) n \<longleftrightarrow> True"
| "ops_le (Get k f) n \<longleftrightarrow> 0 < n \<and> (\<forall>x. ops_le (f x) (n - 1))"
| "ops_le (Put k v f) n \<longleftrightarrow> 0 < n \<and> (\<forall>x. ops_le (f x) (n - 1))"

lemma ops_le_mono: "ops_le p n \<Longrightarrow> n \<le> m \<Longrightarrow> ops_le p m"
proof (induction p arbitrary: n m)
  case (Done r)
  show ?case by simp
next
  case (Get k f)
  from Get.prems(1) have n: "0 < n" "\<And>x. ops_le (f x) (n - 1)" by simp_all
  have "ops_le (f x) (m - 1)" for x
    by (rule Get.IH [OF rangeI n(2) diff_le_mono [OF Get.prems(2)]])
  with n(1) Get.prems(2) show ?case by simp
next
  case (Put k v f)
  from Put.prems(1) have n: "0 < n" "\<And>x. ops_le (f x) (n - 1)" by simp_all
  have "ops_le (f x) (m - 1)" for x
    by (rule Put.IH [OF rangeI n(2) diff_le_mono [OF Put.prems(2)]])
  with n(1) Put.prems(2) show ?case by simp
qed

lemma ops_le_bind: "ops_le p a \<Longrightarrow> (\<And>r. ops_le (f r) b) \<Longrightarrow> ops_le (prog_bind p f) (a + b)"
proof (induction p arbitrary: a)
  case (Done r)
  then have "ops_le (f r) b" by blast
  then have "ops_le (f r) (a + b)" by (rule ops_le_mono) simp
  then show ?case by simp
next
  case (Get k g)
  from Get.prems(1) have a: "0 < a" "\<And>x. ops_le (g x) (a - 1)" by simp_all
  have "ops_le (prog_bind (g x) f) ((a - 1) + b)" for x by (rule Get.IH [OF rangeI a(2) Get.prems(2)])
  with a(1) show ?case by simp
next
  case (Put k v g)
  from Put.prems(1) have a: "0 < a" "\<And>x. ops_le (g x) (a - 1)" by simp_all
  have "ops_le (prog_bind (g x) f) ((a - 1) + b)" for x by (rule Put.IH [OF rangeI a(2) Put.prems(2)])
  with a(1) show ?case by simp
qed

lemma load_ops: "ops_le (load K A src limits opts tok n) 2"
  by (auto simp: load_def compute_and_store_def split: sum.splits option.splits prod.splits)

lemma safe_bind:
  "safe good Q p \<Longrightarrow> (\<And>r. Q r \<Longrightarrow> safe good P (f r)) \<Longrightarrow> safe good P (prog_bind p f)"
  by (induction p) auto

lemma safe_mono: "safe good P p \<Longrightarrow> (\<And>r. P r \<Longrightarrow> Q r) \<Longrightarrow> safe good Q p"
  by (induction p) auto

text \<open>What a load gives: the analysis, or a cancellation that one of its polls reported.\<close>

definition load_ok :: "(analysis_error, file_facts) result \<Rightarrow> cancel_token \<Rightarrow> nat \<Rightarrow> loaded \<Rightarrow> bool" where
  "load_ok r tok n l \<longleftrightarrow> fst l = r \<or> (fst l = Inl AnalysisCancelled \<and> (\<exists>i\<ge>n. i < snd l \<and> tok i))"

lemma load_safe:
  assumes "analyzers_cooperate A" and "no_key_conflict K A limits opts F" and "src \<in> F"
  shows "safe (good_entry K A limits opts F) (load_ok (file_analysis K A src limits) tok n)
    (load K A src limits opts tok n)"
proof -
  let ?r = "file_analysis K A src limits"
  obtain l m where an: "analyze K A src limits tok (n + 1) = (l, m)" by fastforce
  have l: "l = ?r \<or> (l = Inl AnalysisCancelled \<and> (\<exists>i\<ge>n. i < m \<and> tok i))"
    using outcome_poll [OF analyze_outcome [OF assms(1), of K src limits] an] by (auto intro: Suc_leD)
  have store: "safe (good_entry K A limits opts F) (load_ok ?r tok n)
      (compute_and_store K A src limits opts tok (n + 1))"
    using l by (auto simp: compute_and_store_def an [simplified] load_ok_def split: sum.splits
        intro: good_entry_analysis [OF assms(2,3)] good_entry_only [OF assms(3)])
  have hit: "?r = Inr g" if "good_entry K A limits opts F (fact_key K src opts) g" for g
    using that assms(3) by (auto simp: good_entry_def)
  show ?thesis
    using store hit
    by (auto simp: load_def load_ok_def split: sum.splits option.splits intro: exI [of _ "Suc n"])
qed

context fact_cache
begin

definition coherent :: "(file_fact_key \<Rightarrow> file_facts \<Rightarrow> bool) \<Rightarrow> 'c \<Rightarrow> bool" where
  "coherent good c \<longleftrightarrow> cinv c \<and> (\<forall>k f. view c k = Some f \<longrightarrow> good k f)"

lemma coherent_get:
  assumes "coherent good c"
  shows "coherent good (snd (fc_get ops c k))"
    and "fst (fc_get ops c k) \<noteq> Inl NonDeterministic"
    and "fst (fc_get ops c k) = Inr (Some f) \<Longrightarrow> good k f"
  using assms get_keeps [of c k] get_deterministic [of c k] get_hit [of c k]
  by (auto simp: coherent_def)

lemma coherent_put:
  assumes "coherent good c" and "good k f" and "\<And>g. good k g \<Longrightarrow> g = f"
  shows "coherent good (snd (fc_put ops c k f))"
    and "fst (fc_put ops c k f) \<noteq> Inl NonDeterministic"
proof -
  show "coherent good (snd (fc_put ops c k f))"
    unfolding coherent_def
  proof (intro conjI allI impI)
    show "cinv (snd (fc_put ops c k f))" using assms(1) by (auto simp: coherent_def put_keeps)
    fix j g assume "view (snd (fc_put ops c k f)) j = Some g"
    with put_adds [of c k f j g] assms(1) have "view c j = Some g \<or> (j = k \<and> g = f)"
      by (simp add: coherent_def)
    with assms(1,2) show "good j g" by (auto simp: coherent_def)
  qed
  show "fst (fc_put ops c k f) \<noteq> Inl NonDeterministic"
  proof
    assume "fst (fc_put ops c k f) = Inl NonDeterministic"
    with put_conflict [of c k f] assms(1) obtain g where "view c k = Some g" "g \<noteq> f"
      by (auto simp: coherent_def)
    with assms(1,3) show False by (auto simp: coherent_def)
  qed
qed

text \<open>Running a safe computation on a coherent cache.\<close>

lemma run_safe:
  "coherent good c \<Longrightarrow> safe good P p \<Longrightarrow> P (fst (run ops p c)) \<and> coherent good (snd (run ops p c))"
proof (induction p arbitrary: c)
  case (Done r)
  then show ?case by simp
next
  case (Get k f)
  note get = coherent_get [OF Get.prems(1), of k]
  from Get.prems(2) get(2,3) have "safe good P (f (fst (fc_get ops c k)))" by simp
  with Get.IH [OF rangeI get(1)] show ?case by simp
next
  case (Put k v f)
  from Put.prems(2) have good: "good k v" and only: "\<And>g. good k g \<Longrightarrow> g = v" by simp_all
  note put = coherent_put [OF Put.prems(1) good only]
  from Put.prems(2) put(2) have "safe good P (f (fst (fc_put ops c k v)))" by simp
  with Put.IH [OF rangeI put(1)] show ?case by simp
qed

lemma load_transparent:
  assumes "analyzers_cooperate A" and "no_key_conflict K A limits opts F" and "src \<in> F"
    and "coherent (good_entry K A limits opts F) c"
  shows "load_ok (file_analysis K A src limits) tok n (fst (run ops (load K A src limits opts tok n) c)) \<and>
         coherent (good_entry K A limits opts F) (snd (run ops (load K A src limits opts tok n) c))"
  by (rule run_safe [OF assms(4) load_safe [OF assms(1-3)]])

text \<open>A load adds nothing to the cache but the analysis of its file.\<close>

lemma load_adds:
  assumes "analyzers_cooperate A" and "cinv c"
    and "\<forall>f. view c (fact_key K src opts) = Some f \<longrightarrow> file_analysis K A src limits = Inr f"
    and "view (snd (run ops (load K A src limits opts tok n) c)) k = Some f"
  shows "view c k = Some f \<or> (k = fact_key K src opts \<and> file_analysis K A src limits = Inr f)"
proof -
  define good where "good k f \<longleftrightarrow> view c k = Some f \<or> (k = fact_key K src opts \<and> file_analysis K A src limits = Inr f)" for k f
  have key: "good (fact_key K src opts) f \<longleftrightarrow> good_entry K A limits opts {src} (fact_key K src opts) f" for f
    using assms(3) by (auto simp: good_def good_entry_def)
  have "safe good P p" if "safe (good_entry K A limits opts {src}) P p" "keyed (fact_key K src opts) p"
    for P :: "loaded \<Rightarrow> bool" and p
    using that by (induction p) (auto simp: key)
  from this [OF load_safe [OF assms(1) no_key_conflict_single singletonI] load_keyed]
  have "coherent good (snd (run ops (load K A src limits opts tok n) c))"
    using assms(2) by (intro run_safe [THEN conjunct2]) (simp_all add: coherent_def good_def)
  with assms(4) show ?thesis by (simp add: coherent_def good_def)
qed

end

section \<open>When keys do not conflict\<close>

text \<open>
  SHA-256 has no collision among the byte strings hashed for the files, and files of the same bytes
  and language mode have the same analysis. The second holds of any analysis when no two files have
  the same bytes and language mode.
\<close>

definition keys_collision_free :: "crates \<Rightarrow> bytes \<Rightarrow> source_file set \<Rightarrow> bool" where
  "keys_collision_free K opts F \<longleftrightarrow>
     inj_on (sha256 K) ((\<lambda>src. hash_input ''content/v1'' [sf_bytes src]) ` F) \<and>
     inj_on (sha256 K)
       ((\<lambda>src. hash_input ''file-fact/v1'' [sf_content_id src, sf_language_mode src, opts, FACT_ABI]) ` F)"

definition twins_agree :: "crates \<Rightarrow> analyzers \<Rightarrow> rule_limits \<Rightarrow> source_file set \<Rightarrow> bool" where
  "twins_agree K A limits F \<longleftrightarrow>
     (\<forall>src\<in>F. \<forall>src'\<in>F. sf_bytes src = sf_bytes src' \<and> sf_language_mode src = sf_language_mode src' \<longrightarrow>
        file_analysis K A src limits = file_analysis K A src' limits)"

lemma twins_agree_distinct: "inj_on (\<lambda>src. (sf_bytes src, sf_language_mode src)) F \<Longrightarrow> twins_agree K A limits F"
  unfolding twins_agree_def by (metis (mono_tags, lifting) inj_onD)

definition digests_fit :: "crates \<Rightarrow> bool" where
  "digests_fit K \<longleftrightarrow> (\<forall>bs. length bs \<le> usize_max div 2 \<longrightarrow> length (ContentId_of K bs) \<le> usize_max)"

lemma digests_fitI: "sha256_digest_len K \<Longrightarrow> digests_fit K"
  by (simp add: digests_fit_def sha256_digest_len_def ContentId_of_def hash_domain_def usize_max_def)

lemma file_wf_lengths:
  "file_wf K src \<Longrightarrow> length (sf_bytes src) \<le> usize_max \<and> length (sf_language_mode src) \<le> usize_max"
  using div_le_dividend [of usize_max 2] unfolding file_wf_def by linarith

lemma content_domain_fits: "length ''content/v1'' \<le> usize_max"
  by (simp add: usize_max_def)

lemma no_key_conflictI:
  assumes "\<forall>src\<in>F. file_wf K src" and "keys_collision_free K opts F" and "digests_fit K"
    and "length opts \<le> usize_max" and "twins_agree K A limits F"
  shows "no_key_conflict K A limits opts F"
  unfolding no_key_conflict_def
proof (intro ballI impI)
  fix src src' assume F: "src \<in> F" "src' \<in> F" and key: "fact_key K src opts = fact_key K src' opts"
  from F assms(1) have wf: "file_wf K src" "file_wf K src'" by blast+
  have b1: "\<forall>p\<in>set (''file-fact/v1'' # [sf_content_id x, sf_language_mode x, opts, FACT_ABI]). length p \<le> usize_max"
    if "file_wf K x" for x
  proof -
    have "length (sf_content_id x) \<le> usize_max" using that assms(3) by (simp add: file_wf_def digests_fit_def)
    moreover have "length (sf_language_mode x) \<le> usize_max" using file_wf_lengths [OF that] by blast
    moreover have "length FACT_ABI \<le> usize_max" "length ''file-fact/v1'' \<le> usize_max"
      by (simp_all add: FACT_ABI_def usize_max_def)
    ultimately show ?thesis using assms(4) by simp
  qed
  have "hash_input ''file-fact/v1'' [sf_content_id src, sf_language_mode src, opts, FACT_ABI]
      = hash_input ''file-fact/v1'' [sf_content_id src', sf_language_mode src', opts, FACT_ABI]"
    by (rule inj_onD [OF assms(2) [unfolded keys_collision_free_def, THEN conjunct2]])
      (use key F in \<open>auto simp: fact_key_def FileFactKey_new_def hash_domain_def\<close>)
  from hash_input_inject [OF this b1 [OF wf(1)] b1 [OF wf(2)]]
  have eq: "sf_content_id src = sf_content_id src'" "sf_language_mode src = sf_language_mode src'" by simp_all
  have "hash_input ''content/v1'' [sf_bytes src] = hash_input ''content/v1'' [sf_bytes src']"
    by (rule inj_onD [OF assms(2) [unfolded keys_collision_free_def, THEN conjunct1]])
      (use eq(1) wf F in \<open>auto simp: file_wf_def ContentId_of_def hash_domain_def\<close>)
  from hash_input_inject [OF this] file_wf_lengths [OF wf(1)] file_wf_lengths [OF wf(2)] content_domain_fits
  have "sf_bytes src = sf_bytes src'" unfolding list.set ball_simps by simp
  with eq(2) F assms(5) show "file_analysis K A src limits = file_analysis K A src' limits"
    unfolding twins_agree_def by blast
qed

section \<open>A concrete instance of the parameters\<close>

text \<open>
  Parameters for concrete inputs: a hash that keeps its input, limits written as six big-endian
  integers, and language modules that report nothing, except that of Go: its facts are those of the
  theory \<open>GoBuild\<close> for a file without metrics that imports one package, so they depend on the file name.
\<close>

definition plain_crates :: crates where
  "plain_crates = \<lparr> sha256 = (\<lambda>x. x), hex_encode = (\<lambda>x. x), hex_decode = Some \<rparr>"

definition plain_options :: "rule_limits \<Rightarrow> bytes" where
  "plain_options l =
     be_bytes 4 (max_file_lines l) @ be_bytes 4 (max_line_bytes l) @ be_bytes 4 (max_function_lines l) @
     be_bytes 4 (max_parameters l) @ be_bytes 4 (max_nesting l) @ be_bytes 4 (max_cyclomatic_complexity l)"

definition silent :: analysis where
  "silent c n = (Inr default_file_facts, n)"

definition plain_metrics :: go_metric_facts where
  "plain_metrics = \<lparr> gm_diagnostics = [], gm_callables = \<lparr> cff_status = FComplete, cff_callables = [] \<rparr>,
     gm_regions = \<lparr> rff_status = FComplete, rff_token_count = 0, rff_encoded_tokens = [], rff_anchors = [] \<rparr> \<rparr>"

definition plain_imports :: "dependency_facts \<times> interface_facts" where
  "plain_imports = (complete_dependencies [\<lparr> ref_kind = GoImport, ref_specifier = ''fmt'', ref_level = 0 \<rparr>], complete_interfaces)"

definition plain_go_facts :: "source_file \<Rightarrow> (analysis_error, file_facts) result" where
  "plain_go_facts src =
     try_bind (validate_language_mode src) (\<lambda>target.
       analyze_tree src (fst (source_without_utf8_bom (sf_bytes src))) target (Inr plain_metrics) (Inr plain_imports))"

definition plain_go :: "source_file \<Rightarrow> analysis" where
  "plain_go src c n = (if c n then Inl AnalysisCancelled else plain_go_facts src, n + 1)"

definition plain_analyzers :: analyzers where
  "plain_analyzers =
     \<lparr> node_analyze = (\<lambda>_ _. silent), rust_analyze = (\<lambda>_ _. silent), python_analyze = (\<lambda>_ _. silent),
       go_analyze = (\<lambda>src _. plain_go src), hcl_analyze = (\<lambda>_. silent), shell_analyze = (\<lambda>_. silent),
       protobuf_analyze = (\<lambda>_. silent) \<rparr>"

lemma plain_language:
  "fst (analyze_language plain_analyzers src limits never_cancelled n) =
     (if sf_language src = Go then plain_go_facts src else Inr default_file_facts)"
  by (cases "sf_language src")
    (simp_all add: analyze_language_def analyze_declarative_def plain_analyzers_def silent_def plain_go_def never_cancelled_def)

lemma plain_go_unsupported: "plain_go_facts src = Inl e \<Longrightarrow> \<exists>m. e = AnalysisUnsupported m"
  by (auto simp: plain_go_facts_def try_bind_Inl_iff validate_language_mode_def analyze_tree_def module_facts_def
      split: if_splits list.splits build_status.splits prod.splits)

lemma plain_cooperate: "analyzers_cooperate plain_analyzers"
proof -
  have "outcome silent (Inr default_file_facts)" by (simp add: outcome_def silent_def)
  moreover have "outcome (plain_go src) (plain_go_facts src)" for src
    using plain_go_unsupported [of src AnalysisCancelled] by (auto simp: outcome_def plain_go_def)
  ultimately show ?thesis by (auto simp: analyzers_cooperate_def plain_analyzers_def)
qed

text \<open>A Go file for Linux, by its path.\<close>

definition go_file :: "bytes \<Rightarrow> source_file" where
  "go_file path = SourceFile_new plain_crates (RepoPath path) ''x'' Go ''go:source:linux:amd64''"

definition linux :: go_target where
  "linux = \<lparr> gt_os = ''linux'', gt_arch = ''amd64'', gt_test = False \<rparr>"

lemma linux_source: "\<not> gt_test linux"
  by (simp add: linux_def)

lemma go_file_mode: "validate_language_mode (go_file path) = Inr linux"
  by (simp add: validate_language_mode_def go_file_def SourceFile_new_def linux_def)

lemma go_file_wf: "file_wf plain_crates (go_file path)"
  by (simp add: file_wf_def go_file_def SourceFile_new_def usize_max_def)

lemma go_file_sel [simp]:
  "sf_path (go_file path) = RepoPath path" "sf_bytes (go_file path) = ''x''" "sf_language (go_file path) = Go"
  by (simp_all add: go_file_def SourceFile_new_def)

lemma windows_files:
  "filename_constraint (go_file ''a_windows.go'') linux = Some False"
  "filename_constraint (go_file ''b_windows.go'') linux = Some False"
  "filename_constraint (go_file ''x_windows.go'') linux = Some False"
  "filename_constraint (go_file ''x.go'') linux = None"
  by code_simp+

text \<open>What the analysis of such a file gives: with an inactive name, no dependencies.\<close>

definition active_facts :: file_facts where
  "active_facts = default_file_facts\<lparr> ff_parser := GO_PARSER_NAME, ff_parser_version := GO_GRAMMAR_VERSION,
     ff_dependencies := fst plain_imports, ff_callable_fingerprints := gm_callables plain_metrics,
     ff_region_fingerprints := gm_regions plain_metrics, ff_interfaces := complete_interfaces \<rparr>"

definition inactive_facts :: file_facts where
  "inactive_facts = active_facts\<lparr> ff_dependencies := complete_dependencies [] \<rparr>"

lemma go_file_hygiene: "hygiene_analyze plain_crates (go_file path) default_rule_limits = Inr default_file_facts"
proof -
  have lines: "source_lines (sf_bytes (go_file path)) = [(0, 1)]"
    by (simp add: source_lines_pending pending_def starts_after_def line_start_def is_terminator_def line_finish_def)
  have "line_content_len \<lparr> ln_file = go_file path, ln_limits = default_rule_limits, ln_number = 1, ln_start = 0, ln_end = 1 \<rparr> = 1"
    by (simp add: line_content_len_def line_content_start_def slice_def starts_with_def)
  with lines show ?thesis
    using hygiene_outcome [of "go_file path" plain_crates default_rule_limits]
    by (simp add: MAX_SOURCE_BYTES_def MAX_LINE_BYTES_def default_rule_limits_def default_file_facts_def)
qed

lemma go_file_directives: "evaluate_build_directives (fst (source_without_utf8_bom ''x'')) linux = BuildActive"
  by code_simp

lemma go_file_analysis:
  "file_analysis plain_crates plain_analyzers (go_file path) default_rule_limits =
     Inr (if filename_constraint (go_file path) linux = Some False then inactive_facts else active_facts)"
  by (simp add: file_analysis_eq go_file_hygiene plain_language plain_go_facts_def go_file_mode analyze_tree_def
      build_status_of_def go_file_directives module_facts_def plain_imports_def plain_metrics_def linux_source
      with_language_facts_def active_facts_def inactive_facts_def default_file_facts_def)

text \<open>Two files with the same key and the same analysis, which reads their names.\<close>

lemma windows_no_key_conflict:
  "no_key_conflict plain_crates plain_analyzers default_rule_limits opts {go_file ''a_windows.go'', go_file ''b_windows.go''}"
  by (auto simp: no_key_conflict_def go_file_analysis windows_files)

section \<open>A key that is shared\<close>

text \<open>A file whose key has an entry gets it, whatever its own analysis would give.\<close>

lemma shared_key_shares_facts:
  assumes "memory_view c (fact_key K src opts) = Some f" and "\<not> tok n" and "\<not> tok (n + 1)"
  shows "fst (run (memory_ops to_vec) (load K A src limits opts tok n) c) = (Inr f, n + 2)"
  using assms by (simp add: load_def memory_ops_def memory_get_result)

lemma load_stores:
  assumes "memory_inv c" and "memory_view c (fact_key K src opts) = None" and "file_analysis K A src limits = Inr f"
    and "to_vec f = Some []" and "analyzers_cooperate A"
  shows "memory_view (snd (run (memory_ops to_vec) (load K A src limits opts never_cancelled n) c)) (fact_key K src opts) = Some f"
proof -
  let ?k = "fact_key K src opts"
  define c1 where "c1 = snd (memory_get c ?k)"
  obtain l m where an: "analyze K A src limits never_cancelled (n + 1) = (l, m)" by fastforce
  then have "l = Inr f"
    using outcome_poll [OF analyze_outcome [OF assms(5), of K src limits] an] assms(3) by (auto simp: never_cancelled_def)
  with an have "analyze K A src limits never_cancelled (Suc n) = (Inr f, m)" by simp
  then have run: "snd (run (memory_ops to_vec) (load K A src limits opts never_cancelled n) c) = snd (memory_put to_vec c1 ?k f)"
    using assms(2) by (simp add: load_def compute_and_store_def memory_ops_def memory_get_result never_cancelled_def c1_def)
  have "memory_inv c1" "bt_get (mem_entries c1) ?k = None"
    using assms(1,2) by (simp_all add: c1_def memory_get_keeps) (simp add: memory_get_def memory_view_def Let_def)
  from memory_put_new [of c1 to_vec f "[]" ?k, OF this(1) assms(4) _ this(2)] show ?thesis unfolding run by (auto simp: MAX_MEMORY_CACHE_BYTES_def)
qed

text \<open>
  The path is no part of the key: \<^verbatim>\<open>x.go\<close> and \<^verbatim>\<open>x_windows.go\<close> with the same bytes share it, though only
  the first takes part in a build for Linux. Loaded after the first, the second gets its facts, which are
  not those of its own analysis.
\<close>

lemma windows_twin_shares_facts:
  assumes "fst_load = run (memory_ops (\<lambda>_. Some [])) (load plain_crates plain_analyzers (go_file ''x.go'')
      default_rule_limits opts never_cancelled 0) MemoryFactCache_new"
    and "snd_load = run (memory_ops (\<lambda>_. Some [])) (load plain_crates plain_analyzers (go_file ''x_windows.go'')
      default_rule_limits opts never_cancelled 0) (snd fst_load)"
  shows "fst (fst snd_load) = Inr active_facts \<and>
    file_analysis plain_crates plain_analyzers (go_file ''x_windows.go'') default_rule_limits = Inr inactive_facts \<and>
    active_facts \<noteq> inactive_facts"
proof -
  have key: "fact_key plain_crates (go_file ''x_windows.go'') opts = fact_key plain_crates (go_file ''x.go'') opts"
    by (simp add: fact_key_def go_file_def SourceFile_new_def)
  have "memory_view (snd fst_load) (fact_key plain_crates (go_file ''x.go'') opts) = Some active_facts"
    unfolding assms(1)
    by (rule load_stores [OF memory_inv_new _ _ _ plain_cooperate])
      (simp_all add: go_file_analysis windows_files, simp add: memory_view_def MemoryFactCache_new_def)
  from shared_key_shares_facts [of "snd fst_load", folded key, OF this [folded key]]
  have "fst (fst snd_load) = Inr active_facts" by (simp add: assms(2) never_cancelled_def)
  moreover have "active_facts \<noteq> inactive_facts"
    by (simp add: active_facts_def inactive_facts_def plain_imports_def complete_dependencies_def default_file_facts_def)
  ultimately show ?thesis by (simp add: go_file_analysis windows_files)
qed

section \<open>Properties\<close>

text \<open>
  C27. The cache is invisible to a file whose own entry is right: on a memory cache where the entry under
  its key, if there is one, is its analysis, loading a file's facts gives exactly what analysing the file
  gives, or a cancellation that one of the load's own polls reported; it never reports a determinism
  error. The cache stays within its invariant and gains nothing but the file's own analysis under its
  key, also when the load was cancelled.
\<close>

theorem cached_load_is_analysis:
  assumes "analyzers_cooperate A" and "memory_inv c"
    and "\<forall>f. memory_view c (fact_key K src opts) = Some f \<longrightarrow> file_analysis K A src limits = Inr f"
    and "run (memory_ops to_vec) (load K A src limits opts tok n) c = ((r, m), c')"
  shows "(r = file_analysis K A src limits \<or> (r = Inl AnalysisCancelled \<and> (\<exists>i\<ge>n. i < m \<and> tok i))) \<and>
    memory_inv c' \<and>
    (\<forall>k f. memory_view c' k = Some f \<longrightarrow>
       memory_view c k = Some f \<or> (k = fact_key K src opts \<and> file_analysis K A src limits = Inr f))"
proof -
  define good where "good = good_entry K A limits opts {src}"
  have co: "mem.coherent good c" using assms(2,3) by (auto simp: mem.coherent_def good_def good_entry_def)
  from mem.load_transparent [OF assms(1) no_key_conflict_single singletonI co [unfolded good_def], where to_vec = to_vec and tok = tok and n = n]
    mem.load_adds [OF assms(1-3), where to_vec = to_vec and tok = tok and n = n] assms(4)
  show ?thesis by (auto simp: mem.coherent_def load_ok_def)
qed

text \<open>A Go file whose name takes it out of the build, loaded into a new cache.\<close>

theorem cached_load_is_analysis_witness:
  "\<exists>m c'. run (memory_ops (\<lambda>_. Some [])) (load plain_crates plain_analyzers (go_file ''x_windows.go'')
       default_rule_limits (plain_options default_rule_limits) never_cancelled 0) MemoryFactCache_new =
       ((Inr inactive_facts, m), c') \<and> memory_inv c'"
proof -
  let ?run = "run (memory_ops (\<lambda>_. Some [])) (load plain_crates plain_analyzers (go_file ''x_windows.go'')
      default_rule_limits (plain_options default_rule_limits) never_cancelled 0) MemoryFactCache_new"
  have run: "?run = ((fst (fst ?run), snd (fst ?run)), snd ?run)" by simp
  have "memory_view MemoryFactCache_new k = None" for k
    by (simp add: memory_view_def MemoryFactCache_new_def)
  with cached_load_is_analysis [OF plain_cooperate memory_inv_new _ run]
  have "fst (fst ?run) = Inr inactive_facts \<and> memory_inv (snd ?run)"
    by (simp add: never_cancelled_def go_file_analysis windows_files)
  with run show ?thesis by metis
qed

end
