(* ===== verification/Evaluate.thy ===== *)
theory Evaluate
  imports Compare Facts
begin

text \<open>
  One evaluation of a before/after request: \<^verbatim>\<open>EvaluationRequest\<close>, \<^verbatim>\<open>prepare_evaluation\<close>,
  \<^verbatim>\<open>analyze_input\<close>, \<^verbatim>\<open>AnalysisBatch\<close>, the sequential \<^verbatim>\<open>run_analysis\<close> and \<^verbatim>\<open>finalize_assessment\<close> of
  \<^verbatim>\<open>src/engine.rs\<close>. The token of a file's analysis is given per input, \<open>tok i\<close> for input \<open>i\<close>, so
  that the same definitions serve the parallel schedule of the theory \<open>Schedule\<close>. Elapsed
  time is an argument in milliseconds.
\<close>

section \<open>Requests\<close>

record evaluation_request =
  rq_before :: "source_snapshot option"
  rq_after :: source_snapshot
  rq_scope :: scope
  rq_comparison :: comparison
  rq_paths :: "repo_path btree_set"
  rq_limits :: rule_limits
  rq_valid_as_of :: bytes
  rq_public_fingerprint_comparison :: bool

definition unknown_cache_metadata :: cache_metadata where
  "unknown_cache_metadata = default_cache_metadata\<lparr> cache_state := ''unknown'' \<rparr>"

definition incomplete_assessment :: "bytes \<Rightarrow> bytes \<Rightarrow> nat \<Rightarrow> assessment" where
  "incomplete_assessment valid_as_of reason millis =
     \<lparr> as_status = StatusIncomplete, as_diagnostics = [],
       as_coverage = \<lparr> files_considered = 1, files_covered = 0,
         gaps = [\<lparr> gap_path = request_marker, gap_status = Incomplete, gap_language = None,
                   gap_reason = Some reason \<rparr>] \<rparr>,
       as_valid_as_of = valid_as_of, as_provider = default_provider_metadata,
       as_timing = with_duration default_timing millis, as_cache = unknown_cache_metadata \<rparr>"

definition cancelled_assessment :: "bytes \<Rightarrow> nat \<Rightarrow> assessment" where
  "cancelled_assessment valid_as_of millis =
     \<lparr> as_status = StatusCancelled, as_diagnostics = [], as_coverage = default_coverage,
       as_valid_as_of = valid_as_of, as_provider = default_provider_metadata,
       as_timing = with_duration default_timing millis, as_cache = unknown_cache_metadata \<rparr>"

definition evaluation_paths :: "evaluation_request \<Rightarrow> repo_path btree_set" where
  "evaluation_paths request =
     (if rq_scope request \<noteq> Workspace then rq_paths request
      else
        let paths = bs_extend (rq_paths request) (snapshot_paths (rq_after request))
        in case rq_before request of
             Some before \<Rightarrow>
               if rq_comparison request \<noteq> All then bs_extend paths (snapshot_paths before) else paths
           | None \<Rightarrow> paths)"

definition evaluation_input_of :: "evaluation_request \<Rightarrow> repo_path \<Rightarrow> evaluation_input" where
  "evaluation_input_of request path =
     \<lparr> in_path = path,
       in_before = (case rq_before request of
          Some view \<Rightarrow> if rq_comparison request \<noteq> All then snapshot_read view path else None
        | None \<Rightarrow> None),
       in_after = snapshot_read (rq_after request) path \<rparr>"

record prepared_evaluation =
  pr_inputs :: "evaluation_input list"
  pr_path_continuity :: continuity
  pr_files_read :: nat

text \<open>The loop over the paths; \<open>n\<close> is the number of the next poll.\<close>

fun prepare_inputs ::
  "evaluation_request \<Rightarrow> cancel_token \<Rightarrow> nat \<Rightarrow> nat \<Rightarrow> repo_path list \<Rightarrow> nat \<Rightarrow> nat \<Rightarrow> evaluation_input list
    \<Rightarrow> (assessment, nat \<times> evaluation_input list) result" where
  "prepare_inputs request tok millis n [] total_bytes files inputs = Inr (files, inputs)"
| "prepare_inputs request tok millis n (path # paths) total_bytes files inputs =
     (if tok n then Inl (cancelled_assessment (rq_valid_as_of request) millis)
      else
        let input = evaluation_input_of request path;
            files' = sat_add files (file_count input);
            total' = sat_add total_bytes (byte_count input)
        in if total' > MAX_TOTAL_SOURCE_BYTES then
             Inl (incomplete_assessment (rq_valid_as_of request)
               (''request source exceeds the '' @ show_nat MAX_TOTAL_SOURCE_BYTES @ ''-byte limit'') millis)
           else prepare_inputs request tok millis (n + 1) paths total' files' (inputs @ [input]))"

definition prepare_evaluation ::
  "evaluation_request \<Rightarrow> cancel_token \<Rightarrow> nat \<Rightarrow> (assessment, prepared_evaluation) result" where
  "prepare_evaluation request tok millis =
     (let paths = evaluation_paths request
      in if length paths > MAX_FILES then
           Inl (incomplete_assessment (rq_valid_as_of request)
             (''request includes '' @ show_nat (length paths) @ '' files; limit is '' @ show_nat MAX_FILES)
             millis)
         else try_bind (prepare_inputs request tok millis 0 paths 0 0 []) (\<lambda>(files, inputs).
           Inr \<lparr> pr_inputs = inputs,
                 pr_path_continuity = path_continuity (rq_comparison request) inputs,
                 pr_files_read = files \<rparr>))"

section \<open>Analysis of one input\<close>

datatype analyzed_input =
    Ready "bounded_diagnostics option" "bounded_diagnostics option"
  | InputUnsupported repo_path "language option" bytes
  | InputCancelled repo_path "language option"

record analysis_context =
  cx_limits :: rule_limits
  cx_parser_options :: bytes

type_synonym 'a analysed = "(analysis_error, 'a) result \<times> nat"

definition analyze_one ::
  "crates \<Rightarrow> analyzers \<Rightarrow> analysis_context \<Rightarrow> cancel_token \<Rightarrow> source_file \<Rightarrow> nat
    \<Rightarrow> bounded_diagnostics analysed prog" where
  "analyze_one K A cx tok src n =
     prog_bind (load K A src (cx_limits cx) (cx_parser_options cx) tok n) (\<lambda>(r, m).
       Done (try_bind r (\<lambda>facts. Inr (materialize K src facts)), m))"

definition analyze_opt ::
  "crates \<Rightarrow> analyzers \<Rightarrow> analysis_context \<Rightarrow> cancel_token \<Rightarrow> source_file option \<Rightarrow> nat
    \<Rightarrow> bounded_diagnostics option analysed prog" where
  "analyze_opt K A cx tok src n =
     (case src of
        None \<Rightarrow> Done (Inr None, n)
      | Some s \<Rightarrow> prog_bind (analyze_one K A cx tok s n) (\<lambda>(r, m). Done (try_bind r (\<lambda>b. Inr (Some b)), m)))"

definition analyze_pair ::
  "crates \<Rightarrow> analyzers \<Rightarrow> analysis_context \<Rightarrow> cancel_token \<Rightarrow> source_file option \<Rightarrow> source_file option \<Rightarrow> nat
    \<Rightarrow> (bounded_diagnostics option \<times> bounded_diagnostics option) analysed prog" where
  "analyze_pair K A cx tok before after n =
     prog_bind (analyze_opt K A cx tok before n) (\<lambda>(rb, m).
       case rb of
         Inl e \<Rightarrow> Done (Inl e, m)
       | Inr b \<Rightarrow> prog_bind (analyze_opt K A cx tok after m) (\<lambda>(ra, m').
           Done (try_bind ra (\<lambda>a. Inr (b, a)), m')))"

definition input_language :: "evaluation_input \<Rightarrow> language option" where
  "input_language input =
     (case in_after input of
        Some f \<Rightarrow> Some (sf_language f)
      | None \<Rightarrow> map_option sf_language (in_before input))"

definition settle_input ::
  "evaluation_input \<Rightarrow> (analysis_error, bounded_diagnostics option \<times> bounded_diagnostics option) result
    \<Rightarrow> (analysis_error, analyzed_input) result" where
  "settle_input input r =
     (case r of
        Inr (before, after) \<Rightarrow> Inr (Ready before after)
      | Inl (AnalysisUnsupported reason) \<Rightarrow> Inr (InputUnsupported (in_path input) (input_language input) reason)
      | Inl AnalysisCancelled \<Rightarrow> Inr (InputCancelled (in_path input) (input_language input))
      | Inl (AnalysisParser msg) \<Rightarrow> Inl (AnalysisParser msg))"

definition missing_input :: "evaluation_input \<Rightarrow> analyzed_input" where
  "missing_input input =
     InputUnsupported (in_path input) None
       ''path is missing or its language is outside the supported envelope''"

definition analyze_input ::
  "crates \<Rightarrow> analyzers \<Rightarrow> analysis_context \<Rightarrow> cancel_token \<Rightarrow> evaluation_input
    \<Rightarrow> (analysis_error, analyzed_input) result prog" where
  "analyze_input K A cx tok input =
     (if in_before input = None \<and> in_after input = None then Done (Inr (missing_input input))
      else prog_bind (analyze_pair K A cx tok (in_before input) (in_after input) 0)
             (\<lambda>(r, m). Done (settle_input input r)))"

section \<open>The batch\<close>

record analysis_batch =
  ab_files_considered :: nat
  ab_files_covered :: nat
  ab_coverage_gaps :: "coverage_gap list"
  ab_before :: bounded_diagnostics
  ab_after :: bounded_diagnostics
  ab_cancelled :: bool

definition batch_default :: analysis_batch where
  "batch_default =
     \<lparr> ab_files_considered = 0, ab_files_covered = 0, ab_coverage_gaps = [], ab_before = bd_default,
       ab_after = bd_default, ab_cancelled = False \<rparr>"

definition merge_option :: "bounded_diagnostics \<Rightarrow> bounded_diagnostics option \<Rightarrow> bounded_diagnostics" where
  "merge_option b item = (case item of None \<Rightarrow> b | Some d \<Rightarrow> bd_merge b d)"

definition push_ready ::
  "analysis_batch \<Rightarrow> bounded_diagnostics option \<Rightarrow> bounded_diagnostics option \<Rightarrow> analysis_batch" where
  "push_ready b before after =
     b\<lparr> ab_files_covered := sat_add (ab_files_covered b) 1,
        ab_before := merge_option (ab_before b) before,
        ab_after := merge_option (ab_after b) after \<rparr>"

definition batch_push :: "analysis_batch \<Rightarrow> analyzed_input \<Rightarrow> analysis_batch" where
  "batch_push b0 result =
     (let b = b0\<lparr> ab_files_considered := sat_add (ab_files_considered b0) 1 \<rparr>
      in case result of
           Ready before after \<Rightarrow> push_ready b before after
         | InputUnsupported path lang reason \<Rightarrow>
             b\<lparr> ab_coverage_gaps := ab_coverage_gaps b @
                [\<lparr> gap_path = path, gap_status = Unsupported, gap_language = lang,
                   gap_reason = Some reason \<rparr>] \<rparr>
         | InputCancelled path lang \<Rightarrow>
             b\<lparr> ab_cancelled := True,
                ab_coverage_gaps := ab_coverage_gaps b @
                [\<lparr> gap_path = path, gap_status = Incomplete, gap_language = lang,
                   gap_reason = Some ''evaluation cancelled'' \<rparr>] \<rparr>)"

text \<open>The sequential branch of \<^verbatim>\<open>run_analysis\<close>.\<close>

definition PARALLEL_FILE_THRESHOLD :: nat where
  "PARALLEL_FILE_THRESHOLD = 8"

fun run_sequential ::
  "crates \<Rightarrow> analyzers \<Rightarrow> 'c fact_cache_ops \<Rightarrow> analysis_context \<Rightarrow> (nat \<Rightarrow> cancel_token)
    \<Rightarrow> nat \<Rightarrow> evaluation_input list \<Rightarrow> analysis_batch \<Rightarrow> 'c \<Rightarrow> (analysis_error, analysis_batch) result \<times> 'c" where
  "run_sequential K A ops cx tok i [] batch c = (Inr batch, c)"
| "run_sequential K A ops cx tok i (input # inputs) batch c =
     (case run ops (analyze_input K A cx (tok i) input) c of
        (Inl e, c') \<Rightarrow> (Inl e, c')
      | (Inr a, c') \<Rightarrow> run_sequential K A ops cx tok (i + 1) inputs (batch_push batch a) c')"

section \<open>The assessment\<close>

definition has_coverage :: "coverage_gap list \<Rightarrow> coverage_status \<Rightarrow> bool" where
  "has_coverage gs status \<longleftrightarrow> (\<exists>g\<in>set gs. gap_status g = status)"

definition assessment_status_of ::
  "bool \<Rightarrow> bool \<Rightarrow> diagnostic list \<Rightarrow> coverage_gap list \<Rightarrow> assessment_status" where
  "assessment_status_of cancelled comparison_incomplete diagnostics coverage_gaps =
     (if cancelled then StatusCancelled
      else if comparison_incomplete \<or> has_coverage coverage_gaps Incomplete then StatusIncomplete
      else if diagnostics \<noteq> [] then StatusFindings
      else StatusClean)"

record final_assessment =
  fa_request :: evaluation_request
  fa_path_continuity :: continuity
  fa_files_read :: nat
  fa_batch :: analysis_batch
  fa_cache_before :: cache_metadata
  fa_cache_after :: cache_metadata
  fa_millis :: nat

definition overflow_gap :: "bool \<Rightarrow> bool \<Rightarrow> coverage_gap" where
  "overflow_gap before_overflowed after_overflowed =
     \<lparr> gap_path = request_marker, gap_status = Incomplete, gap_language = None,
       gap_reason = Some (''diagnostic working set for the '' @
         (if before_overflowed \<and> after_overflowed then ''baseline and candidate views''
          else if before_overflowed then ''baseline view'' else ''candidate view'') @
         '' exceeded the '' @ show_nat MAX_DIAGNOSTICS @
         ''-finding limit; exact comparison is incomplete'') \<rparr>"

definition finalize_assessment :: "final_assessment \<Rightarrow> assessment" where
  "finalize_assessment st =
     (let batch = fa_batch st;
          request = fa_request st;
          before_overflowed = bd_overflowed (ab_before batch);
          after_overflowed = bd_overflowed (ab_after batch);
          before_diagnostics = bd_into_sorted (ab_before batch);
          after_diagnostics = bd_into_sorted (ab_after batch);
          comparison_incomplete =
            (case rq_comparison request of
               All \<Rightarrow> after_overflowed
             | Introduced \<Rightarrow> before_overflowed \<or> after_overflowed);
          diagnostics =
            (if rq_comparison request = Introduced \<and> before_overflowed then []
             else compared_diagnostics (rq_comparison request) before_diagnostics after_diagnostics
                    (fa_path_continuity st) (rq_public_fingerprint_comparison request));
          gs = sort_key gap_path (ab_coverage_gaps batch @
                 (if comparison_incomplete then [overflow_gap before_overflowed after_overflowed] else []));
          cache = metadata_delta (fa_cache_before st) (fa_cache_after st)
      in \<lparr> as_status = assessment_status_of (ab_cancelled batch) comparison_incomplete diagnostics gs,
           as_diagnostics = diagnostics,
           as_coverage = \<lparr> files_considered = ab_files_considered batch,
                           files_covered = ab_files_covered batch, gaps = gs \<rparr>,
           as_valid_as_of = rq_valid_as_of request,
           as_provider = default_provider_metadata,
           as_timing = \<lparr> duration_ms = min (fa_millis st) usize_max, files_read = fa_files_read st,
                         files_parsed = cache_misses cache \<rparr>,
           as_cache = cache \<rparr>)"

section \<open>Reference: the analysis without cache, cancellation or schedule\<close>

definition reference_opt ::
  "crates \<Rightarrow> analyzers \<Rightarrow> rule_limits \<Rightarrow> source_file option \<Rightarrow> (analysis_error, bounded_diagnostics option) result" where
  "reference_opt K A limits src =
     (case src of
        None \<Rightarrow> Inr None
      | Some s \<Rightarrow> try_bind (file_analysis K A s limits) (\<lambda>facts. Inr (Some (materialize K s facts))))"

definition reference_input ::
  "crates \<Rightarrow> analyzers \<Rightarrow> rule_limits \<Rightarrow> evaluation_input \<Rightarrow> (analysis_error, analyzed_input) result" where
  "reference_input K A limits input =
     (if in_before input = None \<and> in_after input = None then Inr (missing_input input)
      else settle_input input
        (try_bind (reference_opt K A limits (in_before input)) (\<lambda>b.
         try_bind (reference_opt K A limits (in_after input)) (\<lambda>a. Inr (b, a)))))"

text \<open>An input is analysed to its reference, or is reported as cancelled after a poll said so.\<close>

definition input_ok ::
  "crates \<Rightarrow> analyzers \<Rightarrow> rule_limits \<Rightarrow> cancel_token \<Rightarrow> evaluation_input
    \<Rightarrow> (analysis_error, analyzed_input) result \<Rightarrow> bool" where
  "input_ok K A limits tok input r \<longleftrightarrow>
     r = reference_input K A limits input \<or>
     (r = Inr (InputCancelled (in_path input) (input_language input)) \<and> (\<exists>i. tok i))"

definition analysed_ok :: "(analysis_error, 'a) result \<Rightarrow> cancel_token \<Rightarrow> 'a analysed \<Rightarrow> bool" where
  "analysed_ok r tok l \<longleftrightarrow> fst l = r \<or> (fst l = Inl AnalysisCancelled \<and> (\<exists>i. tok i))"

definition input_wf :: "crates \<Rightarrow> evaluation_input \<Rightarrow> bool" where
  "input_wf K input \<longleftrightarrow>
     (\<forall>s. in_before input = Some s \<or> in_after input = Some s \<longrightarrow> file_wf K s \<and> sf_path s = in_path input)"

text \<open>The files of an input are among a set of files.\<close>

definition input_within :: "source_file set \<Rightarrow> evaluation_input \<Rightarrow> bool" where
  "input_within F input \<longleftrightarrow> (\<forall>s. in_before input = Some s \<or> in_after input = Some s \<longrightarrow> s \<in> F)"

lemma analyze_opt_safe:
  assumes "analyzers_cooperate A" and "no_key_conflict K A limits opts F"
    and "\<And>s. src = Some s \<Longrightarrow> s \<in> F"
  shows "safe (good_entry K A limits opts F) (analysed_ok (reference_opt K A limits src) tok)
    (analyze_opt K A \<lparr> cx_limits = limits, cx_parser_options = opts \<rparr> tok src n)"
proof (cases src)
  case None
  then show ?thesis by (simp add: analyze_opt_def reference_opt_def analysed_ok_def)
next
  case (Some s)
  have l: "safe (good_entry K A limits opts F) (load_ok (file_analysis K A s limits) tok n)
      (load K A s limits (opts) tok n)"
    using assms Some by (intro load_safe) auto
  have one: "safe (good_entry K A limits opts F)
      (analysed_ok (try_bind (file_analysis K A s limits) (\<lambda>f. Inr (materialize K s f))) tok)
      (analyze_one K A \<lparr> cx_limits = limits, cx_parser_options = opts \<rparr> tok s n)"
    unfolding analyze_one_def
    by (rule safe_bind [where Q = "load_ok (file_analysis K A s limits) tok n"])
      (use l in \<open>auto simp: load_ok_def analysed_ok_def\<close>)
  show ?thesis
    unfolding analyze_opt_def Some option.case
    by (rule safe_bind [OF one]) (auto simp: analysed_ok_def reference_opt_def try_bind_def split: sum.splits)
qed

lemma analyze_input_safe:
  assumes "analyzers_cooperate A" and "no_key_conflict K A limits opts F"
    and "input_within F input"
  shows "safe (good_entry K A limits opts F) (input_ok K A limits tok input)
    (analyze_input K A \<lparr> cx_limits = limits, cx_parser_options = opts \<rparr> tok input)"
proof (cases "in_before input = None \<and> in_after input = None")
  case True
  then show ?thesis by (simp add: analyze_input_def input_ok_def reference_input_def)
next
  case False
  let ?cx = "\<lparr> cx_limits = limits, cx_parser_options = opts \<rparr>"
  let ?b = "reference_opt K A limits (in_before input)" and ?a = "reference_opt K A limits (in_after input)"
  let ?ref = "try_bind ?b (\<lambda>b. try_bind ?a (\<lambda>a. Inr (b, a)))"
  have wf: "\<And>s. in_before input = Some s \<Longrightarrow> s \<in> F" "\<And>s. in_after input = Some s \<Longrightarrow> s \<in> F"
    using assms(3) by (auto simp: input_within_def)
  have after: "safe (good_entry K A limits opts F) (analysed_ok ?ref tok)
      (prog_bind (analyze_opt K A ?cx tok (in_after input) m) (\<lambda>(ra, m').
         Done (try_bind ra (\<lambda>a. Inr (b, a)), m')))" if "?b = Inr b" for b m
    by (rule safe_bind [OF analyze_opt_safe [OF assms(1,2) wf(2)]])
      (use that in \<open>auto simp: analysed_ok_def\<close>)
  have pair: "safe (good_entry K A limits opts F) (analysed_ok ?ref tok)
      (analyze_pair K A ?cx tok (in_before input) (in_after input) 0)"
    unfolding analyze_pair_def
  proof (rule safe_bind [OF analyze_opt_safe [OF assms(1,2) wf(1)]])
    fix l assume l: "analysed_ok ?b tok l"
    obtain rb m where lm: "l = (rb, m)" by fastforce
    show "safe (good_entry K A limits opts F) (analysed_ok ?ref tok) (case l of (rb, m) \<Rightarrow>
        case rb of Inl e \<Rightarrow> Done (Inl e, m)
        | Inr b \<Rightarrow> prog_bind (analyze_opt K A ?cx tok (in_after input) m) (\<lambda>(ra, m').
           Done (try_bind ra (\<lambda>a. Inr (b, a)), m')))"
    proof (cases rb)
      case (Inl e)
      with l lm have "?b = Inl e \<or> (e = AnalysisCancelled \<and> (\<exists>i. tok i))" by (auto simp: analysed_ok_def)
      with lm Inl show ?thesis by (auto simp: analysed_ok_def)
    next
      case (Inr b)
      with l lm have "?b = Inr b" by (auto simp: analysed_ok_def)
      with after [of b m] lm Inr show ?thesis by simp
    qed
  qed
  have "safe (good_entry K A limits opts F) (input_ok K A limits tok input)
      (prog_bind (analyze_pair K A ?cx tok (in_before input) (in_after input) 0)
         (\<lambda>(r, m). Done (settle_input input r)))"
    by (rule safe_bind [OF pair])
      (use False in \<open>auto simp: analysed_ok_def input_ok_def reference_input_def settle_input_def\<close>)
  with False show ?thesis by (auto simp: analyze_input_def)
qed

section \<open>What a batch represents\<close>

definition file_evs :: "crates \<Rightarrow> analyzers \<Rightarrow> rule_limits \<Rightarrow> source_file option \<Rightarrow> evaluated_diagnostic list" where
  "file_evs K A limits src =
     (case src of
        None \<Rightarrow> []
      | Some s \<Rightarrow> (case file_analysis K A s limits of Inl _ \<Rightarrow> [] | Inr f \<Rightarrow> evaluated_list K s f))"

fun is_ready :: "analyzed_input \<Rightarrow> bool" where
  "is_ready (Ready b a) = True"
| "is_ready _ = False"

fun gap_of :: "analyzed_input \<Rightarrow> coverage_gap list" where
  "gap_of (Ready b a) = []"
| "gap_of (InputUnsupported path lang reason) =
     [\<lparr> gap_path = path, gap_status = Unsupported, gap_language = lang, gap_reason = Some reason \<rparr>]"
| "gap_of (InputCancelled path lang) =
     [\<lparr> gap_path = path, gap_status = Incomplete, gap_language = lang,
        gap_reason = Some ''evaluation cancelled'' \<rparr>]"

type_synonym event = "evaluation_input \<times> analyzed_input"

definition before_evs :: "crates \<Rightarrow> analyzers \<Rightarrow> rule_limits \<Rightarrow> event list \<Rightarrow> evaluated_diagnostic list" where
  "before_evs K A limits evs =
     concat (map (\<lambda>e. if is_ready (snd e) then file_evs K A limits (in_before (fst e)) else []) evs)"

definition after_evs :: "crates \<Rightarrow> analyzers \<Rightarrow> rule_limits \<Rightarrow> event list \<Rightarrow> evaluated_diagnostic list" where
  "after_evs K A limits evs =
     concat (map (\<lambda>e. if is_ready (snd e) then file_evs K A limits (in_after (fst e)) else []) evs)"

definition event_ok :: "crates \<Rightarrow> analyzers \<Rightarrow> rule_limits \<Rightarrow> event \<Rightarrow> bool" where
  "event_ok K A limits e \<longleftrightarrow>
     Inr (snd e) = reference_input K A limits (fst e) \<or>
     snd e = InputCancelled (in_path (fst e)) (input_language (fst e))"

definition batch_of :: "event list \<Rightarrow> analysis_batch" where
  "batch_of evs = foldl batch_push batch_default (map snd evs)"

definition batch_represents :: "crates \<Rightarrow> analyzers \<Rightarrow> rule_limits \<Rightarrow> analysis_batch \<Rightarrow> event list \<Rightarrow> bool" where
  "batch_represents K A limits b evs \<longleftrightarrow>
     ab_files_considered b = length evs \<and>
     ab_files_covered b = length (filter (\<lambda>e. is_ready (snd e)) evs) \<and>
     ab_coverage_gaps b = concat (map (\<lambda>e. gap_of (snd e)) evs) \<and>
     represents (ab_before b) (before_evs K A limits evs) \<and>
     represents (ab_after b) (after_evs K A limits evs) \<and>
     (ab_cancelled b \<longleftrightarrow> (\<exists>e\<in>set evs. \<exists>p l. snd e = InputCancelled p l))"

text \<open>A ready event has merged in the diagnostics of its files, nothing else.\<close>

lemma reference_ready:
  assumes "Inr (Ready b a) = reference_input K A limits input"
  shows "b = map_option (\<lambda>s. foldl bd_push bd_default (file_evs K A limits (Some s))) (in_before input)"
    and "a = map_option (\<lambda>s. foldl bd_push bd_default (file_evs K A limits (Some s))) (in_after input)"
proof -
  have ref: "Some s \<noteq> x \<or> reference_opt K A limits x \<noteq> Inr y \<or>
      y = Some (foldl bd_push bd_default (file_evs K A limits (Some s)))" for x y s
    by (auto simp: reference_opt_def file_evs_def materialize_def try_bind_Inr_iff split: option.splits)
  from assms have "reference_opt K A limits (in_before input) = Inr b \<and>
      reference_opt K A limits (in_after input) = Inr a"
    by (auto simp: reference_input_def missing_input_def settle_input_def try_bind_def
        split: if_splits sum.splits prod.splits analysis_error.splits)
  then show "b = map_option (\<lambda>s. foldl bd_push bd_default (file_evs K A limits (Some s))) (in_before input)"
    and "a = map_option (\<lambda>s. foldl bd_push bd_default (file_evs K A limits (Some s))) (in_after input)"
    using ref by (cases "in_before input"; cases "in_after input"; auto simp: reference_opt_def)+
qed

lemma keys_distinct_file_evs: "keys_distinct (file_evs K A limits src)"
  by (auto simp: file_evs_def evaluated_list_def evaluate_raw_def ev_key_def Let_def distinct_map
      inj_on_def distinct_zipI1 split: option.splits sum.splits dest: set_zip_leftD)
    (auto simp: in_set_zip)

lemma file_evs_path:
  "d \<in> set (file_evs K A limits src) \<Longrightarrow> \<exists>s. src = Some s \<and> fst (ev_key d) = sf_path s"
  by (auto simp: file_evs_def evaluated_list_def evaluate_raw_def ev_key_def Let_def
      split: option.splits sum.splits)

lemma file_evs_in_path:
  assumes "input_wf K i" and "src = in_before i \<or> src = in_after i" and "d \<in> set (file_evs K A limits src)"
  shows "fst (ev_key d) = in_path i"
  using file_evs_path [OF assms(3)] assms(1,2) by (auto simp: input_wf_def)

text \<open>Findings of inputs with different paths have different keys.\<close>

lemma keys_distinct_concat:
  assumes "distinct (map (\<lambda>e. in_path (fst e)) evs)" and "\<forall>e\<in>set evs. input_wf K (fst e)"
    and "\<And>i. sel i = in_before i \<or> sel i = in_after i"
  shows "keys_distinct (concat (map (\<lambda>e. if is_ready (snd e) then file_evs K A limits (sel (fst e)) else []) evs))"
  using assms(1,2)
proof (induction evs)
  case Nil
  show ?case by simp
next
  case (Cons e es)
  let ?rest = "concat (map (\<lambda>e. if is_ready (snd e) then file_evs K A limits (sel (fst e)) else []) es)"
  have new: "in_path (fst e) \<notin> set (map (\<lambda>e. in_path (fst e)) es)" using Cons.prems(1) by simp
  have wf: "input_wf K (fst e)" and wfs: "\<And>x. x \<in> set es \<Longrightarrow> input_wf K (fst x)" using Cons.prems(2) by auto
  have r: "fst (ev_key d) \<in> set (map (\<lambda>e. in_path (fst e)) es)" if "d \<in> set ?rest" for d
  proof -
    from that obtain x where x: "x \<in> set es" "d \<in> set (file_evs K A limits (sel (fst x)))"
      by (auto split: if_splits)
    with file_evs_in_path [OF wfs [OF x(1)] assms(3) x(2)] show ?thesis by auto
  qed
  have h: "fst (ev_key d) = in_path (fst e)" if "d \<in> set (file_evs K A limits (sel (fst e)))" for d
    by (rule file_evs_in_path [OF wf assms(3) that])
  have "ev_key d \<noteq> ev_key d'" if "d \<in> set (file_evs K A limits (sel (fst e)))" "d' \<in> set ?rest" for d d'
    using r [OF that(2)] h [OF that(1)] new by metis
  then have "ev_key ` set (file_evs K A limits (sel (fst e))) \<inter> ev_key ` set ?rest = {}" by blast
  with Cons show ?case by (auto simp: keys_distinct_file_evs)
qed

lemma keys_distinct_evs:
  assumes "distinct (map (\<lambda>e. in_path (fst e)) evs)" and "\<forall>e\<in>set evs. input_wf K (fst e)"
  shows "keys_distinct (before_evs K A limits evs)" "keys_distinct (after_evs K A limits evs)"
  unfolding before_evs_def after_evs_def by (rule keys_distinct_concat [OF assms]; simp)+

lemma represents_file: "represents (foldl bd_push bd_default (file_evs K A limits src)) (file_evs K A limits src)"
  using represents_pushes [OF represents_default, of "file_evs K A limits src"]
  by (simp add: keys_distinct_file_evs)

lemma represents_merge_option:
  assumes "represents b ds" and "keys_distinct (ds @ file_evs K A limits src)"
  shows "represents (merge_option b (map_option (\<lambda>s. foldl bd_push bd_default (file_evs K A limits (Some s))) src))
    (ds @ file_evs K A limits src)"
proof (cases src)
  case None
  with assms(1) show ?thesis by (simp add: merge_option_def file_evs_def)
next
  case (Some s)
  with represents_merge [OF assms(1) represents_file assms(2)] show ?thesis
    by (simp add: merge_option_def)
qed

lemma evs_snoc:
  "before_evs K A limits (evs @ [e]) =
     before_evs K A limits evs @ (if is_ready (snd e) then file_evs K A limits (in_before (fst e)) else [])"
  "after_evs K A limits (evs @ [e]) =
     after_evs K A limits evs @ (if is_ready (snd e) then file_evs K A limits (in_after (fst e)) else [])"
  by (simp_all add: before_evs_def after_evs_def)

lemma batch_represents_push:
  assumes "batch_represents K A limits b evs" and "event_ok K A limits e"
    and "distinct (map (\<lambda>e. in_path (fst e)) (evs @ [e]))" and "\<forall>x\<in>set (evs @ [e]). input_wf K (fst x)"
    and "length evs < usize_max"
  shows "batch_represents K A limits (batch_push b (snd e)) (evs @ [e])"
proof -
  note kd = keys_distinct_evs [OF assms(3,4), of A limits]
  have sat: "sat_add (length evs) 1 = length evs + 1"
    "sat_add (length (filter (\<lambda>e. is_ready (snd e)) evs)) 1 = length (filter (\<lambda>e. is_ready (snd e)) evs) + 1"
    using assms(5) length_filter_le [of "\<lambda>e. is_ready (snd e)" evs] unfolding sat_add_def by linarith+
  show ?thesis
  proof (cases "snd e")
    case (Ready bf af)
    with assms(2) have "Inr (Ready bf af) = reference_input K A limits (fst e)" by (simp add: event_ok_def)
    note r = reference_ready [OF this]
    have "represents (merge_option (ab_before b) bf) (before_evs K A limits (evs @ [e]))"
      "represents (merge_option (ab_after b) af) (after_evs K A limits (evs @ [e]))"
      using assms(1) kd unfolding r evs_snoc Ready
      by (auto simp: batch_represents_def intro!: represents_merge_option)
    with Ready assms(1) sat show ?thesis
      by (auto simp: batch_represents_def batch_push_def push_ready_def Let_def)
  next
    case (InputUnsupported path lang reason)
    with assms(1) sat show ?thesis
      by (auto simp: batch_represents_def batch_push_def Let_def evs_snoc)
  next
    case (InputCancelled path lang)
    with assms(1) sat show ?thesis
      by (auto simp: batch_represents_def batch_push_def Let_def evs_snoc)
  qed
qed

lemma batch_of_represents:
  assumes "\<forall>e\<in>set evs. event_ok K A limits e" and "distinct (map (\<lambda>e. in_path (fst e)) evs)"
    and "\<forall>e\<in>set evs. input_wf K (fst e)" and "length evs \<le> usize_max"
  shows "batch_represents K A limits (batch_of evs) evs"
  using assms
proof (induction evs rule: rev_induct)
  case Nil
  show ?case
    by (simp add: batch_of_def batch_represents_def batch_default_def before_evs_def after_evs_def represents_default)
next
  case (snoc e evs)
  have "batch_of (evs @ [e]) = batch_push (batch_of evs) (snd e)" by (simp add: batch_of_def)
  with snoc show ?case by (auto intro!: batch_represents_push)
qed

section \<open>The assessment does not depend on the order of events\<close>

text \<open>The parts of an assessment that say something about the code.\<close>

definition verdict :: "assessment \<Rightarrow> assessment_status \<times> diagnostic list \<times> coverage \<times> bytes" where
  "verdict a = (as_status a, as_diagnostics a, as_coverage a, as_valid_as_of a)"

lemma gap_of_path:
  "event_ok K A limits e \<Longrightarrow> g \<in> set (gap_of (snd e)) \<Longrightarrow> gap_path g = in_path (fst e)"
  by (cases "snd e")
    (auto simp: event_ok_def reference_input_def missing_input_def settle_input_def
      split: if_splits sum.splits prod.splits analysis_error.splits)

lemma length_gap_of: "length (gap_of r) \<le> 1"
  by (cases r) auto

lemma distinct_gap_paths:
  assumes "distinct (map (\<lambda>e. in_path (fst e)) evs)" and "\<forall>e\<in>set evs. event_ok K A limits e"
  shows "distinct (map gap_path (concat (map (\<lambda>e. gap_of (snd e)) evs)))"
  using assms
proof (induction evs)
  case Nil
  show ?case by simp
next
  case (Cons e es)
  have "distinct (map gap_path (gap_of (snd e)))" by (cases "snd e") auto
  moreover have "gap_path ` set (gap_of (snd e)) \<inter> gap_path ` (\<Union>x\<in>set es. set (gap_of (snd x))) = {}"
  proof -
    have "gap_path g \<noteq> gap_path h" if "g \<in> set (gap_of (snd e))" "x \<in> set es" "h \<in> set (gap_of (snd x))" for g h x
    proof -
      have "gap_path g = in_path (fst e)" "gap_path h = in_path (fst x)"
        using Cons.prems(2) that by (auto intro: gap_of_path)
      with Cons.prems(1) that(2) show ?thesis by auto
    qed
    then show ?thesis by blast
  qed
  ultimately show ?case using Cons by auto
qed

definition reference_verdict ::
  "crates \<Rightarrow> analyzers \<Rightarrow> evaluation_request \<Rightarrow> continuity \<Rightarrow> event list
    \<Rightarrow> assessment_status \<times> diagnostic list \<times> coverage \<times> bytes" where
  "reference_verdict K A request cont evs =
     (let bs = before_evs K A (rq_limits request) evs;
          as = after_evs K A (rq_limits request) evs;
          bo = MAX_DIAGNOSTICS < length bs;
          ao = MAX_DIAGNOSTICS < length as;
          incomplete = ao \<or> (rq_comparison request = Introduced \<and> bo);
          ds = (if rq_comparison request = Introduced \<and> bo then []
                else compared_diagnostics (rq_comparison request) (smallest bs) (smallest as) cont
                       (rq_public_fingerprint_comparison request));
          gs = sort_key gap_path (concat (map (\<lambda>e. gap_of (snd e)) evs) @
                 (if incomplete then [overflow_gap bo ao] else []))
      in (assessment_status_of (\<exists>e\<in>set evs. \<exists>p l. snd e = InputCancelled p l) incomplete ds gs, ds,
          \<lparr> files_considered = length evs,
            files_covered = length (filter (\<lambda>e. is_ready (snd e)) evs), gaps = gs \<rparr>,
          rq_valid_as_of request))"

definition events_wf :: "crates \<Rightarrow> analyzers \<Rightarrow> rule_limits \<Rightarrow> event list \<Rightarrow> bool" where
  "events_wf K A limits evs \<longleftrightarrow>
     (\<forall>e\<in>set evs. event_ok K A limits e \<and> input_wf K (fst e)) \<and>
     distinct (map (\<lambda>e. in_path (fst e)) evs) \<and> length evs \<le> usize_max"

lemma events_wf_cong: "mset evs = mset evs' \<Longrightarrow> events_wf K A limits evs \<Longrightarrow> events_wf K A limits evs'"
  unfolding events_wf_def
  by (metis mset_eq_setD mset_eq_length mset_eq_imp_distinct_iff mset_map)

lemma finalize_verdict:
  assumes "events_wf K A (rq_limits request) evs"
  shows "verdict (finalize_assessment \<lparr> fa_request = request, fa_path_continuity = cont,
      fa_files_read = files, fa_batch = batch_of evs, fa_cache_before = cb, fa_cache_after = ca,
      fa_millis = ms \<rparr>) = reference_verdict K A request cont evs"
proof -
  have rep: "batch_represents K A (rq_limits request) (batch_of evs) evs"
    using assms by (intro batch_of_represents) (auto simp: events_wf_def)
  have kd: "keys_distinct (before_evs K A (rq_limits request) evs)"
    "keys_distinct (after_evs K A (rq_limits request) evs)"
    using assms by (auto simp: events_wf_def intro!: keys_distinct_evs)
  have sorted: "bd_into_sorted (ab_before (batch_of evs)) = smallest (before_evs K A (rq_limits request) evs)"
    "bd_into_sorted (ab_after (batch_of evs)) = smallest (after_evs K A (rq_limits request) evs)"
    using rep kd by (auto simp: batch_represents_def intro: represents_into_sorted)
  have over: "bd_overflowed (ab_before (batch_of evs)) \<longleftrightarrow> MAX_DIAGNOSTICS < length (before_evs K A (rq_limits request) evs)"
    "bd_overflowed (ab_after (batch_of evs)) \<longleftrightarrow> MAX_DIAGNOSTICS < length (after_evs K A (rq_limits request) evs)"
    using rep by (auto simp: batch_represents_def represents_def)
  show ?thesis
    using rep
    by (cases "rq_comparison request")
      (simp_all add: verdict_def finalize_assessment_def reference_verdict_def sorted over Let_def
        batch_represents_def)
qed

lemma reference_verdict_cong:
  assumes "mset evs = mset evs'" and "events_wf K A (rq_limits request) evs"
  shows "reference_verdict K A request cont evs = reference_verdict K A request cont evs'"
proof -
  have kd: "keys_distinct (before_evs K A (rq_limits request) evs)"
    "keys_distinct (after_evs K A (rq_limits request) evs)"
    using assms(2) by (auto simp: events_wf_def intro!: keys_distinct_evs)
  have cm: "mset (concat (map g evs)) = mset (concat (map g evs'))" for g :: "event \<Rightarrow> 'x list"
    using assms(1) by (simp add: mset_concat flip: sum_mset_sum_list mset_map) (metis mset_map)
  then have bm: "mset (before_evs K A (rq_limits request) evs) = mset (before_evs K A (rq_limits request) evs')"
    and am: "mset (after_evs K A (rq_limits request) evs) = mset (after_evs K A (rq_limits request) evs')"
    by (simp_all only: before_evs_def after_evs_def)
  have sm: "smallest (before_evs K A (rq_limits request) evs) = smallest (before_evs K A (rq_limits request) evs')"
    "smallest (after_evs K A (rq_limits request) evs) = smallest (after_evs K A (rq_limits request) evs')"
    by (rule smallest_cong [OF kd(1) bm], rule smallest_cong [OF kd(2) am])
  have len: "length (before_evs K A (rq_limits request) evs) = length (before_evs K A (rq_limits request) evs')"
    "length (after_evs K A (rq_limits request) evs) = length (after_evs K A (rq_limits request) evs')"
    by (rule mset_eq_length [OF bm], rule mset_eq_length [OF am])
  have gp: "sort_key gap_path (concat (map (\<lambda>e. gap_of (snd e)) evs) @ zs)
      = sort_key gap_path (concat (map (\<lambda>e. gap_of (snd e)) evs') @ zs)" for zs
    using assms(2) by (intro sort_key_append_cong cm distinct_gap_paths) (auto simp: events_wf_def)
  have "length (filter (\<lambda>e. is_ready (snd e)) evs) = length (filter (\<lambda>e. is_ready (snd e)) evs')"
    using assms(1) by (metis mset_filter size_mset)
  with sm len gp mset_eq_setD [OF assms(1)] mset_eq_length [OF assms(1)] show ?thesis
    by (simp add: reference_verdict_def Let_def)
qed

section \<open>What preparation admits\<close>

definition total_bytes :: "evaluation_request \<Rightarrow> repo_path list \<Rightarrow> nat" where
  "total_bytes request paths = sum_list (map (\<lambda>p. byte_count (evaluation_input_of request p)) paths)"

definition total_files :: "evaluation_request \<Rightarrow> repo_path list \<Rightarrow> nat" where
  "total_files request paths = sum_list (map (\<lambda>p. file_count (evaluation_input_of request p)) paths)"

lemma file_count_le: "file_count i \<le> 2"
  by (simp add: file_count_def)

lemma prepare_inputs_spec:
  assumes "tot \<le> MAX_TOTAL_SOURCE_BYTES" and "files + 2 * length paths \<le> usize_max"
  shows "case prepare_inputs request tok ms n paths tot files inputs of
      Inr (f, ins) \<Rightarrow>
        (\<forall>k<length paths. \<not> tok (n + k)) \<and> tot + total_bytes request paths \<le> MAX_TOTAL_SOURCE_BYTES \<and>
        f = files + total_files request paths \<and> ins = inputs @ map (evaluation_input_of request) paths
    | Inl a \<Rightarrow>
        (a = cancelled_assessment (rq_valid_as_of request) ms \<and> (\<exists>k<length paths. tok (n + k))) \<or>
        ((\<exists>reason. a = incomplete_assessment (rq_valid_as_of request) reason ms) \<and>
         MAX_TOTAL_SOURCE_BYTES < tot + total_bytes request paths)"
  using assms
proof (induction paths arbitrary: tot files inputs n)
  case Nil
  then show ?case by (simp add: total_bytes_def total_files_def)
next
  case (Cons p paths)
  let ?i = "evaluation_input_of request p"
  have files: "sat_add files (file_count ?i) = files + file_count ?i"
    using Cons.prems(2) file_count_le [of ?i] by (simp add: sat_add_def)
  have sat: "sat_add tot (byte_count ?i) > MAX_TOTAL_SOURCE_BYTES \<longleftrightarrow> tot + byte_count ?i > MAX_TOTAL_SOURCE_BYTES"
    "tot + byte_count ?i \<le> MAX_TOTAL_SOURCE_BYTES \<Longrightarrow> sat_add tot (byte_count ?i) = tot + byte_count ?i"
    by (auto simp: sat_add_def MAX_TOTAL_SOURCE_BYTES_def usize_max_def min_def)
  have tb: "total_bytes request (p # paths) = byte_count ?i + total_bytes request paths"
    "total_files request (p # paths) = file_count ?i + total_files request paths"
    by (simp_all add: total_bytes_def total_files_def)
  consider (cancel) "tok n" | (big) "\<not> tok n" "tot + byte_count ?i > MAX_TOTAL_SOURCE_BYTES"
    | (go) "\<not> tok n" "tot + byte_count ?i \<le> MAX_TOTAL_SOURCE_BYTES" by linarith
  then show ?case
  proof cases
    case cancel
    then show ?thesis by (auto intro!: exI [of _ 0])
  next
    case big
    then show ?thesis by (auto simp: sat tb)
  next
    case go
    have "case prepare_inputs request tok ms (n + 1) paths (tot + byte_count ?i) (files + file_count ?i) (inputs @ [?i]) of
      Inr (f, ins) \<Rightarrow>
        (\<forall>k<length paths. \<not> tok (n + 1 + k)) \<and>
        (tot + byte_count ?i) + total_bytes request paths \<le> MAX_TOTAL_SOURCE_BYTES \<and>
        f = (files + file_count ?i) + total_files request paths \<and>
        ins = (inputs @ [?i]) @ map (evaluation_input_of request) paths
    | Inl a \<Rightarrow>
        (a = cancelled_assessment (rq_valid_as_of request) ms \<and> (\<exists>k<length paths. tok (n + 1 + k))) \<or>
        ((\<exists>reason. a = incomplete_assessment (rq_valid_as_of request) reason ms) \<and>
         MAX_TOTAL_SOURCE_BYTES < (tot + byte_count ?i) + total_bytes request paths)"
      using go Cons.prems(2) file_count_le [of ?i] by (intro Cons.IH) auto
    moreover have "prepare_inputs request tok ms n (p # paths) tot files inputs =
        prepare_inputs request tok ms (n + 1) paths (tot + byte_count ?i) (files + file_count ?i) (inputs @ [?i])"
      using go by (simp add: sat files not_less Let_def)
    ultimately show ?thesis
      using go by (auto simp: tb All_less_Suc2 Ex_less_Suc2 add.assoc split: sum.splits prod.splits)
  qed
qed

lemma prepare_evaluation_Inr:
  assumes "prepare_evaluation request tok ms = Inr p"
  shows "length (evaluation_paths request) \<le> MAX_FILES \<and>
    total_bytes request (evaluation_paths request) \<le> MAX_TOTAL_SOURCE_BYTES \<and>
    pr_inputs p = map (evaluation_input_of request) (evaluation_paths request) \<and>
    pr_path_continuity p = path_continuity (rq_comparison request) (pr_inputs p) \<and>
    pr_files_read p = total_files request (evaluation_paths request)"
proof -
  have "length (evaluation_paths request) \<le> MAX_FILES"
    using assms by (auto simp: prepare_evaluation_def Let_def split: if_splits)
  moreover from this have "0 + 2 * length (evaluation_paths request) \<le> usize_max"
    by (simp add: MAX_FILES_def usize_max_def)
  ultimately show ?thesis
    using assms prepare_inputs_spec [where tot = 0 and files = 0 and paths = "evaluation_paths request" and request = request
        and tok = tok and ms = ms and n = 0 and inputs = "[]"]
    by (auto simp: prepare_evaluation_def Let_def try_bind_Inr_iff split: if_splits sum.splits prod.splits)
qed

lemma prepare_evaluation_Inl:
  assumes "prepare_evaluation request tok ms = Inl a"
  shows "(a = cancelled_assessment (rq_valid_as_of request) ms \<and> (\<exists>n. tok n)) \<or>
    ((\<exists>reason. a = incomplete_assessment (rq_valid_as_of request) reason ms) \<and>
     (length (evaluation_paths request) > MAX_FILES \<or>
      total_bytes request (evaluation_paths request) > MAX_TOTAL_SOURCE_BYTES))"
proof (cases "length (evaluation_paths request) > MAX_FILES")
  case True
  with assms show ?thesis by (auto simp: prepare_evaluation_def Let_def)
next
  case False
  then have "0 + 2 * length (evaluation_paths request) \<le> usize_max"
    by (simp add: MAX_FILES_def usize_max_def)
  with False show ?thesis
    using assms prepare_inputs_spec [where tot = 0 and files = 0 and paths = "evaluation_paths request" and request = request
        and tok = tok and ms = ms and n = 0 and inputs = "[]"]
    by (auto simp: prepare_evaluation_def Let_def try_bind_Inl_iff split: sum.splits)
qed

text \<open>Snapshots and paths as the program builds them.\<close>

definition request_wf :: "crates \<Rightarrow> evaluation_request \<Rightarrow> bool" where
  "request_wf K request \<longleftrightarrow>
     bs_wf (rq_paths request) \<and> limits_wf (rq_limits request) \<and>
     (\<forall>view. view = rq_after request \<or> rq_before request = Some view \<longrightarrow>
        snapshot_wf view \<and> (\<forall>path f. snapshot_read view path = Some f \<longrightarrow> file_wf K f))"

lemma evaluation_paths_wf: "request_wf K request \<Longrightarrow> bs_wf (evaluation_paths request)"
  by (auto simp: request_wf_def evaluation_paths_def Let_def split: option.splits)

text \<open>All files of the two views of a request.\<close>

definition evaluation_files :: "evaluation_request \<Rightarrow> source_file set" where
  "evaluation_files request =
     {f. \<exists>view path. (view = rq_after request \<or> rq_before request = Some view) \<and> snapshot_read view path = Some f}"

lemma evaluation_input_within: "input_within (evaluation_files request) (evaluation_input_of request path)"
  by (auto simp: input_within_def evaluation_files_def evaluation_input_of_def split: option.splits if_splits)

lemma evaluation_input_wf: "request_wf K request \<Longrightarrow> input_wf K (evaluation_input_of request path)"
  by (auto simp: request_wf_def input_wf_def evaluation_input_of_def split: option.splits if_splits
      dest: snapshot_read_path)

lemma distinct_input_paths:
  "request_wf K request \<Longrightarrow> distinct (map in_path (map (evaluation_input_of request) (evaluation_paths request)))"
  using bs_wf_distinct [OF evaluation_paths_wf] by (simp add: comp_def evaluation_input_of_def)

section \<open>Properties\<close>

text \<open>
  C30. Requests are admitted exactly when they are within bounds: preparation succeeds if and only if the
  request names at most the maximum number of files, their bytes on both sides add up to at most
  the limit, and no poll during preparation reports a cancellation; it then lists one input per
  path, in path order, each with the files the two views have there. Otherwise it answers with a
  cancelled or an incomplete assessment without findings.
\<close>

theorem preparation_bounds:
  "(case prepare_evaluation request tok ms of
      Inr p \<Rightarrow> pr_inputs p = map (evaluation_input_of request) (evaluation_paths request) \<and>
               pr_files_read p = total_files request (evaluation_paths request)
    | Inl a \<Rightarrow> as_status a \<in> {StatusCancelled, StatusIncomplete} \<and> as_diagnostics a = []) \<and>
   ((\<exists>p. prepare_evaluation request tok ms = Inr p) \<longleftrightarrow>
      length (evaluation_paths request) \<le> MAX_FILES \<and>
      total_bytes request (evaluation_paths request) \<le> MAX_TOTAL_SOURCE_BYTES \<and>
      \<not> (\<exists>k<length (evaluation_paths request). tok k))"
proof -
  have 1: "case prepare_evaluation request tok ms of
      Inr p \<Rightarrow> pr_inputs p = map (evaluation_input_of request) (evaluation_paths request) \<and>
               pr_files_read p = total_files request (evaluation_paths request)
    | Inl a \<Rightarrow> as_status a \<in> {StatusCancelled, StatusIncomplete} \<and> as_diagnostics a = []"
    using prepare_evaluation_Inr [of request tok ms] prepare_evaluation_Inl [of request tok ms]
    by (cases "prepare_evaluation request tok ms")
      (auto simp: cancelled_assessment_def incomplete_assessment_def)
  have 2: "(\<exists>p. prepare_evaluation request tok ms = Inr p) \<longleftrightarrow>
      length (evaluation_paths request) \<le> MAX_FILES \<and>
      total_bytes request (evaluation_paths request) \<le> MAX_TOTAL_SOURCE_BYTES \<and>
      (\<forall>k<length (evaluation_paths request). \<not> tok k)"
  proof (cases "length (evaluation_paths request) \<le> MAX_FILES")
    case False
    then show ?thesis by (simp add: prepare_evaluation_def Let_def)
  next
    case True
    then have "0 + 2 * length (evaluation_paths request) \<le> usize_max"
      by (simp add: MAX_FILES_def usize_max_def)
    with True show ?thesis
      using prepare_inputs_spec [where tot = 0 and files = 0 and paths = "evaluation_paths request" and request = request
          and tok = tok and ms = ms and n = 0 and inputs = "[]"]
      by (cases "prepare_inputs request tok ms 0 (evaluation_paths request) 0 0 []")
        (auto simp: prepare_evaluation_def Let_def not_less)
  qed
  from 1 2 show ?thesis by (intro conjI) (assumption, simp)
qed

end
