(* ===== verification/Schedule.thy ===== *)
theory Schedule
  imports Evaluate
begin

text \<open>
  The parallel branch of \<^verbatim>\<open>run_analysis\<close> in \<^verbatim>\<open>src/engine.rs\<close> and the whole of \<^verbatim>\<open>Engine::evaluate\<close>.
  Worker threads take the inputs in any order; their cache operations and their pushes into
  the shared batch, each atomic under its lock, interleave arbitrarily. \<open>par_step\<close> is one such
  atomic action. Every complete execution is proved to give the verdict of the reference
  analysis, which has no cache, no threads and no order.
\<close>

section \<open>Interleaved execution\<close>

type_synonym task = "nat \<times> (analysis_error, analyzed_input) result prog"

record 'c par_state =
  ps_tasks :: "task list"
  ps_batch :: analysis_batch
  ps_errors :: "(nat \<times> analysis_error) list"
  ps_cache :: 'c

inductive par_step :: "'c fact_cache_ops \<Rightarrow> 'c par_state \<Rightarrow> 'c par_state \<Rightarrow> bool"
  for ops :: "'c fact_cache_ops" where
  get: "ps_tasks s = xs @ (i, Get k f) # ys \<Longrightarrow>
    par_step ops s (s\<lparr> ps_tasks := xs @ (i, f (fst (fc_get ops (ps_cache s) k))) # ys,
                      ps_cache := snd (fc_get ops (ps_cache s) k) \<rparr>)"
| put: "ps_tasks s = xs @ (i, Put k v f) # ys \<Longrightarrow>
    par_step ops s (s\<lparr> ps_tasks := xs @ (i, f (fst (fc_put ops (ps_cache s) k v))) # ys,
                      ps_cache := snd (fc_put ops (ps_cache s) k v) \<rparr>)"
| ok: "ps_tasks s = xs @ (i, Done (Inr a)) # ys \<Longrightarrow>
    par_step ops s (s\<lparr> ps_tasks := xs @ ys, ps_batch := batch_push (ps_batch s) a \<rparr>)"
| err: "ps_tasks s = xs @ (i, Done (Inl e)) # ys \<Longrightarrow>
    par_step ops s (s\<lparr> ps_tasks := xs @ ys, ps_errors := ps_errors s @ [(i, e)] \<rparr>)"

inductive_cases par_stepE: "par_step ops s t"

text \<open>An execution of \<open>k\<close> actions.\<close>

inductive par_steps :: "'c fact_cache_ops \<Rightarrow> nat \<Rightarrow> 'c par_state \<Rightarrow> 'c par_state \<Rightarrow> bool"
  for ops :: "'c fact_cache_ops" where
  refl: "par_steps ops 0 s s"
| step: "par_steps ops k s t \<Longrightarrow> par_step ops t u \<Longrightarrow> par_steps ops (Suc k) s u"

definition par_start ::
  "crates \<Rightarrow> analyzers \<Rightarrow> analysis_context \<Rightarrow> (nat \<Rightarrow> cancel_token) \<Rightarrow> evaluation_input list \<Rightarrow> 'c \<Rightarrow> 'c par_state" where
  "par_start K A cx tok inputs c =
     \<lparr> ps_tasks = map (\<lambda>i. (i, analyze_input K A cx (tok i) (inputs ! i))) [0..<length inputs],
       ps_batch = batch_default, ps_errors = [], ps_cache = c \<rparr>"

text \<open>After all workers are done: the error of the first input that has one, or the batch.\<close>

definition par_result :: "'c par_state \<Rightarrow> (analysis_error, analysis_batch) result" where
  "par_result s =
     (case sort_key fst (ps_errors s) of
        [] \<Rightarrow> Inr (ps_batch s)
      | e # _ \<Rightarrow> Inl (snd e))"

section \<open>The invariant of an execution\<close>

text \<open>Every input is in exactly one place: still running, pushed into the batch, or failed.\<close>

definition par_inv ::
  "(file_fact_key \<Rightarrow> file_facts \<Rightarrow> bool) \<Rightarrow> (nat \<Rightarrow> (analysis_error, analyzed_input) result \<Rightarrow> bool) \<Rightarrow> nat
    \<Rightarrow> (nat \<times> analyzed_input) list \<Rightarrow> 'c par_state \<Rightarrow> bool" where
  "par_inv good P n pushed s \<longleftrightarrow>
     mset (map fst (ps_tasks s)) + mset (map fst pushed) + mset (map fst (ps_errors s)) = mset [0..<n] \<and>
     (\<forall>t\<in>set (ps_tasks s). safe good (P (fst t)) (snd t)) \<and>
     (\<forall>a\<in>set pushed. P (fst a) (Inr (snd a))) \<and>
     (\<forall>e\<in>set (ps_errors s). P (fst e) (Inl (snd e))) \<and>
     ps_batch s = foldl batch_push batch_default (map snd pushed)"

context fact_cache
begin

lemma par_step_inv:
  assumes "par_step ops s t" and "par_inv good P n pushed s" and "coherent good (ps_cache s)"
  shows "\<exists>pushed'. par_inv good P n pushed' t \<and> coherent good (ps_cache t)"
  using assms(1)
proof (cases rule: par_step.cases)
  case (get xs i k f ys)
  note c = coherent_get [OF assms(3), of k]
  have "safe good (P i) (Get k f)" using assms(2) get(2) by (auto simp: par_inv_def)
  with c(2,3) have "safe good (P i) (f (fst (fc_get ops (ps_cache s) k)))" by simp
  with assms(2) get c(1) show ?thesis
    by (intro exI [of _ pushed]) (auto simp: par_inv_def)
next
  case (put xs i k v f ys)
  have sf: "safe good (P i) (Put k v f)" using assms(2) put(2) by (auto simp: par_inv_def)
  then have good: "good k v" and only: "\<And>g. good k g \<Longrightarrow> g = v" by simp_all
  note c = coherent_put [OF assms(3) good only]
  from sf c(2) have "safe good (P i) (f (fst (fc_put ops (ps_cache s) k v)))" by simp
  with assms(2) put c(1) show ?thesis
    by (intro exI [of _ pushed]) (auto simp: par_inv_def)
next
  case (ok xs i a ys)
  have "P i (Inr a)" using assms(2) ok(2) by (auto simp: par_inv_def)
  with assms(2,3) ok show ?thesis
    by (intro exI [of _ "pushed @ [(i, a)]"]) (auto simp: par_inv_def)
next
  case (err xs i e ys)
  have "P i (Inl e)" using assms(2) err(2) by (auto simp: par_inv_def)
  with assms(2,3) err show ?thesis
    by (intro exI [of _ pushed]) (auto simp: par_inv_def)
qed

lemma par_steps_inv:
  "par_steps ops k s t \<Longrightarrow> \<exists>pushed. par_inv good P n pushed s \<Longrightarrow> coherent good (ps_cache s) \<Longrightarrow>
    \<exists>pushed. par_inv good P n pushed t \<and> coherent good (ps_cache t)"
proof (induction rule: par_steps.induct)
  case (refl s)
  then show ?case by blast
next
  case (step k s t u)
  then obtain pushed where "par_inv good P n pushed t" "coherent good (ps_cache t)" by blast
  with step.hyps(2) show ?case by (intro par_step_inv) auto
qed

end

section \<open>Progress and termination\<close>

lemma analyze_one_ops: "ops_le (analyze_one K A cx tok src n) 2"
  using ops_le_bind [OF load_ops, of "\<lambda>(r, m). Done (try_bind r (\<lambda>facts. Inr (materialize K src facts)), m)" 0]
  by (simp add: analyze_one_def split: prod.splits)

lemma analyze_opt_ops: "ops_le (analyze_opt K A cx tok src n) 2"
  using ops_le_bind [OF analyze_one_ops, of "\<lambda>(r, m). Done (try_bind r (\<lambda>b. Inr (Some b)), m)" 0]
  by (auto simp: analyze_opt_def split: prod.splits option.splits)

lemma analyze_input_ops: "ops_le (analyze_input K A cx tok input) 4"
proof -
  have after: "ops_le (prog_bind (analyze_opt K A cx tok src m) (\<lambda>(ra, m'). Done (g ra, m'))) 2" for src m g
    using ops_le_bind [OF analyze_opt_ops, of "\<lambda>(ra, m'). Done (g ra, m')" 0 K A cx tok src m]
    by (simp add: split: prod.splits)
  have pair: "ops_le (analyze_pair K A cx tok b a n) (2 + 2)" for b a n
    unfolding analyze_pair_def
    by (rule ops_le_bind [OF analyze_opt_ops]) (auto split: prod.splits sum.splits intro: after)
  show ?thesis
    using ops_le_bind [OF pair, of "\<lambda>(r, m). Done (settle_input input r)" 0]
    by (simp add: analyze_input_def split: prod.splits)
qed

definition work_le :: "'c par_state \<Rightarrow> nat \<Rightarrow> bool" where
  "work_le s w \<longleftrightarrow> (\<exists>ms. list_all2 (\<lambda>t m. ops_le (snd t) m) (ps_tasks s) ms \<and> sum_list (map Suc ms) \<le> w)"

lemma par_step_work:
  assumes "par_step ops s t" and "work_le s w"
  shows "\<exists>w'. Suc w' \<le> w \<and> work_le t w'"
proof -
  obtain ms where ms: "list_all2 (\<lambda>t m. ops_le (snd t) m) (ps_tasks s) ms" and w: "sum_list (map Suc ms) \<le> w"
    using assms(2) by (auto simp: work_le_def)
  have split: "\<exists>as m bs. ms = as @ m # bs \<and> list_all2 (\<lambda>t m. ops_le (snd t) m) xs as \<and>
      ops_le p m \<and> list_all2 (\<lambda>t m. ops_le (snd t) m) ys bs" if "ps_tasks s = xs @ (i, p) # ys" for xs i p ys
    using ms unfolding that by (fastforce simp: list_all2_append1 list_all2_Cons1)
  from assms(1) show ?thesis
  proof (cases rule: par_step.cases)
    case (get xs i k f ys)
    from split [OF get(2)] obtain as m bs where d: "ms = as @ m # bs"
      "list_all2 (\<lambda>t m. ops_le (snd t) m) xs as" "ops_le (Get k f) m"
      "list_all2 (\<lambda>t m. ops_le (snd t) m) ys bs" by blast
    then have "work_le t (sum_list (map Suc (as @ (m - 1) # bs)))"
      unfolding work_le_def get(1) by (auto intro!: exI [of _ "as @ (m - 1) # bs"] list_all2_appendI)
    moreover have "Suc (sum_list (map Suc (as @ (m - 1) # bs))) \<le> w" using w d by auto
    ultimately show ?thesis by blast
  next
    case (put xs i k v f ys)
    from split [OF put(2)] obtain as m bs where d: "ms = as @ m # bs"
      "list_all2 (\<lambda>t m. ops_le (snd t) m) xs as" "ops_le (Put k v f) m"
      "list_all2 (\<lambda>t m. ops_le (snd t) m) ys bs" by blast
    then have "work_le t (sum_list (map Suc (as @ (m - 1) # bs)))"
      unfolding work_le_def put(1) by (auto intro!: exI [of _ "as @ (m - 1) # bs"] list_all2_appendI)
    moreover have "Suc (sum_list (map Suc (as @ (m - 1) # bs))) \<le> w" using w d by auto
    ultimately show ?thesis by blast
  next
    case (ok xs i a ys)
    from split [OF ok(2)] obtain as m bs where d: "ms = as @ m # bs"
      "list_all2 (\<lambda>t m. ops_le (snd t) m) xs as" "list_all2 (\<lambda>t m. ops_le (snd t) m) ys bs" by blast
    then have "work_le t (sum_list (map Suc (as @ bs)))"
      unfolding work_le_def ok(1) by (auto intro!: exI [of _ "as @ bs"] list_all2_appendI)
    moreover have "Suc (sum_list (map Suc (as @ bs))) \<le> w" using w d by auto
    ultimately show ?thesis by blast
  next
    case (err xs i e ys)
    from split [OF err(2)] obtain as m bs where d: "ms = as @ m # bs"
      "list_all2 (\<lambda>t m. ops_le (snd t) m) xs as" "list_all2 (\<lambda>t m. ops_le (snd t) m) ys bs" by blast
    then have "work_le t (sum_list (map Suc (as @ bs)))"
      unfolding work_le_def err(1) by (auto intro!: exI [of _ "as @ bs"] list_all2_appendI)
    moreover have "Suc (sum_list (map Suc (as @ bs))) \<le> w" using w d by auto
    ultimately show ?thesis by blast
  qed
qed

lemma par_steps_work: "par_steps ops k s t \<Longrightarrow> work_le s w \<Longrightarrow> \<exists>w'. w' + k \<le> w \<and> work_le t w'"
proof (induction rule: par_steps.induct)
  case (refl s)
  then show ?case by auto
next
  case (step k s t u)
  then obtain w' where "w' + k \<le> w" "work_le t w'" by blast
  moreover from par_step_work [OF step.hyps(2) this(2)] obtain w'' where "Suc w'' \<le> w'" "work_le u w''" by blast
  ultimately show ?case by (intro exI [of _ w'']) simp
qed

lemma par_start_work: "work_le (par_start K A cx tok inputs c) (5 * length inputs)"
  unfolding work_le_def
  by (rule exI [of _ "replicate (length inputs) 4"])
    (simp add: par_start_def list_all2_conv_all_nth analyze_input_ops sum_list_replicate)

lemma par_progress: "ps_tasks s \<noteq> [] \<Longrightarrow> \<exists>t. par_step ops s t"
proof -
  assume "ps_tasks s \<noteq> []"
  then obtain i p ys where t: "ps_tasks s = [] @ (i, p) # ys" by (cases "ps_tasks s") auto
  show ?thesis
  proof (cases p)
    case (Done r)
    with t show ?thesis by (cases r) (blast intro: par_step.ok par_step.err)+
  next
    case (Get k f)
    with t show ?thesis by (blast intro: par_step.get)
  next
    case (Put k v f)
    with t show ?thesis by (blast intro: par_step.put)
  qed
qed

section \<open>The reference run\<close>

fun reference_run ::
  "crates \<Rightarrow> analyzers \<Rightarrow> rule_limits \<Rightarrow> evaluation_input list \<Rightarrow> (analysis_error, event list) result" where
  "reference_run K A limits [] = Inr []"
| "reference_run K A limits (i # rest) =
     try_bind (reference_input K A limits i) (\<lambda>a.
     try_bind (reference_run K A limits rest) (\<lambda>evs. Inr ((i, a) # evs)))"

lemma reference_run_Inl:
  "n < length inputs \<Longrightarrow> reference_input K A limits (inputs ! n) = Inl e \<Longrightarrow>
   \<forall>j<n. \<exists>a. reference_input K A limits (inputs ! j) = Inr a \<Longrightarrow> reference_run K A limits inputs = Inl e"
proof (induction inputs arbitrary: n)
  case Nil
  then show ?case by simp
next
  case (Cons i rest)
  show ?case
  proof (cases n)
    case 0
    with Cons.prems show ?thesis by simp
  next
    case (Suc m)
    from Cons.prems(3) Suc obtain a where a: "reference_input K A limits i = Inr a" by force
    have "\<forall>j<m. \<exists>a. reference_input K A limits (rest ! j) = Inr a"
      using Cons.prems(3) Suc by force
    with Cons.IH [of m] Cons.prems Suc a show ?thesis by simp
  qed
qed

lemma reference_run_Inr:
  "\<forall>i\<in>set inputs. reference_input K A limits i = Inr (f i) \<Longrightarrow>
   reference_run K A limits inputs = Inr (map (\<lambda>i. (i, f i)) inputs)"
  by (induction inputs) auto

lemma reference_run_events:
  "reference_run K A limits inputs = Inr evs \<Longrightarrow>
   map fst evs = inputs \<and> (\<forall>e\<in>set evs. reference_input K A limits (fst e) = Inr (snd e))"
  by (induction inputs arbitrary: evs) (fastforce simp: try_bind_Inr_iff)+

lemma mset_map_nth: "mset is = mset [0..<length xs] \<Longrightarrow> mset (map ((!) xs) is) = mset xs"
  by (metis map_nth mset_map)

lemma par_invD:
  assumes "par_inv good P n pushed s"
  shows "mset (map fst (ps_tasks s)) + mset (map fst pushed) + mset (map fst (ps_errors s)) = mset [0..<n]"
    and "a \<in> set pushed \<Longrightarrow> P (fst a) (Inr (snd a))"
    and "e \<in> set (ps_errors s) \<Longrightarrow> P (fst e) (Inl (snd e))"
    and "ps_batch s = foldl batch_push batch_default (map snd pushed)"
  using assms by (auto simp: par_inv_def)

lemma par_inv_indices:
  assumes "par_inv good P n pushed s" and "ps_tasks s = []"
  shows "fst ` set pushed \<union> fst ` set (ps_errors s) = {0..<n}"
  using arg_cong [where f = set_mset, OF par_invD(1) [OF assms(1)]] assms(2) by simp

text \<open>What a finished execution has pushed.\<close>

lemma par_inv_finished:
  assumes "par_inv good (\<lambda>i. input_ok K A limits (tok i) (inputs ! i)) (length inputs) pushed t"
    and "ps_tasks t = []"
  shows "case par_result t of
      Inr b \<Rightarrow> \<exists>evs. b = batch_of evs \<and> mset (map fst evs) = mset inputs \<and> (\<forall>e\<in>set evs. event_ok K A limits e)
    | Inl e \<Rightarrow> \<exists>i<length inputs. reference_input K A limits (inputs ! i) = Inl e"
proof (cases "sort_key fst (ps_errors t)")
  case Nil
  then have none: "ps_errors t = []" by (metis length_0_conv length_sort)
  let ?evs = "map (\<lambda>ia. (inputs ! fst ia, snd ia)) pushed"
  have "mset (map fst pushed) = mset [0..<length inputs]" using assms none by (simp add: par_inv_def)
  then have "mset (map fst ?evs) = mset inputs"
    using mset_map_nth [of "map fst pushed" inputs] by (simp add: comp_def)
  moreover have "ps_batch t = batch_of ?evs" using assms(1) by (simp add: par_inv_def batch_of_def comp_def)
  moreover have "\<forall>e\<in>set ?evs. event_ok K A limits e"
    using assms(1) by (auto simp: par_inv_def input_ok_def event_ok_def)
  ultimately have "\<exists>evs. ps_batch t = batch_of evs \<and> mset (map fst evs) = mset inputs \<and>
      (\<forall>e\<in>set evs. event_ok K A limits e)" by blast
  then show ?thesis using Nil by (simp add: par_result_def)
next
  case (Cons e es)
  then have e: "e \<in> set (ps_errors t)" by (metis list.set_intros(1) set_sort)
  then have "fst e < length inputs" using par_inv_indices [OF assms] by auto
  moreover have "input_ok K A limits (tok (fst e)) (inputs ! fst e) (Inl (snd e))"
    by (rule par_invD(3) [OF assms(1) e])
  ultimately show ?thesis using Cons by (auto simp: par_result_def input_ok_def)
qed

text \<open>Without cancellation, the outcome is that of the reference run.\<close>

lemma par_inv_reference:
  assumes "par_inv good (\<lambda>i r. r = reference_input K A limits (inputs ! i)) (length inputs) pushed t"
    and "ps_tasks t = []"
  shows "case reference_run K A limits inputs of
      Inl e \<Rightarrow> par_result t = Inl e
    | Inr evs \<Rightarrow> \<exists>evs'. par_result t = Inr (batch_of evs') \<and> mset evs' = mset evs"
proof (cases "sort_key fst (ps_errors t)")
  case Nil
  then have none: "ps_errors t = []" by (metis length_0_conv length_sort)
  let ?evs = "map (\<lambda>ia. (inputs ! fst ia, snd ia)) pushed"
  let ?f = "\<lambda>i. projr (reference_input K A limits i)"
  have idx: "mset (map fst pushed) = mset [0..<length inputs]" using assms none by (simp add: par_inv_def)
  have ref: "\<forall>ia\<in>set pushed. reference_input K A limits (inputs ! fst ia) = Inr (snd ia)"
    using par_invD(2) [OF assms(1)] by simp
  have all: "\<forall>i\<in>set inputs. reference_input K A limits i = Inr (?f i)"
  proof
    fix i assume "i \<in> set inputs"
    then obtain j where "j < length inputs" "i = inputs ! j" by (auto simp: in_set_conv_nth)
    moreover from this have "j \<in> set (map fst pushed)" using mset_eq_setD [OF idx] by auto
    ultimately show "reference_input K A limits i = Inr (?f i)" using ref by auto
  qed
  have "?evs = map (\<lambda>i. (i, ?f i)) (map ((!) inputs) (map fst pushed))"
    unfolding map_map comp_def using ref by (intro map_cong) simp_all
  then have "mset ?evs = image_mset (\<lambda>i. (i, ?f i)) (mset (map ((!) inputs) (map fst pushed)))"
    by (simp only: mset_map)
  also have "\<dots> = mset (map (\<lambda>i. (i, ?f i)) inputs)" by (simp only: mset_map_nth [OF idx]) (simp only: mset_map)
  finally have "mset ?evs = mset (map (\<lambda>i. (i, ?f i)) inputs)" .
  moreover have "ps_batch t = batch_of ?evs" using assms(1) by (simp add: par_inv_def batch_of_def comp_def)
  ultimately have "ps_batch t = batch_of ?evs \<and> mset ?evs = mset (map (\<lambda>i. (i, ?f i)) inputs)" by (intro conjI)
  then have "\<exists>evs'. Inr (ps_batch t) = Inr (batch_of evs') \<and> mset evs' = mset (map (\<lambda>i. (i, ?f i)) inputs)"
    by blast
  then show ?thesis unfolding reference_run_Inr [OF all] sum.case par_result_def Nil list.case .
next
  case (Cons e es)
  have st: "set (e # es) = set (ps_errors t)" by (metis Cons set_sort)
  have srt: "sorted (map fst (e # es))" by (metis Cons sorted_sort_key)
  have idx: "set (map fst pushed) \<union> set (map fst (ps_errors t)) = {0..<length inputs}"
    using par_inv_indices [OF assms] by simp
  have in_err: "e \<in> set (ps_errors t)" by (metis st list.set_intros(1))
  have e: "reference_input K A limits (inputs ! fst e) = Inl (snd e)"
    using par_invD(3) [OF assms(1) in_err] by simp
  have "fst e < length inputs" using idx in_err by auto
  have "\<exists>a. reference_input K A limits (inputs ! j) = Inr a" if "j < fst e" for j
  proof -
    have "j \<notin> set (map fst (ps_errors t))"
      using that srt st by (auto simp flip: st)
    with idx that \<open>fst e < length inputs\<close> have "j \<in> set (map fst pushed)" by auto
    then obtain a where a: "a \<in> set pushed" "j = fst a" by auto
    from par_invD(2) [OF assms(1) a(1)] show ?thesis unfolding a(2) by (intro exI [of _ "snd a"]) simp
  qed
  with e \<open>fst e < length inputs\<close> have "reference_run K A limits inputs = Inl (snd e)"
    by (intro reference_run_Inl) auto
  with Cons show ?thesis by (simp add: par_result_def)
qed

section \<open>Engine::evaluate\<close>

datatype evaluation_error = SerializeLimits | AnalysisFailed analysis_error

text \<open>\<^verbatim>\<open>run_analysis\<close>: sequential below the threshold, otherwise any interleaving.\<close>

inductive run_analysis ::
  "crates \<Rightarrow> analyzers \<Rightarrow> 'c fact_cache_ops \<Rightarrow> analysis_context \<Rightarrow> (nat \<Rightarrow> cancel_token) \<Rightarrow> evaluation_input list \<Rightarrow> 'c
    \<Rightarrow> (analysis_error, analysis_batch) result \<Rightarrow> 'c \<Rightarrow> bool"
  for K A ops cx tok inputs c where
  sequential: "length inputs < PARALLEL_FILE_THRESHOLD \<Longrightarrow>
    run_sequential K A ops cx tok 0 inputs batch_default c = (r, c') \<Longrightarrow>
    run_analysis K A ops cx tok inputs c r c'"
| parallel: "length inputs \<ge> PARALLEL_FILE_THRESHOLD \<Longrightarrow>
    par_steps ops k (par_start K A cx tok inputs c) t \<Longrightarrow> ps_tasks t = [] \<Longrightarrow>
    run_analysis K A ops cx tok inputs c (par_result t) (ps_cache t)"

text \<open>\<open>ptok\<close> answers the polls of the preparation, \<open>tok i\<close> those of the analysis of input \<open>i\<close>;
  \<open>to_vec\<close> serializes the limits.\<close>

inductive evaluates ::
  "crates \<Rightarrow> analyzers \<Rightarrow> 'c fact_cache_ops \<Rightarrow> (rule_limits \<Rightarrow> bytes option) \<Rightarrow> cancel_token \<Rightarrow> (nat \<Rightarrow> cancel_token)
    \<Rightarrow> nat \<Rightarrow> evaluation_request \<Rightarrow> 'c \<Rightarrow> (evaluation_error, assessment) result \<Rightarrow> 'c \<Rightarrow> bool"
  for K A ops to_vec ptok tok ms request c where
  refused: "prepare_evaluation request ptok ms = Inl a \<Longrightarrow>
    evaluates K A ops to_vec ptok tok ms request c (Inr a) c"
| unserializable: "prepare_evaluation request ptok ms = Inr p \<Longrightarrow> to_vec (rq_limits request) = None \<Longrightarrow>
    evaluates K A ops to_vec ptok tok ms request c (Inl SerializeLimits) c"
| failed: "prepare_evaluation request ptok ms = Inr p \<Longrightarrow> to_vec (rq_limits request) = Some opts \<Longrightarrow>
    run_analysis K A ops \<lparr> cx_limits = rq_limits request, cx_parser_options = opts \<rparr> tok (pr_inputs p) c (Inl e) c' \<Longrightarrow>
    evaluates K A ops to_vec ptok tok ms request c (Inl (AnalysisFailed e)) c'"
| assessed: "prepare_evaluation request ptok ms = Inr p \<Longrightarrow> to_vec (rq_limits request) = Some opts \<Longrightarrow>
    run_analysis K A ops \<lparr> cx_limits = rq_limits request, cx_parser_options = opts \<rparr> tok (pr_inputs p) c (Inr b) c' \<Longrightarrow>
    evaluates K A ops to_vec ptok tok ms request c
      (Inr (finalize_assessment \<lparr> fa_request = request, fa_path_continuity = pr_path_continuity p,
        fa_files_read = pr_files_read p, fa_batch = b, fa_cache_before = fc_metadata ops c,
        fa_cache_after = fc_metadata ops c', fa_millis = ms \<rparr>)) c'"

context fact_cache
begin

lemma sequential_reference:
  assumes "\<And>i input. input \<in> set inputs \<Longrightarrow> safe good (\<lambda>r. r = reference_input K A limits input)
           (analyze_input K A cx (tok i) input)"
    and "coherent good c"
  shows "coherent good (snd (run_sequential K A ops cx tok i inputs b c)) \<and>
    fst (run_sequential K A ops cx tok i inputs b c) =
      try_bind (reference_run K A limits inputs) (\<lambda>evs. Inr (foldl batch_push b (map snd evs)))"
  using assms(1,2)
proof (induction inputs arbitrary: i b c)
  case Nil
  then show ?case by simp
next
  case (Cons input inputs)
  let ?r = "run ops (analyze_input K A cx (tok i) input) c"
  have r: "fst ?r = reference_input K A limits input" "coherent good (snd ?r)"
    using run_safe [OF Cons.prems(2) Cons.prems(1) [of input i]] by simp_all
  show ?case
  proof (cases "fst ?r")
    case (Inl e)
    then have eq: "?r = (Inl e, snd ?r)" by (metis prod.collapse)
    have "run_sequential K A ops cx tok i (input # inputs) b c = (Inl e, snd ?r)"
      by (subst run_sequential.simps(2), subst eq) simp
    moreover have "reference_input K A limits input = Inl e" using r(1) Inl by simp
    ultimately show ?thesis using r(2) by simp
  next
    case (Inr a)
    then have eq: "?r = (Inr a, snd ?r)" by (metis prod.collapse)
    have "run_sequential K A ops cx tok i (input # inputs) b c
        = run_sequential K A ops cx tok (i + 1) inputs (batch_push b a) (snd ?r)"
      by (subst run_sequential.simps(2), subst eq) simp
    moreover have "coherent good (snd (run_sequential K A ops cx tok (i + 1) inputs (batch_push b a) (snd ?r))) \<and>
      fst (run_sequential K A ops cx tok (i + 1) inputs (batch_push b a) (snd ?r)) =
        try_bind (reference_run K A limits inputs) (\<lambda>evs. Inr (foldl batch_push (batch_push b a) (map snd evs)))"
      using Cons.prems(1) r(2) by (intro Cons.IH) auto
    moreover have "try_bind (reference_run K A limits (input # inputs)) (\<lambda>evs. Inr (foldl batch_push b (map snd evs)))
        = try_bind (reference_run K A limits inputs) (\<lambda>evs. Inr (foldl batch_push (batch_push b a) (map snd evs)))"
    proof -
      have "reference_input K A limits input = Inr a" using r(1) Inr by simp
      then show ?thesis by (cases "reference_run K A limits inputs") simp_all
    qed
    ultimately show ?thesis by simp
  qed
qed

lemma run_analysis_reference:
  assumes "analyzers_cooperate A" and "no_key_conflict K A limits opts F"
    and "\<forall>input\<in>set inputs. input_within F input" and "coherent (good_entry K A limits opts F) c"
    and "\<forall>i j. \<not> tok i j"
    and "run_analysis K A ops \<lparr> cx_limits = limits, cx_parser_options = opts \<rparr> tok inputs c r c'"
  shows "coherent (good_entry K A limits opts F) c' \<and>
    (case reference_run K A limits inputs of
       Inl e \<Rightarrow> r = Inl e
     | Inr evs \<Rightarrow> \<exists>evs'. r = Inr (batch_of evs') \<and> mset evs' = mset evs)"
proof -
  let ?good = "good_entry K A limits opts F" and ?cx = "\<lparr> cx_limits = limits, cx_parser_options = opts \<rparr>"
  have safe: "safe ?good (\<lambda>r. r = reference_input K A limits input) (analyze_input K A ?cx (tok i) input)"
    if "input \<in> set inputs" for i input
    by (rule safe_mono [OF analyze_input_safe [OF assms(1,2)]])
      (use assms(3,5) that in \<open>auto simp: input_ok_def\<close>)
  from assms(6) show ?thesis
  proof (cases rule: run_analysis.cases)
    case sequential
    have "coherent ?good (snd (run_sequential K A ops ?cx tok 0 inputs batch_default c)) \<and>
      fst (run_sequential K A ops ?cx tok 0 inputs batch_default c) =
        try_bind (reference_run K A limits inputs) (\<lambda>evs. Inr (foldl batch_push batch_default (map snd evs)))"
      by (rule sequential_reference [OF _ assms(4)]) (rule safe)
    with sequential show ?thesis
      by (cases "reference_run K A limits inputs") (auto simp: batch_of_def)
  next
    case (parallel k t)
    let ?P = "\<lambda>i r. r = reference_input K A limits (inputs ! i)"
    have start: "par_inv ?good ?P (length inputs) [] (par_start K A ?cx tok inputs c)"
      using safe by (auto simp: par_inv_def par_start_def comp_def)
    have cc: "coherent ?good (ps_cache (par_start K A ?cx tok inputs c))"
      using assms(4) by (simp add: par_start_def)
    from start have ex: "\<exists>pushed. par_inv ?good ?P (length inputs) pushed (par_start K A ?cx tok inputs c)"
      by blast
    have "\<exists>pushed. par_inv ?good ?P (length inputs) pushed t \<and> coherent ?good (ps_cache t)"
      by (rule par_steps_inv [OF parallel(4) ex cc])
    then obtain pushed where "par_inv ?good ?P (length inputs) pushed t" "coherent ?good (ps_cache t)" by blast
    with par_inv_reference [OF this(1) parallel(5)] show ?thesis unfolding parallel(1,2) by blast
  qed
qed

text \<open>With cancellation, every input is still accounted for by its reference or as cancelled.\<close>

lemma sequential_events:
  assumes "\<And>i input. input \<in> set inputs \<Longrightarrow> safe good (input_ok K A limits (tok i) input)
           (analyze_input K A cx (tok i) input)"
    and "coherent good c"
  shows "coherent good (snd (run_sequential K A ops cx tok i inputs b c)) \<and>
    (case fst (run_sequential K A ops cx tok i inputs b c) of
       Inl e \<Rightarrow> \<exists>input\<in>set inputs. reference_input K A limits input = Inl e
     | Inr b' \<Rightarrow> \<exists>evs. b' = foldl batch_push b (map snd evs) \<and> map fst evs = inputs \<and>
         (\<forall>e\<in>set evs. event_ok K A limits e))"
  using assms(1,2)
proof (induction inputs arbitrary: i b c)
  case Nil
  then show ?case by simp
next
  case (Cons input inputs)
  let ?r = "run ops (analyze_input K A cx (tok i) input) c"
  have r: "input_ok K A limits (tok i) input (fst ?r)" "coherent good (snd ?r)"
    using run_safe [OF Cons.prems(2) Cons.prems(1) [of input i]] by simp_all
  show ?case
  proof (cases "fst ?r")
    case (Inl e)
    then have eq: "?r = (Inl e, snd ?r)" by (metis prod.collapse)
    have "run_sequential K A ops cx tok i (input # inputs) b c = (Inl e, snd ?r)"
      by (subst run_sequential.simps(2), subst eq) simp
    moreover have "reference_input K A limits input = Inl e"
      using r(1) Inl by (simp add: input_ok_def)
    ultimately show ?thesis using r(2) by simp
  next
    case (Inr a)
    then have eq: "?r = (Inr a, snd ?r)" by (metis prod.collapse)
    have run: "run_sequential K A ops cx tok i (input # inputs) b c
        = run_sequential K A ops cx tok (i + 1) inputs (batch_push b a) (snd ?r)"
      by (subst run_sequential.simps(2), subst eq) simp
    have ok: "event_ok K A limits (input, a)" using r(1) Inr by (auto simp: input_ok_def event_ok_def)
    have IH: "coherent good (snd (run_sequential K A ops cx tok (i + 1) inputs (batch_push b a) (snd ?r))) \<and>
      (case fst (run_sequential K A ops cx tok (i + 1) inputs (batch_push b a) (snd ?r)) of
         Inl e \<Rightarrow> \<exists>input\<in>set inputs. reference_input K A limits input = Inl e
       | Inr b' \<Rightarrow> \<exists>evs. b' = foldl batch_push (batch_push b a) (map snd evs) \<and> map fst evs = inputs \<and>
           (\<forall>e\<in>set evs. event_ok K A limits e))"
      using Cons.prems(1) r(2) by (intro Cons.IH) auto
    show ?thesis
    proof (cases "fst (run_sequential K A ops cx tok (i + 1) inputs (batch_push b a) (snd ?r))")
      case (Inl e)
      with IH show ?thesis unfolding run by auto
    next
      case (Inr b')
      with IH obtain evs where "b' = foldl batch_push (batch_push b a) (map snd evs)" "map fst evs = inputs"
        "\<forall>e\<in>set evs. event_ok K A limits e" by auto
      then have "b' = foldl batch_push b (map snd ((input, a) # evs)) \<and> map fst ((input, a) # evs) = input # inputs \<and>
          (\<forall>e\<in>set ((input, a) # evs). event_ok K A limits e)" using ok by simp
      then have "\<exists>evs. b' = foldl batch_push b (map snd evs) \<and> map fst evs = input # inputs \<and>
          (\<forall>e\<in>set evs. event_ok K A limits e)" by (rule exI)
      with IH Inr show ?thesis unfolding run by simp
    qed
  qed
qed

lemma run_analysis_events:
  assumes "analyzers_cooperate A" and "no_key_conflict K A limits opts F"
    and "\<forall>input\<in>set inputs. input_within F input" and "coherent (good_entry K A limits opts F) c"
    and "run_analysis K A ops \<lparr> cx_limits = limits, cx_parser_options = opts \<rparr> tok inputs c r c'"
  shows "coherent (good_entry K A limits opts F) c' \<and>
    (case r of
       Inl e \<Rightarrow> \<exists>input\<in>set inputs. reference_input K A limits input = Inl e
     | Inr b \<Rightarrow> \<exists>evs. b = batch_of evs \<and> mset (map fst evs) = mset inputs \<and> (\<forall>e\<in>set evs. event_ok K A limits e))"
proof -
  let ?good = "good_entry K A limits opts F" and ?cx = "\<lparr> cx_limits = limits, cx_parser_options = opts \<rparr>"
  have safe: "safe ?good (input_ok K A limits (tok i) input) (analyze_input K A ?cx (tok i) input)"
    if "input \<in> set inputs" for i input
    using assms(3) that by (intro analyze_input_safe [OF assms(1,2)]) auto
  from assms(5) show ?thesis
  proof (cases rule: run_analysis.cases)
    case sequential
    have "coherent ?good (snd (run_sequential K A ops ?cx tok 0 inputs batch_default c)) \<and>
      (case fst (run_sequential K A ops ?cx tok 0 inputs batch_default c) of
         Inl e \<Rightarrow> \<exists>input\<in>set inputs. reference_input K A limits input = Inl e
       | Inr b' \<Rightarrow> \<exists>evs. b' = foldl batch_push batch_default (map snd evs) \<and> map fst evs = inputs \<and>
           (\<forall>e\<in>set evs. event_ok K A limits e))"
      by (rule sequential_events [OF _ assms(4)]) (rule safe)
    with sequential show ?thesis by (cases r) (auto simp: batch_of_def)
  next
    case (parallel k t)
    let ?P = "\<lambda>i. input_ok K A limits (tok i) (inputs ! i)"
    have start: "par_inv ?good ?P (length inputs) [] (par_start K A ?cx tok inputs c)"
      using safe by (auto simp: par_inv_def par_start_def comp_def)
    have cc: "coherent ?good (ps_cache (par_start K A ?cx tok inputs c))"
      using assms(4) by (simp add: par_start_def)
    from start have ex: "\<exists>pushed. par_inv ?good ?P (length inputs) pushed (par_start K A ?cx tok inputs c)"
      by blast
    have "\<exists>pushed. par_inv ?good ?P (length inputs) pushed t \<and> coherent ?good (ps_cache t)"
      by (rule par_steps_inv [OF parallel(4) ex cc])
    then obtain pushed where inv: "par_inv ?good ?P (length inputs) pushed t" "coherent ?good (ps_cache t)" by blast
    from par_inv_finished [OF inv(1) parallel(5)] inv(2) show ?thesis
      unfolding parallel(1,2) by (cases "par_result t") (auto dest: nth_mem)
  qed
qed

lemma finalize_events:
  assumes "request_wf K request" and "prepare_evaluation request ptok ms = Inr p"
    and "mset (map fst evs) = mset (pr_inputs p)" and "\<forall>e\<in>set evs. event_ok K A (rq_limits request) e"
  shows "events_wf K A (rq_limits request) evs"
proof -
  note pr = prepare_evaluation_Inr [OF assms(2)]
  have "mset (map in_path (map fst evs)) = mset (map in_path (pr_inputs p))"
    using assms(3) by (metis mset_map)
  then have "distinct (map in_path (map fst evs))"
    using pr distinct_input_paths [OF assms(1)] by (metis mset_eq_imp_distinct_iff)
  moreover have "length evs = length (pr_inputs p)" using mset_eq_length [OF assms(3)] by simp
  then have "length evs \<le> usize_max" using pr by (simp add: MAX_FILES_def usize_max_def)
  moreover have "fst e \<in> set (pr_inputs p)" if "e \<in> set evs" for e
    using mset_eq_setD [OF assms(3)] that by auto
  then have "\<forall>e\<in>set evs. input_wf K (fst e)"
    using pr evaluation_input_wf [OF assms(1)] by (metis (no_types, lifting) imageE list.set_map)
  ultimately show ?thesis using assms(4) by (simp add: events_wf_def comp_def)
qed

end

section \<open>The reference evaluation\<close>

text \<open>What an evaluation means, without cache, threads, cancellation or bounded working sets: the
  request is too large, its analysis fails, or it has a verdict.\<close>

datatype reference_outcome =
    TooLargeRequest
  | AnalysisFails analysis_error
  | Verdict assessment_status "diagnostic list" coverage bytes

definition reference_inputs :: "evaluation_request \<Rightarrow> evaluation_input list" where
  "reference_inputs request = map (evaluation_input_of request) (evaluation_paths request)"

definition reference_evaluation :: "crates \<Rightarrow> analyzers \<Rightarrow> evaluation_request \<Rightarrow> reference_outcome" where
  "reference_evaluation K A request =
     (if length (evaluation_paths request) > MAX_FILES \<or>
         total_bytes request (evaluation_paths request) > MAX_TOTAL_SOURCE_BYTES then TooLargeRequest
      else case reference_run K A (rq_limits request) (reference_inputs request) of
        Inl e \<Rightarrow> AnalysisFails e
      | Inr evs \<Rightarrow>
          (case reference_verdict K A request
             (path_continuity (rq_comparison request) (reference_inputs request)) evs of
             (status, diagnostics, cov, valid) \<Rightarrow> Verdict status diagnostics cov valid))"

text \<open>When a result of the program is what the reference says.\<close>

definition agrees :: "reference_outcome \<Rightarrow> (evaluation_error, assessment) result \<Rightarrow> bool" where
  "agrees ref r \<longleftrightarrow>
     (case ref of
        TooLargeRequest \<Rightarrow> \<exists>a. r = Inr a \<and> as_status a = StatusIncomplete \<and> as_diagnostics a = []
      | AnalysisFails e \<Rightarrow> r = Inl (AnalysisFailed e)
      | Verdict status diagnostics cov valid \<Rightarrow>
          \<exists>a. r = Inr a \<and> as_status a = status \<and> as_diagnostics a = diagnostics \<and>
              as_coverage a = cov \<and> as_valid_as_of a = valid)"

lemma agrees_verdict:
  "verdict a = reference_verdict K A request cont evs \<Longrightarrow>
   agrees (case reference_verdict K A request cont evs of (s, d, c, v) \<Rightarrow> Verdict s d c v) (Inr a)"
  by (cases "reference_verdict K A request cont evs") (auto simp: agrees_def verdict_def)

lemma prepare_refused:
  assumes "prepare_evaluation request ptok ms = Inl a"
  shows "(as_status a = StatusCancelled \<and> (\<exists>n. ptok n)) \<or>
    (reference_evaluation K A request = TooLargeRequest \<and> agrees TooLargeRequest (Inr a))"
  using prepare_evaluation_Inl [OF assms]
  by (auto simp: cancelled_assessment_def incomplete_assessment_def reference_evaluation_def agrees_def)

lemma prepared_reference:
  assumes "prepare_evaluation request ptok ms = Inr p"
  shows "reference_evaluation K A request =
    (case reference_run K A (rq_limits request) (pr_inputs p) of
       Inl e \<Rightarrow> AnalysisFails e
     | Inr evs \<Rightarrow>
         (case reference_verdict K A request (pr_path_continuity p) evs of
            (s, d, c, v) \<Rightarrow> Verdict s d c v))"
proof -
  note pr = prepare_evaluation_Inr [OF assms]
  have ins: "pr_inputs p = reference_inputs request" using pr by (simp add: reference_inputs_def)
  have cont: "pr_path_continuity p = path_continuity (rq_comparison request) (reference_inputs request)"
    using pr ins by simp
  have "\<not> (length (evaluation_paths request) > MAX_FILES \<or>
      total_bytes request (evaluation_paths request) > MAX_TOTAL_SOURCE_BYTES)" using pr by simp
  then show ?thesis unfolding ins cont reference_evaluation_def by simp
qed

lemma reference_events_ok:
  "reference_run K A limits inputs = Inr evs \<Longrightarrow> \<forall>e\<in>set evs. event_ok K A limits e"
  using reference_run_events [of K A limits inputs evs] by (auto simp: event_ok_def)

text \<open>Events none of which is a cancellation are those of the reference run.\<close>

lemma uncancelled_events:
  assumes "mset (map fst evs) = mset inputs" and "\<forall>e\<in>set evs. event_ok K A limits e"
    and "\<not> (\<exists>e\<in>set evs. \<exists>p l. snd e = InputCancelled p l)"
  shows "\<exists>evs'. reference_run K A limits inputs = Inr evs' \<and> mset evs' = mset evs"
proof -
  let ?f = "\<lambda>i. projr (reference_input K A limits i)"
  have ref: "reference_input K A limits (fst e) = Inr (snd e)" if "e \<in> set evs" for e
    using assms(2,3) that unfolding event_ok_def by (metis (no_types))
  have all: "\<forall>i\<in>set inputs. reference_input K A limits i = Inr (?f i)"
  proof
    fix i assume "i \<in> set inputs"
    then have "i \<in> fst ` set evs" using mset_eq_setD [OF assms(1)] by simp
    then obtain e where "e \<in> set evs" "i = fst e" by blast
    with ref [of e] show "reference_input K A limits i = Inr (?f i)" by simp
  qed
  have "evs = map (\<lambda>i. (i, ?f i)) (map fst evs)"
    unfolding map_map comp_def using ref by (intro map_idI [symmetric]) simp
  then have "mset evs = image_mset (\<lambda>i. (i, ?f i)) (mset (map fst evs))" by (metis mset_map)
  also have "\<dots> = mset (map (\<lambda>i. (i, ?f i)) inputs)" unfolding assms(1) by simp
  finally show ?thesis using reference_run_Inr [OF all] by auto
qed

context fact_cache
begin

text \<open>Every evaluation agrees with the reference, unless a poll reported a cancellation; and what is not
  reported as cancelled or failed agrees with the reference in any case.\<close>

lemma evaluates_reference:
  assumes "analyzers_cooperate A" and "no_key_conflict K A (rq_limits request) (opts (rq_limits request)) F"
    and "request_wf K request" and "evaluation_files request \<subseteq> F"
    and "coherent (good_entry K A (rq_limits request) (opts (rq_limits request)) F) c"
    and "evaluates K A ops (\<lambda>l. Some (opts l)) ptok tok ms request c r c'"
  shows "coherent (good_entry K A (rq_limits request) (opts (rq_limits request)) F) c' \<and>
    (agrees (reference_evaluation K A request) r \<or>
     ((\<exists>n. ptok n) \<or> (\<exists>i n. tok i n)) \<and>
     ((\<exists>a. r = Inr a \<and> as_status a = StatusCancelled) \<or>
      (\<exists>e input. r = Inl (AnalysisFailed e) \<and> input \<in> set (reference_inputs request) \<and>
         reference_input K A (rq_limits request) input = Inl e)))"
  using assms(6)
proof (cases rule: evaluates.cases)
  case (refused a)
  with prepare_refused [OF refused(3), of K A] assms(5) show ?thesis by auto
next
  case (unserializable p)
  then show ?thesis by simp
next
  case (failed p os e)
  note pr = prepare_evaluation_Inr [OF failed(2)]
  have wf: "\<forall>input\<in>set (pr_inputs p). input_wf K input" "\<forall>input\<in>set (pr_inputs p). input_within F input"
    using pr evaluation_input_wf [OF assms(3)] evaluation_input_within [of request] assms(4)
    by (auto simp: input_within_def)
  have run: "run_analysis K A ops \<lparr> cx_limits = rq_limits request, cx_parser_options = opts (rq_limits request) \<rparr>
      tok (pr_inputs p) c (Inl e) c'" using failed by simp
  show ?thesis
  proof (cases "\<exists>i n. tok i n")
    case False
    then have nt: "\<forall>i j. \<not> tok i j" by blast
    from run_analysis_reference [OF assms(1,2) wf(2) assms(5) nt run]
    have "coherent (good_entry K A (rq_limits request) (opts (rq_limits request)) F) c' \<and> reference_run K A (rq_limits request) (pr_inputs p) = Inl e"
      by (auto split: sum.splits)
    then show ?thesis using failed by (simp add: prepared_reference [OF failed(2)] agrees_def)
  next
    case True
    with run_analysis_events [OF assms(1,2) wf(2) assms(5) run] failed(1) pr show ?thesis
      by (auto simp: reference_inputs_def)
  qed
next
  case (assessed p os b)
  note pr = prepare_evaluation_Inr [OF assessed(2)]
  have wf: "\<forall>input\<in>set (pr_inputs p). input_wf K input" "\<forall>input\<in>set (pr_inputs p). input_within F input"
    using pr evaluation_input_wf [OF assms(3)] evaluation_input_within [of request] assms(4)
    by (auto simp: input_within_def)
  have run: "run_analysis K A ops \<lparr> cx_limits = rq_limits request, cx_parser_options = opts (rq_limits request) \<rparr>
      tok (pr_inputs p) c (Inr b) c'" using assessed by simp
  have fin: "\<exists>a. r = Inr a \<and> verdict a = reference_verdict K A request (pr_path_continuity p) evs"
    if "b = batch_of evs" "mset (map fst evs) = mset (pr_inputs p)"
      "\<forall>e\<in>set evs. event_ok K A (rq_limits request) e" for evs
    using assessed(1) finalize_verdict [OF finalize_events [OF assms(3) assessed(2) that(2,3)]]
    by (simp add: that(1))
  have agree: "agrees (reference_evaluation K A request) r"
    if "b = batch_of evs" "reference_run K A (rq_limits request) (pr_inputs p) = Inr es" "mset evs = mset es" for evs es
  proof -
    have es: "mset (map fst es) = mset (pr_inputs p)" "\<forall>e\<in>set es. event_ok K A (rq_limits request) e"
      using reference_run_events [OF that(2)] reference_events_ok [OF that(2)] by auto
    have ms: "mset (map fst evs) = mset (pr_inputs p)" using es(1) that(3) by (metis mset_map)
    have ok: "\<forall>e\<in>set evs. event_ok K A (rq_limits request) e" using es(2) mset_eq_setD [OF that(3)] by simp
    from fin [OF that(1) ms ok] obtain a where
      "r = Inr a" "verdict a = reference_verdict K A request (pr_path_continuity p) evs" by blast
    moreover have "reference_verdict K A request (pr_path_continuity p) evs = reference_verdict K A request (pr_path_continuity p) es"
      by (rule reference_verdict_cong [OF that(3)])
        (use finalize_events [OF assms(3) assessed(2) es] events_wf_cong [OF that(3) [symmetric]] in blast)
    ultimately show ?thesis
      using agrees_verdict [of a K A request "pr_path_continuity p" es]
      by (simp add: prepared_reference [OF assessed(2)] that(2))
  qed
  show ?thesis
  proof (cases "\<exists>i n. tok i n")
    case False
    then have nt: "\<forall>i j. \<not> tok i j" by blast
    from run_analysis_reference [OF assms(1,2) wf(2) assms(5) nt run] obtain evs es where
      "coherent (good_entry K A (rq_limits request) (opts (rq_limits request)) F) c'" "b = batch_of evs"
      "reference_run K A (rq_limits request) (pr_inputs p) = Inr es" "mset evs = mset es"
      by (auto split: sum.splits)
    with agree show ?thesis by blast
  next
    case True
    from run_analysis_events [OF assms(1,2) wf(2) assms(5) run] obtain evs where
      co: "coherent (good_entry K A (rq_limits request) (opts (rq_limits request)) F) c'" and b: "b = batch_of evs"
      and ev: "mset (map fst evs) = mset (pr_inputs p)" "\<forall>e\<in>set evs. event_ok K A (rq_limits request) e"
      by auto
    show ?thesis
    proof (cases "\<exists>e\<in>set evs. \<exists>p l. snd e = InputCancelled p l")
      case False
      from uncancelled_events [OF ev False] agree [OF b] co show ?thesis by metis
    next
      case canc: True
      obtain a where r: "r = Inr a" and "verdict a = reference_verdict K A request (pr_path_continuity p) evs"
        using fin [OF b ev] by blast
      then have "as_status a = StatusCancelled"
        using canc by (simp add: verdict_def reference_verdict_def Let_def assessment_status_of_def)
      with r co True show ?thesis by blast
    qed
  qed
qed

end

section \<open>Every evaluation has a result\<close>

lemma par_steps_Cons: "par_step ops s t \<Longrightarrow> par_steps ops k t u \<Longrightarrow> par_steps ops (Suc k) s u"
proof -
  have "par_steps ops k t u \<Longrightarrow> par_step ops s t \<Longrightarrow> par_steps ops (Suc k) s u"
    by (induction rule: par_steps.induct) (auto intro: par_steps.intros)
  then show "par_step ops s t \<Longrightarrow> par_steps ops k t u \<Longrightarrow> par_steps ops (Suc k) s u" .
qed

lemma par_completes: "work_le s w \<Longrightarrow> \<exists>k t. par_steps ops k s t \<and> ps_tasks t = []"
proof (induction w arbitrary: s rule: less_induct)
  case (less w)
  show ?case
  proof (cases "ps_tasks s = []")
    case True
    then show ?thesis by (blast intro: par_steps.refl)
  next
    case False
    from par_progress [OF this] obtain t where step: "par_step ops s t" by blast
    from par_step_work [OF step less.prems] obtain w' where "w' < w" "work_le t w'"
      by (auto dest: Suc_le_lessD)
    from less.IH [OF this] step show ?thesis by (blast intro: par_steps_Cons)
  qed
qed

lemma run_analysis_total: "\<exists>r c'. run_analysis K A ops cx tok inputs c r c'"
proof (cases "length inputs < PARALLEL_FILE_THRESHOLD")
  case True
  then have "run_analysis K A ops cx tok inputs c (fst (run_sequential K A ops cx tok 0 inputs batch_default c))
      (snd (run_sequential K A ops cx tok 0 inputs batch_default c))"
    by (intro run_analysis.sequential) simp_all
  then show ?thesis by blast
next
  case False
  from par_completes [OF par_start_work, of ops K A cx tok inputs c] obtain k t where
    "par_steps ops k (par_start K A cx tok inputs c) t" "ps_tasks t = []" by blast
  with False have "run_analysis K A ops cx tok inputs c (par_result t) (ps_cache t)"
    by (intro run_analysis.parallel) simp_all
  then show ?thesis by blast
qed

lemma evaluates_total: "\<exists>r c'. evaluates K A ops to_vec ptok tok ms request c r c'"
proof (cases "prepare_evaluation request ptok ms")
  case (Inl a)
  then show ?thesis by (blast intro: evaluates.refused)
next
  case (Inr p)
  show ?thesis
  proof (cases "to_vec (rq_limits request)")
    case None
    with Inr show ?thesis by (blast intro: evaluates.unserializable)
  next
    case (Some opts)
    let ?cx = "\<lparr> cx_limits = rq_limits request, cx_parser_options = opts \<rparr>"
    from run_analysis_total [of K A ops ?cx tok "pr_inputs p" c] obtain r c' where
      "run_analysis K A ops ?cx tok (pr_inputs p) c r c'" by blast
    with Inr Some show ?thesis by (cases r) (blast intro: evaluates.failed evaluates.assessed)+
  qed
qed

section \<open>Properties\<close>

text \<open>
  C1. Evaluation is deterministic and means what the reference says, as long as no two of the files
  involved share a fact key and differ in their analysis (the key leaves out the path, so this is a
  condition on the request). With a memory cache whose entries are right for a set of such files,
  whatever else the cache holds and however the workers interleave, the result of an evaluation has
  the status, diagnostics and coverage of the reference evaluation; only when a token signals a
  cancellation to the preparation or to a worker may it instead be marked cancelled, or fail with the
  error of one of its inputs. The cache's entries are right for the files afterwards.
\<close>

theorem evaluation_agrees:
  assumes "analyzers_cooperate A" and "request_wf K request" and "evaluation_files request \<subseteq> F"
    and "no_key_conflict K A (rq_limits request) (opts (rq_limits request)) F" and "memory_inv c"
    and "\<forall>k f. memory_view c k = Some f \<longrightarrow> good_entry K A (rq_limits request) (opts (rq_limits request)) F k f"
    and "evaluates K A (memory_ops to_vec) (\<lambda>l. Some (opts l)) ptok tok ms request c r c'"
  shows "(agrees (reference_evaluation K A request) r \<or>
     ((\<exists>n. ptok n) \<or> (\<exists>i n. tok i n)) \<and>
     ((\<exists>a. r = Inr a \<and> as_status a = StatusCancelled) \<or>
      (\<exists>e input. r = Inl (AnalysisFailed e) \<and> input \<in> set (reference_inputs request) \<and>
         reference_input K A (rq_limits request) input = Inl e))) \<and>
    memory_inv c' \<and> (\<forall>k f. memory_view c' k = Some f \<longrightarrow> good_entry K A (rq_limits request) (opts (rq_limits request)) F k f)"
proof -
  have "mem.coherent (good_entry K A (rq_limits request) (opts (rq_limits request)) F) c" using assms(5,6) by (simp add: mem.coherent_def)
  from mem.evaluates_reference [OF assms(1,4,2,3) this assms(7)] show ?thesis
    by (simp add: mem.coherent_def)
qed

text \<open>
  A request with two Go files of the same bytes and language mode, hence one key; their names take
  both out of the build, so their analyses agree though they read the names.
\<close>

abbreviation engine_files :: "source_file list" where
  "engine_files \<equiv> [go_file ''a_windows.go'', go_file ''b_windows.go'']"

definition sample_request :: evaluation_request where
  "sample_request =
     \<lparr> rq_before = Some (snapshot_new plain_crates engine_files), rq_after = snapshot_new plain_crates engine_files,
       rq_scope = Workspace, rq_comparison = Introduced, rq_paths = [], rq_limits = default_rule_limits,
       rq_valid_as_of = ''now'', rq_public_fingerprint_comparison = False \<rparr>"

lemma engine_files_read:
  assumes "snapshot_read (snapshot_new plain_crates engine_files) path = Some f"
  shows "f \<in> set engine_files"
proof -
  from assms have "(path, f) \<in> set (snap_files (snapshot_new plain_crates engine_files))"
    by (auto simp: snapshot_read_def dest: map_of_SomeD)
  from snapshot_new_entry(1) [OF this] show ?thesis by simp
qed

lemma sample_request_wf: "request_wf plain_crates sample_request"
proof -
  have "limits_wf default_rule_limits"
    by (simp add: limits_wf_def default_rule_limits_def u32_max_def)
  moreover have "file_wf plain_crates f" if "f \<in> set engine_files" for f
    using that go_file_wf by auto
  ultimately show ?thesis
    using engine_files_read by (auto simp: request_wf_def sample_request_def snapshot_new_wf)
qed

lemma engine_request_sources: "evaluation_files sample_request \<subseteq> {go_file ''a_windows.go'', go_file ''b_windows.go''}"
  using engine_files_read by (auto simp: evaluation_files_def sample_request_def)

lemma sample_limits: "rq_limits sample_request = default_rule_limits"
  by (simp add: sample_request_def)

lemma new_cache_entries: "\<forall>k f. memory_view MemoryFactCache_new k = Some f \<longrightarrow> good_entry K A limits opts F k f"
  by (simp add: memory_view_def MemoryFactCache_new_def)

lemmas sample_hypotheses = sample_request_wf engine_request_sources
  windows_no_key_conflict [of "plain_options (rq_limits sample_request)", folded sample_limits] memory_inv_new new_cache_entries

theorem evaluation_agrees_witness:
  "\<exists>r c'. evaluates plain_crates plain_analyzers (memory_ops (\<lambda>_. Some [])) (\<lambda>l. Some (plain_options l))
      never_cancelled (\<lambda>_. never_cancelled) 0 sample_request MemoryFactCache_new r c' \<and>
    agrees (reference_evaluation plain_crates plain_analyzers sample_request) r \<and> memory_inv c'"
proof -
  from evaluates_total [of plain_crates plain_analyzers "memory_ops (\<lambda>_. Some [])" "\<lambda>l. Some (plain_options l)"
      never_cancelled "\<lambda>_. never_cancelled" 0 sample_request MemoryFactCache_new]
  obtain r c' where ev: "evaluates plain_crates plain_analyzers (memory_ops (\<lambda>_. Some [])) (\<lambda>l. Some (plain_options l))
      never_cancelled (\<lambda>_. never_cancelled) 0 sample_request MemoryFactCache_new r c'"
    by blast
  from evaluation_agrees [OF plain_cooperate sample_hypotheses ev] ev
  show ?thesis by (auto simp: never_cancelled_def)
qed

text \<open>
  Every evaluation request gets an answer, whatever the cache implementation answers, whatever is
  polled and however large the request.
\<close>

lemma evaluation_always_answers:
  "\<exists>r c'. evaluates K A ops to_vec ptok tok ms request c r c'"
  by (rule evaluates_total)

text \<open>
  C28. The parallel analysis cannot run forever or get stuck: any execution takes at most five
  atomic actions per input, and as long as a task is left some action is possible.
\<close>

theorem parallel_run_terminates:
  assumes "par_steps ops k (par_start K A cx tok inputs c) t"
  shows "k \<le> 5 * length inputs \<and> (ps_tasks t \<noteq> [] \<longrightarrow> (\<exists>u. par_step ops t u))"
  using par_steps_work [OF assms par_start_work] par_progress [of t ops] by auto

theorem parallel_run_terminates_witness:
  "\<exists>u. par_step (memory_ops (\<lambda>_. None)) (par_start plain_crates plain_analyzers
      \<lparr> cx_limits = default_rule_limits, cx_parser_options = [] \<rparr> (\<lambda>_. never_cancelled)
      [\<lparr> in_path = RepoPath ''a'', in_before = None, in_after = None \<rparr>] MemoryFactCache_new) u"
  using parallel_run_terminates [OF par_steps.refl, THEN conjunct2]
  by (rule mp) (simp add: par_start_def)

text \<open>Evaluating a view against itself.\<close>

lemma self_evs:
  assumes "\<forall>e\<in>set evs. in_before (fst e) = in_after (fst e)"
  shows "before_evs K A limits evs = after_evs K A limits evs"
  unfolding before_evs_def after_evs_def by (intro arg_cong [where f = concat] map_cong) (use assms in auto)

lemma compared_self: "compared_diagnostics Introduced ds ds cont public = []"
  by (auto simp: compared_diagnostics_def public_fingerprint_difference_def intro: semantic_difference_covered)

lemma reference_self:
  assumes "rq_before request = Some (rq_after request)" and "rq_comparison request = Introduced"
    and "reference_evaluation K A request = Verdict s d c v"
  shows "d = []"
proof -
  obtain evs cont where run: "reference_run K A (rq_limits request) (reference_inputs request) = Inr evs"
    and v: "reference_verdict K A request cont evs = (s, d, c, v)"
    using assms(3) by (auto simp: reference_evaluation_def split: if_splits sum.splits prod.splits)
  have "in_before (fst e) = in_after (fst e)" if "e \<in> set evs" for e
  proof -
    have "fst e \<in> set (map fst evs)" using that by simp
    then have "fst e \<in> set (reference_inputs request)" using reference_run_events [OF run] by simp
    then show ?thesis using assms(1,2) by (auto simp: reference_inputs_def evaluation_input_of_def)
  qed
  then have "before_evs K A (rq_limits request) evs = after_evs K A (rq_limits request) evs"
    by (intro self_evs) blast
  with v assms(2) show ?thesis
    by (auto simp: reference_verdict_def Let_def compared_self split: if_splits)
qed

text \<open>
  C29. A view compared with itself introduces nothing: when the baseline is the candidate, an
  evaluation that asks for introduced findings and answers reports none, whatever the schedule and
  whatever a cache with right entries holds, unless a token signals a cancellation and the answer is
  marked cancelled. As in C1, no two files of the request share a key and differ in their analysis.
\<close>

theorem unchanged_view_introduces_nothing:
  assumes "analyzers_cooperate A" and "request_wf K request" and "evaluation_files request \<subseteq> F"
    and "no_key_conflict K A (rq_limits request) (opts (rq_limits request)) F" and "memory_inv c"
    and "\<forall>k f. memory_view c k = Some f \<longrightarrow> good_entry K A (rq_limits request) (opts (rq_limits request)) F k f"
    and "evaluates K A (memory_ops to_vec) (\<lambda>l. Some (opts l)) ptok tok ms request c (Inr a) c'"
    and "rq_before request = Some (rq_after request)" and "rq_comparison request = Introduced"
  shows "as_diagnostics a = [] \<or> (as_status a = StatusCancelled \<and> ((\<exists>n. ptok n) \<or> (\<exists>i n. tok i n)))"
proof -
  have "mem.coherent (good_entry K A (rq_limits request) (opts (rq_limits request)) F) c" using assms(5,6) by (simp add: mem.coherent_def)
  from mem.evaluates_reference [OF assms(1,4,2,3) this assms(7)]
  have "agrees (reference_evaluation K A request) (Inr a) \<or> (as_status a = StatusCancelled \<and> ((\<exists>n. ptok n) \<or> (\<exists>i n. tok i n)))" by auto
  then show ?thesis
    using reference_self [OF assms(8,9), of K A]
    by (auto simp: agrees_def split: reference_outcome.splits)
qed

text \<open>The plain analyzers never fail the run: a file is analysed or unsupported.\<close>

lemma plain_reference_opt:
  "(\<exists>x. reference_opt K plain_analyzers limits src = Inr x) \<or>
   (\<exists>m. reference_opt K plain_analyzers limits src = Inl (AnalysisUnsupported m))"
proof (cases src)
  case None
  then show ?thesis by (simp add: reference_opt_def)
next
  case (Some s)
  show ?thesis
    by (cases "hygiene_analyze K s limits"; cases "plain_go_facts s")
      (auto simp: Some reference_opt_def file_analysis_eq plain_language dest: hygiene_Inl plain_go_unsupported)
qed

lemma plain_reference_Inr: "\<exists>a. reference_input K plain_analyzers limits input = Inr a"
  using plain_reference_opt [of K limits "in_before input"] plain_reference_opt [of K limits "in_after input"]
  by (auto simp: reference_input_def settle_input_def)

lemma plain_never_fails: "reference_evaluation K plain_analyzers request \<noteq> AnalysisFails e"
proof -
  let ?f = "\<lambda>i. projr (reference_input K plain_analyzers (rq_limits request) i)"
  have "reference_input K plain_analyzers (rq_limits request) i = Inr (?f i)" for i
    using plain_reference_Inr [of K "rq_limits request" i] by auto
  then have "reference_run K plain_analyzers (rq_limits request) (reference_inputs request)
      = Inr (map (\<lambda>i. (i, ?f i)) (reference_inputs request))"
    by (intro reference_run_Inr) blast
  then show ?thesis by (simp add: reference_evaluation_def split: prod.splits)
qed

lemma evaluated_by_reference:
  assumes "request_wf K request" and "evaluation_files request \<subseteq> F"
    and "no_key_conflict K plain_analyzers (rq_limits request) (opts (rq_limits request)) F" and "memory_inv c"
    and "\<forall>k f. memory_view c k = Some f \<longrightarrow> good_entry K plain_analyzers (rq_limits request) (opts (rq_limits request)) F k f"
    and "evaluates K plain_analyzers (memory_ops to_vec) (\<lambda>l. Some (opts l)) never_cancelled (\<lambda>_. never_cancelled) ms request c r c'"
  shows "agrees (reference_evaluation K plain_analyzers request) r"
proof -
  have "mem.coherent (good_entry K plain_analyzers (rq_limits request) (opts (rq_limits request)) F) c"
    using assms(4,5) by (simp add: mem.coherent_def)
  from mem.evaluates_reference [OF plain_cooperate assms(3,1,2) this assms(6)] show ?thesis
    by (auto simp: never_cancelled_def)
qed

theorem unchanged_view_introduces_nothing_witness:
  "\<exists>a c'. evaluates plain_crates plain_analyzers (memory_ops (\<lambda>_. Some [])) (\<lambda>l. Some (plain_options l))
      never_cancelled (\<lambda>_. never_cancelled) 0 sample_request MemoryFactCache_new (Inr a) c' \<and>
    as_diagnostics a = []"
proof -
  from evaluates_total [of plain_crates plain_analyzers "memory_ops (\<lambda>_. Some [])" "\<lambda>l. Some (plain_options l)"
      never_cancelled "\<lambda>_. never_cancelled" 0 sample_request MemoryFactCache_new]
  obtain r c' where ev: "evaluates plain_crates plain_analyzers (memory_ops (\<lambda>_. Some [])) (\<lambda>l. Some (plain_options l))
      never_cancelled (\<lambda>_. never_cancelled) 0 sample_request MemoryFactCache_new r c'" by blast
  from evaluated_by_reference [OF sample_hypotheses ev]
  have "agrees (reference_evaluation plain_crates plain_analyzers sample_request) r" .
  then obtain a where "r = Inr a"
    using plain_never_fails [of plain_crates sample_request]
    by (auto simp: agrees_def split: reference_outcome.splits)
  with ev unchanged_view_introduces_nothing [OF plain_cooperate sample_hypotheses ev [unfolded \<open>r = Inr a\<close>]]
  show ?thesis by (auto simp: sample_request_def never_cancelled_def)
qed

text \<open>What a clean verdict of the reference says about every path.\<close>

lemma clean_event:
  assumes "Inr (snd e) = reference_input K A limits (fst e)" and "in_before (fst e) = None"
    and "\<not> (\<exists>p l. snd e = InputCancelled p l)"
  shows "(\<exists>g\<in>set (gap_of (snd e)). gap_path g = in_path (fst e) \<and> gap_status g = Unsupported) \<or>
    (\<exists>f facts. in_after (fst e) = Some f \<and> file_analysis K A f limits = Inr facts \<and> is_ready (snd e))"
proof (cases "snd e")
  case (Ready b a)
  with assms(1,2) have "reference_opt K A limits (in_after (fst e)) = Inr a" "in_after (fst e) \<noteq> None"
    by (auto simp: reference_input_def missing_input_def settle_input_def try_bind_def
        split: if_splits sum.splits prod.splits analysis_error.splits)
  then show ?thesis using Ready by (auto simp: reference_opt_def try_bind_Inr_iff)
next
  case (InputUnsupported p l r)
  with gap_of_path [of K A limits e] assms(1) show ?thesis by (auto simp: event_ok_def)
next
  case (InputCancelled p l)
  with assms(3) show ?thesis by blast
qed

lemma smallest_Nil: "smallest ds = [] \<Longrightarrow> ds = []"
  using length_smallest [of ds] MAX_DIAGNOSTICS_pos by (cases ds) (auto simp: min_def split: if_splits)

lemma clean_verdict:
  assumes "rq_comparison request = All" and "reference_evaluation K A request = Verdict StatusClean d c v"
  shows "d = [] \<and> (\<forall>path\<in>set (evaluation_paths request).
    (\<exists>g\<in>set (gaps c). gap_path g = path \<and> gap_status g = Unsupported) \<or>
    (\<exists>f facts. snapshot_read (rq_after request) path = Some f \<and>
       file_analysis K A f (rq_limits request) = Inr facts \<and> ff_diagnostics facts = []))"
proof -
  obtain evs cont where run: "reference_run K A (rq_limits request) (reference_inputs request) = Inr evs"
    and v: "reference_verdict K A request cont evs = (StatusClean, d, c, v)"
    using assms(2) by (auto simp: reference_evaluation_def split: if_splits sum.splits prod.splits)
  have nc: "\<not> (\<exists>e\<in>set evs. \<exists>p l. snd e = InputCancelled p l)" and d: "d = []"
    and dd: "d = map ev_diagnostic (smallest (after_evs K A (rq_limits request) evs))"
    and gs: "\<And>e g. e \<in> set evs \<Longrightarrow> g \<in> set (gap_of (snd e)) \<Longrightarrow> g \<in> set (gaps c)"
    using v assms(1)
    by (auto simp: reference_verdict_def Let_def assessment_status_of_def compared_diagnostics_def
        split: if_splits intro!: bexI [rotated])
  have none: "after_evs K A (rq_limits request) evs = []" using d dd smallest_Nil by blast
  have "(\<exists>g\<in>set (gaps c). gap_path g = path \<and> gap_status g = Unsupported) \<or>
    (\<exists>f facts. snapshot_read (rq_after request) path = Some f \<and>
       file_analysis K A f (rq_limits request) = Inr facts \<and> ff_diagnostics facts = [])"
    if "path \<in> set (evaluation_paths request)" for path
  proof -
    let ?i = "evaluation_input_of request path"
    have "?i \<in> set (map fst evs)"
      using that reference_run_events [OF run] by (simp add: reference_inputs_def)
    then obtain e where e: "e \<in> set evs" "fst e = ?i" by auto
    have ref: "Inr (snd e) = reference_input K A (rq_limits request) (fst e)"
      using reference_run_events [OF run] e(1) by simp
    have "in_before (fst e) = None" using assms(1) e(2)
      by (simp add: evaluation_input_of_def split: option.splits)
    from clean_event [OF ref this] nc e(1) consider
      (gap) g where "g \<in> set (gap_of (snd e))" "gap_path g = in_path (fst e)" "gap_status g = Unsupported"
      | (ok) f facts where "in_after (fst e) = Some f" "file_analysis K A f (rq_limits request) = Inr facts" "is_ready (snd e)"
      by blast
    then show ?thesis
    proof cases
      case gap
      with gs [OF e(1) gap(1)] e(2) have "g \<in> set (gaps c)" "gap_path g = path" "gap_status g = Unsupported"
        by (simp_all add: evaluation_input_of_def)
      then show ?thesis by blast
    next
      case ok
      have "file_evs K A (rq_limits request) (in_after (fst e)) = []"
        using none e(1) ok(3) by (auto simp: after_evs_def)
      then have "ff_diagnostics facts = []" using ok by (simp add: file_evs_def evaluated_list_def)
      with ok e(2) show ?thesis by (auto simp: evaluation_input_of_def)
    qed
  qed
  with d show ?thesis by blast
qed

text \<open>
  C8. A clean verdict can be relied on: when an evaluation that asks for all findings (the comparison \<open>All\<close>) ends
  clean, it reports nothing, and every requested path was either analysed without a single diagnostic or is listed as
  unsupported. As in C1, no two files of the request share a key and differ in their analysis, and the entries of the
  cache are right for them.
\<close>

theorem clean_means_checked:
  assumes "analyzers_cooperate A" and "request_wf K request" and "evaluation_files request \<subseteq> F"
    and "no_key_conflict K A (rq_limits request) (opts (rq_limits request)) F" and "memory_inv c"
    and "\<forall>k f. memory_view c k = Some f \<longrightarrow> good_entry K A (rq_limits request) (opts (rq_limits request)) F k f"
    and "evaluates K A (memory_ops to_vec) (\<lambda>l. Some (opts l)) ptok tok ms request c (Inr a) c'"
    and "rq_comparison request = All" and "as_status a = StatusClean"
  shows "as_diagnostics a = [] \<and> (\<forall>path\<in>set (evaluation_paths request).
    (\<exists>g\<in>set (gaps (as_coverage a)). gap_path g = path \<and> gap_status g = Unsupported) \<or>
    (\<exists>f facts. snapshot_read (rq_after request) path = Some f \<and>
       file_analysis K A f (rq_limits request) = Inr facts \<and> ff_diagnostics facts = []))"
proof -
  have "mem.coherent (good_entry K A (rq_limits request) (opts (rq_limits request)) F) c" using assms(5,6) by (simp add: mem.coherent_def)
  from mem.evaluates_reference [OF assms(1,4,2,3) this assms(7)] assms(9)
  have "agrees (reference_evaluation K A request) (Inr a)" by auto
  with assms(9) have "reference_evaluation K A request =
      Verdict StatusClean (as_diagnostics a) (as_coverage a) (as_valid_as_of a)"
    by (auto simp: agrees_def split: reference_outcome.splits)
  from clean_verdict [OF assms(8) this] show ?thesis .
qed

definition all_request :: evaluation_request where
  "all_request = sample_request\<lparr> rq_before := None, rq_comparison := All \<rparr>"

lemma all_request_wf: "request_wf plain_crates all_request"
  using sample_request_wf by (simp add: request_wf_def all_request_def sample_request_def)

lemma all_request_files: "evaluation_files all_request \<subseteq> {go_file ''a_windows.go'', go_file ''b_windows.go''}"
  using engine_request_sources by (auto simp: evaluation_files_def all_request_def sample_request_def)

lemma all_limits: "rq_limits all_request = default_rule_limits"
  by (simp add: all_request_def sample_request_def)

lemmas all_hypotheses = all_request_wf all_request_files
  windows_no_key_conflict [of "plain_options (rq_limits all_request)", folded all_limits] memory_inv_new new_cache_entries

lemma engine_file_facts:
  assumes "f \<in> set engine_files"
  shows "file_analysis plain_crates plain_analyzers f default_rule_limits = Inr inactive_facts"
  using assms by (auto simp: go_file_analysis windows_files)

lemma engine_files_snapshot:
  "snap_files (snapshot_new plain_crates engine_files) =
     [(RepoPath ''a_windows.go'', go_file ''a_windows.go''), (RepoPath ''b_windows.go'', go_file ''b_windows.go'')]"
  by (simp add: snapshot_new_def bt_collect_def Let_def less_repo_path_def)

lemma all_request_clean:
  "\<exists>c v. reference_evaluation plain_crates plain_analyzers all_request = Verdict StatusClean [] c v"
proof -
  let ?a = "RepoPath ''a_windows.go''" and ?b = "RepoPath ''b_windows.go''"
  let ?i = "\<lambda>p. \<lparr> in_path = RepoPath p, in_before = None, in_after = Some (go_file p) \<rparr>"
  have paths: "evaluation_paths all_request = [?a, ?b]"
    by (simp add: evaluation_paths_def all_request_def sample_request_def snapshot_paths_def engine_files_snapshot
        bs_extend_def Let_def less_repo_path_def)
  have inp: "evaluation_input_of all_request ?a = ?i ''a_windows.go''" "evaluation_input_of all_request ?b = ?i ''b_windows.go''"
    by (simp_all add: evaluation_input_of_def all_request_def sample_request_def snapshot_read_def engine_files_snapshot)
  have lim: "rq_limits all_request = default_rule_limits" "rq_comparison all_request = All"
    by (simp_all add: all_request_def sample_request_def)
  have facts: "file_analysis plain_crates plain_analyzers (go_file p) default_rule_limits = Inr inactive_facts"
    if "go_file p \<in> set engine_files" for p using engine_file_facts [OF that] .
  have none: "ff_diagnostics inactive_facts = []"
    by (simp add: inactive_facts_def active_facts_def default_file_facts_def)
  have ref: "reference_input plain_crates plain_analyzers default_rule_limits (?i p) =
      Inr (Ready None (Some (materialize plain_crates (go_file p) inactive_facts)))" if "go_file p \<in> set engine_files" for p
    by (simp add: reference_input_def reference_opt_def facts [OF that] settle_input_def)
  let ?evs = "[(?i ''a_windows.go'', Ready None (Some (materialize plain_crates (go_file ''a_windows.go'') inactive_facts))),
    (?i ''b_windows.go'', Ready None (Some (materialize plain_crates (go_file ''b_windows.go'') inactive_facts)))]"
  have evs: "after_evs plain_crates plain_analyzers default_rule_limits ?evs = []"
    "before_evs plain_crates plain_analyzers default_rule_limits ?evs = []"
    by (simp_all add: after_evs_def before_evs_def file_evs_def facts evaluated_list_def none)
  have size: "total_bytes all_request [?a, ?b] \<le> MAX_TOTAL_SOURCE_BYTES"
    by (simp add: total_bytes_def inp byte_count_def opt_len_def MAX_TOTAL_SOURCE_BYTES_def sat_add_def usize_max_def)
  show ?thesis
    using size
    by (simp add: reference_evaluation_def reference_inputs_def paths inp lim ref reference_verdict_def evs
        compared_diagnostics_def smallest_def assessment_status_of_def has_coverage_def Let_def MAX_FILES_def)
qed

theorem clean_means_checked_witness:
  "\<exists>a c'. evaluates plain_crates plain_analyzers (memory_ops (\<lambda>_. Some [])) (\<lambda>l. Some (plain_options l))
      never_cancelled (\<lambda>_. never_cancelled) 0 all_request MemoryFactCache_new (Inr a) c' \<and>
    as_status a = StatusClean \<and> as_diagnostics a = []"
proof -
  from evaluates_total [of plain_crates plain_analyzers "memory_ops (\<lambda>_. Some [])" "\<lambda>l. Some (plain_options l)"
      never_cancelled "\<lambda>_. never_cancelled" 0 all_request MemoryFactCache_new]
  obtain r c' where ev: "evaluates plain_crates plain_analyzers (memory_ops (\<lambda>_. Some [])) (\<lambda>l. Some (plain_options l))
      never_cancelled (\<lambda>_. never_cancelled) 0 all_request MemoryFactCache_new r c'" by blast
  from evaluated_by_reference [OF all_hypotheses ev] all_request_clean obtain a where "r = Inr a" "as_status a = StatusClean"
    by (auto simp: agrees_def)
  with ev clean_means_checked [OF plain_cooperate all_hypotheses ev [unfolded \<open>r = Inr a\<close>]]
  show ?thesis by (auto simp: all_request_def)
qed

end
