(* ===== verification/Winnow.thy ===== *)
theory Winnow
  imports DataModel
begin

text \<open>
  Fingerprints of source tokens (\<^verbatim>\<open>analysis/dedup.rs\<close>): digests of callable bodies, and winnowed
  anchors of token regions. A token sequence is hashed in windows of \<open>DEDUP_REGION_KGRAM_TOKENS\<close>
  tokens by two rolling hashes; of every \<open>DEDUP_REGION_WINNOW_SPAN\<close> consecutive window hashes the
  rightmost smallest is an anchor. Hash arithmetic wraps, so it is arithmetic on \<^typ>\<open>64 word\<close>. The
  encoder of the \<^verbatim>\<open>base64\<close> crate is a parameter.

  The main lemmas: the rolling hashes are the hashes of the windows; the deque holds the suffix
  minima of the span; the anchors are the selections of a reference definition; and two files that
  share enough consecutive tokens share an anchor there.
\<close>

unbundle bit_operations_syntax

section \<open>Order of callable fingerprints\<close>

fun callable_kind_index :: "callable_kind \<Rightarrow> nat" where
  "callable_kind_index Function = 0"
| "callable_kind_index Method = 1"
| "callable_kind_index Arrow = 2"
| "callable_kind_index Closure = 3"
| "callable_kind_index Lambda = 4"

lemma callable_kind_index_inject [simp]: "callable_kind_index a = callable_kind_index b \<longleftrightarrow> a = b"
  by (cases a; cases b) simp_all

instantiation callable_kind :: linorder
begin

definition less_eq_callable_kind :: "callable_kind \<Rightarrow> callable_kind \<Rightarrow> bool" where
  "a \<le> b \<longleftrightarrow> callable_kind_index a \<le> callable_kind_index b"

definition less_callable_kind :: "callable_kind \<Rightarrow> callable_kind \<Rightarrow> bool" where
  "a < b \<longleftrightarrow> callable_kind_index a < callable_kind_index b"

instance
  by standard (auto simp: less_eq_callable_kind_def less_callable_kind_def)

end

definition position_key :: "'a position_scheme \<Rightarrow> _" where
  "position_key e = (pos_line e, pos_column e, pos_byte e, position.more e)"

lemma position_key_inject [simp]: "position_key a = position_key b \<longleftrightarrow> a = b"
  by (cases a; cases b) (auto simp: position_key_def)

instantiation position_ext :: (linorder) linorder
begin

definition less_eq_position_ext :: "'a position_ext \<Rightarrow> 'a position_ext \<Rightarrow> bool" where
  "a \<le> b \<longleftrightarrow> position_key a \<le> position_key b"

definition less_position_ext :: "'a position_ext \<Rightarrow> 'a position_ext \<Rightarrow> bool" where
  "a < b \<longleftrightarrow> position_key a < position_key b"

instance
  by standard (auto simp: less_eq_position_ext_def less_position_ext_def less_le)

end

definition source_range_key :: "'a source_range_scheme \<Rightarrow> _" where
  "source_range_key e = (range_start e, range_end e, source_range.more e)"

lemma source_range_key_inject [simp]: "source_range_key a = source_range_key b \<longleftrightarrow> a = b"
  by (cases a; cases b) (auto simp: source_range_key_def)

instantiation source_range_ext :: (linorder) linorder
begin

definition less_eq_source_range_ext :: "'a source_range_ext \<Rightarrow> 'a source_range_ext \<Rightarrow> bool" where
  "a \<le> b \<longleftrightarrow> source_range_key a \<le> source_range_key b"

definition less_source_range_ext :: "'a source_range_ext \<Rightarrow> 'a source_range_ext \<Rightarrow> bool" where
  "a < b \<longleftrightarrow> source_range_key a < source_range_key b"

instance
  by standard (auto simp: less_eq_source_range_ext_def less_source_range_ext_def less_le)

end

definition callable_fingerprint_key :: "'a callable_fingerprint_scheme \<Rightarrow> _" where
  "callable_fingerprint_key e = (cf_kind e, cf_range e, cf_token_count e, cf_token_line_count e, cf_digest e, callable_fingerprint.more e)"

lemma callable_fingerprint_key_inject [simp]: "callable_fingerprint_key a = callable_fingerprint_key b \<longleftrightarrow> a = b"
  by (cases a; cases b) (auto simp: callable_fingerprint_key_def)

instantiation callable_fingerprint_ext :: (linorder) linorder
begin

definition less_eq_callable_fingerprint_ext :: "'a callable_fingerprint_ext \<Rightarrow> 'a callable_fingerprint_ext \<Rightarrow> bool" where
  "a \<le> b \<longleftrightarrow> callable_fingerprint_key a \<le> callable_fingerprint_key b"

definition less_callable_fingerprint_ext :: "'a callable_fingerprint_ext \<Rightarrow> 'a callable_fingerprint_ext \<Rightarrow> bool" where
  "a < b \<longleftrightarrow> callable_fingerprint_key a < callable_fingerprint_key b"

instance
  by standard (auto simp: less_eq_callable_fingerprint_ext_def less_callable_fingerprint_ext_def less_le)

end

section \<open>Callable fingerprints\<close>

definition FINGERPRINT_DOMAIN :: bytes where "FINGERPRINT_DOMAIN = ''dedup-callable-body/v1''"
definition TOKEN_HASH_SEED_ONE :: "64 word" where "TOKEN_HASH_SEED_ONE = 0xa0761d6478bd642f"
definition TOKEN_HASH_SEED_TWO :: "64 word" where "TOKEN_HASH_SEED_TWO = 0xe7037ed1a0b428db"
definition ROLLING_BASE_ONE :: "64 word" where "ROLLING_BASE_ONE = 0x9e3779b185ebca87"
definition ROLLING_BASE_TWO :: "64 word" where "ROLLING_BASE_TWO = 0xc2b2ae3d27d4eb4f"

record fingerprint_token =
  tk_tag :: byte
  tk_text :: bytes
  tk_line :: nat
  tk_counted :: bool
  tk_start_byte :: nat
  tk_end_byte :: nat

definition encode_component :: "bytes \<Rightarrow> byte \<Rightarrow> bytes \<Rightarrow> bytes" where
  "encode_component output tag text = output @ [tag] @ be_bytes 4 (to_u32 (length text)) @ text"

text \<open>The loop of \<^verbatim>\<open>fingerprint\<close>: encoded bytes, tokens, lines with tokens and the prior line.\<close>

fun fingerprint_loop :: "fingerprint_token list \<Rightarrow> bytes \<Rightarrow> nat \<Rightarrow> nat \<Rightarrow> nat option \<Rightarrow> bytes \<times> nat \<times> nat" where
  "fingerprint_loop [] encoded token_count line_count prior = (encoded, token_count, line_count)"
| "fingerprint_loop (t # ts) encoded token_count line_count prior =
     (let token_count' = (if tk_counted t then sat_add token_count 1 else token_count);
          fresh = (tk_counted t \<and> prior \<noteq> Some (tk_line t));
          line_count' = (if fresh then sat_add line_count 1 else line_count);
          prior' = (if fresh then Some (tk_line t) else prior)
      in fingerprint_loop ts
           (encoded @ [tk_tag t] @ be_bytes 4 (to_u32 (length (tk_text t))) @ tk_text t)
           token_count' line_count' prior')"

definition fingerprint :: "crates \<Rightarrow> bytes \<Rightarrow> callable_kind \<Rightarrow> source_range \<Rightarrow> fingerprint_token list \<Rightarrow> callable_fingerprint option" where
  "fingerprint K language_domain kind rng tokens =
     (case fingerprint_loop tokens [] 0 0 None of
        (encoded, token_count, line_count) \<Rightarrow>
          if token_count < MIN_DEDUP_CALLABLE_TOKENS then None
          else Some \<lparr> cf_kind = kind, cf_range = rng, cf_token_count = to_u32 token_count,
                      cf_token_line_count = to_u32 line_count,
                      cf_digest = hex_encode K (hash_domain K FINGERPRINT_DOMAIN [language_domain, encoded]) \<rparr>)"

record fingerprint_collector =
  fcol_callables :: "callable_fingerprint list"
  fcol_truncated :: bool

definition fcol_default :: fingerprint_collector where
  "fcol_default = \<lparr> fcol_callables = [], fcol_truncated = False \<rparr>"

definition fcol_push :: "fingerprint_collector \<Rightarrow> callable_fingerprint option \<Rightarrow> fingerprint_collector" where
  "fcol_push c fp =
     (case fp of
        None \<Rightarrow> c
      | Some f \<Rightarrow>
          if length (fcol_callables c) \<ge> MAX_CALLABLE_FINGERPRINTS_PER_FILE then c\<lparr> fcol_truncated := True \<rparr>
          else c\<lparr> fcol_callables := fcol_callables c @ [f] \<rparr>)"

definition fcol_finish :: "fingerprint_collector \<Rightarrow> callable_fingerprint_facts" where
  "fcol_finish c =
     \<lparr> cff_status = (if fcol_truncated c then FTruncated else FComplete),
       cff_callables = sort (fcol_callables c) \<rparr>"

section \<open>Token hashes\<close>

definition byte_word :: "byte \<Rightarrow> 64 word" where
  "byte_word b = word_of_nat (of_char b)"

definition hash_bytes :: "64 word \<Rightarrow> bytes \<Rightarrow> 64 word \<Rightarrow> 64 word" where
  "hash_bytes state bs base =
     foldl (\<lambda>s b. s * base + byte_word b) (state * base + word_of_nat (length bs)) bs"

definition mix :: "64 word \<Rightarrow> 64 word" where
  "mix v0 =
     (let v1 = v0 XOR drop_bit 30 v0;
          v2 = v1 * 0xbf58476d1ce4e5b9;
          v3 = v2 XOR drop_bit 27 v2;
          v4 = v3 * 0x94d049bb133111eb
      in v4 XOR drop_bit 31 v4)"

type_synonym hash_pair = "64 word \<times> 64 word"

definition normalized_token_hash :: "bytes \<Rightarrow> bytes \<Rightarrow> fingerprint_token \<Rightarrow> hash_pair" where
  "normalized_token_hash language_domain prefix token =
     (let one = hash_bytes TOKEN_HASH_SEED_ONE language_domain ROLLING_BASE_ONE;
          two = hash_bytes TOKEN_HASH_SEED_TWO language_domain ROLLING_BASE_TWO;
          one = hash_bytes one prefix ROLLING_BASE_ONE;
          two = hash_bytes two prefix ROLLING_BASE_TWO;
          one = (one * ROLLING_BASE_ONE) XOR byte_word (tk_tag token);
          two = (two * ROLLING_BASE_TWO) XOR byte_word (tk_tag token);
          one = hash_bytes one (tk_text token) ROLLING_BASE_ONE;
          two = hash_bytes two (tk_text token) ROLLING_BASE_TWO
      in (mix one, mix two))"

text \<open>The loop of \<^verbatim>\<open>wrapping_power\<close>.\<close>

fun wrapping_power :: "64 word \<Rightarrow> nat \<Rightarrow> 64 word" where
  "wrapping_power base 0 = 1"
| "wrapping_power base (Suc n) = wrapping_power base n * base"

section \<open>The winnower\<close>

record winnower =
  wn_token_window :: "hash_pair list"
  wn_minima :: "(nat \<times> hash_pair) list"
  wn_hash_one :: "64 word"
  wn_hash_two :: "64 word"
  wn_kgram_count :: nat
  wn_previous_selection :: "nat option"
  wn_anchors :: "region_fingerprint list"

definition winnower_default :: winnower where
  "winnower_default =
     \<lparr> wn_token_window = [], wn_minima = [], wn_hash_one = 0, wn_hash_two = 0, wn_kgram_count = 0,
       wn_previous_selection = None, wn_anchors = [] \<rparr>"

text \<open>\<^verbatim>\<open>while back().is_some_and(p) { pop_back() }\<close> and the same at the front.\<close>

definition pop_back_while :: "('a \<Rightarrow> bool) \<Rightarrow> 'a list \<Rightarrow> 'a list" where
  "pop_back_while p xs = rev (dropWhile p (rev xs))"

definition pop_front_while :: "('a \<Rightarrow> bool) \<Rightarrow> 'a list \<Rightarrow> 'a list" where
  "pop_front_while p xs = dropWhile p xs"

definition anchor_of :: "nat \<Rightarrow> hash_pair \<Rightarrow> region_fingerprint" where
  "anchor_of selected h = \<lparr> hash_one = fst h, hash_two = snd h, token_index = to_u32 selected \<rparr>"

definition observe_kgram :: "winnower \<Rightarrow> bool \<times> winnower" where
  "observe_kgram w =
     (let index = wn_kgram_count w;
          hash = (wn_hash_one w, wn_hash_two w);
          minima = pop_back_while (\<lambda>e. snd e \<ge> hash) (wn_minima w) @ [(index, hash)];
          minima = pop_front_while (\<lambda>e. sat_add (fst e) DEDUP_REGION_WINNOW_SPAN \<le> index) minima;
          w = w\<lparr> wn_kgram_count := sat_add index 1, wn_minima := minima \<rparr>
      in if index + 1 < DEDUP_REGION_WINNOW_SPAN then (True, w)
         else case minima of
                [] \<Rightarrow> (False, w)
              | (selected, selected_hash) # _ \<Rightarrow>
                  if wn_previous_selection w = Some selected then (True, w)
                  else let w = w\<lparr> wn_previous_selection := Some selected \<rparr>
                       in if length (wn_anchors w) \<ge> MAX_REGION_FINGERPRINTS_PER_FILE then (False, w)
                          else (True, w\<lparr> wn_anchors := wn_anchors w @ [anchor_of selected selected_hash] \<rparr>))"

definition winnower_push :: "winnower \<Rightarrow> hash_pair \<Rightarrow> bool \<times> winnower" where
  "winnower_push w token =
     (if length (wn_token_window w) < DEDUP_REGION_KGRAM_TOKENS
      then let w = w\<lparr> wn_hash_one := wn_hash_one w * ROLLING_BASE_ONE + fst token,
                      wn_hash_two := wn_hash_two w * ROLLING_BASE_TWO + snd token,
                      wn_token_window := wn_token_window w @ [token] \<rparr>
           in if length (wn_token_window w) < DEDUP_REGION_KGRAM_TOKENS then (True, w) else observe_kgram w
      else case wn_token_window w of
             [] \<Rightarrow> (False, w)
           | previous # window \<Rightarrow>
               observe_kgram (w\<lparr>
                 wn_token_window := window @ [token],
                 wn_hash_one := wn_hash_one w * ROLLING_BASE_ONE + fst token
                   - fst previous * wrapping_power ROLLING_BASE_ONE DEDUP_REGION_KGRAM_TOKENS,
                 wn_hash_two := wn_hash_two w * ROLLING_BASE_TWO + snd token
                   - snd previous * wrapping_power ROLLING_BASE_TWO DEDUP_REGION_KGRAM_TOKENS \<rparr>))"

section \<open>Region fingerprints\<close>

definition u16_max :: nat where "u16_max = 65535"

definition truncated_regions :: region_fingerprint_facts where
  "truncated_regions = default_region_fingerprint_facts\<lparr> rff_status := FTruncated \<rparr>"

text \<open>The record of a counted token with the uncounted components before it.\<close>

definition token_record :: "bytes \<Rightarrow> fingerprint_token \<Rightarrow> bytes" where
  "token_record pending t =
     be_bytes 4 (tk_start_byte t) @ be_bytes 4 (tk_end_byte t) @ [tk_tag t] @ be_bytes 2 (length pending) @ pending"

text \<open>The loop of \<^verbatim>\<open>region_fingerprints\<close>; \<^term>\<open>None\<close> is the early return of truncated regions.\<close>

fun region_loop :: "bytes \<Rightarrow> fingerprint_token list \<Rightarrow> bytes \<Rightarrow> bytes \<Rightarrow> nat \<Rightarrow> winnower \<Rightarrow> (bytes \<times> nat \<times> winnower) option" where
  "region_loop domain [] encoded pending token_count w = Some (encoded, token_count, w)"
| "region_loop domain (t # ts) encoded pending token_count w =
     (if \<not> tk_counted t then
        let pending = encode_component pending (tk_tag t) (tk_text t)
        in if length pending > u16_max then None
           else region_loop domain ts encoded pending token_count w
      else if tk_end_byte t < tk_start_byte t then None
      else if length pending > u16_max then None
      else case winnower_push w (normalized_token_hash domain pending t) of
             (ok, w') \<Rightarrow>
               if \<not> ok then None
               else region_loop domain ts (encoded @ token_record pending t) [] (sat_add token_count 1) w')"

definition region_fingerprints :: "(bytes \<Rightarrow> bytes) \<Rightarrow> bytes \<Rightarrow> fingerprint_token list \<Rightarrow> region_fingerprint_facts" where
  "region_fingerprints base64_encode domain tokens =
     (case region_loop domain tokens [] [] 0 winnower_default of
        None \<Rightarrow> truncated_regions
      | Some (encoded, token_count, w) \<Rightarrow>
          \<lparr> rff_status = FComplete, rff_token_count = to_u32 token_count,
            rff_encoded_tokens = base64_encode encoded, rff_anchors = wn_anchors w \<rparr>)"

section \<open>The reference definition\<close>

text \<open>The hash of a token window, and the pair of hashes of the window at a position.\<close>

definition khash :: "64 word \<Rightarrow> 64 word list \<Rightarrow> 64 word" where
  "khash base ts = foldl (\<lambda>h t. h * base + t) 0 ts"

definition kgram :: "hash_pair list \<Rightarrow> nat \<Rightarrow> hash_pair" where
  "kgram ts i =
     (khash ROLLING_BASE_ONE (map fst (take DEDUP_REGION_KGRAM_TOKENS (drop i ts))),
      khash ROLLING_BASE_TWO (map snd (take DEDUP_REGION_KGRAM_TOKENS (drop i ts))))"

definition kgrams :: "hash_pair list \<Rightarrow> nat" where
  "kgrams ts = length ts + 1 - DEDUP_REGION_KGRAM_TOKENS"

text \<open>The rightmost smallest of the hashes of a span, as the first position whose hash is below all
  later ones, and the selections of all spans.\<close>

definition suffix_minima :: "(nat \<Rightarrow> hash_pair) \<Rightarrow> nat \<Rightarrow> nat list" where
  "suffix_minima h m = filter (\<lambda>i. \<forall>j\<in>{i<..<m}. h i < h j) [m - DEDUP_REGION_WINNOW_SPAN..<m]"

definition select :: "(nat \<Rightarrow> hash_pair) \<Rightarrow> nat \<Rightarrow> nat" where
  "select h i = hd (suffix_minima h (i + DEDUP_REGION_WINNOW_SPAN))"

definition selections :: "(nat \<Rightarrow> hash_pair) \<Rightarrow> nat \<Rightarrow> nat list" where
  "selections h m = remdups_adj (map (select h) [0..<m + 1 - DEDUP_REGION_WINNOW_SPAN])"

definition reference_anchors :: "hash_pair list \<Rightarrow> region_fingerprint list" where
  "reference_anchors ts = map (\<lambda>i. anchor_of i (kgram ts i)) (selections (kgram ts) (kgrams ts))"

lemma span_pos [simp]: "0 < DEDUP_REGION_WINNOW_SPAN"
  by (simp add: DEDUP_REGION_WINNOW_SPAN_def)

lemma kgram_pos [simp]: "0 < DEDUP_REGION_KGRAM_TOKENS"
  by (simp add: DEDUP_REGION_KGRAM_TOKENS_def)

subsection \<open>Rolling hashes\<close>

lemma khash_snoc [simp]: "khash base (ts @ [t]) = khash base ts * base + t"
  by (simp add: khash_def)

lemma khash_Cons: "khash base (t # ts) = t * base ^ length ts + khash base ts"
proof (induction ts rule: rev_induct)
  case (snoc u ts)
  have "khash base (t # ts @ [u]) = khash base (t # ts) * base + u"
    using khash_snoc [of base "t # ts" u] by simp
  with snoc show ?case by (simp add: algebra_simps)
qed (simp add: khash_def)

lemma wrapping_power_eq: "wrapping_power base n = base ^ n"
  by (induction n) (simp_all add: mult.commute)

lemma khash_roll:
  "khash base (p # ts) * base + t - p * wrapping_power base (Suc (length ts)) = khash base (ts @ [t])"
  by (simp add: khash_Cons wrapping_power_eq algebra_simps)

subsection \<open>The deque\<close>

lemma dropWhile_filter:
  "sorted_wrt (\<lambda>x y. p y \<longrightarrow> p x) xs \<Longrightarrow> dropWhile p xs = filter (\<lambda>x. \<not> p x) xs"
proof (induction xs)
  case (Cons x xs)
  show ?case
  proof (cases "p x")
    case False
    then have "filter (\<lambda>y. \<not> p y) xs = xs" using Cons.prems by (auto simp: filter_id_conv)
    with False show ?thesis by simp
  qed (use Cons in simp)
qed simp

lemma pop_back_filter:
  "sorted_wrt (\<lambda>x y. p x \<longrightarrow> p y) xs \<Longrightarrow> pop_back_while p xs = filter (\<lambda>x. \<not> p x) xs"
  unfolding pop_back_while_def by (subst dropWhile_filter) (auto simp: sorted_wrt_rev rev_filter)

definition deque :: "(nat \<Rightarrow> hash_pair) \<Rightarrow> nat \<Rightarrow> (nat \<times> hash_pair) list" where
  "deque h m = map (\<lambda>i. (i, h i)) (suffix_minima h m)"

lemma suffix_minima_sorted: "sorted_wrt (\<lambda>i j. i < j \<and> h i < h j) (suffix_minima h m)"
proof -
  have "sorted_wrt (<) (suffix_minima h m)" by (simp add: suffix_minima_def sorted_wrt_filter)
  then show ?thesis by (rule sorted_wrt_mono_rel [rotated]) (auto simp: suffix_minima_def)
qed

lemma upt_recent:
  "filter (\<lambda>i. \<not> i + DEDUP_REGION_WINNOW_SPAN \<le> m) [m - DEDUP_REGION_WINNOW_SPAN..<Suc m]
   = [Suc m - DEDUP_REGION_WINNOW_SPAN..<Suc m]"
proof (cases "DEDUP_REGION_WINNOW_SPAN \<le> m")
  case True
  then have "[m - DEDUP_REGION_WINNOW_SPAN..<Suc m] = (m - DEDUP_REGION_WINNOW_SPAN) # [Suc m - DEDUP_REGION_WINNOW_SPAN..<Suc m]"
    by (simp add: upt_conv_Cons Suc_diff_le del: upt_Suc)
  with True show ?thesis by (auto simp: filter_id_conv simp del: upt_Suc)
next
  case False
  then have "m - DEDUP_REGION_WINNOW_SPAN = Suc m - DEDUP_REGION_WINNOW_SPAN" by simp
  with False show ?thesis by (auto simp: filter_id_conv simp del: upt_Suc)
qed

lemma deque_step:
  "pop_front_while (\<lambda>e. fst e + DEDUP_REGION_WINNOW_SPAN \<le> m)
     (pop_back_while (\<lambda>e. h m \<le> snd e) (deque h m) @ [(m, h m)]) = deque h (Suc m)"
proof -
  let ?S = DEDUP_REGION_WINNOW_SPAN and ?f = "\<lambda>i. (i, h i)"
  have "sorted_wrt (\<lambda>x y. h m \<le> snd x \<longrightarrow> h m \<le> snd y) (deque h m)"
    unfolding deque_def sorted_wrt_map
    by (rule sorted_wrt_mono_rel [OF _ suffix_minima_sorted]) auto
  then have "pop_back_while (\<lambda>e. h m \<le> snd e) (deque h m) = map ?f (filter (\<lambda>i. h i < h m) (suffix_minima h m))"
    by (simp add: pop_back_filter deque_def filter_map o_def not_le)
  also have "\<dots> @ [(m, h m)] = map ?f (filter (\<lambda>i. \<forall>j\<in>{i<..<Suc m}. h i < h j) [m - ?S..<Suc m])"
  proof -
    have "filter (\<lambda>i. h i < h m) (suffix_minima h m) = filter (\<lambda>i. \<forall>j\<in>{i<..<Suc m}. h i < h j) [m - ?S..<m]"
      unfolding suffix_minima_def filter_filter by (rule filter_cong) (auto simp: less_Suc_eq)
    then show ?thesis by auto
  qed
  finally have kept: "pop_back_while (\<lambda>e. h m \<le> snd e) (deque h m) @ [(m, h m)] =
      map ?f (filter (\<lambda>i. \<forall>j\<in>{i<..<Suc m}. h i < h j) [m - ?S..<Suc m])" .
  have "sorted_wrt (\<lambda>x y. fst y + ?S \<le> m \<longrightarrow> fst x + ?S \<le> m)
      (map ?f (filter (\<lambda>i. \<forall>j\<in>{i<..<Suc m}. h i < h j) [m - ?S..<Suc m]))"
    unfolding sorted_wrt_map
    by (rule sorted_wrt_mono_rel [where P = "(<)", OF _ sorted_wrt_filter]) (simp_all del: upt_Suc)
  then have "pop_front_while (\<lambda>e. fst e + ?S \<le> m) (pop_back_while (\<lambda>e. h m \<le> snd e) (deque h m) @ [(m, h m)])
      = map ?f (filter (\<lambda>i. \<not> i + ?S \<le> m) (filter (\<lambda>i. \<forall>j\<in>{i<..<Suc m}. h i < h j) [m - ?S..<Suc m]))"
    by (simp add: kept pop_front_while_def dropWhile_filter filter_map o_def)
  also have "\<dots> = map ?f (filter (\<lambda>i. \<forall>j\<in>{i<..<Suc m}. h i < h j) (filter (\<lambda>i. \<not> i + ?S \<le> m) [m - ?S..<Suc m]))"
    by (simp only: filter_filter conj_commute)
  also have "\<dots> = map ?f (suffix_minima h (Suc m))"
    unfolding upt_recent suffix_minima_def ..
  finally show ?thesis by (simp add: deque_def)
qed

lemma suffix_minima_nonempty: "0 < m \<Longrightarrow> suffix_minima h m \<noteq> []"
proof -
  assume "0 < m"
  then have "m - 1 \<in> set (suffix_minima h m)" by (auto simp: suffix_minima_def Suc_leI intro!: diff_le_mono2)
  then show ?thesis by auto
qed

lemma deque_cong: "(\<And>i. i < m \<Longrightarrow> h i = g i) \<Longrightarrow> deque h m = deque g m"
  unfolding deque_def suffix_minima_def
  by (rule map_cong) (auto intro!: filter_cong)

subsection \<open>Selections\<close>

text \<open>The selection of a span is its rightmost smallest hash.\<close>

definition rightmost_min :: "(nat \<Rightarrow> hash_pair) \<Rightarrow> nat \<Rightarrow> nat \<Rightarrow> nat \<Rightarrow> bool" where
  "rightmost_min h a b i \<longleftrightarrow> a \<le> i \<and> i < b \<and> (\<forall>j. a \<le> j \<longrightarrow> j < b \<longrightarrow> h i \<le> h j \<and> (i < j \<longrightarrow> h i < h j))"

lemma rightmost_min_unique: "rightmost_min h a b i \<Longrightarrow> rightmost_min h a b j \<Longrightarrow> i = j"
  unfolding rightmost_min_def by (metis leD linorder_neqE_nat)

lemma filter_upt_hd:
  assumes "filter p [a..<b] \<noteq> []"
  shows "p (hd (filter p [a..<b]))" and "a \<le> hd (filter p [a..<b])" and "hd (filter p [a..<b]) < b"
    and "\<And>j. a \<le> j \<Longrightarrow> j < hd (filter p [a..<b]) \<Longrightarrow> \<not> p j"
proof -
  let ?i = "hd (filter p [a..<b])"
  have "?i \<in> set (filter p [a..<b])" using assms by (rule hd_in_set)
  then show i: "p ?i" "a \<le> ?i" "?i < b" by auto
  have "sorted_wrt (<) (filter p [a..<b])" by (simp add: sorted_wrt_filter)
  then have first: "?i \<le> j" if "j \<in> set (filter p [a..<b])" for j
    using that by (cases "filter p [a..<b]") auto
  show "\<not> p j" if "a \<le> j" "j < ?i" for j
    using first [of j] that i(3) by auto
qed

lemma select_rightmost: "rightmost_min h i (i + DEDUP_REGION_WINNOW_SPAN) (select h i)"
proof -
  let ?S = DEDUP_REGION_WINNOW_SPAN and ?p = "\<lambda>k. \<forall>j\<in>{k<..<i + DEDUP_REGION_WINNOW_SPAN}. h k < h j"
  have ne: "filter ?p [i..<i + ?S] \<noteq> []"
    using suffix_minima_nonempty [of "i + ?S" h] by (simp add: suffix_minima_def)
  have sel: "select h i = hd (filter ?p [i..<i + ?S])" by (simp add: select_def suffix_minima_def)
  note F = filter_upt_hd [OF ne, folded sel]
  have "h (select h i) \<le> h j" if "i \<le> j" "j < i + ?S" for j
    using that
  proof (induction "i + ?S - j" arbitrary: j rule: less_induct)
    case less
    show ?case
    proof (cases "j < select h i")
      case True
      then have "\<not> ?p j" by (intro F(4) less.prems(1))
      then obtain k where "j < k" "k < i + ?S" "h k \<le> h j" by (auto simp: not_less)
      moreover from this(1,2) have "i + ?S - k < i + ?S - j" by linarith
      ultimately show ?thesis using less.hyps [of k] less.prems(1) by (meson order_trans less_imp_le)
    next
      case False
      then show ?thesis using F(1) less.prems by (cases "j = select h i") (auto simp: order_less_imp_le)
    qed
  qed
  with F(1-3) show ?thesis by (auto simp: rightmost_min_def)
qed

lemma select_shift:
  assumes "\<And>k. k < DEDUP_REGION_WINNOW_SPAN \<Longrightarrow> h (i + k) = g (j + k)"
  shows "select h i - i = select g j - j"
proof -
  let ?S = DEDUP_REGION_WINNOW_SPAN
  have h: "rightmost_min h i (i + ?S) (select h i)" and g: "rightmost_min g j (j + ?S) (select g j)"
    by (rule select_rightmost)+
  have "rightmost_min h i (i + ?S) (i + (select g j - j))"
  proof -
    have eq: "h (i + (k - j)) = g k" if "j \<le> k" "k < j + ?S" for k
      using assms [of "k - j"] that by simp
    have "h (i + (select g j - j)) \<le> h k \<and> (i + (select g j - j) < k \<longrightarrow> h (i + (select g j - j)) < h k)"
      if "i \<le> k" "k < i + ?S" for k
    proof -
      have k: "h k = g (j + (k - i))" using assms [of "k - i"] that by simp
      have "j + (k - i) < j + ?S" using that by simp
      then show ?thesis using g that eq [of "select g j"] unfolding rightmost_min_def k by auto
    qed
    then show ?thesis using g by (auto simp: rightmost_min_def)
  qed
  from rightmost_min_unique [OF h this] show ?thesis by simp
qed

lemma select_mono_span: "i \<le> select h i \<and> select h i < i + DEDUP_REGION_WINNOW_SPAN"
  using select_rightmost [of h i] by (simp add: rightmost_min_def)

lemma select_cong:
  assumes "\<And>k. k < i + DEDUP_REGION_WINNOW_SPAN \<Longrightarrow> h k = g k"
  shows "select h i = select g i"
proof -
  have "select h i - i = select g i - i" by (rule select_shift) (use assms in auto)
  with select_mono_span [of i h] select_mono_span [of i g] show ?thesis by linarith
qed

lemma remdups_adj_snoc:
  "remdups_adj (xs @ [x]) = (if xs \<noteq> [] \<and> last xs = x then remdups_adj xs else remdups_adj xs @ [x])"
  by (induction xs rule: remdups_adj.induct) auto

lemma selections_Suc:
  "selections h (Suc m) =
     (if Suc m < DEDUP_REGION_WINNOW_SPAN then []
      else let sel = select h (Suc m - DEDUP_REGION_WINNOW_SPAN)
           in if DEDUP_REGION_WINNOW_SPAN \<le> m \<and> select h (m - DEDUP_REGION_WINNOW_SPAN) = sel then selections h m
              else selections h m @ [sel])"
proof (cases "Suc m < DEDUP_REGION_WINNOW_SPAN")
  case False
  let ?S = DEDUP_REGION_WINNOW_SPAN
  have upt: "[0..<Suc m + 1 - ?S] = [0..<m + 1 - ?S] @ [Suc m - ?S]"
    using False by (simp add: Suc_diff_le not_less)
  have "map (select h) [0..<m + 1 - ?S] \<noteq> [] \<and> last (map (select h) [0..<m + 1 - ?S]) = select h (Suc m - ?S)
      \<longleftrightarrow> ?S \<le> m \<and> select h (m - ?S) = select h (Suc m - ?S)"
    using False by (auto simp: last_map Suc_diff_le)
  with False show ?thesis
    unfolding selections_def upt map_append list.map remdups_adj_snoc Let_def by (simp add: not_less)
qed (simp add: selections_def)

section \<open>The winnower computes the reference\<close>

fun winnow_all :: "winnower \<Rightarrow> hash_pair list \<Rightarrow> winnower option" where
  "winnow_all w [] = Some w"
| "winnow_all w (t # ts) =
     (case winnower_push w t of (ok, w') \<Rightarrow> if ok then winnow_all w' ts else None)"

lemma winnow_all_snoc:
  "winnow_all w (ts @ [t]) =
     (case winnow_all w ts of None \<Rightarrow> None
      | Some w' \<Rightarrow> (case winnower_push w' t of (ok, w'') \<Rightarrow> if ok then Some w'' else None))"
  by (induction ts arbitrary: w) (auto split: prod.splits)

definition winnower_inv :: "hash_pair list \<Rightarrow> winnower \<Rightarrow> bool" where
  "winnower_inv ts w \<longleftrightarrow>
     wn_token_window w = drop (length ts - DEDUP_REGION_KGRAM_TOKENS) ts \<and>
     wn_hash_one w = khash ROLLING_BASE_ONE (map fst (wn_token_window w)) \<and>
     wn_hash_two w = khash ROLLING_BASE_TWO (map snd (wn_token_window w)) \<and>
     wn_kgram_count w = kgrams ts \<and>
     wn_minima w = deque (kgram ts) (kgrams ts) \<and>
     wn_previous_selection w =
       (if kgrams ts < DEDUP_REGION_WINNOW_SPAN then None
        else Some (select (kgram ts) (kgrams ts - DEDUP_REGION_WINNOW_SPAN))) \<and>
     wn_anchors w = reference_anchors ts"

lemma kgram_append: "i < kgrams ts \<Longrightarrow> kgram (ts @ [t]) i = kgram ts i"
  by (simp add: kgram_def kgrams_def)

lemma selections_cong:
  "(\<And>i. i < m \<Longrightarrow> h i = g i) \<Longrightarrow> selections h m = selections g m"
  unfolding selections_def by (intro arg_cong [where f = remdups_adj] map_cong) (auto intro!: select_cong)

lemma selections_range:
  assumes "i \<in> set (selections h m)"
  shows "i < m"
proof -
  from assms obtain k where "i = select h k" "k < m + 1 - DEDUP_REGION_WINNOW_SPAN"
    by (auto simp: selections_def)
  with select_mono_span [of k h] show ?thesis by linarith
qed

lemma reference_anchors_append_short:
  assumes "length ts + 1 < DEDUP_REGION_KGRAM_TOKENS"
  shows "reference_anchors (ts @ [t]) = []" and "reference_anchors ts = []"
  using assms by (simp_all add: reference_anchors_def selections_def kgrams_def Suc_le_eq)

text \<open>One observation, when the hashes are those of the newest window.\<close>

lemma observe_kgram_spec:
  fixes ts t w
  defines "ts' \<equiv> ts @ [t]"
  assumes long: "DEDUP_REGION_KGRAM_TOKENS \<le> length ts'" "length ts' \<le> u32_max"
    and window: "wn_token_window w = drop (length ts' - DEDUP_REGION_KGRAM_TOKENS) ts'"
    and hashes: "wn_hash_one w = khash ROLLING_BASE_ONE (map fst (wn_token_window w))"
      "wn_hash_two w = khash ROLLING_BASE_TWO (map snd (wn_token_window w))"
    and count: "wn_kgram_count w = kgrams ts" and minima: "wn_minima w = deque (kgram ts) (kgrams ts)"
    and prev: "wn_previous_selection w =
       (if kgrams ts < DEDUP_REGION_WINNOW_SPAN then None
        else Some (select (kgram ts) (kgrams ts - DEDUP_REGION_WINNOW_SPAN)))"
    and anchors: "wn_anchors w = reference_anchors ts" "length (reference_anchors ts) \<le> MAX_REGION_FINGERPRINTS_PER_FILE"
  shows "case observe_kgram w of (ok, w') \<Rightarrow>
    if ok then winnower_inv ts' w' \<and> length (reference_anchors ts') \<le> MAX_REGION_FINGERPRINTS_PER_FILE
    else MAX_REGION_FINGERPRINTS_PER_FILE < length (reference_anchors ts')"
proof -
  let ?S = DEDUP_REGION_WINNOW_SPAN and ?m = "kgrams ts" and ?h = "kgram ts'"
  have m: "kgrams ts' = Suc ?m" "?m = length ts' - DEDUP_REGION_KGRAM_TOKENS"
    using long by (simp_all add: kgrams_def ts'_def)
  have bound: "?m + ?S \<le> usize_max" "Suc ?m \<le> usize_max" "\<And>i. i \<le> ?m \<Longrightarrow> i + ?S \<le> usize_max"
    using long m(2) by (simp_all add: usize_max_def u32_max_def DEDUP_REGION_WINNOW_SPAN_def)
  have same: "?h i = kgram ts i" if "i < ?m" for i
    using kgram_append [OF that] by (simp add: ts'_def)
  have hash: "(wn_hash_one w, wn_hash_two w) = ?h ?m"
    using long by (simp add: hashes window kgram_def m(2))
  have minima': "wn_minima w = deque ?h ?m"
    using deque_cong [of ?m ?h "kgram ts"] same minima by simp
  define d where "d = deque ?h (Suc ?m)"
  have "pop_front_while (\<lambda>e. sat_add (fst e) ?S \<le> ?m) (pop_back_while (\<lambda>e. ?h ?m \<le> snd e) (deque ?h ?m) @ [(?m, ?h ?m)])
      = pop_front_while (\<lambda>e. fst e + ?S \<le> ?m) (pop_back_while (\<lambda>e. ?h ?m \<le> snd e) (deque ?h ?m) @ [(?m, ?h ?m)])"
    unfolding pop_front_while_def
  proof (rule dropWhile_cong [OF refl])
    fix e assume "e \<in> set (pop_back_while (\<lambda>e. ?h ?m \<le> snd e) (deque ?h ?m) @ [(?m, ?h ?m)])"
    then have "fst e \<le> ?m"
      by (auto simp: pop_back_while_def deque_def suffix_minima_def dest!: set_dropWhileD)
    then show "(sat_add (fst e) ?S \<le> ?m) = (fst e + ?S \<le> ?m)" by (simp add: sat_add_exact bound)
  qed
  then have d: "pop_front_while (\<lambda>e. sat_add (fst e) ?S \<le> ?m)
      (pop_back_while (\<lambda>e. (wn_hash_one w, wn_hash_two w) \<le> snd e) (wn_minima w) @ [(?m, (wn_hash_one w, wn_hash_two w))]) = d"
    unfolding hash minima' d_def deque_step [symmetric] .
  have refs: "reference_anchors ts = map (\<lambda>i. anchor_of i (?h i)) (selections ?h ?m)"
    using same selections_cong [of ?m ?h "kgram ts"] by (auto simp: reference_anchors_def dest: selections_range)
  show ?thesis
  proof (cases "Suc ?m < ?S")
    case True
    then have "reference_anchors ts' = reference_anchors ts"
      by (simp add: refs reference_anchors_def m(1) selections_Suc) (simp add: selections_def Suc_le_eq)
    moreover have "observe_kgram w = (True, w\<lparr> wn_kgram_count := Suc ?m, wn_minima := d \<rparr>)"
      using True by (subst observe_kgram_def, unfold count d Let_def) (simp add: sat_add_exact bound(2))
    ultimately show ?thesis
      using True anchors(2) by (simp add: winnower_inv_def window hashes m(1) d_def prev anchors(1))
  next
    case False
    define sel where "sel = select ?h (Suc ?m - ?S)"
    have front: "d = (sel, ?h sel) # tl d"
    proof -
      have "suffix_minima ?h (Suc ?m) = sel # tl (suffix_minima ?h (Suc ?m))"
        using False suffix_minima_nonempty [of "Suc ?m" ?h] by (simp add: sel_def select_def)
      then have "deque ?h (Suc ?m) = (sel, ?h sel) # map (\<lambda>i. (i, ?h i)) (tl (suffix_minima ?h (Suc ?m)))"
        unfolding deque_def by (rule ssubst) simp
      then show ?thesis by (simp add: d_def)
    qed
    have same_sel: "select (kgram ts) (?m - ?S) = select ?h (?m - ?S)" if "?S \<le> ?m"
      using that same by (intro select_cong) simp
    have repeat: "wn_previous_selection w = Some sel \<longleftrightarrow> ?S \<le> ?m \<and> select ?h (?m - ?S) = sel"
      using same_sel by (auto simp: prev not_less)
    have new: "reference_anchors ts' =
        (if wn_previous_selection w = Some sel then reference_anchors ts else reference_anchors ts @ [anchor_of sel (?h sel)])"
      unfolding refs reference_anchors_def [of ts']
      using False by (simp add: m(1) selections_Suc repeat Let_def sel_def [symmetric])
    have "observe_kgram w = (let w1 = w\<lparr> wn_kgram_count := Suc ?m, wn_minima := d \<rparr> in
        if wn_previous_selection w = Some sel then (True, w1)
        else let w2 = w1\<lparr> wn_previous_selection := Some sel \<rparr>
             in if length (reference_anchors ts) \<ge> MAX_REGION_FINGERPRINTS_PER_FILE then (False, w2)
                else (True, w2\<lparr> wn_anchors := reference_anchors ts @ [anchor_of sel (?h sel)] \<rparr>))"
      using False by (subst observe_kgram_def, unfold count d Let_def, subst (2) front)
        (simp add: anchors(1) sat_add_exact bound(2))
    then show ?thesis
      using False anchors(2) new
      by (auto simp: Let_def winnower_inv_def window hashes m(1) d_def anchors(1) sel_def)
  qed
qed

lemma winnower_push_spec:
  assumes inv: "winnower_inv ts w" and "length ts < u32_max"
    and few: "length (reference_anchors ts) \<le> MAX_REGION_FINGERPRINTS_PER_FILE"
  shows "case winnower_push w t of (ok, w') \<Rightarrow>
    if ok then winnower_inv (ts @ [t]) w' \<and> length (reference_anchors (ts @ [t])) \<le> MAX_REGION_FINGERPRINTS_PER_FILE
    else MAX_REGION_FINGERPRINTS_PER_FILE < length (reference_anchors (ts @ [t]))"
proof -
  let ?K = DEDUP_REGION_KGRAM_TOKENS
  from inv have window: "wn_token_window w = drop (length ts - ?K) ts"
    and hashes: "wn_hash_one w = khash ROLLING_BASE_ONE (map fst (wn_token_window w))"
      "wn_hash_two w = khash ROLLING_BASE_TWO (map snd (wn_token_window w))"
    and rest: "wn_kgram_count w = kgrams ts" "wn_minima w = deque (kgram ts) (kgrams ts)"
      "wn_previous_selection w = (if kgrams ts < DEDUP_REGION_WINNOW_SPAN then None
        else Some (select (kgram ts) (kgrams ts - DEDUP_REGION_WINNOW_SPAN)))"
      "wn_anchors w = reference_anchors ts"
    by (simp_all add: winnower_inv_def)
  show ?thesis
  proof (cases "length ts < ?K")
    case short: True
    define w1 where "w1 = w\<lparr> wn_hash_one := wn_hash_one w * ROLLING_BASE_ONE + fst t,
      wn_hash_two := wn_hash_two w * ROLLING_BASE_TWO + snd t, wn_token_window := wn_token_window w @ [t] \<rparr>"
    have push: "winnower_push w t = (if Suc (length ts) < ?K then (True, w1) else observe_kgram w1)"
      using short by (simp add: winnower_push_def window w1_def Let_def)
    have w1: "wn_token_window w1 = drop (length (ts @ [t]) - ?K) (ts @ [t])"
      "wn_hash_one w1 = khash ROLLING_BASE_ONE (map fst (wn_token_window w1))"
      "wn_hash_two w1 = khash ROLLING_BASE_TWO (map snd (wn_token_window w1))"
      using short by (simp_all add: w1_def window hashes)
    show ?thesis
    proof (cases "Suc (length ts) < ?K")
      case True
      then have "winnower_inv (ts @ [t]) w1"
        using rest w1 reference_anchors_append_short(1) [of ts t] reference_anchors_append_short(2) [of ts]
        by (simp add: winnower_inv_def w1_def kgrams_def deque_def suffix_minima_def)
      with True push reference_anchors_append_short(1) [of ts t] reference_anchors_append_short(2) [of ts] show ?thesis by simp
    next
      case False
      then show ?thesis
        unfolding push using assms(2) few rest w1
        by (simp only: if_False, intro observe_kgram_spec) (simp_all add: w1_def)
    qed
  next
    case long: False
    then have size: "length (wn_token_window w) = ?K" by (simp add: window)
    then obtain p window' where pw: "wn_token_window w = p # window'"
      using kgram_pos by (cases "wn_token_window w") (auto simp del: kgram_pos)
    have len: "Suc (length window') = ?K" using size pw by simp
    define w1 where "w1 = w\<lparr> wn_token_window := window' @ [t],
      wn_hash_one := wn_hash_one w * ROLLING_BASE_ONE + fst t - fst p * wrapping_power ROLLING_BASE_ONE ?K,
      wn_hash_two := wn_hash_two w * ROLLING_BASE_TWO + snd t - snd p * wrapping_power ROLLING_BASE_TWO ?K \<rparr>"
    have push: "winnower_push w t = observe_kgram w1"
      using len by (simp add: winnower_push_def pw w1_def)
    have "drop (length (ts @ [t]) - ?K) (ts @ [t]) = drop 1 (drop (length ts - ?K) ts) @ [t]"
      using long by (simp add: Suc_diff_le Suc_leI)
    also have "\<dots> = window' @ [t]" unfolding window [symmetric] pw by simp
    finally have w1: "wn_token_window w1 = drop (length (ts @ [t]) - ?K) (ts @ [t])" by (simp add: w1_def)
    have roll: "wn_hash_one w1 = khash ROLLING_BASE_ONE (map fst (wn_token_window w1))"
      "wn_hash_two w1 = khash ROLLING_BASE_TWO (map snd (wn_token_window w1))"
      using khash_roll [of ROLLING_BASE_ONE "fst p" "map fst window'" "fst t"]
        khash_roll [of ROLLING_BASE_TWO "snd p" "map snd window'" "snd t"]
      by (simp_all add: w1_def hashes pw len del: wrapping_power.simps)
    show ?thesis
      unfolding push using assms(2) few rest w1 roll long
      by (intro observe_kgram_spec) (simp_all add: w1_def)
  qed
qed

lemma winnower_inv_default: "winnower_inv [] winnower_default"
  by (simp add: winnower_inv_def winnower_default_def khash_def kgrams_def deque_def suffix_minima_def
      reference_anchors_def selections_def Suc_le_eq)

lemma selections_mono: "length (selections h m) \<le> length (selections h (Suc m))"
  by (auto simp: selections_Suc Let_def) (simp add: selections_def)

lemma reference_anchors_mono: "length (reference_anchors ts) \<le> length (reference_anchors (ts @ [t]))"
proof -
  have "selections (kgram ts) (kgrams ts) = selections (kgram (ts @ [t])) (kgrams ts)"
    by (rule selections_cong) (simp add: kgram_append)
  moreover have "kgrams (ts @ [t]) = kgrams ts \<or> kgrams (ts @ [t]) = Suc (kgrams ts)"
    by (auto simp: kgrams_def)
  ultimately show ?thesis using selections_mono by (auto simp: reference_anchors_def)
qed

text \<open>The winnower succeeds exactly when the reference has few enough anchors, and then has them.\<close>

lemma winnow_all_spec:
  "length ts \<le> u32_max \<Longrightarrow>
   (if length (reference_anchors ts) \<le> MAX_REGION_FINGERPRINTS_PER_FILE
    then \<exists>w. winnow_all winnower_default ts = Some w \<and> winnower_inv ts w
    else winnow_all winnower_default ts = None)"
proof (induction ts rule: rev_induct)
  case Nil
  then show ?case using winnower_inv_default
    by (simp add: reference_anchors_def selections_def kgrams_def Suc_le_eq)
next
  case (snoc t ts)
  show ?case
  proof (cases "length (reference_anchors ts) \<le> MAX_REGION_FINGERPRINTS_PER_FILE")
    case True
    with snoc obtain w where "winnow_all winnower_default ts = Some w" "winnower_inv ts w" by auto
    with winnower_push_spec [OF this(2) _ True, of t] snoc.prems show ?thesis
      by (auto simp: winnow_all_snoc not_le split: prod.splits if_splits)
  next
    case False
    with reference_anchors_mono [of ts t] snoc show ?thesis by (simp add: winnow_all_snoc)
  qed
qed

section \<open>Regions of a file\<close>

text \<open>The counted tokens of a file, each with the encoded components before it.\<close>

fun counted_tokens :: "bytes \<Rightarrow> fingerprint_token list \<Rightarrow> (bytes \<times> fingerprint_token) list" where
  "counted_tokens pending [] = []"
| "counted_tokens pending (t # ts) =
     (if tk_counted t then (pending, t) # counted_tokens [] ts
      else counted_tokens (encode_component pending (tk_tag t) (tk_text t)) ts)"

definition token_hashes :: "bytes \<Rightarrow> fingerprint_token list \<Rightarrow> hash_pair list" where
  "token_hashes domain ts = map (\<lambda>(p, t). normalized_token_hash domain p t) (counted_tokens [] ts)"

text \<open>What of a counted token the comparison sees: its prefix, its tag and its text, not where it stands.\<close>

definition normalized :: "fingerprint_token list \<Rightarrow> (bytes \<times> byte \<times> bytes) list" where
  "normalized ts = map (\<lambda>(p, t). (p, tk_tag t, tk_text t)) (counted_tokens [] ts)"

lemma normalized_hash: "tk_tag t = tk_tag u \<Longrightarrow> tk_text t = tk_text u \<Longrightarrow>
    normalized_token_hash domain p t = normalized_token_hash domain p u"
  by (simp add: normalized_token_hash_def)

lemma region_loop_spec:
  assumes "region_loop domain ts encoded pending n w = Some (encoded', n', w')"
  shows "winnow_all w (map (\<lambda>(p, t). normalized_token_hash domain p t) (counted_tokens pending ts)) = Some w'"
    and "encoded' = encoded @ concat (map (\<lambda>(p, t). token_record p t) (counted_tokens pending ts))"
    and "n + length (counted_tokens pending ts) \<le> usize_max \<Longrightarrow> n' = n + length (counted_tokens pending ts)"
    and "\<And>p t. (p, t) \<in> set (counted_tokens pending ts) \<Longrightarrow> length p \<le> u16_max \<and> tk_start_byte t \<le> tk_end_byte t"
  using assms
proof (induction ts arbitrary: encoded pending n w)
  case (Cons t ts)
  {
    case 1
    then show ?case using Cons.IH(1) by (auto simp: Let_def split: if_splits prod.splits)
  next
    case 2
    then show ?case using Cons.IH(2) by (fastforce simp: Let_def split: if_splits prod.splits)
  next
    case 3
    show ?case
    proof (cases "tk_counted t")
      case True
      with 3(1) have "sat_add n 1 = Suc n" by (simp add: sat_add_exact)
      with 3 True Cons.IH(3) [where pending = "[]" and n = "Suc n"] show ?thesis
        by (auto simp: Let_def split: if_splits prod.splits)
    next
      case False
      with 3 show ?thesis
        using Cons.IH(3) [where pending = "encode_component pending (tk_tag t) (tk_text t)" and n = n]
        by (auto simp: Let_def split: if_splits)
    qed
  next
    case (4 p u)
    then show ?case using Cons.IH(4) by (fastforce simp: Let_def split: if_splits prod.splits)
  }
qed simp_all

lemma complete_anchors:
  assumes "rff_status (region_fingerprints base64 domain ts) = FComplete" and "length (token_hashes domain ts) \<le> u32_max"
  shows "rff_anchors (region_fingerprints base64 domain ts) = reference_anchors (token_hashes domain ts)"
proof -
  from assms(1) obtain encoded n w where loop: "region_loop domain ts [] [] 0 winnower_default = Some (encoded, n, w)"
    by (auto simp: region_fingerprints_def truncated_regions_def split: option.splits)
  have "winnow_all winnower_default (token_hashes domain ts) = Some w"
    using region_loop_spec(1) [OF loop] by (simp add: token_hashes_def)
  with winnow_all_spec [OF assms(2)] have "winnower_inv (token_hashes domain ts) w" by (auto split: if_splits)
  then show ?thesis by (simp add: region_fingerprints_def loop winnower_inv_def)
qed

lemma select_is_anchor:
  assumes "i + DEDUP_REGION_WINNOW_SPAN \<le> kgrams ts"
  shows "anchor_of (select (kgram ts) i) (kgram ts (select (kgram ts) i)) \<in> set (reference_anchors ts)"
proof -
  have "i < kgrams ts + 1 - DEDUP_REGION_WINNOW_SPAN" using assms by linarith
  then show ?thesis by (auto simp: reference_anchors_def selections_def)
qed

lemma shared_run_kgrams:
  assumes "\<And>k. k < n \<Longrightarrow> us ! (a + k) = vs ! (b + k)" and "a + n \<le> length us" "b + n \<le> length vs"
    and "k + DEDUP_REGION_KGRAM_TOKENS \<le> n"
  shows "kgram us (a + k) = kgram vs (b + k)"
proof -
  have "take DEDUP_REGION_KGRAM_TOKENS (drop (a + k) us) = take DEDUP_REGION_KGRAM_TOKENS (drop (b + k) vs)"
    by (rule nth_equalityI) (use assms in \<open>auto simp: add.assoc\<close>)
  then show ?thesis by (simp add: kgram_def)
qed

lemma region_loop_counted:
  assumes "\<And>t. t \<in> set ts \<Longrightarrow> tk_counted t \<and> tk_start_byte t \<le> tk_end_byte t"
    and "winnow_all w (map (normalized_token_hash domain []) ts) = Some w'"
  shows "\<exists>encoded' n'. region_loop domain ts encoded [] n w = Some (encoded', n', w')"
  using assms
proof (induction ts arbitrary: encoded n w)
  case (Cons t ts)
  then have t: "tk_counted t" "tk_start_byte t \<le> tk_end_byte t" by auto
  from Cons.prems(2) obtain w1 where push: "winnower_push w (normalized_token_hash domain [] t) = (True, w1)"
    "winnow_all w1 (map (normalized_token_hash domain []) ts) = Some w'"
    by (auto split: prod.splits if_splits)
  have "\<And>u. u \<in> set ts \<Longrightarrow> tk_counted u \<and> tk_start_byte u \<le> tk_end_byte u" using Cons.prems(1) by simp
  from Cons.IH [OF this push(2), of "encoded @ token_record [] t" "sat_add n 1"] obtain encoded' n' where
    "region_loop domain ts (encoded @ token_record [] t) [] (sat_add n 1) w1 = Some (encoded', n', w')" by blast
  with push(1) t show ?case by simp
qed simp

lemma counted_tokens_counted: "(\<And>t. t \<in> set ts \<Longrightarrow> tk_counted t) \<Longrightarrow> counted_tokens [] ts = map (Pair []) ts"
  by (induction ts) auto

lemma length_reference_anchors: "length (reference_anchors ts) \<le> length ts"
proof -
  have "length (selections h m) \<le> m" for h m
    using remdups_adj_length [of "map (select h) [0..<m + 1 - DEDUP_REGION_WINNOW_SPAN]"]
    by (simp add: selections_def DEDUP_REGION_WINNOW_SPAN_def)
  from this [of "kgram ts" "kgrams ts"] show ?thesis
    by (simp add: reference_anchors_def kgrams_def DEDUP_REGION_KGRAM_TOKENS_def)
qed

text \<open>A short file of counted tokens has complete fingerprints.\<close>

lemma short_regions_complete:
  assumes "\<And>t. t \<in> set ts \<Longrightarrow> tk_counted t \<and> tk_start_byte t \<le> tk_end_byte t"
    and "length ts \<le> MAX_REGION_FINGERPRINTS_PER_FILE"
  shows "rff_status (region_fingerprints base64 domain ts) = FComplete"
proof -
  let ?hs = "map (normalized_token_hash domain []) ts"
  have "length (reference_anchors ?hs) \<le> MAX_REGION_FINGERPRINTS_PER_FILE"
    using length_reference_anchors [of ?hs] assms(2) by simp
  moreover have "length ?hs \<le> u32_max"
    using assms(2) by (simp add: MAX_REGION_FINGERPRINTS_PER_FILE_def u32_max_def)
  ultimately obtain w where "winnow_all winnower_default ?hs = Some w"
    using winnow_all_spec [of ?hs] by auto
  from region_loop_counted [OF assms(1) this, of "[]" 0] show ?thesis by (auto simp: region_fingerprints_def)
qed

definition sample_tokens :: "nat \<Rightarrow> fingerprint_token list" where
  "sample_tokens n = map (\<lambda>i. \<lparr> tk_tag = CHR ''i'', tk_text = ''x'', tk_line = 1, tk_counted = True,
      tk_start_byte = i, tk_end_byte = i + 1 \<rparr>) [0..<n]"

lemma sample_tokens_complete:
  "n \<le> MAX_REGION_FINGERPRINTS_PER_FILE \<Longrightarrow> rff_status (region_fingerprints base64 domain (sample_tokens n)) = FComplete"
  by (rule short_regions_complete) (auto simp: sample_tokens_def)

lemma sample_tokens_length: "length (normalized (sample_tokens n)) = n"
  by (subst normalized_def, subst counted_tokens_counted) (auto simp: sample_tokens_def)

text \<open>The run that two files share is caught by the anchor selected in its first span.\<close>

lemma shared_run_anchors:
  assumes "rff_status (region_fingerprints base64 domain us) = FComplete" "length (normalized us) \<le> u32_max"
    and "rff_status (region_fingerprints base64 domain vs) = FComplete" "length (normalized vs) \<le> u32_max"
    and "\<forall>k<n. normalized us ! (a + k) = normalized vs ! (b + k)"
    and "a + n \<le> length (normalized us)" and "b + n \<le> length (normalized vs)"
    and "MIN_DEDUP_REGION_TOKENS \<le> n"
  shows "\<exists>x\<in>set (rff_anchors (region_fingerprints base64 domain us)).
    \<exists>y\<in>set (rff_anchors (region_fingerprints base64 domain vs)).
      hash_one x = hash_one y \<and> hash_two x = hash_two y \<and>
      a \<le> token_index x \<and> token_index x + DEDUP_REGION_KGRAM_TOKENS \<le> a + n \<and>
      token_index y = b + (token_index x - a)"
proof -
  let ?U = "token_hashes domain us" and ?V = "token_hashes domain vs"
  let ?K = DEDUP_REGION_KGRAM_TOKENS and ?S = DEDUP_REGION_WINNOW_SPAN
  have len: "length ?U = length (normalized us)" "length ?V = length (normalized vs)"
    by (simp_all add: token_hashes_def normalized_def)
  have run: "?U ! (a + k) = ?V ! (b + k)" if "k < n" for k
    using assms(5-7) that unfolding token_hashes_def normalized_def
    by (auto simp: case_prod_beta intro!: normalized_hash)
  have n: "?K + ?S - 1 \<le> n" using assms(8) by (simp add: MIN_DEDUP_REGION_TOKENS_def)
  have agree: "kgram ?U (a + k) = kgram ?V (b + k)" if "k < ?S" for k
    by (rule shared_run_kgrams [where n = n]) (use run assms(6,7) len that n in auto)
  define i where "i = select (kgram ?U) a"
  define j where "j = select (kgram ?V) b"
  have i: "a \<le> i" "i < a + ?S" and j: "b \<le> j" "j < b + ?S"
    using select_mono_span [of a "kgram ?U"] select_mono_span [of b "kgram ?V"] by (simp_all add: i_def j_def)
  have shift: "i - a = j - b" unfolding i_def j_def by (rule select_shift) (rule agree)
  have same: "kgram ?U i = kgram ?V j"
  proof -
    have ij: "a + (i - a) = i" "b + (i - a) = j" using i j shift by linarith+
    show ?thesis by (rule agree [of "i - a", unfolded ij]) (use i in linarith)
  qed
  have small: "i \<le> u32_max" "j \<le> u32_max"
    using i j n assms(2,4,6,7) by (simp_all add: DEDUP_REGION_KGRAM_TOKENS_def)
  have "anchor_of i (kgram ?U i) \<in> set (reference_anchors ?U)" "anchor_of j (kgram ?V j) \<in> set (reference_anchors ?V)"
    unfolding i_def j_def using n assms(6,7) len by (intro select_is_anchor; simp add: kgrams_def)+
  then have "anchor_of i (kgram ?U i) \<in> set (rff_anchors (region_fingerprints base64 domain us))"
    "anchor_of j (kgram ?V j) \<in> set (rff_anchors (region_fingerprints base64 domain vs))"
    using complete_anchors assms(1-4) len by simp_all
  then show ?thesis
    using same small i j shift n
    by (intro bexI [of _ "anchor_of i (kgram ?U i)"] bexI [of _ "anchor_of j (kgram ?V j)"])
      (simp_all add: anchor_of_def to_u32_exact)
qed

lemma complete_regions:
  assumes "rff_status (region_fingerprints base64 domain ts) = FComplete" and "length (normalized ts) \<le> u32_max"
  shows "rff_anchors (region_fingerprints base64 domain ts) = reference_anchors (token_hashes domain ts) \<and>
    length (rff_anchors (region_fingerprints base64 domain ts)) \<le> MAX_REGION_FINGERPRINTS_PER_FILE \<and>
    rff_token_count (region_fingerprints base64 domain ts) = length (normalized ts)"
proof -
  have len: "length (token_hashes domain ts) = length (normalized ts)"
    by (simp add: token_hashes_def normalized_def)
  from assms(1) obtain encoded n w where loop: "region_loop domain ts [] [] 0 winnower_default = Some (encoded, n, w)"
    by (auto simp: region_fingerprints_def truncated_regions_def split: option.splits)
  have "winnow_all winnower_default (token_hashes domain ts) = Some w"
    using region_loop_spec(1) [OF loop] by (simp add: token_hashes_def)
  with winnow_all_spec [of "token_hashes domain ts"] assms(2) len
  have "length (reference_anchors (token_hashes domain ts)) \<le> MAX_REGION_FINGERPRINTS_PER_FILE"
    by (auto split: if_splits)
  moreover have "n = length (normalized ts)"
    using region_loop_spec(3) [OF loop] assms(2) by (simp add: normalized_def usize_max_def u32_max_def)
  ultimately show ?thesis
    using complete_anchors [OF assms(1)] assms(2) len by (simp add: region_fingerprints_def loop to_u32_exact)
qed

section \<open>Properties\<close>

text \<open>
  C11. The winnowing guarantee. If two files have complete region fingerprints, and some run of at least
  \<open>MIN_DEDUP_REGION_TOKENS\<close> consecutive counted tokens of one, compared by prefix, tag and text, is
  also in the other, then the files have anchors with equal hashes at the same place of the two runs:
  a shared region of that length is never missed.
\<close>

theorem winnowing_guarantee:
  assumes "rff_status (region_fingerprints base64 domain us) = FComplete" "length (normalized us) \<le> u32_max"
    and "rff_status (region_fingerprints base64 domain vs) = FComplete" "length (normalized vs) \<le> u32_max"
    and "\<forall>k<n. normalized us ! (a + k) = normalized vs ! (b + k)"
    and "a + n \<le> length (normalized us)" and "b + n \<le> length (normalized vs)"
    and "MIN_DEDUP_REGION_TOKENS \<le> n"
  shows "\<exists>x\<in>set (rff_anchors (region_fingerprints base64 domain us)).
    \<exists>y\<in>set (rff_anchors (region_fingerprints base64 domain vs)).
      hash_one x = hash_one y \<and> hash_two x = hash_two y \<and>
      a \<le> token_index x \<and> token_index x + DEDUP_REGION_KGRAM_TOKENS \<le> a + n \<and>
      token_index y = b + (token_index x - a)"
  by (rule shared_run_anchors) (rule assms)+

theorem winnowing_guarantee_witness:
  "\<exists>x\<in>set (rff_anchors (region_fingerprints id ''node'' (sample_tokens 60))).
    \<exists>y\<in>set (rff_anchors (region_fingerprints id ''node'' (sample_tokens 60))).
      hash_one x = hash_one y \<and> hash_two x = hash_two y \<and>
      5 \<le> token_index x \<and> token_index x + DEDUP_REGION_KGRAM_TOKENS \<le> 5 + 50 \<and>
      token_index y = 5 + (token_index x - 5)"
  by (rule winnowing_guarantee)
    (simp_all add: sample_tokens_complete sample_tokens_length MAX_REGION_FINGERPRINTS_PER_FILE_def
      u32_max_def MIN_DEDUP_REGION_TOKENS_def DEDUP_REGION_KGRAM_TOKENS_def DEDUP_REGION_WINNOW_SPAN_def)

text \<open>
  C23. The streaming fingerprints equal the reference. For a file whose token count fits 32 bits,
  complete region fingerprints have exactly the reference anchors, computed from the hash of each
  token window and the rightmost smallest hash of each span, and their token count is the number of
  counted tokens; the rolling hashes and the deque of minima change nothing. There are never more
  anchors than the limit.
\<close>

theorem region_fingerprints_reference:
  assumes "rff_status (region_fingerprints base64 domain ts) = FComplete" and "length (normalized ts) \<le> u32_max"
  shows "rff_anchors (region_fingerprints base64 domain ts) = reference_anchors (token_hashes domain ts) \<and>
    length (rff_anchors (region_fingerprints base64 domain ts)) \<le> MAX_REGION_FINGERPRINTS_PER_FILE \<and>
    rff_token_count (region_fingerprints base64 domain ts) = length (normalized ts)"
  by (rule complete_regions) (rule assms)+

theorem region_fingerprints_reference_witness:
  "rff_anchors (region_fingerprints id ''node'' (sample_tokens 60)) = reference_anchors (token_hashes ''node'' (sample_tokens 60)) \<and>
   rff_token_count (region_fingerprints id ''node'' (sample_tokens 60)) = 60"
  using region_fingerprints_reference [of id "''node''" "sample_tokens 60"]
  by (simp add: sample_tokens_complete sample_tokens_length MAX_REGION_FINGERPRINTS_PER_FILE_def u32_max_def)

end
