(* ===== verification/Evidence.thy ===== *)
theory Evidence
  imports Winnow LineIndex
begin

text \<open>
  Reading back the token evidence of region fingerprints (\<^verbatim>\<open>sense/dedup/regions/evidence.rs\<close>). Facts
  come from a cache, so the reader validates what it decodes. The decoder of the \<^verbatim>\<open>base64\<close> crate is a
  parameter. Slices are given by a start and an end; a cursor is passed along.
\<close>

section \<open>Tokens\<close>

definition MIN_ENCODED_TOKEN_BYTES :: nat where "MIN_ENCODED_TOKEN_BYTES = 11"

record decoded_token =
  dt_start :: nat
  dt_end :: nat
  dt_tag :: byte
  dt_prefix :: "nat \<times> nat"

record decoded_tokens =
  dts_bytes :: bytes
  dts_tokens :: "decoded_token list"
  dts_line_starts :: "nat list"

text \<open>\<^verbatim>\<open>bytes.get(start..end)\<close> and \<^verbatim>\<open>checked_add\<close>.\<close>

definition get_range :: "'a list \<Rightarrow> nat \<Rightarrow> nat \<Rightarrow> 'a list option" where
  "get_range bs start end = (if start \<le> end \<and> end \<le> length bs then Some (take (end - start) (drop start bs)) else None)"

definition checked_add :: "nat \<Rightarrow> nat \<Rightarrow> nat option" where
  "checked_add a b = (if a + b \<le> usize_max then Some (a + b) else None)"

definition read_u32 :: "bytes \<Rightarrow> nat \<Rightarrow> (nat \<times> nat) option" where
  "read_u32 bs cursor =
     (case checked_add cursor 4 of
        None \<Rightarrow> None
      | Some end \<Rightarrow> map_option (\<lambda>v. (from_be v, end)) (get_range bs cursor end))"

definition read_u16 :: "bytes \<Rightarrow> nat \<Rightarrow> (nat \<times> nat) option" where
  "read_u16 bs cursor =
     (case checked_add cursor 2 of
        None \<Rightarrow> None
      | Some end \<Rightarrow> map_option (\<lambda>v. (from_be v, end)) (get_range bs cursor end))"

definition decode_token_record :: "bytes \<Rightarrow> nat \<Rightarrow> nat \<Rightarrow> (decoded_token \<times> nat) option" where
  "decode_token_record bs source_len cursor =
     (case read_u32 bs cursor of
        None \<Rightarrow> None
      | Some (start, cursor) \<Rightarrow>
     (case read_u32 bs cursor of
        None \<Rightarrow> None
      | Some (end, cursor) \<Rightarrow>
     (case get_at bs cursor of
        None \<Rightarrow> None
      | Some tag \<Rightarrow>
     (case read_u16 bs (sat_add cursor 1) of
        None \<Rightarrow> None
      | Some (prefix_len, cursor) \<Rightarrow>
     (case checked_add cursor prefix_len of
        None \<Rightarrow> None
      | Some prefix_end \<Rightarrow>
     (case get_range bs cursor prefix_end of
        None \<Rightarrow> None
      | Some _ \<Rightarrow>
          if start < end \<and> end \<le> source_len
          then Some (\<lparr> dt_start = start, dt_end = end, dt_tag = tag, dt_prefix = (cursor, prefix_end) \<rparr>, prefix_end)
          else None))))))"

lemma decode_token_record_progress:
  "decode_token_record bs source_len cursor = Some (token, cursor') \<Longrightarrow> cursor < cursor' \<and> cursor' \<le> length bs"
  by (auto simp: decode_token_record_def read_u32_def read_u16_def checked_add_def get_range_def
      sat_add_def get_at_def split: option.splits if_splits)

function decode_loop :: "bytes \<Rightarrow> nat \<Rightarrow> nat \<Rightarrow> bool \<Rightarrow> nat \<Rightarrow> nat \<Rightarrow> nat \<Rightarrow> decoded_token list
    \<Rightarrow> (nat \<times> decoded_token list) option" where
  "decode_loop bs source_len expected retain cursor previous_end decoded tokens =
     (if cursor < length bs then
        (case decode_token_record bs source_len cursor of
           None \<Rightarrow> None
         | Some (token, cursor') \<Rightarrow>
             if dt_start token < previous_end then None
             else let decoded' = sat_add decoded 1
                  in if decoded' > expected then None
                     else decode_loop bs source_len expected retain cursor' (dt_end token) decoded'
                            (if retain then tokens @ [token] else tokens))
      else Some (decoded, tokens))"
  by pat_completeness auto
termination
  by (relation "measure (\<lambda>(bs, source_len, expected, retain, cursor, previous_end, decoded, tokens). length bs - cursor)")
    (auto dest: decode_token_record_progress intro: diff_less_mono2)

declare decode_loop.simps [simp del]

definition decode_token_records :: "bytes \<Rightarrow> nat \<Rightarrow> nat \<Rightarrow> bool \<Rightarrow> decoded_token list option" where
  "decode_token_records bs source_len expected retain =
     (case decode_loop bs source_len expected retain 0 0 0 [] of
        None \<Rightarrow> None
      | Some (decoded, tokens) \<Rightarrow> if decoded = expected then Some tokens else None)"

section \<open>Positions\<close>

fun collect_starts :: "bytes \<Rightarrow> nat \<Rightarrow> bytes \<Rightarrow> nat list \<Rightarrow> nat list" where
  "collect_starts source index [] starts = starts"
| "collect_starts source index (b # bs) starts =
     collect_starts source (Suc index) bs
       (if b = LF \<or> (b = CR \<and> get_at source (index + 1) \<noteq> Some LF) then starts @ [sat_add index 1] else starts)"

definition collect_line_starts :: "bytes \<Rightarrow> nat list" where
  "collect_line_starts source = collect_starts source 0 source [0]"

definition dts_position :: "decoded_tokens \<Rightarrow> nat \<Rightarrow> position" where
  "dts_position d byte =
     (let line = partition_point (\<lambda>start. start \<le> byte) (dts_line_starts d) - 1;
          line_begin = (case get_at (dts_line_starts d) line of None \<Rightarrow> 0 | Some s \<Rightarrow> s)
      in \<lparr> pos_line = (if line \<le> u32_max then sat_add32 line 1 else u32_max),
           pos_column = to_u32 (sat_add (byte - line_begin) 1),
           pos_byte = to_u32 byte \<rparr>)"

section \<open>Reading\<close>

definition read_evidence :: "(bytes \<Rightarrow> bytes option) \<Rightarrow> source_file \<Rightarrow> region_fingerprint_facts \<Rightarrow> bool \<Rightarrow> decoded_tokens option" where
  "read_evidence base64_decode source facts retain =
     (case base64_decode (rff_encoded_tokens facts) of
        None \<Rightarrow> None
      | Some bs \<Rightarrow>
          (let expected = rff_token_count facts in
           if expected > length bs div MIN_ENCODED_TOKEN_BYTES then None
           else case decode_token_records bs (length (sf_bytes source)) expected retain of
             None \<Rightarrow> None
           | Some tokens \<Rightarrow>
               if \<not> (\<forall>a\<in>set (rff_anchors facts).
                       case checked_add (token_index a) DEDUP_REGION_KGRAM_TOKENS of
                         None \<Rightarrow> False | Some end \<Rightarrow> end \<le> expected)
               then None
               else Some \<lparr> dts_bytes = (if retain then bs else []), dts_tokens = tokens,
                           dts_line_starts = (if retain then collect_line_starts (sf_bytes source) else []) \<rparr>))"

definition decode_evidence :: "(bytes \<Rightarrow> bytes option) \<Rightarrow> source_file \<Rightarrow> region_fingerprint_facts \<Rightarrow> decoded_tokens option" where
  "decode_evidence base64_decode source facts = read_evidence base64_decode source facts True"

definition validate_evidence :: "(bytes \<Rightarrow> bytes option) \<Rightarrow> source_file \<Rightarrow> region_fingerprint_facts \<Rightarrow> bool" where
  "validate_evidence base64_decode source facts = (read_evidence base64_decode source facts False \<noteq> None)"

section \<open>What a record reads back as\<close>

lemma get_range_at: "get_range (pre @ v @ post) (length pre) (length pre + length v) = Some v"
  by (simp add: get_range_def)

lemma read_u32_at:
  assumes "v < 256 ^ 4" and "length pre + 4 \<le> usize_max"
  shows "read_u32 (pre @ be_bytes 4 v @ post) (length pre) = Some (v, length pre + 4)"
  using get_range_at [of pre "be_bytes 4 v" post] assms
  by (simp add: read_u32_def checked_add_def from_be_be_bytes_exact)

lemma read_u16_at:
  assumes "v < 256 ^ 2" and "length pre + 2 \<le> usize_max"
  shows "read_u16 (pre @ be_bytes 2 v @ post) (length pre) = Some (v, length pre + 2)"
  using get_range_at [of pre "be_bytes 2 v" post] assms
  by (simp add: read_u16_def checked_add_def from_be_be_bytes_exact)

lemma decode_token_record_at:
  assumes "tk_start_byte t \<le> u32_max" "tk_end_byte t \<le> u32_max" "length p \<le> u16_max"
    and "length (pre @ token_record p t @ post) \<le> usize_max"
    and "tk_start_byte t < tk_end_byte t" "tk_end_byte t \<le> source_len"
  shows "decode_token_record (pre @ token_record p t @ post) source_len (length pre) =
    Some (\<lparr> dt_start = tk_start_byte t, dt_end = tk_end_byte t, dt_tag = tk_tag t,
             dt_prefix = (length pre + 11, length pre + 11 + length p) \<rparr>, length pre + 11 + length p)"
proof -
  let ?s = "be_bytes 4 (tk_start_byte t)" and ?e = "be_bytes 4 (tk_end_byte t)" and ?n = "be_bytes 2 (length p)"
  let ?bs = "pre @ token_record p t @ post"
  have len: "length pre + 11 + length p + length post \<le> usize_max" using assms(4) by (simp add: token_record_def)
  have bounds: "tk_start_byte t < 256 ^ 4" "tk_end_byte t < 256 ^ 4" "length p < 256 ^ 2"
    using assms(1-3) by (simp_all add: u32_max_def u16_max_def)
  have 1: "read_u32 ?bs (length pre) = Some (tk_start_byte t, length pre + 4)"
    using read_u32_at [OF bounds(1), of pre "?e @ [tk_tag t] @ ?n @ p @ post"] len by (simp add: token_record_def)
  have 2: "read_u32 ?bs (length pre + 4) = Some (tk_end_byte t, length pre + 8)"
    using read_u32_at [OF bounds(2), of "pre @ ?s" "[tk_tag t] @ ?n @ p @ post"] len by (simp add: token_record_def)
  have 3: "get_at ?bs (length pre + 8) = Some (tk_tag t)"
    using nth_append_length [of "pre @ ?s @ ?e" "tk_tag t" "?n @ p @ post"] by (simp add: get_at_def token_record_def)
  have 4: "read_u16 ?bs (length pre + 9) = Some (length p, length pre + 11)"
    using read_u16_at [OF bounds(3), of "pre @ ?s @ ?e @ [tk_tag t]" "p @ post"] len by (simp add: token_record_def)
  have 5: "get_range ?bs (length pre + 11) (length pre + 11 + length p) = Some p"
    using get_range_at [of "pre @ ?s @ ?e @ [tk_tag t] @ ?n" p post] by (simp add: token_record_def)
  have "sat_add (length pre + 8) 1 = length pre + 9" "checked_add (length pre + 11) (length p) = Some (length pre + 11 + length p)"
    using len by (simp_all add: sat_add_def checked_add_def)
  then show ?thesis using 1 2 3 4 5 assms(5,6) by (simp add: decode_token_record_def)
qed

text \<open>The bytes and source offsets a decoded token stands for.\<close>

definition token_view :: "bytes \<Rightarrow> decoded_token \<Rightarrow> nat \<times> nat \<times> byte \<times> bytes" where
  "token_view bs d = (dt_start d, dt_end d, dt_tag d, take (snd (dt_prefix d) - fst (dt_prefix d)) (drop (fst (dt_prefix d)) bs))"

text \<open>Tokens in source order, not overlapping, none empty, none beyond the source.\<close>

fun in_order :: "nat \<Rightarrow> nat \<Rightarrow> fingerprint_token list \<Rightarrow> bool" where
  "in_order source_len previous_end [] = True"
| "in_order source_len previous_end (t # ts) =
     (previous_end \<le> tk_start_byte t \<and> tk_start_byte t < tk_end_byte t \<and> tk_end_byte t \<le> source_len \<and>
      in_order source_len (tk_end_byte t) ts)"

abbreviation records :: "(bytes \<times> fingerprint_token) list \<Rightarrow> bytes" where
  "records ps \<equiv> concat (map (\<lambda>(p, t). token_record p t) ps)"

lemma decode_loop_records:
  assumes "bs = pre @ records ps" and "length bs \<le> usize_max" and "source_len \<le> u32_max"
    and "\<forall>(p, t)\<in>set ps. length p \<le> u16_max" and "in_order source_len previous_end (map snd ps)"
    and "decoded + length ps \<le> expected" and "expected \<le> u32_max"
  shows "\<exists>new. decode_loop bs source_len expected retain (length pre) previous_end decoded tokens =
      Some (decoded + length ps, if retain then tokens @ new else tokens) \<and>
    map (token_view bs) new = map (\<lambda>(p, t). (tk_start_byte t, tk_end_byte t, tk_tag t, p)) ps"
  using assms
proof (induction ps arbitrary: pre previous_end decoded tokens)
  case Nil
  then show ?case by (simp add: decode_loop.simps)
next
  case (Cons pt ps)
  obtain p t where pt: "pt = (p, t)" by (cases pt)
  let ?token = "\<lparr> dt_start = tk_start_byte t, dt_end = tk_end_byte t, dt_tag = tk_tag t,
    dt_prefix = (length pre + 11, length pre + 11 + length p) \<rparr>"
  have bs: "bs = pre @ token_record p t @ records ps" using Cons.prems(1) by (simp add: pt)
  have t: "previous_end \<le> tk_start_byte t" "tk_start_byte t < tk_end_byte t" "tk_end_byte t \<le> source_len"
    and ord: "in_order source_len (tk_end_byte t) (map snd ps)"
    using Cons.prems(5) by (simp_all add: pt)
  have step: "decode_token_record bs source_len (length pre) = Some (?token, length pre + 11 + length p)"
    unfolding bs by (rule decode_token_record_at) (use t Cons.prems(2-4) bs in \<open>auto simp: pt\<close>)
  have size: "length (pre @ token_record p t) = length pre + 11 + length p" by (simp add: token_record_def)
  have view: "token_view bs ?token = (tk_start_byte t, tk_end_byte t, tk_tag t, p)"
    by (simp add: token_view_def bs token_record_def)
  have "\<exists>new. decode_loop bs source_len expected retain (length (pre @ token_record p t)) (tk_end_byte t) (Suc decoded)
        (if retain then tokens @ [?token] else tokens) =
      Some (Suc decoded + length ps, if retain then (if retain then tokens @ [?token] else tokens) @ new
        else (if retain then tokens @ [?token] else tokens)) \<and>
    map (token_view bs) new = map (\<lambda>(p, t). (tk_start_byte t, tk_end_byte t, tk_tag t, p)) ps"
    by (rule Cons.IH) (use Cons.prems ord bs in \<open>auto simp: pt\<close>)
  then obtain new where rest: "decode_loop bs source_len expected retain (length pre + 11 + length p) (tk_end_byte t) (Suc decoded)
        (if retain then tokens @ [?token] else tokens) =
      Some (Suc decoded + length ps, if retain then tokens @ ?token # new else tokens)"
    "map (token_view bs) new = map (\<lambda>(p, t). (tk_start_byte t, tk_end_byte t, tk_tag t, p)) ps"
    unfolding size by (auto split: if_splits)
  have "length pre < length bs" by (simp add: bs token_record_def)
  moreover have "sat_add decoded 1 = Suc decoded"
    using Cons.prems(6,7) by (simp add: sat_add_def usize_max_def u32_max_def)
  ultimately have "decode_loop bs source_len expected retain (length pre) previous_end decoded tokens =
      Some (Suc decoded + length ps, if retain then tokens @ ?token # new else tokens)"
    using step t rest(1) Cons.prems(6) by (subst decode_loop.simps) (simp add: not_less)
  with rest(2) view show ?case by (intro exI [where x = "?token # new"]) (simp add: pt)
qed

lemma length_records:
  assumes "\<forall>(p, t)\<in>set ps. length p \<le> u16_max"
  shows "11 * length ps \<le> length (records ps)" "length (records ps) \<le> (11 + u16_max) * length ps"
  using assms by (induction ps) (auto simp: token_record_def)

lemma anchors_in_range:
  assumes "a \<in> set (reference_anchors hs)" and "length hs \<le> u32_max"
  shows "token_index a + DEDUP_REGION_KGRAM_TOKENS \<le> length hs"
proof -
  from assms(1) obtain i where i: "a = anchor_of i (kgram hs i)" "i \<in> set (selections (kgram hs) (kgrams hs))"
    by (auto simp: reference_anchors_def)
  then have "i < kgrams hs" by (intro selections_range)
  with assms(2) show ?thesis by (simp add: i(1) anchor_of_def kgrams_def to_u32_exact)
qed

text \<open>Reading the evidence a complete extraction wrote.\<close>

lemma read_written_evidence:
  assumes base64: "\<And>x. decode (encode x) = Some x"
    and complete: "rff_status (region_fingerprints encode domain ts) = FComplete"
    and source: "length (sf_bytes source) \<le> u32_max" "in_order (length (sf_bytes source)) 0 (map snd (counted_tokens [] ts))"
    and few: "length (normalized ts) \<le> u32_max"
  shows "\<exists>d. read_evidence decode source (region_fingerprints encode domain ts) retain = Some d \<and>
    (retain \<longrightarrow> map (token_view (dts_bytes d)) (dts_tokens d) =
      map (\<lambda>(p, t). (tk_start_byte t, tk_end_byte t, tk_tag t, p)) (counted_tokens [] ts) \<and>
      dts_line_starts d = collect_line_starts (sf_bytes source))"
proof -
  let ?ps = "counted_tokens [] ts" and ?facts = "region_fingerprints encode domain ts"
  from complete obtain encoded n w where loop: "region_loop domain ts [] [] 0 winnower_default = Some (encoded, n, w)"
    by (auto simp: region_fingerprints_def truncated_regions_def split: option.splits)
  note L = region_loop_spec [OF loop]
  have count: "length ?ps \<le> u32_max" using few by (simp add: normalized_def)
  then have n: "n = length ?ps" using L(3) by (simp add: usize_max_def u32_max_def)
  have prefixes: "\<forall>(p, t)\<in>set ?ps. length p \<le> u16_max" using L(4) by auto
  have enc: "encoded = records ?ps" using L(2) by simp
  note size = length_records [OF prefixes]
  have "length encoded \<le> (11 + u16_max) * u32_max"
    using size(2) mult_le_mono2 [OF count, of "11 + u16_max"] unfolding enc by linarith
  then have fits: "length encoded \<le> usize_max" by (simp add: u16_max_def u32_max_def usize_max_def)
  have facts: "rff_token_count ?facts = length ?ps" "rff_encoded_tokens ?facts = encode encoded"
    by (simp_all add: region_fingerprints_def loop n to_u32_exact count)
  from decode_loop_records [where pre = "[]" and ps = ?ps, OF _ fits source(1) prefixes source(2), of 0 "length ?ps" retain "[]"]
  obtain new where new: "decode_loop encoded (length (sf_bytes source)) (length ?ps) retain 0 0 0 [] =
      Some (length ?ps, if retain then new else [])"
    "map (token_view encoded) new = map (\<lambda>(p, t). (tk_start_byte t, tk_end_byte t, tk_tag t, p)) ?ps"
    using count enc by auto
  have "length (token_hashes domain ts) = length ?ps" by (simp add: token_hashes_def)
  then have anchors: "token_index a + DEDUP_REGION_KGRAM_TOKENS \<le> length ?ps" if "a \<in> set (rff_anchors ?facts)" for a
    using that complete_anchors [OF complete] anchors_in_range [of a "token_hashes domain ts"] count by simp
  have "checked_add (token_index a) DEDUP_REGION_KGRAM_TOKENS = Some (token_index a + DEDUP_REGION_KGRAM_TOKENS)"
    if "a \<in> set (rff_anchors ?facts)" for a
    using anchors [OF that] count by (simp add: checked_add_def usize_max_def u32_max_def)
  moreover have "\<not> length ?ps > length encoded div MIN_ENCODED_TOKEN_BYTES"
    using size(1) by (simp add: enc MIN_ENCODED_TOKEN_BYTES_def div_le_mono less_eq_div_iff_mult_less_eq not_less)
  ultimately have "read_evidence decode source ?facts retain = Some \<lparr> dts_bytes = (if retain then encoded else []),
      dts_tokens = (if retain then new else []),
      dts_line_starts = (if retain then collect_line_starts (sf_bytes source) else []) \<rparr>"
    using anchors by (simp add: read_evidence_def facts base64 decode_token_records_def new(1))
  with new(2) show ?thesis by simp
qed

section \<open>What is accepted\<close>

fun tokens_ordered :: "nat \<Rightarrow> nat \<Rightarrow> decoded_token list \<Rightarrow> bool" where
  "tokens_ordered source_len previous_end [] = True"
| "tokens_ordered source_len previous_end (d # ds) =
     (previous_end \<le> dt_start d \<and> dt_start d < dt_end d \<and> dt_end d \<le> source_len \<and>
      tokens_ordered source_len (dt_end d) ds)"

lemma decode_token_record_ok:
  "decode_token_record bs source_len cursor = Some (d, cursor') \<Longrightarrow>
   dt_start d < dt_end d \<and> dt_end d \<le> source_len \<and>
   fst (dt_prefix d) \<le> snd (dt_prefix d) \<and> snd (dt_prefix d) \<le> length bs"
  by (auto simp: decode_token_record_def get_range_def split: option.splits if_splits)

lemma decode_loop_sound:
  "decode_loop bs source_len expected retain cursor previous_end decoded tokens = Some (n, tokens') \<Longrightarrow> retain \<Longrightarrow>
   expected \<le> u32_max \<Longrightarrow> decoded \<le> expected \<Longrightarrow>
   \<exists>new. tokens' = tokens @ new \<and> tokens_ordered source_len previous_end new \<and> n = decoded + length new \<and>
     (\<forall>d\<in>set new. fst (dt_prefix d) \<le> snd (dt_prefix d) \<and> snd (dt_prefix d) \<le> length bs)"
proof (induction bs source_len expected retain cursor previous_end decoded tokens rule: decode_loop.induct)
  case (1 bs source_len expected retain cursor previous_end decoded tokens)
  show ?case
  proof (cases "cursor < length bs")
    case False
    with 1(2) show ?thesis by (subst (asm) decode_loop.simps) simp
  next
    case True
    with 1(2) obtain d cursor' where rec: "decode_token_record bs source_len cursor = Some (d, cursor')"
      and ge: "previous_end \<le> dt_start d" and le: "sat_add decoded 1 \<le> expected"
      and loop: "decode_loop bs source_len expected retain cursor' (dt_end d) (sat_add decoded 1)
        (if retain then tokens @ [d] else tokens) = Some (n, tokens')"
      by (subst (asm) decode_loop.simps) (auto simp: Let_def not_less split: option.splits if_splits)
    have "sat_add decoded 1 = Suc decoded" using 1(4,5) by (simp add: sat_add_def usize_max_def u32_max_def)
    with 1(1) [OF True rec refl _ refl _ loop 1(3,4)] ge le obtain new where
      "tokens' = (tokens @ [d]) @ new" "tokens_ordered source_len (dt_end d) new" "n = Suc decoded + length new"
      "\<forall>d\<in>set new. fst (dt_prefix d) \<le> snd (dt_prefix d) \<and> snd (dt_prefix d) \<le> length bs"
      using 1(3) by (auto simp: not_less)
    with decode_token_record_ok [OF rec] ge show ?thesis
      by (intro exI [where x = "d # new"]) auto
  qed
qed

section \<open>Line starts\<close>

lemma collect_starts_spec:
  "source = pre @ bs \<Longrightarrow> length source \<le> usize_max \<Longrightarrow>
   collect_starts source (length pre) bs (starts_upto source (length pre)) = starts_upto source (length source)"
proof (induction bs arbitrary: pre)
  case (Cons b bs)
  have "line_start source (Suc (length pre)) \<longleftrightarrow> b = LF \<or> (b = CR \<and> get_at source (Suc (length pre)) \<noteq> Some LF)"
    using Cons.prems(1) by (simp add: line_start_def)
  moreover have "sat_add (length pre) 1 = Suc (length pre)" using Cons.prems by (simp add: sat_add_exact)
  ultimately have "(if b = LF \<or> (b = CR \<and> get_at source (length pre + 1) \<noteq> Some LF)
      then starts_upto source (length pre) @ [sat_add (length pre) 1] else starts_upto source (length pre))
    = starts_upto source (length (pre @ [b]))" by (simp add: starts_upto_Suc)
  then have "collect_starts source (length pre) (b # bs) (starts_upto source (length pre)) =
      collect_starts source (length (pre @ [b])) bs (starts_upto source (length (pre @ [b])))" by simp
  also have "\<dots> = starts_upto source (length source)" by (rule Cons.IH) (use Cons.prems in simp_all)
  finally show ?case .
qed simp

lemma collect_line_starts_eq:
  "length src \<le> usize_max \<Longrightarrow> collect_line_starts src = li_starts (LineIndex_new src base)"
  using collect_starts_spec [of src "[]" src]
  by (simp add: collect_line_starts_def LineIndex_starts starts_upto_def)

section \<open>A sample\<close>

text \<open>What every decoded evidence satisfies, whoever wrote it.\<close>

lemma decoded_tokens_sound:
  assumes "decode_evidence decode source facts = Some d" and "rff_token_count facts \<le> u32_max"
  shows "length (dts_tokens d) = rff_token_count facts"
    and "tokens_ordered (length (sf_bytes source)) 0 (dts_tokens d)"
    and "\<forall>t\<in>set (dts_tokens d). fst (dt_prefix t) \<le> snd (dt_prefix t) \<and> snd (dt_prefix t) \<le> length (dts_bytes d)"
    and "\<forall>a\<in>set (rff_anchors facts). token_index a + DEDUP_REGION_KGRAM_TOKENS \<le> length (dts_tokens d)"
    and "dts_line_starts d = collect_line_starts (sf_bytes source)"
proof -
  from assms(1) obtain bs n tokens where
    loop: "decode_loop bs (length (sf_bytes source)) (rff_token_count facts) True 0 0 0 [] = Some (n, tokens)"
    and n: "n = rff_token_count facts"
    and anchors: "\<forall>a\<in>set (rff_anchors facts). case checked_add (token_index a) DEDUP_REGION_KGRAM_TOKENS of
        None \<Rightarrow> False | Some end \<Rightarrow> end \<le> rff_token_count facts"
    and d: "d = \<lparr> dts_bytes = bs, dts_tokens = tokens, dts_line_starts = collect_line_starts (sf_bytes source) \<rparr>"
    by (auto simp: decode_evidence_def read_evidence_def decode_token_records_def Let_def split: option.splits if_splits)
  from decode_loop_sound [OF loop] assms(2) n have tokens: "tokens_ordered (length (sf_bytes source)) 0 tokens"
    "length tokens = rff_token_count facts"
    "\<forall>t\<in>set tokens. fst (dt_prefix t) \<le> snd (dt_prefix t) \<and> snd (dt_prefix t) \<le> length bs" by auto
  with anchors show "length (dts_tokens d) = rff_token_count facts"
    "tokens_ordered (length (sf_bytes source)) 0 (dts_tokens d)"
    "\<forall>t\<in>set (dts_tokens d). fst (dt_prefix t) \<le> snd (dt_prefix t) \<and> snd (dt_prefix t) \<le> length (dts_bytes d)"
    "\<forall>a\<in>set (rff_anchors facts). token_index a + DEDUP_REGION_KGRAM_TOKENS \<le> length (dts_tokens d)"
    "dts_line_starts d = collect_line_starts (sf_bytes source)"
    by (auto simp: d checked_add_def split: option.splits if_splits)
qed

definition sample_source :: source_file where
  "sample_source = \<lparr> sf_path = RepoPath ''a'', sf_bytes = replicate 60 CHR ''x'', sf_content_id = [],
     sf_language = Rust, sf_language_mode = ''rs'' \<rparr>"

lemma unit_tokens_in_order:
  "in_order (m + n) m (map (\<lambda>i. \<lparr> tk_tag = c, tk_text = x, tk_line = l, tk_counted = True,
     tk_start_byte = i, tk_end_byte = i + 1 \<rparr>) [m..<m + n])"
proof (induction n arbitrary: m)
  case (Suc n)
  from Suc [of "Suc m"] show ?case by (simp add: upt_conv_Cons del: upt_Suc)
qed simp

lemma sample_source_fits:
  "length (sf_bytes sample_source) = 60"
  "in_order (length (sf_bytes sample_source)) 0 (map snd (counted_tokens [] (sample_tokens 60)))"
proof -
  have "counted_tokens [] (sample_tokens 60) = map (Pair []) (sample_tokens 60)"
    by (rule counted_tokens_counted) (auto simp: sample_tokens_def)
  moreover have "in_order 60 0 (sample_tokens 60)"
    using unit_tokens_in_order [of 0 60] by (simp add: sample_tokens_def del: upt_Suc upt_rec_numeral)
  ultimately show "in_order (length (sf_bytes sample_source)) 0 (map snd (counted_tokens [] (sample_tokens 60)))"
    by (simp add: sample_source_def o_def)
qed (simp add: sample_source_def)

section \<open>Properties\<close>

text \<open>
  C32. Token evidence survives its encoding. If the counted tokens of a file are not empty, lie inside
  the source and stand in source order without overlap (the encoder itself only refuses a token that
  ends before it starts; the decoder refuses an empty one), then decoding the evidence of its complete region fingerprints succeeds and
  gives, token by token, the source range, the tag and the prefix bytes they were written with; the
  validating pass accepts it too. The only assumption on the codec is that decoding inverts
  encoding.
\<close>

theorem evidence_roundtrip:
  assumes "\<And>x. decode (encode x) = Some x"
    and "rff_status (region_fingerprints encode domain ts) = FComplete"
    and "length (sf_bytes source) \<le> u32_max" and "length (normalized ts) \<le> u32_max"
    and "in_order (length (sf_bytes source)) 0 (map snd (counted_tokens [] ts))"
  shows "validate_evidence decode source (region_fingerprints encode domain ts) \<and>
    (\<exists>d. decode_evidence decode source (region_fingerprints encode domain ts) = Some d \<and>
      map (token_view (dts_bytes d)) (dts_tokens d) =
        map (\<lambda>(p, t). (tk_start_byte t, tk_end_byte t, tk_tag t, p)) (counted_tokens [] ts))"
  using read_written_evidence [OF assms(1,2,3,5,4), of True] read_written_evidence [OF assms(1,2,3,5,4), of False]
  by (auto simp: validate_evidence_def decode_evidence_def)

theorem evidence_roundtrip_witness:
  "validate_evidence Some sample_source (region_fingerprints id ''rust'' (sample_tokens 60))"
  by (rule conjunct1 [OF evidence_roundtrip [OF _ _ _ _ sample_source_fits(2)]])
    (simp_all add: sample_tokens_complete sample_tokens_length sample_source_fits(1) MAX_REGION_FINGERPRINTS_PER_FILE_def u32_max_def)

text \<open>
  C12. Accepted evidence is well formed, whoever wrote it: if decoding any facts for a source
  succeeds, the tokens are as many as declared, stand in source order without overlap, none empty
  and none beyond the source, their prefixes lie within the decoded bytes, every anchor has a full
  window of tokens, and positions are those of the line index of the source.
\<close>

theorem accepted_evidence_wf:
  assumes "decode_evidence decode source facts = Some d" and "rff_token_count facts \<le> u32_max"
    and "length (sf_bytes source) \<le> u32_max"
  shows "length (dts_tokens d) = rff_token_count facts \<and>
    tokens_ordered (length (sf_bytes source)) 0 (dts_tokens d) \<and>
    (\<forall>t\<in>set (dts_tokens d). fst (dt_prefix t) \<le> snd (dt_prefix t) \<and> snd (dt_prefix t) \<le> length (dts_bytes d)) \<and>
    (\<forall>a\<in>set (rff_anchors facts). token_index a + DEDUP_REGION_KGRAM_TOKENS \<le> length (dts_tokens d)) \<and>
    (\<forall>byte. byte \<le> length (sf_bytes source) \<longrightarrow>
       dts_position d byte = li_position (LineIndex_new (sf_bytes source) 0) byte)"
proof -
  note d = decoded_tokens_sound [OF assms(1,2)]
  have "dts_position d byte = li_position (LineIndex_new (sf_bytes source) 0) byte" if "byte \<le> length (sf_bytes source)" for byte
  proof -
    have "length (sf_bytes source) \<le> usize_max" using assms(3) by (simp add: usize_max_def u32_max_def)
    then have "collect_line_starts (sf_bytes source) = li_starts (LineIndex_new (sf_bytes source) 0)"
      by (rule collect_line_starts_eq)
    moreover have "li_byte_base (LineIndex_new (sf_bytes source) 0) = 0" by (simp add: LineIndex_new_def)
    ultimately show ?thesis
      by (simp add: dts_position_def li_position_def d(5) Let_def sat_add_def sat_add32_def to_u32_def usize_max_def u32_max_def)
  qed
  with d show ?thesis by blast
qed

theorem accepted_evidence_wf_witness:
  "\<exists>d. decode_evidence Some sample_source (region_fingerprints id ''rust'' (sample_tokens 60)) = Some d \<and>
    tokens_ordered 60 0 (dts_tokens d)"
proof -
  have "rff_status (region_fingerprints id ''rust'' (sample_tokens 60)) = FComplete"
    by (rule sample_tokens_complete) (simp add: MAX_REGION_FINGERPRINTS_PER_FILE_def)
  from read_written_evidence [OF _ this _ sample_source_fits(2), of Some True]
  obtain d where d: "decode_evidence Some sample_source (region_fingerprints id ''rust'' (sample_tokens 60)) = Some d"
    by (auto simp: decode_evidence_def sample_source_fits sample_tokens_length u32_max_def)
  have "rff_token_count (region_fingerprints id ''rust'' (sample_tokens 60)) \<le> u32_max"
    by (simp add: region_fingerprints_def truncated_regions_def default_region_fingerprint_facts_def to_u32_def
        split: option.split)
  from accepted_evidence_wf [OF d this] d show ?thesis by (simp add: sample_source_fits(1) u32_max_def)
qed

end
