(* ===== verification/SenseModel.thy ===== *)
theory SenseModel
  imports DataModel
begin

text \<open>
  The data of the structural sensor (\<^verbatim>\<open>sense/model.rs\<close>): the dependency graph of a view with its
  coverage, and the report with its findings, observations and issues. Structs are records whose
  fields carry a prefix, enums are datatypes. The types the source keeps in ordered collections
  derive \<^verbatim>\<open>Ord\<close>: variants in declaration order, structs lexicographically by field; they are
  instances of \<^verbatim>\<open>linorder\<close> by that order.
\<close>

section \<open>Ordered parts of the interface facts\<close>

fun interface_namespace_index :: "interface_namespace \<Rightarrow> nat" where
  "interface_namespace_index Runtime = 0"
| "interface_namespace_index TypeOnly = 1"

lemma interface_namespace_index_inject [simp]: "interface_namespace_index a = interface_namespace_index b \<longleftrightarrow> a = b"
  by (cases a; cases b) simp_all

instantiation interface_namespace :: linorder
begin

definition less_eq_interface_namespace :: "interface_namespace \<Rightarrow> interface_namespace \<Rightarrow> bool" where
  "a \<le> b \<longleftrightarrow> interface_namespace_index a \<le> interface_namespace_index b"

definition less_interface_namespace :: "interface_namespace \<Rightarrow> interface_namespace \<Rightarrow> bool" where
  "a < b \<longleftrightarrow> interface_namespace_index a < interface_namespace_index b"

instance
  by standard (auto simp: less_eq_interface_namespace_def less_interface_namespace_def)

end

fun interface_selector_kind_index :: "interface_selector_kind \<Rightarrow> nat" where
  "interface_selector_kind_index Named = 0"
| "interface_selector_kind_index Default = 1"
| "interface_selector_kind_index Namespace = 2"
| "interface_selector_kind_index SideEffect = 3"

lemma interface_selector_kind_index_inject [simp]: "interface_selector_kind_index a = interface_selector_kind_index b \<longleftrightarrow> a = b"
  by (cases a; cases b) simp_all

instantiation interface_selector_kind :: linorder
begin

definition less_eq_interface_selector_kind :: "interface_selector_kind \<Rightarrow> interface_selector_kind \<Rightarrow> bool" where
  "a \<le> b \<longleftrightarrow> interface_selector_kind_index a \<le> interface_selector_kind_index b"

definition less_interface_selector_kind :: "interface_selector_kind \<Rightarrow> interface_selector_kind \<Rightarrow> bool" where
  "a < b \<longleftrightarrow> interface_selector_kind_index a < interface_selector_kind_index b"

instance
  by standard (auto simp: less_eq_interface_selector_kind_def less_interface_selector_kind_def)

end

definition interface_selector_key :: "'a interface_selector_scheme \<Rightarrow> _" where
  "interface_selector_key e = (sel_kind e, sel_name e, interface_selector.more e)"

lemma interface_selector_key_inject [simp]: "interface_selector_key a = interface_selector_key b \<longleftrightarrow> a = b"
  by (cases a; cases b) (auto simp: interface_selector_key_def)

instantiation interface_selector_ext :: (linorder) linorder
begin

definition less_eq_interface_selector_ext :: "'a interface_selector_ext \<Rightarrow> 'a interface_selector_ext \<Rightarrow> bool" where
  "a \<le> b \<longleftrightarrow> interface_selector_key a \<le> interface_selector_key b"

definition less_interface_selector_ext :: "'a interface_selector_ext \<Rightarrow> 'a interface_selector_ext \<Rightarrow> bool" where
  "a < b \<longleftrightarrow> interface_selector_key a < interface_selector_key b"

instance
  by standard (auto simp: less_eq_interface_selector_ext_def less_interface_selector_ext_def less_le)

end

fun interface_export_namespace_index :: "interface_export_namespace \<Rightarrow> nat" where
  "interface_export_namespace_index ExValue = 0"
| "interface_export_namespace_index ExTypeOnly = 1"
| "interface_export_namespace_index ExNamespace = 2"

lemma interface_export_namespace_index_inject [simp]: "interface_export_namespace_index a = interface_export_namespace_index b \<longleftrightarrow> a = b"
  by (cases a; cases b) simp_all

instantiation interface_export_namespace :: linorder
begin

definition less_eq_interface_export_namespace :: "interface_export_namespace \<Rightarrow> interface_export_namespace \<Rightarrow> bool" where
  "a \<le> b \<longleftrightarrow> interface_export_namespace_index a \<le> interface_export_namespace_index b"

definition less_interface_export_namespace :: "interface_export_namespace \<Rightarrow> interface_export_namespace \<Rightarrow> bool" where
  "a < b \<longleftrightarrow> interface_export_namespace_index a < interface_export_namespace_index b"

instance
  by standard (auto simp: less_eq_interface_export_namespace_def less_interface_export_namespace_def)

end

fun interface_shape_kind_index :: "interface_shape_kind \<Rightarrow> nat" where
  "interface_shape_kind_index ShapeInterface = 0"
| "interface_shape_kind_index ShapeStruct = 1"
| "interface_shape_kind_index ShapeTypeLiteralAlias = 2"

lemma interface_shape_kind_index_inject [simp]: "interface_shape_kind_index a = interface_shape_kind_index b \<longleftrightarrow> a = b"
  by (cases a; cases b) simp_all

instantiation interface_shape_kind :: linorder
begin

definition less_eq_interface_shape_kind :: "interface_shape_kind \<Rightarrow> interface_shape_kind \<Rightarrow> bool" where
  "a \<le> b \<longleftrightarrow> interface_shape_kind_index a \<le> interface_shape_kind_index b"

definition less_interface_shape_kind :: "interface_shape_kind \<Rightarrow> interface_shape_kind \<Rightarrow> bool" where
  "a < b \<longleftrightarrow> interface_shape_kind_index a < interface_shape_kind_index b"

instance
  by standard (auto simp: less_eq_interface_shape_kind_def less_interface_shape_kind_def)

end

section \<open>The dependency graph of a view\<close>

datatype edge_kind = EdgeRuntime | EdgeTypeOnly | EdgeStructural

fun edge_kind_index :: "edge_kind \<Rightarrow> nat" where
  "edge_kind_index EdgeRuntime = 0"
| "edge_kind_index EdgeTypeOnly = 1"
| "edge_kind_index EdgeStructural = 2"

lemma edge_kind_index_inject [simp]: "edge_kind_index a = edge_kind_index b \<longleftrightarrow> a = b"
  by (cases a; cases b) simp_all

instantiation edge_kind :: linorder
begin

definition less_eq_edge_kind :: "edge_kind \<Rightarrow> edge_kind \<Rightarrow> bool" where
  "a \<le> b \<longleftrightarrow> edge_kind_index a \<le> edge_kind_index b"

definition less_edge_kind :: "edge_kind \<Rightarrow> edge_kind \<Rightarrow> bool" where
  "a < b \<longleftrightarrow> edge_kind_index a < edge_kind_index b"

instance
  by standard (auto simp: less_eq_edge_kind_def less_edge_kind_def)

end

datatype resolution_gap_kind =
    GapNodeBuiltin | GapExternal | GapAmbiguous | GapUnresolved | GapUnsupportedDynamic

fun resolution_gap_kind_index :: "resolution_gap_kind \<Rightarrow> nat" where
  "resolution_gap_kind_index GapNodeBuiltin = 0"
| "resolution_gap_kind_index GapExternal = 1"
| "resolution_gap_kind_index GapAmbiguous = 2"
| "resolution_gap_kind_index GapUnresolved = 3"
| "resolution_gap_kind_index GapUnsupportedDynamic = 4"

lemma resolution_gap_kind_index_inject [simp]: "resolution_gap_kind_index a = resolution_gap_kind_index b \<longleftrightarrow> a = b"
  by (cases a; cases b) simp_all

instantiation resolution_gap_kind :: linorder
begin

definition less_eq_resolution_gap_kind :: "resolution_gap_kind \<Rightarrow> resolution_gap_kind \<Rightarrow> bool" where
  "a \<le> b \<longleftrightarrow> resolution_gap_kind_index a \<le> resolution_gap_kind_index b"

definition less_resolution_gap_kind :: "resolution_gap_kind \<Rightarrow> resolution_gap_kind \<Rightarrow> bool" where
  "a < b \<longleftrightarrow> resolution_gap_kind_index a < resolution_gap_kind_index b"

instance
  by standard (auto simp: less_eq_resolution_gap_kind_def less_resolution_gap_kind_def)

end

record resolution_gap_evidence =
  rg_path :: repo_path
  rg_specifier :: bytes
  rg_kind :: resolution_gap_kind

definition resolution_gap_evidence_key :: "'a resolution_gap_evidence_scheme \<Rightarrow> _" where
  "resolution_gap_evidence_key e = (rg_path e, rg_specifier e, rg_kind e, resolution_gap_evidence.more e)"

lemma resolution_gap_evidence_key_inject [simp]: "resolution_gap_evidence_key a = resolution_gap_evidence_key b \<longleftrightarrow> a = b"
  by (cases a; cases b) (auto simp: resolution_gap_evidence_key_def)

instantiation resolution_gap_evidence_ext :: (linorder) linorder
begin

definition less_eq_resolution_gap_evidence_ext :: "'a resolution_gap_evidence_ext \<Rightarrow> 'a resolution_gap_evidence_ext \<Rightarrow> bool" where
  "a \<le> b \<longleftrightarrow> resolution_gap_evidence_key a \<le> resolution_gap_evidence_key b"

definition less_resolution_gap_evidence_ext :: "'a resolution_gap_evidence_ext \<Rightarrow> 'a resolution_gap_evidence_ext \<Rightarrow> bool" where
  "a < b \<longleftrightarrow> resolution_gap_evidence_key a < resolution_gap_evidence_key b"

instance
  by standard (auto simp: less_eq_resolution_gap_evidence_ext_def less_resolution_gap_evidence_ext_def less_le)

end

record dependency_edge =
  edge_from :: repo_path
  edge_to :: repo_path
  edge_kind :: edge_kind

definition dependency_edge_key :: "'a dependency_edge_scheme \<Rightarrow> _" where
  "dependency_edge_key e = (edge_from e, edge_to e, edge_kind e, dependency_edge.more e)"

lemma dependency_edge_key_inject [simp]: "dependency_edge_key a = dependency_edge_key b \<longleftrightarrow> a = b"
  by (cases a; cases b) (auto simp: dependency_edge_key_def)

instantiation dependency_edge_ext :: (linorder) linorder
begin

definition less_eq_dependency_edge_ext :: "'a dependency_edge_ext \<Rightarrow> 'a dependency_edge_ext \<Rightarrow> bool" where
  "a \<le> b \<longleftrightarrow> dependency_edge_key a \<le> dependency_edge_key b"

definition less_dependency_edge_ext :: "'a dependency_edge_ext \<Rightarrow> 'a dependency_edge_ext \<Rightarrow> bool" where
  "a < b \<longleftrightarrow> dependency_edge_key a < dependency_edge_key b"

instance
  by standard (auto simp: less_eq_dependency_edge_ext_def less_dependency_edge_ext_def less_le)

end

record interface_export_key =
  iek_namespace :: interface_export_namespace
  iek_name :: bytes

definition interface_export_key_key :: "'a interface_export_key_scheme \<Rightarrow> _" where
  "interface_export_key_key e = (iek_namespace e, iek_name e, interface_export_key.more e)"

lemma interface_export_key_key_inject [simp]: "interface_export_key_key a = interface_export_key_key b \<longleftrightarrow> a = b"
  by (cases a; cases b) (auto simp: interface_export_key_key_def)

instantiation interface_export_key_ext :: (linorder) linorder
begin

definition less_eq_interface_export_key_ext :: "'a interface_export_key_ext \<Rightarrow> 'a interface_export_key_ext \<Rightarrow> bool" where
  "a \<le> b \<longleftrightarrow> interface_export_key_key a \<le> interface_export_key_key b"

definition less_interface_export_key_ext :: "'a interface_export_key_ext \<Rightarrow> 'a interface_export_key_ext \<Rightarrow> bool" where
  "a < b \<longleftrightarrow> interface_export_key_key a < interface_export_key_key b"

instance
  by standard (auto simp: less_eq_interface_export_key_ext_def less_interface_export_key_ext_def less_le)

end

record interface_shape_key =
  isk_kind :: interface_shape_kind
  isk_name :: bytes

definition interface_shape_key_key :: "'a interface_shape_key_scheme \<Rightarrow> _" where
  "interface_shape_key_key e = (isk_kind e, isk_name e, interface_shape_key.more e)"

lemma interface_shape_key_key_inject [simp]: "interface_shape_key_key a = interface_shape_key_key b \<longleftrightarrow> a = b"
  by (cases a; cases b) (auto simp: interface_shape_key_key_def)

instantiation interface_shape_key_ext :: (linorder) linorder
begin

definition less_eq_interface_shape_key_ext :: "'a interface_shape_key_ext \<Rightarrow> 'a interface_shape_key_ext \<Rightarrow> bool" where
  "a \<le> b \<longleftrightarrow> interface_shape_key_key a \<le> interface_shape_key_key b"

definition less_interface_shape_key_ext :: "'a interface_shape_key_ext \<Rightarrow> 'a interface_shape_key_ext \<Rightarrow> bool" where
  "a < b \<longleftrightarrow> interface_shape_key_key a < interface_shape_key_key b"

instance
  by standard (auto simp: less_eq_interface_shape_key_ext_def less_interface_shape_key_ext_def less_le)

end

record interface_edge_key =
  iedk_from :: repo_path
  iedk_to :: repo_path
  iedk_namespace :: interface_namespace

definition interface_edge_key_key :: "'a interface_edge_key_scheme \<Rightarrow> _" where
  "interface_edge_key_key e = (iedk_from e, iedk_to e, iedk_namespace e, interface_edge_key.more e)"

lemma interface_edge_key_key_inject [simp]: "interface_edge_key_key a = interface_edge_key_key b \<longleftrightarrow> a = b"
  by (cases a; cases b) (auto simp: interface_edge_key_key_def)

instantiation interface_edge_key_ext :: (linorder) linorder
begin

definition less_eq_interface_edge_key_ext :: "'a interface_edge_key_ext \<Rightarrow> 'a interface_edge_key_ext \<Rightarrow> bool" where
  "a \<le> b \<longleftrightarrow> interface_edge_key_key a \<le> interface_edge_key_key b"

definition less_interface_edge_key_ext :: "'a interface_edge_key_ext \<Rightarrow> 'a interface_edge_key_ext \<Rightarrow> bool" where
  "a < b \<longleftrightarrow> interface_edge_key_key a < interface_edge_key_key b"

instance
  by standard (auto simp: less_eq_interface_edge_key_ext_def less_interface_edge_key_ext_def less_le)

end

record interface_edge =
  ie_selectors :: "interface_selector btree_set"
  ie_unknown_width :: bool

record module_interface =
  mi_exports :: "interface_export_key btree_set"
  mi_shapes :: "(interface_shape_key, nat) btree_map"
  mi_shape_fingerprints :: "(interface_shape_key, bytes) btree_map"
  mi_has_local_exports :: bool
  mi_has_reexports :: bool
  mi_declaration_file :: bool
  mi_public_surface_complete :: bool

record resolution_coverage =
  rc_files :: nat
  rc_complete_files :: nat
  rc_unsupported_files :: nat
  rc_parser_failed_files :: nat
  rc_truncated_files :: nat
  rc_runtime_references :: nat
  rc_type_references :: nat
  rc_structural_references :: nat
  rc_resolved_references :: nat
  rc_node_builtin_references :: nat
  rc_external_references :: nat
  rc_ambiguous_references :: nat
  rc_unresolved_references :: nat
  rc_unsupported_dynamic_references :: nat
  rc_configuration_errors :: nat
  rc_edges_truncated :: bool

record interface_coverage =
  icov_files :: nat
  icov_complete_files :: nat
  icov_partial_files :: nat
  icov_unsupported_files :: nat
  icov_parser_failed_files :: nat
  icov_truncated_files :: nat
  icov_complete_public_surfaces :: nat
  icov_partial_public_surfaces :: nat
  icov_unsupported_public_surfaces :: nat
  icov_truncated_public_surfaces :: nat
  icov_resolved_selectors :: nat
  icov_selectors_truncated :: bool
  icov_gaps :: interface_gap_counts

record projection =
  pj_nodes :: "repo_path btree_set"
  pj_edges :: "dependency_edge btree_set"
  pj_coverage :: resolution_coverage
  pj_resolution_gaps :: "resolution_gap_evidence btree_set"
  pj_resolution_gaps_truncated :: bool
  pj_interfaces :: "(repo_path, module_interface) btree_map"
  pj_interface_edges :: "(interface_edge_key, interface_edge) btree_map"
  pj_interface_coverage :: interface_coverage

section \<open>Findings and observations\<close>

record introduced_cycle =
  ic_member_count :: nat
  ic_members :: "repo_path list"
  ic_members_truncated :: bool
  ic_trigger :: dependency_edge
  ic_witness :: "repo_path list"
  ic_witness_truncated :: bool

datatype duplicate_kind = DupIdenticalFile | DupCallableBody | DupTokenRegion

record duplicate_occurrence =
  dup_path :: repo_path
  dup_range :: "source_range option"
  dup_callable_kind :: "callable_kind option"
  dup_changed :: bool

record introduced_duplicate =
  idup_class_id :: bytes
  idup_kind :: duplicate_kind
  idup_language_family :: "bytes option"
  idup_before_count :: nat
  idup_after_count :: nat
  idup_introduced_count :: nat
  idup_bytes :: "nat option"
  idup_token_count :: "nat option"
  idup_occurrences :: "duplicate_occurrence list"
  idup_occurrences_truncated :: bool

record fingerprint_coverage =
  fpc_files :: nat
  fpc_complete_files :: nat
  fpc_unsupported_files :: nat
  fpc_parser_failed_files :: nat
  fpc_truncated_files :: nat
  fpc_callable_occurrences :: nat
  fpc_region_anchors :: nat
  fpc_region_tokens :: nat
  fpc_request_truncated :: bool
  fpc_malformed_evidence :: bool

record dedup_coverage =
  dc_before :: fingerprint_coverage
  dc_after :: fingerprint_coverage

record effective_sense_policy =
  esp_minimum_identical_bytes :: nat
  esp_minimum_callable_tokens :: nat
  esp_minimum_region_tokens :: nat
  esp_max_dependency_targets :: nat
  esp_max_edge_selectors :: nat
  esp_max_module_exports :: nat
  esp_max_shape_members :: nat
  esp_important_fan_in :: nat
  esp_documentation_registry :: bytes
  esp_excluded_paths :: "repo_path list"

record interface_finding =
  ifind_code :: bytes
  ifind_path :: repo_path
  ifind_target :: "repo_path option"
  ifind_entity :: "bytes option"
  ifind_metric :: bytes
  ifind_before :: nat
  ifind_after :: nat
  ifind_limit :: nat
  ifind_basis :: bytes

record interface_delta =
  idelta_path :: repo_path
  idelta_deleted :: bool
  idelta_before_public_surface_authoritative :: bool
  idelta_after_public_surface_authoritative :: bool
  idelta_public_surface_changed :: bool
  idelta_before_dependency_targets :: nat
  idelta_after_dependency_targets :: nat
  idelta_before_exports :: nat
  idelta_after_exports :: nat
  idelta_before_max_edge_selectors :: nat
  idelta_after_max_edge_selectors :: nat
  idelta_before_max_shape_members :: nat
  idelta_after_max_shape_members :: nat

record important_node_observation =
  imp_path :: repo_path
  imp_before_path :: "repo_path option"
  imp_deleted :: bool
  imp_before_confirmed_dependency_fan_in :: nat
  imp_after_confirmed_dependency_fan_in :: nat
  imp_before_explicit_exports :: nat
  imp_after_explicit_exports :: nat
  imp_before_public_surface_authoritative :: bool
  imp_after_public_surface_authoritative :: bool
  imp_newly_important :: bool
  imp_public_surface_changed :: bool

datatype documentation_reason =
    DocNewlyImportant | DocPublicSurfaceChanged | DocRenamed | DocDeleted

record documentation_requirement =
  dreq_code :: bytes
  dreq_path :: repo_path
  dreq_before_path :: "repo_path option"
  dreq_document :: "repo_path option"
  dreq_reasons :: "documentation_reason list"

datatype documentation_registry_state =
    RegistryNotRead | RegistryMissing | RegistryValid | RegistryInvalid | RegistryUnavailable

record documentation_coverage =
  dcov_evaluated :: bool
  dcov_before_registry :: documentation_registry_state
  dcov_after_registry :: documentation_registry_state
  dcov_before_bindings :: nat
  dcov_after_bindings :: nat
  dcov_documents_requested :: nat
  dcov_before_documents :: nat
  dcov_after_documents :: nat
  dcov_changed_documents :: nat
  dcov_public_surface_candidates :: nat
  dcov_authoritative_public_surfaces :: nat
  dcov_unavailable_public_surfaces :: nat

record direct_dependency_delta =
  ddd_path :: repo_path
  ddd_deleted :: bool
  ddd_before_runtime :: nat
  ddd_after_runtime :: nat
  ddd_runtime_delta :: int
  ddd_before_type_only :: nat
  ddd_after_type_only :: nat
  ddd_type_only_delta :: int
  ddd_before_structural :: nat
  ddd_after_structural :: nat
  ddd_structural_delta :: int

record impact_observation =
  impact_path :: repo_path
  impact_deleted :: bool
  impact_confirmed_direct_dependents :: nat
  impact_confirmed_reachable_dependents :: nat
  impact_reachable_count_is_lower_bound :: bool
  impact_sample :: "repo_path list"
  impact_sample_truncated :: bool

record high_impact_change =
  hic_path :: repo_path
  hic_confirmed_direct_dependents :: nat
  hic_threshold :: nat

record sense_observations =
  so_dependency_deltas :: "direct_dependency_delta list"
  so_impact :: "impact_observation list"
  so_high_impact_changes :: "high_impact_change list"
  so_interfaces :: "interface_delta list"
  so_important_nodes :: "important_node_observation list"
  so_impact_truncated :: bool
  so_truncated :: bool

datatype sense_status = SenseClean | SenseFindings | SensePartial | SenseIncomplete

datatype dedup_limit_stage =
    StageCallableFileExtraction | StageTokenRegionFileExtraction | StageCallableRequestCollection
    | StageTokenRegionRequestCollection | StageExactTokenComparison

datatype sense_view = ViewBefore | ViewAfter

record sense_issue =
  si_code :: bytes
  si_message :: bytes
  si_stage :: "dedup_limit_stage option"
  si_views :: "sense_view list"
  si_limit :: "nat option"
  si_processed :: "nat option"
  si_processed_is_lower_bound :: bool
  si_paths :: "repo_path list"
  si_paths_truncated :: bool
  si_next_step :: "bytes option"

record graph_view_summary =
  gv_view_id :: bytes
  gv_files :: nat
  gv_runtime_edges :: nat
  gv_type_only_edges :: nat
  gv_structural_edges :: nat
  gv_coverage :: resolution_coverage
  gv_resolution_gaps :: "resolution_gap_evidence list"
  gv_resolution_gaps_truncated :: bool
  gv_interface_edges :: nat
  gv_interface_coverage :: interface_coverage

record sense_timing =
  stm_total_us :: nat
  stm_capture_us :: nat
  stm_facts_us :: nat
  stm_resolution_us :: nat
  stm_cycles_us :: nat
  stm_observations_us :: nat
  stm_dedup_us :: nat
  stm_documentation_us :: nat
  stm_render_us :: nat
  stm_unique_files_analyzed :: nat
  stm_unique_source_bytes :: nat

record sense_report =
  sr_status :: sense_status
  sr_issues :: "sense_issue list"
  sr_introduced_cycles :: "introduced_cycle list"
  sr_introduced_duplicates :: "introduced_duplicate list"
  sr_interface_findings :: "interface_finding list"
  sr_documentation_requirements :: "documentation_requirement list"
  sr_findings_truncated :: bool
  sr_dedup_coverage :: dedup_coverage
  sr_documentation_coverage :: documentation_coverage
  sr_observations :: sense_observations
  sr_effective_policy :: effective_sense_policy
  sr_before :: graph_view_summary
  sr_after :: graph_view_summary
  sr_changed_files :: nat
  sr_valid_as_of :: bytes
  sr_provider :: provider_metadata
  sr_timing :: sense_timing
  sr_cache :: cache_metadata

section \<open>Operations\<close>

definition runtime_edges :: "projection \<Rightarrow> dependency_edge list" where
  "runtime_edges p = filter (\<lambda>e. edge_kind e = EdgeRuntime) (pj_edges p)"

definition dependency_edges :: "projection \<Rightarrow> dependency_edge list" where
  "dependency_edges p = filter (\<lambda>e. edge_kind e \<noteq> EdgeTypeOnly) (pj_edges p)"

definition pure_barrel :: "module_interface \<Rightarrow> bool" where
  "pure_barrel m \<longleftrightarrow> mi_has_reexports m \<and> \<not> mi_has_local_exports m"

definition SenseIssue_new :: "bytes \<Rightarrow> bytes \<Rightarrow> sense_issue" where
  "SenseIssue_new code message =
     \<lparr> si_code = code, si_message = message, si_stage = None, si_views = [], si_limit = None,
       si_processed = None, si_processed_is_lower_bound = False, si_paths = [],
       si_paths_truncated = False, si_next_step = None \<rparr>"

section \<open>Well-formed projections\<close>

text \<open>The ordered collections are ordered, and every edge joins two nodes.\<close>

definition projection_wf :: "projection \<Rightarrow> bool" where
  "projection_wf p \<longleftrightarrow> bs_wf (pj_nodes p) \<and> bs_wf (pj_edges p) \<and>
     (\<forall>e\<in>set (pj_edges p). edge_from e \<in> set (pj_nodes p) \<and> edge_to e \<in> set (pj_nodes p))"

lemma in_runtime_edges [simp]:
  "e \<in> set (runtime_edges p) \<longleftrightarrow> e \<in> set (pj_edges p) \<and> edge_kind e = EdgeRuntime"
  by (auto simp: runtime_edges_def)

lemma runtime_edges_wf: "projection_wf p \<Longrightarrow> bs_wf (runtime_edges p)"
  by (simp add: projection_wf_def runtime_edges_def bs_wf_def sorted_wrt_filter)

end
