(* ===== verification/DedupBase.thy ===== *)
theory DedupBase
  imports Evidence SenseModel Snapshot "HOL-Library.Option_ord"
begin

text \<open>
  What the duplicate searches share (\<^verbatim>\<open>sense/dedup.rs\<close>): looking up the facts of a file, counting
  occurrences per path, the paths whose count grew, and the bounds on anchors, occurrences and
  identifiers. The orders of \<^verbatim>\<open>SenseView\<close> and \<^verbatim>\<open>FingerprintExtractionStatus\<close> are the derived ones.
\<close>

section \<open>Orders\<close>

fun sense_view_index :: "sense_view \<Rightarrow> nat" where
  "sense_view_index ViewBefore = 0"
| "sense_view_index ViewAfter = 1"

lemma sense_view_index_inject [simp]: "sense_view_index a = sense_view_index b \<longleftrightarrow> a = b"
  by (cases a; cases b) simp_all

instantiation sense_view :: linorder
begin

definition less_eq_sense_view :: "sense_view \<Rightarrow> sense_view \<Rightarrow> bool" where
  "a \<le> b \<longleftrightarrow> sense_view_index a \<le> sense_view_index b"

definition less_sense_view :: "sense_view \<Rightarrow> sense_view \<Rightarrow> bool" where
  "a < b \<longleftrightarrow> sense_view_index a < sense_view_index b"

instance
  by standard (auto simp: less_eq_sense_view_def less_sense_view_def)

end

fun fingerprint_extraction_status_index :: "fingerprint_extraction_status \<Rightarrow> nat" where
  "fingerprint_extraction_status_index FComplete = 0"
| "fingerprint_extraction_status_index FTruncated = 1"
| "fingerprint_extraction_status_index FParserFailed = 2"
| "fingerprint_extraction_status_index FUnsupported = 3"

lemma fingerprint_extraction_status_index_inject [simp]:
  "fingerprint_extraction_status_index a = fingerprint_extraction_status_index b \<longleftrightarrow> a = b"
  by (cases a; cases b) simp_all

instantiation fingerprint_extraction_status :: linorder
begin

definition less_eq_fingerprint_extraction_status ::
    "fingerprint_extraction_status \<Rightarrow> fingerprint_extraction_status \<Rightarrow> bool" where
  "a \<le> b \<longleftrightarrow> fingerprint_extraction_status_index a \<le> fingerprint_extraction_status_index b"

definition less_fingerprint_extraction_status ::
    "fingerprint_extraction_status \<Rightarrow> fingerprint_extraction_status \<Rightarrow> bool" where
  "a < b \<longleftrightarrow> fingerprint_extraction_status_index a < fingerprint_extraction_status_index b"

instance
  by standard (auto simp: less_eq_fingerprint_extraction_status_def less_fingerprint_extraction_status_def)

end

section \<open>Facts of a file\<close>

type_synonym fact_map = "(file_fact_key, file_facts) btree_map"
type_synonym fact_key_lookup = "(content_id, (bytes, file_fact_key) btree_map) btree_map"
type_synonym path_continuity = "(repo_path, repo_path) btree_map"

definition lookup_file_fact ::
    "source_file \<Rightarrow> fact_map \<Rightarrow> fact_key_lookup \<Rightarrow> (file_fact_key \<times> file_facts) option" where
  "lookup_file_fact file facts keys =
     (case bt_get keys (sf_content_id file) of
        None \<Rightarrow> None
      | Some modes \<Rightarrow>
          (case bt_get modes (sf_language_mode file) of
             None \<Rightarrow> None
           | Some key \<Rightarrow> map_option (\<lambda>f. (key, f)) (bt_get facts key)))"

definition lookup_file_facts :: "source_file \<Rightarrow> fact_map \<Rightarrow> fact_key_lookup \<Rightarrow> file_facts option" where
  "lookup_file_facts file facts keys = map_option snd (lookup_file_fact file facts keys)"

text \<open>The path a file is compared under: \<^verbatim>\<open>continuity.get(path).cloned().unwrap_or_else(..)\<close>.\<close>

definition continued_path :: "path_continuity \<Rightarrow> repo_path \<Rightarrow> repo_path" where
  "continued_path continuity path = (case bt_get continuity path of Some p \<Rightarrow> p | None \<Rightarrow> path)"

section \<open>Counts and bounds\<close>

definition path_counts :: "('a \<Rightarrow> repo_path) \<Rightarrow> 'a list \<Rightarrow> (repo_path, nat) btree_map" where
  "path_counts path occurrences = fold (\<lambda>x. bt_entry 0 (\<lambda>c. sat_add c 1) (path x)) occurrences []"

definition paths_with_growth ::
    "(repo_path, nat) btree_map \<Rightarrow> (repo_path, nat) btree_map \<Rightarrow> repo_path btree_set" where
  "paths_with_growth before after =
     bs_collect (map fst (filter (\<lambda>e. (case bt_get before (fst e) of None \<Rightarrow> 0 | Some c \<Rightarrow> c) < snd e) after))"

definition bound_occurrences :: "duplicate_occurrence list \<Rightarrow> duplicate_occurrence list \<times> bool" where
  "bound_occurrences occurrences =
     (take MAX_OBSERVATION_PATHS occurrences, length occurrences > MAX_OBSERVATION_PATHS)"

text \<open>\<^verbatim>\<open>digest.get(..24).unwrap_or(digest)\<close>: the digests are hexadecimal, hence ASCII, text.\<close>

definition short_id :: "bytes \<Rightarrow> bytes" where
  "short_id digest = (if 24 \<le> length digest then take 24 digest else digest)"

definition prospective_region_anchor_total :: "nat \<Rightarrow> nat \<Rightarrow> nat option" where
  "prospective_region_anchor_total retained n =
     (if n \<le> MAX_REGION_FINGERPRINTS_PER_REQUEST - retained then Some (sat_add retained n) else None)"

text \<open>The address of the configuration manual, with the version of \<^verbatim>\<open>Cargo.toml\<close>.\<close>

definition select_targets_url :: bytes where
  "select_targets_url = ''https://the-open-engine.github.io/opcore/v0.3/docs/configuration.html#select-targets.''"

section \<open>What the counts mean\<close>

text \<open>The number of occurrences at a path; a count saturates only beyond \<open>usize_max\<close> occurrences.\<close>

definition occurrences_at :: "('a \<Rightarrow> repo_path) \<Rightarrow> 'a list \<Rightarrow> repo_path \<Rightarrow> nat" where
  "occurrences_at path xs p = length (filter (\<lambda>x. path x = p) xs)"

lemma path_counts_wf [simp]: "bt_wf (path_counts path xs)"
proof -
  have "bt_wf m \<Longrightarrow> bt_wf (fold (\<lambda>x. bt_entry 0 (\<lambda>c. sat_add c 1) (path x)) xs m)" for m :: "(repo_path, nat) btree_map"
    by (induction xs arbitrary: m) simp_all
  then show ?thesis by (simp add: path_counts_def)
qed

lemma path_counts_get:
  "bt_get (path_counts path xs) p =
    (if occurrences_at path xs p = 0 then None else Some (min (occurrences_at path xs p) usize_max))"
proof (induction xs rule: rev_induct)
  case Nil
  then show ?case by (simp add: path_counts_def occurrences_at_def)
next
  case (snoc x xs)
  have wf: "bt_wf (path_counts path xs)" by simp
  have step: "path_counts path (xs @ [x]) = bt_entry 0 (\<lambda>c. sat_add c 1) (path x) (path_counts path xs)"
    by (simp add: path_counts_def)
  have at: "occurrences_at path (xs @ [x]) p = occurrences_at path xs p + (if path x = p then 1 else 0)"
    by (simp add: occurrences_at_def)
  have one: "0 < usize_max" by (simp add: usize_max_def)
  show ?case unfolding step at using snoc wf one by (auto simp: sat_add_def)
qed

lemma paths_with_growth_iff:
  "p \<in> set (paths_with_growth (path_counts f xs) (path_counts g ys)) \<longleftrightarrow>
    min (occurrences_at f xs p) usize_max < min (occurrences_at g ys p) usize_max"
proof -
  let ?a = "path_counts g ys" and ?b = "path_counts f xs"
  have "p \<in> set (paths_with_growth ?b ?a) \<longleftrightarrow>
      (\<exists>c. bt_get ?a p = Some c \<and> (case bt_get ?b p of None \<Rightarrow> 0 | Some d \<Rightarrow> d) < c)"
    by (force simp: paths_with_growth_def bt_get_in_set [OF path_counts_wf])
  then show ?thesis by (auto simp: path_counts_get split: if_splits)
qed

lemma grown_path:
  "p \<in> set (paths_with_growth (path_counts f xs) (path_counts g ys)) \<Longrightarrow> occurrences_at f xs p < occurrences_at g ys p"
  unfolding paths_with_growth_iff by (simp add: min_def split: if_splits)

end
