(* ===== verification/Regions.thy ===== *)
theory Regions
  imports DedupBase
begin

text \<open>
  Introduced duplicate token regions (\<^verbatim>\<open>sense/dedup/regions.rs\<close>). Anchors with equal hashes only
  suggest a duplicate: every region is compared token by token, under a fixed budget of
  comparisons, before it is reported. The comparison state, which the source passes as
  \<^verbatim>\<open>&mut ComparisonState\<close>, is threaded through; an early return by \<^verbatim>\<open>?\<close> is the value \<^term>\<open>None\<close> of the
  first component. From \<open>exact_occurrences\<close> on, an index out of range panics in Rust: there the
  outer \<^term>\<open>None\<close> is the panic, which the lemmas exclude. \<^verbatim>\<open>usize\<close> has 64 bits, so the conversions
  from \<^verbatim>\<open>u32\<close> are the identity.
\<close>

section \<open>Views\<close>

datatype evidence_state = EvValidated | EvDecoded decoded_tokens | EvMalformed

type_synonym decoded_evidence = "(file_fact_key, evidence_state) btree_map"

definition decoded_state ::
    "(bytes \<Rightarrow> bytes option) \<Rightarrow> source_file \<Rightarrow> region_fingerprint_facts \<Rightarrow> evidence_state" where
  "decoded_state b64 source facts =
     (case decode_evidence b64 source facts of None \<Rightarrow> EvMalformed | Some d \<Rightarrow> EvDecoded d)"

definition evidence_state_of ::
    "(bytes \<Rightarrow> bytes option) \<Rightarrow> file_fact_key \<Rightarrow> source_file \<Rightarrow> region_fingerprint_facts \<Rightarrow> bool
     \<Rightarrow> decoded_evidence \<Rightarrow> evidence_state \<times> decoded_evidence" where
  "evidence_state_of b64 key source facts retain de =
     (let entry = (case bt_get de key of
                     Some st \<Rightarrow> st
                   | None \<Rightarrow> if retain then decoded_state b64 source facts
                             else if validate_evidence b64 source facts then EvValidated
                             else EvMalformed);
          st = (if retain \<and> entry = EvValidated then decoded_state b64 source facts else entry)
      in (st, bt_insert key st de))"

definition malformed_fact_keys :: "decoded_evidence \<Rightarrow> file_fact_key btree_set" where
  "malformed_fact_keys de = bs_collect (map fst (filter (\<lambda>e. snd e = EvMalformed) de))"

record region_file =
  rgf_source :: source_file
  rgf_path :: repo_path
  rgf_decoded :: decoded_tokens

record anchor_occurrence =
  ao_file :: nat
  ao_token_index :: nat

type_synonym anchor_groups = "(bytes, (hash_pair, anchor_occurrence list) btree_map) btree_map"

record region_view =
  rv_view :: sense_view
  rv_files :: "region_file list"
  rv_groups :: anchor_groups
  rv_retained_anchors :: nat
  rv_retained_tokens :: nat
  rv_request_truncated :: bool
  rv_malformed_paths :: "repo_path btree_set"
  rv_malformed_paths_truncated :: bool

definition record_bounded_path ::
    "repo_path \<Rightarrow> repo_path btree_set \<times> bool \<Rightarrow> repo_path btree_set \<times> bool" where
  "record_bounded_path path = (\<lambda>(paths, truncated).
     if path \<in> set paths then (paths, truncated)
     else if length paths \<ge> MAX_OBSERVATION_PATHS then (paths, True)
     else (bs_insert path paths, truncated))"

definition add_anchor :: "bytes \<Rightarrow> nat \<Rightarrow> region_fingerprint \<Rightarrow> anchor_groups \<Rightarrow> anchor_groups" where
  "add_anchor fam file anchor groups =
     bt_entry [] (bt_entry [] (\<lambda>os. os @ [\<lparr> ao_file = file, ao_token_index = token_index anchor \<rparr>])
                    (hash_one anchor, hash_two anchor)) fam groups"

text \<open>One iteration of the loop of \<^verbatim>\<open>RegionView::new\<close> over the files of the snapshot.\<close>

definition view_add_file ::
    "(bytes \<Rightarrow> bytes option) \<Rightarrow> fact_map \<Rightarrow> fact_key_lookup \<Rightarrow> path_continuity \<Rightarrow> source_file
     \<Rightarrow> region_view \<times> decoded_evidence \<Rightarrow> region_view \<times> decoded_evidence" where
  "view_add_file b64 file_facts fact_keys continuity source = (\<lambda>(view, de).
     case lookup_file_fact source file_facts fact_keys of
       None \<Rightarrow> (view, de)
     | Some (key, ff) \<Rightarrow>
       (let facts = ff_region_fingerprints ff in
        if rff_status facts \<noteq> FComplete then (view, de)
        else
          (let path = continued_path continuity (sf_path source);
               file_bounded = length (rff_anchors facts) \<le> MAX_REGION_FINGERPRINTS_PER_FILE;
               retained = (if file_bounded
                           then prospective_region_anchor_total (rv_retained_anchors view) (length (rff_anchors facts))
                           else None);
               (st, de) = evidence_state_of b64 key source facts (retained \<noteq> None) de
           in case st of
                EvMalformed \<Rightarrow>
                  (let (paths, truncated) = record_bounded_path path
                         (rv_malformed_paths view, rv_malformed_paths_truncated view)
                   in (view\<lparr> rv_malformed_paths := paths, rv_malformed_paths_truncated := truncated \<rparr>, de))
              | EvValidated \<Rightarrow> (if file_bounded then view\<lparr> rv_request_truncated := True \<rparr> else view, de)
              | EvDecoded decoded \<Rightarrow>
                  (case retained of
                     None \<Rightarrow> (view\<lparr> rv_request_truncated := True \<rparr>, de)
                   | Some tot \<Rightarrow>
                       (view\<lparr> rv_retained_anchors := tot,
                              rv_retained_tokens := sat_add (rv_retained_tokens view) (rff_token_count facts),
                              rv_files := rv_files view @
                                [\<lparr> rgf_source = source, rgf_path = path, rgf_decoded = decoded \<rparr>],
                              rv_groups := fold (add_anchor (family (sf_language source)) (length (rv_files view)))
                                (rff_anchors facts) (rv_groups view) \<rparr>, de)))))"

text \<open>The occurrences of an anchor were pushed with the index of a file of the view.\<close>

definition sort_occurrences :: "region_file list \<Rightarrow> anchor_groups \<Rightarrow> anchor_groups" where
  "sort_occurrences files groups =
     map (\<lambda>(fam, g). (fam, map (\<lambda>(k, os). (k, sort_key (\<lambda>x. (rgf_path (files ! ao_file x), ao_token_index x)) os)) g)) groups"

definition empty_region_view :: "sense_view \<Rightarrow> region_view" where
  "empty_region_view v =
     \<lparr> rv_view = v, rv_files = [], rv_groups = [], rv_retained_anchors = 0, rv_retained_tokens = 0,
       rv_request_truncated = False, rv_malformed_paths = [], rv_malformed_paths_truncated = False \<rparr>"

definition region_view_new ::
    "(bytes \<Rightarrow> bytes option) \<Rightarrow> sense_view \<Rightarrow> source_snapshot \<Rightarrow> fact_map \<Rightarrow> fact_key_lookup \<Rightarrow> path_continuity
     \<Rightarrow> decoded_evidence \<Rightarrow> region_view \<times> decoded_evidence" where
  "region_view_new b64 v snapshot file_facts fact_keys continuity de =
     (let (view, de) = fold (view_add_file b64 file_facts fact_keys continuity) (snapshot_file_list snapshot)
                         (empty_region_view v, de)
      in (view\<lparr> rv_groups := sort_occurrences (rv_files view) (rv_groups view) \<rparr>, de))"

section \<open>Tokens of a view\<close>

record token_location =
  tl_file :: nat
  tl_token :: nat

definition tl_offset :: "token_location \<Rightarrow> nat \<Rightarrow> token_location" where
  "tl_offset l n = l\<lparr> tl_token := sat_add (tl_token l) n \<rparr>"

definition tl_prior :: "token_location \<Rightarrow> token_location" where
  "tl_prior l = l\<lparr> tl_token := tl_token l - 1 \<rparr>"

record exact_token_text =
  et_tag :: byte
  et_prefix :: bytes
  et_text :: bytes

definition exact_token :: "region_view \<Rightarrow> token_location \<Rightarrow> exact_token_text option" where
  "exact_token view l =
     (case get_at (rv_files view) (tl_file l) of
        None \<Rightarrow> None
      | Some file \<Rightarrow>
     (case get_at (dts_tokens (rgf_decoded file)) (tl_token l) of
        None \<Rightarrow> None
      | Some token \<Rightarrow>
     (case get_range (dts_bytes (rgf_decoded file)) (fst (dt_prefix token)) (snd (dt_prefix token)) of
        None \<Rightarrow> None
      | Some prefix \<Rightarrow>
     (case get_range (sf_bytes (rgf_source file)) (dt_start token) (dt_end token) of
        None \<Rightarrow> None
      | Some txt \<Rightarrow> Some \<lparr> et_tag = dt_tag token, et_prefix = prefix, et_text = txt \<rparr>))))"

text \<open>The loop of \<^verbatim>\<open>region_digest\<close>: the bytes of one token after the other.\<close>

fun encode_region :: "bytes \<Rightarrow> bytes \<Rightarrow> decoded_token list \<Rightarrow> bytes option" where
  "encode_region evidence source [] = Some []"
| "encode_region evidence source (token # tokens) =
     (case get_range evidence (fst (dt_prefix token)) (snd (dt_prefix token)) of
        None \<Rightarrow> None
      | Some prefix \<Rightarrow>
     (case get_range source (dt_start token) (dt_end token) of
        None \<Rightarrow> None
      | Some txt \<Rightarrow>
          map_option (\<lambda>rest. be_bytes 4 (to_u32 (length prefix)) @ prefix @ [dt_tag token] @
                             be_bytes 4 (to_u32 (length txt)) @ txt @ rest)
            (encode_region evidence source tokens)))"

definition region_digest :: "crates \<Rightarrow> region_view \<Rightarrow> nat \<Rightarrow> nat \<Rightarrow> nat \<Rightarrow> bytes option" where
  "region_digest K view file start end =
     (case get_at (rv_files view) file of
        None \<Rightarrow> None
      | Some f \<Rightarrow>
     (case get_range (dts_tokens (rgf_decoded f)) start end of
        None \<Rightarrow> None
      | Some tokens \<Rightarrow>
          map_option (\<lambda>encoded. hex_encode K (hash_domain K ''dedup-token-region/v1''
                                   [family (sf_language (rgf_source f)), encoded]))
            (encode_region (dts_bytes (rgf_decoded f)) (sf_bytes (rgf_source f)) tokens)))"

definition file_range :: "region_file \<Rightarrow> nat \<Rightarrow> nat \<Rightarrow> source_range option" where
  "file_range file start end =
     (case get_at (dts_tokens (rgf_decoded file)) start of
        None \<Rightarrow> None
      | Some first \<Rightarrow>
          if end = 0 then None
          else (case get_at (dts_tokens (rgf_decoded file)) (end - 1) of
                  None \<Rightarrow> None
                | Some final \<Rightarrow> Some \<lparr> range_start = dts_position (rgf_decoded file) (dt_start first),
                                      range_end = dts_position (rgf_decoded file) (dt_end final) \<rparr>))"

section \<open>The comparison state\<close>

record comparison_state =
  cs_remaining :: nat
  cs_incomplete :: bool
  cs_findings_truncated :: bool
  cs_limit_reached :: bool
  cs_malformed_evidence :: bool
  cs_views :: "sense_view btree_set"
  cs_limit_paths :: "repo_path btree_set"
  cs_malformed_paths :: "repo_path btree_set"
  cs_malformed_paths_truncated :: bool

definition default_comparison_state :: comparison_state where
  "default_comparison_state =
     \<lparr> cs_remaining = MAX_DEDUP_TOKEN_COMPARISONS, cs_incomplete = False, cs_findings_truncated = False,
       cs_limit_reached = False, cs_malformed_evidence = False, cs_views = [], cs_limit_paths = [],
       cs_malformed_paths = [], cs_malformed_paths_truncated = False \<rparr>"

definition cs_record_malformed :: "repo_path \<Rightarrow> comparison_state \<Rightarrow> comparison_state" where
  "cs_record_malformed path cs =
     (let (paths, truncated) = record_bounded_path path (cs_malformed_paths cs, cs_malformed_paths_truncated cs)
      in cs\<lparr> cs_malformed_paths := paths, cs_malformed_paths_truncated := truncated \<rparr>)"

definition observe_malformed_view :: "region_view \<Rightarrow> comparison_state \<Rightarrow> comparison_state" where
  "observe_malformed_view view cs =
     (if rv_malformed_paths view = [] \<and> \<not> rv_malformed_paths_truncated view then cs
      else
        (let cs = cs\<lparr> cs_incomplete := True, cs_malformed_evidence := True,
                      cs_views := bs_insert (rv_view view) (cs_views cs) \<rparr>;
             cs = fold cs_record_malformed (rv_malformed_paths view) cs
         in cs\<lparr> cs_malformed_paths_truncated :=
                  (cs_malformed_paths_truncated cs \<or> rv_malformed_paths_truncated view) \<rparr>))"

definition record_limit_location :: "region_view \<Rightarrow> nat \<Rightarrow> comparison_state \<Rightarrow> comparison_state" where
  "record_limit_location view file cs =
     (let cs = cs\<lparr> cs_views := bs_insert (rv_view view) (cs_views cs) \<rparr>
      in case get_at (rv_files view) file of
           None \<Rightarrow> cs
         | Some f \<Rightarrow>
             if length (cs_limit_paths cs) < MAX_OBSERVATION_PATHS
             then cs\<lparr> cs_limit_paths := bs_insert (rgf_path f) (cs_limit_paths cs) \<rparr>
             else cs)"

record token_pair =
  tp_left_view :: region_view
  tp_left :: token_location
  tp_right_view :: region_view
  tp_right :: token_location

definition same_view :: "region_view \<Rightarrow> token_location \<Rightarrow> token_location \<Rightarrow> token_pair" where
  "same_view view left right =
     \<lparr> tp_left_view = view, tp_left = left, tp_right_view = view, tp_right = right \<rparr>"

definition record_limit_pair :: "token_pair \<Rightarrow> comparison_state \<Rightarrow> comparison_state" where
  "record_limit_pair pair cs =
     record_limit_location (tp_right_view pair) (tl_file (tp_right pair))
       (record_limit_location (tp_left_view pair) (tl_file (tp_left pair)) cs)"

definition mark_malformed_location :: "region_view \<Rightarrow> nat \<Rightarrow> comparison_state \<Rightarrow> comparison_state" where
  "mark_malformed_location view file cs =
     (let cs = cs\<lparr> cs_incomplete := True, cs_malformed_evidence := True,
                   cs_views := bs_insert (rv_view view) (cs_views cs) \<rparr>
      in case get_at (rv_files view) file of None \<Rightarrow> cs | Some f \<Rightarrow> cs_record_malformed (rgf_path f) cs)"

definition token_exists :: "region_view \<Rightarrow> nat \<Rightarrow> nat \<Rightarrow> comparison_state \<Rightarrow> bool \<times> comparison_state" where
  "token_exists view file token cs =
     (case get_at (rv_files view) file of
        None \<Rightarrow> (False, mark_malformed_location view file cs)
      | Some f \<Rightarrow> (token < length (dts_tokens (rgf_decoded f)), cs))"

definition tokens_equal :: "token_pair \<Rightarrow> comparison_state \<Rightarrow> bool option \<times> comparison_state" where
  "tokens_equal pair cs =
     (if cs_remaining cs = 0
      then (None, record_limit_pair pair (cs\<lparr> cs_incomplete := True, cs_limit_reached := True \<rparr>))
      else
        (let cs = cs\<lparr> cs_remaining := cs_remaining cs - 1 \<rparr>
         in case exact_token (tp_left_view pair) (tp_left pair) of
              None \<Rightarrow> (None, mark_malformed_location (tp_left_view pair) (tl_file (tp_left pair)) cs)
            | Some left \<Rightarrow>
                (case exact_token (tp_right_view pair) (tp_right pair) of
                   None \<Rightarrow> (None, mark_malformed_location (tp_right_view pair) (tl_file (tp_right pair)) cs)
                 | Some right \<Rightarrow> (Some (left = right), cs))))"

record region_pair =
  rp_left_view :: region_view
  rp_left_file :: nat
  rp_left :: "nat \<times> nat"
  rp_right_view :: region_view
  rp_right_file :: nat
  rp_right :: "nat \<times> nat"

definition region_pair_at :: "region_pair \<Rightarrow> nat \<Rightarrow> token_pair" where
  "region_pair_at pair n =
     \<lparr> tp_left_view = rp_left_view pair,
       tp_left = \<lparr> tl_file = rp_left_file pair, tl_token = sat_add (fst (rp_left pair)) n \<rparr>,
       tp_right_view = rp_right_view pair,
       tp_right = \<lparr> tl_file = rp_right_file pair, tl_token = sat_add (fst (rp_right pair)) n \<rparr> \<rparr>"

text \<open>A loop over pairs of tokens that stops at the first difference, or by \<^verbatim>\<open>?\<close>.\<close>

fun all_equal :: "(nat \<Rightarrow> token_pair) \<Rightarrow> nat list \<Rightarrow> comparison_state \<Rightarrow> bool option \<times> comparison_state" where
  "all_equal pair_at [] cs = (Some True, cs)"
| "all_equal pair_at (n # ns) cs =
     (case tokens_equal (pair_at n) cs of
        (None, cs) \<Rightarrow> (None, cs)
      | (Some False, cs) \<Rightarrow> (Some False, cs)
      | (Some True, cs) \<Rightarrow> all_equal pair_at ns cs)"

text \<open>The length of a Rust range is the truncated difference of its ends.\<close>

definition range_len :: "nat \<times> nat \<Rightarrow> nat" where
  "range_len r = snd r - fst r"

definition regions_equal :: "region_pair \<Rightarrow> comparison_state \<Rightarrow> bool option \<times> comparison_state" where
  "regions_equal pair cs =
     (if range_len (rp_left pair) \<noteq> range_len (rp_right pair) then (Some False, cs)
      else
        (let (left, cs) = token_exists (rp_left_view pair) (rp_left_file pair) (snd (rp_left pair) - 1) cs;
             (both, cs) = (if left
                           then token_exists (rp_right_view pair) (rp_right_file pair) (snd (rp_right pair) - 1) cs
                           else (False, cs))
         in if \<not> both then (if cs_incomplete cs then None else Some False, cs)
            else all_equal (region_pair_at pair) [0..<range_len (rp_left pair)] cs))"

section \<open>Maximal regions\<close>

definition distinct_anchor :: "anchor_occurrence \<Rightarrow> anchor_occurrence \<Rightarrow> bool" where
  "distinct_anchor left right \<longleftrightarrow>
     ao_file left \<noteq> ao_file right \<or>
     (if ao_token_index left \<le> ao_token_index right then ao_token_index right - ao_token_index left
      else ao_token_index left - ao_token_index right) \<ge> MIN_DEDUP_REGION_TOKENS"

definition anchor_tokens_match ::
    "region_view \<Rightarrow> token_location \<Rightarrow> token_location \<Rightarrow> comparison_state \<Rightarrow> bool option \<times> comparison_state" where
  "anchor_tokens_match view left right cs =
     all_equal (\<lambda>n. same_view view (tl_offset left n) (tl_offset right n)) [0..<DEDUP_REGION_KGRAM_TOKENS] cs"

function extend_left ::
    "region_view \<Rightarrow> token_location \<Rightarrow> token_location \<Rightarrow> comparison_state \<Rightarrow> nat option \<times> comparison_state" where
  "extend_left view left right cs =
     (if tl_token left > 0 \<and> tl_token right > 0 then
        (case tokens_equal (same_view view (tl_prior left) (tl_prior right)) cs of
           (None, cs) \<Rightarrow> (None, cs)
         | (Some False, cs) \<Rightarrow> (Some (tl_token left), cs)
         | (Some True, cs) \<Rightarrow> extend_left view (tl_prior left) (tl_prior right) cs)
      else (Some (tl_token left), cs))"
  by pat_completeness auto
termination
  by (relation "measure (\<lambda>(view, left, right, cs). tl_token left)") (auto simp: tl_prior_def)

declare extend_left.simps [simp del]

lemma tokens_equal_Some:
  assumes "tokens_equal pair cs = (Some b, cs')"
  obtains t u where "exact_token (tp_left_view pair) (tp_left pair) = Some t"
    and "exact_token (tp_right_view pair) (tp_right pair) = Some u"
    and "b \<longleftrightarrow> t = u" and "0 < cs_remaining cs" and "cs' = cs\<lparr> cs_remaining := cs_remaining cs - 1 \<rparr>"
  using assms by (auto simp: tokens_equal_def Let_def split: if_splits option.splits)

lemma tokens_equal_spends: "tokens_equal pair cs = (Some b, cs') \<Longrightarrow> cs_remaining cs' < cs_remaining cs"
  by (erule tokens_equal_Some) simp

text \<open>Every comparison uses up budget, so the extension to the right ends.\<close>

function extend_right ::
    "region_view \<Rightarrow> token_location \<Rightarrow> token_location \<Rightarrow> comparison_state \<Rightarrow> nat option \<times> comparison_state" where
  "extend_right view left right cs =
     (case token_exists view (tl_file left) (tl_token left) cs of
        (False, cs) \<Rightarrow> (Some (tl_token left), cs)
      | (True, cs) \<Rightarrow>
     (case token_exists view (tl_file right) (tl_token right) cs of
        (False, cs) \<Rightarrow> (Some (tl_token left), cs)
      | (True, cs) \<Rightarrow>
     (case tokens_equal (same_view view left right) cs of
        (None, cs) \<Rightarrow> (None, cs)
      | (Some False, cs) \<Rightarrow> (Some (tl_token left), cs)
      | (Some True, cs) \<Rightarrow> extend_right view (tl_offset left 1) (tl_offset right 1) cs)))"
  by pat_completeness auto
termination
  by (relation "measure (\<lambda>(view, left, right, cs). cs_remaining cs)")
    (auto simp: token_exists_def dest!: tokens_equal_spends [OF sym] split: option.splits)

declare extend_right.simps [simp del]

definition maximal_exact_region ::
    "region_view \<Rightarrow> anchor_occurrence \<Rightarrow> anchor_occurrence \<Rightarrow> comparison_state \<Rightarrow> (nat \<times> nat) option \<times> comparison_state" where
  "maximal_exact_region view left right cs =
     (let l = \<lparr> tl_file = ao_file left, tl_token = ao_token_index left \<rparr>;
          r = \<lparr> tl_file = ao_file right, tl_token = ao_token_index right \<rparr>
      in case anchor_tokens_match view l r cs of
           (None, cs) \<Rightarrow> (None, cs)
         | (Some False, cs) \<Rightarrow> (None, cs)
         | (Some True, cs) \<Rightarrow>
        (case extend_left view l r cs of
           (None, cs) \<Rightarrow> (None, cs)
         | (Some left_start, cs) \<Rightarrow>
        (case extend_right view (tl_offset l DEDUP_REGION_KGRAM_TOKENS) (tl_offset r DEDUP_REGION_KGRAM_TOKENS) cs of
           (None, cs) \<Rightarrow> (None, cs)
         | (Some left_end, cs) \<Rightarrow> (Some (left_start, left_end), cs))))"

record candidate =
  cd_file :: nat
  cd_start :: nat
  cd_end :: nat
  cd_anchor :: hash_pair
  cd_anchor_offset :: nat

definition cd_len :: "candidate \<Rightarrow> nat" where
  "cd_len c = cd_end c - cd_start c"

fun candidate_loop ::
    "region_view \<Rightarrow> hash_pair \<Rightarrow> anchor_occurrence \<Rightarrow> anchor_occurrence list \<Rightarrow> candidate list
     \<Rightarrow> (nat \<times> nat) btree_set \<Rightarrow> comparison_state \<Rightarrow> candidate list \<times> comparison_state" where
  "candidate_loop view anchor seed [] candidates ranges cs = (candidates, cs)"
| "candidate_loop view anchor seed (peer # peers) candidates ranges cs =
     (case maximal_exact_region view seed peer cs of
        (None, cs) \<Rightarrow>
          if cs_incomplete cs then (candidates, cs)
          else candidate_loop view anchor seed peers candidates ranges cs
      | (Some (start, end), cs) \<Rightarrow>
          if end - start < MIN_DEDUP_REGION_TOKENS
          then candidate_loop view anchor seed peers candidates ranges cs
          else if (start, end) \<in> set ranges
          then candidate_loop view anchor seed peers candidates ranges cs
          else candidate_loop view anchor seed peers
                 (candidates @ [\<lparr> cd_file = ao_file seed, cd_start = start, cd_end = end, cd_anchor = anchor,
                                  cd_anchor_offset = ao_token_index seed - start \<rparr>])
                 (bs_insert (start, end) ranges) cs)"

text \<open>Longer candidates come first, then those that start earlier.\<close>

definition candidate_regions ::
    "region_view \<Rightarrow> hash_pair \<Rightarrow> anchor_occurrence \<Rightarrow> anchor_occurrence list \<Rightarrow> comparison_state
     \<Rightarrow> candidate list \<times> comparison_state" where
  "candidate_regions view anchor seed occurrences cs =
     (let (candidates, cs) = candidate_loop view anchor seed (filter (distinct_anchor seed) occurrences) [] [] cs
      in (sort_key (\<lambda>c. (- int (cd_len c), cd_start c)) candidates, cs))"

section \<open>Classes\<close>

record exact_occurrence =
  eo_file :: nat
  eo_path :: repo_path
  eo_start :: nat
  eo_end :: nat
  eo_range :: source_range
  eo_changed :: bool

record exact_class =
  ec_digest :: bytes
  ec_family :: bytes
  ec_before_count :: nat
  ec_after_occurrences :: "exact_occurrence list"
  ec_introduced_count :: nat
  ec_token_count :: nat

definition duplicate_of :: "exact_occurrence \<Rightarrow> duplicate_occurrence" where
  "duplicate_of x =
     \<lparr> dup_path = eo_path x, dup_range = Some (eo_range x), dup_callable_kind = None, dup_changed = eo_changed x \<rparr>"

definition into_finding :: "exact_class \<Rightarrow> introduced_duplicate" where
  "into_finding c =
     (let occurrences = sort_key (\<lambda>d. (\<not> dup_changed d, dup_path d, dup_range d))
                          (map duplicate_of (ec_after_occurrences c));
          after_count = length occurrences;
          (occurrences, truncated) = bound_occurrences occurrences
      in \<lparr> idup_class_id = ''region-'' @ short_id (ec_digest c), idup_kind = DupTokenRegion,
           idup_language_family = Some (ec_family c), idup_before_count = ec_before_count c,
           idup_after_count = after_count, idup_introduced_count = ec_introduced_count c,
           idup_bytes = None, idup_token_count = Some (ec_token_count c),
           idup_occurrences = occurrences, idup_occurrences_truncated = truncated \<rparr>)"

text \<open>
  The loop of \<^verbatim>\<open>exact_occurrences\<close> over the anchors of a group. A first \<^term>\<open>None\<close> is a panic, a second
  the early return.
\<close>

fun occurrence_loop ::
    "region_view \<Rightarrow> candidate \<Rightarrow> region_view \<Rightarrow> repo_path btree_set \<Rightarrow> anchor_occurrence list
     \<Rightarrow> (repo_path \<times> nat, exact_occurrence) btree_map \<Rightarrow> comparison_state
     \<Rightarrow> ((repo_path \<times> nat, exact_occurrence) btree_map option \<times> comparison_state) option" where
  "occurrence_loop candidate_view cand target changed [] occurrences cs = Some (Some occurrences, cs)"
| "occurrence_loop candidate_view cand target changed (anchor # anchors) occurrences cs =
     (if ao_token_index anchor < cd_anchor_offset cand
      then occurrence_loop candidate_view cand target changed anchors occurrences cs
      else
        (let start = ao_token_index anchor - cd_anchor_offset cand;
             end = sat_add start (cd_len cand)
         in case regions_equal \<lparr> rp_left_view = candidate_view, rp_left_file = cd_file cand,
                                  rp_left = (cd_start cand, cd_end cand), rp_right_view = target,
                                  rp_right_file = ao_file anchor, rp_right = (start, end) \<rparr> cs of
              (None, cs) \<Rightarrow> Some (None, cs)
            | (Some False, cs) \<Rightarrow> occurrence_loop candidate_view cand target changed anchors occurrences cs
            | (Some True, cs) \<Rightarrow>
                (case get_at (rv_files target) (ao_file anchor) of
                   None \<Rightarrow> None
                 | Some file \<Rightarrow>
                     (case file_range file start end of
                        None \<Rightarrow> Some (None, mark_malformed_location target (ao_file anchor) cs)
                      | Some rng \<Rightarrow>
                          occurrence_loop candidate_view cand target changed anchors
                            (bt_entry \<lparr> eo_file = ao_file anchor, eo_path = rgf_path file, eo_start = start,
                                        eo_end = end, eo_range = rng,
                                        eo_changed = (rgf_path file \<in> set changed) \<rparr> (\<lambda>x. x)
                               (rgf_path file, start) occurrences) cs))))"

fun drop_overlaps :: "exact_occurrence list \<Rightarrow> exact_occurrence list \<Rightarrow> exact_occurrence list" where
  "drop_overlaps kept [] = kept"
| "drop_overlaps kept (x # xs) =
     drop_overlaps
       (if kept = [] \<or> eo_path (last kept) \<noteq> eo_path x \<or> eo_end (last kept) \<le> eo_start x then kept @ [x] else kept) xs"

definition exact_occurrences ::
    "region_view \<Rightarrow> candidate \<Rightarrow> region_view \<Rightarrow> bytes \<Rightarrow> repo_path btree_set \<Rightarrow> comparison_state
     \<Rightarrow> (exact_occurrence list option \<times> comparison_state) option" where
  "exact_occurrences candidate_view cand target fam changed cs =
     (case Option.bind (bt_get (rv_groups target) fam) (\<lambda>groups. bt_get groups (cd_anchor cand)) of
        None \<Rightarrow> Some (Some [], cs)
      | Some grp \<Rightarrow>
          (case occurrence_loop candidate_view cand target changed grp [] cs of
             None \<Rightarrow> None
           | Some (None, cs) \<Rightarrow> Some (None, cs)
           | Some (Some occurrences, cs) \<Rightarrow>
               Some (Some (drop_overlaps []
                 (sort_key (\<lambda>x. (eo_path x, eo_start x, eo_end x)) (map snd occurrences))), cs)))"

definition shadowed_by_callable ::
    "exact_occurrence list \<Rightarrow> repo_path btree_set \<Rightarrow> introduced_duplicate list \<Rightarrow> bool" where
  "shadowed_by_callable occurrences grew_paths callable_findings \<longleftrightarrow>
     grew_paths \<noteq> [] \<and>
     (\<forall>path\<in>set grew_paths. \<forall>region\<in>set (filter (\<lambda>x. eo_path x = path) occurrences).
        \<exists>finding\<in>set callable_findings. idup_kind finding = DupCallableBody \<and>
          (\<exists>callable\<in>set (idup_occurrences finding). dup_path callable = eo_path region \<and>
             (case dup_range callable of
                None \<Rightarrow> False
              | Some r \<Rightarrow> pos_byte (range_start r) < pos_byte (range_end (eo_range region)) \<and>
                          pos_byte (range_end r) > pos_byte (range_start (eo_range region)))))"

record region_inputs =
  ri_suppressed_paths :: "repo_path btree_set"
  ri_callable_findings :: "introduced_duplicate list"
  ri_finding_limit :: nat
  ri_changed_paths :: "repo_path btree_set"
  ri_continuity :: path_continuity
  ri_before :: source_snapshot
  ri_after :: source_snapshot
  ri_file_facts :: fact_map
  ri_fact_keys :: fact_key_lookup

record evaluation_context =
  ex_inputs :: region_inputs
  ex_before :: region_view
  ex_after :: region_view

definition exact_class_of ::
    "crates \<Rightarrow> evaluation_context \<Rightarrow> bytes \<Rightarrow> candidate \<Rightarrow> comparison_state
     \<Rightarrow> (exact_class option \<times> comparison_state) option" where
  "exact_class_of K cx fam cand cs =
     (case exact_occurrences (ex_after cx) cand (ex_before cx) fam (ri_changed_paths (ex_inputs cx)) cs of
        None \<Rightarrow> None
      | Some (None, cs) \<Rightarrow> Some (None, cs)
      | Some (Some before, cs) \<Rightarrow>
     (case exact_occurrences (ex_after cx) cand (ex_after cx) fam (ri_changed_paths (ex_inputs cx)) cs of
        None \<Rightarrow> None
      | Some (None, cs) \<Rightarrow> Some (None, cs)
      | Some (Some after, cs) \<Rightarrow>
          if length after < 2 \<or> length after \<le> length before then Some (None, cs)
          else
            (let grew_paths = paths_with_growth (path_counts eo_path before) (path_counts eo_path after)
             in if set grew_paths \<inter> set (ri_changed_paths (ex_inputs cx)) = {}
                   \<or> (grew_paths \<noteq> [] \<and> set grew_paths \<subseteq> set (ri_suppressed_paths (ex_inputs cx)))
                   \<or> shadowed_by_callable after grew_paths (ri_callable_findings (ex_inputs cx))
                then Some (None, cs)
                else
                  (case region_digest K (ex_after cx) (cd_file cand) (cd_start cand) (cd_end cand) of
                     None \<Rightarrow> Some (None, mark_malformed_location (ex_after cx) (cd_file cand) cs)
                   | Some digest \<Rightarrow>
                       Some (Some \<lparr> ec_digest = digest, ec_family = fam, ec_before_count = length before,
                                     ec_after_occurrences = after,
                                     ec_introduced_count = length after - length before,
                                     ec_token_count = cd_len cand \<rparr>, cs)))))"

section \<open>The evaluation of seeds\<close>

definition class_precedes :: "exact_class option \<Rightarrow> exact_class \<Rightarrow> bool" where
  "class_precedes current candidate \<longleftrightarrow>
     (case current of
        None \<Rightarrow> True
      | Some c \<Rightarrow> (length (ec_after_occurrences c), ec_token_count c) <
                   (length (ec_after_occurrences candidate), ec_token_count candidate))"

fun best_class ::
    "crates \<Rightarrow> evaluation_context \<Rightarrow> bytes \<Rightarrow> candidate list \<Rightarrow> exact_class option \<Rightarrow> comparison_state
     \<Rightarrow> (exact_class option \<times> comparison_state) option" where
  "best_class K cx fam [] best cs = Some (best, cs)"
| "best_class K cx fam (cand # cands) best cs =
     (case exact_class_of K cx fam cand cs of
        None \<Rightarrow> None
      | Some (None, cs) \<Rightarrow>
          if cs_incomplete cs then Some (best, cs) else best_class K cx fam cands best cs
      | Some (Some cls, cs) \<Rightarrow>
          best_class K cx fam cands (if class_precedes best cls then Some cls else best) cs)"

record evaluation_state =
  es_comparison :: comparison_state
  es_findings :: "introduced_duplicate list"
  es_reported_classes :: "(bytes \<times> bytes) btree_set"
  es_covered :: "(nat, (nat \<times> nat) list) btree_map"

definition default_evaluation_state :: evaluation_state where
  "default_evaluation_state =
     \<lparr> es_comparison = default_comparison_state, es_findings = [], es_reported_classes = [], es_covered = [] \<rparr>"

definition interval_contains :: "(nat, (nat \<times> nat) list) btree_map \<Rightarrow> nat \<Rightarrow> nat \<Rightarrow> bool" where
  "interval_contains covered file token \<longleftrightarrow>
     (case bt_get covered file of
        None \<Rightarrow> False
      | Some ranges \<Rightarrow> \<exists>r\<in>set ranges. fst r \<le> token \<and> token < snd r)"

definition mark_covered ::
    "exact_occurrence list \<Rightarrow> (nat, (nat \<times> nat) list) btree_map \<Rightarrow> (nat, (nat \<times> nat) list) btree_map" where
  "mark_covered occurrences covered =
     fold (\<lambda>x. bt_entry [] (\<lambda>rs. rs @ [(eo_start x, eo_end x)]) (eo_file x)) (filter eo_changed occurrences) covered"

definition evaluate_seed ::
    "crates \<Rightarrow> evaluation_context \<Rightarrow> bytes \<Rightarrow> hash_pair \<Rightarrow> anchor_occurrence list \<Rightarrow> anchor_occurrence
     \<Rightarrow> evaluation_state \<Rightarrow> evaluation_state option" where
  "evaluate_seed K cx fam anchor occurrences seed es =
     (case get_at (rv_files (ex_after cx)) (ao_file seed) of
        None \<Rightarrow> None
      | Some file \<Rightarrow>
          if rgf_path file \<notin> set (ri_changed_paths (ex_inputs cx))
             \<or> rgf_path file \<in> set (ri_suppressed_paths (ex_inputs cx))
             \<or> interval_contains (es_covered es) (ao_file seed) (ao_token_index seed)
          then Some es
          else
            (let (cands, cs) = candidate_regions (ex_after cx) anchor seed occurrences (es_comparison es)
             in case best_class K cx fam cands None cs of
                  None \<Rightarrow> None
                | Some (None, cs) \<Rightarrow> Some (es\<lparr> es_comparison := cs \<rparr>)
                | Some (Some cls, cs) \<Rightarrow>
                    (let es = es\<lparr> es_comparison := cs,
                                  es_covered := mark_covered (ec_after_occurrences cls) (es_covered es) \<rparr>
                     in if (fam, ec_digest cls) \<in> set (es_reported_classes es) then Some es
                        else
                          (let es = es\<lparr> es_reported_classes := bs_insert (fam, ec_digest cls) (es_reported_classes es) \<rparr>
                           in if length (es_findings es) \<ge> ri_finding_limit (ex_inputs cx)
                              then Some (es\<lparr> es_comparison := (es_comparison es)\<lparr> cs_findings_truncated := True \<rparr> \<rparr>)
                              else Some (es\<lparr> es_findings := es_findings es @ [into_finding cls] \<rparr>)))))"

definition has_distinct_anchors :: "anchor_occurrence list \<Rightarrow> bool" where
  "has_distinct_anchors occurrences =
     (case occurrences of [] \<Rightarrow> False | first # others \<Rightarrow> \<exists>c\<in>set others. distinct_anchor first c)"

fun any_introducible ::
    "region_view \<Rightarrow> repo_path btree_set \<Rightarrow> repo_path btree_set \<Rightarrow> anchor_occurrence list \<Rightarrow> bool option" where
  "any_introducible view changed suppressed [] = Some False"
| "any_introducible view changed suppressed (x # xs) =
     (case get_at (rv_files view) (ao_file x) of
        None \<Rightarrow> None
      | Some file \<Rightarrow>
          if rgf_path file \<in> set changed \<and> rgf_path file \<notin> set suppressed then Some True
          else any_introducible view changed suppressed xs)"

definition anchor_class_may_be_introduced ::
    "evaluation_context \<Rightarrow> anchor_occurrence list \<Rightarrow> bool option" where
  "anchor_class_may_be_introduced cx after =
     (if length after \<ge> 2 \<and> has_distinct_anchors after
      then any_introducible (ex_after cx) (ri_changed_paths (ex_inputs cx)) (ri_suppressed_paths (ex_inputs cx)) after
      else Some False)"

fun seed_loop ::
    "crates \<Rightarrow> evaluation_context \<Rightarrow> bytes \<Rightarrow> hash_pair \<Rightarrow> anchor_occurrence list \<Rightarrow> anchor_occurrence list
     \<Rightarrow> evaluation_state \<Rightarrow> evaluation_state option" where
  "seed_loop K cx fam anchor occurrences [] es = Some es"
| "seed_loop K cx fam anchor occurrences (seed # seeds) es =
     (case evaluate_seed K cx fam anchor occurrences seed es of
        None \<Rightarrow> None
      | Some es \<Rightarrow> if cs_incomplete (es_comparison es) then Some es
                    else seed_loop K cx fam anchor occurrences seeds es)"

definition evaluate_group ::
    "crates \<Rightarrow> evaluation_context \<Rightarrow> bytes \<Rightarrow> hash_pair \<Rightarrow> anchor_occurrence list
     \<Rightarrow> evaluation_state \<Rightarrow> evaluation_state option" where
  "evaluate_group K cx fam anchor after es =
     (case anchor_class_may_be_introduced cx after of
        None \<Rightarrow> None
      | Some False \<Rightarrow> Some es
      | Some True \<Rightarrow> seed_loop K cx fam anchor after after es)"

text \<open>The two nested loops of \<^verbatim>\<open>region_findings\<close>, over every group of every family in order.\<close>

fun family_loop ::
    "crates \<Rightarrow> evaluation_context \<Rightarrow> (bytes \<times> hash_pair \<times> anchor_occurrence list) list
     \<Rightarrow> evaluation_state \<Rightarrow> evaluation_state option" where
  "family_loop K cx [] es = Some es"
| "family_loop K cx ((fam, anchor, after) # groups) es =
     (case evaluate_group K cx fam anchor after es of
        None \<Rightarrow> None
      | Some es \<Rightarrow> if cs_incomplete (es_comparison es) then Some es else family_loop K cx groups es)"

definition flat_groups :: "anchor_groups \<Rightarrow> (bytes \<times> hash_pair \<times> anchor_occurrence list) list" where
  "flat_groups groups = concat (map (\<lambda>(fam, g). map (\<lambda>(k, os). (fam, k, os)) g) groups)"

section \<open>Results\<close>

record region_coverage =
  rc_anchors :: nat
  rc_tokens :: nat
  rc_request_truncated :: bool
  rc_malformed_evidence :: bool

definition view_coverage :: "region_view \<Rightarrow> comparison_state \<Rightarrow> region_coverage" where
  "view_coverage view cs =
     \<lparr> rc_anchors = rv_retained_anchors view, rc_tokens = rv_retained_tokens view,
       rc_request_truncated =
         (rv_request_truncated view \<or> (cs_limit_reached cs \<and> rv_view view \<in> set (cs_views cs))),
       rc_malformed_evidence =
         (rv_malformed_paths view \<noteq> [] \<or> rv_malformed_paths_truncated view
          \<or> (cs_malformed_evidence cs \<and> rv_view view \<in> set (cs_views cs))) \<rparr>"

definition apply_region_coverage :: "region_coverage \<Rightarrow> fingerprint_coverage \<Rightarrow> fingerprint_coverage" where
  "apply_region_coverage rc coverage =
     coverage\<lparr> fpc_region_anchors := rc_anchors rc, fpc_region_tokens := rc_tokens rc,
       fpc_request_truncated := (fpc_request_truncated coverage \<or> rc_request_truncated rc),
       fpc_malformed_evidence := (fpc_malformed_evidence coverage \<or> rc_malformed_evidence rc) \<rparr>"

definition limit_next_step :: "bytes \<Rightarrow> bytes" where
  \<open>limit_next_step advice =
     ''No runtime option raises this fixed safety limit. '' @ advice @
     ''or, for generated/vendor trees, use literal targets.exclude entries such as '' @
     ''{"schemaVersion":1,"targets":{"exclude":["generated","vendor"]}}. See '' @ select_targets_url\<close>

definition limit_issue :: "comparison_state \<Rightarrow> sense_issue option" where
  "limit_issue cs =
     (if \<not> cs_limit_reached cs then None
      else Some ((SenseIssue_new ''dedup_exact_comparison_limit''
          (''exact token comparison reached the fixed limit of '' @ show_nat MAX_DEDUP_TOKEN_COMPARISONS @
           ''; candidate duplicate regions remain unchecked''))
        \<lparr> si_stage := Some StageExactTokenComparison, si_views := cs_views cs,
          si_limit := Some MAX_DEDUP_TOKEN_COMPARISONS, si_processed := Some MAX_DEDUP_TOKEN_COMPARISONS,
          si_paths := cs_limit_paths cs, si_paths_truncated := True,
          si_next_step := Some (limit_next_step ''Split unusually repetitive source '') \<rparr>))"

definition malformed_issue :: "comparison_state \<Rightarrow> sense_issue" where
  "malformed_issue cs =
     (SenseIssue_new ''dedup_exact_evidence_malformed''
        ''exact token evidence was malformed; duplicate comparison could not complete'')
     \<lparr> si_views := cs_views cs, si_paths := cs_malformed_paths cs,
       si_paths_truncated := cs_malformed_paths_truncated cs,
       si_next_step := Some (''Rerun with a fresh local cache. If the error repeats, report the affected '' @
         ''files; --allow-partial cannot make malformed evidence complete.'') \<rparr>"

definition comparison_issues :: "comparison_state \<Rightarrow> sense_issue list" where
  "comparison_issues cs =
     (case limit_issue cs of None \<Rightarrow> [] | Some i \<Rightarrow> [i]) @
     (if cs_malformed_evidence cs then [malformed_issue cs] else [])"

record region_result =
  rr_findings :: "introduced_duplicate list"
  rr_findings_truncated :: bool
  rr_before :: region_coverage
  rr_after :: region_coverage
  rr_comparison_issues :: "sense_issue list"
  rr_malformed_fact_keys :: "file_fact_key btree_set"

definition region_findings ::
    "crates \<Rightarrow> (bytes \<Rightarrow> bytes option) \<Rightarrow> region_inputs \<Rightarrow> region_result option" where
  "region_findings K b64 inputs =
     (let (before, de) = region_view_new b64 ViewBefore (ri_before inputs) (ri_file_facts inputs)
                           (ri_fact_keys inputs) (ri_continuity inputs) [];
          (after, de) = region_view_new b64 ViewAfter (ri_after inputs) (ri_file_facts inputs)
                           (ri_fact_keys inputs) [] de;
          cx = \<lparr> ex_inputs = inputs, ex_before = before, ex_after = after \<rparr>;
          cs = observe_malformed_view after (observe_malformed_view before default_comparison_state);
          es = default_evaluation_state\<lparr> es_comparison := cs \<rparr>
      in case (if cs_incomplete cs then Some es else family_loop K cx (flat_groups (rv_groups after)) es) of
           None \<Rightarrow> None
         | Some es \<Rightarrow>
             Some \<lparr> rr_findings = es_findings es,
                    rr_findings_truncated = cs_findings_truncated (es_comparison es),
                    rr_before = view_coverage before (es_comparison es),
                    rr_after = view_coverage after (es_comparison es),
                    rr_comparison_issues = comparison_issues (es_comparison es),
                    rr_malformed_fact_keys = malformed_fact_keys de \<rparr>)"

definition validate_identical_snapshot ::
    "(bytes \<Rightarrow> bytes option) \<Rightarrow> source_snapshot \<Rightarrow> fact_map \<Rightarrow> fact_key_lookup
     \<Rightarrow> region_coverage \<times> sense_issue list \<times> file_fact_key btree_set" where
  "validate_identical_snapshot b64 snapshot file_facts fact_keys =
     (let (view, de) = region_view_new b64 ViewBefore snapshot file_facts fact_keys [] [];
          cs = observe_malformed_view view default_comparison_state;
          cs = (if cs_malformed_evidence cs then cs\<lparr> cs_views := bs_insert ViewAfter (cs_views cs) \<rparr> else cs)
      in (view_coverage view cs, comparison_issues cs, malformed_fact_keys de))"

end
