(* ===== verification/RegionsExact.thy ===== *)
theory RegionsExact
  imports Regions
begin

text \<open>
  What the region search of the theory \<open>Regions\<close> guarantees. Every comparison either decides exactly
  whether two tokens agree or leaves the comparison state incomplete; hence every class, and every
  finding, is a genuine duplicate whatever the anchors' hashes are, and the search never indexes out of
  range.
\<close>

section \<open>Comparisons are exact\<close>

definition same_token :: "token_pair \<Rightarrow> bool" where
  "same_token pair \<longleftrightarrow>
     exact_token (tp_left_view pair) (tp_left pair) = exact_token (tp_right_view pair) (tp_right pair) \<and>
     exact_token (tp_left_view pair) (tp_left pair) \<noteq> None"

text \<open>A state only moves on: budget is spent, and what made it incomplete stays recorded.\<close>

definition moves :: "comparison_state \<Rightarrow> comparison_state \<Rightarrow> bool" where
  "moves s t \<longleftrightarrow>
     cs_remaining t \<le> cs_remaining s \<and> (cs_incomplete s \<longrightarrow> cs_incomplete t) \<and>
     (cs_limit_reached s \<longrightarrow> cs_limit_reached t) \<and> (cs_malformed_evidence s \<longrightarrow> cs_malformed_evidence t) \<and>
     cs_findings_truncated t = cs_findings_truncated s \<and>
     ((cs_incomplete s \<longleftrightarrow> cs_limit_reached s \<or> cs_malformed_evidence s) \<longrightarrow>
      (cs_incomplete t \<longleftrightarrow> cs_limit_reached t \<or> cs_malformed_evidence t))"

lemma moves_refl [simp]: "moves s s"
  by (simp add: moves_def)

lemma moves_trans [trans]: "moves s t \<Longrightarrow> moves t u \<Longrightarrow> moves s u"
  unfolding moves_def by (elim conjE) (intro conjI; simp)

lemma cs_record_malformed_simps [simp]:
  "cs_remaining (cs_record_malformed p cs) = cs_remaining cs"
  "cs_incomplete (cs_record_malformed p cs) = cs_incomplete cs"
  "cs_limit_reached (cs_record_malformed p cs) = cs_limit_reached cs"
  "cs_malformed_evidence (cs_record_malformed p cs) = cs_malformed_evidence cs"
  "cs_findings_truncated (cs_record_malformed p cs) = cs_findings_truncated cs"
  by (simp_all add: cs_record_malformed_def split_def Let_def)

lemma record_limit_location_simps [simp]:
  "cs_remaining (record_limit_location v f cs) = cs_remaining cs"
  "cs_incomplete (record_limit_location v f cs) = cs_incomplete cs"
  "cs_limit_reached (record_limit_location v f cs) = cs_limit_reached cs"
  "cs_malformed_evidence (record_limit_location v f cs) = cs_malformed_evidence cs"
  "cs_findings_truncated (record_limit_location v f cs) = cs_findings_truncated cs"
  by (simp_all add: record_limit_location_def Let_def split: option.split)

lemma mark_malformed_location_simps [simp]:
  "cs_remaining (mark_malformed_location v f cs) = cs_remaining cs"
  "cs_incomplete (mark_malformed_location v f cs)"
  "cs_limit_reached (mark_malformed_location v f cs) = cs_limit_reached cs"
  "cs_malformed_evidence (mark_malformed_location v f cs)"
  "cs_findings_truncated (mark_malformed_location v f cs) = cs_findings_truncated cs"
  by (simp_all add: mark_malformed_location_def Let_def split: option.split)

lemma mark_malformed_location_moves [simp]: "moves cs (mark_malformed_location v f cs)"
  by (simp add: moves_def)

lemma tokens_equal_outcome:
  assumes "tokens_equal pair cs = (r, cs')"
  shows "moves cs cs' \<and> (r = None \<longrightarrow> cs_incomplete cs') \<and> (\<forall>b. r = Some b \<longrightarrow> (b \<longleftrightarrow> same_token pair) \<and> cs_incomplete cs' = cs_incomplete cs)"
  using assms
  by (auto simp: tokens_equal_def same_token_def record_limit_pair_def moves_def Let_def split: if_splits option.splits)

lemma token_exists_outcome:
  assumes "token_exists view file token cs = (b, cs')"
  shows "moves cs cs' \<and> (b \<longrightarrow> cs' = cs \<and> (\<exists>f. get_at (rv_files view) file = Some f \<and> token < length (dts_tokens (rgf_decoded f)))) \<and>
    (\<not> b \<and> \<not> cs_incomplete cs' \<longrightarrow> cs' = cs \<and> (\<exists>f. get_at (rv_files view) file = Some f \<and> length (dts_tokens (rgf_decoded f)) \<le> token))"
  using assms by (auto simp: token_exists_def split: option.splits)

lemma all_equal_outcome:
  assumes "all_equal pa ns cs = (r, cs')"
  shows "moves cs cs' \<and> (r = None \<longrightarrow> cs_incomplete cs') \<and>
    (\<forall>b. r = Some b \<longrightarrow> (b \<longleftrightarrow> (\<forall>n\<in>set ns. same_token (pa n))) \<and> cs_incomplete cs' = cs_incomplete cs)"
  using assms
proof (induction pa ns cs rule: all_equal.induct)
  case (1 pa cs)
  then show ?case by auto
next
  case (2 pa n ns cs)
  obtain q cs1 where t: "tokens_equal (pa n) cs = (q, cs1)" by (cases "tokens_equal (pa n) cs")
  note o = tokens_equal_outcome [OF t]
  show ?case
  proof (cases "q = Some True")
    case True
    with 2 t have "all_equal pa ns cs1 = (r, cs')" by simp
    from 2(1) [OF t [symmetric] True _ this] True t o show ?thesis
      by (auto intro: moves_trans)
  next
    case False
    with 2(2) t have "(r, cs') = (if q = None then None else Some False, cs1)"
      by (auto split: option.splits bool.splits)
    with o False show ?thesis by auto
  qed
qed

text \<open>The tokens of a view from a position on.\<close>

definition tokens_at :: "region_view \<Rightarrow> nat \<Rightarrow> nat \<Rightarrow> exact_token_text list \<Rightarrow> bool" where
  "tokens_at view file start ts \<longleftrightarrow>
     (\<forall>i<length ts. exact_token view \<lparr> tl_file = file, tl_token = start + i \<rparr> = Some (ts ! i))"

definition view_tokens :: "region_view \<Rightarrow> nat \<Rightarrow> nat \<Rightarrow> nat \<Rightarrow> exact_token_text list" where
  "view_tokens view file start n =
     map (\<lambda>i. the (exact_token view \<lparr> tl_file = file, tl_token = start + i \<rparr>)) [0..<n]"

lemma length_view_tokens [simp]: "length (view_tokens view file start n) = n"
  by (simp add: view_tokens_def)

lemma tokens_at_same:
  assumes "\<And>i. i < n \<Longrightarrow> same_token \<lparr> tp_left_view = v, tp_left = \<lparr> tl_file = f, tl_token = a + i \<rparr>,
                                          tp_right_view = w, tp_right = \<lparr> tl_file = g, tl_token = b + i \<rparr> \<rparr>"
  shows "tokens_at v f a (view_tokens v f a n) \<and> tokens_at w g b (view_tokens v f a n)"
proof -
  have "exact_token v \<lparr> tl_file = f, tl_token = a + i \<rparr> = Some (view_tokens v f a n ! i) \<and>
      exact_token w \<lparr> tl_file = g, tl_token = b + i \<rparr> = Some (view_tokens v f a n ! i)" if "i < n" for i
  proof -
    obtain y where "exact_token w \<lparr> tl_file = g, tl_token = b + i \<rparr> = Some y"
        "exact_token v \<lparr> tl_file = f, tl_token = a + i \<rparr> = Some y"
      using assms [OF \<open>i < n\<close>] by (fastforce simp: same_token_def)
    with that show ?thesis by (simp add: view_tokens_def)
  qed
  then show ?thesis by (simp add: tokens_at_def)
qed

lemma regions_equal_outcome:
  assumes "regions_equal pair cs = (r, cs')"
  shows "moves cs cs' \<and> (r = None \<longrightarrow> cs_incomplete cs')"
  using assms
  by (auto simp: regions_equal_def Let_def split: prod.splits if_splits
      dest!: token_exists_outcome all_equal_outcome intro: moves_trans)

lemma regions_equal_True:
  assumes "regions_equal pair cs = (Some True, cs')"
    and "rp_right pair = (start, sat_add start n)" and "n = range_len (rp_left pair)"
    and "snd (rp_left pair) \<le> usize_max" and "0 < n"
  shows "start + n \<le> usize_max \<and> (\<exists>f. get_at (rv_files (rp_right_view pair)) (rp_right_file pair) = Some f) \<and>
    tokens_at (rp_left_view pair) (rp_left_file pair) (fst (rp_left pair))
      (view_tokens (rp_left_view pair) (rp_left_file pair) (fst (rp_left pair)) n) \<and>
    tokens_at (rp_right_view pair) (rp_right_file pair) start
      (view_tokens (rp_left_view pair) (rp_left_file pair) (fst (rp_left pair)) n)"
proof -
  have len: "range_len (rp_left pair) = range_len (rp_right pair)"
    using assms(1) by (auto simp: regions_equal_def split: if_splits)
  with assms(2,3) have "sat_add start n - start = n" by (simp add: range_len_def)
  with assms(5) have le: "start + n \<le> usize_max" by (simp add: sat_add_def min_def split: if_splits)
  from assms(3,5) have lt: "fst (rp_left pair) + n = snd (rp_left pair)" by (simp add: range_len_def)
  obtain b1 cs1 where l: "token_exists (rp_left_view pair) (rp_left_file pair) (snd (rp_left pair) - 1) cs = (b1, cs1)"
    by (cases "token_exists (rp_left_view pair) (rp_left_file pair) (snd (rp_left pair) - 1) cs")
  obtain b2 cs2 where r: "token_exists (rp_right_view pair) (rp_right_file pair) (snd (rp_right pair) - 1) cs1 = (b2, cs2)"
    by (cases "token_exists (rp_right_view pair) (rp_right_file pair) (snd (rp_right pair) - 1) cs1")
  have a: "b1 \<and> b2 \<and> all_equal (region_pair_at pair) [0..<n] cs2 = (Some True, cs')"
    using assms(1,3) len l r by (simp add: regions_equal_def split: if_splits)
  have "same_token (region_pair_at pair i)" if "i < n" for i
    using all_equal_outcome [of "region_pair_at pair" "[0..<n]" cs2 "Some True" cs'] a that by auto
  then have "same_token \<lparr> tp_left_view = rp_left_view pair, tp_left = \<lparr> tl_file = rp_left_file pair, tl_token = fst (rp_left pair) + i \<rparr>,
      tp_right_view = rp_right_view pair, tp_right = \<lparr> tl_file = rp_right_file pair, tl_token = start + i \<rparr> \<rparr>" if "i < n" for i
    using that le lt assms(2,4) by (auto simp: region_pair_at_def sat_add_exact)
  from tokens_at_same [OF this] token_exists_outcome [OF r] a le show ?thesis by auto
qed

section \<open>Occurrences are genuine\<close>

definition genuine_occurrence :: "region_view \<Rightarrow> exact_token_text list \<Rightarrow> exact_occurrence \<Rightarrow> bool" where
  "genuine_occurrence view ts x \<longleftrightarrow>
     eo_end x = eo_start x + length ts \<and> tokens_at view (eo_file x) (eo_start x) ts \<and>
     (case get_at (rv_files view) (eo_file x) of
        None \<Rightarrow> False
      | Some f \<Rightarrow> eo_path x = rgf_path f \<and> file_range f (eo_start x) (eo_end x) = Some (eo_range x))"

definition candidate_wf :: "candidate \<Rightarrow> bool" where
  "candidate_wf c \<longleftrightarrow> cd_end c \<le> usize_max \<and> MIN_DEDUP_REGION_TOKENS \<le> cd_len c"

abbreviation candidate_tokens :: "region_view \<Rightarrow> candidate \<Rightarrow> exact_token_text list" where
  "candidate_tokens view c \<equiv> view_tokens view (cd_file c) (cd_start c) (cd_len c)"

lemma MIN_DEDUP_REGION_TOKENS_pos [simp]: "0 < MIN_DEDUP_REGION_TOKENS"
  by (simp add: MIN_DEDUP_REGION_TOKENS_def DEDUP_REGION_KGRAM_TOKENS_def DEDUP_REGION_WINNOW_SPAN_def)

text \<open>The value of a map after \<^verbatim>\<open>entry(k).or_insert(v)\<close> is an old one or \<open>v\<close>.\<close>

lemma bt_insert_values: "snd ` set (bt_insert k v m) \<subseteq> insert v (snd ` set m)"
  by (induction m) auto

lemma bt_entry_values: "v \<in> snd ` set (bt_entry d (\<lambda>x. x) k m) \<Longrightarrow> v = d \<or> v \<in> snd ` set m"
  using bt_insert_values [of k "case bt_get m k of None \<Rightarrow> d | Some v \<Rightarrow> v" m]
  by (force simp: bt_entry_def split: option.splits dest: map_of_SomeD)

definition all_genuine ::
    "region_view \<Rightarrow> exact_token_text list \<Rightarrow> repo_path btree_set \<Rightarrow> exact_occurrence set \<Rightarrow> bool" where
  "all_genuine view ts changed X \<longleftrightarrow>
     (\<forall>x\<in>X. genuine_occurrence view ts x \<and> (eo_changed x \<longleftrightarrow> eo_path x \<in> set changed))"

text \<open>A step that ends without a panic, in a later state, with \<^term>\<open>None\<close> only when incomplete.\<close>

definition returns :: "comparison_state \<Rightarrow> ('a option \<times> comparison_state) option \<Rightarrow> ('a \<Rightarrow> bool) \<Rightarrow> bool" where
  "returns cs out P \<longleftrightarrow>
     (\<exists>r cs'. out = Some (r, cs') \<and> moves cs cs' \<and> (r = None \<longrightarrow> cs_incomplete cs') \<and> (\<forall>a. r = Some a \<longrightarrow> P a))"

lemma returnsI: "moves cs cs' \<Longrightarrow> P a \<Longrightarrow> returns cs (Some (Some a, cs')) P"
  by (simp add: returns_def)

lemma returns_NoneI: "moves cs cs' \<Longrightarrow> cs_incomplete cs' \<Longrightarrow> returns cs (Some (None, cs')) P"
  by (simp add: returns_def)

lemma returns_later: "moves cs cs1 \<Longrightarrow> returns cs1 out P \<Longrightarrow> returns cs out P"
  by (auto simp: returns_def intro: moves_trans)

lemma occurrence_loop_outcome:
  assumes "candidate_wf cand" and "all_genuine target (candidate_tokens cview cand) changed (snd ` set occ)"
  shows "returns cs (occurrence_loop cview cand target changed anchors occ cs)
    (\<lambda>occ'. all_genuine target (candidate_tokens cview cand) changed (snd ` set occ'))"
  using assms
proof (induction anchors arbitrary: occ cs)
  case Nil
  then show ?case by (simp add: returnsI)
next
  case (Cons a anchors)
  define start where "start = ao_token_index a - cd_anchor_offset cand"
  define pair where "pair = \<lparr> rp_left_view = cview, rp_left_file = cd_file cand, rp_left = (cd_start cand, cd_end cand),
    rp_right_view = target, rp_right_file = ao_file a, rp_right = (start, sat_add start (cd_len cand)) \<rparr>"
  obtain r cs1 where r: "regions_equal pair cs = (r, cs1)" by (cases "regions_equal pair cs")
  note o = regions_equal_outcome [OF r]
  consider "ao_token_index a < cd_anchor_offset cand"
    | "\<not> ao_token_index a < cd_anchor_offset cand" "r = None"
    | "\<not> ao_token_index a < cd_anchor_offset cand" "r = Some False"
    | "\<not> ao_token_index a < cd_anchor_offset cand" "r = Some True" by (cases r) auto
  then show ?case
  proof cases
    case 1
    with Cons.IH [OF Cons.prems] show ?thesis by simp
  next
    case 2
    with o r show ?thesis by (simp add: pair_def start_def returns_NoneI)
  next
    case 3
    with r have eq: "occurrence_loop cview cand target changed (a # anchors) occ cs =
        occurrence_loop cview cand target changed anchors occ cs1"
      by (simp add: pair_def start_def)
    show ?thesis unfolding eq by (rule returns_later) (use o Cons.IH [OF Cons.prems] in blast)+
  next
    case 4
    from Cons.prems(1) have "0 < cd_len cand" "cd_end cand \<le> usize_max"
      using less_le_trans [OF MIN_DEDUP_REGION_TOKENS_pos] by (auto simp: candidate_wf_def)
    with regions_equal_True [OF r [unfolded 4(2)], of start "cd_len cand"]
    have t: "start + cd_len cand \<le> usize_max" "tokens_at target (ao_file a) start (candidate_tokens cview cand)"
      and f: "\<exists>f. get_at (rv_files target) (ao_file a) = Some f"
      by (simp_all add: pair_def range_len_def cd_len_def)
    then have e: "sat_add start (cd_len cand) = start + cd_len cand" by (simp add: sat_add_exact)
    from f obtain f where f: "get_at (rv_files target) (ao_file a) = Some f" by blast
    show ?thesis
    proof (cases "file_range f start (start + cd_len cand)")
      case None
      with 4 r f e have eq: "occurrence_loop cview cand target changed (a # anchors) occ cs =
          Some (None, mark_malformed_location target (ao_file a) cs1)"
        by (simp add: pair_def start_def [symmetric] Let_def)
      show ?thesis unfolding eq
        by (rule returns_NoneI) (use o moves_trans [OF _ mark_malformed_location_moves] in auto)
    next
      case (Some rng)
      let ?x = "\<lparr> eo_file = ao_file a, eo_path = rgf_path f, eo_start = start, eo_end = start + cd_len cand,
                  eo_range = rng, eo_changed = (rgf_path f \<in> set changed) \<rparr>"
      let ?occ = "bt_entry ?x (\<lambda>x. x) (rgf_path f, start) occ"
      have "genuine_occurrence target (candidate_tokens cview cand) ?x"
        using t f Some by (simp add: genuine_occurrence_def)
      with Cons.prems(2) have "all_genuine target (candidate_tokens cview cand) changed (snd ` set ?occ)"
        unfolding all_genuine_def by (fastforce dest!: bt_entry_values)
      note ih = Cons.IH [OF Cons.prems(1) this, of cs1]
      from 4 r f e Some have eq: "occurrence_loop cview cand target changed (a # anchors) occ cs =
          occurrence_loop cview cand target changed anchors ?occ cs1"
        by (simp add: pair_def start_def [symmetric] Let_def)
      show ?thesis unfolding eq by (rule returns_later) (use o ih in blast)+
    qed
  qed
qed

definition apart :: "exact_occurrence \<Rightarrow> exact_occurrence \<Rightarrow> bool" where
  "apart a b \<longleftrightarrow> eo_path a \<noteq> eo_path b \<or> eo_end a \<le> eo_start b"

abbreviation occurrence_key :: "exact_occurrence \<Rightarrow> repo_path \<times> nat \<times> nat" where
  "occurrence_key x \<equiv> (eo_path x, eo_start x, eo_end x)"

lemma drop_overlaps_subset: "set (drop_overlaps kept xs) \<subseteq> set kept \<union> set xs"
proof (induction xs arbitrary: kept)
  case Nil
  then show ?case by simp
next
  case (Cons x xs)
  then have "set (drop_overlaps kept' xs) \<subseteq> set kept' \<union> set xs" for kept' .
  from this [of "kept @ [x]"] this [of kept] show ?case by auto
qed

lemma apart_snoc:
  assumes "sorted_wrt apart kept" and "sorted (map occurrence_key (kept @ [x]))"
    and "\<forall>y\<in>set kept. eo_start y < eo_end y"
    and "kept = [] \<or> apart (last kept) x"
  shows "sorted_wrt apart (kept @ [x])"
proof (cases "kept = []")
  case False
  define l where "l = last kept"
  have "apart y x" if y: "y \<in> set kept" "eo_path y = eo_path x" for y
  proof (cases "y = l")
    case True
    with False assms(4) show ?thesis by (simp add: l_def)
  next
    case neq: False
    from False have kept: "kept = butlast kept @ [l]" by (simp add: l_def)
    with y(1) neq have yb: "y \<in> set (butlast kept)" by (metis UnE set_append set_ConsD empty_iff list.set(1))
    have "sorted (map occurrence_key (butlast kept @ [l, x]))" using assms(2) kept by (metis append.assoc append_Cons append_Nil)
    with yb have "eo_path y \<le> eo_path l" "eo_path l \<le> eo_path x" by (force simp: sorted_append less_eq_prod_def)+
    with y(2) have path: "eo_path l = eo_path x" "eo_path y = eo_path l" by auto
    have "apart y l" using assms(1) yb kept sorted_wrt_append [of apart "butlast kept" "[l]"] by auto
    moreover have "apart l x" using assms(4) False by (simp add: l_def)
    moreover have "eo_start l < eo_end l" using assms(3) False by (simp add: l_def)
    ultimately show ?thesis using path by (simp add: apart_def)
  qed
  then have "\<forall>y\<in>set kept. apart y x" by (auto simp: apart_def)
  with assms(1) show ?thesis by (simp add: sorted_wrt_append)
qed simp

lemma drop_overlaps_apart:
  assumes "sorted_wrt apart kept" and "sorted (map occurrence_key (kept @ xs))"
    and "\<forall>y\<in>set kept \<union> set xs. eo_start y < eo_end y"
  shows "sorted_wrt apart (drop_overlaps kept xs)"
  using assms
proof (induction xs arbitrary: kept)
  case Nil
  then show ?case by simp
next
  case (Cons x xs)
  have sk: "sorted (map occurrence_key (kept @ xs))" using Cons.prems(2) by (simp add: sorted_append)
  have sx: "sorted (map occurrence_key (kept @ [x]))" using Cons.prems(2) by (auto simp: sorted_append)
  show ?case
  proof (cases "kept = [] \<or> eo_path (last kept) \<noteq> eo_path x \<or> eo_end (last kept) \<le> eo_start x")
    case True
    with apart_snoc [OF Cons.prems(1) sx] Cons.prems(3) have "sorted_wrt apart (kept @ [x])" by (auto simp: apart_def)
    with True Cons.IH [of "kept @ [x]"] Cons.prems(2,3) show ?thesis by simp
  next
    case False
    with Cons.IH [OF Cons.prems(1) sk] Cons.prems(3) show ?thesis by simp
  qed
qed

definition genuine_occurrences ::
    "region_view \<Rightarrow> exact_token_text list \<Rightarrow> repo_path btree_set \<Rightarrow> exact_occurrence list \<Rightarrow> bool" where
  "genuine_occurrences view ts changed xs \<longleftrightarrow> all_genuine view ts changed (set xs) \<and> sorted_wrt apart xs"

lemma exact_occurrences_outcome:
  assumes "candidate_wf cand"
  shows "returns cs (exact_occurrences cview cand target fam changed cs)
    (genuine_occurrences target (candidate_tokens cview cand) changed)"
proof (cases "Option.bind (bt_get (rv_groups target) fam) (\<lambda>groups. bt_get groups (cd_anchor cand))")
  case None
  then show ?thesis by (simp add: exact_occurrences_def returnsI genuine_occurrences_def all_genuine_def)
next
  case (Some grp)
  have "all_genuine target (candidate_tokens cview cand) changed (snd ` set [])" by (simp add: all_genuine_def)
  from occurrence_loop_outcome [OF assms this, of cs grp]
  obtain r cs' where o: "occurrence_loop cview cand target changed grp [] cs = Some (r, cs')" "moves cs cs'"
      "r = None \<longrightarrow> cs_incomplete cs'"
    and g: "\<forall>occ. r = Some occ \<longrightarrow> all_genuine target (candidate_tokens cview cand) changed (snd ` set occ)"
    by (auto simp: returns_def)
  show ?thesis
  proof (cases r)
    case None
    with Some o show ?thesis by (simp add: exact_occurrences_def returns_NoneI)
  next
    case (Some occ)
    let ?xs = "sort_key occurrence_key (map snd occ)"
    have gen: "all_genuine target (candidate_tokens cview cand) changed (set ?xs)" using g Some by simp
    have "0 < cd_len cand" using assms less_le_trans [OF MIN_DEDUP_REGION_TOKENS_pos] by (auto simp: candidate_wf_def)
    with gen have "\<forall>y\<in>set ?xs. eo_start y < eo_end y" by (simp add: all_genuine_def genuine_occurrence_def)
    then have "sorted_wrt apart (drop_overlaps [] ?xs)" by (intro drop_overlaps_apart) simp_all
    moreover have "all_genuine target (candidate_tokens cview cand) changed (set (drop_overlaps [] ?xs))"
      using gen drop_overlaps_subset [of "[]" ?xs] by (auto simp: all_genuine_def)
    ultimately show ?thesis
      using o Some \<open>Option.bind _ _ = Some grp\<close> by (simp add: exact_occurrences_def returnsI genuine_occurrences_def)
  qed
qed

section \<open>Classes are genuine\<close>

text \<open>
  A genuine class: a run of at least \<open>MIN_DEDUP_REGION_TOKENS\<close> tokens that stands, without overlap, at all
  its places in the candidate view, at more places than were found for it in the baseline, and at more
  places of some changed path.
\<close>

definition genuine_class :: "evaluation_context \<Rightarrow> exact_class \<Rightarrow> bool" where
  "genuine_class cx c \<longleftrightarrow>
     (\<exists>ts before. MIN_DEDUP_REGION_TOKENS \<le> length ts \<and> ec_token_count c = length ts \<and>
        genuine_occurrences (ex_after cx) ts (ri_changed_paths (ex_inputs cx)) (ec_after_occurrences c) \<and>
        genuine_occurrences (ex_before cx) ts (ri_changed_paths (ex_inputs cx)) before \<and>
        2 \<le> length (ec_after_occurrences c) \<and> length before < length (ec_after_occurrences c) \<and>
        ec_before_count c = length before \<and>
        ec_introduced_count c = length (ec_after_occurrences c) - length before \<and>
        (\<exists>p\<in>set (ri_changed_paths (ex_inputs cx)).
           occurrences_at eo_path before p < occurrences_at eo_path (ec_after_occurrences c) p))"

lemma exact_class_of_outcome:
  assumes "candidate_wf cand"
  shows "\<exists>r cs'. exact_class_of K cx fam cand cs = Some (r, cs') \<and> moves cs cs' \<and>
    (\<forall>c. r = Some c \<longrightarrow> genuine_class cx c \<and> ec_family c = fam)"
proof -
  let ?ts = "candidate_tokens (ex_after cx) cand" and ?ch = "ri_changed_paths (ex_inputs cx)"
  obtain r1 cs1 where o1: "exact_occurrences (ex_after cx) cand (ex_before cx) fam ?ch cs = Some (r1, cs1)" "moves cs cs1"
    and g1: "\<forall>xs. r1 = Some xs \<longrightarrow> genuine_occurrences (ex_before cx) ?ts ?ch xs"
    using exact_occurrences_outcome [OF assms, of cs "ex_after cx" "ex_before cx" fam ?ch] by (auto simp: returns_def)
  show ?thesis
  proof (cases r1)
    case None
    with o1 show ?thesis by (simp add: exact_class_of_def)
  next
    case (Some before)
    obtain r2 cs2 where o2: "exact_occurrences (ex_after cx) cand (ex_after cx) fam ?ch cs1 = Some (r2, cs2)" "moves cs1 cs2"
      and g2: "\<forall>xs. r2 = Some xs \<longrightarrow> genuine_occurrences (ex_after cx) ?ts ?ch xs"
      using exact_occurrences_outcome [OF assms, of cs1 "ex_after cx" "ex_after cx" fam ?ch] by (auto simp: returns_def)
    note m = moves_trans [OF o1(2) o2(2)]
    show ?thesis
    proof (cases r2)
      case None
      with o1 o2 Some m show ?thesis by (simp add: exact_class_of_def)
    next
      case after: (Some after)
      have "MIN_DEDUP_REGION_TOKENS \<le> length ?ts" using assms by (simp add: candidate_wf_def)
      moreover have "genuine_occurrences (ex_before cx) ?ts ?ch before" "genuine_occurrences (ex_after cx) ?ts ?ch after"
        using g1 g2 Some after by simp_all
      ultimately have "genuine_class cx \<lparr> ec_digest = dg, ec_family = fam, ec_before_count = length before,
          ec_after_occurrences = after, ec_introduced_count = length after - length before, ec_token_count = cd_len cand \<rparr>"
        if "\<not> (length after < 2 \<or> length after \<le> length before)"
          "set (paths_with_growth (path_counts eo_path before) (path_counts eo_path after)) \<inter> set ?ch \<noteq> {}" for dg
        unfolding genuine_class_def using that by (intro exI [of _ ?ts] exI [of _ before]) (auto dest!: grown_path)
      with o1 o2 Some after m show ?thesis
        by (auto simp: exact_class_of_def Let_def intro: moves_trans split: option.split)
    qed
  qed
qed

section \<open>Classes carry the digest of their tokens\<close>

text \<open>The bytes \<^verbatim>\<open>region_digest\<close> hashes for a run of tokens, and the digest.\<close>

definition encode_exact :: "exact_token_text list \<Rightarrow> bytes" where
  "encode_exact ts = concat (map (\<lambda>t. be_bytes 4 (to_u32 (length (et_prefix t))) @ et_prefix t @ [et_tag t] @
     be_bytes 4 (to_u32 (length (et_text t))) @ et_text t) ts)"

definition tokens_digest :: "crates \<Rightarrow> bytes \<Rightarrow> exact_token_text list \<Rightarrow> bytes" where
  "tokens_digest K fam ts = hex_encode K (hash_domain K ''dedup-token-region/v1'' [fam, encode_exact ts])"

definition token_text :: "bytes \<Rightarrow> bytes \<Rightarrow> decoded_token \<Rightarrow> exact_token_text option" where
  "token_text evidence source t =
     (case get_range evidence (fst (dt_prefix t)) (snd (dt_prefix t)) of
        None \<Rightarrow> None
      | Some prefix \<Rightarrow> map_option (\<lambda>txt. \<lparr> et_tag = dt_tag t, et_prefix = prefix, et_text = txt \<rparr>)
          (get_range source (dt_start t) (dt_end t)))"

lemma encode_region_exact:
  "encode_region ev src toks = Some enc \<Longrightarrow>
   (\<forall>t\<in>set toks. token_text ev src t \<noteq> None) \<and> enc = encode_exact (map (\<lambda>t. the (token_text ev src t)) toks)"
proof (induction toks arbitrary: enc)
  case Nil
  then show ?case by (simp add: encode_exact_def)
next
  case (Cons t toks)
  from Cons.prems obtain x rest where "token_text ev src t = Some x" "encode_region ev src toks = Some rest"
    "enc = encode_exact [x] @ rest"
    by (auto simp: token_text_def encode_exact_def split: option.splits)
  with Cons.IH show ?case by (simp add: encode_exact_def)
qed

lemma exact_token_text:
  assumes "get_at (rv_files view) file = Some f" and "i < length (dts_tokens (rgf_decoded f))"
  shows "exact_token view \<lparr> tl_file = file, tl_token = i \<rparr> =
    token_text (dts_bytes (rgf_decoded f)) (sf_bytes (rgf_source f)) (dts_tokens (rgf_decoded f) ! i)"
  using assms by (simp add: exact_token_def token_text_def get_at_def split: option.split)

abbreviation file_family :: "region_view \<Rightarrow> nat \<Rightarrow> bytes" where
  "file_family view i \<equiv> family (sf_language (rgf_source (rv_files view ! i)))"

lemma region_digest_tokens:
  assumes "region_digest K view file start end = Some dg"
  shows "dg = tokens_digest K (file_family view file) (view_tokens view file start (end - start))"
proof -
  from assms obtain f toks enc where f: "get_at (rv_files view) file = Some f"
    and toks: "get_range (dts_tokens (rgf_decoded f)) start end = Some toks"
    and enc: "encode_region (dts_bytes (rgf_decoded f)) (sf_bytes (rgf_source f)) toks = Some enc"
    and dg: "dg = hex_encode K (hash_domain K ''dedup-token-region/v1'' [family (sf_language (rgf_source f)), enc])"
    by (auto simp: region_digest_def split: option.splits)
  have len: "start \<le> end" "end \<le> length (dts_tokens (rgf_decoded f))"
    "toks = take (end - start) (drop start (dts_tokens (rgf_decoded f)))"
    using toks by (auto simp: get_range_def split: if_splits)
  have "map (\<lambda>t. the (token_text (dts_bytes (rgf_decoded f)) (sf_bytes (rgf_source f)) t)) toks =
      view_tokens view file start (end - start)"
    using len by (intro nth_equalityI) (auto simp: view_tokens_def exact_token_text [OF f])
  with encode_region_exact [OF enc] have "enc = encode_exact (view_tokens view file start (end - start))" by simp
  with dg f show ?thesis by (auto simp: tokens_digest_def get_at_def split: if_splits)
qed

text \<open>The places of a class lie in the files of the anchors it was found from.\<close>

lemma occurrence_loop_files:
  assumes "occurrence_loop cview cand target changed anchors occ cs = Some (Some occ', cs')"
  shows "eo_file ` snd ` set occ' \<subseteq> eo_file ` snd ` set occ \<union> ao_file ` set anchors"
  using assms
proof (induction anchors arbitrary: occ cs)
  case Nil
  then show ?case by simp
next
  case (Cons a anchors)
  have new: "eo_file ` snd ` set (bt_entry x (\<lambda>x. x) k occ) \<subseteq> insert (eo_file x) (eo_file ` snd ` set occ)" for x k
    by (auto dest!: bt_entry_values [OF imageI])
  define start where "start = ao_token_index a - cd_anchor_offset cand"
  obtain r cs1 where r: "regions_equal \<lparr> rp_left_view = cview, rp_left_file = cd_file cand,
      rp_left = (cd_start cand, cd_end cand), rp_right_view = target, rp_right_file = ao_file a,
      rp_right = (start, sat_add start (cd_len cand)) \<rparr> cs = (r, cs1)" by fastforce
  consider "occurrence_loop cview cand target changed anchors occ cs = Some (Some occ', cs')"
    | "occurrence_loop cview cand target changed anchors occ cs1 = Some (Some occ', cs')"
    | x k where "occurrence_loop cview cand target changed anchors (bt_entry x (\<lambda>x. x) k occ) cs1 = Some (Some occ', cs')"
        "eo_file x = ao_file a"
    using Cons.prems r
    by (auto simp: start_def [symmetric] Let_def split: if_splits option.splits bool.splits)
  then show ?case
  proof cases
    case 1
    from Cons.IH [OF this] show ?thesis by (rule subset_trans) (intro Un_mono subset_refl image_mono set_subset_Cons)
  next
    case 2
    from Cons.IH [OF this] show ?thesis by (rule subset_trans) (intro Un_mono subset_refl image_mono set_subset_Cons)
  next
    case (3 x k)
    from Cons.IH [OF 3(1)] new [of x k] 3(2) show ?thesis by (simp add: subset_iff) blast
  qed
qed

text \<open>
  A sound class: it is genuine, its digest is that of its family and its tokens, and the files of
  its places are of its family.
\<close>

definition sound_class :: "crates \<Rightarrow> evaluation_context \<Rightarrow> exact_class \<Rightarrow> bool" where
  "sound_class K cx c \<longleftrightarrow> genuine_class cx c \<and>
     (\<exists>ts. MIN_DEDUP_REGION_TOKENS \<le> length ts \<and> ec_token_count c = length ts \<and>
        genuine_occurrences (ex_after cx) ts (ri_changed_paths (ex_inputs cx)) (ec_after_occurrences c) \<and>
        ec_digest c = tokens_digest K (ec_family c) ts) \<and>
     (\<forall>x\<in>set (ec_after_occurrences c). file_family (ex_after cx) (eo_file x) = ec_family c)"

section \<open>Candidates\<close>

lemma sat_add_usize [simp]: "sat_add a b \<le> usize_max"
  by (rule sat_add_le)

lemma extend_right_cases:
  assumes "extend_right view l r cs = (res, cs')"
  obtains b1 cs1 b2 cs2 t cs3 where "token_exists view (tl_file l) (tl_token l) cs = (b1, cs1)"
    and "token_exists view (tl_file r) (tl_token r) cs1 = (b2, cs2)"
    and "tokens_equal (same_view view l r) cs2 = (t, cs3)"
    and "(res, cs') = (if \<not> b1 then (Some (tl_token l), cs1) else if \<not> b2 then (Some (tl_token l), cs2)
          else if t = None then (None, cs3) else if t = Some False then (Some (tl_token l), cs3)
          else extend_right view (tl_offset l 1) (tl_offset r 1) cs3)"
proof -
  obtain b1 cs1 where e1: "token_exists view (tl_file l) (tl_token l) cs = (b1, cs1)" by fastforce
  obtain b2 cs2 where e2: "token_exists view (tl_file r) (tl_token r) cs1 = (b2, cs2)" by fastforce
  obtain t cs3 where e3: "tokens_equal (same_view view l r) cs2 = (t, cs3)" by fastforce
  have "(res, cs') = (if \<not> b1 then (Some (tl_token l), cs1) else if \<not> b2 then (Some (tl_token l), cs2)
      else if t = None then (None, cs3) else if t = Some False then (Some (tl_token l), cs3)
      else extend_right view (tl_offset l 1) (tl_offset r 1) cs3)"
    using assms e1 e2 e3 by (auto simp: extend_right.simps [of view l] split: option.splits bool.splits)
  with that e1 e2 e3 show ?thesis by blast
qed

lemma extend_right_bound:
  assumes "extend_right view l r cs = (res, cs')" and "tl_token l \<le> usize_max"
  shows "moves cs cs' \<and> (\<forall>e. res = Some e \<longrightarrow> e \<le> usize_max)"
  using assms
proof (induction "cs_remaining cs" arbitrary: l r cs rule: less_induct)
  case less
  show ?case
  proof (rule extend_right_cases [OF less.prems(1)], goal_cases)
    case (1 b1 cs1 b2 cs2 t cs3)
    note m = token_exists_outcome [OF 1(1)] token_exists_outcome [OF 1(2)] tokens_equal_outcome [OF 1(3)]
    have mv1: "moves cs cs1" using m(1) by (rule conjunct1)
    have mv2: "moves cs cs2" using mv1 m(2) [THEN conjunct1] by (rule moves_trans)
    have mv3: "moves cs cs3" using mv2 m(3) [THEN conjunct1] by (rule moves_trans)
    show ?case
    proof (cases "b1 \<and> b2 \<and> t = Some True")
      case True
      with m(1,2) have "cs2 = cs" by blast
      with True 1(3) have lt: "cs_remaining cs3 < cs_remaining cs" using tokens_equal_spends by simp
      from True 1(4) have eq: "extend_right view (tl_offset l 1) (tl_offset r 1) cs3 = (res, cs')" by simp
      have "tl_token (tl_offset l 1) \<le> usize_max" by (simp add: tl_offset_def)
      from less.hyps [OF lt eq this] mv3 show ?thesis using moves_trans by blast
    next
      case False
      with 1(4) less.prems(2) mv1 mv2 mv3 show ?thesis by (auto split: if_splits)
    qed
  qed
qed

lemma extend_left_cases:
  assumes "extend_left view l r cs = (res, cs')"
  obtains t cs1 where "tokens_equal (same_view view (tl_prior l) (tl_prior r)) cs = (t, cs1)"
    and "(res, cs') = (if tl_token l > 0 \<and> tl_token r > 0
          then if t = None then (None, cs1) else if t = Some False then (Some (tl_token l), cs1)
            else extend_left view (tl_prior l) (tl_prior r) cs1
          else (Some (tl_token l), cs))"
proof -
  obtain t cs1 where e: "tokens_equal (same_view view (tl_prior l) (tl_prior r)) cs = (t, cs1)" by fastforce
  have "(res, cs') = (if tl_token l > 0 \<and> tl_token r > 0
      then if t = None then (None, cs1) else if t = Some False then (Some (tl_token l), cs1)
        else extend_left view (tl_prior l) (tl_prior r) cs1
      else (Some (tl_token l), cs))"
    using assms e by (auto simp: extend_left.simps [of view l] split: option.splits bool.splits)
  with that e show ?thesis by blast
qed

lemma extend_left_bound:
  assumes "extend_left view l r cs = (res, cs')"
  shows "moves cs cs' \<and> (\<forall>e. res = Some e \<longrightarrow> e \<le> tl_token l)"
  using assms
proof (induction "tl_token l" arbitrary: l r cs rule: less_induct)
  case less
  show ?case
  proof (rule extend_left_cases [OF less.prems], goal_cases)
    case (1 t cs1)
    have mv: "moves cs cs1" using tokens_equal_outcome [OF 1(1)] by simp
    show ?case
    proof (cases "tl_token l > 0 \<and> tl_token r > 0 \<and> t = Some True")
      case True
      then have lt: "tl_token (tl_prior l) < tl_token l" by (simp add: tl_prior_def)
      from True 1(2) have eq: "extend_left view (tl_prior l) (tl_prior r) cs1 = (res, cs')" by simp
      from less.hyps [OF lt eq] lt mv show ?thesis using moves_trans by fastforce
    next
      case False
      with 1(2) mv show ?thesis by (auto split: if_splits)
    qed
  qed
qed

lemma maximal_exact_region_steps:
  assumes "maximal_exact_region view left right cs = (res, cs')"
    and "l = \<lparr> tl_file = ao_file left, tl_token = ao_token_index left \<rparr>"
    and "r = \<lparr> tl_file = ao_file right, tl_token = ao_token_index right \<rparr>"
  obtains t cs1 a cs2 b cs3 where "anchor_tokens_match view l r cs = (t, cs1)"
    and "extend_left view l r cs1 = (a, cs2)"
    and "extend_right view (tl_offset l DEDUP_REGION_KGRAM_TOKENS) (tl_offset r DEDUP_REGION_KGRAM_TOKENS) cs2 = (b, cs3)"
    and "(res, cs') = (if t \<noteq> Some True then (None, cs1) else if a = None then (None, cs2)
          else (map_option (Pair (the a)) b, cs3))"
proof -
  obtain t cs1 where e1: "anchor_tokens_match view l r cs = (t, cs1)" by fastforce
  obtain a cs2 where e2: "extend_left view l r cs1 = (a, cs2)" by fastforce
  obtain b cs3 where e3: "extend_right view (tl_offset l DEDUP_REGION_KGRAM_TOKENS) (tl_offset r DEDUP_REGION_KGRAM_TOKENS) cs2 = (b, cs3)"
    by fastforce
  have "(res, cs') = (if t \<noteq> Some True then (None, cs1) else if a = None then (None, cs2)
      else (map_option (Pair (the a)) b, cs3))"
    using assms(1) e1 e2 e3
    by (auto simp: maximal_exact_region_def assms(2,3) [symmetric] Let_def split: option.splits bool.splits)
  with that e1 e2 e3 show ?thesis by blast
qed

lemma maximal_exact_region_bound:
  assumes "maximal_exact_region view left right cs = (res, cs')"
  shows "moves cs cs' \<and> (\<forall>s e. res = Some (s, e) \<longrightarrow> e \<le> usize_max)"
proof (rule maximal_exact_region_steps [OF assms refl refl], goal_cases)
  case (1 t cs1 a cs2 b cs3)
  have m1: "moves cs cs1" using 1(1) all_equal_outcome unfolding anchor_tokens_match_def by blast
  have m2: "moves cs1 cs2" using extend_left_bound [OF 1(2)] by blast
  have m3: "moves cs2 cs3" "\<forall>e. b = Some e \<longrightarrow> e \<le> usize_max"
    using extend_right_bound [OF 1(3)] by (auto simp: tl_offset_def)
  from 1(4) m1 m2 m3 show ?case by (auto split: if_splits intro: moves_trans)
qed

lemma candidate_loop_wf:
  assumes "candidate_loop view anchor seed peers cands ranges cs = (cands', cs')" and "\<forall>c\<in>set cands. candidate_wf c"
  shows "moves cs cs' \<and> (\<forall>c\<in>set cands'. candidate_wf c)"
  using assms
proof (induction peers arbitrary: cands ranges cs)
  case Nil
  then show ?case by simp
next
  case (Cons peer peers)
  obtain res cs1 where e: "maximal_exact_region view seed peer cs = (res, cs1)" by fastforce
  note m = maximal_exact_region_bound [OF e]
  show ?case
  proof (cases res)
    case None
    with Cons e m show ?thesis by (auto split: if_splits intro: moves_trans)
  next
    case (Some se)
    obtain a b where se: "se = (a, b)" by fastforce
    let ?c = "\<lparr> cd_file = ao_file seed, cd_start = a, cd_end = b, cd_anchor = anchor, cd_anchor_offset = ao_token_index seed - a \<rparr>"
    show ?thesis
    proof (cases "b - a < MIN_DEDUP_REGION_TOKENS \<or> (a, b) \<in> set ranges")
      case True
      with Cons.prems(1) e Some se have "candidate_loop view anchor seed peers cands ranges cs1 = (cands', cs')"
        by (auto split: if_splits)
      with Cons.IH Cons.prems(2) m show ?thesis by (blast intro: moves_trans)
    next
      case False
      with Cons.prems(1) e Some se
      have "candidate_loop view anchor seed peers (cands @ [?c]) (bs_insert (a, b) ranges) cs1 = (cands', cs')"
        by (auto split: if_splits)
      moreover have "\<forall>c\<in>set (cands @ [?c]). candidate_wf c"
        using Cons.prems(2) m Some se False by (simp add: candidate_wf_def cd_len_def)
      ultimately show ?thesis using Cons.IH m by (blast intro: moves_trans)
    qed
  qed
qed

lemma candidate_regions_wf:
  assumes "candidate_regions view anchor seed occurrences cs = (cands, cs')"
  shows "moves cs cs' \<and> (\<forall>c\<in>set cands. candidate_wf c)"
  using assms candidate_loop_wf [of view anchor seed _ "[]" "[]" cs]
  by (fastforce simp: candidate_regions_def split: prod.splits)

lemma best_class_outcome:
  assumes "\<forall>c\<in>set cands. candidate_wf c" and "\<forall>c. best = Some c \<longrightarrow> genuine_class cx c \<and> ec_family c = fam"
  shows "\<exists>r cs'. best_class K cx fam cands best cs = Some (r, cs') \<and> moves cs cs' \<and>
    (\<forall>c. r = Some c \<longrightarrow> genuine_class cx c \<and> ec_family c = fam)"
  using assms
proof (induction cands arbitrary: best cs)
  case Nil
  then show ?case by simp
next
  case (Cons cand cands)
  from Cons.prems(1) obtain r cs1 where e: "exact_class_of K cx fam cand cs = Some (r, cs1)" "moves cs cs1"
    and g: "\<forall>c. r = Some c \<longrightarrow> genuine_class cx c \<and> ec_family c = fam"
    using exact_class_of_outcome [of cand K cx fam cs] by auto
  define best' where "best' = (case r of None \<Rightarrow> best | Some c \<Rightarrow> if class_precedes best c then Some c else best)"
  have b: "\<forall>c. best' = Some c \<longrightarrow> genuine_class cx c \<and> ec_family c = fam"
    using g Cons.prems(2) by (auto simp: best'_def split: option.splits)
  have "best_class K cx fam (cand # cands) best cs =
      (if r = None \<and> cs_incomplete cs1 then Some (best, cs1) else best_class K cx fam cands best' cs1)"
    using e by (auto simp: best'_def split: option.split)
  with Cons.IH [OF _ b, of cs1] Cons.prems e(2) show ?case by (auto split: if_splits intro: moves_trans)
qed

section \<open>The occurrences of a view\<close>

definition occurrences_of :: "anchor_groups \<Rightarrow> (bytes \<times> hash_pair \<times> anchor_occurrence) set" where
  "occurrences_of groups = {(fam, k, x). \<exists>g os. (fam, g) \<in> set groups \<and> (k, os) \<in> set g \<and> x \<in> set os}"

lemma set_bt_insert_subset: "set (bt_insert k v m) \<subseteq> insert (k, v) (set m)"
  by (induction m) auto

lemma bt_entry_member:
  assumes "(k', v') \<in> set (bt_entry d f k m)"
  shows "(k', v') \<in> set m \<or> (k' = k \<and> (v' = f d \<or> (\<exists>v. (k, v) \<in> set m \<and> v' = f v)))"
  using assms set_bt_insert_subset [of k "f (case bt_get m k of None \<Rightarrow> d | Some v \<Rightarrow> v)" m]
  by (auto simp: bt_entry_def split: option.splits dest: map_of_SomeD)

lemma occurrences_add_anchor:
  "occurrences_of (add_anchor fam file a groups) \<subseteq>
     insert (fam, (hash_one a, hash_two a), \<lparr> ao_file = file, ao_token_index = token_index a \<rparr>) (occurrences_of groups)"
proof (intro subsetI, rule ccontr)
  fix y
  assume y: "y \<in> occurrences_of (add_anchor fam file a groups)"
    and no: "y \<notin> insert (fam, (hash_one a, hash_two a), \<lparr> ao_file = file, ao_token_index = token_index a \<rparr>) (occurrences_of groups)"
  obtain fam' h1 h2 x where yx: "y = (fam', (h1, h2), x)" by (cases y) auto
  from y yx obtain g os where g: "(fam', g) \<in> set (add_anchor fam file a groups)" "((h1, h2), os) \<in> set g" "x \<in> set os"
    by (auto simp: occurrences_of_def)
  with no yx show False
    unfolding add_anchor_def occurrences_of_def by (auto dest!: bt_entry_member)
qed

lemma occurrences_fold_add_anchor:
  "occurrences_of (fold (add_anchor fam file) as groups) \<subseteq>
     occurrences_of groups \<union> {(fam, (hash_one a, hash_two a), \<lparr> ao_file = file, ao_token_index = token_index a \<rparr>) | a. a \<in> set as}"
proof (induction as arbitrary: groups)
  case Nil
  then show ?case by simp
next
  case (Cons a as)
  from Cons [of "add_anchor fam file a groups"] occurrences_add_anchor [of fam "file" a groups] show ?case by auto
qed

lemma occurrences_sorted [simp]: "occurrences_of (sort_occurrences files groups) = occurrences_of groups"
  by (force simp: occurrences_of_def sort_occurrences_def)

text \<open>An occurrence names a file of the view, of the language family it is grouped under.\<close>

definition indices_in_range :: "region_view \<Rightarrow> bool" where
  "indices_in_range view \<longleftrightarrow> (\<forall>(fam, k, x)\<in>occurrences_of (rv_groups view).
     ao_file x < length (rv_files view) \<and> file_family view (ao_file x) = fam)"

lemma view_add_file_range:
  assumes "indices_in_range (fst vd)"
  shows "indices_in_range (fst (view_add_file b64 facts keys cont source vd))"
proof -
  obtain view de where vd: "vd = (view, de)" by (cases vd)
  have "indices_in_range (view\<lparr> rv_retained_anchors := n, rv_retained_tokens := m, rv_files := rv_files view @ [f],
      rv_groups := fold (add_anchor (family (sf_language (rgf_source f))) (length (rv_files view))) as (rv_groups view) \<rparr>)" for n m f as
    using assms occurrences_fold_add_anchor [of "family (sf_language (rgf_source f))" "length (rv_files view)" as "rv_groups view"]
    by (fastforce simp: indices_in_range_def vd nth_append)
  from this [where f = "\<lparr> rgf_source = source, rgf_path = p, rgf_decoded = d \<rparr>" for p d]
  have "indices_in_range (view\<lparr> rv_retained_anchors := n, rv_retained_tokens := m,
      rv_files := rv_files view @ [\<lparr> rgf_source = source, rgf_path = p, rgf_decoded = d \<rparr>],
      rv_groups := fold (add_anchor (family (sf_language source)) (length (rv_files view))) as (rv_groups view) \<rparr>)" for n m p d as
    by simp
  moreover have "indices_in_range (view\<lparr> rv_request_truncated := True \<rparr>)"
    "indices_in_range (view\<lparr> rv_malformed_paths := ps, rv_malformed_paths_truncated := t \<rparr>)" "indices_in_range view" for ps t
    using assms by (simp_all add: indices_in_range_def vd)
  ultimately show ?thesis
    by (simp add: view_add_file_def vd Let_def split_def split: option.split evidence_state.split)
qed

lemma region_view_new_range: "indices_in_range (fst (region_view_new b64 v snap facts keys cont de))"
proof -
  have "indices_in_range (fst vd) \<Longrightarrow> indices_in_range (fst (fold (view_add_file b64 facts keys cont) fs vd))" for fs vd
    by (induction fs arbitrary: vd) (simp_all add: view_add_file_range)
  moreover have "indices_in_range (fst (empty_region_view v, de))"
    by (simp add: indices_in_range_def empty_region_view_def occurrences_of_def)
  ultimately have "indices_in_range (fst (fold (view_add_file b64 facts keys cont) (snapshot_file_list snap) (empty_region_view v, de)))" .
  then show ?thesis by (simp add: region_view_new_def split_def Let_def indices_in_range_def)
qed

section \<open>Classes found are sound\<close>

lemma bt_get_occurrences:
  assumes "Option.bind (bt_get groups fam) (\<lambda>g. bt_get g k) = Some os" and "x \<in> set os"
  shows "(fam, k, x) \<in> occurrences_of groups"
proof -
  from assms(1) obtain g where "(fam, g) \<in> set groups" "(k, os) \<in> set g"
    by (auto dest!: map_of_SomeD split: bind_splits)
  with assms(2) show ?thesis by (auto simp: occurrences_of_def)
qed

lemma exact_occurrences_files:
  assumes "indices_in_range target" and "exact_occurrences cview cand target fam changed cs = Some (Some xs, cs')"
    and "x \<in> set xs"
  shows "file_family target (eo_file x) = fam"
proof (cases "Option.bind (bt_get (rv_groups target) fam) (\<lambda>groups. bt_get groups (cd_anchor cand))")
  case None
  with assms(2,3) show ?thesis by (simp add: exact_occurrences_def)
next
  case (Some grp)
  with assms(2) obtain occ where occ: "occurrence_loop cview cand target changed grp [] cs = Some (Some occ, cs')"
    and xs: "xs = drop_overlaps [] (sort_key (\<lambda>x. (eo_path x, eo_start x, eo_end x)) (map snd occ))"
    by (auto simp: exact_occurrences_def split: option.splits)
  from xs drop_overlaps_subset [of "[]"] assms(3) have "x \<in> snd ` set occ" by fastforce
  with occurrence_loop_files [OF occ] obtain a where a: "a \<in> set grp" "eo_file x = ao_file a" by fastforce
  from bt_get_occurrences [OF Some a(1)] assms(1) a(2) show ?thesis by (auto simp: indices_in_range_def)
qed

lemma exact_class_of_sound:
  assumes "candidate_wf cand" and "indices_in_range (ex_after cx)" and "file_family (ex_after cx) (cd_file cand) = fam"
    and "exact_class_of K cx fam cand cs = Some (Some c, cs')"
  shows "sound_class K cx c \<and> ec_family c = fam"
proof -
  let ?ch = "ri_changed_paths (ex_inputs cx)" and ?ts = "candidate_tokens (ex_after cx) cand"
  have g: "genuine_class cx c \<and> ec_family c = fam"
    using exact_class_of_outcome [OF assms(1), of K cx fam cs] assms(4) by auto
  from assms(4) obtain cs1 cs2 where o: "exact_occurrences (ex_after cx) cand (ex_after cx) fam ?ch cs1 =
      Some (Some (ec_after_occurrences c), cs2)"
    and dg: "region_digest K (ex_after cx) (cd_file cand) (cd_start cand) (cd_end cand) = Some (ec_digest c)"
    and n: "ec_token_count c = cd_len cand"
    by (auto simp: exact_class_of_def Let_def split: option.splits if_splits) blast
  have "genuine_occurrences (ex_after cx) ?ts ?ch (ec_after_occurrences c)"
    using exact_occurrences_outcome [OF assms(1), of cs1 "ex_after cx" "ex_after cx" fam ?ch] o by (auto simp: returns_def)
  moreover have "ec_digest c = tokens_digest K fam ?ts"
    using region_digest_tokens [OF dg] assms(3) by (simp add: cd_len_def)
  moreover have "MIN_DEDUP_REGION_TOKENS \<le> length ?ts" using assms(1) by (simp add: candidate_wf_def)
  ultimately show ?thesis
    using g n exact_occurrences_files [OF assms(2) o] unfolding sound_class_def
    by (auto intro!: exI [of _ ?ts])
qed

lemma candidate_loop_file:
  assumes "candidate_loop view anchor seed peers cands ranges cs = (cands', cs')"
    and "\<forall>c\<in>set cands. cd_file c = ao_file seed"
  shows "\<forall>c\<in>set cands'. cd_file c = ao_file seed"
  using assms
proof (induction peers arbitrary: cands ranges cs)
  case Nil
  then show ?case by simp
next
  case (Cons peer peers)
  obtain res cs1 where e: "maximal_exact_region view seed peer cs = (res, cs1)" by fastforce
  with Cons.prems(1) consider "cands' = cands"
    | "candidate_loop view anchor seed peers cands ranges cs1 = (cands', cs')"
    | c rs where "candidate_loop view anchor seed peers (cands @ [c]) rs cs1 = (cands', cs')" "cd_file c = ao_file seed"
    by (fastforce simp: Let_def split: option.splits if_splits)
  then show ?case
  proof cases
    case 3
    show ?thesis by (rule Cons.IH [OF 3(1)]) (use Cons.prems(2) 3(2) in auto)
  qed (use Cons in auto)
qed

lemma candidate_regions_file:
  "candidate_regions view anchor seed occurrences cs = (cands, cs') \<Longrightarrow> c \<in> set cands \<Longrightarrow> cd_file c = ao_file seed"
  using candidate_loop_file [of view anchor seed _ "[]" "[]" cs]
  by (fastforce simp: candidate_regions_def split: prod.splits)

lemma best_class_sound:
  assumes "\<forall>c\<in>set cands. candidate_wf c \<and> file_family (ex_after cx) (cd_file c) = fam"
    and "indices_in_range (ex_after cx)"
    and "\<forall>c. best = Some c \<longrightarrow> sound_class K cx c" and "best_class K cx fam cands best cs = Some (r, cs')"
  shows "\<forall>c. r = Some c \<longrightarrow> sound_class K cx c"
  using assms
proof (induction cands arbitrary: best cs)
  case Nil
  then show ?case by simp
next
  case (Cons cand cands)
  from Cons.prems(1) obtain q cs1 where e: "exact_class_of K cx fam cand cs = Some (q, cs1)"
    using exact_class_of_outcome [of cand K cx fam cs] by auto
  have q: "\<forall>c. q = Some c \<longrightarrow> sound_class K cx c"
    using exact_class_of_sound [of cand cx fam K cs] e Cons.prems(1,2) by auto
  show ?case
  proof (cases q)
    case None
    show ?thesis
    proof (cases "cs_incomplete cs1")
      case True
      with e None Cons.prems(3,4) show ?thesis by simp
    next
      case False
      with e None Cons.prems(4) have l: "best_class K cx fam cands best cs1 = Some (r, cs')" by simp
      show ?thesis by (rule Cons.IH [OF _ Cons.prems(2,3) l]) (use Cons.prems(1) in simp)
    qed
  next
    case (Some c)
    with e Cons.prems(4) have l: "best_class K cx fam cands (if class_precedes best c then Some c else best) cs1 = Some (r, cs')"
      by simp
    show ?thesis by (rule Cons.IH [OF _ Cons.prems(2) _ l]) (use Cons.prems(1,3) q Some in auto)
  qed
qed

lemma flat_groups_occurrences:
  "(fam, k, os) \<in> set (flat_groups groups) \<Longrightarrow> x \<in> set os \<Longrightarrow> (fam, k, x) \<in> occurrences_of groups"
  by (force simp: flat_groups_def occurrences_of_def)

section \<open>The evaluation state\<close>

definition genuine_finding :: "evaluation_context \<Rightarrow> introduced_duplicate \<Rightarrow> bool" where
  "genuine_finding cx d \<longleftrightarrow> (\<exists>c. genuine_class cx c \<and> d = into_finding c)"

definition cs_ok :: "comparison_state \<Rightarrow> bool" where
  "cs_ok cs \<longleftrightarrow> (cs_incomplete cs \<longleftrightarrow> cs_limit_reached cs \<or> cs_malformed_evidence cs)"

text \<open>
  What is covered was covered by a genuine class; a reported class has its finding, unless the list of
  findings was cut.
\<close>

definition covering :: "crates \<Rightarrow> evaluation_context \<Rightarrow> evaluation_state \<Rightarrow> nat \<Rightarrow> nat \<times> nat \<Rightarrow> bool" where
  "covering K cx es f r \<longleftrightarrow>
     (\<exists>c. sound_class K cx c \<and> (ec_family c, ec_digest c) \<in> set (es_reported_classes es) \<and>
        (\<exists>x\<in>set (ec_after_occurrences c). eo_file x = f \<and> r = (eo_start x, eo_end x)))"

definition es_inv :: "crates \<Rightarrow> evaluation_context \<Rightarrow> evaluation_state \<Rightarrow> bool" where
  "es_inv K cx es \<longleftrightarrow>
     cs_ok (es_comparison es) \<and> bt_wf (es_covered es) \<and>
     list_all (genuine_finding cx) (es_findings es) \<and>
     length (es_findings es) \<le> ri_finding_limit (ex_inputs cx) \<and>
     (\<forall>f rs. (f, rs) \<in> set (es_covered es) \<longrightarrow> (\<forall>r\<in>set rs. covering K cx es f r)) \<and>
     (\<forall>fam dg. (fam, dg) \<in> set (es_reported_classes es) \<longrightarrow> cs_findings_truncated (es_comparison es) \<or>
        (\<exists>c. sound_class K cx c \<and> ec_family c = fam \<and> ec_digest c = dg \<and> into_finding c \<in> set (es_findings es)))"

lemma es_inv_covered: "es_inv K cx es \<Longrightarrow> (f, rs) \<in> set (es_covered es) \<Longrightarrow> r \<in> set rs \<Longrightarrow> covering K cx es f r"
  by (auto simp: es_inv_def)

lemma moves_cs_ok: "moves s t \<Longrightarrow> cs_ok s \<Longrightarrow> cs_ok t"
  by (simp add: moves_def cs_ok_def)

lemma es_inv_comparison:
  assumes "es_inv K cx es" and "moves (es_comparison es) cs"
  shows "es_inv K cx (es\<lparr> es_comparison := cs \<rparr>)"
proof -
  have "cs_findings_truncated cs = cs_findings_truncated (es_comparison es)" using assms(2) by (simp add: moves_def)
  with assms moves_cs_ok show ?thesis by (simp add: es_inv_def covering_def)
qed

lemma mark_covered_member:
  assumes "(f, rs) \<in> set (mark_covered xs covered)" and "r \<in> set rs"
  shows "(\<exists>rs'. (f, rs') \<in> set covered \<and> r \<in> set rs') \<or> (\<exists>x\<in>set xs. eo_file x = f \<and> r = (eo_start x, eo_end x))"
proof -
  have "(f, rs) \<in> set (fold (\<lambda>x. bt_entry [] (\<lambda>rs. rs @ [(eo_start x, eo_end x)]) (eo_file x)) ys covered) \<Longrightarrow> r \<in> set rs \<Longrightarrow>
      (\<exists>rs'. (f, rs') \<in> set covered \<and> r \<in> set rs') \<or> (\<exists>x\<in>set ys. eo_file x = f \<and> r = (eo_start x, eo_end x))" for ys
  proof (induction ys arbitrary: covered)
    case Nil
    then show ?case by auto
  next
    case (Cons y ys)
    from Cons.IH [of "bt_entry [] (\<lambda>rs. rs @ [(eo_start y, eo_end y)]) (eo_file y) covered"] Cons.prems
    show ?case by (fastforce dest: bt_entry_member)
  qed
  from this [OF assms(1) [unfolded mark_covered_def] assms(2)] show ?thesis by auto
qed

lemma es_inv_covers:
  assumes inv: "es_inv K cx es" and c: "sound_class K cx c"
    and fin: "es' = es\<lparr> es_covered := mark_covered (ec_after_occurrences c) (es_covered es),
                        es_reported_classes := bs_insert (ec_family c, ec_digest c) (es_reported_classes es) \<rparr>"
  shows "(f, rs) \<in> set (es_covered es') \<Longrightarrow> r \<in> set rs \<Longrightarrow> covering K cx es' f r"
proof -
  assume "(f, rs) \<in> set (es_covered es')" "r \<in> set rs"
  then consider rs' where "(f, rs') \<in> set (es_covered es)" "r \<in> set rs'"
    | x where "x \<in> set (ec_after_occurrences c)" "eo_file x = f" "r = (eo_start x, eo_end x)"
    using mark_covered_member [of f rs "ec_after_occurrences c" "es_covered es" r] fin by auto
  then show ?thesis
  proof cases
    case 1
    from es_inv_covered [OF inv this] fin show ?thesis by (auto simp: covering_def)
  next
    case 2
    with c fin show ?thesis by (auto simp: covering_def)
  qed
qed

text \<open>What \<^verbatim>\<open>evaluate_seed\<close> does with the best class of a seed.\<close>

definition report_class :: "nat \<Rightarrow> exact_class \<Rightarrow> evaluation_state \<Rightarrow> evaluation_state" where
  "report_class limit c es =
     (let es1 = es\<lparr> es_covered := mark_covered (ec_after_occurrences c) (es_covered es) \<rparr>
      in if (ec_family c, ec_digest c) \<in> set (es_reported_classes es1) then es1
         else
           (let es2 = es1\<lparr> es_reported_classes := bs_insert (ec_family c, ec_digest c) (es_reported_classes es1) \<rparr>
            in if length (es_findings es2) \<ge> limit
               then es2\<lparr> es_comparison := (es_comparison es2)\<lparr> cs_findings_truncated := True \<rparr> \<rparr>
               else es2\<lparr> es_findings := es_findings es2 @ [into_finding c] \<rparr>))"

lemma bt_wf_mark_covered: "bt_wf covered \<Longrightarrow> bt_wf (mark_covered xs covered)"
proof -
  have "bt_wf m \<Longrightarrow> bt_wf (fold (\<lambda>x. bt_entry [] (\<lambda>rs. rs @ [(eo_start x, eo_end x)]) (eo_file x)) ys m)" for ys m
    by (induction ys arbitrary: m) simp_all
  then show "bt_wf covered \<Longrightarrow> ?thesis" by (simp add: mark_covered_def)
qed

lemma report_class_inv:
  assumes inv: "es_inv K cx es" and c: "sound_class K cx c"
  shows "es_inv K cx (report_class (ri_finding_limit (ex_inputs cx)) c es)"
proof -
  let ?k = "(ec_family c, ec_digest c)"
  let ?es1 = "es\<lparr> es_covered := mark_covered (ec_after_occurrences c) (es_covered es) \<rparr>"
  let ?es2 = "?es1\<lparr> es_reported_classes := bs_insert ?k (es_reported_classes es) \<rparr>"
  have cov: "covering K cx ?es2 f r" if "(f, rs) \<in> set (es_covered ?es1)" "r \<in> set rs" for f rs r
    using es_inv_covers [OF inv c, of ?es2 f rs r] that by simp
  have f: "genuine_finding cx (into_finding c)" using c by (auto simp: genuine_finding_def sound_class_def)
  have wf: "bt_wf (es_covered ?es1)" using inv by (simp add: es_inv_def bt_wf_mark_covered)
  show ?thesis
  proof (cases "?k \<in> set (es_reported_classes es)")
    case True
    then have "covering K cx ?es1 f r" if "(f, rs) \<in> set (es_covered ?es1)" "r \<in> set rs" for f rs r
      using cov [OF that] by (auto simp: covering_def)
    with True inv wf show ?thesis by (simp add: report_class_def es_inv_def)
  next
    case False
    show ?thesis
    proof (cases "length (es_findings es) \<ge> ri_finding_limit (ex_inputs cx)")
      case True
      with False inv cov wf show ?thesis
        by (auto simp: report_class_def es_inv_def Let_def covering_def cs_ok_def)
    next
      case nf: False
      let ?es3 = "?es2\<lparr> es_findings := es_findings es @ [into_finding c] \<rparr>"
      have "cs_findings_truncated (es_comparison es) \<or> (\<exists>c'. sound_class K cx c' \<and> ec_family c' = fam \<and>
          ec_digest c' = dg \<and> into_finding c' \<in> set (es_findings ?es3))"
        if "(fam, dg) \<in> set (es_reported_classes ?es3)" for fam dg
      proof (cases "(fam, dg) = ?k")
        case True
        with c show ?thesis by auto
      next
        case False
        with that have "(fam, dg) \<in> set (es_reported_classes es)" by auto
        with inv have "cs_findings_truncated (es_comparison es) \<or> (\<exists>c'. sound_class K cx c' \<and> ec_family c' = fam \<and>
            ec_digest c' = dg \<and> into_finding c' \<in> set (es_findings es))"
          unfolding es_inv_def by (elim conjE) blast
        then show ?thesis by auto
      qed
      moreover have "covering K cx ?es3 f r" if "(f, rs) \<in> set (es_covered ?es3)" "r \<in> set rs" for f rs r
        using cov [of f rs r] that by (simp add: covering_def)
      ultimately have "es_inv K cx ?es3" using inv nf f wf unfolding es_inv_def by simp
      with False nf show ?thesis by (simp add: report_class_def)
    qed
  qed
qed

lemma evaluate_seed_steps:
  assumes "get_at (rv_files (ex_after cx)) (ao_file seed) = Some f"
  shows "(\<exists>cands cs1 r cs2. candidate_regions (ex_after cx) anchor seed occurrences (es_comparison es) = (cands, cs1) \<and>
      best_class K cx fam cands None cs1 = Some (r, cs2) \<and> moves (es_comparison es) cs2 \<and>
      (\<forall>c. r = Some c \<longrightarrow> genuine_class cx c \<and> ec_family c = fam) \<and>
      evaluate_seed K cx fam anchor occurrences seed es =
        Some (if rgf_path f \<notin> set (ri_changed_paths (ex_inputs cx)) \<or> rgf_path f \<in> set (ri_suppressed_paths (ex_inputs cx))
                 \<or> interval_contains (es_covered es) (ao_file seed) (ao_token_index seed) then es
              else case r of None \<Rightarrow> es\<lparr> es_comparison := cs2 \<rparr>
                 | Some c \<Rightarrow> report_class (ri_finding_limit (ex_inputs cx)) c (es\<lparr> es_comparison := cs2 \<rparr>)))"
proof -
  obtain cands cs1 where c: "candidate_regions (ex_after cx) anchor seed occurrences (es_comparison es) = (cands, cs1)"
    by fastforce
  note w = candidate_regions_wf [OF c]
  obtain r cs2 where b: "best_class K cx fam cands None cs1 = Some (r, cs2)" "moves cs1 cs2"
    and g: "\<forall>c. r = Some c \<longrightarrow> genuine_class cx c \<and> ec_family c = fam"
    using best_class_outcome [of cands None cx fam K cs1] w by auto
  have m: "moves (es_comparison es) cs2" using w b(2) moves_trans by blast
  have "evaluate_seed K cx fam anchor occurrences seed es =
        Some (if rgf_path f \<notin> set (ri_changed_paths (ex_inputs cx)) \<or> rgf_path f \<in> set (ri_suppressed_paths (ex_inputs cx))
                 \<or> interval_contains (es_covered es) (ao_file seed) (ao_token_index seed) then es
              else case r of None \<Rightarrow> es\<lparr> es_comparison := cs2 \<rparr>
                 | Some c \<Rightarrow> report_class (ri_finding_limit (ex_inputs cx)) c (es\<lparr> es_comparison := cs2 \<rparr>))"
    using assms c b(1) g by (auto simp: evaluate_seed_def report_class_def Let_def split: option.split)
  with c b(1) m g show ?thesis by blast
qed

text \<open>States only grow, and the invariant is kept.\<close>

definition es_step :: "crates \<Rightarrow> evaluation_context \<Rightarrow> evaluation_state \<Rightarrow> evaluation_state option \<Rightarrow> bool" where
  "es_step K cx es out \<longleftrightarrow>
     (\<exists>es'. out = Some es' \<and> es_inv K cx es' \<and>
        (cs_incomplete (es_comparison es) \<longrightarrow> cs_incomplete (es_comparison es')) \<and>
        set (es_reported_classes es) \<subseteq> set (es_reported_classes es') \<and>
        (\<forall>f t. interval_contains (es_covered es) f t \<longrightarrow> interval_contains (es_covered es') f t))"

lemma es_step_refl: "es_inv K cx es \<Longrightarrow> es_step K cx es (Some es)"
  by (simp add: es_step_def)

lemma es_step_bind:
  assumes "es_step K cx es out" and "\<And>es'. out = Some es' \<Longrightarrow> es_inv K cx es' \<Longrightarrow> es_step K cx es' (f es')"
  shows "es_step K cx es (case out of None \<Rightarrow> None | Some es' \<Rightarrow> f es')"
proof -
  from assms(1) obtain es' where e: "out = Some es'" "es_inv K cx es'"
    "cs_incomplete (es_comparison es) \<longrightarrow> cs_incomplete (es_comparison es')"
    "set (es_reported_classes es) \<subseteq> set (es_reported_classes es')"
    "\<forall>f t. interval_contains (es_covered es) f t \<longrightarrow> interval_contains (es_covered es') f t"
    by (auto simp: es_step_def)
  from assms(2) [OF e(1,2)] e show ?thesis by (auto simp: es_step_def)
qed

lemma interval_contains_entry:
  assumes "bt_wf covered" and "interval_contains covered f t"
  shows "interval_contains (bt_entry [] (\<lambda>rs. rs @ [r]) g covered) f t"
  using assms by (auto simp: interval_contains_def split: option.splits)

lemma mark_covered_covers:
  assumes "bt_wf covered"
  shows "bt_wf (mark_covered xs covered) \<and>
    (\<forall>f t. interval_contains covered f t \<longrightarrow> interval_contains (mark_covered xs covered) f t) \<and>
    (\<forall>x t. x \<in> set xs \<and> eo_changed x \<and> eo_start x \<le> t \<and> t < eo_end x \<longrightarrow>
       interval_contains (mark_covered xs covered) (eo_file x) t)"
proof -
  let ?F = "\<lambda>x. bt_entry [] (\<lambda>rs. rs @ [(eo_start x, eo_end x)]) (eo_file x)"
  have "bt_wf (fold ?F ys m) \<and> (\<forall>f t. interval_contains m f t \<longrightarrow> interval_contains (fold ?F ys m) f t) \<and>
    (\<forall>x t. x \<in> set ys \<and> eo_start x \<le> t \<and> t < eo_end x \<longrightarrow> interval_contains (fold ?F ys m) (eo_file x) t)"
    if "bt_wf m" for ys m
    using that
  proof (induction ys arbitrary: m)
    case Nil
    then show ?case by simp
  next
    case (Cons y ys)
    have "interval_contains (?F y m) (eo_file y) t" if "eo_start y \<le> t" "t < eo_end y" for t
      using that Cons.prems by (simp add: interval_contains_def)
    with Cons.IH [of "?F y m"] Cons.prems interval_contains_entry show ?case by auto
  qed
  from this [OF assms, of "filter eo_changed xs"] show ?thesis by (simp add: mark_covered_def)
qed

lemma report_class_covers:
  assumes "bt_wf (es_covered es)"
  shows "(\<forall>f t. interval_contains (es_covered es) f t \<longrightarrow> interval_contains (es_covered (report_class n c es)) f t) \<and>
    (\<forall>x t. x \<in> set (ec_after_occurrences c) \<and> eo_changed x \<and> eo_start x \<le> t \<and> t < eo_end x \<longrightarrow>
       interval_contains (es_covered (report_class n c es)) (eo_file x) t) \<and>
    cs_incomplete (es_comparison (report_class n c es)) = cs_incomplete (es_comparison es) \<and>
    set (es_reported_classes (report_class n c es)) = insert (ec_family c, ec_digest c) (set (es_reported_classes es))"
proof -
  have "es_covered (report_class n c es) = mark_covered (ec_after_occurrences c) (es_covered es)"
    "cs_incomplete (es_comparison (report_class n c es)) = cs_incomplete (es_comparison es)"
    "set (es_reported_classes (report_class n c es)) = insert (ec_family c, ec_digest c) (set (es_reported_classes es))"
    by (auto simp: report_class_def Let_def)
  with mark_covered_covers [OF assms, of "ec_after_occurrences c"] show ?thesis by simp
qed

definition seed_in :: "evaluation_context \<Rightarrow> bytes \<Rightarrow> anchor_occurrence \<Rightarrow> bool" where
  "seed_in cx fam x \<longleftrightarrow> ao_file x < length (rv_files (ex_after cx)) \<and> file_family (ex_after cx) (ao_file x) = fam"

lemma evaluate_seed_step:
  assumes "es_inv K cx es" and "seed_in cx fam seed" and "indices_in_range (ex_after cx)"
  shows "es_step K cx es (evaluate_seed K cx fam anchor occurrences seed es)"
proof -
  from assms(2) obtain f where f: "get_at (rv_files (ex_after cx)) (ao_file seed) = Some f" by (simp add: get_at_def seed_in_def)
  from evaluate_seed_steps [OF f, of anchor occurrences es K fam]
  obtain cands cs1 r cs2 where c: "candidate_regions (ex_after cx) anchor seed occurrences (es_comparison es) = (cands, cs1)"
    and b: "best_class K cx fam cands None cs1 = Some (r, cs2)" and m: "moves (es_comparison es) cs2"
    and e: "evaluate_seed K cx fam anchor occurrences seed es =
        Some (if rgf_path f \<notin> set (ri_changed_paths (ex_inputs cx)) \<or> rgf_path f \<in> set (ri_suppressed_paths (ex_inputs cx))
                 \<or> interval_contains (es_covered es) (ao_file seed) (ao_token_index seed) then es
              else case r of None \<Rightarrow> es\<lparr> es_comparison := cs2 \<rparr>
                 | Some c \<Rightarrow> report_class (ri_finding_limit (ex_inputs cx)) c (es\<lparr> es_comparison := cs2 \<rparr>))"
    by blast
  have g: "\<forall>c. r = Some c \<longrightarrow> sound_class K cx c"
    using candidate_regions_wf [OF c] candidate_regions_file [OF c] assms(2)
    by (intro best_class_sound [OF _ assms(3) _ b]) (auto simp: seed_in_def)
  let ?es = "es\<lparr> es_comparison := cs2 \<rparr>"
  have inv: "es_inv K cx ?es" by (rule es_inv_comparison [OF assms(1) m])
  have inc: "cs_incomplete (es_comparison es) \<longrightarrow> cs_incomplete cs2" using m by (simp add: moves_def)
  have wf: "bt_wf (es_covered ?es)" using assms(1) by (simp add: es_inv_def)
  show ?thesis
  proof (cases r)
    case None
    with e assms(1) inv inc show ?thesis by (auto simp: es_step_def)
  next
    case (Some c)
    with g have "es_inv K cx (report_class (ri_finding_limit (ex_inputs cx)) c ?es)" by (simp add: report_class_inv [OF inv])
    with report_class_covers [OF wf, of "ri_finding_limit (ex_inputs cx)" c] e assms(1) inc Some show ?thesis
      by (auto simp: es_step_def)
  qed
qed

lemma seed_loop_step:
  assumes "es_inv K cx es" and "\<forall>x\<in>set seeds. seed_in cx fam x" and "indices_in_range (ex_after cx)"
  shows "es_step K cx es (seed_loop K cx fam anchor occurrences seeds es)"
  using assms
proof (induction seeds arbitrary: es)
  case Nil
  then show ?case by (simp add: es_step_refl)
next
  case (Cons seed seeds)
  have "es_step K cx es (evaluate_seed K cx fam anchor occurrences seed es)"
    using Cons.prems by (intro evaluate_seed_step) simp_all
  then show ?case unfolding seed_loop.simps
    by (rule es_step_bind) (use Cons es_step_refl in simp)
qed

lemma any_introducible_Some:
  assumes "\<forall>x\<in>set xs. ao_file x < length (rv_files view)"
  shows "any_introducible view changed suppressed xs =
    Some (\<exists>x\<in>set xs. rgf_path (rv_files view ! ao_file x) \<in> set changed \<and> rgf_path (rv_files view ! ao_file x) \<notin> set suppressed)"
  using assms by (induction xs) (auto simp: get_at_def)

lemma evaluate_group_step:
  assumes "es_inv K cx es" and "\<forall>x\<in>set after. seed_in cx fam x" and "indices_in_range (ex_after cx)"
  shows "es_step K cx es (evaluate_group K cx fam anchor after es)"
proof -
  have "anchor_class_may_be_introduced cx after \<noteq> None"
    using any_introducible_Some [of after "ex_after cx"] assms(2) by (auto simp: seed_in_def anchor_class_may_be_introduced_def ex_bool_eq)
  then obtain b where "anchor_class_may_be_introduced cx after = Some b" by blast
  with assms seed_loop_step es_step_refl show ?thesis by (cases b) (simp_all add: evaluate_group_def)
qed

lemma family_loop_step:
  assumes "es_inv K cx es" and "\<forall>(fam, k, os)\<in>set groups. \<forall>x\<in>set os. seed_in cx fam x"
    and "indices_in_range (ex_after cx)"
  shows "es_step K cx es (family_loop K cx groups es)"
  using assms
proof (induction groups arbitrary: es)
  case Nil
  then show ?case by (simp add: es_step_refl)
next
  case (Cons grp groups)
  obtain fam k os where grp: "grp = (fam, k, os)" by (cases grp) auto
  have "es_step K cx es (evaluate_group K cx fam k os es)"
    using Cons.prems grp by (intro evaluate_group_step) auto
  then show ?case unfolding grp family_loop.simps
    by (rule es_step_bind) (use Cons es_step_refl in simp)
qed

section \<open>Region findings\<close>

text \<open>The two views of a request, and the comparison state after looking at their malformed evidence.\<close>

definition region_context :: "(bytes \<Rightarrow> bytes option) \<Rightarrow> region_inputs \<Rightarrow> evaluation_context" where
  "region_context b64 inputs =
     (let (before, de) = region_view_new b64 ViewBefore (ri_before inputs) (ri_file_facts inputs)
                           (ri_fact_keys inputs) (ri_continuity inputs) []
      in \<lparr> ex_inputs = inputs, ex_before = before,
           ex_after = fst (region_view_new b64 ViewAfter (ri_after inputs) (ri_file_facts inputs)
                             (ri_fact_keys inputs) [] de) \<rparr>)"

definition observed_state :: "evaluation_context \<Rightarrow> comparison_state" where
  "observed_state cx = observe_malformed_view (ex_after cx) (observe_malformed_view (ex_before cx) default_comparison_state)"

definition region_evaluation :: "crates \<Rightarrow> evaluation_context \<Rightarrow> evaluation_state option" where
  "region_evaluation K cx =
     (let es = default_evaluation_state\<lparr> es_comparison := observed_state cx \<rparr>
      in if cs_incomplete (observed_state cx) then Some es
         else family_loop K cx (flat_groups (rv_groups (ex_after cx))) es)"

lemma region_findings_eq:
  "region_findings K b64 inputs = None \<longleftrightarrow> region_evaluation K (region_context b64 inputs) = None"
  "region_findings K b64 inputs = Some rr \<Longrightarrow>
     \<exists>es. region_evaluation K (region_context b64 inputs) = Some es \<and> rr_findings rr = es_findings es \<and>
       rr_findings_truncated rr = cs_findings_truncated (es_comparison es) \<and>
       rr_before rr = view_coverage (ex_before (region_context b64 inputs)) (es_comparison es) \<and>
       rr_after rr = view_coverage (ex_after (region_context b64 inputs)) (es_comparison es) \<and>
       rr_comparison_issues rr = comparison_issues (es_comparison es)"
  by (auto simp: region_findings_def region_evaluation_def region_context_def observed_state_def Let_def
      split: prod.splits option.splits if_splits)

lemma fold_record_malformed [simp]:
  "cs_incomplete (fold cs_record_malformed ps cs) = cs_incomplete cs"
  "cs_limit_reached (fold cs_record_malformed ps cs) = cs_limit_reached cs"
  "cs_malformed_evidence (fold cs_record_malformed ps cs) = cs_malformed_evidence cs"
  "cs_findings_truncated (fold cs_record_malformed ps cs) = cs_findings_truncated cs"
  by (induction ps arbitrary: cs) simp_all

lemma observe_malformed_view_flags:
  "cs_incomplete (observe_malformed_view view cs) \<longleftrightarrow>
     cs_incomplete cs \<or> rv_malformed_paths view \<noteq> [] \<or> rv_malformed_paths_truncated view"
  "cs_malformed_evidence (observe_malformed_view view cs) \<longleftrightarrow>
     cs_malformed_evidence cs \<or> rv_malformed_paths view \<noteq> [] \<or> rv_malformed_paths_truncated view"
  "cs_limit_reached (observe_malformed_view view cs) = cs_limit_reached cs"
  "cs_findings_truncated (observe_malformed_view view cs) = cs_findings_truncated cs"
  by (simp_all add: observe_malformed_view_def Let_def)

lemma observed_state_ok: "cs_ok (observed_state cx)"
  by (auto simp: cs_ok_def observed_state_def observe_malformed_view_flags default_comparison_state_def)

lemma initial_inv: "es_inv K cx (default_evaluation_state\<lparr> es_comparison := observed_state cx \<rparr>)"
  by (simp add: es_inv_def default_evaluation_state_def observed_state_ok)

lemma region_context_range: "indices_in_range (ex_after (region_context b64 inputs))"
  by (simp add: region_context_def split_def Let_def region_view_new_range)

lemma region_evaluation_inv:
  assumes "indices_in_range (ex_after cx)"
  shows "\<exists>es. region_evaluation K cx = Some es \<and> es_inv K cx es"
proof -
  have "es_step K cx (default_evaluation_state\<lparr> es_comparison := observed_state cx \<rparr>)
      (family_loop K cx (flat_groups (rv_groups (ex_after cx))) (default_evaluation_state\<lparr> es_comparison := observed_state cx \<rparr>))"
    using assms by (intro family_loop_step [OF initial_inv]) (auto simp: seed_in_def indices_in_range_def dest!: flat_groups_occurrences)
  then show ?thesis
    using initial_inv [of K cx] by (cases "cs_incomplete (observed_state cx)") (auto simp: region_evaluation_def es_step_def Let_def)
qed

lemma region_findings_Some:
  obtains rr es where "region_findings K b64 inputs = Some rr"
    and "region_evaluation K (region_context b64 inputs) = Some es" and "es_inv K (region_context b64 inputs) es"
    and "rr_findings rr = es_findings es" and "rr_findings_truncated rr = cs_findings_truncated (es_comparison es)"
    and "rr_before rr = view_coverage (ex_before (region_context b64 inputs)) (es_comparison es)"
    and "rr_after rr = view_coverage (ex_after (region_context b64 inputs)) (es_comparison es)"
    and "rr_comparison_issues rr = comparison_issues (es_comparison es)"
proof -
  obtain es where es: "region_evaluation K (region_context b64 inputs) = Some es" "es_inv K (region_context b64 inputs) es"
    using region_evaluation_inv [OF region_context_range] by blast
  with region_findings_eq(1) obtain rr where rr: "region_findings K b64 inputs = Some rr" by fastforce
  from region_findings_eq(2) [OF rr] es that rr show ?thesis by auto
qed

text \<open>
  C10. Region findings are never the work of a hash collision: the search always returns, within the limit
  of findings, and each finding is a run of at least \<open>MIN_DEDUP_REGION_TOKENS\<close> tokens that stands token
  for token, without overlap, at all the places it counts in the candidate view; it was found at fewer
  places of the baseline, and the count of some changed path grew.
\<close>

theorem region_findings_genuine:
  "\<exists>rr. region_findings K b64 inputs = Some rr \<and> length (rr_findings rr) \<le> ri_finding_limit inputs \<and>
     list_all (genuine_finding (region_context b64 inputs)) (rr_findings rr)"
proof (rule region_findings_Some [of K b64 inputs], goal_cases)
  case (1 rr es)
  have "ex_inputs (region_context b64 inputs) = inputs" by (simp add: region_context_def split_def Let_def)
  with 1 show ?case by (auto simp: es_inv_def)
qed

end
