(* ===== verification/RegionsComplete.thy ===== *)
theory RegionsComplete
  imports RegionsExact
begin

text \<open>
  What the region search of the theory \<open>Regions\<close> does not miss. While the comparison state stays
  complete, the extension of two anchors is the maximal region on which they agree, every candidate is
  examined, and a duplicate the baseline has no trace of is reported for each changed path it is in. And
  evidence that cannot be decoded never goes unreported.
\<close>

section \<open>Maximal regions\<close>

text \<open>Rust vectors have at most \<open>usize_max\<close> elements.\<close>

definition small_view :: "region_view \<Rightarrow> bool" where
  "small_view view \<longleftrightarrow> (\<forall>f\<in>set (rv_files view). length (dts_tokens (rgf_decoded f)) \<le> usize_max)"

definition agree :: "region_view \<Rightarrow> nat \<Rightarrow> nat \<Rightarrow> nat \<Rightarrow> nat \<Rightarrow> bool" where
  "agree view f i g j \<longleftrightarrow>
     same_token (same_view view \<lparr> tl_file = f, tl_token = i \<rparr> \<lparr> tl_file = g, tl_token = j \<rparr>)"

lemma exact_token_in_range:
  assumes "exact_token view l = Some t"
  obtains f where "get_at (rv_files view) (tl_file l) = Some f" and "tl_token l < length (dts_tokens (rgf_decoded f))"
  using assms by (auto simp: exact_token_def get_at_def split: option.splits if_splits)

lemma small_view_token:
  assumes "small_view view" and "get_at (rv_files view) f = Some x" and "i < length (dts_tokens (rgf_decoded x))"
  shows "i < usize_max"
proof -
  from assms(2) have "x \<in> set (rv_files view)" by (auto simp: get_at_def split: if_splits)
  with assms(1,3) show ?thesis by (fastforce simp: small_view_def)
qed

lemma agree_tokens:
  assumes "agree view f i g j"
  obtains t where "exact_token view \<lparr> tl_file = f, tl_token = i \<rparr> = Some t"
    and "exact_token view \<lparr> tl_file = g, tl_token = j \<rparr> = Some t"
  using assms by (fastforce simp: agree_def same_token_def same_view_def)

lemma agree_in_range:
  assumes "small_view view" and "agree view f i g j"
  shows "i < usize_max \<and> j < usize_max"
proof -
  from assms(2) obtain t where "exact_token view \<lparr> tl_file = f, tl_token = i \<rparr> = Some t"
      "exact_token view \<lparr> tl_file = g, tl_token = j \<rparr> = Some t"
    by (rule agree_tokens)
  then show ?thesis using small_view_token [OF assms(1)] by (metis exact_token_in_range token_location.select_convs)
qed

lemma not_agree_beyond:
  assumes "get_at (rv_files view) f = Some x" and "length (dts_tokens (rgf_decoded x)) \<le> i"
  shows "\<not> agree view f i g j" "\<not> agree view g j f i"
  using assms by (auto simp: agree_def same_token_def same_view_def exact_token_def get_at_def split: option.splits)

lemma extend_right_exact:
  assumes "small_view view"
    and "extend_right view \<lparr> tl_file = f, tl_token = i \<rparr> \<lparr> tl_file = g, tl_token = j \<rparr> cs = (res, cs')"
    and "\<not> cs_incomplete cs'"
  shows "\<exists>n. res = Some (i + n) \<and> (\<forall>k<n. agree view f (i + k) g (j + k)) \<and> \<not> agree view f (i + n) g (j + n)"
  using assms(2,3)
proof (induction "cs_remaining cs" arbitrary: i j cs rule: less_induct)
  case less
  show ?case
  proof (rule extend_right_cases [OF less.prems(1)], goal_cases)
    case (1 b1 cs1 b2 cs2 t cs3)
    note m = token_exists_outcome [OF 1(1)] token_exists_outcome [OF 1(2)] tokens_equal_outcome [OF 1(3)]
    show ?case
    proof (cases "b1 \<and> b2")
      case False
      then have "(\<exists>x. get_at (rv_files view) f = Some x \<and> length (dts_tokens (rgf_decoded x)) \<le> i) \<or>
          (\<exists>x. get_at (rv_files view) g = Some x \<and> length (dts_tokens (rgf_decoded x)) \<le> j)"
        using m(1,2) 1(4) less.prems(2) by (auto split: if_splits)
      then have "\<not> agree view f i g j" using not_agree_beyond by blast
      moreover have "res = Some i" using False 1(4) by (auto split: if_splits)
      ultimately show ?thesis by (intro exI [of _ 0]) simp
    next
      case True
      from m(1,2) True have cs2: "cs2 = cs" by blast
      have "moves cs3 cs'" if "t = Some True"
        using 1(4) True that extend_right_bound [of view _ _ cs3 res cs'] by (auto simp: tl_offset_def)
      then have "\<not> cs_incomplete cs3" using 1(4) True less.prems(2)
        by (cases t) (auto simp: moves_def split: if_splits)
      with m(3) have t: "t \<noteq> None" "t = Some (agree view f i g j)" by (auto simp: agree_def)
      show ?thesis
      proof (cases "agree view f i g j")
        case False
        with t 1(4) True show ?thesis by (intro exI [of _ 0]) simp
      next
        case ag: True
        have s: "tl_offset \<lparr> tl_file = f, tl_token = i \<rparr> 1 = \<lparr> tl_file = f, tl_token = i + 1 \<rparr>"
            "tl_offset \<lparr> tl_file = g, tl_token = j \<rparr> 1 = \<lparr> tl_file = g, tl_token = j + 1 \<rparr>"
          using agree_in_range [OF assms(1) ag] by (simp_all add: tl_offset_def sat_add_def)
        have lt: "cs_remaining cs3 < cs_remaining cs" using 1(3) t(2) cs2 tokens_equal_spends by auto
        have eq: "extend_right view \<lparr> tl_file = f, tl_token = i + 1 \<rparr> \<lparr> tl_file = g, tl_token = j + 1 \<rparr> cs3 = (res, cs')"
          using 1(4) True t ag s by simp
        from less.hyps [OF lt eq less.prems(2)] obtain n where n: "res = Some (i + 1 + n)"
            "\<forall>k<n. agree view f (i + 1 + k) g (j + 1 + k)" "\<not> agree view f (i + 1 + n) g (j + 1 + n)" by blast
        have "agree view f (i + k) g (j + k)" if "k < Suc n" for k
          using that ag n(2) by (cases k) auto
        with n show ?thesis by (intro exI [of _ "Suc n"]) simp
      qed
    qed
  qed
qed

lemma extend_left_exact:
  assumes "extend_left view \<lparr> tl_file = f, tl_token = i \<rparr> \<lparr> tl_file = g, tl_token = j \<rparr> cs = (res, cs')"
    and "\<not> cs_incomplete cs'"
  shows "\<exists>n. res = Some (i - n) \<and> n \<le> i \<and> n \<le> j \<and> (\<forall>k<n. agree view f (i - Suc k) g (j - Suc k)) \<and>
    \<not> (n < i \<and> n < j \<and> agree view f (i - Suc n) g (j - Suc n))"
  using assms
proof (induction i arbitrary: j cs)
  case 0
  then have "res = Some 0" by (simp add: extend_left.simps)
  then show ?case by (intro exI [of _ 0]) simp
next
  case (Suc i)
  show ?case
  proof (rule extend_left_cases [OF Suc.prems(1)], goal_cases)
    case (1 t cs1)
    show ?case
    proof (cases j)
      case 0
      with 1(2) show ?thesis by (intro exI [of _ 0]) simp
    next
      case (Suc j')
      have p: "tl_prior \<lparr> tl_file = f, tl_token = Suc i \<rparr> = \<lparr> tl_file = f, tl_token = i \<rparr>"
          "tl_prior \<lparr> tl_file = g, tl_token = j \<rparr> = \<lparr> tl_file = g, tl_token = j' \<rparr>"
        using Suc by (simp_all add: tl_prior_def)
      have "moves cs1 cs'" if "t = Some True"
        using 1(2) Suc that p extend_left_bound [of view _ _ cs1 res cs'] by auto
      then have "\<not> cs_incomplete cs1" using 1(2) Suc Suc.prems(2) by (cases t) (auto simp: moves_def split: if_splits)
      with tokens_equal_outcome [OF 1(1)] have t: "t = Some (agree view f i g j')" by (auto simp: agree_def p)
      show ?thesis
      proof (cases "agree view f i g j'")
        case False
        with t 1(2) Suc show ?thesis by (intro exI [of _ 0]) simp
      next
        case True
        with t 1(2) Suc p have "extend_left view \<lparr> tl_file = f, tl_token = i \<rparr> \<lparr> tl_file = g, tl_token = j' \<rparr> cs1 = (res, cs')"
          by simp
        from Suc.IH [OF this Suc.prems(2)] obtain n where n: "res = Some (i - n)" "n \<le> i" "n \<le> j'"
            "\<forall>k<n. agree view f (i - Suc k) g (j' - Suc k)"
            "\<not> (n < i \<and> n < j' \<and> agree view f (i - Suc n) g (j' - Suc n))" by blast
        have "agree view f (Suc i - Suc k) g (j - Suc k)" if "k < Suc n" for k
          using that True n(4) Suc by (cases k) auto
        with n Suc show ?thesis by (intro exI [of _ "Suc n"]) simp
      qed
    qed
  qed
qed

lemma anchor_tokens_match_exact:
  assumes "small_view view"
    and "anchor_tokens_match view \<lparr> tl_file = f, tl_token = i \<rparr> \<lparr> tl_file = g, tl_token = j \<rparr> cs = (res, cs')"
    and "\<not> cs_incomplete cs'"
  shows "res = Some (\<forall>k<DEDUP_REGION_KGRAM_TOKENS. agree view f (i + k) g (j + k))"
proof -
  let ?p = "\<lambda>n. same_view view (tl_offset \<lparr> tl_file = f, tl_token = i \<rparr> n) (tl_offset \<lparr> tl_file = g, tl_token = j \<rparr> n)"
  have a: "all_equal ?p [0..<DEDUP_REGION_KGRAM_TOKENS] cs = (res, cs')"
    using assms(2) by (simp add: anchor_tokens_match_def)
  have p: "same_token (?p n) \<longleftrightarrow> agree view f (sat_add i n) g (sat_add j n)" for n
    by (simp add: agree_def tl_offset_def)
  have "same_token (?p n) \<longleftrightarrow> agree view f (i + n) g (j + n)" for n
  proof
    assume "same_token (?p n)"
    with p have ag: "agree view f (sat_add i n) g (sat_add j n)" by simp
    with agree_in_range [OF assms(1)] have "sat_add i n < usize_max" "sat_add j n < usize_max" by blast+
    then have "sat_add i n = i + n" "sat_add j n = j + n" by (auto simp: sat_add_def min_def split: if_splits)
    with ag show "agree view f (i + n) g (j + n)" by simp
  next
    assume ag: "agree view f (i + n) g (j + n)"
    with agree_in_range [OF assms(1)] have "i + n < usize_max" "j + n < usize_max" by blast+
    then have "sat_add i n = i + n" "sat_add j n = j + n" by (simp_all add: sat_add_def)
    with ag p show "same_token (?p n)" by simp
  qed
  with all_equal_outcome [OF a] assms(3) show ?thesis by (cases res) auto
qed

text \<open>Two anchors agree on \<open>[s, e)\<close>, a region around both, and nowhere further.\<close>

definition maximal_agreement :: "region_view \<Rightarrow> anchor_occurrence \<Rightarrow> anchor_occurrence \<Rightarrow> nat \<Rightarrow> nat \<Rightarrow> bool" where
  "maximal_agreement view seed peer s e \<longleftrightarrow>
     (let i = ao_token_index seed; j = ao_token_index peer; f = ao_file seed; g = ao_file peer
      in s \<le> i \<and> i - s \<le> j \<and> i + DEDUP_REGION_KGRAM_TOKENS \<le> e \<and>
         (\<forall>k. s \<le> k \<and> k < e \<longrightarrow> agree view f k g (k + j - i)) \<and>
         \<not> agree view f e g (e + j - i) \<and>
         \<not> (0 < s \<and> i - s < j \<and> agree view f (s - 1) g (s - 1 + j - i)))"

lemma maximal_exact_region_outcome:
  assumes small: "small_view view" and e: "maximal_exact_region view seed peer cs = (res, cs')"
    and inc: "\<not> cs_incomplete cs'"
  shows "case res of
      None \<Rightarrow> \<exists>k<DEDUP_REGION_KGRAM_TOKENS. \<not> agree view (ao_file seed) (ao_token_index seed + k) (ao_file peer) (ao_token_index peer + k)
    | Some (s, e) \<Rightarrow> maximal_agreement view seed peer s e"
proof (rule maximal_exact_region_steps [OF e refl refl], goal_cases)
  case (1 t cs1 a cs2 b cs3)
  let ?i = "ao_token_index seed" and ?j = "ao_token_index peer" and ?f = "ao_file seed" and ?g = "ao_file peer"
  let ?K = DEDUP_REGION_KGRAM_TOKENS
  have m2: "moves cs1 cs2" using extend_left_bound [OF 1(2)] by simp
  have m3: "moves cs2 cs3" using extend_right_bound [OF 1(3)] by (simp add: tl_offset_def)
  have "\<not> cs_incomplete cs1" using 1(4) inc m2 m3 by (auto simp: moves_def split: if_splits)
  note t = anchor_tokens_match_exact [OF small 1(1) this]
  show ?case
  proof (cases "\<forall>k<?K. agree view ?f (?i + k) ?g (?j + k)")
    case False
    with t 1(4) show ?thesis by auto
  next
    case True
    have "\<not> cs_incomplete cs2" using 1(4) inc m3 True t by (auto simp: moves_def split: if_splits)
    from extend_left_exact [OF 1(2) this] obtain n where n: "a = Some (?i - n)" "n \<le> ?i" "n \<le> ?j"
        "\<forall>k<n. agree view ?f (?i - Suc k) ?g (?j - Suc k)"
        "\<not> (n < ?i \<and> n < ?j \<and> agree view ?f (?i - Suc n) ?g (?j - Suc n))" by blast
    have K: "0 < ?K" by (simp add: DEDUP_REGION_KGRAM_TOKENS_def)
    from True K have "agree view ?f (?i + (?K - 1)) ?g (?j + (?K - 1))" by simp
    from agree_in_range [OF small this] K have "?i + ?K \<le> usize_max \<and> ?j + ?K \<le> usize_max" by linarith
    then have off:
      "tl_offset \<lparr> tl_file = ?f, tl_token = ?i \<rparr> ?K = \<lparr> tl_file = ?f, tl_token = ?i + ?K \<rparr>"
      "tl_offset \<lparr> tl_file = ?g, tl_token = ?j \<rparr> ?K = \<lparr> tl_file = ?g, tl_token = ?j + ?K \<rparr>"
      by (simp_all add: tl_offset_def sat_add_def)
    have cs3: "cs' = cs3" "res = map_option (Pair (?i - n)) b" using 1(4) True t n(1) by simp_all
    with inc extend_right_exact [OF small 1(3) [unfolded off]] obtain m where m: "b = Some (?i + ?K + m)"
        "\<forall>k<m. agree view ?f (?i + ?K + k) ?g (?j + ?K + k)" "\<not> agree view ?f (?i + ?K + m) ?g (?j + ?K + m)" by blast
    have "agree view ?f k ?g (k + ?j - ?i)" if "?i - n \<le> k" "k < ?i + ?K + m" for k
    proof -
      consider "k < ?i" | "?i \<le> k" "k < ?i + ?K" | "?i + ?K \<le> k" by linarith
      then show ?thesis
      proof cases
        case 1
        with that(1) n(2,3) have "?i - Suc k < n" "?i - Suc (?i - Suc k) = k" "?j - Suc (?i - Suc k) = k + ?j - ?i" by linarith+
        with n(4) show ?thesis by metis
      next
        case 2
        with True [rule_format, of "k - ?i"] show ?thesis by (simp add: add.commute)
      next
        case 3
        with that(2) m(2) [rule_format, of "k - ?i - ?K"] show ?thesis by (simp add: add.commute)
      qed
    qed
    moreover have "\<not> agree view ?f (?i + ?K + m) ?g (?i + ?K + m + ?j - ?i)"
    proof -
      have eq: "?i + ?K + m + ?j - ?i = ?j + ?K + m" by simp
      show ?thesis unfolding eq by (rule m(3))
    qed
    moreover have "\<not> (0 < ?i - n \<and> n < ?j \<and> agree view ?f (?i - n - 1) ?g (?i - n - 1 + ?j - ?i))"
    proof -
      have "0 < ?i - n \<Longrightarrow> n < ?j \<Longrightarrow> ?i - n - 1 + ?j - ?i = ?j - Suc n" by linarith
      with n(5) show ?thesis by auto
    qed
    ultimately have "maximal_agreement view seed peer (?i - n) (?i + ?K + m)"
      using n(2,3) unfolding maximal_agreement_def Let_def by (auto simp: diff_diff_cancel)
    with cs3 m(1) show ?thesis by simp
  qed
qed

section \<open>Candidates of a seed\<close>

text \<open>A candidate of a seed: a region of existing tokens around the seed's anchor.\<close>

definition candidate_of :: "region_view \<Rightarrow> hash_pair \<Rightarrow> anchor_occurrence \<Rightarrow> candidate \<Rightarrow> bool" where
  "candidate_of view k seed c \<longleftrightarrow>
     candidate_wf c \<and> cd_file c = ao_file seed \<and> cd_anchor c = k \<and> cd_start c \<le> ao_token_index seed \<and>
     cd_anchor_offset c = ao_token_index seed - cd_start c \<and>
     (\<forall>i. cd_start c \<le> i \<and> i < cd_end c \<longrightarrow> exact_token view \<lparr> tl_file = cd_file c, tl_token = i \<rparr> \<noteq> None)"

lemma maximal_agreement_candidate:
  assumes "maximal_agreement view seed peer s e" and "e \<le> usize_max" and "MIN_DEDUP_REGION_TOKENS \<le> e - s"
  shows "candidate_of view k seed \<lparr> cd_file = ao_file seed, cd_start = s, cd_end = e, cd_anchor = k,
           cd_anchor_offset = ao_token_index seed - s \<rparr>"
proof -
  have "exact_token view \<lparr> tl_file = ao_file seed, tl_token = i \<rparr> \<noteq> None" if "s \<le> i" "i < e" for i
  proof -
    have "agree view (ao_file seed) i (ao_file peer) (i + ao_token_index peer - ao_token_index seed)"
      using assms(1) that by (simp add: maximal_agreement_def Let_def)
    then show ?thesis by (rule agree_tokens) simp
  qed
  with assms show ?thesis
    by (simp add: candidate_of_def candidate_wf_def cd_len_def maximal_agreement_def Let_def)
qed

text \<open>Two anchors agree on a run around both.\<close>

definition agreement_run :: "region_view \<Rightarrow> anchor_occurrence \<Rightarrow> anchor_occurrence \<Rightarrow> nat \<Rightarrow> nat \<Rightarrow> bool" where
  "agreement_run view seed peer lo hi \<longleftrightarrow>
     lo \<le> ao_token_index seed \<and> ao_token_index seed - lo \<le> ao_token_index peer \<and>
     ao_token_index seed + DEDUP_REGION_KGRAM_TOKENS \<le> hi \<and>
     (\<forall>k. lo \<le> k \<and> k < hi \<longrightarrow>
        agree view (ao_file seed) k (ao_file peer) (k + ao_token_index peer - ao_token_index seed))"

lemma run_within_maximal:
  assumes "maximal_agreement view seed peer s e" and "agreement_run view seed peer lo hi"
  shows "s \<le> lo \<and> hi \<le> e"
proof (intro conjI; rule ccontr)
  let ?i = "ao_token_index seed" and ?j = "ao_token_index peer"
  note m = assms(1) [unfolded maximal_agreement_def Let_def] and r = assms(2) [unfolded agreement_run_def]
  assume "\<not> s \<le> lo"
  then have "lo \<le> s - 1" "s - 1 < hi" "0 < s" "?i - s < ?j" using m r by linarith+
  with r have "agree view (ao_file seed) (s - 1) (ao_file peer) (s - 1 + ?j - ?i)" by blast
  with m \<open>0 < s\<close> \<open>?i - s < ?j\<close> show False by blast
next
  let ?i = "ao_token_index seed" and ?j = "ao_token_index peer"
  note m = assms(1) [unfolded maximal_agreement_def Let_def] and r = assms(2) [unfolded agreement_run_def]
  assume "\<not> hi \<le> e"
  then have "lo \<le> e" "e < hi" using m r by linarith+
  with m r show False by blast
qed

lemma run_matches_anchor:
  assumes "agreement_run view seed peer lo hi" and "n < DEDUP_REGION_KGRAM_TOKENS"
  shows "agree view (ao_file seed) (ao_token_index seed + n) (ao_file peer) (ao_token_index peer + n)"
proof -
  have "lo \<le> ao_token_index seed + n" "ao_token_index seed + n < hi"
    using assms by (simp_all add: agreement_run_def)
  moreover have "ao_token_index seed + n + ao_token_index peer - ao_token_index seed = ao_token_index peer + n" by simp
  ultimately show ?thesis using assms(1) unfolding agreement_run_def by metis
qed

text \<open>When the loop completes, each peer that agrees on a long enough run has its maximal region among the candidates.\<close>

definition runs_found :: "region_view \<Rightarrow> anchor_occurrence \<Rightarrow> anchor_occurrence list \<Rightarrow> candidate list \<Rightarrow> bool" where
  "runs_found view seed peers cands \<longleftrightarrow>
     (\<forall>peer lo hi. peer \<in> set peers \<and> agreement_run view seed peer lo hi \<and> MIN_DEDUP_REGION_TOKENS \<le> hi - lo \<longrightarrow>
        (\<exists>c\<in>set cands. maximal_agreement view seed peer (cd_start c) (cd_end c)))"

lemma runs_found_Cons:
  assumes "runs_found view seed peers cands" and "set old \<subseteq> set cands"
    and "\<And>lo hi. agreement_run view seed peer lo hi \<Longrightarrow> MIN_DEDUP_REGION_TOKENS \<le> hi - lo \<Longrightarrow>
           \<exists>c\<in>set old. maximal_agreement view seed peer (cd_start c) (cd_end c)"
  shows "runs_found view seed (peer # peers) cands"
  using assms unfolding runs_found_def by (metis set_ConsD subsetD)

lemma candidate_loop_moves:
  assumes "candidate_loop view k seed peers cands ranges cs = (cands', cs')"
  shows "moves cs cs'"
  using assms
proof (induction peers arbitrary: cands ranges cs)
  case Nil
  then show ?case by simp
next
  case (Cons peer peers)
  obtain res cs1 where e: "maximal_exact_region view seed peer cs = (res, cs1)" by fastforce
  from maximal_exact_region_bound [OF e] have m: "moves cs cs1" by simp
  from Cons.prems e have "cs' = cs1 \<or> (\<exists>cands ranges. candidate_loop view k seed peers cands ranges cs1 = (cands', cs'))"
    by (auto split: option.splits if_splits)
  with Cons.IH m show ?case using moves_trans by blast
qed

lemma candidate_loop_complete:
  assumes "candidate_loop view k seed peers cands ranges cs = (cands', cs')" and "\<not> cs_incomplete cs'" and "small_view view"
    and "\<forall>c\<in>set cands. candidate_of view k seed c" and "\<forall>r\<in>set ranges. \<exists>c\<in>set cands. (cd_start c, cd_end c) = r"
  shows "set cands \<subseteq> set cands' \<and> (\<forall>c\<in>set cands'. candidate_of view k seed c) \<and> runs_found view seed peers cands'"
  using assms
proof (induction peers arbitrary: cands ranges cs)
  case Nil
  then show ?case by (simp add: runs_found_def)
next
  case (Cons peer peers)
  obtain res cs1 where e: "maximal_exact_region view seed peer cs = (res, cs1)" by fastforce
  have inc: "\<not> cs_incomplete cs1"
  proof
    assume i: "cs_incomplete cs1"
    from Cons.prems(1) e have "cs' = cs1 \<or> (\<exists>cands ranges. candidate_loop view k seed peers cands ranges cs1 = (cands', cs'))"
      by (auto split: option.splits if_splits)
    then have "moves cs1 cs'" using candidate_loop_moves by (metis moves_refl)
    with i Cons.prems(2) show False by (simp add: moves_def)
  qed
  note out = maximal_exact_region_outcome [OF Cons.prems(3) e inc]
  show ?case
  proof (cases res)
    case None
    with out run_matches_anchor have no: "\<not> agreement_run view seed peer lo hi" for lo hi by auto
    from Cons.prems(1) e None inc have "candidate_loop view k seed peers cands ranges cs1 = (cands', cs')" by simp
    from Cons.IH [OF this Cons.prems(2-5)] no show ?thesis by (auto intro!: runs_found_Cons [of _ _ _ _ cands])
  next
    case (Some se)
    obtain s e' where se: "se = (s, e')" by fastforce
    with out Some have m: "maximal_agreement view seed peer s e'" by simp
    have u: "e' \<le> usize_max" using maximal_exact_region_bound [OF e] Some se by simp
    let ?c = "\<lparr> cd_file = ao_file seed, cd_start = s, cd_end = e', cd_anchor = k, cd_anchor_offset = ao_token_index seed - s \<rparr>"
    consider "e' - s < MIN_DEDUP_REGION_TOKENS" | "\<not> e' - s < MIN_DEDUP_REGION_TOKENS" "(s, e') \<in> set ranges"
      | "\<not> e' - s < MIN_DEDUP_REGION_TOKENS" "(s, e') \<notin> set ranges" by blast
    then show ?thesis
    proof cases
      case 1
      then have no: "\<not> (agreement_run view seed peer lo hi \<and> MIN_DEDUP_REGION_TOKENS \<le> hi - lo)" for lo hi
        using run_within_maximal [OF m, of lo hi] by auto
      from Cons.prems(1) e Some se 1 have "candidate_loop view k seed peers cands ranges cs1 = (cands', cs')" by simp
      from Cons.IH [OF this Cons.prems(2-5)] no show ?thesis by (auto intro!: runs_found_Cons [of _ _ _ _ cands])
    next
      case 2
      with Cons.prems(5) obtain c where c: "c \<in> set cands" "cd_start c = s" "cd_end c = e'" by auto
      from Cons.prems(1) e Some se 2 have "candidate_loop view k seed peers cands ranges cs1 = (cands', cs')" by simp
      from Cons.IH [OF this Cons.prems(2-5)] c m show ?thesis
        by (auto intro!: runs_found_Cons [of _ _ _ _ cands])
    next
      case 3
      have "candidate_of view k seed ?c" using maximal_agreement_candidate [OF m u] 3(1) by simp
      moreover from Cons.prems(1) e Some se 3
      have "candidate_loop view k seed peers (cands @ [?c]) (bs_insert (s, e') ranges) cs1 = (cands', cs')" by simp
      ultimately have "set (cands @ [?c]) \<subseteq> set cands' \<and> (\<forall>c\<in>set cands'. candidate_of view k seed c) \<and> runs_found view seed peers cands'"
        using Cons.IH [of "cands @ [?c]" "bs_insert (s, e') ranges" cs1] Cons.prems(2-5) by fastforce
      with m show ?thesis by (auto intro!: runs_found_Cons [of _ _ _ _ "cands @ [?c]"])
    qed
  qed
qed

lemma candidate_regions_complete:
  assumes "candidate_regions view k seed occurrences cs = (cands, cs')" and "\<not> cs_incomplete cs'" and "small_view view"
  shows "(\<forall>c\<in>set cands. candidate_of view k seed c) \<and> runs_found view seed (filter (distinct_anchor seed) occurrences) cands"
proof -
  from assms(1) obtain cands0 where c: "candidate_loop view k seed (filter (distinct_anchor seed) occurrences) [] [] cs = (cands0, cs')"
    and s: "cands = sort_key (\<lambda>c. (- int (cd_len c), cd_start c)) cands0"
    by (auto simp: candidate_regions_def split: prod.splits)
  from s have "set cands = set cands0" by simp
  with candidate_loop_complete [OF c assms(2,3)] show ?thesis by (auto simp: runs_found_def)
qed

section \<open>Occurrences of a candidate\<close>

text \<open>The region of a candidate stands at an anchor, too.\<close>

definition stands_at :: "region_view \<Rightarrow> candidate \<Rightarrow> anchor_occurrence \<Rightarrow> bool" where
  "stands_at view c x \<longleftrightarrow>
     cd_anchor_offset c \<le> ao_token_index x \<and>
     (\<forall>n<cd_len c. agree view (cd_file c) (cd_start c + n) (ao_file x) (ao_token_index x - cd_anchor_offset c + n))"

lemma candidate_len:
  assumes "candidate_wf c"
  shows "0 < cd_len c" "cd_start c + cd_len c = cd_end c"
  using assms less_le_trans [OF MIN_DEDUP_REGION_TOKENS_pos, of "cd_len c"] by (auto simp: candidate_wf_def cd_len_def)

abbreviation occurrence_pair :: "region_view \<Rightarrow> candidate \<Rightarrow> anchor_occurrence \<Rightarrow> region_pair" where
  "occurrence_pair view c x \<equiv> (let start = ao_token_index x - cd_anchor_offset c in
     \<lparr> rp_left_view = view, rp_left_file = cd_file c, rp_left = (cd_start c, cd_end c), rp_right_view = view,
       rp_right_file = ao_file x, rp_right = (start, sat_add start (cd_len c)) \<rparr>)"

lemma stands_at_file:
  assumes "small_view view" and "candidate_wf c" and "stands_at view c x"
    and "start = ao_token_index x - cd_anchor_offset c"
  obtains f rng where "get_at (rv_files view) (ao_file x) = Some f" and "file_range f start (start + cd_len c) = Some rng"
    and "start + cd_len c \<le> usize_max" and "start + cd_len c - 1 < length (dts_tokens (rgf_decoded f))"
proof -
  note len = candidate_len [OF assms(2)]
  have ag: "agree view (cd_file c) (cd_start c + n) (ao_file x) (start + n)" if "n < cd_len c" for n
    using assms(3) that unfolding stands_at_def assms(4) by blast
  have ex: "\<exists>f. get_at (rv_files view) (ao_file x) = Some f \<and> start + n < length (dts_tokens (rgf_decoded f))" if "n < cd_len c" for n
    using agree_tokens [OF ag [OF that]] exact_token_in_range by (metis token_location.select_convs)
  from ex [of 0] len obtain f where f: "get_at (rv_files view) (ao_file x) = Some f" "start < length (dts_tokens (rgf_decoded f))" by auto
  from ex [of "cd_len c - 1"] len f(1) have e: "start + cd_len c - 1 < length (dts_tokens (rgf_decoded f))" by fastforce
  have "start + cd_len c - 1 < usize_max" using small_view_token [OF assms(1) f(1) e] .
  then have u: "start + cd_len c \<le> usize_max" using len by linarith
  have "file_range f start (start + cd_len c) \<noteq> None" using f(2) e len by (simp add: file_range_def get_at_def)
  with that f(1) u e show ?thesis by blast
qed

lemma regions_equal_complete:
  assumes "small_view view" and "candidate_of view k seed c" and "stands_at view c x"
    and "regions_equal (occurrence_pair view c x) cs = (r, cs')" and "\<not> cs_incomplete cs'"
  shows "r = Some True"
proof -
  define start where "start = ao_token_index x - cd_anchor_offset c"
  have wf: "candidate_wf c" using assms(2) by (simp add: candidate_of_def)
  note len = candidate_len [OF wf]
  from stands_at_file [OF assms(1) wf assms(3) start_def] obtain f where
    f: "get_at (rv_files view) (ao_file x) = Some f" "start + cd_len c \<le> usize_max"
       "start + cd_len c - 1 < length (dts_tokens (rgf_decoded f))" by blast
  have "exact_token view \<lparr> tl_file = cd_file c, tl_token = cd_end c - 1 \<rparr> \<noteq> None"
    using assms(2) len by (auto simp: candidate_of_def)
  then obtain g where g: "get_at (rv_files view) (cd_file c) = Some g" "cd_end c - 1 < length (dts_tokens (rgf_decoded g))"
    by (auto simp: exact_token_def get_at_def split: option.splits if_splits)
  define pair where "pair = occurrence_pair view c x"
  have pair: "pair = \<lparr> rp_left_view = view, rp_left_file = cd_file c, rp_left = (cd_start c, cd_end c), rp_right_view = view,
      rp_right_file = ao_file x, rp_right = (start, start + cd_len c) \<rparr>"
    using f(2) by (simp add: pair_def start_def Let_def sat_add_def)
  have "cd_end c \<le> usize_max" using wf by (simp add: candidate_wf_def)
  then have same: "same_token (region_pair_at pair n) \<longleftrightarrow> agree view (cd_file c) (cd_start c + n) (ao_file x) (start + n)" if "n < cd_len c" for n
    using that f(2) len by (simp add: region_pair_at_def pair agree_def same_view_def sat_add_def)
  have "regions_equal pair cs = all_equal (region_pair_at pair) [0..<cd_len c] cs"
    using f g len by (simp add: regions_equal_def pair range_len_def cd_len_def token_exists_def)
  with assms(4) have "all_equal (region_pair_at pair) [0..<cd_len c] cs = (r, cs')" by (simp add: pair_def)
  from all_equal_outcome [OF this] assms(5) have "r = Some (\<forall>n\<in>set [0..<cd_len c]. same_token (region_pair_at pair n))"
    by (cases r) auto
  with same assms(3) start_def show ?thesis by (auto simp: stands_at_def)
qed

lemma drop_overlaps_paths: "eo_path ` set (drop_overlaps kept xs) = eo_path ` (set kept \<union> set xs)"
proof (induction xs arbitrary: kept)
  case Nil
  then show ?case by simp
next
  case (Cons x xs)
  show ?case
  proof (cases "kept = [] \<or> eo_path (last kept) \<noteq> eo_path x \<or> eo_end (last kept) \<le> eo_start x")
    case True
    with Cons [of "kept @ [x]"] show ?thesis by auto
  next
    case False
    then have "eo_path x \<in> eo_path ` set kept" by (metis image_eqI last_in_set)
    with False Cons [of kept] show ?thesis by auto
  qed
qed

definition keyed :: "(repo_path \<times> nat, exact_occurrence) btree_map \<Rightarrow> bool" where
  "keyed occ \<longleftrightarrow> bt_wf occ \<and> (\<forall>(k, x)\<in>set occ. fst k = eo_path x)"

lemma keyed_entry:
  assumes "keyed occ" and "eo_path x = p"
  shows "keyed (bt_entry x (\<lambda>x. x) (p, s) occ)"
  using assms unfolding keyed_def by (auto dest!: bt_entry_member)

lemma occurrence_loop_cases:
  assumes "occurrence_loop cview c view changed (x # anchors) occ cs = Some out"
    and "\<not> ao_token_index x < cd_anchor_offset c" and "start = ao_token_index x - cd_anchor_offset c"
    and "regions_equal \<lparr> rp_left_view = cview, rp_left_file = cd_file c, rp_left = (cd_start c, cd_end c), rp_right_view = view,
           rp_right_file = ao_file x, rp_right = (start, sat_add start (cd_len c)) \<rparr> cs = (r, cs1)"
  obtains "r = None" "out = (None, cs1)"
    | "r = Some False" "occurrence_loop cview c view changed anchors occ cs1 = Some out"
    | f where "r = Some True" "get_at (rv_files view) (ao_file x) = Some f" "file_range f start (sat_add start (cd_len c)) = None"
        "out = (None, mark_malformed_location view (ao_file x) cs1)"
    | f rng y where "r = Some True" "get_at (rv_files view) (ao_file x) = Some f"
        "file_range f start (sat_add start (cd_len c)) = Some rng" "eo_path y = rgf_path f"
        "occurrence_loop cview c view changed anchors (bt_entry y (\<lambda>x. x) (rgf_path f, start) occ) cs1 = Some out"
proof (cases r)
  case None
  with assms that(1) show ?thesis by simp
next
  case (Some b)
  show ?thesis
  proof (cases b)
    case False
    with Some assms that(2) show ?thesis by simp
  next
    case True
    with Some assms obtain f where f: "get_at (rv_files view) (ao_file x) = Some f"
      by (auto simp: Let_def split: option.splits)
    show ?thesis
    proof (cases "file_range f start (sat_add start (cd_len c))")
      case None
      with True Some f assms that(3) show ?thesis by (simp add: Let_def)
    next
      case rng: (Some rng)
      have "occurrence_loop cview c view changed anchors
          (bt_entry \<lparr> eo_file = ao_file x, eo_path = rgf_path f, eo_start = start, eo_end = sat_add start (cd_len c),
             eo_range = rng, eo_changed = (rgf_path f \<in> set changed) \<rparr> (\<lambda>x. x) (rgf_path f, start) occ) cs1 = Some out"
        using True Some f assms rng by (simp add: Let_def)
      from that(4) [OF _ f rng _ this] True Some show ?thesis by simp
    qed
  qed
qed

lemma occurrence_loop_moves:
  assumes "occurrence_loop cview c view changed anchors occ cs = Some (r, cs')"
  shows "moves cs cs'"
  using assms
proof (induction anchors arbitrary: occ cs)
  case Nil
  then show ?case by simp
next
  case (Cons x anchors)
  show ?case
  proof (cases "ao_token_index x < cd_anchor_offset c")
    case True
    with Cons show ?thesis by simp
  next
    case False
    let ?start = "ao_token_index x - cd_anchor_offset c"
    obtain q cs1 where q: "regions_equal \<lparr> rp_left_view = cview, rp_left_file = cd_file c, rp_left = (cd_start c, cd_end c), rp_right_view = view,
           rp_right_file = ao_file x, rp_right = (?start, sat_add ?start (cd_len c)) \<rparr> cs = (q, cs1)" by fastforce
    from regions_equal_outcome [OF this] have m: "moves cs cs1" by simp
    from occurrence_loop_cases [OF Cons.prems False refl q] have "moves cs1 cs'"
      by cases (simp_all add: Cons.IH)
    with m show ?thesis by (rule moves_trans)
  qed
qed

lemma occurrence_loop_complete:
  assumes small: "small_view view" and c: "candidate_of view k seed c"
    and "occurrence_loop view c view changed anchors occ cs = Some (Some occ', cs')" and "\<not> cs_incomplete cs'" and "keyed occ"
  shows "keyed occ' \<and> fst ` set occ \<subseteq> fst ` set occ' \<and>
    (\<forall>x f. x \<in> set anchors \<and> stands_at view c x \<and> get_at (rv_files view) (ao_file x) = Some f \<longrightarrow>
       rgf_path f \<in> fst ` fst ` set occ')"
  using assms(3-5)
proof (induction anchors arbitrary: occ cs)
  case Nil
  then show ?case by simp
next
  case (Cons x anchors)
  define start where "start = ao_token_index x - cd_anchor_offset c"
  obtain r cs1 where r: "regions_equal (occurrence_pair view c x) cs = (r, cs1)" by fastforce
  show ?case
  proof (cases "ao_token_index x < cd_anchor_offset c")
    case True
    then have "\<not> stands_at view c x" by (simp add: stands_at_def)
    with Cons.IH [of occ cs] Cons.prems True show ?thesis by auto
  next
    case False
    from occurrence_loop_cases [OF Cons.prems(1) False start_def r [unfolded Let_def, folded start_def]]
    show ?thesis
    proof cases
      case 2
      have "\<not> cs_incomplete cs1" using occurrence_loop_moves [OF 2(2)] Cons.prems(2) by (auto simp: moves_def)
      then have "\<not> stands_at view c x" using regions_equal_complete [OF small c _ r] 2(1) by auto
      with Cons.IH [OF 2(2) Cons.prems(2,3)] show ?thesis by auto
    next
      case (4 f rng y)
      have "keyed (bt_entry y (\<lambda>x. x) (rgf_path f, start) occ)" using Cons.prems(3) 4(4) by (simp add: keyed_entry)
      from Cons.IH [OF 4(5) Cons.prems(2) this] have ih: "keyed occ'"
          "insert (rgf_path f, start) (fst ` set occ) \<subseteq> fst ` set occ'"
          "\<forall>x f. x \<in> set anchors \<and> stands_at view c x \<and> get_at (rv_files view) (ao_file x) = Some f \<longrightarrow>
             rgf_path f \<in> fst ` fst ` set occ'" by auto
      from ih(2) have path: "rgf_path f \<in> fst ` fst ` set occ'" by (metis fst_conv image_eqI insert_subset)
      have "rgf_path f' \<in> fst ` fst ` set occ'"
        if "x' \<in> set (x # anchors)" "stands_at view c x'" "get_at (rv_files view) (ao_file x') = Some f'" for x' f'
      proof (cases "x' = x")
        case True
        with that(3) 4(2) have "f' = f" by simp
        with path show ?thesis by simp
      next
        case False
        with that ih(3) show ?thesis by simp
      qed
      with ih(1,2) show ?thesis by blast
    qed simp_all
  qed
qed

lemma exact_occurrences_complete:
  assumes "small_view view" and "candidate_of view k seed c"
    and "exact_occurrences view c view fam changed cs = Some (Some after, cs')" and "\<not> cs_incomplete cs'"
    and "bt_get (rv_groups view) fam = Some g" and "bt_get g k = Some os"
    and "x \<in> set os" and "stands_at view c x" and "get_at (rv_files view) (ao_file x) = Some f"
  shows "rgf_path f \<in> eo_path ` set after"
proof -
  have "cd_anchor c = k" using assms(2) by (simp add: candidate_of_def)
  with assms(3,5,6) obtain occ where l: "occurrence_loop view c view changed os [] cs = Some (Some occ, cs')"
    and after: "after = drop_overlaps [] (sort_key occurrence_key (map snd occ))"
    by (auto simp: exact_occurrences_def split: option.splits)
  have "keyed []" by (simp add: keyed_def)
  with occurrence_loop_complete [OF assms(1,2) l assms(4)] assms(7-9)
  have "keyed occ" "rgf_path f \<in> fst ` fst ` set occ" by auto
  then obtain key y where "(key, y) \<in> set occ" "fst key = rgf_path f" "eo_path y = rgf_path f"
    by (force simp: keyed_def)
  then have "rgf_path f \<in> eo_path ` snd ` set occ" by force
  then show ?thesis by (simp add: after drop_overlaps_paths)
qed

lemma exact_occurrences_moves:
  assumes "exact_occurrences cview c view fam changed cs = Some (r, cs')"
  shows "moves cs cs' \<and> (r = None \<longrightarrow> cs_incomplete cs')"
proof -
  have "(r = None \<longrightarrow> cs_incomplete cs')"
    if "occurrence_loop cview c view changed os occ cs0 = Some (q, cs')" "r = None \<longrightarrow> q = None" for os occ cs0 q
    using that
  proof (induction os arbitrary: occ cs0)
    case (Cons x os)
    show ?case
    proof (cases "ao_token_index x < cd_anchor_offset c")
      case False
      obtain p cs1 where p: "regions_equal \<lparr> rp_left_view = cview, rp_left_file = cd_file c, rp_left = (cd_start c, cd_end c), rp_right_view = view,
           rp_right_file = ao_file x, rp_right = (ao_token_index x - cd_anchor_offset c,
             sat_add (ao_token_index x - cd_anchor_offset c) (cd_len c)) \<rparr> cs0 = (p, cs1)" by fastforce
      from occurrence_loop_cases [OF Cons.prems(1) False refl p] show ?thesis
        by cases (use Cons regions_equal_outcome [OF p] in auto)
    qed (use Cons in simp)
  qed auto
  then show ?thesis
    using assms by (auto simp: exact_occurrences_def split: option.splits dest: occurrence_loop_moves)
qed

section \<open>Fresh duplicates\<close>

text \<open>The seed itself is one of the places of its candidates.\<close>

lemma candidate_stands_at_seed: "candidate_of view k seed c \<Longrightarrow> stands_at view c seed"
  by (auto simp: candidate_of_def stands_at_def agree_def same_token_def same_view_def cd_len_def)

lemma encode_region_Some:
  assumes "\<forall>t\<in>set ts. get_range ev (fst (dt_prefix t)) (snd (dt_prefix t)) \<noteq> None \<and> get_range src (dt_start t) (dt_end t) \<noteq> None"
  shows "encode_region ev src ts \<noteq> None"
  using assms by (induction ts) auto

lemma region_digest_Some:
  assumes "candidate_of view k seed c"
  shows "region_digest K view (cd_file c) (cd_start c) (cd_end c) \<noteq> None"
proof -
  have wf: "candidate_wf c" using assms by (simp add: candidate_of_def)
  note len = candidate_len [OF wf]
  have ex: "exact_token view \<lparr> tl_file = cd_file c, tl_token = i \<rparr> \<noteq> None" if "cd_start c \<le> i" "i < cd_end c" for i
    using assms that unfolding candidate_of_def by blast
  have "exact_token view \<lparr> tl_file = cd_file c, tl_token = cd_end c - 1 \<rparr> \<noteq> None"
    by (rule ex) (use len in linarith)+
  then obtain f where f: "get_at (rv_files view) (cd_file c) = Some f" "cd_end c - 1 < length (dts_tokens (rgf_decoded f))"
    using exact_token_in_range by (metis not_None_eq token_location.select_convs)
  let ?ts = "take (cd_end c - cd_start c) (drop (cd_start c) (dts_tokens (rgf_decoded f)))"
  have r: "get_range (dts_tokens (rgf_decoded f)) (cd_start c) (cd_end c) = Some ?ts"
    using len f(2) by (simp add: get_range_def)
  have "get_range (dts_bytes (rgf_decoded f)) (fst (dt_prefix t)) (snd (dt_prefix t)) \<noteq> None \<and>
      get_range (sf_bytes (rgf_source f)) (dt_start t) (dt_end t) \<noteq> None" if "t \<in> set ?ts" for t
  proof -
    from that obtain n where "n < length ?ts" "t = ?ts ! n" by (metis in_set_conv_nth)
    then have n: "n < cd_len c" "t = dts_tokens (rgf_decoded f) ! (cd_start c + n)" "cd_start c + n < length (dts_tokens (rgf_decoded f))"
      using f(2) len by (auto simp: cd_len_def)
    have "exact_token view \<lparr> tl_file = cd_file c, tl_token = cd_start c + n \<rparr> \<noteq> None" using ex n(1) len by simp
    with f(1) n show ?thesis by (auto simp: exact_token_def get_at_def split: option.splits)
  qed
  with encode_region_Some have "encode_region (dts_bytes (rgf_decoded f)) (sf_bytes (rgf_source f)) ?ts \<noteq> None" by blast
  with f(1) r show ?thesis by (simp add: region_digest_def)
qed

text \<open>
  The setting of a fresh duplicate: anchors of the candidate view in a group the baseline lacks, and no
  callable finding that could shadow a region.
\<close>

definition fresh_group :: "evaluation_context \<Rightarrow> bytes \<Rightarrow> hash_pair \<Rightarrow> anchor_occurrence list \<Rightarrow> bool" where
  "fresh_group cx fam k os \<longleftrightarrow>
     (\<exists>g. bt_get (rv_groups (ex_after cx)) fam = Some g \<and> bt_get g k = Some os) \<and>
     Option.bind (bt_get (rv_groups (ex_before cx)) fam) (\<lambda>g. bt_get g k) = None \<and>
     list_all (\<lambda>d. idup_kind d \<noteq> DupCallableBody) (ri_callable_findings (ex_inputs cx)) \<and>
     small_view (ex_after cx)"

definition seed_path :: "evaluation_context \<Rightarrow> anchor_occurrence \<Rightarrow> repo_path" where
  "seed_path cx x = rgf_path (rv_files (ex_after cx) ! ao_file x)"

lemma exact_class_of_moves:
  assumes "candidate_wf c" and "exact_class_of K cx fam c cs = Some (r, cs')"
  shows "moves cs cs'"
  using exact_class_of_outcome [OF assms(1), of K cx fam cs] assms(2) by auto

lemma fresh_class:
  assumes fresh: "fresh_group cx fam k os" and c: "candidate_of (ex_after cx) k seed c"
    and e: "exact_class_of K cx fam c cs = Some (r, cs')" and inc: "\<not> cs_incomplete cs'"
    and seed: "seed \<in> set os" "ao_file seed < length (rv_files (ex_after cx))"
    and path: "seed_path cx seed \<in> set (ri_changed_paths (ex_inputs cx))" "seed_path cx seed \<notin> set (ri_suppressed_paths (ex_inputs cx))"
  shows "(\<forall>cl. r = Some cl \<longrightarrow> seed_path cx seed \<in> eo_path ` set (ec_after_occurrences cl)) \<and>
    (\<forall>peer. peer \<in> set os \<and> ao_file peer < length (rv_files (ex_after cx)) \<and> stands_at (ex_after cx) c peer \<and>
       seed_path cx peer \<noteq> seed_path cx seed \<longrightarrow> r \<noteq> None)"
proof -
  let ?A = "ex_after cx" and ?ch = "ri_changed_paths (ex_inputs cx)"
  from fresh obtain g where g: "bt_get (rv_groups ?A) fam = Some g" "bt_get g k = Some os" and small: "small_view ?A"
    and none: "Option.bind (bt_get (rv_groups (ex_before cx)) fam) (\<lambda>g. bt_get g k) = None"
    and callable: "list_all (\<lambda>d. idup_kind d \<noteq> DupCallableBody) (ri_callable_findings (ex_inputs cx))"
    by (auto simp: fresh_group_def)
  have "cd_anchor c = k" using c by (simp add: candidate_of_def)
  with none have b: "exact_occurrences ?A c (ex_before cx) fam ?ch cs = Some (Some [], cs)" by (simp add: exact_occurrences_def)
  obtain q cs1 where a: "exact_occurrences ?A c ?A fam ?ch cs = Some (q, cs1)"
    using exact_occurrences_outcome [of c cs ?A ?A fam ?ch] c by (auto simp: candidate_of_def returns_def)
  have cs1: "cs' = cs1 \<or> cs_incomplete cs'" and q: "q = None \<Longrightarrow> cs' = cs1 \<and> r = None"
    using e b a by (auto simp: exact_class_of_def Let_def split: option.splits if_splits)
  have "q \<noteq> None" using q exact_occurrences_moves [OF a] inc by auto
  then obtain after where after: "q = Some after" by blast
  have inc1: "\<not> cs_incomplete cs1" using cs1 inc by blast
  have at: "seed_path cx x \<in> eo_path ` set after"
    if "x \<in> set os" "ao_file x < length (rv_files ?A)" "stands_at ?A c x" for x
    using exact_occurrences_complete [OF small c a [unfolded after] inc1 g that(1,3)] that(2) by (simp add: get_at_def seed_path_def)
  note self = at [OF seed candidate_stands_at_seed [OF c]]
  let ?grew = "paths_with_growth (path_counts eo_path ([] :: exact_occurrence list)) (path_counts eo_path after)"
  have "occurrences_at eo_path after (seed_path cx seed) > 0" using self by (auto simp: occurrences_at_def filter_empty_conv)
  then have grew: "seed_path cx seed \<in> set ?grew"
    by (simp add: paths_with_growth_iff occurrences_at_def usize_max_def)
  have "\<not> shadowed_by_callable after ?grew (ri_callable_findings (ex_inputs cx))"
  proof
    assume s: "shadowed_by_callable after ?grew (ri_callable_findings (ex_inputs cx))"
    from self obtain x where "x \<in> set after" "eo_path x = seed_path cx seed" by auto
    with s grew have "\<exists>d\<in>set (ri_callable_findings (ex_inputs cx)). idup_kind d = DupCallableBody"
      by (fastforce simp: shadowed_by_callable_def)
    with callable show False by (auto simp: list_all_iff)
  qed
  moreover obtain dg where "region_digest K ?A (cd_file c) (cd_start c) (cd_end c) = Some dg"
    using region_digest_Some [OF c] by blast
  ultimately have r: "r = (if length after < 2 then None else Some \<lparr> ec_digest = dg, ec_family = fam, ec_before_count = 0,
      ec_after_occurrences = after, ec_introduced_count = length after, ec_token_count = cd_len c \<rparr>)"
    using e b a after grew path by (auto simp: exact_class_of_def Let_def split: if_splits)
  have "2 \<le> length after" if "seed_path cx peer \<in> eo_path ` set after" "seed_path cx peer \<noteq> seed_path cx seed" for peer
  proof -
    have "card {seed_path cx peer, seed_path cx seed} \<le> card (eo_path ` set after)"
      using that self by (intro card_mono) auto
    also have "\<dots> \<le> length after" by (metis card_image_le card_length finite_set le_trans)
    finally show ?thesis using that(2) by simp
  qed
  with r self at show ?thesis by (auto split: if_splits)
qed

lemma best_class_moves:
  assumes "\<forall>c\<in>set cands. candidate_wf c" and "best_class K cx fam cands best cs = Some (r, cs')"
  shows "moves cs cs'"
  using assms
proof (induction cands arbitrary: best cs)
  case Nil
  then show ?case by simp
next
  case (Cons c cands)
  from Cons.prems(1) obtain q cs1 where e: "exact_class_of K cx fam c cs = Some (q, cs1)" "moves cs cs1"
    using exact_class_of_outcome [of c K cx fam cs] by auto
  from Cons.prems(2) e(1) have "cs' = cs1 \<or> (\<exists>best. best_class K cx fam cands best cs1 = Some (r, cs'))"
    by (auto split: option.splits if_splits)
  with Cons e(2) show ?case using moves_trans by auto
qed

lemma best_class_fresh:
  assumes fresh: "fresh_group cx fam k os" and cands: "\<forall>c\<in>set cands. candidate_of (ex_after cx) k seed c"
    and "best_class K cx fam cands best cs = Some (r, cs')" and inc: "\<not> cs_incomplete cs'"
    and seed: "seed \<in> set os" "ao_file seed < length (rv_files (ex_after cx))"
    and path: "seed_path cx seed \<in> set (ri_changed_paths (ex_inputs cx))" "seed_path cx seed \<notin> set (ri_suppressed_paths (ex_inputs cx))"
    and "\<forall>cl. best = Some cl \<longrightarrow> seed_path cx seed \<in> eo_path ` set (ec_after_occurrences cl)"
    and peer: "peer \<in> set os" "ao_file peer < length (rv_files (ex_after cx))" "seed_path cx peer \<noteq> seed_path cx seed"
  shows "(\<forall>cl. r = Some cl \<longrightarrow> seed_path cx seed \<in> eo_path ` set (ec_after_occurrences cl)) \<and>
    (best \<noteq> None \<or> (\<exists>c\<in>set cands. stands_at (ex_after cx) c peer) \<longrightarrow> r \<noteq> None)"
  using cands assms(3,9)
proof (induction cands arbitrary: best cs)
  case Nil
  then show ?case by auto
next
  case (Cons c cands)
  have wf: "\<forall>c\<in>set (c # cands). candidate_wf c" using Cons.prems(1) by (simp add: candidate_of_def)
  then obtain q cs1 where e: "exact_class_of K cx fam c cs = Some (q, cs1)"
    using exact_class_of_outcome [of c K cx fam cs] by auto
  define best' where "best' = (case q of None \<Rightarrow> best | Some cl \<Rightarrow> if class_precedes best cl then Some cl else best)"
  have eq: "best_class K cx fam (c # cands) best cs =
      (if q = None \<and> cs_incomplete cs1 then Some (best, cs1) else best_class K cx fam cands best' cs1)"
    using e by (auto simp: best'_def split: option.split)
  with Cons.prems(2) inc have l: "best_class K cx fam cands best' cs1 = Some (r, cs')" by (auto split: if_splits)
  have "moves cs1 cs'" using best_class_moves [OF _ l] wf by simp
  with inc have "\<not> cs_incomplete cs1" by (auto simp: moves_def)
  note f = fresh_class [OF fresh _ e this seed path]
  have c: "candidate_of (ex_after cx) k seed c" using Cons.prems(1) by simp
  have b: "\<forall>cl. best' = Some cl \<longrightarrow> seed_path cx seed \<in> eo_path ` set (ec_after_occurrences cl)"
    using f [OF c] Cons.prems(3) by (auto simp: best'_def split: option.splits if_splits)
  have n: "best \<noteq> None \<or> stands_at (ex_after cx) c peer \<longrightarrow> best' \<noteq> None"
    using f [OF c] peer by (cases best) (auto simp: best'_def class_precedes_def split: option.splits if_splits)
  from Cons.IH [OF _ l b] Cons.prems(1) n show ?case by auto
qed

text \<open>A reported sound class of the family of a seed with a place at the path of the seed.\<close>

definition reported_for :: "crates \<Rightarrow> evaluation_context \<Rightarrow> anchor_occurrence \<Rightarrow> evaluation_state \<Rightarrow> bool" where
  "reported_for K cx seed es \<longleftrightarrow>
     (\<exists>cl. sound_class K cx cl \<and> ec_family cl = file_family (ex_after cx) (ao_file seed) \<and>
        (ec_family cl, ec_digest cl) \<in> set (es_reported_classes es) \<and>
        seed_path cx seed \<in> eo_path ` set (ec_after_occurrences cl))"

lemma covered_reported:
  assumes "es_inv K cx es" and "interval_contains (es_covered es) (ao_file seed) t" and "ao_file seed < length (rv_files (ex_after cx))"
  shows "reported_for K cx seed es"
proof -
  from assms(2) obtain rs r where r: "bt_get (es_covered es) (ao_file seed) = Some rs" "r \<in> set rs"
    by (auto simp: interval_contains_def split: option.splits)
  from es_inv_covered [OF assms(1) map_of_SomeD [OF r(1)] r(2)] obtain cl x where
    cl: "sound_class K cx cl" "(ec_family cl, ec_digest cl) \<in> set (es_reported_classes es)"
    and x: "x \<in> set (ec_after_occurrences cl)" "eo_file x = ao_file seed" by (auto simp: covering_def)
  from cl(1) obtain ts where "genuine_occurrences (ex_after cx) ts (ri_changed_paths (ex_inputs cx)) (ec_after_occurrences cl)"
    by (auto simp: sound_class_def)
  with x assms(3) have "eo_path x = seed_path cx seed"
    by (auto simp: genuine_occurrences_def all_genuine_def genuine_occurrence_def get_at_def seed_path_def split: option.splits if_splits)
  with x(1) have "seed_path cx seed \<in> eo_path ` set (ec_after_occurrences cl)" by (metis image_eqI)
  moreover have "ec_family cl = file_family (ex_after cx) (ao_file seed)" using cl(1) x by (auto simp: sound_class_def)
  ultimately show ?thesis using cl by (auto simp: reported_for_def)
qed

text \<open>A duplicate of a changed path, with a peer in another path and a run of agreement.\<close>

definition fresh_duplicate ::
    "evaluation_context \<Rightarrow> bytes \<Rightarrow> hash_pair \<Rightarrow> anchor_occurrence list \<Rightarrow> anchor_occurrence \<Rightarrow> anchor_occurrence \<Rightarrow> bool" where
  "fresh_duplicate cx fam k os seed peer \<longleftrightarrow>
     fresh_group cx fam k os \<and> seed \<in> set os \<and> peer \<in> set os \<and>
     seed_path cx peer \<noteq> seed_path cx seed \<and>
     seed_path cx seed \<in> set (ri_changed_paths (ex_inputs cx)) \<and>
     seed_path cx seed \<notin> set (ri_suppressed_paths (ex_inputs cx)) \<and>
     (\<exists>lo hi. agreement_run (ex_after cx) seed peer lo hi \<and> MIN_DEDUP_REGION_TOKENS \<le> hi - lo)"

lemma maximal_stands_at:
  assumes "candidate_of view k seed c" and "maximal_agreement view seed peer (cd_start c) (cd_end c)"
  shows "stands_at view c peer"
proof -
  let ?i = "ao_token_index seed" and ?j = "ao_token_index peer"
  have o: "cd_anchor_offset c = ?i - cd_start c" "cd_start c \<le> ?i" "cd_file c = ao_file seed" and wf: "candidate_wf c"
    using assms(1) by (simp_all add: candidate_of_def)
  have m: "?i - cd_start c \<le> ?j" "\<forall>n. cd_start c \<le> n \<and> n < cd_end c \<longrightarrow> agree view (ao_file seed) n (ao_file peer) (n + ?j - ?i)"
    using assms(2) by (simp_all add: maximal_agreement_def Let_def)
  have "agree view (cd_file c) (cd_start c + n) (ao_file peer) (?j - cd_anchor_offset c + n)" if "n < cd_len c" for n
  proof -
    have "?j - cd_anchor_offset c + n = cd_start c + n + ?j - ?i" using o m(1) by linarith
    with m(2) [rule_format, of "cd_start c + n"] that candidate_len(2) [OF wf] o(3) show ?thesis by simp
  qed
  with o m(1) show ?thesis by (simp add: stands_at_def)
qed

lemma evaluate_seed_reports:
  assumes dup: "fresh_duplicate cx fam k os seed peer" and range: "\<forall>x\<in>set os. seed_in cx fam x" and idx: "indices_in_range (ex_after cx)"
    and inv: "es_inv K cx es" and e: "evaluate_seed K cx fam k os seed es = Some es'" and inc: "\<not> cs_incomplete (es_comparison es')"
  shows "reported_for K cx seed es'"
proof -
  from dup have fresh: "fresh_group cx fam k os" and os: "seed \<in> set os" "peer \<in> set os"
    and path: "seed_path cx seed \<in> set (ri_changed_paths (ex_inputs cx))" "seed_path cx seed \<notin> set (ri_suppressed_paths (ex_inputs cx))"
      "seed_path cx peer \<noteq> seed_path cx seed" by (simp_all add: fresh_duplicate_def)
  from dup obtain lo hi where run: "agreement_run (ex_after cx) seed peer lo hi" "MIN_DEDUP_REGION_TOKENS \<le> hi - lo"
    by (auto simp: fresh_duplicate_def)
  from range os have r: "ao_file seed < length (rv_files (ex_after cx))" "ao_file peer < length (rv_files (ex_after cx))"
    and fam: "file_family (ex_after cx) (ao_file seed) = fam" by (auto simp: seed_in_def)
  from r(1) obtain f where f: "get_at (rv_files (ex_after cx)) (ao_file seed) = Some f" "rgf_path f = seed_path cx seed"
    by (simp add: get_at_def seed_path_def)
  from evaluate_seed_steps [OF f(1), of k os es K fam] obtain cands cs1 q cs2 where
    c: "candidate_regions (ex_after cx) k seed os (es_comparison es) = (cands, cs1)"
    and b: "best_class K cx fam cands None cs1 = Some (q, cs2)" and mv: "moves (es_comparison es) cs2"
    and g: "\<forall>c. q = Some c \<longrightarrow> genuine_class cx c \<and> ec_family c = fam"
    and es': "es' = (if interval_contains (es_covered es) (ao_file seed) (ao_token_index seed) then es
              else case q of None \<Rightarrow> es\<lparr> es_comparison := cs2 \<rparr>
                 | Some c \<Rightarrow> report_class (ri_finding_limit (ex_inputs cx)) c (es\<lparr> es_comparison := cs2 \<rparr>))"
    using e f(2) path by auto
  have sound: "\<forall>c. q = Some c \<longrightarrow> sound_class K cx c"
    using candidate_regions_wf [OF c] candidate_regions_file [OF c] fam
    by (intro best_class_sound [OF _ idx _ b]) auto
  show ?thesis
  proof (cases "interval_contains (es_covered es) (ao_file seed) (ao_token_index seed)")
    case True
    with es' covered_reported [OF inv _ r(1)] show ?thesis by simp
  next
    case False
    have wf: "bt_wf (es_covered (es\<lparr> es_comparison := cs2 \<rparr>))" using inv by (simp add: es_inv_def)
    note rc = report_class_covers [OF wf, of "ri_finding_limit (ex_inputs cx)"]
    have inc2: "\<not> cs_incomplete cs2" using inc es' False rc by (cases q) auto
    have "moves cs1 cs2" using best_class_moves [OF _ b] candidate_regions_wf [OF c] by blast
    with inc2 have inc1: "\<not> cs_incomplete cs1" by (auto simp: moves_def)
    have small: "small_view (ex_after cx)" using fresh by (simp add: fresh_group_def)
    note cc = candidate_regions_complete [OF c inc1 small]
    have "ao_file peer \<noteq> ao_file seed" using path(3) by (auto simp: seed_path_def)
    then have "peer \<in> set (filter (distinct_anchor seed) os)" using os by (simp add: distinct_anchor_def)
    with cc run obtain cand where cand: "cand \<in> set cands" "maximal_agreement (ex_after cx) seed peer (cd_start cand) (cd_end cand)"
      unfolding runs_found_def by blast
    with cc maximal_stands_at have st: "\<exists>c\<in>set cands. stands_at (ex_after cx) c peer" by blast
    from best_class_fresh [OF fresh _ b inc2 os(1) r(1) path(1,2) _ os(2) r(2) path(3)] cc st
    have q: "q \<noteq> None" "\<forall>cl. q = Some cl \<longrightarrow> seed_path cx seed \<in> eo_path ` set (ec_after_occurrences cl)" by auto
    then obtain cl where cl: "q = Some cl" by blast
    with es' False rc [of cl] g q sound fam show ?thesis by (auto simp: reported_for_def)
  qed
qed

lemma reported_for_mono: "reported_for K cx seed es \<Longrightarrow> es_step K cx es (Some es') \<Longrightarrow> reported_for K cx seed es'"
  by (auto simp: reported_for_def es_step_def)

lemma seed_loop_reports:
  assumes dup: "fresh_duplicate cx fam k os seed peer" and range: "\<forall>x\<in>set os. seed_in cx fam x" and idx: "indices_in_range (ex_after cx)"
    and "es_inv K cx es" and "seed_loop K cx fam k os seeds es = Some es'" and "\<not> cs_incomplete (es_comparison es')"
    and "seed \<in> set seeds" and "set seeds \<subseteq> set os"
  shows "reported_for K cx seed es'"
  using assms(4-)
proof (induction seeds arbitrary: es)
  case Nil
  then show ?case by simp
next
  case (Cons x seeds)
  have r: "seed_in cx fam x" "\<forall>y\<in>set seeds. seed_in cx fam y"
    using range Cons.prems(5) by auto
  from Cons.prems(2) obtain es1 where e: "evaluate_seed K cx fam k os x es = Some es1"
    and l: "(if cs_incomplete (es_comparison es1) then Some es1 else seed_loop K cx fam k os seeds es1) = Some es'"
    by (auto split: option.splits)
  have inc: "\<not> cs_incomplete (es_comparison es1)" using l Cons.prems(3) by (auto split: if_splits)
  with l have l: "seed_loop K cx fam k os seeds es1 = Some es'" by simp
  have inv: "es_inv K cx es1" using evaluate_seed_step [OF Cons.prems(1) r(1) idx, of k os] e by (simp add: es_step_def)
  show ?case
  proof (cases "x = seed")
    case True
    from seed_loop_step [OF inv r(2) idx, of k os] l have "es_step K cx es1 (Some es')" by simp
    with evaluate_seed_reports [OF dup range idx Cons.prems(1) e [unfolded True] inc] show ?thesis by (rule reported_for_mono)
  next
    case False
    with Cons.IH [OF inv l Cons.prems(3)] Cons.prems(4,5) show ?thesis by simp
  qed
qed

lemma fresh_duplicate_introducible:
  assumes "fresh_duplicate cx fam k os seed peer" and "\<forall>x\<in>set os. ao_file x < length (rv_files (ex_after cx))"
  shows "anchor_class_may_be_introduced cx os = Some True"
proof -
  from assms(1) have os: "seed \<in> set os" "peer \<in> set os" and path: "seed_path cx peer \<noteq> seed_path cx seed"
    and ch: "seed_path cx seed \<in> set (ri_changed_paths (ex_inputs cx))" "seed_path cx seed \<notin> set (ri_suppressed_paths (ex_inputs cx))"
    by (simp_all add: fresh_duplicate_def)
  from path have files: "ao_file peer \<noteq> ao_file seed" "peer \<noteq> seed" by (auto simp: seed_path_def)
  obtain first others where o: "os = first # others" using os by (cases os) auto
  have "\<exists>c\<in>set others. distinct_anchor first c"
  proof (cases "ao_file first = ao_file seed")
    case True
    with files os o have "peer \<in> set others" by auto
    with True files show ?thesis by (intro bexI [of _ peer]) (auto simp: distinct_anchor_def)
  next
    case False
    with os o have "seed \<in> set others" by auto
    with False show ?thesis by (intro bexI [of _ seed]) (auto simp: distinct_anchor_def)
  qed
  moreover have "2 \<le> length os" using o os files by (cases others) auto
  ultimately show ?thesis
    using any_introducible_Some [OF assms(2)] os ch o
    by (auto simp: anchor_class_may_be_introduced_def has_distinct_anchors_def seed_path_def)
qed

lemma family_loop_reports:
  assumes dup: "fresh_duplicate cx fam k os seed peer"
    and idx: "indices_in_range (ex_after cx)"
    and range: "\<forall>(fam, k, os)\<in>set groups. \<forall>x\<in>set os. seed_in cx fam x"
    and "es_inv K cx es" and "family_loop K cx groups es = Some es'" and "\<not> cs_incomplete (es_comparison es')"
    and "(fam, k, os) \<in> set groups"
  shows "reported_for K cx seed es'"
  using assms(3-)
proof (induction groups arbitrary: es)
  case Nil
  then show ?case by simp
next
  case (Cons grp groups)
  obtain fam1 k1 os1 where grp: "grp = (fam1, k1, os1)" by (cases grp) auto
  have r: "\<forall>x\<in>set os1. seed_in cx fam1 x" "\<forall>(fam, k, os)\<in>set groups. \<forall>x\<in>set os. seed_in cx fam x"
    using Cons.prems(1) grp by auto
  from Cons.prems(3) grp obtain es1 where e: "evaluate_group K cx fam1 k1 os1 es = Some es1"
    and l: "(if cs_incomplete (es_comparison es1) then Some es1 else family_loop K cx groups es1) = Some es'"
    by (auto split: option.splits)
  have inc: "\<not> cs_incomplete (es_comparison es1)" using l Cons.prems(4) by (auto split: if_splits)
  with l have l: "family_loop K cx groups es1 = Some es'" by simp
  have inv: "es_inv K cx es1" using evaluate_group_step [OF Cons.prems(2) r(1) idx, of k1] e by (simp add: es_step_def)
  show ?case
  proof (cases "(fam1, k1, os1) = (fam, k, os)")
    case True
    with r(1) have "\<forall>x\<in>set os. ao_file x < length (rv_files (ex_after cx))" by (simp add: seed_in_def)
    with dup fresh_duplicate_introducible have "anchor_class_may_be_introduced cx os = Some True" by blast
    with e True have "seed_loop K cx fam k os os es = Some es1" by (simp add: evaluate_group_def)
    with seed_loop_reports [OF dup _ idx Cons.prems(2) this inc] dup r True have "reported_for K cx seed es1"
      by (simp add: fresh_duplicate_def)
    moreover from family_loop_step [OF inv r(2) idx] l have "es_step K cx es1 (Some es')" by simp
    ultimately show ?thesis by (rule reported_for_mono)
  next
    case False
    with Cons.IH [OF r(2) inv l Cons.prems(4)] Cons.prems(5) grp show ?thesis by auto
  qed
qed

lemma comparison_issues_Nil: "cs_ok cs \<Longrightarrow> comparison_issues cs = [] \<longleftrightarrow> \<not> cs_incomplete cs"
  by (auto simp: cs_ok_def comparison_issues_def limit_issue_def)

lemma bt_get_flat_groups:
  assumes "bt_get groups fam = Some g" and "bt_get g k = Some os"
  shows "(fam, k, os) \<in> set (flat_groups groups)"
  using map_of_SomeD [OF assms(1)] map_of_SomeD [OF assms(2)] by (force simp: flat_groups_def)

text \<open>
  A finding for a path: it is made from a genuine class of the language family whose digest is that
  of a run of at least \<open>MIN_DEDUP_REGION_TOKENS\<close> tokens standing at a place of the path.
\<close>

definition finding_for :: "crates \<Rightarrow> evaluation_context \<Rightarrow> bytes \<Rightarrow> repo_path \<Rightarrow> introduced_duplicate \<Rightarrow> bool" where
  "finding_for K cx fam path d \<longleftrightarrow>
     (\<exists>c ts x. d = into_finding c \<and> genuine_class cx c \<and> ec_family c = fam \<and> ec_digest c = tokens_digest K fam ts \<and>
        MIN_DEDUP_REGION_TOKENS \<le> length ts \<and> genuine_occurrence (ex_after cx) ts x \<and> eo_path x = path)"

lemma sound_class_place:
  assumes "sound_class K cx c" and "path \<in> eo_path ` set (ec_after_occurrences c)"
  shows "\<exists>ts x. ec_digest c = tokens_digest K (ec_family c) ts \<and> MIN_DEDUP_REGION_TOKENS \<le> length ts \<and>
    genuine_occurrence (ex_after cx) ts x \<and> eo_path x = path"
  using assms by (auto simp: sound_class_def genuine_occurrences_def all_genuine_def)

lemma fresh_duplicate_outcome:
  assumes dup: "fresh_duplicate (region_context b64 inputs) fam k os seed peer"
  shows "\<exists>rr. region_findings K b64 inputs = Some rr \<and>
    (rr_comparison_issues rr \<noteq> [] \<or> rr_findings_truncated rr \<or>
     list_ex (finding_for K (region_context b64 inputs) fam (seed_path (region_context b64 inputs) seed)) (rr_findings rr))"
proof (rule region_findings_Some [of K b64 inputs], goal_cases)
  case (1 rr es)
  let ?cx = "region_context b64 inputs"
  have ok: "cs_ok (es_comparison es)" using 1(3) by (simp add: es_inv_def)
  show ?case
  proof (cases "rr_comparison_issues rr = [] \<and> \<not> rr_findings_truncated rr")
    case False
    with 1(1) show ?thesis by auto
  next
    case True
    with 1(8) have "comparison_issues (es_comparison es) = []" by metis
    with ok have inc: "\<not> cs_incomplete (es_comparison es)" by (simp add: comparison_issues_Nil)
    let ?es0 = "default_evaluation_state\<lparr> es_comparison := observed_state ?cx \<rparr>"
    have "\<not> cs_incomplete (observed_state ?cx)"
      using 1(2) inc by (auto simp: region_evaluation_def Let_def split: if_splits)
    with 1(2) have l: "family_loop K ?cx (flat_groups (rv_groups (ex_after ?cx))) ?es0 = Some es"
      by (simp add: region_evaluation_def Let_def)
    note idx = region_context_range [of b64 inputs]
    have range: "\<forall>(fam, k, os)\<in>set (flat_groups (rv_groups (ex_after ?cx))). \<forall>x\<in>set os. seed_in ?cx fam x"
      using idx by (auto simp: seed_in_def indices_in_range_def dest!: flat_groups_occurrences)
    have mem: "(fam, k, os) \<in> set (flat_groups (rv_groups (ex_after ?cx)))"
      using dup by (auto simp: fresh_duplicate_def fresh_group_def intro: bt_get_flat_groups)
    with range dup have fam: "file_family (ex_after ?cx) (ao_file seed) = fam"
      by (auto simp: fresh_duplicate_def seed_in_def)
    from family_loop_reports [OF dup idx range initial_inv l inc mem] obtain c where c: "sound_class K ?cx c" "ec_family c = fam"
        "(ec_family c, ec_digest c) \<in> set (es_reported_classes es)" "seed_path ?cx seed \<in> eo_path ` set (ec_after_occurrences c)"
      by (auto simp: reported_for_def fam)
    with 1(3,5) True obtain c' where c': "sound_class K ?cx c'" "ec_family c' = ec_family c" "ec_digest c' = ec_digest c"
        "into_finding c' \<in> set (es_findings es)"
      unfolding es_inv_def by fastforce
    from sound_class_place [OF c(1,4)] c' c(2) have "finding_for K ?cx fam (seed_path ?cx seed) (into_finding c')"
      unfolding finding_for_def sound_class_def by metis
    with c'(4) 1(1,4) show ?thesis by (auto simp: list_ex_iff)
  qed
qed

end
