(* ===== verification/CopyDetection.thy ===== *)
theory CopyDetection
  imports RegionsComplete
begin

text \<open>
  From sources to region findings: how the views of the theory \<open>Regions\<close> arise from snapshots and facts,
  that evidence which cannot be decoded is always reported, and that a copied run of tokens is
  reported, which joins the winnowing guarantee, the evidence round trip and the completeness of the
  region search.
\<close>

section \<open>Reading evidence\<close>

lemma decode_loop_retain:
  "(case decode_loop bs n m True cursor prev k ts of None \<Rightarrow> None | Some r \<Rightarrow> Some (fst r)) =
   (case decode_loop bs n m False cursor prev k us of None \<Rightarrow> None | Some r \<Rightarrow> Some (fst r))"
proof (induction "length bs - cursor" arbitrary: cursor prev k ts us rule: less_induct)
  case less
  show ?case
  proof (cases "cursor < length bs")
    case False
    then show ?thesis by (simp add: decode_loop.simps)
  next
    case True
    show ?thesis
    proof (cases "decode_token_record bs n cursor")
      case None
      with True show ?thesis by (simp add: decode_loop.simps [of bs n m _ cursor])
    next
      case (Some tc)
      obtain t c where tc: "tc = (t, c)" by fastforce
      with Some decode_token_record_progress have "length bs - c < length bs - cursor" by (metis diff_less_mono2 True)
      from less [OF this, of "dt_end t" "sat_add k 1" "ts @ [t]" us] True Some tc show ?thesis
        by (simp add: decode_loop.simps [of bs n m _ cursor] Let_def)
    qed
  qed
qed

lemma validate_iff_decode: "validate_evidence b64 source facts \<longleftrightarrow> decode_evidence b64 source facts \<noteq> None"
proof -
  have "decode_token_records bs n m True = None \<longleftrightarrow> decode_token_records bs n m False = None" for bs n m
    using decode_loop_retain [of bs n m 0 0 0 "[]" "[]"]
    by (auto simp: decode_token_records_def split: option.splits if_splits)
  note same = this
  show ?thesis
  proof (cases "b64 (rff_encoded_tokens facts)")
    case None
    then show ?thesis by (simp add: validate_evidence_def decode_evidence_def read_evidence_def)
  next
    case (Some bs)
    then show ?thesis
      using same [of bs "length (sf_bytes source)" "rff_token_count facts"]
      by (cases "decode_token_records bs (length (sf_bytes source)) (rff_token_count facts) True";
          cases "decode_token_records bs (length (sf_bytes source)) (rff_token_count facts) False")
        (simp_all add: validate_evidence_def decode_evidence_def read_evidence_def Let_def)
  qed
qed

lemma decode_same_bytes:
  assumes "sf_bytes f = sf_bytes g"
  shows "decode_evidence b64 f facts = decode_evidence b64 g facts"
  unfolding decode_evidence_def read_evidence_def assms ..

section \<open>The cache of decoded evidence\<close>

text \<open>Files with the same fact key have the same bytes; fact keys are digests over the content.\<close>

definition keys_agree :: "fact_map \<Rightarrow> fact_key_lookup \<Rightarrow> source_file set \<Rightarrow> bool" where
  "keys_agree facts keys F \<longleftrightarrow>
     (\<forall>f\<in>F. \<forall>g\<in>F. \<forall>k a b. lookup_file_fact f facts keys = Some (k, a) \<and> lookup_file_fact g facts keys = Some (k, b) \<longrightarrow>
        sf_bytes f = sf_bytes g)"

lemma lookup_same_facts:
  "lookup_file_fact f facts keys = Some (k, a) \<Longrightarrow> lookup_file_fact g facts keys = Some (k, b) \<Longrightarrow> a = b"
  by (auto simp: lookup_file_fact_def split: option.splits)

definition cache_ok ::
    "(bytes \<Rightarrow> bytes option) \<Rightarrow> fact_map \<Rightarrow> fact_key_lookup \<Rightarrow> source_file set \<Rightarrow> decoded_evidence \<Rightarrow> bool" where
  "cache_ok b64 facts keys F de \<longleftrightarrow> bt_wf de \<and>
     (\<forall>f\<in>F. \<forall>k ff st. lookup_file_fact f facts keys = Some (k, ff) \<and> bt_get de k = Some st \<longrightarrow>
        st = decoded_state b64 f (ff_region_fingerprints ff) \<or>
        (st = EvValidated \<and> decode_evidence b64 f (ff_region_fingerprints ff) \<noteq> None))"

lemma evidence_state_spec:
  assumes "keys_agree facts keys F" and "cache_ok b64 facts keys F de" and "f \<in> F"
    and "lookup_file_fact f facts keys = Some (k, ff)"
    and "evidence_state_of b64 k f (ff_region_fingerprints ff) retain de = (st, de')"
  shows "cache_ok b64 facts keys F de' \<and>
    (st = decoded_state b64 f (ff_region_fingerprints ff) \<or>
     (\<not> retain \<and> st = EvValidated \<and> decode_evidence b64 f (ff_region_fingerprints ff) \<noteq> None))"
proof -
  let ?rf = "ff_region_fingerprints ff"
  have st: "st = decoded_state b64 f ?rf \<or> (\<not> retain \<and> st = EvValidated \<and> decode_evidence b64 f ?rf \<noteq> None)"
  proof (cases "bt_get de k")
    case None
    with assms(5) show ?thesis
      by (auto simp: evidence_state_of_def decoded_state_def validate_iff_decode Let_def split: if_splits option.splits)
  next
    case (Some s)
    with assms(2-4) have "s = decoded_state b64 f ?rf \<or> (s = EvValidated \<and> decode_evidence b64 f ?rf \<noteq> None)"
      unfolding cache_ok_def by blast
    with Some assms(5) show ?thesis
      by (auto simp: evidence_state_of_def Let_def split: if_splits)
  qed
  have de': "de' = bt_insert k st de" using assms(5) by (auto simp: evidence_state_of_def Let_def)
  have "s = decoded_state b64 g (ff_region_fingerprints gf) \<or> (s = EvValidated \<and> decode_evidence b64 g (ff_region_fingerprints gf) \<noteq> None)"
    if g: "g \<in> F" "lookup_file_fact g facts keys = Some (k', gf)" "bt_get de' k' = Some s" for g k' gf s
  proof (cases "k' = k")
    case True
    with g assms(4) lookup_same_facts have "gf = ff" by blast
    moreover have "sf_bytes g = sf_bytes f" using assms(1,3,4) g(1,2) True unfolding keys_agree_def by blast
    ultimately have "decode_evidence b64 g (ff_region_fingerprints gf) = decode_evidence b64 f ?rf"
      using decode_same_bytes [of g f b64 ?rf] by simp
    moreover have "s = st"
    proof -
      have wf: "bt_wf de" using assms(2) unfolding cache_ok_def by (rule conjunct1)
      from g(3) show ?thesis unfolding True de' bt_get_insert [OF wf] by simp
    qed
    ultimately show ?thesis using st by (auto simp: decoded_state_def)
  next
    case False
    have wf: "bt_wf de" using assms(2) unfolding cache_ok_def by (rule conjunct1)
    from False g(3) have "bt_get de k' = Some s" unfolding de' bt_get_insert [OF wf] by simp
    with g assms(2) show ?thesis unfolding cache_ok_def by blast
  qed
  moreover have "bt_wf de'" using assms(2) unfolding de' cache_ok_def by (intro bt_wf_insert) (rule conjunct1)
  ultimately have "cache_ok b64 facts keys F de'" unfolding cache_ok_def by blast
  with st show ?thesis by blast
qed

section \<open>What a view holds\<close>

text \<open>The region facts of a file whose extraction completed.\<close>

definition region_facts :: "fact_map \<Rightarrow> fact_key_lookup \<Rightarrow> source_file \<Rightarrow> region_fingerprint_facts option" where
  "region_facts facts keys f =
     (case lookup_file_fact f facts keys of
        None \<Rightarrow> None
      | Some (k, ff) \<Rightarrow> if rff_status (ff_region_fingerprints ff) = FComplete then Some (ff_region_fingerprints ff) else None)"

definition malformed_view :: "region_view \<Rightarrow> bool" where
  "malformed_view view \<longleftrightarrow> rv_malformed_paths view \<noteq> [] \<or> rv_malformed_paths_truncated view"

lemma bs_insert_not_Nil [simp]: "bs_insert k s \<noteq> []"
  by (cases s) simp_all

lemma record_bounded_path_malformed:
  assumes "record_bounded_path p (ps, t) = (ps', t')"
  shows "ps' \<noteq> [] \<or> t'"
  using assms by (auto simp: record_bounded_path_def MAX_OBSERVATION_PATHS_def split: if_splits)

definition added_file :: "path_continuity \<Rightarrow> source_file \<Rightarrow> region_fingerprint_facts \<Rightarrow> decoded_tokens \<Rightarrow> nat \<Rightarrow> region_view \<Rightarrow> region_view" where
  "added_file cont f rf d n view =
     view\<lparr> rv_retained_anchors := n,
           rv_retained_tokens := sat_add (rv_retained_tokens view) (rff_token_count rf),
           rv_files := rv_files view @ [\<lparr> rgf_source = f, rgf_path = continued_path cont (sf_path f), rgf_decoded = d \<rparr>],
           rv_groups := fold (add_anchor (family (sf_language f)) (length (rv_files view))) (rff_anchors rf) (rv_groups view) \<rparr>"

text \<open>The total of anchors when those of the facts are few enough for their file and for the request.\<close>

definition admitted :: "region_fingerprint_facts \<Rightarrow> region_view \<Rightarrow> nat option" where
  "admitted rf view =
     (if length (rff_anchors rf) \<le> MAX_REGION_FINGERPRINTS_PER_FILE
      then prospective_region_anchor_total (rv_retained_anchors view) (length (rff_anchors rf)) else None)"

lemma view_add_file_eq:
  assumes "lookup_file_fact f facts keys = Some (k, ff)" and "rff_status (ff_region_fingerprints ff) = FComplete"
    and "evidence_state_of b64 k f (ff_region_fingerprints ff) (admitted (ff_region_fingerprints ff) view \<noteq> None) de = (st, de1)"
  shows "view_add_file b64 facts keys cont f (view, de) = (case st of
      EvMalformed \<Rightarrow> (let (ps, t) = record_bounded_path (continued_path cont (sf_path f)) (rv_malformed_paths view, rv_malformed_paths_truncated view)
                      in (view\<lparr> rv_malformed_paths := ps, rv_malformed_paths_truncated := t \<rparr>, de1))
    | EvValidated \<Rightarrow> (if length (rff_anchors (ff_region_fingerprints ff)) \<le> MAX_REGION_FINGERPRINTS_PER_FILE then view\<lparr> rv_request_truncated := True \<rparr> else view, de1)
    | EvDecoded d \<Rightarrow> (case admitted (ff_region_fingerprints ff) view of None \<Rightarrow> (view\<lparr> rv_request_truncated := True \<rparr>, de1) | Some n \<Rightarrow> (added_file cont f (ff_region_fingerprints ff) d n view, de1)))"
  using assms unfolding admitted_def
  by (cases st) (simp_all add: view_add_file_def added_file_def Let_def cong: option.case_cong del: not_None_eq split del: if_split)

lemma view_add_file_spec:
  assumes "keys_agree facts keys F" and "cache_ok b64 facts keys F de" and "f \<in> F"
    and "view_add_file b64 facts keys cont f (view, de) = (view', de')"
  shows "cache_ok b64 facts keys F de' \<and>
    (case region_facts facts keys f of
       None \<Rightarrow> view' = view
     | Some rf \<Rightarrow>
         (case decode_evidence b64 f rf of
            None \<Rightarrow> malformed_view view' \<and> rv_files view' = rv_files view \<and> rv_groups view' = rv_groups view \<and>
                    rv_request_truncated view' = rv_request_truncated view \<and> rv_retained_anchors view' = rv_retained_anchors view
          | Some d \<Rightarrow>
              (\<exists>n. view' = added_file cont f rf d n view \<and> admitted rf view = Some n) \<or>
              (admitted rf view = None \<and> rv_retained_anchors view' = rv_retained_anchors view \<and>
               rv_files view' = rv_files view \<and> rv_groups view' = rv_groups view \<and> malformed_view view' = malformed_view view \<and>
               (rv_request_truncated view \<longrightarrow> rv_request_truncated view') \<and>
               (length (rff_anchors rf) \<le> MAX_REGION_FINGERPRINTS_PER_FILE \<longrightarrow> rv_request_truncated view'))))"
proof (cases "region_facts facts keys f")
  case None
  then have "view' = view \<and> de' = de"
    using assms(4) by (auto simp: view_add_file_def region_facts_def Let_def split: option.splits if_splits)
  with None assms(2) show ?thesis by simp
next
  case (Some rf)
  then obtain k ff where l: "lookup_file_fact f facts keys = Some (k, ff)" and rf: "rf = ff_region_fingerprints ff" "rff_status rf = FComplete"
    by (auto simp: region_facts_def split: option.splits if_splits)
  define retained where "retained = admitted rf view"
  obtain st de1 where st: "evidence_state_of b64 k f rf (retained \<noteq> None) de = (st, de1)" by fastforce
  note e = evidence_state_spec [OF assms(1-3) l st [unfolded rf(1)]]
  note v = view_add_file_eq [OF l rf(2) [unfolded rf(1)] st [unfolded rf(1) retained_def], of cont, unfolded assms(4), folded rf(1), folded retained_def]
  show ?thesis
  proof (cases "decode_evidence b64 f rf")
    case None
    with e rf(1) have "st = EvMalformed" by (simp add: decoded_state_def)
    moreover obtain ps t where p: "record_bounded_path (continued_path cont (sf_path f)) (rv_malformed_paths view, rv_malformed_paths_truncated view) = (ps, t)"
      by fastforce
    ultimately have "view' = view\<lparr> rv_malformed_paths := ps, rv_malformed_paths_truncated := t \<rparr> \<and> de' = de1" using v by simp
    with record_bounded_path_malformed [OF p] e Some None show ?thesis by (simp add: malformed_view_def)
  next
    case d: (Some d)
    with e rf(1) consider "st = EvDecoded d" | "retained = None" "st = EvValidated" by (auto simp: decoded_state_def)
    then show ?thesis
    proof cases
      case 1
      with v e Some d show ?thesis by (cases retained) (auto simp: malformed_view_def retained_def)
    next
      case 2
      with v e Some d show ?thesis by (auto simp: malformed_view_def retained_def split: if_splits)
    qed
  qed
qed

text \<open>
  Both levels of the anchor groups are ordered maps and no group is empty; then every recorded anchor
  is found by lookup.
\<close>

definition groups_wf :: "anchor_groups \<Rightarrow> bool" where
  "groups_wf groups \<longleftrightarrow> bt_wf groups \<and> (\<forall>(fam, g)\<in>set groups. bt_wf g \<and> (\<forall>(k, os)\<in>set g. os \<noteq> []))"

lemma groups_wf_add: "groups_wf groups \<Longrightarrow> groups_wf (add_anchor fam n a groups)"
  unfolding groups_wf_def add_anchor_def by (auto dest!: bt_entry_member)

lemma bt_entry_new_member: "bt_wf m \<Longrightarrow> (k, f (case bt_get m k of None \<Rightarrow> d | Some v \<Rightarrow> v)) \<in> set (bt_entry d f k m)"
  using map_of_SomeD [of "bt_entry d f k m" k] by (simp add: bt_get_entry split: option.split)

lemma bt_entry_old_member: "bt_wf m \<Longrightarrow> (k', v) \<in> set m \<Longrightarrow> k' \<noteq> k \<Longrightarrow> (k', v) \<in> set (bt_entry d f k m)"
  using map_of_SomeD [of "bt_entry d f k m" k' v] by (simp add: bt_get_in_set [symmetric])

lemma occurrences_add_anchor_new:
  assumes "groups_wf groups"
  shows "insert (fam, (hash_one a, hash_two a), \<lparr> ao_file = n, ao_token_index = token_index a \<rparr>) (occurrences_of groups)
    \<subseteq> occurrences_of (add_anchor fam n a groups)"
proof -
  let ?k = "(hash_one a, hash_two a)" and ?x = "\<lparr> ao_file = n, ao_token_index = token_index a \<rparr>"
  let ?f = "bt_entry [] (\<lambda>os. os @ [?x]) ?k"
  define g0 where "g0 = (case bt_get groups fam of None \<Rightarrow> [] | Some g \<Rightarrow> g)"
  have wf: "bt_wf groups" "bt_wf g0" using assms by (auto simp: groups_wf_def g0_def split: option.splits dest: map_of_SomeD)
  have fam: "(fam, ?f g0) \<in> set (add_anchor fam n a groups)"
    unfolding add_anchor_def g0_def by (rule bt_entry_new_member [OF wf(1)])
  have new: "(?k, (case bt_get g0 ?k of None \<Rightarrow> [] | Some v \<Rightarrow> v) @ [?x]) \<in> set (?f g0)"
    by (rule bt_entry_new_member [OF wf(2)])
  have "(fam, ?k, ?x) \<in> occurrences_of (add_anchor fam n a groups)"
    using fam new by (force simp: occurrences_of_def)
  moreover have "(fam', k, x) \<in> occurrences_of (add_anchor fam n a groups)"
    if g: "(fam', g) \<in> set groups" "(k, os) \<in> set g" "x \<in> set os" for fam' g k os x
  proof (cases "fam' = fam")
    case False
    with bt_entry_old_member [OF wf(1) g(1)] have "(fam', g) \<in> set (add_anchor fam n a groups)" by (simp add: add_anchor_def)
    with g(2,3) show ?thesis by (auto simp: occurrences_of_def)
  next
    case True
    with g(1) wf(1) have g0: "g0 = g" by (simp add: g0_def bt_get_in_set [OF wf(1), symmetric])
    show ?thesis
    proof (cases "k = ?k")
      case True
      with g(2) g0 wf(2) have "bt_get g0 ?k = Some os" by (simp add: bt_get_in_set)
      with new have "(?k, os @ [?x]) \<in> set (?f g0)" by simp
      with fam True \<open>fam' = fam\<close> g(3) show ?thesis by (force simp: occurrences_of_def)
    next
      case False
      with bt_entry_old_member [OF wf(2), of k os ?k] g(2) g0 have "(k, os) \<in> set (?f g0)" by simp
      with fam \<open>fam' = fam\<close> g(3) show ?thesis by (auto simp: occurrences_of_def)
    qed
  qed
  ultimately show ?thesis by (auto simp: occurrences_of_def)
qed

lemma occurrences_fold_add_anchor_new:
  assumes "groups_wf groups"
  shows "groups_wf (fold (add_anchor fam n) as groups) \<and> occurrences_of groups \<subseteq> occurrences_of (fold (add_anchor fam n) as groups) \<and>
    (\<forall>a\<in>set as. (fam, (hash_one a, hash_two a), \<lparr> ao_file = n, ao_token_index = token_index a \<rparr>) \<in> occurrences_of (fold (add_anchor fam n) as groups))"
  using assms
proof (induction as arbitrary: groups)
  case Nil
  then show ?case by simp
next
  case (Cons a as)
  from Cons.IH [OF groups_wf_add [OF Cons.prems], of fam n a] occurrences_add_anchor_new [OF Cons.prems, of fam a n]
  show ?case by auto
qed

text \<open>
  A view built from a list of files: malformed exactly when some evidence is; every file with sound
  evidence and few enough anchors is in it with all its anchors, unless the request was cut; and nothing
  else is in it.
\<close>

definition retained_file ::
    "path_continuity \<Rightarrow> region_view \<Rightarrow> source_file \<Rightarrow> region_fingerprint_facts \<Rightarrow> decoded_tokens \<Rightarrow> bool" where
  "retained_file cont view f rf d \<longleftrightarrow>
     (\<exists>i<length (rv_files view).
        rv_files view ! i = \<lparr> rgf_source = f, rgf_path = continued_path cont (sf_path f), rgf_decoded = d \<rparr> \<and>
        (\<forall>a\<in>set (rff_anchors rf). (family (sf_language f), (hash_one a, hash_two a), \<lparr> ao_file = i, ao_token_index = token_index a \<rparr>)
           \<in> occurrences_of (rv_groups view)))"

definition view_of ::
    "(bytes \<Rightarrow> bytes option) \<Rightarrow> fact_map \<Rightarrow> fact_key_lookup \<Rightarrow> path_continuity \<Rightarrow> source_file list \<Rightarrow> region_view \<Rightarrow> bool" where
  "view_of b64 facts keys cont fs view \<longleftrightarrow>
     groups_wf (rv_groups view) \<and>
     (malformed_view view \<longleftrightarrow> (\<exists>f\<in>set fs. \<exists>rf. region_facts facts keys f = Some rf \<and> decode_evidence b64 f rf = None)) \<and>
     (\<forall>f rf d. f \<in> set fs \<and> region_facts facts keys f = Some rf \<and> decode_evidence b64 f rf = Some d \<and>
        length (rff_anchors rf) \<le> MAX_REGION_FINGERPRINTS_PER_FILE \<longrightarrow>
        rv_request_truncated view \<or> retained_file cont view f rf d) \<and>
     (\<forall>x\<in>set (rv_files view). \<exists>f rf. f \<in> set fs \<and> region_facts facts keys f = Some rf \<and>
        decode_evidence b64 f rf = Some (rgf_decoded x)) \<and>
     (\<forall>fam k x. (fam, k, x) \<in> occurrences_of (rv_groups view) \<longrightarrow>
        (\<exists>f rf a. f \<in> set fs \<and> region_facts facts keys f = Some rf \<and> a \<in> set (rff_anchors rf) \<and>
           fam = family (sf_language f) \<and> k = (hash_one a, hash_two a)))"

lemma view_of_empty: "view_of b64 facts keys cont [] (empty_region_view v)"
  by (simp add: view_of_def empty_region_view_def groups_wf_def malformed_view_def occurrences_of_def)

lemma view_of_same:
  assumes "view_of b64 facts keys cont fs view" and "rv_files view' = rv_files view" and "rv_groups view' = rv_groups view"
    and "rv_request_truncated view \<longrightarrow> rv_request_truncated view'"
    and "malformed_view view' \<longleftrightarrow> malformed_view view \<or> (\<exists>rf. region_facts facts keys f = Some rf \<and> decode_evidence b64 f rf = None)"
    and "\<forall>rf d. region_facts facts keys f = Some rf \<and> decode_evidence b64 f rf = Some d \<and>
           length (rff_anchors rf) \<le> MAX_REGION_FINGERPRINTS_PER_FILE \<longrightarrow> rv_request_truncated view'"
  shows "view_of b64 facts keys cont (fs @ [f]) view'"
  unfolding view_of_def
proof (intro conjI)
  note v = assms(1) [unfolded view_of_def]
  show "groups_wf (rv_groups view')" using v assms(3) by simp
  show "malformed_view view' \<longleftrightarrow> (\<exists>f\<in>set (fs @ [f]). \<exists>rf. region_facts facts keys f = Some rf \<and> decode_evidence b64 f rf = None)"
    using v assms(5) by auto
  show "\<forall>g rf d. g \<in> set (fs @ [f]) \<and> region_facts facts keys g = Some rf \<and> decode_evidence b64 g rf = Some d \<and>
        length (rff_anchors rf) \<le> MAX_REGION_FINGERPRINTS_PER_FILE \<longrightarrow>
        rv_request_truncated view' \<or> retained_file cont view' g rf d"
    using v assms(2-4,6) by (auto simp: retained_file_def)
  show "\<forall>x\<in>set (rv_files view'). \<exists>g rf. g \<in> set (fs @ [f]) \<and> region_facts facts keys g = Some rf \<and>
        decode_evidence b64 g rf = Some (rgf_decoded x)"
    using v assms(2) by fastforce
  show "\<forall>fam k x. (fam, k, x) \<in> occurrences_of (rv_groups view') \<longrightarrow>
        (\<exists>g rf a. g \<in> set (fs @ [f]) \<and> region_facts facts keys g = Some rf \<and> a \<in> set (rff_anchors rf) \<and>
           fam = family (sf_language g) \<and> k = (hash_one a, hash_two a))"
    using v assms(3) by fastforce
qed

lemma view_of_added:
  assumes "view_of b64 facts keys cont fs view" and rf: "region_facts facts keys f = Some rf" "decode_evidence b64 f rf = Some d"
  shows "view_of b64 facts keys cont (fs @ [f]) (added_file cont f rf d n view)" (is "view_of _ _ _ _ _ ?view'")
  unfolding view_of_def
proof (intro conjI)
  note v = assms(1) [unfolded view_of_def]
  let ?fam = "family (sf_language f)" and ?n = "length (rv_files view)"
  have new: "groups_wf (rv_groups ?view')" "occurrences_of (rv_groups view) \<subseteq> occurrences_of (rv_groups ?view')"
    "\<forall>a\<in>set (rff_anchors rf). (?fam, (hash_one a, hash_two a), \<lparr> ao_file = ?n, ao_token_index = token_index a \<rparr>) \<in> occurrences_of (rv_groups ?view')"
    using occurrences_fold_add_anchor_new [of "rv_groups view" ?fam ?n "rff_anchors rf"] v by (simp_all add: added_file_def)
  have old: "occurrences_of (rv_groups ?view') \<subseteq> occurrences_of (rv_groups view) \<union>
      {(?fam, (hash_one a, hash_two a), \<lparr> ao_file = ?n, ao_token_index = token_index a \<rparr>) | a. a \<in> set (rff_anchors rf)}"
    using occurrences_fold_add_anchor [of ?fam ?n "rff_anchors rf" "rv_groups view"] by (simp add: added_file_def)
  have files: "rv_files ?view' = rv_files view @ [\<lparr> rgf_source = f, rgf_path = continued_path cont (sf_path f), rgf_decoded = d \<rparr>]"
    "rv_request_truncated ?view' = rv_request_truncated view" "malformed_view ?view' = malformed_view view"
    by (simp_all add: added_file_def malformed_view_def)
  show "groups_wf (rv_groups ?view')" by (rule new(1))
  show "malformed_view ?view' \<longleftrightarrow> (\<exists>f\<in>set (fs @ [f]). \<exists>rf. region_facts facts keys f = Some rf \<and> decode_evidence b64 f rf = None)"
    using v rf files(3) by auto
  show "\<forall>g r e. g \<in> set (fs @ [f]) \<and> region_facts facts keys g = Some r \<and> decode_evidence b64 g r = Some e \<and>
        length (rff_anchors r) \<le> MAX_REGION_FINGERPRINTS_PER_FILE \<longrightarrow>
        rv_request_truncated ?view' \<or> retained_file cont ?view' g r e"
  proof (intro allI impI)
    fix g r e
    assume g: "g \<in> set (fs @ [f]) \<and> region_facts facts keys g = Some r \<and> decode_evidence b64 g r = Some e \<and>
        length (rff_anchors r) \<le> MAX_REGION_FINGERPRINTS_PER_FILE"
    show "rv_request_truncated ?view' \<or> retained_file cont ?view' g r e"
    proof (cases "g = f")
      case True
      with g rf have "r = rf" "e = d" by auto
      with True new(3) files(1) show ?thesis unfolding retained_file_def by (intro disjI2 exI [of _ ?n]) simp
    next
      case False
      with g v have "rv_request_truncated view \<or> retained_file cont view g r e" by simp
      moreover have "retained_file cont ?view' g r e" if "retained_file cont view g r e"
      proof -
        from that obtain i where i: "i < ?n"
          "rv_files view ! i = \<lparr> rgf_source = g, rgf_path = continued_path cont (sf_path g), rgf_decoded = e \<rparr>"
          "\<forall>a\<in>set (rff_anchors r). (family (sf_language g), (hash_one a, hash_two a), \<lparr> ao_file = i, ao_token_index = token_index a \<rparr>)
              \<in> occurrences_of (rv_groups view)" unfolding retained_file_def by blast
        from i(1) have "i < length (rv_files ?view')" "rv_files ?view' ! i = rv_files view ! i"
          unfolding files(1) by (simp_all add: nth_append)
        moreover have "\<forall>a\<in>set (rff_anchors r). (family (sf_language g), (hash_one a, hash_two a), \<lparr> ao_file = i, ao_token_index = token_index a \<rparr>)
              \<in> occurrences_of (rv_groups ?view')" using i(3) new(2) by (meson subsetD)
        ultimately show ?thesis using i(2) unfolding retained_file_def by (intro exI [of _ i]) simp
      qed
      ultimately show ?thesis using files(2) by blast
    qed
  qed
  show "\<forall>x\<in>set (rv_files ?view'). \<exists>g r. g \<in> set (fs @ [f]) \<and> region_facts facts keys g = Some r \<and>
        decode_evidence b64 g r = Some (rgf_decoded x)"
    unfolding files(1) using v rf by (auto 0 3)
  show "\<forall>fam k x. (fam, k, x) \<in> occurrences_of (rv_groups ?view') \<longrightarrow>
        (\<exists>g r a. g \<in> set (fs @ [f]) \<and> region_facts facts keys g = Some r \<and> a \<in> set (rff_anchors r) \<and>
           fam = family (sf_language g) \<and> k = (hash_one a, hash_two a))"
  proof (intro allI impI)
    fix fam k x
    assume "(fam, k, x) \<in> occurrences_of (rv_groups ?view')"
    with old consider "(fam, k, x) \<in> occurrences_of (rv_groups view)"
      | a where "a \<in> set (rff_anchors rf)" "fam = ?fam" "k = (hash_one a, hash_two a)" by blast
    then show "\<exists>g r a. g \<in> set (fs @ [f]) \<and> region_facts facts keys g = Some r \<and> a \<in> set (rff_anchors r) \<and>
        fam = family (sf_language g) \<and> k = (hash_one a, hash_two a)"
    proof cases
      case 1
      with v have "\<exists>g r a. g \<in> set fs \<and> region_facts facts keys g = Some r \<and> a \<in> set (rff_anchors r) \<and>
        fam = family (sf_language g) \<and> k = (hash_one a, hash_two a)" by blast
      then show ?thesis by auto
    next
      case 2
      with rf(1) show ?thesis by (intro exI [of _ f] exI [of _ rf] exI [of _ a]) simp
    qed
  qed
qed

lemma view_fold:
  assumes "keys_agree facts keys F" and "cache_ok b64 facts keys F de" and "set fs \<subseteq> F"
    and "view_of b64 facts keys cont done0 view"
    and "fold (view_add_file b64 facts keys cont) fs (view, de) = (view', de')"
  shows "cache_ok b64 facts keys F de' \<and> view_of b64 facts keys cont (done0 @ fs) view'"
  using assms(2-5)
proof (induction fs arbitrary: view de done0)
  case Nil
  then show ?case by simp
next
  case (Cons f fs)
  obtain view1 de1 where step: "view_add_file b64 facts keys cont f (view, de) = (view1, de1)" by fastforce
  note spec = view_add_file_spec [OF assms(1) Cons.prems(1) _ step]
  have f: "f \<in> F" using Cons.prems(2) by simp
  have "view_of b64 facts keys cont (done0 @ [f]) view1"
  proof (cases "region_facts facts keys f")
    case None
    with spec [OF f] have "view1 = view" by simp
    with None Cons.prems(3) show ?thesis by (intro view_of_same [of _ _ _ _ _ view]) simp_all
  next
    case (Some rf)
    show ?thesis
    proof (cases "decode_evidence b64 f rf")
      case None
      with Some spec [OF f] Cons.prems(3) show ?thesis by (intro view_of_same [of _ _ _ _ _ view]) simp_all
    next
      case d: (Some d)
      with Some spec [OF f] consider n where "view1 = added_file cont f rf d n view"
        | "rv_files view1 = rv_files view" "rv_groups view1 = rv_groups view" "malformed_view view1 = malformed_view view"
          "rv_request_truncated view \<longrightarrow> rv_request_truncated view1"
          "length (rff_anchors rf) \<le> MAX_REGION_FINGERPRINTS_PER_FILE \<longrightarrow> rv_request_truncated view1" by auto
      then show ?thesis
      proof cases
        case 1
        with view_of_added [OF Cons.prems(3) Some d] show ?thesis by simp
      next
        case 2
        with Some d Cons.prems(3) show ?thesis by (intro view_of_same [of _ _ _ _ _ view]) auto
      qed
    qed
  qed
  moreover have "cache_ok b64 facts keys F de1" using spec [OF f] by (rule conjunct1)
  ultimately show ?case using Cons.IH [of de1 "done0 @ [f]" view1] Cons.prems(2,4) step by simp
qed

lemma sort_key_Nil [simp]: "sort_key f xs = [] \<longleftrightarrow> xs = []"
  using length_sort [of f xs] by (metis length_0_conv)

lemma groups_wf_sorted: "groups_wf groups \<Longrightarrow> groups_wf (sort_occurrences files groups)"
  by (fastforce simp: groups_wf_def sort_occurrences_def bt_wf_def comp_def split_def)

lemma view_of_sorted:
  assumes "view_of b64 facts keys cont fs view"
  shows "view_of b64 facts keys cont fs (view\<lparr> rv_groups := sort_occurrences (rv_files view) (rv_groups view) \<rparr>)"
  using assms groups_wf_sorted by (simp add: view_of_def retained_file_def malformed_view_def)

lemma region_view_new_spec:
  assumes "keys_agree facts keys F" and "cache_ok b64 facts keys F de" and "set (snapshot_file_list snap) \<subseteq> F"
    and "region_view_new b64 v snap facts keys cont de = (view, de')"
  shows "cache_ok b64 facts keys F de' \<and> view_of b64 facts keys cont (snapshot_file_list snap) view \<and> rv_view view = v"
proof -
  obtain view0 where f: "fold (view_add_file b64 facts keys cont) (snapshot_file_list snap) (empty_region_view v, de) = (view0, de')"
    and view: "view = view0\<lparr> rv_groups := sort_occurrences (rv_files view0) (rv_groups view0) \<rparr>"
    using assms(4) by (auto simp: region_view_new_def split: prod.splits)
  have "rv_view (fst (fold (view_add_file b64 facts keys cont) fs vd)) = rv_view (fst vd)" for fs vd
  proof (induction fs arbitrary: vd)
    case (Cons g fs)
    have "rv_view (fst (view_add_file b64 facts keys cont g vd)) = rv_view (fst vd)"
      by (simp add: view_add_file_def split_def Let_def split: option.split evidence_state.split)
    with Cons show ?case by simp
  qed simp
  from this [of "snapshot_file_list snap" "(empty_region_view v, de)"] f have "rv_view view0 = v" by (simp add: empty_region_view_def)
  with view_fold [OF assms(1,2,3) view_of_empty f] view_of_sorted view show ?thesis by simp
qed


section \<open>The two views of a request\<close>

definition request_files :: "region_inputs \<Rightarrow> source_file set" where
  "request_files inputs = set (snapshot_file_list (ri_before inputs)) \<union> set (snapshot_file_list (ri_after inputs))"

abbreviation request_facts :: "region_inputs \<Rightarrow> source_file \<Rightarrow> region_fingerprint_facts option" where
  "request_facts inputs \<equiv> region_facts (ri_file_facts inputs) (ri_fact_keys inputs)"

lemma region_context_views:
  assumes "keys_agree (ri_file_facts inputs) (ri_fact_keys inputs) (request_files inputs)"
  shows "view_of b64 (ri_file_facts inputs) (ri_fact_keys inputs) (ri_continuity inputs)
      (snapshot_file_list (ri_before inputs)) (ex_before (region_context b64 inputs))"
    and "view_of b64 (ri_file_facts inputs) (ri_fact_keys inputs) []
      (snapshot_file_list (ri_after inputs)) (ex_after (region_context b64 inputs))"
proof -
  let ?facts = "ri_file_facts inputs" and ?keys = "ri_fact_keys inputs"
  obtain before de where b: "region_view_new b64 ViewBefore (ri_before inputs) ?facts ?keys (ri_continuity inputs) [] = (before, de)"
    by fastforce
  obtain after de' where a: "region_view_new b64 ViewAfter (ri_after inputs) ?facts ?keys [] de = (after, de')" by fastforce
  have cx: "ex_before (region_context b64 inputs) = before" "ex_after (region_context b64 inputs) = after"
    by (simp_all add: region_context_def b a)
  have "cache_ok b64 ?facts ?keys (request_files inputs) []" by (simp add: cache_ok_def)
  from region_view_new_spec [OF assms this _ b]
  have "cache_ok b64 ?facts ?keys (request_files inputs) de"
    "view_of b64 ?facts ?keys (ri_continuity inputs) (snapshot_file_list (ri_before inputs)) before"
    by (simp_all add: request_files_def)
  with region_view_new_spec [OF assms this(1) _ a]
  show "view_of b64 ?facts ?keys (ri_continuity inputs) (snapshot_file_list (ri_before inputs)) (ex_before (region_context b64 inputs))"
    "view_of b64 ?facts ?keys [] (snapshot_file_list (ri_after inputs)) (ex_after (region_context b64 inputs))"
    unfolding cx by (simp_all add: request_files_def)
qed

text \<open>A file whose region facts are complete but cannot be read back for its content.\<close>

definition malformed_file :: "(bytes \<Rightarrow> bytes option) \<Rightarrow> region_inputs \<Rightarrow> source_file \<Rightarrow> bool" where
  "malformed_file b64 inputs f \<longleftrightarrow>
     (case request_facts inputs f of None \<Rightarrow> False | Some rf \<Rightarrow> decode_evidence b64 f rf = None)"

lemma malformed_file_iff:
  "malformed_file b64 inputs f \<longleftrightarrow> (\<exists>rf. request_facts inputs f = Some rf \<and> decode_evidence b64 f rf = None)"
  by (simp add: malformed_file_def split: option.split)

lemma view_of_malformed:
  "view_of b64 facts keys cont fs view \<Longrightarrow>
   malformed_view view \<longleftrightarrow> (\<exists>f\<in>set fs. \<exists>rf. region_facts facts keys f = Some rf \<and> decode_evidence b64 f rf = None)"
  unfolding view_of_def by (elim conjE)

lemma malformed_views:
  assumes "keys_agree (ri_file_facts inputs) (ri_fact_keys inputs) (request_files inputs)"
  shows "malformed_view (ex_before (region_context b64 inputs)) \<longleftrightarrow> list_ex (malformed_file b64 inputs) (snapshot_file_list (ri_before inputs))"
    and "malformed_view (ex_after (region_context b64 inputs)) \<longleftrightarrow> list_ex (malformed_file b64 inputs) (snapshot_file_list (ri_after inputs))"
  using region_context_views [OF assms, of b64, THEN view_of_malformed] by (simp_all add: list_ex_iff malformed_file_iff)

text \<open>
  C16. Evidence that cannot be read is always reported. If some file of either snapshot has complete
  region facts whose token evidence does not decode for the content of the file, the search still
  returns, with no finding at all and with the issue \<open>dedup_exact_evidence_malformed\<close>; and the coverage
  of each snapshot that holds such a file says so. Only files with equal keys need equal content.
\<close>

theorem malformed_evidence_reported:
  assumes "keys_agree (ri_file_facts inputs) (ri_fact_keys inputs) (request_files inputs)"
    and "list_ex (malformed_file b64 inputs) (snapshot_file_list (ri_before inputs) @ snapshot_file_list (ri_after inputs))"
  shows "\<exists>rr. region_findings K b64 inputs = Some rr \<and> rr_findings rr = [] \<and>
    list_ex (\<lambda>i. si_code i = ''dedup_exact_evidence_malformed'') (rr_comparison_issues rr) \<and>
    (list_ex (malformed_file b64 inputs) (snapshot_file_list (ri_before inputs)) \<longrightarrow> rc_malformed_evidence (rr_before rr)) \<and>
    (list_ex (malformed_file b64 inputs) (snapshot_file_list (ri_after inputs)) \<longrightarrow> rc_malformed_evidence (rr_after rr))"
proof (rule region_findings_Some [of K b64 inputs], goal_cases)
  case (1 rr es)
  let ?cx = "region_context b64 inputs"
  note m = malformed_views [OF assms(1), of b64]
  have bad: "cs_incomplete (observed_state ?cx)" "cs_malformed_evidence (observed_state ?cx)"
    using assms(2) m [symmetric] by (auto simp: observed_state_def observe_malformed_view_flags malformed_view_def)
  then have "es = default_evaluation_state\<lparr> es_comparison := observed_state ?cx \<rparr>"
    using 1(2) by (simp add: region_evaluation_def Let_def)
  then have es: "es_findings es = []" "es_comparison es = observed_state ?cx" by (simp_all add: default_evaluation_state_def)
  have "malformed_view v \<Longrightarrow> rc_malformed_evidence (view_coverage v cs)" for v cs
    by (auto simp: view_coverage_def malformed_view_def)
  with 1(6,7) m have "list_ex (malformed_file b64 inputs) (snapshot_file_list (ri_before inputs)) \<longrightarrow> rc_malformed_evidence (rr_before rr)"
    "list_ex (malformed_file b64 inputs) (snapshot_file_list (ri_after inputs)) \<longrightarrow> rc_malformed_evidence (rr_after rr)" by auto
  moreover have "list_ex (\<lambda>i. si_code i = ''dedup_exact_evidence_malformed'') (rr_comparison_issues rr)"
    using 1(8) es(2) bad(2) by (simp add: comparison_issues_def malformed_issue_def SenseIssue_new_def)
  ultimately show ?case using 1(1,4) es(1) by simp
qed

section \<open>Copies\<close>

text \<open>
  A candidate file whose region facts an analyzer extracted from tokens that stand in order and quote
  its bytes.
\<close>

definition extracted_file ::
    "(bytes \<Rightarrow> bytes) \<Rightarrow> bytes \<Rightarrow> region_inputs \<Rightarrow> source_file \<Rightarrow> fingerprint_token list \<Rightarrow> bool" where
  "extracted_file encode domain inputs f ts \<longleftrightarrow>
     f \<in> set (snapshot_file_list (ri_after inputs)) \<and>
     request_facts inputs f = Some (region_fingerprints encode domain ts) \<and>
     length (sf_bytes f) \<le> u32_max \<and> length (normalized ts) \<le> u32_max \<and>
     in_order (length (sf_bytes f)) 0 (map snd (counted_tokens [] ts)) \<and>
     list_all (\<lambda>(p, t). get_range (sf_bytes f) (tk_start_byte t) (tk_end_byte t) = Some (tk_text t)) (counted_tokens [] ts)"

lemma request_facts_complete: "request_facts inputs f = Some rf \<Longrightarrow> rff_status rf = FComplete"
  by (auto simp: region_facts_def split: option.splits if_splits)

lemma exact_token_quoted:
  assumes "get_at (rv_files view) i = Some x" and "rgf_source x = f" and "rgf_decoded x = d"
    and "map (token_view (dts_bytes d)) (dts_tokens d) = map (\<lambda>(p, t). (tk_start_byte t, tk_end_byte t, tk_tag t, p)) (counted_tokens [] ts)"
    and "\<forall>t\<in>set (dts_tokens d). fst (dt_prefix t) \<le> snd (dt_prefix t) \<and> snd (dt_prefix t) \<le> length (dts_bytes d)"
    and "list_all (\<lambda>(p, t). get_range (sf_bytes f) (tk_start_byte t) (tk_end_byte t) = Some (tk_text t)) (counted_tokens [] ts)"
    and "k < length (normalized ts)"
  shows "exact_token view \<lparr> tl_file = i, tl_token = k \<rparr> =
    (case normalized ts ! k of (p, tag, txt) \<Rightarrow> Some \<lparr> et_tag = tag, et_prefix = p, et_text = txt \<rparr>)"
proof -
  let ?ps = "counted_tokens [] ts"
  have k: "k < length ?ps" using assms(7) by (simp add: normalized_def)
  have len: "length (dts_tokens d) = length ?ps" using arg_cong [OF assms(4), of length] by simp
  obtain p t where pt: "?ps ! k = (p, t)" by (cases "?ps ! k")
  define u where "u = dts_tokens d ! k"
  have u: "u \<in> set (dts_tokens d)" "get_at (dts_tokens d) k = Some u" using k len by (simp_all add: u_def get_at_def)
  have "token_view (dts_bytes d) u = (tk_start_byte t, tk_end_byte t, tk_tag t, p)"
    using arg_cong [OF assms(4), of "\<lambda>xs. xs ! k"] k len pt by (simp add: u_def)
  then have v: "dt_start u = tk_start_byte t" "dt_end u = tk_end_byte t" "dt_tag u = tk_tag t"
    "get_range (dts_bytes d) (fst (dt_prefix u)) (snd (dt_prefix u)) = Some p"
    using assms(5) u(1) by (auto simp: token_view_def get_range_def)
  have "(p, t) \<in> set ?ps" using k pt nth_mem by force
  then have "get_range (sf_bytes f) (tk_start_byte t) (tk_end_byte t) = Some (tk_text t)" using assms(6) by (auto simp: list_all_iff)
  moreover have "normalized ts ! k = (p, tk_tag t, tk_text t)" using k pt by (simp add: normalized_def)
  ultimately show ?thesis using assms(1-3) u(2) v by (simp add: exact_token_def)
qed

lemma lookup_occurrence:
  assumes "groups_wf groups" and "(fam, k, x) \<in> occurrences_of groups"
  obtains g os where "bt_get groups fam = Some g" and "bt_get g k = Some os" and "x \<in> set os"
proof -
  from assms(2) obtain g os where g: "(fam, g) \<in> set groups" "(k, os) \<in> set g" "x \<in> set os"
    unfolding occurrences_of_def by blast
  with assms(1) have "bt_get groups fam = Some g" "bt_get g k = Some os" by (auto simp: groups_wf_def bt_get_in_set)
  with g(3) that show ?thesis by blast
qed

lemma absent_occurrence:
  assumes "groups_wf groups" and "\<And>x. (fam, k, x) \<notin> occurrences_of groups"
  shows "Option.bind (bt_get groups fam) (\<lambda>g. bt_get g k) = None"
proof (rule ccontr)
  assume "Option.bind (bt_get groups fam) (\<lambda>g. bt_get g k) \<noteq> None"
  then obtain g os where g: "(fam, g) \<in> set groups" "(k, os) \<in> set g"
    by (auto simp: bind_eq_Some_conv dest!: map_of_SomeD)
  with assms(1) have "os \<noteq> []" by (auto simp: groups_wf_def)
  then have "hd os \<in> set os" by simp
  with g have "(fam, k, hd os) \<in> occurrences_of groups" unfolding occurrences_of_def by blast
  with assms(2) show False by blast
qed

lemma extracted_evidence:
  assumes "\<And>x. decode (encode x) = Some x" and "extracted_file encode domain inputs f ts"
  obtains d where "decode_evidence decode f (region_fingerprints encode domain ts) = Some d"
    and "map (token_view (dts_bytes d)) (dts_tokens d) = map (\<lambda>(p, t). (tk_start_byte t, tk_end_byte t, tk_tag t, p)) (counted_tokens [] ts)"
    and "\<forall>t\<in>set (dts_tokens d). fst (dt_prefix t) \<le> snd (dt_prefix t) \<and> snd (dt_prefix t) \<le> length (dts_bytes d)"
proof -
  have f: "rff_status (region_fingerprints encode domain ts) = FComplete" "length (normalized ts) \<le> u32_max"
    using assms(2) request_facts_complete by (auto simp: extracted_file_def)
  from read_written_evidence [OF assms(1) f(1) _ _ f(2), of f True] assms(2) obtain d where
    d: "decode_evidence decode f (region_fingerprints encode domain ts) = Some d"
    "map (token_view (dts_bytes d)) (dts_tokens d) = map (\<lambda>(p, t). (tk_start_byte t, tk_end_byte t, tk_tag t, p)) (counted_tokens [] ts)"
    by (auto simp: extracted_file_def decode_evidence_def)
  moreover have "rff_token_count (region_fingerprints encode domain ts) \<le> u32_max" using complete_regions [OF f] f(2) by simp
  ultimately show ?thesis using that decoded_tokens_sound(3) by blast
qed

text \<open>The candidate view holds an extracted file with its tokens and all its anchors, unless the request was cut.\<close>

lemma extracted_in_view:
  assumes "keys_agree (ri_file_facts inputs) (ri_fact_keys inputs) (request_files inputs)"
    and "\<And>x. decode (encode x) = Some x" and "extracted_file encode domain inputs f ts"
    and "\<not> rv_request_truncated (ex_after (region_context decode inputs))"
  obtains i where "i < length (rv_files (ex_after (region_context decode inputs)))"
    and "rgf_path (rv_files (ex_after (region_context decode inputs)) ! i) = sf_path f"
    and "\<And>a. a \<in> set (rff_anchors (region_fingerprints encode domain ts)) \<Longrightarrow>
      (family (sf_language f), (hash_one a, hash_two a), \<lparr> ao_file = i, ao_token_index = token_index a \<rparr>)
        \<in> occurrences_of (rv_groups (ex_after (region_context decode inputs)))"
    and "\<And>k. k < length (normalized ts) \<Longrightarrow>
      exact_token (ex_after (region_context decode inputs)) \<lparr> tl_file = i, tl_token = k \<rparr> =
        (case normalized ts ! k of (p, tag, txt) \<Rightarrow> Some \<lparr> et_tag = tag, et_prefix = p, et_text = txt \<rparr>)"
proof -
  let ?view = "ex_after (region_context decode inputs)" and ?rf = "region_fingerprints encode domain ts"
  note f = assms(3) [unfolded extracted_file_def]
  from extracted_evidence [OF assms(2,3)] obtain d where d: "decode_evidence decode f ?rf = Some d"
    "map (token_view (dts_bytes d)) (dts_tokens d) = map (\<lambda>(p, t). (tk_start_byte t, tk_end_byte t, tk_tag t, p)) (counted_tokens [] ts)"
    "\<forall>t\<in>set (dts_tokens d). fst (dt_prefix t) \<le> snd (dt_prefix t) \<and> snd (dt_prefix t) \<le> length (dts_bytes d)" .
  have "length (rff_anchors ?rf) \<le> MAX_REGION_FINGERPRINTS_PER_FILE"
    using complete_regions [of encode domain ts] f request_facts_complete by blast
  with region_context_views(2) [OF assms(1), of decode] f d(1) assms(4) have "retained_file [] ?view f ?rf d"
    unfolding view_of_def by blast
  then obtain i where i: "i < length (rv_files ?view)"
    "rv_files ?view ! i = \<lparr> rgf_source = f, rgf_path = sf_path f, rgf_decoded = d \<rparr>"
    "\<forall>a\<in>set (rff_anchors ?rf). (family (sf_language f), (hash_one a, hash_two a), \<lparr> ao_file = i, ao_token_index = token_index a \<rparr>)
       \<in> occurrences_of (rv_groups ?view)"
    by (auto simp: retained_file_def continued_path_def)
  have "get_at (rv_files ?view) i = Some \<lparr> rgf_source = f, rgf_path = sf_path f, rgf_decoded = d \<rparr>"
    using i(1,2) by (simp add: get_at_def)
  from that [OF i(1)] i(2,3) exact_token_quoted [OF this _ _ d(2,3)] f show ?thesis by simp
qed

text \<open>No anchor of the tokens is in a baseline file of the language family.\<close>

definition unseen :: "region_inputs \<Rightarrow> source_file \<Rightarrow> region_fingerprint_facts \<Rightarrow> bool" where
  "unseen inputs f rf \<longleftrightarrow>
     list_all (\<lambda>h. family (sf_language h) \<noteq> family (sf_language f) \<or>
        (case request_facts inputs h of
           None \<Rightarrow> True
         | Some rh \<Rightarrow> list_all (\<lambda>a. list_all (\<lambda>b. (hash_one a, hash_two a) \<noteq> (hash_one b, hash_two b)) (rff_anchors rh)) (rff_anchors rf)))
       (snapshot_file_list (ri_before inputs))"

lemma unseen_lookup:
  assumes "keys_agree (ri_file_facts inputs) (ri_fact_keys inputs) (request_files inputs)"
    and "unseen inputs f rf" and "a \<in> set (rff_anchors rf)"
  shows "Option.bind (bt_get (rv_groups (ex_before (region_context b64 inputs))) (family (sf_language f)))
    (\<lambda>g. bt_get g (hash_one a, hash_two a)) = None"
proof (rule absent_occurrence)
  note v = region_context_views(1) [OF assms(1), of b64, unfolded view_of_def]
  show "groups_wf (rv_groups (ex_before (region_context b64 inputs)))" using v by (elim conjE)
  fix x
  show "(family (sf_language f), (hash_one a, hash_two a), x) \<notin> occurrences_of (rv_groups (ex_before (region_context b64 inputs)))"
  proof
    assume "(family (sf_language f), (hash_one a, hash_two a), x) \<in> occurrences_of (rv_groups (ex_before (region_context b64 inputs)))"
    with v obtain h rh b where "h \<in> set (snapshot_file_list (ri_before inputs))" "request_facts inputs h = Some rh"
      "b \<in> set (rff_anchors rh)" "family (sf_language f) = family (sf_language h)" "(hash_one a, hash_two a) = (hash_one b, hash_two b)"
      by blast
    with assms(2,3) show False by (auto simp: unseen_def list_all_iff)
  qed
qed

text \<open>Token counts are 32-bit.\<close>

definition token_counts_fit :: "region_inputs \<Rightarrow> bool" where
  "token_counts_fit inputs = list_all (\<lambda>(k, ff). rff_token_count (ff_region_fingerprints ff) \<le> u32_max) (ri_file_facts inputs)"

lemma small_candidate_view:
  assumes "keys_agree (ri_file_facts inputs) (ri_fact_keys inputs) (request_files inputs)"
    and "token_counts_fit inputs"
  shows "small_view (ex_after (region_context b64 inputs))"
  unfolding small_view_def
proof
  fix x assume "x \<in> set (rv_files (ex_after (region_context b64 inputs)))"
  with region_context_views(2) [OF assms(1), of b64] obtain f rf where
    f: "request_facts inputs f = Some rf" "decode_evidence b64 f rf = Some (rgf_decoded x)"
    unfolding view_of_def by blast
  with assms(2) have "rff_token_count rf \<le> u32_max"
    by (auto simp: region_facts_def lookup_file_fact_def token_counts_fit_def list_all_iff split: option.splits if_splits dest!: map_of_SomeD)
  with decoded_tokens_sound(1) [OF f(2)] show "length (dts_tokens (rgf_decoded x)) \<le> usize_max"
    by (simp add: u32_max_def usize_max_def)
qed

lemma quoted_run_agrees:
  assumes "\<And>k. k < length us \<Longrightarrow> exact_token view \<lparr> tl_file = i, tl_token = k \<rparr> =
        (case us ! k of (p, tag, txt) \<Rightarrow> Some \<lparr> et_tag = tag, et_prefix = p, et_text = txt \<rparr>)"
    and "\<And>k. k < length vs \<Longrightarrow> exact_token view \<lparr> tl_file = j, tl_token = k \<rparr> =
        (case vs ! k of (p, tag, txt) \<Rightarrow> Some \<lparr> et_tag = tag, et_prefix = p, et_text = txt \<rparr>)"
    and "\<forall>k<n. us ! (a + k) = vs ! (b + k)" and "a + n \<le> length us" and "b + n \<le> length vs"
    and "a \<le> s" and "p = b + (s - a)" and "a \<le> k" and "k < a + n"
  shows "agree view i k j (k + p - s)"
proof -
  have "k + p - s = b + (k - a)" using assms(6-8) by linarith
  moreover have "us ! k = vs ! (b + (k - a))" using assms(3) [THEN spec, of "k - a"] assms(8,9) by simp
  moreover have "k < length us" "b + (k - a) < length vs" using assms(4,5,8,9) by linarith+
  ultimately show ?thesis
    using assms(1) [of k] assms(2) [of "b + (k - a)"] unfolding agree_def same_token_def same_view_def
    by (cases "vs ! (b + (k - a))") simp
qed

definition sample_request :: "source_file list \<Rightarrow> source_file list \<Rightarrow> region_fingerprint_facts \<Rightarrow> region_inputs" where
  "sample_request before after rf =
     \<lparr> ri_suppressed_paths = [], ri_callable_findings = [], ri_finding_limit = 5,
       ri_changed_paths = [RepoPath ''a''], ri_continuity = [],
       ri_before = \<lparr> snap_id = ''before'', snap_files = map (\<lambda>f. (sf_path f, f)) before \<rparr>,
       ri_after = \<lparr> snap_id = ''after'', snap_files = map (\<lambda>f. (sf_path f, f)) after \<rparr>,
       ri_file_facts = [(''key'', default_file_facts\<lparr> ff_region_fingerprints := rf \<rparr>)],
       ri_fact_keys = [([], [(''rs'', ''key'')])] \<rparr>"

lemma sample_request_files [simp]:
  "snapshot_file_list (ri_before (sample_request before after rf)) = before"
  "snapshot_file_list (ri_after (sample_request before after rf)) = after"
  "ri_changed_paths (sample_request before after rf) = [RepoPath ''a'']"
  "ri_suppressed_paths (sample_request before after rf) = []"
  "ri_callable_findings (sample_request before after rf) = []"
  by (simp_all add: sample_request_def snapshot_file_list_def comp_def)

lemma sample_source_path [simp]: "sf_path sample_source = RepoPath ''a''"
  by (simp add: sample_source_def)

lemma sample_request_facts:
  assumes "sf_content_id f = []" and "sf_language_mode f = ''rs''" and "rff_status rf = FComplete"
  shows "request_facts (sample_request before after rf) f = Some rf"
  using assms by (simp add: sample_request_def region_facts_def lookup_file_fact_def)

text \<open>The sample source, copied.\<close>

definition sample_copy :: source_file where
  "sample_copy = sample_source\<lparr> sf_path := RepoPath ''b'' \<rparr>"

text \<open>
  C9. A copied run is reported. Two candidate files of one language family, at different paths, were
  extracted from tokens that quote them, and share a run of at least \<open>MIN_DEDUP_REGION_TOKENS\<close> tokens; the
  path of the first is changed and not suppressed, none of the anchors of the whole first file is in a
  baseline file of the family, and no whole callable was found duplicated. Then the search returns, and
  one of its findings is for the first file: it is made from a genuine class of duplicates of the
  language family whose digest is the digest of a run of at least that many tokens standing at a place
  of the first file; or the search says that it could not look at everything: a comparison issue, too
  many findings, or a request that was cut.
\<close>

theorem copied_run_reported:
  assumes "\<And>x. decode (encode x) = Some x"
    and "keys_agree (ri_file_facts inputs) (ri_fact_keys inputs) (request_files inputs)" and "token_counts_fit inputs"
    and "extracted_file encode domain inputs f us" and "extracted_file encode domain inputs g vs"
    and "family (sf_language f) = family (sf_language g)" and "sf_path f \<noteq> sf_path g"
    and "\<forall>k<n. normalized us ! (a + k) = normalized vs ! (b + k)"
    and "a + n \<le> length (normalized us)" and "b + n \<le> length (normalized vs)" and "MIN_DEDUP_REGION_TOKENS \<le> n"
    and "sf_path f \<in> set (ri_changed_paths inputs)" and "sf_path f \<notin> set (ri_suppressed_paths inputs)"
    and "unseen inputs f (region_fingerprints encode domain us)"
    and "list_all (\<lambda>d. idup_kind d \<noteq> DupCallableBody) (ri_callable_findings inputs)"
  shows "\<exists>rr. region_findings K decode inputs = Some rr \<and>
    (rr_comparison_issues rr \<noteq> [] \<or> rr_findings_truncated rr \<or> rc_request_truncated (rr_after rr) \<or>
     list_ex (finding_for K (region_context decode inputs) (family (sf_language f)) (sf_path f)) (rr_findings rr))"
proof (cases "rv_request_truncated (ex_after (region_context decode inputs))")
  case True
  show ?thesis
  proof (rule region_findings_Some [of K decode inputs], goal_cases)
    case (1 rr es)
    with True show ?case by (auto simp: view_coverage_def)
  qed
next
  case False
  let ?cx = "region_context decode inputs" and ?fam = "family (sf_language f)"
  let ?view = "ex_after ?cx"
  have complete: "rff_status (region_fingerprints encode domain us) = FComplete" "length (normalized us) \<le> u32_max"
    "rff_status (region_fingerprints encode domain vs) = FComplete" "length (normalized vs) \<le> u32_max"
    using assms(4,5) request_facts_complete by (auto simp: extracted_file_def)
  from shared_run_anchors [OF complete assms(8-11)] obtain x y where
    x: "x \<in> set (rff_anchors (region_fingerprints encode domain us))" and y: "y \<in> set (rff_anchors (region_fingerprints encode domain vs))"
    and k: "hash_one x = hash_one y" "hash_two x = hash_two y"
    and at: "a \<le> token_index x" "token_index x + DEDUP_REGION_KGRAM_TOKENS \<le> a + n" "token_index y = b + (token_index x - a)"
    by blast
  from extracted_in_view [OF assms(2,1,4) False] obtain i where i: "i < length (rv_files ?view)" "rgf_path (rv_files ?view ! i) = sf_path f"
    "(?fam, (hash_one x, hash_two x), \<lparr> ao_file = i, ao_token_index = token_index x \<rparr>) \<in> occurrences_of (rv_groups ?view)"
    "\<And>k. k < length (normalized us) \<Longrightarrow> exact_token ?view \<lparr> tl_file = i, tl_token = k \<rparr> =
        (case normalized us ! k of (p, tag, txt) \<Rightarrow> Some \<lparr> et_tag = tag, et_prefix = p, et_text = txt \<rparr>)"
    using x by metis
  from extracted_in_view [OF assms(2,1,5) False] obtain j where j: "j < length (rv_files ?view)" "rgf_path (rv_files ?view ! j) = sf_path g"
    "(?fam, (hash_one x, hash_two x), \<lparr> ao_file = j, ao_token_index = token_index y \<rparr>) \<in> occurrences_of (rv_groups ?view)"
    "\<And>k. k < length (normalized vs) \<Longrightarrow> exact_token ?view \<lparr> tl_file = j, tl_token = k \<rparr> =
        (case normalized vs ! k of (p, tag, txt) \<Rightarrow> Some \<lparr> et_tag = tag, et_prefix = p, et_text = txt \<rparr>)"
    using y k assms(6) by metis
  let ?seed = "\<lparr> ao_file = i, ao_token_index = token_index x \<rparr>" and ?peer = "\<lparr> ao_file = j, ao_token_index = token_index y \<rparr>"
  have wf: "groups_wf (rv_groups ?view)" using region_context_views(2) [OF assms(2), of decode] unfolding view_of_def by (elim conjE)
  from lookup_occurrence [OF wf i(3)] obtain grp os where os: "bt_get (rv_groups ?view) ?fam = Some grp"
    "bt_get grp (hash_one x, hash_two x) = Some os" "?seed \<in> set os" .
  moreover have "?peer \<in> set os" by (rule lookup_occurrence [OF wf j(3)]) (use os(1,2) in simp)
  moreover have "ex_inputs ?cx = inputs" by (simp add: region_context_def split_def Let_def)
  ultimately have group: "fresh_group ?cx ?fam (hash_one x, hash_two x) os"
    using unseen_lookup [OF assms(2,14) x, of decode] small_candidate_view [OF assms(2,3), of decode] assms(15)
    unfolding fresh_group_def by (intro conjI exI [of _ grp]) simp_all
  have run: "agreement_run ?view ?seed ?peer a (a + n)"
    using quoted_run_agrees [OF i(4) j(4) assms(8-10) at(1,3)] at by (simp add: agreement_run_def)
  have "fresh_duplicate ?cx ?fam (hash_one x, hash_two x) os ?seed ?peer"
    unfolding fresh_duplicate_def
  proof (intro conjI exI)
    show "agreement_run ?view ?seed ?peer a (a + n)" by (rule run)
  qed (use group os(3) \<open>?peer \<in> set os\<close> assms(7,11-13) i(2) j(2) \<open>ex_inputs ?cx = inputs\<close> in \<open>simp_all add: seed_path_def\<close>)
  from fresh_duplicate_outcome [OF this, of K] show ?thesis by (simp add: seed_path_def i(2)) blast
qed

theorem malformed_evidence_reported_witness:
  "\<forall>K. \<exists>rr. region_findings K Some
      (sample_request [] [sample_source] (default_region_fingerprint_facts\<lparr> rff_status := FComplete, rff_token_count := 1 \<rparr>)) = Some rr \<and>
    rr_findings rr = [] \<and> rc_malformed_evidence (rr_after rr)"
proof -
  let ?rf = "default_region_fingerprint_facts\<lparr> rff_status := FComplete, rff_token_count := 1 \<rparr>"
  have "malformed_file Some (sample_request [] [sample_source] ?rf) sample_source"
    by (subst malformed_file_def, subst sample_request_facts)
      (simp_all add: sample_source_def decode_evidence_def read_evidence_def default_region_fingerprint_facts_def)
  with malformed_evidence_reported [of "sample_request [] [sample_source] ?rf" Some] show ?thesis
    by (fastforce simp: keys_agree_def request_files_def)
qed

theorem copied_run_reported_witness:
  "\<forall>K. \<exists>rr. region_findings K Some
      (sample_request [] [sample_source, sample_copy] (region_fingerprints id ''rust'' (sample_tokens 60))) = Some rr \<and>
    (rr_comparison_issues rr \<noteq> [] \<or> rr_findings_truncated rr \<or> rc_request_truncated (rr_after rr) \<or>
     list_ex (finding_for K (region_context Some
         (sample_request [] [sample_source, sample_copy] (region_fingerprints id ''rust'' (sample_tokens 60))))
       ''rust'' (RepoPath ''a'')) (rr_findings rr))"
proof -
  let ?rf = "region_fingerprints id ''rust'' (sample_tokens 60)"
  let ?inputs = "sample_request [] [sample_source, sample_copy] ?rf"
  have rf: "rff_status ?rf = FComplete" by (rule sample_tokens_complete) (simp add: MAX_REGION_FINGERPRINTS_PER_FILE_def)
  have few: "length (normalized (sample_tokens 60)) \<le> u32_max" by (simp add: sample_tokens_length u32_max_def)
  have counted: "counted_tokens [] (sample_tokens 60) = map (Pair []) (sample_tokens 60)"
    by (rule counted_tokens_counted) (auto simp: sample_tokens_def)
  have quotes: "list_all (\<lambda>(p, t). get_range (sf_bytes sample_source) (tk_start_byte t) (tk_end_byte t) = Some (tk_text t))
      (counted_tokens [] (sample_tokens 60))"
    unfolding counted by (auto simp: list_all_iff sample_tokens_def sample_source_def get_range_def)
  have "extracted_file id ''rust'' ?inputs sample_source (sample_tokens 60)"
    using sample_source_fits few quotes sample_request_facts [OF _ _ rf, of sample_source]
    by (simp add: extracted_file_def u32_max_def) (simp add: sample_source_def)
  moreover from this have "extracted_file id ''rust'' ?inputs sample_copy (sample_tokens 60)"
    using sample_request_facts [OF _ _ rf, of sample_copy]
    by (simp add: extracted_file_def sample_copy_def) (simp add: sample_source_def)
  moreover have "token_counts_fit ?inputs" using complete_regions [OF rf few] few by (simp add: token_counts_fit_def sample_request_def)
  ultimately have "\<exists>rr. region_findings K Some ?inputs = Some rr \<and>
      (rr_comparison_issues rr \<noteq> [] \<or> rr_findings_truncated rr \<or> rc_request_truncated (rr_after rr) \<or>
       list_ex (finding_for K (region_context Some ?inputs) (family (sf_language sample_source)) (sf_path sample_source)) (rr_findings rr))" for K
    by (intro copied_run_reported [of Some id ?inputs "''rust''" sample_source "sample_tokens 60" sample_copy "sample_tokens 60" 60 0 0 K])
      (auto simp: keys_agree_def request_files_def sample_copy_def unseen_def sample_tokens_length
        MIN_DEDUP_REGION_TOKENS_def DEDUP_REGION_KGRAM_TOKENS_def DEDUP_REGION_WINNOW_SPAN_def)
  moreover have "family (sf_language sample_source) = ''rust''" by (simp add: sample_source_def)
  ultimately show ?thesis unfolding sample_source_path by simp
qed

end
