(* ===== verification/Dedup.thy ===== *)
theory Dedup
  imports CopyDetection
begin

text \<open>
  The duplicate search: \<^verbatim>\<open>src/sense/dedup.rs\<close>. Files with identical bytes, callables with equal
  digests and shared regions of tokens are compared between the baseline and the candidate
  snapshot; every limit that cuts the search becomes an issue. A panic of the region search is the
  value \<^term>\<open>None\<close>, and the properties show that there is none.
\<close>

section \<open>Limits of a snapshot\<close>

record affected_paths =
  ap_count :: nat
  ap_paths :: "repo_path list"

definition default_affected_paths :: affected_paths where
  "default_affected_paths = \<lparr> ap_count = 0, ap_paths = [] \<rparr>"

definition affected_push :: "repo_path \<Rightarrow> affected_paths \<Rightarrow> affected_paths" where
  "affected_push path a = \<lparr> ap_count = sat_add (ap_count a) 1, ap_paths = ap_paths a @ [path] \<rparr>"

record snapshot_limit_state =
  ls_callable_files :: affected_paths
  ls_region_files :: affected_paths
  ls_callable_request :: affected_paths
  ls_region_request :: affected_paths
  ls_callables :: nat
  ls_regions :: nat

definition default_snapshot_limit_state :: snapshot_limit_state where
  "default_snapshot_limit_state =
     \<lparr> ls_callable_files = default_affected_paths, ls_region_files = default_affected_paths,
       ls_callable_request = default_affected_paths, ls_region_request = default_affected_paths,
       ls_callables = 0, ls_regions = 0 \<rparr>"

definition observe_callable_limits :: "repo_path \<Rightarrow> file_facts \<Rightarrow> snapshot_limit_state \<Rightarrow> snapshot_limit_state" where
  "observe_callable_limits path ff st =
     (let n = length (cff_callables (ff_callable_fingerprints ff));
          bounded = (n \<le> MAX_CALLABLE_FINGERPRINTS_PER_FILE);
          st = (if cff_status (ff_callable_fingerprints ff) = FTruncated \<or> \<not> bounded
                then st\<lparr> ls_callable_files := affected_push path (ls_callable_files st) \<rparr> else st)
      in if \<not> bounded \<or> cff_status (ff_callable_fingerprints ff) \<noteq> FComplete then st
         else
           (let remaining = MAX_CALLABLE_FINGERPRINTS_PER_REQUEST - ls_callables st;
                st = (if n > remaining
                      then st\<lparr> ls_callable_request := affected_push path (ls_callable_request st) \<rparr> else st)
            in st\<lparr> ls_callables := sat_add (ls_callables st) (min n remaining) \<rparr>))"

definition admit_region_anchors :: "nat \<Rightarrow> nat \<Rightarrow> bool \<times> nat" where
  "admit_region_anchors retained n =
     (case prospective_region_anchor_total retained n of
        None \<Rightarrow> (False, retained)
      | Some t \<Rightarrow> (True, t))"

definition observe_region_limits ::
    "repo_path \<Rightarrow> file_facts \<Rightarrow> bool \<Rightarrow> snapshot_limit_state \<Rightarrow> snapshot_limit_state" where
  "observe_region_limits path ff malformed st =
     (let n = length (rff_anchors (ff_region_fingerprints ff));
          bounded = (n \<le> MAX_REGION_FINGERPRINTS_PER_FILE);
          st = (if rff_status (ff_region_fingerprints ff) = FTruncated \<or> \<not> bounded
                then st\<lparr> ls_region_files := affected_push path (ls_region_files st) \<rparr> else st)
      in if bounded \<and> \<not> malformed \<and> rff_status (ff_region_fingerprints ff) = FComplete
         then
           (let (admitted, regions) = admit_region_anchors (ls_regions st) n;
                st = st\<lparr> ls_regions := regions \<rparr>
            in if admitted then st
               else st\<lparr> ls_region_request := affected_push path (ls_region_request st) \<rparr>)
         else st)"

record limit_issue_spec =
  lis_code :: bytes
  lis_stage :: dedup_limit_stage
  lis_views :: "sense_view list"
  lis_limit :: nat
  lis_processed :: nat
  lis_message :: bytes

definition push_limit_issue :: "affected_paths \<Rightarrow> limit_issue_spec \<Rightarrow> sense_issue list \<Rightarrow> sense_issue list" where
  "push_limit_issue affected spec issues =
     (if ap_count affected = 0 then issues
      else issues @
        [(SenseIssue_new (lis_code spec)
            (lis_message spec @ '': the fixed limit of '' @ show_nat (lis_limit spec) @
             '' was reached; at least '' @ show_nat (ap_count affected) @ '' path(s) were affected''))
         \<lparr> si_stage := Some (lis_stage spec), si_views := lis_views spec, si_limit := Some (lis_limit spec),
           si_processed := Some (lis_processed spec), si_paths := ap_paths affected,
           si_paths_truncated := (ap_count affected > length (ap_paths affected)),
           si_next_step := Some (limit_next_step ''Split unusually dense source files '') \<rparr>])"

definition render_snapshot_limit_issues :: "snapshot_limit_state \<Rightarrow> sense_view list \<Rightarrow> sense_issue list" where
  "render_snapshot_limit_issues st views =
     push_limit_issue (ls_region_request st)
       \<lparr> lis_code = ''dedup_region_request_limit'', lis_stage = StageTokenRegionRequestCollection, lis_views = views,
         lis_limit = MAX_REGION_FINGERPRINTS_PER_REQUEST, lis_processed = ls_regions st,
         lis_message = ''request-wide token-region duplicate collection is incomplete'' \<rparr>
    (push_limit_issue (ls_callable_request st)
       \<lparr> lis_code = ''dedup_callable_request_limit'', lis_stage = StageCallableRequestCollection, lis_views = views,
         lis_limit = MAX_CALLABLE_FINGERPRINTS_PER_REQUEST, lis_processed = ls_callables st,
         lis_message = ''request-wide callable duplicate collection is incomplete'' \<rparr>
    (push_limit_issue (ls_region_files st)
       \<lparr> lis_code = ''dedup_region_file_limit'', lis_stage = StageTokenRegionFileExtraction, lis_views = views,
         lis_limit = MAX_REGION_FINGERPRINTS_PER_FILE, lis_processed = MAX_REGION_FINGERPRINTS_PER_FILE,
         lis_message = ''token-region duplicate extraction is incomplete'' \<rparr>
    (push_limit_issue (ls_callable_files st)
       \<lparr> lis_code = ''dedup_callable_file_limit'', lis_stage = StageCallableFileExtraction, lis_views = views,
         lis_limit = MAX_CALLABLE_FINGERPRINTS_PER_FILE, lis_processed = MAX_CALLABLE_FINGERPRINTS_PER_FILE,
         lis_message = ''callable-body duplicate extraction is incomplete'' \<rparr> [])))"

definition observe_file_limits ::
    "fact_map \<Rightarrow> fact_key_lookup \<Rightarrow> file_fact_key btree_set \<Rightarrow> source_file \<Rightarrow> snapshot_limit_state \<Rightarrow> snapshot_limit_state" where
  "observe_file_limits facts keys malformed f st =
     (case lookup_file_fact f facts keys of
        None \<Rightarrow> st
      | Some (key, ff) \<Rightarrow>
          observe_region_limits (sf_path f) ff (key \<in> set malformed) (observe_callable_limits (sf_path f) ff st))"

definition snapshot_limit_issues ::
    "source_snapshot \<Rightarrow> fact_map \<Rightarrow> fact_key_lookup \<Rightarrow> sense_view list \<Rightarrow> file_fact_key btree_set \<Rightarrow> sense_issue list" where
  "snapshot_limit_issues snapshot facts keys views malformed =
     render_snapshot_limit_issues
       (fold (observe_file_limits facts keys malformed) (snapshot_file_list snapshot) default_snapshot_limit_state) views"

definition canonical_changed_paths :: "repo_path btree_set \<Rightarrow> path_continuity \<Rightarrow> repo_path btree_set" where
  "canonical_changed_paths changed continuity = bs_collect (map (continued_path continuity) changed)"

section \<open>Identical files\<close>

record file_group =
  fg_bytes :: nat
  fg_paths :: "repo_path btree_set"

definition file_groups :: "source_snapshot \<Rightarrow> nat \<Rightarrow> path_continuity \<Rightarrow> (content_id, file_group) btree_map" where
  "file_groups snapshot minimum_bytes continuity =
     fold (\<lambda>f. bt_entry \<lparr> fg_bytes = length (sf_bytes f), fg_paths = [] \<rparr>
                 (\<lambda>g. g\<lparr> fg_paths := bs_insert (continued_path continuity (sf_path f)) (fg_paths g) \<rparr>) (sf_content_id f))
       (filter (\<lambda>f. length (sf_bytes f) \<ge> minimum_bytes) (snapshot_file_list snapshot)) []"

record identical_file_inputs =
  ifi_before :: source_snapshot
  ifi_after :: source_snapshot
  ifi_changed_paths :: "repo_path btree_set"
  ifi_continuity :: path_continuity
  ifi_minimum_bytes :: nat
  ifi_finding_limit :: nat

definition identical_file_finding ::
    "crates \<Rightarrow> repo_path btree_set \<Rightarrow> content_id \<Rightarrow> repo_path btree_set \<Rightarrow> file_group \<Rightarrow> introduced_duplicate" where
  "identical_file_finding K changed content_id before_paths after_group =
     (let (occurrences, truncated) =
            bound_occurrences (sort_key (\<lambda>d. (\<not> dup_changed d, dup_path d))
              (map (\<lambda>p. \<lparr> dup_path = p, dup_range = None, dup_callable_kind = None, dup_changed = (p \<in> set changed) \<rparr>)
                (fg_paths after_group)))
      in \<lparr> idup_class_id = ''file-'' @ short_id (hex_encode K content_id), idup_kind = DupIdenticalFile,
           idup_language_family = None, idup_before_count = length before_paths,
           idup_after_count = length (fg_paths after_group),
           idup_introduced_count = length (fg_paths after_group) - length before_paths,
           idup_bytes = Some (fg_bytes after_group), idup_token_count = None,
           idup_occurrences = occurrences, idup_occurrences_truncated = truncated \<rparr>)"

fun identical_file_loop ::
    "crates \<Rightarrow> identical_file_inputs \<Rightarrow> (content_id, file_group) btree_map \<Rightarrow> (content_id \<times> file_group) list
     \<Rightarrow> introduced_duplicate list \<times> repo_path btree_set \<times> bool \<Rightarrow> introduced_duplicate list \<times> repo_path btree_set \<times> bool" where
  "identical_file_loop K inputs before_groups [] acc = acc"
| "identical_file_loop K inputs before_groups ((content_id, after_group) # groups) (findings, suppressed, truncated) =
     (let before_paths = (case bt_get before_groups content_id of None \<Rightarrow> [] | Some g \<Rightarrow> fg_paths g);
          introduced_paths = filter (\<lambda>p. p \<notin> set before_paths) (fg_paths after_group)
      in if length (fg_paths after_group) < 2 \<or> length (fg_paths after_group) \<le> length before_paths
            \<or> set introduced_paths \<inter> set (ifi_changed_paths inputs) = {}
         then identical_file_loop K inputs before_groups groups (findings, suppressed, truncated)
         else if length findings \<ge> ifi_finding_limit inputs
         then identical_file_loop K inputs before_groups groups (findings, fold bs_insert introduced_paths suppressed, True)
         else identical_file_loop K inputs before_groups groups
                (findings @ [identical_file_finding K (ifi_changed_paths inputs) content_id before_paths after_group],
                 fold bs_insert introduced_paths suppressed, truncated))"

definition identical_file_findings ::
    "crates \<Rightarrow> identical_file_inputs \<Rightarrow> introduced_duplicate list \<times> repo_path btree_set \<times> bool" where
  "identical_file_findings K inputs =
     identical_file_loop K inputs (file_groups (ifi_before inputs) (ifi_minimum_bytes inputs) (ifi_continuity inputs))
       (file_groups (ifi_after inputs) (ifi_minimum_bytes inputs) []) ([], [], False)"

section \<open>Callables\<close>

record callable_occurrence =
  co_path :: repo_path
  co_range :: source_range
  co_kind :: callable_kind
  co_token_count :: nat

type_synonym callable_groups = "(bytes, (bytes, callable_occurrence list) btree_map) btree_map"

record callable_view =
  cv_groups :: callable_groups
  cv_coverage :: fingerprint_coverage

definition default_fingerprint_coverage :: fingerprint_coverage where
  "default_fingerprint_coverage =
     \<lparr> fpc_files = 0, fpc_complete_files = 0, fpc_unsupported_files = 0, fpc_parser_failed_files = 0,
       fpc_truncated_files = 0, fpc_callable_occurrences = 0, fpc_region_anchors = 0, fpc_region_tokens = 0,
       fpc_request_truncated = False, fpc_malformed_evidence = False \<rparr>"

definition record_fingerprint_status :: "file_facts \<Rightarrow> fingerprint_coverage \<Rightarrow> fingerprint_coverage" where
  "record_fingerprint_status ff coverage =
     (let status = max (cff_status (ff_callable_fingerprints ff)) (rff_status (ff_region_fingerprints ff));
          status = (if length (cff_callables (ff_callable_fingerprints ff)) > MAX_CALLABLE_FINGERPRINTS_PER_FILE
                       \<or> length (rff_anchors (ff_region_fingerprints ff)) > MAX_REGION_FINGERPRINTS_PER_FILE
                    then FTruncated else status)
      in case status of
           FComplete \<Rightarrow> coverage\<lparr> fpc_complete_files := sat_add (fpc_complete_files coverage) 1 \<rparr>
         | FUnsupported \<Rightarrow> coverage\<lparr> fpc_unsupported_files := sat_add (fpc_unsupported_files coverage) 1 \<rparr>
         | FParserFailed \<Rightarrow> coverage\<lparr> fpc_parser_failed_files := sat_add (fpc_parser_failed_files coverage) 1 \<rparr>
         | FTruncated \<Rightarrow> coverage\<lparr> fpc_truncated_files := sat_add (fpc_truncated_files coverage) 1 \<rparr>)"

definition record_non_region_coverage :: "file_facts \<Rightarrow> fingerprint_coverage \<Rightarrow> fingerprint_coverage" where
  "record_non_region_coverage ff coverage =
     (let coverage = record_fingerprint_status ff coverage;
          n = length (cff_callables (ff_callable_fingerprints ff))
      in if cff_status (ff_callable_fingerprints ff) \<noteq> FComplete \<or> n > MAX_CALLABLE_FINGERPRINTS_PER_FILE then coverage
         else
           (let remaining = MAX_CALLABLE_FINGERPRINTS_PER_REQUEST - fpc_callable_occurrences coverage
            in coverage\<lparr> fpc_callable_occurrences := sat_add (fpc_callable_occurrences coverage) (min n remaining),
                         fpc_request_truncated := (fpc_request_truncated coverage \<or> n > remaining) \<rparr>))"

definition cover_file :: "fact_map \<Rightarrow> fact_key_lookup \<Rightarrow> source_file \<Rightarrow> fingerprint_coverage \<Rightarrow> fingerprint_coverage" where
  "cover_file facts keys f coverage =
     (let coverage = coverage\<lparr> fpc_files := sat_add (fpc_files coverage) 1 \<rparr>
      in case lookup_file_facts f facts keys of
           None \<Rightarrow> coverage\<lparr> fpc_unsupported_files := sat_add (fpc_unsupported_files coverage) 1 \<rparr>
         | Some ff \<Rightarrow> record_non_region_coverage ff coverage)"

definition fingerprint_coverage_of :: "source_snapshot \<Rightarrow> fact_map \<Rightarrow> fact_key_lookup \<Rightarrow> fingerprint_coverage" where
  "fingerprint_coverage_of snapshot facts keys =
     fold (cover_file facts keys) (snapshot_file_list snapshot) default_fingerprint_coverage"

definition add_callable :: "bytes \<Rightarrow> repo_path \<Rightarrow> callable_fingerprint \<Rightarrow> callable_view \<Rightarrow> callable_view" where
  "add_callable fam path callable view =
     (if fpc_callable_occurrences (cv_coverage view) \<ge> MAX_CALLABLE_FINGERPRINTS_PER_REQUEST
      then view\<lparr> cv_coverage := (cv_coverage view)\<lparr> fpc_request_truncated := True \<rparr> \<rparr>
      else \<lparr> cv_groups =
               bt_entry [] (bt_entry [] (\<lambda>os. os @ [\<lparr> co_path = path, co_range = cf_range callable, co_kind = cf_kind callable,
                 co_token_count = cf_token_count callable \<rparr>]) (cf_digest callable)) fam (cv_groups view),
             cv_coverage = (cv_coverage view)\<lparr> fpc_callable_occurrences := sat_add (fpc_callable_occurrences (cv_coverage view)) 1 \<rparr> \<rparr>)"

definition callable_view_file ::
    "fact_map \<Rightarrow> fact_key_lookup \<Rightarrow> path_continuity \<Rightarrow> source_file \<Rightarrow> callable_view \<Rightarrow> callable_view" where
  "callable_view_file facts keys continuity f view =
     (let coverage = (cv_coverage view)\<lparr> fpc_files := sat_add (fpc_files (cv_coverage view)) 1 \<rparr>
      in case lookup_file_facts f facts keys of
           None \<Rightarrow> view\<lparr> cv_coverage := coverage\<lparr> fpc_unsupported_files := sat_add (fpc_unsupported_files coverage) 1 \<rparr> \<rparr>
         | Some ff \<Rightarrow>
             (let view = view\<lparr> cv_coverage := record_fingerprint_status ff coverage \<rparr>;
                  callables = cff_callables (ff_callable_fingerprints ff)
              in if cff_status (ff_callable_fingerprints ff) \<noteq> FComplete \<or> callables = []
                    \<or> length callables > MAX_CALLABLE_FINGERPRINTS_PER_FILE
                 then view
                 else fold (add_callable (family (sf_language f)) (continued_path continuity (sf_path f))) callables view))"

definition callable_view_of ::
    "source_snapshot \<Rightarrow> fact_map \<Rightarrow> fact_key_lookup \<Rightarrow> path_continuity \<Rightarrow> callable_view" where
  "callable_view_of snapshot facts keys continuity =
     (let view = fold (callable_view_file facts keys continuity) (snapshot_file_list snapshot)
                   \<lparr> cv_groups = [], cv_coverage = default_fingerprint_coverage \<rparr>
      in view\<lparr> cv_groups := map (\<lambda>(fam, g). (fam, map (\<lambda>(d, os). (d, sort_key (\<lambda>x. (co_path x, co_range x, co_kind x)) os)) g))
                 (cv_groups view) \<rparr>)"

definition callable_finding ::
    "repo_path btree_set \<Rightarrow> bytes \<Rightarrow> bytes \<Rightarrow> nat \<Rightarrow> callable_occurrence list \<Rightarrow> introduced_duplicate" where
  "callable_finding changed fam digest before_count after =
     (let (occurrences, truncated) =
            bound_occurrences (sort_key (\<lambda>d. (\<not> dup_changed d, dup_path d, dup_range d, dup_callable_kind d))
              (map (\<lambda>x. \<lparr> dup_path = co_path x, dup_range = Some (co_range x), dup_callable_kind = Some (co_kind x),
                          dup_changed = (co_path x \<in> set changed) \<rparr>) after))
      in \<lparr> idup_class_id = ''dup-'' @ short_id digest, idup_kind = DupCallableBody,
           idup_language_family = Some fam, idup_before_count = before_count,
           idup_after_count = length after, idup_introduced_count = length after - before_count,
           idup_bytes = None,
           idup_token_count = (case after of [] \<Rightarrow> None | x # _ \<Rightarrow> Some (co_token_count x)),
           idup_occurrences = occurrences, idup_occurrences_truncated = truncated \<rparr>)"

fun callable_loop ::
    "callable_groups \<Rightarrow> repo_path btree_set \<Rightarrow> repo_path btree_set \<Rightarrow> nat
     \<Rightarrow> (bytes \<times> bytes \<times> callable_occurrence list) list \<Rightarrow> introduced_duplicate list \<times> bool \<Rightarrow> introduced_duplicate list \<times> bool" where
  "callable_loop before changed suppressed limit [] acc = acc"
| "callable_loop before changed suppressed limit ((fam, digest, after) # groups) (findings, truncated) =
     (let before_occurrences = (case Option.bind (bt_get before fam) (\<lambda>g. bt_get g digest) of None \<Rightarrow> [] | Some os \<Rightarrow> os);
          grew_paths = paths_with_growth (path_counts co_path before_occurrences) (path_counts co_path after)
      in if length after < 2 \<or> length after \<le> length before_occurrences
            \<or> set grew_paths \<inter> set changed = {} \<or> (grew_paths \<noteq> [] \<and> set grew_paths \<subseteq> set suppressed)
         then callable_loop before changed suppressed limit groups (findings, truncated)
         else if length findings \<ge> limit
         then callable_loop before changed suppressed limit groups (findings, True)
         else callable_loop before changed suppressed limit groups
                (findings @ [callable_finding changed fam digest (length before_occurrences) after], truncated))"

definition callable_findings ::
    "callable_groups \<Rightarrow> callable_groups \<Rightarrow> repo_path btree_set \<Rightarrow> repo_path btree_set \<Rightarrow> nat
     \<Rightarrow> introduced_duplicate list \<times> bool" where
  "callable_findings before after changed suppressed limit =
     callable_loop before changed suppressed limit
       (concat (map (\<lambda>(fam, g). map (\<lambda>(d, os). (fam, d, os)) g) after)) ([], False)"

section \<open>The whole search\<close>

record dedup_inputs =
  di_before :: source_snapshot
  di_after :: source_snapshot
  di_file_facts :: fact_map
  di_fact_keys :: fact_key_lookup
  di_changed_paths :: "repo_path btree_set"
  di_continuity :: path_continuity
  di_minimum_identical_bytes :: nat
  di_finding_limit :: nat

record dedup_result =
  dr_findings :: "introduced_duplicate list"
  dr_findings_truncated :: bool
  dr_coverage :: dedup_coverage
  dr_issues :: "sense_issue list"

definition identical_snapshot_result :: "(bytes \<Rightarrow> bytes option) \<Rightarrow> dedup_inputs \<Rightarrow> dedup_result" where
  "identical_snapshot_result b64 inputs =
     (let coverage = fingerprint_coverage_of (di_before inputs) (di_file_facts inputs) (di_fact_keys inputs);
          (region_coverage, region_issues, malformed) =
            validate_identical_snapshot b64 (di_before inputs) (di_file_facts inputs) (di_fact_keys inputs);
          issues = snapshot_limit_issues (di_before inputs) (di_file_facts inputs) (di_fact_keys inputs)
                     [ViewBefore, ViewAfter] malformed;
          coverage = apply_region_coverage region_coverage coverage
      in \<lparr> dr_findings = [], dr_findings_truncated = False,
           dr_coverage = \<lparr> dc_before = coverage, dc_after = coverage \<rparr>, dr_issues = issues @ region_issues \<rparr>)"

definition region_request ::
    "dedup_inputs \<Rightarrow> repo_path btree_set \<Rightarrow> repo_path btree_set \<Rightarrow> introduced_duplicate list \<Rightarrow> region_inputs" where
  "region_request inputs changed suppressed findings =
     \<lparr> ri_suppressed_paths = suppressed, ri_callable_findings = findings,
       ri_finding_limit = di_finding_limit inputs - length findings, ri_changed_paths = changed,
       ri_continuity = di_continuity inputs, ri_before = di_before inputs, ri_after = di_after inputs,
       ri_file_facts = di_file_facts inputs, ri_fact_keys = di_fact_keys inputs \<rparr>"

definition introduced_duplicates ::
    "crates \<Rightarrow> (bytes \<Rightarrow> bytes option) \<Rightarrow> dedup_inputs \<Rightarrow> dedup_result option" where
  "introduced_duplicates K b64 inputs =
     (if snap_id (di_before inputs) = snap_id (di_after inputs) then Some (identical_snapshot_result b64 inputs)
      else
        (let changed = canonical_changed_paths (di_changed_paths inputs) (di_continuity inputs);
             (findings, suppressed, truncated) = identical_file_findings K
               \<lparr> ifi_before = di_before inputs, ifi_after = di_after inputs, ifi_changed_paths = changed,
                 ifi_continuity = di_continuity inputs, ifi_minimum_bytes = di_minimum_identical_bytes inputs,
                 ifi_finding_limit = di_finding_limit inputs \<rparr>;
             before = callable_view_of (di_before inputs) (di_file_facts inputs) (di_fact_keys inputs) (di_continuity inputs);
             after = callable_view_of (di_after inputs) (di_file_facts inputs) (di_fact_keys inputs) [];
             (callables, callable_truncated) = callable_findings (cv_groups before) (cv_groups after) changed suppressed
               (di_finding_limit inputs - length findings);
             findings = findings @ callables;
             truncated = (truncated \<or> callable_truncated)
         in case region_findings K b64 (region_request inputs changed suppressed findings) of
              None \<Rightarrow> None
            | Some rr \<Rightarrow>
                Some \<lparr> dr_findings = findings @ rr_findings rr,
                       dr_findings_truncated = (truncated \<or> rr_findings_truncated rr),
                       dr_coverage = \<lparr> dc_before = apply_region_coverage (rr_before rr) (cv_coverage before),
                                       dc_after = apply_region_coverage (rr_after rr) (cv_coverage after) \<rparr>,
                       dr_issues =
                         snapshot_limit_issues (di_before inputs) (di_file_facts inputs) (di_fact_keys inputs)
                           [ViewBefore] (rr_malformed_fact_keys rr) @
                         snapshot_limit_issues (di_after inputs) (di_file_facts inputs) (di_fact_keys inputs)
                           [ViewAfter] (rr_malformed_fact_keys rr) @
                         rr_comparison_issues rr \<rparr>))"

end
