(* ===== verification/DedupSound.thy ===== *)
theory DedupSound
  imports Dedup
begin

text \<open>
  Properties of the duplicate search of the theory \<open>Dedup\<close>: both loops report the first groups that
  qualify up to the limit, identical files are reported exactly, every finding is well formed and
  shows a changed place, and no limit that cut the search is silent.
\<close>

section \<open>Reporting up to a limit\<close>

text \<open>What a loop does that skips what does not qualify and stops adding at the limit.\<close>

definition report_upto :: "nat \<Rightarrow> ('a \<Rightarrow> bool) \<Rightarrow> ('a \<Rightarrow> 'b) \<Rightarrow> 'a list \<Rightarrow> 'b list \<times> bool" where
  "report_upto limit qualifies report xs =
     (take limit (map report (filter qualifies xs)), limit < length (filter qualifies xs))"

text \<open>
  The contract of such a loop: it keeps the reports so far, something it observes of every item that
  qualifies, reported or not, and whether the list was cut.
\<close>

locale reporting_loop =
  fixes loop :: "'i list \<Rightarrow> 'd list \<times> 's \<times> bool \<Rightarrow> 'd list \<times> 's \<times> bool"
    and limit :: nat and qualifies :: "'i \<Rightarrow> bool" and report :: "'i \<Rightarrow> 'd" and observe :: "'i \<Rightarrow> 's \<Rightarrow> 's"
  assumes loop_Nil: "loop [] acc = acc"
    and loop_skip: "\<not> qualifies x \<Longrightarrow> loop (x # xs) (ds, s, t) = loop xs (ds, s, t)"
    and loop_full: "qualifies x \<Longrightarrow> limit \<le> length ds \<Longrightarrow> loop (x # xs) (ds, s, t) = loop xs (ds, observe x s, True)"
    and loop_report: "qualifies x \<Longrightarrow> length ds < limit \<Longrightarrow> loop (x # xs) (ds, s, t) = loop xs (ds @ [report x], observe x s, t)"
begin

lemma loop_from:
  assumes "length ds \<le> limit"
  shows "loop xs (ds, s, t) =
    (ds @ fst (report_upto (limit - length ds) qualifies report xs), fold observe (filter qualifies xs) s,
     t \<or> snd (report_upto (limit - length ds) qualifies report xs))"
  using assms
proof (induction xs arbitrary: ds s t)
  case Nil
  then show ?case by (simp add: loop_Nil report_upto_def)
next
  case (Cons x xs)
  consider "\<not> qualifies x" | "qualifies x" "limit \<le> length ds" | "qualifies x" "length ds < limit" by linarith
  then show ?case
  proof cases
    case 1
    with Cons show ?thesis by (simp add: loop_skip report_upto_def)
  next
    case 2
    with Cons show ?thesis by (simp add: loop_full report_upto_def)
  next
    case 3
    then have "limit - length ds = Suc (limit - length (ds @ [report x]))" by simp
    with 3 Cons.IH [of "ds @ [report x]" "observe x s" t] show ?thesis by (simp add: loop_report report_upto_def)
  qed
qed

lemma loop_all:
  "loop xs ([], s, False) =
    (fst (report_upto limit qualifies report xs), fold observe (filter qualifies xs) s, snd (report_upto limit qualifies report xs))"
  by (simp add: loop_from)

end

definition before_callables :: "callable_groups \<Rightarrow> bytes \<Rightarrow> bytes \<Rightarrow> callable_occurrence list" where
  "before_callables before fam digest =
     (case Option.bind (bt_get before fam) (\<lambda>g. bt_get g digest) of None \<Rightarrow> [] | Some os \<Rightarrow> os)"

definition callable_introduced ::
    "callable_groups \<Rightarrow> repo_path btree_set \<Rightarrow> repo_path btree_set \<Rightarrow> bytes \<times> bytes \<times> callable_occurrence list \<Rightarrow> bool" where
  "callable_introduced before changed suppressed = (\<lambda>(fam, digest, after).
     let os = before_callables before fam digest;
         grew = paths_with_growth (path_counts co_path os) (path_counts co_path after)
     in 2 \<le> length after \<and> length os < length after \<and>
        set grew \<inter> set changed \<noteq> {} \<and> \<not> (grew \<noteq> [] \<and> set grew \<subseteq> set suppressed))"

definition callable_report ::
    "callable_groups \<Rightarrow> repo_path btree_set \<Rightarrow> bytes \<times> bytes \<times> callable_occurrence list \<Rightarrow> introduced_duplicate" where
  "callable_report before changed = (\<lambda>(fam, digest, after).
     callable_finding changed fam digest (length (before_callables before fam digest)) after)"

definition callable_steps ::
    "callable_groups \<Rightarrow> repo_path btree_set \<Rightarrow> repo_path btree_set \<Rightarrow> nat \<Rightarrow> (bytes \<times> bytes \<times> callable_occurrence list) list
     \<Rightarrow> introduced_duplicate list \<times> unit \<times> bool \<Rightarrow> introduced_duplicate list \<times> unit \<times> bool" where
  "callable_steps before changed suppressed limit groups = (\<lambda>(findings, _, truncated).
     let (ds, t) = callable_loop before changed suppressed limit groups (findings, truncated) in (ds, (), t))"

lemma callable_loop_step:
  "callable_loop before changed suppressed limit (g # groups) (ds, t) =
    (if \<not> callable_introduced before changed suppressed g then callable_loop before changed suppressed limit groups (ds, t)
     else if limit \<le> length ds then callable_loop before changed suppressed limit groups (ds, True)
     else callable_loop before changed suppressed limit groups (ds @ [callable_report before changed g], t))"
  by (cases g) (auto simp: callable_introduced_def callable_report_def before_callables_def Let_def)

interpretation callables: reporting_loop "callable_steps before changed suppressed limit" limit
    "callable_introduced before changed suppressed" "callable_report before changed" "\<lambda>_ _. ()"
  for before changed suppressed limit
  by unfold_locales (auto simp: callable_steps_def callable_loop_step simp del: callable_loop.simps(2))

lemma callable_findings_eq:
  "callable_findings before after changed suppressed limit =
    report_upto limit (callable_introduced before changed suppressed) (callable_report before changed)
      (concat (map (\<lambda>(fam, g). map (\<lambda>(d, os). (fam, d, os)) g) after))"
proof -
  let ?gs = "concat (map (\<lambda>(fam, g). map (\<lambda>(d, os). (fam, d, os)) g) after)"
  obtain ds t where l: "callable_loop before changed suppressed limit ?gs ([], False) = (ds, t)" by fastforce
  then have "callable_steps before changed suppressed limit ?gs ([], (), False) = (ds, (), t)"
    by (simp only: callable_steps_def prod.case Let_def)
  with callables.loop_all [of before changed suppressed limit ?gs "()"]
  show ?thesis unfolding callable_findings_def l by (auto simp: prod_eq_iff)
qed

definition before_copies :: "(content_id, file_group) btree_map \<Rightarrow> content_id \<Rightarrow> repo_path btree_set" where
  "before_copies before c = (case bt_get before c of None \<Rightarrow> [] | Some g \<Rightarrow> fg_paths g)"

definition introduced_copies :: "(content_id, file_group) btree_map \<Rightarrow> content_id \<times> file_group \<Rightarrow> repo_path btree_set" where
  "introduced_copies before = (\<lambda>(c, g). filter (\<lambda>p. p \<notin> set (before_copies before c)) (fg_paths g))"

definition file_introduced ::
    "(content_id, file_group) btree_map \<Rightarrow> repo_path btree_set \<Rightarrow> content_id \<times> file_group \<Rightarrow> bool" where
  "file_introduced before changed = (\<lambda>(c, g).
     2 \<le> length (fg_paths g) \<and> length (before_copies before c) < length (fg_paths g) \<and>
     set (introduced_copies before (c, g)) \<inter> set changed \<noteq> {})"

definition file_report ::
    "crates \<Rightarrow> (content_id, file_group) btree_map \<Rightarrow> repo_path btree_set \<Rightarrow> content_id \<times> file_group \<Rightarrow> introduced_duplicate" where
  "file_report K before changed = (\<lambda>(c, g). identical_file_finding K changed c (before_copies before c) g)"

lemma identical_file_loop_step:
  "identical_file_loop K inputs before (g # groups) (ds, s, t) =
    (if \<not> file_introduced before (ifi_changed_paths inputs) g then identical_file_loop K inputs before groups (ds, s, t)
     else let s = fold bs_insert (introduced_copies before g) s
          in if ifi_finding_limit inputs \<le> length ds then identical_file_loop K inputs before groups (ds, s, True)
             else identical_file_loop K inputs before groups (ds @ [file_report K before (ifi_changed_paths inputs) g], s, t))"
  by (cases g) (auto simp: file_introduced_def introduced_copies_def before_copies_def file_report_def Let_def)

interpretation files: reporting_loop "identical_file_loop K inputs before" "ifi_finding_limit inputs"
    "file_introduced before (ifi_changed_paths inputs)" "file_report K before (ifi_changed_paths inputs)"
    "\<lambda>g. fold bs_insert (introduced_copies before g)"
  for K inputs before
  by unfold_locales (auto simp: identical_file_loop_step Let_def simp del: identical_file_loop.simps(2))

section \<open>Groups of identical files\<close>

text \<open>The paths that carry some content of at least a minimal size.\<close>

definition copies :: "source_snapshot \<Rightarrow> nat \<Rightarrow> path_continuity \<Rightarrow> content_id \<Rightarrow> repo_path set" where
  "copies s minimum cont c =
     {continued_path cont (sf_path f) | f. f \<in> set (snapshot_file_list s) \<and> minimum \<le> length (sf_bytes f) \<and> sf_content_id f = c}"

definition files_grouped :: "path_continuity \<Rightarrow> source_file list \<Rightarrow> (content_id, file_group) btree_map \<Rightarrow> bool" where
  "files_grouped cont fs groups \<longleftrightarrow> bt_wf groups \<and> set (map fst groups) = sf_content_id ` set fs \<and>
     (\<forall>c. case bt_get groups c of
            None \<Rightarrow> True
          | Some g \<Rightarrow> bs_wf (fg_paths g) \<and>
              set (fg_paths g) = (\<lambda>f. continued_path cont (sf_path f)) ` {f \<in> set fs. sf_content_id f = c})"

lemma bt_dom: "bt_wf m \<Longrightarrow> bt_get m k = None \<longleftrightarrow> k \<notin> set (map fst m)"
  by (simp add: map_of_eq_None_iff)

lemma files_grouped_step:
  assumes "files_grouped cont fs groups"
  shows "files_grouped cont (fs @ [f])
    (bt_entry \<lparr> fg_bytes = n, fg_paths = [] \<rparr> (\<lambda>g. g\<lparr> fg_paths := bs_insert (continued_path cont (sf_path f)) (fg_paths g) \<rparr>)
       (sf_content_id f) groups)"
proof -
  let ?e = "bt_entry \<lparr> fg_bytes = n, fg_paths = [] \<rparr> (\<lambda>g. g\<lparr> fg_paths := bs_insert (continued_path cont (sf_path f)) (fg_paths g) \<rparr>)
    (sf_content_id f) groups"
  note w = assms [unfolded files_grouped_def]
  have wf: "bt_wf groups" "bt_wf ?e" using w by simp_all
  have keys: "set (map fst ?e) = sf_content_id ` set (fs @ [f])"
  proof (rule set_eqI)
    fix k
    have "k \<in> set (map fst ?e) \<longleftrightarrow> k = sf_content_id f \<or> k \<in> set (map fst groups)"
      using bt_dom [OF wf(2), of k] bt_dom [OF wf(1), of k] wf(1) by (auto split: if_splits)
    then show "k \<in> set (map fst ?e) \<longleftrightarrow> k \<in> sf_content_id ` set (fs @ [f])" using w by auto
  qed
  have "case bt_get ?e c of None \<Rightarrow> True
      | Some g \<Rightarrow> bs_wf (fg_paths g) \<and>
          set (fg_paths g) = (\<lambda>f. continued_path cont (sf_path f)) ` {f' \<in> set (fs @ [f]). sf_content_id f' = c}" for c
  proof (cases "c = sf_content_id f")
    case False
    then have same: "{f' \<in> set (fs @ [f]). sf_content_id f' = c} = {f' \<in> set fs. sf_content_id f' = c}" by auto
    show ?thesis unfolding same using False w wf(1) by simp
  next
    case True
    have "{f' \<in> set (fs @ [f]). sf_content_id f' = c} = insert f {f' \<in> set fs. sf_content_id f' = c}" using True by auto
    moreover have "bt_get groups c = None \<Longrightarrow> {f' \<in> set fs. sf_content_id f' = c} = {}"
      using bt_dom [OF wf(1), of c] w by auto
    ultimately show ?thesis using True w [THEN conjunct2, THEN conjunct2, THEN spec, of c] wf(1) by (cases "bt_get groups c") auto
  qed
  with wf(2) keys show ?thesis unfolding files_grouped_def by blast
qed

lemma file_groups_grouped:
  "files_grouped cont (filter (\<lambda>f. minimum \<le> length (sf_bytes f)) (snapshot_file_list s)) (file_groups s minimum cont)"
proof -
  let ?step = "\<lambda>f. bt_entry \<lparr> fg_bytes = length (sf_bytes f), fg_paths = [] \<rparr>
      (\<lambda>g. g\<lparr> fg_paths := bs_insert (continued_path cont (sf_path f)) (fg_paths g) \<rparr>) (sf_content_id f)"
  have "files_grouped cont fs (fold ?step fs [])" for fs
  proof (induction fs rule: rev_induct)
    case Nil
    show ?case by (simp add: files_grouped_def)
  next
    case (snoc f fs)
    from files_grouped_step [OF this, of f "length (sf_bytes f)"] show ?case by simp
  qed
  then show ?thesis unfolding file_groups_def .
qed

lemma file_groups_copies:
  shows "bt_wf (file_groups s minimum cont)"
    and "map fst (file_groups s minimum cont) = bs_collect (map sf_content_id (filter (\<lambda>f. minimum \<le> length (sf_bytes f)) (snapshot_file_list s)))"
    and "set (before_copies (file_groups s minimum cont) c) = copies s minimum cont c"
    and "length (before_copies (file_groups s minimum cont) c) = card (copies s minimum cont c)"
proof -
  let ?g = "file_groups s minimum cont" and ?fs = "filter (\<lambda>f. minimum \<le> length (sf_bytes f)) (snapshot_file_list s)"
  note g = file_groups_grouped [of cont minimum s, unfolded files_grouped_def]
  show wf: "bt_wf ?g" using g by (rule conjunct1)
  show "map fst ?g = bs_collect (map sf_content_id ?fs)" using g by (intro bs_ext) (simp_all add: bs_keys_wf)
  have "bs_wf (before_copies ?g c) \<and> set (before_copies ?g c) = copies s minimum cont c"
  proof (cases "bt_get ?g c")
    case None
    with bt_dom [OF wf, of c] g have "copies s minimum cont c = {}" by (auto simp: copies_def)
    with None show ?thesis by (simp add: before_copies_def)
  next
    case (Some grp)
    with g [THEN conjunct2, THEN conjunct2, THEN spec, of c] show ?thesis by (auto simp: before_copies_def copies_def)
  qed
  then show "set (before_copies ?g c) = copies s minimum cont c" "length (before_copies ?g c) = card (copies s minimum cont c)"
    using distinct_card [of "before_copies ?g c"] by auto
qed

text \<open>The content that the candidate copies further than the baseline, with a changed path among the new ones.\<close>

definition copied :: "identical_file_inputs \<Rightarrow> content_id \<Rightarrow> bool" where
  "copied inputs c \<longleftrightarrow>
     (let after = copies (ifi_after inputs) (ifi_minimum_bytes inputs) [] c;
          before = copies (ifi_before inputs) (ifi_minimum_bytes inputs) (ifi_continuity inputs) c
      in 2 \<le> card after \<and> card before < card after \<and> (after - before) \<inter> set (ifi_changed_paths inputs) \<noteq> {})"

definition copied_contents :: "identical_file_inputs \<Rightarrow> content_id list" where
  "copied_contents inputs =
     filter (copied inputs) (bs_collect (map sf_content_id
       (filter (\<lambda>f. ifi_minimum_bytes inputs \<le> length (sf_bytes f)) (snapshot_file_list (ifi_after inputs)))))"

lemma group_of_content:
  assumes "(c, g) \<in> set (file_groups s minimum cont)"
  shows "fg_paths g = before_copies (file_groups s minimum cont) c"
  using assms file_groups_copies(1) by (simp add: before_copies_def bt_get_in_set [symmetric])

lemma file_introduced_copied:
  assumes "(c, g) \<in> set (file_groups (ifi_after inputs) (ifi_minimum_bytes inputs) [])"
  shows "file_introduced (file_groups (ifi_before inputs) (ifi_minimum_bytes inputs) (ifi_continuity inputs)) (ifi_changed_paths inputs) (c, g)
    \<longleftrightarrow> copied inputs c"
  using group_of_content [OF assms] by (auto simp: file_introduced_def introduced_copies_def copied_def Let_def file_groups_copies(3,4))

lemma copied_groups:
  "map fst (filter (file_introduced (file_groups (ifi_before inputs) (ifi_minimum_bytes inputs) (ifi_continuity inputs)) (ifi_changed_paths inputs))
     (file_groups (ifi_after inputs) (ifi_minimum_bytes inputs) [])) = copied_contents inputs"
proof -
  let ?a = "file_groups (ifi_after inputs) (ifi_minimum_bytes inputs) []"
  have "filter (file_introduced (file_groups (ifi_before inputs) (ifi_minimum_bytes inputs) (ifi_continuity inputs)) (ifi_changed_paths inputs)) ?a =
      filter (copied inputs \<circ> fst) ?a"
    by (rule filter_cong) (auto simp: file_introduced_copied)
  then show ?thesis
    by (simp add: filter_map [symmetric] file_groups_copies(2) copied_contents_def)
qed

lemma set_fold_fold_insert:
  fixes s :: "'b::linorder btree_set"
  shows "set (fold (\<lambda>g. fold bs_insert (f g)) gs s) = (\<Union>g\<in>set gs. set (f g)) \<union> set s"
proof -
  have "set (fold bs_insert xs t) = set xs \<union> set t" for xs and t :: "'b::linorder btree_set" by (induction xs arbitrary: t) auto
  then show ?thesis by (induction gs arbitrary: s) auto
qed

text \<open>
  C19. Identical files are found exactly. The reported contents are, in order and up to the limit, those
  that at least two candidate paths carry, more than in the baseline and at some changed path that
  did not carry it; the counts are the numbers of such paths, renames counted under their new path;
  the list is marked as cut exactly when it was; and exactly the new paths of such contents are
  suppressed from the later searches.
\<close>

theorem identical_files_exact:
  "case identical_file_findings K inputs of (findings, suppressed, truncated) \<Rightarrow>
     map (\<lambda>d. (idup_class_id d, idup_before_count d, idup_after_count d)) findings =
       map (\<lambda>c. (''file-'' @ short_id (hex_encode K c),
                 card (copies (ifi_before inputs) (ifi_minimum_bytes inputs) (ifi_continuity inputs) c),
                 card (copies (ifi_after inputs) (ifi_minimum_bytes inputs) [] c)))
           (take (ifi_finding_limit inputs) (copied_contents inputs)) \<and>
     set suppressed = (\<Union>c\<in>set (copied_contents inputs).
       copies (ifi_after inputs) (ifi_minimum_bytes inputs) [] c -
       copies (ifi_before inputs) (ifi_minimum_bytes inputs) (ifi_continuity inputs) c) \<and>
     (truncated \<longleftrightarrow> ifi_finding_limit inputs < length (copied_contents inputs))"
proof -
  let ?b = "file_groups (ifi_before inputs) (ifi_minimum_bytes inputs) (ifi_continuity inputs)"
  let ?a = "file_groups (ifi_after inputs) (ifi_minimum_bytes inputs) []"
  let ?q = "file_introduced ?b (ifi_changed_paths inputs)"
  have g: "fg_paths (snd e) = before_copies ?a (fst e)" if "e \<in> set (filter ?q ?a)" for e
    using group_of_content [of "fst e" "snd e"] that by simp
  have "map ((\<lambda>d. (idup_class_id d, idup_before_count d, idup_after_count d)) \<circ> file_report K ?b (ifi_changed_paths inputs)) (filter ?q ?a) =
      map ((\<lambda>c. (''file-'' @ short_id (hex_encode K c), length (before_copies ?b c), length (before_copies ?a c))) \<circ> fst) (filter ?q ?a)"
    using g by (intro map_cong) (auto simp: file_report_def identical_file_finding_def split_def Let_def)
  also have "\<dots> = map (\<lambda>c. (''file-'' @ short_id (hex_encode K c), length (before_copies ?b c), length (before_copies ?a c))) (copied_contents inputs)"
    unfolding copied_groups [symmetric] by simp
  finally have findings: "map (\<lambda>d. (idup_class_id d, idup_before_count d, idup_after_count d))
      (take (ifi_finding_limit inputs) (map (file_report K ?b (ifi_changed_paths inputs)) (filter ?q ?a))) =
      map (\<lambda>c. (''file-'' @ short_id (hex_encode K c), length (before_copies ?b c), length (before_copies ?a c)))
        (take (ifi_finding_limit inputs) (copied_contents inputs))"
    by (simp add: take_map [symmetric])
  have "(\<Union>e\<in>set (filter ?q ?a). set (introduced_copies ?b e)) = (\<Union>c\<in>fst ` set (filter ?q ?a). set (before_copies ?a c) - set (before_copies ?b c))"
    using g by (force simp: introduced_copies_def split_def)
  also have "fst ` set (filter ?q ?a) = set (copied_contents inputs)" unfolding copied_groups [symmetric] by simp
  finally have "(\<Union>e\<in>set (filter ?q ?a). set (introduced_copies ?b e)) =
      (\<Union>c\<in>set (copied_contents inputs). set (before_copies ?a c) - set (before_copies ?b c))" .
  moreover have "length (filter ?q ?a) = length (copied_contents inputs)" unfolding copied_groups [symmetric] by simp
  ultimately show ?thesis
    using findings files.loop_all [of K inputs ?b ?a "[]"]
    by (simp add: identical_file_findings_def report_upto_def set_fold_fold_insert file_groups_copies(3,4))
qed

section \<open>Well-formed findings\<close>

text \<open>
  A finding counts at least two places, more than the baseline had; its sample of places is cut only
  beyond the limit, says so, and starts with a changed place.
\<close>

definition wf_finding :: "introduced_duplicate \<Rightarrow> bool" where
  "wf_finding d \<longleftrightarrow>
     2 \<le> idup_after_count d \<and> idup_before_count d < idup_after_count d \<and>
     idup_introduced_count d = idup_after_count d - idup_before_count d \<and>
     length (idup_occurrences d) = min (idup_after_count d) MAX_OBSERVATION_PATHS \<and>
     (idup_occurrences_truncated d \<longleftrightarrow> MAX_OBSERVATION_PATHS < idup_after_count d) \<and>
     dup_changed (hd (idup_occurrences d))"

lemma sort_key_hd_least:
  fixes k :: "'a \<Rightarrow> bool \<times> 'b::linorder"
  assumes "x \<in> set xs" and "\<not> fst (k x)"
  shows "\<not> fst (k (hd (sort_key k xs)))"
proof -
  have "x \<in> set (sort_key k xs)" using assms(1) by simp
  moreover from this obtain y ys where ys: "sort_key k xs = y # ys" by (cases "sort_key k xs") auto
  moreover have "sorted (map k (y # ys))" unfolding ys [symmetric] by simp
  ultimately have "k (hd (sort_key k xs)) \<le> k x" by auto
  with assms(2) show ?thesis by (cases "k (hd (sort_key k xs))"; cases "k x") auto
qed

lemma shown_occurrences:
  fixes rest :: "duplicate_occurrence \<Rightarrow> 'b::linorder"
  assumes "\<exists>d\<in>set xs. dup_changed d"
    and "bound_occurrences (sort_key (\<lambda>d. (\<not> dup_changed d, rest d)) xs) = (os, truncated)"
  shows "length os = min (length xs) MAX_OBSERVATION_PATHS \<and> (truncated \<longleftrightarrow> MAX_OBSERVATION_PATHS < length xs) \<and> dup_changed (hd os)"
proof -
  have os: "os = take MAX_OBSERVATION_PATHS (sort_key (\<lambda>d. (\<not> dup_changed d, rest d)) xs)" "truncated \<longleftrightarrow> MAX_OBSERVATION_PATHS < length xs"
    using assms(2) by (simp_all add: bound_occurrences_def)
  have "hd os = hd (sort_key (\<lambda>d. (\<not> dup_changed d, rest d)) xs)" unfolding os by (simp add: MAX_OBSERVATION_PATHS_def)
  with assms(1) sort_key_hd_least [of _ xs "\<lambda>d. (\<not> dup_changed d, rest d)"] os show ?thesis by auto
qed

lemma grown_path_occurs: "occurrences_at path xs p < occurrences_at path ys p \<Longrightarrow> \<exists>y\<in>set ys. path y = p"
  by (rule ccontr) (simp add: occurrences_at_def)

lemma file_report_wf:
  assumes "file_introduced before changed e"
  shows "wf_finding (file_report K before changed e)"
proof -
  obtain c g where e: "e = (c, g)" by (cases e)
  let ?mk = "\<lambda>p. \<lparr> dup_path = p, dup_range = None, dup_callable_kind = None, dup_changed = (p \<in> set changed) \<rparr>"
  obtain os t where os: "bound_occurrences (sort_key (\<lambda>d. (\<not> dup_changed d, dup_path d)) (map ?mk (fg_paths g))) = (os, t)" by fastforce
  have "\<exists>d\<in>set (map ?mk (fg_paths g)). dup_changed d"
    using assms by (auto simp: e file_introduced_def introduced_copies_def)
  from shown_occurrences [OF this os] assms show ?thesis
    by (simp add: e file_report_def identical_file_finding_def os wf_finding_def file_introduced_def)
qed

lemma callable_report_wf:
  assumes "callable_introduced before changed suppressed e"
  shows "wf_finding (callable_report before changed e)"
proof -
  obtain fam digest after where e: "e = (fam, digest, after)" by (cases e) auto
  let ?mk = "\<lambda>x. \<lparr> dup_path = co_path x, dup_range = Some (co_range x), dup_callable_kind = Some (co_kind x),
    dup_changed = (co_path x \<in> set changed) \<rparr>"
  obtain os t where os: "bound_occurrences (sort_key (\<lambda>d. (\<not> dup_changed d, dup_path d, dup_range d, dup_callable_kind d)) (map ?mk after)) = (os, t)"
    by fastforce
  from assms obtain p where p: "p \<in> set changed" "p \<in> set (paths_with_growth (path_counts co_path (before_callables before fam digest)) (path_counts co_path after))"
    by (auto simp: e callable_introduced_def Let_def)
  from grown_path_occurs [OF grown_path [OF p(2)]] p(1) have "\<exists>d\<in>set (map ?mk after). dup_changed d" by auto
  from shown_occurrences [OF this os] assms show ?thesis
    by (simp add: e callable_report_def callable_finding_def os wf_finding_def callable_introduced_def Let_def)
qed

lemma region_finding_wf:
  assumes "genuine_finding cx d"
  shows "wf_finding d"
proof -
  from assms obtain c where d: "d = into_finding c" "genuine_class cx c" unfolding genuine_finding_def by blast
  from d(2) obtain ts and before :: "exact_occurrence list" where
    c: "genuine_occurrences (ex_after cx) ts (ri_changed_paths (ex_inputs cx)) (ec_after_occurrences c)"
    "2 \<le> length (ec_after_occurrences c)" "length before < length (ec_after_occurrences c)" "ec_before_count c = length before"
    "ec_introduced_count c = length (ec_after_occurrences c) - length before"
    "\<exists>p\<in>set (ri_changed_paths (ex_inputs cx)). occurrences_at eo_path before p < occurrences_at eo_path (ec_after_occurrences c) p"
    unfolding genuine_class_def by blast
  from c(6) obtain x where "x \<in> set (ec_after_occurrences c)" "eo_path x \<in> set (ri_changed_paths (ex_inputs cx))"
    using grown_path_occurs [of eo_path before _ "ec_after_occurrences c"] by blast
  with c(1) have "\<exists>d\<in>set (map duplicate_of (ec_after_occurrences c)). dup_changed d"
    by (auto simp: genuine_occurrences_def all_genuine_def duplicate_of_def)
  moreover obtain os t where os: "bound_occurrences (sort_key (\<lambda>d. (\<not> dup_changed d, dup_path d, dup_range d))
      (map duplicate_of (ec_after_occurrences c))) = (os, t)" by fastforce
  ultimately have "length os = min (length (ec_after_occurrences c)) MAX_OBSERVATION_PATHS \<and>
      (t \<longleftrightarrow> MAX_OBSERVATION_PATHS < length (ec_after_occurrences c)) \<and> dup_changed (hd os)"
    using shown_occurrences [OF _ os] by simp
  with c(2-5) show ?thesis by (simp add: d(1) into_finding_def os wf_finding_def)
qed

lemma report_upto_all:
  assumes "report_upto limit q r xs = (new, t)" and "\<And>x. q x \<Longrightarrow> P (r x)"
  shows "length new \<le> limit \<and> list_all P new"
  using assms by (auto simp: report_upto_def list_all_iff dest!: in_set_takeD)

lemma region_findings_within:
  obtains rr where "region_findings K b64 inputs = Some rr" and "length (rr_findings rr) \<le> ri_finding_limit inputs"
    and "list_all wf_finding (rr_findings rr)"
proof (rule region_findings_Some [of K b64 inputs], goal_cases)
  case (1 rr es)
  have "ex_inputs (region_context b64 inputs) = inputs" by (simp add: region_context_def split_def Let_def)
  with 1 region_finding_wf that show ?case by (auto simp: es_inv_def list_all_iff)
qed

text \<open>The search of two different snapshots, with what its parts return.\<close>

lemma introduced_duplicates_parts:
  assumes "snap_id (di_before inputs) \<noteq> snap_id (di_after inputs)"
  obtains fs cs rr t changed suppressed where
    "region_findings K b64 (region_request inputs changed suppressed (fs @ cs)) = Some rr"
    and "length fs \<le> di_finding_limit inputs" and "list_all wf_finding fs"
    and "length cs \<le> di_finding_limit inputs - length fs" and "list_all wf_finding cs"
    and "length (rr_findings rr) \<le> di_finding_limit inputs - length (fs @ cs)" and "list_all wf_finding (rr_findings rr)"
    and "introduced_duplicates K b64 inputs = Some
      \<lparr> dr_findings = (fs @ cs) @ rr_findings rr, dr_findings_truncated = t,
        dr_coverage =
          \<lparr> dc_before = apply_region_coverage (rr_before rr) (cv_coverage (callable_view_of (di_before inputs) (di_file_facts inputs) (di_fact_keys inputs) (di_continuity inputs))),
            dc_after = apply_region_coverage (rr_after rr) (cv_coverage (callable_view_of (di_after inputs) (di_file_facts inputs) (di_fact_keys inputs) [])) \<rparr>,
        dr_issues = snapshot_limit_issues (di_before inputs) (di_file_facts inputs) (di_fact_keys inputs) [ViewBefore] (rr_malformed_fact_keys rr) @
          snapshot_limit_issues (di_after inputs) (di_file_facts inputs) (di_fact_keys inputs) [ViewAfter] (rr_malformed_fact_keys rr) @
          rr_comparison_issues rr \<rparr>"
proof -
  define changed where "changed = canonical_changed_paths (di_changed_paths inputs) (di_continuity inputs)"
  define ifi where "ifi = \<lparr> ifi_before = di_before inputs, ifi_after = di_after inputs, ifi_changed_paths = changed,
    ifi_continuity = di_continuity inputs, ifi_minimum_bytes = di_minimum_identical_bytes inputs,
    ifi_finding_limit = di_finding_limit inputs \<rparr>"
  obtain fs suppressed t where f: "identical_file_findings K ifi = (fs, suppressed, t)" by (cases "identical_file_findings K ifi") auto
  define before where "before = callable_view_of (di_before inputs) (di_file_facts inputs) (di_fact_keys inputs) (di_continuity inputs)"
  define after where "after = callable_view_of (di_after inputs) (di_file_facts inputs) (di_fact_keys inputs) []"
  obtain cs t' where c: "callable_findings (cv_groups before) (cv_groups after) changed suppressed (di_finding_limit inputs - length fs) = (cs, t')"
    by fastforce
  obtain rr where rr: "region_findings K b64 (region_request inputs changed suppressed (fs @ cs)) = Some rr"
    "length (rr_findings rr) \<le> di_finding_limit inputs - length (fs @ cs)" "list_all wf_finding (rr_findings rr)"
    by (rule region_findings_within [of K b64 "region_request inputs changed suppressed (fs @ cs)"]) (simp add: region_request_def)
  have 1: "length fs \<le> di_finding_limit inputs \<and> list_all wf_finding fs"
  proof (rule report_upto_all)
    let ?b = "file_groups (ifi_before ifi) (ifi_minimum_bytes ifi) (ifi_continuity ifi)"
    show "report_upto (di_finding_limit inputs) (file_introduced ?b changed) (file_report K ?b changed)
        (file_groups (ifi_after ifi) (ifi_minimum_bytes ifi) []) = (fs, t)"
      using f files.loop_all [of K ifi ?b "file_groups (ifi_after ifi) (ifi_minimum_bytes ifi) []" "[]"]
      by (auto simp: identical_file_findings_def ifi_def report_upto_def)
  qed (rule file_report_wf)
  have 2: "length cs \<le> di_finding_limit inputs - length fs \<and> list_all wf_finding cs"
    using report_upto_all [OF c [unfolded callable_findings_eq], of wf_finding] callable_report_wf by blast
  from assms f c rr(1) show ?thesis
    by (intro that [OF rr(1) conjunct1 [OF 1] conjunct2 [OF 1] conjunct1 [OF 2] conjunct2 [OF 2] rr(2,3)])
      (simp add: introduced_duplicates_def changed_def [symmetric] ifi_def [symmetric] before_def [symmetric] after_def [symmetric])
qed

text \<open>
  C18. The duplicate search always returns, with at most as many findings as allowed over all three
  kinds together, and every finding is well formed: at least two places, more than before, counts that
  add up, and a bounded sample of places that says when it was cut and begins with a changed one.
\<close>

theorem duplicate_findings_wf:
  "\<exists>r. introduced_duplicates K b64 inputs = Some r \<and> length (dr_findings r) \<le> di_finding_limit inputs \<and>
     list_all wf_finding (dr_findings r)"
proof (cases "snap_id (di_before inputs) = snap_id (di_after inputs)")
  case True
  then show ?thesis by (simp add: introduced_duplicates_def identical_snapshot_result_def split_def Let_def)
next
  case False
  show ?thesis
    by (rule introduced_duplicates_parts [OF False, of K b64]) simp
qed

end
