(* ===== verification/DedupGaps.thy ===== *)
theory DedupGaps
  imports DedupSound
begin

text \<open>
  What the duplicate search leaves out it reports. The coverage that the callable view counts one
  by one is the coverage computed for identical snapshots; the limits observed for the issues are in
  step with the limits that cut the views; so each gap in the coverage of a snapshot has an issue
  that names the snapshot.
\<close>

section \<open>Coverage of callables\<close>

definition callables_within :: "fingerprint_coverage \<Rightarrow> bool" where
  "callables_within c \<longleftrightarrow> fpc_callable_occurrences c \<le> MAX_CALLABLE_FINGERPRINTS_PER_REQUEST"

lemma callable_limit_fits: "MAX_CALLABLE_FINGERPRINTS_PER_REQUEST \<le> usize_max"
  by (simp add: MAX_CALLABLE_FINGERPRINTS_PER_REQUEST_def usize_max_def)

text \<open>Callables counted at once.\<close>

definition count_callables :: "nat \<Rightarrow> fingerprint_coverage \<Rightarrow> fingerprint_coverage" where
  "count_callables n c =
     c\<lparr> fpc_callable_occurrences := fpc_callable_occurrences c + min n (MAX_CALLABLE_FINGERPRINTS_PER_REQUEST - fpc_callable_occurrences c),
        fpc_request_truncated := (fpc_request_truncated c \<or> n > MAX_CALLABLE_FINGERPRINTS_PER_REQUEST - fpc_callable_occurrences c) \<rparr>"

lemma count_callables_within: "callables_within c \<Longrightarrow> callables_within (count_callables n c)"
  by (simp add: callables_within_def count_callables_def)

lemma fold_add_callable:
  assumes "callables_within (cv_coverage view)"
  shows "cv_coverage (fold (add_callable fam path) cs view) = count_callables (length cs) (cv_coverage view)"
  using assms
proof (induction cs arbitrary: view)
  case Nil
  then show ?case by (simp add: count_callables_def)
next
  case (Cons c cs)
  let ?M = MAX_CALLABLE_FINGERPRINTS_PER_REQUEST
  have one: "cv_coverage (add_callable fam path c view) = count_callables 1 (cv_coverage view)"
    using Cons.prems callable_limit_fits
    by (auto simp: add_callable_def count_callables_def callables_within_def sat_add_exact)
  have two: "count_callables (length cs) (count_callables 1 k) = count_callables (length (c # cs)) k" if "callables_within k" for k
    using that by (intro fingerprint_coverage.equality) (auto simp: count_callables_def callables_within_def min_def)
  show ?case using Cons.IH [of "add_callable fam path c view"] count_callables_within [OF Cons.prems, of 1] two [OF Cons.prems] one by simp
qed

lemma record_status_callables [simp]:
  "fpc_callable_occurrences (record_fingerprint_status ff c) = fpc_callable_occurrences c"
  "fpc_request_truncated (record_fingerprint_status ff c) = fpc_request_truncated c"
  by (simp_all add: record_fingerprint_status_def Let_def split: fingerprint_extraction_status.split)

lemma record_non_region_coverage_eq:
  assumes "callables_within c"
  shows "record_non_region_coverage ff c =
    (if cff_status (ff_callable_fingerprints ff) \<noteq> FComplete
        \<or> length (cff_callables (ff_callable_fingerprints ff)) > MAX_CALLABLE_FINGERPRINTS_PER_FILE
     then record_fingerprint_status ff c
     else count_callables (length (cff_callables (ff_callable_fingerprints ff))) (record_fingerprint_status ff c))"
proof -
  have "fpc_callable_occurrences c + min n (MAX_CALLABLE_FINGERPRINTS_PER_REQUEST - fpc_callable_occurrences c) \<le> usize_max" for n
    using assms callable_limit_fits by (simp add: callables_within_def)
  then show ?thesis by (simp add: record_non_region_coverage_def count_callables_def Let_def sat_add_exact)
qed

lemma cover_file_within: "callables_within c \<Longrightarrow> callables_within (cover_file facts keys f c)"
proof (cases "lookup_file_facts f facts keys")
  case (Some ff)
  assume c: "callables_within c"
  then have "callables_within (c\<lparr> fpc_files := n \<rparr>)" for n by (simp add: callables_within_def)
  then have "callables_within (record_non_region_coverage ff (c\<lparr> fpc_files := n \<rparr>))" for n
    by (auto simp: record_non_region_coverage_eq intro!: count_callables_within) (simp_all add: callables_within_def)
  with Some show ?thesis by (simp add: cover_file_def Let_def)
qed (simp add: cover_file_def callables_within_def Let_def)

lemma callable_view_file_coverage:
  assumes "callables_within (cv_coverage view)"
  shows "cv_coverage (callable_view_file facts keys cont f view) = cover_file facts keys f (cv_coverage view)"
proof (cases "lookup_file_facts f facts keys")
  case None
  then show ?thesis by (simp add: callable_view_file_def cover_file_def Let_def)
next
  case (Some ff)
  let ?c = "(cv_coverage view)\<lparr> fpc_files := sat_add (fpc_files (cv_coverage view)) 1 \<rparr>"
  have w: "callables_within ?c" "callables_within (record_fingerprint_status ff ?c)"
    using assms by (simp_all add: callables_within_def)
  have none: "count_callables 0 k = k" for k by (simp add: count_callables_def)
  from Some show ?thesis
    using fold_add_callable [of "view\<lparr> cv_coverage := record_fingerprint_status ff ?c \<rparr>"] w none
    by (simp add: callable_view_file_def cover_file_def record_non_region_coverage_eq Let_def)
qed

lemma callable_view_coverage:
  "cv_coverage (callable_view_of snapshot facts keys cont) = fingerprint_coverage_of snapshot facts keys"
proof -
  have "callables_within (cv_coverage view) \<Longrightarrow>
      cv_coverage (fold (callable_view_file facts keys cont) fs view) = fold (cover_file facts keys) fs (cv_coverage view)" for fs view
    by (induction fs arbitrary: view) (simp_all add: callable_view_file_coverage cover_file_within)
  then show ?thesis
    by (simp add: callable_view_of_def fingerprint_coverage_of_def Let_def callables_within_def default_fingerprint_coverage_def)
qed

section \<open>Limits in step with the coverage\<close>

definition file_limits :: "snapshot_limit_state \<Rightarrow> bool" where
  "file_limits st \<longleftrightarrow> 0 < ap_count (ls_callable_files st) \<or> 0 < ap_count (ls_region_files st)"

definition in_step :: "fingerprint_coverage \<Rightarrow> snapshot_limit_state \<Rightarrow> bool" where
  "in_step c st \<longleftrightarrow> callables_within c \<and> ls_callables st = fpc_callable_occurrences c \<and>
     (fpc_request_truncated c \<longrightarrow> 0 < ap_count (ls_callable_request st)) \<and> (0 < fpc_truncated_files c \<longrightarrow> file_limits st)"

lemma affected_push_count [simp]: "0 < ap_count (affected_push p a)"
  by (simp add: affected_push_def sat_add_def usize_max_def)

lemma status_max_truncated:
  "max a b = FTruncated \<Longrightarrow> a = FTruncated \<or> b = (FTruncated :: fingerprint_extraction_status)"
  by (auto simp: max_def split: if_splits)

lemma record_status_truncated:
  assumes "0 < fpc_truncated_files (record_fingerprint_status ff c)"
  shows "0 < fpc_truncated_files c \<or> cff_status (ff_callable_fingerprints ff) = FTruncated \<or> rff_status (ff_region_fingerprints ff) = FTruncated \<or>
    length (cff_callables (ff_callable_fingerprints ff)) > MAX_CALLABLE_FINGERPRINTS_PER_FILE \<or>
    length (rff_anchors (ff_region_fingerprints ff)) > MAX_REGION_FINGERPRINTS_PER_FILE"
  using assms status_max_truncated
  by (fastforce simp: record_fingerprint_status_def Let_def split: fingerprint_extraction_status.splits if_splits)

text \<open>What observing a file does to each part of the limit state.\<close>

lemma observe_callable_parts:
  "ls_regions (observe_callable_limits p ff st) = ls_regions st"
  "ls_region_request (observe_callable_limits p ff st) = ls_region_request st"
  "ls_region_files (observe_callable_limits p ff st) = ls_region_files st"
  by (simp_all add: observe_callable_limits_def Let_def)

lemma observe_region_parts:
  "ls_callables (observe_region_limits p ff m st) = ls_callables st"
  "ls_callable_request (observe_region_limits p ff m st) = ls_callable_request st"
  "ls_callable_files (observe_region_limits p ff m st) = ls_callable_files st"
  by (simp_all add: observe_region_limits_def Let_def split: prod.split)

lemma observe_callable_files:
  "0 < ap_count (ls_callable_files st) \<or> cff_status (ff_callable_fingerprints ff) = FTruncated \<or>
     length (cff_callables (ff_callable_fingerprints ff)) > MAX_CALLABLE_FINGERPRINTS_PER_FILE \<Longrightarrow>
   0 < ap_count (ls_callable_files (observe_callable_limits p ff st))"
  by (auto simp: observe_callable_limits_def Let_def)

lemma observe_region_files:
  "0 < ap_count (ls_region_files st) \<or> rff_status (ff_region_fingerprints ff) = FTruncated \<or>
     length (rff_anchors (ff_region_fingerprints ff)) > MAX_REGION_FINGERPRINTS_PER_FILE \<Longrightarrow>
   0 < ap_count (ls_region_files (observe_region_limits p ff m st))"
  by (auto simp: observe_region_limits_def Let_def split: prod.split)

lemma observe_callable_request:
  assumes "cff_status (ff_callable_fingerprints ff) = FComplete"
    and "length (cff_callables (ff_callable_fingerprints ff)) \<le> MAX_CALLABLE_FINGERPRINTS_PER_FILE"
    and "in_step c st"
  shows "ls_callables (observe_callable_limits p ff st) = fpc_callable_occurrences (count_callables (length (cff_callables (ff_callable_fingerprints ff))) c)"
    and "fpc_request_truncated (count_callables (length (cff_callables (ff_callable_fingerprints ff))) c) \<longrightarrow>
      0 < ap_count (ls_callable_request (observe_callable_limits p ff st))"
  using assms callable_limit_fits
  by (auto simp: observe_callable_limits_def count_callables_def in_step_def callables_within_def Let_def sat_add_exact)

lemma observe_callable_skipped:
  assumes "cff_status (ff_callable_fingerprints ff) \<noteq> FComplete \<or>
    length (cff_callables (ff_callable_fingerprints ff)) > MAX_CALLABLE_FINGERPRINTS_PER_FILE"
  shows "ls_callables (observe_callable_limits p ff st) = ls_callables st"
    and "ls_callable_request (observe_callable_limits p ff st) = ls_callable_request st"
  using assms by (auto simp: observe_callable_limits_def Let_def)

lemma in_step_file:
  assumes "in_step c st"
  shows "in_step (cover_file facts keys f c) (observe_file_limits facts keys malformed f st)"
proof (cases "lookup_file_fact f facts keys")
  case None
  with assms show ?thesis
    by (simp add: cover_file_def observe_file_limits_def lookup_file_facts_def in_step_def callables_within_def Let_def)
next
  case (Some kf)
  obtain k ff where kf: "kf = (k, ff)" by fastforce
  let ?c = "c\<lparr> fpc_files := sat_add (fpc_files c) 1 \<rparr>"
  let ?r = "record_fingerprint_status ff ?c" and ?n = "length (cff_callables (ff_callable_fingerprints ff))"
  let ?st = "observe_callable_limits (sf_path f) ff st"
  let ?skip = "cff_status (ff_callable_fingerprints ff) \<noteq> FComplete \<or> ?n > MAX_CALLABLE_FINGERPRINTS_PER_FILE"
  have w: "callables_within ?c" "callables_within ?r" and r: "in_step (?r\<lparr> fpc_truncated_files := 0 \<rparr>) st"
    using assms by (simp_all add: in_step_def callables_within_def)
  have cover: "cover_file facts keys f c = (if ?skip then ?r else count_callables ?n ?r)"
    using Some kf record_non_region_coverage_eq [OF w(1)] by (simp add: cover_file_def lookup_file_facts_def Let_def)
  have "fpc_truncated_files (cover_file facts keys f c) = fpc_truncated_files ?r"
    unfolding cover by (simp add: count_callables_def)
  moreover have "file_limits (observe_region_limits (sf_path f) ff m ?st)" if "0 < fpc_truncated_files ?r" for m
    using record_status_truncated [OF that] assms observe_callable_files [of st ff "sf_path f"]
      observe_region_files [of ?st ff "sf_path f" m]
    unfolding file_limits_def observe_region_parts in_step_def observe_callable_parts by auto
  ultimately have files: "0 < fpc_truncated_files (cover_file facts keys f c) \<longrightarrow> file_limits (observe_region_limits (sf_path f) ff m ?st)" for m
    by simp
  have same: "fpc_callable_occurrences (count_callables ?n (?r\<lparr> fpc_truncated_files := 0 \<rparr>)) = fpc_callable_occurrences (count_callables ?n ?r)"
    "fpc_request_truncated (count_callables ?n (?r\<lparr> fpc_truncated_files := 0 \<rparr>)) = fpc_request_truncated (count_callables ?n ?r)"
    by (simp_all add: count_callables_def)
  have calls: "ls_callables ?st = fpc_callable_occurrences (cover_file facts keys f c) \<and>
      (fpc_request_truncated (cover_file facts keys f c) \<longrightarrow> 0 < ap_count (ls_callable_request ?st))"
  proof (cases ?skip)
    case True
    with assms observe_callable_skipped [OF True] show ?thesis unfolding cover by (simp add: in_step_def)
  next
    case False
    then show ?thesis
      using observe_callable_request [OF _ _ r, of ff "sf_path f"] same unfolding cover by simp
  qed
  have within: "callables_within c" using assms unfolding in_step_def by (rule conjunct1)
  have "observe_file_limits facts keys malformed f st = observe_region_limits (sf_path f) ff (k \<in> set malformed) ?st"
    using Some kf by (simp add: observe_file_limits_def)
  then show ?thesis
    using cover_file_within [OF within] files calls unfolding in_step_def by (simp add: observe_region_parts)
qed

lemma in_step_snapshot:
  "in_step (fingerprint_coverage_of snapshot facts keys)
     (fold (observe_file_limits facts keys malformed) (snapshot_file_list snapshot) default_snapshot_limit_state)"
proof -
  have "in_step c st \<Longrightarrow> in_step (fold (cover_file facts keys) fs c) (fold (observe_file_limits facts keys malformed) fs st)" for fs c st
    by (induction fs arbitrary: c st) (simp_all add: in_step_file)
  moreover have "in_step default_fingerprint_coverage default_snapshot_limit_state"
    by (simp add: in_step_def callables_within_def default_fingerprint_coverage_def default_snapshot_limit_state_def)
  ultimately show ?thesis unfolding fingerprint_coverage_of_def by blast
qed

section \<open>Limits in step with the views\<close>

text \<open>The keys of the evidence that does not decode.\<close>

definition knows_malformed ::
    "(bytes \<Rightarrow> bytes option) \<Rightarrow> fact_map \<Rightarrow> fact_key_lookup \<Rightarrow> source_file list \<Rightarrow> file_fact_key btree_set \<Rightarrow> bool" where
  "knows_malformed b64 facts keys fs malformed \<longleftrightarrow>
     (\<forall>f\<in>set fs. \<forall>k ff. lookup_file_fact f facts keys = Some (k, ff) \<and> rff_status (ff_region_fingerprints ff) = FComplete \<longrightarrow>
        (k \<in> set malformed \<longleftrightarrow> decode_evidence b64 f (ff_region_fingerprints ff) = None))"

definition regions_in_step :: "region_view \<Rightarrow> snapshot_limit_state \<Rightarrow> bool" where
  "regions_in_step view st \<longleftrightarrow> rv_retained_anchors view = ls_regions st \<and>
     (rv_request_truncated view \<longrightarrow> 0 < ap_count (ls_region_request st) \<or> file_limits st)"

lemma regions_in_step_callables: "regions_in_step view st \<Longrightarrow> regions_in_step view (observe_callable_limits p ff st)"
  using observe_callable_files [of st ff p]
  unfolding regions_in_step_def file_limits_def observe_callable_parts by auto

lemma file_limits_regions: "file_limits st \<Longrightarrow> file_limits (observe_region_limits p ff m st)"
  using observe_region_files [of st ff p m] unfolding file_limits_def observe_region_parts by auto

lemma regions_in_step_skipped:
  assumes "regions_in_step view st" and "rv_retained_anchors view' = rv_retained_anchors view"
    and "rv_request_truncated view' = rv_request_truncated view"
    and "m \<or> rff_status (ff_region_fingerprints ff) \<noteq> FComplete"
  shows "regions_in_step view' (observe_region_limits p ff m st)"
proof -
  have "ls_regions (observe_region_limits p ff m st) = ls_regions st"
    "ls_region_request (observe_region_limits p ff m st) = ls_region_request st"
    using assms(4) by (auto simp: observe_region_limits_def Let_def)
  with assms(1-3) file_limits_regions show ?thesis unfolding regions_in_step_def by metis
qed

lemma regions_in_step_file:
  assumes "keys_agree facts keys F" and "cache_ok b64 facts keys F de" and "f \<in> F"
    and "view_add_file b64 facts keys cont f (view, de) = (view', de')"
    and "knows_malformed b64 facts keys [f] malformed" and "regions_in_step view st"
  shows "regions_in_step view' (observe_file_limits facts keys malformed f st)"
proof (cases "lookup_file_fact f facts keys")
  case None
  then have "region_facts facts keys f = None" by (simp add: region_facts_def)
  with view_add_file_spec [OF assms(1-4)] None assms(6) show ?thesis by (simp add: observe_file_limits_def)
next
  case (Some kf)
  obtain k ff where kf: "kf = (k, ff)" by fastforce
  let ?rf = "ff_region_fingerprints ff" and ?st = "observe_callable_limits (sf_path f) ff st"
  let ?n = "length (rff_anchors ?rf)"
  note spec = view_add_file_spec [OF assms(1-4)] and st = regions_in_step_callables [OF assms(6), of "sf_path f" ff]
  have o: "observe_file_limits facts keys malformed f st = observe_region_limits (sf_path f) ff (k \<in> set malformed) ?st"
    using Some kf by (simp add: observe_file_limits_def)
  show ?thesis
  proof (cases "rff_status ?rf = FComplete")
    case False
    then have "region_facts facts keys f = None" using Some kf by (simp add: region_facts_def)
    with spec have "view' = view" by simp
    with False st show ?thesis unfolding o by (intro regions_in_step_skipped [of view]) simp_all
  next
    case True
    then have rf: "region_facts facts keys f = Some ?rf" using Some kf by (simp add: region_facts_def)
    have mal: "k \<in> set malformed \<longleftrightarrow> decode_evidence b64 f ?rf = None"
      using assms(5) Some kf True by (simp add: knows_malformed_def)
    show ?thesis
    proof (cases "decode_evidence b64 f ?rf")
      case None
      with spec rf mal st show ?thesis unfolding o by (intro regions_in_step_skipped [of view]) simp_all
    next
      case (Some d)
      then have sound: "k \<notin> set malformed" using mal by simp
      have retained: "rv_retained_anchors view = ls_regions ?st" using st by (simp add: regions_in_step_def)
      from spec rf Some consider n where "view' = added_file cont f ?rf d n view" "admitted ?rf view = Some n"
        | "admitted ?rf view = None" "rv_retained_anchors view' = rv_retained_anchors view" by auto
      then show ?thesis
      proof cases
        case 1
        then have "?n \<le> MAX_REGION_FINGERPRINTS_PER_FILE" "prospective_region_anchor_total (ls_regions ?st) ?n = Some n"
          using retained by (auto simp: admitted_def split: if_splits)
        with 1(1) st True sound show ?thesis unfolding o
          by (auto simp: regions_in_step_def observe_region_limits_def admit_region_anchors_def added_file_def file_limits_def)
      next
        case 2
        show ?thesis
        proof (cases "?n \<le> MAX_REGION_FINGERPRINTS_PER_FILE")
          case bounded: True
          with 2 have "prospective_region_anchor_total (ls_regions ?st) ?n = None" using retained by (simp add: admitted_def)
          with bounded 2(2) retained True sound show ?thesis unfolding o
            by (simp add: regions_in_step_def observe_region_limits_def admit_region_anchors_def Let_def)
        next
          case False
          then have "file_limits (observe_region_limits (sf_path f) ff (k \<in> set malformed) ?st)"
            using observe_region_files [of ?st ff "sf_path f"] unfolding file_limits_def by simp
          moreover have "ls_regions (observe_region_limits (sf_path f) ff (k \<in> set malformed) ?st) = ls_regions ?st"
            using False by (simp add: observe_region_limits_def)
          ultimately show ?thesis using 2(2) retained unfolding o regions_in_step_def by simp
        qed
      qed
    qed
  qed
qed

lemma regions_in_step_fold:
  assumes "keys_agree facts keys F" and "cache_ok b64 facts keys F de" and "set fs \<subseteq> F"
    and "fold (view_add_file b64 facts keys cont) fs (view, de) = (view', de')"
    and "knows_malformed b64 facts keys fs malformed" and "regions_in_step view st"
  shows "regions_in_step view' (fold (observe_file_limits facts keys malformed) fs st)"
  using assms(2-)
proof (induction fs arbitrary: view de st)
  case Nil
  then show ?case by simp
next
  case (Cons f fs)
  obtain view1 de1 where step: "view_add_file b64 facts keys cont f (view, de) = (view1, de1)" by fastforce
  have f: "f \<in> F" "set fs \<subseteq> F" using Cons.prems(2) by simp_all
  have known: "knows_malformed b64 facts keys [f] malformed" "knows_malformed b64 facts keys fs malformed"
    using Cons.prems(4) by (simp_all add: knows_malformed_def)
  have "cache_ok b64 facts keys F de1" using view_add_file_spec [OF assms(1) Cons.prems(1) f(1) step] by (rule conjunct1)
  moreover have "fold (view_add_file b64 facts keys cont) fs (view1, de1) = (view', de')" using Cons.prems(3) step by simp
  ultimately show ?case
    using Cons.IH [OF _ f(2) _ known(2) regions_in_step_file [OF assms(1) Cons.prems(1) f(1) step known(1) Cons.prems(5)]] by simp
qed

section \<open>Malformed keys\<close>

lemma view_add_file_keys:
  assumes "bt_wf de" and "view_add_file b64 facts keys cont f (view, de) = (view', de')"
  shows "bt_wf de'" and "bt_get de k \<noteq> None \<Longrightarrow> bt_get de' k \<noteq> None"
    and "lookup_file_fact f facts keys = Some (k, ff) \<Longrightarrow> rff_status (ff_region_fingerprints ff) = FComplete \<Longrightarrow> bt_get de' k \<noteq> None"
proof -
  have e: "snd (evidence_state_of b64 k f rf retain de) = bt_insert k (fst (evidence_state_of b64 k f rf retain de)) de" for k rf retain
    by (simp add: evidence_state_of_def Let_def)
  have "de' = de \<and> (\<forall>k ff. lookup_file_fact f facts keys = Some (k, ff) \<longrightarrow> rff_status (ff_region_fingerprints ff) \<noteq> FComplete) \<or>
      (\<exists>k ff st. lookup_file_fact f facts keys = Some (k, ff) \<and> de' = bt_insert k st de)"
  proof (cases "lookup_file_fact f facts keys")
    case None
    with assms(2) show ?thesis by (simp add: view_add_file_def)
  next
    case (Some kf)
    obtain k ff where kf: "kf = (k, ff)" by fastforce
    show ?thesis
    proof (cases "rff_status (ff_region_fingerprints ff) = FComplete")
      case False
      with Some kf assms(2) show ?thesis by (simp add: view_add_file_def)
    next
      case True
      obtain st de1 where st: "evidence_state_of b64 k f (ff_region_fingerprints ff) (admitted (ff_region_fingerprints ff) view \<noteq> None) de = (st, de1)"
        by fastforce
      have "snd (view_add_file b64 facts keys cont f (view, de)) = de1"
        unfolding view_add_file_eq [OF Some [unfolded kf] True st]
        by (simp split: evidence_state.split option.split prod.split)
      with Some kf assms(2) e [of k "ff_region_fingerprints ff" "admitted (ff_region_fingerprints ff) view \<noteq> None"] st show ?thesis by auto
    qed
  qed
  with assms(1) show "bt_wf de'" "bt_get de k \<noteq> None \<Longrightarrow> bt_get de' k \<noteq> None"
    "lookup_file_fact f facts keys = Some (k, ff) \<Longrightarrow> rff_status (ff_region_fingerprints ff) = FComplete \<Longrightarrow> bt_get de' k \<noteq> None"
    by (auto split: if_splits)
qed

definition keys_recorded :: "fact_map \<Rightarrow> fact_key_lookup \<Rightarrow> source_file list \<Rightarrow> decoded_evidence \<Rightarrow> bool" where
  "keys_recorded facts keys fs de \<longleftrightarrow>
     (\<forall>f\<in>set fs. \<forall>k ff. lookup_file_fact f facts keys = Some (k, ff) \<and> rff_status (ff_region_fingerprints ff) = FComplete \<longrightarrow>
        bt_get de k \<noteq> None)"

lemma fold_view_add_file_keys:
  assumes "bt_wf de" and "fold (view_add_file b64 facts keys cont) fs (view, de) = (view', de')"
  shows "bt_wf de' \<and> keys_recorded facts keys fs de' \<and> (\<forall>k. bt_get de k \<noteq> None \<longrightarrow> bt_get de' k \<noteq> None)"
  using assms
proof (induction fs arbitrary: view de)
  case Nil
  then show ?case by (simp add: keys_recorded_def)
next
  case (Cons f fs)
  obtain view1 de1 where step: "view_add_file b64 facts keys cont f (view, de) = (view1, de1)" by fastforce
  note k = view_add_file_keys [OF Cons.prems(1) step]
  from Cons.IH [OF k(1), of view1] Cons.prems(2) step
  have "bt_wf de'" "keys_recorded facts keys fs de'" "\<forall>k. bt_get de1 k \<noteq> None \<longrightarrow> bt_get de' k \<noteq> None" by simp_all
  with k(2,3) show ?case unfolding keys_recorded_def by (metis set_ConsD)
qed

lemma recorded_knows_malformed:
  assumes "cache_ok b64 facts keys F de" and "keys_recorded facts keys fs de" and "set fs \<subseteq> F"
  shows "knows_malformed b64 facts keys fs (malformed_fact_keys de)"
  unfolding knows_malformed_def
proof (intro ballI allI impI)
  fix f k ff
  assume f: "f \<in> set fs" and l: "lookup_file_fact f facts keys = Some (k, ff) \<and> rff_status (ff_region_fingerprints ff) = FComplete"
  from assms(2) f l obtain st where st: "bt_get de k = Some st" unfolding keys_recorded_def by blast
  have wf: "bt_wf de" using assms(1) unfolding cache_ok_def by (rule conjunct1)
  have "k \<in> set (malformed_fact_keys de) \<longleftrightarrow> (k, EvMalformed) \<in> set de" by (force simp: malformed_fact_keys_def)
  then have "k \<in> set (malformed_fact_keys de) \<longleftrightarrow> st = EvMalformed"
    unfolding bt_get_in_set [OF wf, symmetric] using st by simp
  moreover have "st = decoded_state b64 f (ff_region_fingerprints ff) \<or> (st = EvValidated \<and> decode_evidence b64 f (ff_region_fingerprints ff) \<noteq> None)"
    using assms(1,3) f l st unfolding cache_ok_def by blast
  ultimately show "k \<in> set (malformed_fact_keys de) \<longleftrightarrow> decode_evidence b64 f (ff_region_fingerprints ff) = None"
    by (auto simp: decoded_state_def split: option.splits)
qed

lemma view_new_in_step:
  assumes "keys_agree facts keys F" and "cache_ok b64 facts keys F de" and "set (snapshot_file_list snap) \<subseteq> F"
    and "region_view_new b64 v snap facts keys cont de = (view, de')"
  shows "cache_ok b64 facts keys F de'" and "rv_view view = v" and "keys_recorded facts keys (snapshot_file_list snap) de'"
    and "bt_get de k \<noteq> None \<Longrightarrow> bt_get de' k \<noteq> None"
    and "knows_malformed b64 facts keys (snapshot_file_list snap) malformed \<Longrightarrow>
      regions_in_step view (fold (observe_file_limits facts keys malformed) (snapshot_file_list snap) default_snapshot_limit_state)"
proof -
  note r = region_view_new_spec [OF assms]
  show "cache_ok b64 facts keys F de'" "rv_view view = v" using r by simp_all
  obtain view0 where f: "fold (view_add_file b64 facts keys cont) (snapshot_file_list snap) (empty_region_view v, de) = (view0, de')"
    and view: "view = view0\<lparr> rv_groups := sort_occurrences (rv_files view0) (rv_groups view0) \<rparr>"
    using assms(4) by (auto simp: region_view_new_def split: prod.splits)
  have wf: "bt_wf de" using assms(2) unfolding cache_ok_def by (rule conjunct1)
  note k = fold_view_add_file_keys [OF wf f]
  from k show "keys_recorded facts keys (snapshot_file_list snap) de'" "bt_get de k \<noteq> None \<Longrightarrow> bt_get de' k \<noteq> None" by blast+
  have "regions_in_step (empty_region_view v) default_snapshot_limit_state"
    by (simp add: regions_in_step_def empty_region_view_def default_snapshot_limit_state_def)
  then show "regions_in_step view (fold (observe_file_limits facts keys malformed) (snapshot_file_list snap) default_snapshot_limit_state)"
    if "knows_malformed b64 facts keys (snapshot_file_list snap) malformed"
    using regions_in_step_fold [OF assms(1-3) f that] unfolding view by (simp add: regions_in_step_def)
qed

section \<open>Gaps\<close>

definition gap :: "fingerprint_coverage \<Rightarrow> bool" where
  "gap c \<longleftrightarrow> 0 < fpc_truncated_files c \<or> fpc_request_truncated c \<or> fpc_malformed_evidence c"

definition names_view :: "sense_view \<Rightarrow> sense_issue \<Rightarrow> bool" where
  "names_view v i \<longleftrightarrow> v \<in> set (si_views i)"

lemma limits_rendered:
  assumes "v \<in> set views" and "file_limits st \<or> 0 < ap_count (ls_callable_request st) \<or> 0 < ap_count (ls_region_request st)"
  shows "list_ex (names_view v) (render_snapshot_limit_issues st views)"
  using assms unfolding render_snapshot_limit_issues_def file_limits_def
  by (elim disjE) (simp_all add: push_limit_issue_def names_view_def)

lemma coverage_not_malformed: "\<not> fpc_malformed_evidence (fingerprint_coverage_of snapshot facts keys)"
proof -
  have "fpc_malformed_evidence (cover_file facts keys f c) = fpc_malformed_evidence c" for f c
    by (simp add: cover_file_def record_non_region_coverage_def record_fingerprint_status_def Let_def
        split: option.split fingerprint_extraction_status.split)
  then have "fpc_malformed_evidence (fold (cover_file facts keys) fs c) = fpc_malformed_evidence c" for fs c
    by (induction fs arbitrary: c) simp_all
  then show ?thesis by (simp add: fingerprint_coverage_of_def default_fingerprint_coverage_def)
qed

text \<open>A gap of a snapshot has a limit issue of the snapshot, or an issue of the comparison.\<close>

lemma gap_cases:
  assumes "gap (apply_region_coverage (view_coverage view cs) (fingerprint_coverage_of snapshot facts keys))"
    and "regions_in_step view (fold (observe_file_limits facts keys malformed) (snapshot_file_list snapshot) default_snapshot_limit_state)"
    and "malformed_view view \<Longrightarrow> cs_malformed_evidence cs \<and> rv_view view \<in> set (cs_views cs)"
    and "rv_view view \<in> set (cs_views cs) \<Longrightarrow> v \<in> set (cs_views cs)" and "v \<in> set views"
  shows "list_ex (names_view v) (snapshot_limit_issues snapshot facts keys views malformed @ comparison_issues cs)"
proof -
  let ?st = "fold (observe_file_limits facts keys malformed) (snapshot_file_list snapshot) default_snapshot_limit_state"
  let ?c = "fingerprint_coverage_of snapshot facts keys"
  note s = in_step_snapshot [of snapshot facts keys malformed, unfolded in_step_def]
  from assms(1) consider "0 < fpc_truncated_files ?c \<or> fpc_request_truncated ?c \<or> rv_request_truncated view"
    | "cs_limit_reached cs" "v \<in> set (cs_views cs)" | "cs_malformed_evidence cs" "v \<in> set (cs_views cs)"
    using assms(3,4) coverage_not_malformed [of snapshot facts keys]
    by (auto simp: gap_def apply_region_coverage_def view_coverage_def malformed_view_def)
  then show ?thesis
  proof cases
    case 1
    with s assms(2) have "file_limits ?st \<or> 0 < ap_count (ls_callable_request ?st) \<or> 0 < ap_count (ls_region_request ?st)"
      unfolding regions_in_step_def by auto
    from limits_rendered [OF assms(5) this] show ?thesis by (simp add: snapshot_limit_issues_def)
  next
    case 2
    then show ?thesis by (simp add: comparison_issues_def limit_issue_def names_view_def)
  next
    case 3
    then show ?thesis by (simp add: comparison_issues_def malformed_issue_def names_view_def)
  qed
qed

lemma observe_malformed_views:
  "set (cs_views cs) \<subseteq> set (cs_views (observe_malformed_view view cs))"
  "malformed_view view \<Longrightarrow> rv_view view \<in> set (cs_views (observe_malformed_view view cs))"
proof -
  have "cs_views (fold cs_record_malformed ps c) = cs_views c" for ps c
    by (induction ps arbitrary: c) (simp_all add: cs_record_malformed_def split: prod.split)
  then show "set (cs_views cs) \<subseteq> set (cs_views (observe_malformed_view view cs))"
    "malformed_view view \<Longrightarrow> rv_view view \<in> set (cs_views (observe_malformed_view view cs))"
    by (auto simp: observe_malformed_view_def malformed_view_def Let_def)
qed

text \<open>The two views of a request, their evidence and the limits of their snapshots.\<close>

lemma region_gap_cases:
  assumes "keys_agree (ri_file_facts inputs) (ri_fact_keys inputs) (request_files inputs)"
    and "region_findings K b64 inputs = Some rr"
  shows "gap (apply_region_coverage (rr_before rr) (fingerprint_coverage_of (ri_before inputs) (ri_file_facts inputs) (ri_fact_keys inputs))) \<Longrightarrow>
      list_ex (names_view ViewBefore) (snapshot_limit_issues (ri_before inputs) (ri_file_facts inputs) (ri_fact_keys inputs) [ViewBefore]
        (rr_malformed_fact_keys rr) @ rr_comparison_issues rr)"
    and "gap (apply_region_coverage (rr_after rr) (fingerprint_coverage_of (ri_after inputs) (ri_file_facts inputs) (ri_fact_keys inputs))) \<Longrightarrow>
      list_ex (names_view ViewAfter) (snapshot_limit_issues (ri_after inputs) (ri_file_facts inputs) (ri_fact_keys inputs) [ViewAfter]
        (rr_malformed_fact_keys rr) @ rr_comparison_issues rr)"
proof -
  let ?facts = "ri_file_facts inputs" and ?keys = "ri_fact_keys inputs" and ?cx = "region_context b64 inputs"
  obtain before de where b: "region_view_new b64 ViewBefore (ri_before inputs) ?facts ?keys (ri_continuity inputs) [] = (before, de)" by fastforce
  obtain after de' where a: "region_view_new b64 ViewAfter (ri_after inputs) ?facts ?keys [] de = (after, de')" by fastforce
  have cx: "ex_before ?cx = before" "ex_after ?cx = after" by (simp_all add: region_context_def b a)
  have ok: "cache_ok b64 ?facts ?keys (request_files inputs) []" by (simp add: cache_ok_def)
  have sub: "set (snapshot_file_list (ri_before inputs)) \<subseteq> request_files inputs" "set (snapshot_file_list (ri_after inputs)) \<subseteq> request_files inputs"
    by (simp_all add: request_files_def)
  note vb = view_new_in_step [OF assms(1) ok sub(1) b]
  note va = view_new_in_step [OF assms(1) vb(1) sub(2) a]
  have "keys_recorded ?facts ?keys (snapshot_file_list (ri_before inputs)) de'"
    using vb(3) va(4) unfolding keys_recorded_def by blast
  note known = recorded_knows_malformed [OF va(1) this sub(1)] recorded_knows_malformed [OF va(1) va(3) sub(2)]
  have keys: "rr_malformed_fact_keys rr = malformed_fact_keys de'"
    using assms(2) by (auto simp: region_findings_def b a Let_def split: option.splits)
  obtain es where es: "region_evaluation K ?cx = Some es" "rr_before rr = view_coverage before (es_comparison es)"
    "rr_after rr = view_coverage after (es_comparison es)" "rr_comparison_issues rr = comparison_issues (es_comparison es)"
    by (rule region_findings_Some [of K b64 inputs]) (use assms(2) cx in simp)
  have seen: "cs_malformed_evidence (es_comparison es) \<and> rv_view view \<in> set (cs_views (es_comparison es))"
    if "malformed_view view" and "view = before \<or> view = after" for view
  proof -
    have o: "cs_incomplete (observed_state ?cx)" "cs_malformed_evidence (observed_state ?cx)"
      using that by (auto simp: observed_state_def observe_malformed_view_flags malformed_view_def cx)
    have "rv_view view \<in> set (cs_views (observed_state ?cx))"
      using that observe_malformed_views(2) [of before default_comparison_state] subsetD [OF observe_malformed_views(1)]
        observe_malformed_views(2) [of after] unfolding observed_state_def cx by metis
    moreover have "es_comparison es = observed_state ?cx" using es(1) o(1) by (auto simp: region_evaluation_def Let_def)
    ultimately show ?thesis using o(2) by simp
  qed
  show "list_ex (names_view ViewBefore) (snapshot_limit_issues (ri_before inputs) ?facts ?keys [ViewBefore] (rr_malformed_fact_keys rr) @ rr_comparison_issues rr)"
    if "gap (apply_region_coverage (rr_before rr) (fingerprint_coverage_of (ri_before inputs) ?facts ?keys))"
    using gap_cases [OF that [unfolded es(2)] vb(5) [OF known(1)] seen [of before], where v = ViewBefore and views = "[ViewBefore]"] vb(2)
    by (simp add: keys es(4))
  show "list_ex (names_view ViewAfter) (snapshot_limit_issues (ri_after inputs) ?facts ?keys [ViewAfter] (rr_malformed_fact_keys rr) @ rr_comparison_issues rr)"
    if "gap (apply_region_coverage (rr_after rr) (fingerprint_coverage_of (ri_after inputs) ?facts ?keys))"
    using gap_cases [OF that [unfolded es(3)] va(5) [OF known(2)] seen [of after], where v = ViewAfter and views = "[ViewAfter]"] va(2)
    by (simp add: keys es(4))
qed

lemma identical_gap_cases:
  assumes "keys_agree (di_file_facts inputs) (di_fact_keys inputs) (set (snapshot_file_list (di_before inputs)))"
    and "gap (dc_before (dr_coverage (identical_snapshot_result b64 inputs)))" and "v = ViewBefore \<or> v = ViewAfter"
  shows "list_ex (names_view v) (dr_issues (identical_snapshot_result b64 inputs))"
proof -
  let ?facts = "di_file_facts inputs" and ?keys = "di_fact_keys inputs" and ?s = "di_before inputs"
  obtain view de where n: "region_view_new b64 ViewBefore ?s ?facts ?keys [] [] = (view, de)" by fastforce
  have ok: "cache_ok b64 ?facts ?keys (set (snapshot_file_list ?s)) []" by (simp add: cache_ok_def)
  note v = view_new_in_step [OF assms(1) ok subset_refl n]
  note known = recorded_knows_malformed [OF v(1,3) subset_refl]
  define cs where "cs = (let cs = observe_malformed_view view default_comparison_state
    in if cs_malformed_evidence cs then cs\<lparr> cs_views := bs_insert ViewAfter (cs_views cs) \<rparr> else cs)"
  have r: "validate_identical_snapshot b64 ?s ?facts ?keys = (view_coverage view cs, comparison_issues cs, malformed_fact_keys de)"
    by (simp add: validate_identical_snapshot_def n cs_def Let_def)
  have "gap (apply_region_coverage (view_coverage view cs) (fingerprint_coverage_of ?s ?facts ?keys))"
    using assms(2) by (simp add: identical_snapshot_result_def r Let_def)
  then have "list_ex (names_view v) (snapshot_limit_issues ?s ?facts ?keys [ViewBefore, ViewAfter] (malformed_fact_keys de) @ comparison_issues cs)"
  proof (rule gap_cases [OF _ v(5) [OF known]])
    show "cs_malformed_evidence cs \<and> rv_view view \<in> set (cs_views cs)" if "malformed_view view"
      using that observe_malformed_views(2) [OF that, of default_comparison_state]
      by (auto simp: cs_def Let_def observe_malformed_view_flags malformed_view_def)
    show "v \<in> set (cs_views cs)" if "rv_view view \<in> set (cs_views cs)"
      using that assms(3) v(2) by (auto simp: cs_def Let_def observe_malformed_view_def default_comparison_state_def split: if_splits)
    show "v \<in> set [ViewBefore, ViewAfter]" using assms(3) by simp
  qed
  then show ?thesis by (simp add: identical_snapshot_result_def r Let_def)
qed

text \<open>
  C17. No gap is silent. If files with equal keys have equal content, the duplicate search returns, and
  whenever the coverage of a snapshot has a gap (a file whose extraction was cut, a limit of the
  request or of the comparison that was reached, or malformed evidence) there is an issue that
  names the snapshot.
\<close>

theorem coverage_gaps_reported:
  assumes "keys_agree (di_file_facts inputs) (di_fact_keys inputs)
    (set (snapshot_file_list (di_before inputs)) \<union> set (snapshot_file_list (di_after inputs)))"
  shows "\<exists>r. introduced_duplicates K b64 inputs = Some r \<and>
    (gap (dc_before (dr_coverage r)) \<longrightarrow> list_ex (names_view ViewBefore) (dr_issues r)) \<and>
    (gap (dc_after (dr_coverage r)) \<longrightarrow> list_ex (names_view ViewAfter) (dr_issues r))"
proof (cases "snap_id (di_before inputs) = snap_id (di_after inputs)")
  case True
  have "keys_agree (di_file_facts inputs) (di_fact_keys inputs) (set (snapshot_file_list (di_before inputs)))"
    using assms unfolding keys_agree_def by blast
  moreover have "dc_after (dr_coverage (identical_snapshot_result b64 inputs)) = dc_before (dr_coverage (identical_snapshot_result b64 inputs))"
    by (simp add: identical_snapshot_result_def split_def Let_def)
  ultimately show ?thesis using True identical_gap_cases [of inputs b64] by (simp add: introduced_duplicates_def)
next
  case False
  show ?thesis
  proof (rule introduced_duplicates_parts [OF False, of K b64], goal_cases)
    case (1 fs cs rr t changed suppressed)
    let ?inputs = "region_request inputs changed suppressed (fs @ cs)"
    have "keys_agree (ri_file_facts ?inputs) (ri_fact_keys ?inputs) (request_files ?inputs)"
      using assms by (simp add: region_request_def request_files_def)
    from region_gap_cases [OF this 1(1)] 1(8) show ?case by (auto simp: callable_view_coverage region_request_def)
  qed
qed

text \<open>A new file whose callables are complete but whose regions were cut.\<close>

definition sample_dedup_inputs :: dedup_inputs where
  "sample_dedup_inputs =
     \<lparr> di_before = \<lparr> snap_id = ''before'', snap_files = [] \<rparr>,
       di_after = \<lparr> snap_id = ''after'', snap_files = [(sf_path sample_source, sample_source)] \<rparr>,
       di_file_facts = [(''key'', default_file_facts
         \<lparr> ff_callable_fingerprints := default_callable_fingerprint_facts\<lparr> cff_status := FComplete \<rparr>,
           ff_region_fingerprints := default_region_fingerprint_facts\<lparr> rff_status := FTruncated \<rparr> \<rparr>)],
       di_fact_keys = [([], [(''rs'', ''key'')])],
       di_changed_paths = [RepoPath ''a''], di_continuity = [], di_minimum_identical_bytes = 1, di_finding_limit = 5 \<rparr>"

theorem coverage_gaps_reported_witness:
  "\<forall>K. \<exists>r. introduced_duplicates K Some sample_dedup_inputs = Some r \<and> list_ex (names_view ViewAfter) (dr_issues r)"
proof
  fix K
  let ?in = "sample_dedup_inputs"
  have "keys_agree (di_file_facts ?in) (di_fact_keys ?in) (set (snapshot_file_list (di_before ?in)) \<union> set (snapshot_file_list (di_after ?in)))"
    by (simp add: sample_dedup_inputs_def keys_agree_def snapshot_file_list_def)
  from coverage_gaps_reported [OF this, of K Some] obtain r where r: "introduced_duplicates K Some ?in = Some r"
    "gap (dc_after (dr_coverage r)) \<longrightarrow> list_ex (names_view ViewAfter) (dr_issues r)" by blast
  have f: "fpc_truncated_files (fingerprint_coverage_of (di_after ?in) (di_file_facts ?in) (di_fact_keys ?in)) = 1"
    by (simp add: sample_dedup_inputs_def fingerprint_coverage_of_def snapshot_file_list_def cover_file_def lookup_file_facts_def
        lookup_file_fact_def sample_source_def record_non_region_coverage_def record_fingerprint_status_def default_fingerprint_coverage_def
        default_callable_fingerprint_facts_def default_region_fingerprint_facts_def MAX_CALLABLE_FINGERPRINTS_PER_FILE_def
        max_def less_eq_fingerprint_extraction_status_def sat_add_def usize_max_def)
  have "gap (dc_after (dr_coverage r))"
  proof (rule introduced_duplicates_parts [of ?in K Some], goal_cases)
    case 1
    show ?case by (simp add: sample_dedup_inputs_def)
  next
    case (2 fs cs rr t changed suppressed)
    with r(1) f show ?case by (auto simp: gap_def callable_view_coverage apply_region_coverage_def)
  qed
  with r show "\<exists>r. introduced_duplicates K Some ?in = Some r \<and> list_ex (names_view ViewAfter) (dr_issues r)" by blast
qed

end
