(* ===== verification/Metrics.thy ===== *)
theory Metrics
  imports DedupBase RustStr
begin

text \<open>
  Structural metrics: \<^verbatim>\<open>src/sense/metrics.rs\<close>. Counts of dependencies and interfaces of the changed
  paths before and after, interface findings for limits that the change crosses, the reverse impact of a
  change by a bounded breadth-first search, and the bound on all observations together. The two
  \<^verbatim>\<open>HashMap\<close>s of the code are only looked up, so they are ordered maps here.
\<close>

section \<open>Inputs and results\<close>

record metric_inputs =
  mei_before :: projection
  mei_after :: projection
  mei_changed_paths :: "repo_path btree_set"
  mei_continuity :: path_continuity
  mei_high_impact_threshold :: nat
  mei_max_dependency_targets :: nat
  mei_max_edge_selectors :: nat
  mei_max_module_exports :: nat
  mei_max_shape_members :: nat

record metric_results =
  mer_observations :: sense_observations
  mer_interface_findings :: "interface_finding list"

definition default_sense_observations :: sense_observations where
  "default_sense_observations =
     \<lparr> so_dependency_deltas = [], so_impact = [], so_high_impact_changes = [], so_interfaces = [],
       so_important_nodes = [], so_impact_truncated = False, so_truncated = False \<rparr>"

record interface_policy =
  ip_dependency_targets_limit :: nat
  ip_edge_selectors_limit :: nat
  ip_module_exports_limit :: nat
  ip_shape_members_limit :: nat
  ip_important_fan_in :: nat

definition metric_changed_paths :: "repo_path btree_set \<Rightarrow> path_continuity \<Rightarrow> repo_path btree_set" where
  "metric_changed_paths changed continuity = bs_collect (map (continued_path continuity) changed)"

section \<open>Counts of a projection\<close>

definition dependency_fan_in :: "projection \<Rightarrow> repo_path btree_set \<Rightarrow> (repo_path, nat) btree_map" where
  "dependency_fan_in p changed =
     fold (\<lambda>e fan_in. case bt_get fan_in (edge_to e) of
                        None \<Rightarrow> fan_in
                      | Some n \<Rightarrow> bt_insert (edge_to e) (sat_add n 1) fan_in)
       (filter (\<lambda>e. edge_from e \<noteq> edge_to e) (dependency_edges p))
       (bt_collect (map (\<lambda>path. (path, 0)) changed))"

definition record_target_count ::
    "repo_path option \<Rightarrow> bool \<Rightarrow> nat \<Rightarrow> (repo_path, nat) btree_map \<Rightarrow> (repo_path, nat) btree_map" where
  "record_target_count path selected n counts =
     (case path of Some p \<Rightarrow> if selected then bt_insert p n counts else counts | None \<Rightarrow> counts)"

fun target_loop ::
    "repo_path btree_set \<Rightarrow> dependency_edge list \<Rightarrow> (repo_path, nat) btree_map \<Rightarrow> repo_path option \<Rightarrow> bool
     \<Rightarrow> repo_path option \<Rightarrow> nat \<Rightarrow> (repo_path, nat) btree_map" where
  "target_loop changed [] counts current selected seen n = record_target_count current selected n counts"
| "target_loop changed (e # es) counts current selected seen n =
     (let (counts, current, selected, seen, n) =
            (if current \<noteq> Some (edge_from e)
             then (record_target_count current selected n counts, Some (edge_from e), edge_from e \<in> set changed, None, 0)
             else (counts, current, selected, seen, n))
      in if \<not> selected \<or> seen = Some (edge_to e) then target_loop changed es counts current selected seen n
         else target_loop changed es counts current selected (Some (edge_to e)) (sat_add n 1))"

definition dependency_target_counts :: "projection \<Rightarrow> repo_path btree_set \<Rightarrow> (repo_path, nat) btree_map" where
  "dependency_target_counts p changed = target_loop changed (pj_edges p) [] None False None 0"

definition record_selector_max ::
    "repo_path option \<Rightarrow> nat \<Rightarrow> (repo_path, nat) btree_map \<Rightarrow> (repo_path, nat) btree_map" where
  "record_selector_max path n counts = (case path of Some p \<Rightarrow> bt_insert p n counts | None \<Rightarrow> counts)"

fun selector_loop ::
    "repo_path btree_set \<Rightarrow> (interface_edge_key \<times> interface_edge) list \<Rightarrow> (repo_path, nat) btree_map \<Rightarrow> repo_path option
     \<Rightarrow> nat \<Rightarrow> (repo_path, nat) btree_map" where
  "selector_loop changed [] counts current widest = record_selector_max current widest counts"
| "selector_loop changed ((key, edge) # es) counts current widest =
     (if iedk_from key \<notin> set changed then selector_loop changed es counts current widest
      else
        (let (counts, current, widest) =
               (if current \<noteq> Some (iedk_from key)
                then (record_selector_max current widest counts, Some (iedk_from key), 0)
                else (counts, current, widest))
         in selector_loop changed es counts current (max widest (length (ie_selectors edge)))))"

definition max_edge_selector_counts :: "projection \<Rightarrow> repo_path btree_set \<Rightarrow> (repo_path, nat) btree_map" where
  "max_edge_selector_counts p changed = selector_loop changed (pj_interface_edges p) [] None 0"

record interface_metric_index =
  imx_targets :: "(repo_path, nat) btree_map"
  imx_max_edge_selectors :: "(repo_path, nat) btree_map"

definition InterfaceMetricIndex_new :: "projection \<Rightarrow> repo_path btree_set \<Rightarrow> interface_metric_index" where
  "InterfaceMetricIndex_new p changed =
     \<lparr> imx_targets = dependency_target_counts p changed,
       imx_max_edge_selectors = max_edge_selector_counts p changed \<rparr>"

definition count_of :: "(repo_path, nat) btree_map \<Rightarrow> repo_path \<Rightarrow> nat" where
  "count_of counts path = (case bt_get counts path of None \<Rightarrow> 0 | Some n \<Rightarrow> n)"

definition target_count :: "interface_metric_index \<Rightarrow> repo_path \<Rightarrow> nat" where
  "target_count i path = count_of (imx_targets i) path"

definition max_edge_selectors :: "interface_metric_index \<Rightarrow> repo_path \<Rightarrow> nat" where
  "max_edge_selectors i path = count_of (imx_max_edge_selectors i) path"

definition fan_in_count :: "(repo_path, nat) btree_map \<Rightarrow> repo_path \<Rightarrow> nat" where
  "fan_in_count counts path = count_of counts path"

section \<open>One path\<close>

definition export_count :: "module_interface option \<Rightarrow> nat" where
  "export_count m = (case m of None \<Rightarrow> 0 | Some m \<Rightarrow> length (mi_exports m))"

definition max_shape_members :: "module_interface option \<Rightarrow> nat" where
  "max_shape_members m = (case m of None \<Rightarrow> 0 | Some m \<Rightarrow> fold max (map snd (mi_shapes m)) 0)"

definition public_surface_is_authoritative :: "module_interface option \<Rightarrow> bool" where
  "public_surface_is_authoritative m = (case m of None \<Rightarrow> False | Some m \<Rightarrow> mi_public_surface_complete m)"

definition is_important :: "nat \<Rightarrow> nat \<Rightarrow> bool \<Rightarrow> interface_policy \<Rightarrow> bool" where
  "is_important fan_in exports authoritative policy \<longleftrightarrow>
     fan_in \<ge> ip_important_fan_in policy \<or> (authoritative \<and> exports > ip_module_exports_limit policy)"

definition public_surface_changed ::
    "projection \<Rightarrow> repo_path \<Rightarrow> module_interface option \<Rightarrow> module_interface option \<Rightarrow> bool" where
  "public_surface_changed before path before_module after_module =
     (case after_module of
        None \<Rightarrow> False
      | Some am \<Rightarrow>
          if \<not> mi_public_surface_complete am then False
          else if path \<notin> set (pj_nodes before) then mi_exports am \<noteq> [] \<or> mi_shapes am \<noteq> []
          else case before_module of
                 None \<Rightarrow> False
               | Some bm \<Rightarrow>
                   mi_public_surface_complete bm \<and>
                   (mi_exports bm \<noteq> mi_exports am \<or> mi_shapes bm \<noteq> mi_shapes am
                    \<or> mi_shape_fingerprints bm \<noteq> mi_shape_fingerprints am))"

definition introduced_violation :: "nat \<Rightarrow> nat \<Rightarrow> nat \<Rightarrow> bool" where
  "introduced_violation before after limit \<longleftrightarrow> after > limit \<and> after > before"

definition crossed_importance_threshold :: "nat \<Rightarrow> nat \<Rightarrow> nat \<Rightarrow> bool" where
  "crossed_importance_threshold before after threshold \<longleftrightarrow> before < threshold \<and> after \<ge> threshold"

record interface_path_state =
  ips_targets :: nat
  ips_exports :: nat
  ips_max_edge :: nat
  ips_max_shape :: nat
  ips_fan_in :: nat
  ips_authoritative :: bool
  ips_important :: bool

record interface_path_metrics =
  ipm_deleted :: bool
  ipm_before :: interface_path_state
  ipm_after :: interface_path_state
  ipm_public_surface_changed :: bool

record interface_metric_context =
  imc_before :: projection
  imc_after :: projection
  imc_before_index :: interface_metric_index
  imc_after_index :: interface_metric_index
  imc_before_dependency_fan_in :: "(repo_path, nat) btree_map"
  imc_after_dependency_fan_in :: "(repo_path, nat) btree_map"
  imc_prior_path_by_current :: path_continuity
  imc_policy :: interface_policy

definition InterfaceMetricContext_new ::
    "projection \<Rightarrow> projection \<Rightarrow> repo_path btree_set \<Rightarrow> path_continuity \<Rightarrow> interface_policy \<Rightarrow> interface_metric_context" where
  "InterfaceMetricContext_new before after changed continuity policy =
     \<lparr> imc_before = before, imc_after = after,
       imc_before_index = InterfaceMetricIndex_new before changed,
       imc_after_index = InterfaceMetricIndex_new after changed,
       imc_before_dependency_fan_in = dependency_fan_in before changed,
       imc_after_dependency_fan_in = dependency_fan_in after changed,
       imc_prior_path_by_current = bt_collect (map (\<lambda>(b, a). (a, b)) continuity),
       imc_policy = policy \<rparr>"

definition path_state ::
    "projection \<Rightarrow> interface_metric_index \<Rightarrow> (repo_path, nat) btree_map \<Rightarrow> interface_policy \<Rightarrow> repo_path \<Rightarrow> interface_path_state" where
  "path_state p index fan_in policy path =
     (let m = bt_get (pj_interfaces p) path
      in \<lparr> ips_targets = target_count index path, ips_exports = export_count m,
           ips_max_edge = max_edge_selectors index path, ips_max_shape = max_shape_members m,
           ips_fan_in = fan_in_count fan_in path, ips_authoritative = public_surface_is_authoritative m,
           ips_important = is_important (fan_in_count fan_in path) (export_count m) (public_surface_is_authoritative m) policy \<rparr>)"

definition InterfacePathMetrics_new :: "interface_metric_context \<Rightarrow> repo_path \<Rightarrow> interface_path_metrics" where
  "InterfacePathMetrics_new c path =
     \<lparr> ipm_deleted = (bt_get (pj_interfaces (imc_after c)) path = None),
       ipm_before = path_state (imc_before c) (imc_before_index c) (imc_before_dependency_fan_in c) (imc_policy c) path,
       ipm_after = path_state (imc_after c) (imc_after_index c) (imc_after_dependency_fan_in c) (imc_policy c) path,
       ipm_public_surface_changed = public_surface_changed (imc_before c) path
         (bt_get (pj_interfaces (imc_before c)) path) (bt_get (pj_interfaces (imc_after c)) path) \<rparr>"

definition path_delta :: "interface_path_metrics \<Rightarrow> repo_path \<Rightarrow> interface_delta" where
  "path_delta m path =
     \<lparr> idelta_path = path, idelta_deleted = ipm_deleted m,
       idelta_before_public_surface_authoritative = ips_authoritative (ipm_before m),
       idelta_after_public_surface_authoritative = ips_authoritative (ipm_after m),
       idelta_public_surface_changed = ipm_public_surface_changed m,
       idelta_before_dependency_targets = ips_targets (ipm_before m),
       idelta_after_dependency_targets = ips_targets (ipm_after m),
       idelta_before_exports = ips_exports (ipm_before m), idelta_after_exports = ips_exports (ipm_after m),
       idelta_before_max_edge_selectors = ips_max_edge (ipm_before m),
       idelta_after_max_edge_selectors = ips_max_edge (ipm_after m),
       idelta_before_max_shape_members = ips_max_shape (ipm_before m),
       idelta_after_max_shape_members = ips_max_shape (ipm_after m) \<rparr>"

definition delta_changed :: "interface_delta \<Rightarrow> bool" where
  "delta_changed d \<longleftrightarrow>
     idelta_deleted d \<or> idelta_public_surface_changed d
     \<or> idelta_before_dependency_targets d \<noteq> idelta_after_dependency_targets d
     \<or> idelta_before_exports d \<noteq> idelta_after_exports d
     \<or> idelta_before_max_edge_selectors d \<noteq> idelta_after_max_edge_selectors d
     \<or> idelta_before_max_shape_members d \<noteq> idelta_after_max_shape_members d"

definition important_node ::
    "interface_metric_context \<Rightarrow> repo_path \<Rightarrow> interface_path_metrics \<Rightarrow> important_node_observation option" where
  "important_node c path m =
     (let b = ipm_before m; a = ipm_after m
      in if \<not> ips_important b \<and> \<not> ips_important a then None
         else Some \<lparr> imp_path = path, imp_before_path = bt_get (imc_prior_path_by_current c) path,
                     imp_deleted = ipm_deleted m,
                     imp_before_confirmed_dependency_fan_in = ips_fan_in b,
                     imp_after_confirmed_dependency_fan_in = ips_fan_in a,
                     imp_before_explicit_exports = ips_exports b, imp_after_explicit_exports = ips_exports a,
                     imp_before_public_surface_authoritative = ips_authoritative b,
                     imp_after_public_surface_authoritative = ips_authoritative a,
                     imp_newly_important =
                       (\<not> ipm_deleted m \<and>
                        (crossed_importance_threshold (ips_fan_in b) (ips_fan_in a) (ip_important_fan_in (imc_policy c)) \<or>
                         (ips_authoritative b \<and> ips_authoritative a \<and>
                          introduced_violation (ips_exports b) (ips_exports a) (ip_module_exports_limit (imc_policy c))))),
                     imp_public_surface_changed = ipm_public_surface_changed m \<rparr>)"

section \<open>Interface findings\<close>

fun edge_selector_metric :: "interface_namespace \<Rightarrow> bytes" where
  "edge_selector_metric Runtime = ''confirmed_runtime_edge_selectors''"
| "edge_selector_metric TypeOnly = ''confirmed_type_edge_selectors''"

fun shape_member_metric :: "interface_shape_kind \<Rightarrow> bytes" where
  "shape_member_metric ShapeInterface = ''exported_interface_members''"
| "shape_member_metric ShapeStruct = ''exported_struct_fields''"
| "shape_member_metric ShapeTypeLiteralAlias = ''exported_type_literal_members''"

record interface_finding_input =
  ifin_code :: bytes
  ifin_path :: repo_path
  ifin_target :: "repo_path option"
  ifin_entity :: "bytes option"
  ifin_metric :: bytes
  ifin_before :: nat
  ifin_after :: nat
  ifin_limit :: nat

definition interface_finding_of :: "interface_finding_input \<Rightarrow> interface_finding" where
  "interface_finding_of i =
     \<lparr> ifind_code = ifin_code i, ifind_path = ifin_path i, ifind_target = ifin_target i, ifind_entity = ifin_entity i,
       ifind_metric = ifin_metric i, ifind_before = ifin_before i, ifind_after = ifin_after i,
       ifind_limit = ifin_limit i, ifind_basis = ''confirmed'' \<rparr>"

definition is_test_like :: "repo_path \<Rightarrow> bool" where
  "is_test_like path =
     (case as_utf8 path of
        None \<Rightarrow> False
      | Some text \<Rightarrow>
          (let lower = to_ascii_lowercase text
           in ends_with ''_test.go'' lower \<or>
              (\<exists>segment\<in>set (split_on (\<lambda>b. b = slash) lower).
                 segment \<in> set [''test'', ''tests'', ''__tests__''] \<or> contains_bytes ''.test.'' segment \<or> contains_bytes ''.spec.'' segment)))"

definition collect_dependency_finding ::
    "interface_metric_context \<Rightarrow> repo_path \<Rightarrow> interface_path_metrics \<Rightarrow> interface_finding list \<Rightarrow> interface_finding list" where
  "collect_dependency_finding c path m findings =
     (let limit = ip_dependency_targets_limit (imc_policy c)
      in if \<not> introduced_violation (ips_targets (ipm_before m)) (ips_targets (ipm_after m)) limit then findings
         else findings @ [interface_finding_of
           \<lparr> ifin_code = ''sense.interface.dependency_targets'', ifin_path = path, ifin_target = None, ifin_entity = None,
             ifin_metric = ''confirmed_dependency_targets'', ifin_before = ips_targets (ipm_before m),
             ifin_after = ips_targets (ipm_after m), ifin_limit = limit \<rparr>])"

definition collect_module_finding ::
    "interface_metric_context \<Rightarrow> repo_path \<Rightarrow> interface_path_metrics \<Rightarrow> module_interface \<Rightarrow> interface_finding list \<Rightarrow> interface_finding list" where
  "collect_module_finding c path m after_module findings =
     (let limit = ip_module_exports_limit (imc_policy c)
      in if pure_barrel after_module then findings
         else if path \<in> set (pj_nodes (imc_before c)) \<and> \<not> ips_authoritative (ipm_before m) then findings
         else if \<not> introduced_violation (ips_exports (ipm_before m)) (ips_exports (ipm_after m)) limit then findings
         else findings @ [interface_finding_of
           \<lparr> ifin_code = ''sense.interface.module_exports'', ifin_path = path, ifin_target = None, ifin_entity = None,
             ifin_metric = ''explicit_module_exports'', ifin_before = ips_exports (ipm_before m),
             ifin_after = ips_exports (ipm_after m), ifin_limit = limit \<rparr>])"

definition edge_finding ::
    "interface_metric_context \<Rightarrow> repo_path \<Rightarrow> interface_edge_key \<times> interface_edge \<Rightarrow> interface_finding list" where
  "edge_finding c path = (\<lambda>(key, edge).
     let after_count = length (ie_selectors edge);
         before_edge = bt_get (pj_interface_edges (imc_before c)) key;
         before_count = (case before_edge of None \<Rightarrow> 0 | Some e \<Rightarrow> length (ie_selectors e));
         limit = ip_edge_selectors_limit (imc_policy c)
     in if (case before_edge of None \<Rightarrow> False | Some e \<Rightarrow> ie_unknown_width e) then []
        else if \<not> introduced_violation before_count after_count limit then []
        else [interface_finding_of
          \<lparr> ifin_code = ''sense.interface.edge_selectors'', ifin_path = path, ifin_target = Some (iedk_to key), ifin_entity = None,
            ifin_metric = edge_selector_metric (iedk_namespace key), ifin_before = before_count,
            ifin_after = after_count, ifin_limit = limit \<rparr>])"

definition collect_edge_findings ::
    "interface_metric_context \<Rightarrow> repo_path \<Rightarrow> interface_finding list \<Rightarrow> interface_finding list" where
  "collect_edge_findings c path findings =
     findings @ concat (map (edge_finding c path)
       (filter (\<lambda>(key, edge). iedk_from key = path) (pj_interface_edges (imc_after c))))"

definition shape_finding ::
    "interface_metric_context \<Rightarrow> repo_path \<Rightarrow> module_interface option \<Rightarrow> interface_shape_key \<times> nat \<Rightarrow> interface_finding list" where
  "shape_finding c path before_module = (\<lambda>(shape, after_count).
     let before_count = (case Option.bind before_module (\<lambda>m. bt_get (mi_shapes m) shape) of None \<Rightarrow> 0 | Some n \<Rightarrow> n);
         limit = ip_shape_members_limit (imc_policy c)
     in if \<not> introduced_violation before_count after_count limit then []
        else [interface_finding_of
          \<lparr> ifin_code = ''sense.interface.shape_members'', ifin_path = path, ifin_target = None, ifin_entity = Some (isk_name shape),
            ifin_metric = shape_member_metric (isk_kind shape), ifin_before = before_count,
            ifin_after = after_count, ifin_limit = limit \<rparr>])"

definition collect_shape_findings ::
    "interface_metric_context \<Rightarrow> repo_path \<Rightarrow> interface_path_metrics \<Rightarrow> module_interface \<Rightarrow> interface_finding list \<Rightarrow> interface_finding list" where
  "collect_shape_findings c path m after_module findings =
     (if path \<in> set (pj_nodes (imc_before c)) \<and> \<not> ips_authoritative (ipm_before m) then findings
      else findings @ concat (map (shape_finding c path (bt_get (pj_interfaces (imc_before c)) path)) (mi_shapes after_module)))"

definition collect_findings ::
    "interface_metric_context \<Rightarrow> repo_path \<Rightarrow> interface_path_metrics \<Rightarrow> interface_finding list \<Rightarrow> interface_finding list" where
  "collect_findings c path m findings =
     (case bt_get (pj_interfaces (imc_after c)) path of
        None \<Rightarrow> findings
      | Some after_module \<Rightarrow>
          if is_test_like path \<or> mi_declaration_file after_module then findings
          else collect_shape_findings c path m after_module
                 (collect_edge_findings c path
                   (collect_module_finding c path m after_module
                     (collect_dependency_finding c path m findings))))"

record interface_metric_results =
  imr_deltas :: "interface_delta list"
  imr_important_nodes :: "important_node_observation list"
  imr_findings :: "interface_finding list"

definition collect_path :: "interface_metric_context \<Rightarrow> repo_path \<Rightarrow> interface_metric_results \<Rightarrow> interface_metric_results" where
  "collect_path c path r =
     (let m = InterfacePathMetrics_new c path;
          delta = path_delta m path
      in \<lparr> imr_deltas = (if delta_changed delta then imr_deltas r @ [delta] else imr_deltas r),
           imr_important_nodes = (case important_node c path m of None \<Rightarrow> imr_important_nodes r | Some o' \<Rightarrow> imr_important_nodes r @ [o']),
           imr_findings = collect_findings c path m (imr_findings r) \<rparr>)"

definition interface_finding_key where
  "interface_finding_key f =
     (ifind_code f, ifind_path f, ifind_target f, ifind_entity f, ifind_metric f, ifind_before f, ifind_after f, ifind_limit f,
      ifind_basis f)"

definition interface_metrics ::
    "projection \<Rightarrow> projection \<Rightarrow> repo_path btree_set \<Rightarrow> path_continuity \<Rightarrow> interface_policy
     \<Rightarrow> interface_delta list \<times> important_node_observation list \<times> interface_finding list" where
  "interface_metrics before after changed continuity policy =
     (let c = InterfaceMetricContext_new before after changed continuity policy;
          r = fold (collect_path c) changed \<lparr> imr_deltas = [], imr_important_nodes = [], imr_findings = [] \<rparr>
      in (imr_deltas r, imr_important_nodes r, sort_key interface_finding_key (imr_findings r)))"

section \<open>Direct dependencies\<close>

record outgoing_counts =
  oc_runtime :: nat
  oc_type_only :: nat
  oc_structural :: nat

definition default_outgoing_counts :: outgoing_counts where
  "default_outgoing_counts = \<lparr> oc_runtime = 0, oc_type_only = 0, oc_structural = 0 \<rparr>"

definition count_outgoing :: "edge_kind \<Rightarrow> outgoing_counts \<Rightarrow> outgoing_counts" where
  "count_outgoing kind n =
     (case kind of
        EdgeRuntime \<Rightarrow> n\<lparr> oc_runtime := sat_add (oc_runtime n) 1 \<rparr>
      | EdgeTypeOnly \<Rightarrow> n\<lparr> oc_type_only := sat_add (oc_type_only n) 1 \<rparr>
      | EdgeStructural \<Rightarrow> n\<lparr> oc_structural := sat_add (oc_structural n) 1 \<rparr>)"

definition outgoing_counts_of :: "projection \<Rightarrow> repo_path btree_set \<Rightarrow> (repo_path, outgoing_counts) btree_map" where
  "outgoing_counts_of p changed =
     fold (\<lambda>e. bt_entry default_outgoing_counts (count_outgoing (edge_kind e)) (edge_from e))
       (filter (\<lambda>e. edge_from e \<in> set changed) (pj_edges p)) []"

definition i64_max :: int where "i64_max = 9223372036854775807"

definition to_i64 :: "nat \<Rightarrow> int" where
  "to_i64 n = (if int n \<le> i64_max then int n else i64_max)"

definition signed_delta :: "nat \<Rightarrow> nat \<Rightarrow> int" where
  "signed_delta after before = to_i64 after - to_i64 before"

definition dependency_delta ::
    "(repo_path, outgoing_counts) btree_map \<Rightarrow> (repo_path, outgoing_counts) btree_map \<Rightarrow> repo_path btree_set
     \<Rightarrow> repo_path \<Rightarrow> direct_dependency_delta" where
  "dependency_delta before after after_nodes path =
     (let b = (case bt_get before path of None \<Rightarrow> default_outgoing_counts | Some n \<Rightarrow> n);
          a = (case bt_get after path of None \<Rightarrow> default_outgoing_counts | Some n \<Rightarrow> n)
      in \<lparr> ddd_path = path, ddd_deleted = (path \<notin> set after_nodes),
           ddd_before_runtime = oc_runtime b, ddd_after_runtime = oc_runtime a,
           ddd_runtime_delta = signed_delta (oc_runtime a) (oc_runtime b),
           ddd_before_type_only = oc_type_only b, ddd_after_type_only = oc_type_only a,
           ddd_type_only_delta = signed_delta (oc_type_only a) (oc_type_only b),
           ddd_before_structural = oc_structural b, ddd_after_structural = oc_structural a,
           ddd_structural_delta = signed_delta (oc_structural a) (oc_structural b) \<rparr>)"

section \<open>Reverse impact\<close>

type_synonym reverse_edges = "(repo_path, repo_path btree_set) btree_map"

definition reverse_adjacency :: "projection \<Rightarrow> reverse_edges" where
  "reverse_adjacency p =
     fold (\<lambda>e reverse. if edge_from e = edge_to e then reverse
                       else case bt_get reverse (edge_to e) of
                              None \<Rightarrow> reverse
                            | Some ds \<Rightarrow> bt_insert (edge_to e) (bs_insert (edge_from e) ds) reverse)
       (pj_edges p) (bt_collect (map (\<lambda>path. (path, [])) (pj_nodes p)))"

definition dependents :: "reverse_edges \<Rightarrow> repo_path \<Rightarrow> repo_path btree_set" where
  "dependents reverse path = (case bt_get reverse path of None \<Rightarrow> [] | Some ds \<Rightarrow> ds)"

text \<open>The inner loop: whether all dependents were queued, the queue and the budget left.\<close>

fun queue_dependents :: "repo_path list \<Rightarrow> repo_path list \<Rightarrow> nat \<Rightarrow> bool \<times> repo_path list \<times> nat" where
  "queue_dependents [] queue budget = (True, queue, budget)"
| "queue_dependents (d # ds) queue budget =
     (if budget = 0 then (False, queue, budget) else queue_dependents ds (queue @ [d]) (budget - 1))"

lemma queue_dependents_measure:
  "queue_dependents ds queue budget = (ok, queue', budget') \<Longrightarrow> 2 * budget' + length queue' \<le> 2 * budget + length queue"
  by (induction ds queue budget rule: queue_dependents.induct) (auto split: if_splits)

function reach_loop ::
    "reverse_edges \<Rightarrow> repo_path btree_set \<Rightarrow> repo_path btree_set \<Rightarrow> repo_path list \<Rightarrow> nat \<Rightarrow> repo_path btree_set \<times> bool \<times> nat" where
  "reach_loop reverse visited reachable [] budget = (reachable, True, budget)"
| "reach_loop reverse visited reachable (current # queue) budget =
     (if current \<in> set visited then reach_loop reverse visited reachable queue budget
      else case queue_dependents (dependents reverse current) queue budget of
             (ok, queue', budget') \<Rightarrow>
               if \<not> ok then (bs_insert current reachable, False, budget')
               else reach_loop reverse (bs_insert current visited) (bs_insert current reachable) queue' budget')"
  by pat_completeness auto
termination
  by (relation "measure (\<lambda>(reverse, visited, reachable, queue, budget). 2 * budget + length queue)")
    (auto dest!: queue_dependents_measure [OF sym])

declare reach_loop.simps [simp del]

definition reverse_reachable :: "repo_path \<Rightarrow> reverse_edges \<Rightarrow> nat \<Rightarrow> repo_path btree_set \<times> bool \<times> nat" where
  "reverse_reachable path reverse budget =
     (if budget = 0 then (bs_collect (dependents reverse path), dependents reverse path = [], budget)
      else reach_loop reverse [path] [] (dependents reverse path) budget)"

record impact_state =
  imst_impact :: "impact_observation list"
  imst_high_impact :: "high_impact_change list"
  imst_sample_budget :: nat
  imst_edge_visit_budget :: nat
  imst_truncated :: bool

definition observe_impact ::
    "reverse_edges \<Rightarrow> reverse_edges \<Rightarrow> repo_path btree_set \<Rightarrow> nat \<Rightarrow> repo_path \<Rightarrow> impact_state \<Rightarrow> impact_state" where
  "observe_impact before_reverse after_reverse after_nodes threshold path st =
     (let deleted = (path \<notin> set after_nodes);
          reverse = (if deleted then before_reverse else after_reverse);
          direct_count = length (dependents reverse path);
          (reachable, complete, budget) = reverse_reachable path reverse (imst_edge_visit_budget st);
          sample_count = min (min (length reachable) MAX_OBSERVATION_PATHS) (imst_sample_budget st)
      in \<lparr> imst_impact = imst_impact st @
             [\<lparr> impact_path = path, impact_deleted = deleted, impact_confirmed_direct_dependents = direct_count,
                impact_confirmed_reachable_dependents = length reachable,
                impact_reachable_count_is_lower_bound = (\<not> complete),
                impact_sample = take sample_count reachable,
                impact_sample_truncated = (length reachable > sample_count) \<rparr>],
           imst_high_impact =
             (if direct_count \<ge> threshold
              then imst_high_impact st @ [\<lparr> hic_path = path, hic_confirmed_direct_dependents = direct_count, hic_threshold = threshold \<rparr>]
              else imst_high_impact st),
           imst_sample_budget = imst_sample_budget st - sample_count,
           imst_edge_visit_budget = budget,
           imst_truncated = (imst_truncated st \<or> \<not> complete) \<rparr>)"

definition impact_observations ::
    "projection \<Rightarrow> projection \<Rightarrow> repo_path btree_set \<Rightarrow> nat \<Rightarrow> impact_observation list \<times> high_impact_change list \<times> bool" where
  "impact_observations before after changed threshold =
     (let st = fold (observe_impact (reverse_adjacency before) (reverse_adjacency after) (pj_nodes after) threshold) changed
                 \<lparr> imst_impact = [], imst_high_impact = [], imst_sample_budget = MAX_SENSE_SAMPLE_PATHS,
                   imst_edge_visit_budget = MAX_IMPACT_EDGE_VISITS, imst_truncated = False \<rparr>
      in (imst_impact st, imst_high_impact st, imst_truncated st))"

section \<open>Bounds\<close>

text \<open>The index of the longest list, the first one among equals.\<close>

definition longest :: "nat list \<Rightarrow> nat" where
  "longest lengths = (case position (\<lambda>n. n = fold max lengths 0) lengths of None \<Rightarrow> 0 | Some i \<Rightarrow> i)"

lemma fold_max: "fold max xs (n :: nat) = Max (insert n (set xs))"
  using Max.set_eq_fold [of n xs] by simp

lemma longest_spec:
  assumes "lengths \<noteq> []"
  shows "longest lengths < length lengths" and "lengths ! longest lengths = fold max lengths 0"
proof -
  have "Max (set lengths) \<in> set lengths" using assms by simp
  then have "fold max lengths 0 \<in> set lengths" using assms by (simp add: fold_max max_def)
  then obtain i where "position (\<lambda>n. n = fold max lengths 0) lengths = Some i"
    by (cases "position (\<lambda>n. n = fold max lengths 0) lengths") (auto simp: position_None)
  then show "longest lengths < length lengths" "lengths ! longest lengths = fold max lengths 0"
    by (auto simp: longest_def dest!: position_Some)
qed

lemma shorten_longest:
  assumes "lengths \<noteq> []" and "0 < sum_list lengths"
  shows "sum_list (lengths[longest lengths := lengths ! longest lengths - 1]) = sum_list lengths - 1"
    and "0 < lengths ! longest lengths"
proof -
  obtain x where "x \<in> set lengths" "0 < x" using assms(2) by (metis gr0I less_irrefl sum_list_eq_0_iff)
  moreover from this have "x \<le> fold max lengths 0" by (simp add: fold_max)
  ultimately show pos: "0 < lengths ! longest lengths" using longest_spec(2) [OF assms(1)] by linarith
  from longest_spec(1) [OF assms(1)] pos show "sum_list (lengths[longest lengths := lengths ! longest lengths - 1]) = sum_list lengths - 1"
    by (simp add: sum_list_update elem_le_sum_list)
qed

function shorten :: "nat list \<Rightarrow> nat list" where
  "shorten lengths =
     (if lengths \<noteq> [] \<and> sum_list lengths > MAX_SENSE_OBSERVATIONS
      then shorten (lengths[longest lengths := lengths ! longest lengths - 1])
      else lengths)"
  by pat_completeness auto
termination
  by (relation "measure sum_list") (use shorten_longest in \<open>auto simp: MAX_SENSE_OBSERVATIONS_def\<close>)

declare shorten.simps [simp del]

definition observation_lengths :: "sense_observations \<Rightarrow> nat list" where
  "observation_lengths o' =
     [length (so_dependency_deltas o'), length (so_impact o'), length (so_high_impact_changes o'),
      length (so_interfaces o'), length (so_important_nodes o')]"

definition bound_observations :: "sense_observations \<Rightarrow> sense_observations" where
  "bound_observations o' =
     (let lengths = shorten (observation_lengths o')
      in o'\<lparr> so_dependency_deltas := take (lengths ! 0) (so_dependency_deltas o'),
             so_impact := take (lengths ! 1) (so_impact o'),
             so_high_impact_changes := take (lengths ! 2) (so_high_impact_changes o'),
             so_interfaces := take (lengths ! 3) (so_interfaces o'),
             so_important_nodes := take (lengths ! 4) (so_important_nodes o'),
             so_truncated := (sum_list (observation_lengths o') > MAX_SENSE_OBSERVATIONS) \<rparr>)"

section \<open>All metrics\<close>

definition collect :: "metric_inputs \<Rightarrow> metric_results" where
  "collect inputs =
     (if mei_changed_paths inputs = [] then \<lparr> mer_observations = default_sense_observations, mer_interface_findings = [] \<rparr>
      else
        (let changed = metric_changed_paths (mei_changed_paths inputs) (mei_continuity inputs);
             before_outgoing = outgoing_counts_of (mei_before inputs) changed;
             after_outgoing = outgoing_counts_of (mei_after inputs) changed;
             deltas = map (dependency_delta before_outgoing after_outgoing (pj_nodes (mei_after inputs))) changed;
             (impact, high_impact, impact_truncated) =
               impact_observations (mei_before inputs) (mei_after inputs) changed (mei_high_impact_threshold inputs);
             (interfaces, important_nodes, findings) =
               interface_metrics (mei_before inputs) (mei_after inputs) changed (mei_continuity inputs)
                 \<lparr> ip_dependency_targets_limit = mei_max_dependency_targets inputs,
                   ip_edge_selectors_limit = mei_max_edge_selectors inputs,
                   ip_module_exports_limit = mei_max_module_exports inputs,
                   ip_shape_members_limit = mei_max_shape_members inputs,
                   ip_important_fan_in = mei_high_impact_threshold inputs \<rparr>
         in \<lparr> mer_observations = bound_observations
                \<lparr> so_dependency_deltas = deltas, so_impact = impact, so_high_impact_changes = high_impact,
                  so_interfaces = interfaces, so_important_nodes = important_nodes,
                  so_impact_truncated = impact_truncated, so_truncated = False \<rparr>,
              mer_interface_findings = findings \<rparr>))"

end
