(* ===== verification/Scc.thy ===== *)
theory Scc
  imports SenseModel "HOL-Library.Option_ord"
begin

text \<open>
  The strongly connected components of the dependency graph (\<^verbatim>\<open>components\<close>, \<^verbatim>\<open>finish_order\<close> and
  \<^verbatim>\<open>collect_components\<close> of \<^verbatim>\<open>sense/graph.rs\<close>): two depth-first searches with explicit stacks, over
  adjacency lists indexed by node number. An index out of range panics in Rust; here it is the
  value \<^term>\<open>None\<close>, and the lemmas show that it never happens on the graphs the source builds.
  The top of a stack is the head of a list.

  The main lemmas: the searches terminate; the finish order is an order in which every
  node is followed, at or after each node it reaches, by some node of its own component; and the
  second search, in that order reversed, collects exactly the classes of mutual reachability.
\<close>

section \<open>The two searches\<close>

definition unvisited :: "bool list \<Rightarrow> nat" where
  "unvisited visited = length (filter Not visited)"

lemma unvisited_visit:
  "t < length visited \<Longrightarrow> \<not> visited ! t \<Longrightarrow> Suc (unvisited (visited[t := True])) = unvisited visited"
proof (induction visited arbitrary: t)
  case (Cons b bs)
  then show ?case by (cases t) (auto simp: unvisited_def)
qed simp

lemma unvisited_less:
  "t < length visited \<Longrightarrow> \<not> visited ! t \<Longrightarrow> unvisited (visited[t := True]) < unvisited visited"
  using unvisited_visit [of t visited] by simp

text \<open>The inner loop of \<^verbatim>\<open>finish_order\<close>. The position \<open>nxt\<close> is below the length of a vector where it
  is incremented, so the saturating addition of the source adds one.\<close>

function finish_loop :: "nat list list \<Rightarrow> (nat \<times> nat) list \<Rightarrow> bool list \<Rightarrow> nat list \<Rightarrow> (bool list \<times> nat list) option" where
  "finish_loop adj [] visited fin = Some (visited, fin)"
| "finish_loop adj ((node, nxt) # stack) visited fin =
     (case get_at adj node of
        None \<Rightarrow> None
      | Some targets \<Rightarrow>
          (case get_at targets nxt of
             None \<Rightarrow> finish_loop adj stack visited (fin @ [node])
           | Some target \<Rightarrow>
               (case get_at visited target of
                  None \<Rightarrow> None
                | Some seen \<Rightarrow>
                    if seen then finish_loop adj ((node, Suc nxt) # stack) visited fin
                    else finish_loop adj ((target, 0) # (node, Suc nxt) # stack) (visited[target := True]) fin)))"
  by pat_completeness auto
termination
  by (relation "inv_image (less_than <*lex*> less_than)
       (\<lambda>(adj, stack, visited, fin). (unvisited visited,
          \<Sum>(node, nxt)\<leftarrow>stack. Suc (length (case get_at adj node of None \<Rightarrow> [] | Some ts \<Rightarrow> ts) - nxt)))")
    (auto simp: get_at_def unvisited_less split: if_splits)

fun finish_from :: "nat list list \<Rightarrow> nat list \<Rightarrow> bool list \<Rightarrow> nat list \<Rightarrow> nat list option" where
  "finish_from adj [] visited fin = Some fin"
| "finish_from adj (start # starts) visited fin =
     (case get_at visited start of
        None \<Rightarrow> None
      | Some seen \<Rightarrow>
          if seen then finish_from adj starts visited fin
          else (case finish_loop adj [(start, 0)] (visited[start := True]) fin of
                  None \<Rightarrow> None
                | Some (visited', fin') \<Rightarrow> finish_from adj starts visited' fin'))"

definition finish_order :: "nat list list \<Rightarrow> nat list option" where
  "finish_order adj = finish_from adj [0..<length adj] (replicate (length adj) False) []"

text \<open>The loop of \<^verbatim>\<open>collect_components\<close> over the predecessors of a node.\<close>

fun push_unvisited :: "nat list \<Rightarrow> bool list \<Rightarrow> nat list \<Rightarrow> (bool list \<times> nat list) option" where
  "push_unvisited [] visited stack = Some (visited, stack)"
| "push_unvisited (target # targets) visited stack =
     (case get_at visited target of
        None \<Rightarrow> None
      | Some seen \<Rightarrow>
          if seen then push_unvisited targets visited stack
          else push_unvisited targets (visited[target := True]) (target # stack))"

lemma push_unvisited_size:
  "push_unvisited targets visited stack = Some (visited', stack') \<Longrightarrow>
   unvisited visited' + length stack' = unvisited visited + length stack"
proof (induction targets visited stack rule: push_unvisited.induct)
  case (2 target targets visited stack)
  then show ?case using unvisited_visit [of target visited] by (auto simp: get_at_def split: if_splits)
qed simp

function collect_loop ::
    "repo_path list \<Rightarrow> nat list list \<Rightarrow> nat list \<Rightarrow> bool list \<Rightarrow> repo_path btree_set
     \<Rightarrow> (bool list \<times> repo_path btree_set) option" where
  "collect_loop paths rvs [] visited component = Some (visited, component)"
| "collect_loop paths rvs (node # stack) visited component =
     (case get_at paths node of
        None \<Rightarrow> None
      | Some path \<Rightarrow>
          (case get_at rvs node of
             None \<Rightarrow> None
           | Some targets \<Rightarrow>
               (case push_unvisited (rev targets) visited stack of
                  None \<Rightarrow> None
                | Some (visited', stack') \<Rightarrow> collect_loop paths rvs stack' visited' (bs_insert path component))))"
  by pat_completeness auto
termination
  by (relation "measure (\<lambda>(paths, rvs, stack, visited, component). unvisited visited + length stack)")
    (auto dest!: push_unvisited_size)

fun collect_from ::
    "repo_path list \<Rightarrow> nat list list \<Rightarrow> nat list \<Rightarrow> bool list \<Rightarrow> repo_path btree_set list
     \<Rightarrow> repo_path btree_set list option" where
  "collect_from paths rvs [] visited comps = Some comps"
| "collect_from paths rvs (start # starts) visited comps =
     (case get_at visited start of
        None \<Rightarrow> None
      | Some seen \<Rightarrow>
          if seen then collect_from paths rvs starts visited comps
          else (case collect_loop paths rvs [start] (visited[start := True]) [] of
                  None \<Rightarrow> None
                | Some (visited', component) \<Rightarrow> collect_from paths rvs starts visited' (comps @ [component])))"

definition bs_first :: "'k btree_set \<Rightarrow> 'k option" where
  "bs_first s = (case s of [] \<Rightarrow> None | x # _ \<Rightarrow> Some x)"

definition collect_components ::
    "repo_path list \<Rightarrow> nat list list \<Rightarrow> nat list \<Rightarrow> repo_path btree_set list option" where
  "collect_components paths rvs fin =
     map_option (sort_key bs_first)
       (collect_from paths rvs (rev fin) (replicate (length paths) False) [])"

text \<open>The adjacency lists, forward and backward. The indexes are positions in \<open>paths\<close>, so the
  updates are in range.\<close>

definition path_indexes :: "repo_path list \<Rightarrow> (repo_path, nat) btree_map" where
  "path_indexes paths = bt_collect (zip paths [0..<length paths])"

definition add_edge ::
    "(repo_path, nat) btree_map \<Rightarrow> dependency_edge \<Rightarrow> nat list list \<times> nat list list \<Rightarrow> nat list list \<times> nat list list" where
  "add_edge indexes e g =
     (case (bt_get indexes (edge_from e), bt_get indexes (edge_to e)) of
        (Some from, Some to) \<Rightarrow>
          ((fst g)[from := fst g ! from @ [to]], (snd g)[to := snd g ! to @ [from]])
      | _ \<Rightarrow> g)"

definition edge_lists :: "repo_path list \<Rightarrow> dependency_edge list \<Rightarrow> nat list list \<times> nat list list" where
  "edge_lists paths edges =
     fold (add_edge (path_indexes paths)) edges (replicate (length paths) [], replicate (length paths) [])"

definition sort_dedup :: "'a::linorder list \<Rightarrow> 'a list" where
  "sort_dedup xs = remdups_adj (sort xs)"

definition components :: "repo_path btree_set \<Rightarrow> dependency_edge list \<Rightarrow> repo_path btree_set list option" where
  "components nodes edges =
     (let paths = nodes;
          g = edge_lists paths edges;
          fwd = map sort_dedup (fst g);
          bwd = map sort_dedup (snd g)
      in case finish_order fwd of None \<Rightarrow> None | Some fin \<Rightarrow> collect_components paths bwd fin)"

section \<open>Reachability over adjacency lists\<close>

definition graph_ok :: "nat list list \<Rightarrow> bool" where
  "graph_ok adj \<longleftrightarrow> (\<forall>ts\<in>set adj. \<forall>t\<in>set ts. t < length adj)"

definition arcs :: "nat list list \<Rightarrow> (nat \<times> nat) set" where
  "arcs adj = {(u, t). u < length adj \<and> t \<in> set (adj ! u)}"

definition mutual :: "('a \<times> 'a) set \<Rightarrow> ('a \<times> 'a) set" where
  "mutual R = {(a, b). (a, b) \<in> R\<^sup>* \<and> (b, a) \<in> R\<^sup>*}"

lemma mutual_refl [simp]: "(a, a) \<in> mutual R"
  by (simp add: mutual_def)

lemma mutual_sym: "(a, b) \<in> mutual R \<Longrightarrow> (b, a) \<in> mutual R"
  by (simp add: mutual_def)

lemma mutual_trans: "(a, b) \<in> mutual R \<Longrightarrow> (b, c) \<in> mutual R \<Longrightarrow> (a, c) \<in> mutual R"
  by (auto simp: mutual_def intro: rtrancl_trans)

lemma graph_okD: "graph_ok adj \<Longrightarrow> u < length adj \<Longrightarrow> t \<in> set (adj ! u) \<Longrightarrow> t < length adj"
  unfolding graph_ok_def by (meson nth_mem)

lemma graph_okI: "(\<And>u t. u < length adj \<Longrightarrow> t \<in> set (adj ! u) \<Longrightarrow> t < length adj) \<Longrightarrow> graph_ok adj"
  unfolding graph_ok_def by (metis in_set_conv_nth)

lemma arcs_in_range: "graph_ok adj \<Longrightarrow> (u, t) \<in> arcs adj \<Longrightarrow> t < length adj"
  by (auto simp: arcs_def graph_okD)

text \<open>Leaving a set whose successors lie in it or in a border passes through the border.\<close>

lemma escape:
  assumes "(v, s) \<in> R\<^sup>*" and "v \<in> F" and "s \<notin> F" and "\<And>u t. u \<in> F \<Longrightarrow> (u, t) \<in> R \<Longrightarrow> t \<in> F \<union> G"
  shows "\<exists>h\<in>G. (v, h) \<in> R\<^sup>* \<and> (h, s) \<in> R\<^sup>*"
  using assms(1-3)
proof (induction rule: converse_rtrancl_induct)
  case (step v w)
  show ?case
  proof (cases "w \<in> F")
    case True
    with step show ?thesis by (meson converse_rtrancl_into_rtrancl)
  next
    case False
    with assms(4) step have "w \<in> G" by blast
    with step show ?thesis by blast
  qed
qed simp

section \<open>The finish order\<close>

definition not_later :: "'a list \<Rightarrow> 'a \<Rightarrow> 'a \<Rightarrow> bool" where
  "not_later xs s x \<longleftrightarrow> (\<exists>i j. i \<le> j \<and> j < length xs \<and> xs ! i = s \<and> xs ! j = x)"

lemma not_later_append: "not_later xs s x \<Longrightarrow> not_later (xs @ ys) s x"
proof -
  assume "not_later xs s x"
  then obtain i j where "i \<le> j" "j < length xs" "xs ! i = s" "xs ! j = x" by (auto simp: not_later_def)
  then show ?thesis unfolding not_later_def
    by (intro exI [where x = i] exI [where x = j]) (simp add: nth_append)
qed

lemma not_later_last: "s \<in> set (xs @ [x]) \<Longrightarrow> not_later (xs @ [x]) s x"
  unfolding not_later_def in_set_conv_nth
  by (metis length_append_singleton less_Suc_eq_le lessI nth_append_length)

definition seen_set :: "bool list \<Rightarrow> nat set" where
  "seen_set visited = {i. i < length visited \<and> visited ! i}"

lemma seen_set_visit [simp]:
  "t < length visited \<Longrightarrow> seen_set (visited[t := True]) = insert t (seen_set visited)"
  by (auto simp: seen_set_def nth_list_update)

text \<open>What holds during the first search: the visited nodes are the finished ones and those on the
  stack; each stack entry reaches the entries above it; successors of finished nodes, and the
  successors already handled on the stack, are visited; and whatever a finished node reaches has
  finished no later than some node of the first one's component, unless that component still has
  a node on the stack.\<close>

definition search_inv :: "nat list list \<Rightarrow> (nat \<times> nat) list \<Rightarrow> bool list \<Rightarrow> nat list \<Rightarrow> bool" where
  "search_inv adj stack visited fin \<longleftrightarrow>
     length visited = length adj \<and>
     seen_set visited = set fin \<union> fst ` set stack \<and>
     distinct (fin @ map fst stack) \<and>
     sorted_wrt (\<lambda>hi lo. (fst lo, fst hi) \<in> (arcs adj)\<^sup>*) stack \<and>
     (\<forall>u t. u \<in> set fin \<longrightarrow> (u, t) \<in> arcs adj \<longrightarrow> t \<in> seen_set visited) \<and>
     (\<forall>e\<in>set stack. set (take (snd e) (adj ! fst e)) \<subseteq> seen_set visited) \<and>
     (\<forall>v s. v \<in> set fin \<longrightarrow> (v, s) \<in> (arcs adj)\<^sup>* \<longrightarrow>
        (\<exists>x\<in>fst ` set stack. (x, v) \<in> mutual (arcs adj)) \<or>
        (\<exists>x. (x, v) \<in> mutual (arcs adj) \<and> not_later fin s x))"

lemma search_invD:
  assumes "search_inv adj stack visited fin"
  shows "length visited = length adj"
    and "seen_set visited = set fin \<union> fst ` set stack"
    and "distinct (fin @ map fst stack)"
    and "sorted_wrt (\<lambda>hi lo. (fst lo, fst hi) \<in> (arcs adj)\<^sup>*) stack"
    and "\<And>u t. u \<in> set fin \<Longrightarrow> (u, t) \<in> arcs adj \<Longrightarrow> t \<in> seen_set visited"
    and "\<And>e. e \<in> set stack \<Longrightarrow> set (take (snd e) (adj ! fst e)) \<subseteq> seen_set visited"
    and "\<And>v s. v \<in> set fin \<Longrightarrow> (v, s) \<in> (arcs adj)\<^sup>* \<Longrightarrow>
        (\<exists>x\<in>fst ` set stack. (x, v) \<in> mutual (arcs adj)) \<or>
        (\<exists>x. (x, v) \<in> mutual (arcs adj) \<and> not_later fin s x)"
  using assms unfolding search_inv_def by blast+

lemma search_invI:
  assumes "length visited = length adj"
    and "seen_set visited = set fin \<union> fst ` set stack"
    and "distinct (fin @ map fst stack)"
    and "sorted_wrt (\<lambda>hi lo. (fst lo, fst hi) \<in> (arcs adj)\<^sup>*) stack"
    and "\<And>u t. u \<in> set fin \<Longrightarrow> (u, t) \<in> arcs adj \<Longrightarrow> t \<in> seen_set visited"
    and "\<And>e. e \<in> set stack \<Longrightarrow> set (take (snd e) (adj ! fst e)) \<subseteq> seen_set visited"
    and "\<And>v s. v \<in> set fin \<Longrightarrow> (v, s) \<in> (arcs adj)\<^sup>* \<Longrightarrow>
        (\<exists>x\<in>fst ` set stack. (x, v) \<in> mutual (arcs adj)) \<or>
        (\<exists>x. (x, v) \<in> mutual (arcs adj) \<and> not_later fin s x)"
  shows "search_inv adj stack visited fin"
  using assms unfolding search_inv_def by blast

lemma search_inv_skip:
  assumes "search_inv adj ((node, nxt) # stack) visited fin" "nxt < length (adj ! node)"
    "adj ! node ! nxt \<in> seen_set visited"
  shows "search_inv adj ((node, Suc nxt) # stack) visited fin"
proof (rule search_invI)
  note D = search_invD [OF assms(1)]
  show "set (take (snd e) (adj ! fst e)) \<subseteq> seen_set visited" if "e \<in> set ((node, Suc nxt) # stack)" for e
    using that D(6) [of e] D(6) [of "(node, nxt)"] assms(2,3) by (auto simp: take_Suc_conv_app_nth)
qed (use search_invD [OF assms(1)] in simp_all)

lemma search_inv_visit:
  assumes inv: "search_inv adj ((node, nxt) # stack) visited fin" and "nxt < length (adj ! node)"
    and t: "adj ! node ! nxt = t" "t < length visited" "\<not> visited ! t" and "node < length adj"
  shows "search_inv adj ((t, 0) # (node, Suc nxt) # stack) (visited[t := True]) fin"
proof -
  note D = search_invD [OF inv]
  have new: "t \<notin> seen_set visited" using t by (simp add: seen_set_def)
  have arc: "(node, t) \<in> (arcs adj)\<^sup>*"
    using assms by (auto simp: arcs_def)
  then have "(fst lo, t) \<in> (arcs adj)\<^sup>*" if "lo \<in> set stack" for lo
    using D(4) that by (auto intro: rtrancl_trans)
  note below = this
  show ?thesis
  proof (rule search_invI)
    show "set (take (snd e) (adj ! fst e)) \<subseteq> seen_set (visited[t := True])"
      if "e \<in> set ((t, 0) # (node, Suc nxt) # stack)" for e
      using that D(6) [of e] D(6) [of "(node, nxt)"] assms(2) t by (auto simp: take_Suc_conv_app_nth)
    show "seen_set (visited[t := True]) = set fin \<union> fst ` set ((t, 0) # (node, Suc nxt) # stack)"
      using t D(2) by simp
    show "distinct (fin @ map fst ((t, 0) # (node, Suc nxt) # stack))"
      using D(3) new unfolding D(2) by simp
    show "t' \<in> seen_set (visited[t := True])" if "u \<in> set fin" "(u, t') \<in> arcs adj" for u t'
      using D(5) [OF that] t by simp
    show "(\<exists>x\<in>fst ` set ((t, 0) # (node, Suc nxt) # stack). (x, v) \<in> mutual (arcs adj)) \<or>
        (\<exists>x. (x, v) \<in> mutual (arcs adj) \<and> not_later fin s x)"
      if "v \<in> set fin" "(v, s) \<in> (arcs adj)\<^sup>*" for v s
      using D(7) [OF that] by auto
  qed (use D(1,4) below arc in auto)
qed

lemma search_inv_finish:
  assumes inv: "search_inv adj ((node, nxt) # stack) visited fin" and over: "length (adj ! node) \<le> nxt"
  shows "search_inv adj stack visited (fin @ [node])"
proof -
  let ?R = "arcs adj" and ?F = "set (fin @ [node])" and ?G = "fst ` set stack"
  note D = search_invD [OF inv]
  have seen: "seen_set visited = ?F \<union> ?G" using D(2) by auto
  have succ: "t \<in> ?F \<union> ?G" if "u \<in> ?F" "(u, t) \<in> ?R" for u t
  proof (cases "u = node")
    case True
    have "set (adj ! node) \<subseteq> seen_set visited" using D(6) [of "(node, nxt)"] over by simp
    with True that seen show ?thesis unfolding arcs_def by blast
  next
    case False
    with that D(5) have "t \<in> seen_set visited" by auto
    with seen show ?thesis by simp
  qed
  have below: "(h, node) \<in> ?R\<^sup>*" if "h \<in> ?G" for h
    using D(4) that by auto
  have top: "(\<exists>x\<in>?G. (x, node) \<in> mutual ?R) \<or> not_later (fin @ [node]) s node"
    if "(node, s) \<in> ?R\<^sup>*" for s
  proof (cases "s \<in> ?F")
    case False
    from escape [OF that _ this succ] below show ?thesis by (force simp: mutual_def)
  qed (simp add: not_later_last)
  have main: "(\<exists>x\<in>?G. (x, v) \<in> mutual ?R) \<or> (\<exists>x. (x, v) \<in> mutual ?R \<and> not_later (fin @ [node]) s x)"
    if "v \<in> ?F" "(v, s) \<in> ?R\<^sup>*" for v s
  proof (cases "(node, v) \<in> mutual ?R")
    case True
    then have "(node, s) \<in> ?R\<^sup>*" using that by (auto simp: mutual_def intro: rtrancl_trans)
    from top [OF this] show ?thesis using mutual_trans [OF _ True] True by blast
  next
    case False
    then have "v \<in> set fin" using that by auto
    then have "(\<exists>x\<in>insert node ?G. (x, v) \<in> mutual ?R) \<or> (\<exists>x. (x, v) \<in> mutual ?R \<and> not_later fin s x)"
      using D(7) [of v s] that(2) by simp
    with False show ?thesis using not_later_append [of fin s _ "[node]"] by blast
  qed
  show ?thesis
  proof (rule search_invI)
    show "t \<in> seen_set visited" if "u \<in> ?F" "(u, t) \<in> ?R" for u t
      using succ [OF that] seen by simp
    show "(\<exists>x\<in>?G. (x, v) \<in> mutual ?R) \<or> (\<exists>x. (x, v) \<in> mutual ?R \<and> not_later (fin @ [node]) s x)"
      if "v \<in> ?F" "(v, s) \<in> ?R\<^sup>*" for v s
      by (rule main [OF that])
  qed (use D(1,3,4,6) seen in auto)
qed

lemma finish_loop_inv:
  assumes "graph_ok adj" and "search_inv adj stack visited fin"
  shows "\<exists>visited' fin'. finish_loop adj stack visited fin = Some (visited', fin') \<and>
           search_inv adj [] visited' fin' \<and> seen_set visited \<subseteq> seen_set visited'"
  using assms
proof (induction adj stack visited fin rule: finish_loop.induct)
  case (2 adj node nxt stack visited fin)
  have node: "node < length adj" and len: "length visited = length adj"
    using 2(5) by (auto simp: search_inv_def seen_set_def)
  have targets: "get_at adj node = Some (adj ! node)" using node by (simp add: get_at_def)
  show ?case
  proof (cases "nxt < length (adj ! node)")
    case False
    then have "get_at (adj ! node) nxt = None" by (simp add: get_at_def)
    with 2(1) [OF targets this 2(4)] search_inv_finish [OF 2(5)] False targets show ?thesis by simp
  next
    case True
    define t where "t = adj ! node ! nxt"
    have target: "get_at (adj ! node) nxt = Some t" using True by (simp add: get_at_def t_def)
    have t: "t < length visited" using graph_okD [OF 2(4) node] True len by (simp add: t_def)
    then have flag: "get_at visited t = Some (visited ! t)" by (simp add: get_at_def)
    show ?thesis
    proof (cases "visited ! t")
      case seen: True
      then have "search_inv adj ((node, Suc nxt) # stack) visited fin"
        using 2(5) True t by (intro search_inv_skip) (simp_all add: seen_set_def t_def)
      from 2(2) [OF targets target flag seen 2(4) this] show ?thesis
        by (simp add: targets target flag seen)
    next
      case unseen: False
      then have "search_inv adj ((t, 0) # (node, Suc nxt) # stack) (visited[t := True]) fin"
        using 2(5) True t node by (intro search_inv_visit) (simp_all add: t_def)
      from 2(3) [OF targets target flag unseen 2(4) this] show ?thesis
        using t by (subst finish_loop.simps(2)) (auto simp: targets target flag unseen simp del: finish_loop.simps)
    qed
  qed
qed simp

lemma finish_from_inv:
  assumes "graph_ok adj" and "search_inv adj [] visited fin" and "set starts \<subseteq> {..<length adj}"
  shows "\<exists>visited' fin'. finish_from adj starts visited fin = Some fin' \<and> search_inv adj [] visited' fin' \<and>
           seen_set visited \<union> set starts \<subseteq> seen_set visited'"
  using assms(2,3)
proof (induction starts arbitrary: visited fin)
  case (Cons start starts)
  then have start: "start < length visited" by (auto dest: search_invD(1))
  then have flag: "get_at visited start = Some (visited ! start)" by (simp add: get_at_def)
  show ?case
  proof (cases "visited ! start")
    case True
    then have "start \<in> seen_set visited" using start by (simp add: seen_set_def)
    with Cons.IH [OF Cons.prems(1)] Cons.prems(2) True flag show ?thesis by fastforce
  next
    case False
    note D = search_invD [OF Cons.prems(1)]
    have new: "start \<notin> seen_set visited" using False by (simp add: seen_set_def)
    have "search_inv adj [(start, 0)] (visited[start := True]) fin"
    proof (rule search_invI)
      show "distinct (fin @ map fst [(start, 0)])" using D(2,3) new by simp
      show "t \<in> seen_set (visited[start := True])" if "u \<in> set fin" "(u, t) \<in> arcs adj" for u t
        using D(5) [OF that] start by simp
      show "(\<exists>x\<in>fst ` set [(start, 0)]. (x, v) \<in> mutual (arcs adj)) \<or>
          (\<exists>x. (x, v) \<in> mutual (arcs adj) \<and> not_later fin s x)"
        if "v \<in> set fin" "(v, s) \<in> (arcs adj)\<^sup>*" for v s
        using D(7) [OF that] by auto
    qed (use D(1,2) start in auto)
    from finish_loop_inv [OF assms(1) this] obtain visited' fin' where
      step: "finish_loop adj [(start, 0)] (visited[start := True]) fin = Some (visited', fin')"
        "search_inv adj [] visited' fin'" "insert start (seen_set visited) \<subseteq> seen_set visited'"
      using start by auto
    from Cons.IH [OF step(2)] Cons.prems(2) obtain visited'' fin'' where
      "finish_from adj starts visited' fin' = Some fin''" "search_inv adj [] visited'' fin''"
      "seen_set visited' \<union> set starts \<subseteq> seen_set visited''" by auto
    with step False flag show ?thesis by (auto simp del: finish_loop.simps)
  qed
qed auto

text \<open>The first search lists every node once, and every node is followed, at or after each node
  it reaches, by a node of its own component.\<close>

lemma finish_order_spec:
  assumes "graph_ok adj"
  shows "\<exists>fin. finish_order adj = Some fin \<and> distinct fin \<and> set fin = {..<length adj} \<and>
           (\<forall>v s. v < length adj \<longrightarrow> (v, s) \<in> (arcs adj)\<^sup>* \<longrightarrow>
              (\<exists>x. (x, v) \<in> mutual (arcs adj) \<and> not_later fin s x))"
proof -
  have "search_inv adj [] (replicate (length adj) False) []"
    by (auto simp: search_inv_def seen_set_def)
  from finish_from_inv [OF assms this, of "[0..<length adj]"] obtain visited fin where
    fin: "finish_order adj = Some fin" and inv: "search_inv adj [] visited fin"
    and all: "{..<length adj} \<subseteq> seen_set visited"
    by (auto simp: finish_order_def atLeast0LessThan)
  note D = search_invD [OF inv]
  have "seen_set visited = {..<length adj}" using all D(1) by (auto simp: seen_set_def)
  with fin D(2,3,7) show ?thesis by auto
qed

section \<open>Collecting the components\<close>

lemma push_unvisited_spec:
  assumes "\<forall>t\<in>set targets. t < length visited"
  shows "\<exists>visited' new. push_unvisited targets visited stack = Some (visited', new @ stack) \<and>
    length visited' = length visited \<and> set new = set targets - seen_set visited \<and>
    seen_set visited' = seen_set visited \<union> set targets"
  using assms
proof (induction targets arbitrary: visited stack)
  case (Cons t targets)
  then have flag: "get_at visited t = Some (visited ! t)" by (simp add: get_at_def)
  show ?case
  proof (cases "visited ! t")
    case True
    then have "t \<in> seen_set visited" using Cons.prems by (simp add: seen_set_def)
    with Cons.IH [of visited stack] Cons.prems True flag show ?thesis by fastforce
  next
    case False
    from Cons.IH [of "visited[t := True]" "t # stack"] Cons.prems obtain visited' new where
      "push_unvisited targets (visited[t := True]) (t # stack) = Some (visited', new @ t # stack)"
      "length visited' = length visited" "set new = set targets - insert t (seen_set visited)"
      "seen_set visited' = insert t (seen_set visited) \<union> set targets" by auto
    moreover have "t \<notin> seen_set visited" using False by (simp add: seen_set_def)
    ultimately show ?thesis using False flag
      by (intro exI [where x = visited'] exI [where x = "new @ [t]"]) auto
  qed
qed simp

text \<open>During the second search: \<open>W\<close> is what earlier components took, \<open>D\<close> what this one has so far.\<close>

lemma collect_loop_spec:
  assumes "graph_ok rvs" and "length visited = length rvs" and "length paths = length rvs"
    and "seen_set visited = W \<union> D \<union> set stack" and "W \<inter> (D \<union> set stack) = {}"
    and "\<And>x. x \<in> D \<union> set stack \<Longrightarrow> (start, x) \<in> (arcs rvs)\<^sup>*"
    and "\<And>x t. x \<in> D \<Longrightarrow> (x, t) \<in> arcs rvs \<Longrightarrow> t \<in> W \<union> D \<union> set stack"
    and "set component = (!) paths ` D" and "bs_wf component"
  shows "\<exists>visited' component' D'. collect_loop paths rvs stack visited component = Some (visited', component') \<and>
      length visited' = length rvs \<and> seen_set visited' = W \<union> D' \<and> W \<inter> D' = {} \<and> D \<union> set stack \<subseteq> D' \<and>
      (\<forall>x\<in>D'. (start, x) \<in> (arcs rvs)\<^sup>*) \<and> (\<forall>x t. x \<in> D' \<longrightarrow> (x, t) \<in> arcs rvs \<longrightarrow> t \<in> W \<union> D') \<and>
      set component' = (!) paths ` D' \<and> bs_wf component'"
  using assms
proof (induction paths rvs stack visited component arbitrary: D rule: collect_loop.induct)
  case (1 paths rvs visited component)
  then show ?case by (intro exI [where x = visited] exI [where x = component] exI [where x = D]) auto
next
  case (2 paths rvs node stack visited component)
  note P = 2(2-)
  have node: "node < length rvs" using P(2,4) by (auto simp: seen_set_def)
  have targets: "get_at rvs node = Some (rvs ! node)" and path: "get_at paths node = Some (paths ! node)"
    using node P(3) by (simp_all add: get_at_def)
  have "\<forall>t\<in>set (rev (rvs ! node)). t < length visited"
    using graph_okD [OF P(1) node] P(2) by simp
  from push_unvisited_spec [OF this, of stack] obtain visited' new where
    push: "push_unvisited (rev (rvs ! node)) visited stack = Some (visited', new @ stack)"
    and len: "length visited' = length visited" and new: "set new = set (rvs ! node) - seen_set visited"
    and seen: "seen_set visited' = seen_set visited \<union> set (rvs ! node)" by auto
  have reach: "(start, x) \<in> (arcs rvs)\<^sup>*" if "x \<in> insert node D \<union> set (new @ stack)" for x
  proof (cases "x \<in> set new")
    case True
    then have "(node, x) \<in> arcs rvs" using new node by (auto simp: arcs_def)
    with P(6) [of node] show ?thesis by (auto intro: rtrancl_into_rtrancl)
  next
    case False
    with that P(6) [of x] show ?thesis by auto
  qed
  have closed: "t \<in> W \<union> insert node D \<union> set (new @ stack)" if "x \<in> insert node D" "(x, t) \<in> arcs rvs" for x t
  proof (cases "x = node")
    case True
    with that new P(4) show ?thesis by (auto simp: arcs_def)
  next
    case False
    with that P(7) [of x t] show ?thesis by auto
  qed
  have "\<exists>visited'' component' D'. collect_loop paths rvs (new @ stack) visited' (bs_insert (paths ! node) component)
        = Some (visited'', component') \<and>
      length visited'' = length rvs \<and> seen_set visited'' = W \<union> D' \<and> W \<inter> D' = {} \<and>
      insert node D \<union> set (new @ stack) \<subseteq> D' \<and>
      (\<forall>x\<in>D'. (start, x) \<in> (arcs rvs)\<^sup>*) \<and> (\<forall>x t. x \<in> D' \<longrightarrow> (x, t) \<in> arcs rvs \<longrightarrow> t \<in> W \<union> D') \<and>
      set component' = (!) paths ` D' \<and> bs_wf component'"
    by (rule 2(1) [OF path targets push refl P(1) _ P(3) _ _ reach closed])
      (use P len new seen in auto)
  then show ?case by (auto simp: path targets push simp del: collect_loop.simps(2) simp: collect_loop.simps(2) [of paths rvs node])
qed

lemma not_later_split:
  assumes "not_later xs s x" and "rev xs = before @ s # rest" and "distinct xs"
  shows "x \<in> insert s (set before)"
proof -
  from assms(1) obtain i j where ij: "i \<le> j" "j < length xs" "xs ! i = s" "xs ! j = x"
    by (auto simp: not_later_def)
  have xs: "xs = rev rest @ s # rev before"
    using arg_cong [OF assms(2), of rev] by simp
  have "i = length rest"
    using assms(3) ij nth_eq_iff_index_eq [of xs i "length rest"] by (simp add: xs nth_append)
  then have "x = (s # rev before) ! (j - length rest)" and "j - length rest < length (s # rev before)"
    using ij by (auto simp: xs nth_append)
  then have "x \<in> set (s # rev before)" by (metis nth_mem)
  then show ?thesis by simp
qed

definition scc_of :: "nat list list \<Rightarrow> nat \<Rightarrow> nat set" where
  "scc_of adj i = mutual (arcs adj) `` {i}"

lemma scc_of_self [simp]: "i \<in> scc_of adj i"
  by (simp add: scc_of_def)

lemma scc_of_eq: "j \<in> scc_of adj i \<Longrightarrow> scc_of adj j = scc_of adj i"
  unfolding scc_of_def using mutual_trans mutual_sym by fast

lemma reach_in_range: "(i, j) \<in> (arcs adj)\<^sup>* \<Longrightarrow> graph_ok adj \<Longrightarrow> i < length adj \<Longrightarrow> j < length adj"
  by (induction rule: rtrancl_induct) (auto dest: arcs_in_range)

lemma scc_of_in_range: "graph_ok adj \<Longrightarrow> i < length adj \<Longrightarrow> scc_of adj i \<subseteq> {..<length adj}"
  by (auto simp: scc_of_def mutual_def dest: reach_in_range)

lemma collected_is_scc:
  assumes rvs: "arcs rvs = (arcs adj)\<inverse>" and "distinct fin" and fin: "rev fin = before @ start # rest"
    and followed: "\<And>v s. v < length adj \<Longrightarrow> (v, s) \<in> (arcs adj)\<^sup>* \<Longrightarrow>
        \<exists>x. (x, v) \<in> mutual (arcs adj) \<and> not_later fin s x"
    and "set before \<subseteq> W" and W: "\<And>x y. x \<in> W \<Longrightarrow> (x, y) \<in> mutual (arcs adj) \<Longrightarrow> y \<in> W"
    and "start \<notin> W" and D: "start \<in> D" "D \<subseteq> {..<length adj}" "W \<inter> D = {}"
    and reach: "\<And>x. x \<in> D \<Longrightarrow> (start, x) \<in> (arcs rvs)\<^sup>*"
    and closed: "\<And>x t. x \<in> D \<Longrightarrow> (x, t) \<in> arcs rvs \<Longrightarrow> t \<in> D \<union> W"
  shows "D = scc_of adj start"
proof (rule set_eqI, rule iffI)
  fix x assume x: "x \<in> D"
  then have "(x, start) \<in> (arcs adj)\<^sup>*" using reach by (simp add: rvs rtrancl_converse)
  from followed [OF _ this] x D(2) obtain z where z: "(z, x) \<in> mutual (arcs adj)" "not_later fin start z"
    by auto
  have "z \<notin> W" using W z(1) x D(3) by blast
  then have "z = start" using not_later_split [OF z(2) fin assms(2)] assms(5) by auto
  with z(1) show "x \<in> scc_of adj start" by (simp add: scc_of_def)
next
  fix y assume "y \<in> scc_of adj start"
  then have y: "(start, y) \<in> (arcs adj)\<^sup>*" "(y, start) \<in> (arcs adj)\<^sup>*"
    by (simp_all add: scc_of_def mutual_def)
  then have "(start, y) \<in> (arcs rvs)\<^sup>*" by (simp add: rvs rtrancl_converse)
  show "y \<in> D"
  proof (rule ccontr)
    assume "y \<notin> D"
    have "\<exists>h\<in>W. (start, h) \<in> (arcs rvs)\<^sup>* \<and> (h, y) \<in> (arcs rvs)\<^sup>*"
      by (rule escape [OF \<open>(start, y) \<in> (arcs rvs)\<^sup>*\<close> D(1) \<open>y \<notin> D\<close>]) (rule closed)
    then obtain h where "h \<in> W" "(y, h) \<in> (arcs adj)\<^sup>*" "(h, start) \<in> (arcs adj)\<^sup>*"
      by (auto simp: rvs rtrancl_converse)
    then have "(h, start) \<in> mutual (arcs adj)" using y by (auto simp: mutual_def intro: rtrancl_trans)
    with W \<open>h \<in> W\<close> \<open>start \<notin> W\<close> show False by blast
  qed
qed

lemma collect_from_spec:
  assumes ok: "graph_ok adj" "graph_ok rvs" and len: "length rvs = length adj" "length paths = length adj"
    and rvs: "arcs rvs = (arcs adj)\<inverse>" and "distinct fin" and fin: "set fin = {..<length adj}"
    and followed: "\<And>v s. v < length adj \<Longrightarrow> (v, s) \<in> (arcs adj)\<^sup>* \<Longrightarrow>
        \<exists>x. (x, v) \<in> mutual (arcs adj) \<and> not_later fin s x"
    and "distinct paths"
    and "rev fin = before @ starts" and "set before \<subseteq> seen_set visited" and "length visited = length adj"
    and "\<And>x y. x \<in> seen_set visited \<Longrightarrow> (x, y) \<in> mutual (arcs adj) \<Longrightarrow> y \<in> seen_set visited"
    and "set ` set comps = (\<lambda>i. (!) paths ` scc_of adj i) ` seen_set visited"
    and "distinct comps" and "\<forall>c\<in>set comps. bs_wf c"
  shows "\<exists>comps'. collect_from paths rvs starts visited comps = Some comps' \<and>
      set ` set comps' = (\<lambda>i. (!) paths ` scc_of adj i) ` {..<length adj} \<and>
      distinct comps' \<and> (\<forall>c\<in>set comps'. bs_wf c)"
  using assms(10-16)
proof (induction starts arbitrary: before visited comps)
  case Nil
  have "set (rev fin) \<subseteq> seen_set visited" unfolding Nil(1) using Nil(2) by simp
  then have "{..<length adj} \<subseteq> seen_set visited" by (simp add: fin)
  then have "seen_set visited = {..<length adj}" using Nil(3) by (auto simp: seen_set_def)
  with Nil(5-7) show ?case by simp
next
  case (Cons start starts)
  note P = Cons.prems
  have "start \<in> set (rev fin)" unfolding P(1) by simp
  then have start: "start < length adj" by (simp add: fin)
  then have flag: "get_at visited start = Some (visited ! start)" using P(3) by (simp add: get_at_def)
  show ?case
  proof (cases "visited ! start")
    case True
    then have "set (before @ [start]) \<subseteq> seen_set visited" using P(2,3) start by (simp add: seen_set_def)
    from Cons.IH [of "before @ [start]", OF _ this P(3-7)] P(1) True flag show ?thesis by simp
  next
    case False
    let ?W = "seen_set visited"
    have new: "start \<notin> ?W" using False by (simp add: seen_set_def)
    have "\<exists>visited' component D. collect_loop paths rvs [start] (visited[start := True]) [] = Some (visited', component) \<and>
      length visited' = length rvs \<and> seen_set visited' = ?W \<union> D \<and> ?W \<inter> D = {} \<and> {} \<union> set [start] \<subseteq> D \<and>
      (\<forall>x\<in>D. (start, x) \<in> (arcs rvs)\<^sup>*) \<and> (\<forall>x t. x \<in> D \<longrightarrow> (x, t) \<in> arcs rvs \<longrightarrow> t \<in> ?W \<union> D) \<and>
      set component = (!) paths ` D \<and> bs_wf component"
      by (rule collect_loop_spec) (use ok len P(3) start new in auto)
    then obtain visited' component D where
      loop: "collect_loop paths rvs [start] (visited[start := True]) [] = Some (visited', component)"
      and len0: "length visited' = length rvs" and seen0: "seen_set visited' = ?W \<union> D" "?W \<inter> D = {}"
        "{} \<union> set [start] \<subseteq> D"
      and D: "\<forall>x\<in>D. (start, x) \<in> (arcs rvs)\<^sup>*" "\<forall>x t. x \<in> D \<longrightarrow> (x, t) \<in> arcs rvs \<longrightarrow> t \<in> ?W \<union> D"
      and component: "set component = (!) paths ` D" "bs_wf component"
      by (elim exE conjE) (rule that; assumption)
    note seen = seen0(1,2) seen0(3) [simplified] and len' = len0 [unfolded len(1)]
    have range: "D \<subseteq> {..<length adj}" using seen(1) len' by (auto simp: seen_set_def)
    have scc: "D = scc_of adj start"
      by (rule collected_is_scc [OF rvs \<open>distinct fin\<close> P(1) followed P(2,4) new seen(3) range seen(2)])
        (use D in auto)
    have "component \<notin> set comps"
    proof
      assume "component \<in> set comps"
      then have "set component \<in> (\<lambda>i. (!) paths ` scc_of adj i) ` ?W"
        unfolding P(5) [symmetric] by (rule imageI)
      then obtain i where i: "i \<in> ?W" "(!) paths ` D = (!) paths ` scc_of adj i"
        unfolding component(1) by (rule imageE) simp
      have "i < length adj" using i(1) P(3) by (simp add: seen_set_def)
      then have "D = scc_of adj i"
        using i(2) range scc_of_in_range [OF ok(1)] inj_on_nth [OF \<open>distinct paths\<close>, of "{..<length adj}"] len(2)
        by (subst (asm) inj_on_image_eq_iff) auto
      with seen(2) i(1) show False by auto
    qed
    moreover have "set ` set (comps @ [component]) = (\<lambda>i. (!) paths ` scc_of adj i) ` seen_set visited'"
    proof -
      have "scc_of adj i = D" if "i \<in> D" for i
        using that scc_of_eq [of i adj start] by (simp add: scc)
      then have "(\<lambda>i. (!) paths ` scc_of adj i) ` D = {set component}"
        using seen(3) component(1) by force
      then show ?thesis using P(5) by (simp add: seen(1) image_Un)
    qed
    moreover have "y \<in> seen_set visited'" if "x \<in> seen_set visited'" "(x, y) \<in> mutual (arcs adj)" for x y
      using that P(4) [of x y] scc_of_eq [of x adj start] unfolding seen(1) scc
      by (auto simp: scc_of_def)
    moreover have "set (before @ [start]) \<subseteq> seen_set visited'" using P(2) seen by auto
    ultimately show ?thesis
      using Cons.IH [of "before @ [start]" visited' "comps @ [component]"] P(1,6,7) component(2) len' loop flag False
      by (simp del: collect_loop.simps)
  qed
qed

section \<open>Components of paths\<close>

definition edge_rel :: "repo_path btree_set \<Rightarrow> dependency_edge list \<Rightarrow> (repo_path \<times> repo_path) set" where
  "edge_rel nodes edges =
     {(a, b). a \<in> set nodes \<and> b \<in> set nodes \<and> (\<exists>e\<in>set edges. edge_from e = a \<and> edge_to e = b)}"

lemma path_indexes_get:
  assumes "distinct paths"
  shows "bt_get (path_indexes paths) p = Some i \<longleftrightarrow> i < length paths \<and> paths ! i = p"
proof -
  have keys: "map fst (zip paths [0..<length paths]) = paths" by simp
  then have "distinct (map fst (rev (zip paths [0..<length paths])))"
    using assms by (simp add: rev_map [symmetric])
  then have "bt_get (path_indexes paths) p = Some i \<longleftrightarrow> (p, i) \<in> set (zip paths [0..<length paths])"
    unfolding path_indexes_def bt_get_collect by (subst map_of_eq_Some_iff) auto
  also have "\<dots> \<longleftrightarrow> i < length paths \<and> paths ! i = p"
    by (auto simp: set_zip)
  finally show ?thesis .
qed

lemma add_edges_spec:
  assumes "distinct paths"
  shows "length (fst (edge_lists paths edges)) = length paths \<and> length (snd (edge_lists paths edges)) = length paths \<and>
    (\<forall>u<length paths. \<forall>t.
       (t \<in> set (fst (edge_lists paths edges) ! u)
          \<longleftrightarrow> t < length paths \<and> (\<exists>e\<in>set edges. edge_from e = paths ! u \<and> edge_to e = paths ! t)) \<and>
       (t \<in> set (snd (edge_lists paths edges) ! u)
          \<longleftrightarrow> t < length paths \<and> (\<exists>e\<in>set edges. edge_from e = paths ! t \<and> edge_to e = paths ! u)))"
proof (induction edges rule: rev_induct)
  case (snoc e edges)
  let ?g = "edge_lists paths edges"
  have step: "edge_lists paths (edges @ [e]) = add_edge (path_indexes paths) e ?g"
    by (simp add: edge_lists_def)
  show ?case
  proof (cases "\<exists>i j. i < length paths \<and> j < length paths \<and> edge_from e = paths ! i \<and> edge_to e = paths ! j")
    case True
    then obtain i j where ij: "i < length paths" "j < length paths" "edge_from e = paths ! i" "edge_to e = paths ! j"
      by blast
    then have "bt_get (path_indexes paths) (edge_from e) = Some i" "bt_get (path_indexes paths) (edge_to e) = Some j"
      by (simp_all add: path_indexes_get [OF assms])
    then have "add_edge (path_indexes paths) e ?g =
        ((fst ?g)[i := fst ?g ! i @ [j]], (snd ?g)[j := snd ?g ! j @ [i]])"
      by (simp add: add_edge_def)
    moreover have "paths ! u = paths ! v \<longleftrightarrow> u = v" if "u < length paths" "v < length paths" for u v
      using assms that by (simp add: nth_eq_iff_index_eq)
    ultimately show ?thesis using snoc ij by (auto simp: step nth_list_update)
  next
    case False
    then have "bt_get (path_indexes paths) (edge_from e) = None \<or> bt_get (path_indexes paths) (edge_to e) = None"
      using path_indexes_get [OF assms] by (metis not_None_eq)
    then have "add_edge (path_indexes paths) e ?g = ?g"
      by (auto simp: add_edge_def split: option.splits)
    with snoc False show ?thesis by (auto simp: step)
  qed
qed (simp add: edge_lists_def)

lemma rtrancl_nth:
  assumes "distinct paths" and R: "\<And>i j. (i, j) \<in> A \<longleftrightarrow> i < length paths \<and> j < length paths \<and> (paths ! i, paths ! j) \<in> R"
    and "R \<subseteq> set paths \<times> set paths" and "i < length paths" and "j < length paths"
  shows "(i, j) \<in> A\<^sup>* \<longleftrightarrow> (paths ! i, paths ! j) \<in> R\<^sup>*"
proof
  show "(paths ! i, paths ! j) \<in> R\<^sup>*" if "(i, j) \<in> A\<^sup>*"
    using that by (induction rule: rtrancl_induct) (auto simp: R intro: rtrancl_into_rtrancl)
next
  have "q = paths ! k \<longrightarrow> k < length paths \<longrightarrow> (i, k) \<in> A\<^sup>*" if "(paths ! i, q) \<in> R\<^sup>*" for q k
    using that
  proof (induction arbitrary: k rule: rtrancl_induct)
    case base
    then show ?case using assms(1,4) by (auto simp: nth_eq_iff_index_eq)
  next
    case (step p q)
    from step.hyps(2) assms(3) have "p \<in> set paths" by auto
    then obtain m where m: "m < length paths" "p = paths ! m" by (auto simp: in_set_conv_nth)
    show ?case
    proof (intro impI)
      assume "q = paths ! k" "k < length paths"
      with m step.hyps(2) have "(m, k) \<in> A" by (simp add: R)
      moreover have "(i, m) \<in> A\<^sup>*" using step.IH [of m] m by simp
      ultimately show "(i, k) \<in> A\<^sup>*" by simp
    qed
  qed
  then show "(paths ! i, paths ! j) \<in> R\<^sup>* \<Longrightarrow> (i, j) \<in> A\<^sup>*" using assms(5) by blast
qed

lemma set_sort_dedup [simp]: "set (sort_dedup xs) = set xs"
  by (simp add: sort_dedup_def)

lemma reach_in_nodes: "(a, b) \<in> (edge_rel nodes edges)\<^sup>* \<Longrightarrow> a \<in> set nodes \<Longrightarrow> b \<in> set nodes"
  by (induction rule: rtrancl_induct) (auto simp: edge_rel_def)

lemma components_spec:
  assumes "bs_wf nodes"
  shows "\<exists>comps. components nodes edges = Some comps \<and>
    set ` set comps = set nodes // mutual (edge_rel nodes edges) \<and>
    distinct comps \<and> (\<forall>c\<in>set comps. bs_wf c) \<and> sorted (map bs_first comps)"
proof -
  let ?n = "length nodes" and ?R = "edge_rel nodes edges"
  define g where "g = edge_lists nodes edges"
  define fwd where "fwd = map sort_dedup (fst g)"
  define bwd where "bwd = map sort_dedup (snd g)"
  have dist: "distinct nodes" using assms by (rule bs_wf_distinct)
  note spec = add_edges_spec [OF dist, of edges, folded g_def]
  have len: "length fwd = ?n" "length bwd = ?n" using spec by (simp_all add: fwd_def bwd_def)
  have fwd: "t \<in> set (fwd ! u) \<longleftrightarrow> t < ?n \<and> (nodes ! u, nodes ! t) \<in> ?R" if "u < ?n" for u t
    using spec that by (auto simp: fwd_def edge_rel_def)
  have bwd: "t \<in> set (bwd ! u) \<longleftrightarrow> t < ?n \<and> (nodes ! t, nodes ! u) \<in> ?R" if "u < ?n" for u t
    using spec that by (auto simp: bwd_def edge_rel_def)
  have ok: "graph_ok fwd" "graph_ok bwd"
    using fwd bwd len by (auto intro!: graph_okI)
  have arcs: "(i, j) \<in> arcs fwd \<longleftrightarrow> i < ?n \<and> j < ?n \<and> (nodes ! i, nodes ! j) \<in> ?R" for i j
    using fwd len by (auto simp: arcs_def)
  have conv: "arcs bwd = (arcs fwd)\<inverse>"
    using fwd bwd len by (auto simp: arcs_def)
  obtain fin where fin: "finish_order fwd = Some fin" "distinct fin" "set fin = {..<length fwd}"
    and followed: "\<And>v s. v < length fwd \<Longrightarrow> (v, s) \<in> (arcs fwd)\<^sup>* \<Longrightarrow>
        \<exists>x. (x, v) \<in> mutual (arcs fwd) \<and> not_later fin s x"
    using finish_order_spec [OF ok(1)] by blast
  have "\<exists>comps. collect_from nodes bwd (rev fin) (replicate ?n False) [] = Some comps \<and>
      set ` set comps = (\<lambda>i. (!) nodes ` scc_of fwd i) ` {..<length fwd} \<and>
      distinct comps \<and> (\<forall>c\<in>set comps. bs_wf c)"
    by (rule collect_from_spec [where before = "[]", OF ok _ _ conv fin(2,3) followed dist])
      (use len in \<open>auto simp: seen_set_def\<close>)
  then obtain comps where comps: "collect_from nodes bwd (rev fin) (replicate ?n False) [] = Some comps"
    "set ` set comps = (\<lambda>i. (!) nodes ` scc_of fwd i) ` {..<?n}" "distinct comps" "\<forall>c\<in>set comps. bs_wf c"
    using len by auto
  have "(!) nodes ` scc_of fwd i = mutual ?R `` {nodes ! i}" if "i < ?n" for i
  proof -
    have R: "?R \<subseteq> set nodes \<times> set nodes" by (auto simp: edge_rel_def)
    have scc: "j \<in> scc_of fwd i \<longleftrightarrow> (nodes ! i, nodes ! j) \<in> mutual ?R" if "j < ?n" for j
      using rtrancl_nth [OF dist arcs R] that \<open>i < ?n\<close> by (simp add: scc_of_def mutual_def)
    have "scc_of fwd i \<subseteq> {..<?n}" using scc_of_in_range [OF ok(1)] len that by simp
    moreover have "mutual ?R `` {nodes ! i} \<subseteq> set nodes"
      using that by (auto simp: mutual_def dest: reach_in_nodes)
    ultimately show ?thesis using scc
      by (auto simp: in_set_conv_nth subset_iff image_iff) (metis Image_singleton_iff)
  qed
  then have "set ` set comps = set nodes // mutual ?R"
    using comps(2) by (auto simp: quotient_def set_conv_nth)
  with comps(1,3,4) fin(1) show ?thesis
    by (auto simp: components_def Let_def g_def [symmetric] fwd_def [symmetric] bwd_def [symmetric] collect_components_def)
qed

section \<open>Properties\<close>

text \<open>
  C22. The component search never panics and is exact: on any node set it returns, ordered by
  first member and without repetition, precisely the classes of nodes that reach one another along
  the given edges, each as an ordered set.
\<close>

theorem components_exact:
  assumes "bs_wf nodes"
  shows "\<exists>comps. components nodes edges = Some comps \<and>
    set ` set comps = set nodes // mutual (edge_rel nodes edges) \<and>
    distinct comps \<and> (\<forall>c\<in>set comps. bs_wf c) \<and> sorted (map bs_first comps)"
  using assms by (rule components_spec)

theorem components_exact_witness:
  "\<exists>comps. components [RepoPath ''a'', RepoPath ''b'']
      [\<lparr> edge_from = RepoPath ''a'', edge_to = RepoPath ''b'', edge_kind = EdgeRuntime \<rparr>] = Some comps \<and>
    set ` set comps = set [RepoPath ''a'', RepoPath ''b''] // mutual (edge_rel [RepoPath ''a'', RepoPath ''b'']
      [\<lparr> edge_from = RepoPath ''a'', edge_to = RepoPath ''b'', edge_kind = EdgeRuntime \<rparr>]) \<and> distinct comps"
  using components_exact [of "[RepoPath ''a'', RepoPath ''b'']"
      "[\<lparr> edge_from = RepoPath ''a'', edge_to = RepoPath ''b'', edge_kind = EdgeRuntime \<rparr>]"]
  by (auto simp: less_repo_path_def)

end
