(* ===== verification/DepGraph.thy ===== *)
theory DepGraph
  imports Scc Snapshot
begin

text \<open>
  The rest of \<^verbatim>\<open>sense/graph.rs\<close>: path continuity between two snapshots, the cyclic components of the
  runtime graph, and the cycles a change introduces, each with the new edge that triggers it and a
  shortest closed walk through that edge as its witness.

  A component search returns \<^term>\<open>None\<close> on an index out of range, and following the predecessor map
  would not return on a map with a loop; both are the value \<^term>\<open>None\<close> of the functions below, and
  \<open>introduced_cycles_spec\<close> shows that neither happens.
\<close>

section \<open>Continuity\<close>

fun unmatched_loop :: "repo_path list \<Rightarrow> repo_path list \<Rightarrow> repo_path list \<Rightarrow> repo_path list
    \<Rightarrow> repo_path list \<times> repo_path list" where
  "unmatched_loop (b # bs) (a # as) removed added =
     (case cmp b a of
        Less \<Rightarrow> unmatched_loop bs (a # as) (removed @ [b]) added
      | Greater \<Rightarrow> unmatched_loop (b # bs) as removed (added @ [a])
      | Equal \<Rightarrow> unmatched_loop bs as removed added)"
| "unmatched_loop bs as removed added = (removed @ bs, added @ as)"

definition unmatched_paths :: "source_snapshot \<Rightarrow> source_snapshot \<Rightarrow> repo_path list \<times> repo_path list" where
  "unmatched_paths before after = unmatched_loop (snapshot_paths before) (snapshot_paths after) [] []"

definition content_paths :: "source_snapshot \<Rightarrow> repo_path list \<Rightarrow> (content_id, repo_path list) btree_map" where
  "content_paths snapshot paths =
     bt_group (\<lambda>path. map_option (\<lambda>f. (sf_content_id f, path)) (snapshot_read snapshot path)) paths"

definition exact_path_continuity :: "source_snapshot \<Rightarrow> source_snapshot \<Rightarrow> (repo_path, repo_path) btree_map" where
  "exact_path_continuity before after =
     (let (removed_paths, added_paths) = unmatched_paths before after;
          removed = content_paths before removed_paths;
          added = content_paths after added_paths
      in bt_collect (List.map_filter (\<lambda>(content, before_paths).
           case bt_get added content of
             None \<Rightarrow> None
           | Some after_paths \<Rightarrow>
               if length before_paths = 1 \<and> length after_paths = 1
               then Some (before_paths ! 0, after_paths ! 0) else None) removed))"

definition canonical_path :: "(repo_path, repo_path) btree_map \<Rightarrow> repo_path \<Rightarrow> repo_path" where
  "canonical_path continuity path = (case bt_get continuity path of None \<Rightarrow> path | Some p \<Rightarrow> p)"

definition canonicalize :: "projection \<Rightarrow> (repo_path, repo_path) btree_map \<Rightarrow> projection" where
  "canonicalize p continuity =
     (let canonical = canonical_path continuity;
          interfaces = fold (\<lambda>(path, i). bt_insert (canonical path) i) (pj_interfaces p) [];
          interface_edges = fold (\<lambda>(key, e). bt_entry \<lparr> ie_selectors = [], ie_unknown_width = False \<rparr>
              (\<lambda>d. d\<lparr> ie_unknown_width := ie_unknown_width d \<or> ie_unknown_width e,
                      ie_selectors := bs_extend (ie_selectors d) (ie_selectors e) \<rparr>)
              (key\<lparr> iedk_from := canonical (iedk_from key), iedk_to := canonical (iedk_to key) \<rparr>))
            (pj_interface_edges p) []
      in p\<lparr> pj_nodes := bs_collect (map canonical (pj_nodes p)),
            pj_edges := bs_collect (map (\<lambda>e. e\<lparr> edge_from := canonical (edge_from e), edge_to := canonical (edge_to e) \<rparr>) (pj_edges p)),
            pj_resolution_gaps := bs_collect (map (\<lambda>g. g\<lparr> rg_path := canonical (rg_path g) \<rparr>) (pj_resolution_gaps p)),
            pj_interfaces := interfaces,
            pj_interface_edges := interface_edges \<rparr>)"

section \<open>Cycles\<close>

definition cyclic_components :: "projection \<Rightarrow> repo_path btree_set list option" where
  "cyclic_components p =
     (let self_edges = bs_collect (map edge_from (filter (\<lambda>e. edge_from e = edge_to e) (runtime_edges p)))
      in map_option (filter (\<lambda>component. length component > 1 \<or> (\<exists>node\<in>set component. node \<in> set self_edges)))
           (components (pj_nodes p) (runtime_edges p)))"

definition component_membership :: "repo_path btree_set list \<Rightarrow> (repo_path, nat) btree_map" where
  "component_membership comps =
     bt_collect (concat (map (\<lambda>(index, component). map (\<lambda>path. (path, index)) component) (enumerate 0 comps)))"

definition new_runtime_edges :: "projection \<Rightarrow> dependency_edge btree_set \<Rightarrow> (repo_path, dependency_edge list) btree_map" where
  "new_runtime_edges after before =
     bt_group (\<lambda>e. Some (edge_from e, e)) (filter (\<lambda>e. e \<notin> set before) (runtime_edges after))"

definition contained_in_prior_cycle :: "repo_path btree_set \<Rightarrow> (repo_path, nat) btree_map \<Rightarrow> bool" where
  "contained_in_prior_cycle after membership =
     (case Option.bind (bs_first after) (bt_get membership) of
        None \<Rightarrow> False
      | Some component \<Rightarrow> \<forall>path\<in>set after. bt_get membership path = Some component)"

fun find_map :: "('a \<Rightarrow> 'b option) \<Rightarrow> 'a list \<Rightarrow> 'b option" where
  "find_map f [] = None"
| "find_map f (x # xs) = (case f x of None \<Rightarrow> find_map f xs | Some y \<Rightarrow> Some y)"

definition first_new_internal_edge ::
    "repo_path btree_set \<Rightarrow> (repo_path, dependency_edge list) btree_map \<Rightarrow> dependency_edge option" where
  "first_new_internal_edge component new_edges =
     find_map (\<lambda>path. case bt_get new_edges path of
         None \<Rightarrow> None
       | Some edges \<Rightarrow> find (\<lambda>e. edge_to e \<in> set component) edges) component"

definition push_target :: "dependency_edge \<Rightarrow> (repo_path, repo_path list) btree_map \<Rightarrow> (repo_path, repo_path list) btree_map" where
  "push_target e adj =
     (case bt_get adj (edge_from e) of
        None \<Rightarrow> adj
      | Some targets \<Rightarrow> bt_insert (edge_from e) (targets @ [edge_to e]) adj)"

definition adjacency :: "repo_path btree_set \<Rightarrow> dependency_edge list \<Rightarrow> (repo_path, repo_path list) btree_map" where
  "adjacency nodes edges =
     map (\<lambda>(node, targets). (node, sort_dedup targets))
       (fold push_target edges (bt_collect (map (\<lambda>node. (node, [])) nodes)))"

subsection \<open>The witness\<close>

text \<open>The loop over the targets of a node: the queue, the predecessors and the visited paths.\<close>

type_synonym search = "repo_path list \<times> (repo_path, repo_path) btree_map \<times> repo_path btree_set"

fun visit_targets :: "repo_path btree_set \<Rightarrow> repo_path \<Rightarrow> repo_path list \<Rightarrow> search \<Rightarrow> search" where
  "visit_targets component node [] st = st"
| "visit_targets component node (target # targets) (queue, previous, visited) =
     visit_targets component node targets
       (if target \<in> set component \<and> target \<notin> set visited
        then (queue @ [target], bt_insert target node previous, bs_insert target visited)
        else (queue, previous, visited))"

lemma visit_targets_size:
  "(case visit_targets component node targets (queue, previous, visited) of
      (queue', previous', visited') \<Rightarrow> length queue' + card (set component - set visited'))
   = length queue + card (set component - set visited)"
proof (induction targets arbitrary: queue previous visited)
  case (Cons t targets)
  have "Suc (card (set component - insert t (set visited))) = card (set component - set visited)"
    if "t \<in> set component" "t \<notin> set visited"
    by (subst Diff_insert, rule card_Suc_Diff1) (use that in auto)
  with Cons.IH show ?case by simp
qed simp

function predecessors_loop ::
    "(repo_path, repo_path list) btree_map \<Rightarrow> repo_path btree_set \<Rightarrow> repo_path
     \<Rightarrow> repo_path list \<Rightarrow> (repo_path, repo_path) btree_map \<Rightarrow> repo_path btree_set
     \<Rightarrow> (repo_path, repo_path) btree_map \<times> repo_path btree_set" where
  "predecessors_loop adj component target [] previous visited = (previous, visited)"
| "predecessors_loop adj component target (node # queue) previous visited =
     (if node = target then (previous, visited)
      else case visit_targets component node (case bt_get adj node of None \<Rightarrow> [] | Some ts \<Rightarrow> ts)
                  (queue, previous, visited) of
             (queue', previous', visited') \<Rightarrow> predecessors_loop adj component target queue' previous' visited')"
  by pat_completeness auto
termination
  by (relation "measure (\<lambda>(adj, component, target, queue, previous, visited).
      length queue + card (set component - set visited))") (auto simp: visit_targets_size)

definition witness_predecessors ::
    "(repo_path, repo_path list) btree_map \<Rightarrow> repo_path btree_set \<Rightarrow> repo_path \<Rightarrow> repo_path
     \<Rightarrow> (repo_path, repo_path) btree_map option" where
  "witness_predecessors adj component start target =
     (let (previous, visited) = predecessors_loop adj component target [start] [] [start]
      in if target \<in> set visited then Some previous else None)"

partial_function (option) follow_back ::
    "(repo_path, repo_path) btree_map \<Rightarrow> repo_path \<Rightarrow> repo_path list \<Rightarrow> repo_path list option option" where
  "follow_back previous to reverse_path =
     (case reverse_path of
        [] \<Rightarrow> Some None
      | _ \<Rightarrow>
          if last reverse_path = to then Some (Some reverse_path)
          else (case bt_get previous (last reverse_path) of
                  None \<Rightarrow> Some None
                | Some p \<Rightarrow> follow_back previous to (reverse_path @ [p])))"

definition reconstruct_witness ::
    "(repo_path, repo_path) btree_map \<Rightarrow> dependency_edge \<Rightarrow> repo_path list option option" where
  "reconstruct_witness previous trigger =
     map_option (map_option (\<lambda>reverse_path. edge_from trigger # rev reverse_path))
       (follow_back previous (edge_to trigger) [edge_from trigger])"

definition shortest_witness ::
    "(repo_path, repo_path list) btree_map \<Rightarrow> repo_path btree_set \<Rightarrow> dependency_edge \<Rightarrow> repo_path list option option" where
  "shortest_witness adj component trigger =
     (if edge_from trigger = edge_to trigger then Some (Some [edge_from trigger, edge_from trigger])
      else case witness_predecessors adj component (edge_to trigger) (edge_from trigger) of
             None \<Rightarrow> Some None
           | Some previous \<Rightarrow> reconstruct_witness previous trigger)"

definition introduced_cycle_of ::
    "(repo_path, repo_path list) btree_map \<Rightarrow> repo_path btree_set \<Rightarrow> dependency_edge \<Rightarrow> introduced_cycle option option" where
  "introduced_cycle_of adj component trigger =
     map_option (map_option (\<lambda>witness.
       let member_count = length component;
           witness_truncated = length witness > MAX_CYCLE_WITNESS_PATHS
       in \<lparr> ic_member_count = member_count,
            ic_members = take MAX_CYCLE_MEMBER_PATHS component,
            ic_members_truncated = (member_count > MAX_CYCLE_MEMBER_PATHS),
            ic_trigger = trigger,
            ic_witness = (if witness_truncated then [] else witness),
            ic_witness_truncated = witness_truncated \<rparr>))
       (shortest_witness adj component trigger)"

fun report_cycles ::
    "(repo_path, repo_path list) btree_map \<Rightarrow> (repo_path, dependency_edge list) btree_map
     \<Rightarrow> repo_path btree_set list \<Rightarrow> introduced_cycle list option" where
  "report_cycles adj new_edges [] = Some []"
| "report_cycles adj new_edges (component # comps) =
     (case first_new_internal_edge component new_edges of
        None \<Rightarrow> report_cycles adj new_edges comps
      | Some trigger \<Rightarrow>
          (case introduced_cycle_of adj component trigger of
             None \<Rightarrow> None
           | Some None \<Rightarrow> report_cycles adj new_edges comps
           | Some (Some c) \<Rightarrow> map_option ((#) c) (report_cycles adj new_edges comps)))"

definition introduced_cycles :: "projection \<Rightarrow> projection \<Rightarrow> introduced_cycle list option" where
  "introduced_cycles before after =
     (case cyclic_components before of
        None \<Rightarrow> None
      | Some before_components \<Rightarrow>
          (let before_membership = component_membership before_components;
               before_edges = bs_collect (runtime_edges before);
               new_edges = new_runtime_edges after before_edges;
               adj = adjacency (pj_nodes after) (runtime_edges after)
           in case cyclic_components after of
                None \<Rightarrow> None
              | Some comps \<Rightarrow>
                  report_cycles adj new_edges
                    (filter (\<lambda>c. \<not> contained_in_prior_cycle c before_membership) comps)))"

section \<open>Breadth-first search\<close>

abbreviation succs :: "(repo_path, repo_path list) btree_map \<Rightarrow> repo_path \<Rightarrow> repo_path list" where
  "succs adj node \<equiv> (case bt_get adj node of None \<Rightarrow> [] | Some ts \<Rightarrow> ts)"

definition inside :: "(repo_path, repo_path list) btree_map \<Rightarrow> repo_path btree_set \<Rightarrow> (repo_path \<times> repo_path) set" where
  "inside adj component = {(u, t). t \<in> set (succs adj u) \<and> t \<in> set component}"

lemma visit_targets_spec:
  assumes "bt_wf previous"
  shows "\<exists>new previous' visited'. visit_targets component node targets (queue, previous, visited) = (queue @ new, previous', visited') \<and>
    bt_wf previous' \<and> distinct new \<and> set new = set targets \<inter> set component - set visited \<and>
    set visited' = set visited \<union> set new \<and>
    (\<forall>x. bt_get previous' x = (if x \<in> set new then Some node else bt_get previous x))"
  using assms
proof (induction targets arbitrary: queue previous visited)
  case Nil
  then show ?case by (intro exI [where x = "[]"] exI [where x = previous] exI [where x = visited]) simp
next
  case (Cons t targets)
  show ?case
  proof (cases "t \<in> set component \<and> t \<notin> set visited")
    case True
    from Cons.IH [OF bt_wf_insert [OF Cons.prems], where queue = "queue @ [t]" and visited = "bs_insert t visited", of t node]
    obtain new previous' visited' where
      "visit_targets component node targets (queue @ [t], bt_insert t node previous, bs_insert t visited)
        = ((queue @ [t]) @ new, previous', visited')" "bt_wf previous'" "distinct new"
      "set new = set targets \<inter> set component - set (bs_insert t visited)"
      "set visited' = set (bs_insert t visited) \<union> set new"
      "\<forall>x. bt_get previous' x = (if x \<in> set new then Some node else bt_get (bt_insert t node previous) x)"
      by (elim exE conjE) (rule that; assumption)
    with True Cons.prems show ?thesis by (intro exI [where x = "t # new"]) auto
  next
    case False
    with Cons.IH [OF Cons.prems, of queue visited] show ?thesis by auto
  qed
qed

text \<open>The state of the search, with the paths \<open>fd\<close> already popped and the distance \<open>d\<close> from the start.\<close>

definition bfs_inv :: "(repo_path \<times> repo_path) set \<Rightarrow> repo_path \<Rightarrow> repo_path list \<Rightarrow> repo_path list
    \<Rightarrow> (repo_path, repo_path) btree_map \<Rightarrow> repo_path btree_set \<Rightarrow> (repo_path \<Rightarrow> nat) \<Rightarrow> bool" where
  "bfs_inv B start fd queue previous visited d \<longleftrightarrow>
     bt_wf previous \<and> set visited = set (fd @ queue) \<and> distinct (fd @ queue) \<and>
     start \<in> set visited \<and> d start = 0 \<and> sorted (map d (fd @ queue)) \<and>
     (\<forall>x\<in>set queue. d x \<le> Suc (d (hd queue))) \<and>
     (\<forall>x\<in>set visited - {start}. \<exists>u\<in>set fd. bt_get previous x = Some u \<and> (u, x) \<in> B \<and> d x = Suc (d u)) \<and>
     (\<forall>u\<in>set fd. \<forall>t. (u, t) \<in> B \<longrightarrow> t \<in> set visited \<and> d t \<le> Suc (d u))"

lemma bfs_inv_step:
  assumes inv: "bfs_inv (inside adj component) start fd (node # queue) previous visited d"
    and new: "distinct new" "set new = set (succs adj node) \<inter> set component - set visited"
    and visited': "set visited' = set visited \<union> set new" and "bt_wf previous'"
    and previous': "\<forall>x. bt_get previous' x = (if x \<in> set new then Some node else bt_get previous x)"
  shows "bfs_inv (inside adj component) start (fd @ [node]) (queue @ new) previous' visited'
           (\<lambda>x. if x \<in> set new then Suc (d node) else d x)"
proof -
  let ?B = "inside adj component" and ?d = "\<lambda>x. if x \<in> set new then Suc (d node) else d x"
  from inv have vis: "set visited = set (fd @ node # queue)" and dist: "distinct (fd @ node # queue)"
    and start: "start \<in> set visited" "d start = 0" and mono: "sorted (map d (fd @ node # queue))"
    and close: "\<And>x. x \<in> set (node # queue) \<Longrightarrow> d x \<le> Suc (d node)"
    and prev: "\<And>x. x \<in> set visited - {start} \<Longrightarrow> \<exists>u\<in>set fd. bt_get previous x = Some u \<and> (u, x) \<in> ?B \<and> d x = Suc (d u)"
    and closed: "\<And>u t. u \<in> set fd \<Longrightarrow> (u, t) \<in> ?B \<Longrightarrow> t \<in> set visited \<and> d t \<le> Suc (d u)"
    unfolding bfs_inv_def by auto
  have fresh: "x \<notin> set new" if "x \<in> set visited" for x using that new(2) by auto
  have keep: "?d x = d x" if "x \<in> set visited" for x using fresh [OF that] by simp
  have old: "map ?d (fd @ node # queue) = map d (fd @ node # queue)"
    by (rule map_cong) (use keep vis in auto)
  have le: "d x \<le> Suc (d node)" if "x \<in> set visited" for x
    using that close mono vis by (fastforce simp: sorted_append)
  have "map ?d new = map (\<lambda>_. Suc (d node)) new" by simp
  then have "map ?d ((fd @ node # queue) @ new) = map d (fd @ node # queue) @ replicate (length new) (Suc (d node))"
    unfolding map_append [of _ _ new] old by (simp add: map_replicate_const)
  moreover have "sorted (map d (fd @ node # queue) @ replicate (length new) (Suc (d node)))"
    unfolding sorted_append using mono le vis by auto
  ultimately have sorted: "sorted (map ?d ((fd @ [node]) @ queue @ new))" by (metis append.assoc append_Cons append_Nil)
  have "?d x \<le> Suc (?d (hd (queue @ new)))" if "x \<in> set (queue @ new)" for x
  proof -
    let ?q = "hd (queue @ new)"
    have "?q \<in> set (queue @ new)" using that by (cases "queue @ new") auto
    then have "d node \<le> ?d ?q" using keep mono vis by (auto simp: sorted_append)
    moreover have "?d x \<le> Suc (d node)" using that le vis by auto
    ultimately show ?thesis by simp
  qed
  moreover have "\<exists>u\<in>set (fd @ [node]). bt_get previous' x = Some u \<and> (u, x) \<in> ?B \<and> ?d x = Suc (?d u)"
    if "x \<in> set visited' - {start}" for x
  proof (cases "x \<in> set new")
    case True
    then have "(node, x) \<in> ?B" using new(2) by (simp add: inside_def)
    with True previous' keep [of node] vis show ?thesis by auto
  next
    case False
    with that visited' obtain u where "u \<in> set fd" "bt_get previous x = Some u" "(u, x) \<in> ?B" "d x = Suc (d u)"
      using prev by blast
    with False previous' keep [of u] vis show ?thesis by auto
  qed
  moreover have "t \<in> set visited' \<and> ?d t \<le> Suc (?d u)" if "u \<in> set (fd @ [node])" "(u, t) \<in> ?B" for u t
  proof (cases "u = node")
    case True
    with that have "t \<in> set visited \<union> set new" using new(2) by (auto simp: inside_def)
    with True le keep [of node] vis visited' show ?thesis by auto
  next
    case False
    with that have "u \<in> set fd" by simp
    with closed [OF this that(2)] keep [of u] keep [of t] vis visited' show ?thesis by auto
  qed
  moreover have "distinct ((fd @ [node]) @ queue @ new)" using dist new(1) fresh vis by auto
  ultimately show ?thesis
    unfolding bfs_inv_def using assms(5) visited' vis start fresh sorted by auto
qed

text \<open>The search ends with the target at the head of the queue, or with nothing left to visit.\<close>

lemma predecessors_loop_inv:
  assumes "bfs_inv (inside adj component) start fd queue previous visited d" and "target \<notin> set fd"
  shows "\<exists>fd' queue' previous' visited' d'.
    predecessors_loop adj component target queue previous visited = (previous', visited') \<and>
    bfs_inv (inside adj component) start fd' queue' previous' visited' d' \<and> target \<notin> set fd' \<and>
    (queue' = [] \<or> hd queue' = target)"
  using assms
proof (induction adj component target queue previous visited arbitrary: fd d rule: predecessors_loop.induct)
  case (1 adj component target previous visited)
  then show ?case by auto
next
  case (2 adj component target node queue previous visited)
  show ?case
  proof (cases "node = target")
    case True
    with 2(2,3) show ?thesis
      by (intro exI [where x = fd] exI [where x = "node # queue"] exI [where x = previous]
          exI [where x = visited] exI [where x = d]) simp
  next
    case False
    have "bt_wf previous" using 2(2) by (simp add: bfs_inv_def)
    from visit_targets_spec [OF this, of component node "succs adj node" queue visited]
    obtain new previous' visited' where
      vt: "visit_targets component node (succs adj node) (queue, previous, visited) = (queue @ new, previous', visited')"
      and new: "bt_wf previous'" "distinct new" "set new = set (succs adj node) \<inter> set component - set visited"
        "set visited' = set visited \<union> set new"
        "\<forall>x. bt_get previous' x = (if x \<in> set new then Some node else bt_get previous x)"
      by blast
    have "target \<notin> set (fd @ [node])" using 2(3) False by simp
    from 2(1) [OF False vt [symmetric] refl bfs_inv_step [OF 2(2) new(2-4,1,5)] this] False vt
    show ?thesis by simp
  qed
qed

lemma bfs_inv_start: "bfs_inv B start [] [start] [] [start] (\<lambda>_. 0)"
  by (simp add: bfs_inv_def)

lemma bfs_frontier:
  assumes inv: "bfs_inv B start fd queue previous visited d" and "(start, y) \<in> B ^^ n"
  shows "(y \<in> set fd \<and> d y \<le> n) \<or> (\<exists>z\<in>set queue. d z \<le> n)"
  using assms(2)
proof (induction n arbitrary: y)
  case 0
  then show ?case using inv by (auto simp: bfs_inv_def)
next
  case (Suc n)
  from Suc.prems obtain x where x: "(start, x) \<in> B ^^ n" "(x, y) \<in> B" by auto
  show ?case
  proof (cases "x \<in> set fd \<and> d x \<le> n")
    case True
    then have "y \<in> set (fd @ queue)" "d y \<le> Suc (d x)" using inv x(2) by (auto simp: bfs_inv_def)
    with True show ?thesis by (auto intro: le_trans)
  next
    case False
    with Suc.IH [OF x(1)] show ?thesis by (auto intro: le_SucI)
  qed
qed

text \<open>Where the target is reachable, the search finds it, at its distance from the start.\<close>

lemma bfs_finds:
  assumes inv: "bfs_inv B start fd queue previous visited d" and "target \<notin> set fd"
    and "queue = [] \<or> hd queue = target" and "(start, target) \<in> B\<^sup>*"
  shows "target \<in> set visited" and "(start, target) \<in> B ^^ n \<Longrightarrow> d target \<le> n"
proof -
  have head: "\<exists>z\<in>set queue. d target \<le> d z \<and> d z \<le> n \<and> hd queue = target"
    if "(start, target) \<in> B ^^ n" for n
  proof -
    from bfs_frontier [OF inv that] assms(2) obtain z where z: "z \<in> set queue" "d z \<le> n" by blast
    then have hd: "hd queue = target" and "queue = target # tl queue" using assms(3) by (cases queue; auto)+
    moreover have "sorted (map d queue)" using inv by (simp add: bfs_inv_def sorted_append)
    ultimately have "d target \<le> d z" using z(1) by (cases queue) auto
    with z hd show ?thesis by blast
  qed
  from assms(4) obtain n where "(start, target) \<in> B ^^ n" by (auto simp: rtrancl_power)
  from head [OF this] have "target \<in> set queue" by (cases queue) auto
  then show "target \<in> set visited" using inv by (simp add: bfs_inv_def)
  show "d target \<le> n" if "(start, target) \<in> B ^^ n" for n using head [OF that] by auto
qed

text \<open>Following the predecessors from a visited path returns, with a walk back to the start.\<close>

lemma follow_back_spec:
  assumes inv: "bfs_inv B start fd queue previous visited d" and "x \<in> set visited"
  shows "\<exists>w. follow_back previous start (acc @ [x]) = Some (Some (acc @ w)) \<and> hd w = x \<and> last w = start \<and>
    length w = Suc (d x) \<and> successively (\<lambda>a b. (b, a) \<in> B) w"
  using assms(2)
proof (induction "d x" arbitrary: x acc rule: less_induct)
  case less
  show ?case
  proof (cases "x = start")
    case True
    then have "follow_back previous start (acc @ [x]) = Some (Some (acc @ [x]))"
      by (subst follow_back.simps) (simp split: list.split)
    moreover have "d x = 0" using inv True by (simp add: bfs_inv_def)
    ultimately show ?thesis using True by (intro exI [where x = "[x]"]) simp
  next
    case False
    with less.prems have "x \<in> set visited - {start}" by simp
    then obtain u where u: "u \<in> set fd" "bt_get previous x = Some u" "(u, x) \<in> B" "d x = Suc (d u)"
      using inv unfolding bfs_inv_def by blast
    then have "u \<in> set visited" using inv by (simp add: bfs_inv_def)
    from less.hyps [OF _ this, of "acc @ [x]"] u(4) obtain w where
      w: "follow_back previous start ((acc @ [x]) @ [u]) = Some (Some ((acc @ [x]) @ w))" "hd w = u" "last w = start"
        "length w = Suc (d u)" "successively (\<lambda>a b. (b, a) \<in> B) w" by auto
    have "follow_back previous start (acc @ [x]) = follow_back previous start ((acc @ [x]) @ [u])"
      by (subst follow_back.simps) (cases acc; simp add: False u(2))
    with w u show ?thesis
      by (intro exI [where x = "x # w"]) (auto simp: successively_Cons)
  qed
qed

definition walk :: "('a \<times> 'a) set \<Rightarrow> 'a list \<Rightarrow> bool" where
  "walk R w \<longleftrightarrow> successively (\<lambda>a b. (a, b) \<in> R) w"

lemma walk_relpow: "w \<noteq> [] \<Longrightarrow> walk R w \<Longrightarrow> (hd w, last w) \<in> R ^^ (length w - 1)"
proof (induction w rule: induct_list012)
  case (3 x y zs)
  then have "(y, last (y # zs)) \<in> R ^^ length zs" and "(x, y) \<in> R" by (simp_all add: walk_def)
  then have "(x, last (y # zs)) \<in> R ^^ Suc (length zs)" by (rule relpow_Suc_I2 [rotated])
  then show ?case by simp
qed simp_all

text \<open>The witness is a closed walk through the trigger inside the component, and no such walk is
  shorter.\<close>

lemma shortest_witness_spec:
  assumes trigger: "edge_from trigger \<in> set component" "edge_to trigger \<in> set component"
      "edge_to trigger \<in> set (succs adj (edge_from trigger))"
    and reach: "(edge_to trigger, edge_from trigger) \<in> (inside adj component)\<^sup>*"
  shows "\<exists>w. shortest_witness adj component trigger = Some (Some w) \<and>
    2 \<le> length w \<and> hd w = edge_from trigger \<and> w ! 1 = edge_to trigger \<and> last w = edge_from trigger \<and>
    walk (inside adj component) w \<and>
    (\<forall>v. walk (inside adj component) v \<longrightarrow> 2 \<le> length v \<longrightarrow> hd v = edge_from trigger \<longrightarrow> v ! 1 = edge_to trigger \<longrightarrow>
         last v = edge_from trigger \<longrightarrow> length w \<le> length v)"
proof -
  let ?B = "inside adj component" and ?f = "edge_from trigger" and ?t = "edge_to trigger"
  have arc: "(?f, ?t) \<in> ?B" using trigger by (simp add: inside_def)
  show ?thesis
  proof (cases "?f = ?t")
    case True
    with arc show ?thesis by (intro exI [where x = "[?f, ?f]"]) (simp add: shortest_witness_def walk_def)
  next
    case False
    from predecessors_loop_inv [OF bfs_inv_start, of ?f adj component ?t] obtain fd queue previous visited d where
      loop: "predecessors_loop adj component ?f [?t] [] [?t] = (previous, visited)"
      and inv: "bfs_inv ?B ?t fd queue previous visited d" and out: "?f \<notin> set fd" "queue = [] \<or> hd queue = ?f"
      by auto
    have vis: "?f \<in> set visited" by (rule bfs_finds(1) [OF inv out reach])
    from follow_back_spec [OF inv this, of "[]"] obtain w where
      w: "follow_back previous ?t [?f] = Some (Some w)" "hd w = ?f" "last w = ?t" "length w = Suc (d ?f)"
        "successively (\<lambda>a b. (b, a) \<in> ?B) w" by auto
    have sw: "shortest_witness adj component trigger = Some (Some (?f # rev w))"
      using False loop vis w(1)
      by (simp add: shortest_witness_def witness_predecessors_def reconstruct_witness_def del: predecessors_loop.simps)
    have ne: "w \<noteq> []" using w(4) by auto
    have "length (?f # rev w) \<le> length v"
      if v: "walk ?B v" "2 \<le> length v" "hd v = ?f" "v ! 1 = ?t" "last v = ?f" for v
    proof -
      obtain v' where v': "v = ?f # ?t # v'" using v(2-4) by (cases v; cases "tl v") auto
      have "walk ?B (?t # v')" using v(1) by (simp add: v' walk_def)
      from walk_relpow [OF _ this] have "(?t, ?f) \<in> ?B ^^ length v'" using v(5) by (simp add: v' split: if_splits)
      from bfs_finds(2) [OF inv out reach this] w(4) show ?thesis by (simp add: v')
    qed
    moreover have "walk ?B (?f # rev w)"
      using w(3,5) arc ne by (auto simp: walk_def successively_Cons hd_rev)
    moreover have "rev w ! 0 = ?t" using w(3) ne by (simp add: rev_nth last_conv_nth)
    ultimately show ?thesis using sw w(2,4) ne by (intro exI [where x = "?f # rev w"]) (auto simp: last_rev)
  qed
qed

section \<open>Cycles and what a change adds to them\<close>

definition runtime_rel :: "projection \<Rightarrow> (repo_path \<times> repo_path) set" where
  "runtime_rel p = {(edge_from e, edge_to e) | e. e \<in> set (pj_edges p) \<and> edge_kind e = EdgeRuntime}"

text \<open>The cycles of a graph: the classes of mutually reachable nodes that lie on a closed walk.\<close>

definition cycles :: "projection \<Rightarrow> repo_path set set" where
  "cycles p = {C \<in> set (pj_nodes p) // mutual (runtime_rel p). \<exists>x\<in>C. (x, x) \<in> (runtime_rel p)\<^sup>+}"

lemma runtime_rel_nodes: "projection_wf p \<Longrightarrow> (a, b) \<in> runtime_rel p \<Longrightarrow> a \<in> set (pj_nodes p) \<and> b \<in> set (pj_nodes p)"
  by (auto simp: runtime_rel_def projection_wf_def)

lemma runtime_rel_edges: "projection_wf p \<Longrightarrow> edge_rel (pj_nodes p) (runtime_edges p) = runtime_rel p"
  by (auto simp: edge_rel_def runtime_rel_def projection_wf_def)

lemma class_member: "C \<in> A // mutual R \<Longrightarrow> x \<in> C \<Longrightarrow> C = mutual R `` {x}"
  by (auto simp: quotient_def dest: mutual_trans mutual_sym)

lemma class_disjoint: "C \<in> A // mutual R \<Longrightarrow> D \<in> A // mutual R \<Longrightarrow> x \<in> C \<Longrightarrow> x \<in> D \<Longrightarrow> C = D"
  by (metis class_member)

lemma class_nonempty: "C \<in> A // mutual R \<Longrightarrow> C \<noteq> {}"
  by (auto simp: quotient_def intro: mutual_refl)

text \<open>A walk between members of a component stays inside it.\<close>

lemma walk_in_class:
  assumes "(x, y) \<in> R\<^sup>*" and "(y, x) \<in> R\<^sup>*" and "C = mutual R `` {x}"
  shows "(x, y) \<in> (R \<inter> C \<times> C)\<^sup>*"
  using assms(1,2)
proof (induction rule: rtrancl_induct)
  case (step y z)
  then have "(y, x) \<in> R\<^sup>*" by (meson converse_rtrancl_into_rtrancl)
  moreover have "(x, z) \<in> R\<^sup>*" using step by simp
  ultimately have "y \<in> C" "z \<in> C" using step by (auto simp: assms(3) mutual_def)
  with step \<open>(y, x) \<in> R\<^sup>*\<close> show ?case by (auto intro: rtrancl_into_rtrancl)
qed simp

lemma cyclic_filter:
  assumes "set c \<in> set (pj_nodes p) // mutual (runtime_rel p)" and "bs_wf c"
  shows "(length c > 1 \<or> (\<exists>node\<in>set c. (node, node) \<in> runtime_rel p)) \<longleftrightarrow> (\<exists>x\<in>set c. (x, x) \<in> (runtime_rel p)\<^sup>+)"
proof
  assume left: "length c > 1 \<or> (\<exists>node\<in>set c. (node, node) \<in> runtime_rel p)"
  show "\<exists>x\<in>set c. (x, x) \<in> (runtime_rel p)\<^sup>+"
  proof (cases "length c > 1")
    case True
    then obtain a b rest where "c = a # b # rest" by (cases c; cases "tl c") auto
    with assms(2) have ab: "a \<in> set c" "b \<in> set c" "a \<noteq> b" by auto
    then have "(a, b) \<in> mutual (runtime_rel p)" using class_member [OF assms(1)] by blast
    with ab have "(a, a) \<in> (runtime_rel p)\<^sup>+"
      by (auto simp: mutual_def dest: rtranclD intro: trancl_rtrancl_trancl)
    with ab show ?thesis by blast
  next
    case False
    with left show ?thesis by blast
  qed
next
  assume "\<exists>x\<in>set c. (x, x) \<in> (runtime_rel p)\<^sup>+"
  then obtain x where x: "x \<in> set c" "(x, x) \<in> (runtime_rel p)\<^sup>+" by blast
  then obtain y where y: "(x, y) \<in> runtime_rel p" "(y, x) \<in> (runtime_rel p)\<^sup>*" by (auto dest: tranclD)
  then have "y \<in> set c" using class_member [OF assms(1) x(1)] by (auto simp: mutual_def)
  with x y show "length c > 1 \<or> (\<exists>node\<in>set c. (node, node) \<in> runtime_rel p)"
    by (cases c; cases "tl c") auto
qed

lemma cyclic_components_spec:
  assumes wf: "projection_wf p"
  shows "\<exists>comps. cyclic_components p = Some comps \<and> set ` set comps = cycles p \<and> distinct comps \<and>
    (\<forall>c\<in>set comps. bs_wf c) \<and> sorted (map bs_first comps)"
proof -
  have "bs_wf (pj_nodes p)" using wf by (simp add: projection_wf_def)
  from components_spec [OF this, of "runtime_edges p"] obtain comps where
    comps: "components (pj_nodes p) (runtime_edges p) = Some comps"
      "set ` set comps = set (pj_nodes p) // mutual (runtime_rel p)"
      "distinct comps" "\<forall>c\<in>set comps. bs_wf c" "sorted (map bs_first comps)"
    by (auto simp: runtime_rel_edges [OF wf])
  let ?P = "\<lambda>c. length c > 1 \<or> (\<exists>node\<in>set c. (node, node) \<in> runtime_rel p)"
  have self: "node \<in> set (bs_collect (map edge_from (filter (\<lambda>e. edge_from e = edge_to e) (runtime_edges p))))
      \<longleftrightarrow> (node, node) \<in> runtime_rel p" for node
    by (auto simp: runtime_rel_def) metis
  have "cyclic_components p = Some (filter ?P comps)"
    by (simp add: cyclic_components_def comps(1) self Let_def del: set_bs_extend)
  moreover have "set ` set (filter ?P comps) = cycles p"
  proof -
    have "?P c \<longleftrightarrow> (\<exists>x\<in>set c. (x, x) \<in> (runtime_rel p)\<^sup>+)" if "c \<in> set comps" for c
      using that comps(2,4) by (intro cyclic_filter) auto
    then have "set (filter ?P comps) = {c \<in> set comps. \<exists>x\<in>set c. (x, x) \<in> (runtime_rel p)\<^sup>+}" by auto
    then have "set ` set (filter ?P comps) = {C \<in> set ` set comps. \<exists>x\<in>C. (x, x) \<in> (runtime_rel p)\<^sup>+}"
      by (auto simp: image_iff)
    then show ?thesis by (simp add: cycles_def comps(2))
  qed
  ultimately show ?thesis using comps(3-5) by (auto simp: sorted_filter)
qed

subsection \<open>Membership in a prior cycle\<close>

lemma membership_entry:
  "(path, i) \<in> set (concat (map (\<lambda>(index, component). map (\<lambda>path. (path, index)) component) (enumerate 0 comps)))
   \<longleftrightarrow> i < length comps \<and> path \<in> set (comps ! i)"
proof -
  have "(i, c) \<in> set (enumerate 0 comps) \<longleftrightarrow> i < length comps \<and> c = comps ! i" for c
    by (auto simp: in_set_enumerate_eq)
  moreover have "(path, i) \<in> set (concat (map (\<lambda>(index, component). map (\<lambda>path. (path, index)) component) es))
      \<longleftrightarrow> (\<exists>c. (i, c) \<in> set es \<and> path \<in> set c)" for es
    by (induction es) auto
  ultimately show ?thesis by simp
qed

lemma membership_get:
  assumes "distinct comps" and "\<forall>c\<in>set comps. bs_wf c" and "set ` set comps = cycles p"
  shows "bt_get (component_membership comps) path = Some i \<longleftrightarrow> i < length comps \<and> path \<in> set (comps ! i)"
proof -
  let ?es = "concat (map (\<lambda>(index, component). map (\<lambda>path. (path, index)) component) (enumerate 0 comps))"
  have same: "i = j" if "i < length comps" "j < length comps" "path \<in> set (comps ! i)" "path \<in> set (comps ! j)" for i j path
  proof -
    have "set (comps ! i) \<in> cycles p" "set (comps ! j) \<in> cycles p" using that assms(3) by auto
    then have "set (comps ! i) = set (comps ! j)"
      unfolding cycles_def by (intro class_disjoint [OF _ _ that(3,4)]) auto
    then have "comps ! i = comps ! j" using that(1,2) assms(2) by (auto intro: bs_ext)
    then show ?thesis using that assms(1) by (simp add: nth_eq_iff_index_eq)
  qed
  have "map_of (rev ?es) path = Some i \<longleftrightarrow> (path, i) \<in> set (rev ?es)"
  proof
    assume "(path, i) \<in> set (rev ?es)"
    then have i: "i < length comps" "path \<in> set (comps ! i)" by (simp_all only: set_rev membership_entry)
    have "map_of (rev ?es) path \<noteq> None"
      using \<open>(path, i) \<in> set (rev ?es)\<close> by (metis map_of_eq_None_iff image_eqI fst_conv)
    then obtain j where j: "map_of (rev ?es) path = Some j" by blast
    then have "(path, j) \<in> set ?es" by (metis map_of_SomeD set_rev)
    then have "j < length comps" "path \<in> set (comps ! j)" by (simp_all only: membership_entry)
    with same i j show "map_of (rev ?es) path = Some i" by blast
  qed (rule map_of_SomeD)
  then show ?thesis by (simp only: component_membership_def bt_get_collect set_rev membership_entry)
qed

lemma contained_iff:
  assumes "distinct comps" and "\<forall>c\<in>set comps. bs_wf c" and "set ` set comps = cycles p" and "c \<noteq> []"
  shows "contained_in_prior_cycle c (component_membership comps) \<longleftrightarrow> (\<exists>C\<in>cycles p. set c \<subseteq> C)"
proof -
  note get = membership_get [OF assms(1-3)]
  obtain x c' where c: "c = x # c'" using assms(4) by (cases c) auto
  have "contained_in_prior_cycle c (component_membership comps)
      \<longleftrightarrow> (\<exists>i. \<forall>path\<in>set c. bt_get (component_membership comps) path = Some i)"
    by (auto simp: contained_in_prior_cycle_def bs_first_def c split: option.splits)
  also have "\<dots> \<longleftrightarrow> (\<exists>i<length comps. set c \<subseteq> set (comps ! i))"
    by (auto simp: get c)
  also have "\<dots> \<longleftrightarrow> (\<exists>C\<in>set ` set comps. set c \<subseteq> C)"
    by (auto simp: Bex_def in_set_conv_nth)
  finally show ?thesis by (simp add: assms(3))
qed

subsection \<open>New edges\<close>

lemma new_runtime_edges_get:
  "set (case bt_get (new_runtime_edges after before) path of None \<Rightarrow> [] | Some es \<Rightarrow> es) =
     {e \<in> set (runtime_edges after). e \<notin> set before \<and> edge_from e = path}"
proof -
  have "(case bt_get (new_runtime_edges after before) path of None \<Rightarrow> [] | Some es \<Rightarrow> es)
      = members (\<lambda>e. Some (edge_from e, e)) (filter (\<lambda>e. e \<notin> set before) (runtime_edges after)) path"
    by (simp add: new_runtime_edges_def bt_get_group)
  then show ?thesis by (auto simp: in_members)
qed

lemma find_map_Some: "find_map f xs = Some y \<Longrightarrow> \<exists>x\<in>set xs. f x = Some y"
  by (induction xs) (auto split: option.splits)

lemma find_map_None: "find_map f xs = None \<longleftrightarrow> (\<forall>x\<in>set xs. f x = None)"
  by (induction xs) (auto split: option.splits)

lemma first_new_internal_edge_Some:
  assumes "first_new_internal_edge component (new_runtime_edges after before) = Some e"
  shows "e \<in> set (runtime_edges after)" "e \<notin> set before" "edge_from e \<in> set component" "edge_to e \<in> set component"
proof -
  from find_map_Some [OF assms [unfolded first_new_internal_edge_def]] obtain path es where
    "path \<in> set component" "bt_get (new_runtime_edges after before) path = Some es"
    "find (\<lambda>e. edge_to e \<in> set component) es = Some e"
    by (auto split: option.splits)
  then show "e \<in> set (runtime_edges after)" "e \<notin> set before" "edge_from e \<in> set component" "edge_to e \<in> set component"
    using new_runtime_edges_get [of after before path] by (auto simp: find_Some_iff)
qed

lemma first_new_internal_edge_None:
  assumes "first_new_internal_edge component (new_runtime_edges after before) = None"
    and "e \<in> set (runtime_edges after)" "edge_from e \<in> set component" "edge_to e \<in> set component"
  shows "e \<in> set before"
proof (rule ccontr)
  assume "e \<notin> set before"
  with assms(2) new_runtime_edges_get [of after before "edge_from e"] obtain es where
    "bt_get (new_runtime_edges after before) (edge_from e) = Some es" "e \<in> set es"
    by (cases "bt_get (new_runtime_edges after before) (edge_from e)") auto
  with assms(1,3,4) show False
    by (auto simp: first_new_internal_edge_def find_map_None find_None_iff)
qed

text \<open>A cycle that gains no edge lies inside a cycle of the baseline.\<close>

lemma unchanged_cycle_contained:
  assumes wf: "projection_wf before" and C: "C \<in> cycles after"
    and old: "\<And>e. e \<in> set (runtime_edges after) \<Longrightarrow> edge_from e \<in> C \<Longrightarrow> edge_to e \<in> C \<Longrightarrow> e \<in> set (pj_edges before)"
  shows "\<exists>D\<in>cycles before. C \<subseteq> D"
proof -
  let ?R = "runtime_rel after" and ?S = "runtime_rel before"
  from C obtain x where x: "x \<in> C" "(x, x) \<in> ?R\<^sup>+" and cls: "C \<in> set (pj_nodes after) // mutual ?R"
    by (auto simp: cycles_def)
  have cx: "C = mutual ?R `` {x}" by (rule class_member [OF cls x(1)])
  have sub: "?R \<inter> C \<times> C \<subseteq> ?S" using old by (auto simp: runtime_rel_def)
  have mono: "(a, b) \<in> ?S\<^sup>*" if "a \<in> C" "b \<in> C" for a b
  proof -
    have "(a, b) \<in> mutual ?R" using class_member [OF cls that(1)] that(2) by blast
    then have "(a, b) \<in> (?R \<inter> C \<times> C)\<^sup>*"
      by (intro walk_in_class [OF _ _ class_member [OF cls that(1)]]) (simp_all add: mutual_def)
    then show ?thesis using rtrancl_mono [OF sub] by blast
  qed
  from x(2) obtain y where y: "(x, y) \<in> ?R" "(y, x) \<in> ?R\<^sup>*" by (auto dest: tranclD)
  then have "y \<in> C" by (auto simp: cx mutual_def)
  with y(1) x(1) sub have xy: "(x, y) \<in> ?S" by blast
  then have "(x, x) \<in> ?S\<^sup>+" using mono [OF \<open>y \<in> C\<close> x(1)] by (rule rtrancl_into_trancl2)
  moreover have "x \<in> set (pj_nodes before)" using runtime_rel_nodes [OF wf xy] by simp
  moreover have "C \<subseteq> mutual ?S `` {x}" using mono x(1) by (auto simp: mutual_def)
  ultimately show ?thesis unfolding cycles_def
    by (intro bexI [where x = "mutual ?S `` {x}"]) (auto intro: quotientI)
qed

subsection \<open>The adjacency map\<close>

lemma push_targets_get:
  assumes "bt_wf m"
  shows "bt_get (fold push_target edges m) x =
    map_option (\<lambda>ts. ts @ map edge_to (filter (\<lambda>e. edge_from e = x) edges)) (bt_get m x)"
  using assms
proof (induction edges arbitrary: m)
  case (Cons e edges)
  have "bt_wf (push_target e m)" using Cons.prems by (simp add: push_target_def split: option.split)
  from Cons.IH [OF this] Cons.prems show ?case
    by (auto simp: push_target_def option.map_comp o_def split: option.splits)
qed (simp add: option.map_ident)

lemma adjacency_succs:
  "set (succs (adjacency nodes edges) x) =
     (if x \<in> set nodes then {edge_to e | e. e \<in> set edges \<and> edge_from e = x} else {})"
proof -
  have "map_of (rev (map (\<lambda>node. (node, [] :: repo_path list)) nodes)) x = (if x \<in> set nodes then Some [] else None)"
    unfolding rev_map map_of_map_restrict by (simp add: restrict_map_def)
  then have "bt_get (adjacency nodes edges) x =
      (if x \<in> set nodes then Some (sort_dedup (map edge_to (filter (\<lambda>e. edge_from e = x) edges))) else None)"
    unfolding adjacency_def map_of_map by (simp add: push_targets_get bt_get_collect)
  then show ?thesis by (cases "x \<in> set nodes") (simp_all add: image_def Bex_def conj_commute)
qed

lemma runtime_succs:
  assumes "projection_wf p"
  shows "t \<in> set (succs (adjacency (pj_nodes p) (runtime_edges p)) u) \<longleftrightarrow> (u, t) \<in> runtime_rel p"
  using runtime_rel_nodes [OF assms, of u t] by (auto simp: adjacency_succs runtime_rel_def)

lemma walk_reaches:
  "walk R v \<Longrightarrow> x \<in> set v \<Longrightarrow> (hd v, x) \<in> R\<^sup>* \<and> (x, last v) \<in> R\<^sup>*"
proof (induction v arbitrary: x)
  case (Cons a v)
  show ?case
  proof (cases "v = []")
    case False
    then have step: "(a, hd v) \<in> R" "walk R v" using Cons.prems(1) by (auto simp: walk_def successively_Cons)
    have tail: "(hd v, y) \<in> R\<^sup>* \<and> (y, last v) \<in> R\<^sup>*" if "y \<in> set v" for y using Cons.IH [OF step(2) that] .
    show ?thesis
    proof (cases "x \<in> set v")
      case True
      with tail step(1) False show ?thesis by (auto intro: converse_rtrancl_into_rtrancl)
    next
      case outside: False
      with Cons.prems(2) have "x = a" by simp
      moreover have "(hd v, last v) \<in> R\<^sup>*" using tail [of "last v"] False by simp
      ultimately show ?thesis using step(1) False by (auto intro: converse_rtrancl_into_rtrancl)
    qed
  qed (use Cons.prems in simp)
qed simp

section \<open>What is reported\<close>

definition closed_walk_through :: "projection \<Rightarrow> dependency_edge \<Rightarrow> repo_path list \<Rightarrow> bool" where
  "closed_walk_through p e w \<longleftrightarrow>
     walk (runtime_rel p) w \<and> 2 \<le> length w \<and> hd w = edge_from e \<and> w ! 1 = edge_to e \<and> last w = edge_from e"

text \<open>The report of a component: its size and first members, a runtime edge inside it that the
  baseline does not have, and a shortest closed walk through that edge.\<close>

definition reports_cycle :: "projection \<Rightarrow> projection \<Rightarrow> repo_path btree_set \<Rightarrow> introduced_cycle \<Rightarrow> bool" where
  "reports_cycle before after c i \<longleftrightarrow>
     ic_member_count i = length c \<and> ic_members i = take MAX_CYCLE_MEMBER_PATHS c \<and>
     ic_members_truncated i = (length c > MAX_CYCLE_MEMBER_PATHS) \<and>
     ic_trigger i \<in> set (runtime_edges after) - set (runtime_edges before) \<and>
     edge_from (ic_trigger i) \<in> set c \<and> edge_to (ic_trigger i) \<in> set c \<and>
     (\<exists>w. closed_walk_through after (ic_trigger i) w \<and> set w \<subseteq> set c \<and>
        (\<forall>v. closed_walk_through after (ic_trigger i) v \<longrightarrow> length w \<le> length v) \<and>
        ic_witness_truncated i = (length w > MAX_CYCLE_WITNESS_PATHS) \<and>
        ic_witness i = (if length w > MAX_CYCLE_WITNESS_PATHS then [] else w))"

lemma introduced_cycle_of_reports:
  assumes wf: "projection_wf after" and c: "set c \<in> set (pj_nodes after) // mutual (runtime_rel after)"
    and trigger: "e \<in> set (runtime_edges after)" "e \<notin> set (runtime_edges before)"
      "edge_from e \<in> set c" "edge_to e \<in> set c"
  shows "\<exists>i. introduced_cycle_of (adjacency (pj_nodes after) (runtime_edges after)) c e = Some (Some i) \<and>
           reports_cycle before after c i"
proof -
  let ?adj = "adjacency (pj_nodes after) (runtime_edges after)" and ?R = "runtime_rel after"
  have inside: "(u, t) \<in> inside ?adj c \<longleftrightarrow> (u, t) \<in> ?R \<and> t \<in> set c" for u t
    by (simp only: inside_def mem_Collect_eq prod.case runtime_succs [OF wf])
  note to_class = class_member [OF c trigger(4)] and from_class = class_member [OF c trigger(3)]
  have "(edge_to e, edge_from e) \<in> mutual ?R" using to_class trigger(3) by blast
  then have "(edge_to e, edge_from e) \<in> (?R \<inter> set c \<times> set c)\<^sup>*"
    by (intro walk_in_class [OF _ _ to_class]) (simp_all add: mutual_def)
  then have reach: "(edge_to e, edge_from e) \<in> (inside ?adj c)\<^sup>*"
    by (rule rtrancl_mono [THEN subsetD, rotated]) (auto simp: inside)
  have "edge_to e \<in> set (succs ?adj (edge_from e))"
    using trigger(1) by (simp only: runtime_succs [OF wf]) (auto simp: runtime_rel_def)
  from shortest_witness_spec [OF trigger(3,4) this reach] obtain w where
    w: "shortest_witness ?adj c e = Some (Some w)" "2 \<le> length w" "hd w = edge_from e" "w ! 1 = edge_to e"
      "last w = edge_from e" "walk (inside ?adj c) w"
    and min: "\<And>v. walk (inside ?adj c) v \<Longrightarrow> 2 \<le> length v \<Longrightarrow> hd v = edge_from e \<Longrightarrow> v ! 1 = edge_to e \<Longrightarrow>
         last v = edge_from e \<Longrightarrow> length w \<le> length v"
    by blast
  have stay: "set v \<subseteq> set c" if "closed_walk_through after e v" for v
    using that walk_reaches [of ?R v] by (auto simp: closed_walk_through_def from_class mutual_def)
  have "walk (inside ?adj c) v" if "closed_walk_through after e v" for v
    using that stay [OF that] unfolding walk_def closed_walk_through_def
    by (elim conjE) (erule successively_mono, auto simp: inside)
  then have "length w \<le> length v" if "closed_walk_through after e v" for v
    using that min [of v] by (auto simp: closed_walk_through_def)
  moreover have "closed_walk_through after e w"
    using w(2-6) unfolding walk_def closed_walk_through_def
    by (auto elim: successively_mono simp: inside)
  ultimately show ?thesis
    using w(1) stay [of w] trigger by (auto simp: introduced_cycle_of_def reports_cycle_def Let_def)
qed

lemma report_cycles_all:
  assumes "\<And>c. c \<in> set comps \<Longrightarrow> \<exists>e i. first_new_internal_edge c new_edges = Some e \<and>
      introduced_cycle_of adj c e = Some (Some i) \<and> P c i"
  shows "\<exists>cs. report_cycles adj new_edges comps = Some cs \<and> list_all2 P comps cs"
  using assms
proof (induction comps)
  case (Cons c comps)
  from Cons.prems [of c] obtain e i where "first_new_internal_edge c new_edges = Some e"
    "introduced_cycle_of adj c e = Some (Some i)" "P c i" by auto
  moreover from Cons obtain cs where "report_cycles adj new_edges comps = Some cs" "list_all2 P comps cs" by auto
  ultimately show ?case by auto
qed simp

lemma introduced_cycles_spec:
  assumes before: "projection_wf before" and after: "projection_wf after"
  shows "\<exists>comps cs. introduced_cycles before after = Some cs \<and>
    set ` set comps = {C \<in> cycles after. \<not> (\<exists>D\<in>cycles before. C \<subseteq> D)} \<and>
    distinct comps \<and> (\<forall>c\<in>set comps. bs_wf c) \<and> sorted (map bs_first comps) \<and>
    list_all2 (reports_cycle before after) comps cs"
proof -
  from cyclic_components_spec [OF before] obtain bc where
    bc: "cyclic_components before = Some bc" "set ` set bc = cycles before" "distinct bc" "\<forall>c\<in>set bc. bs_wf c"
    by blast
  from cyclic_components_spec [OF after] obtain ac where
    ac: "cyclic_components after = Some ac" "set ` set ac = cycles after" "distinct ac" "\<forall>c\<in>set ac. bs_wf c"
      "sorted (map bs_first ac)"
    by blast
  define comps where "comps = filter (\<lambda>c. \<not> contained_in_prior_cycle c (component_membership bc)) ac"
  have contained: "contained_in_prior_cycle c (component_membership bc) \<longleftrightarrow> (\<exists>D\<in>cycles before. set c \<subseteq> D)"
    if "c \<in> set ac" for c
  proof -
    have "set c \<in> cycles after" using that ac(2) by auto
    then have "c \<noteq> []" by (auto simp: cycles_def)
    then show ?thesis by (rule contained_iff [OF bc(3,4,2)])
  qed
  let ?new = "new_runtime_edges after (bs_collect (runtime_edges before))"
  let ?adj = "adjacency (pj_nodes after) (runtime_edges after)"
  have "\<exists>e i. first_new_internal_edge c ?new = Some e \<and> introduced_cycle_of ?adj c e = Some (Some i) \<and>
      reports_cycle before after c i" if "c \<in> set comps" for c
  proof -
    have c: "c \<in> set ac" "\<not> (\<exists>D\<in>cycles before. set c \<subseteq> D)" using that contained by (auto simp: comps_def)
    then have C: "set c \<in> cycles after" using ac(2) by auto
    show ?thesis
    proof (cases "first_new_internal_edge c ?new")
      case None
      with unchanged_cycle_contained [OF before C] c(2) first_new_internal_edge_None [OF None]
      show ?thesis by auto
    next
      case (Some e)
      from first_new_internal_edge_Some [OF Some] C
      have "\<exists>i. introduced_cycle_of ?adj c e = Some (Some i) \<and> reports_cycle before after c i"
        by (intro introduced_cycle_of_reports [OF after]) (auto simp: cycles_def)
      with Some show ?thesis by blast
    qed
  qed
  from report_cycles_all [OF this] obtain cs where
    "report_cycles ?adj ?new comps = Some cs" "list_all2 (reports_cycle before after) comps cs" by blast
  moreover have "set ` set comps = {C \<in> cycles after. \<not> (\<exists>D\<in>cycles before. C \<subseteq> D)}"
    using contained ac(2) [symmetric] by (auto simp: comps_def)
  ultimately show ?thesis
    using ac bc by (intro exI [where x = comps] exI [where x = cs])
      (auto simp: introduced_cycles_def comps_def Let_def sorted_filter)
qed

section \<open>What continuity pairs\<close>

lemma unmatched_loop_spec:
  "bs_wf bs \<Longrightarrow> bs_wf as \<Longrightarrow> unmatched_loop bs as removed added =
     (removed @ filter (\<lambda>p. p \<notin> set as) bs, added @ filter (\<lambda>p. p \<notin> set bs) as)"
proof (induction bs as removed added rule: unmatched_loop.induct)
  case (1 b bs a as removed added)
  have later: "b \<notin> set as" if "b < a" using 1(5) that by auto
  have later': "a \<notin> set bs" if "a < b" using 1(4) that by auto
  show ?case
  proof (cases b a rule: linorder_cases)
    case less
    with 1 later have "filter (\<lambda>p. p \<notin> set (b # bs)) (a # as) = filter (\<lambda>p. p \<notin> set bs) (a # as)"
      by (intro filter_cong) auto
    with 1 less later show ?thesis by (auto simp: cmp_def)
  next
    case equal
    with 1 have "filter (\<lambda>p. p \<notin> set (b # bs)) as = filter (\<lambda>p. p \<notin> set bs) as"
      "filter (\<lambda>p. p \<notin> set (a # as)) bs = filter (\<lambda>p. p \<notin> set as) bs"
      by (auto intro!: filter_cong)
    with 1 equal show ?thesis by (auto simp: cmp_def)
  next
    case greater
    with 1 later' have "filter (\<lambda>p. p \<notin> set (a # as)) (b # bs) = filter (\<lambda>p. p \<notin> set as) (b # bs)"
      by (intro filter_cong) auto
    with 1 greater later' show ?thesis by (auto simp: cmp_def)
  qed
qed auto

definition only_in :: "source_snapshot \<Rightarrow> source_snapshot \<Rightarrow> content_id \<Rightarrow> repo_path set" where
  "only_in s t k = {p. snapshot_read t p = None \<and> (\<exists>f. snapshot_read s p = Some f \<and> sf_content_id f = k)}"

lemma members_paths:
  "members (\<lambda>path. map_option (\<lambda>f. (sf_content_id f, path)) (snapshot_read s path)) ps k =
     filter (\<lambda>p. map_option sf_content_id (snapshot_read s p) = Some k) ps"
  by (induction ps) (auto split: option.splits)

lemma distinct_set_singleton: "distinct xs \<Longrightarrow> set xs = {p} \<longleftrightarrow> xs = [p]"
proof (cases xs)
  case (Cons x ys)
  assume "distinct xs"
  with Cons show ?thesis by (cases ys) auto
qed simp

lemma content_paths_single:
  assumes "snapshot_wf s"
  shows "bt_get (content_paths s (filter (\<lambda>p. p \<notin> set (snapshot_paths t)) (snapshot_paths s))) k = Some [p]
    \<longleftrightarrow> only_in s t k = {p}"
proof -
  define ms where "ms = filter (\<lambda>p. map_option sf_content_id (snapshot_read s p) = Some k)
    (filter (\<lambda>p. p \<notin> set (snapshot_paths t)) (snapshot_paths s))"
  have "distinct ms" using snapshot_paths_wf [OF assms] by (auto simp: ms_def)
  moreover have "p \<in> set (snapshot_paths s)" if "snapshot_read s p = Some f" for p f
    using that snapshot_read_None [of s p] by auto
  then have "set ms = only_in s t k"
    by (auto simp: ms_def only_in_def snapshot_read_None)
  ultimately have "ms = [p] \<longleftrightarrow> only_in s t k = {p}"
    using distinct_set_singleton [of ms p] by simp
  moreover have "bt_get (content_paths s (filter (\<lambda>p. p \<notin> set (snapshot_paths t)) (snapshot_paths s))) k
      = (if ms = [] then None else Some ms)"
    unfolding content_paths_def bt_get_group members_paths ms_def ..
  ultimately show ?thesis by auto
qed

lemma in_map_filter: "y \<in> set (List.map_filter f xs) \<longleftrightarrow> (\<exists>x\<in>set xs. f x = Some y)"
  by (induction xs) (auto split: option.splits)

lemma distinct_map_filter_key:
  assumes "distinct xs"
    and "\<And>x x' y y'. x \<in> set xs \<Longrightarrow> x' \<in> set xs \<Longrightarrow> f x = Some y \<Longrightarrow> f x' = Some y' \<Longrightarrow> g y = g y' \<Longrightarrow> x = x'"
  shows "distinct (map g (List.map_filter f xs))"
  using assms
proof (induction xs)
  case (Cons x xs)
  then have "distinct (map g (List.map_filter f xs))" by auto
  then show ?case using Cons.prems by (auto simp: in_map_filter split: option.splits) blast
qed simp

lemma exact_path_continuity_get:
  assumes "snapshot_wf before" and "snapshot_wf after"
  shows "bt_get (exact_path_continuity before after) b = Some a \<longleftrightarrow>
    (\<exists>k. only_in before after k = {b} \<and> only_in after before k = {a})"
proof -
  let ?removed = "content_paths before (filter (\<lambda>p. p \<notin> set (snapshot_paths after)) (snapshot_paths before))"
  let ?added = "content_paths after (filter (\<lambda>p. p \<notin> set (snapshot_paths before)) (snapshot_paths after))"
  define pick where "pick = (\<lambda>(content, before_paths).
           case bt_get ?added content of
             None \<Rightarrow> None
           | Some after_paths \<Rightarrow>
               if length before_paths = 1 \<and> length after_paths = 1
               then Some (before_paths ! 0 :: repo_path, after_paths ! 0) else None)"
  have wf: "bt_wf ?removed" by (simp add: content_paths_def)
  have pick: "pick (k, ps) = Some (x, y) \<longleftrightarrow> ps = [x] \<and> bt_get ?added k = Some [y]" for k ps x y
    by (auto simp: pick_def length_Suc_conv split: option.splits)
  have chosen: "(k, ps) \<in> set ?removed \<and> pick (k, ps) = Some (x, y) \<longleftrightarrow>
      ps = [x] \<and> only_in before after k = {x} \<and> only_in after before k = {y}" for k ps x y
    using content_paths_single [OF assms(1), of after k x] content_paths_single [OF assms(2), of before k y]
    by (auto simp: pick bt_get_in_set [OF wf, symmetric])
  have pairs: "(x, y) \<in> set (List.map_filter pick ?removed) \<longleftrightarrow>
      (\<exists>k. only_in before after k = {x} \<and> only_in after before k = {y})" for x y
    unfolding in_map_filter using chosen by (metis surj_pair)
  have same: "k = k'" if "only_in before after k = {x}" "only_in before after k' = {x}" for k k' x
  proof -
    have "x \<in> only_in before after k" "x \<in> only_in before after k'" using that by auto
    then show ?thesis by (auto simp: only_in_def)
  qed
  have "distinct (map fst (List.map_filter pick ?removed))"
  proof (rule distinct_map_filter_key)
    show "distinct ?removed" using bt_wf_distinct [OF wf] by (simp add: distinct_map)
    show "e = e'" if "e \<in> set ?removed" "e' \<in> set ?removed" "pick e = Some y" "pick e' = Some y'" "fst y = fst y'"
      for e e' y y'
      using that same chosen by (metis prod.collapse)
  qed
  then show ?thesis
    using bt_get_collect_distinct [of "List.map_filter pick ?removed" b a] pairs
    by (simp add: exact_path_continuity_def unmatched_paths_def unmatched_loop_spec snapshot_paths_wf assms pick_def)
qed

section \<open>Properties\<close>

text \<open>
  C2. Introduced cycles are exactly the new or extended ones. For any two graphs whose edges join
  their nodes, the search returns, without a panic and without running forever, one report for
  each cycle of the candidate that no cycle of the baseline contains, in the order of their first
  members. Each report gives the size and first members of the cycle, a runtime edge inside it
  that the baseline lacks, and as its witness a closed walk through that edge which stays in the
  cycle and is no longer than any other; the walk is left out, and marked so, only beyond the
  length limit.
\<close>

theorem introduced_cycles_exact:
  assumes "projection_wf before" and "projection_wf after"
  shows "\<exists>comps cs. introduced_cycles before after = Some cs \<and>
    set ` set comps = {C \<in> cycles after. \<not> (\<exists>D\<in>cycles before. C \<subseteq> D)} \<and>
    distinct comps \<and> (\<forall>c\<in>set comps. bs_wf c) \<and> sorted (map bs_first comps) \<and>
    list_all2 (reports_cycle before after) comps cs"
  using assms by (rule introduced_cycles_spec)

definition sample_graph :: "dependency_edge list \<Rightarrow> projection" where
  "sample_graph edges =
     \<lparr> pj_nodes = [RepoPath ''a'', RepoPath ''b''], pj_edges = edges,
       pj_coverage = \<lparr> rc_files = 0, rc_complete_files = 0, rc_unsupported_files = 0,
         rc_parser_failed_files = 0, rc_truncated_files = 0, rc_runtime_references = 0,
         rc_type_references = 0, rc_structural_references = 0, rc_resolved_references = 0,
         rc_node_builtin_references = 0, rc_external_references = 0, rc_ambiguous_references = 0,
         rc_unresolved_references = 0, rc_unsupported_dynamic_references = 0,
         rc_configuration_errors = 0, rc_edges_truncated = False \<rparr>,
       pj_resolution_gaps = [], pj_resolution_gaps_truncated = False, pj_interfaces = [],
       pj_interface_edges = [],
       pj_interface_coverage = \<lparr> icov_files = 0, icov_complete_files = 0, icov_partial_files = 0,
         icov_unsupported_files = 0, icov_parser_failed_files = 0, icov_truncated_files = 0,
         icov_complete_public_surfaces = 0, icov_partial_public_surfaces = 0,
         icov_unsupported_public_surfaces = 0, icov_truncated_public_surfaces = 0,
         icov_resolved_selectors = 0, icov_selectors_truncated = False,
         icov_gaps = \<lparr> wildcard_exports = 0, namespace_imports = 0, common_js_exports = 0,
           dynamic_loaders = 0, unsupported_patterns = 0 \<rparr> \<rparr> \<rparr>"

definition sample_edge :: "bytes \<Rightarrow> bytes \<Rightarrow> dependency_edge" where
  "sample_edge a b = \<lparr> edge_from = RepoPath a, edge_to = RepoPath b, edge_kind = EdgeRuntime \<rparr>"

lemma sample_graph_wf:
  "projection_wf (sample_graph [sample_edge ''a'' ''b''])"
  "projection_wf (sample_graph [sample_edge ''a'' ''b'', sample_edge ''b'' ''a''])"
  by (simp_all add: projection_wf_def sample_graph_def sample_edge_def less_repo_path_def
      less_dependency_edge_ext_def dependency_edge_key_def)

theorem introduced_cycles_exact_witness:
  "\<exists>comps cs. introduced_cycles (sample_graph [sample_edge ''a'' ''b''])
      (sample_graph [sample_edge ''a'' ''b'', sample_edge ''b'' ''a'']) = Some cs \<and>
    list_all2 (reports_cycle (sample_graph [sample_edge ''a'' ''b''])
      (sample_graph [sample_edge ''a'' ''b'', sample_edge ''b'' ''a''])) comps cs"
  using introduced_cycles_exact [OF sample_graph_wf] by (elim exE conjE) (intro exI conjI; assumption)

lemma read_single:
  "snapshot_read (snapshot_new K [f]) p = (if p = sf_path f then Some f else None)"
  by (simp add: snapshot_read_def snapshot_new_def Let_def bt_collect_def)

text \<open>
  Path continuity between two snapshots is exact: a removed path continues as an added path if
  and only if they are the only removed and the only added path with their content.
\<close>

lemma exact_path_continuity_unique:
  assumes "snapshot_wf before" and "snapshot_wf after"
  shows "bt_get (exact_path_continuity before after) b = Some a \<longleftrightarrow>
    (\<exists>k. only_in before after k = {b} \<and> only_in after before k = {a})"
  using assms by (rule exact_path_continuity_get)

end
