(* ===== verification/MetricsSound.thy ===== *)
theory MetricsSound
  imports Metrics DepGraph
begin

text \<open>
  Properties of the structural metrics of the theory \<open>Metrics\<close>: the reverse impact is exact or marked
  as a lower bound, the counts that the code takes in one pass over ordered edges are the numbers of
  distinct targets, interface findings are introduced by the change, and the observations are bounded
  fairly.
\<close>

section \<open>Reverse impact\<close>

text \<open>Who depends on whom in a projection.\<close>

definition depends :: "projection \<Rightarrow> (repo_path \<times> repo_path) set" where
  "depends p = (\<lambda>e. (edge_from e, edge_to e)) ` set (pj_edges p)"

definition impacted :: "projection \<Rightarrow> repo_path \<Rightarrow> repo_path set" where
  "impacted p path = {q. q \<noteq> path \<and> (q, path) \<in> (depends p)\<^sup>*}"

definition sources :: "(repo_path \<times> repo_path) set \<Rightarrow> repo_path \<Rightarrow> repo_path set" where
  "sources E x = {q. (q, x) \<in> E \<and> q \<noteq> x}"

lemma sources_insert: "sources (insert (a, b) E) x = (if x = b \<and> a \<noteq> b then insert a (sources E x) else sources E x)"
  by (auto simp: sources_def)

lemma map_of_constant: "map_of (map (\<lambda>x. (x, c)) xs) y = (if y \<in> set xs then Some c else None)"
  by (induction xs) auto

definition reverse_ok :: "repo_path set \<Rightarrow> (repo_path \<times> repo_path) set \<Rightarrow> reverse_edges \<Rightarrow> bool" where
  "reverse_ok nodes E reverse \<longleftrightarrow> bt_wf reverse \<and>
     (\<forall>x. case bt_get reverse x of
            None \<Rightarrow> x \<notin> nodes
          | Some ds \<Rightarrow> x \<in> nodes \<and> bs_wf ds \<and> set ds = sources E x)"

lemma reverse_ok_step:
  assumes "reverse_ok nodes E reverse" and "edge_to e \<in> nodes"
  shows "reverse_ok nodes (insert (edge_from e, edge_to e) E)
    (if edge_from e = edge_to e then reverse
     else case bt_get reverse (edge_to e) of None \<Rightarrow> reverse
       | Some ds \<Rightarrow> bt_insert (edge_to e) (bs_insert (edge_from e) ds) reverse)"
proof (cases "edge_from e = edge_to e")
  case True
  then have same: "sources (insert (edge_from e, edge_to e) E) = sources E" by (intro ext) (simp add: sources_insert)
  show ?thesis using assms(1) True unfolding reverse_ok_def same by simp
next
  case False
  note r = assms(1) [unfolded reverse_ok_def]
  from r [THEN conjunct2, THEN spec, of "edge_to e"] assms(2) obtain ds where
    ds: "bt_get reverse (edge_to e) = Some ds" "bs_wf ds" "set ds = sources E (edge_to e)" by (auto split: option.splits)
  have "case bt_get (bt_insert (edge_to e) (bs_insert (edge_from e) ds) reverse) x of None \<Rightarrow> x \<notin> nodes
      | Some ds \<Rightarrow> x \<in> nodes \<and> bs_wf ds \<and> set ds = sources (insert (edge_from e, edge_to e) E) x" for x
    using r [THEN conjunct2, THEN spec, of x] conjunct1 [OF r] ds assms(2) False
    by (cases "bt_get reverse x") (simp_all add: sources_insert)
  with r False ds(1) show ?thesis unfolding reverse_ok_def by simp
qed

lemma reverse_adjacency_ok:
  assumes "projection_wf p"
  shows "reverse_ok (set (pj_nodes p)) (depends p) (reverse_adjacency p)"
proof -
  let ?step = "\<lambda>e reverse. if edge_from e = edge_to e then reverse
      else case bt_get reverse (edge_to e) of None \<Rightarrow> reverse
        | Some ds \<Rightarrow> bt_insert (edge_to e) (bs_insert (edge_from e) ds) reverse"
  have "reverse_ok N ((\<lambda>e. (edge_from e, edge_to e)) ` set es \<union> E) (fold ?step es r)"
    if "reverse_ok N E r" "\<forall>e\<in>set es. edge_to e \<in> N" for N E r es
    using that
  proof (induction es arbitrary: E r)
    case (Cons e es)
    from Cons.IH [OF reverse_ok_step [OF Cons.prems(1), of e]] Cons.prems(2) show ?case by simp
  qed simp
  moreover have "reverse_ok (set (pj_nodes p)) {} (bt_collect (map (\<lambda>path. (path, [])) (pj_nodes p)))"
    by (simp add: reverse_ok_def bt_get_collect rev_map map_of_constant sources_def)
  ultimately show ?thesis using assms unfolding reverse_adjacency_def depends_def projection_wf_def by fastforce
qed

lemma set_dependents:
  assumes "reverse_ok (set (pj_nodes p)) (depends p) reverse" and "projection_wf p"
  shows "set (dependents reverse x) = sources (depends p) x" and "bs_wf (dependents reverse x)"
proof -
  have "x \<notin> set (pj_nodes p) \<Longrightarrow> sources (depends p) x = {}"
    using assms(2) by (auto simp: sources_def depends_def projection_wf_def)
  with assms(1) [unfolded reverse_ok_def, THEN conjunct2, THEN spec, of x]
  show "set (dependents reverse x) = sources (depends p) x" "bs_wf (dependents reverse x)"
    by (cases "bt_get reverse x"; simp add: dependents_def)+
qed

lemma queue_dependents_eq:
  "queue_dependents ds queue budget =
    (if length ds \<le> budget then (True, queue @ ds, budget - length ds) else (False, queue @ take budget ds, 0))"
  by (induction ds queue budget rule: queue_dependents.induct) (auto simp: take_Cons' not_le)

text \<open>
  The search from a start: what was visited besides the start is what is returned, all of it is
  reached, and the dependents of what was visited are visited or queued.
\<close>

definition search_inv ::
    "reverse_edges \<Rightarrow> repo_path \<Rightarrow> repo_path btree_set \<Rightarrow> repo_path btree_set \<Rightarrow> repo_path list \<Rightarrow> bool" where
  "search_inv reverse s visited reachable queue \<longleftrightarrow>
     bs_wf reachable \<and> set visited = insert s (set reachable) \<and> s \<notin> set reachable \<and>
     (\<forall>q\<in>set reachable \<union> set queue. (s, q) \<in> {(x, d). d \<in> set (dependents reverse x)}\<^sup>*) \<and>
     (\<forall>x\<in>set visited. set (dependents reverse x) \<subseteq> set visited \<union> set queue)"

lemma reach_loop_spec:
  assumes "search_inv reverse s visited reachable queue"
    and "reach_loop reverse visited reachable queue budget = (r, complete, budget')"
  shows "bs_wf r \<and> budget' \<le> budget \<and> (\<not> complete \<longrightarrow> budget' = 0) \<and>
    set r \<subseteq> {q. q \<noteq> s \<and> (s, q) \<in> {(x, d). d \<in> set (dependents reverse x)}\<^sup>*} \<and>
    (complete \<longrightarrow> set r = {q. q \<noteq> s \<and> (s, q) \<in> {(x, d). d \<in> set (dependents reverse x)}\<^sup>*})"
  using assms
proof (induction reverse visited reachable queue budget rule: reach_loop.induct)
  case (1 reverse visited reachable budget)
  let ?S = "{(x, d). d \<in> set (dependents reverse x)}"
  have r: "r = reachable" "complete" "budget' = budget" using 1(2) by (simp_all add: reach_loop.simps)
  have "(s, q) \<in> ?S\<^sup>* \<Longrightarrow> q \<in> set visited" for q
  proof (induction rule: rtrancl_induct)
    case base
    then show ?case using 1(1) by (simp add: search_inv_def)
  next
    case (step x y)
    then show ?case using 1(1) by (auto simp: search_inv_def)
  qed
  with 1(1) r show ?case by (auto simp: search_inv_def)
next
  case (2 reverse visited reachable current queue budget)
  let ?S = "{(x, d). d \<in> set (dependents reverse x)}"
  show ?case
  proof (cases "current \<in> set visited")
    case True
    with 2(3) have "search_inv reverse s visited reachable queue" by (auto simp: search_inv_def)
    with 2(1) [OF True this] 2(4) True show ?thesis by (simp add: reach_loop.simps)
  next
    case False
    have new: "(s, current) \<in> ?S\<^sup>*" "current \<noteq> s" using 2(3) False by (auto simp: search_inv_def)
    show ?thesis
    proof (cases "length (dependents reverse current) \<le> budget")
      case True
      let ?q = "queue @ dependents reverse current" and ?b = "budget - length (dependents reverse current)"
      have step: "(s, q) \<in> ?S\<^sup>*" if "q \<in> set (dependents reverse current)" for q
        using new(1) that by (meson case_prodI mem_Collect_eq rtrancl.rtrancl_into_rtrancl)
      have "search_inv reverse s (bs_insert current visited) (bs_insert current reachable) ?q"
        using 2(3) new step unfolding search_inv_def by (auto 0 3 dest: subsetD)
      moreover have "reach_loop reverse (bs_insert current visited) (bs_insert current reachable) ?q ?b = (r, complete, budget')"
        using 2(4) False True by (simp add: reach_loop.simps queue_dependents_eq)
      ultimately show ?thesis using 2(2) [OF False, of True "(?q, ?b)" ?q ?b] True by (auto simp: queue_dependents_eq)
    next
      case cut: False
      with 2(4) False have "r = bs_insert current reachable" "\<not> complete" "budget' = 0"
        by (simp_all add: reach_loop.simps queue_dependents_eq)
      with 2(3) new show ?thesis by (auto simp: search_inv_def)
    qed
  qed
qed

lemma reversed_rtrancl:
  assumes "\<And>x. set (dependents reverse x) = sources (depends p) x"
  shows "{q. q \<noteq> s \<and> (s, q) \<in> {(x, d). d \<in> set (dependents reverse x)}\<^sup>*} = impacted p s"
proof -
  have "{(x, d). d \<in> set (dependents reverse x)} = (depends p - Id)\<inverse>" using assms by (auto simp: sources_def)
  then have "(s, q) \<in> {(x, d). d \<in> set (dependents reverse x)}\<^sup>* \<longleftrightarrow> (q, s) \<in> (depends p)\<^sup>*" for q
    by (simp add: rtrancl_converse rtrancl_r_diff_Id)
  then show ?thesis by (simp add: impacted_def)
qed

lemma reverse_reachable_spec:
  assumes "projection_wf p" and "reverse_reachable path (reverse_adjacency p) budget = (r, complete, budget')"
  shows "bs_wf r \<and> budget' \<le> budget \<and> (\<not> complete \<longrightarrow> budget' = 0) \<and> set r \<subseteq> impacted p path \<and> (complete \<longrightarrow> set r = impacted p path)"
proof -
  let ?r = "reverse_adjacency p"
  note d = set_dependents [OF reverse_adjacency_ok [OF assms(1)] assms(1)]
  note t = reversed_rtrancl [of ?r p path, OF d(1)]
  show ?thesis
  proof (cases "budget = 0")
    case False
    have "(path, q) \<in> {(x, d). d \<in> set (dependents ?r x)}\<^sup>*" if "q \<in> set (dependents ?r path)" for q
      using that by blast
    then have "search_inv ?r path [path] [] (dependents ?r path)" by (auto simp: search_inv_def)
    with reach_loop_spec [OF this] False assms(2) t show ?thesis by (simp add: reverse_reachable_def)
  next
    case True
    have sub: "set (dependents ?r path) \<subseteq> impacted p path" unfolding d(1) by (auto simp: sources_def impacted_def)
    have "impacted p path = {}" if "dependents ?r path = []"
    proof -
      have none: "(q, path) \<notin> depends p - Id" for q using d(1) [of path] that by (auto simp: sources_def)
      have "(q, path) \<notin> (depends p - Id)\<^sup>*" if "q \<noteq> path" for q
        using none that by (metis rtranclE)
      then show ?thesis unfolding impacted_def rtrancl_r_diff_Id by blast
    qed
    moreover have "r = bs_collect (dependents ?r path)" "complete = (dependents ?r path = [])" "budget' = 0"
      using True assms(2) by (auto simp: reverse_reachable_def)
    ultimately show ?thesis using sub by simp
  qed
qed

lemma finite_impacted: "finite (impacted p path)"
proof (rule finite_subset)
  show "impacted p path \<subseteq> Domain (depends p)" unfolding impacted_def by (auto elim: converse_rtranclE)
  show "finite (Domain (depends p))" by (simp add: depends_def finite_Domain)
qed

text \<open>The state a path is observed in: the candidate, or the baseline for a deleted path.\<close>

definition impact_view :: "projection \<Rightarrow> projection \<Rightarrow> repo_path \<Rightarrow> projection" where
  "impact_view before after path = (if path \<in> set (pj_nodes after) then after else before)"

definition exact_impact :: "projection \<Rightarrow> projection \<Rightarrow> impact_observation \<Rightarrow> bool" where
  "exact_impact before after i \<longleftrightarrow>
     (let p = impact_view before after (impact_path i); found = impact_confirmed_reachable_dependents i
      in impact_deleted i = (impact_path i \<notin> set (pj_nodes after)) \<and>
         impact_confirmed_direct_dependents i = card (sources (depends p) (impact_path i)) \<and>
         found \<le> card (impacted p (impact_path i)) \<and>
         (impact_reachable_count_is_lower_bound i \<or> found = card (impacted p (impact_path i))) \<and>
         set (impact_sample i) \<subseteq> impacted p (impact_path i) \<and> length (impact_sample i) \<le> MAX_OBSERVATION_PATHS \<and>
         (impact_sample_truncated i \<longleftrightarrow> length (impact_sample i) < found))"

definition impact_inv :: "projection \<Rightarrow> projection \<Rightarrow> nat \<Rightarrow> repo_path list \<Rightarrow> impact_state \<Rightarrow> bool" where
  "impact_inv before after threshold paths st \<longleftrightarrow>
     map impact_path (imst_impact st) = paths \<and> list_all (exact_impact before after) (imst_impact st) \<and>
     (imst_truncated st \<longleftrightarrow> list_ex impact_reachable_count_is_lower_bound (imst_impact st)) \<and>
     sum_list (map (length \<circ> impact_sample) (imst_impact st)) + imst_sample_budget st = MAX_SENSE_SAMPLE_PATHS \<and>
     map hic_path (imst_high_impact st) =
       filter (\<lambda>path. threshold \<le> card (sources (depends (impact_view before after path)) path)) paths"

lemma observe_impact_inv:
  assumes "projection_wf before" and "projection_wf after" and "impact_inv before after threshold paths st"
  shows "impact_inv before after threshold (paths @ [path])
    (observe_impact (reverse_adjacency before) (reverse_adjacency after) (pj_nodes after) threshold path st)"
proof -
  let ?p = "impact_view before after path"
  have wf: "projection_wf ?p" using assms(1,2) by (simp add: impact_view_def)
  have adj: "(if path \<notin> set (pj_nodes after) then reverse_adjacency before else reverse_adjacency after) = reverse_adjacency ?p"
    by (simp add: impact_view_def)
  obtain r c b where r: "reverse_reachable path (reverse_adjacency ?p) (imst_edge_visit_budget st) = (r, c, b)"
    by (cases "reverse_reachable path (reverse_adjacency ?p) (imst_edge_visit_budget st)")
  note spec = reverse_reachable_spec [OF wf r]
  note d = set_dependents [OF reverse_adjacency_ok [OF wf] wf, of path]
  have direct: "length (dependents (reverse_adjacency ?p) path) = card (sources (depends ?p) path)"
    using distinct_card [OF bs_wf_distinct [OF d(2)]] d(1) by simp
  have "length r = card (set r)" using distinct_card [OF bs_wf_distinct] spec by metis
  moreover have "card (set r) \<le> card (impacted ?p path)" using spec finite_impacted card_mono by blast
  ultimately have count: "length r \<le> card (impacted ?p path)" "c \<Longrightarrow> length r = card (impacted ?p path)" using spec by auto
  have sample: "set (take n r) \<subseteq> impacted ?p path" for n using spec set_take_subset [of n r] by blast
  let ?n = "min (min (length r) MAX_OBSERVATION_PATHS) (imst_sample_budget st)"
  let ?i = "\<lparr> impact_path = path, impact_deleted = (path \<notin> set (pj_nodes after)),
    impact_confirmed_direct_dependents = card (sources (depends ?p) path), impact_confirmed_reachable_dependents = length r,
    impact_reachable_count_is_lower_bound = (\<not> c), impact_sample = take ?n r, impact_sample_truncated = (length r > ?n) \<rparr>"
  have "exact_impact before after ?i" using count sample [of ?n] by (auto simp: exact_impact_def Let_def)
  then show ?thesis
    using assms(3) unfolding observe_impact_def Let_def adj r direct prod.case by (auto simp: impact_inv_def)
qed

text \<open>
  C21. Reverse impact is exact or says that it is not. For well-formed projections each changed path
  has one observation, in order: its direct dependents are counted exactly; the number of paths that
  depend on it, however indirectly, is exact unless it is marked as a lower bound, which it then is; the
  sample is drawn from those paths and is marked when it leaves some out; all samples together
  stay within their budget, and the changes of high impact are exactly those at the threshold.
\<close>

theorem impact_observations_exact:
  assumes "projection_wf before" and "projection_wf after"
  shows "case impact_observations before after changed threshold of (impact, high_impact, truncated) \<Rightarrow>
    map impact_path impact = changed \<and> list_all (exact_impact before after) impact \<and>
    (truncated \<longleftrightarrow> list_ex impact_reachable_count_is_lower_bound impact) \<and>
    sum_list (map (length \<circ> impact_sample) impact) \<le> MAX_SENSE_SAMPLE_PATHS \<and>
    map hic_path high_impact = filter (\<lambda>path. threshold \<le> card (sources (depends (impact_view before after path)) path)) changed"
proof -
  let ?step = "observe_impact (reverse_adjacency before) (reverse_adjacency after) (pj_nodes after) threshold"
  let ?st = "\<lparr> imst_impact = [], imst_high_impact = [], imst_sample_budget = MAX_SENSE_SAMPLE_PATHS,
    imst_edge_visit_budget = MAX_IMPACT_EDGE_VISITS, imst_truncated = False \<rparr>"
  have "impact_inv before after threshold paths (fold ?step paths ?st)" for paths
  proof (induction paths rule: rev_induct)
    case Nil
    show ?case by (simp add: impact_inv_def)
  next
    case (snoc path paths)
    from observe_impact_inv [OF assms snoc, of path] show ?case by simp
  qed
  from this [of changed] show ?thesis by (auto simp: impact_observations_def Let_def impact_inv_def)
qed

theorem impact_observations_exact_witness:
  "case impact_observations (sample_graph []) (sample_graph [sample_edge ''a'' ''b'']) [RepoPath ''b''] 1 of (impact, high_impact, truncated) \<Rightarrow>
    map impact_path impact = [RepoPath ''b''] \<and> map hic_path high_impact = [RepoPath ''b'']"
proof -
  have "projection_wf (sample_graph [])"
    by (simp add: projection_wf_def sample_graph_def less_repo_path_def)
  moreover have "sources (depends (impact_view (sample_graph []) (sample_graph [sample_edge ''a'' ''b'']) (RepoPath ''b''))) (RepoPath ''b'') = {RepoPath ''a''}"
    by (auto simp: impact_view_def sample_graph_def sample_edge_def depends_def sources_def)
  ultimately show ?thesis
    using impact_observations_exact [OF _ sample_graph_wf(1), of "sample_graph []" "[RepoPath ''b'']" 1] by auto
qed

section \<open>Targets\<close>

definition targets :: "dependency_edge list \<Rightarrow> repo_path \<Rightarrow> repo_path set" where
  "targets es path = {edge_to e | e. e \<in> set es \<and> edge_from e = path}"

lemma targets_snoc: "targets (es @ [e]) path = (if edge_from e = path then insert (edge_to e) (targets es path) else targets es path)"
  by (auto simp: targets_def)

lemma finite_targets [simp]: "finite (targets es path)"
  by (simp add: targets_def)

lemma card_targets: "card (targets es path) \<le> length es"
proof -
  have "targets es path \<subseteq> edge_to ` set es" by (auto simp: targets_def)
  then show ?thesis by (meson card_image_le card_length card_mono finite_imageI finite_set order_trans)
qed

text \<open>What the loop has recorded after a prefix of the ordered edges.\<close>

definition target_inv ::
    "repo_path btree_set \<Rightarrow> dependency_edge list \<Rightarrow> (repo_path, nat) btree_map \<Rightarrow> repo_path option \<Rightarrow> bool \<Rightarrow> repo_path option \<Rightarrow> nat \<Rightarrow> bool" where
  "target_inv changed pre counts current selected seen n \<longleftrightarrow>
     bt_wf counts \<and> current = (if pre = [] then None else Some (edge_from (last pre))) \<and>
     (pre \<noteq> [] \<longrightarrow> selected = (edge_from (last pre) \<in> set changed) \<and>
        (selected \<longrightarrow> seen = Some (edge_to (last pre)) \<and> n = card (targets pre (edge_from (last pre))))) \<and>
     (\<forall>path. bt_get counts path =
        (if path \<in> set changed \<and> targets pre path \<noteq> {} \<and> current \<noteq> Some path then Some (card (targets pre path)) else None))"

lemma edge_order:
  assumes "bs_wf (pre @ [e])" and "pre \<noteq> []"
  shows "targets pre (edge_from e) \<noteq> {} \<Longrightarrow> edge_from e = edge_from (last pre)"
    and "edge_from e = edge_from (last pre) \<Longrightarrow> edge_to e \<in> targets pre (edge_from e) \<Longrightarrow> edge_to e = edge_to (last pre)"
proof -
  have up: "dependency_edge_key x < dependency_edge_key e" if "x \<in> set pre" for x
    using assms(1) that by (simp add: bs_wf_def sorted_wrt_append less_dependency_edge_ext_def)
  have last: "dependency_edge_key x \<le> dependency_edge_key (last pre)" if "x \<in> set pre" for x
  proof (cases "x = last pre")
    case False
    obtain bl l where pre: "pre = bl @ [l]" using assms(2) by (cases pre rule: rev_cases) auto
    then have "x < last pre" using assms(1) that False by (auto simp: bs_wf_def sorted_wrt_append)
    then show ?thesis by (simp add: less_dependency_edge_ext_def)
  qed simp
  have l: "dependency_edge_key (last pre) < dependency_edge_key e" using up assms(2) by simp
  show "edge_from e = edge_from (last pre)" if "targets pre (edge_from e) \<noteq> {}"
  proof -
    from that obtain x where "x \<in> set pre" "edge_from x = edge_from e" by (auto simp: targets_def)
    with last [of x] l show ?thesis by (auto simp: dependency_edge_key_def less_eq_prod_def less_prod_def split: if_splits)
  qed
  show "edge_to e = edge_to (last pre)" if "edge_from e = edge_from (last pre)" "edge_to e \<in> targets pre (edge_from e)"
  proof -
    from that obtain x where "x \<in> set pre" "edge_from x = edge_from e" "edge_to x = edge_to e" by (auto simp: targets_def)
    with last [of x] l that(1) show ?thesis by (auto simp: dependency_edge_key_def less_eq_prod_def less_prod_def split: if_splits)
  qed
qed

lemma targets_last: "pre \<noteq> [] \<Longrightarrow> targets pre (edge_from (last pre)) \<noteq> {}"
  by (auto simp: targets_def intro!: exI [of _ "last pre"])

lemma target_inv_step:
  assumes "target_inv changed pre counts current selected seen n" and "bs_wf (pre @ [e])" and "Suc (length pre) \<le> usize_max"
  shows "\<exists>counts' selected' seen' n'.
    target_loop changed (e # es) counts current selected seen n = target_loop changed es counts' (Some (edge_from e)) selected' seen' n' \<and>
    target_inv changed (pre @ [e]) counts' (Some (edge_from e)) selected' seen' n'"
proof -
  note inv = assms(1) [unfolded target_inv_def]
  have add: "sat_add m 1 = Suc m" if "m \<le> length pre" for m using that assms(3) by (simp add: sat_add_exact)
  show ?thesis
  proof (cases "current = Some (edge_from e)")
    case True
    then have pre: "pre \<noteq> []" "edge_from (last pre) = edge_from e" using inv by (auto split: if_splits)
    have sel: "selected = (edge_from e \<in> set changed)" using inv pre by simp
    show ?thesis
    proof (cases "\<not> selected \<or> seen = Some (edge_to e)")
      case skip: True
      have "selected \<Longrightarrow> edge_to e \<in> targets pre (edge_from e)"
        using inv pre skip by (auto simp: targets_def intro!: exI [of _ "last pre"])
      then have "target_inv changed (pre @ [e]) counts current selected seen n"
        using inv pre sel True skip unfolding target_inv_def by (auto simp: targets_snoc insert_absorb)
      with skip True show ?thesis by (intro exI [of _ counts] exI [of _ selected] exI [of _ seen] exI [of _ n]) simp
    next
      case False
      then have new: "edge_to e \<notin> targets pre (edge_from e)" using edge_order(2) [OF assms(2) pre(1)] inv pre by auto
      have n: "n = card (targets pre (edge_from e))" using inv pre False by simp
      then have "sat_add n 1 = card (targets (pre @ [e]) (edge_from e))"
        using new add card_targets [of pre "edge_from e"] by (simp add: targets_snoc)
      then have "target_inv changed (pre @ [e]) counts current selected (Some (edge_to e)) (sat_add n 1)"
        using inv pre sel True False unfolding target_inv_def by (auto simp: targets_snoc)
      with False True show ?thesis
        by (intro exI [of _ counts] exI [of _ selected] exI [of _ "Some (edge_to e)"] exI [of _ "sat_add n 1"]) simp
    qed
  next
    case False
    let ?c = "record_target_count current selected n counts"
    have none: "targets pre (edge_from e) = {}"
      using edge_order(1) [OF assms(2)] inv False by (cases "pre = []") (auto simp: targets_def)
    have c: "bt_wf ?c" "bt_get ?c path = (if path \<in> set changed \<and> targets pre path \<noteq> {} then Some (card (targets pre path)) else None)" for path
    proof -
      show "bt_wf ?c" using inv by (simp add: record_target_count_def split: option.split)
      note targets_last [of pre]
      then show "bt_get ?c path = (if path \<in> set changed \<and> targets pre path \<noteq> {} then Some (card (targets pre path)) else None)"
        using inv by (cases "pre = []") (auto simp: record_target_count_def)
    qed
    show ?thesis
    proof (cases "edge_from e \<in> set changed")
      case True
      have "target_inv changed (pre @ [e]) ?c (Some (edge_from e)) True (Some (edge_to e)) (sat_add 0 1)"
        using c none True add [of 0] unfolding target_inv_def by (auto simp: targets_snoc)
      with False True show ?thesis
        by (intro exI [of _ ?c] exI [of _ True] exI [of _ "Some (edge_to e)"] exI [of _ "sat_add 0 1"]) simp
    next
      case out: False
      have "target_inv changed (pre @ [e]) ?c (Some (edge_from e)) False None 0"
        using c none out unfolding target_inv_def by (auto simp: targets_snoc)
      with False out show ?thesis by (intro exI [of _ ?c] exI [of _ False] exI [of _ None] exI [of _ 0]) simp
    qed
  qed
qed

lemma target_loop_counts:
  assumes "target_inv changed pre counts current selected seen n" and "bs_wf (pre @ es)" and "length (pre @ es) \<le> usize_max"
  shows "bt_get (target_loop changed es counts current selected seen n) path =
    (if path \<in> set changed \<and> targets (pre @ es) path \<noteq> {} then Some (card (targets (pre @ es) path)) else None)"
  using assms
proof (induction es arbitrary: pre counts current selected seen n)
  case Nil
  note inv = Nil(1) [unfolded target_inv_def]
  note targets_last [of pre]
  with inv show ?case by (cases "pre = []") (auto simp: record_target_count_def)
next
  case (Cons e es)
  have "bs_wf (pre @ [e])" using Cons.prems(2) by (simp add: bs_wf_def sorted_wrt_append)
  from target_inv_step [OF Cons.prems(1) this, of es] Cons.prems(3) obtain counts' selected' seen' n' where
    s: "target_loop changed (e # es) counts current selected seen n = target_loop changed es counts' (Some (edge_from e)) selected' seen' n'"
    "target_inv changed (pre @ [e]) counts' (Some (edge_from e)) selected' seen' n'" by auto
  show ?case unfolding s(1) using Cons.IH [OF s(2)] Cons.prems(2,3) by simp
qed

text \<open>
  For ordered edges the running count, which compares each edge with the one before only, is the number of
  distinct targets of a changed path, and zero for every other path.
\<close>

lemma dependency_targets_exact:
  assumes "bs_wf (pj_edges p)" and "length (pj_edges p) \<le> usize_max"
  shows "target_count (InterfaceMetricIndex_new p changed) path =
    (if path \<in> set changed then card (targets (pj_edges p) path) else 0)"
proof -
  have "target_inv changed [] [] None False None 0" by (simp add: target_inv_def targets_def)
  from target_loop_counts [OF this, of "pj_edges p" path] assms show ?thesis
    by (auto simp: target_count_def count_of_def InterfaceMetricIndex_new_def dependency_target_counts_def)
qed

section \<open>Interface findings\<close>

text \<open>
  The contract of the interface findings of one path: a measure that is above its limit and above its value
  in the baseline. Exports and shapes are only compared with a baseline whose public surface was complete,
  or with a path that is new.
\<close>

definition finding_at :: "bytes \<Rightarrow> repo_path \<Rightarrow> repo_path option \<Rightarrow> bytes option \<Rightarrow> bytes \<Rightarrow> nat \<Rightarrow> nat \<Rightarrow> nat \<Rightarrow> interface_finding" where
  "finding_at code path target entity metric before after limit =
     \<lparr> ifind_code = code, ifind_path = path, ifind_target = target, ifind_entity = entity, ifind_metric = metric,
       ifind_before = before, ifind_after = after, ifind_limit = limit, ifind_basis = ''confirmed'' \<rparr>"

definition surface_comparable :: "projection \<Rightarrow> repo_path \<Rightarrow> bool" where
  "surface_comparable p path \<longleftrightarrow>
     path \<notin> set (pj_nodes p) \<or> (\<exists>m. bt_get (pj_interfaces p) path = Some m \<and> mi_public_surface_complete m)"

definition shape_members :: "projection \<Rightarrow> repo_path \<Rightarrow> interface_shape_key \<Rightarrow> nat" where
  "shape_members p path shape =
     (case bt_get (pj_interfaces p) path of
        None \<Rightarrow> 0
      | Some m \<Rightarrow> (case bt_get (mi_shapes m) shape of None \<Rightarrow> 0 | Some n \<Rightarrow> n))"

definition edge_width :: "projection \<Rightarrow> interface_edge_key \<Rightarrow> nat" where
  "edge_width p key = (case bt_get (pj_interface_edges p) key of None \<Rightarrow> 0 | Some e \<Rightarrow> length (ie_selectors e))"

inductive interface_violation ::
    "projection \<Rightarrow> projection \<Rightarrow> interface_policy \<Rightarrow> repo_path \<Rightarrow> module_interface \<Rightarrow> interface_finding \<Rightarrow> bool"
  for before after policy path m where
  dependency_targets:
    "\<lbrakk> n = card (targets (pj_edges before) path); k = card (targets (pj_edges after) path);
       n < k; ip_dependency_targets_limit policy < k \<rbrakk> \<Longrightarrow>
     interface_violation before after policy path m
       (finding_at ''sense.interface.dependency_targets'' path None None ''confirmed_dependency_targets'' n k
          (ip_dependency_targets_limit policy))"
| module_exports:
    "\<lbrakk> \<not> pure_barrel m; surface_comparable before path;
       n = export_count (bt_get (pj_interfaces before) path); k = length (mi_exports m);
       n < k; ip_module_exports_limit policy < k \<rbrakk> \<Longrightarrow>
     interface_violation before after policy path m
       (finding_at ''sense.interface.module_exports'' path None None ''explicit_module_exports'' n k
          (ip_module_exports_limit policy))"
| edge_selectors:
    "\<lbrakk> bt_get (pj_interface_edges after) key = Some edge; iedk_from key = path;
       \<forall>e. bt_get (pj_interface_edges before) key = Some e \<longrightarrow> \<not> ie_unknown_width e;
       n = edge_width before key; k = length (ie_selectors edge); n < k; ip_edge_selectors_limit policy < k \<rbrakk> \<Longrightarrow>
     interface_violation before after policy path m
       (finding_at ''sense.interface.edge_selectors'' path (Some (iedk_to key)) None
          (edge_selector_metric (iedk_namespace key)) n k (ip_edge_selectors_limit policy))"
| shape_members:
    "\<lbrakk> surface_comparable before path; bt_get (mi_shapes m) shape = Some k;
       n = shape_members before path shape; n < k; ip_shape_members_limit policy < k \<rbrakk> \<Longrightarrow>
     interface_violation before after policy path m
       (finding_at ''sense.interface.shape_members'' path None (Some (isk_name shape))
          (shape_member_metric (isk_kind shape)) n k (ip_shape_members_limit policy))"

text \<open>Every violation is a rise above the limit at the path itself.\<close>

lemma interface_violation_rise:
  assumes "interface_violation before after policy path m f"
  shows "ifind_path f = path" and "ifind_before f < ifind_after f" and "ifind_limit f < ifind_after f"
  using assms by (induction rule: interface_violation.induct) (simp_all add: finding_at_def)

lemma set_collect_dependency_finding:
  "set (collect_dependency_finding c path m fs) = set fs \<union>
     (if introduced_violation (ips_targets (ipm_before m)) (ips_targets (ipm_after m)) (ip_dependency_targets_limit (imc_policy c))
      then {finding_at ''sense.interface.dependency_targets'' path None None ''confirmed_dependency_targets''
              (ips_targets (ipm_before m)) (ips_targets (ipm_after m)) (ip_dependency_targets_limit (imc_policy c))}
      else {})"
  by (simp add: collect_dependency_finding_def finding_at_def interface_finding_of_def)

lemma set_collect_module_finding:
  "set (collect_module_finding c path m a fs) = set fs \<union>
     (if \<not> pure_barrel a \<and> (path \<notin> set (pj_nodes (imc_before c)) \<or> ips_authoritative (ipm_before m))
         \<and> introduced_violation (ips_exports (ipm_before m)) (ips_exports (ipm_after m)) (ip_module_exports_limit (imc_policy c))
      then {finding_at ''sense.interface.module_exports'' path None None ''explicit_module_exports''
              (ips_exports (ipm_before m)) (ips_exports (ipm_after m)) (ip_module_exports_limit (imc_policy c))}
      else {})"
  by (auto simp: collect_module_finding_def finding_at_def interface_finding_of_def Let_def)

lemma set_edge_finding:
  "set (edge_finding c path (key, edge)) =
     (if (\<forall>e. bt_get (pj_interface_edges (imc_before c)) key = Some e \<longrightarrow> \<not> ie_unknown_width e)
         \<and> introduced_violation (edge_width (imc_before c) key) (length (ie_selectors edge)) (ip_edge_selectors_limit (imc_policy c))
      then {finding_at ''sense.interface.edge_selectors'' path (Some (iedk_to key)) None (edge_selector_metric (iedk_namespace key))
              (edge_width (imc_before c) key) (length (ie_selectors edge)) (ip_edge_selectors_limit (imc_policy c))}
      else {})"
  by (simp add: edge_finding_def finding_at_def interface_finding_of_def edge_width_def Let_def split: option.split)

lemma set_shape_finding:
  "set (shape_finding c path (bt_get (pj_interfaces (imc_before c)) path) (shape, k)) =
     (if introduced_violation (shape_members (imc_before c) path shape) k (ip_shape_members_limit (imc_policy c))
      then {finding_at ''sense.interface.shape_members'' path None (Some (isk_name shape)) (shape_member_metric (isk_kind shape))
              (shape_members (imc_before c) path shape) k (ip_shape_members_limit (imc_policy c))}
      else {})"
  by (cases "bt_get (pj_interfaces (imc_before c)) path")
    (simp_all add: shape_finding_def finding_at_def interface_finding_of_def shape_members_def)

text \<open>What the maps of a projection promise.\<close>

definition interfaces_wf :: "projection \<Rightarrow> bool" where
  "interfaces_wf p \<longleftrightarrow> bs_wf (pj_edges p) \<and> length (pj_edges p) \<le> usize_max \<and> bt_wf (pj_interface_edges p) \<and>
     (\<forall>path m. bt_get (pj_interfaces p) path = Some m \<longrightarrow> bt_wf (mi_shapes m))"

abbreviation metric_context where
  "metric_context before after changed continuity policy \<equiv> InterfaceMetricContext_new before after changed continuity policy"

lemma path_metrics:
  fixes before after changed continuity policy
  defines "c \<equiv> metric_context before after changed continuity policy"
  shows "imc_before c = before" and "imc_after c = after" and "imc_policy c = policy"
    and "ips_targets (ipm_before (InterfacePathMetrics_new c path)) = target_count (InterfaceMetricIndex_new before changed) path"
    and "ips_targets (ipm_after (InterfacePathMetrics_new c path)) = target_count (InterfaceMetricIndex_new after changed) path"
    and "ips_exports (ipm_before (InterfacePathMetrics_new c path)) = export_count (bt_get (pj_interfaces before) path)"
    and "ips_exports (ipm_after (InterfacePathMetrics_new c path)) = export_count (bt_get (pj_interfaces after) path)"
    and "ips_authoritative (ipm_before (InterfacePathMetrics_new c path)) =
      public_surface_is_authoritative (bt_get (pj_interfaces before) path)"
  by (simp_all add: c_def InterfacePathMetrics_new_def path_state_def InterfaceMetricContext_new_def Let_def)

lemma in_if_singleton: "(x \<in> (if P then {y} else {})) = (P \<and> x = y)"
  by simp

lemma set_collect_findings:
  assumes "interfaces_wf before" and "interfaces_wf after" and "path \<in> set changed"
    and m: "bt_get (pj_interfaces after) path = Some m" and "\<not> is_test_like path" and "\<not> mi_declaration_file m"
  shows "set (collect_findings (metric_context before after changed continuity policy) path
      (InterfacePathMetrics_new (metric_context before after changed continuity policy) path) fs) =
    set fs \<union> {f. interface_violation before after policy path m f}" (is "?L = _")
proof -
  let ?c = "metric_context before after changed continuity policy"
  have t: "target_count (InterfaceMetricIndex_new before changed) path = card (targets (pj_edges before) path)"
    "target_count (InterfaceMetricIndex_new after changed) path = card (targets (pj_edges after) path)"
    using assms(1-3) dependency_targets_exact [of _ changed path] by (simp_all add: interfaces_wf_def)
  have a: "(path \<notin> set (pj_nodes before) \<or> public_surface_is_authoritative (bt_get (pj_interfaces before) path)) = surface_comparable before path"
    by (auto simp: surface_comparable_def public_surface_is_authoritative_def split: option.split)
  have shapes: "(shape, k) \<in> set (mi_shapes m) \<longleftrightarrow> bt_get (mi_shapes m) shape = Some k" for shape k
    using assms(2) m by (simp add: interfaces_wf_def bt_get_in_set)
  have edges: "(key, edge) \<in> set (pj_interface_edges after) \<longleftrightarrow> bt_get (pj_interface_edges after) key = Some edge" for key edge
    using assms(2) by (simp add: interfaces_wf_def bt_get_in_set)
  let ?m = "InterfacePathMetrics_new ?c path"
  have E: "set (collect_edge_findings ?c path fs') = set fs' \<union>
      {f. \<exists>key edge. bt_get (pj_interface_edges after) key = Some edge \<and> iedk_from key = path \<and> f \<in> set (edge_finding ?c path (key, edge))}" for fs'
    by (auto simp: collect_edge_findings_def path_metrics edges) (metis (mono_tags, lifting) edges)
  have S: "set (collect_shape_findings ?c path ?m m fs') = set fs' \<union>
      {f. surface_comparable before path \<and>
          (\<exists>shape k. bt_get (mi_shapes m) shape = Some k \<and> f \<in> set (shape_finding ?c path (bt_get (pj_interfaces before) path) (shape, k)))}" for fs'
    by (auto simp: collect_shape_findings_def path_metrics a [symmetric] shapes [symmetric])
  have L: "?L = set (collect_shape_findings ?c path ?m m (collect_edge_findings ?c path (collect_module_finding ?c path ?m m
      (collect_dependency_finding ?c path ?m fs))))"
    using assms(4-6) by (simp add: collect_findings_def path_metrics)
  show ?thesis
  proof (rule set_eqI)
    fix f
    show "f \<in> ?L \<longleftrightarrow> f \<in> set fs \<union> {f. interface_violation before after policy path m f}"
      unfolding L S E set_collect_module_finding set_collect_dependency_finding set_edge_finding
        set_shape_finding [of ?c path, unfolded path_metrics] path_metrics t a m export_count_def option.case introduced_violation_def
        Un_iff mem_Collect_eq interface_violation.simps [of before after policy path m] in_if_singleton
      by blast
  qed
qed

text \<open>The findings of a changed path, and those of several.\<close>

definition path_violations :: "projection \<Rightarrow> projection \<Rightarrow> interface_policy \<Rightarrow> repo_path \<Rightarrow> interface_finding set" where
  "path_violations before after policy path =
     {f. \<exists>m. bt_get (pj_interfaces after) path = Some m \<and> \<not> is_test_like path \<and> \<not> mi_declaration_file m \<and>
             interface_violation before after policy path m f}"

lemma set_collect_path:
  assumes "interfaces_wf before" and "interfaces_wf after" and "path \<in> set changed"
  shows "set (imr_findings (collect_path (metric_context before after changed continuity policy) path r)) =
    set (imr_findings r) \<union> path_violations before after policy path"
proof (cases "\<exists>m. bt_get (pj_interfaces after) path = Some m \<and> \<not> is_test_like path \<and> \<not> mi_declaration_file m")
  case True
  then obtain m where m: "bt_get (pj_interfaces after) path = Some m" "\<not> is_test_like path" "\<not> mi_declaration_file m" by blast
  then show ?thesis by (simp add: collect_path_def Let_def path_violations_def set_collect_findings [OF assms m])
next
  case False
  then show ?thesis
    by (auto simp: collect_path_def path_violations_def collect_findings_def path_metrics Let_def split: option.split)
qed

lemma set_collect_paths:
  assumes "interfaces_wf before" and "interfaces_wf after" and "set paths \<subseteq> set changed"
  shows "set (imr_findings (fold (collect_path (metric_context before after changed continuity policy)) paths r)) =
    set (imr_findings r) \<union> (\<Union>path\<in>set paths. path_violations before after policy path)"
  using assms(3) by (induction paths arbitrary: r) (auto simp: set_collect_path [OF assms(1,2)])

text \<open>
  C20. Interface findings are exact. Whatever the order of evaluation, the interface findings are exactly the
  rises of a measure above its limit at a changed path that exists, is not a test and not a declaration file:
  the number of distinct dependency targets, of explicit exports of a module that is no pure barrel, of
  selectors of a dependency, of members of an exported shape; exports and shapes count only against a path
  that is new or whose public surface was complete before. They come sorted.
\<close>

theorem interface_findings_exact:
  assumes "interfaces_wf before" and "interfaces_wf after"
    and "interface_metrics before after changed continuity policy = (deltas, important, findings)"
  shows "set findings = {f. \<exists>path\<in>set changed. \<exists>m. bt_get (pj_interfaces after) path = Some m \<and> \<not> is_test_like path \<and>
      \<not> mi_declaration_file m \<and> interface_violation before after policy path m f} \<and>
    sorted (map interface_finding_key findings)"
proof -
  let ?r = "fold (collect_path (metric_context before after changed continuity policy)) changed
    \<lparr> imr_deltas = [], imr_important_nodes = [], imr_findings = [] \<rparr>"
  have f: "findings = sort_key interface_finding_key (imr_findings ?r)"
    using assms(3) by (simp add: interface_metrics_def Let_def)
  have "set findings = (\<Union>path\<in>set changed. path_violations before after policy path)"
    unfolding f using set_collect_paths [OF assms(1,2) order.refl] by simp
  then show ?thesis by (simp add: f path_violations_def) blast
qed

text \<open>A module of two exports where one is allowed: one finding.\<close>

definition sample_module :: "bytes list \<Rightarrow> module_interface" where
  "sample_module exports =
     \<lparr> mi_exports = map (\<lambda>x. \<lparr> iek_namespace = ExValue, iek_name = x \<rparr>) exports, mi_shapes = [], mi_shape_fingerprints = [],
       mi_has_local_exports = True, mi_has_reexports = False, mi_declaration_file = False, mi_public_surface_complete = True \<rparr>"

definition sample_interfaces :: "bytes list \<Rightarrow> projection" where
  "sample_interfaces exports = (sample_graph []) \<lparr> pj_interfaces := [(RepoPath ''a'', sample_module exports)] \<rparr>"

definition sample_policy :: interface_policy where
  "sample_policy = \<lparr> ip_dependency_targets_limit = 1, ip_edge_selectors_limit = 1, ip_module_exports_limit = 1,
     ip_shape_members_limit = 1, ip_important_fan_in = 1 \<rparr>"

lemma sample_interfaces_wf: "interfaces_wf (sample_interfaces exports)"
  by (simp add: interfaces_wf_def sample_interfaces_def sample_graph_def sample_module_def)

lemma sample_violation:
  "interface_violation (sample_interfaces [''x'']) (sample_interfaces [''x'', ''y'']) sample_policy (RepoPath ''a'')
     (sample_module [''x'', ''y''])
     (finding_at ''sense.interface.module_exports'' (RepoPath ''a'') None None ''explicit_module_exports'' 1 2 1)"
  using interface_violation.module_exports [where m = "sample_module [''x'', ''y'']" and policy = sample_policy
      and n = 1 and k = 2 and before = "sample_interfaces [''x'']" and after = "sample_interfaces [''x'', ''y'']" and path = "RepoPath ''a''"]
  by (simp add: pure_barrel_def surface_comparable_def sample_interfaces_def sample_module_def export_count_def sample_policy_def)

theorem interface_findings_exact_witness:
  "finding_at ''sense.interface.module_exports'' (RepoPath ''a'') None None ''explicit_module_exports'' 1 2 1
     \<in> set (snd (snd (interface_metrics (sample_interfaces [''x'']) (sample_interfaces [''x'', ''y'']) [RepoPath ''a''] [] sample_policy)))"
proof -
  obtain deltas important findings where r: "interface_metrics (sample_interfaces [''x'']) (sample_interfaces [''x'', ''y''])
      [RepoPath ''a''] [] sample_policy = (deltas, important, findings)" by (rule prod_cases3)
  have "\<not> is_test_like (RepoPath ''a'')" by code_simp
  moreover have "bt_get (pj_interfaces (sample_interfaces [''x'', ''y''])) (RepoPath ''a'') = Some (sample_module [''x'', ''y''])"
    by (simp add: sample_interfaces_def)
  ultimately show ?thesis
    using interface_findings_exact [OF sample_interfaces_wf sample_interfaces_wf r] sample_violation r by (auto simp: sample_module_def)
qed

section \<open>Bounds of the observations\<close>

definition fairly_cut :: "nat list \<Rightarrow> nat list \<Rightarrow> bool" where
  "fairly_cut l k \<longleftrightarrow> length k = length l \<and> list_all2 (\<le>) k l \<and>
     list_all (\<lambda>i. k ! i = l ! i \<or> list_all (\<lambda>n. n \<le> Suc (k ! i)) k) [0..<length l]"

definition begins :: "'a list \<Rightarrow> 'a list \<Rightarrow> bool" where
  "begins xs ys \<longleftrightarrow> xs = take (length xs) ys"

lemma begins_take [simp]: "begins (take n xs) xs"
  by (simp add: begins_def min_def)

lemma longest_max: "n \<in> set k \<Longrightarrow> n \<le> k ! longest k"
  using longest_spec(2) [of k] by (cases "k = []") (simp_all add: fold_max)

lemma fairly_cut_step:
  assumes "fairly_cut l k" and "k \<noteq> []" and "0 < k ! longest k"
  shows "fairly_cut l (k[longest k := k ! longest k - 1])" (is "fairly_cut l ?k")
proof -
  let ?m = "longest k"
  have m: "?m < length k" using longest_spec(1) [OF assms(2)] .
  have below: "n \<le> k ! ?m" if "n \<in> set ?k" for n
    using that longest_max [of n k] set_update_subset_insert [of k ?m "k ! ?m - 1"] by auto
  have "\<forall>i<length l. k ! i \<le> l ! i" using assms(1) by (simp add: fairly_cut_def list_all2_conv_all_nth)
  then have "list_all2 (\<le>) ?k l"
    using assms(1) m by (auto simp: fairly_cut_def list_all2_conv_all_nth nth_list_update intro: le_trans [OF diff_le_self])
  moreover have "?k ! i = l ! i \<or> list_all (\<lambda>n. n \<le> Suc (?k ! i)) ?k" if "i < length l" for i
  proof (cases "i = ?m")
    case True
    then show ?thesis using below m assms(3) by (auto simp: list_all_iff)
  next
    case False
    from assms(1) that have "k ! i = l ! i \<or> list_all (\<lambda>n. n \<le> Suc (k ! i)) k" by (auto simp: fairly_cut_def list_all_iff)
    moreover have "k ! ?m \<in> set k" using m by simp
    ultimately show ?thesis using False below by (force simp: list_all_iff)
  qed
  ultimately show ?thesis using assms(1) by (simp add: fairly_cut_def list_all_iff)
qed

lemma shorten_fair:
  assumes "fairly_cut l k" and "k \<noteq> []"
  shows "fairly_cut l (shorten k) \<and> sum_list (shorten k) = min (sum_list k) MAX_SENSE_OBSERVATIONS"
  using assms
proof (induction k rule: shorten.induct)
  case (1 k)
  show ?case
  proof (cases "sum_list k > MAX_SENSE_OBSERVATIONS")
    case True
    note s = shorten_longest [OF 1(3)]
    have pos: "0 < sum_list k" using True by simp
    have "fairly_cut l (k[longest k := k ! longest k - 1])" using fairly_cut_step 1(2,3) s(2) pos by blast
    from 1(1) [OF _ this] 1(3) True have
      "fairly_cut l (shorten (k[longest k := k ! longest k - 1])) \<and>
       sum_list (shorten (k[longest k := k ! longest k - 1])) = min (sum_list k - 1) MAX_SENSE_OBSERVATIONS"
      using s(1) [OF pos] by simp
    with True 1(3) show ?thesis by (subst (1 2) shorten.simps) simp
  qed (use 1 in \<open>simp add: shorten.simps\<close>)
qed

text \<open>
  Observations are bounded fairly. Bounding keeps as many observations as allowed, cuts each of the five
  lists to a prefix, says whether it cut anything, and takes from the longest lists: no list is left more than
  one longer than a list that was cut.
\<close>

lemma observations_bounded:
  "sum_list (observation_lengths (bound_observations obs)) = min (sum_list (observation_lengths obs)) MAX_SENSE_OBSERVATIONS \<and>
   fairly_cut (observation_lengths obs) (observation_lengths (bound_observations obs)) \<and>
   begins (so_dependency_deltas (bound_observations obs)) (so_dependency_deltas obs) \<and>
   begins (so_impact (bound_observations obs)) (so_impact obs) \<and>
   begins (so_high_impact_changes (bound_observations obs)) (so_high_impact_changes obs) \<and>
   begins (so_interfaces (bound_observations obs)) (so_interfaces obs) \<and>
   begins (so_important_nodes (bound_observations obs)) (so_important_nodes obs) \<and>
   so_truncated (bound_observations obs) = (MAX_SENSE_OBSERVATIONS < sum_list (observation_lengths obs))"
proof -
  let ?l = "observation_lengths obs" and ?k = "shorten (observation_lengths obs)"
  have "fairly_cut ?l ?l" by (simp add: fairly_cut_def list_all2_refl list_all_iff)
  then have k: "fairly_cut ?l ?k" "sum_list ?k = min (sum_list ?l) MAX_SENSE_OBSERVATIONS"
    using shorten_fair [of ?l ?l] by (simp_all add: observation_lengths_def)
  then have le: "length ?k = 5" "?k ! i \<le> ?l ! i" if "i < 5" for i
    using that by (auto simp: fairly_cut_def list_all2_conv_all_nth observation_lengths_def)
  have "?k = [?k ! 0, ?k ! 1, ?k ! 2, ?k ! 3, ?k ! 4]"
    using le(1) [of 0] by (intro nth_equalityI) (auto simp: less_Suc_eq numeral_eq_Suc)
  moreover have "observation_lengths (bound_observations obs) = [?k ! 0, ?k ! 1, ?k ! 2, ?k ! 3, ?k ! 4]"
    using le(2) [of 0] le(2) [of 1] le(2) [of 2] le(2) [of 3] le(2) [of 4]
    by (simp add: bound_observations_def Let_def observation_lengths_def min_absorb2)
  ultimately have "observation_lengths (bound_observations obs) = ?k" by simp
  with k show ?thesis by (simp add: bound_observations_def Let_def)
qed

end
