(* ===== verification/Languages.thy ===== *)
theory Languages
  imports DataModel RustStr
begin

text \<open>
  The language table: \<^verbatim>\<open>src/source/languages.rs\<close>. A path is a source candidate by its suffix or its file
  name alone; the language and the mode it is analysed in come from the same table, except for the dialect of
  a shell script, which its first line may choose. The operating system and architecture the program was built for
  (\<^verbatim>\<open>std::env::consts\<close>) are arguments.
\<close>

section \<open>The table\<close>

record platform =
  os_name :: bytes
  arch_name :: bytes

definition UNSUPPORTED_SOURCE_EXTENSIONS :: "bytes list" where
  "UNSUPPORTED_SOURCE_EXTENSIONS =
     [''.adb'', ''.ads'', ''.asm'', ''.bat'', ''.bzl'', ''.c'', ''.cc'', ''.cbl'', ''.clj'', ''.cljc'',
      ''.cljs'', ''.cmd'', ''.cob'', ''.cpp'', ''.cr'', ''.cs'', ''.cxx'', ''.d'', ''.dart'', ''.erl'',
      ''.ex'', ''.exs'', ''.f'', ''.f90'', ''.f95'', ''.fish'', ''.fs'', ''.fsx'', ''.gradle'', ''.graphql'',
      ''.groovy'', ''.h'', ''.hpp'', ''.hrl'', ''.hs'', ''.java'', ''.jl'', ''.kt'', ''.kts'', ''.lua'',
      ''.m'', ''.ml'', ''.mli'', ''.mm'', ''.move'', ''.nim'', ''.pas'', ''.php'', ''.pl'', ''.pm'',
      ''.ps1'', ''.psm1'', ''.pxd'', ''.pxi'', ''.pyx'', ''.qml'', ''.r'', ''.raku'', ''.rb'', ''.s'',
      ''.scala'', ''.sol'', ''.sql'', ''.svelte'', ''.swift'', ''.tcl'', ''.thrift'', ''.vb'', ''.vue'', ''.wat'',
      ''.zig'', ''.zsh'']"

definition language_rules :: "(bytes \<times> language \<times> bytes) list" where
  "language_rules =
     [(''.d.mts'', TypeScript, ''typescript:declaration:module''),
      (''.d.cts'', TypeScript, ''typescript:declaration:commonjs''),
      (''.d.ts'', TypeScript, ''typescript:declaration''),
      (''.tsx'', TypeScript, ''typescript:tsx''),
      (''.mts'', TypeScript, ''typescript:module''),
      (''.cts'', TypeScript, ''typescript:commonjs''),
      (''.ts'', TypeScript, ''typescript''),
      (''.jsx'', JavaScript, ''javascript:jsx''),
      (''.mjs'', JavaScript, ''javascript:module''),
      (''.cjs'', JavaScript, ''javascript:commonjs''),
      (''.js'', JavaScript, ''javascript:unambiguous''),
      (''.rs'', Rust, ''rust:stable''),
      (''_test.go'', Go, ''go:test''),
      (''.go'', Go, ''go:source''),
      (''.pyi'', Python, ''python:stub:bundled-grammar''),
      (''.py'', Python, ''python:bundled-grammar''),
      (''.tftest.json'', Hcl, ''hcl:terraform-test:json''),
      (''.tofutest.json'', Hcl, ''hcl:opentofu-test:json''),
      (''.tftest.hcl'', Hcl, ''hcl:terraform-test:native''),
      (''.tofutest.hcl'', Hcl, ''hcl:opentofu-test:native''),
      (''.tf.json'', Hcl, ''hcl:terraform:json''),
      (''.tofu.json'', Hcl, ''hcl:opentofu:json''),
      (''.tf'', Hcl, ''hcl:terraform:native''),
      (''.tofu'', Hcl, ''hcl:opentofu:native''),
      (''.hcl'', Hcl, ''hcl:generic:native''),
      (''.bash'', Shell, ''shell:bash''),
      (''.sh'', Shell, ''shell:sh''),
      (''.proto'', Protobuf, ''protobuf:proto'')]"

definition go_target_os :: "platform \<Rightarrow> bytes" where
  "go_target_os P = (if os_name P = ''macos'' then ''darwin'' else os_name P)"

definition go_target_arch :: "platform \<Rightarrow> bytes" where
  "go_target_arch P =
     (if arch_name P = ''x86_64'' then ''amd64'' else if arch_name P = ''aarch64'' then ''arm64''
      else if arch_name P = ''x86'' then ''386'' else arch_name P)"

definition has_extension :: "bytes \<Rightarrow> bytes \<Rightarrow> bool" where
  "has_extension path extension \<longleftrightarrow>
     length path \<ge> length extension \<and> eq_ignore_ascii_case (drop (length path - length extension) path) extension"

text \<open>The last component: \<^verbatim>\<open>rsplit\<close> and \<^verbatim>\<open>next\<close>.\<close>

definition file_name :: "bytes \<Rightarrow> bytes" where
  "file_name path = last (split_on (\<lambda>b. b = slash) path)"

definition windows :: "nat \<Rightarrow> 'a list \<Rightarrow> 'a list list" where
  "windows n xs = map (\<lambda>i. take n (drop i xs)) [0..<Suc (length xs) - n]"

definition has_tfvars_suffix :: "bytes \<Rightarrow> bool" where
  "has_tfvars_suffix filename =
     (case position (\<lambda>w. eq_ignore_ascii_case w ''.tfvars'') (windows (length ''.tfvars'') filename) of
        None \<Rightarrow> False
      | Some i \<Rightarrow> (let remainder = drop (i + length ''.tfvars'') filename in remainder = [] \<or> starts_with ''.'' remainder))"

definition terragrunt_names :: "(bytes \<times> bytes) list" where
  "terragrunt_names =
     [(''terragrunt.hcl'', ''hcl:terragrunt:native''), (''terragrunt.hcl.json'', ''hcl:terragrunt:json''),
      (''terragrunt.stack.hcl'', ''hcl:terragrunt-stack:native''), (''terragrunt.values.hcl'', ''hcl:terragrunt-values:native'')]"

definition language_rule :: "bytes \<Rightarrow> (language \<times> bytes) option" where
  "language_rule path =
     (let filename = file_name path
      in if eq_ignore_ascii_case filename ''.terraform.lock.hcl'' then Some (Hcl, ''hcl:terraform-lock:native'')
         else case find (\<lambda>(name, mode). eq_ignore_ascii_case filename name) terragrunt_names of
           Some (_, mode) \<Rightarrow> Some (Hcl, mode)
         | None \<Rightarrow>
             if has_tfvars_suffix filename
             then Some (Hcl, if has_extension filename ''.json'' \<or> has_extension filename ''.tfvars.json.example''
                             then ''hcl:terraform-vars:json'' else ''hcl:terraform-vars:native'')
             else map_option snd (find (\<lambda>(suffix, _, _). has_extension path suffix) language_rules))"

definition detect_language :: "platform \<Rightarrow> repo_path \<Rightarrow> (language \<times> bytes) option" where
  "detect_language P path =
     (case as_utf8 path of
        None \<Rightarrow> None
      | Some _ \<Rightarrow>
          map_option (\<lambda>(language, mode).
            (language,
             case language of
               Shell \<Rightarrow> mode @ '':'' @ os_name P
             | Go \<Rightarrow> mode @ '':'' @ go_target_os P @ '':'' @ go_target_arch P
             | _ \<Rightarrow> mode)) (language_rule (as_bytes path)))"

definition is_source_candidate :: "repo_path \<Rightarrow> bool" where
  "is_source_candidate path \<longleftrightarrow>
     language_rule (as_bytes path) \<noteq> None \<or> list_ex (has_extension (as_bytes path)) UNSUPPORTED_SOURCE_EXTENSIONS"

definition is_go_module_file :: "repo_path \<Rightarrow> bool" where
  "is_go_module_file path \<longleftrightarrow> file_name (as_bytes path) = ''go.mod''"

definition is_dependency_source_candidate :: "repo_path \<Rightarrow> bool" where
  "is_dependency_source_candidate path = is_source_candidate path"

definition is_dependency_capture_candidate :: "repo_path \<Rightarrow> bool" where
  "is_dependency_capture_candidate path \<longleftrightarrow> is_dependency_source_candidate path \<or> is_go_module_file path"

definition strip_language_suffix :: "bytes \<Rightarrow> language \<Rightarrow> bytes option" where
  "strip_language_suffix path language =
     map_option (\<lambda>(suffix, _, _). take (length path - length suffix) path)
       (find (\<lambda>(suffix, candidate, _). candidate = language \<and> has_extension path suffix) language_rules)"

section \<open>Shell dialects\<close>

definition shell_command_name :: "bytes \<Rightarrow> bytes option" where
  "shell_command_name word =
     (let name = last (split_on (\<lambda>b. b = slash \<or> b = backslash) word) in if name \<noteq> [] then Some name else None)"

definition known_shell_dialect :: "bytes \<Rightarrow> bytes option" where
  "known_shell_dialect interpreter =
     (if interpreter = ''bash'' then Some ''bash''
      else if interpreter = ''sh'' \<or> interpreter = ''dash'' then Some ''sh'' else None)"

definition env_option_takes_value :: "bytes \<Rightarrow> bool" where
  "env_option_takes_value word \<longleftrightarrow> word \<in> set [''-u'', ''--unset'']"

definition env_option_without_value :: "bytes \<Rightarrow> bool" where
  "env_option_without_value word \<longleftrightarrow>
     word \<in> set [''-S'', ''--split-string'', ''-i'', ''--ignore-environment'', ''--''] \<or> starts_with ''--unset='' word"

definition env_assignment :: "bytes \<Rightarrow> bool" where
  "env_assignment word \<longleftrightarrow> CHR ''='' \<in> set word"

fun env_shell_dialect :: "bytes list \<Rightarrow> bytes option" where
  "env_shell_dialect [] = None"
| "env_shell_dialect (word # words) =
     (if env_option_takes_value word then (case words of [] \<Rightarrow> None | _ # rest \<Rightarrow> env_shell_dialect rest)
      else if env_option_without_value word \<or> env_assignment word then env_shell_dialect words
      else if starts_with ''-'' word then None
      else Option.bind (shell_command_name word) known_shell_dialect)"

definition shell_shebang_dialect :: "bytes \<Rightarrow> bytes option" where
  "shell_shebang_dialect bs =
     (let line_end = (case position (\<lambda>b. b = carriage_return \<or> b = line_feed) bs of None \<Rightarrow> length bs | Some i \<Rightarrow> i)
      in case strip_prefix ''#!'' (take line_end bs) of
           None \<Rightarrow> None
         | Some command \<Rightarrow>
             (case split_ascii_whitespace command of
                [] \<Rightarrow> None
              | word # words \<Rightarrow>
                  (case shell_command_name word of
                     None \<Rightarrow> None
                   | Some interpreter \<Rightarrow>
                       if interpreter = ''env'' then env_shell_dialect words else known_shell_dialect interpreter)))"

definition resolve_language :: "platform \<Rightarrow> repo_path \<Rightarrow> bytes \<Rightarrow> (language \<times> bytes) option" where
  "resolve_language P path bs =
     (case detect_language P path of
        None \<Rightarrow> None
      | Some (language, mode) \<Rightarrow>
          if language \<noteq> Shell then Some (language, mode)
          else
            (let dialect = (case shell_shebang_dialect bs of
                              Some d \<Rightarrow> d
                            | None \<Rightarrow> if has_extension (as_bytes path) ''.bash'' then ''bash'' else ''sh'')
             in Some (language, ''shell:'' @ dialect @ '':'' @ os_name P)))"

end
