(* ===== verification/ResolverIndex.thy ===== *)
theory ResolverIndex
  imports Languages Snapshot Facts SenseModel DedupBase
begin

text \<open>
  How a reference in a source file is resolved to another file: the indexes of \<^verbatim>\<open>src/sense/resolver.rs\<close> and the
  rules of each language in \<^verbatim>\<open>resolver/rust.rs\<close>, \<^verbatim>\<open>resolver/go.rs\<close>, \<^verbatim>\<open>resolver/python.rs\<close> and
  \<^verbatim>\<open>resolver/node.rs\<close>. An alias that two files claim is ambiguous and never resolved.
\<close>

section \<open>Candidates\<close>

datatype candidate = Unique repo_path | AmbiguousAlias

datatype resolution = Resolved repo_path | SameFile | NodeBuiltin | External | Ambiguous | Unresolved

type_synonym aliases = "(bytes, candidate) btree_map"

definition add_candidate :: "bytes \<Rightarrow> repo_path \<Rightarrow> aliases \<Rightarrow> aliases" where
  "add_candidate alias target aliases =
     (case bt_get aliases alias of
        None \<Rightarrow> bt_insert alias (Unique target) aliases
      | Some (Unique existing) \<Rightarrow> if existing \<noteq> target then bt_insert alias AmbiguousAlias aliases else aliases
      | Some AmbiguousAlias \<Rightarrow> aliases)"

definition add_source_aliases :: "bytes \<Rightarrow> source_file \<Rightarrow> bytes \<Rightarrow> aliases \<Rightarrow> aliases" where
  "add_source_aliases path file package_suffix aliases =
     (case strip_language_suffix path (sf_language file) of
        None \<Rightarrow> aliases
      | Some stem \<Rightarrow>
          (let aliases = add_candidate stem (sf_path file) aliases
           in case strip_suffix package_suffix stem of
                None \<Rightarrow> aliases
              | Some directory \<Rightarrow> add_candidate directory (sf_path file) aliases))"

fun alias_resolution :: "candidate option \<Rightarrow> resolution" where
  "alias_resolution (Some (Unique path)) = Resolved path"
| "alias_resolution (Some AmbiguousAlias) = Ambiguous"
| "alias_resolution None = Unresolved"

section \<open>Relative paths\<close>

fun append_normalized :: "bytes list \<Rightarrow> bytes list \<Rightarrow> bytes list option" where
  "append_normalized parts [] = Some parts"
| "append_normalized parts (part # additions) =
     (if part = [] then None
      else if part = ''.'' then append_normalized parts additions
      else if part = ''..'' then (if parts = [] then None else append_normalized (butlast parts) additions)
      else append_normalized (parts @ [part]) additions)"

fun pop_parents :: "nat \<Rightarrow> bytes list \<Rightarrow> bytes list option" where
  "pop_parents 0 parts = Some parts"
| "pop_parents (Suc n) parts = (if parts = [] then None else pop_parents n (butlast parts))"

definition normalized_relative :: "repo_path \<Rightarrow> bytes \<Rightarrow> nat \<Rightarrow> bytes option" where
  "normalized_relative importer specifier extra_parent =
     (case as_utf8 importer of
        None \<Rightarrow> None
      | Some text \<Rightarrow>
          (case pop_parents extra_parent (butlast (split_on (\<lambda>b. b = slash) text)) of
             None \<Rightarrow> None
           | Some parts \<Rightarrow>
               map_option (join_on ''/'') (append_normalized parts (split_on (\<lambda>b. b = slash) specifier))))"

definition is_relative_specifier :: "bytes \<Rightarrow> bool" where
  "is_relative_specifier specifier \<longleftrightarrow>
     specifier = ''.'' \<or> specifier = ''..'' \<or> starts_with ''./'' specifier \<or> starts_with ''../'' specifier"

section \<open>Rust modules\<close>

record rust_index =
  ri_modules :: aliases
  ri_roots :: "bytes btree_set"
  ri_file_modules :: "(repo_path, bytes) btree_map"
  ri_root_files :: "repo_path btree_set"
  ri_confirmed_files :: "repo_path btree_set"

definition default_rust_index :: rust_index where
  "default_rust_index =
     \<lparr> ri_modules = [], ri_roots = [], ri_file_modules = [], ri_root_files = [], ri_confirmed_files = [] \<rparr>"

definition is_conventional_root :: "bytes \<Rightarrow> bool" where
  "is_conventional_root path =
     (case rev (split_on (\<lambda>b. b = slash) path) of
        name # directory # rest \<Rightarrow>
          directory = ''src'' \<and> (name = ''lib.rs'' \<or> name = ''main.rs'') \<or>
          name = ''main.rs'' \<and> (case rest of bin # src # _ \<Rightarrow> bin = ''bin'' \<and> src = ''src'' | _ \<Rightarrow> False)
      | _ \<Rightarrow> False)"

definition module_key :: "bytes \<Rightarrow> bool \<Rightarrow> bytes option" where
  "module_key path is_root =
     map_option (\<lambda>stem.
       let (parent, name) = (case rsplit_once slash stem of None \<Rightarrow> ([], stem) | Some pn \<Rightarrow> pn)
       in if is_root \<or> name = ''mod'' then parent else stem) (strip_suffix ''.rs'' path)"

definition parent_module_key :: "bytes \<Rightarrow> bytes option" where
  "parent_module_key module = map_option fst (rsplit_once slash module)"

lemma parent_module_key_shorter: "parent_module_key module = Some parent \<Longrightarrow> length parent < length module"
  by (auto simp: parent_module_key_def dest!: rsplit_once_Some)

definition rust_add_file :: "source_file \<Rightarrow> bytes \<Rightarrow> rust_index \<Rightarrow> rust_index" where
  "rust_add_file file path index =
     (let is_root = is_conventional_root path
      in case module_key path is_root of
           None \<Rightarrow> index
         | Some module \<Rightarrow>
             index\<lparr> ri_modules := add_candidate module (sf_path file) (ri_modules index),
                    ri_file_modules := bt_insert (sf_path file) module (ri_file_modules index),
                    ri_roots := (if is_root then bs_insert module (ri_roots index) else ri_roots index),
                    ri_root_files := (if is_root then bs_insert (sf_path file) (ri_root_files index) else ri_root_files index) \<rparr>)"

text \<open>The deepest module a path names; \<^const>\<open>None\<close> when a segment is malformed.\<close>

fun segments_loop :: "aliases \<Rightarrow> bytes \<Rightarrow> candidate option \<Rightarrow> bytes list \<Rightarrow> candidate option option" where
  "segments_loop modules key best [] = Some best"
| "segments_loop modules key best (segment # segments) =
     (if segment = [] \<or> segment = ''.'' \<or> segment = ''..'' then None
      else
        (let key = (if key \<noteq> [] then key @ ''/'' else key) @ segment
         in segments_loop modules key (case bt_get modules key of Some c \<Rightarrow> Some c | None \<Rightarrow> best) segments))"

definition resolve_segments :: "repo_path \<Rightarrow> bytes \<Rightarrow> bytes list \<Rightarrow> rust_index \<Rightarrow> bool \<Rightarrow> resolution" where
  "resolve_segments importer base segments index allow_base =
     (case segments_loop (ri_modules index) base (if allow_base then bt_get (ri_modules index) base else None) segments of
        None \<Rightarrow> Unresolved
      | Some best \<Rightarrow> if best = Some (Unique importer) then SameFile else alias_resolution best)"

definition resolve_module_unchecked :: "repo_path \<Rightarrow> bytes \<Rightarrow> rust_index \<Rightarrow> resolution" where
  "resolve_module_unchecked importer specifier index =
     (case bt_get (ri_file_modules index) importer of
        None \<Rightarrow> Unresolved
      | Some base \<Rightarrow> resolve_segments importer base (split_str ''::'' specifier) index False)"

definition require_confirmed_target :: "resolution \<Rightarrow> rust_index \<Rightarrow> resolution" where
  "require_confirmed_target r index =
     (case r of Resolved path \<Rightarrow> if path \<notin> set (ri_confirmed_files index) then Unresolved else r | _ \<Rightarrow> r)"

definition resolve_module :: "repo_path \<Rightarrow> bytes \<Rightarrow> rust_index \<Rightarrow> resolution" where
  "resolve_module importer specifier index =
     (if importer \<notin> set (ri_confirmed_files index) then Unresolved
      else require_confirmed_target (resolve_module_unchecked importer specifier index) index)"

function crate_root :: "bytes \<Rightarrow> rust_index \<Rightarrow> bytes option" where
  "crate_root module index =
     (if module \<in> set (ri_roots index) then Some module
      else case parent_module_key module of None \<Rightarrow> None | Some parent \<Rightarrow> crate_root parent index)"
  by pat_completeness auto
termination
  by (relation "measure (length \<circ> fst)") (auto dest: parent_module_key_shorter)

declare crate_root.simps [simp del]

fun super_base :: "bytes \<Rightarrow> bytes list \<Rightarrow> (bytes \<times> bytes list) option" where
  "super_base base [] = Some (base, [])"
| "super_base base (segment # segments) =
     (if segment = ''super''
      then (case parent_module_key base of None \<Rightarrow> None | Some parent \<Rightarrow> super_base parent segments)
      else Some (base, segment # segments))"

text \<open>The base, whether it is anchored, and the segments left.\<close>

definition resolve_anchor :: "bytes \<Rightarrow> bytes \<Rightarrow> bytes list \<Rightarrow> rust_index \<Rightarrow> (bytes \<times> bool \<times> bytes list) option" where
  "resolve_anchor first current segments index =
     (if first = ''crate'' then map_option (\<lambda>root. (root, True, tl segments)) (crate_root current index)
      else if first = ''self'' then Some (current, True, tl segments)
      else if first = ''super'' then map_option (\<lambda>(base, rest). (base, True, rest)) (super_base current segments)
      else Some (current, False, segments))"

definition resolve_use :: "repo_path \<Rightarrow> bytes \<Rightarrow> rust_index \<Rightarrow> resolution" where
  "resolve_use importer specifier index =
     (if importer \<notin> set (ri_confirmed_files index) then Unresolved
      else case bt_get (ri_file_modules index) importer of
             None \<Rightarrow> Unresolved
           | Some current \<Rightarrow>
               (case split_str ''::'' specifier of
                  [] \<Rightarrow> Unresolved
                | first # rest \<Rightarrow>
                    (case resolve_anchor first current (first # rest) index of
                       None \<Rightarrow> Unresolved
                     | Some (base, anchored, segments) \<Rightarrow>
                         (let r = require_confirmed_target (resolve_segments importer base segments index anchored) index
                          in if \<not> anchored \<and> r = Unresolved then External else r))))"

subsection \<open>Confirmed module trees\<close>

definition unique_paths :: "aliases \<Rightarrow> repo_path set" where
  "unique_paths aliases = {p. Unique p \<in> snd ` set aliases}"

lemma finite_unique_paths [simp]: "finite (unique_paths aliases)"
proof -
  have "Unique ` unique_paths aliases \<subseteq> snd ` set aliases" by (auto simp: unique_paths_def)
  then show ?thesis by (metis (no_types, lifting) candidate.inject finite_imageD finite_imageI finite_set finite_subset inj_onI)
qed

lemma bt_get_unique: "bt_get aliases k = Some (Unique p) \<Longrightarrow> p \<in> unique_paths aliases"
  by (force simp: unique_paths_def dest: map_of_SomeD)

lemma segments_loop_unique:
  "segments_loop modules key best segments = Some (Some (Unique p)) \<Longrightarrow> best \<noteq> Some (Unique p) \<Longrightarrow> p \<in> unique_paths modules"
proof (induction segments arbitrary: key best)
  case (Cons segment segments)
  let ?key = "(if key \<noteq> [] then key @ ''/'' else key) @ segment"
  have "segments_loop modules ?key (case bt_get modules ?key of Some c \<Rightarrow> Some c | None \<Rightarrow> best) segments = Some (Some (Unique p))"
    using Cons.prems(1) by (simp add: Let_def split: if_splits)
  then show ?case using Cons.IH [of ?key] Cons.prems(2) bt_get_unique [of modules ?key p]
    by (cases "bt_get modules ?key") auto
qed simp

lemma resolve_segments_unique:
  "resolve_segments importer base segments index allow = Resolved p \<Longrightarrow> p \<in> unique_paths (ri_modules index)"
proof -
  assume a: "resolve_segments importer base segments index allow = Resolved p"
  let ?best = "if allow then bt_get (ri_modules index) base else None"
  have s: "segments_loop (ri_modules index) base ?best segments = Some (Some (Unique p))"
    using a unfolding resolve_segments_def
    by (auto split: option.splits if_splits elim: alias_resolution.elims)
  show ?thesis
  proof (cases "?best = Some (Unique p)")
    case True
    then show ?thesis by (auto intro: bt_get_unique split: if_splits)
  next
    case False
    with segments_loop_unique [OF s] show ?thesis by simp
  qed
qed

text \<open>The files the module declarations of a file resolve to.\<close>

definition resolved_path :: "resolution \<Rightarrow> repo_path list" where
  "resolved_path r = (case r of Resolved p \<Rightarrow> [p] | _ \<Rightarrow> [])"

definition module_targets ::
    "crates \<Rightarrow> source_snapshot \<Rightarrow> fact_map \<Rightarrow> bytes \<Rightarrow> rust_index \<Rightarrow> repo_path \<Rightarrow> repo_path list" where
  "module_targets K snapshot facts opts index path =
     (case snapshot_read snapshot path of
        None \<Rightarrow> []
      | Some file \<Rightarrow>
          (case bt_get facts (fact_key K file opts) of
             None \<Rightarrow> []
           | Some ff \<Rightarrow>
               concat (map (\<lambda>r. resolved_path (resolve_module_unchecked (sf_path file) (ref_specifier r) index))
                 (filter (\<lambda>r. ref_kind r = RustModule) (dep_references (ff_dependencies ff))))))"

lemma module_targets_unique: "set (module_targets K snapshot facts opts index path) \<subseteq> unique_paths (ri_modules index)"
  by (auto simp: module_targets_def resolved_path_def resolve_module_unchecked_def
      split: option.splits resolution.splits dest: resolve_segments_unique [OF sym] resolve_segments_unique)

function confirm_loop ::
    "crates \<Rightarrow> source_snapshot \<Rightarrow> fact_map \<Rightarrow> bytes \<Rightarrow> rust_index \<Rightarrow> repo_path list \<Rightarrow> repo_path btree_set \<Rightarrow> repo_path btree_set" where
  "confirm_loop K snapshot facts opts index [] confirmed = confirmed"
| "confirm_loop K snapshot facts opts index (path # queue) confirmed =
     (if path \<in> set confirmed then confirm_loop K snapshot facts opts index queue confirmed
      else confirm_loop K snapshot facts opts index
             (queue @ module_targets K snapshot facts opts index path) (bs_insert path confirmed))"
  by pat_completeness auto
termination
proof (relation "measures [\<lambda>(K, snapshot, facts, opts, index, queue, confirmed).
    card ((unique_paths (ri_modules index) \<union> set queue) - set confirmed), \<lambda>(K, snapshot, facts, opts, index, queue, confirmed). length queue]",
    goal_cases)
  case (2 K snapshot facts opts index path queue confirmed)
  have "card ((unique_paths (ri_modules index) \<union> set queue) - set confirmed)
      \<le> card ((unique_paths (ri_modules index) \<union> set (path # queue)) - set confirmed)"
    by (rule card_mono) auto
  then show ?case by auto
next
  case (3 K snapshot facts opts index path queue confirmed)
  have "card ((unique_paths (ri_modules index) \<union> set (queue @ module_targets K snapshot facts opts index path)) - set (bs_insert path confirmed))
      < card ((unique_paths (ri_modules index) \<union> set (path # queue)) - set confirmed)"
    by (rule psubset_card_mono) (use 3 module_targets_unique [of K snapshot facts opts index path] in auto)
  then show ?case by simp
qed simp

definition confirm_module_trees :: "crates \<Rightarrow> source_snapshot \<Rightarrow> fact_map \<Rightarrow> bytes \<Rightarrow> rust_index \<Rightarrow> rust_index" where
  "confirm_module_trees K snapshot facts opts index =
     index\<lparr> ri_confirmed_files := confirm_loop K snapshot facts opts index (ri_root_files index) (ri_confirmed_files index) \<rparr>"

definition index_is_stable :: "source_snapshot \<Rightarrow> source_snapshot \<Rightarrow> repo_path btree_set \<Rightarrow> bool" where
  "index_is_stable before after changed =
     list_all (\<lambda>path.
       let before_file = snapshot_read before path;
           after_file = snapshot_read after path;
           is_rust = (\<lambda>f. case f of None \<Rightarrow> False | Some file \<Rightarrow> sf_language file = Rust)
       in \<not> (is_rust before_file \<or> is_rust after_file) \<or>
          map_option sf_content_id before_file = map_option sf_content_id after_file) changed"

section \<open>Go packages\<close>

record module_record =
  mr_directory :: bytes
  mr_module_path :: "bytes option"

record go_index =
  gi_aliases :: aliases
  gi_representatives :: "(repo_path, repo_path) btree_map"
  gi_module_paths :: "bytes list"
  gi_configuration_errors :: nat
  gi_has_go :: bool

type_synonym module_files = "(repo_path, bytes) btree_map"

subsection \<open>Module files\<close>

definition valid_module_path :: "bytes \<Rightarrow> bool" where
  "valid_module_path path \<longleftrightarrow>
     path \<noteq> [] \<and> \<not> starts_with ''/'' path \<and> \<not> ends_with ''/'' path \<and> \<not> contains_bytes ''//'' path \<and>
     list_all (\<lambda>b. is_ascii_graphic b \<and> b \<noteq> backslash \<and> b \<noteq> CHR 0x22 \<and> b \<noteq> CHR 0x27) path \<and>
     list_all (\<lambda>segment. segment \<noteq> [] \<and> segment \<noteq> ''.'' \<and> segment \<noteq> ''..'') (split_on (\<lambda>b. b = slash) path)"

fun unescape_quoted :: "bytes \<Rightarrow> bytes option" where
  "unescape_quoted [] = Some []"
| "unescape_quoted (c # cs) =
     (if c \<noteq> backslash then map_option (\<lambda>r. c # r) (unescape_quoted cs)
      else case cs of
             [] \<Rightarrow> None
           | d # ds \<Rightarrow> if d = backslash \<or> d = CHR 0x22 then map_option (\<lambda>r. d # r) (unescape_quoted ds) else None)"

definition unquote_module_path :: "bytes \<Rightarrow> bytes option" where
  "unquote_module_path value =
     (case Option.bind (strip_prefix [CHR 0x60] value) (strip_suffix [CHR 0x60]) of
        Some raw \<Rightarrow> if carriage_return \<in> set raw \<or> line_feed \<in> set raw \<or> CHR 0x60 \<in> set raw then None else Some raw
      | None \<Rightarrow>
          (case Option.bind (strip_prefix [CHR 0x22] value) (strip_suffix [CHR 0x22]) of
             Some quoted \<Rightarrow> unescape_quoted quoted
           | None \<Rightarrow> Some value))"

text \<open>The text of a line outside comments, and whether a block comment is still open after it.\<close>

definition strip_outside :: "bytes \<Rightarrow> bytes \<times> bool" where
  "strip_outside line =
     (let line = (case split_once ''//'' line of None \<Rightarrow> line | Some (before, _) \<Rightarrow> before)
      in case split_once ''/*'' line of
           Some (before, _) \<Rightarrow> (before, \<not> contains_bytes ''*/'' line)
         | None \<Rightarrow> (line, False))"

definition strip_comments :: "bytes \<Rightarrow> bool \<Rightarrow> bytes \<times> bool" where
  "strip_comments line block_comment =
     (if block_comment
      then (case split_once ''*/'' line of Some (_, remainder) \<Rightarrow> strip_outside remainder | None \<Rightarrow> ([], True))
      else strip_outside line)"

fun module_path_loop :: "bytes list \<Rightarrow> bool \<Rightarrow> bytes option \<Rightarrow> (unit, bool \<times> bytes option) result" where
  "module_path_loop [] block module_path = Inr (block, module_path)"
| "module_path_loop (line # lines) block module_path =
     (let (cleaned, block) = strip_comments line block
      in case split_ascii_whitespace cleaned of
           first # words \<Rightarrow>
             if first \<noteq> ''module'' then module_path_loop lines block module_path
             else
               (case words of
                  [] \<Rightarrow> Inl ()
                | value # rest \<Rightarrow>
                    (case unquote_module_path value of
                       None \<Rightarrow> Inl ()
                     | Some path \<Rightarrow>
                         if rest \<noteq> [] \<or> module_path \<noteq> None \<or> \<not> valid_module_path path then Inl ()
                         else module_path_loop lines block (Some path)))
         | [] \<Rightarrow> module_path_loop lines block module_path)"

definition parse_module_path :: "bytes \<Rightarrow> (unit, bytes) result" where
  "parse_module_path bs =
     (if \<not> utf8_valid bs then Inl ()
      else try_bind (module_path_loop (str_lines bs) False None)
             (\<lambda>(block, module_path). if block then Inl () else ok_or () module_path))"

definition parent_directory :: "bytes \<Rightarrow> bytes" where
  "parent_directory path = (case rsplit_once slash path of None \<Rightarrow> [] | Some (directory, _) \<Rightarrow> directory)"

definition directory_contains :: "bytes \<Rightarrow> bytes \<Rightarrow> bool" where
  "directory_contains parent child \<longleftrightarrow>
     parent = [] \<or> parent = child \<or>
     (case strip_prefix parent child of None \<Rightarrow> False | Some suffix \<Rightarrow> starts_with ''/'' suffix)"

definition add_module :: "bytes list \<Rightarrow> repo_path \<times> bytes \<Rightarrow> module_record list \<times> nat \<Rightarrow> module_record list \<times> nat" where
  "add_module package_directories entry acc =
     (let (path, bs) = entry;
          (records, errors) = acc;
          directory = (case as_utf8 path of None \<Rightarrow> [] | Some text \<Rightarrow> parent_directory text)
      in if \<not> list_ex (directory_contains directory) package_directories then (records, errors)
         else case parse_module_path bs of
                Inr module_path \<Rightarrow> (records @ [\<lparr> mr_directory = directory, mr_module_path = Some module_path \<rparr>], errors)
              | Inl _ \<Rightarrow> (records @ [\<lparr> mr_directory = directory, mr_module_path = None \<rparr>], sat_add errors 1))"

definition go_modules :: "module_files \<Rightarrow> bytes list \<Rightarrow> module_record list \<times> nat" where
  "go_modules files package_directories = fold (add_module package_directories) files ([], 0)"

text \<open>The last of the longest directories that contain the package: \<^verbatim>\<open>max_by_key\<close>.\<close>

definition enclosing_module :: "bytes \<Rightarrow> module_record list \<Rightarrow> module_record option" where
  "enclosing_module directory modules =
     fold (\<lambda>m best. case best of
                      None \<Rightarrow> Some m
                    | Some b \<Rightarrow> if length (mr_directory b) \<le> length (mr_directory m) then Some m else Some b)
       (filter (\<lambda>m. directory_contains (mr_directory m) directory) modules) None"

definition package_import_path :: "module_record \<Rightarrow> bytes \<Rightarrow> bytes \<Rightarrow> bytes" where
  "package_import_path m module_path directory =
     (let relative =
            (if mr_directory m = [] then directory
             else case Option.bind (strip_prefix (mr_directory m) directory) (strip_prefix ''/'') of
                    None \<Rightarrow> [] | Some r \<Rightarrow> r)
      in if relative = [] then module_path else module_path @ ''/'' @ relative)"

subsection \<open>The index\<close>

definition package_files :: "source_snapshot \<Rightarrow> (bytes, source_file list) btree_map" where
  "package_files snapshot =
     bt_group (\<lambda>file. if sf_language file = Go
                      then map_option (\<lambda>path. (parent_directory path, file)) (as_utf8 (sf_path file)) else None)
       (snapshot_file_list snapshot)"

definition is_go_test :: "source_file \<Rightarrow> bool" where
  "is_go_test file \<longleftrightarrow> starts_with ''go:test:'' (sf_language_mode file)"

definition add_package :: "module_record list \<Rightarrow> bytes \<times> source_file list \<Rightarrow> go_index \<Rightarrow> go_index" where
  "add_package modules package index =
     (let (directory, files) = package;
          production = map_option sf_path (find (\<lambda>f. \<not> is_go_test f) files);
          representative = (\<lambda>f. if is_go_test f then sf_path f
                                 else case production of None \<Rightarrow> sf_path f | Some p \<Rightarrow> p);
          index = index\<lparr> gi_representatives :=
                    fold (\<lambda>f. bt_insert (sf_path f) (representative f)) files (gi_representatives index) \<rparr>
      in case production of
           None \<Rightarrow> index
         | Some target \<Rightarrow>
             (case enclosing_module directory modules of
                None \<Rightarrow> index
              | Some m \<Rightarrow>
                  (case mr_module_path m of
                     None \<Rightarrow> index
                   | Some module_path \<Rightarrow>
                       index\<lparr> gi_aliases := add_candidate (package_import_path m module_path directory) target (gi_aliases index) \<rparr>)))"

definition go_index_build :: "source_snapshot \<Rightarrow> module_files \<Rightarrow> go_index" where
  "go_index_build snapshot files =
     (let packages = package_files snapshot;
          (records, errors) = go_modules files (map fst packages);
          index = fold (add_package records) packages
                    \<lparr> gi_aliases = [], gi_representatives = [],
                      gi_module_paths = List.map_filter mr_module_path records,
                      gi_configuration_errors = errors, gi_has_go = (packages \<noteq> []) \<rparr>
      in index\<lparr> gi_module_paths := remdups_adj (sort (gi_module_paths index)) \<rparr>)"

definition logical_path_for :: "go_index \<Rightarrow> repo_path \<Rightarrow> repo_path" where
  "logical_path_for index path = (case bt_get (gi_representatives index) path of None \<Rightarrow> path | Some p \<Rightarrow> p)"

definition logical_path :: "go_index \<Rightarrow> source_file \<Rightarrow> repo_path" where
  "logical_path index file = logical_path_for index (sf_path file)"

definition logical_paths :: "go_index \<Rightarrow> repo_path list" where
  "logical_paths index = map snd (gi_representatives index)"

definition go_resolve :: "go_index \<Rightarrow> repo_path \<Rightarrow> bytes \<Rightarrow> resolution" where
  "go_resolve index importer specifier =
     (case alias_resolution (bt_get (gi_aliases index) specifier) of
        Unresolved \<Rightarrow>
          if list_ex (\<lambda>module. specifier = module \<or>
               (case strip_prefix module specifier of None \<Rightarrow> False | Some suffix \<Rightarrow> starts_with ''/'' suffix)) (gi_module_paths index)
          then Unresolved else External
      | Resolved target \<Rightarrow> if target = logical_path_for index importer then SameFile else Resolved target
      | r \<Rightarrow> r)"

section \<open>The index of a snapshot\<close>

record resolution_index =
  rx_languages :: "(repo_path, language) btree_map"
  rx_node_aliases :: aliases
  rx_python_aliases :: aliases
  rx_rust :: rust_index
  rx_go :: go_index

definition index_add_file :: "source_file \<Rightarrow> resolution_index \<Rightarrow> resolution_index" where
  "index_add_file file index =
     (case as_utf8 (sf_path file) of
        None \<Rightarrow> index
      | Some path \<Rightarrow>
          (case sf_language file of
             JavaScript \<Rightarrow> index\<lparr> rx_node_aliases := add_source_aliases path file ''/index'' (rx_node_aliases index) \<rparr>
           | TypeScript \<Rightarrow> index\<lparr> rx_node_aliases := add_source_aliases path file ''/index'' (rx_node_aliases index) \<rparr>
           | Python \<Rightarrow> index\<lparr> rx_python_aliases := add_source_aliases path file ''/__init__'' (rx_python_aliases index) \<rparr>
           | Rust \<Rightarrow> index\<lparr> rx_rust := rust_add_file file path (rx_rust index) \<rparr>
           | _ \<Rightarrow> index))"

definition ResolutionIndex_new ::
    "crates \<Rightarrow> source_snapshot \<Rightarrow> fact_map \<Rightarrow> bytes \<Rightarrow> module_files \<Rightarrow> resolution_index" where
  "ResolutionIndex_new K snapshot facts opts files =
     (let index = fold index_add_file (snapshot_file_list snapshot)
            \<lparr> rx_languages = bt_collect (map (\<lambda>f. (sf_path f, sf_language f)) (snapshot_file_list snapshot)),
              rx_node_aliases = [], rx_python_aliases = [], rx_rust = default_rust_index,
              rx_go = go_index_build snapshot files \<rparr>
      in index\<lparr> rx_rust := confirm_module_trees K snapshot facts opts (rx_rust index) \<rparr>)"

section \<open>Python and JavaScript references\<close>

definition python_normalized :: "repo_path \<Rightarrow> bytes \<Rightarrow> nat \<Rightarrow> bytes option" where
  "python_normalized importer module level =
     (if module = [] \<or> slash \<in> set module \<or> backslash \<in> set module then None
      else if level = 0 then (if CHR ''.'' \<in> set module then None else normalized_relative importer module 0)
      else normalized_relative importer (map (\<lambda>c. if c = CHR ''.'' then slash else c) module) (level - 1))"

definition python_resolve :: "repo_path \<Rightarrow> dependency_reference \<Rightarrow> resolution_index \<Rightarrow> resolution" where
  "python_resolve importer reference index =
     (let absolute = (ref_kind reference = PythonAbsolute)
      in case python_normalized importer (ref_specifier reference) (ref_level reference) of
           None \<Rightarrow> if absolute then Ambiguous else Unresolved
         | Some base \<Rightarrow>
             (let r = alias_resolution (bt_get (rx_python_aliases index) base)
              in if r = Unresolved \<and> absolute then Ambiguous else r))"

definition exact_resolution :: "bytes \<Rightarrow> resolution_index \<Rightarrow> bytes \<Rightarrow> resolution" where
  "exact_resolution path index fam =
     (case from_protocol path of
        Inl _ \<Rightarrow> Unresolved
      | Inr p \<Rightarrow>
          (case bt_get (rx_languages index) p of
             None \<Rightarrow> Unresolved
           | Some language \<Rightarrow> if family language = fam then Resolved p else Unresolved))"

definition node_builtins :: "bytes list" where
  "node_builtins =
     [''assert'', ''assert/strict'', ''async_hooks'', ''buffer'', ''child_process'', ''cluster'', ''console'', ''constants'',
      ''crypto'', ''dgram'', ''diagnostics_channel'', ''dns'', ''dns/promises'', ''domain'', ''events'', ''fs'',
      ''fs/promises'', ''http'', ''http2'', ''https'', ''inspector'', ''inspector/promises'', ''module'', ''net'',
      ''os'', ''path'', ''path/posix'', ''path/win32'', ''perf_hooks'', ''process'', ''punycode'', ''querystring'',
      ''readline'', ''readline/promises'', ''repl'', ''sea'', ''sqlite'', ''stream'', ''stream/consumers'', ''stream/promises'',
      ''stream/web'', ''string_decoder'', ''sys'', ''test'', ''test/reporters'', ''timers'', ''timers/promises'', ''tls'',
      ''trace_events'', ''tty'', ''url'', ''util'', ''util/types'', ''v8'', ''vm'', ''wasi'',
      ''worker_threads'', ''zlib'']"

definition is_pinned_builtin :: "bytes \<Rightarrow> bool" where
  "is_pinned_builtin specifier =
     (case strip_prefix ''node:'' specifier of None \<Rightarrow> False | Some module \<Rightarrow> module \<in> set node_builtins)"

definition resolve_node :: "repo_path \<Rightarrow> bytes \<Rightarrow> resolution_index \<Rightarrow> resolution" where
  "resolve_node importer specifier index =
     (if is_pinned_builtin specifier then NodeBuiltin
      else if \<not> is_relative_specifier specifier then External
      else if CHR ''?'' \<in> set specifier \<or> CHR ''#'' \<in> set specifier \<or> backslash \<in> set specifier then Unresolved
      else case normalized_relative importer specifier 0 of
             None \<Rightarrow> Unresolved
           | Some base \<Rightarrow>
               if strip_language_suffix base TypeScript \<noteq> None \<or> strip_language_suffix base JavaScript \<noteq> None
               then exact_resolution base index (family JavaScript)
               else alias_resolution (bt_get (rx_node_aliases index) base))"

definition resolve_edge_reference :: "resolution_index \<Rightarrow> source_file \<Rightarrow> dependency_reference \<Rightarrow> resolution" where
  "resolve_edge_reference index file reference =
     (case ref_kind reference of
        NodeRuntime \<Rightarrow> resolve_node (sf_path file) (ref_specifier reference) index
      | NodeType \<Rightarrow> resolve_node (sf_path file) (ref_specifier reference) index
      | PythonRelative \<Rightarrow> python_resolve (sf_path file) reference index
      | PythonAbsolute \<Rightarrow> python_resolve (sf_path file) reference index
      | RustModule \<Rightarrow> resolve_module (sf_path file) (ref_specifier reference) (rx_rust index)
      | RustUse \<Rightarrow> resolve_use (sf_path file) (ref_specifier reference) (rx_rust index)
      | GoImport \<Rightarrow> go_resolve (rx_go index) (sf_path file) (ref_specifier reference)
      | _ \<Rightarrow> Unresolved)"

end
