(* ===== verification/Resolver.thy ===== *)
theory Resolver
  imports ResolverIndex
begin

text \<open>
  The dependency projection of a snapshot and of a pair of snapshots: \<^verbatim>\<open>src/sense/resolver.rs\<close>,
  \<^verbatim>\<open>resolver/classification.rs\<close>, \<^verbatim>\<open>resolver/evidence.rs\<close> and \<^verbatim>\<open>resolver/pair.rs\<close>. A projection is built
  file by file; when the candidate differs from the baseline only inside known files, its projection is the
  projection of the baseline with the contributions of those files replaced.
\<close>

section \<open>Classes of references\<close>

datatype reference_class = ClassEdge edge_kind | ClassUnsupported | ClassUnresolved

fun class_gap_kind :: "reference_class \<Rightarrow> resolution_gap_kind option" where
  "class_gap_kind (ClassEdge _) = None"
| "class_gap_kind ClassUnsupported = Some GapUnsupportedDynamic"
| "class_gap_kind ClassUnresolved = Some GapUnresolved"

fun reference_class_of :: "dependency_reference_kind \<Rightarrow> reference_class" where
  "reference_class_of NodeRuntime = ClassEdge EdgeRuntime"
| "reference_class_of PythonRelative = ClassEdge EdgeRuntime"
| "reference_class_of PythonAbsolute = ClassEdge EdgeRuntime"
| "reference_class_of GoImport = ClassEdge EdgeRuntime"
| "reference_class_of NodeType = ClassEdge EdgeTypeOnly"
| "reference_class_of RustModule = ClassEdge EdgeStructural"
| "reference_class_of RustUse = ClassEdge EdgeStructural"
| "reference_class_of NodeUnsupportedDynamic = ClassUnsupported"
| "reference_class_of RustUnsupported = ClassUnsupported"
| "reference_class_of GoUnsupportedImport = ClassUnsupported"
| "reference_class_of GoUnsupportedConditional = ClassUnsupported"
| "reference_class_of PythonUnsupportedRelative = ClassUnresolved"

section \<open>Gaps\<close>

definition record_resolution_gap :: "resolution_gap_evidence \<Rightarrow> projection \<Rightarrow> projection" where
  "record_resolution_gap gap p =
     (if gap \<in> set (pj_resolution_gaps p) then p
      else
        (let gs = bs_insert gap (pj_resolution_gaps p)
         in if length gs > MAX_OBSERVATION_PATHS
            then p\<lparr> pj_resolution_gaps := butlast gs, pj_resolution_gaps_truncated := True \<rparr>
            else p\<lparr> pj_resolution_gaps := gs \<rparr>))"

definition record_reference_gap ::
    "repo_path \<Rightarrow> dependency_reference \<Rightarrow> resolution_gap_kind \<Rightarrow> projection \<Rightarrow> projection" where
  "record_reference_gap path reference kind =
     record_resolution_gap \<lparr> rg_path = path, rg_specifier = ref_specifier reference, rg_kind = kind \<rparr>"

section \<open>Counters\<close>

definition default_resolution_coverage :: resolution_coverage where
  "default_resolution_coverage =
     \<lparr> rc_files = 0, rc_complete_files = 0, rc_unsupported_files = 0, rc_parser_failed_files = 0, rc_truncated_files = 0,
       rc_runtime_references = 0, rc_type_references = 0, rc_structural_references = 0, rc_resolved_references = 0,
       rc_node_builtin_references = 0, rc_external_references = 0, rc_ambiguous_references = 0,
       rc_unresolved_references = 0, rc_unsupported_dynamic_references = 0, rc_configuration_errors = 0,
       rc_edges_truncated = False \<rparr>"

definition default_interface_gap_counts :: interface_gap_counts where
  "default_interface_gap_counts =
     \<lparr> wildcard_exports = 0, namespace_imports = 0, common_js_exports = 0, dynamic_loaders = 0, unsupported_patterns = 0 \<rparr>"

definition default_interface_coverage :: interface_coverage where
  "default_interface_coverage =
     \<lparr> icov_files = 0, icov_complete_files = 0, icov_partial_files = 0, icov_unsupported_files = 0,
       icov_parser_failed_files = 0, icov_truncated_files = 0, icov_complete_public_surfaces = 0,
       icov_partial_public_surfaces = 0, icov_unsupported_public_surfaces = 0, icov_truncated_public_surfaces = 0,
       icov_resolved_selectors = 0, icov_selectors_truncated = False, icov_gaps = default_interface_gap_counts \<rparr>"

definition default_projection :: projection where
  "default_projection =
     \<lparr> pj_nodes = [], pj_edges = [], pj_coverage = default_resolution_coverage, pj_resolution_gaps = [],
       pj_resolution_gaps_truncated = False, pj_interfaces = [], pj_interface_edges = [],
       pj_interface_coverage = default_interface_coverage \<rparr>"

definition default_module_interface :: module_interface where
  "default_module_interface =
     \<lparr> mi_exports = [], mi_shapes = [], mi_shape_fingerprints = [], mi_has_local_exports = False, mi_has_reexports = False,
       mi_declaration_file = False, mi_public_surface_complete = False \<rparr>"

definition default_interface_edge :: interface_edge where
  "default_interface_edge = \<lparr> ie_selectors = [], ie_unknown_width = False \<rparr>"

definition add_interface_gaps :: "interface_gap_counts \<Rightarrow> interface_gap_counts \<Rightarrow> interface_gap_counts" where
  "add_interface_gaps t i =
     \<lparr> wildcard_exports = sat_add (wildcard_exports t) (wildcard_exports i),
       namespace_imports = sat_add (namespace_imports t) (namespace_imports i),
       common_js_exports = sat_add (common_js_exports t) (common_js_exports i),
       dynamic_loaders = sat_add (dynamic_loaders t) (dynamic_loaders i),
       unsupported_patterns = sat_add (unsupported_patterns t) (unsupported_patterns i) \<rparr>"

definition subtract_interface_gaps :: "interface_gap_counts \<Rightarrow> interface_gap_counts \<Rightarrow> interface_gap_counts" where
  "subtract_interface_gaps t i =
     \<lparr> wildcard_exports = wildcard_exports t - wildcard_exports i,
       namespace_imports = namespace_imports t - namespace_imports i,
       common_js_exports = common_js_exports t - common_js_exports i,
       dynamic_loaders = dynamic_loaders t - dynamic_loaders i,
       unsupported_patterns = unsupported_patterns t - unsupported_patterns i \<rparr>"

definition add_interface_coverage :: "interface_coverage \<Rightarrow> interface_coverage \<Rightarrow> interface_coverage" where
  "add_interface_coverage t i =
     \<lparr> icov_files = sat_add (icov_files t) (icov_files i),
       icov_complete_files = sat_add (icov_complete_files t) (icov_complete_files i),
       icov_partial_files = sat_add (icov_partial_files t) (icov_partial_files i),
       icov_unsupported_files = sat_add (icov_unsupported_files t) (icov_unsupported_files i),
       icov_parser_failed_files = sat_add (icov_parser_failed_files t) (icov_parser_failed_files i),
       icov_truncated_files = sat_add (icov_truncated_files t) (icov_truncated_files i),
       icov_complete_public_surfaces = sat_add (icov_complete_public_surfaces t) (icov_complete_public_surfaces i),
       icov_partial_public_surfaces = sat_add (icov_partial_public_surfaces t) (icov_partial_public_surfaces i),
       icov_unsupported_public_surfaces = sat_add (icov_unsupported_public_surfaces t) (icov_unsupported_public_surfaces i),
       icov_truncated_public_surfaces = sat_add (icov_truncated_public_surfaces t) (icov_truncated_public_surfaces i),
       icov_resolved_selectors = sat_add (icov_resolved_selectors t) (icov_resolved_selectors i),
       icov_selectors_truncated = (icov_selectors_truncated t \<or> icov_selectors_truncated i),
       icov_gaps = add_interface_gaps (icov_gaps t) (icov_gaps i) \<rparr>"

definition subtract_interface_coverage :: "interface_coverage \<Rightarrow> interface_coverage \<Rightarrow> interface_coverage" where
  "subtract_interface_coverage t i =
     \<lparr> icov_files = icov_files t - icov_files i,
       icov_complete_files = icov_complete_files t - icov_complete_files i,
       icov_partial_files = icov_partial_files t - icov_partial_files i,
       icov_unsupported_files = icov_unsupported_files t - icov_unsupported_files i,
       icov_parser_failed_files = icov_parser_failed_files t - icov_parser_failed_files i,
       icov_truncated_files = icov_truncated_files t - icov_truncated_files i,
       icov_complete_public_surfaces = icov_complete_public_surfaces t - icov_complete_public_surfaces i,
       icov_partial_public_surfaces = icov_partial_public_surfaces t - icov_partial_public_surfaces i,
       icov_unsupported_public_surfaces = icov_unsupported_public_surfaces t - icov_unsupported_public_surfaces i,
       icov_truncated_public_surfaces = icov_truncated_public_surfaces t - icov_truncated_public_surfaces i,
       icov_resolved_selectors = icov_resolved_selectors t - icov_resolved_selectors i,
       icov_selectors_truncated = icov_selectors_truncated t,
       icov_gaps = subtract_interface_gaps (icov_gaps t) (icov_gaps i) \<rparr>"

definition add_coverage :: "resolution_coverage \<Rightarrow> resolution_coverage \<Rightarrow> resolution_coverage" where
  "add_coverage t i =
     \<lparr> rc_files = sat_add (rc_files t) (rc_files i),
       rc_complete_files = sat_add (rc_complete_files t) (rc_complete_files i),
       rc_unsupported_files = sat_add (rc_unsupported_files t) (rc_unsupported_files i),
       rc_parser_failed_files = sat_add (rc_parser_failed_files t) (rc_parser_failed_files i),
       rc_truncated_files = sat_add (rc_truncated_files t) (rc_truncated_files i),
       rc_runtime_references = sat_add (rc_runtime_references t) (rc_runtime_references i),
       rc_type_references = sat_add (rc_type_references t) (rc_type_references i),
       rc_structural_references = sat_add (rc_structural_references t) (rc_structural_references i),
       rc_resolved_references = sat_add (rc_resolved_references t) (rc_resolved_references i),
       rc_node_builtin_references = sat_add (rc_node_builtin_references t) (rc_node_builtin_references i),
       rc_external_references = sat_add (rc_external_references t) (rc_external_references i),
       rc_ambiguous_references = sat_add (rc_ambiguous_references t) (rc_ambiguous_references i),
       rc_unresolved_references = sat_add (rc_unresolved_references t) (rc_unresolved_references i),
       rc_unsupported_dynamic_references = sat_add (rc_unsupported_dynamic_references t) (rc_unsupported_dynamic_references i),
       rc_configuration_errors = sat_add (rc_configuration_errors t) (rc_configuration_errors i),
       rc_edges_truncated = (rc_edges_truncated t \<or> rc_edges_truncated i) \<rparr>"

definition subtract_coverage :: "resolution_coverage \<Rightarrow> resolution_coverage \<Rightarrow> resolution_coverage" where
  "subtract_coverage t i =
     \<lparr> rc_files = rc_files t - rc_files i,
       rc_complete_files = rc_complete_files t - rc_complete_files i,
       rc_unsupported_files = rc_unsupported_files t - rc_unsupported_files i,
       rc_parser_failed_files = rc_parser_failed_files t - rc_parser_failed_files i,
       rc_truncated_files = rc_truncated_files t - rc_truncated_files i,
       rc_runtime_references = rc_runtime_references t - rc_runtime_references i,
       rc_type_references = rc_type_references t - rc_type_references i,
       rc_structural_references = rc_structural_references t - rc_structural_references i,
       rc_resolved_references = rc_resolved_references t - rc_resolved_references i,
       rc_node_builtin_references = rc_node_builtin_references t - rc_node_builtin_references i,
       rc_external_references = rc_external_references t - rc_external_references i,
       rc_ambiguous_references = rc_ambiguous_references t - rc_ambiguous_references i,
       rc_unresolved_references = rc_unresolved_references t - rc_unresolved_references i,
       rc_unsupported_dynamic_references = rc_unsupported_dynamic_references t - rc_unsupported_dynamic_references i,
       rc_configuration_errors = rc_configuration_errors t - rc_configuration_errors i,
       rc_edges_truncated = rc_edges_truncated t \<rparr>"

abbreviation cover :: "(resolution_coverage \<Rightarrow> resolution_coverage) \<Rightarrow> projection \<Rightarrow> projection" where
  "cover f p \<equiv> p\<lparr> pj_coverage := f (pj_coverage p) \<rparr>"

abbreviation inc :: "nat \<Rightarrow> nat" where "inc n \<equiv> sat_add n 1"

definition observe_extraction_status :: "dependency_extraction_status \<Rightarrow> resolution_coverage \<Rightarrow> resolution_coverage" where
  "observe_extraction_status status c =
     (case status of
        DComplete \<Rightarrow> c\<lparr> rc_complete_files := inc (rc_complete_files c) \<rparr>
      | DUnsupported \<Rightarrow> c\<lparr> rc_unsupported_files := inc (rc_unsupported_files c) \<rparr>
      | DParserFailed \<Rightarrow> c\<lparr> rc_parser_failed_files := inc (rc_parser_failed_files c) \<rparr>
      | DTruncated \<Rightarrow> c\<lparr> rc_truncated_files := inc (rc_truncated_files c) \<rparr>)"

definition update_extraction_coverage :: "interface_extraction_status \<Rightarrow> interface_coverage \<Rightarrow> interface_coverage" where
  "update_extraction_coverage status c =
     (case status of
        IComplete \<Rightarrow> c\<lparr> icov_complete_files := inc (icov_complete_files c) \<rparr>
      | IPartial \<Rightarrow> c\<lparr> icov_partial_files := inc (icov_partial_files c) \<rparr>
      | IUnsupported \<Rightarrow> c\<lparr> icov_unsupported_files := inc (icov_unsupported_files c) \<rparr>
      | IParserFailed \<Rightarrow> c\<lparr> icov_parser_failed_files := inc (icov_parser_failed_files c) \<rparr>
      | ITruncated \<Rightarrow> c\<lparr> icov_truncated_files := inc (icov_truncated_files c) \<rparr>)"

definition update_surface_coverage :: "interface_surface_status \<Rightarrow> interface_coverage \<Rightarrow> interface_coverage" where
  "update_surface_coverage status c =
     (case status of
        SComplete \<Rightarrow> c\<lparr> icov_complete_public_surfaces := inc (icov_complete_public_surfaces c) \<rparr>
      | SPartial \<Rightarrow> c\<lparr> icov_partial_public_surfaces := inc (icov_partial_public_surfaces c) \<rparr>
      | SUnsupported \<Rightarrow> c\<lparr> icov_unsupported_public_surfaces := inc (icov_unsupported_public_surfaces c) \<rparr>
      | STruncated \<Rightarrow> c\<lparr> icov_truncated_public_surfaces := inc (icov_truncated_public_surfaces c) \<rparr>)"

section \<open>References\<close>

definition observe_reference_class :: "reference_class \<Rightarrow> projection \<Rightarrow> projection \<times> edge_kind option" where
  "observe_reference_class class p =
     (case class of
        ClassEdge kind \<Rightarrow>
          (case kind of
             EdgeRuntime \<Rightarrow> (cover (\<lambda>c. c\<lparr> rc_runtime_references := inc (rc_runtime_references c) \<rparr>) p, Some EdgeRuntime)
           | EdgeTypeOnly \<Rightarrow> (cover (\<lambda>c. c\<lparr> rc_type_references := inc (rc_type_references c) \<rparr>) p, Some EdgeTypeOnly)
           | EdgeStructural \<Rightarrow>
               (cover (\<lambda>c. c\<lparr> rc_structural_references := inc (rc_structural_references c) \<rparr>) p, Some EdgeStructural))
      | ClassUnsupported \<Rightarrow>
          (cover (\<lambda>c. c\<lparr> rc_unsupported_dynamic_references := inc (rc_unsupported_dynamic_references c) \<rparr>) p, None)
      | ClassUnresolved \<Rightarrow> (cover (\<lambda>c. c\<lparr> rc_unresolved_references := inc (rc_unresolved_references c) \<rparr>) p, None))"

definition insert_edge :: "dependency_edge \<Rightarrow> projection \<Rightarrow> projection" where
  "insert_edge edge p =
     (if edge \<notin> set (pj_edges p) \<and> length (pj_edges p) \<ge> MAX_GRAPH_EDGES
      then cover (\<lambda>c. c\<lparr> rc_edges_truncated := True \<rparr>) p
      else p\<lparr> pj_edges := bs_insert edge (pj_edges p) \<rparr>)"

text \<open>
  \<^verbatim>\<open>entry(key).or_default()\<close>, then a selector of the edge, unless it is known or the bound on
  selectors is reached.
\<close>

definition insert_selector :: "interface_edge_key \<Rightarrow> interface_selector \<Rightarrow> projection \<Rightarrow> projection" where
  "insert_selector key selector p =
     (let edge = (case bt_get (pj_interface_edges p) key of None \<Rightarrow> default_interface_edge | Some e \<Rightarrow> e);
          p = p\<lparr> pj_interface_edges := bt_insert key edge (pj_interface_edges p) \<rparr>;
          ic = pj_interface_coverage p
      in if selector \<in> set (ie_selectors edge) then p
         else if icov_resolved_selectors ic \<ge> MAX_INTERFACE_SELECTORS
         then p\<lparr> pj_interface_coverage := ic\<lparr> icov_selectors_truncated := True \<rparr> \<rparr>
         else p\<lparr> pj_interface_edges := bt_insert key (edge\<lparr> ie_selectors := bs_insert selector (ie_selectors edge) \<rparr>) (pj_interface_edges p),
                 pj_interface_coverage := ic\<lparr> icov_resolved_selectors := inc (icov_resolved_selectors ic) \<rparr> \<rparr>)"

definition mark_unknown_width :: "interface_edge_key \<Rightarrow> projection \<Rightarrow> projection" where
  "mark_unknown_width key p =
     p\<lparr> pj_interface_edges := bt_entry default_interface_edge (\<lambda>e. e\<lparr> ie_unknown_width := True \<rparr>) key (pj_interface_edges p) \<rparr>"

definition record_import_fact :: "repo_path \<Rightarrow> repo_path \<Rightarrow> interface_import_fact \<Rightarrow> projection \<Rightarrow> projection" where
  "record_import_fact from target ifact p =
     (let key = \<lparr> iedk_from = from, iedk_to = target, iedk_namespace = imp_namespace ifact \<rparr>
      in case sel_kind (imp_selector ifact) of
           Named \<Rightarrow> insert_selector key (imp_selector ifact) p
         | Default \<Rightarrow> insert_selector key (imp_selector ifact) p
         | Namespace \<Rightarrow> mark_unknown_width key p
         | SideEffect \<Rightarrow> p)"

definition node_reference :: "dependency_reference_kind \<Rightarrow> bool option" where
  "node_reference kind =
     (case kind of
        NodeType \<Rightarrow> Some True | NodeRuntime \<Rightarrow> Some True | GoImport \<Rightarrow> Some True
      | PythonRelative \<Rightarrow> Some False | PythonAbsolute \<Rightarrow> Some False | RustModule \<Rightarrow> Some False | RustUse \<Rightarrow> Some False
      | _ \<Rightarrow> None)"

definition record_interface_edge ::
    "repo_path \<Rightarrow> repo_path \<Rightarrow> dependency_reference \<Rightarrow> interface_facts \<Rightarrow> projection \<Rightarrow> projection" where
  "record_interface_edge from target reference facts p =
     (case node_reference (ref_kind reference) of
        None \<Rightarrow> p
      | Some is_node \<Rightarrow>
          fold (record_import_fact from target)
            (filter (\<lambda>ifact. imp_specifier ifact = ref_specifier reference \<and> imp_level ifact = ref_level reference \<and>
                            (is_node \<or> imp_namespace ifact = Runtime)) (if_imports facts)) p)"

definition record_resolution ::
    "repo_path \<Rightarrow> edge_kind \<Rightarrow> dependency_reference \<Rightarrow> interface_facts option \<Rightarrow> resolution \<Rightarrow> projection \<Rightarrow> projection" where
  "record_resolution from kind reference interfaces r p =
     (case r of
        Resolved to \<Rightarrow>
          (let p = cover (\<lambda>c. c\<lparr> rc_resolved_references := inc (rc_resolved_references c) \<rparr>) p;
               p = insert_edge \<lparr> edge_from = from, edge_to = to, edge_kind = kind \<rparr> p
           in case interfaces of None \<Rightarrow> p | Some facts \<Rightarrow> record_interface_edge from to reference facts p)
      | SameFile \<Rightarrow> cover (\<lambda>c. c\<lparr> rc_resolved_references := inc (rc_resolved_references c) \<rparr>) p
      | NodeBuiltin \<Rightarrow>
          record_reference_gap from reference GapNodeBuiltin
            (cover (\<lambda>c. c\<lparr> rc_node_builtin_references := inc (rc_node_builtin_references c),
                            rc_external_references := inc (rc_external_references c) \<rparr>) p)
      | External \<Rightarrow>
          record_reference_gap from reference GapExternal
            (cover (\<lambda>c. c\<lparr> rc_external_references := inc (rc_external_references c) \<rparr>) p)
      | Ambiguous \<Rightarrow>
          record_reference_gap from reference GapAmbiguous
            (cover (\<lambda>c. c\<lparr> rc_ambiguous_references := inc (rc_ambiguous_references c) \<rparr>) p)
      | Unresolved \<Rightarrow>
          record_reference_gap from reference GapUnresolved
            (cover (\<lambda>c. c\<lparr> rc_unresolved_references := inc (rc_unresolved_references c) \<rparr>) p))"

definition resolve_reference ::
    "resolution_index \<Rightarrow> source_file \<Rightarrow> interface_facts option \<Rightarrow> dependency_reference \<Rightarrow> projection \<Rightarrow> projection" where
  "resolve_reference index file interfaces reference p =
     (let class = reference_class_of (ref_kind reference)
      in case observe_reference_class class p of
           (p, None) \<Rightarrow>
             (case class_gap_kind class of None \<Rightarrow> p | Some gap \<Rightarrow> record_reference_gap (sf_path file) reference gap p)
         | (p, Some kind) \<Rightarrow>
             record_resolution (logical_path (rx_go index) file) kind reference interfaces (resolve_edge_reference index file reference) p)"

section \<open>Interfaces\<close>

definition add_export :: "interface_export_fact \<Rightarrow> module_interface \<Rightarrow> module_interface" where
  "add_export export m =
     (let m = m\<lparr> mi_exports := bs_insert \<lparr> iek_namespace = exp_namespace export, iek_name = exp_exported_name export \<rparr> (mi_exports m) \<rparr>
      in case exp_origin export of OriginLocal \<Rightarrow> m\<lparr> mi_has_local_exports := True \<rparr> | OriginReExport \<Rightarrow> m\<lparr> mi_has_reexports := True \<rparr>)"

definition add_shape :: "interface_shape_fact \<Rightarrow> module_interface \<Rightarrow> module_interface" where
  "add_shape shape m =
     (let key = \<lparr> isk_kind = shape_kind shape, isk_name = shape_exported_name shape \<rparr>
      in m\<lparr> mi_shapes := bt_insert key (shape_member_count shape) (mi_shapes m),
            mi_shape_fingerprints := bt_insert key (shape_fingerprint shape) (mi_shape_fingerprints m) \<rparr>)"

definition module_interface_of :: "source_file \<Rightarrow> interface_facts \<Rightarrow> module_interface" where
  "module_interface_of file facts =
     (let m = default_module_interface\<lparr> mi_declaration_file := contains_bytes ''declaration'' (sf_language_mode file),
                mi_public_surface_complete := (if_public_surface_status facts = SComplete) \<rparr>;
          m = fold add_export (if_exports facts) m;
          m = m\<lparr> mi_has_reexports := (mi_has_reexports m \<or> list_ex (\<lambda>f. imp_role f = ReExport) (if_imports facts)) \<rparr>
      in fold add_shape (if_shapes facts) m)"

definition merge_module_interface :: "module_interface \<Rightarrow> module_interface \<Rightarrow> module_interface" where
  "merge_module_interface d s =
     \<lparr> mi_exports = bs_extend (mi_exports d) (mi_exports s),
       mi_shapes = fold (\<lambda>e. bt_insert (fst e) (snd e)) (mi_shapes s) (mi_shapes d),
       mi_shape_fingerprints = fold (\<lambda>e. bt_insert (fst e) (snd e)) (mi_shape_fingerprints s) (mi_shape_fingerprints d),
       mi_has_local_exports = (mi_has_local_exports d \<or> mi_has_local_exports s),
       mi_has_reexports = (mi_has_reexports d \<or> mi_has_reexports s),
       mi_declaration_file = (mi_declaration_file d \<or> mi_declaration_file s),
       mi_public_surface_complete = (mi_public_surface_complete d \<and> mi_public_surface_complete s) \<rparr>"

definition observe_interface_facts ::
    "source_file \<Rightarrow> file_facts \<Rightarrow> repo_path \<Rightarrow> bool \<Rightarrow> projection \<Rightarrow> projection" where
  "observe_interface_facts file facts logical project_interface p =
     (if \<not> project_interface then p
      else
        (let c = pj_interface_coverage p;
             c = c\<lparr> icov_files := inc (icov_files c) \<rparr>;
             c = update_extraction_coverage (if_status (ff_interfaces facts)) c;
             c = c\<lparr> icov_gaps := add_interface_gaps (icov_gaps c) (if_gaps (ff_interfaces facts)) \<rparr>;
             c = update_surface_coverage (if_public_surface_status (ff_interfaces facts)) c;
             m = module_interface_of file (ff_interfaces facts)
         in p\<lparr> pj_interface_coverage := c,
               pj_interfaces := bt_insert logical
                 (case bt_get (pj_interfaces p) logical of None \<Rightarrow> m | Some d \<Rightarrow> merge_module_interface d m) (pj_interfaces p) \<rparr>))"

section \<open>Files\<close>

record resolution_context =
  cx_crates :: crates
  cx_file_facts :: fact_map
  cx_parser_options :: bytes
  cx_index :: resolution_index
  cx_interface_paths :: "repo_path btree_set"

definition observe_file :: "resolution_context \<Rightarrow> source_file \<Rightarrow> projection \<Rightarrow> projection" where
  "observe_file c file p =
     (case bt_get (cx_file_facts c) (fact_key (cx_crates c) file (cx_parser_options c)) of
        None \<Rightarrow> cover (\<lambda>c. c\<lparr> rc_parser_failed_files := inc (rc_parser_failed_files c) \<rparr>) p
      | Some facts \<Rightarrow>
          (let logical = logical_path (rx_go (cx_index c)) file;
               project_interfaces = (logical \<in> set (cx_interface_paths c));
               p = cover (observe_extraction_status (dep_status (ff_dependencies facts))) p;
               p = observe_interface_facts file facts logical project_interfaces p
           in fold (resolve_reference (cx_index c) file (if project_interfaces then Some (ff_interfaces facts) else None))
                (dep_references (ff_dependencies facts)) p))"

definition initial_projection :: "resolution_context \<Rightarrow> source_snapshot \<Rightarrow> projection" where
  "initial_projection c snapshot =
     default_projection\<lparr> pj_nodes := map fst (rx_languages (cx_index c)),
       pj_coverage := default_resolution_coverage\<lparr> rc_files := snapshot_len snapshot,
         rc_configuration_errors := gi_configuration_errors (rx_go (cx_index c)) \<rparr> \<rparr>"

definition project_with_index :: "resolution_context \<Rightarrow> source_snapshot \<Rightarrow> projection" where
  "project_with_index c snapshot = fold (observe_file c) (snapshot_file_list snapshot) (initial_projection c snapshot)"

definition project_file :: "resolution_context \<Rightarrow> source_file \<Rightarrow> projection" where
  "project_file c file =
     observe_file c file (default_projection\<lparr> pj_nodes := [sf_path file],
       pj_coverage := default_resolution_coverage\<lparr> rc_files := 1 \<rparr> \<rparr>)"

section \<open>Contributions\<close>

definition add_interface_edge :: "interface_edge_key \<times> interface_edge \<Rightarrow> projection \<Rightarrow> projection" where
  "add_interface_edge entry p =
     (let (key, edge) = entry;
          p = p\<lparr> pj_interface_edges := bt_entry default_interface_edge
                (\<lambda>e. e\<lparr> ie_unknown_width := (ie_unknown_width e \<or> ie_unknown_width edge) \<rparr>) key (pj_interface_edges p) \<rparr>
      in fold (insert_selector key) (ie_selectors edge) p)"

definition add_contribution :: "projection \<Rightarrow> projection \<Rightarrow> projection" where
  "add_contribution contribution p =
     (let selector_count = icov_resolved_selectors (pj_interface_coverage p);
          p = p\<lparr> pj_coverage := add_coverage (pj_coverage p) (pj_coverage contribution),
                 pj_interface_coverage := add_interface_coverage (pj_interface_coverage p) (pj_interface_coverage contribution),
                 pj_resolution_gaps_truncated :=
                   (pj_resolution_gaps_truncated p \<or> pj_resolution_gaps_truncated contribution) \<rparr>;
          p = fold record_resolution_gap (pj_resolution_gaps contribution) p;
          p = p\<lparr> pj_interface_coverage := (pj_interface_coverage p)\<lparr> icov_resolved_selectors := selector_count \<rparr> \<rparr>;
          p = fold insert_edge (pj_edges contribution) p;
          p = p\<lparr> pj_interfaces := fold (\<lambda>e. bt_insert (fst e) (snd e)) (pj_interfaces contribution) (pj_interfaces p) \<rparr>
      in fold add_interface_edge (pj_interface_edges contribution) p)"

definition bs_remove :: "'a \<Rightarrow> 'a btree_set \<Rightarrow> 'a btree_set" where
  "bs_remove x s = filter (\<lambda>y. y \<noteq> x) s"

definition subtract_contribution :: "projection \<Rightarrow> projection \<Rightarrow> projection" where
  "subtract_contribution contribution p =
     p\<lparr> pj_coverage := subtract_coverage (pj_coverage p) (pj_coverage contribution),
        pj_resolution_gaps := fold bs_remove (pj_resolution_gaps contribution) (pj_resolution_gaps p),
        pj_edges := fold bs_remove (pj_edges contribution) (pj_edges p),
        pj_interface_coverage := subtract_interface_coverage (pj_interface_coverage p) (pj_interface_coverage contribution),
        pj_interfaces := fold (\<lambda>e. bt_remove (fst e)) (pj_interfaces contribution) (pj_interfaces p),
        pj_interface_edges := fold (\<lambda>e. bt_remove (fst e)) (pj_interface_edges contribution) (pj_interface_edges p) \<rparr>"

definition update_importer ::
    "source_snapshot \<Rightarrow> source_snapshot \<Rightarrow> resolution_context \<Rightarrow> repo_path \<Rightarrow> projection \<Rightarrow> projection" where
  "update_importer before after c path p =
     (case (snapshot_read after path, snapshot_read before path) of
        (Some after_file, Some before_file) \<Rightarrow>
          if fact_key (cx_crates c) before_file (cx_parser_options c) = fact_key (cx_crates c) after_file (cx_parser_options c) then p
          else add_contribution (project_file c after_file) (subtract_contribution (project_file c before_file) p)
      | _ \<Rightarrow> p)"

definition update_changed_importers ::
    "source_snapshot \<Rightarrow> source_snapshot \<Rightarrow> projection \<Rightarrow> resolution_context \<Rightarrow> repo_path btree_set \<Rightarrow> projection" where
  "update_changed_importers before after p c changed = fold (update_importer before after c) changed p"

section \<open>Pairs of snapshots\<close>

record go_module_views =
  gmv_before :: module_files
  gmv_after :: module_files

record pair_input =
  pi_crates :: crates
  pi_before :: source_snapshot
  pi_after :: source_snapshot
  pi_file_facts :: fact_map
  pi_parser_options :: bytes
  pi_interface_paths :: "repo_path btree_set"
  pi_go_modules :: go_module_views

definition interface_paths :: "resolution_index \<Rightarrow> repo_path btree_set \<Rightarrow> bool \<Rightarrow> repo_path btree_set" where
  "interface_paths index paths metadata_changed =
     (let logical = bs_extend [] (map (logical_path_for (rx_go index)) paths)
      in if metadata_changed then bs_extend logical (logical_paths (rx_go index)) else logical)"

definition pair_context :: "pair_input \<Rightarrow> resolution_index \<Rightarrow> repo_path btree_set \<Rightarrow> resolution_context" where
  "pair_context i index paths =
     \<lparr> cx_crates = pi_crates i, cx_file_facts = pi_file_facts i, cx_parser_options = pi_parser_options i,
       cx_index = index, cx_interface_paths = paths \<rparr>"

definition views_match :: "pair_input \<Rightarrow> bool" where
  "views_match i \<longleftrightarrow>
     snap_id (pi_before i) = snap_id (pi_after i) \<and> gmv_before (pi_go_modules i) = gmv_after (pi_go_modules i)"

definition can_incrementally_project :: "source_snapshot \<Rightarrow> source_snapshot \<Rightarrow> repo_path btree_set \<Rightarrow> bool" where
  "can_incrementally_project before after changed \<longleftrightarrow>
     snapshot_len before = snapshot_len after \<and>
     list_all (\<lambda>(b, a). sf_path b = sf_path a \<and> sf_language b = sf_language a \<and>
                 (sf_content_id b = sf_content_id a \<or> sf_path b \<in> set changed))
       (zip (snapshot_file_list before) (snapshot_file_list after))"

definition go_sensitive :: "pair_input \<Rightarrow> resolution_index \<Rightarrow> bool" where
  "go_sensitive i before_index \<longleftrightarrow>
     gi_has_go (rx_go before_index) \<or> list_ex (\<lambda>f. sf_language f = Go) (snapshot_file_list (pi_after i)) \<or>
     gmv_before (pi_go_modules i) \<noteq> [] \<or> gmv_after (pi_go_modules i) \<noteq> []"

definition incremental_safe :: "pair_input \<Rightarrow> resolution_index \<Rightarrow> bool" where
  "incremental_safe i before_index \<longleftrightarrow>
     can_incrementally_project (pi_before i) (pi_after i) (pi_interface_paths i) \<and>
     index_is_stable (pi_before i) (pi_after i) (pi_interface_paths i) \<and> \<not> go_sensitive i before_index"

definition full_projection_required :: "bool \<Rightarrow> projection \<Rightarrow> bool" where
  "full_projection_required is_safe before \<longleftrightarrow>
     \<not> is_safe \<or> rc_edges_truncated (pj_coverage before) \<or> pj_resolution_gaps before \<noteq> [] \<or>
     pj_resolution_gaps_truncated before \<or> icov_selectors_truncated (pj_interface_coverage before)"

definition project_changed ::
    "pair_input \<Rightarrow> resolution_index \<Rightarrow> repo_path btree_set \<Rightarrow> projection \<Rightarrow> bool \<Rightarrow> projection \<times> projection \<times> repo_path btree_set" where
  "project_changed i before_index before_paths before_projection metadata_changed =
     (let is_safe = incremental_safe i before_index;
          index = (if is_safe then before_index
                   else ResolutionIndex_new (pi_crates i) (pi_after i) (pi_file_facts i) (pi_parser_options i) (gmv_after (pi_go_modules i)));
          after_paths = interface_paths index (pi_interface_paths i) metadata_changed;
          c = pair_context i index after_paths;
          after_projection =
            (if full_projection_required is_safe before_projection then project_with_index c (pi_after i)
             else update_changed_importers (pi_before i) (pi_after i) before_projection c after_paths)
      in (before_projection, after_projection, bs_extend before_paths after_paths))"

definition project_pair :: "pair_input \<Rightarrow> projection \<times> projection \<times> repo_path btree_set" where
  "project_pair i =
     (let before_index = ResolutionIndex_new (pi_crates i) (pi_before i) (pi_file_facts i) (pi_parser_options i) (gmv_before (pi_go_modules i));
          metadata_changed = (gmv_before (pi_go_modules i) \<noteq> gmv_after (pi_go_modules i));
          before_paths = interface_paths before_index (pi_interface_paths i) metadata_changed;
          before_projection = project_with_index (pair_context i before_index before_paths) (pi_before i)
      in if views_match i then (before_projection, before_projection, before_paths)
         else project_changed i before_index before_paths before_projection metadata_changed)"

end
