(* ===== verification/ProjectionEvents.thy ===== *)
theory ProjectionEvents
  imports Resolver
begin

text \<open>
  What a file contributes to a projection, as a list of events that does not depend on the projection it is
  added to, and what a projection holds after a list of events. The replacement of contributions in
  \<^verbatim>\<open>resolver/pair.rs\<close> is justified by this: as long as no bound is hit, a projection is a function of the
  multiset of its events.
\<close>

section \<open>Counters as lists\<close>

definition rc_counts :: "resolution_coverage \<Rightarrow> nat list" where
  "rc_counts c =
     [rc_files c, rc_complete_files c, rc_unsupported_files c, rc_parser_failed_files c, rc_truncated_files c,
      rc_runtime_references c, rc_type_references c, rc_structural_references c, rc_resolved_references c,
      rc_node_builtin_references c, rc_external_references c, rc_ambiguous_references c,
      rc_unresolved_references c, rc_unsupported_dynamic_references c, rc_configuration_errors c]"

definition rc_make :: "nat list \<Rightarrow> bool \<Rightarrow> resolution_coverage" where
  "rc_make xs t =
     \<lparr> rc_files = xs ! 0, rc_complete_files = xs ! 1, rc_unsupported_files = xs ! 2, rc_parser_failed_files = xs ! 3,
       rc_truncated_files = xs ! 4, rc_runtime_references = xs ! 5, rc_type_references = xs ! 6,
       rc_structural_references = xs ! 7, rc_resolved_references = xs ! 8, rc_node_builtin_references = xs ! 9,
       rc_external_references = xs ! 10, rc_ambiguous_references = xs ! 11, rc_unresolved_references = xs ! 12,
       rc_unsupported_dynamic_references = xs ! 13, rc_configuration_errors = xs ! 14, rc_edges_truncated = t \<rparr>"

definition ic_counts :: "interface_coverage \<Rightarrow> nat list" where
  "ic_counts c =
     [icov_files c, icov_complete_files c, icov_partial_files c, icov_unsupported_files c, icov_parser_failed_files c,
      icov_truncated_files c, icov_complete_public_surfaces c, icov_partial_public_surfaces c,
      icov_unsupported_public_surfaces c, icov_truncated_public_surfaces c, wildcard_exports (icov_gaps c),
      namespace_imports (icov_gaps c), common_js_exports (icov_gaps c), dynamic_loaders (icov_gaps c),
      unsupported_patterns (icov_gaps c)]"

definition ic_make :: "nat list \<Rightarrow> nat \<Rightarrow> bool \<Rightarrow> interface_coverage" where
  "ic_make xs n t =
     \<lparr> icov_files = xs ! 0, icov_complete_files = xs ! 1, icov_partial_files = xs ! 2, icov_unsupported_files = xs ! 3,
       icov_parser_failed_files = xs ! 4, icov_truncated_files = xs ! 5, icov_complete_public_surfaces = xs ! 6,
       icov_partial_public_surfaces = xs ! 7, icov_unsupported_public_surfaces = xs ! 8,
       icov_truncated_public_surfaces = xs ! 9, icov_resolved_selectors = n, icov_selectors_truncated = t,
       icov_gaps = \<lparr> wildcard_exports = xs ! 10, namespace_imports = xs ! 11, common_js_exports = xs ! 12,
                     dynamic_loaders = xs ! 13, unsupported_patterns = xs ! 14 \<rparr> \<rparr>"

lemma length_counts [simp]: "length (rc_counts c) = 15" "length (ic_counts i) = 15"
  by (simp_all add: rc_counts_def ic_counts_def)

lemma list_15:
  assumes "length xs = 15"
  shows "xs = [xs ! 0, xs ! 1, xs ! 2, xs ! 3, xs ! 4, xs ! 5, xs ! 6, xs ! 7, xs ! 8, xs ! 9, xs ! 10, xs ! 11, xs ! 12, xs ! 13, xs ! 14]"
proof (rule nth_equalityI)
  fix i
  assume "i < length xs"
  then have "i \<in> set [0..<15]" using assms by simp
  then have "i \<in> set [0, 1, 2, 3, 4, 5, 6, 7, 8, 9, 10, 11, 12, 13, 14]" by (simp add: upt_rec numeral_eq_Suc)
  then show "xs ! i = [xs ! 0, xs ! 1, xs ! 2, xs ! 3, xs ! 4, xs ! 5, xs ! 6, xs ! 7, xs ! 8, xs ! 9, xs ! 10, xs ! 11, xs ! 12, xs ! 13, xs ! 14] ! i"
    by (elim set_ConsD [elim_format] disjE) simp_all
qed (simp add: assms)

lemma make_counts [simp]:
  "rc_make (rc_counts c) (rc_edges_truncated c) = c"
  "ic_make (ic_counts i) (icov_resolved_selectors i) (icov_selectors_truncated i) = i"
  by (simp_all add: rc_make_def rc_counts_def ic_make_def ic_counts_def)

lemma counts_make [simp]:
  "length xs = 15 \<Longrightarrow> rc_counts (rc_make xs t) = xs" "rc_edges_truncated (rc_make xs t) = t"
  "length xs = 15 \<Longrightarrow> ic_counts (ic_make xs n t) = xs" "icov_resolved_selectors (ic_make xs n t) = n"
  "icov_selectors_truncated (ic_make xs n t) = t"
  using list_15 [of xs] by (simp_all add: rc_make_def rc_counts_def ic_make_def ic_counts_def)

lemma rc_eqI:
  assumes "rc_counts a = rc_counts b" and "rc_edges_truncated a = rc_edges_truncated b"
  shows "a = b"
proof -
  have "rc_make (rc_counts a) (rc_edges_truncated a) = rc_make (rc_counts b) (rc_edges_truncated b)" unfolding assms ..
  then show ?thesis unfolding make_counts .
qed

lemma ic_eqI:
  assumes "ic_counts a = ic_counts b" and "icov_resolved_selectors a = icov_resolved_selectors b"
    and "icov_selectors_truncated a = icov_selectors_truncated b"
  shows "a = b"
proof -
  have "ic_make (ic_counts a) (icov_resolved_selectors a) (icov_selectors_truncated a) =
      ic_make (ic_counts b) (icov_resolved_selectors b) (icov_selectors_truncated b)" unfolding assms ..
  then show ?thesis unfolding make_counts .
qed

section \<open>Events\<close>

datatype event =
    CountRC nat nat
  | CountIC nat nat
  | EdgeEvent dependency_edge
  | GapEvent resolution_gap_evidence
  | SelectorEvent interface_edge_key interface_selector
  | WidthEvent interface_edge_key
  | ModuleEvent repo_path module_interface

definition bump :: "nat \<Rightarrow> nat \<Rightarrow> nat list \<Rightarrow> nat list" where
  "bump i n xs = xs[i := sat_add (xs ! i) n]"

definition rc_bump :: "nat \<Rightarrow> nat \<Rightarrow> resolution_coverage \<Rightarrow> resolution_coverage" where
  "rc_bump i n c = rc_make (bump i n (rc_counts c)) (rc_edges_truncated c)"

definition ic_bump :: "nat \<Rightarrow> nat \<Rightarrow> interface_coverage \<Rightarrow> interface_coverage" where
  "ic_bump i n c = ic_make (bump i n (ic_counts c)) (icov_resolved_selectors c) (icov_selectors_truncated c)"

fun apply_event :: "event \<Rightarrow> projection \<Rightarrow> projection" where
  "apply_event (CountRC i n) p = cover (rc_bump i n) p"
| "apply_event (CountIC i n) p = p\<lparr> pj_interface_coverage := ic_bump i n (pj_interface_coverage p) \<rparr>"
| "apply_event (EdgeEvent e) p = insert_edge e p"
| "apply_event (GapEvent g) p = record_resolution_gap g p"
| "apply_event (SelectorEvent k s) p = insert_selector k s p"
| "apply_event (WidthEvent k) p = mark_unknown_width k p"
| "apply_event (ModuleEvent path m) p =
     p\<lparr> pj_interfaces := bt_insert path
          (case bt_get (pj_interfaces p) path of None \<Rightarrow> m | Some d \<Rightarrow> merge_module_interface d m) (pj_interfaces p) \<rparr>"

abbreviation apply_events :: "event list \<Rightarrow> projection \<Rightarrow> projection" where
  "apply_events evs \<equiv> fold apply_event evs"

lemmas bump_defs = rc_bump_def ic_bump_def bump_def rc_make_def ic_make_def rc_counts_def ic_counts_def

lemma rc_bump_fields:
  "rc_bump 0 n c = c\<lparr> rc_files := sat_add (rc_files c) n \<rparr>"
  "rc_bump (Suc 0) n c = c\<lparr> rc_complete_files := sat_add (rc_complete_files c) n \<rparr>"
  "rc_bump 2 n c = c\<lparr> rc_unsupported_files := sat_add (rc_unsupported_files c) n \<rparr>"
  "rc_bump 3 n c = c\<lparr> rc_parser_failed_files := sat_add (rc_parser_failed_files c) n \<rparr>"
  "rc_bump 4 n c = c\<lparr> rc_truncated_files := sat_add (rc_truncated_files c) n \<rparr>"
  "rc_bump 5 n c = c\<lparr> rc_runtime_references := sat_add (rc_runtime_references c) n \<rparr>"
  "rc_bump 6 n c = c\<lparr> rc_type_references := sat_add (rc_type_references c) n \<rparr>"
  "rc_bump 7 n c = c\<lparr> rc_structural_references := sat_add (rc_structural_references c) n \<rparr>"
  "rc_bump 8 n c = c\<lparr> rc_resolved_references := sat_add (rc_resolved_references c) n \<rparr>"
  "rc_bump 9 n c = c\<lparr> rc_node_builtin_references := sat_add (rc_node_builtin_references c) n \<rparr>"
  "rc_bump 10 n c = c\<lparr> rc_external_references := sat_add (rc_external_references c) n \<rparr>"
  "rc_bump 11 n c = c\<lparr> rc_ambiguous_references := sat_add (rc_ambiguous_references c) n \<rparr>"
  "rc_bump 12 n c = c\<lparr> rc_unresolved_references := sat_add (rc_unresolved_references c) n \<rparr>"
  "rc_bump 13 n c = c\<lparr> rc_unsupported_dynamic_references := sat_add (rc_unsupported_dynamic_references c) n \<rparr>"
  by (cases c; simp add: bump_defs)+

section \<open>The events of a file\<close>

fun extraction_events :: "dependency_extraction_status \<Rightarrow> event list" where
  "extraction_events DComplete = [CountRC 1 1]"
| "extraction_events DUnsupported = [CountRC 2 1]"
| "extraction_events DParserFailed = [CountRC 3 1]"
| "extraction_events DTruncated = [CountRC 4 1]"

fun interface_extraction_events :: "interface_extraction_status \<Rightarrow> event list" where
  "interface_extraction_events IComplete = [CountIC 1 1]"
| "interface_extraction_events IPartial = [CountIC 2 1]"
| "interface_extraction_events IUnsupported = [CountIC 3 1]"
| "interface_extraction_events IParserFailed = [CountIC 4 1]"
| "interface_extraction_events ITruncated = [CountIC 5 1]"

fun surface_events :: "interface_surface_status \<Rightarrow> event list" where
  "surface_events SComplete = [CountIC 6 1]"
| "surface_events SPartial = [CountIC 7 1]"
| "surface_events SUnsupported = [CountIC 8 1]"
| "surface_events STruncated = [CountIC 9 1]"

definition gap_count_events :: "interface_gap_counts \<Rightarrow> event list" where
  "gap_count_events g =
     [CountIC 10 (wildcard_exports g), CountIC 11 (namespace_imports g), CountIC 12 (common_js_exports g),
      CountIC 13 (dynamic_loaders g), CountIC 14 (unsupported_patterns g)]"

definition interface_events :: "source_file \<Rightarrow> file_facts \<Rightarrow> repo_path \<Rightarrow> event list" where
  "interface_events file facts logical =
     CountIC 0 1 # interface_extraction_events (if_status (ff_interfaces facts)) @
     gap_count_events (if_gaps (ff_interfaces facts)) @
     surface_events (if_public_surface_status (ff_interfaces facts)) @
     [ModuleEvent logical (module_interface_of file (ff_interfaces facts))]"

definition import_events :: "repo_path \<Rightarrow> repo_path \<Rightarrow> interface_import_fact \<Rightarrow> event list" where
  "import_events from target ifact =
     (let key = \<lparr> iedk_from = from, iedk_to = target, iedk_namespace = imp_namespace ifact \<rparr>
      in case sel_kind (imp_selector ifact) of
           Named \<Rightarrow> [SelectorEvent key (imp_selector ifact)]
         | Default \<Rightarrow> [SelectorEvent key (imp_selector ifact)]
         | Namespace \<Rightarrow> [WidthEvent key]
         | SideEffect \<Rightarrow> [])"

definition interface_edge_events :: "repo_path \<Rightarrow> repo_path \<Rightarrow> dependency_reference \<Rightarrow> interface_facts \<Rightarrow> event list" where
  "interface_edge_events from target reference facts =
     (case node_reference (ref_kind reference) of
        None \<Rightarrow> []
      | Some is_node \<Rightarrow>
          concat (map (import_events from target)
            (filter (\<lambda>ifact. imp_specifier ifact = ref_specifier reference \<and> imp_level ifact = ref_level reference \<and>
                             (is_node \<or> imp_namespace ifact = Runtime)) (if_imports facts))))"

abbreviation gap_event :: "repo_path \<Rightarrow> dependency_reference \<Rightarrow> resolution_gap_kind \<Rightarrow> event" where
  "gap_event path reference kind \<equiv> GapEvent \<lparr> rg_path = path, rg_specifier = ref_specifier reference, rg_kind = kind \<rparr>"

definition resolution_events ::
    "repo_path \<Rightarrow> edge_kind \<Rightarrow> dependency_reference \<Rightarrow> interface_facts option \<Rightarrow> resolution \<Rightarrow> event list" where
  "resolution_events from kind reference interfaces r =
     (case r of
        Resolved to \<Rightarrow>
          CountRC 8 1 # EdgeEvent \<lparr> edge_from = from, edge_to = to, edge_kind = kind \<rparr> #
          (case interfaces of None \<Rightarrow> [] | Some facts \<Rightarrow> interface_edge_events from to reference facts)
      | SameFile \<Rightarrow> [CountRC 8 1]
      | NodeBuiltin \<Rightarrow> [CountRC 9 1, CountRC 10 1, gap_event from reference GapNodeBuiltin]
      | External \<Rightarrow> [CountRC 10 1, gap_event from reference GapExternal]
      | Ambiguous \<Rightarrow> [CountRC 11 1, gap_event from reference GapAmbiguous]
      | Unresolved \<Rightarrow> [CountRC 12 1, gap_event from reference GapUnresolved])"

fun edge_kind_count :: "edge_kind \<Rightarrow> event" where
  "edge_kind_count EdgeRuntime = CountRC 5 1"
| "edge_kind_count EdgeTypeOnly = CountRC 6 1"
| "edge_kind_count EdgeStructural = CountRC 7 1"

definition reference_events ::
    "resolution_index \<Rightarrow> source_file \<Rightarrow> interface_facts option \<Rightarrow> dependency_reference \<Rightarrow> event list" where
  "reference_events index file interfaces reference =
     (case reference_class_of (ref_kind reference) of
        ClassEdge kind \<Rightarrow>
          edge_kind_count kind #
          resolution_events (logical_path (rx_go index) file) kind reference interfaces (resolve_edge_reference index file reference)
      | ClassUnsupported \<Rightarrow> [CountRC 13 1, gap_event (sf_path file) reference GapUnsupportedDynamic]
      | ClassUnresolved \<Rightarrow> [CountRC 12 1, gap_event (sf_path file) reference GapUnresolved])"

definition file_events :: "resolution_context \<Rightarrow> source_file \<Rightarrow> event list" where
  "file_events c file =
     (case bt_get (cx_file_facts c) (fact_key (cx_crates c) file (cx_parser_options c)) of
        None \<Rightarrow> [CountRC 3 1]
      | Some facts \<Rightarrow>
          (let logical = logical_path (rx_go (cx_index c)) file;
               projected = (logical \<in> set (cx_interface_paths c))
           in extraction_events (dep_status (ff_dependencies facts)) @
              (if projected then interface_events file facts logical else []) @
              concat (map (reference_events (cx_index c) file (if projected then Some (ff_interfaces facts) else None))
                (dep_references (ff_dependencies facts)))))"

subsection \<open>A file is observed by its events\<close>

lemma fold_concat_map: "fold f (concat (map g xs)) = fold (\<lambda>x. fold f (g x)) xs"
  by (induction xs) (simp_all add: fun_eq_iff)

lemma extraction_events: "apply_events (extraction_events s) p = cover (observe_extraction_status s) p"
  by (cases s) (simp_all add: observe_extraction_status_def rc_bump_fields)

lemma import_events: "apply_events (import_events from target ifact) = record_import_fact from target ifact"
  by (simp add: import_events_def record_import_fact_def Let_def fun_eq_iff split: interface_selector_kind.split)

lemma interface_edge_events:
  "apply_events (interface_edge_events from target reference facts) p = record_interface_edge from target reference facts p"
  by (simp add: interface_edge_events_def record_interface_edge_def fold_concat_map import_events split: option.split)

lemma resolution_events:
  "apply_events (resolution_events from kind reference interfaces r) p = record_resolution from kind reference interfaces r p"
  by (simp add: resolution_events_def record_resolution_def record_reference_gap_def interface_edge_events rc_bump_fields Let_def
      split: resolution.split option.split)

lemma reference_events:
  "apply_events (reference_events index file interfaces reference) = resolve_reference index file interfaces reference"
  by (simp add: reference_events_def resolve_reference_def observe_reference_class_def resolution_events record_reference_gap_def
      rc_bump_fields fun_eq_iff split: reference_class.split edge_kind.split)

lemma interface_events:
  "apply_events (interface_events file facts logical) p = observe_interface_facts file facts logical True p"
  by (simp add: interface_events_def observe_interface_facts_def gap_count_events_def add_interface_gaps_def
      update_extraction_coverage_def update_surface_coverage_def bump_defs Let_def
      split: interface_extraction_status.split interface_surface_status.split)

lemma file_events: "apply_events (file_events c file) p = observe_file c file p"
proof (cases "bt_get (cx_file_facts c) (fact_key (cx_crates c) file (cx_parser_options c))")
  case None
  then show ?thesis by (simp add: file_events_def observe_file_def rc_bump_fields)
next
  case (Some facts)
  then show ?thesis
    by (simp add: file_events_def observe_file_def Let_def extraction_events interface_events fold_concat_map reference_events
        observe_interface_facts_def)
qed

section \<open>What a list of events adds up to\<close>

definition edges_in :: "event list \<Rightarrow> dependency_edge set" where
  "edges_in evs = {e. EdgeEvent e \<in> set evs}"

definition gaps_in :: "event list \<Rightarrow> resolution_gap_evidence set" where
  "gaps_in evs = {g. GapEvent g \<in> set evs}"

definition selectors_in :: "event list \<Rightarrow> (interface_edge_key \<times> interface_selector) set" where
  "selectors_in evs = {(k, s). SelectorEvent k s \<in> set evs}"

definition widths_in :: "event list \<Rightarrow> interface_edge_key set" where
  "widths_in evs = {k. WidthEvent k \<in> set evs}"

definition modules_in :: "event list \<Rightarrow> (repo_path \<times> module_interface) set" where
  "modules_in evs = {(p, m). ModuleEvent p m \<in> set evs}"

fun rc_amount :: "nat \<Rightarrow> event \<Rightarrow> nat" where
  "rc_amount i (CountRC j n) = (if i = j then n else 0)"
| "rc_amount i _ = 0"

fun ic_amount :: "nat \<Rightarrow> event \<Rightarrow> nat" where
  "ic_amount i (CountIC j n) = (if i = j then n else 0)"
| "ic_amount i _ = 0"

definition rc_sum :: "nat \<Rightarrow> event list \<Rightarrow> nat" where
  "rc_sum i evs = sum_list (map (rc_amount i) evs)"

definition ic_sum :: "nat \<Rightarrow> event list \<Rightarrow> nat" where
  "ic_sum i evs = sum_list (map (ic_amount i) evs)"

named_theorems event_sets \<open>the parts of a list of events\<close>

lemma edges_in_simps [simp, event_sets]:
  "edges_in [] = {}" "edges_in (evs @ evs') = edges_in evs \<union> edges_in evs'"
  "edges_in (e # evs) = (case e of EdgeEvent x \<Rightarrow> insert x (edges_in evs) | _ \<Rightarrow> edges_in evs)"
  by (auto simp: edges_in_def split: event.split)

lemma gaps_in_simps [simp, event_sets]:
  "gaps_in [] = {}" "gaps_in (evs @ evs') = gaps_in evs \<union> gaps_in evs'"
  "gaps_in (e # evs) = (case e of GapEvent x \<Rightarrow> insert x (gaps_in evs) | _ \<Rightarrow> gaps_in evs)"
  by (auto simp: gaps_in_def split: event.split)

lemma selectors_in_simps [simp, event_sets]:
  "selectors_in [] = {}" "selectors_in (evs @ evs') = selectors_in evs \<union> selectors_in evs'"
  "selectors_in (e # evs) = (case e of SelectorEvent k s \<Rightarrow> insert (k, s) (selectors_in evs) | _ \<Rightarrow> selectors_in evs)"
  by (auto simp: selectors_in_def split: event.split)

lemma widths_in_simps [simp, event_sets]:
  "widths_in [] = {}" "widths_in (evs @ evs') = widths_in evs \<union> widths_in evs'"
  "widths_in (e # evs) = (case e of WidthEvent k \<Rightarrow> insert k (widths_in evs) | _ \<Rightarrow> widths_in evs)"
  by (auto simp: widths_in_def split: event.split)

lemma modules_in_simps [simp, event_sets]:
  "modules_in [] = {}" "modules_in (evs @ evs') = modules_in evs \<union> modules_in evs'"
  "modules_in (e # evs) = (case e of ModuleEvent p m \<Rightarrow> insert (p, m) (modules_in evs) | _ \<Rightarrow> modules_in evs)"
  by (auto simp: modules_in_def split: event.split)

lemma finite_in [simp]: "finite (edges_in evs)" "finite (gaps_in evs)" "finite (selectors_in evs)"
  by (induction evs) (auto split: event.split)

lemma sums_append [simp]:
  "rc_sum i (evs @ evs') = rc_sum i evs + rc_sum i evs'" "ic_sum i (evs @ evs') = ic_sum i evs + ic_sum i evs'"
  "rc_sum i [] = 0" "ic_sum i [] = 0" "rc_sum i (e # evs) = rc_amount i e + rc_sum i evs" "ic_sum i (e # evs) = ic_amount i e + ic_sum i evs"
  by (simp_all add: rc_sum_def ic_sum_def)

subsection \<open>Gaps\<close>

text \<open>The bounded set of gaps: the least ones, and whether any was dropped.\<close>

definition least_gaps :: "resolution_gap_evidence set \<Rightarrow> resolution_gap_evidence list" where
  "least_gaps G = take MAX_OBSERVATION_PATHS (sorted_list_of_set G)"

definition gaps_hold :: "projection \<Rightarrow> resolution_gap_evidence set \<Rightarrow> bool \<Rightarrow> bool" where
  "gaps_hold p G t \<longleftrightarrow> finite G \<and> pj_resolution_gaps p = least_gaps G \<and>
     pj_resolution_gaps_truncated p = (t \<or> MAX_OBSERVATION_PATHS < card G)"

lemma bs_insert_insort: "bs_wf s \<Longrightarrow> k \<notin> set s \<Longrightarrow> bs_insert k s = insort k s"
  by (induction s) auto

lemma bs_wf_sorted_list: "finite A \<Longrightarrow> bs_wf (sorted_list_of_set A)"
  by (simp add: bs_wf_def strict_sorted_iff)

lemma bs_wf_take: "bs_wf s \<Longrightarrow> bs_wf (take n s)"
  by (simp add: bs_wf_def sorted_wrt_take)

lemma bs_wf_least: "bs_wf (least_gaps G)"
  by (cases "finite G") (simp_all add: least_gaps_def bs_wf_sorted_list bs_wf_take)

lemma least_gaps_small: "finite G \<Longrightarrow> card G \<le> MAX_OBSERVATION_PATHS \<Longrightarrow> least_gaps G = sorted_list_of_set G"
  by (simp add: least_gaps_def)

lemma take_insort_above:
  fixes ys :: "'a::linorder list"
  assumes "sorted ys" and "n \<le> length (filter (\<lambda>y. y < x) ys)"
  shows "take n (insort x ys) = take n ys"
  using assms
proof (induction ys arbitrary: n)
  case (Cons y ys)
  show ?case
  proof (cases n)
    case (Suc k)
    have "y < x"
    proof (rule ccontr)
      assume "\<not> y < x"
      then have "filter (\<lambda>y. y < x) (y # ys) = []" using Cons.prems(1) by (auto simp: filter_empty_conv)
      with Cons.prems(2) Suc show False by simp
    qed
    with Cons Suc show ?thesis by simp
  qed simp
qed simp

lemma least_gaps_above:
  assumes "finite G" and "g \<in> G" and "g \<notin> set (least_gaps G)"
  shows "\<forall>y\<in>set (least_gaps G). y < g" and "MAX_OBSERVATION_PATHS < card G" and "length (least_gaps G) = MAX_OBSERVATION_PATHS"
proof -
  let ?s = "sorted_list_of_set G"
  have s: "?s = least_gaps G @ drop MAX_OBSERVATION_PATHS ?s" by (simp add: least_gaps_def)
  then have g: "g \<in> set (drop MAX_OBSERVATION_PATHS ?s)" using assms by (metis Un_iff set_append set_sorted_list_of_set)
  then show "MAX_OBSERVATION_PATHS < card G" using assms(1)
    by (metis drop_all empty_iff length_sorted_list_of_set list.set(1) not_le_imp_less)
  then show "length (least_gaps G) = MAX_OBSERVATION_PATHS" by (simp add: least_gaps_def)
  have "sorted_wrt (<) (least_gaps G @ drop MAX_OBSERVATION_PATHS ?s)" using s bs_wf_sorted_list [OF assms(1)] by (simp add: bs_wf_def)
  then show "\<forall>y\<in>set (least_gaps G). y < g" using g by (auto simp: sorted_wrt_append)
qed

lemma gaps_hold_step:
  assumes "gaps_hold p G t"
  shows "gaps_hold (record_resolution_gap g p) (insert g G) t"
proof (cases "g \<in> set (pj_resolution_gaps p)")
  case True
  then have "g \<in> G" using assms by (auto simp: gaps_hold_def least_gaps_def dest: in_set_takeD)
  with True assms show ?thesis by (simp add: record_resolution_gap_def insert_absorb)
next
  case new: False
  have G: "finite G" "pj_resolution_gaps p = least_gaps G" using assms by (simp_all add: gaps_hold_def)
  show ?thesis
  proof (cases "g \<in> G")
    case True
    note a = least_gaps_above [OF G(1) True, folded G(2), OF new]
    then have "bs_insert g (pj_resolution_gaps p) = pj_resolution_gaps p @ [g]"
      using bs_insert_insort [of "pj_resolution_gaps p" g] bs_wf_least new insort_key_append_last [of "pj_resolution_gaps p" "\<lambda>x. x" g] G(2) by auto
    with True new a assms show ?thesis by (simp add: record_resolution_gap_def gaps_hold_def insert_absorb)
  next
    case False
    let ?s = "sorted_list_of_set G" and ?N = "MAX_OBSERVATION_PATHS"
    have ins: "bs_insert g (pj_resolution_gaps p) = insort g (take ?N ?s)"
      using bs_insert_insort [of "pj_resolution_gaps p" g] bs_wf_least new G(2) by (simp add: least_gaps_def)
    have least: "least_gaps (insert g G) = take ?N (insort g (take ?N ?s))"
      using False G(1) by (simp add: least_gaps_def take_insort_key [where f = "\<lambda>x. x", simplified, symmetric])
    have "length (insort g (take ?N ?s)) = Suc (min (card G) ?N)" using G(1) by simp
    then have "butlast (insort g (take ?N ?s)) = take ?N (insort g (take ?N ?s))" if "?N \<le> card G"
      using that by (simp add: butlast_conv_take)
    with least ins new False G assms show ?thesis
      by (auto simp: record_resolution_gap_def gaps_hold_def Let_def)
  qed
qed

lemma gaps_hold_fold: "gaps_hold p G t \<Longrightarrow> gaps_hold (fold record_resolution_gap gs p) (set gs \<union> G) t"
proof (induction gs arbitrary: p G)
  case (Cons g gs)
  from Cons.IH [OF gaps_hold_step [OF Cons.prems, of g]] show ?case by simp
qed simp

lemma least_gaps_subset:
  assumes "finite A" and "B \<subseteq> A" and "\<forall>x\<in>A - B. MAX_OBSERVATION_PATHS \<le> card {y \<in> B. y < x}"
  shows "least_gaps A = least_gaps B"
proof -
  have "least_gaps (B \<union> D) = least_gaps B" if "finite D" "D \<subseteq> A - B" for D
    using that
  proof (induction D rule: finite_induct)
    case (insert x D)
    let ?s = "sorted_list_of_set (B \<union> D)"
    have fin: "finite B" "finite (B \<union> D)" using assms(1,2) insert by (auto intro: finite_subset)
    have new: "x \<notin> B \<union> D" using insert by auto
    have "{y \<in> B. y < x} \<subseteq> set (filter (\<lambda>y. y < x) ?s)" using fin by auto
    then have "card {y \<in> B. y < x} \<le> card (set (filter (\<lambda>y. y < x) ?s))" by (intro card_mono) auto
    also have "\<dots> = length (filter (\<lambda>y. y < x) ?s)" by (intro distinct_card) simp
    finally have "take MAX_OBSERVATION_PATHS (insort x ?s) = take MAX_OBSERVATION_PATHS ?s"
      using take_insort_above [of ?s MAX_OBSERVATION_PATHS x] assms(3) insert.prems by (auto intro: order_trans)
    with insert fin new show ?case by (simp add: least_gaps_def)
  qed simp
  from this [of "A - B"] assms(1,2) show ?thesis by (simp add: Un_absorb1)
qed

lemma least_gaps_union:
  assumes "finite G" and "finite H"
  shows "least_gaps (set (least_gaps H) \<union> G) = least_gaps (H \<union> G)"
proof (rule least_gaps_subset [symmetric])
  show "set (least_gaps H) \<union> G \<subseteq> H \<union> G" using assms(2) by (auto simp: least_gaps_def dest: in_set_takeD)
  show "\<forall>x\<in>(H \<union> G) - (set (least_gaps H) \<union> G). MAX_OBSERVATION_PATHS \<le> card {y \<in> set (least_gaps H) \<union> G. y < x}"
  proof
    fix x
    assume "x \<in> (H \<union> G) - (set (least_gaps H) \<union> G)"
    then have x: "x \<in> H" "x \<notin> set (least_gaps H)" by auto
    note a = least_gaps_above [OF assms(2) x]
    have "MAX_OBSERVATION_PATHS = card (set (least_gaps H))" using a(3) bs_wf_least [of H] by (simp add: bs_wf_distinct distinct_card)
    also have "\<dots> \<le> card {y \<in> set (least_gaps H) \<union> G. y < x}" using a(1) assms by (intro card_mono) auto
    finally show "MAX_OBSERVATION_PATHS \<le> card {y \<in> set (least_gaps H) \<union> G. y < x}" .
  qed
qed (use assms in simp)

lemma gaps_hold_merge:
  assumes "gaps_hold p (set (least_gaps H) \<union> G) (t \<or> MAX_OBSERVATION_PATHS < card H)" and "finite G" and "finite H"
  shows "gaps_hold p (H \<union> G) t"
proof -
  have "(MAX_OBSERVATION_PATHS < card H \<or> MAX_OBSERVATION_PATHS < card (set (least_gaps H) \<union> G)) = (MAX_OBSERVATION_PATHS < card (H \<union> G))"
  proof (cases "MAX_OBSERVATION_PATHS < card H")
    case True
    then have "MAX_OBSERVATION_PATHS < card (H \<union> G)" using assms(2,3) card_mono [of "H \<union> G" H] by simp
    with True show ?thesis by simp
  next
    case False
    then show ?thesis using assms(3) by (simp add: least_gaps_small)
  qed
  with assms show ?thesis by (auto simp: gaps_hold_def least_gaps_union)
qed

section \<open>What a projection holds\<close>

definition truncated :: "projection \<Rightarrow> bool" where
  "truncated p \<longleftrightarrow> rc_edges_truncated (pj_coverage p) \<or> icov_selectors_truncated (pj_interface_coverage p)"

definition edges_hold :: "projection \<Rightarrow> event list \<Rightarrow> bool" where
  "edges_hold p evs \<longleftrightarrow> bs_wf (pj_edges p) \<and> set (pj_edges p) = edges_in evs \<and> card (edges_in evs) \<le> MAX_GRAPH_EDGES"

definition modules_hold :: "projection \<Rightarrow> event list \<Rightarrow> bool" where
  "modules_hold p evs \<longleftrightarrow> bt_wf (pj_interfaces p) \<and>
     (\<forall>path m. bt_get (pj_interfaces p) path = Some m \<longleftrightarrow> (path, m) \<in> modules_in evs)"

definition edge_holds :: "interface_edge_key \<Rightarrow> event list \<Rightarrow> interface_edge option \<Rightarrow> bool" where
  "edge_holds k evs x \<longleftrightarrow>
     (case x of
        None \<Rightarrow> k \<notin> widths_in evs \<and> {s. (k, s) \<in> selectors_in evs} = {}
      | Some e \<Rightarrow> (k \<in> widths_in evs \<or> {s. (k, s) \<in> selectors_in evs} \<noteq> {}) \<and> bs_wf (ie_selectors e) \<and>
          set (ie_selectors e) = {s. (k, s) \<in> selectors_in evs} \<and> ie_unknown_width e = (k \<in> widths_in evs))"

definition selectors_hold :: "projection \<Rightarrow> event list \<Rightarrow> bool" where
  "selectors_hold p evs \<longleftrightarrow> bt_wf (pj_interface_edges p) \<and>
     (\<forall>k. edge_holds k evs (bt_get (pj_interface_edges p) k)) \<and>
     icov_resolved_selectors (pj_interface_coverage p) = card (selectors_in evs) \<and>
     card (selectors_in evs) \<le> MAX_INTERFACE_SELECTORS"

definition holds_events :: "projection \<Rightarrow> event list \<Rightarrow> bool" where
  "holds_events p evs \<longleftrightarrow> edges_hold p evs \<and> modules_hold p evs \<and> selectors_hold p evs \<and> \<not> truncated p"

text \<open>Whether an event may follow: a module is only observed once.\<close>

definition fresh_event :: "event \<Rightarrow> event list \<Rightarrow> bool" where
  "fresh_event e evs \<longleftrightarrow> (case e of ModuleEvent path m \<Rightarrow> path \<notin> fst ` modules_in evs | _ \<Rightarrow> True)"

definition within_bounds :: "event list \<Rightarrow> bool" where
  "within_bounds evs \<longleftrightarrow> card (edges_in evs) \<le> MAX_GRAPH_EDGES \<and> card (selectors_in evs) \<le> MAX_INTERFACE_SELECTORS"

lemma counters_keep [simp]:
  "rc_edges_truncated (rc_bump i n c) = rc_edges_truncated c"
  "icov_selectors_truncated (ic_bump i n x) = icov_selectors_truncated x"
  "icov_resolved_selectors (ic_bump i n x) = icov_resolved_selectors x"
  by (simp_all add: rc_bump_def ic_bump_def)

lemma gap_keeps [simp]:
  "pj_edges (record_resolution_gap g p) = pj_edges p" "pj_interfaces (record_resolution_gap g p) = pj_interfaces p"
  "pj_interface_edges (record_resolution_gap g p) = pj_interface_edges p" "pj_coverage (record_resolution_gap g p) = pj_coverage p"
  "pj_interface_coverage (record_resolution_gap g p) = pj_interface_coverage p" "pj_nodes (record_resolution_gap g p) = pj_nodes p"
  by (simp_all add: record_resolution_gap_def Let_def)

lemma edge_keeps [simp]:
  "pj_interfaces (insert_edge e p) = pj_interfaces p" "pj_interface_edges (insert_edge e p) = pj_interface_edges p"
  "pj_interface_coverage (insert_edge e p) = pj_interface_coverage p" "pj_nodes (insert_edge e p) = pj_nodes p"
  "pj_resolution_gaps (insert_edge e p) = pj_resolution_gaps p"
  "pj_resolution_gaps_truncated (insert_edge e p) = pj_resolution_gaps_truncated p"
  "rc_counts (pj_coverage (insert_edge e p)) = rc_counts (pj_coverage p)"
  by (simp_all add: insert_edge_def rc_counts_def)

lemma selector_keeps [simp]:
  "pj_interfaces (insert_selector k s p) = pj_interfaces p" "pj_edges (insert_selector k s p) = pj_edges p"
  "pj_coverage (insert_selector k s p) = pj_coverage p" "pj_nodes (insert_selector k s p) = pj_nodes p"
  "pj_resolution_gaps (insert_selector k s p) = pj_resolution_gaps p"
  "pj_resolution_gaps_truncated (insert_selector k s p) = pj_resolution_gaps_truncated p"
  "ic_counts (pj_interface_coverage (insert_selector k s p)) = ic_counts (pj_interface_coverage p)"
  by (simp_all add: insert_selector_def Let_def ic_counts_def)

lemma width_keeps [simp]:
  "pj_interfaces (mark_unknown_width k p) = pj_interfaces p" "pj_edges (mark_unknown_width k p) = pj_edges p"
  "pj_coverage (mark_unknown_width k p) = pj_coverage p" "pj_nodes (mark_unknown_width k p) = pj_nodes p"
  "pj_resolution_gaps (mark_unknown_width k p) = pj_resolution_gaps p"
  "pj_resolution_gaps_truncated (mark_unknown_width k p) = pj_resolution_gaps_truncated p"
  "pj_interface_coverage (mark_unknown_width k p) = pj_interface_coverage p"
  by (simp_all add: mark_unknown_width_def)

lemma truncated_keeps: "truncated p \<Longrightarrow> truncated (apply_event e p)"
  by (cases e) (auto simp: truncated_def insert_edge_def insert_selector_def Let_def)

lemma truncated_keeps_all: "truncated p \<Longrightarrow> truncated (apply_events evs p)"
  by (induction evs arbitrary: p) (simp_all add: truncated_keeps)

lemma edges_hold_step:
  assumes "edges_hold p evs" and "\<not> truncated (apply_event e p)"
  shows "edges_hold (apply_event e p) (evs @ [e])"
proof (cases e)
  case (EdgeEvent x)
  have len: "length (pj_edges p) = card (edges_in evs)"
    using assms(1) by (metis bs_wf_distinct distinct_card edges_hold_def)
  have ok: "x \<in> set (pj_edges p) \<or> length (pj_edges p) < MAX_GRAPH_EDGES"
    using assms(2) EdgeEvent by (auto simp: truncated_def insert_edge_def split: if_splits)
  then have "insert_edge x p = p\<lparr> pj_edges := bs_insert x (pj_edges p) \<rparr>" by (auto simp: insert_edge_def)
  moreover have "card (insert x (edges_in evs)) \<le> MAX_GRAPH_EDGES"
    using ok len assms(1) by (auto simp: edges_hold_def card_insert_if)
  ultimately show ?thesis using assms(1) EdgeEvent by (simp add: edges_hold_def)
qed (use assms(1) in \<open>simp_all add: edges_hold_def\<close>)

lemma modules_hold_step:
  assumes "modules_hold p evs" and "fresh_event e evs"
  shows "modules_hold (apply_event e p) (evs @ [e])"
proof (cases e)
  case (ModuleEvent path m)
  then have "path \<notin> fst ` modules_in evs" using assms(2) by (simp add: fresh_event_def)
  moreover from this have "bt_get (pj_interfaces p) path = None" using assms(1)
    by (cases "bt_get (pj_interfaces p) path") (force simp: modules_hold_def)+
  ultimately show ?thesis using assms(1) ModuleEvent by (force simp: modules_hold_def)
qed (use assms(1) in \<open>simp_all add: modules_hold_def\<close>)

lemma insert_selector_get:
  fixes p k s
  assumes "bt_wf (pj_interface_edges p)"
  defines "e \<equiv> case bt_get (pj_interface_edges p) k of None \<Rightarrow> default_interface_edge | Some e \<Rightarrow> e"
  assumes "s \<in> set (ie_selectors e) \<or> icov_resolved_selectors (pj_interface_coverage p) < MAX_INTERFACE_SELECTORS"
  shows "bt_wf (pj_interface_edges (insert_selector k s p))"
    and "bt_get (pj_interface_edges (insert_selector k s p)) =
      (bt_get (pj_interface_edges p))(k \<mapsto> (if s \<in> set (ie_selectors e) then e else e\<lparr> ie_selectors := bs_insert s (ie_selectors e) \<rparr>))"
    and "icov_resolved_selectors (pj_interface_coverage (insert_selector k s p)) =
      (if s \<in> set (ie_selectors e) then icov_resolved_selectors (pj_interface_coverage p)
       else inc (icov_resolved_selectors (pj_interface_coverage p)))"
  using assms by (auto simp: insert_selector_def Let_def)

lemma selectors_hold_step:
  assumes "selectors_hold p evs" and "\<not> truncated (apply_event e p)"
  shows "selectors_hold (apply_event e p) (evs @ [e])"
proof (cases e)
  case (SelectorEvent k s)
  let ?e = "case bt_get (pj_interface_edges p) k of None \<Rightarrow> default_interface_edge | Some e \<Rightarrow> e"
  have wf: "bt_wf (pj_interface_edges p)" and holds: "\<And>k. edge_holds k evs (bt_get (pj_interface_edges p) k)"
    and n: "icov_resolved_selectors (pj_interface_coverage p) = card (selectors_in evs)" "card (selectors_in evs) \<le> MAX_INTERFACE_SELECTORS"
    using assms(1) by (simp_all add: selectors_hold_def)
  have e: "set (ie_selectors ?e) = {s. (k, s) \<in> selectors_in evs}" "bs_wf (ie_selectors ?e)" "ie_unknown_width ?e = (k \<in> widths_in evs)"
    using holds [of k] by (auto simp: edge_holds_def default_interface_edge_def split: option.splits)
  have room: "s \<in> set (ie_selectors ?e) \<or> icov_resolved_selectors (pj_interface_coverage p) < MAX_INTERFACE_SELECTORS"
    using assms(2) SelectorEvent by (auto simp: truncated_def insert_selector_def Let_def split: if_splits)
  note g = insert_selector_get [OF wf room]
  have "edge_holds k' (evs @ [e]) (bt_get (pj_interface_edges (insert_selector k s p)) k')" for k'
  proof (cases "k' = k")
    case True
    then show ?thesis unfolding g(2) using e SelectorEvent by (auto simp: edge_holds_def)
  next
    case False
    then have "{s'. (k', s') = (k, s) \<or> (k', s') \<in> selectors_in evs} = {s'. (k', s') \<in> selectors_in evs}" by auto
    then show ?thesis unfolding g(2) using holds [of k'] False SelectorEvent by (simp add: edge_holds_def cong: option.case_cong)
  qed
  moreover have "icov_resolved_selectors (pj_interface_coverage (insert_selector k s p)) = card (insert (k, s) (selectors_in evs))
      \<and> card (insert (k, s) (selectors_in evs)) \<le> MAX_INTERFACE_SELECTORS"
    unfolding g(3) using e(1) n room by (auto simp: card_insert_if insert_absorb sat_add_def MAX_INTERFACE_SELECTORS_def usize_max_def)
  ultimately show ?thesis using g(1) SelectorEvent by (simp add: selectors_hold_def)
next
  case (WidthEvent k)
  have "edge_holds k' (evs @ [e]) (bt_get (pj_interface_edges (mark_unknown_width k p)) k')" for k'
    using assms(1) WidthEvent
    by (cases "k' = k"; cases "bt_get (pj_interface_edges p) k'")
      (auto simp: selectors_hold_def edge_holds_def mark_unknown_width_def default_interface_edge_def split: option.splits dest!: spec [of _ k'])
  then show ?thesis using assms(1) WidthEvent by (simp add: selectors_hold_def) (simp add: mark_unknown_width_def)
qed (use assms(1) in \<open>simp_all add: selectors_hold_def edge_holds_def cong: option.case_cong\<close>)

lemma holds_step:
  assumes "holds_events p evs" and "fresh_event e evs" and "\<not> truncated (apply_event e p)"
  shows "holds_events (apply_event e p) (evs @ [e])"
  using assms edges_hold_step modules_hold_step selectors_hold_step by (simp add: holds_events_def)

lemma room_step:
  assumes "holds_events p evs" and "within_bounds (evs @ [e])"
  shows "\<not> truncated (apply_event e p)"
proof (cases e)
  case (EdgeEvent x)
  have "length (pj_edges p) = card (edges_in evs)"
    using assms(1) by (metis bs_wf_distinct distinct_card edges_hold_def holds_events_def)
  then show ?thesis using assms EdgeEvent
    by (auto simp: holds_events_def edges_hold_def within_bounds_def truncated_def insert_edge_def card_insert_if)
next
  case (SelectorEvent k s)
  have "s \<in> set (ie_selectors (case bt_get (pj_interface_edges p) k of None \<Rightarrow> default_interface_edge | Some e \<Rightarrow> e)) \<longleftrightarrow> (k, s) \<in> selectors_in evs"
    using assms(1) by (auto simp: holds_events_def selectors_hold_def edge_holds_def default_interface_edge_def
        split: option.splits dest!: spec [of _ k])
  then show ?thesis using assms SelectorEvent
    by (auto simp: holds_events_def selectors_hold_def within_bounds_def truncated_def insert_selector_def Let_def card_insert_if split: if_splits)
qed (use assms in \<open>simp_all add: holds_events_def truncated_def\<close>)

subsection \<open>Lists of events\<close>

definition module_paths :: "event list \<Rightarrow> repo_path list" where
  "module_paths evs = concat (map (\<lambda>e. case e of ModuleEvent path _ \<Rightarrow> [path] | _ \<Rightarrow> []) evs)"

lemma module_paths_simps [simp]:
  "module_paths [] = []" "module_paths (evs @ evs') = module_paths evs @ module_paths evs'"
  "module_paths (e # evs) = (case e of ModuleEvent path m \<Rightarrow> path # module_paths evs | _ \<Rightarrow> module_paths evs)"
  by (simp_all add: module_paths_def split: event.split)

lemma set_module_paths: "set (module_paths evs) = fst ` modules_in evs"
  by (induction evs) (auto split: event.split)

lemma within_bounds_mono:
  assumes "within_bounds evs'" and "edges_in evs \<subseteq> edges_in evs'" and "selectors_in evs \<subseteq> selectors_in evs'"
  shows "within_bounds evs"
  using assms card_mono [OF finite_in(1) assms(2)] card_mono [OF finite_in(3) assms(3)] by (simp add: within_bounds_def)

lemma holds_fold:
  assumes "holds_events p evs" and "distinct (module_paths (evs @ evs'))" and "\<not> truncated (apply_events evs' p)"
  shows "holds_events (apply_events evs' p) (evs @ evs')"
  using assms
proof (induction evs' arbitrary: p evs)
  case (Cons e evs')
  have "\<not> truncated (apply_event e p)" using Cons.prems(3) truncated_keeps_all by auto
  moreover have "fresh_event e evs"
    using Cons.prems(2) by (auto simp: fresh_event_def set_module_paths [symmetric] split: event.splits)
  ultimately have "holds_events (apply_event e p) (evs @ [e])" using holds_step Cons.prems(1) by blast
  from Cons.IH [OF this] Cons.prems(2,3) show ?case by simp
qed simp

lemma room_fold:
  assumes "holds_events p evs" and "distinct (module_paths (evs @ evs'))" and "within_bounds (evs @ evs')"
  shows "\<not> truncated (apply_events evs' p)"
  using assms
proof (induction evs' arbitrary: p evs)
  case (Cons e evs')
  have "within_bounds (evs @ [e])"
    by (rule within_bounds_mono [OF Cons.prems(3)]) (auto split: event.splits)
  note room = room_step [OF Cons.prems(1) this]
  have "fresh_event e evs"
    using Cons.prems(2) by (auto simp: fresh_event_def set_module_paths [symmetric] split: event.splits)
  from holds_step [OF Cons.prems(1) this room] have "holds_events (apply_event e p) (evs @ [e])" .
  from Cons.IH [OF this] Cons.prems(2,3) show ?case by simp
qed (simp add: holds_events_def)

lemma holds_events_cong:
  assumes "edges_in evs = edges_in evs'" and "modules_in evs = modules_in evs'" and "selectors_in evs = selectors_in evs'"
    and "widths_in evs = widths_in evs'"
  shows "holds_events p evs = holds_events p evs'"
  unfolding holds_events_def edges_hold_def modules_hold_def selectors_hold_def edge_holds_def assms ..

lemma gaps_hold_event: "gaps_hold p G t \<Longrightarrow> gaps_hold (apply_event e p) (gaps_in [e] \<union> G) t"
  by (cases e) (simp_all add: gaps_hold_step, simp_all add: gaps_hold_def)

lemma gaps_hold_events: "gaps_hold p G t \<Longrightarrow> gaps_hold (apply_events evs p) (gaps_in evs \<union> G) t"
proof (induction evs arbitrary: p G)
  case (Cons e evs)
  from Cons.IH [OF gaps_hold_event [OF Cons.prems, of e]] show ?case by (cases e) simp_all
qed simp

subsection \<open>Counters\<close>

lemma nth_bump: "i < length xs \<Longrightarrow> bump j n xs ! i = (if i = j then sat_add (xs ! i) n else xs ! i)"
  by (auto simp: bump_def)

lemma counts_bump [simp]: "rc_counts (rc_bump i n c) = bump i n (rc_counts c)" "ic_counts (ic_bump i n x) = bump i n (ic_counts x)"
  by (simp_all add: rc_bump_def ic_bump_def bump_def)

lemma counts_event:
  assumes "i < 15"
  shows "rc_counts (pj_coverage (apply_event e p)) ! i =
      (if rc_amount i e = 0 then rc_counts (pj_coverage p) ! i else sat_add (rc_counts (pj_coverage p) ! i) (rc_amount i e)) \<or>
      rc_counts (pj_coverage (apply_event e p)) ! i = sat_add (rc_counts (pj_coverage p) ! i) (rc_amount i e)"
    and "ic_counts (pj_interface_coverage (apply_event e p)) ! i =
      (if ic_amount i e = 0 then ic_counts (pj_interface_coverage p) ! i else sat_add (ic_counts (pj_interface_coverage p) ! i) (ic_amount i e)) \<or>
      ic_counts (pj_interface_coverage (apply_event e p)) ! i = sat_add (ic_counts (pj_interface_coverage p) ! i) (ic_amount i e)"
  using assms by (cases e; simp add: nth_bump)+

lemma counts_events:
  assumes "i < 15"
  shows "rc_counts (pj_coverage p) ! i \<le> usize_max \<Longrightarrow>
      rc_counts (pj_coverage (apply_events evs p)) ! i = min (rc_counts (pj_coverage p) ! i + rc_sum i evs) usize_max"
    and "ic_counts (pj_interface_coverage p) ! i \<le> usize_max \<Longrightarrow>
      ic_counts (pj_interface_coverage (apply_events evs p)) ! i = min (ic_counts (pj_interface_coverage p) ! i + ic_sum i evs) usize_max"
proof (induction evs arbitrary: p)
  case (Cons e evs)
  case 1
  have "rc_counts (pj_coverage (apply_event e p)) ! i = min (rc_counts (pj_coverage p) ! i + rc_amount i e) usize_max"
    using counts_event(1) [OF assms, of e p] 1 by (auto simp: sat_add_def split: if_splits)
  with Cons(1) [of "apply_event e p"] show ?case by (simp add: min_def)
next
  case (Cons e evs)
  case 2
  have "ic_counts (pj_interface_coverage (apply_event e p)) ! i = min (ic_counts (pj_interface_coverage p) ! i + ic_amount i e) usize_max"
    using counts_event(2) [OF assms, of e p] 2 by (auto simp: sat_add_def split: if_splits)
  with Cons(2) [of "apply_event e p"] show ?case by (simp add: min_def)
qed simp_all

lemma nodes_events [simp]: "pj_nodes (apply_events evs p) = pj_nodes p"
proof (induction evs arbitrary: p)
  case (Cons e evs)
  have "pj_nodes (apply_event e p) = pj_nodes p" by (cases e) simp_all
  with Cons show ?case by simp
qed simp

section \<open>A projection stands for its events\<close>

definition represents_events :: "projection \<Rightarrow> event list \<Rightarrow> bool" where
  "represents_events p evs \<longleftrightarrow> holds_events p evs \<and> gaps_hold p (gaps_in evs) False \<and>
     (\<forall>i<15. rc_counts (pj_coverage p) ! i = rc_sum i evs) \<and> (\<forall>i<15. ic_counts (pj_interface_coverage p) ! i = ic_sum i evs)"

definition sums_fit :: "event list \<Rightarrow> bool" where
  "sums_fit evs \<longleftrightarrow> (\<forall>i<15. rc_sum i evs \<le> usize_max \<and> ic_sum i evs \<le> usize_max)"

lemma mset_concat_map:
  assumes "mset xs = mset ys"
  shows "mset (concat (map f xs)) = mset (concat (map f ys))"
proof -
  have "mset (concat (map f zs)) = sum_mset (image_mset (\<lambda>z. mset (f z)) (mset zs))" for zs by (induction zs) simp_all
  with assms show ?thesis by simp
qed

lemma mset_parts:
  assumes "mset evs = mset evs'"
  shows "edges_in evs = edges_in evs'" "modules_in evs = modules_in evs'" "selectors_in evs = selectors_in evs'"
    "widths_in evs = widths_in evs'" "gaps_in evs = gaps_in evs'" "rc_sum i evs = rc_sum i evs'" "ic_sum i evs = ic_sum i evs'"
    "mset (module_paths evs) = mset (module_paths evs')"
proof -
  have "set evs = set evs'" using assms by (rule mset_eq_setD)
  then show "edges_in evs = edges_in evs'" "modules_in evs = modules_in evs'" "selectors_in evs = selectors_in evs'"
    "widths_in evs = widths_in evs'" "gaps_in evs = gaps_in evs'"
    by (simp_all add: edges_in_def modules_in_def selectors_in_def widths_in_def gaps_in_def)
  show "rc_sum i evs = rc_sum i evs'" "ic_sum i evs = ic_sum i evs'"
    unfolding rc_sum_def ic_sum_def sum_mset_sum_list [symmetric] mset_map assms by simp_all
  show "mset (module_paths evs) = mset (module_paths evs')"
    unfolding module_paths_def by (rule mset_concat_map [OF assms])
qed

lemma represents_mset: "mset evs = mset evs' \<Longrightarrow> represents_events p evs \<Longrightarrow> represents_events p evs'"
  using mset_parts [of evs evs'] holds_events_cong [of evs evs' p] by (simp add: represents_events_def)

lemma interface_edge_eqI:
  fixes a b :: interface_edge
  shows "ie_selectors a = ie_selectors b \<Longrightarrow> ie_unknown_width a = ie_unknown_width b \<Longrightarrow> a = b"
  by (cases a; cases b) simp

lemma edge_holds_unique: "edge_holds k evs x \<Longrightarrow> edge_holds k evs y \<Longrightarrow> x = y"
  by (cases x; cases y) (auto simp: edge_holds_def intro!: interface_edge_eqI bs_ext)

text \<open>As long as no bound was hit, the events determine the projection.\<close>

lemma represents_unique:
  assumes "represents_events p evs" and "represents_events q evs" and "pj_nodes p = pj_nodes q"
  shows "p = q"
proof -
  have e: "pj_edges p = pj_edges q" using assms by (auto simp: represents_events_def holds_events_def edges_hold_def intro: bs_ext)
  have "bt_get (pj_interfaces p) path = Some m \<longleftrightarrow> bt_get (pj_interfaces q) path = Some m" for path m
    using assms(1,2) by (simp add: represents_events_def holds_events_def modules_hold_def)
  then have "bt_get (pj_interfaces p) path = bt_get (pj_interfaces q) path" for path
    by (metis option.exhaust)
  then have m: "pj_interfaces p = pj_interfaces q"
    using assms(1,2) by (intro bt_ext) (auto simp: represents_events_def holds_events_def modules_hold_def)
  have s: "pj_interface_edges p = pj_interface_edges q"
    using assms(1,2) by (intro bt_ext) (auto simp: represents_events_def holds_events_def selectors_hold_def intro!: edge_holds_unique)
  have c: "pj_coverage p = pj_coverage q"
    using assms(1,2) by (intro rc_eqI nth_equalityI) (auto simp: represents_events_def holds_events_def truncated_def)
  have i: "pj_interface_coverage p = pj_interface_coverage q"
    using assms(1,2) by (intro ic_eqI nth_equalityI) (auto simp: represents_events_def holds_events_def truncated_def selectors_hold_def)
  have "pj_resolution_gaps p = pj_resolution_gaps q" "pj_resolution_gaps_truncated p = pj_resolution_gaps_truncated q"
    using assms(1,2) by (simp_all add: represents_events_def gaps_hold_def)
  with e m s c i assms(3) show ?thesis by (cases p; cases q) simp
qed

lemma represents_fold:
  assumes "represents_events p evs" and "distinct (module_paths (evs @ evs'))" and "sums_fit (evs @ evs')"
    and "\<not> truncated (apply_events evs' p)"
  shows "represents_events (apply_events evs' p) (evs @ evs')"
proof -
  have "gaps_hold (apply_events evs' p) (gaps_in (evs @ evs')) False"
    using gaps_hold_events [of p "gaps_in evs" False evs'] assms(1) by (simp add: represents_events_def Un_commute)
  moreover have "rc_counts (pj_coverage (apply_events evs' p)) ! i = rc_sum i (evs @ evs')"
      "ic_counts (pj_interface_coverage (apply_events evs' p)) ! i = ic_sum i (evs @ evs')" if "i < 15" for i
    using that assms(1,3) counts_events [OF that, of p evs'] by (auto simp: represents_events_def sums_fit_def dest!: spec [of _ i])
  ultimately show ?thesis using holds_fold [OF _ assms(2,4)] assms(1) by (simp add: represents_events_def)
qed

end
