(* ===== verification/ProjectionUpdate.thy ===== *)
theory ProjectionUpdate
  imports ProjectionEvents
begin

text \<open>
  Replacing contributions. Adding a contribution adds the events of its file, subtracting one removes them, so
  updating the changed files of a projection gives the projection of the changed snapshot.
\<close>

section \<open>Adding a contribution\<close>

definition entry_events :: "interface_edge_key \<times> interface_edge \<Rightarrow> event list" where
  "entry_events entry =
     (if ie_unknown_width (snd entry) then [WidthEvent (fst entry)] else []) @ map (SelectorEvent (fst entry)) (ie_selectors (snd entry))"

definition carried :: "projection \<Rightarrow> event list" where
  "carried c =
     map GapEvent (pj_resolution_gaps c) @ map EdgeEvent (pj_edges c) @
     map (\<lambda>e. ModuleEvent (fst e) (snd e)) (pj_interfaces c) @ concat (map entry_events (pj_interface_edges c))"

definition counted :: "projection \<Rightarrow> projection \<Rightarrow> projection" where
  "counted c p =
     p\<lparr> pj_coverage := add_coverage (pj_coverage p) (pj_coverage c),
        pj_resolution_gaps_truncated := (pj_resolution_gaps_truncated p \<or> pj_resolution_gaps_truncated c),
        pj_interface_coverage := (add_interface_coverage (pj_interface_coverage p) (pj_interface_coverage c))
          \<lparr> icov_resolved_selectors := icov_resolved_selectors (pj_interface_coverage p) \<rparr> \<rparr>"

lemma bt_insert_twice: "bt_insert k v (bt_insert k w m) = bt_insert k v m"
  by (induction m) auto

lemma record_gap_coverage:
  "record_resolution_gap g (p\<lparr> pj_interface_coverage := x \<rparr>) = (record_resolution_gap g p)\<lparr> pj_interface_coverage := x \<rparr>"
  by (simp add: record_resolution_gap_def Let_def)

lemma fold_record_gap_coverage:
  "fold record_resolution_gap gs (p\<lparr> pj_interface_coverage := x \<rparr>) = (fold record_resolution_gap gs p)\<lparr> pj_interface_coverage := x \<rparr>"
  by (induction gs arbitrary: p) (simp_all add: record_gap_coverage)

lemma fold_gap_keeps [simp]:
  "pj_interface_coverage (fold record_resolution_gap gs p) = pj_interface_coverage p"
  "pj_interfaces (fold record_resolution_gap gs p) = pj_interfaces p"
  "pj_interface_edges (fold record_resolution_gap gs p) = pj_interface_edges p"
  by (induction gs arbitrary: p) simp_all

lemma fold_edge_keeps [simp]:
  "pj_interfaces (fold insert_edge es p) = pj_interfaces p" "pj_interface_edges (fold insert_edge es p) = pj_interface_edges p"
  by (induction es arbitrary: p) simp_all

lemma apply_mapped:
  "apply_events (map GapEvent gs) p = fold record_resolution_gap gs p"
  "apply_events (map EdgeEvent es) p = fold insert_edge es p"
  "apply_events (map (SelectorEvent k) ss) p = fold (insert_selector k) ss p"
proof -
  show "apply_events (map GapEvent gs) p = fold record_resolution_gap gs p" by (induction gs arbitrary: p) simp_all
  show "apply_events (map EdgeEvent es) p = fold insert_edge es p" by (induction es arbitrary: p) simp_all
  show "apply_events (map (SelectorEvent k) ss) p = fold (insert_selector k) ss p" by (induction ss arbitrary: p) simp_all
qed

lemma fold_modules_events:
  assumes "distinct (map fst ms)" and "fst ` set ms \<inter> fst ` set (pj_interfaces p) = {}"
  shows "apply_events (map (\<lambda>e. ModuleEvent (fst e) (snd e)) ms) p =
    p\<lparr> pj_interfaces := fold (\<lambda>e. bt_insert (fst e) (snd e)) ms (pj_interfaces p) \<rparr>"
  using assms
proof (induction ms arbitrary: p)
  case (Cons e ms)
  have "bt_get (pj_interfaces p) (fst e) = None" using Cons.prems(2) by (auto simp: map_of_eq_None_iff)
  then have "apply_event (ModuleEvent (fst e) (snd e)) p = p\<lparr> pj_interfaces := bt_insert (fst e) (snd e) (pj_interfaces p) \<rparr>" by simp
  with Cons show ?case by (auto simp del: apply_event.simps)
qed simp

lemma insert_selector_known:
  assumes "bt_wf (pj_interface_edges p)"
  shows "insert_selector k s (p\<lparr> pj_interface_edges := bt_insert k
      (case bt_get (pj_interface_edges p) k of None \<Rightarrow> default_interface_edge | Some e \<Rightarrow> e) (pj_interface_edges p) \<rparr>) = insert_selector k s p"
  using assms by (simp add: insert_selector_def Let_def bt_insert_twice)

lemma add_interface_edge_events:
  assumes "bt_wf (pj_interface_edges p)" and "ie_unknown_width (snd entry) \<or> ie_selectors (snd entry) \<noteq> []"
  shows "add_interface_edge entry p = apply_events (entry_events entry) p"
proof (cases "ie_unknown_width (snd entry)")
  case True
  then show ?thesis
    by (simp add: apply_mapped add_interface_edge_def entry_events_def mark_unknown_width_def case_prod_beta Let_def)
next
  case False
  then obtain s ss where ss: "ie_selectors (snd entry) = s # ss" using assms(2) by (cases "ie_selectors (snd entry)") auto
  from False ss insert_selector_known [OF assms(1), of "fst entry" s] show ?thesis
    by (simp add: add_interface_edge_def entry_events_def case_prod_beta Let_def bt_entry_def apply_mapped)
qed

lemma edges_wf_event: "bt_wf (pj_interface_edges p) \<Longrightarrow> bt_wf (pj_interface_edges (apply_event e p))"
  by (cases e) (simp_all add: insert_selector_def mark_unknown_width_def Let_def)

lemma edges_wf_events: "bt_wf (pj_interface_edges p) \<Longrightarrow> bt_wf (pj_interface_edges (apply_events evs p))"
  by (induction evs arbitrary: p) (simp_all add: edges_wf_event)

lemma fold_interface_edge_events:
  assumes "bt_wf (pj_interface_edges p)" and "\<forall>e\<in>set es. ie_unknown_width (snd e) \<or> ie_selectors (snd e) \<noteq> []"
  shows "fold add_interface_edge es p = apply_events (concat (map entry_events es)) p"
  using assms by (induction es arbitrary: p) (simp_all add: add_interface_edge_events edges_wf_events)

lemma add_contribution_events:
  assumes "bt_wf (pj_interface_edges p)" and "\<forall>e\<in>set (pj_interface_edges c). ie_unknown_width (snd e) \<or> ie_selectors (snd e) \<noteq> []"
    and "distinct (map fst (pj_interfaces c))" and "fst ` set (pj_interfaces c) \<inter> fst ` set (pj_interfaces p) = {}"
  shows "add_contribution c p = apply_events (carried c) (counted c p)"
proof -
  let ?q = "fold insert_edge (pj_edges c) (fold record_resolution_gap (pj_resolution_gaps c) (counted c p))"
  have q: "pj_interfaces ?q = pj_interfaces p" "pj_interface_edges ?q = pj_interface_edges p" by (simp_all add: counted_def)
  have 1: "apply_events (map GapEvent (pj_resolution_gaps c) @ map EdgeEvent (pj_edges c)) (counted c p) = ?q"
    by (simp add: apply_mapped)
  have 2: "apply_events (map (\<lambda>e. ModuleEvent (fst e) (snd e)) (pj_interfaces c)) ?q =
      ?q\<lparr> pj_interfaces := fold (\<lambda>e. bt_insert (fst e) (snd e)) (pj_interfaces c) (pj_interfaces ?q) \<rparr>"
    using assms(3,4) q by (intro fold_modules_events) simp_all
  have 3: "fold add_interface_edge (pj_interface_edges c) (?q\<lparr> pj_interfaces := fold (\<lambda>e. bt_insert (fst e) (snd e)) (pj_interfaces c) (pj_interfaces ?q) \<rparr>) =
      apply_events (concat (map entry_events (pj_interface_edges c)))
        (?q\<lparr> pj_interfaces := fold (\<lambda>e. bt_insert (fst e) (snd e)) (pj_interfaces c) (pj_interfaces ?q) \<rparr>)"
    using assms(1,2) q by (intro fold_interface_edge_events) simp_all
  have "apply_events (carried c) (counted c p) = fold add_interface_edge (pj_interface_edges c)
      (?q\<lparr> pj_interfaces := fold (\<lambda>e. bt_insert (fst e) (snd e)) (pj_interfaces c) (pj_interfaces ?q) \<rparr>)"
    unfolding carried_def append_assoc [symmetric] fold_append comp_apply 3 using 1 2 by simp
  then show ?thesis
    by (simp add: add_contribution_def Let_def counted_def fold_record_gap_coverage [symmetric])
qed

lemma modules_hold_set: "modules_hold p evs \<Longrightarrow> set (pj_interfaces p) = modules_in evs"
proof (rule set_eqI)
  fix x :: "repo_path \<times> module_interface"
  assume h: "modules_hold p evs"
  obtain path m where x: "x = (path, m)" by (cases x)
  show "x \<in> set (pj_interfaces p) \<longleftrightarrow> x \<in> modules_in evs"
    using h bt_get_in_set [of "pj_interfaces p" path m] by (simp add: modules_hold_def x)
qed

lemma carried_parts:
  assumes "represents_events c evs"
  shows "edges_in (carried c) = edges_in evs" and "modules_in (carried c) = modules_in evs"
    and "selectors_in (carried c) = selectors_in evs" and "widths_in (carried c) = widths_in evs"
    and "gaps_in (carried c) = set (least_gaps (gaps_in evs))" and "module_paths (carried c) = map fst (pj_interfaces c)"
    and "rc_sum i (carried c) = 0" and "ic_sum i (carried c) = 0"
proof -
  have h: "holds_events c evs" "gaps_hold c (gaps_in evs) False" using assms by (simp_all add: represents_events_def)
  note defs = h(1) [unfolded holds_events_def edges_hold_def modules_hold_def selectors_hold_def]
  have set_entry: "x \<in> set (entry_events (k, e)) \<longleftrightarrow> (x = WidthEvent k \<and> ie_unknown_width e) \<or> (\<exists>s\<in>set (ie_selectors e). x = SelectorEvent k s)" for x k e
    by (auto simp: entry_events_def)
  have set_carried: "set (carried c) = GapEvent ` set (pj_resolution_gaps c) \<union> EdgeEvent ` set (pj_edges c) \<union>
      (\<lambda>e. ModuleEvent (fst e) (snd e)) ` set (pj_interfaces c) \<union> (\<Union>e\<in>set (pj_interface_edges c). set (entry_events e))"
    by (auto simp: carried_def)
  have get: "(k, e) \<in> set (pj_interface_edges c) \<longleftrightarrow> bt_get (pj_interface_edges c) k = Some e" for k e
    using defs by (simp add: bt_get_in_set)
  show "edges_in (carried c) = edges_in evs"
    using defs by (auto simp: edges_in_def [of "carried c"] set_carried set_entry entry_events_def)
  have "ModuleEvent path m \<in> set (carried c) \<longleftrightarrow> (path, m) \<in> set (pj_interfaces c)" for path m
    by (auto simp: set_carried entry_events_def image_iff intro!: bexI [of _ "(path, m)"])
  then show "modules_in (carried c) = modules_in evs"
    using modules_hold_set [of c evs] h(1) by (auto simp: modules_in_def [of "carried c"] holds_events_def)
  have "SelectorEvent k s \<in> set (carried c) \<longleftrightarrow> (\<exists>e. bt_get (pj_interface_edges c) k = Some e \<and> s \<in> set (ie_selectors e))" for k s
    unfolding set_carried get [symmetric] by (force simp: entry_events_def)
  moreover have "(\<exists>e. bt_get (pj_interface_edges c) k = Some e \<and> s \<in> set (ie_selectors e)) \<longleftrightarrow> (k, s) \<in> selectors_in evs" for k s
    using defs by (auto simp: edge_holds_def split: option.splits dest!: spec [of _ k])
  ultimately show "selectors_in (carried c) = selectors_in evs" by (auto simp: selectors_in_def [of "carried c"])
  have "WidthEvent k \<in> set (carried c) \<longleftrightarrow> (\<exists>e. bt_get (pj_interface_edges c) k = Some e \<and> ie_unknown_width e)" for k
    unfolding set_carried get [symmetric] by (force simp: entry_events_def)
  moreover have "(\<exists>e. bt_get (pj_interface_edges c) k = Some e \<and> ie_unknown_width e) \<longleftrightarrow> k \<in> widths_in evs" for k
    using defs by (auto simp: edge_holds_def split: option.splits dest!: spec [of _ k])
  ultimately show "widths_in (carried c) = widths_in evs" by (auto simp: widths_in_def [of "carried c"])
  show "gaps_in (carried c) = set (least_gaps (gaps_in evs))"
    using h(2) by (auto simp: gaps_in_def [of "carried c"] set_carried entry_events_def gaps_hold_def)
  have no: "module_paths (map GapEvent gs) = []" "module_paths (map EdgeEvent es) = []" "module_paths (concat (map entry_events xs)) = []"
    "module_paths (map (\<lambda>e. ModuleEvent (fst e) (snd e)) ms) = map fst ms" for gs es xs ms
    by (induction gs, simp_all) (induction es, simp_all, induction xs, auto simp: entry_events_def module_paths_def, induction ms, auto)
  show "module_paths (carried c) = map fst (pj_interfaces c)" by (simp add: carried_def no)
  have "rc_amount i x = 0" "ic_amount i x = 0" if "x \<in> set (carried c)" for x
    using that by (auto simp: set_carried entry_events_def)
  then show "rc_sum i (carried c) = 0" "ic_sum i (carried c) = 0" by (simp_all add: rc_sum_def ic_sum_def)
qed

lemma counts_added:
  "i < 15 \<Longrightarrow> rc_counts (add_coverage a b) ! i = sat_add (rc_counts a ! i) (rc_counts b ! i)"
  "i < 15 \<Longrightarrow> ic_counts (x\<lparr> icov_resolved_selectors := n \<rparr>) ! i = ic_counts x ! i"
  "i < 15 \<Longrightarrow> ic_counts (add_interface_coverage u v) ! i = sat_add (ic_counts u ! i) (ic_counts v ! i)"
  "rc_edges_truncated (add_coverage a b) = (rc_edges_truncated a \<or> rc_edges_truncated b)"
  "icov_selectors_truncated (add_interface_coverage u v) = (icov_selectors_truncated u \<or> icov_selectors_truncated v)"
proof -
  have m: "rc_counts (add_coverage a b) = map2 sat_add (rc_counts a) (rc_counts b)"
    "ic_counts (x\<lparr> icov_resolved_selectors := n \<rparr>) = ic_counts x"
    "ic_counts (add_interface_coverage u v) = map2 sat_add (ic_counts u) (ic_counts v)"
    by (simp_all add: rc_counts_def ic_counts_def add_coverage_def add_interface_coverage_def add_interface_gaps_def)
  show "i < 15 \<Longrightarrow> rc_counts (add_coverage a b) ! i = sat_add (rc_counts a ! i) (rc_counts b ! i)"
    "i < 15 \<Longrightarrow> ic_counts (x\<lparr> icov_resolved_selectors := n \<rparr>) ! i = ic_counts x ! i"
    "i < 15 \<Longrightarrow> ic_counts (add_interface_coverage u v) ! i = sat_add (ic_counts u ! i) (ic_counts v ! i)"
    unfolding m by simp_all
qed (simp_all add: add_coverage_def add_interface_coverage_def)

lemma counts_subtracted:
  "i < 15 \<Longrightarrow> rc_counts (subtract_coverage a b) ! i = rc_counts a ! i - rc_counts b ! i"
  "i < 15 \<Longrightarrow> ic_counts (subtract_interface_coverage u v) ! i = ic_counts u ! i - ic_counts v ! i"
  "rc_edges_truncated (subtract_coverage a b) = rc_edges_truncated a"
  "icov_selectors_truncated (subtract_interface_coverage u v) = icov_selectors_truncated u"
  "icov_resolved_selectors (subtract_interface_coverage u v) = icov_resolved_selectors u - icov_resolved_selectors v"
proof -
  have m: "rc_counts (subtract_coverage a b) = map2 (-) (rc_counts a) (rc_counts b)"
    "ic_counts (subtract_interface_coverage u v) = map2 (-) (ic_counts u) (ic_counts v)"
    by (simp_all add: rc_counts_def ic_counts_def subtract_coverage_def subtract_interface_coverage_def subtract_interface_gaps_def)
  show "i < 15 \<Longrightarrow> rc_counts (subtract_coverage a b) ! i = rc_counts a ! i - rc_counts b ! i"
    "i < 15 \<Longrightarrow> ic_counts (subtract_interface_coverage u v) ! i = ic_counts u ! i - ic_counts v ! i"
    unfolding m by simp_all
qed (simp_all add: subtract_coverage_def subtract_interface_coverage_def)

lemma represents_add:
  assumes p: "represents_events p evs" and c: "represents_events c evs'"
    and modules: "distinct (module_paths (evs @ evs'))" and fit: "sums_fit (evs @ evs')" and ok: "\<not> truncated (add_contribution c p)"
  shows "represents_events (add_contribution c p) (evs @ evs')"
proof -
  have hp: "holds_events p evs" and hc: "holds_events c evs'" using p c by (simp_all add: represents_events_def)
  note dp = hp [unfolded holds_events_def modules_hold_def selectors_hold_def]
  note dc = hc [unfolded holds_events_def modules_hold_def selectors_hold_def]
  note parts = carried_parts [OF c]
  have full: "\<forall>e\<in>set (pj_interface_edges c). ie_unknown_width (snd e) \<or> ie_selectors (snd e) \<noteq> []"
  proof
    fix e
    assume "e \<in> set (pj_interface_edges c)"
    then have "bt_get (pj_interface_edges c) (fst e) = Some (snd e)" using dc by (simp add: bt_get_in_set)
    then show "ie_unknown_width (snd e) \<or> ie_selectors (snd e) \<noteq> []"
      using dc by (auto simp: edge_holds_def dest!: spec [of _ "fst e"])
  qed
  have keys: "fst ` set (pj_interfaces p) = set (module_paths evs)" "fst ` set (pj_interfaces c) = set (module_paths evs')"
    using hp hc modules_hold_set [of p evs] modules_hold_set [of c evs'] by (simp_all add: set_module_paths holds_events_def)
  have add: "add_contribution c p = apply_events (carried c) (counted c p)"
    using dp dc full modules keys by (intro add_contribution_events) auto
  have nt: "\<not> truncated (counted c p)" using dp dc by (simp add: truncated_def counted_def counts_added)
  have "holds_events (counted c p) evs"
    using hp nt unfolding holds_events_def edges_hold_def modules_hold_def selectors_hold_def by (simp add: counted_def)
  moreover have "distinct (module_paths (evs @ carried c))"
    using modules keys dc by (auto simp: parts)
  ultimately have "holds_events (add_contribution c p) (evs @ carried c)"
    using holds_fold [of "counted c p" evs "carried c"] ok unfolding add by simp
  then have h: "holds_events (add_contribution c p) (evs @ evs')"
    using holds_events_cong [of "evs @ carried c" "evs @ evs'"] parts by simp
  have "gaps_hold (counted c p) (gaps_in evs) (False \<or> MAX_OBSERVATION_PATHS < card (gaps_in evs'))"
    using p c by (auto simp: represents_events_def gaps_hold_def counted_def)
  from gaps_hold_events [OF this, of "carried c"] have
    "gaps_hold (add_contribution c p) (set (least_gaps (gaps_in evs')) \<union> gaps_in evs) (False \<or> MAX_OBSERVATION_PATHS < card (gaps_in evs'))"
    unfolding add parts(5) .
  from gaps_hold_merge [OF this] have g: "gaps_hold (add_contribution c p) (gaps_in (evs @ evs')) False" by (simp add: Un_commute)
  have "rc_counts (pj_coverage (add_contribution c p)) ! i = rc_sum i (evs @ evs') \<and>
      ic_counts (pj_interface_coverage (add_contribution c p)) ! i = ic_sum i (evs @ evs')" if i: "i < 15" for i
  proof -
    have fi: "rc_sum i evs + rc_sum i evs' \<le> usize_max" "ic_sum i evs + ic_sum i evs' \<le> usize_max" using fit i by (simp_all add: sums_fit_def)
    have "rc_counts (pj_coverage (counted c p)) ! i = rc_sum i evs + rc_sum i evs'"
      "ic_counts (pj_interface_coverage (counted c p)) ! i = ic_sum i evs + ic_sum i evs'"
      using p c i fi by (simp_all add: counted_def counts_added represents_events_def sat_add_exact)
    then show ?thesis unfolding add using counts_events [OF i, of "counted c p" "carried c"] fi by (simp add: parts)
  qed
  with h g show ?thesis by (simp add: represents_events_def)
qed

section \<open>Subtracting a contribution\<close>

lemma fold_bs_remove: "fold bs_remove xs s = filter (\<lambda>y. y \<notin> set xs) s"
  by (induction xs arbitrary: s) (auto simp: bs_remove_def intro: filter_cong)

lemma fold_bt_remove: "fold (\<lambda>e. bt_remove (fst e)) es m = filter (\<lambda>e. fst e \<notin> fst ` set es) m"
  by (induction es arbitrary: m) (auto simp: bt_remove_def intro: filter_cong)

lemma bt_wf_filter: "bt_wf m \<Longrightarrow> bt_wf (filter P m)"
  by (induction m) auto

lemma bt_get_filter_keys: "bt_get (filter (\<lambda>e. fst e \<notin> K) m) k = (if k \<in> K then None else bt_get m k)"
  by (induction m) auto

definition event_keys :: "event list \<Rightarrow> interface_edge_key set" where
  "event_keys evs = fst ` selectors_in evs \<union> widths_in evs"

lemma in_event_keys: "k \<in> event_keys evs \<longleftrightarrow> {s. (k, s) \<in> selectors_in evs} \<noteq> {} \<or> k \<in> widths_in evs"
proof -
  have "k \<in> fst ` selectors_in evs \<longleftrightarrow> (\<exists>s. (k, s) \<in> selectors_in evs)" by force
  then show ?thesis by (simp add: event_keys_def)
qed

lemma edge_holds_key: "edge_holds k evs x \<Longrightarrow> x \<noteq> None \<longleftrightarrow> k \<in> event_keys evs"
  unfolding in_event_keys by (cases x) (auto simp: edge_holds_def)

lemma represents_subtract:
  assumes p: "represents_events p (evs @ evs')" and c: "represents_events c evs'" and no_gaps: "gaps_in evs' = {}"
    and edges: "edges_in evs \<inter> edges_in evs' = {}" and modules: "fst ` modules_in evs \<inter> fst ` modules_in evs' = {}"
    and keys: "event_keys evs \<inter> event_keys evs' = {}"
  shows "represents_events (subtract_contribution c p) evs"
proof -
  let ?q = "subtract_contribution c p"
  have hp: "holds_events p (evs @ evs')" and hc: "holds_events c evs'" using p c by (simp_all add: represents_events_def)
  note dp = hp [unfolded holds_events_def edges_hold_def modules_hold_def selectors_hold_def]
  note dc = hc [unfolded holds_events_def edges_hold_def modules_hold_def selectors_hold_def]
  have "edges_hold ?q evs"
    using dp dc edges card_mono [of "edges_in evs \<union> edges_in evs'" "edges_in evs"]
    by (auto simp: edges_hold_def subtract_contribution_def fold_bs_remove bs_wf_def sorted_wrt_filter)
  moreover have "modules_hold ?q evs"
  proof -
    have k: "fst ` set (pj_interfaces c) = fst ` modules_in evs'" using hc modules_hold_set [of c evs'] by (simp add: holds_events_def)
    have "bt_get (pj_interfaces ?q) path = Some m \<longleftrightarrow> (path, m) \<in> modules_in evs" for path m
    proof -
      have get: "bt_get (pj_interfaces ?q) path = (if path \<in> fst ` modules_in evs' then None else bt_get (pj_interfaces p) path)"
        by (simp add: subtract_contribution_def fold_bt_remove bt_get_filter_keys k)
      have "bt_get (pj_interfaces p) path = Some m \<longleftrightarrow> (path, m) \<in> modules_in evs \<or> (path, m) \<in> modules_in evs'" using dp by simp
      moreover have "path \<in> fst ` modules_in evs" if "(path, m) \<in> modules_in evs" using that by force
      moreover have "path \<in> fst ` modules_in evs'" if "(path, m) \<in> modules_in evs'" using that by force
      ultimately show ?thesis using get modules by auto
    qed
    then show ?thesis using dp by (simp add: modules_hold_def subtract_contribution_def fold_bt_remove bt_wf_filter)
  qed
  moreover have "selectors_hold ?q evs"
  proof -
    have k: "fst ` set (pj_interface_edges c) = event_keys evs'"
    proof (rule set_eqI)
      fix k
      have "k \<in> fst ` set (pj_interface_edges c) \<longleftrightarrow> bt_get (pj_interface_edges c) k \<noteq> None" by (simp add: map_of_eq_None_iff)
      then show "k \<in> fst ` set (pj_interface_edges c) \<longleftrightarrow> k \<in> event_keys evs'" using edge_holds_key [of k evs'] dc by simp
    qed
    have "edge_holds k evs (bt_get (pj_interface_edges ?q) k)" for k
    proof (cases "k \<in> event_keys evs'")
      case True
      then have "bt_get (pj_interface_edges ?q) k = None"
        by (simp add: subtract_contribution_def fold_bt_remove bt_get_filter_keys k)
      moreover have "k \<notin> event_keys evs" using keys True by blast
      ultimately show ?thesis by (simp add: edge_holds_def in_event_keys)
    next
      case False
      then have "{s. (k, s) \<in> selectors_in (evs @ evs')} = {s. (k, s) \<in> selectors_in evs}" "k \<in> widths_in (evs @ evs') \<longleftrightarrow> k \<in> widths_in evs"
        by (auto simp: in_event_keys)
      moreover have "edge_holds k (evs @ evs') (bt_get (pj_interface_edges p) k)" using dp by blast
      moreover have "bt_get (pj_interface_edges ?q) k = bt_get (pj_interface_edges p) k"
        using False by (simp add: subtract_contribution_def fold_bt_remove bt_get_filter_keys k)
      ultimately show ?thesis unfolding edge_holds_def by (simp only:)
    qed
    moreover have "selectors_in evs \<inter> selectors_in evs' = {}" using keys by (force simp: event_keys_def)
    then have "card (selectors_in (evs @ evs')) = card (selectors_in evs) + card (selectors_in evs')" by (simp add: card_Un_disjoint)
    ultimately show ?thesis using dp dc
      by (simp add: selectors_hold_def) (simp add: subtract_contribution_def fold_bt_remove bt_wf_filter counts_subtracted)
  qed
  moreover have "\<not> truncated ?q" using dp by (simp add: truncated_def subtract_contribution_def counts_subtracted)
  moreover have "gaps_hold ?q (gaps_in evs) False"
    using p c no_gaps by (simp add: represents_events_def gaps_hold_def subtract_contribution_def fold_bs_remove least_gaps_def)
  moreover have "rc_counts (pj_coverage ?q) ! i = rc_sum i evs" "ic_counts (pj_interface_coverage ?q) ! i = ic_sum i evs" if "i < 15" for i
    using that p c by (simp_all add: represents_events_def subtract_contribution_def counts_subtracted)
  ultimately show ?thesis by (simp add: represents_events_def holds_events_def)
qed

end
