(* ===== verification/ProjectionPair.thy ===== *)
theory ProjectionPair
  imports ProjectionUpdate
begin

text \<open>
  The projection of a pair of snapshots: when \<^verbatim>\<open>project_pair\<close> only replaces the contributions of changed files,
  it returns the projection it would have computed from scratch, unless it marks the result as truncated.
\<close>

section \<open>The events of a snapshot\<close>

definition own_events :: "resolution_context \<Rightarrow> source_file \<Rightarrow> event list" where
  "own_events c file = CountRC 0 1 # file_events c file"

definition view_events :: "resolution_context \<Rightarrow> source_snapshot \<Rightarrow> event list" where
  "view_events c s = concat (map (own_events c) (snapshot_file_list s))"

text \<open>Without Go packages, every file stands for itself.\<close>

definition plain_index :: "resolution_index \<Rightarrow> bool" where
  "plain_index index \<longleftrightarrow> gi_representatives (rx_go index) = [] \<and> gi_configuration_errors (rx_go index) = 0"

lemma plain_logical: "plain_index index \<Longrightarrow> logical_path_for (rx_go index) path = path"
  by (simp add: plain_index_def logical_path_for_def)

fun owned_event :: "repo_path \<Rightarrow> event \<Rightarrow> bool" where
  "owned_event path (EdgeEvent e) \<longleftrightarrow> edge_from e = path"
| "owned_event path (SelectorEvent k s) \<longleftrightarrow> iedk_from k = path"
| "owned_event path (WidthEvent k) \<longleftrightarrow> iedk_from k = path"
| "owned_event path (ModuleEvent q m) \<longleftrightarrow> q = path"
| "owned_event path _ \<longleftrightarrow> True"

abbreviation owned :: "repo_path \<Rightarrow> event list \<Rightarrow> bool" where
  "owned path evs \<equiv> list_all (owned_event path) evs"

lemma ownedD:
  assumes "owned path evs"
  shows "e \<in> edges_in evs \<Longrightarrow> edge_from e = path" and "k \<in> event_keys evs \<Longrightarrow> iedk_from k = path" and "x \<in> modules_in evs \<Longrightarrow> fst x = path"
  using assms by (auto simp: list_all_iff edges_in_def event_keys_def selectors_in_def widths_in_def modules_in_def)

lemma owned_concat: "owned path (concat evss) \<longleftrightarrow> (\<forall>evs\<in>set evss. owned path evs)"
  by (induction evss) simp_all

lemma edge_kind_count_plain [simp]: "owned_event path (edge_kind_count kind)"
  by (cases kind) simp_all

lemma status_events_owned [simp]:
  "owned path (extraction_events st)" "owned path (interface_extraction_events ist)" "owned path (surface_events sst)"
  "owned path (gap_count_events g)"
proof -
  show "owned path (extraction_events st)" by (cases st) simp_all
  show "owned path (interface_extraction_events ist)" by (cases ist) simp_all
  show "owned path (surface_events sst)" by (cases sst) simp_all
qed (simp add: gap_count_events_def)

lemma status_events_modules [simp]:
  "module_paths (extraction_events st) = []" "module_paths (interface_extraction_events ist) = []"
  "module_paths (surface_events sst) = []" "module_paths (gap_count_events g) = []"
proof -
  show "module_paths (extraction_events st) = []" by (cases st) simp_all
  show "module_paths (interface_extraction_events ist) = []" by (cases ist) simp_all
  show "module_paths (surface_events sst) = []" by (cases sst) simp_all
qed (simp add: gap_count_events_def)

lemma import_events_owned: "owned from (import_events from target ifact)"
  by (simp add: import_events_def Let_def split: interface_selector_kind.split)

lemma reference_events_owned: "owned (logical_path (rx_go index) file) (reference_events index file interfaces reference)"
  by (auto simp: reference_events_def resolution_events_def interface_edge_events_def owned_concat import_events_owned
      split: reference_class.split resolution.split option.split)

lemma file_events_owned: "owned (logical_path (rx_go (cx_index c)) file) (file_events c file)"
  by (auto simp: file_events_def interface_events_def owned_concat reference_events_owned Let_def split: option.split)

lemma module_paths_concat: "module_paths (concat evss) = concat (map module_paths evss)"
  by (induction evss) auto

lemma reference_events_modules: "module_paths (reference_events index file interfaces reference) = []"
proof -
  have "module_paths (import_events source target ifact) = []" for source target ifact
    by (simp add: import_events_def Let_def split: interface_selector_kind.split)
  then have e: "module_paths (interface_edge_events source target reference facts) = []" for source target facts
    by (auto simp: interface_edge_events_def module_paths_concat split: option.split)
  show ?thesis
  proof (cases "reference_class_of (ref_kind reference)")
    case (ClassEdge kind)
    then show ?thesis
      by (cases kind) (simp_all add: reference_events_def resolution_events_def e split: resolution.split option.split)
  qed (simp_all add: reference_events_def)
qed

lemma concat_map_Nil [simp]: "concat (map (\<lambda>x. []) xs) = []"
  by (induction xs) simp_all

lemma file_events_modules: "distinct (module_paths (file_events c file))"
  by (simp add: file_events_def interface_events_def module_paths_concat reference_events_modules comp_def Let_def split: option.split)

lemma own_events_owned: "owned (logical_path (rx_go (cx_index c)) file) (own_events c file)"
  by (simp add: own_events_def file_events_owned)

lemma own_events_modules: "distinct (module_paths (own_events c file))"
  by (simp add: own_events_def file_events_modules)

section \<open>Projections from scratch\<close>

lemma empty_represents: "represents_events (default_projection\<lparr> pj_nodes := ns \<rparr>) []"
proof -
  have "rc_counts default_resolution_coverage = replicate 15 0" "ic_counts default_interface_coverage = replicate 15 0"
    by (simp_all add: rc_counts_def ic_counts_def default_resolution_coverage_def default_interface_coverage_def
        default_interface_gap_counts_def numeral_eq_Suc)
  then show ?thesis
    by (simp add: represents_events_def holds_events_def edges_hold_def modules_hold_def selectors_hold_def edge_holds_def
        gaps_hold_def least_gaps_def default_projection_def truncated_def)
      (simp add: default_resolution_coverage_def default_interface_coverage_def)
qed

lemma files_events: "n \<le> usize_max \<Longrightarrow> apply_events (replicate n (CountRC 0 1)) (default_projection\<lparr> pj_nodes := ns \<rparr>) =
    default_projection\<lparr> pj_nodes := ns, pj_coverage := default_resolution_coverage\<lparr> rc_files := n \<rparr> \<rparr>"
proof (induction n)
  case 0
  show ?case by (simp add: default_projection_def default_resolution_coverage_def)
next
  case (Suc n)
  then have "apply_events (replicate (Suc n) (CountRC 0 1)) (default_projection\<lparr> pj_nodes := ns \<rparr>) =
      apply_event (CountRC 0 1) (default_projection\<lparr> pj_nodes := ns, pj_coverage := default_resolution_coverage\<lparr> rc_files := n \<rparr> \<rparr>)"
    by (simp add: replicate_append_same [symmetric] del: replicate.simps apply_event.simps)
  also have "\<dots> = default_projection\<lparr> pj_nodes := ns, pj_coverage := default_resolution_coverage\<lparr> rc_files := Suc n \<rparr> \<rparr>"
    using Suc.prems by (simp add: rc_bump_fields default_resolution_coverage_def default_projection_def sat_add_def)
  finally show ?case .
qed

lemma project_file_events: "project_file c file = apply_events (own_events c file) (default_projection\<lparr> pj_nodes := [sf_path file] \<rparr>)"
proof -
  have "apply_event (CountRC 0 1) (default_projection\<lparr> pj_nodes := [sf_path file] \<rparr>) =
      default_projection\<lparr> pj_nodes := [sf_path file], pj_coverage := default_resolution_coverage\<lparr> rc_files := 1 \<rparr> \<rparr>"
    using files_events [of 1 "[sf_path file]"] by (simp add: usize_max_def)
  then show ?thesis by (simp add: project_file_def own_events_def file_events del: apply_event.simps)
qed

lemma observed_events: "project_with_index c s = apply_events (concat (map (file_events c) (snapshot_file_list s))) (initial_projection c s)"
proof -
  have "fold (observe_file c) fs p = apply_events (concat (map (file_events c) fs)) p" for fs p
    by (induction fs arbitrary: p) (simp_all add: file_events)
  then show ?thesis by (simp add: project_with_index_def)
qed

lemma project_with_index_events:
  assumes "plain_index (cx_index c)" and "snapshot_len s \<le> usize_max"
  shows "project_with_index c s = apply_events (replicate (snapshot_len s) (CountRC 0 1) @ concat (map (file_events c) (snapshot_file_list s)))
    (default_projection\<lparr> pj_nodes := map fst (rx_languages (cx_index c)) \<rparr>)"
proof -
  have init: "initial_projection c s = default_projection\<lparr> pj_nodes := map fst (rx_languages (cx_index c)),
      pj_coverage := default_resolution_coverage\<lparr> rc_files := snapshot_len s \<rparr> \<rparr>"
    using assms(1) by (simp add: initial_projection_def plain_index_def default_resolution_coverage_def)
  show ?thesis unfolding observed_events init fold_append comp_apply files_events [OF assms(2)] by simp
qed

lemma snapshot_len_files: "snapshot_len s = length (snapshot_file_list s)"
  by (simp add: snapshot_len_def snapshot_file_list_def)

lemma mset_view_events:
  "mset (replicate (snapshot_len s) (CountRC 0 1) @ concat (map (file_events c) (snapshot_file_list s))) = mset (view_events c s)"
proof -
  have "mset (replicate (length fs) (CountRC 0 1) @ concat (map (file_events c) fs)) = mset (concat (map (own_events c) fs))" for fs
    by (induction fs) (simp_all add: own_events_def)
  from this [of "snapshot_file_list s"] show ?thesis by (simp add: view_events_def snapshot_len_files)
qed

section \<open>Events by path\<close>

definition path_events :: "resolution_context \<Rightarrow> source_snapshot \<Rightarrow> repo_path \<Rightarrow> event list" where
  "path_events c s path = (case snapshot_read s path of None \<Rightarrow> [] | Some file \<Rightarrow> own_events c file)"

abbreviation total_events :: "repo_path list \<Rightarrow> (repo_path \<Rightarrow> event list) \<Rightarrow> event list" where
  "total_events ps ev \<equiv> concat (map ev ps)"

lemma snapshot_read_entry: "snapshot_wf s \<Longrightarrow> e \<in> set (snap_files s) \<Longrightarrow> snapshot_read s (fst e) = Some (snd e)"
  by (simp add: snapshot_wf_def snapshot_read_def bt_get_in_set)

lemma view_events_paths: "snapshot_wf s \<Longrightarrow> view_events c s = total_events (snapshot_paths s) (path_events c s)"
  unfolding view_events_def snapshot_file_list_def snapshot_paths_def map_map comp_def
  by (rule arg_cong [of _ _ concat], rule map_cong) (auto simp: path_events_def snapshot_read_entry)

lemma path_events_owned:
  assumes "snapshot_wf s" and "plain_index (cx_index c)"
  shows "owned path (path_events c s path)"
proof (cases "snapshot_read s path")
  case (Some f)
  then have "sf_path f = path" using snapshot_read_path assms(1) by blast
  with own_events_owned [of c f] Some assms(2) show ?thesis by (simp add: path_events_def logical_path_def plain_logical)
qed (simp add: path_events_def)

lemma path_events_modules: "distinct (module_paths (path_events c s path))"
  by (simp add: path_events_def own_events_modules split: option.split)

text \<open>Several assignments of events to paths, as they arise while files are replaced.\<close>

definition family_ok :: "(repo_path \<Rightarrow> event list) \<Rightarrow> bool" where
  "family_ok ev \<longleftrightarrow> (\<forall>p. owned p (ev p) \<and> distinct (module_paths (ev p)))"

lemma owned_modules: "owned p evs \<Longrightarrow> set (module_paths evs) \<subseteq> {p}"
  using ownedD(3) by (fastforce simp: set_module_paths)

lemma family_modules:
  assumes "family_ok ev" and "distinct ps"
  shows "distinct (module_paths (total_events ps ev)) \<and> set (module_paths (total_events ps ev)) \<subseteq> set ps"
  using assms(2)
proof (induction ps)
  case (Cons p ps)
  have "set (module_paths (ev p)) \<subseteq> {p}" "distinct (module_paths (ev p))" using assms(1) owned_modules by (simp_all add: family_ok_def)
  with Cons show ?case by auto
qed simp

lemma family_split:
  assumes "q \<in> set ps" and "distinct ps"
  shows "mset (total_events ps ev) = mset (total_events (remove1 q ps) ev @ ev q)"
    and "total_events (remove1 q ps) (ev(q := evs)) = total_events (remove1 q ps) ev"
proof -
  have "mset ps = mset (q # remove1 q ps)" using assms(1) by simp
  from mset_concat_map [OF this, of ev] show "mset (total_events ps ev) = mset (total_events (remove1 q ps) ev @ ev q)"
    by (simp add: union_commute)
  show "total_events (remove1 q ps) (ev(q := evs)) = total_events (remove1 q ps) ev"
    using assms(2) by (intro arg_cong [of _ _ concat] map_cong) auto
qed

lemma family_disjoint:
  assumes "family_ok ev" and "distinct ps"
  shows "edges_in (total_events (remove1 q ps) ev) \<inter> edges_in (ev q) = {}"
    and "fst ` modules_in (total_events (remove1 q ps) ev) \<inter> fst ` modules_in (ev q) = {}"
    and "event_keys (total_events (remove1 q ps) ev) \<inter> event_keys (ev q) = {}"
proof -
  have in_total: "\<exists>p\<in>set rs. e \<in> edges_in (ev p)" if "e \<in> edges_in (total_events rs ev)" for e rs
    using that by (auto simp: edges_in_def)
  have in_modules: "\<exists>p\<in>set rs. x \<in> modules_in (ev p)" if "x \<in> modules_in (total_events rs ev)" for x rs
    using that by (auto simp: modules_in_def)
  have in_keys: "\<exists>p\<in>set rs. k \<in> event_keys (ev p)" if "k \<in> event_keys (total_events rs ev)" for k rs
    using that by (force simp: event_keys_def selectors_in_def widths_in_def)
  have q: "q \<notin> set (remove1 q ps)" using assms(2) by simp
  have o: "owned p (ev p)" for p using assms(1) by (simp add: family_ok_def)
  show "edges_in (total_events (remove1 q ps) ev) \<inter> edges_in (ev q) = {}"
    using in_total [of _ "remove1 q ps"] ownedD(1) [OF o] q by blast
  show "fst ` modules_in (total_events (remove1 q ps) ev) \<inter> fst ` modules_in (ev q) = {}"
  proof (rule ccontr)
    assume "fst ` modules_in (total_events (remove1 q ps) ev) \<inter> fst ` modules_in (ev q) \<noteq> {}"
    then obtain x y where x: "x \<in> modules_in (total_events (remove1 q ps) ev)" "y \<in> modules_in (ev q)" "fst x = fst y" by auto
    from in_modules [OF x(1)] obtain p where p: "p \<in> set (remove1 q ps)" "x \<in> modules_in (ev p)" by auto
    have "fst x = p" "fst y = q" using ownedD(3) [OF o] p(2) x(2) by simp_all
    with p(1) q x(3) show False by simp
  qed
  show "event_keys (total_events (remove1 q ps) ev) \<inter> event_keys (ev q) = {}"
    using in_keys [of _ "remove1 q ps"] ownedD(2) [OF o] q by blast
qed

text \<open>One replacement.\<close>

lemma replace_contribution:
  assumes p: "represents_events p (total_events ps ev)" and fam: "family_ok ev" "family_ok (ev(q := evs))" and ps: "distinct ps" "q \<in> set ps"
    and c: "represents_events c (ev q)" "gaps_in (ev q) = {}" and d: "represents_events d evs"
    and fit: "sums_fit (total_events ps (ev(q := evs)))" and ok: "\<not> truncated (add_contribution d (subtract_contribution c p))"
  shows "represents_events (add_contribution d (subtract_contribution c p)) (total_events ps (ev(q := evs)))"
proof -
  let ?rest = "total_events (remove1 q ps) ev"
  have "represents_events p (?rest @ ev q)" using p family_split(1) [OF ps(2,1)] represents_mset by blast
  from represents_subtract [OF this c family_disjoint [OF fam(1) ps(1)]]
  have sub: "represents_events (subtract_contribution c p) ?rest" .
  have m: "mset (total_events ps (ev(q := evs))) = mset (?rest @ evs)"
    using family_split(1) [OF ps(2,1), of "ev(q := evs)"] family_split(2) [OF ps(2,1)] by simp
  have "distinct (module_paths (?rest @ evs))"
    using family_modules [OF fam(2) ps(1)] mset_parts(8) [OF m] mset_eq_imp_distinct_iff by blast
  moreover have "sums_fit (?rest @ evs)" using fit mset_parts(6,7) [OF m] by (simp add: sums_fit_def)
  ultimately have "represents_events (add_contribution d (subtract_contribution c p)) (?rest @ evs)"
    using represents_add [OF sub d] ok by blast
  then show ?thesis using represents_mset [OF m [symmetric]] by blast
qed

section \<open>Contributions of single files\<close>

lemma project_file_represents:
  assumes "sums_fit (own_events c file)" and "\<not> truncated (project_file c file)"
  shows "represents_events (project_file c file) (own_events c file)"
  using represents_fold [OF empty_represents, of "own_events c file" "[sf_path file]"] assms own_events_modules
  by (simp add: project_file_events)

lemma project_file_room:
  assumes "within_bounds (own_events c file)"
  shows "\<not> truncated (project_file c file)"
  using room_fold [of "default_projection\<lparr> pj_nodes := [sf_path file] \<rparr>" "[]" "own_events c file"] assms own_events_modules empty_represents
  by (simp add: project_file_events represents_events_def)

lemma project_represents:
  assumes "plain_index (cx_index c)" and "snapshot_wf s" and "sums_fit (view_events c s)" and "snapshot_len s \<le> usize_max"
    and "\<not> truncated (project_with_index c s) \<or> within_bounds (view_events c s)"
  shows "represents_events (project_with_index c s) (view_events c s)"
proof -
  let ?evs = "replicate (snapshot_len s) (CountRC 0 1) @ concat (map (file_events c) (snapshot_file_list s))"
  let ?empty = "default_projection\<lparr> pj_nodes := map fst (rx_languages (cx_index c)) \<rparr>"
  note m = mset_view_events [of s c]
  have "family_ok (path_events c s)" using path_events_owned [OF assms(2,1)] path_events_modules by (simp add: family_ok_def)
  then have d: "distinct (module_paths ?evs)"
    using family_modules [of "path_events c s" "snapshot_paths s"] view_events_paths [OF assms(2), of c] mset_parts(8) [OF m]
      mset_eq_imp_distinct_iff bs_wf_distinct [OF snapshot_paths_wf [OF assms(2)]] by metis
  have "\<not> truncated (apply_events ?evs ?empty)"
  proof (cases "within_bounds (view_events c s)")
    case True
    then have "within_bounds ([] @ ?evs)" unfolding within_bounds_def append_Nil mset_parts(1,3) [OF m] .
    moreover have "holds_events ?empty []" using empty_represents by (simp add: represents_events_def)
    ultimately show ?thesis using room_fold [of ?empty "[]" ?evs] d by simp
  next
    case False
    with assms(5) show ?thesis by (simp only: project_with_index_events [OF assms(1,4)] simp_thms)
  qed
  moreover have "sums_fit ?evs" using assms(3) mset_parts(6,7) [OF m] by (simp add: sums_fit_def)
  ultimately have "represents_events (project_with_index c s) ?evs"
    using represents_fold [OF empty_represents, of ?evs] d by (simp add: project_with_index_events [OF assms(1,4)])
  then show ?thesis using represents_mset [OF m] by blast
qed

section \<open>Replacing every changed file\<close>

lemma truncated_edges: "truncated p \<Longrightarrow> truncated (fold insert_edge es p)"
  using truncated_keeps_all [of p "map EdgeEvent es"] by (simp add: apply_mapped)

lemma truncated_selectors: "truncated p \<Longrightarrow> truncated (fold (insert_selector k) ss p)"
  using truncated_keeps_all [of p "map (SelectorEvent k) ss"] by (simp add: apply_mapped)

lemma truncated_entry: "truncated p \<Longrightarrow> truncated (add_interface_edge entry p)"
  unfolding add_interface_edge_def Let_def case_prod_beta by (rule truncated_selectors) (simp add: truncated_def)

lemma truncated_entries: "truncated p \<Longrightarrow> truncated (fold add_interface_edge es p)"
  by (induction es arbitrary: p) (simp_all add: truncated_entry)

lemma fold_gap_coverage [simp]: "pj_coverage (fold record_resolution_gap gs p) = pj_coverage p"
  by (induction gs arbitrary: p) simp_all

lemma truncated_add: "truncated p \<or> truncated d \<Longrightarrow> truncated (add_contribution d p)"
proof -
  assume t: "truncated p \<or> truncated d"
  let ?g = "fold record_resolution_gap (pj_resolution_gaps d) (p\<lparr> pj_coverage := add_coverage (pj_coverage p) (pj_coverage d),
      pj_interface_coverage := add_interface_coverage (pj_interface_coverage p) (pj_interface_coverage d),
      pj_resolution_gaps_truncated := (pj_resolution_gaps_truncated p \<or> pj_resolution_gaps_truncated d) \<rparr>)"
  let ?q = "?g\<lparr> pj_interface_coverage := (pj_interface_coverage ?g)\<lparr> icov_resolved_selectors := icov_resolved_selectors (pj_interface_coverage p) \<rparr> \<rparr>"
  have "truncated ?q" using t by (auto simp: truncated_def counts_added)
  then have "truncated (fold insert_edge (pj_edges d) ?q)" by (rule truncated_edges)
  then show ?thesis unfolding add_contribution_def Let_def by (intro truncated_entries) (simp add: truncated_def)
qed

lemma truncated_update: "truncated p \<Longrightarrow> truncated (update_importer before after c path p)"
proof -
  assume "truncated p"
  then have "truncated (subtract_contribution d p)" for d by (simp add: truncated_def subtract_contribution_def counts_subtracted)
  with \<open>truncated p\<close> truncated_add show ?thesis by (simp add: update_importer_def split: option.split)
qed

lemma truncated_updates: "truncated p \<Longrightarrow> truncated (fold (update_importer before after c) qs p)"
  by (induction qs arbitrary: p) (simp_all add: truncated_update)

lemma own_events_cong:
  assumes "sf_path f = sf_path g" and "sf_language_mode f = sf_language_mode g"
    and "fact_key (cx_crates c) f (cx_parser_options c) = fact_key (cx_crates c) g (cx_parser_options c)"
  shows "own_events c f = own_events c g"
proof -
  have l: "logical_path (rx_go (cx_index c)) f = logical_path (rx_go (cx_index c)) g" by (simp add: logical_path_def assms(1))
  have "resolve_edge_reference (cx_index c) f = resolve_edge_reference (cx_index c) g"
    by (simp add: fun_eq_iff resolve_edge_reference_def assms(1) split: dependency_reference_kind.split)
  then have r: "reference_events (cx_index c) f = reference_events (cx_index c) g"
    by (simp add: fun_eq_iff reference_events_def l assms(1) split: reference_class.split)
  have "module_interface_of f = module_interface_of g" by (simp add: fun_eq_iff module_interface_of_def assms(2))
  then have i: "interface_events f = interface_events g" by (simp add: fun_eq_iff interface_events_def)
  show ?thesis unfolding own_events_def file_events_def assms(3) l r i ..
qed

text \<open>The assignment after the files of a set of paths have been replaced.\<close>

abbreviation replaced :: "(repo_path \<Rightarrow> event list) \<Rightarrow> (repo_path \<Rightarrow> event list) \<Rightarrow> repo_path set \<Rightarrow> repo_path \<Rightarrow> event list" where
  "replaced old new D \<equiv> \<lambda>p. if p \<in> D then new p else old p"

lemma family_replaced: "family_ok old \<Longrightarrow> family_ok new \<Longrightarrow> family_ok (replaced old new D)"
  by (simp add: family_ok_def)

lemma sums_total: "rc_sum i (total_events ps ev) = sum_list (map (\<lambda>p. rc_sum i (ev p)) ps)"
    "ic_sum i (total_events ps ev) = sum_list (map (\<lambda>p. ic_sum i (ev p)) ps)"
  by (induction ps) simp_all

lemma sums_replaced:
  assumes "sums_fit (total_events ps old @ total_events ps new)"
  shows "sums_fit (total_events ps (replaced old new D))"
proof -
  have "rc_sum i (total_events ps (replaced old new D)) \<le> rc_sum i (total_events ps old) + rc_sum i (total_events ps new)"
    "ic_sum i (total_events ps (replaced old new D)) \<le> ic_sum i (total_events ps old) + ic_sum i (total_events ps new)" for i
    unfolding sums_total sum_list_addf [symmetric] by (rule sum_list_mono, simp)+
  with assms show ?thesis unfolding sums_fit_def by (auto intro: order_trans)
qed

lemma total_member:
  assumes "q \<in> set ps"
  shows "edges_in (ev q) \<subseteq> edges_in (total_events ps ev)" "selectors_in (ev q) \<subseteq> selectors_in (total_events ps ev)"
    "gaps_in (ev q) \<subseteq> gaps_in (total_events ps ev)" "rc_sum i (ev q) \<le> rc_sum i (total_events ps ev)" "ic_sum i (ev q) \<le> ic_sum i (total_events ps ev)"
proof -
  show "edges_in (ev q) \<subseteq> edges_in (total_events ps ev)" "selectors_in (ev q) \<subseteq> selectors_in (total_events ps ev)"
    "gaps_in (ev q) \<subseteq> gaps_in (total_events ps ev)"
    using assms by (auto simp: edges_in_def selectors_in_def gaps_in_def)
  show "rc_sum i (ev q) \<le> rc_sum i (total_events ps ev)" "ic_sum i (ev q) \<le> ic_sum i (total_events ps ev)"
    unfolding sums_total using assms by (auto intro!: member_le_sum_list)
qed

text \<open>
  What the replacement relies on: the same paths, no Go package, language modes that agree wherever the facts are
  shared, counters that fit the machine and a first view with neither gaps nor truncation.
\<close>

definition changed_files :: "resolution_context \<Rightarrow> source_snapshot \<Rightarrow> source_snapshot \<Rightarrow> repo_path list \<Rightarrow> bool" where
  "changed_files c before after ps \<longleftrightarrow>
     snapshot_wf before \<and> snapshot_wf after \<and> plain_index (cx_index c) \<and> snapshot_paths before = ps \<and> snapshot_paths after = ps \<and>
     (\<forall>p f g. snapshot_read before p = Some f \<longrightarrow> snapshot_read after p = Some g \<longrightarrow>
        fact_key (cx_crates c) f (cx_parser_options c) = fact_key (cx_crates c) g (cx_parser_options c) \<longrightarrow>
        sf_language_mode f = sf_language_mode g) \<and>
     sums_fit (view_events c before @ view_events c after) \<and> gaps_in (view_events c before) = {} \<and>
     within_bounds (view_events c before)"

lemma changed_views:
  assumes "changed_files c before after ps"
  shows "view_events c before = total_events ps (path_events c before)" "view_events c after = total_events ps (path_events c after)"
    "family_ok (path_events c before)" "family_ok (path_events c after)" "distinct ps"
proof -
  have wf: "snapshot_wf before" "snapshot_wf after" "plain_index (cx_index c)" "snapshot_paths before = ps" "snapshot_paths after = ps"
    using assms by (simp_all add: changed_files_def)
  show "view_events c before = total_events ps (path_events c before)" "view_events c after = total_events ps (path_events c after)"
    using view_events_paths wf by simp_all
  show "family_ok (path_events c before)" "family_ok (path_events c after)"
    using path_events_owned [OF wf(1,3)] path_events_owned [OF wf(2,3)] path_events_modules by (simp_all add: family_ok_def)
  show "distinct ps" using bs_wf_distinct [OF snapshot_paths_wf [OF wf(1)]] wf by simp
qed

lemma own_represents:
  assumes "changed_files c before after ps" and "q \<in> set ps" and "snapshot_read before q = Some f" and "snapshot_read after q = Some g"
  shows "represents_events (project_file c f) (path_events c before q)" and "gaps_in (path_events c before q) = {}"
    and "\<not> truncated (project_file c g) \<Longrightarrow> represents_events (project_file c g) (path_events c after q)"
proof -
  note v = changed_views [OF assms(1)]
  have ev: "path_events c before q = own_events c f" "path_events c after q = own_events c g"
    using assms(3,4) by (simp_all add: path_events_def)
  have fit: "sums_fit (view_events c before @ view_events c after)" and bounds: "within_bounds (view_events c before)"
    and no_gaps: "gaps_in (view_events c before) = {}" using assms(1) by (simp_all add: changed_files_def)
  note mb = total_member [OF assms(2), where ev = "path_events c before", folded v(1), unfolded ev]
  note ma = total_member [OF assms(2), where ev = "path_events c after", folded v(2), unfolded ev]
  have fits: "sums_fit (own_events c f)" "sums_fit (own_events c g)"
    unfolding sums_fit_def using fit mb(4,5) ma(4,5) by (fastforce simp: sums_fit_def intro: order_trans)+
  have "within_bounds (own_events c f)" by (rule within_bounds_mono [OF bounds mb(1,2)])
  then show "represents_events (project_file c f) (path_events c before q)"
    unfolding ev using project_file_represents [OF fits(1)] project_file_room by blast
  show "gaps_in (path_events c before q) = {}" unfolding ev using mb(3) no_gaps by blast
  show "\<not> truncated (project_file c g) \<Longrightarrow> represents_events (project_file c g) (path_events c after q)"
    unfolding ev by (rule project_file_represents [OF fits(2)])
qed

lemma update_step:
  assumes ch: "changed_files c before after ps"
  defines "old \<equiv> path_events c before" and "new \<equiv> path_events c after"
  assumes p: "represents_events p (total_events ps (replaced old new D))" and q: "q \<notin> D"
    and ok: "\<not> truncated (update_importer before after c q p)"
  shows "represents_events (update_importer before after c q p) (total_events ps (replaced old new (insert q D)))"
proof (cases "q \<in> set ps")
  case False
  then have "snapshot_read before q = None" using ch by (simp add: changed_files_def snapshot_read_None)
  then have "update_importer before after c q p = p" by (simp add: update_importer_def split: option.split)
  moreover have "total_events ps (replaced old new (insert q D)) = total_events ps (replaced old new D)"
    using False by (intro arg_cong [of _ _ concat] map_cong) auto
  ultimately show ?thesis using p by simp
next
  case True
  then obtain f g where fg: "snapshot_read before q = Some f" "snapshot_read after q = Some g"
    using snapshot_read_None [of before q] snapshot_read_None [of after q] ch
    by (cases "snapshot_read before q"; cases "snapshot_read after q") (auto simp: changed_files_def)
  have ins: "replaced old new (insert q D) = (replaced old new D)(q := new q)" by auto
  have qD: "replaced old new D q = old q" using q by simp
  show ?thesis
  proof (cases "fact_key (cx_crates c) f (cx_parser_options c) = fact_key (cx_crates c) g (cx_parser_options c)")
    case same: True
    have "snapshot_wf before" "snapshot_wf after" "sf_language_mode f = sf_language_mode g"
      using fg same ch by (simp_all add: changed_files_def)
    moreover from this have "sf_path f = sf_path g" using snapshot_read_path fg by metis
    ultimately have "own_events c f = own_events c g" using same own_events_cong by blast
    then have "old q = new q" using fg by (simp add: old_def new_def path_events_def)
    then have "replaced old new (insert q D) = replaced old new D" by auto
    with same fg p show ?thesis by (simp add: update_importer_def)
  next
    case differ: False
    have upd: "update_importer before after c q p = add_contribution (project_file c g) (subtract_contribution (project_file c f) p)"
      using differ fg by (simp add: update_importer_def)
    have ng: "\<not> truncated (project_file c g)" using ok truncated_add unfolding upd by blast
    note own = own_represents [OF ch True fg, folded old_def new_def]
    have fam: "family_ok (replaced old new E)" for E
      using family_replaced changed_views(3,4) [OF ch] by (simp add: old_def new_def)
    have fit: "sums_fit (total_events ps (replaced old new E))" for E
      by (rule sums_replaced) (use ch changed_views(1,2) [OF ch] in \<open>simp add: changed_files_def old_def new_def\<close>)
    show ?thesis unfolding ins upd
    proof (rule replace_contribution [OF p fam])
      show "family_ok ((replaced old new D)(q := new q))" "sums_fit (total_events ps ((replaced old new D)(q := new q)))"
        unfolding ins [symmetric] by (rule fam, rule fit)
      show "represents_events (project_file c f) (replaced old new D q)" "gaps_in (replaced old new D q) = {}"
        unfolding qD by (rule own(1), rule own(2))
      show "\<not> truncated (add_contribution (project_file c g) (subtract_contribution (project_file c f) p))" using ok unfolding upd .
    qed (use own(3) ng changed_views(5) [OF ch] True in blast)+
  qed
qed

lemma update_fold:
  assumes ch: "changed_files c before after ps"
  defines "old \<equiv> path_events c before" and "new \<equiv> path_events c after"
  assumes "represents_events p (total_events ps (replaced old new D))" and "distinct qs" and "set qs \<inter> D = {}"
    and "\<not> truncated (fold (update_importer before after c) qs p)"
  shows "represents_events (fold (update_importer before after c) qs p) (total_events ps (replaced old new (set qs \<union> D)))"
  using assms(4-)
proof (induction qs arbitrary: p D)
  case (Cons q qs)
  have "\<not> truncated (update_importer before after c q p)" using Cons.prems(4) truncated_updates by auto
  with update_step [OF ch, folded old_def new_def, OF Cons.prems(1)] Cons.prems(3)
  have "represents_events (update_importer before after c q p) (total_events ps (replaced old new (insert q D)))" by auto
  from Cons.IH [OF this] Cons.prems(2-4) show ?case by (simp add: Un_insert_right)
qed simp

section \<open>Indexes of changed snapshots\<close>

text \<open>Files that enter the index in the same way.\<close>

definition indexed_alike :: "crates \<Rightarrow> bytes \<Rightarrow> source_file \<Rightarrow> source_file \<Rightarrow> bool" where
  "indexed_alike K opts b a \<longleftrightarrow> sf_path b = sf_path a \<and> sf_language b = sf_language a \<and>
     (sf_language b = Rust \<longrightarrow> fact_key K b opts = fact_key K a opts)"

abbreviation views_alike :: "crates \<Rightarrow> bytes \<Rightarrow> source_snapshot \<Rightarrow> source_snapshot \<Rightarrow> bool" where
  "views_alike K opts before after \<equiv> list_all2 (indexed_alike K opts) (snapshot_file_list before) (snapshot_file_list after)"

lemma index_add_file_cong:
  assumes "sf_path b = sf_path a" and "sf_language b = sf_language a"
  shows "index_add_file b = index_add_file a"
  unfolding index_add_file_def rust_add_file_def add_source_aliases_def assms ..

lemma alike_fold: "list_all2 (indexed_alike K opts) bs as \<Longrightarrow> fold index_add_file bs = fold index_add_file as"
proof (induction rule: list_all2_induct)
  case (Cons b bs a as)
  then have "index_add_file b = index_add_file a" by (intro index_add_file_cong) (simp_all add: indexed_alike_def)
  with Cons show ?case by simp
qed simp

lemma alike_map: "list_all2 (indexed_alike K opts) bs as \<Longrightarrow> map (\<lambda>f. (sf_path f, sf_language f)) bs = map (\<lambda>f. (sf_path f, sf_language f)) as"
  by (induction rule: list_all2_induct) (simp_all add: indexed_alike_def)

lemma files_read:
  assumes "snapshot_wf s"
  shows "snapshot_read s p = Some f \<longleftrightarrow> f \<in> set (snapshot_file_list s) \<and> sf_path f = p"
  using assms by (force simp: snapshot_read_def snapshot_wf_def snapshot_file_list_def bt_get_in_set)

lemma related_read:
  assumes "list_all2 R (snapshot_file_list before) (snapshot_file_list after)" and "snapshot_wf before" and "snapshot_wf after"
    and "\<And>b a. R b a \<Longrightarrow> sf_path b = sf_path a" and "snapshot_read before p = Some f"
  obtains g where "snapshot_read after p = Some g" and "R f g"
proof -
  have len: "length (snapshot_file_list before) = length (snapshot_file_list after)" using assms(1) by (rule list_all2_lengthD)
  have f: "f \<in> set (snapshot_file_list before)" "sf_path f = p" using files_read [OF assms(2)] assms(5) by auto
  then obtain n where n: "n < length (snapshot_file_list before)" "f = snapshot_file_list before ! n" by (auto simp: in_set_conv_nth)
  let ?g = "snapshot_file_list after ! n"
  have r: "R f ?g" using list_all2_nthD [OF assms(1) n(1)] n(2) by simp
  moreover have "snapshot_read after p = Some ?g" using files_read [OF assms(3)] n(1) len f(2) assms(4) [OF r] by simp
  ultimately show ?thesis using that by blast
qed

lemma related_paths:
  assumes "list_all2 R (snapshot_file_list before) (snapshot_file_list after)" and "snapshot_wf before" and "snapshot_wf after"
    and "\<And>b a. R b a \<Longrightarrow> sf_path b = sf_path a"
  shows "snapshot_paths before = snapshot_paths after"
proof -
  have "map sf_path (snapshot_file_list s) = snapshot_paths s" if "snapshot_wf s" for s
    using that by (simp add: snapshot_wf_def snapshot_file_list_def snapshot_paths_def)
  moreover have "map sf_path (snapshot_file_list before) = map sf_path (snapshot_file_list after)"
    using assms(1) by (induction rule: list_all2_induct) (simp_all add: assms(4))
  ultimately show ?thesis using assms(2,3) by metis
qed

lemma indexed_alikeD: "indexed_alike K opts b a \<Longrightarrow> sf_path b = sf_path a"
  by (simp add: indexed_alike_def)

text \<open>Only Rust files have a place in the tree of modules.\<close>

lemma rust_modules_files:
  "fst ` set (ri_file_modules (rx_rust (fold index_add_file files index))) \<subseteq>
     fst ` set (ri_file_modules (rx_rust index)) \<union> sf_path ` {f \<in> set files. sf_language f = Rust}"
proof (induction files arbitrary: index)
  case (Cons f files)
  have "fst ` set (ri_file_modules (rx_rust (index_add_file f index))) \<subseteq>
      fst ` set (ri_file_modules (rx_rust index)) \<union> (if sf_language f = Rust then {sf_path f} else {})"
    by (auto simp: index_add_file_def rust_add_file_def Let_def split: option.split language.split)
  from order_trans [OF Cons.IH Un_mono [OF this subset_refl]] show ?case by (auto split: if_splits)
qed simp

lemma module_targets_alike:
  assumes "views_alike K opts before after" and "snapshot_wf before" and "snapshot_wf after"
    and "fst ` set (ri_file_modules index) \<subseteq> sf_path ` {f \<in> set (snapshot_file_list before). sf_language f = Rust}"
  shows "module_targets K before facts opts index path = module_targets K after facts opts index path"
proof (cases "snapshot_read before path")
  case None
  moreover from this have "snapshot_read after path = None"
    using related_paths [OF assms(1-3) indexed_alikeD] by (simp add: snapshot_read_None)
  ultimately show ?thesis by (simp add: module_targets_def)
next
  case (Some f)
  obtain g where g: "snapshot_read after path = Some g" "indexed_alike K opts f g"
    using related_read [OF assms(1-3) _ Some] indexed_alikeD by blast
  show ?thesis
  proof (cases "sf_language f = Rust")
    case True
    then have "sf_path f = sf_path g" "fact_key K f opts = fact_key K g opts" using g(2) by (simp_all add: indexed_alike_def)
    with g(1) Some show ?thesis unfolding module_targets_def by (simp cong: option.case_cong)
  next
    case False
    have "path \<notin> fst ` set (ri_file_modules index)"
    proof
      assume "path \<in> fst ` set (ri_file_modules index)"
      then obtain h where "h \<in> set (snapshot_file_list before)" "sf_language h = Rust" "sf_path h = path" using assms(4) by auto
      with files_read [OF assms(2), of path h] Some False show False by simp
    qed
    moreover have "sf_path f = path" "sf_path g = path" using Some g snapshot_read_path assms(2,3) by blast+
    ultimately have "resolve_module_unchecked (sf_path f) spec index = Unresolved" "resolve_module_unchecked (sf_path g) spec index = Unresolved" for spec
      by (simp_all add: resolve_module_unchecked_def map_of_eq_None_iff [THEN iffD2])
    then show ?thesis unfolding module_targets_def Some g(1) by (simp add: resolved_path_def split: option.split)
  qed
qed

lemma confirm_loop_alike:
  assumes "\<And>path. module_targets K before facts opts index path = module_targets K after facts opts index path"
  shows "confirm_loop K before facts opts index queue confirmed = confirm_loop K after facts opts index queue confirmed"
  using assms by (induction K before facts opts index queue confirmed rule: confirm_loop.induct) simp_all

lemma index_alike:
  assumes "views_alike K opts before after" and "snapshot_wf before" and "snapshot_wf after"
    and "go_index_build before gb = go_index_build after ga"
  shows "ResolutionIndex_new K before facts opts gb = ResolutionIndex_new K after facts opts ga"
proof -
  let ?start = "\<lambda>s g. \<lparr> rx_languages = bt_collect (map (\<lambda>f. (sf_path f, sf_language f)) (snapshot_file_list s)),
      rx_node_aliases = [], rx_python_aliases = [], rx_rust = default_rust_index, rx_go = go_index_build s g \<rparr>"
  let ?index = "fold index_add_file (snapshot_file_list before) (?start before gb)"
  have "?start before gb = ?start after ga" using alike_map [OF assms(1)] assms(4) by simp
  then have same: "fold index_add_file (snapshot_file_list after) (?start after ga) = ?index" using alike_fold [OF assms(1)] by simp
  have "fst ` set (ri_file_modules (rx_rust ?index)) \<subseteq> sf_path ` {f \<in> set (snapshot_file_list before). sf_language f = Rust}"
    using rust_modules_files [of "snapshot_file_list before" "?start before gb"] by (simp add: default_rust_index_def)
  note confirm_loop_alike [OF module_targets_alike [OF assms(1-3) this]]
  then show ?thesis unfolding ResolutionIndex_new_def same Let_def confirm_module_trees_def by simp
qed

section \<open>The pair\<close>

text \<open>The projection of one view from scratch: the reference for the incremental one.\<close>

definition full_projection :: "pair_input \<Rightarrow> source_snapshot \<Rightarrow> module_files \<Rightarrow> projection" where
  "full_projection i s files =
     (let index = ResolutionIndex_new (pi_crates i) s (pi_file_facts i) (pi_parser_options i) files;
          paths = interface_paths index (pi_interface_paths i) (gmv_before (pi_go_modules i) \<noteq> gmv_after (pi_go_modules i))
      in project_with_index (pair_context i index paths) s)"

abbreviation full_before :: "pair_input \<Rightarrow> projection" where
  "full_before i \<equiv> full_projection i (pi_before i) (gmv_before (pi_go_modules i))"

abbreviation full_after :: "pair_input \<Rightarrow> projection" where
  "full_after i \<equiv> full_projection i (pi_after i) (gmv_after (pi_go_modules i))"

text \<open>The mode of a file is settled by its path and contents, and so by its path and fact key.\<close>

definition modes_agree :: "pair_input \<Rightarrow> bool" where
  "modes_agree i \<longleftrightarrow>
     list_all (\<lambda>(path, b). case snapshot_read (pi_after i) path of
         None \<Rightarrow> True
       | Some a \<Rightarrow> (sf_content_id b = sf_content_id a \<or>
             fact_key (pi_crates i) b (pi_parser_options i) = fact_key (pi_crates i) a (pi_parser_options i))
           \<longrightarrow> sf_language_mode b = sf_language_mode a) (snap_files (pi_before i))"

text \<open>No counter comes near the end of its range.\<close>

definition counters_fit :: "pair_input \<Rightarrow> bool" where
  "counters_fit i \<longleftrightarrow>
     snapshot_len (pi_before i) \<le> usize_max \<and> snapshot_len (pi_after i) \<le> usize_max \<and>
     list_all (\<lambda>(b, a). b + a < usize_max) (zip (rc_counts (pj_coverage (full_before i))) (rc_counts (pj_coverage (full_after i)))) \<and>
     list_all (\<lambda>(b, a). b + a < usize_max)
       (zip (ic_counts (pj_interface_coverage (full_before i))) (ic_counts (pj_interface_coverage (full_after i))))"

definition pair_wf :: "pair_input \<Rightarrow> bool" where
  "pair_wf i \<longleftrightarrow> snapshot_wf (pi_before i) \<and> snapshot_wf (pi_after i) \<and> modes_agree i \<and> counters_fit i \<and>
     (snap_id (pi_before i) = snap_id (pi_after i) \<longrightarrow> snap_files (pi_before i) = snap_files (pi_after i))"

lemma modes_agreeD:
  assumes "modes_agree i" and "snapshot_wf (pi_before i)" and "snapshot_read (pi_before i) p = Some f" and "snapshot_read (pi_after i) p = Some g"
    and "sf_content_id f = sf_content_id g \<or> fact_key (pi_crates i) f (pi_parser_options i) = fact_key (pi_crates i) g (pi_parser_options i)"
  shows "sf_language_mode f = sf_language_mode g"
proof -
  have "(p, f) \<in> set (snap_files (pi_before i))" using assms(2,3) by (simp add: snapshot_read_def snapshot_wf_def bt_get_in_set)
  with assms(1,4,5) show ?thesis by (auto simp: modes_agree_def list_all_iff)
qed

lemma fact_key_cong: "sf_content_id f = sf_content_id g \<Longrightarrow> sf_language_mode f = sf_language_mode g \<Longrightarrow> fact_key K f opts = fact_key K g opts"
  by (simp add: fact_key_def)

subsection \<open>Without Go\<close>

lemma bt_group_none: "\<forall>x\<in>set xs. f x = None \<Longrightarrow> bt_group f xs = []"
  unfolding bt_group_def by (induction xs) simp_all

lemma no_packages: "\<not> list_ex (\<lambda>f. sf_language f = Go) (snapshot_file_list s) \<Longrightarrow> package_files s = []"
  unfolding package_files_def by (rule bt_group_none) (simp add: list_ex_iff)

definition empty_go_index :: go_index where
  "empty_go_index = \<lparr> gi_aliases = [], gi_representatives = [], gi_module_paths = [], gi_configuration_errors = 0, gi_has_go = False \<rparr>"

lemma go_index_empty: "package_files s = [] \<Longrightarrow> go_index_build s [] = empty_go_index"
  by (simp add: go_index_build_def go_modules_def empty_go_index_def map_filter_simps)

lemma index_go [simp]: "rx_go (ResolutionIndex_new K s facts opts files) = go_index_build s files"
proof -
  have "rx_go (fold index_add_file fs index) = rx_go index" for fs index
    by (induction fs arbitrary: index) (simp_all add: index_add_file_def split: option.split language.split)
  then show ?thesis by (simp add: ResolutionIndex_new_def Let_def)
qed

lemma fold_package_has_go: "gi_has_go (fold (add_package modules) ps index) = gi_has_go index"
proof (induction ps arbitrary: index)
  case (Cons p ps)
  have "gi_has_go (add_package modules p index) = gi_has_go index"
    by (simp add: add_package_def Let_def split: prod.split option.split)
  with Cons show ?case by simp
qed simp

lemma has_go_packages: "gi_has_go (go_index_build s files) \<longleftrightarrow> package_files s \<noteq> []"
  by (simp add: go_index_build_def Let_def fold_package_has_go split: prod.split)

end
