(* ===== verification/ProjectionExact.thy ===== *)
theory ProjectionExact
  imports ProjectionPair
begin

text \<open>
  The two projections \<^verbatim>\<open>project_pair\<close> returns are those of the two views: a replacement of the contributions of
  the changed files ends where a projection from scratch does, unless it marks its result as truncated.
\<close>

section \<open>Sums of the views\<close>

lemma zip_fit:
  assumes "list_all (\<lambda>(b, a). b + a < usize_max) (zip xs ys)" and "k < length xs" and "length xs = length ys"
  shows "xs ! k + ys ! k < usize_max"
proof -
  have "(xs ! k, ys ! k) \<in> set (zip xs ys)" using assms(2,3) by (auto simp: set_zip)
  with assms(1) show ?thesis by (auto simp: list_all_iff)
qed

lemma view_sums:
  assumes "plain_index (cx_index c)" and "snapshot_len s \<le> usize_max" and "k < 15"
  shows "rc_counts (pj_coverage (project_with_index c s)) ! k = min (rc_sum k (view_events c s)) usize_max"
    and "ic_counts (pj_interface_coverage (project_with_index c s)) ! k = min (ic_sum k (view_events c s)) usize_max"
proof -
  let ?p = "default_projection\<lparr> pj_nodes := map fst (rx_languages (cx_index c)) \<rparr>"
  have "rc_counts (pj_coverage ?p) ! k = 0" "ic_counts (pj_interface_coverage ?p) ! k = 0"
    using empty_represents [of "map fst (rx_languages (cx_index c))"] assms(3) by (simp_all add: represents_events_def)
  note z = this
  note counts_events(1) [OF assms(3), of ?p, unfolded z add_0, OF le0] counts_events(2) [OF assms(3), of ?p, unfolded z add_0, OF le0]
  then show "rc_counts (pj_coverage (project_with_index c s)) ! k = min (rc_sum k (view_events c s)) usize_max"
    and "ic_counts (pj_interface_coverage (project_with_index c s)) ! k = min (ic_sum k (view_events c s)) usize_max"
    unfolding project_with_index_events [OF assms(1,2)] mset_parts(6,7) [OF mset_view_events, symmetric] by blast+
qed

lemma views_fit:
  assumes "plain_index (cx_index c)" and "snapshot_len s \<le> usize_max" and "snapshot_len t \<le> usize_max"
    and "list_all (\<lambda>(b, a). b + a < usize_max)
      (zip (rc_counts (pj_coverage (project_with_index c s))) (rc_counts (pj_coverage (project_with_index c t))))"
    and "list_all (\<lambda>(b, a). b + a < usize_max)
      (zip (ic_counts (pj_interface_coverage (project_with_index c s))) (ic_counts (pj_interface_coverage (project_with_index c t))))"
  shows "sums_fit (view_events c s @ view_events c t)"
proof -
  have fit: "x + y \<le> usize_max" if "min x usize_max + min y usize_max < usize_max" for x y using that by linarith
  have "rc_sum k (view_events c s) + rc_sum k (view_events c t) \<le> usize_max \<and>
      ic_sum k (view_events c s) + ic_sum k (view_events c t) \<le> usize_max" if "k < 15" for k
    using zip_fit [OF assms(4), of k] zip_fit [OF assms(5), of k] that
      view_sums [OF assms(1,2) that] view_sums [OF assms(1,3) that] fit by simp
  then show ?thesis by (simp add: sums_fit_def)
qed

lemma sums_fit_append: "sums_fit (xs @ ys) \<Longrightarrow> sums_fit xs \<and> sums_fit ys"
  by (auto simp: sums_fit_def intro: add_leD1 add_leD2)

section \<open>What keeps the nodes\<close>

lemma fold_keeps_nodes: "(\<And>x q. pj_nodes (f x q) = pj_nodes q) \<Longrightarrow> pj_nodes (fold f xs p) = pj_nodes p"
  by (induction xs arbitrary: p) simp_all

lemma interface_edge_nodes: "pj_nodes (add_interface_edge entry p) = pj_nodes p"
  unfolding add_interface_edge_def Let_def case_prod_beta by (subst fold_keeps_nodes) simp_all

lemma update_nodes: "pj_nodes (update_changed_importers before after p c changed) = pj_nodes p"
proof -
  have "pj_nodes (add_contribution d q) = pj_nodes q" for d q :: projection
    by (simp add: add_contribution_def Let_def fold_keeps_nodes interface_edge_nodes)
  then have "pj_nodes (update_importer before after c path q) = pj_nodes q" for path q
    by (simp add: update_importer_def subtract_contribution_def split: option.split)
  then show ?thesis unfolding update_changed_importers_def by (rule fold_keeps_nodes)
qed

lemma event_nodes: "pj_nodes (apply_event e p) = pj_nodes p"
  by (cases e) simp_all

lemma project_nodes:
  "plain_index (cx_index c) \<Longrightarrow> snapshot_len s \<le> usize_max \<Longrightarrow> pj_nodes (project_with_index c s) = map fst (rx_languages (cx_index c))"
  unfolding project_with_index_events by (subst fold_keeps_nodes) (simp_all add: event_nodes)

section \<open>Safe replacements\<close>

definition replaceable :: "pair_input \<Rightarrow> source_file \<Rightarrow> source_file \<Rightarrow> bool" where
  "replaceable i b a \<longleftrightarrow> sf_path b = sf_path a \<and> sf_language b = sf_language a \<and>
     (sf_content_id b = sf_content_id a \<or> sf_path b \<in> set (pi_interface_paths i))"

lemma replaceableD: "replaceable i b a \<Longrightarrow> sf_path b = sf_path a"
  by (simp add: replaceable_def)

lemma safe_replaceable:
  "incremental_safe i index \<Longrightarrow> list_all2 (replaceable i) (snapshot_file_list (pi_before i)) (snapshot_file_list (pi_after i))"
  by (auto simp: incremental_safe_def can_incrementally_project_def list_all2_iff list_all_iff replaceable_def snapshot_len_files)

lemma same_content_key:
  assumes "pair_wf i" and "snapshot_read (pi_before i) p = Some f" and "snapshot_read (pi_after i) p = Some g" and "sf_content_id f = sf_content_id g"
  shows "sf_language_mode f = sf_language_mode g" and "fact_key (pi_crates i) f (pi_parser_options i) = fact_key (pi_crates i) g (pi_parser_options i)"
proof -
  show "sf_language_mode f = sf_language_mode g" using assms modes_agreeD by (auto simp: pair_wf_def)
  then show "fact_key (pi_crates i) f (pi_parser_options i) = fact_key (pi_crates i) g (pi_parser_options i)" using assms(4) by (rule fact_key_cong [rotated])
qed

lemma safe_alike:
  assumes "incremental_safe i index" and "pair_wf i"
  shows "views_alike (pi_crates i) (pi_parser_options i) (pi_before i) (pi_after i)"
  using safe_replaceable [OF assms(1)]
proof (rule list.rel_mono_strong)
  fix b a
  assume b: "b \<in> set (snapshot_file_list (pi_before i))" and a: "a \<in> set (snapshot_file_list (pi_after i))" and r: "replaceable i b a"
  have read: "snapshot_read (pi_before i) (sf_path b) = Some b" "snapshot_read (pi_after i) (sf_path b) = Some a"
    using files_read assms(2) a b replaceableD [OF r] by (simp_all add: pair_wf_def)
  have "sf_content_id b = sf_content_id a" if "sf_language b = Rust"
    using r that assms(1) read by (auto simp: replaceable_def incremental_safe_def index_is_stable_def list_all_iff Let_def)
  then show "indexed_alike (pi_crates i) (pi_parser_options i) b a"
    using same_content_key(2) [OF assms(2) read] r by (simp add: indexed_alike_def replaceable_def)
qed

lemma safe_unchanged:
  assumes "incremental_safe i index" and "pair_wf i" and "p \<notin> set (pi_interface_paths i)"
    and "cx_crates c = pi_crates i" and "cx_parser_options c = pi_parser_options i"
  shows "path_events c (pi_before i) p = path_events c (pi_after i) p"
proof (cases "snapshot_read (pi_before i) p")
  case None
  moreover from this have "snapshot_read (pi_after i) p = None"
    using related_paths [OF safe_replaceable [OF assms(1)] _ _ replaceableD] assms(2) by (simp add: snapshot_read_None pair_wf_def)
  ultimately show ?thesis by (simp add: path_events_def)
next
  case (Some f)
  have wf: "snapshot_wf (pi_before i)" "snapshot_wf (pi_after i)" using assms(2) by (simp_all add: pair_wf_def)
  obtain g where g: "snapshot_read (pi_after i) p = Some g" "replaceable i f g"
    using related_read [OF safe_replaceable [OF assms(1)] wf _ Some] replaceableD by blast
  have "sf_content_id f = sf_content_id g" using g(2) assms(3) snapshot_read_path [OF wf(1) Some] by (simp add: replaceable_def)
  from same_content_key [OF assms(2) Some g(1) this] own_events_cong [of f g c] replaceableD [OF g(2)]
  have "own_events c f = own_events c g" unfolding assms(4,5) by blast
  with Some g(1) show ?thesis by (simp add: path_events_def)
qed

lemma safe_index:
  fixes i :: pair_input
  defines "index \<equiv> ResolutionIndex_new (pi_crates i) (pi_before i) (pi_file_facts i) (pi_parser_options i) (gmv_before (pi_go_modules i))"
  assumes "incremental_safe i index" and "pair_wf i"
  shows "ResolutionIndex_new (pi_crates i) (pi_after i) (pi_file_facts i) (pi_parser_options i) (gmv_after (pi_go_modules i)) = index"
    and "plain_index index" and "gmv_before (pi_go_modules i) = gmv_after (pi_go_modules i)"
proof -
  have go: "\<not> gi_has_go (rx_go index)" "\<not> list_ex (\<lambda>f. sf_language f = Go) (snapshot_file_list (pi_after i))"
    "gmv_before (pi_go_modules i) = []" "gmv_after (pi_go_modules i) = []"
    using assms(2) by (auto simp: incremental_safe_def go_sensitive_def)
  have "package_files (pi_before i) = []" using go(1) by (simp add: index_def has_go_packages)
  then have e: "go_index_build (pi_before i) (gmv_before (pi_go_modules i)) = empty_go_index"
    "go_index_build (pi_after i) (gmv_after (pi_go_modules i)) = empty_go_index"
    using go_index_empty no_packages [OF go(2)] go(3,4) by simp_all
  have "snapshot_wf (pi_before i)" "snapshot_wf (pi_after i)" using assms(3) by (simp_all add: pair_wf_def)
  from index_alike [OF safe_alike [OF assms(2,3)] this] e
  show "ResolutionIndex_new (pi_crates i) (pi_after i) (pi_file_facts i) (pi_parser_options i) (gmv_after (pi_go_modules i)) = index"
    unfolding index_def by metis
  show "plain_index index" by (simp add: index_def plain_index_def e empty_go_index_def)
  show "gmv_before (pi_go_modules i) = gmv_after (pi_go_modules i)" using go(3,4) by simp
qed

lemma least_gaps_empty:
  assumes "finite G" and "least_gaps G = []"
  shows "G = {}"
proof -
  have "sorted_list_of_set G = []" using assms(2) by (auto simp: least_gaps_def MAX_OBSERVATION_PATHS_def)
  with assms(1) show ?thesis by simp
qed

text \<open>The replacement, in a fixed context.\<close>

lemma replacement_exact:
  assumes ch: "changed_files c before after ps" and len: "snapshot_len before \<le> usize_max" "snapshot_len after \<le> usize_max"
    and keep: "\<And>p. p \<notin> set qs \<Longrightarrow> path_events c before p = path_events c after p" and qs: "distinct qs"
    and p: "represents_events (project_with_index c before) (view_events c before)"
    and ok: "\<not> truncated (update_changed_importers before after (project_with_index c before) c qs)"
  shows "update_changed_importers before after (project_with_index c before) c qs = project_with_index c after"
proof (rule represents_unique)
  note v = changed_views [OF ch]
  have wf: "plain_index (cx_index c)" "snapshot_wf after" "sums_fit (view_events c before @ view_events c after)"
    using ch by (simp_all add: changed_files_def)
  have "(\<lambda>p. if p \<in> set qs \<union> {} then path_events c after p else path_events c before p) = path_events c after" using keep by auto
  with update_fold [OF ch, of "project_with_index c before" "{}" qs] p qs ok
  show u: "represents_events (update_changed_importers before after (project_with_index c before) c qs) (view_events c after)"
    by (simp add: v(1,2) update_changed_importers_def)
  then have "within_bounds (view_events c after)"
    by (simp add: represents_events_def holds_events_def edges_hold_def selectors_hold_def within_bounds_def)
  moreover have "sums_fit (view_events c after)" using wf(3) sums_fit_append by blast
  ultimately show "represents_events (project_with_index c after) (view_events c after)" using project_represents wf(1,2) len(2) by blast
  show "pj_nodes (update_changed_importers before after (project_with_index c before) c qs) = pj_nodes (project_with_index c after)"
    using project_nodes [OF wf(1)] len by (simp add: update_nodes)
qed

lemma incremental_exact:
  fixes i :: pair_input
  defines "index \<equiv> ResolutionIndex_new (pi_crates i) (pi_before i) (pi_file_facts i) (pi_parser_options i) (gmv_before (pi_go_modules i))"
  defines "paths \<equiv> interface_paths index (pi_interface_paths i) False"
  defines "c \<equiv> pair_context i index paths"
  assumes safe: "incremental_safe i index" and wf: "pair_wf i" and req: "\<not> full_projection_required True (project_with_index c (pi_before i))"
    and ok: "\<not> truncated (update_changed_importers (pi_before i) (pi_after i) (project_with_index c (pi_before i)) c paths)"
  shows "update_changed_importers (pi_before i) (pi_after i) (project_with_index c (pi_before i)) c paths = full_after i"
proof -
  note si = safe_index [OF safe [unfolded index_def] wf, folded index_def]
  have m: "(gmv_before (pi_go_modules i) \<noteq> gmv_after (pi_go_modules i)) = False" using si(3) by simp
  have full: "full_before i = project_with_index c (pi_before i)" "full_after i = project_with_index c (pi_after i)"
    unfolding full_projection_def Let_def si(1) index_def [symmetric] m c_def paths_def by (rule refl)+
  have plain: "plain_index (cx_index c)" using si(2) by (simp add: c_def pair_context_def)
  have w: "snapshot_wf (pi_before i)" "snapshot_wf (pi_after i)" "snapshot_len (pi_before i) \<le> usize_max" "snapshot_len (pi_after i) \<le> usize_max"
    using wf by (simp_all add: pair_wf_def counters_fit_def)
  have fit: "sums_fit (view_events c (pi_before i) @ view_events c (pi_after i))"
    by (rule views_fit [OF plain w(3,4)]) (use wf full in \<open>simp_all add: pair_wf_def counters_fit_def\<close>)
  have nt: "\<not> truncated (project_with_index c (pi_before i))" and ng: "pj_resolution_gaps (project_with_index c (pi_before i)) = []"
    using req by (auto simp: full_projection_required_def truncated_def)
  have rep: "represents_events (project_with_index c (pi_before i)) (view_events c (pi_before i))"
    using project_represents [OF plain w(1) _ w(3)] sums_fit_append [OF fit] nt by blast
  then have "gaps_in (view_events c (pi_before i)) = {}"
    using ng by (intro least_gaps_empty) (simp_all add: represents_events_def gaps_hold_def)
  moreover have "within_bounds (view_events c (pi_before i))"
    using rep by (simp add: represents_events_def holds_events_def edges_hold_def selectors_hold_def within_bounds_def)
  moreover have "snapshot_paths (pi_before i) = snapshot_paths (pi_after i)"
    using related_paths [OF safe_replaceable [OF safe] w(1,2)] replaceableD by blast
  moreover have "sf_language_mode f = sf_language_mode g" if "snapshot_read (pi_before i) p = Some f" "snapshot_read (pi_after i) p = Some g"
    "fact_key (pi_crates i) f (pi_parser_options i) = fact_key (pi_crates i) g (pi_parser_options i)" for p f g
    using modes_agreeD [OF _ w(1) that(1,2)] that(3) wf by (simp add: pair_wf_def)
  ultimately have ch: "changed_files c (pi_before i) (pi_after i) (snapshot_paths (pi_after i))"
    using w plain fit by (simp add: changed_files_def c_def pair_context_def)
  have "logical_path_for (rx_go index) = (\<lambda>p. p)" using plain_logical [OF si(2)] by auto
  then have paths: "set paths = set (pi_interface_paths i)" "distinct paths"
    using bs_wf_distinct [OF bs_wf_extend [OF bs_wf_Nil]] by (simp_all add: paths_def interface_paths_def Let_def)
  show ?thesis unfolding full
    by (rule replacement_exact [OF ch w(3,4) _ paths(2) rep ok])
      (use safe_unchanged [OF safe wf] paths(1) in \<open>simp add: c_def pair_context_def\<close>)
qed

lemma pair_exact:
  assumes "project_pair i = (before, after, changed)" and "pair_wf i"
  shows "before = full_before i \<and> (truncated after \<or> after = full_after i)"
proof -
  let ?index = "ResolutionIndex_new (pi_crates i) (pi_before i) (pi_file_facts i) (pi_parser_options i) (gmv_before (pi_go_modules i))"
  let ?meta = "gmv_before (pi_go_modules i) \<noteq> gmv_after (pi_go_modules i)"
  have b: "before = full_before i" using assms(1) by (auto simp: project_pair_def project_changed_def full_projection_def Let_def split: if_splits)
  show ?thesis
  proof (cases "views_match i")
    case True
    then have "pi_before i = pi_after i" using assms(2) by (simp add: views_match_def pair_wf_def)
    with True b assms(1) show ?thesis by (auto simp: project_pair_def views_match_def full_projection_def Let_def)
  next
    case False
    with assms(1) have ch: "project_changed i ?index (interface_paths ?index (pi_interface_paths i) ?meta) (full_before i) ?meta = (before, after, changed)"
      by (simp add: project_pair_def full_projection_def Let_def)
    note si = safe_index [of i, OF _ assms(2)]
    show ?thesis
    proof (cases "full_projection_required (incremental_safe i ?index) (full_before i)")
      case True
      then have "after = full_after i"
        using ch si(1) by (cases "incremental_safe i ?index") (auto simp: project_changed_def full_projection_def Let_def)
      with b show ?thesis by simp
    next
      case inc: False
      then have safe: "incremental_safe i ?index" by (simp add: full_projection_required_def)
      with incremental_exact [OF safe assms(2)] inc ch si(3) b show ?thesis
        by (auto simp: project_changed_def full_projection_def Let_def)
    qed
  qed
qed

section \<open>Properties\<close>

text \<open>
  C3. The projections of a pair of views. The first projection a pair gets is the one its first view has from
  scratch; the second is the one its second view has from scratch, or it is marked as truncated. So the
  replacement of the contributions of the changed files, taken when paths and languages agree, no Rust file
  changed and no Go file is involved, leaves no trace of the first view and misses nothing of the second.
\<close>

theorem projection_pair_exact:
  assumes "project_pair i = (before, after, changed)" and "pair_wf i"
  shows "before = full_before i \<and> (truncated after \<or> after = full_after i)"
  using assms by (rule pair_exact)

text \<open>Two TypeScript files; the first imports the second before the change and no longer after it.\<close>

definition sample_pair_crates :: crates where
  "sample_pair_crates = \<lparr> sha256 = (\<lambda>bs. take 1 (drop 35 bs)), hex_encode = id, hex_decode = Some \<rparr>"

definition sample_ts :: "bytes \<Rightarrow> bytes \<Rightarrow> source_file" where
  "sample_ts path text =
     \<lparr> sf_path = RepoPath path, sf_bytes = text, sf_content_id = text, sf_language = TypeScript, sf_language_mode = ''ts'' \<rparr>"

definition sample_view :: "bytes \<Rightarrow> bytes \<Rightarrow> source_snapshot" where
  "sample_view name text =
     \<lparr> snap_id = name, snap_files = [(RepoPath ''a.ts'', sample_ts ''a.ts'' text), (RepoPath ''b.ts'', sample_ts ''b.ts'' ''B'')] \<rparr>"

definition sample_facts :: "dependency_reference list \<Rightarrow> file_facts" where
  "sample_facts refs =
     \<lparr> ff_diagnostics = [], ff_parser = [], ff_parser_version = [],
       ff_dependencies = \<lparr> dep_status = DComplete, dep_references = refs \<rparr>,
       ff_callable_fingerprints = default_callable_fingerprint_facts, ff_region_fingerprints = default_region_fingerprint_facts,
       ff_interfaces = \<lparr> if_status = IComplete, if_public_surface_status = SComplete, if_imports = [], if_exports = [], if_shapes = [],
                         if_gaps = default_interface_gap_counts \<rparr> \<rparr>"

definition sample_fact_map :: fact_map where
  "sample_fact_map =
     [(''B'', sample_facts []), (''n'', sample_facts []),
      (''o'', sample_facts [\<lparr> ref_kind = NodeRuntime, ref_specifier = ''./b'', ref_level = 0 \<rparr>])]"

definition sample_pair :: pair_input where
  "sample_pair =
     \<lparr> pi_crates = sample_pair_crates, pi_before = sample_view ''1'' ''old'', pi_after = sample_view ''2'' ''new'',
       pi_file_facts = sample_fact_map, pi_parser_options = [], pi_interface_paths = [RepoPath ''a.ts''],
       pi_go_modules = \<lparr> gmv_before = [], gmv_after = [] \<rparr> \<rparr>"

abbreviation sample_index :: resolution_index where
  "sample_index \<equiv>
     \<lparr> rx_languages = [(RepoPath ''a.ts'', TypeScript), (RepoPath ''b.ts'', TypeScript)],
       rx_node_aliases = [(''a'', Unique (RepoPath ''a.ts'')), (''b'', Unique (RepoPath ''b.ts''))],
       rx_python_aliases = [], rx_rust = default_rust_index, rx_go = empty_go_index \<rparr>"

lemma sample_key [simp]: "fact_key sample_pair_crates (sample_ts path (b # text)) [] = [b]"
  by (simp add: fact_key_def FileFactKey_new_def hash_domain_def hash_input_def sample_pair_crates_def length_prefixed_def sample_ts_def)

lemma sample_safe: "incremental_safe sample_pair sample_index" "\<not> views_match sample_pair"
  by code_simp+

lemma sample_paths: "interface_paths sample_index [RepoPath ''a.ts''] False = [RepoPath ''a.ts'']"
  by code_simp

lemma sample_new_index:
  "ResolutionIndex_new sample_pair_crates (sample_view ''1'' ''old'') sample_fact_map [] [] = sample_index"
  "ResolutionIndex_new sample_pair_crates (sample_view ''2'' ''new'') sample_fact_map [] [] = sample_index"
  by code_simp+

lemma sample_resolution:
  "resolve_node (RepoPath ''a.ts'') ''./b'' sample_index = Resolved (RepoPath ''b.ts'')"
  by code_simp

abbreviation sample_context :: resolution_context where
  "sample_context \<equiv> pair_context sample_pair sample_index [RepoPath ''a.ts'']"

lemma sample_fields [simp]:
  "sf_path (sample_ts path text) = RepoPath path" "sf_content_id (sample_ts path text) = text"
  "sf_language (sample_ts path text) = TypeScript" "sf_language_mode (sample_ts path text) = ''ts''"
  "gi_representatives empty_go_index = []" "gi_configuration_errors empty_go_index = 0"
  by (simp_all add: sample_ts_def empty_go_index_def)

lemmas sample_defs = pair_context_def sample_pair_def sample_fact_map_def sample_facts_def logical_path_def logical_path_for_def

abbreviation sample_interface_events :: "bytes \<Rightarrow> event list" where
  "sample_interface_events text \<equiv>
     [CountIC 0 1, CountIC 1 1, CountIC 10 0, CountIC 11 0, CountIC 12 0, CountIC 13 0, CountIC 14 0, CountIC 6 1,
      ModuleEvent (RepoPath ''a.ts'') (module_interface_of (sample_ts ''a.ts'' text) (ff_interfaces (sample_facts [])))]"

lemma sample_file_events:
  "file_events sample_context (sample_ts ''b.ts'' ''B'') = [CountRC 1 1]"
  "file_events sample_context (sample_ts ''a.ts'' ''new'') = CountRC 1 1 # sample_interface_events ''new''"
  "file_events sample_context (sample_ts ''a.ts'' ''old'') = CountRC 1 1 # sample_interface_events ''old'' @
     [CountRC 5 1, CountRC 8 1, EdgeEvent \<lparr> edge_from = RepoPath ''a.ts'', edge_to = RepoPath ''b.ts'', edge_kind = EdgeRuntime \<rparr>]"
  by (simp_all add: file_events_def sample_defs Let_def interface_events_def gap_count_events_def default_interface_gap_counts_def
      reference_events_def resolution_events_def resolve_edge_reference_def sample_resolution [simplified] interface_edge_events_def node_reference_def)

lemma sample_plain: "plain_index (cx_index sample_context)"
  by (simp add: plain_index_def pair_context_def empty_go_index_def)

lemma sample_files:
  "snapshot_len (sample_view name text) = 2" "snapshot_file_list (sample_view name text) = [sample_ts ''a.ts'' text, sample_ts ''b.ts'' ''B'']"
  by (simp_all add: sample_view_def snapshot_len_def snapshot_file_list_def)

lemmas projection_defs = default_projection_def default_resolution_coverage_def default_interface_coverage_def default_interface_gap_counts_def
  bump_defs usize_max_def sat_add_def insert_edge_def MAX_GRAPH_EDGES_def

lemma sample_counts:
  "rc_counts (pj_coverage (project_with_index sample_context (sample_view name ''old''))) = [2, 2, 0, 0, 0, 1, 0, 0, 1, 0, 0, 0, 0, 0, 0]"
  "rc_counts (pj_coverage (project_with_index sample_context (sample_view name ''new''))) = [2, 2, 0, 0, 0, 0, 0, 0, 0, 0, 0, 0, 0, 0, 0]"
  "ic_counts (pj_interface_coverage (project_with_index sample_context (sample_view name ''old''))) = [1, 1, 0, 0, 0, 0, 1, 0, 0, 0, 0, 0, 0, 0, 0]"
  "ic_counts (pj_interface_coverage (project_with_index sample_context (sample_view name ''new''))) = [1, 1, 0, 0, 0, 0, 1, 0, 0, 0, 0, 0, 0, 0, 0]"
  by (simp_all add: project_with_index_events [OF sample_plain] sample_files sample_file_events projection_defs numeral_2_eq_2)

lemma sample_pair_fields [simp]:
  "pi_crates sample_pair = sample_pair_crates" "pi_before sample_pair = sample_view ''1'' ''old''" "pi_after sample_pair = sample_view ''2'' ''new''"
  "pi_file_facts sample_pair = sample_fact_map" "pi_parser_options sample_pair = []" "pi_interface_paths sample_pair = [RepoPath ''a.ts'']"
  "gmv_before (pi_go_modules sample_pair) = []" "gmv_after (pi_go_modules sample_pair) = []"
  by (simp_all add: sample_pair_def)

lemma sample_full: "full_before sample_pair = project_with_index sample_context (sample_view ''1'' ''old'')"
    "full_after sample_pair = project_with_index sample_context (sample_view ''2'' ''new'')"
  by (simp_all add: full_projection_def sample_new_index sample_paths)

lemma sample_pair_wf: "pair_wf sample_pair"
proof -
  have "snapshot_wf (sample_view name t)" for name t by (simp add: snapshot_wf_def sample_view_def less_repo_path_def)
  moreover have "modes_agree sample_pair" by (simp add: modes_agree_def sample_view_def snapshot_read_def)
  moreover have "counters_fit sample_pair"
    unfolding counters_fit_def sample_full sample_counts by (simp add: sample_files usize_max_def)
  ultimately show ?thesis by (simp add: pair_wf_def) (simp add: sample_view_def)
qed

lemma sample_not_truncated: "\<not> truncated (fst (snd (project_pair sample_pair)))"
proof -
  let ?b = "project_with_index sample_context (sample_view ''1'' ''old'')"
  have b: "pj_resolution_gaps ?b = []" "\<not> pj_resolution_gaps_truncated ?b" "\<not> truncated ?b"
    by (simp_all add: project_with_index_events [OF sample_plain] sample_files sample_file_events projection_defs truncated_def numeral_2_eq_2)
  have d: "pj_edges (project_file sample_context (sample_ts ''a.ts'' ''new'')) = []"
    "pj_interface_edges (project_file sample_context (sample_ts ''a.ts'' ''new'')) = []"
    "\<not> truncated (project_file sample_context (sample_ts ''a.ts'' ''new''))"
    by (simp_all add: project_file_events own_events_def sample_file_events projection_defs truncated_def)
  have read: "snapshot_read (sample_view name t) (RepoPath ''a.ts'') = Some (sample_ts ''a.ts'' t)" for name t
    by (simp add: snapshot_read_def sample_view_def)
  have "fst (snd (project_pair sample_pair)) = add_contribution (project_file sample_context (sample_ts ''a.ts'' ''new''))
      (subtract_contribution (project_file sample_context (sample_ts ''a.ts'' ''old'')) ?b)"
    using b sample_safe
    by (simp add: project_pair_def project_changed_def Let_def sample_new_index sample_paths full_projection_required_def truncated_def
        update_changed_importers_def update_importer_def read pair_context_def)
  moreover have "\<not> truncated (add_contribution (project_file sample_context (sample_ts ''a.ts'' ''new'')) q)" if "\<not> truncated q" for q
    using that d by (simp add: add_contribution_def Let_def truncated_def counts_added)
  moreover have "\<not> truncated (subtract_contribution q ?b)" for q
    using b(3) by (simp add: truncated_def subtract_contribution_def counts_subtracted)
  ultimately show ?thesis by simp
qed

theorem projection_pair_exact_witness:
  "fst (project_pair sample_pair) = full_before sample_pair \<and> fst (snd (project_pair sample_pair)) = full_after sample_pair"
  using projection_pair_exact [of sample_pair "fst (project_pair sample_pair)" "fst (snd (project_pair sample_pair))"
      "snd (snd (project_pair sample_pair))"] sample_pair_wf sample_not_truncated by simp

end
