(* ===== verification/SenseEngine.thy ===== *)
theory SenseEngine
  imports DedupGaps MetricsSound ProjectionExact
begin

text \<open>
  The structural sensor: \<^verbatim>\<open>src/sense/engine.rs\<close>. One evaluation loads the facts of every distinct file of two
  views through the shared cache, projects both views, compares them and writes a report. Files are loaded one
  after the other, or, from a threshold on, by a pool of workers whose cache operations interleave; the results
  keep the order of the files. The clock is a parameter, and a panic of the blocking task is an error of its own.
\<close>

section \<open>Requests\<close>

definition PARALLEL_SENSE_THRESHOLD :: nat where "PARALLEL_SENSE_THRESHOLD = 8"

definition DOCUMENTATION_REGISTRY_PATH :: bytes where "DOCUMENTATION_REGISTRY_PATH = ''.opcore.json''"

record sense_options =
  sop_limits :: rule_limits
  sop_high_impact_threshold :: nat
  sop_minimum_identical_bytes :: nat
  sop_max_dependency_targets :: nat
  sop_max_edge_selectors :: nat
  sop_max_module_exports :: nat
  sop_max_shape_members :: nat

definition default_sense_options :: sense_options where
  "default_sense_options =
     \<lparr> sop_limits = default_rule_limits, sop_high_impact_threshold = 10, sop_minimum_identical_bytes = 256,
       sop_max_dependency_targets = 20, sop_max_edge_selectors = 8, sop_max_module_exports = 20, sop_max_shape_members = 20 \<rparr>"

record sense_request =
  srq_before :: source_snapshot
  srq_after :: source_snapshot
  srq_changed_paths :: "repo_path btree_set"
  srq_before_unsupported_files :: nat
  srq_after_unsupported_files :: nat
  srq_unsupported_changed_files :: nat
  srq_dependency_metadata_changed_files :: nat
  srq_go_modules :: go_module_views
  srq_valid_as_of :: bytes
  srq_options :: sense_options

text \<open>The durations the clock measures, in microseconds.\<close>

record sense_clock =
  ck_total :: nat
  ck_facts :: nat
  ck_resolution :: nat
  ck_cycles :: nat
  ck_observations :: nat
  ck_dedup :: nat

definition elapsed_us :: "nat \<Rightarrow> nat" where
  "elapsed_us duration = (if duration \<le> 2 ^ 64 - 1 then duration else 2 ^ 64 - 1)"

section \<open>Facts\<close>

definition add_unique_file ::
    "crates \<Rightarrow> bytes \<Rightarrow> source_file \<Rightarrow> (file_fact_key, source_file) btree_map \<times> fact_key_lookup
     \<Rightarrow> (file_fact_key, source_file) btree_map \<times> fact_key_lookup" where
  "add_unique_file K parser_options file acc =
     (let key = fact_key K file parser_options
      in (bt_insert key file (fst acc), bt_entry [] (bt_insert (sf_language_mode file) key) (sf_content_id file) (snd acc)))"

definition unique_files ::
    "crates \<Rightarrow> source_snapshot \<Rightarrow> source_snapshot \<Rightarrow> bytes \<Rightarrow> (file_fact_key, source_file) btree_map \<times> fact_key_lookup" where
  "unique_files K before after parser_options =
     fold (add_unique_file K parser_options) (snapshot_file_list before @ snapshot_file_list after) ([], [])"

definition unsupported_facts :: file_facts where
  "unsupported_facts =
     default_file_facts\<lparr> ff_dependencies := default_dependency_facts\<lparr> dep_status := DUnsupported \<rparr> \<rparr>"

definition settle_facts :: "(analysis_error, file_facts) result \<Rightarrow> (analysis_error, file_facts) result" where
  "settle_facts r =
     (case r of Inr facts \<Rightarrow> Inr facts | Inl (AnalysisUnsupported _) \<Rightarrow> Inr unsupported_facts | Inl e \<Rightarrow> Inl e)"

definition load_file ::
    "crates \<Rightarrow> analyzers \<Rightarrow> rule_limits \<Rightarrow> bytes \<Rightarrow> cancel_token \<Rightarrow> source_file \<Rightarrow> (analysis_error, file_facts) result prog" where
  "load_file K A limits parser_options tok file =
     prog_bind (load K A file limits parser_options tok 0) (\<lambda>l. Done (settle_facts (fst l)))"

definition load_tasks ::
    "crates \<Rightarrow> analyzers \<Rightarrow> rule_limits \<Rightarrow> bytes \<Rightarrow> (nat \<Rightarrow> cancel_token) \<Rightarrow> (file_fact_key, source_file) btree_map
     \<Rightarrow> (analysis_error, file_facts) result prog list" where
  "load_tasks K A limits parser_options tok files =
     map (\<lambda>(i, e). load_file K A limits parser_options (tok i) (snd e)) (enumerate 0 files)"

text \<open>\<^verbatim>\<open>collect\<close> into a result: the first error, or all the facts.\<close>

fun collect_results :: "(file_fact_key \<times> (analysis_error, file_facts) result) list \<Rightarrow> (analysis_error, (file_fact_key \<times> file_facts) list) result" where
  "collect_results [] = Inr []"
| "collect_results ((key, r) # rs) =
     (case r of Inl e \<Rightarrow> Inl e | Inr facts \<Rightarrow> map_sum (\<lambda>e. e) ((#) (key, facts)) (collect_results rs))"

definition collect_facts :: "file_fact_key list \<Rightarrow> (analysis_error, file_facts) result list \<Rightarrow> (analysis_error, fact_map) result" where
  "collect_facts keys rs = map_sum (\<lambda>e. e) bt_collect (collect_results (zip keys rs))"

subsection \<open>One after the other\<close>

fun run_each :: "'c fact_cache_ops \<Rightarrow> 'r prog list \<Rightarrow> 'c \<Rightarrow> 'r list \<times> 'c" where
  "run_each ops [] c = ([], c)"
| "run_each ops (p # ps) c =
     (let (r, c) = run ops p c; (rs, c) = run_each ops ps c in (r # rs, c))"

subsection \<open>In a pool\<close>

inductive pool_step :: "'c fact_cache_ops \<Rightarrow> 'r prog list \<times> 'c \<Rightarrow> 'r prog list \<times> 'c \<Rightarrow> bool" for ops where
  pool_get: "pool_step ops (xs @ Get k f # ys, c) (xs @ f (fst (fc_get ops c k)) # ys, snd (fc_get ops c k))"
| pool_put: "pool_step ops (xs @ Put k v f # ys, c) (xs @ f (fst (fc_put ops c k v)) # ys, snd (fc_put ops c k v))"

inductive pool_steps :: "'c fact_cache_ops \<Rightarrow> nat \<Rightarrow> 'r prog list \<times> 'c \<Rightarrow> 'r prog list \<times> 'c \<Rightarrow> bool" for ops where
  pool_refl: "pool_steps ops 0 s s"
| pool_more: "pool_step ops s t \<Longrightarrow> pool_steps ops n t u \<Longrightarrow> pool_steps ops (Suc n) s u"

inductive_cases pool_stepE: "pool_step ops s t"
inductive_cases pool_stepsE: "pool_steps ops n s t"

inductive loads ::
    "crates \<Rightarrow> analyzers \<Rightarrow> 'c fact_cache_ops \<Rightarrow> bool \<Rightarrow> rule_limits \<Rightarrow> bytes \<Rightarrow> (nat \<Rightarrow> cancel_token)
     \<Rightarrow> (file_fact_key, source_file) btree_map \<Rightarrow> 'c \<Rightarrow> (analysis_error, fact_map) result \<Rightarrow> 'c \<Rightarrow> bool"
  for K A ops pool limits opts tok files c where
  sequential: "length files < PARALLEL_SENSE_THRESHOLD \<or> \<not> pool \<Longrightarrow>
    run_each ops (load_tasks K A limits opts tok files) c = (rs, c') \<Longrightarrow>
    loads K A ops pool limits opts tok files c (collect_facts (map fst files) rs) c'"
| parallel: "\<not> length files < PARALLEL_SENSE_THRESHOLD \<Longrightarrow> pool \<Longrightarrow>
    pool_steps ops n (load_tasks K A limits opts tok files, c) (map Done rs, c') \<Longrightarrow>
    loads K A ops pool limits opts tok files c (collect_facts (map fst files) rs) c'"

section \<open>Comparison\<close>

record graph_evaluation =
  ge_before_projection :: projection
  ge_after_projection :: projection
  ge_introduced_cycles :: "introduced_cycle list"
  ge_introduced_duplicates :: "introduced_duplicate list"
  ge_interface_findings :: "interface_finding list"
  ge_findings_truncated :: bool
  ge_dedup_coverage :: dedup_coverage
  ge_dedup_issues :: "sense_issue list"
  ge_observations :: sense_observations
  ge_resolution_us :: nat
  ge_cycles_us :: nat
  ge_observations_us :: nat
  ge_dedup_us :: nat

definition add_unsupported_coverage :: "nat \<Rightarrow> projection \<Rightarrow> projection" where
  "add_unsupported_coverage files p =
     p\<lparr> pj_coverage := (pj_coverage p)
          \<lparr> rc_files := sat_add (rc_files (pj_coverage p)) files,
            rc_unsupported_files := sat_add (rc_unsupported_files (pj_coverage p)) files \<rparr>,
        pj_interface_coverage := (pj_interface_coverage p)
          \<lparr> icov_files := sat_add (icov_files (pj_interface_coverage p)) files,
            icov_unsupported_files := sat_add (icov_unsupported_files (pj_interface_coverage p)) files \<rparr> \<rparr>"

definition request_pair :: "crates \<Rightarrow> sense_request \<Rightarrow> fact_map \<Rightarrow> bytes \<Rightarrow> pair_input" where
  "request_pair K request file_facts parser_options =
     \<lparr> pi_crates = K, pi_before = srq_before request, pi_after = srq_after request, pi_file_facts = file_facts,
       pi_parser_options = parser_options, pi_interface_paths = srq_changed_paths request, pi_go_modules = srq_go_modules request \<rparr>"

definition request_views_match :: "sense_request \<Rightarrow> bool" where
  "request_views_match request \<longleftrightarrow>
     snap_id (srq_before request) = snap_id (srq_after request) \<and>
     gmv_before (srq_go_modules request) = gmv_after (srq_go_modules request)"

definition request_continuity :: "sense_request \<Rightarrow> path_continuity" where
  "request_continuity request =
     (if request_views_match request then [] else exact_path_continuity (srq_before request) (srq_after request))"

definition comparison_projection :: "path_continuity \<Rightarrow> projection \<Rightarrow> projection" where
  "comparison_projection continuity p = (if continuity \<noteq> [] then canonicalize p continuity else p)"

definition request_metrics :: "sense_request \<Rightarrow> projection \<Rightarrow> projection \<Rightarrow> repo_path btree_set \<Rightarrow> path_continuity \<Rightarrow> metric_inputs" where
  "request_metrics request before after changed continuity =
     \<lparr> mei_before = before, mei_after = after, mei_changed_paths = changed, mei_continuity = continuity,
       mei_high_impact_threshold = sop_high_impact_threshold (srq_options request),
       mei_max_dependency_targets = sop_max_dependency_targets (srq_options request),
       mei_max_edge_selectors = sop_max_edge_selectors (srq_options request),
       mei_max_module_exports = sop_max_module_exports (srq_options request),
       mei_max_shape_members = sop_max_shape_members (srq_options request) \<rparr>"

definition request_dedup :: "sense_request \<Rightarrow> fact_map \<Rightarrow> fact_key_lookup \<Rightarrow> path_continuity \<Rightarrow> nat \<Rightarrow> dedup_inputs" where
  "request_dedup request file_facts fact_keys continuity reported =
     \<lparr> di_before = srq_before request, di_after = srq_after request, di_file_facts = file_facts, di_fact_keys = fact_keys,
       di_changed_paths = srq_changed_paths request, di_continuity = continuity,
       di_minimum_identical_bytes = sop_minimum_identical_bytes (srq_options request),
       di_finding_limit = MAX_SENSE_FINDINGS - reported \<rparr>"

definition evaluate_graph ::
    "crates \<Rightarrow> (bytes \<Rightarrow> bytes option) \<Rightarrow> sense_clock \<Rightarrow> sense_request \<Rightarrow> fact_map \<Rightarrow> fact_key_lookup \<Rightarrow> bytes \<Rightarrow> graph_evaluation option" where
  "evaluate_graph K b64 clock request file_facts fact_keys parser_options =
     (let (before_projection, after_projection, logical_changed_paths) = project_pair (request_pair K request file_facts parser_options);
          before_projection = add_unsupported_coverage (srq_before_unsupported_files request) before_projection;
          after_projection = add_unsupported_coverage (srq_after_unsupported_files request) after_projection;
          same = request_views_match request;
          continuity = request_continuity request;
          comparison_before = comparison_projection continuity before_projection
      in case (if same then Some [] else introduced_cycles comparison_before after_projection) of
           None \<Rightarrow> None
         | Some found \<Rightarrow>
             (let introduced = take MAX_SENSE_FINDINGS found;
                  metrics = collect (request_metrics request comparison_before after_projection logical_changed_paths continuity)
              in case introduced_duplicates K b64 (request_dedup request file_facts fact_keys continuity (length introduced)) of
                   None \<Rightarrow> None
                 | Some dedup \<Rightarrow>
                     (let budget = MAX_SENSE_FINDINGS - length introduced - length (dr_findings dedup)
                      in Some \<lparr> ge_before_projection = before_projection, ge_after_projection = after_projection,
                           ge_introduced_cycles = introduced, ge_introduced_duplicates = dr_findings dedup,
                           ge_interface_findings = take budget (mer_interface_findings metrics),
                           ge_findings_truncated = (length found > MAX_SENSE_FINDINGS \<or> dr_findings_truncated dedup \<or>
                             length (mer_interface_findings metrics) > budget),
                           ge_dedup_coverage = dr_coverage dedup, ge_dedup_issues = dr_issues dedup,
                           ge_observations = mer_observations metrics, ge_resolution_us = elapsed_us (ck_resolution clock),
                           ge_cycles_us = elapsed_us (ck_cycles clock), ge_observations_us = elapsed_us (ck_observations clock),
                           ge_dedup_us = elapsed_us (ck_dedup clock) \<rparr>)))"

section \<open>The report\<close>

record report_truncation =
  rt_findings :: bool
  rt_observations :: bool
  rt_impact :: bool

definition incomplete_dedup :: "dedup_coverage \<Rightarrow> bool" where
  "incomplete_dedup coverage \<longleftrightarrow>
     fpc_truncated_files (dc_before coverage) > 0 \<or> fpc_truncated_files (dc_after coverage) > 0 \<or>
     fpc_request_truncated (dc_before coverage) \<or> fpc_request_truncated (dc_after coverage) \<or>
     fpc_malformed_evidence (dc_before coverage) \<or> fpc_malformed_evidence (dc_after coverage)"

definition partial_dedup :: "dedup_coverage \<Rightarrow> bool" where
  "partial_dedup coverage \<longleftrightarrow>
     fpc_unsupported_files (dc_before coverage) > 0 \<or> fpc_unsupported_files (dc_after coverage) > 0 \<or>
     fpc_parser_failed_files (dc_before coverage) > 0 \<or> fpc_parser_failed_files (dc_after coverage) > 0"

definition incomplete_coverage :: "projection \<Rightarrow> bool" where
  "incomplete_coverage p \<longleftrightarrow>
     rc_truncated_files (pj_coverage p) > 0 \<or> rc_configuration_errors (pj_coverage p) > 0 \<or>
     rc_edges_truncated (pj_coverage p) \<or> icov_truncated_files (pj_interface_coverage p) > 0 \<or>
     icov_truncated_public_surfaces (pj_interface_coverage p) > 0 \<or> icov_selectors_truncated (pj_interface_coverage p)"

definition partial_interface_coverage :: "projection \<Rightarrow> bool" where
  "partial_interface_coverage p \<longleftrightarrow>
     icov_partial_files (pj_interface_coverage p) > 0 \<or> icov_unsupported_files (pj_interface_coverage p) > 0 \<or>
     icov_parser_failed_files (pj_interface_coverage p) > 0 \<or> icov_partial_public_surfaces (pj_interface_coverage p) > 0 \<or>
     icov_unsupported_public_surfaces (pj_interface_coverage p) > 0"

definition partial_coverage :: "projection \<Rightarrow> bool" where
  "partial_coverage p \<longleftrightarrow>
     rc_unsupported_files (pj_coverage p) > 0 \<or> rc_parser_failed_files (pj_coverage p) > 0 \<or>
     rc_node_builtin_references (pj_coverage p) > 0 \<or> rc_external_references (pj_coverage p) > 0 \<or>
     rc_ambiguous_references (pj_coverage p) > 0 \<or> rc_unresolved_references (pj_coverage p) > 0 \<or>
     rc_unsupported_dynamic_references (pj_coverage p) > 0 \<or> partial_interface_coverage p"

record status_inputs =
  sti_before :: projection
  sti_after :: projection
  sti_has_findings :: bool
  sti_truncation :: report_truncation
  sti_dedup :: dedup_coverage

definition status_incomplete :: "status_inputs \<Rightarrow> bool" where
  "status_incomplete i \<longleftrightarrow>
     rt_findings (sti_truncation i) \<or> rt_observations (sti_truncation i) \<or> incomplete_coverage (sti_before i) \<or>
     incomplete_coverage (sti_after i) \<or> incomplete_dedup (sti_dedup i)"

definition status_partial :: "status_inputs \<Rightarrow> bool" where
  "status_partial i \<longleftrightarrow>
     rt_impact (sti_truncation i) \<or> partial_coverage (sti_before i) \<or> partial_coverage (sti_after i) \<or> partial_dedup (sti_dedup i)"

definition sense_status_of :: "status_inputs \<Rightarrow> sense_status" where
  "sense_status_of i =
     (if status_incomplete i then SenseIncomplete else if status_partial i then SensePartial
      else if sti_has_findings i then SenseFindings else SenseClean)"

definition graph_view_id :: "crates \<Rightarrow> source_snapshot \<Rightarrow> module_files \<Rightarrow> bytes" where
  "graph_view_id K s files =
     (if files = [] then hex_encode K (snap_id s)
      else hex_encode K (hash_domain K ''sense-graph-view/v1''
        [hex_encode K (snap_id s), concat (map (\<lambda>(path, bs). length_prefixed (as_bytes path) @ ContentId_of K bs) files)]))"

definition graph_summary :: "crates \<Rightarrow> source_snapshot \<Rightarrow> module_files \<Rightarrow> projection \<Rightarrow> graph_view_summary" where
  "graph_summary K s files p =
     (let runtime = length (runtime_edges p);
          structural = length (filter (\<lambda>e. edge_kind e = EdgeStructural) (pj_edges p))
      in \<lparr> gv_view_id = graph_view_id K s files, gv_files = rc_files (pj_coverage p), gv_runtime_edges = runtime,
           gv_type_only_edges = length (pj_edges p) - runtime - structural, gv_structural_edges = structural,
           gv_coverage = pj_coverage p, gv_resolution_gaps = pj_resolution_gaps p,
           gv_resolution_gaps_truncated = pj_resolution_gaps_truncated p, gv_interface_edges = length (pj_interface_edges p),
           gv_interface_coverage = pj_interface_coverage p \<rparr>)"

definition incomplete_summary :: "graph_view_summary \<Rightarrow> bool" where
  "incomplete_summary s \<longleftrightarrow>
     rc_truncated_files (gv_coverage s) > 0 \<or> rc_configuration_errors (gv_coverage s) > 0 \<or>
     rc_edges_truncated (gv_coverage s) \<or> icov_truncated_files (gv_interface_coverage s) > 0 \<or>
     icov_selectors_truncated (gv_interface_coverage s)"

definition report_issues ::
    "report_truncation \<Rightarrow> dedup_coverage \<Rightarrow> sense_issue list \<Rightarrow> graph_view_summary \<Rightarrow> graph_view_summary \<Rightarrow> sense_issue list" where
  "report_issues t dedup dedup_issues before after =
     (if rt_findings t then [SenseIssue_new ''findings_truncated'' ''sense findings exceeded the report bound''] else []) @
     (if rt_observations t then [SenseIssue_new ''observations_truncated'' ''sense observations exceeded the report bound''] else []) @
     (if rt_impact t
      then [SenseIssue_new ''impact_truncated'' ''reverse-impact traversal reached its request-wide edge-visit bound''] else []) @
     (if incomplete_summary before \<or> incomplete_summary after
      then [SenseIssue_new ''graph_truncated'' ''dependency/interface facts or confirmed edges/selectors exceeded a resource bound'']
      else []) @
     (if incomplete_dedup dedup
      then (if dedup_issues = []
            then [SenseIssue_new ''dedup_truncated''
                   ''duplicate fingerprint extraction, request collection, or exact comparison exceeded a resource bound'']
            else dedup_issues)
      else [])"

definition effective_policy :: "sense_options \<Rightarrow> effective_sense_policy" where
  "effective_policy options =
     \<lparr> esp_minimum_identical_bytes = sop_minimum_identical_bytes options, esp_minimum_callable_tokens = MIN_DEDUP_CALLABLE_TOKENS,
       esp_minimum_region_tokens = MIN_DEDUP_REGION_TOKENS, esp_max_dependency_targets = sop_max_dependency_targets options,
       esp_max_edge_selectors = sop_max_edge_selectors options, esp_max_module_exports = sop_max_module_exports options,
       esp_max_shape_members = sop_max_shape_members options, esp_important_fan_in = sop_high_impact_threshold options,
       esp_documentation_registry = DOCUMENTATION_REGISTRY_PATH, esp_excluded_paths = [] \<rparr>"

definition default_documentation_coverage :: documentation_coverage where
  "default_documentation_coverage =
     \<lparr> dcov_evaluated = False, dcov_before_registry = RegistryNotRead, dcov_after_registry = RegistryNotRead, dcov_before_bindings = 0,
       dcov_after_bindings = 0, dcov_documents_requested = 0, dcov_before_documents = 0, dcov_after_documents = 0,
       dcov_changed_documents = 0, dcov_public_surface_candidates = 0, dcov_authoritative_public_surfaces = 0,
       dcov_unavailable_public_surfaces = 0 \<rparr>"

record evaluation_context =
  ec_clock :: sense_clock
  ec_cache_before :: cache_metadata
  ec_unique_files_analyzed :: nat
  ec_unique_source_bytes :: nat

definition evaluation_truncation :: "graph_evaluation \<Rightarrow> report_truncation" where
  "evaluation_truncation graph =
     \<lparr> rt_findings = ge_findings_truncated graph, rt_observations = so_truncated (ge_observations graph),
       rt_impact = so_impact_truncated (ge_observations graph) \<rparr>"

definition build_report :: "crates \<Rightarrow> sense_request \<Rightarrow> graph_evaluation \<Rightarrow> evaluation_context \<Rightarrow> cache_metadata \<Rightarrow> sense_report" where
  "build_report K request graph context cache_after =
     (let truncation = evaluation_truncation graph;
          before = graph_summary K (srq_before request) (gmv_before (srq_go_modules request)) (ge_before_projection graph);
          after = graph_summary K (srq_after request) (gmv_after (srq_go_modules request)) (ge_after_projection graph)
      in \<lparr> sr_status = sense_status_of
             \<lparr> sti_before = ge_before_projection graph, sti_after = ge_after_projection graph,
               sti_has_findings = (ge_introduced_cycles graph \<noteq> [] \<or> ge_introduced_duplicates graph \<noteq> [] \<or> ge_interface_findings graph \<noteq> []),
               sti_truncation = truncation, sti_dedup = ge_dedup_coverage graph \<rparr>,
           sr_issues = report_issues truncation (ge_dedup_coverage graph) (ge_dedup_issues graph) before after,
           sr_introduced_cycles = ge_introduced_cycles graph, sr_introduced_duplicates = ge_introduced_duplicates graph,
           sr_interface_findings = ge_interface_findings graph, sr_documentation_requirements = [],
           sr_findings_truncated = ge_findings_truncated graph, sr_dedup_coverage = ge_dedup_coverage graph,
           sr_documentation_coverage = default_documentation_coverage, sr_observations = ge_observations graph,
           sr_effective_policy = effective_policy (srq_options request), sr_before = before, sr_after = after,
           sr_changed_files = sat_add (sat_add (length (srq_changed_paths request)) (srq_unsupported_changed_files request))
             (srq_dependency_metadata_changed_files request),
           sr_valid_as_of = srq_valid_as_of request, sr_provider = default_provider_metadata,
           sr_timing =
             \<lparr> stm_total_us = elapsed_us (ck_total (ec_clock context)), stm_capture_us = 0,
               stm_facts_us = elapsed_us (ck_facts (ec_clock context)), stm_resolution_us = ge_resolution_us graph,
               stm_cycles_us = ge_cycles_us graph, stm_observations_us = ge_observations_us graph, stm_dedup_us = ge_dedup_us graph,
               stm_documentation_us = 0, stm_render_us = 0, stm_unique_files_analyzed = ec_unique_files_analyzed context,
               stm_unique_source_bytes = ec_unique_source_bytes context \<rparr>,
           sr_cache = metadata_delta (ec_cache_before context) cache_after \<rparr>)"

section \<open>SenseEngine::evaluate\<close>

datatype sense_error = SenseSerialize | SenseAnalysis analysis_error | SensePanicked

definition request_context :: "sense_clock \<Rightarrow> cache_metadata \<Rightarrow> (file_fact_key, source_file) btree_map \<Rightarrow> evaluation_context" where
  "request_context clock cache_before files =
     \<lparr> ec_clock = clock, ec_cache_before = cache_before, ec_unique_files_analyzed = length files,
       ec_unique_source_bytes = sum_list (map (\<lambda>e. length (sf_bytes (snd e))) files) \<rparr>"

definition finish_request ::
    "crates \<Rightarrow> (bytes \<Rightarrow> bytes option) \<Rightarrow> sense_clock \<Rightarrow> sense_request \<Rightarrow> bytes \<Rightarrow> (analysis_error, fact_map) result
     \<Rightarrow> cache_metadata \<Rightarrow> cache_metadata \<Rightarrow> (sense_error, sense_report) result" where
  "finish_request K b64 clock request opts loaded cache_before cache_after =
     (let (files, fact_keys) = unique_files K (srq_before request) (srq_after request) opts
      in case loaded of
           Inl e \<Rightarrow> Inl (SenseAnalysis e)
         | Inr file_facts \<Rightarrow>
             (case evaluate_graph K b64 clock request file_facts fact_keys opts of
                None \<Rightarrow> Inl SensePanicked
              | Some graph \<Rightarrow> Inr (build_report K request graph (request_context clock cache_before files) cache_after)))"

inductive senses ::
    "crates \<Rightarrow> analyzers \<Rightarrow> 'c fact_cache_ops \<Rightarrow> (rule_limits \<Rightarrow> bytes option) \<Rightarrow> (bytes \<Rightarrow> bytes option) \<Rightarrow> bool \<Rightarrow> (nat \<Rightarrow> cancel_token)
     \<Rightarrow> sense_clock \<Rightarrow> sense_request \<Rightarrow> 'c \<Rightarrow> (sense_error, sense_report) result \<Rightarrow> 'c \<Rightarrow> bool"
  for K A ops to_vec b64 pool tok clock request c where
  unserializable: "to_vec (sop_limits (srq_options request)) = None \<Longrightarrow>
    senses K A ops to_vec b64 pool tok clock request c (Inl SenseSerialize) c"
| answered: "to_vec (sop_limits (srq_options request)) = Some opts \<Longrightarrow>
    loads K A ops pool (sop_limits (srq_options request)) opts tok (fst (unique_files K (srq_before request) (srq_after request) opts)) c loaded c' \<Longrightarrow>
    senses K A ops to_vec b64 pool tok clock request c
      (finish_request K b64 clock request opts loaded (fc_metadata ops c) (fc_metadata ops c')) c'"

inductive_cases sensesE: "senses K A ops to_vec b64 pool tok clock request c r c'"
inductive_cases loadsE: "loads K A ops pool limits opts tok files c r c'"

end
