(* ===== verification/Documentation.thy ===== *)
theory Documentation
  imports SenseEngine UniqueJson Languages "HOL-Library.Option_ord"
begin

text \<open>
  Documentation of important modules: \<^verbatim>\<open>src/documentation.rs\<close>, the registry that binds a source to its
  document, and \<^verbatim>\<open>src/sense/documentation.rs\<close>, the requirements a change puts on it. Reading JSON into
  the typed settings is code that \<^verbatim>\<open>serde\<close> derives, so it is a parameter, with the texts of its errors;
  the bytes of a document are those a capture of the repository holds.
\<close>

section \<open>The registry\<close>

definition DOCUMENTATION_REGISTRY_SCHEMA_VERSION :: nat where "DOCUMENTATION_REGISTRY_SCHEMA_VERSION = 1"
definition MAX_DOCUMENTATION_REGISTRY_BYTES :: nat where "MAX_DOCUMENTATION_REGISTRY_BYTES = 256 * 1024"
definition MAX_DOCUMENTATION_BINDINGS :: nat where "MAX_DOCUMENTATION_BINDINGS = 4096"

record documentation_binding =
  db_source :: repo_path
  db_document :: repo_path

record documentation_registry =
  dr_schema_version :: nat
  dr_bindings :: "documentation_binding list"

text \<open>\<^verbatim>\<open>slice::binary_search_by\<close>: the half of the range that may hold the key, down to one element.\<close>

function search_range :: "('a \<Rightarrow> ordering) \<Rightarrow> 'a list \<Rightarrow> nat \<Rightarrow> nat \<Rightarrow> nat" where
  "search_range f xs start len =
     (if len \<le> 1 then start
      else let half = len div 2; mid = start + half
           in search_range f xs (if f (xs ! mid) = Greater then start else mid) (len - half))"
  by pat_completeness auto
termination by (relation "measure (\<lambda>(f, xs, start, len). len)") auto

declare search_range.simps [simp del]

definition binary_search_by :: "('a \<Rightarrow> ordering) \<Rightarrow> 'a list \<Rightarrow> nat option" where
  "binary_search_by f xs =
     (if xs = [] then None
      else let i = search_range f xs 0 (length xs) in if f (xs ! i) = Equal then Some i else None)"

definition document_for :: "documentation_registry \<Rightarrow> repo_path \<Rightarrow> repo_path option" where
  "document_for registry source =
     map_option (\<lambda>i. db_document (dr_bindings registry ! i))
       (binary_search_by (\<lambda>b. cmp (db_source b) source) (dr_bindings registry))"

datatype registry_error =
    RegistryTooLarge | RegistryMalformed bytes | TooManyBindings | DuplicateSource repo_path
    | SelfBinding repo_path | RegistryAsDocument

text \<open>\<^verbatim>\<open>Display\<close>, from the attributes of the enumeration.\<close>

fun registry_error_text :: "registry_error \<Rightarrow> bytes" where
  "registry_error_text RegistryTooLarge =
     ''documentation registry exceeds '' @ show_nat MAX_DOCUMENTATION_REGISTRY_BYTES @ '' bytes''"
| "registry_error_text (RegistryMalformed message) = ''documentation registry is malformed: '' @ message"
| "registry_error_text TooManyBindings =
     ''documentation registry has more than '' @ show_nat MAX_DOCUMENTATION_BINDINGS @ '' bindings''"
| "registry_error_text (DuplicateSource path) =
     ''documentation registry contains duplicate source path '' @ display_lossless path"
| "registry_error_text (SelfBinding path) =
     ''documentation binding source and document must differ: '' @ display_lossless path"
| "registry_error_text RegistryAsDocument = ''documentation binding cannot use the registry as its document''"

fun validate_binding_list :: "repo_path btree_set \<Rightarrow> documentation_binding list \<Rightarrow> (registry_error, unit) result" where
  "validate_binding_list seen [] = Inr ()"
| "validate_binding_list seen (b # bs) =
     (if db_source b \<in> set seen then Inl (DuplicateSource (db_source b))
      else if db_source b = db_document b then Inl (SelfBinding (db_source b))
      else if as_utf8 (db_document b) = Some DOCUMENTATION_REGISTRY_PATH then Inl RegistryAsDocument
      else validate_binding_list (bs_insert (db_source b) seen) bs)"

definition validate_bindings :: "documentation_binding list \<Rightarrow> (registry_error, unit) result" where
  "validate_bindings bindings =
     (if length bindings > MAX_DOCUMENTATION_BINDINGS then Inl TooManyBindings else validate_binding_list [] bindings)"

text \<open>\<^verbatim>\<open>serde_json\<close>: the tokenizer of \<open>UniqueJson\<close>, its error texts, and the derived readers and writers.\<close>

record 'e serde =
  sd_deserialize :: "bytes \<Rightarrow> 'e visit"
  sd_trailing :: "bytes \<Rightarrow> 'e option"
  sd_error_text :: "'e json_error \<Rightarrow> bytes"
  sd_documentation_settings :: "json \<Rightarrow> (bytes, documentation_binding list) result"
  sd_to_string :: "json \<Rightarrow> bytes"

fun json_get :: "json \<Rightarrow> bytes \<Rightarrow> json option" where
  "json_get (Object kvs) key = bt_get kvs key"
| "json_get _ key = None"

fun json_as_u64 :: "json \<Rightarrow> nat option" where
  "json_as_u64 (Number (PosInt n)) = Some n"
| "json_as_u64 _ = None"

text \<open>The derived order compares the source and then the document.\<close>

definition sort_bindings :: "documentation_binding list \<Rightarrow> documentation_binding list" where
  "sort_bindings = sort_key (\<lambda>b. (db_source b, db_document b))"

definition parse_optional_documentation_registry ::
    "'e serde \<Rightarrow> bytes option \<Rightarrow> (registry_error, documentation_registry option) result" where
  "parse_optional_documentation_registry S contents =
     (case contents of
        None \<Rightarrow> Inr None
      | Some bs \<Rightarrow>
          if length bs > MAX_DOCUMENTATION_REGISTRY_BYTES then Inl RegistryTooLarge
          else case parse_unique_json (sd_deserialize S) (sd_trailing S) bs of
            Inl e \<Rightarrow> Inl (RegistryMalformed (sd_error_text S e))
          | Inr v \<Rightarrow>
              if Option.bind (json_get v ''schemaVersion'') json_as_u64 \<noteq> Some DOCUMENTATION_REGISTRY_SCHEMA_VERSION
              then Inl (RegistryMalformed (''schemaVersion must be '' @ show_nat DOCUMENTATION_REGISTRY_SCHEMA_VERSION))
              else case json_get v ''documentation'' of
                None \<Rightarrow> Inr None
              | Some documentation \<Rightarrow>
                  (case sd_documentation_settings S documentation of
                     Inl e \<Rightarrow> Inl (RegistryMalformed (''documentation: '' @ e))
                   | Inr bindings \<Rightarrow>
                       try_bind (validate_bindings bindings) (\<lambda>_.
                         Inr (Some \<lparr> dr_schema_version = DOCUMENTATION_REGISTRY_SCHEMA_VERSION,
                                     dr_bindings = sort_bindings bindings \<rparr>))))"

section \<open>Documents\<close>

record auxiliary_blob =
  ab_content_id :: content_id
  ab_bytes :: bytes

definition AuxiliaryBlob_new :: "crates \<Rightarrow> bytes \<Rightarrow> auxiliary_blob" where
  "AuxiliaryBlob_new K bs = \<lparr> ab_content_id = ContentId_of K bs, ab_bytes = bs \<rparr>"

record auxiliary_path_state =
  aps_before :: "auxiliary_blob option"
  aps_after :: "auxiliary_blob option"

definition content_changed :: "auxiliary_path_state \<Rightarrow> bool" where
  "content_changed s \<longleftrightarrow> map_option ab_content_id (aps_before s) \<noteq> map_option ab_content_id (aps_after s)"

type_synonym documents = "(repo_path, auxiliary_path_state) btree_map"

section \<open>Requirements\<close>

record documentation_policy =
  dp_important_fan_in :: nat
  dp_important_exports :: nat

record documentation_inputs =
  doi_nodes :: "important_node_observation list"
  doi_after_registry :: "documentation_registry option"
  doi_documents :: documents
  doi_policy :: documentation_policy
  doi_finding_limit :: nat

record documentation_result =
  drs_requirements :: "documentation_requirement list"
  drs_coverage_issues :: "sense_issue list"
  drs_findings_truncated :: bool
  drs_documents_requested :: nat
  drs_before_documents :: nat
  drs_after_documents :: nat
  drs_changed_documents :: nat
  drs_public_surface_candidates :: nat
  drs_authoritative_public_surfaces :: nat
  drs_unavailable_public_surfaces :: nat

definition important :: "nat \<Rightarrow> bool \<Rightarrow> nat \<Rightarrow> documentation_policy \<Rightarrow> bool" where
  "important fan_in surface_authoritative explicit_exports policy \<longleftrightarrow>
     fan_in \<ge> dp_important_fan_in policy \<or>
     (surface_authoritative \<and> explicit_exports > dp_important_exports policy)"

definition before_important :: "documentation_policy \<Rightarrow> important_node_observation \<Rightarrow> bool" where
  "before_important policy node =
     important (imp_before_confirmed_dependency_fan_in node) (imp_before_public_surface_authoritative node)
       (imp_before_explicit_exports node) policy"

definition after_important :: "documentation_policy \<Rightarrow> important_node_observation \<Rightarrow> bool" where
  "after_important policy node =
     important (imp_after_confirmed_dependency_fan_in node) (imp_after_public_surface_authoritative node)
       (imp_after_explicit_exports node) policy"

record doc_trigger =
  tr_newly_important :: bool
  tr_surface_changed :: bool
  tr_renamed :: bool
  tr_deleted :: bool

definition trigger_reasons :: "doc_trigger \<Rightarrow> documentation_reason list" where
  "trigger_reasons t =
     (if tr_newly_important t then [DocNewlyImportant] else []) @
     (if tr_surface_changed t then [DocPublicSurfaceChanged] else []) @
     (if tr_renamed t then [DocRenamed] else []) @
     (if tr_deleted t then [DocDeleted] else [])"

definition actionable :: "doc_trigger \<Rightarrow> bool" where
  "actionable t \<longleftrightarrow> tr_newly_important t \<or> tr_surface_changed t \<or> tr_renamed t \<or> tr_deleted t"

definition newly_important :: "important_node_observation \<Rightarrow> bool \<Rightarrow> bool" where
  "newly_important node after \<longleftrightarrow> imp_newly_important node \<and> after \<and> \<not> imp_deleted node"

definition surface_changed :: "important_node_observation \<Rightarrow> bool \<Rightarrow> bool" where
  "surface_changed node before \<longleftrightarrow> before \<and> \<not> imp_deleted node \<and> imp_public_surface_changed node"

definition trigger :: "important_node_observation \<Rightarrow> documentation_policy \<Rightarrow> doc_trigger option" where
  "trigger node policy =
     (let before = before_important policy node;
          after = after_important policy node;
          path_changed = (case imp_before_path node of None \<Rightarrow> False | Some p \<Rightarrow> p \<noteq> imp_path node);
          t = \<lparr> tr_newly_important = newly_important node after,
                tr_surface_changed = surface_changed node before,
                tr_renamed = (path_changed \<and> (before \<or> after)),
                tr_deleted = (imp_deleted node \<and> before) \<rparr>
      in if actionable t then Some t else None)"

definition python_public_surface_candidate ::
    "platform \<Rightarrow> important_node_observation \<Rightarrow> documentation_policy \<Rightarrow> bool" where
  "python_public_surface_candidate P node policy \<longleftrightarrow>
     \<not> imp_deleted node \<and> map_option fst (detect_language P (imp_path node)) = Some Python \<and>
     (before_important policy node \<or> after_important policy node)"

definition needs_evaluation :: "platform \<Rightarrow> important_node_observation list \<Rightarrow> documentation_policy \<Rightarrow> bool" where
  "needs_evaluation P nodes policy \<longleftrightarrow>
     list_ex (\<lambda>node. trigger node policy \<noteq> None \<or> python_public_surface_candidate P node policy) nodes"

definition registered_document :: "documentation_registry option \<Rightarrow> repo_path \<Rightarrow> repo_path option" where
  "registered_document registry path = Option.bind registry (\<lambda>r. document_for r path)"

definition reference_document ::
    "documentation_registry option \<Rightarrow> documentation_policy \<Rightarrow> important_node_observation \<Rightarrow> repo_path btree_set \<Rightarrow> repo_path btree_set" where
  "reference_document registry policy node paths =
     (case trigger node policy of
        None \<Rightarrow> paths
      | Some t \<Rightarrow>
          if tr_deleted t then paths
          else case registered_document registry (imp_path node) of
            None \<Rightarrow> paths
          | Some document \<Rightarrow> bs_insert document paths)"

definition referenced_documents ::
    "important_node_observation list \<Rightarrow> documentation_registry option \<Rightarrow> documentation_policy \<Rightarrow> repo_path btree_set" where
  "referenced_documents nodes registry policy = fold (reference_document registry policy) nodes []"

definition requirement ::
    "bytes \<Rightarrow> repo_path \<Rightarrow> repo_path option \<Rightarrow> repo_path option \<Rightarrow> documentation_reason list \<Rightarrow> documentation_requirement" where
  "requirement code path before_path document reasons =
     \<lparr> dreq_code = code, dreq_path = path, dreq_before_path = before_path, dreq_document = document, dreq_reasons = reasons \<rparr>"

definition evaluate_node ::
    "documentation_inputs \<Rightarrow> important_node_observation \<Rightarrow> doc_trigger \<Rightarrow> documentation_requirement list \<Rightarrow> documentation_requirement list" where
  "evaluate_node inputs node t requirements =
     (let before_source = (case imp_before_path node of Some p \<Rightarrow> p | None \<Rightarrow> imp_path node);
          reasons = trigger_reasons t;
          found = (\<lambda>code document. requirement code (imp_path node) (imp_before_path node) document reasons);
          requirements =
            (if tr_renamed t \<or> tr_deleted t
             then case registered_document (doi_after_registry inputs) before_source of
               None \<Rightarrow> requirements
             | Some document \<Rightarrow> requirements @ [found ''sense.documentation.stale_binding'' (Some document)]
             else requirements)
      in if tr_deleted t then requirements
         else case registered_document (doi_after_registry inputs) (imp_path node) of
           None \<Rightarrow> requirements @ [found ''sense.documentation.missing_binding'' None]
         | Some document \<Rightarrow>
             (case bt_get (doi_documents inputs) document of
                None \<Rightarrow> requirements @ [found ''sense.documentation.missing_document'' (Some document)]
              | Some state \<Rightarrow>
                  if aps_after state = None
                  then requirements @ [found ''sense.documentation.missing_document'' (Some document)]
                  else if tr_surface_changed t \<and> \<not> content_changed state
                  then requirements @ [found ''sense.documentation.document_not_updated'' (Some document)]
                  else requirements))"

definition python_public_surface_document ::
    "platform \<Rightarrow> documentation_inputs \<Rightarrow> important_node_observation \<Rightarrow> repo_path option" where
  "python_public_surface_document P inputs node =
     (if python_public_surface_candidate P node (doi_policy inputs)
      then registered_document (doi_after_registry inputs) (imp_path node) else None)"

definition count_document :: "auxiliary_path_state \<Rightarrow> nat \<times> nat \<times> nat \<Rightarrow> nat \<times> nat \<times> nat" where
  "count_document state counts =
     (case counts of (before, after, changed) \<Rightarrow>
        (sat_add before (of_bool (aps_before state \<noteq> None)), sat_add after (of_bool (aps_after state \<noteq> None)),
         sat_add changed (of_bool (content_changed state))))"

definition document_counts :: "documents \<Rightarrow> nat \<times> nat \<times> nat" where
  "document_counts documents = fold count_document (map snd documents) (0, 0, 0)"

text \<open>The five accumulators of the loop over the nodes.\<close>

record documentation_state =
  ds_requirements :: "documentation_requirement list"
  ds_coverage_issues :: "sense_issue list"
  ds_candidates :: nat
  ds_authoritative :: nat
  ds_unavailable :: nat

definition public_surface_issue :: "important_node_observation \<Rightarrow> repo_path \<Rightarrow> sense_issue" where
  "public_surface_issue node document =
     (SenseIssue_new ''sense.documentation.public_surface_unavailable''
        (''could not evaluate sense.documentation.document_not_updated for '' @ display_lossless (imp_path node) @
         '' and its registered document '' @ display_lossless document @
         '' because the Python public surface was not authoritative in both views''))\<lparr> si_paths := [imp_path node] \<rparr>"

definition observe_node ::
    "platform \<Rightarrow> documentation_inputs \<Rightarrow> important_node_observation \<Rightarrow> documentation_state \<Rightarrow> documentation_state" where
  "observe_node P inputs node st =
     (let st = (case trigger node (doi_policy inputs) of
                  None \<Rightarrow> st
                | Some t \<Rightarrow> st\<lparr> ds_requirements := evaluate_node inputs node t (ds_requirements st) \<rparr>)
      in case python_public_surface_document P inputs node of
           None \<Rightarrow> st
         | Some document \<Rightarrow>
             let st = st\<lparr> ds_candidates := sat_add (ds_candidates st) 1 \<rparr>
             in if imp_before_public_surface_authoritative node \<and> imp_after_public_surface_authoritative node
                then st\<lparr> ds_authoritative := sat_add (ds_authoritative st) 1 \<rparr>
                else st\<lparr> ds_unavailable := sat_add (ds_unavailable st) 1,
                         ds_coverage_issues := ds_coverage_issues st @ [public_surface_issue node document] \<rparr>)"

text \<open>The derived orders of the reasons and of the requirements.\<close>

fun reason_rank :: "documentation_reason \<Rightarrow> nat" where
  "reason_rank DocNewlyImportant = 0"
| "reason_rank DocPublicSurfaceChanged = 1"
| "reason_rank DocRenamed = 2"
| "reason_rank DocDeleted = 3"

definition requirement_key ::
    "documentation_requirement \<Rightarrow> bytes \<times> repo_path \<times> repo_path option \<times> repo_path option \<times> nat list" where
  "requirement_key r =
     (dreq_code r, dreq_path r, dreq_before_path r, dreq_document r, map reason_rank (dreq_reasons r))"

definition evaluate_documentation :: "platform \<Rightarrow> documentation_inputs \<Rightarrow> documentation_result" where
  "evaluate_documentation P inputs =
     (let st = fold (observe_node P inputs) (doi_nodes inputs)
                 \<lparr> ds_requirements = [], ds_coverage_issues = [], ds_candidates = 0, ds_authoritative = 0, ds_unavailable = 0 \<rparr>;
          requirements = sort_key requirement_key (ds_requirements st);
          coverage_issues = sort_key si_paths (ds_coverage_issues st);
          result_count = sat_add (length requirements) (length coverage_issues);
          limit = doi_finding_limit inputs;
          (kept, kept_issues) =
            (if length requirements \<ge> limit then (take limit requirements, [])
             else (requirements, take (limit - length requirements) coverage_issues));
          (before_documents, after_documents, changed_documents) = document_counts (doi_documents inputs)
      in \<lparr> drs_requirements = kept, drs_coverage_issues = kept_issues, drs_findings_truncated = (result_count > limit),
           drs_documents_requested = length (doi_documents inputs), drs_before_documents = before_documents,
           drs_after_documents = after_documents, drs_changed_documents = changed_documents,
           drs_public_surface_candidates = ds_candidates st, drs_authoritative_public_surfaces = ds_authoritative st,
           drs_unavailable_public_surfaces = ds_unavailable st \<rparr>)"

section \<open>Looking up a document\<close>

text \<open>Sources in strictly increasing order, what the search relies on.\<close>

definition registry_wf :: "documentation_registry \<Rightarrow> bool" where
  "registry_wf r \<longleftrightarrow> sorted_wrt (<) (map db_source (dr_bindings r))"

definition bound_to :: "documentation_registry option \<Rightarrow> repo_path \<Rightarrow> repo_path \<Rightarrow> bool" where
  "bound_to registry source document \<longleftrightarrow>
     (\<exists>r. registry = Some r \<and> \<lparr> db_source = source, db_document = document \<rparr> \<in> set (dr_bindings r))"

lemma search_range_one: "len \<le> 1 \<Longrightarrow> search_range f xs start len = start"
  by (subst search_range.simps) simp

lemma search_range_half:
  "\<not> len \<le> 1 \<Longrightarrow> search_range f xs start len =
     search_range f xs (if f (xs ! (start + len div 2)) = Greater then start else start + len div 2) (len - len div 2)"
  by (subst search_range.simps) (simp add: Let_def)

lemma search_range_holds:
  assumes mono: "\<And>i j. i < j \<Longrightarrow> j < length xs \<Longrightarrow> f (xs ! j) \<noteq> Greater \<Longrightarrow> f (xs ! i) = Less"
    and "start \<le> k" "k < start + len" "start + len \<le> length xs" "f (xs ! k) = Equal"
  shows "search_range f xs start len = k"
  using assms(2-5)
proof (induction len arbitrary: start rule: less_induct)
  case (less len)
  let ?half = "len div 2"
  let ?mid = "start + ?half"
  show ?case
  proof (cases "len \<le> 1")
    case True
    with less.prems show ?thesis by (simp add: search_range_one)
  next
    case False
    then have mid: "?mid < length xs" "0 < ?half" "?half \<le> len - ?half" "len - ?half < len" using less.prems(3) by auto
    have "k < ?mid" if "f (xs ! ?mid) = Greater"
    proof (rule ccontr)
      assume "\<not> k < ?mid"
      with that less.prems(4) have "?mid < k" by (metis linorder_neqE_nat ordering.distinct(5))
      with mono [of ?mid k] less.prems that show False by simp
    qed
    moreover have "?mid \<le> k" if "f (xs ! ?mid) \<noteq> Greater"
    proof (rule ccontr)
      assume "\<not> ?mid \<le> k"
      with mono [of k ?mid] mid(1) that less.prems(4) show False by simp
    qed
    ultimately show ?thesis
      using less.prems mid less.IH [OF mid(4), of start] less.IH [OF mid(4), of ?mid]
      unfolding search_range_half [OF False] by (cases "f (xs ! ?mid) = Greater") simp_all
  qed
qed

lemma search_range_bounds:
  "0 < len \<Longrightarrow> start \<le> search_range f xs start len \<and> search_range f xs start len < start + len"
proof (induction len arbitrary: start rule: less_induct)
  case (less len)
  show ?case
  proof (cases "len \<le> 1")
    case True
    with less.prems show ?thesis by (simp add: search_range_one)
  next
    case False
    let ?start = "if f (xs ! (start + len div 2)) = Greater then start else start + len div 2"
    have "?start \<le> search_range f xs ?start (len - len div 2) \<and> search_range f xs ?start (len - len div 2) < ?start + (len - len div 2)"
      using False by (intro less.IH) auto
    then show ?thesis unfolding search_range_half [OF False] by (cases "f (xs ! (start + len div 2)) = Greater") (simp, linarith, simp)
  qed
qed

lemma document_for_exact:
  assumes "registry_wf r"
  shows "document_for r source = Some document \<longleftrightarrow> bound_to (Some r) source document"
proof -
  let ?f = "\<lambda>b. cmp (db_source b) source" and ?bs = "dr_bindings r"
  have less: "db_source (?bs ! i) < db_source (?bs ! j)" if "i < j" "j < length ?bs" for i j
    using assms that by (auto simp: registry_wf_def sorted_wrt_iff_nth_less)
  have before: "cmp (db_source (?bs ! i)) source = Less" if "i < j" "j < length ?bs" "cmp (db_source (?bs ! j)) source \<noteq> Greater" for i j
    using less [OF that(1,2)] that(3) by (auto simp: cmp_def split: if_splits)
  have found: "binary_search_by ?f ?bs = Some k" if "k < length ?bs" "db_source (?bs ! k) = source" for k
  proof -
    have "search_range ?f ?bs 0 (length ?bs) = k"
      by (rule search_range_holds) (use that before in \<open>simp_all add: cmp_def\<close>)
    with that show ?thesis unfolding binary_search_by_def Let_def by (simp add: cmp_def) auto
  qed
  have sound: "k < length ?bs \<and> db_source (?bs ! k) = source" if "binary_search_by ?f ?bs = Some k" for k
    using that search_range_bounds [of "length ?bs" 0 ?f ?bs]
    by (auto simp: binary_search_by_def cmp_def Let_def split: if_splits)
  show ?thesis
    unfolding bound_to_def document_for_def
    by (auto simp: in_set_conv_nth dest!: sound)
      (metis found documentation_binding.select_convs(1,2) | metis documentation_binding.surjective unit_eq)+
qed

subsection \<open>What an accepted registry holds\<close>

definition binding_ok :: "documentation_binding \<Rightarrow> bool" where
  "binding_ok b \<longleftrightarrow> db_source b \<noteq> db_document b \<and> as_utf8 (db_document b) \<noteq> Some DOCUMENTATION_REGISTRY_PATH"

lemma validate_binding_list_Inr:
  "validate_binding_list seen bs = Inr () \<longleftrightarrow>
     distinct (map db_source bs) \<and> db_source ` set bs \<inter> set seen = {} \<and> (\<forall>b\<in>set bs. binding_ok b)"
  by (induction seen bs rule: validate_binding_list.induct) (auto simp: binding_ok_def)

lemma validate_bindings_Inr:
  "validate_bindings bs = Inr () \<longleftrightarrow>
     length bs \<le> MAX_DOCUMENTATION_BINDINGS \<and> distinct (map db_source bs) \<and> (\<forall>b\<in>set bs. binding_ok b)"
  by (auto simp: validate_bindings_def validate_binding_list_Inr)

lemma sort_bindings_wf:
  assumes "distinct (map db_source bs)"
  shows "sorted_wrt (<) (map db_source (sort_bindings bs))"
proof -
  have "sorted (map (\<lambda>b. (db_source b, db_document b)) (sort_bindings bs))" by (simp add: sort_bindings_def)
  then have "sorted (map db_source (sort_bindings bs))"
    unfolding sorted_map by (rule sorted_wrt_mono_rel [rotated]) (auto simp: less_eq_prod_def)
  moreover have "distinct (map db_source (sort_bindings bs))"
    using assms by (simp add: sort_bindings_def distinct_map)
  ultimately show ?thesis by (simp add: strict_sorted_iff)
qed

lemma parse_registry_Some:
  assumes "parse_optional_documentation_registry S contents = Inr (Some r)"
  obtains bs v documentation bindings
  where "contents = Some bs" "length bs \<le> MAX_DOCUMENTATION_REGISTRY_BYTES"
    "parse_unique_json (sd_deserialize S) (sd_trailing S) bs = Inr v"
    "json_get v ''documentation'' = Some documentation" "sd_documentation_settings S documentation = Inr bindings"
    "validate_bindings bindings = Inr ()" "dr_bindings r = sort_bindings bindings"
  using assms
  by (auto simp: parse_optional_documentation_registry_def try_bind_Inr_iff split: option.splits if_splits sum.splits)

lemma parsed_registry_wf:
  assumes "parse_optional_documentation_registry S contents = Inr registry"
  shows "pred_option registry_wf registry"
proof (cases registry)
  case (Some r)
  with assms have "parse_optional_documentation_registry S contents = Inr (Some r)" by simp
  then have "registry_wf r"
    by (elim parse_registry_Some) (simp add: registry_wf_def validate_bindings_Inr sort_bindings_wf)
  with Some show ?thesis by simp
qed simp

section \<open>What a change asks of the documentation\<close>

text \<open>The four occasions on which a module needs its document, read off the observation.\<close>

definition moved :: "documentation_policy \<Rightarrow> important_node_observation \<Rightarrow> bool" where
  "moved policy node \<longleftrightarrow>
     (\<exists>p. imp_before_path node = Some p \<and> p \<noteq> imp_path node) \<and> (before_important policy node \<or> after_important policy node)"

definition removed :: "documentation_policy \<Rightarrow> important_node_observation \<Rightarrow> bool" where
  "removed policy node \<longleftrightarrow> imp_deleted node \<and> before_important policy node"

definition became_important :: "documentation_policy \<Rightarrow> important_node_observation \<Rightarrow> bool" where
  "became_important policy node \<longleftrightarrow> imp_newly_important node \<and> after_important policy node \<and> \<not> imp_deleted node"

definition resurfaced :: "documentation_policy \<Rightarrow> important_node_observation \<Rightarrow> bool" where
  "resurfaced policy node \<longleftrightarrow> before_important policy node \<and> \<not> imp_deleted node \<and> imp_public_surface_changed node"

definition old_path :: "important_node_observation \<Rightarrow> repo_path" where
  "old_path node = (case imp_before_path node of Some p \<Rightarrow> p | None \<Rightarrow> imp_path node)"

text \<open>
  A module is documented when a moved or removed one has left no binding behind, and one that became
  important, changed its surface or moved is bound to a document of the candidate, which changed with the
  surface.
\<close>

definition documented ::
    "documentation_policy \<Rightarrow> documentation_registry option \<Rightarrow> documents \<Rightarrow> important_node_observation \<Rightarrow> bool" where
  "documented policy registry docs node \<longleftrightarrow>
     (moved policy node \<or> removed policy node \<longrightarrow> (\<forall>d. \<not> bound_to registry (old_path node) d)) \<and>
     (\<not> removed policy node \<and> (became_important policy node \<or> resurfaced policy node \<or> moved policy node) \<longrightarrow>
        (\<exists>d s. bound_to registry (imp_path node) d \<and> bt_get docs d = Some s \<and> aps_after s \<noteq> None \<and>
               (resurfaced policy node \<longrightarrow> content_changed s)))"

lemma trigger_conv:
  "trigger node policy =
     (if became_important policy node \<or> resurfaced policy node \<or> moved policy node \<or> removed policy node
      then Some \<lparr> tr_newly_important = became_important policy node, tr_surface_changed = resurfaced policy node,
                  tr_renamed = moved policy node, tr_deleted = removed policy node \<rparr>
      else None)"
  by (auto simp: trigger_def became_important_def resurfaced_def moved_def removed_def newly_important_def
      surface_changed_def actionable_def Let_def split: option.splits)

definition node_requirements :: "documentation_inputs \<Rightarrow> important_node_observation \<Rightarrow> documentation_requirement list" where
  "node_requirements inputs node =
     (case trigger node (doi_policy inputs) of None \<Rightarrow> [] | Some t \<Rightarrow> evaluate_node inputs node t [])"

definition node_issues :: "platform \<Rightarrow> documentation_inputs \<Rightarrow> important_node_observation \<Rightarrow> sense_issue list" where
  "node_issues P inputs node =
     (case python_public_surface_document P inputs node of
        None \<Rightarrow> []
      | Some document \<Rightarrow>
          if imp_before_public_surface_authoritative node \<and> imp_after_public_surface_authoritative node then []
          else [public_surface_issue node document])"

lemma evaluate_node_append: "evaluate_node inputs node t rs = rs @ evaluate_node inputs node t []"
  by (auto simp: evaluate_node_def Let_def split: option.splits)

lemma observe_node_lists:
  "ds_requirements (observe_node P inputs node st) = ds_requirements st @ node_requirements inputs node"
  "ds_coverage_issues (observe_node P inputs node st) = ds_coverage_issues st @ node_issues P inputs node"
  by (auto simp: observe_node_def node_requirements_def node_issues_def Let_def evaluate_node_append [of _ _ _ "ds_requirements st"]
      split: option.splits)

lemma observe_nodes_lists:
  "ds_requirements (fold (observe_node P inputs) nodes st) = ds_requirements st @ concat (map (node_requirements inputs) nodes)"
  "ds_coverage_issues (fold (observe_node P inputs) nodes st) = ds_coverage_issues st @ concat (map (node_issues P inputs) nodes)"
  by (induction nodes arbitrary: st) (simp_all add: observe_node_lists)

lemma registered_document_exact:
  assumes "pred_option registry_wf registry"
  shows "registered_document registry path = Some document \<longleftrightarrow> bound_to registry path document"
  using assms document_for_exact by (cases registry) (auto simp: registered_document_def bound_to_def)

lemma registered_document_None:
  assumes "pred_option registry_wf registry"
  shows "registered_document registry path = None \<longleftrightarrow> (\<forall>document. \<not> bound_to registry path document)"
  using registered_document_exact [OF assms] by (metis not_Some_eq)

lemma evaluate_node_Nil:
  fixes inputs node t
  defines "own \<equiv> registered_document (doi_after_registry inputs) (imp_path node)"
  shows "evaluate_node inputs node t [] = [] \<longleftrightarrow>
    (tr_renamed t \<or> tr_deleted t \<longrightarrow> registered_document (doi_after_registry inputs) (old_path node) = None) \<and>
    (\<not> tr_deleted t \<longrightarrow> (\<exists>d s. own = Some d \<and> bt_get (doi_documents inputs) d = Some s \<and> aps_after s \<noteq> None \<and>
       (tr_surface_changed t \<longrightarrow> content_changed s)))"
proof (cases own)
  case None
  then show ?thesis unfolding own_def evaluate_node_def old_path_def [symmetric] by (simp add: Let_def split: option.split)
next
  case (Some d)
  then show ?thesis unfolding own_def evaluate_node_def old_path_def [symmetric]
    by (cases "bt_get (doi_documents inputs) d") (simp_all add: Let_def split: option.split)
qed

lemma node_requirements_Nil:
  assumes "pred_option registry_wf (doi_after_registry inputs)"
  shows "node_requirements inputs node = [] \<longleftrightarrow>
    documented (doi_policy inputs) (doi_after_registry inputs) (doi_documents inputs) node"
proof -
  note exact = registered_document_exact [OF assms] and none = registered_document_None [OF assms]
  show ?thesis
    unfolding node_requirements_def trigger_conv documented_def exact [symmetric] none [symmetric]
    by (simp add: evaluate_node_Nil)
qed

lemma evaluate_node_path: "\<forall>r\<in>set (evaluate_node inputs node t []). dreq_path r = imp_path node"
  unfolding evaluate_node_def requirement_def Let_def by (simp split: option.split)

lemma node_requirements_path: "r \<in> set (node_requirements inputs node) \<Longrightarrow> dreq_path r = imp_path node"
  using evaluate_node_path by (auto simp: node_requirements_def split: option.splits)

lemma evaluate_documentation_fields:
  fixes P inputs
  defines "requirements \<equiv> sort_key requirement_key (concat (map (node_requirements inputs) (doi_nodes inputs)))"
    and "issues \<equiv> sort_key si_paths (concat (map (node_issues P inputs) (doi_nodes inputs)))"
  shows "drs_requirements (evaluate_documentation P inputs) = take (doi_finding_limit inputs) requirements"
    and "drs_coverage_issues (evaluate_documentation P inputs) = take (doi_finding_limit inputs - length requirements) issues"
    and "drs_findings_truncated (evaluate_documentation P inputs) \<longleftrightarrow>
      sat_add (length requirements) (length issues) > doi_finding_limit inputs"
  unfolding evaluate_documentation_def Let_def requirements_def issues_def
  by (auto simp: observe_nodes_lists split: prod.splits)

lemma evaluate_documentation_whole:
  assumes "\<not> drs_findings_truncated (evaluate_documentation P inputs)" and "doi_finding_limit inputs < usize_max"
  shows "set (drs_requirements (evaluate_documentation P inputs)) = (\<Union>node\<in>set (doi_nodes inputs). set (node_requirements inputs node))"
    and "set (drs_coverage_issues (evaluate_documentation P inputs)) = (\<Union>node\<in>set (doi_nodes inputs). set (node_issues P inputs node))"
  using assms unfolding evaluate_documentation_fields by (auto simp: sat_add_def min_def split: if_splits)

lemma requirement_names_undocumented:
  assumes "pred_option registry_wf (doi_after_registry inputs)"
    and "\<not> drs_findings_truncated (evaluate_documentation P inputs)" and "doi_finding_limit inputs < usize_max"
  shows "(\<exists>r\<in>set (drs_requirements (evaluate_documentation P inputs)). dreq_path r = path) \<longleftrightarrow>
    (\<exists>node\<in>set (doi_nodes inputs). imp_path node = path \<and>
       \<not> documented (doi_policy inputs) (doi_after_registry inputs) (doi_documents inputs) node)"
proof -
  have "documented (doi_policy inputs) (doi_after_registry inputs) (doi_documents inputs) node \<longleftrightarrow> set (node_requirements inputs node) = {}" for node
    using node_requirements_Nil [of inputs node] assms(1) by simp
  then show ?thesis
    unfolding evaluate_documentation_whole(1) [OF assms(2,3)] using node_requirements_path by fastforce
qed

end
