(* ===== verification/SenseCommand.thy ===== *)
theory SenseCommand
  imports Documentation
begin

text \<open>
  What the sensor's command does with a report: \<^verbatim>\<open>src/sense/cli.rs\<close>, with \<^verbatim>\<open>src/sense/hypothesis.rs\<close> and
  \<open>apply_hypothetical\<close> of \<^verbatim>\<open>src/source/git/auxiliary.rs\<close>. Documentation requirements are added from the
  registry and documents of the repository, the report is cut until its rendering fits the output bound,
  and its status decides whether the command succeeds. Captures of the repository (processes and files), the
  rendering to text and the clock are parameters.
\<close>

section \<open>Captures\<close>

definition MAX_AUXILIARY_PATHS :: nat where "MAX_AUXILIARY_PATHS = 4097"
definition MAX_TOTAL_AUXILIARY_BYTES :: nat where "MAX_TOTAL_AUXILIARY_BYTES = 32 * 1024 * 1024"
definition MAX_ASSESSMENT_BYTES :: nat where "MAX_ASSESSMENT_BYTES = 8 * 1024 * 1024"

datatype source_error =
    NotRepository | NotFound repo_path | Denied bytes | SourceChanged bytes | SourceIncomplete bytes | SourceInvalid bytes | SourceIo bytes

fun source_error_text :: "source_error \<Rightarrow> bytes" where
  "source_error_text NotRepository = ''not a Git worktree''"
| "source_error_text (NotFound path) = ''source path not found: '' @ display_lossless path"
| "source_error_text (Denied m) = ''source access denied: '' @ m"
| "source_error_text (SourceChanged m) = ''source changed during capture: '' @ m"
| "source_error_text (SourceIncomplete m) = ''source view is incomplete: '' @ m"
| "source_error_text (SourceInvalid m) = ''invalid source: '' @ m"
| "source_error_text (SourceIo m) = ''source I/O failed: '' @ m"

fun path_error_text :: "path_error \<Rightarrow> bytes" where
  "path_error_text Empty = ''repository path is empty''"
| "path_error_text Absolute = ''repository path must be relative''"
| "path_error_text InvalidComponent = ''repository path contains an empty, dot, or parent component''"
| "path_error_text Nul = ''repository path contains NUL''"
| "path_error_text TooLong = ''repository path exceeds '' @ show_nat MAX_REPOSITORY_PATH_BYTES @ '' bytes''"

record auxiliary_capture =
  ac_paths :: documents
  ac_valid_as_of :: bytes

type_synonym overlays = "(repo_path, bytes option) btree_map"

record hypothesis =
  hy_overlays :: overlays
  hy_digest :: bytes

datatype sense_input = InTree bytes "bytes option" | InWorktree | InStaged | InHypothetical

text \<open>The captures of the repository.\<close>

record git_repository =
  git_capture_auxiliary :: "repo_path btree_set \<Rightarrow> (source_error, auxiliary_capture) result"
  git_capture_staged_auxiliary :: "repo_path btree_set \<Rightarrow> (source_error, auxiliary_capture) result"
  git_capture_tree_auxiliary :: "repo_path btree_set \<Rightarrow> bytes \<Rightarrow> bytes option \<Rightarrow> (source_error, auxiliary_capture) result"

definition add_bounded_blob_length :: "nat \<Rightarrow> nat \<Rightarrow> repo_path \<Rightarrow> nat \<Rightarrow> (source_error, nat) result" where
  "add_bounded_blob_length total_length len path total_limit =
     (if len > MAX_SOURCE_BYTES
      then Inl (SourceIncomplete (display_lossless path @ '' exceeds '' @ show_nat MAX_SOURCE_BYTES @ '' bytes''))
      else let sum = sat_add total_length len
           in if sum > total_limit
              then Inl (SourceIncomplete (''Git blob read exceeds '' @ show_nat total_limit @ '' total bytes''))
              else Inr sum)"

definition add_blob :: "repo_path \<Rightarrow> auxiliary_blob option \<Rightarrow> nat \<Rightarrow> (source_error, nat) result" where
  "add_blob path blob total_length =
     (case blob of
        None \<Rightarrow> Inr total_length
      | Some b \<Rightarrow> add_bounded_blob_length total_length (length (ab_bytes b)) path MAX_TOTAL_AUXILIARY_BYTES)"

definition overlay_state :: "crates \<Rightarrow> overlays \<Rightarrow> repo_path \<Rightarrow> auxiliary_path_state \<Rightarrow> auxiliary_path_state" where
  "overlay_state K overlays path state =
     (let state = state\<lparr> aps_before := aps_after state \<rparr>
      in case bt_get overlays path of
           None \<Rightarrow> state
         | Some content \<Rightarrow> state\<lparr> aps_after := map_option (AuxiliaryBlob_new K) content \<rparr>)"

fun overlay_paths ::
    "crates \<Rightarrow> overlays \<Rightarrow> nat \<Rightarrow> nat \<Rightarrow> documents \<Rightarrow> (source_error, documents) result" where
  "overlay_paths K overlays before_total after_total [] = Inr []"
| "overlay_paths K overlays before_total after_total ((path, state) # rest) =
     (let state = overlay_state K overlays path state
      in try_bind (add_blob path (aps_before state) before_total) (\<lambda>before_total.
         try_bind (add_blob path (aps_after state) after_total) (\<lambda>after_total.
         try_bind (overlay_paths K overlays before_total after_total rest) (\<lambda>rest.
         Inr ((path, state) # rest)))))"

definition apply_hypothetical ::
    "crates \<Rightarrow> 'e serde \<Rightarrow> overlays \<Rightarrow> bytes \<Rightarrow> auxiliary_capture \<Rightarrow> (source_error, auxiliary_capture) result" where
  "apply_hypothetical K S overlays request_digest capture =
     try_bind (overlay_paths K overlays 0 0 (ac_paths capture)) (\<lambda>paths.
       Inr \<lparr> ac_paths = paths,
             ac_valid_as_of = sd_to_string S (Object
               [(''base'', String (ac_valid_as_of capture)), (''kind'', String ''git-auxiliary-hypothetical''),
                (''request'', String request_digest)]) \<rparr>)"

definition capture_auxiliary ::
    "crates \<Rightarrow> 'e serde \<Rightarrow> git_repository \<Rightarrow> repo_path btree_set \<Rightarrow> sense_input \<Rightarrow> hypothesis option
     \<Rightarrow> (source_error, auxiliary_capture) result" where
  "capture_auxiliary K S G paths input hypothesis =
     (case input of
        InWorktree \<Rightarrow> git_capture_auxiliary G paths
      | InStaged \<Rightarrow> git_capture_staged_auxiliary G paths
      | InTree target base \<Rightarrow> git_capture_tree_auxiliary G paths target base
      | InHypothetical \<Rightarrow>
          (case hypothesis of
             None \<Rightarrow> Inl (SourceInvalid ''missing hypothetical Sense request'')
           | Some h \<Rightarrow> try_bind (git_capture_auxiliary G paths) (apply_hypothetical K S (hy_overlays h) (hy_digest h))))"

section \<open>Hypothetical requests\<close>

datatype wire_change = ChangeWrite bytes bytes | ChangeDelete bytes

datatype overlay_error = OverlayPath path_error | DuplicateOverlay repo_path

fun change_parts :: "wire_change \<Rightarrow> bytes \<times> bytes option" where
  "change_parts (ChangeWrite path content) = (path, Some content)"
| "change_parts (ChangeDelete path) = (path, None)"

fun collect_overlay_list :: "overlays \<Rightarrow> wire_change list \<Rightarrow> (overlay_error, overlays) result" where
  "collect_overlay_list overlays [] = Inr overlays"
| "collect_overlay_list overlays (change # changes) =
     (case change_parts change of (path, content) \<Rightarrow>
        case from_protocol path of
          Inl e \<Rightarrow> Inl (OverlayPath e)
        | Inr path \<Rightarrow>
            if bt_get overlays path \<noteq> None then Inl (DuplicateOverlay path)
            else collect_overlay_list (bt_insert path content overlays) changes)"

definition collect_overlays :: "wire_change list \<Rightarrow> (overlay_error, overlays) result" where
  "collect_overlays changes = collect_overlay_list [] changes"

definition HYPOTHETICAL_REQUEST_SCHEMA_VERSION :: nat where "HYPOTHETICAL_REQUEST_SCHEMA_VERSION = 1"

record wire_request =
  wr_schema_version :: nat
  wr_changes :: "wire_change list"

datatype 'e hypothesis_error =
    RequestTooLarge | RequestJson "'e json_error" | RequestSchema bytes | RequestVersion | TooManyChanges | RequestOverlay overlay_error

text \<open>\<^verbatim>\<open>Hypothesis::read\<close> on the bytes of the request; \<open>wire\<close> is the derived reader of the schema.\<close>

definition read_hypothesis ::
    "crates \<Rightarrow> 'e serde \<Rightarrow> (json \<Rightarrow> (bytes, wire_request) result) \<Rightarrow> bytes \<Rightarrow> ('e hypothesis_error, hypothesis) result" where
  "read_hypothesis K S wire bs =
     (if length bs > MAX_FRAME_BYTES then Inl RequestTooLarge
      else case parse_unique_json (sd_deserialize S) (sd_trailing S) bs of
        Inl e \<Rightarrow> Inl (RequestJson e)
      | Inr v \<Rightarrow>
          (case wire v of
             Inl e \<Rightarrow> Inl (RequestSchema e)
           | Inr request \<Rightarrow>
               if wr_schema_version request \<noteq> HYPOTHETICAL_REQUEST_SCHEMA_VERSION then Inl RequestVersion
               else if length (wr_changes request) > MAX_FILES then Inl TooManyChanges
               else case collect_overlays (wr_changes request) of
                 Inl e \<Rightarrow> Inl (RequestOverlay e)
               | Inr overlays \<Rightarrow>
                   Inr \<lparr> hy_overlays = overlays,
                         hy_digest = ''sha256:'' @ hex_encode K (hash_domain K ''sense-hypothesis/v1'' [bs]) \<rparr>))"

section \<open>Documentation of a report\<close>

record documentation_captures =
  dcp_registry :: "auxiliary_capture option"
  dcp_documents :: "auxiliary_capture option"

definition no_captures :: documentation_captures where
  "no_captures = \<lparr> dcp_registry = None, dcp_documents = None \<rparr>"

record documentation_evaluation =
  dev_captures :: documentation_captures
  dev_after_registry :: "documentation_registry option"
  dev_policy :: documentation_policy

datatype registry_capture = CaptureReady documentation_evaluation | CaptureTerminal documentation_captures

definition mark_incomplete :: "bytes \<Rightarrow> bytes \<Rightarrow> sense_report \<Rightarrow> sense_report" where
  "mark_incomplete code message report =
     (let report = report\<lparr> sr_status := SenseIncomplete \<rparr>
      in if list_ex (\<lambda>issue. si_code issue = code) (sr_issues report) then report
         else report\<lparr> sr_issues := sr_issues report @ [SenseIssue_new code message] \<rparr>)"

definition bind_documentation_freshness :: "'e serde \<Rightarrow> documentation_captures \<Rightarrow> sense_report \<Rightarrow> sense_report" where
  "bind_documentation_freshness S captures report =
     (case dcp_registry captures of
        None \<Rightarrow> report
      | Some registry \<Rightarrow>
          report\<lparr> sr_valid_as_of := sd_to_string S (Object
            [(''documents'', case dcp_documents captures of None \<Rightarrow> Null | Some c \<Rightarrow> String (ac_valid_as_of c)),
             (''kind'', String ''git-sense''), (''registry'', String (ac_valid_as_of registry)),
             (''source'', String (sr_valid_as_of report))]) \<rparr>)"

definition parse_registry ::
    "'e serde \<Rightarrow> bytes option \<Rightarrow> documentation_registry_state \<times> documentation_registry option \<times> bytes option" where
  "parse_registry S contents =
     (case parse_optional_documentation_registry S contents of
        Inr (Some registry) \<Rightarrow> (RegistryValid, Some registry, None)
      | Inr None \<Rightarrow> (RegistryMissing, None, None)
      | Inl e \<Rightarrow> (RegistryInvalid, None, Some (registry_error_text e)))"

definition binding_count :: "documentation_registry option \<Rightarrow> nat" where
  "binding_count registry = (case registry of None \<Rightarrow> 0 | Some r \<Rightarrow> length (dr_bindings r))"

definition update_documentation_coverage ::
    "(documentation_coverage \<Rightarrow> documentation_coverage) \<Rightarrow> sense_report \<Rightarrow> sense_report" where
  "update_documentation_coverage f report =
     report\<lparr> sr_documentation_coverage := f (sr_documentation_coverage report) \<rparr>"

definition capture_documentation_registry ::
    "crates \<Rightarrow> 'e serde \<Rightarrow> git_repository \<Rightarrow> sense_input \<Rightarrow> hypothesis option \<Rightarrow> documentation_policy \<Rightarrow> sense_report
     \<Rightarrow> registry_capture \<times> sense_report" where
  "capture_documentation_registry K S G input hypothesis policy report =
     (case from_protocol DOCUMENTATION_REGISTRY_PATH of
        Inl e \<Rightarrow>
          (CaptureTerminal no_captures,
           mark_incomplete ''documentation_registry_path_invalid'' (''documentation registry path is invalid: '' @ path_error_text e) report)
      | Inr registry_path \<Rightarrow>
          (case capture_auxiliary K S G [registry_path] input hypothesis of
             Inl e \<Rightarrow>
               (CaptureTerminal no_captures,
                mark_incomplete ''documentation_registry_capture_failed''
                  (''could not capture exact documentation registry: '' @ source_error_text e)
                  (update_documentation_coverage
                    (\<lambda>c. c\<lparr> dcov_before_registry := RegistryUnavailable, dcov_after_registry := RegistryUnavailable \<rparr>) report))
           | Inr capture \<Rightarrow>
               let captures = \<lparr> dcp_registry = Some capture, dcp_documents = None \<rparr>
               in case bt_get (ac_paths capture) registry_path of
                    None \<Rightarrow>
                      (CaptureTerminal captures,
                       mark_incomplete ''documentation_registry_capture_missing''
                         ''exact documentation capture omitted the requested registry path'' report)
                  | Some state \<Rightarrow>
                      (case parse_registry S (map_option ab_bytes (aps_before state)) of
                         (before_state, before_registry, before_error) \<Rightarrow>
                       case parse_registry S (map_option ab_bytes (aps_after state)) of
                         (after_state, after_registry, after_error) \<Rightarrow>
                       let report = update_documentation_coverage
                             (\<lambda>c. c\<lparr> dcov_before_registry := before_state, dcov_after_registry := after_state,
                                     dcov_before_bindings := binding_count before_registry,
                                     dcov_after_bindings := binding_count after_registry \<rparr>) report
                       in case (if before_error \<noteq> None then before_error else after_error) of
                            Some e \<Rightarrow>
                              (CaptureTerminal captures,
                               bind_documentation_freshness S captures
                                 (mark_incomplete ''documentation_registry_invalid''
                                   (''documentation registry is invalid in a required view: '' @ e) report))
                          | None \<Rightarrow>
                              (CaptureReady \<lparr> dev_captures = captures, dev_after_registry = after_registry, dev_policy = policy \<rparr>,
                               report))))"

definition reported_findings :: "sense_report \<Rightarrow> nat" where
  "reported_findings report =
     sat_add (sat_add (length (sr_introduced_cycles report)) (length (sr_introduced_duplicates report)))
       (length (sr_interface_findings report))"

definition record_documentation :: "documentation_result \<Rightarrow> sense_report \<Rightarrow> sense_report" where
  "record_documentation result report =
     (let report = update_documentation_coverage
            (\<lambda>c. c\<lparr> dcov_documents_requested := drs_documents_requested result, dcov_before_documents := drs_before_documents result,
                    dcov_after_documents := drs_after_documents result, dcov_changed_documents := drs_changed_documents result,
                    dcov_public_surface_candidates := drs_public_surface_candidates result,
                    dcov_authoritative_public_surfaces := drs_authoritative_public_surfaces result,
                    dcov_unavailable_public_surfaces := drs_unavailable_public_surfaces result \<rparr>) report;
          report = report\<lparr> sr_documentation_requirements := drs_requirements result \<rparr>;
          report =
            (if drs_findings_truncated result
             then mark_incomplete ''findings_truncated'' ''sense findings exceeded the report bound''
                    (report\<lparr> sr_findings_truncated := True \<rparr>)
             else if sr_documentation_requirements report \<noteq> [] \<and> sr_status report = SenseClean
             then report\<lparr> sr_status := SenseFindings \<rparr>
             else report)
      in if drs_coverage_issues result \<noteq> []
         then report\<lparr> sr_issues := sr_issues report @ drs_coverage_issues result,
                      sr_status := (if sr_status report \<noteq> SenseIncomplete then SensePartial else sr_status report) \<rparr>
         else report)"

definition evaluate_documentation_files ::
    "crates \<Rightarrow> 'e serde \<Rightarrow> platform \<Rightarrow> git_repository \<Rightarrow> sense_input \<Rightarrow> hypothesis option \<Rightarrow> documentation_evaluation \<Rightarrow> sense_report
     \<Rightarrow> documentation_captures \<times> sense_report" where
  "evaluate_documentation_files K S P G input hypothesis ev report =
     (let nodes = so_important_nodes (sr_observations report);
          paths = referenced_documents nodes (dev_after_registry ev) (dev_policy ev);
          report = update_documentation_coverage (\<lambda>c. c\<lparr> dcov_documents_requested := length paths \<rparr>) report
      in if length paths > MAX_AUXILIARY_PATHS
         then (dev_captures ev, bind_documentation_freshness S (dev_captures ev)
                (mark_incomplete ''documentation_paths_truncated''
                  (show_nat (length paths) @ '' required documentation paths exceed limit '' @ show_nat MAX_AUXILIARY_PATHS) report))
         else case (if paths \<noteq> [] then map_sum (\<lambda>e. e) Some (capture_auxiliary K S G paths input hypothesis) else Inr None) of
           Inl e \<Rightarrow>
             (dev_captures ev, bind_documentation_freshness S (dev_captures ev)
                (mark_incomplete ''documentation_files_capture_failed''
                  (''could not capture exact documentation files: '' @ source_error_text e) report))
         | Inr documents \<Rightarrow>
             let captures = (case documents of None \<Rightarrow> dev_captures ev | Some c \<Rightarrow> (dev_captures ev)\<lparr> dcp_documents := Some c \<rparr>);
                 result = evaluate_documentation P
                   \<lparr> doi_nodes = nodes, doi_after_registry = dev_after_registry ev,
                     doi_documents = (case dcp_documents captures of None \<Rightarrow> [] | Some c \<Rightarrow> ac_paths c),
                     doi_policy = dev_policy ev, doi_finding_limit = MAX_SENSE_FINDINGS - reported_findings report \<rparr>
             in (captures, bind_documentation_freshness S captures (record_documentation result report)))"

definition report_documentation_policy :: "sense_report \<Rightarrow> documentation_policy" where
  "report_documentation_policy report =
     \<lparr> dp_important_fan_in = esp_important_fan_in (sr_effective_policy report),
       dp_important_exports = esp_max_module_exports (sr_effective_policy report) \<rparr>"

definition apply_documentation ::
    "crates \<Rightarrow> 'e serde \<Rightarrow> platform \<Rightarrow> git_repository \<Rightarrow> sense_input \<Rightarrow> hypothesis option \<Rightarrow> sense_report
     \<Rightarrow> documentation_captures \<times> sense_report" where
  "apply_documentation K S P G input hypothesis report =
     (if so_truncated (sr_observations report)
      then (no_captures,
            mark_incomplete ''documentation_input_truncated''
              ''documentation policy was not evaluated because important-node observations were bounded'' report)
      else let policy = report_documentation_policy report
           in if \<not> needs_evaluation P (so_important_nodes (sr_observations report)) policy then (no_captures, report)
              else case capture_documentation_registry K S G input hypothesis policy
                          (update_documentation_coverage (\<lambda>c. c\<lparr> dcov_evaluated := True \<rparr>) report) of
                (CaptureReady ev, report) \<Rightarrow> evaluate_documentation_files K S P G input hypothesis ev report
              | (CaptureTerminal captures, report) \<Rightarrow> (captures, report))"

section \<open>The bound of the output\<close>

definition truncate_half :: "'a list \<Rightarrow> bool \<times> 'a list" where
  "truncate_half items = (if length items \<le> 1 then (False, items) else (True, take (length items div 2) items))"

definition shrink_cycle :: "introduced_cycle \<Rightarrow> introduced_cycle" where
  "shrink_cycle c =
     c\<lparr> ic_members_truncated := (ic_members_truncated c \<or> ic_members c \<noteq> []), ic_members := [],
        ic_witness_truncated := (ic_witness_truncated c \<or> ic_witness c \<noteq> []), ic_witness := [] \<rparr>"

definition shrink_cycle_details :: "sense_report \<Rightarrow> bool \<times> sense_report" where
  "shrink_cycle_details report =
     (list_ex (\<lambda>c. ic_members c \<noteq> [] \<or> ic_witness c \<noteq> []) (sr_introduced_cycles report),
      report\<lparr> sr_introduced_cycles := map shrink_cycle (sr_introduced_cycles report) \<rparr>)"

definition shrink_impact :: "impact_observation \<Rightarrow> impact_observation" where
  "shrink_impact i =
     i\<lparr> impact_sample_truncated := (impact_sample_truncated i \<or> impact_sample i \<noteq> []), impact_sample := [] \<rparr>"

definition shrink_impact_samples :: "sense_report \<Rightarrow> bool \<times> sense_report" where
  "shrink_impact_samples report =
     (list_ex (\<lambda>i. impact_sample i \<noteq> []) (so_impact (sr_observations report)),
      report\<lparr> sr_observations := (sr_observations report)\<lparr> so_impact := map shrink_impact (so_impact (sr_observations report)) \<rparr> \<rparr>)"

definition shrink_duplicate :: "introduced_duplicate \<Rightarrow> introduced_duplicate" where
  "shrink_duplicate d =
     d\<lparr> idup_occurrences_truncated := (idup_occurrences_truncated d \<or> length (idup_occurrences d) > 1),
        idup_occurrences := take 1 (idup_occurrences d) \<rparr>"

definition shrink_duplicate_occurrences :: "sense_report \<Rightarrow> bool \<times> sense_report" where
  "shrink_duplicate_occurrences report =
     (list_ex (\<lambda>d. length (idup_occurrences d) > 1) (sr_introduced_duplicates report),
      report\<lparr> sr_introduced_duplicates := map shrink_duplicate (sr_introduced_duplicates report) \<rparr>)"

text \<open>\<^verbatim>\<open>max_by_key\<close> keeps the last of the longest lists.\<close>

definition longest_observation :: "nat list \<Rightarrow> nat \<times> nat" where
  "longest_observation lengths = fold (\<lambda>e best. if snd e \<ge> snd best then e else best) (enumerate 0 lengths) (0, 0)"

definition shrink_observations :: "sense_observations \<Rightarrow> bool \<times> sense_observations" where
  "shrink_observations obs =
     (case longest_observation [length (so_dependency_deltas obs), length (so_impact obs), length (so_high_impact_changes obs),
                                length (so_interfaces obs), length (so_important_nodes obs)] of
        (index, len) \<Rightarrow>
          if len = 0 then (False, obs)
          else let keep = len div 2;
                   obs = (if index = 0 then obs\<lparr> so_dependency_deltas := take keep (so_dependency_deltas obs) \<rparr>
                        else if index = 1 then obs\<lparr> so_impact := take keep (so_impact obs) \<rparr>
                        else if index = 2 then obs\<lparr> so_high_impact_changes := take keep (so_high_impact_changes obs) \<rparr>
                        else if index = 3 then obs\<lparr> so_interfaces := take keep (so_interfaces obs) \<rparr>
                        else obs\<lparr> so_important_nodes := take keep (so_important_nodes obs) \<rparr>)
               in (True, obs\<lparr> so_truncated := True \<rparr>))"

definition shrink_findings :: "sense_report \<Rightarrow> bool \<times> sense_report" where
  "shrink_findings report =
     (let (a, interfaces) = truncate_half (sr_interface_findings report);
          (b, requirements) = truncate_half (sr_documentation_requirements report);
          (c, cs) = truncate_half (sr_introduced_cycles report);
          (d, duplicates) = truncate_half (sr_introduced_duplicates report)
      in if a then (True, report\<lparr> sr_interface_findings := interfaces, sr_findings_truncated := True \<rparr>)
         else if b then (True, report\<lparr> sr_documentation_requirements := requirements, sr_findings_truncated := True \<rparr>)
         else if c then (True, report\<lparr> sr_introduced_cycles := cs, sr_findings_truncated := True \<rparr>)
         else if d then (True, report\<lparr> sr_introduced_duplicates := duplicates, sr_findings_truncated := True \<rparr>)
         else (False, report))"

definition shrink_report :: "sense_report \<Rightarrow> bool \<times> sense_report" where
  "shrink_report report =
     (let (a, report) = shrink_cycle_details report;
          (b, report) = shrink_impact_samples report;
          (c, report) = shrink_duplicate_occurrences report
      in if a \<or> b \<or> c then (True, report)
         else let (d, observations) = shrink_observations (sr_observations report);
                  report = report\<lparr> sr_observations := observations \<rparr>
              in if d then (True, report) else shrink_findings report)"

definition mark_output_truncated :: "sense_report \<Rightarrow> sense_report" where
  "mark_output_truncated report =
     (let report = report\<lparr> sr_status := SenseIncomplete, sr_observations := (sr_observations report)\<lparr> so_truncated := True \<rparr> \<rparr>
      in if list_ex (\<lambda>issue. si_code issue = ''output_truncated'') (sr_issues report) then report
         else report\<lparr> sr_issues := sr_issues report @
                [SenseIssue_new ''output_truncated'' ''sense evidence exceeded the output byte bound''] \<rparr>)"

text \<open>The report of a failed command.\<close>

definition empty_view :: graph_view_summary where
  "empty_view =
     \<lparr> gv_view_id = ''unavailable'', gv_files = 0, gv_runtime_edges = 0, gv_type_only_edges = 0, gv_structural_edges = 0,
       gv_coverage = default_resolution_coverage, gv_resolution_gaps = [], gv_resolution_gaps_truncated = False,
       gv_interface_edges = 0, gv_interface_coverage = default_interface_coverage \<rparr>"

definition incomplete_report :: "bytes \<Rightarrow> bytes \<Rightarrow> nat \<Rightarrow> sense_report" where
  "incomplete_report code message total_us =
     \<lparr> sr_status = SenseIncomplete, sr_issues = [SenseIssue_new code message], sr_introduced_cycles = [],
       sr_introduced_duplicates = [], sr_interface_findings = [], sr_documentation_requirements = [],
       sr_findings_truncated = False,
       sr_dedup_coverage = \<lparr> dc_before = default_fingerprint_coverage, dc_after = default_fingerprint_coverage \<rparr>,
       sr_documentation_coverage = default_documentation_coverage, sr_observations = default_sense_observations,
       sr_effective_policy = effective_policy default_sense_options, sr_before = empty_view, sr_after = empty_view,
       sr_changed_files = 0, sr_valid_as_of = ''unavailable'', sr_provider = default_provider_metadata,
       sr_timing =
         \<lparr> stm_total_us = total_us, stm_capture_us = 0, stm_facts_us = 0, stm_resolution_us = 0, stm_cycles_us = 0,
           stm_observations_us = 0, stm_dedup_us = 0, stm_documentation_us = 0, stm_render_us = 0,
           stm_unique_files_analyzed = 0, stm_unique_source_bytes = 0 \<rparr>,
       sr_cache = memory_metadata MemoryFactCache_new \<rparr>"

text \<open>Serialization and the text form.\<close>

record renderer =
  rd_to_json :: "sense_report \<Rightarrow> (bytes, bytes) result"
  rd_human_output :: "sense_report \<Rightarrow> bytes"

definition render_output :: "renderer \<Rightarrow> sense_report \<Rightarrow> bool \<Rightarrow> (bytes, bytes) result" where
  "render_output R report json =
     (if json then map_sum (\<lambda>e. e) (\<lambda>s. s @ [line_feed]) (rd_to_json R report) else Inr (rd_human_output R report))"

definition serialized_report_len :: "renderer \<Rightarrow> sense_report \<Rightarrow> (bytes, nat) result" where
  "serialized_report_len R report = map_sum (\<lambda>e. e) (\<lambda>s. sat_add (length s) 1) (rd_to_json R report)"

definition stamp_report :: "nat \<times> nat \<Rightarrow> sense_report \<Rightarrow> sense_report" where
  "stamp_report stamps report =
     report\<lparr> sr_timing := (sr_timing report)\<lparr> stm_render_us := fst stamps, stm_total_us := snd stamps \<rparr> \<rparr>"

text \<open>What the passes over the report leave to cut.\<close>

definition cycles_weight :: "introduced_cycle list \<Rightarrow> nat" where
  "cycles_weight cs = sum_list (map (\<lambda>c. 1 + length (ic_members c) + length (ic_witness c)) cs)"

definition duplicates_weight :: "introduced_duplicate list \<Rightarrow> nat" where
  "duplicates_weight ds = sum_list (map (\<lambda>d. 1 + length (idup_occurrences d)) ds)"

definition impact_weight :: "impact_observation list \<Rightarrow> nat" where
  "impact_weight xs = sum_list (map (\<lambda>i. 1 + length (impact_sample i)) xs)"

definition observations_weight :: "sense_observations \<Rightarrow> nat" where
  "observations_weight obs =
     impact_weight (so_impact obs) + length (so_dependency_deltas obs) + length (so_high_impact_changes obs) +
     length (so_interfaces obs) + length (so_important_nodes obs)"

definition report_weight :: "sense_report \<Rightarrow> nat" where
  "report_weight r =
     cycles_weight (sr_introduced_cycles r) + duplicates_weight (sr_introduced_duplicates r) +
     length (sr_interface_findings r) + length (sr_documentation_requirements r) + observations_weight (sr_observations r)"

lemma sum_list_map_strict:
  fixes f g :: "'a \<Rightarrow> nat"
  shows "(\<And>x. x \<in> set xs \<Longrightarrow> f x \<le> g x) \<Longrightarrow> y \<in> set xs \<Longrightarrow> f y < g y \<Longrightarrow> sum_list (map f xs) < sum_list (map g xs)"
proof (induction xs)
  case (Cons x xs)
  then have "sum_list (map f xs) \<le> sum_list (map g xs)" by (intro sum_list_mono) auto
  with Cons show ?case by (auto intro: add_less_le_mono add_le_less_mono)
qed simp

lemma sum_list_take_less:
  fixes f :: "'a \<Rightarrow> nat"
  assumes "n < length xs" and "\<And>x. 0 < f x"
  shows "sum_list (map f (take n xs)) < sum_list (map f xs)"
proof -
  have "sum_list (map f xs) = sum_list (map f (take n xs)) + sum_list (map f (drop n xs))"
    by (metis append_take_drop_id map_append sum_list_append)
  moreover have "drop n xs = xs ! n # drop (Suc n) xs" using assms(1) by (simp add: Cons_nth_drop_Suc)
  ultimately show ?thesis using assms(2) [of "xs ! n"] by simp
qed

lemma shrunk_cycles_weight:
  "cycles_weight (map shrink_cycle cs) \<le> cycles_weight cs"
  "c \<in> set cs \<Longrightarrow> ic_members c \<noteq> [] \<or> ic_witness c \<noteq> [] \<Longrightarrow> cycles_weight (map shrink_cycle cs) < cycles_weight cs"
  unfolding cycles_weight_def map_map o_def
  by (auto simp: shrink_cycle_def intro: sum_list_mono sum_list_map_strict)

lemma shrunk_duplicates_weight:
  "duplicates_weight (map shrink_duplicate ds) \<le> duplicates_weight ds"
  "d \<in> set ds \<Longrightarrow> length (idup_occurrences d) > 1 \<Longrightarrow> duplicates_weight (map shrink_duplicate ds) < duplicates_weight ds"
  unfolding duplicates_weight_def map_map o_def
  by (auto simp: shrink_duplicate_def intro: sum_list_mono sum_list_map_strict)

lemma shrunk_impact_weight:
  "impact_weight (map shrink_impact xs) \<le> impact_weight xs"
  "i \<in> set xs \<Longrightarrow> impact_sample i \<noteq> [] \<Longrightarrow> impact_weight (map shrink_impact xs) < impact_weight xs"
  unfolding impact_weight_def map_map o_def
  by (auto simp: shrink_impact_def intro: sum_list_mono sum_list_map_strict)

lemmas shrunk_weights = shrunk_cycles_weight shrunk_duplicates_weight shrunk_impact_weight

lemma halved_weights:
  "0 < length cs \<Longrightarrow> cycles_weight (take (length cs div 2) cs) < cycles_weight cs"
  "0 < length ds \<Longrightarrow> duplicates_weight (take (length ds div 2) ds) < duplicates_weight ds"
  "0 < length xs \<Longrightarrow> impact_weight (take (length xs div 2) xs) < impact_weight xs"
  unfolding cycles_weight_def duplicates_weight_def impact_weight_def by (rule sum_list_take_less; simp)+

lemma details_weight:
  "shrink_cycle_details r = (b, r') \<Longrightarrow> report_weight r' \<le> report_weight r \<and> (b \<longrightarrow> report_weight r' < report_weight r)"
  "shrink_impact_samples r = (b, r') \<Longrightarrow> report_weight r' \<le> report_weight r \<and> (b \<longrightarrow> report_weight r' < report_weight r)"
  "shrink_duplicate_occurrences r = (b, r') \<Longrightarrow> report_weight r' \<le> report_weight r \<and> (b \<longrightarrow> report_weight r' < report_weight r)"
  unfolding shrink_cycle_details_def shrink_impact_samples_def shrink_duplicate_occurrences_def report_weight_def observations_weight_def
  by (auto simp: list_ex_iff shrunk_weights)

lemma longest_observation_is:
  "longest_observation [a, b, c, d, e] = (i, n) \<Longrightarrow>
     (i = 0 \<and> n = a) \<or> (i = 1 \<and> n = b) \<or> (i = 2 \<and> n = c) \<or> (i = 3 \<and> n = d) \<or> (i = 4 \<and> n = e)"
  by (auto simp: longest_observation_def enumerate_eq_zip split: if_splits)

lemma shrink_observations_weight:
  assumes "shrink_observations obs = (True, obs')"
  shows "observations_weight obs' < observations_weight obs"
proof -
  obtain i n where l: "longest_observation [length (so_dependency_deltas obs), length (so_impact obs), length (so_high_impact_changes obs),
      length (so_interfaces obs), length (so_important_nodes obs)] = (i, n)" by fastforce
  have "0 < n" using assms l by (auto simp: shrink_observations_def split: if_splits)
  with longest_observation_is [OF l] assms show ?thesis
    unfolding shrink_observations_def l observations_weight_def
    by (elim disjE) (auto simp: Let_def halved_weights)
qed

lemma shrink_findings_weight:
  "shrink_findings r = (True, r') \<Longrightarrow> report_weight r' < report_weight r"
  unfolding shrink_findings_def truncate_half_def Let_def report_weight_def
  by (auto intro!: halved_weights(1,2) split: if_splits)

lemma shrink_report_weight:
  assumes "shrink_report r = (True, r')"
  shows "report_weight r' < report_weight r"
proof -
  obtain a r1 b r2 c r3 where steps: "shrink_cycle_details r = (a, r1)" "shrink_impact_samples r1 = (b, r2)" "shrink_duplicate_occurrences r2 = (c, r3)"
    by (metis surj_pair)
  note le = details_weight(1) [OF steps(1)] details_weight(2) [OF steps(2)] details_weight(3) [OF steps(3)]
  obtain d obs where obs: "shrink_observations (sr_observations r3) = (d, obs)" by fastforce
  show ?thesis
  proof (cases "a \<or> b \<or> c")
    case True
    with assms steps le show ?thesis by (auto simp: shrink_report_def)
  next
    case False
    note plain = this
    show ?thesis
    proof (cases d)
      case True
      with shrink_observations_weight obs have "report_weight (r3\<lparr> sr_observations := obs \<rparr>) < report_weight r3"
        by (simp add: report_weight_def)
      with True plain assms steps le obs show ?thesis by (auto simp: shrink_report_def)
    next
      case False
      with obs have "obs = sr_observations r3" by (auto simp: shrink_observations_def Let_def split: prod.splits if_splits)
      with False plain assms steps obs have "shrink_findings r3 = (True, r')" by (simp add: shrink_report_def)
      with shrink_findings_weight le show ?thesis by fastforce
    qed
  qed
qed

lemma untouched_weight [simp]:
  "report_weight (mark_output_truncated r) = report_weight r" "report_weight (stamp_report t r) = report_weight r"
  by (simp_all add: mark_output_truncated_def stamp_report_def report_weight_def observations_weight_def Let_def)

datatype prepare_error = Unrenderable bytes | CannotFit

text \<open>
  The loop of \<^verbatim>\<open>prepare_output\<close>: \<open>clock i\<close> are the render time and the total time the \<open>i\<close>-th pass
  measures.
\<close>

function prepare_loop ::
    "renderer \<Rightarrow> bool \<Rightarrow> (nat \<Rightarrow> nat \<times> nat) \<Rightarrow> nat \<Rightarrow> bool \<Rightarrow> sense_report \<Rightarrow> (prepare_error, bytes \<times> sense_report) result" where
  "prepare_loop R json clock i compact report =
     (let report = stamp_report (clock i) report
      in case render_output R report json of
           Inl e \<Rightarrow> Inl (Unrenderable e)
         | Inr rendered \<Rightarrow>
             (case (if json then Inr (length rendered) else serialized_report_len R report) of
                Inl e \<Rightarrow> Inl (Unrenderable e)
              | Inr assessment_bytes \<Rightarrow>
                  if length rendered \<le> MAX_ASSESSMENT_BYTES \<and> assessment_bytes \<le> MAX_ASSESSMENT_BYTES
                  then Inr (rendered, report)
                  else case shrink_report (mark_output_truncated report) of
                    (shrunk, report) \<Rightarrow>
                      if shrunk then prepare_loop R json clock (Suc i) compact report
                      else if compact then Inl CannotFit
                      else prepare_loop R json clock (Suc i) True
                             (incomplete_report ''output_too_large'' ''sense evidence could not fit the output byte bound''
                               (snd (clock i)))))"
  by pat_completeness auto
termination
  by (relation "measures [\<lambda>(R, json, clock, i, compact, report). if compact then 0 else 1,
                          \<lambda>(R, json, clock, i, compact, report). report_weight report]")
    (auto dest!: shrink_report_weight [OF sym] simp: untouched_weight)

declare prepare_loop.simps [simp del]

definition prepare_output ::
    "renderer \<Rightarrow> bool \<Rightarrow> (nat \<Rightarrow> nat \<times> nat) \<Rightarrow> sense_report \<Rightarrow> (prepare_error, bytes \<times> sense_report) result" where
  "prepare_output R json clock report = prepare_loop R json clock 0 False report"

section \<open>The verdict of the command\<close>

definition has_non_builtin_resolution_gap :: "resolution_coverage \<Rightarrow> bool" where
  "has_non_builtin_resolution_gap c \<longleftrightarrow>
     rc_unsupported_files c > 0 \<or> rc_parser_failed_files c > 0 \<or> rc_external_references c > rc_node_builtin_references c \<or>
     rc_ambiguous_references c > 0 \<or> rc_unresolved_references c > 0 \<or> rc_unsupported_dynamic_references c > 0"

definition has_interface_gap :: "interface_coverage \<Rightarrow> bool" where
  "has_interface_gap c \<longleftrightarrow>
     icov_partial_files c > 0 \<or> icov_unsupported_files c > 0 \<or> icov_parser_failed_files c > 0 \<or>
     icov_partial_public_surfaces c > 0 \<or> icov_unsupported_public_surfaces c > 0"

definition has_partial_dedup_gap :: "sense_report \<Rightarrow> bool" where
  "has_partial_dedup_gap report \<longleftrightarrow>
     fpc_unsupported_files (dc_before (sr_dedup_coverage report)) > 0 \<or> fpc_unsupported_files (dc_after (sr_dedup_coverage report)) > 0 \<or>
     fpc_parser_failed_files (dc_before (sr_dedup_coverage report)) > 0 \<or> fpc_parser_failed_files (dc_after (sr_dedup_coverage report)) > 0"

definition partial_only_for_node_builtins :: "sense_report \<Rightarrow> bool" where
  "partial_only_for_node_builtins report \<longleftrightarrow>
     (let views = [sr_before report, sr_after report];
          builtins = sum_list (map (\<lambda>view. rc_node_builtin_references (gv_coverage view)) views)
      in builtins > 0 \<and>
         list_all (\<lambda>view. \<not> has_non_builtin_resolution_gap (gv_coverage view) \<and> \<not> has_interface_gap (gv_interface_coverage view)) views \<and>
         \<not> so_impact_truncated (sr_observations report) \<and> \<not> has_partial_dedup_gap report \<and>
         dcov_unavailable_public_surfaces (sr_documentation_coverage report) = 0)"

definition partial_coverage_blocks :: "sense_report \<Rightarrow> bool \<Rightarrow> bool \<Rightarrow> bool" where
  "partial_coverage_blocks report allow_partial allow_node_builtins \<longleftrightarrow>
     sr_status report = SensePartial \<and> sr_changed_files report > 0 \<and> \<not> allow_partial \<and>
     \<not> (allow_node_builtins \<and> partial_only_for_node_builtins report)"

definition has_sense_findings :: "sense_report \<Rightarrow> bool" where
  "has_sense_findings report \<longleftrightarrow>
     sr_introduced_cycles report \<noteq> [] \<or> sr_introduced_duplicates report \<noteq> [] \<or> sr_interface_findings report \<noteq> [] \<or>
     sr_documentation_requirements report \<noteq> []"

datatype sense_refusal = DidNotComplete | PartialForNodeBuiltins | CoverageIsPartial | RequiresIntervention

definition enforce_report :: "sense_report \<Rightarrow> bool \<Rightarrow> bool \<Rightarrow> bool \<Rightarrow> (sense_refusal, unit) result" where
  "enforce_report report advisory allow_partial allow_node_builtins =
     (if sr_status report = SenseIncomplete then Inl DidNotComplete
      else if partial_coverage_blocks report allow_partial allow_node_builtins
      then Inl (if partial_only_for_node_builtins report then PartialForNodeBuiltins else CoverageIsPartial)
      else if \<not> advisory \<and> has_sense_findings report then Inl RequiresIntervention
      else Inr ())"

text \<open>
  The end of \<^verbatim>\<open>prepare_attempt\<close>, from the report of the engine to the report that is printed; the two
  durations are what the clock measured.
\<close>

definition conclude_report ::
    "crates \<Rightarrow> 'e serde \<Rightarrow> platform \<Rightarrow> git_repository \<Rightarrow> renderer \<Rightarrow> sense_input \<Rightarrow> hypothesis option \<Rightarrow> repo_path list \<Rightarrow> nat \<Rightarrow> nat
     \<Rightarrow> bool \<Rightarrow> (nat \<Rightarrow> nat \<times> nat) \<Rightarrow> sense_report \<Rightarrow> (prepare_error, documentation_captures \<times> bytes \<times> sense_report) result" where
  "conclude_report K S P G R input hypothesis exclude capture_us documentation_us json clock report =
     (let report = report\<lparr> sr_effective_policy := (sr_effective_policy report)\<lparr> esp_excluded_paths := exclude \<rparr>,
                           sr_timing := (sr_timing report)\<lparr> stm_capture_us := capture_us \<rparr> \<rparr>;
          (documentation, report) = apply_documentation K S P G input hypothesis report;
          report = report\<lparr> sr_timing := (sr_timing report)\<lparr> stm_documentation_us := documentation_us \<rparr> \<rparr>
      in map_sum (\<lambda>e. e) (\<lambda>output. (documentation, output)) (prepare_output R json clock report))"

end
