(* ===== verification/SenseVerdict.thy ===== *)
theory SenseVerdict
  imports SenseCommand
begin

text \<open>
  What the sensor's command promises: a rendered report fits the output bound and says so when it was cut,
  and a command that succeeds without an allowance has a clean report whose important modules are
  documented.
\<close>

section \<open>Cutting a report\<close>

text \<open>A list is kept when it is cut behind its first element at most.\<close>

definition kept :: "'a list \<Rightarrow> 'a list \<Rightarrow> bool" where
  "kept xs ys \<longleftrightarrow> (\<exists>n. ys = take n xs) \<and> (ys = [] \<longrightarrow> xs = [])"

lemma kept_refl [simp]: "kept xs xs"
  by (auto simp: kept_def intro: exI [of _ "length xs"])

lemma kept_trans: "kept xs ys \<Longrightarrow> kept ys zs \<Longrightarrow> kept xs zs"
  by (auto simp: kept_def)

lemma kept_half: "\<not> length xs \<le> 1 \<Longrightarrow> kept xs (take (length xs div 2) xs)"
  by (auto simp: kept_def)

lemma kept_Nil: "kept xs ys \<Longrightarrow> ys = [] \<longleftrightarrow> xs = []"
  by (auto simp: kept_def)

lemma kept_map_half: "\<not> length xs \<le> 1 \<Longrightarrow> kept (map f xs) (map f (take (length xs div 2) xs))"
  using kept_half [of "map f xs"] by (simp add: take_map)

text \<open>
  A cut report still names its findings: the first ones of each kind, each cycle by its trigger and each
  duplicate by its class, and the views they are about.
\<close>

definition cut_of :: "sense_report \<Rightarrow> sense_report \<Rightarrow> bool" where
  "cut_of r r' \<longleftrightarrow>
     kept (map ic_trigger (sr_introduced_cycles r)) (map ic_trigger (sr_introduced_cycles r')) \<and>
     kept (map idup_class_id (sr_introduced_duplicates r)) (map idup_class_id (sr_introduced_duplicates r')) \<and>
     kept (sr_interface_findings r) (sr_interface_findings r') \<and>
     kept (sr_documentation_requirements r) (sr_documentation_requirements r') \<and>
     sr_before r' = sr_before r \<and> sr_after r' = sr_after r \<and> sr_changed_files r' = sr_changed_files r"

lemma cut_of_refl [simp]: "cut_of r r"
  by (simp add: cut_of_def)

lemma cut_of_trans: "cut_of r s \<Longrightarrow> cut_of s t \<Longrightarrow> cut_of r t"
  by (auto simp: cut_of_def intro: kept_trans)

lemma cut_of_findings: "cut_of r r' \<Longrightarrow> has_sense_findings r' \<longleftrightarrow> has_sense_findings r"
  by (auto simp: cut_of_def has_sense_findings_def dest!: kept_Nil)

lemma shrunk_names:
  "map ic_trigger (map shrink_cycle cs) = map ic_trigger cs"
  "map idup_class_id (map shrink_duplicate ds) = map idup_class_id ds"
  by (simp_all add: shrink_cycle_def shrink_duplicate_def)

lemma cut_details:
  "cut_of r (snd (shrink_cycle_details r))" "cut_of r (snd (shrink_impact_samples r))"
  "cut_of r (snd (shrink_duplicate_occurrences r))"
  by (simp_all add: cut_of_def shrink_cycle_details_def shrink_impact_samples_def shrink_duplicate_occurrences_def shrunk_names del: map_map)

lemma cut_findings: "cut_of r (snd (shrink_findings r))"
  unfolding shrink_findings_def truncate_half_def Let_def
  by (auto simp: cut_of_def kept_half kept_map_half)

lemma cut_observations [simp]: "cut_of r (r\<lparr> sr_observations := obs \<rparr>)"
  by (simp add: cut_of_def)

lemma cut_shrink_report: "cut_of r (snd (shrink_report r))"
proof -
  obtain a r1 b r2 c r3 where steps: "shrink_cycle_details r = (a, r1)" "shrink_impact_samples r1 = (b, r2)" "shrink_duplicate_occurrences r2 = (c, r3)"
    by (metis surj_pair)
  have "cut_of r r3"
    using cut_details(1) [of r] cut_details(2) [of r1] cut_details(3) [of r2] steps by (auto intro: cut_of_trans)
  moreover have "cut_of r3 (snd (shrink_findings (r3\<lparr> sr_observations := obs \<rparr>)))" for obs
    by (rule cut_of_trans [OF cut_observations cut_findings])
  ultimately show ?thesis
    by (auto simp: shrink_report_def steps Let_def split: prod.splits intro: cut_of_trans)
qed

lemma cut_stamp [simp]: "cut_of r (stamp_report t r)"
  by (simp add: cut_of_def stamp_report_def)

lemma cut_mark [simp]: "cut_of r (mark_output_truncated r)"
  by (simp add: cut_of_def mark_output_truncated_def Let_def)

text \<open>A report that was cut says so.\<close>

definition says_cut :: "sense_report \<Rightarrow> bool" where
  "says_cut r \<longleftrightarrow> sr_status r = SenseIncomplete \<and> (\<exists>issue\<in>set (sr_issues r). si_code issue = ''output_truncated'')"

lemma says_cut_mark: "says_cut (mark_output_truncated r)"
  by (auto simp: says_cut_def mark_output_truncated_def SenseIssue_new_def Let_def list_ex_iff)

lemma shrink_report_keeps: "sr_status (snd (shrink_report r)) = sr_status r" "sr_issues (snd (shrink_report r)) = sr_issues r"
  by (simp_all add: shrink_report_def shrink_cycle_details_def shrink_impact_samples_def shrink_duplicate_occurrences_def
      shrink_findings_def Let_def split: prod.splits)

lemma says_cut_stamp: "says_cut (stamp_report t r) = says_cut r"
  by (simp add: says_cut_def stamp_report_def)

lemma says_cut_shrink: "shrink_report (mark_output_truncated r) = (b, r') \<Longrightarrow> says_cut r'"
  using says_cut_mark [of r] shrink_report_keeps [of "mark_output_truncated r"] by (simp add: says_cut_def)

definition says_too_large :: "sense_report \<Rightarrow> bool" where
  "says_too_large r \<longleftrightarrow> sr_status r = SenseIncomplete \<and> (\<exists>issue\<in>set (sr_issues r). si_code issue = ''output_too_large'')"

definition compact_report :: "nat \<Rightarrow> sense_report" where
  "compact_report t = incomplete_report ''output_too_large'' ''sense evidence could not fit the output byte bound'' t"

lemma says_too_large_keeps:
  "says_too_large (compact_report t)" "says_too_large (stamp_report u r) = says_too_large r"
  "says_too_large r \<Longrightarrow> says_too_large (mark_output_truncated r)" "says_too_large (snd (shrink_report r)) = says_too_large r"
  by (auto simp: says_too_large_def compact_report_def incomplete_report_def SenseIssue_new_def stamp_report_def
      mark_output_truncated_def Let_def shrink_report_keeps)

text \<open>A rendering within the bound, of the output and of the report itself.\<close>

definition fits :: "renderer \<Rightarrow> bool \<Rightarrow> sense_report \<Rightarrow> bytes \<Rightarrow> bool" where
  "fits R json r rendered \<longleftrightarrow> render_output R r json = Inr rendered \<and> length rendered \<le> MAX_ASSESSMENT_BYTES \<and>
     (\<exists>n\<le>MAX_ASSESSMENT_BYTES. serialized_report_len R r = Inr n)"

text \<open>One pass: the rendering fits, or the report is cut, or it is replaced.\<close>

lemma prepare_loop_pass:
  fixes R json clock i report
  defines "r \<equiv> stamp_report (clock i) report"
  shows "(\<exists>rendered. fits R json r rendered \<and> prepare_loop R json clock i compact report = Inr (rendered, r)) \<or>
    (\<exists>e. rd_to_json R r = Inl e \<and> prepare_loop R json clock i compact report = Inl (Unrenderable e)) \<or>
    (\<not> Ex (fits R json r) \<and> (\<exists>r'. shrink_report (mark_output_truncated r) = (True, r') \<and>
       prepare_loop R json clock i compact report = prepare_loop R json clock (Suc i) compact r')) \<or>
    (\<not> Ex (fits R json r) \<and> prepare_loop R json clock i compact report =
       (if compact then Inl CannotFit else prepare_loop R json clock (Suc i) True (compact_report (snd (clock i)))))"
proof (cases "render_output R r json")
  case (Inl e)
  then have "rd_to_json R r = Inl e" by (cases "rd_to_json R r") (auto simp: render_output_def split: if_splits)
  moreover have "prepare_loop R json clock i compact report = Inl (Unrenderable e)"
    using Inl by (subst prepare_loop.simps) (simp add: r_def)
  ultimately show ?thesis by blast
next
  case (Inr rendered)
  note out = this
  show ?thesis
  proof (cases "rd_to_json R r")
    case (Inl e)
    then have "\<not> json" using out by (auto simp: render_output_def)
    with Inl out have "prepare_loop R json clock i compact report = Inl (Unrenderable e)"
      by (subst prepare_loop.simps) (simp add: r_def serialized_report_len_def)
    with Inl show ?thesis by blast
  next
    case (Inr s)
    let ?n = "if json then length rendered else sat_add (length s) 1"
    have len: "(if json then Inr (length rendered) else serialized_report_len R r) = Inr ?n"
      using Inr by (simp add: serialized_report_len_def)
    have fit: "fits R json r rendered \<longleftrightarrow> length rendered \<le> MAX_ASSESSMENT_BYTES \<and> ?n \<le> MAX_ASSESSMENT_BYTES"
      using Inr out by (auto simp: fits_def serialized_report_len_def render_output_def sat_add_def)
    have only: "fits R json r x \<Longrightarrow> x = rendered" for x using out by (simp add: fits_def)
    have loop: "prepare_loop R json clock i compact report =
      (if fits R json r rendered then Inr (rendered, r)
       else case shrink_report (mark_output_truncated r) of
         (shrunk, report) \<Rightarrow>
           if shrunk then prepare_loop R json clock (Suc i) compact report
           else if compact then Inl CannotFit else prepare_loop R json clock (Suc i) True (compact_report (snd (clock i))))"
      unfolding fit compact_report_def
      by (subst prepare_loop.simps) (simp only: Let_def r_def [symmetric] out sum.case len)
    show ?thesis
    proof (cases "fits R json r rendered")
      case True
      with loop show ?thesis by simp
    next
      case False
      moreover from this have "\<not> Ex (fits R json r)" using only by auto
      ultimately show ?thesis by (cases "shrink_report (mark_output_truncated r)") (auto simp: loop)
    qed
  qed
qed

lemma shrunk_lighter:
  "shrink_report (mark_output_truncated (stamp_report t r)) = (True, r') \<Longrightarrow> report_weight r' < report_weight r"
  by (drule shrink_report_weight) simp

lemma cut_of_shrunk:
  "shrink_report (mark_output_truncated (stamp_report t r)) = (b, r') \<Longrightarrow> cut_of r r'"
  by (metis cut_mark cut_of_trans cut_shrink_report cut_stamp snd_conv)

lemma prepare_compact:
  "says_too_large report \<Longrightarrow> prepare_loop R json clock i True report = Inr (rendered, r') \<Longrightarrow>
   fits R json r' rendered \<and> says_too_large r'"
proof (induction report arbitrary: i rule: measure_induct_rule [of report_weight])
  case (less report)
  consider "fits R json r' rendered \<and> r' = stamp_report (clock i) report"
    | r1 where "shrink_report (mark_output_truncated (stamp_report (clock i) report)) = (True, r1)"
        "prepare_loop R json clock (Suc i) True r1 = Inr (rendered, r')"
    using prepare_loop_pass [of R json clock i report True] less.prems(2) by auto
  then show ?case
  proof cases
    case 1
    with less.prems(1) show ?thesis by (auto simp: says_too_large_keeps)
  next
    case (2 r1)
    moreover have "says_too_large r1"
      using says_too_large_keeps(2-4) less.prems(1) 2(1) by (metis snd_conv)
    ultimately show ?thesis using less.IH [of r1 "Suc i"] shrunk_lighter by blast
  qed
qed

lemma prepare_full:
  "prepare_loop R json clock i False report = Inr (rendered, r') \<Longrightarrow>
   fits R json r' rendered \<and>
   (r' = stamp_report (clock i) report \<or> says_cut r' \<and> cut_of report r' \<or> says_too_large r')"
proof (induction report arbitrary: i rule: measure_induct_rule [of report_weight])
  case (less report)
  consider "fits R json r' rendered \<and> r' = stamp_report (clock i) report"
    | r1 where "shrink_report (mark_output_truncated (stamp_report (clock i) report)) = (True, r1)"
        "prepare_loop R json clock (Suc i) False r1 = Inr (rendered, r')"
    | "prepare_loop R json clock (Suc i) True (compact_report (snd (clock i))) = Inr (rendered, r')"
    using prepare_loop_pass [of R json clock i report False] less.prems by auto
  then show ?case
  proof cases
    case 1
    then show ?thesis by auto
  next
    case (2 r1)
    have r1: "says_cut r1" "cut_of report r1" using 2(1) says_cut_shrink cut_of_shrunk by blast+
    have "fits R json r' rendered \<and>
       (r' = stamp_report (clock (Suc i)) r1 \<or> says_cut r' \<and> cut_of r1 r' \<or> says_too_large r')"
      using less.IH [of r1 "Suc i"] 2 shrunk_lighter by blast
    with r1 show ?thesis by (metis cut_of_trans cut_stamp says_cut_stamp)
  next
    case 3
    with prepare_compact says_too_large_keeps(1) show ?thesis by blast
  qed
qed

lemma prepare_returns:
  assumes "\<And>r. \<exists>s. rd_to_json R r = Inr s" and "\<And>t u. \<exists>rendered. fits R json (stamp_report u (compact_report t)) rendered"
  shows "\<exists>rendered r'. prepare_loop R json clock i False report = Inr (rendered, r')"
proof (induction report arbitrary: i rule: measure_induct_rule [of report_weight])
  case (less report)
  have "\<nexists>e. rd_to_json R r = Inl e" for r using assms(1) [of r] by auto
  moreover have "\<exists>rendered r'. prepare_loop R json clock (Suc i) True (compact_report t) = Inr (rendered, r')" for t
    using prepare_loop_pass [of R json clock "Suc i" "compact_report t" True] assms by (metis sum.distinct(1))
  ultimately show ?case
    using prepare_loop_pass [of R json clock i report False] less.IH shrunk_lighter by (metis (full_types))
qed

section \<open>Documentation of a clean report\<close>

text \<open>The registry and the documents of the candidate, as the command captured them.\<close>

definition registry_path :: repo_path where
  "registry_path = RepoPath DOCUMENTATION_REGISTRY_PATH"

lemma registry_path_valid: "from_protocol DOCUMENTATION_REGISTRY_PATH = Inr registry_path"
  unfolding registry_path_def DOCUMENTATION_REGISTRY_PATH_def by code_simp

definition captured_registry :: "'e serde \<Rightarrow> documentation_captures \<Rightarrow> documentation_registry option" where
  "captured_registry S captures =
     (case Option.bind (dcp_registry captures) (\<lambda>c. bt_get (ac_paths c) registry_path) of
        None \<Rightarrow> None
      | Some state \<Rightarrow> fst (snd (parse_registry S (map_option ab_bytes (aps_after state)))))"

definition captured_documents :: "documentation_captures \<Rightarrow> documents" where
  "captured_documents captures = (case dcp_documents captures of None \<Rightarrow> [] | Some c \<Rightarrow> ac_paths c)"

lemma parse_registry_wf: "pred_option registry_wf (fst (snd (parse_registry S contents)))"
  using parsed_registry_wf [of S contents] by (auto simp: parse_registry_def split: sum.split option.split)

lemma captured_registry_wf: "pred_option registry_wf (captured_registry S captures)"
  unfolding captured_registry_def using parse_registry_wf by (auto split: option.split)

lemma mark_incomplete_status [simp]: "sr_status (mark_incomplete code message r) = SenseIncomplete"
  by (simp add: mark_incomplete_def Let_def)

lemma freshness_keeps [simp]:
  "sr_status (bind_documentation_freshness S cp r) = sr_status r"
  "has_sense_findings (bind_documentation_freshness S cp r) = has_sense_findings r"
  by (auto simp: bind_documentation_freshness_def has_sense_findings_def split: option.split)

lemma coverage_keeps [simp]:
  "sr_status (update_documentation_coverage f r) = sr_status r"
  "sr_observations (update_documentation_coverage f r) = sr_observations r"
  "has_sense_findings (update_documentation_coverage f r) = has_sense_findings r"
  "reported_findings (update_documentation_coverage f r) = reported_findings r"
  by (auto simp: update_documentation_coverage_def has_sense_findings_def reported_findings_def)

text \<open>Until the registry was read, a report ends as incomplete; afterwards only the coverage has changed.\<close>

lemma capture_registry_cases:
  assumes "capture_documentation_registry K S G input hypothesis policy r = (out, r')"
  obtains (terminal) captures where "out = CaptureTerminal captures" "sr_status r' = SenseIncomplete"
  | (ready) captures f where
      "out = CaptureReady \<lparr> dev_captures = captures, dev_after_registry = captured_registry S captures, dev_policy = policy \<rparr>"
      "r' = update_documentation_coverage f r" "dcp_documents captures = None"
proof -
  show ?thesis
  proof (cases "capture_auxiliary K S G [registry_path] input hypothesis")
    case (Inl e)
    with assms show ?thesis by (auto simp: capture_documentation_registry_def registry_path_valid intro: terminal)
  next
    case (Inr capture)
    show ?thesis
    proof (cases "bt_get (ac_paths capture) registry_path")
      case None
      with assms Inr show ?thesis by (auto simp: capture_documentation_registry_def registry_path_valid intro: terminal)
    next
      case (Some state)
      obtain sb rb eb sa ra ea where parsed:
        "parse_registry S (map_option ab_bytes (aps_before state)) = (sb, rb, eb)"
        "parse_registry S (map_option ab_bytes (aps_after state)) = (sa, ra, ea)" by (metis surj_pair)
      with Inr Some have "captured_registry S \<lparr> dcp_registry = Some capture, dcp_documents = None \<rparr> = ra"
        by (simp add: captured_registry_def)
      with assms Inr Some parsed show ?thesis
        by (auto simp: capture_documentation_registry_def registry_path_valid Let_def split: option.splits if_splits
            intro: terminal ready)
    qed
  qed
qed

definition structural_findings :: "sense_report \<Rightarrow> bool" where
  "structural_findings r \<longleftrightarrow> sr_introduced_cycles r \<noteq> [] \<or> sr_introduced_duplicates r \<noteq> [] \<or> sr_interface_findings r \<noteq> []"

text \<open>What recording the requirements does to the verdict.\<close>

lemma record_documentation_verdict:
  fixes result r
  defines "r' \<equiv> record_documentation result r"
  shows "sr_documentation_requirements r' = drs_requirements result" and "structural_findings r' = structural_findings r"
    and "sr_status r' \<noteq> SenseIncomplete \<Longrightarrow> \<not> drs_findings_truncated result \<and> sr_status r \<noteq> SenseIncomplete"
    and "sr_status r' = SenseClean \<Longrightarrow> sr_status r = SenseClean"
    and "sr_status r' = SenseFindings \<Longrightarrow> sr_status r = SenseFindings \<or> drs_requirements result \<noteq> []"
  unfolding r'_def record_documentation_def structural_findings_def update_documentation_coverage_def
  by (auto simp: mark_incomplete_def Let_def split: if_splits)

lemma untriggered_documented: "trigger node policy = None \<Longrightarrow> documented policy registry docs node"
  by (auto simp: trigger_conv documented_def split: if_splits)

lemma requirements_Nil_documented:
  assumes "pred_option registry_wf (doi_after_registry inputs)" and "doi_finding_limit inputs < usize_max"
    and "\<not> drs_findings_truncated (evaluate_documentation P inputs)" and "drs_requirements (evaluate_documentation P inputs) = []"
    and "node \<in> set (doi_nodes inputs)"
  shows "documented (doi_policy inputs) (doi_after_registry inputs) (doi_documents inputs) node"
proof -
  have "set (node_requirements inputs node) \<subseteq> {}"
    using evaluate_documentation_whole(1) [OF assms(3,2)] assms(4,5) by fastforce
  then show ?thesis using node_requirements_Nil [OF assms(1), of node] by simp
qed

text \<open>
  A report that is not incomplete after its documentation was evaluated: its requirements are all there
  are, and its status is the one of the engine unless there are any.
\<close>

definition documentation_settled ::
    "'e serde \<Rightarrow> documentation_captures \<Rightarrow> sense_report \<Rightarrow> sense_report \<Rightarrow> bool" where
  "documentation_settled S captures r r' \<longleftrightarrow>
     sr_status r \<noteq> SenseIncomplete \<and> structural_findings r' = structural_findings r \<and>
     (sr_status r' = SenseClean \<longrightarrow> sr_status r = SenseClean) \<and>
     (sr_status r' = SenseFindings \<longrightarrow> sr_status r = SenseFindings \<or> sr_documentation_requirements r' \<noteq> []) \<and>
     (sr_documentation_requirements r' = [] \<longrightarrow>
        (\<forall>node\<in>set (so_important_nodes (sr_observations r)).
           documented (report_documentation_policy r) (captured_registry S captures) (captured_documents captures) node))"

lemma structural_findings_keeps [simp]:
  "structural_findings (update_documentation_coverage f r) = structural_findings r"
  "structural_findings (bind_documentation_freshness S cp r) = structural_findings r"
  by (auto simp: structural_findings_def update_documentation_coverage_def bind_documentation_freshness_def split: option.split)

lemma documentation_policy_keeps [simp]:
  "report_documentation_policy (update_documentation_coverage f r) = report_documentation_policy r"
  by (simp add: report_documentation_policy_def update_documentation_coverage_def)

lemma requirements_keeps [simp]:
  "sr_documentation_requirements (bind_documentation_freshness S cp r) = sr_documentation_requirements r"
  by (auto simp: bind_documentation_freshness_def split: option.split)

lemma evaluate_files_settled:
  assumes "evaluate_documentation_files K S P G input hypothesis ev r = (captures, r')"
    and "dev_after_registry ev = captured_registry S (dev_captures ev)" and "dcp_documents (dev_captures ev) = None"
    and "dev_policy ev = report_documentation_policy r" and "sr_status r' \<noteq> SenseIncomplete"
  shows "documentation_settled S captures r r'"
proof -
  define nodes where "nodes = so_important_nodes (sr_observations r)"
  define inputs where "inputs = \<lparr> doi_nodes = nodes, doi_after_registry = dev_after_registry ev,
     doi_documents = captured_documents captures, doi_policy = dev_policy ev, doi_finding_limit = MAX_SENSE_FINDINGS - reported_findings r \<rparr>"
  obtain f where r': "r' = bind_documentation_freshness S captures
      (record_documentation (evaluate_documentation P inputs) (update_documentation_coverage f r))"
    and registry: "captured_registry S captures = captured_registry S (dev_captures ev)"
    using assms(1,3,5) unfolding evaluate_documentation_files_def inputs_def nodes_def captured_documents_def
    by (auto simp: Let_def captured_registry_def split: if_splits sum.splits option.splits)
  note verdict = record_documentation_verdict [of "evaluate_documentation P inputs" "update_documentation_coverage f r"]
  have whole: "\<not> drs_findings_truncated (evaluate_documentation P inputs)" using verdict(3) assms(5) by (simp add: r')
  have "documented (report_documentation_policy r) (captured_registry S captures) (captured_documents captures) node"
    if "node \<in> set nodes" "sr_documentation_requirements r' = []" for node
    using requirements_Nil_documented [of inputs P node] whole that verdict(1) captured_registry_wf [of S "dev_captures ev"]
    by (simp add: r' registry inputs_def assms(2,4) MAX_SENSE_FINDINGS_def usize_max_def)
  with verdict assms(5) show ?thesis by (auto simp: documentation_settled_def r' nodes_def)
qed

lemma apply_documentation_settled:
  assumes "apply_documentation K S P G input hypothesis r = (captures, r')" and "sr_status r' \<noteq> SenseIncomplete"
    and "sr_documentation_requirements r = []"
  shows "documentation_settled S captures r r'"
proof (cases "needs_evaluation P (so_important_nodes (sr_observations r)) (report_documentation_policy r)")
  case False
  with assms have "captures = no_captures" "r' = r" by (auto simp: apply_documentation_def split: if_splits)
  moreover have "trigger node (report_documentation_policy r) = None" if "node \<in> set (so_important_nodes (sr_observations r))" for node
    using False that by (auto simp: needs_evaluation_def list_ex_iff)
  ultimately show ?thesis using assms by (auto simp: documentation_settled_def untriggered_documented)
next
  case True
  let ?r = "update_documentation_coverage (\<lambda>c. c\<lparr> dcov_evaluated := True \<rparr>) r"
  obtain out r1 where captured: "capture_documentation_registry K S G input hypothesis (report_documentation_policy r) ?r = (out, r1)"
    by fastforce
  have observed: "\<not> so_truncated (sr_observations r)" using assms(1,2) by (auto simp: apply_documentation_def)
  from captured show ?thesis
  proof (cases rule: capture_registry_cases)
    case (terminal cp)
    with True observed captured assms(1,2) show ?thesis by (simp add: apply_documentation_def)
  next
    case (ready cp f)
    define ev where "ev = \<lparr> dev_captures = cp, dev_after_registry = captured_registry S cp, dev_policy = report_documentation_policy r \<rparr>"
    have ev: "dev_after_registry ev = captured_registry S (dev_captures ev)" "dcp_documents (dev_captures ev) = None"
      "dev_policy ev = report_documentation_policy r1"
      using ready(2,3) by (simp_all add: ev_def)
    have "evaluate_documentation_files K S P G input hypothesis ev r1 = (captures, r')"
      using True observed captured assms(1) ready(1) by (simp add: apply_documentation_def ev_def)
    then have "documentation_settled S captures r1 r'" by (rule evaluate_files_settled [OF _ ev assms(2)])
    then show ?thesis unfolding documentation_settled_def ready(2) by simp
  qed
qed

text \<open>Documentation is about the report: it does not change what the report says of the views.\<close>

definition compared :: "sense_report \<Rightarrow> graph_view_summary \<times> graph_view_summary \<times> nat" where
  "compared r = (sr_before r, sr_after r, sr_changed_files r)"

lemma compared_keeps [simp]:
  "compared (mark_incomplete code message r) = compared r" "compared (bind_documentation_freshness S cp r) = compared r"
  "compared (update_documentation_coverage f r) = compared r" "compared (record_documentation result r) = compared r"
  by (simp_all add: compared_def mark_incomplete_def bind_documentation_freshness_def update_documentation_coverage_def
      record_documentation_def Let_def split: option.split)

lemma capture_registry_compared: "compared (snd (capture_documentation_registry K S G input hypothesis policy r)) = compared r"
  by (simp add: capture_documentation_registry_def Let_def split: sum.split option.split prod.split)

lemma evaluate_files_compared: "compared (snd (evaluate_documentation_files K S P G input hypothesis ev r)) = compared r"
  by (simp add: evaluate_documentation_files_def Let_def split: sum.split option.split prod.split)

lemma apply_documentation_compared:
  assumes "apply_documentation K S P G input hypothesis r = (captures, r')"
  shows "compared r' = compared r"
proof -
  have "compared (snd (apply_documentation K S P G input hypothesis r)) = compared r"
    using capture_registry_compared [of K S G input hypothesis "report_documentation_policy r"
        "update_documentation_coverage (\<lambda>c. c\<lparr> dcov_evaluated := True \<rparr>) r"]
    by (auto simp: apply_documentation_def Let_def evaluate_files_compared split: prod.split registry_capture.split)
  with assms show ?thesis by simp
qed

text \<open>A command that accepts prints the whole report.\<close>

lemma accepted_whole:
  assumes "prepare_output R json clock r = Inr (rendered, report)" and "sr_status report \<noteq> SenseIncomplete"
  shows "report = stamp_report (clock 0) r"
  using prepare_full [OF assms(1) [unfolded prepare_output_def]] assms(2) by (auto simp: says_cut_def says_too_large_def)

lemma map_sum_Inr_iff: "map_sum f g x = Inr y \<longleftrightarrow> (\<exists>z. x = Inr z \<and> y = g z)"
  by (cases x) auto

lemma enforce_Inr:
  "enforce_report report False allow_partial allow_node_builtins = Inr () \<longleftrightarrow>
     sr_status report \<noteq> SenseIncomplete \<and> \<not> partial_coverage_blocks report allow_partial allow_node_builtins \<and> \<not> has_sense_findings report"
  by (simp add: enforce_report_def)

text \<open>The reports of the engine.\<close>

lemma engine_report_verdict:
  assumes "finish_request K b64 clock request opts loaded cache_before cache_after = Inr report"
  shows "sr_documentation_requirements report = []"
    and "sr_status report = SenseFindings \<Longrightarrow> structural_findings report"
    and "structural_findings report \<Longrightarrow> sr_status report \<noteq> SenseClean"
  using assms
  by (auto simp: finish_request_def build_report_def Let_def structural_findings_def sense_status_of_def split: prod.splits sum.splits option.splits if_splits)

section \<open>Properties\<close>

text \<open>All gaps of a view are references to modules of the platform, which have no source to follow.\<close>

definition only_builtins_open :: "graph_view_summary \<Rightarrow> bool" where
  "only_builtins_open view \<longleftrightarrow>
     rc_external_references (gv_coverage view) \<le> rc_node_builtin_references (gv_coverage view) \<and>
     rc_unsupported_files (gv_coverage view) = 0 \<and> rc_parser_failed_files (gv_coverage view) = 0 \<and>
     rc_ambiguous_references (gv_coverage view) = 0 \<and> rc_unresolved_references (gv_coverage view) = 0 \<and>
     rc_unsupported_dynamic_references (gv_coverage view) = 0"

lemma only_builtins_views:
  "partial_only_for_node_builtins r \<Longrightarrow> only_builtins_open (sr_before r) \<and> only_builtins_open (sr_after r)"
  by (auto simp: partial_only_for_node_builtins_def only_builtins_open_def has_non_builtin_resolution_gap_def Let_def)

text \<open>
  C6. A sensor run that succeeds can be relied on. When the command accepts without being advisory, then the report of
  the engine had no finding, every module that became important, changed its surface, moved or was removed is
  documented in the captured candidate, and for a change of some files, without an allowance for partial coverage, the
  report was clean, or Node built-ins were allowed and nothing else was left open in either view.
\<close>

theorem accepted_run_sound:
  assumes "finish_request K b64 sclock request opts loaded cache_before cache_after = Inr evaluated"
    and "conclude_report K S P G R input hypothesis exclude capture_us documentation_us json clock evaluated = Inr (captures, rendered, report)"
    and "enforce_report report False allow_partial allow_node_builtins = Inr ()"
  shows "\<not> has_sense_findings evaluated \<and>
    (\<forall>node\<in>set (so_important_nodes (sr_observations evaluated)).
       documented (report_documentation_policy evaluated) (captured_registry S captures) (captured_documents captures) node) \<and>
    (0 < sr_changed_files evaluated \<and> \<not> allow_partial \<longrightarrow>
       sr_status evaluated = SenseClean \<or>
       allow_node_builtins \<and> only_builtins_open (sr_before evaluated) \<and> only_builtins_open (sr_after evaluated))"
proof -
  define r0 where "r0 = evaluated\<lparr> sr_effective_policy := (sr_effective_policy evaluated)\<lparr> esp_excluded_paths := exclude \<rparr>,
    sr_timing := (sr_timing evaluated)\<lparr> stm_capture_us := capture_us \<rparr> \<rparr>"
  obtain r1 where applied: "apply_documentation K S P G input hypothesis r0 = (captures, r1)"
    and prepared: "prepare_output R json clock (r1\<lparr> sr_timing := (sr_timing r1)\<lparr> stm_documentation_us := documentation_us \<rparr> \<rparr>) = Inr (rendered, report)"
    using assms(2) by (auto simp: conclude_report_def r0_def [symmetric] Let_def map_sum_Inr_iff split: prod.splits)
  note engine = engine_report_verdict [OF assms(1)] and accepted = assms(3) [unfolded enforce_Inr]
  have report: "report = stamp_report (clock 0) (r1\<lparr> sr_timing := (sr_timing r1)\<lparr> stm_documentation_us := documentation_us \<rparr> \<rparr>)"
    using accepted_whole [OF prepared] accepted by blast
  have none: "\<not> structural_findings r1" "sr_documentation_requirements r1 = []"
    using accepted by (auto simp: report stamp_report_def has_sense_findings_def structural_findings_def)
  have settled: "documentation_settled S captures r0 r1"
    using applied accepted engine(1) by (intro apply_documentation_settled) (simp_all add: report stamp_report_def r0_def)
  have "compared report = compared evaluated"
    using apply_documentation_compared [OF applied] by (simp add: report stamp_report_def compared_def r0_def)
  then have views: "sr_before report = sr_before evaluated" "sr_after report = sr_after evaluated" "sr_changed_files report = sr_changed_files evaluated"
    by (simp_all add: compared_def)
  have plain: "\<not> structural_findings evaluated" using settled none by (simp add: documentation_settled_def r0_def structural_findings_def)
  moreover have "report_documentation_policy r0 = report_documentation_policy evaluated"
    by (simp add: r0_def report_documentation_policy_def)
  moreover have "sr_status evaluated = SenseClean \<or> sr_status report = SensePartial"
    using settled none plain engine(2) accepted
    by (cases "sr_status report") (auto simp: documentation_settled_def report stamp_report_def r0_def)
  ultimately show ?thesis
    using settled none engine(1) accepted views only_builtins_views [of report]
    by (auto simp: documentation_settled_def has_sense_findings_def structural_findings_def partial_coverage_blocks_def r0_def)
qed

text \<open>
  C25. The documentation requirements are exact. Unless the result is flagged as truncated, a path is named by a requirement
  exactly when a module at that path is not documented in the registry, read from its bytes, and the documents given;
  requirements and issues stay within the limit together, and the requirements are sorted.
\<close>

theorem documentation_requirements_exact:
  assumes "parse_optional_documentation_registry S contents = Inr (doi_after_registry inputs)"
    and "doi_finding_limit inputs < usize_max"
  shows "(\<not> drs_findings_truncated (evaluate_documentation P inputs) \<longrightarrow>
     (\<forall>path. (\<exists>r\<in>set (drs_requirements (evaluate_documentation P inputs)). dreq_path r = path) \<longleftrightarrow>
        (\<exists>node\<in>set (doi_nodes inputs). imp_path node = path \<and>
           \<not> documented (doi_policy inputs) (doi_after_registry inputs) (doi_documents inputs) node))) \<and>
    length (drs_requirements (evaluate_documentation P inputs)) + length (drs_coverage_issues (evaluate_documentation P inputs)) \<le> doi_finding_limit inputs \<and>
    sorted (map requirement_key (drs_requirements (evaluate_documentation P inputs)))"
proof (intro conjI impI allI)
  show "(\<exists>r\<in>set (drs_requirements (evaluate_documentation P inputs)). dreq_path r = path) \<longleftrightarrow>
      (\<exists>node\<in>set (doi_nodes inputs). imp_path node = path \<and>
         \<not> documented (doi_policy inputs) (doi_after_registry inputs) (doi_documents inputs) node)"
    if "\<not> drs_findings_truncated (evaluate_documentation P inputs)" for path
    using requirement_names_undocumented parsed_registry_wf [OF assms(1)] that assms(2) by blast
qed (auto simp: evaluate_documentation_fields take_map [symmetric] sorted_wrt_take)

text \<open>
  C7. The output of the command stays within its bound, and a cut is never silent. What is printed is the rendering of
  the report returned, both within the bound; that report is the given one, or it is incomplete and says that it was
  cut, still naming a finding of every kind there was, or it is the incomplete report of an output that is too
  large. When reports can be serialized and that last report fits, the loop ends with an output.
\<close>

theorem prepared_output_bounded:
  "(\<forall>rendered report'. prepare_output R json clock report = Inr (rendered, report') \<longrightarrow>
     fits R json report' rendered \<and>
     (report' = stamp_report (clock 0) report \<or>
      says_cut report' \<and> cut_of report report' \<and> (has_sense_findings report' \<longleftrightarrow> has_sense_findings report) \<or>
      says_too_large report')) \<and>
   ((\<forall>r. \<exists>s. rd_to_json R r = Inr s) \<and> (\<forall>t u. \<exists>rendered. fits R json (stamp_report u (compact_report t)) rendered) \<longrightarrow>
     (\<exists>rendered report'. prepare_output R json clock report = Inr (rendered, report')))"
proof (intro conjI allI impI)
  fix rendered report'
  assume "prepare_output R json clock report = Inr (rendered, report')"
  from prepare_full [OF this [unfolded prepare_output_def]]
  show "fits R json report' rendered"
    and "report' = stamp_report (clock 0) report \<or>
      says_cut report' \<and> cut_of report report' \<and> (has_sense_findings report' \<longleftrightarrow> has_sense_findings report) \<or> says_too_large report'"
    using cut_of_findings by blast+
next
  assume "(\<forall>r. \<exists>s. rd_to_json R r = Inr s) \<and> (\<forall>t u. \<exists>rendered. fits R json (stamp_report u (compact_report t)) rendered)"
  then show "\<exists>rendered report'. prepare_output R json clock report = Inr (rendered, report')"
    unfolding prepare_output_def by (intro prepare_returns) auto
qed

end
