(* ===== verification/SenseLoad.thy ===== *)
theory SenseLoad
  imports SenseEngine
begin

text \<open>
  Loading the facts of a request: whatever the schedule of the workers and whatever a cache with right entries
  already holds, the facts are those of the analysis of the loaded files, one for each key, and the workers
  finish after at most two cache operations for each file.
\<close>

section \<open>One file\<close>

definition load_settled :: "(analysis_error, file_facts) result \<Rightarrow> cancel_token \<Rightarrow> (analysis_error, file_facts) result \<Rightarrow> bool" where
  "load_settled reference tok r \<longleftrightarrow> r = settle_facts reference \<or> r = Inl AnalysisCancelled \<and> (\<exists>i. tok i)"

lemma load_file_safe:
  assumes "analyzers_cooperate A" and "no_key_conflict K A limits opts F" and "src \<in> F"
  shows "safe (good_entry K A limits opts F) (load_settled (file_analysis K A src limits) tok) (load_file K A limits opts tok src)"
  unfolding load_file_def
proof (rule safe_bind [OF load_safe [OF assms]])
  fix l
  assume "load_ok (file_analysis K A src limits) tok 0 l"
  then show "safe (good_entry K A limits opts F) (load_settled (file_analysis K A src limits) tok) (Done (settle_facts (fst l)))"
    by (auto simp: load_ok_def load_settled_def settle_facts_def)
qed

section \<open>Several computations\<close>

text \<open>Every computation of a list is safe for the predicate at its place.\<close>

abbreviation all_safe :: "(file_fact_key \<Rightarrow> file_facts \<Rightarrow> bool) \<Rightarrow> ('r \<Rightarrow> bool) list \<Rightarrow> 'r prog list \<Rightarrow> bool" where
  "all_safe good \<equiv> list_all2 (safe good)"

lemma all_safe_replace:
  assumes "all_safe good Ps (xs @ p # ys)" and "\<And>P. safe good P p \<Longrightarrow> safe good P q"
  shows "all_safe good Ps (xs @ q # ys)"
proof -
  from assms(1) obtain As P Bs where "Ps = As @ P # Bs" "all_safe good As xs" "safe good P p" "all_safe good Bs ys"
    by (auto simp: list_all2_append2 list_all2_Cons2)
  with assms(2) show ?thesis by (auto intro: list_all2_appendI)
qed

lemma all_safe_Done: "all_safe good Ps (map Done rs) \<longleftrightarrow> list_all2 (\<lambda>P. P) Ps rs"
  by (simp add: list_all2_map2)

context fact_cache
begin

lemma run_each_safe:
  "coherent good c \<Longrightarrow> all_safe good Ps ps \<Longrightarrow>
    list_all2 (\<lambda>P. P) Ps (fst (run_each ops ps c)) \<and> coherent good (snd (run_each ops ps c))"
proof (induction ps arbitrary: Ps c)
  case (Cons p ps)
  from Cons.prems(2) obtain P Qs where Ps: "Ps = P # Qs" "safe good P p" "all_safe good Qs ps" by (auto simp: list_all2_Cons2)
  from run_safe [OF Cons.prems(1) Ps(2)] have "P (fst (run ops p c))" "coherent good (snd (run ops p c))" by auto
  with Cons.IH [OF this(2) Ps(3)] Ps(1) show ?case by (simp add: split_def Let_def)
qed simp

lemma pool_step_safe:
  assumes "pool_step ops s t" and "coherent good (snd s)" and "all_safe good Ps (fst s)"
  shows "coherent good (snd t) \<and> all_safe good Ps (fst t)"
  using assms(1)
proof (cases rule: pool_step.cases)
  case (pool_get xs k f ys c)
  note get = coherent_get [OF assms(2), of k]
  have "all_safe good Ps (xs @ f (fst (fc_get ops c k)) # ys)"
    by (rule all_safe_replace [of good Ps xs "Get k f"]) (use assms(3) get pool_get in simp_all)
  with get(1) pool_get show ?thesis by simp
next
  case (pool_put xs k v f ys c)
  from assms(3) pool_put obtain P where "safe good P (Put k v f)" by (auto simp: list_all2_append2 list_all2_Cons2)
  then have good: "good k v" and only: "\<And>g. good k g \<Longrightarrow> g = v" by simp_all
  note put = coherent_put [OF assms(2) good only]
  have "all_safe good Ps (xs @ f (fst (fc_put ops c k v)) # ys)"
    by (rule all_safe_replace [of good Ps xs "Put k v f"]) (use assms(3) put pool_put in simp_all)
  with put(1) pool_put show ?thesis by simp
qed

lemma pool_steps_safe:
  "pool_steps ops n s t \<Longrightarrow> coherent good (snd s) \<Longrightarrow> all_safe good Ps (fst s) \<Longrightarrow> coherent good (snd t) \<and> all_safe good Ps (fst t)"
proof (induction rule: pool_steps.induct)
  case (pool_more s t n u)
  have "coherent good (snd t) \<and> all_safe good Ps (fst t)"
    by (rule pool_step_safe [OF pool_more.hyps(1) pool_more.prems])
  with pool_more.IH show ?case by blast
qed simp

end

section \<open>Every schedule can be completed\<close>

lemma pool_steps_trans: "pool_steps ops n s t \<Longrightarrow> pool_steps ops m t u \<Longrightarrow> \<exists>k. pool_steps ops k s u"
  by (induction rule: pool_steps.induct) (auto intro: pool_steps.intros)

lemma pool_run_one: "\<exists>n. pool_steps ops n (xs @ p # ys, c) (xs @ Done (fst (run ops p c)) # ys, snd (run ops p c))"
proof (induction p arbitrary: c)
  case (Done r)
  show ?case by (auto intro: pool_steps.intros)
next
  case (Get k f)
  from Get.IH [OF rangeI, of "fst (fc_get ops c k)" "snd (fc_get ops c k)"] pool_step.pool_get [of ops xs k f ys c]
  show ?case by (auto intro: pool_steps.intros)
next
  case (Put k v f)
  from Put.IH [OF rangeI, of "fst (fc_put ops c k v)" "snd (fc_put ops c k v)"] pool_step.pool_put [of ops xs k v f ys c]
  show ?case by (auto intro: pool_steps.intros)
qed

lemma pool_completes: "\<exists>n rs c'. pool_steps ops n (map Done ds @ ps, c) (map Done (ds @ rs), c')"
proof (induction ps arbitrary: ds c)
  case Nil
  show ?case by (rule exI [of _ 0], rule exI [of _ "[]"]) (auto intro: pool_steps.intros)
next
  case (Cons p ps)
  obtain n where 1: "pool_steps ops n (map Done ds @ p # ps, c) (map Done (ds @ [fst (run ops p c)]) @ ps, snd (run ops p c))"
    using pool_run_one [of ops "map Done ds" p ps c] by auto
  from Cons.IH [of "ds @ [fst (run ops p c)]"] obtain m rs c' where
    "pool_steps ops m (map Done (ds @ [fst (run ops p c)]) @ ps, snd (run ops p c)) (map Done ((ds @ [fst (run ops p c)]) @ rs), c')" by blast
  from pool_steps_trans [OF 1 this] show ?case by (metis append_assoc)
qed

text \<open>A worker pool performs at most two cache operations for each file and is never stuck before all are loaded.\<close>

lemma pool_step_work:
  assumes "pool_step ops s t" and "list_all2 ops_le (fst s) ms"
  shows "\<exists>ms'. list_all2 ops_le (fst t) ms' \<and> Suc (sum_list ms') \<le> sum_list ms"
proof -
  have split: "\<exists>as m bs. ms = as @ m # bs \<and> list_all2 ops_le xs as \<and> ops_le p m \<and> list_all2 ops_le ys bs"
    if "fst s = xs @ p # ys" for xs p ys
    using assms(2) unfolding that by (fastforce simp: list_all2_append1 list_all2_Cons1)
  have replaced_task: "\<exists>ms'. list_all2 ops_le (xs @ q # ys) ms' \<and> Suc (sum_list ms') \<le> sum_list ms"
    if "fst s = xs @ p # ys" and "\<And>m. ops_le p m \<Longrightarrow> 0 < m \<and> ops_le q (m - 1)" for xs p ys q
  proof -
    from split [OF that(1)] obtain as m bs where d: "ms = as @ m # bs" "list_all2 ops_le xs as" "ops_le p m" "list_all2 ops_le ys bs" by blast
    with that(2) show ?thesis by (intro exI [of _ "as @ (m - 1) # bs"]) (auto intro: list_all2_appendI)
  qed
  from assms(1) show ?thesis
  proof (cases rule: pool_step.cases)
    case (pool_get xs k f ys c)
    with replaced_task [of xs "Get k f" ys] show ?thesis by simp
  next
    case (pool_put xs k v f ys c)
    with replaced_task [of xs "Put k v f" ys] show ?thesis by simp
  qed
qed

lemma pool_steps_work:
  "pool_steps ops n s t \<Longrightarrow> list_all2 ops_le (fst s) ms \<Longrightarrow> \<exists>ms'. list_all2 ops_le (fst t) ms' \<and> sum_list ms' + n \<le> sum_list ms"
proof (induction arbitrary: ms rule: pool_steps.induct)
  case (pool_more s t n u)
  from pool_step_work [OF pool_more.hyps(1) pool_more.prems] obtain ms1 where "list_all2 ops_le (fst t) ms1" "Suc (sum_list ms1) \<le> sum_list ms" by blast
  moreover from pool_more.IH [OF this(1)] obtain ms2 where "list_all2 ops_le (fst u) ms2" "sum_list ms2 + n \<le> sum_list ms1" by blast
  ultimately show ?case by (intro exI [of _ ms2]) simp
qed auto

lemma load_file_ops: "ops_le (load_file K A limits opts tok src) 2"
  using ops_le_bind [OF load_ops, of "\<lambda>l. Done (settle_facts (fst l))" 0] by (simp add: load_file_def)

lemma pool_bounded:
  assumes "pool_steps ops n (load_tasks K A limits opts tok files, c) t"
  shows "n \<le> 2 * length files"
proof -
  have "list_all2 ops_le (load_tasks K A limits opts tok files) (replicate (length files) 2)"
    by (simp add: load_tasks_def list_all2_conv_all_nth split_def load_file_ops)
  with pool_steps_work [OF assms] show ?thesis by (fastforce simp: sum_list_replicate)
qed

lemma pool_progress: "(\<exists>rs. ps = map Done rs) \<or> (\<exists>u. pool_step ops (ps, c) u)"
proof (cases "\<forall>p\<in>set ps. \<exists>r. p = Done r")
  case True
  then show ?thesis by (metis ex_map_conv)
next
  case False
  then obtain p where p: "p \<in> set ps" "\<forall>r. p \<noteq> Done r" by blast
  from split_list [OF p(1)] obtain xs ys where "ps = xs @ p # ys" by blast
  with p(2) show ?thesis by (cases p) (auto intro: pool_step.intros)
qed

lemma loads_total: "\<exists>r c'. loads K A ops pool limits opts tok files c r c'"
proof (cases "length files < PARALLEL_SENSE_THRESHOLD \<or> \<not> pool")
  case True
  from loads.sequential [OF this] show ?thesis by (meson surj_pair)
next
  case False
  moreover obtain n rs c' where "pool_steps ops n (load_tasks K A limits opts tok files, c) (map Done rs, c')"
    using pool_completes [of ops "[]" "load_tasks K A limits opts tok files" c] by auto
  ultimately show ?thesis by (auto intro: loads.parallel)
qed

lemma senses_total: "\<exists>r c'. senses K A ops to_vec b64 pool tok clock request c r c'"
proof (cases "to_vec (sop_limits (srq_options request))")
  case None
  then have "senses K A ops to_vec b64 pool tok clock request c (Inl SenseSerialize) c" by (rule senses.unserializable)
  then show ?thesis by blast
next
  case (Some opts)
  from senses.answered [where to_vec = to_vec, OF Some] loads_total show ?thesis by metis
qed

section \<open>The reference\<close>

text \<open>The facts of a request without cache, workers and order.\<close>

definition reference_facts ::
    "crates \<Rightarrow> analyzers \<Rightarrow> rule_limits \<Rightarrow> (file_fact_key, source_file) btree_map \<Rightarrow> (analysis_error, fact_map) result" where
  "reference_facts K A limits files =
     collect_facts (map fst files) (map (\<lambda>e. settle_facts (file_analysis K A (snd e) limits)) files)"

definition task_predicates ::
    "crates \<Rightarrow> analyzers \<Rightarrow> rule_limits \<Rightarrow> (nat \<Rightarrow> cancel_token) \<Rightarrow> (file_fact_key, source_file) btree_map
     \<Rightarrow> ((analysis_error, file_facts) result \<Rightarrow> bool) list" where
  "task_predicates K A limits tok files =
     map (\<lambda>(i, e). load_settled (file_analysis K A (snd e) limits) (tok i)) (enumerate 0 files)"

lemma tasks_safe:
  assumes "analyzers_cooperate A" and "no_key_conflict K A limits opts F" and "\<forall>e\<in>set files. snd e \<in> F"
  shows "all_safe (good_entry K A limits opts F) (task_predicates K A limits tok files) (load_tasks K A limits opts tok files)"
  unfolding task_predicates_def load_tasks_def list_all2_map1 list_all2_map2
proof (rule list.rel_refl_strong)
  fix x
  assume "x \<in> set (enumerate 0 files)"
  then have "snd x \<in> set files" by (metis enumerate_eq_zip in_set_zipE prod.collapse)
  with assms(3) have "snd (snd x) \<in> F" by blast
  from load_file_safe [OF assms(1,2) this]
  show "safe (good_entry K A limits opts F) (case x of (i, e) \<Rightarrow> load_settled (file_analysis K A (snd e) limits) (tok i))
      (case x of (i, e) \<Rightarrow> load_file K A limits opts (tok i) (snd e))" by (simp add: split_def)
qed

lemma predicates_reference:
  assumes "list_all2 (\<lambda>P. P) (task_predicates K A limits tok files) rs" and "\<forall>i n. \<not> tok i n"
  shows "rs = map (\<lambda>e. settle_facts (file_analysis K A (snd e) limits)) files"
proof (rule nth_equalityI)
  show len: "length rs = length (map (\<lambda>e. settle_facts (file_analysis K A (snd e) limits)) files)"
    using list_all2_lengthD [OF assms(1)] by (simp add: task_predicates_def)
  fix n
  assume "n < length rs"
  with len list_all2_nthD2 [OF assms(1), of n] assms(2)
  show "rs ! n = map (\<lambda>e. settle_facts (file_analysis K A (snd e) limits)) files ! n"
    by (simp add: task_predicates_def nth_enumerate_eq load_settled_def)
qed

context fact_cache
begin

lemma loads_reference:
  assumes "analyzers_cooperate A" and "no_key_conflict K A limits opts F" and "\<forall>e\<in>set files. snd e \<in> F"
    and "coherent (good_entry K A limits opts F) c" and "loads K A ops pool limits opts tok files c r c'" and "\<forall>i n. \<not> tok i n"
  shows "r = reference_facts K A limits files \<and> coherent (good_entry K A limits opts F) c'"
proof -
  note safe = tasks_safe [OF assms(1-3), of tok]
  have ready: "r = collect_facts (map fst files) rs \<Longrightarrow> list_all2 (\<lambda>P. P) (task_predicates K A limits tok files) rs \<Longrightarrow>
      r = reference_facts K A limits files" for rs
    using predicates_reference [OF _ assms(6)] by (simp add: reference_facts_def)
  from assms(5) show ?thesis
  proof (cases rule: loads.cases)
    case (sequential rs)
    from run_each_safe [OF assms(4) safe]
    have "list_all2 (\<lambda>P. P) (task_predicates K A limits tok files) rs \<and> coherent (good_entry K A limits opts F) c'"
      unfolding sequential(3) by simp
    with ready sequential(1) show ?thesis by blast
  next
    case (parallel n rs)
    have "coherent (good_entry K A limits opts F) c' \<and> all_safe (good_entry K A limits opts F) (task_predicates K A limits tok files) (map Done rs)"
      using pool_steps_safe [OF parallel(4)] assms(4) safe by simp
    with ready parallel(1) show ?thesis by (simp add: all_safe_Done)
  qed
qed

end

end
