(* ===== verification/SenseTotal.thy ===== *)
theory SenseTotal
  imports SenseLoad
begin

text \<open>
  Projections are graphs: every edge joins two files of the view. The comparison of two projections therefore
  never panics, and an evaluation always ends in a report or in an error of the analysis.
\<close>

section \<open>Targets of an index\<close>

lemma set_bt_insert: "set (bt_insert k v m) \<subseteq> insert (k, v) (set m)"
  by (induction k v m rule: bt_insert.induct) auto

lemma unique_paths_insert:
  "unique_paths (bt_insert k (Unique p) m) \<subseteq> insert p (unique_paths m)"
  "unique_paths (bt_insert k AmbiguousAlias m) \<subseteq> unique_paths m"
proof -
  show "unique_paths (bt_insert k (Unique p) m) \<subseteq> insert p (unique_paths m)"
    using set_bt_insert [of k "Unique p" m] by (fastforce simp: unique_paths_def)
  show "unique_paths (bt_insert k AmbiguousAlias m) \<subseteq> unique_paths m"
    using set_bt_insert [of k AmbiguousAlias m] by (fastforce simp: unique_paths_def)
qed

lemma unique_paths_candidate: "unique_paths (add_candidate a target m) \<subseteq> insert target (unique_paths m)"
  using unique_paths_insert(1) [of a target m] unique_paths_insert(2) [of a m]
  by (auto simp: add_candidate_def split: option.splits candidate.splits)

lemma unique_paths_source: "unique_paths (add_source_aliases path f suffix m) \<subseteq> insert (sf_path f) (unique_paths m)"
proof -
  have "unique_paths (add_candidate b (sf_path f) (add_candidate a (sf_path f) m)) \<subseteq> insert (sf_path f) (unique_paths m)" for a b
    using unique_paths_candidate [of b "sf_path f"] unique_paths_candidate [of a "sf_path f" m] by blast
  with unique_paths_candidate [of _ "sf_path f" m] show ?thesis
    by (auto simp: add_source_aliases_def Let_def split: option.splits)
qed

definition targets_within :: "resolution_index \<Rightarrow> repo_path set \<Rightarrow> bool" where
  "targets_within index N \<longleftrightarrow>
     unique_paths (rx_node_aliases index) \<subseteq> N \<and> unique_paths (rx_python_aliases index) \<subseteq> N \<and>
     unique_paths (ri_modules (rx_rust index)) \<subseteq> N \<and> unique_paths (gi_aliases (rx_go index)) \<subseteq> N \<and>
     snd ` set (gi_representatives (rx_go index)) \<subseteq> N \<and> fst ` set (rx_languages index) \<subseteq> N"

lemma targets_add_file:
  assumes "targets_within index N" and "sf_path f \<in> N"
  shows "targets_within (index_add_file f index) N"
proof -
  have "unique_paths (ri_modules (rust_add_file f path r)) \<subseteq> insert (sf_path f) (unique_paths (ri_modules r))" for path r
    using unique_paths_candidate by (auto simp: rust_add_file_def Let_def split: option.splits)
  then show ?thesis using assms unique_paths_source
    by (simp add: index_add_file_def targets_within_def split: option.split language.split) (meson insert_subset subset_trans)
qed

lemma package_files_in:
  assumes "(directory, files) \<in> set (package_files s)"
  shows "set files \<subseteq> set (snapshot_file_list s)"
proof -
  let ?f = "\<lambda>f. if sf_language f = Go then map_option (\<lambda>path. (parent_directory path, f)) (as_utf8 (sf_path f)) else None"
  have "bt_get (package_files s) directory = Some files" using assms by (simp add: package_files_def bt_get_in_set)
  then have "files = members ?f (snapshot_file_list s) directory" by (simp add: package_files_def bt_get_group split: if_splits)
  then show ?thesis by (auto simp: in_members split: if_splits)
qed

definition go_within :: "go_index \<Rightarrow> repo_path set \<Rightarrow> bool" where
  "go_within index N \<longleftrightarrow> unique_paths (gi_aliases index) \<subseteq> N \<and> snd ` set (gi_representatives index) \<subseteq> N"

lemma fold_insert_within: "(\<And>x. x \<in> set xs \<Longrightarrow> v x \<in> N) \<Longrightarrow> snd ` set m \<subseteq> N \<Longrightarrow> snd ` set (fold (\<lambda>x. bt_insert (k x) (v x)) xs m) \<subseteq> N"
proof (induction xs arbitrary: m)
  case (Cons x xs)
  have "snd ` set (bt_insert (k x) (v x) m) \<subseteq> N" using set_bt_insert [of "k x" "v x" m] Cons.prems by fastforce
  with Cons show ?case by simp
qed simp

lemma package_within:
  assumes "go_within index N" and "\<forall>f\<in>set files. sf_path f \<in> N"
  shows "go_within (add_package modules (directory, files) index) N"
proof -
  let ?production = "map_option sf_path (find (\<lambda>f. \<not> is_go_test f) files)"
  have production: "p \<in> N" if "?production = Some p" for p
    using that assms(2) by (auto simp: find_Some_iff)
  have reps: "snd ` set (fold (\<lambda>f. bt_insert (sf_path f) (if is_go_test f then sf_path f else case ?production of None \<Rightarrow> sf_path f | Some p \<Rightarrow> p))
      files (gi_representatives index)) \<subseteq> N"
    by (rule fold_insert_within) (use assms production in \<open>auto simp: go_within_def split: option.split\<close>)
  have "unique_paths (add_candidate a p (gi_aliases index)) \<subseteq> N" if "?production = Some p" for a p
    using unique_paths_candidate [of a p "gi_aliases index"] production [OF that] assms(1) by (auto simp: go_within_def)
  with reps assms(1) show ?thesis
    unfolding add_package_def Let_def prod.case
    by (simp add: go_within_def split: option.split)
qed

lemma go_index_within: "go_within (go_index_build s files) (sf_path ` set (snapshot_file_list s))"
proof -
  let ?N = "sf_path ` set (snapshot_file_list s)"
  have "go_within (fold (add_package modules) ps index) ?N" if "set ps \<subseteq> set (package_files s)" "go_within index ?N" for modules ps index
    using that
  proof (induction ps arbitrary: index)
    case (Cons p ps)
    obtain directory fs where p: "p = (directory, fs)" by (cases p)
    have "go_within (add_package modules (directory, fs) index) ?N"
      by (rule package_within) (use Cons.prems p package_files_in [of directory fs s] in auto)
    with Cons p show ?case by simp
  qed simp
  then show ?thesis by (simp add: go_index_build_def go_within_def Let_def split_def unique_paths_def)
qed

lemma index_within: "targets_within (ResolutionIndex_new K s facts opts files) (sf_path ` set (snapshot_file_list s))"
proof -
  let ?N = "sf_path ` set (snapshot_file_list s)"
  have "targets_within (fold index_add_file fs index) ?N" if "targets_within index ?N" "set fs \<subseteq> set (snapshot_file_list s)" for fs index
    using that by (induction fs arbitrary: index) (simp_all add: targets_add_file)
  moreover have "fst ` set (bt_collect (map (\<lambda>f. (sf_path f, sf_language f)) (snapshot_file_list s))) \<subseteq> ?N"
    by (auto simp: bt_get_in_set [OF bt_wf_collect, symmetric] bt_get_collect dest!: map_of_SomeD)
  ultimately have "targets_within (fold index_add_file (snapshot_file_list s)
      \<lparr> rx_languages = bt_collect (map (\<lambda>f. (sf_path f, sf_language f)) (snapshot_file_list s)),
        rx_node_aliases = [], rx_python_aliases = [], rx_rust = default_rust_index, rx_go = go_index_build s files \<rparr>) ?N"
    using go_index_within [of s files] by (simp add: targets_within_def go_within_def default_rust_index_def unique_paths_def)
  then show ?thesis by (simp add: ResolutionIndex_new_def Let_def targets_within_def confirm_module_trees_def)
qed

section \<open>Resolved references\<close>

lemma alias_target: "alias_resolution (bt_get al k) = Resolved p \<Longrightarrow> p \<in> unique_paths al"
  by (cases "bt_get al k" rule: alias_resolution.cases) (auto intro: bt_get_unique)

lemma confirmed_target: "require_confirmed_target r index = Resolved p \<Longrightarrow> r = Resolved p"
  by (auto simp: require_confirmed_target_def split: resolution.splits if_splits)

lemma rust_targets:
  "resolve_module importer specifier index = Resolved p \<Longrightarrow> p \<in> unique_paths (ri_modules index)"
  "resolve_use importer specifier index = Resolved p \<Longrightarrow> p \<in> unique_paths (ri_modules index)"
proof -
  show "resolve_module importer specifier index = Resolved p \<Longrightarrow> p \<in> unique_paths (ri_modules index)"
    by (auto simp: resolve_module_def resolve_module_unchecked_def split: if_splits option.splits
        dest!: confirmed_target dest: resolve_segments_unique)
  show "resolve_use importer specifier index = Resolved p \<Longrightarrow> p \<in> unique_paths (ri_modules index)"
    by (auto simp: resolve_use_def Let_def split: if_splits option.splits list.splits
        dest!: confirmed_target dest: resolve_segments_unique)
qed

lemma go_target: "go_resolve index importer specifier = Resolved p \<Longrightarrow> p \<in> unique_paths (gi_aliases index)"
  by (auto simp: go_resolve_def split: resolution.splits if_splits dest: alias_target)

lemma python_target: "python_resolve importer reference index = Resolved p \<Longrightarrow> p \<in> unique_paths (rx_python_aliases index)"
  by (auto simp: python_resolve_def Let_def split: option.splits if_splits dest: alias_target)

lemma exact_target: "exact_resolution path index fam = Resolved p \<Longrightarrow> p \<in> fst ` set (rx_languages index)"
  by (force simp: exact_resolution_def split: sum.splits option.splits if_splits dest: map_of_SomeD)

lemma node_target:
  "resolve_node importer specifier index = Resolved p \<Longrightarrow> p \<in> unique_paths (rx_node_aliases index) \<union> fst ` set (rx_languages index)"
  by (auto simp: resolve_node_def split: option.splits if_splits dest: alias_target exact_target)

lemma resolved_within:
  assumes "targets_within index N" and "resolve_edge_reference index f reference = Resolved p"
  shows "p \<in> N"
proof -
  let ?T = "unique_paths (rx_node_aliases index) \<union> fst ` set (rx_languages index) \<union> unique_paths (rx_python_aliases index) \<union>
      unique_paths (ri_modules (rx_rust index)) \<union> unique_paths (gi_aliases (rx_go index))"
  note targets = rust_targets [THEN UnI2, THEN UnI1] go_target [THEN UnI2] python_target [THEN UnI2, THEN UnI1, THEN UnI1]
    node_target [THEN UnI1, THEN UnI1, THEN UnI1]
  have "p \<in> ?T"
    using assms(2) unfolding resolve_edge_reference_def
    by (cases "ref_kind reference"; simp only: dependency_reference_kind.case resolution.distinct; elim targets)
  moreover have "?T \<subseteq> N" using assms(1) by (simp add: targets_within_def)
  ultimately show ?thesis by (rule rev_subsetD)
qed

lemma logical_within:
  assumes "targets_within index N" and "sf_path f \<in> N"
  shows "logical_path (rx_go index) f \<in> N"
proof (cases "bt_get (gi_representatives (rx_go index)) (sf_path f)")
  case (Some p)
  from map_of_SomeD [OF this] have "p \<in> snd ` set (gi_representatives (rx_go index))" by force
  with assms(1) Some show ?thesis by (auto simp: logical_path_def logical_path_for_def targets_within_def)
qed (use assms(2) in \<open>simp add: logical_path_def logical_path_for_def\<close>)

definition edges_within :: "repo_path set \<Rightarrow> dependency_edge set \<Rightarrow> bool" where
  "edges_within N E \<longleftrightarrow> (\<forall>e\<in>E. edge_from e \<in> N \<and> edge_to e \<in> N)"

lemma plain_edges [simp]:
  "edges_in (import_events a b i) = {}" "edges_in (interface_edge_events a b reference facts) = {}"
  "edges_in (extraction_events st) = {}" "edges_in (interface_extraction_events ist) = {}" "edges_in (surface_events sst) = {}"
  "edges_in (gap_count_events g) = {}" "edges_in [edge_kind_count kind] = {}"
proof -
  have i: "edges_in (import_events a b i) = {}" for i
    by (simp add: import_events_def Let_def split: interface_selector_kind.split)
  then show "edges_in (import_events a b i) = {}" .
  show "edges_in (interface_edge_events a b reference facts) = {}"
    using i by (auto simp: interface_edge_events_def edges_in_def split: option.split)
  show "edges_in (extraction_events st) = {}" by (cases st) simp_all
  show "edges_in (interface_extraction_events ist) = {}" by (cases ist) simp_all
  show "edges_in (surface_events sst) = {}" by (cases sst) simp_all
  show "edges_in (gap_count_events g) = {}" by (simp add: gap_count_events_def)
  show "edges_in [edge_kind_count kind] = {}" by (cases kind) simp_all
qed

lemma edges_in_concat: "edges_in (concat evss) = (\<Union>evs\<in>set evss. edges_in evs)"
  by (auto simp: edges_in_def)

lemma file_events_within:
  assumes "targets_within (cx_index c) N" and "sf_path f \<in> N"
  shows "edges_within N (edges_in (file_events c f))"
proof -
  have "edges_within N (edges_in (reference_events (cx_index c) f interfaces reference))" for interfaces reference
  proof (cases "reference_class_of (ref_kind reference)")
    case (ClassEdge kind)
    let ?r = "resolve_edge_reference (cx_index c) f reference"
    have "reference_events (cx_index c) f interfaces reference =
        [edge_kind_count kind] @ resolution_events (logical_path (rx_go (cx_index c)) f) kind reference interfaces ?r"
      using ClassEdge by (simp add: reference_events_def)
    moreover have "edges_within N (edges_in (resolution_events (logical_path (rx_go (cx_index c)) f) kind reference interfaces ?r))"
      using logical_within [OF assms] resolved_within [OF assms(1), of f reference]
      by (auto simp: resolution_events_def edges_within_def split: resolution.split option.split)
    ultimately show ?thesis by (cases kind) simp_all
  qed (simp_all add: reference_events_def edges_within_def)
  then show ?thesis
    by (auto simp: file_events_def edges_within_def edges_in_concat interface_events_def Let_def split: option.split)
qed

section \<open>Projections are graphs\<close>

definition graph_within :: "repo_path set \<Rightarrow> projection \<Rightarrow> bool" where
  "graph_within N p \<longleftrightarrow> bs_wf (pj_edges p) \<and> edges_within N (set (pj_edges p))"

lemma graph_events:
  "graph_within N p \<Longrightarrow> edges_within N (edges_in evs) \<Longrightarrow> graph_within N (apply_events evs p)"
proof (induction evs arbitrary: p)
  case (Cons e evs)
  have "graph_within N (apply_event e p)"
    using Cons.prems by (cases e) (auto simp: graph_within_def edges_within_def insert_edge_def)
  moreover have "edges_within N (edges_in evs)" using Cons.prems(2) by (cases e) (auto simp: edges_within_def)
  ultimately show ?case using Cons.IH by simp
qed simp

lemma empty_graph: "pj_edges p = [] \<Longrightarrow> graph_within N p"
  by (simp add: graph_within_def edges_within_def)

lemma project_graph:
  assumes "targets_within (cx_index c) N" and "sf_path ` set (snapshot_file_list s) \<subseteq> N"
  shows "graph_within N (project_with_index c s)"
proof -
  have "edges_within N (edges_in (concat (map (file_events c) (snapshot_file_list s))))"
    using file_events_within [OF assms(1)] assms(2) by (auto simp: edges_in_concat edges_within_def)
  then show ?thesis unfolding observed_events
    by (simp add: graph_events empty_graph initial_projection_def default_projection_def)
qed

lemma project_file_graph:
  assumes "targets_within (cx_index c) N" and "sf_path f \<in> N"
  shows "graph_within N (project_file c f)"
  using graph_events [OF empty_graph, of "default_projection\<lparr> pj_nodes := [sf_path f] \<rparr>" N "own_events c f"] file_events_within [OF assms]
  by (simp add: project_file_events own_events_def default_projection_def)

lemma interface_edge_edges: "pj_edges (add_interface_edge entry p) = pj_edges p"
proof -
  have "pj_edges (fold (insert_selector k) ss p) = pj_edges p" for k ss p by (induction ss arbitrary: p) simp_all
  then show ?thesis by (simp add: add_interface_edge_def Let_def split_def)
qed

lemma add_graph: "graph_within N p \<Longrightarrow> graph_within N d \<Longrightarrow> graph_within N (add_contribution d p)"
proof -
  assume p: "graph_within N p" and d: "graph_within N d"
  have ie: "pj_edges (fold add_interface_edge es q) = pj_edges q" for es q
    by (induction es arbitrary: q) (simp_all add: interface_edge_edges)
  have gp: "pj_edges (fold record_resolution_gap gs q) = pj_edges q" for gs q
    by (induction gs arbitrary: q) simp_all
  let ?g = "fold record_resolution_gap (pj_resolution_gaps d) (p\<lparr> pj_coverage := add_coverage (pj_coverage p) (pj_coverage d),
      pj_interface_coverage := add_interface_coverage (pj_interface_coverage p) (pj_interface_coverage d),
      pj_resolution_gaps_truncated := (pj_resolution_gaps_truncated p \<or> pj_resolution_gaps_truncated d) \<rparr>)"
  let ?q = "?g\<lparr> pj_interface_coverage := (pj_interface_coverage ?g)\<lparr> icov_resolved_selectors := icov_resolved_selectors (pj_interface_coverage p) \<rparr> \<rparr>"
  have "graph_within N ?q" using p by (simp add: graph_within_def gp)
  moreover have "edges_in (map EdgeEvent es) = set es" for es by (auto simp: edges_in_def)
  ultimately have "graph_within N (apply_events (map EdgeEvent (pj_edges d)) ?q)"
    using d by (intro graph_events) (simp_all add: graph_within_def)
  then have "graph_within N (fold insert_edge (pj_edges d) ?q)" by (simp add: apply_mapped)
  then show ?thesis unfolding add_contribution_def Let_def by (simp add: graph_within_def ie)
qed

lemma remove_graph: "graph_within N p \<Longrightarrow> graph_within N (subtract_contribution d p)"
proof -
  have "set (fold bs_remove xs s) \<subseteq> set s \<and> (bs_wf s \<longrightarrow> bs_wf (fold bs_remove xs s))" for xs and s :: "dependency_edge list"
  proof (induction xs arbitrary: s)
    case (Cons x xs)
    have "bs_wf s \<Longrightarrow> bs_wf (bs_remove x s)" by (simp add: bs_remove_def bs_wf_def sorted_wrt_filter)
    moreover have "set (bs_remove x s) \<subseteq> set s" by (auto simp: bs_remove_def)
    ultimately show ?case using Cons [of "bs_remove x s"] by auto
  qed simp
  then show "graph_within N p \<Longrightarrow> graph_within N (subtract_contribution d p)"
    by (auto simp: graph_within_def edges_within_def subtract_contribution_def)
qed

lemma update_graph:
  assumes "targets_within (cx_index c) N" and "snapshot_wf before" and "snapshot_wf after" and "sf_path ` set (snapshot_file_list after) \<subseteq> N"
  shows "graph_within N p \<Longrightarrow> graph_within N (update_changed_importers before after p c paths)"
proof -
  have "graph_within N (update_importer before after c path p)" if "graph_within N p" for path p
  proof (cases "snapshot_read after path")
    case (Some g)
    then have "sf_path g \<in> N" using files_read [OF assms(3)] assms(4) by auto
    with that Some show ?thesis
      by (auto simp: update_importer_def intro!: add_graph remove_graph project_file_graph [OF assms(1)] split: option.split)
  qed (use that in \<open>simp add: update_importer_def\<close>)
  then show "graph_within N p \<Longrightarrow> graph_within N (update_changed_importers before after p c paths)"
    unfolding update_changed_importers_def by (induction paths arbitrary: p) simp_all
qed

section \<open>Pairs of projections\<close>

lemma index_languages: "rx_languages (ResolutionIndex_new K s facts opts files) = bt_collect (map (\<lambda>f. (sf_path f, sf_language f)) (snapshot_file_list s))"
proof -
  have "rx_languages (fold index_add_file fs index) = rx_languages index" for fs index
    by (induction fs arbitrary: index) (simp_all add: index_add_file_def split: option.split language.split)
  then show ?thesis by (simp add: ResolutionIndex_new_def Let_def)
qed

lemma index_nodes:
  "bs_wf (map fst (rx_languages (ResolutionIndex_new K s facts opts files)))"
  "set (map fst (rx_languages (ResolutionIndex_new K s facts opts files))) = sf_path ` set (snapshot_file_list s)"
proof -
  show "bs_wf (map fst (rx_languages (ResolutionIndex_new K s facts opts files)))" by (simp add: index_languages bs_keys_wf)
  have "dom (bt_get (bt_collect (map (\<lambda>f. (sf_path f, sf_language f)) fs))) = sf_path ` set fs" for fs
    by (simp add: bt_get_collect dom_map_of_conv_image_fst image_image)
  then show "set (map fst (rx_languages (ResolutionIndex_new K s facts opts files))) = sf_path ` set (snapshot_file_list s)"
    by (simp add: index_languages dom_map_of_conv_image_fst)
qed

lemma observed_nodes: "pj_nodes (project_with_index c s) = map fst (rx_languages (cx_index c))"
proof -
  have "pj_nodes (apply_events evs p) = pj_nodes p" for evs p by (rule fold_keeps_nodes) (rule event_nodes)
  then have "pj_nodes (observe_file c f p) = pj_nodes p" for f p using file_events [of c f p] by metis
  then show ?thesis by (simp add: project_with_index_def fold_keeps_nodes initial_projection_def)
qed

lemma graph_projection_wf: "graph_within (set (pj_nodes p)) p \<Longrightarrow> bs_wf (pj_nodes p) \<Longrightarrow> projection_wf p"
  by (auto simp: projection_wf_def graph_within_def edges_within_def)

lemma safe_paths:
  assumes "incremental_safe i index" and "snapshot_wf (pi_before i)" and "snapshot_wf (pi_after i)"
  shows "sf_path ` set (snapshot_file_list (pi_after i)) = sf_path ` set (snapshot_file_list (pi_before i))"
proof -
  have "set (snapshot_paths s) = sf_path ` set (snapshot_file_list s)" if "snapshot_wf s" for s
    using that by (force simp: snapshot_paths_def snapshot_file_list_def snapshot_wf_def image_image)
  moreover have "snapshot_paths (pi_before i) = snapshot_paths (pi_after i)"
    using related_paths [OF safe_replaceable [OF assms(1)] assms(2,3)] replaceableD by blast
  ultimately show ?thesis using assms(2,3) by metis
qed

lemma pair_projection_wf:
  assumes "project_pair i = (before, after, changed)" and "snapshot_wf (pi_before i)" and "snapshot_wf (pi_after i)"
  shows "projection_wf before \<and> projection_wf after"
proof -
  let ?new = "\<lambda>s g. ResolutionIndex_new (pi_crates i) s (pi_file_facts i) (pi_parser_options i) g"
  have scratch: "projection_wf (project_with_index (pair_context i (?new s g) paths) s)" for s g paths
  proof (rule graph_projection_wf)
    show "graph_within (set (pj_nodes (project_with_index (pair_context i (?new s g) paths) s))) (project_with_index (pair_context i (?new s g) paths) s)"
      unfolding observed_nodes pair_context_def resolution_context.simps index_nodes(2)
      by (rule project_graph) (simp_all add: index_within)
  qed (simp add: observed_nodes pair_context_def index_nodes(1))
  let ?index = "?new (pi_before i) (gmv_before (pi_go_modules i))"
  let ?N = "sf_path ` set (snapshot_file_list (pi_before i))"
  have kept: "projection_wf (project_with_index (pair_context i ?index paths) (pi_after i))"
    "projection_wf (update_changed_importers (pi_before i) (pi_after i) (project_with_index (pair_context i ?index paths') (pi_before i)) (pair_context i ?index paths) qs)"
    if safe: "incremental_safe i ?index" for paths paths' qs
  proof -
    have t: "targets_within (cx_index (pair_context i ?index paths)) ?N" for paths by (simp add: pair_context_def index_within)
    note sp = safe_paths [OF safe assms(2,3)]
    have "graph_within ?N (project_with_index (pair_context i ?index paths) (pi_after i))"
      "graph_within ?N (project_with_index (pair_context i ?index paths') (pi_before i))"
      using project_graph [OF t] sp by simp_all
    moreover from this(2) have "graph_within ?N (update_changed_importers (pi_before i) (pi_after i)
        (project_with_index (pair_context i ?index paths') (pi_before i)) (pair_context i ?index paths) qs)"
      using update_graph [OF t assms(2,3)] sp by simp
    moreover have "bs_wf (map fst (rx_languages ?index))" "set (map fst (rx_languages ?index)) = ?N" by (rule index_nodes)+
    ultimately show "projection_wf (project_with_index (pair_context i ?index paths) (pi_after i))"
      "projection_wf (update_changed_importers (pi_before i) (pi_after i) (project_with_index (pair_context i ?index paths') (pi_before i)) (pair_context i ?index paths) qs)"
      by (auto intro!: graph_projection_wf simp: observed_nodes update_nodes pair_context_def)
  qed
  have "full_projection_required False p" for p by (simp add: full_projection_required_def)
  then show ?thesis using assms(1) scratch kept unfolding project_pair_def project_changed_def Let_def by (auto split: if_splits)
qed

lemma canonicalize_wf: "projection_wf p \<Longrightarrow> projection_wf (canonicalize p continuity)"
  by (auto simp: projection_wf_def canonicalize_def Let_def)

lemma unsupported_coverage_wf: "projection_wf (add_unsupported_coverage n p) \<longleftrightarrow> projection_wf p"
  by (simp add: projection_wf_def add_unsupported_coverage_def)

section \<open>The comparison returns\<close>

lemma duplicates_found: "\<exists>r. introduced_duplicates K b64 inputs = Some r \<and> length (dr_findings r) \<le> di_finding_limit inputs"
proof (cases "snap_id (di_before inputs) = snap_id (di_after inputs)")
  case True
  then show ?thesis by (simp add: introduced_duplicates_def identical_snapshot_result_def split_def Let_def)
next
  case False
  show ?thesis by (rule introduced_duplicates_parts [OF False, of K b64]) simp
qed

text \<open>What an evaluation compares.\<close>

abbreviation baseline_graph :: "sense_request \<Rightarrow> projection \<Rightarrow> projection" where
  "baseline_graph request p \<equiv> add_unsupported_coverage (srq_before_unsupported_files request) p"

abbreviation candidate_graph :: "sense_request \<Rightarrow> projection \<Rightarrow> projection" where
  "candidate_graph request p \<equiv> add_unsupported_coverage (srq_after_unsupported_files request) p"

lemma comparison_wf: "projection_wf p \<Longrightarrow> projection_wf (comparison_projection continuity p)"
  by (simp add: comparison_projection_def canonicalize_wf)

lemma evaluate_graph_Some:
  fixes request :: sense_request
  assumes "snapshot_wf (srq_before request)" and "snapshot_wf (srq_after request)"
  obtains before after changed cs dedup g where
    "project_pair (request_pair K request facts opts) = (before, after, changed)" and "projection_wf before" and "projection_wf after"
    and "(if request_views_match request then Some []
      else introduced_cycles (comparison_projection (request_continuity request) (baseline_graph request before)) (candidate_graph request after)) = Some cs"
    and "introduced_duplicates K b64 (request_dedup request facts keys (request_continuity request) (length (take MAX_SENSE_FINDINGS cs))) = Some dedup"
    and "length (dr_findings dedup) \<le> MAX_SENSE_FINDINGS - length (take MAX_SENSE_FINDINGS cs)"
    and "evaluate_graph K b64 clock request facts keys opts = Some g"
    and "ge_before_projection g = baseline_graph request before" and "ge_after_projection g = candidate_graph request after"
    and "ge_introduced_cycles g = take MAX_SENSE_FINDINGS cs" and "ge_introduced_duplicates g = dr_findings dedup"
    and "length (ge_interface_findings g) \<le> MAX_SENSE_FINDINGS - length (take MAX_SENSE_FINDINGS cs) - length (dr_findings dedup)"
    and "ge_dedup_coverage g = dr_coverage dedup" and "ge_dedup_issues g = dr_issues dedup"
proof -
  obtain before after changed where p: "project_pair (request_pair K request facts opts) = (before, after, changed)" by (rule prod_cases3)
  have wf: "projection_wf before \<and> projection_wf after"
    by (rule pair_projection_wf [OF p]) (use assms in \<open>simp_all add: request_pair_def\<close>)
  let ?b = "comparison_projection (request_continuity request) (baseline_graph request before)" and ?a = "candidate_graph request after"
  have "projection_wf ?b" "projection_wf ?a" using wf by (simp_all add: comparison_wf unsupported_coverage_wf)
  from introduced_cycles_spec [OF this] obtain cs where
    cs: "(if request_views_match request then Some [] else introduced_cycles ?b ?a) = Some cs"
    by (cases "request_views_match request") auto
  let ?d = "request_dedup request facts keys (request_continuity request) (length (take MAX_SENSE_FINDINGS cs))"
  obtain dedup where d: "introduced_duplicates K b64 ?d = Some dedup" and n: "length (dr_findings dedup) \<le> MAX_SENSE_FINDINGS - length (take MAX_SENSE_FINDINGS cs)"
    using duplicates_found [of K b64 ?d] by (auto simp: request_dedup_def)
  note e = evaluate_graph_def [of K b64 clock request facts keys opts, unfolded p Let_def prod.case cs option.case d]
  show ?thesis by (rule that [OF p _ _ cs d n e]) (use wf in simp_all)
qed

end
