(* ===== verification/SenseSound.thy ===== *)
theory SenseSound
  imports SenseTotal
begin

text \<open>
  What a sense report says: the facts behind it are those of the analysis of one file for each key, the status
  tells how far the report can be trusted, and a clean one means that every reference in those facts was followed.
\<close>

section \<open>Counters that stay at zero\<close>

lemma rc_sum_zero: "rc_sum i evs = 0 \<Longrightarrow> CountRC i n \<in> set evs \<Longrightarrow> n = 0"
  by (induction evs) (auto split: event.splits if_splits)

text \<open>A file with facts in which nothing is left open.\<close>

definition followed :: "resolution_index \<Rightarrow> source_file \<Rightarrow> dependency_reference \<Rightarrow> bool" where
  "followed index f reference \<longleftrightarrow>
     (case reference_class_of (ref_kind reference) of
        ClassEdge _ \<Rightarrow> (case resolve_edge_reference index f reference of Resolved _ \<Rightarrow> True | SameFile \<Rightarrow> True | _ \<Rightarrow> False)
      | _ \<Rightarrow> False)"

definition settled_file :: "resolution_context \<Rightarrow> source_file \<Rightarrow> bool" where
  "settled_file c f \<longleftrightarrow>
     (case bt_get (cx_file_facts c) (fact_key (cx_crates c) f (cx_parser_options c)) of
        None \<Rightarrow> False
      | Some facts \<Rightarrow> dep_status (ff_dependencies facts) = DComplete \<and>
          list_all (followed (cx_index c) f) (dep_references (ff_dependencies facts)))"

definition open_counters :: "nat list" where
  "open_counters = [2, 3, 4, 9, 10, 11, 12, 13]"

lemma settled_events:
  assumes "\<And>i. i \<in> set open_counters \<Longrightarrow> CountRC i 1 \<notin> set (file_events c f)"
  shows "settled_file c f"
proof (cases "bt_get (cx_file_facts c) (fact_key (cx_crates c) f (cx_parser_options c))")
  case None
  with assms [of 3] show ?thesis by (simp add: file_events_def open_counters_def)
next
  case (Some facts)
  let ?projected = "logical_path (rx_go (cx_index c)) f \<in> set (cx_interface_paths c)"
  let ?i = "if ?projected then Some (ff_interfaces facts) else None"
  have sub: "set (extraction_events (dep_status (ff_dependencies facts))) \<subseteq> set (file_events c f)"
    "set (reference_events (cx_index c) f ?i reference) \<subseteq> set (file_events c f)"
    if "reference \<in> set (dep_references (ff_dependencies facts))" for reference
    using Some that by (auto simp: file_events_def Let_def)
  have ext: "set (extraction_events (dep_status (ff_dependencies facts))) \<subseteq> set (file_events c f)"
    using Some by (auto simp: file_events_def Let_def)
  have "dep_status (ff_dependencies facts) = DComplete"
    using ext assms [of 2] assms [of 3] assms [of 4] by (cases "dep_status (ff_dependencies facts)") (auto simp: open_counters_def)
  moreover have "followed (cx_index c) f reference" if "reference \<in> set (dep_references (ff_dependencies facts))" for reference
  proof -
    have no: "CountRC i 1 \<notin> set (reference_events (cx_index c) f ?i reference)" if "i \<in> set open_counters" for i
      using sub(2) [OF \<open>reference \<in> _\<close>] assms [OF that] by blast
    show ?thesis
      using no [of 9] no [of 10] no [of 11] no [of 12] no [of 13]
      by (auto simp: followed_def reference_events_def resolution_events_def open_counters_def split: reference_class.splits resolution.splits)
  qed
  ultimately show ?thesis using Some by (simp add: settled_file_def list_all_iff)
qed

lemma settled_view:
  assumes "\<And>i. i \<in> set open_counters \<Longrightarrow> rc_counts (pj_coverage (project_with_index c s)) ! i = 0" and "f \<in> set (snapshot_file_list s)"
  shows "settled_file c f"
proof (rule settled_events)
  fix i
  assume i: "i \<in> set open_counters"
  then have "i < 15" by (auto simp: open_counters_def)
  let ?evs = "concat (map (file_events c) (snapshot_file_list s))" and ?p = "initial_projection c s"
  note p = observed_events [of c s]
  have z: "rc_counts (pj_coverage ?p) ! i = 0"
    using i by (auto simp: open_counters_def initial_projection_def default_resolution_coverage_def rc_counts_def)
  from counts_events(1) [OF \<open>i < 15\<close>, of ?p ?evs] assms(1) [OF i] have "rc_sum i ?evs = 0"
    by (simp add: p z usize_max_def min_def split: if_splits)
  then show "CountRC i 1 \<notin> set (file_events c f)" using rc_sum_zero [of i ?evs 1] assms(2) by auto
qed

section \<open>Facts of a request\<close>

lemma collect_results_Inr:
  "collect_results xs = Inr es \<Longrightarrow> list_all2 (\<lambda>x e. fst x = fst e \<and> snd x = Inr (snd e)) xs es"
proof (induction xs arbitrary: es)
  case (Cons x xs)
  obtain key r where x: "x = (key, r)" by (cases x)
  with Cons.prems show ?case
    by (cases r; cases "collect_results xs") (auto dest: Cons.IH)
qed simp

lemma reference_facts_lookup:
  assumes "reference_facts K A limits files = Inr facts" and "bt_wf files" and "(key, f) \<in> set files"
  shows "\<exists>ff. bt_get facts key = Some ff \<and> settle_facts (file_analysis K A f limits) = Inr ff"
proof -
  let ?xs = "map (\<lambda>e. (fst e, settle_facts (file_analysis K A (snd e) limits))) files"
  have "collect_facts (map fst files) (map (\<lambda>e. settle_facts (file_analysis K A (snd e) limits)) files) = map_sum (\<lambda>e. e) bt_collect (collect_results ?xs)"
    by (simp add: collect_facts_def zip_map_map zip_same_conv_map comp_def)
  with assms(1) obtain es where es: "collect_results ?xs = Inr es" "facts = bt_collect es"
    by (cases "collect_results ?xs") (auto simp: reference_facts_def)
  note rel = collect_results_Inr [OF es(1)]
  have keys: "map fst es = map fst files" using rel by (auto simp: list_all2_conv_all_nth intro!: nth_equalityI)
  obtain n where n: "n < length files" "files ! n = (key, f)" using assms(3) by (auto simp: in_set_conv_nth)
  then have "n < length es" "fst (es ! n) = key" "settle_facts (file_analysis K A f limits) = Inr (snd (es ! n))"
    using rel by (auto simp: list_all2_conv_all_nth)
  moreover from this have "(key, snd (es ! n)) \<in> set es" by (metis nth_mem prod.collapse)
  moreover have "distinct (map fst es)" using keys bt_wf_distinct [OF assms(2)] by simp
  ultimately show ?thesis using es(2) bt_get_collect_distinct by metis
qed

lemma unique_files_fold:
  fixes K opts
  defines "step \<equiv> add_unique_file K opts"
  assumes "bt_wf (fst acc)" and "\<forall>(k, g)\<in>set (fst acc). g \<in> G \<and> fact_key K g opts = k"
  shows "bt_wf (fst (fold step fs acc)) \<and> (\<forall>(k, g)\<in>set (fst (fold step fs acc)). g \<in> G \<union> set fs \<and> fact_key K g opts = k) \<and>
    fst ` set (fst acc) \<union> (\<lambda>f. fact_key K f opts) ` set fs \<subseteq> fst ` set (fst (fold step fs acc))"
  using assms(2,3)
proof (induction fs arbitrary: acc G)
  case (Cons f fs)
  let ?acc = "step f acc"
  have acc: "fst ?acc = bt_insert (fact_key K f opts) f (fst acc)" by (simp add: step_def add_unique_file_def Let_def)
  have "bt_wf (fst ?acc)" "\<forall>(k, g)\<in>set (fst ?acc). g \<in> insert f G \<and> fact_key K g opts = k"
    using Cons.prems set_bt_insert [of "fact_key K f opts" f "fst acc"] by (auto simp: acc)
  note ih = Cons.IH [OF this]
  have G: "insert f G \<union> set fs = G \<union> set (f # fs)" by auto
  have keys: "fst ` set (fst ?acc) \<union> (\<lambda>f. fact_key K f opts) ` set fs = fst ` set (fst acc) \<union> (\<lambda>f. fact_key K f opts) ` set (f # fs)"
    by (simp add: acc)
  show ?case using ih unfolding fold.simps comp_apply G keys .
qed auto

lemma unique_files_entries:
  "bt_wf (fst (unique_files K before after opts))"
  "(key, g) \<in> set (fst (unique_files K before after opts)) \<Longrightarrow>
     g \<in> set (snapshot_file_list before @ snapshot_file_list after) \<and> fact_key K g opts = key"
  "f \<in> set (snapshot_file_list before @ snapshot_file_list after) \<Longrightarrow> \<exists>g. (fact_key K f opts, g) \<in> set (fst (unique_files K before after opts))"
proof -
  let ?fs = "snapshot_file_list before @ snapshot_file_list after"
  let ?m = "fst (unique_files K before after opts)"
  have u: "bt_wf ?m" "\<forall>(k, g)\<in>set ?m. g \<in> {} \<union> set ?fs \<and> fact_key K g opts = k" "(\<lambda>f. fact_key K f opts) ` set ?fs \<subseteq> fst ` set ?m"
    using unique_files_fold [where acc = "([], [])" and G = "{}" and K = K and opts = opts and fs = ?fs]
    unfolding unique_files_def by simp_all
  show "bt_wf ?m" by (rule u(1))
  show "(key, g) \<in> set ?m \<Longrightarrow> g \<in> set ?fs \<and> fact_key K g opts = key" using u(2) by auto
  show "\<exists>g. (fact_key K f opts, g) \<in> set ?m" if "f \<in> set ?fs"
  proof -
    have "fact_key K f opts \<in> fst ` set ?m" using u(3) that by blast
    then show ?thesis by (metis imageE prod.collapse)
  qed
qed

definition sense_request_wf :: "crates \<Rightarrow> sense_request \<Rightarrow> bool" where
  "sense_request_wf K request \<longleftrightarrow>
     snapshot_wf (srq_before request) \<and> snapshot_wf (srq_after request) \<and> limits_wf (sop_limits (srq_options request)) \<and>
     list_all (file_wf K) (snapshot_file_list (srq_before request) @ snapshot_file_list (srq_after request))"

abbreviation request_limits :: "sense_request \<Rightarrow> rule_limits" where
  "request_limits request \<equiv> sop_limits (srq_options request)"

abbreviation request_sources :: "sense_request \<Rightarrow> source_file set" where
  "request_sources request \<equiv> set (snapshot_file_list (srq_before request) @ snapshot_file_list (srq_after request))"

text \<open>The files that are loaded: of the files that share a key, the last one.\<close>

abbreviation loaded_files :: "crates \<Rightarrow> (rule_limits \<Rightarrow> bytes) \<Rightarrow> sense_request \<Rightarrow> (file_fact_key, source_file) btree_map" where
  "loaded_files K opts request \<equiv> fst (unique_files K (srq_before request) (srq_after request) (opts (request_limits request)))"

abbreviation request_reference :: "crates \<Rightarrow> analyzers \<Rightarrow> (rule_limits \<Rightarrow> bytes) \<Rightarrow> sense_request \<Rightarrow> (analysis_error, fact_map) result" where
  "request_reference K A opts request \<equiv> reference_facts K A (request_limits request) (loaded_files K opts request)"

text \<open>The entries a cache already holds for the files of a request are right.\<close>

definition entries_right ::
    "crates \<Rightarrow> analyzers \<Rightarrow> (rule_limits \<Rightarrow> bytes) \<Rightarrow> sense_request \<Rightarrow> memory_fact_cache \<Rightarrow> bool" where
  "entries_right K A opts request c \<longleftrightarrow>
     list_all (\<lambda>(key, src). \<forall>f. memory_view c key = Some f \<longrightarrow> file_analysis K A src (request_limits request) = Inr f)
       (loaded_files K opts request)"

text \<open>No two of the loaded files have the same key, so they cannot disagree about one.\<close>

lemma loaded_no_conflict: "no_key_conflict K A limits opts (snd ` set (fst (unique_files K before after opts)))"
proof -
  let ?m = "fst (unique_files K before after opts)"
  have inj: "inj_on fst (set ?m)" using bt_wf_distinct [OF unique_files_entries(1)] by (simp add: distinct_map)
  have "snd e = snd e'" if "e \<in> set ?m" "e' \<in> set ?m" "fact_key K (snd e) opts = fact_key K (snd e') opts" for e e'
    using inj_onD [OF inj _ that(1,2)] that unique_files_entries(2) [of "fst e" "snd e" K before after opts]
      unique_files_entries(2) [of "fst e'" "snd e'" K before after opts] by simp
  then show ?thesis unfolding no_key_conflict_def by (blast intro: arg_cong [where f = "\<lambda>src. file_analysis K A src limits"])
qed

lemma entries_right_good:
  assumes "entries_right K A opts request c" and "memory_view c key = Some f"
  shows "good_entry K A (request_limits request) (opts (request_limits request)) (snd ` set (loaded_files K opts request)) key f"
  unfolding good_entry_def
proof (intro ballI impI)
  fix src
  assume "src \<in> snd ` set (loaded_files K opts request)" and key: "fact_key K src (opts (request_limits request)) = key"
  then obtain k where k: "(k, src) \<in> set (loaded_files K opts request)" by auto
  from unique_files_entries(2) [OF this] key have "k = key" by simp
  with k assms show "file_analysis K A src (request_limits request) = Inr f" by (auto simp: entries_right_def list_all_iff)
qed

text \<open>The facts that stand for a file are the analysis of a file of the request with the same key.\<close>

lemma request_facts:
  fixes request :: sense_request
  assumes "request_reference K A opts request = Inr facts" and "f \<in> request_sources request"
    and "bt_get facts (fact_key K f (opts (request_limits request))) = Some ff" and "dep_status (ff_dependencies ff) = DComplete"
  shows "\<exists>g\<in>request_sources request. fact_key K g (opts (request_limits request)) = fact_key K f (opts (request_limits request)) \<and>
    file_analysis K A g (request_limits request) = Inr ff"
proof -
  let ?limits = "request_limits request"
  note u = unique_files_entries [where K = K and before = "srq_before request" and after = "srq_after request" and opts = "opts ?limits"]
  obtain g where g: "(fact_key K f (opts ?limits), g) \<in> set (loaded_files K opts request)" using u(3) [OF assms(2)] by blast
  from reference_facts_lookup [OF assms(1) u(1) g] assms(3) have s: "settle_facts (file_analysis K A g ?limits) = Inr ff" by auto
  moreover have "ff \<noteq> unsupported_facts" using assms(4) by (auto simp: unsupported_facts_def)
  ultimately have "file_analysis K A g ?limits = Inr ff" by (auto simp: settle_facts_def split: sum.splits analysis_error.splits)
  with u(2) [OF g] show ?thesis by blast
qed

section \<open>Reports\<close>

lemma clean_status: "sense_status_of i = SenseClean \<Longrightarrow> \<not> status_incomplete i \<and> \<not> status_partial i \<and> \<not> sti_has_findings i"
  by (simp add: sense_status_of_def split: if_splits)

lemma clean_coverage:
  assumes "\<not> incomplete_coverage (add_unsupported_coverage n p)" and "\<not> partial_coverage (add_unsupported_coverage n p)"
  shows "i \<in> set open_counters \<Longrightarrow> rc_counts (pj_coverage p) ! i = 0" and "\<not> truncated p"
proof -
  have sat: "0 < sat_add x n \<longleftrightarrow> 0 < x \<or> 0 < n" for x by (simp add: sat_add_def usize_max_def)
  have "rc_unsupported_files (pj_coverage p) = 0" "rc_parser_failed_files (pj_coverage p) = 0" "rc_truncated_files (pj_coverage p) = 0"
    "rc_node_builtin_references (pj_coverage p) = 0" "rc_external_references (pj_coverage p) = 0" "rc_ambiguous_references (pj_coverage p) = 0"
    "rc_unresolved_references (pj_coverage p) = 0" "rc_unsupported_dynamic_references (pj_coverage p) = 0"
    using assms by (simp_all add: incomplete_coverage_def partial_coverage_def add_unsupported_coverage_def sat)
  then show "rc_counts (pj_coverage p) ! i = 0" if "i \<in> set open_counters"
    using that by (auto simp: rc_counts_def open_counters_def)
  show "\<not> truncated p" using assms(1) by (simp add: incomplete_coverage_def add_unsupported_coverage_def truncated_def)
qed

lemma cycles_unsupported:
  "cycles (add_unsupported_coverage n p) = cycles p"
  "cycles (comparison_projection continuity (add_unsupported_coverage n p)) = cycles (comparison_projection continuity p)"
  by (simp_all add: cycles_def runtime_rel_def add_unsupported_coverage_def comparison_projection_def canonicalize_def Let_def)

text \<open>Without a single reported cycle there is none.\<close>

lemma no_introduced_cycle:
  assumes "projection_wf before" and "projection_wf after" and "introduced_cycles before after = Some []" and "C \<in> cycles after"
  shows "\<exists>D\<in>cycles before. C \<subseteq> D"
proof -
  from introduced_cycles_spec [OF assms(1,2)] assms(3) obtain comps where
    "set ` set comps = {C \<in> cycles after. \<not> (\<exists>D\<in>cycles before. C \<subseteq> D)}" "list_all2 (reports_cycle before after) comps []" by auto
  with assms(4) show ?thesis by auto
qed

lemma finish_report:
  fixes request :: sense_request
  assumes "finish_request K b64 clock request opts loaded cache_before cache_after = Inr report"
  obtains facts g ctx where "loaded = Inr facts"
    and "evaluate_graph K b64 clock request facts (snd (unique_files K (srq_before request) (srq_after request) opts)) opts = Some g"
    and "report = build_report K request g ctx cache_after"
  using assms by (auto simp: finish_request_def Let_def split_def split: sum.splits option.splits)

lemma finish_never_panics:
  fixes request :: sense_request
  assumes "sense_request_wf K request"
  shows "finish_request K b64 clock request opts loaded cache_before cache_after \<noteq> Inl SensePanicked"
proof (cases loaded)
  case (Inr facts)
  have wf: "snapshot_wf (srq_before request)" "snapshot_wf (srq_after request)" using assms by (simp_all add: sense_request_wf_def)
  have "\<exists>g. evaluate_graph K b64 clock request facts keys opts = Some g" for keys
    by (rule evaluate_graph_Some [OF wf, of K facts opts b64 keys clock]) (rule exI)
  then have "evaluate_graph K b64 clock request facts keys opts \<noteq> None" for keys by blast
  with Inr show ?thesis by (simp add: finish_request_def split_def Let_def split: option.split)
qed (simp add: finish_request_def split_def Let_def)

lemma senses_reference:
  fixes request :: sense_request
  assumes "analyzers_cooperate A" and "memory_inv c" and "entries_right K A opts request c" and "\<forall>i n. \<not> tok i n"
    and "senses K A (memory_ops to_vec) (\<lambda>l. Some (opts l)) b64 pool tok clock request c r c'"
  shows "r = finish_request K b64 clock request (opts (request_limits request)) (request_reference K A opts request)
    (memory_metadata c) (memory_metadata c')"
  using assms(5)
proof (cases rule: senses.cases)
  case (answered opts' loaded)
  let ?F = "snd ` set (loaded_files K opts request)"
  have "mem.coherent (good_entry K A (request_limits request) (opts (request_limits request)) ?F) c"
    using assms(2) entries_right_good [OF assms(3)] by (simp add: mem.coherent_def)
  from mem.loads_reference [OF assms(1) loaded_no_conflict _ this] answered assms(4)
  have "loaded = request_reference K A opts request" by auto
  with answered show ?thesis by (simp add: memory_ops_def)
qed simp

section \<open>Properties\<close>

text \<open>
  C5. An evaluation of the sensor ends whatever the schedule of its workers, and without a cancellation its outcome
  depends neither on the schedule nor on what the cache holds. However the loads of the files interleave, the workers
  perform at most two cache operations for each loaded file, and one of them can go on as long as a file is missing.
  On a memory cache whose entries for the loaded files are right, and when no token is ever cancelled, the outcome is
  the one computed from the analysis of every loaded file, up to the cache counters in it, and never a panic. One file
  is loaded for each key, the last of those that share it, and no assumption is made on files that share a key.
\<close>

theorem sense_report_exact:
  fixes request :: sense_request
  assumes "analyzers_cooperate A" and "sense_request_wf K request"
    and "memory_inv c" and "entries_right K A opts request c" and "\<forall>i n. \<not> tok i n"
  shows "(\<exists>r c'. senses K A (memory_ops to_vec) (\<lambda>l. Some (opts l)) b64 pool tok clock request c r c') \<and>
    (\<forall>n t. pool_steps (memory_ops to_vec)
         n (load_tasks K A (request_limits request) (opts (request_limits request)) tok (loaded_files K opts request), c) t \<longrightarrow>
       n \<le> 2 * length (loaded_files K opts request) \<and>
       ((\<exists>rs. fst t = map Done rs) \<or> (\<exists>u. pool_step (memory_ops to_vec) t u))) \<and>
    (\<forall>r c'. senses K A (memory_ops to_vec) (\<lambda>l. Some (opts l)) b64 pool tok clock request c r c' \<longrightarrow>
       r = finish_request K b64 clock request (opts (request_limits request)) (request_reference K A opts request)
             (memory_metadata c) (memory_metadata c') \<and> r \<noteq> Inl SensePanicked)"
proof (intro conjI allI impI)
  show "\<exists>r c'. senses K A (memory_ops to_vec) (\<lambda>l. Some (opts l)) b64 pool tok clock request c r c'" by (rule senses_total)
  fix n t
  assume "pool_steps (memory_ops to_vec)
    n (load_tasks K A (request_limits request) (opts (request_limits request)) tok (loaded_files K opts request), c) t"
  then show "n \<le> 2 * length (loaded_files K opts request)" by (rule pool_bounded)
  show "(\<exists>rs. fst t = map Done rs) \<or> (\<exists>u. pool_step (memory_ops to_vec) t u)"
    using pool_progress [of "fst t" "memory_ops to_vec" "snd t"] by simp
next
  fix r c'
  assume s: "senses K A (memory_ops to_vec) (\<lambda>l. Some (opts l)) b64 pool tok clock request c r c'"
  then show r: "r = finish_request K b64 clock request (opts (request_limits request)) (request_reference K A opts request)
      (memory_metadata c) (memory_metadata c')"
    by (rule senses_reference [OF assms(1,3-5)])
  show "r \<noteq> Inl SensePanicked" unfolding r by (rule finish_never_panics [OF assms(2)])
qed

text \<open>What a clean status says of the two projections.\<close>

definition followed_as :: "crates \<Rightarrow> analyzers \<Rightarrow> rule_limits \<Rightarrow> resolution_index \<Rightarrow> source_file \<Rightarrow> source_file \<Rightarrow> bool" where
  "followed_as K A limits index f g \<longleftrightarrow>
     (case file_analysis K A g limits of
        Inl _ \<Rightarrow> False
      | Inr facts \<Rightarrow> dep_status (ff_dependencies facts) = DComplete \<and>
          list_all (followed index f) (dep_references (ff_dependencies facts)))"

text \<open>
  Every file of a view was followed: its references are those of a file of the request with its key, itself when
  files that share a key have the same analysis.
\<close>

definition followed_view ::
    "crates \<Rightarrow> analyzers \<Rightarrow> rule_limits \<Rightarrow> bytes \<Rightarrow> source_file set \<Rightarrow> resolution_index \<Rightarrow> source_snapshot \<Rightarrow> bool" where
  "followed_view K A limits opts F index s \<longleftrightarrow>
     list_all (\<lambda>f. (\<exists>g\<in>F. fact_key K g opts = fact_key K f opts \<and> followed_as K A limits index f g) \<and>
       (no_key_conflict K A limits opts {g \<in> F. fact_key K g opts = fact_key K f opts} \<longrightarrow> followed_as K A limits index f f)) (snapshot_file_list s)"

lemma followed_viewI:
  assumes "\<And>f. f \<in> set (snapshot_file_list s) \<Longrightarrow> f \<in> F \<and> (\<exists>g\<in>F. fact_key K g opts = fact_key K f opts \<and> followed_as K A limits index f g)"
  shows "followed_view K A limits opts F index s"
  unfolding followed_view_def list_all_iff
proof (intro ballI conjI impI)
  fix f
  assume f: "f \<in> set (snapshot_file_list s)"
  from assms [OF f] show "\<exists>g\<in>F. fact_key K g opts = fact_key K f opts \<and> followed_as K A limits index f g" by blast
  then obtain g where g: "g \<in> F" "fact_key K g opts = fact_key K f opts" "followed_as K A limits index f g" by blast
  assume agree: "no_key_conflict K A limits opts {g \<in> F. fact_key K g opts = fact_key K f opts}"
  have "g \<in> {g \<in> F. fact_key K g opts = fact_key K f opts}" "f \<in> {g \<in> F. fact_key K g opts = fact_key K f opts}"
    using g(1,2) assms [OF f] by blast+
  with agree g(2) have "file_analysis K A g limits = file_analysis K A f limits" unfolding no_key_conflict_def by blast
  with g(3) show "followed_as K A limits index f f" by (simp add: followed_as_def)
qed

abbreviation view_index :: "pair_input \<Rightarrow> source_snapshot \<Rightarrow> module_files \<Rightarrow> resolution_index" where
  "view_index i s files \<equiv> ResolutionIndex_new (pi_crates i) s (pi_file_facts i) (pi_parser_options i) files"

lemma followed_projection:
  fixes request :: sense_request
  assumes "request_reference K A opts request = Inr facts" and "set (snapshot_file_list s) \<subseteq> request_sources request"
  defines "i \<equiv> request_pair K request facts (opts (request_limits request))"
  assumes "\<And>k. k \<in> set open_counters \<Longrightarrow> rc_counts (pj_coverage (full_projection i s files)) ! k = 0"
  shows "followed_view K A (request_limits request) (opts (request_limits request)) (request_sources request) (view_index i s files) s"
proof (rule followed_viewI)
  fix f
  assume f: "f \<in> set (snapshot_file_list s)"
  let ?c = "pair_context i (view_index i s files) (interface_paths (view_index i s files) (pi_interface_paths i)
      (gmv_before (pi_go_modules i) \<noteq> gmv_after (pi_go_modules i)))"
  have "settled_file ?c f" by (rule settled_view [OF _ f]) (use assms(4) in \<open>simp add: full_projection_def Let_def\<close>)
  then obtain ff where ff: "bt_get facts (fact_key K f (opts (request_limits request))) = Some ff"
    "dep_status (ff_dependencies ff) = DComplete" "list_all (followed (view_index i s files) f) (dep_references (ff_dependencies ff))"
    by (auto simp: settled_file_def pair_context_def i_def request_pair_def split: option.splits)
  have F: "f \<in> request_sources request" using f assms(2) by blast
  from request_facts [where opts = opts, OF assms(1) F ff(1,2)] ff(2,3) F
  show "f \<in> request_sources request \<and> (\<exists>g\<in>request_sources request.
      fact_key K g (opts (request_limits request)) = fact_key K f (opts (request_limits request)) \<and>
      followed_as K A (request_limits request) (view_index i s files) f g)"
    by (auto simp: followed_as_def)
qed

lemma report_status:
  "sr_status (build_report K request g ctx cache_after) = sense_status_of
     \<lparr> sti_before = ge_before_projection g, sti_after = ge_after_projection g,
       sti_has_findings = (ge_introduced_cycles g \<noteq> [] \<or> ge_introduced_duplicates g \<noteq> [] \<or> ge_interface_findings g \<noteq> []),
       sti_truncation = evaluation_truncation g, sti_dedup = ge_dedup_coverage g \<rparr>"
  "sr_introduced_cycles (build_report K request g ctx cache_after) = ge_introduced_cycles g"
  "sr_introduced_duplicates (build_report K request g ctx cache_after) = ge_introduced_duplicates g"
  "sr_interface_findings (build_report K request g ctx cache_after) = ge_interface_findings g"
  by (simp_all add: build_report_def Let_def)

lemma clean_report:
  assumes "sr_status (build_report K request g ctx cache_after) = SenseClean"
  shows "ge_introduced_cycles g = []" "ge_introduced_duplicates g = []" "ge_interface_findings g = []"
    "\<not> incomplete_coverage (ge_before_projection g)" "\<not> partial_coverage (ge_before_projection g)"
    "\<not> incomplete_coverage (ge_after_projection g)" "\<not> partial_coverage (ge_after_projection g)"
  using clean_status [OF assms [unfolded report_status]] by (simp_all add: status_incomplete_def status_partial_def)

lemma findings_bounded:
  fixes request :: sense_request
  assumes "snapshot_wf (srq_before request)" and "snapshot_wf (srq_after request)"
    and g: "evaluate_graph K b64 clock request facts keys opts = Some g"
  shows "length (ge_introduced_cycles g) + length (ge_introduced_duplicates g) + length (ge_interface_findings g) \<le> MAX_SENSE_FINDINGS"
proof (rule evaluate_graph_Some [OF assms(1,2), of K facts opts b64 keys clock], goal_cases)
  case (1 before after changed cs dedup g')
  then have "g' = g" using g by simp
  have "length (take MAX_SENSE_FINDINGS cs) \<le> MAX_SENSE_FINDINGS" by simp
  then show ?case using 1(6,12) unfolding \<open>g' = g\<close> 1(10,11) [unfolded \<open>g' = g\<close>] by linarith
qed

lemma report_explained:
  fixes K request g ctx cache_after
  defines "report \<equiv> build_report K request g ctx cache_after"
  shows "sr_issues report \<noteq> [] \<Longrightarrow> sr_status report = SenseIncomplete \<or> sr_status report = SensePartial"
    and "sr_status report = SenseIncomplete \<Longrightarrow> sr_issues report \<noteq> [] \<or>
       0 < icov_truncated_public_surfaces (gv_interface_coverage (sr_before report)) \<or>
       0 < icov_truncated_public_surfaces (gv_interface_coverage (sr_after report))"
  unfolding report_def build_report_def Let_def
  by (auto simp: sense_status_of_def status_incomplete_def status_partial_def report_issues_def incomplete_summary_def incomplete_coverage_def
      graph_summary_def Let_def split: if_splits)

text \<open>
  C4. A clean sense report, of an evaluation that was not cancelled on a memory cache whose entries for the loaded files
  are right, can be relied on: it lists nothing; for every file of both views the facts that stand for it are a complete
  analysis, and each of their references was followed from it to a file of its view or to the file itself; and every
  cycle of runtime dependencies of the candidate lies within a cycle of the baseline, seen through the exact renames.
  The facts that stand for a file are the analysis of a file of the request with the same key. They are its own
  analysis when the files with its key do not differ in theirs, which is not assumed: the key leaves out the path.
\<close>

theorem clean_sense_sound:
  fixes request :: sense_request
  defines "limits \<equiv> request_limits request"
  assumes "analyzers_cooperate A" and "sense_request_wf K request"
    and "memory_inv c" and "entries_right K A opts request c" and "\<forall>i n. \<not> tok i n"
    and "senses K A (memory_ops to_vec) (\<lambda>l. Some (opts l)) b64 pool tok clock request c (Inr report) c'"
    and "sr_status report = SenseClean"
    and "request_reference K A opts request = Inr facts" and "pair_wf (request_pair K request facts (opts limits))"
  shows "sr_introduced_cycles report = [] \<and> sr_introduced_duplicates report = [] \<and> sr_interface_findings report = [] \<and>
    followed_view K A limits (opts limits) (request_sources request)
      (view_index (request_pair K request facts (opts limits)) (srq_before request) (gmv_before (srq_go_modules request))) (srq_before request) \<and>
    followed_view K A limits (opts limits) (request_sources request)
      (view_index (request_pair K request facts (opts limits)) (srq_after request) (gmv_after (srq_go_modules request))) (srq_after request) \<and>
    (request_views_match request \<or>
      (\<forall>C\<in>cycles (full_after (request_pair K request facts (opts limits))).
        \<exists>D\<in>cycles (comparison_projection (request_continuity request) (full_before (request_pair K request facts (opts limits)))). C \<subseteq> D))"
proof -
  let ?i = "request_pair K request facts (opts limits)"
  have i: "pi_before ?i = srq_before request" "pi_after ?i = srq_after request" "pi_go_modules ?i = srq_go_modules request"
    by (simp_all add: request_pair_def)
  have wf: "snapshot_wf (srq_before request)" "snapshot_wf (srq_after request)" using assms(3) by (simp_all add: sense_request_wf_def)
  from senses_reference [OF assms(2,4-7)] assms(9)
  have "finish_request K b64 clock request (opts limits) (Inr facts) (memory_metadata c) (memory_metadata c') = Inr report"
    by (simp add: limits_def)
  then obtain g ctx where
    g: "evaluate_graph K b64 clock request facts (snd (unique_files K (srq_before request) (srq_after request) (opts limits))) (opts limits) = Some g"
    and report: "report = build_report K request g ctx (memory_metadata c')"
    by (rule finish_report) auto
  note clean = clean_report [OF assms(8) [unfolded report]]
  obtain before after changed cs where p: "project_pair ?i = (before, after, changed)" "projection_wf before" "projection_wf after"
      "(if request_views_match request then Some []
        else introduced_cycles (comparison_projection (request_continuity request) (baseline_graph request before)) (candidate_graph request after)) = Some cs"
      "ge_before_projection g = baseline_graph request before" "ge_after_projection g = candidate_graph request after"
      "ge_introduced_cycles g = take MAX_SENSE_FINDINGS cs"
    by (rule evaluate_graph_Some [OF wf, of K facts "opts limits" b64 "snd (unique_files K (srq_before request) (srq_after request) (opts limits))" clock])
      (use g in auto)
  note cb = clean_coverage [OF clean(4,5) [unfolded p(5)]] and ca = clean_coverage [OF clean(6,7) [unfolded p(6)]]
  have full: "before = full_before ?i" "after = full_after ?i" using pair_exact [OF p(1) assms(10)] ca(2) by auto
  have views: "followed_view K A limits (opts limits) (request_sources request) (view_index ?i (srq_before request) (gmv_before (srq_go_modules request))) (srq_before request)"
    "followed_view K A limits (opts limits) (request_sources request) (view_index ?i (srq_after request) (gmv_after (srq_go_modules request))) (srq_after request)"
    unfolding limits_def
    by (rule followed_projection [where opts = opts, OF assms(9)], simp, use cb(1) ca(1) full i in \<open>simp add: limits_def\<close>)+
  have "cs = []" using p(7) clean(1) by (simp add: MAX_SENSE_FINDINGS_def)
  have "\<exists>D\<in>cycles (comparison_projection (request_continuity request) before). C \<subseteq> D" if "\<not> request_views_match request" "C \<in> cycles after" for C
    using no_introduced_cycle [of "comparison_projection (request_continuity request) (baseline_graph request before)" "candidate_graph request after" C]
      p(2-4) that \<open>cs = []\<close> by (simp add: cycles_unsupported comparison_wf unsupported_coverage_wf)
  with views clean(1-3) full show ?thesis by (auto simp: report report_status)
qed

text \<open>
  C24. A report stays within its bounds and accounts for its status: all findings together are at most the bound, a report
  with an issue is partial or incomplete, and an incomplete one has an issue, unless all that is missing is the end of a
  public surface.
\<close>

theorem sense_report_accounted:
  fixes request :: sense_request
  assumes "sense_request_wf K request" and "finish_request K b64 clock request opts loaded cache_before cache_after = Inr report"
  shows "length (sr_introduced_cycles report) + length (sr_introduced_duplicates report) + length (sr_interface_findings report) \<le> MAX_SENSE_FINDINGS \<and>
    (sr_issues report \<noteq> [] \<longrightarrow> sr_status report = SenseIncomplete \<or> sr_status report = SensePartial) \<and>
    (sr_status report = SenseIncomplete \<longrightarrow> sr_issues report \<noteq> [] \<or>
       0 < icov_truncated_public_surfaces (gv_interface_coverage (sr_before report)) \<or>
       0 < icov_truncated_public_surfaces (gv_interface_coverage (sr_after report)))"
proof -
  have wf: "snapshot_wf (srq_before request)" "snapshot_wf (srq_after request)" using assms(1) by (simp_all add: sense_request_wf_def)
  from assms(2) obtain facts g ctx where
    g: "evaluate_graph K b64 clock request facts (snd (unique_files K (srq_before request) (srq_after request) opts)) opts = Some g"
    and report: "report = build_report K request g ctx cache_after"
    by (rule finish_report)
  from findings_bounded [OF wf g] report_explained [of K request g ctx cache_after] show ?thesis
    unfolding report report_status(2-4) by blast
qed

text \<open>
  The gap the last clause leaves open: a public surface that was cut makes a report incomplete without an issue.
\<close>

theorem cut_surface_unexplained:
  assumes "0 < icov_truncated_public_surfaces (pj_interface_coverage (ge_after_projection g))"
    and "evaluation_truncation g = \<lparr> rt_findings = False, rt_observations = False, rt_impact = False \<rparr>"
    and "\<not> incomplete_dedup (ge_dedup_coverage g)"
    and "\<not> incomplete_summary (graph_summary K (srq_before request) (gmv_before (srq_go_modules request)) (ge_before_projection g))"
    and "\<not> incomplete_summary (graph_summary K (srq_after request) (gmv_after (srq_go_modules request)) (ge_after_projection g))"
  shows "sr_status (build_report K request g ctx cache_after) = SenseIncomplete \<and> sr_issues (build_report K request g ctx cache_after) = []"
  using assms by (simp add: build_report_def Let_def report_issues_def sense_status_of_def status_incomplete_def incomplete_coverage_def)

end
