(* ===== verification/SenseSamples.thy ===== *)
theory SenseSamples
  imports SenseSound
begin

text \<open>
  An evaluation of the sensor on a concrete request: two Go files, the same in both views, with the same bytes and so the
  same key. Their analysis is complete and depends on their names, which take both out of the build for Linux.
\<close>

section \<open>The request\<close>

abbreviation first_file :: source_file where
  "first_file \<equiv> go_file ''a_windows.go''"

abbreviation sense_file :: source_file where
  "sense_file \<equiv> go_file ''b_windows.go''"

definition sense_view_of :: source_snapshot where
  "sense_view_of = snapshot_new plain_crates [first_file, sense_file]"

definition steady_request :: sense_request where
  "steady_request =
     \<lparr> srq_before = sense_view_of, srq_after = sense_view_of, srq_changed_paths = [], srq_before_unsupported_files = 0,
       srq_after_unsupported_files = 0, srq_unsupported_changed_files = 0, srq_dependency_metadata_changed_files = 0,
       srq_go_modules = \<lparr> gmv_before = [], gmv_after = [] \<rparr>, srq_valid_as_of = ''now'', srq_options = default_sense_options \<rparr>"

abbreviation sense_opts :: bytes where
  "sense_opts \<equiv> plain_options default_rule_limits"

abbreviation sense_key :: file_fact_key where
  "sense_key \<equiv> fact_key plain_crates sense_file sense_opts"

abbreviation steady_keys_lookup :: fact_key_lookup where
  "steady_keys_lookup \<equiv> [(sf_content_id sense_file, [(''go:source:linux:amd64'', sense_key)])]"

lemma inactive_fields [simp]:
  "dep_status (ff_dependencies inactive_facts) = DComplete" "dep_references (ff_dependencies inactive_facts) = []"
  "cff_status (ff_callable_fingerprints inactive_facts) = FComplete" "cff_callables (ff_callable_fingerprints inactive_facts) = []"
  "rff_status (ff_region_fingerprints inactive_facts) = FComplete" "rff_token_count (ff_region_fingerprints inactive_facts) = 0"
  "rff_encoded_tokens (ff_region_fingerprints inactive_facts) = []" "rff_anchors (ff_region_fingerprints inactive_facts) = []"
  by (simp_all add: inactive_facts_def active_facts_def plain_metrics_def complete_dependencies_def)

lemma first_file_fields [simp]:
  "fact_key K first_file opts = fact_key K sense_file opts" "sf_content_id first_file = sf_content_id sense_file"
  "sf_language_mode (go_file path) = ''go:source:linux:amd64''"
  by (simp_all add: fact_key_def go_file_def SourceFile_new_def)

lemma sense_fields [simp]:
  "snap_files sense_view_of = [(RepoPath ''a_windows.go'', first_file), (RepoPath ''b_windows.go'', sense_file)]"
  "snapshot_file_list sense_view_of = [first_file, sense_file]" "snapshot_len sense_view_of = 2"
  "snapshot_read sense_view_of p =
     (if p = RepoPath ''a_windows.go'' then Some first_file else if p = RepoPath ''b_windows.go'' then Some sense_file else None)"
  "srq_before steady_request = sense_view_of" "srq_after steady_request = sense_view_of" "srq_changed_paths steady_request = []"
  "srq_go_modules steady_request = \<lparr> gmv_before = [], gmv_after = [] \<rparr>" "srq_options steady_request = default_sense_options"
  "srq_before_unsupported_files steady_request = 0" "srq_after_unsupported_files steady_request = 0"
  "sop_limits default_sense_options = default_rule_limits"
  by (simp_all add: sense_view_of_def snapshot_new_def bt_collect_def snapshot_file_list_def snapshot_len_def
      snapshot_read_def steady_request_def default_sense_options_def Let_def less_repo_path_def)

lemma steady_request_wf: "sense_request_wf plain_crates steady_request"
  by (simp add: sense_request_wf_def snapshot_wf_def limits_wf_def default_rule_limits_def u32_max_def go_file_wf less_repo_path_def)

lemma sense_file_analysis:
  "file_analysis plain_crates plain_analyzers sense_file default_rule_limits = Inr inactive_facts"
  by (simp add: go_file_analysis windows_files)

lemma steady_unique: "unique_files plain_crates sense_view_of sense_view_of sense_opts =
    ([(sense_key, sense_file)], steady_keys_lookup)"
  by (simp add: unique_files_def add_unique_file_def bt_entry_def Let_def)

lemma steady_reference: "request_reference plain_crates plain_analyzers plain_options steady_request = Inr [(sense_key, inactive_facts)]"
  by (simp add: steady_unique reference_facts_def collect_facts_def sense_file_analysis settle_facts_def bt_collect_def)

section \<open>The projections\<close>

abbreviation steady_pair :: pair_input where
  "steady_pair \<equiv> request_pair plain_crates steady_request [(sense_key, inactive_facts)] sense_opts"

lemma steady_pair_fields [simp]:
  "pi_before steady_pair = sense_view_of" "pi_after steady_pair = sense_view_of" "pi_crates steady_pair = plain_crates"
  "pi_file_facts steady_pair = [(sense_key, inactive_facts)]" "pi_parser_options steady_pair = sense_opts" "pi_interface_paths steady_pair = []"
  "pi_go_modules steady_pair = \<lparr> gmv_before = [], gmv_after = [] \<rparr>"
  by (simp_all add: request_pair_def)

abbreviation steady_index :: resolution_index where
  "steady_index \<equiv> ResolutionIndex_new plain_crates sense_view_of [(sense_key, inactive_facts)] sense_opts []"

lemma steady_configuration: "gi_configuration_errors (go_index_build s []) = 0"
proof -
  have "gi_configuration_errors (fold (add_package records) packages index) = gi_configuration_errors index" for records packages index
    by (induction packages arbitrary: index) (auto simp: add_package_def Let_def split: option.split)
  then show ?thesis by (simp add: go_index_build_def go_modules_def Let_def)
qed

lemma steady_paths: "interface_paths steady_index [] False = []"
  by (simp add: interface_paths_def bs_extend_def Let_def)

abbreviation steady_context :: resolution_context where
  "steady_context \<equiv> pair_context steady_pair steady_index []"

lemma context_fields [simp]:
  "cx_crates (pair_context i index paths) = pi_crates i" "cx_file_facts (pair_context i index paths) = pi_file_facts i"
  "cx_parser_options (pair_context i index paths) = pi_parser_options i" "cx_index (pair_context i index paths) = index"
  "cx_interface_paths (pair_context i index paths) = paths"
  by (simp_all add: pair_context_def)

lemma steady_events:
  "file_events steady_context first_file = [CountRC 1 1]" "file_events steady_context sense_file = [CountRC 1 1]"
  by (simp_all add: file_events_def Let_def)

lemma steady_full: "full_projection steady_pair sense_view_of [] = project_with_index steady_context sense_view_of"
  by (simp add: full_projection_def Let_def steady_paths)

lemma steady_projection:
  "project_with_index steady_context sense_view_of =
     default_projection\<lparr> pj_nodes := map fst (rx_languages steady_index),
       pj_coverage := default_resolution_coverage\<lparr> rc_files := 2, rc_complete_files := 2 \<rparr> \<rparr>"
  by (simp add: observed_events steady_events initial_projection_def steady_configuration rc_bump_fields sat_add_def usize_max_def
      default_projection_def default_resolution_coverage_def)

lemma steady_pair_wf: "pair_wf steady_pair"
proof -
  have "counters_fit steady_pair"
    by (simp add: counters_fit_def steady_full steady_projection rc_counts_def ic_counts_def default_projection_def default_resolution_coverage_def
        default_interface_coverage_def default_interface_gap_counts_def usize_max_def)
  then show ?thesis using steady_request_wf by (simp add: pair_wf_def sense_request_wf_def modes_agree_def)
qed

section \<open>The evaluation\<close>

lemma steady_lookup:
  "lookup_file_fact first_file [(sense_key, inactive_facts)] steady_keys_lookup = Some (sense_key, inactive_facts)"
  "lookup_file_fact sense_file [(sense_key, inactive_facts)] steady_keys_lookup = Some (sense_key, inactive_facts)"
  by (simp_all add: lookup_file_fact_def)

lemma steady_decodes: "\<exists>d. decode_evidence Some (go_file path) (ff_region_fingerprints inactive_facts) = Some d"
  by (simp add: decode_evidence_def read_evidence_def decode_token_records_def decode_loop.simps)

text \<open>A view in which no evidence is missing or malformed, with the evidence decoded so far.\<close>

definition quiet_view :: "region_view \<times> decoded_evidence \<Rightarrow> bool" where
  "quiet_view acc \<longleftrightarrow> \<not> rv_request_truncated (fst acc) \<and> rv_malformed_paths (fst acc) = [] \<and> \<not> rv_malformed_paths_truncated (fst acc) \<and>
     bt_wf (snd acc) \<and> (\<forall>st. bt_get (snd acc) sense_key = Some st \<longrightarrow> (\<exists>d. st = EvDecoded d))"

lemma steady_quiet_file:
  assumes "lookup_file_fact (go_file path) facts keys = Some (sense_key, inactive_facts)" and "quiet_view acc"
  shows "quiet_view (view_add_file Some facts keys continuity (go_file path) acc)"
proof -
  obtain view de where acc: "acc = (view, de)" by (cases acc)
  obtain d where d: "decode_evidence Some (go_file path) (ff_region_fingerprints inactive_facts) = Some d" using steady_decodes by blast
  obtain e where "evidence_state_of Some sense_key (go_file path) (ff_region_fingerprints inactive_facts) True de =
      (EvDecoded e, bt_insert sense_key (EvDecoded e) de)"
    using assms(2) by (cases "bt_get de sense_key") (auto simp: acc quiet_view_def evidence_state_of_def decoded_state_def d Let_def)
  then show ?thesis
    using assms by (simp add: acc quiet_view_def view_add_file_def prospective_region_anchor_total_def Let_def)
qed

lemma steady_quiet_view:
  assumes "region_view_new Some v sense_view_of [(sense_key, inactive_facts)] steady_keys_lookup [] [] = (view, de)"
  shows "\<not> rv_request_truncated view" "rv_malformed_paths view = []" "\<not> rv_malformed_paths_truncated view"
proof -
  let ?fold = "fold (view_add_file Some [(sense_key, inactive_facts)] steady_keys_lookup []) (snapshot_file_list sense_view_of) (empty_region_view v, [])"
  have "quiet_view (empty_region_view v, [])" by (simp add: quiet_view_def empty_region_view_def)
  then have "quiet_view ?fold" by (simp add: steady_quiet_file steady_lookup)
  with assms show "\<not> rv_request_truncated view" "rv_malformed_paths view = []" "\<not> rv_malformed_paths_truncated view"
    by (auto simp: region_view_new_def quiet_view_def split_def Let_def)
qed

lemma steady_dedup:
  defines "inputs \<equiv> request_dedup steady_request [(sense_key, inactive_facts)] steady_keys_lookup [] 0"
  shows "introduced_duplicates plain_crates Some inputs = Some (identical_snapshot_result Some inputs)"
    and "dr_findings (identical_snapshot_result Some inputs) = []" and "\<not> dr_findings_truncated (identical_snapshot_result Some inputs)"
    and "\<not> incomplete_dedup (dr_coverage (identical_snapshot_result Some inputs))" and "\<not> partial_dedup (dr_coverage (identical_snapshot_result Some inputs))"
proof -
  have i: "di_before inputs = sense_view_of" "di_after inputs = sense_view_of" "di_file_facts inputs = [(sense_key, inactive_facts)]"
    "di_fact_keys inputs = steady_keys_lookup"
    by (simp_all add: inputs_def request_dedup_def)
  show "introduced_duplicates plain_crates Some inputs = Some (identical_snapshot_result Some inputs)" by (simp add: introduced_duplicates_def i)
  show "dr_findings (identical_snapshot_result Some inputs) = []" "\<not> dr_findings_truncated (identical_snapshot_result Some inputs)"
    by (simp_all add: identical_snapshot_result_def split_def Let_def)
  have cov: "fingerprint_coverage_of sense_view_of [(sense_key, inactive_facts)] steady_keys_lookup =
      default_fingerprint_coverage\<lparr> fpc_files := 2, fpc_complete_files := 2 \<rparr>"
    by (simp add: fingerprint_coverage_of_def cover_file_def lookup_file_facts_def steady_lookup record_non_region_coverage_def record_fingerprint_status_def
        default_fingerprint_coverage_def sat_add_def usize_max_def Let_def)
  obtain view de where v: "region_view_new Some ViewBefore sense_view_of [(sense_key, inactive_facts)]
      steady_keys_lookup [] [] = (view, de)" by fastforce
  from steady_quiet_view [OF v]
  have "\<not> incomplete_dedup (dr_coverage (identical_snapshot_result Some inputs)) \<and> \<not> partial_dedup (dr_coverage (identical_snapshot_result Some inputs))"
    by (simp add: identical_snapshot_result_def validate_identical_snapshot_def i cov v incomplete_dedup_def partial_dedup_def apply_region_coverage_def
        view_coverage_def observe_malformed_view_def default_comparison_state_def default_fingerprint_coverage_def Let_def)
  then show "\<not> incomplete_dedup (dr_coverage (identical_snapshot_result Some inputs))" "\<not> partial_dedup (dr_coverage (identical_snapshot_result Some inputs))"
    by simp_all
qed

definition steady_clock :: sense_clock where
  "steady_clock = \<lparr> ck_total = 9, ck_facts = 1, ck_resolution = 1, ck_cycles = 1, ck_observations = 1, ck_dedup = 1 \<rparr>"

lemma steady_graph:
  obtains g where "evaluate_graph plain_crates Some steady_clock steady_request [(sense_key, inactive_facts)] steady_keys_lookup sense_opts = Some g"
    and "\<And>ctx cache. sr_status (build_report plain_crates steady_request g ctx cache) = SenseClean"
    and "ge_observations g = default_sense_observations"
proof -
  let ?p = "project_with_index steady_context sense_view_of"
  have same: "request_views_match steady_request" by (simp add: request_views_match_def)
  have pair: "project_pair steady_pair = (?p, ?p, [])"
    by (simp add: project_pair_def views_match_def Let_def steady_paths)
  have zero: "sat_add n 0 = n" if "n \<le> 2" for n using that by (simp add: sat_add_def usize_max_def)
  have unsup: "add_unsupported_coverage 0 ?p = ?p"
    by (simp add: add_unsupported_coverage_def steady_projection default_projection_def default_resolution_coverage_def
        default_interface_coverage_def zero)
  have cov: "\<not> incomplete_coverage ?p" "\<not> partial_coverage ?p"
    by (simp_all add: incomplete_coverage_def partial_coverage_def partial_interface_coverage_def steady_projection default_projection_def
        default_resolution_coverage_def default_interface_coverage_def)
  note d = steady_dedup
  let ?g = "the (evaluate_graph plain_crates Some steady_clock steady_request [(sense_key, inactive_facts)] steady_keys_lookup sense_opts)"
  have g: "evaluate_graph plain_crates Some steady_clock steady_request [(sense_key, inactive_facts)] steady_keys_lookup sense_opts = Some ?g"
    and fields: "ge_before_projection ?g = ?p" "ge_after_projection ?g = ?p" "ge_introduced_cycles ?g = []" "ge_introduced_duplicates ?g = []"
      "ge_interface_findings ?g = []" "\<not> ge_findings_truncated ?g" "ge_observations ?g = default_sense_observations"
      "\<not> incomplete_dedup (ge_dedup_coverage ?g)" "\<not> partial_dedup (ge_dedup_coverage ?g)"
    using d by (simp_all add: evaluate_graph_def pair same unsup request_continuity_def comparison_projection_def collect_def request_metrics_def Let_def)
  have "sr_status (build_report plain_crates steady_request ?g ctx cache) = SenseClean" for ctx cache
    using fields cov by (simp add: report_status sense_status_of_def status_incomplete_def status_partial_def evaluation_truncation_def default_sense_observations_def)
  with g fields(7) that show ?thesis by blast
qed

lemma steady_entries: "entries_right K A opts request MemoryFactCache_new"
  by (simp add: entries_right_def memory_view_def MemoryFactCache_new_def list_all_iff split_def)

abbreviation steady_senses :: "(sense_error, sense_report) result \<Rightarrow> memory_fact_cache \<Rightarrow> bool" where
  "steady_senses \<equiv> senses plain_crates plain_analyzers (memory_ops (\<lambda>_. Some [])) (\<lambda>l. Some (plain_options l)) Some True
     (\<lambda>_. never_cancelled) steady_clock steady_request MemoryFactCache_new"

lemma steady_finish_quiet:
  obtains report where "finish_request plain_crates Some steady_clock steady_request sense_opts (Inr [(sense_key, inactive_facts)]) b a = Inr report"
    and "sr_status report = SenseClean" and "sr_observations report = default_sense_observations"
proof -
  obtain g where g: "evaluate_graph plain_crates Some steady_clock steady_request [(sense_key, inactive_facts)] steady_keys_lookup sense_opts = Some g"
    "\<And>ctx cache. sr_status (build_report plain_crates steady_request g ctx cache) = SenseClean" "ge_observations g = default_sense_observations"
    by (rule steady_graph) blast
  then show ?thesis
    by (intro that [of "build_report plain_crates steady_request g (request_context steady_clock b [(sense_key, sense_file)]) a"])
      (auto simp: finish_request_def steady_unique build_report_def Let_def)
qed

lemma steady_finish:
  obtains report where "finish_request plain_crates Some steady_clock steady_request sense_opts (Inr [(sense_key, inactive_facts)]) b a = Inr report"
    and "sr_status report = SenseClean"
  by (rule steady_finish_quiet)

section \<open>Witnesses\<close>

text \<open>Two files with one key, loaded once.\<close>

theorem sense_report_exact_witness:
  "(\<exists>report c'. steady_senses (Inr report) c' \<and> sr_status report = SenseClean) \<and>
   (\<nexists>t. pool_steps (memory_ops (\<lambda>_. Some [])) 3
     (load_tasks plain_crates plain_analyzers default_rule_limits sense_opts (\<lambda>_. never_cancelled) [(sense_key, sense_file)], MemoryFactCache_new) t)"
proof
  note exact = sense_report_exact [OF plain_cooperate steady_request_wf memory_inv_new steady_entries,
      where tok = "\<lambda>_. never_cancelled" and opts = plain_options and to_vec = "\<lambda>_. Some []" and ?b64.0 = Some and pool = True and clock = steady_clock]
  have nc: "\<forall>i n. \<not> never_cancelled n" by (simp add: never_cancelled_def)
  from exact [OF nc] obtain r c' where s: "steady_senses r c'" by blast
  with exact [OF nc] steady_reference have "r = finish_request plain_crates Some steady_clock steady_request sense_opts (Inr [(sense_key, inactive_facts)])
      (memory_metadata MemoryFactCache_new) (memory_metadata c')" by auto
  with s steady_finish show "\<exists>report c'. steady_senses (Inr report) c' \<and> sr_status report = SenseClean" by metis
  show "\<nexists>t. pool_steps (memory_ops (\<lambda>_. Some [])) 3
     (load_tasks plain_crates plain_analyzers default_rule_limits sense_opts (\<lambda>_. never_cancelled) [(sense_key, sense_file)], MemoryFactCache_new) t"
    using exact [OF nc] by (fastforce simp: steady_unique)
qed

lemma steady_answer: "\<exists>report c'. steady_senses (Inr report) c' \<and> sr_status report = SenseClean"
proof -
  obtain r c' where s: "steady_senses r c'"
    using senses_total [of plain_crates plain_analyzers "memory_ops (\<lambda>_. Some [])" "\<lambda>l. Some (plain_options l)" Some True "\<lambda>_. never_cancelled"
        steady_clock steady_request MemoryFactCache_new] by blast
  from senses_reference [OF plain_cooperate memory_inv_new steady_entries _ s] steady_reference
  have "r = finish_request plain_crates Some steady_clock steady_request sense_opts (Inr [(sense_key, inactive_facts)])
      (memory_metadata MemoryFactCache_new) (memory_metadata c')" by (simp add: never_cancelled_def)
  with s steady_finish show ?thesis by metis
qed

text \<open>The two files share a key and do not differ in their analysis, so each was followed by its own.\<close>

theorem clean_sense_sound_witness:
  "\<exists>report c'. steady_senses (Inr report) c' \<and> sr_introduced_cycles report = [] \<and>
     followed_as plain_crates plain_analyzers default_rule_limits steady_index first_file first_file \<and>
     followed_as plain_crates plain_analyzers default_rule_limits steady_index sense_file sense_file"
proof -
  obtain report c' where r: "steady_senses (Inr report) c'" "sr_status report = SenseClean" using steady_answer by blast
  have nc: "\<forall>i n. \<not> never_cancelled n" by (simp add: never_cancelled_def)
  have "pair_wf (request_pair plain_crates steady_request [(sense_key, inactive_facts)] (plain_options (sop_limits (srq_options steady_request))))"
    using steady_pair_wf by simp
  note sound = clean_sense_sound [OF plain_cooperate steady_request_wf memory_inv_new steady_entries nc r steady_reference this]
  have "no_key_conflict plain_crates plain_analyzers default_rule_limits sense_opts
      {g \<in> {first_file, sense_file}. fact_key plain_crates g sense_opts = sense_key}"
    by (rule no_key_conflict_subset [OF windows_no_key_conflict]) blast
  moreover have "followed_view plain_crates plain_analyzers default_rule_limits sense_opts {first_file, sense_file} steady_index sense_view_of"
    using sound by (simp add: insert_commute)
  ultimately have "followed_as plain_crates plain_analyzers default_rule_limits steady_index first_file first_file \<and>
      followed_as plain_crates plain_analyzers default_rule_limits steady_index sense_file sense_file"
    unfolding followed_view_def by simp
  with sound r(1) show ?thesis by blast
qed

theorem sense_report_accounted_witness:
  "\<exists>report. finish_request plain_crates Some steady_clock steady_request sense_opts (Inr [(sense_key, inactive_facts)])
      (memory_metadata MemoryFactCache_new) (memory_metadata MemoryFactCache_new) = Inr report \<and>
    length (sr_introduced_cycles report) + length (sr_introduced_duplicates report) + length (sr_interface_findings report) \<le> MAX_SENSE_FINDINGS \<and>
    sr_issues report = []"
proof -
  obtain report where r: "finish_request plain_crates Some steady_clock steady_request sense_opts (Inr [(sense_key, inactive_facts)])
      (memory_metadata MemoryFactCache_new) (memory_metadata MemoryFactCache_new) = Inr report" "sr_status report = SenseClean"
    by (rule steady_finish)
  from sense_report_accounted [OF steady_request_wf r(1)] r show ?thesis by (intro exI [of _ report]) auto
qed

end
