(* ===== verification/VerdictSamples.thy ===== *)
theory VerdictSamples
  imports SenseVerdict SenseSamples
begin

text \<open>
  The command of the sensor on concrete inputs: the report of \<open>SenseSamples\<close>, a registry that binds a
  module to a document that is missing, and a renderer with short texts.
\<close>

section \<open>Parameters\<close>

text \<open>A reader of JSON that knows one registry, with the binding of \<^verbatim>\<open>a.py\<close> to \<^verbatim>\<open>a.md\<close>.\<close>

definition one_binding :: documentation_binding where
  "one_binding = \<lparr> db_source = RepoPath ''a.py'', db_document = RepoPath ''a.md'' \<rparr>"

definition one_registry_serde :: "unit serde" where
  "one_registry_serde =
     \<lparr> sd_deserialize = (\<lambda>_. VMap [(''schemaVersion'', VU64 1), (''documentation'', VMap [] None)] None), sd_trailing = (\<lambda>_. None),
       sd_error_text = (\<lambda>_. ''error''), sd_documentation_settings = (\<lambda>_. Inr [one_binding]), sd_to_string = (\<lambda>_. ''{}'') \<rparr>"

definition one_registry :: documentation_registry where
  "one_registry = \<lparr> dr_schema_version = 1, dr_bindings = [one_binding] \<rparr>"

definition new_module :: important_node_observation where
  "new_module =
     \<lparr> imp_path = RepoPath ''a.py'', imp_before_path = None, imp_deleted = False, imp_before_confirmed_dependency_fan_in = 0,
       imp_after_confirmed_dependency_fan_in = 10, imp_before_explicit_exports = 0, imp_after_explicit_exports = 0,
       imp_before_public_surface_authoritative = True, imp_after_public_surface_authoritative = True,
       imp_newly_important = True, imp_public_surface_changed = False \<rparr>"

definition undocumented_inputs :: documentation_inputs where
  "undocumented_inputs =
     \<lparr> doi_nodes = [new_module], doi_after_registry = Some one_registry, doi_documents = [],
       doi_policy = \<lparr> dp_important_fan_in = 10, dp_important_exports = 20 \<rparr>, doi_finding_limit = 32 \<rparr>"

lemma one_registry_parsed: "parse_optional_documentation_registry one_registry_serde (Some ''{}'') = Inr (Some one_registry)"
proof -
  have "validate_bindings [one_binding] = Inr ()"
    by (simp add: validate_bindings_Inr binding_ok_def one_binding_def as_utf8_def DOCUMENTATION_REGISTRY_PATH_def MAX_DOCUMENTATION_BINDINGS_def)
  then show ?thesis
    by (simp add: parse_optional_documentation_registry_def one_registry_serde_def one_registry_def parse_unique_json_def try_bind_def
        sort_bindings_def MAX_DOCUMENTATION_REGISTRY_BYTES_def DOCUMENTATION_REGISTRY_SCHEMA_VERSION_def)
qed

definition short_renderer :: renderer where
  "short_renderer = \<lparr> rd_to_json = (\<lambda>_. Inr ''{}''), rd_human_output = (\<lambda>_. ''ok'') \<rparr>"

lemma short_fits: "fits short_renderer json r (if json then ''{}'' @ [line_feed] else ''ok'')"
  by (auto simp: fits_def render_output_def serialized_report_len_def short_renderer_def MAX_ASSESSMENT_BYTES_def sat_add_def)

lemma short_prepared:
  "prepare_output short_renderer json clock r = Inr (if json then ''{}'' @ [line_feed] else ''ok'', stamp_report (clock 0) r)"
  unfolding prepare_output_def
  by (subst prepare_loop.simps) (simp add: render_output_def serialized_report_len_def short_renderer_def MAX_ASSESSMENT_BYTES_def sat_add_def usize_max_def Let_def)

definition bare_repository :: git_repository where
  "bare_repository =
     \<lparr> git_capture_auxiliary = (\<lambda>_. Inl NotRepository), git_capture_staged_auxiliary = (\<lambda>_. Inl NotRepository),
       git_capture_tree_auxiliary = (\<lambda>_ _ _. Inl NotRepository) \<rparr>"

definition unix_platform :: platform where
  "unix_platform = \<lparr> os_name = ''linux'', arch_name = ''x86_64'' \<rparr>"

section \<open>Witnesses\<close>

theorem documentation_requirements_exact_witness:
  "parse_optional_documentation_registry one_registry_serde (Some ''{}'') = Inr (doi_after_registry undocumented_inputs) \<and>
   (\<exists>r\<in>set (drs_requirements (evaluate_documentation unix_platform undocumented_inputs)). dreq_path r = RepoPath ''a.py'')"
proof
  show parsed: "parse_optional_documentation_registry one_registry_serde (Some ''{}'') = Inr (doi_after_registry undocumented_inputs)"
    by (simp add: undocumented_inputs_def one_registry_parsed)
  have "\<not> documented (doi_policy undocumented_inputs) (doi_after_registry undocumented_inputs) (doi_documents undocumented_inputs) new_module"
    by (simp add: documented_def undocumented_inputs_def became_important_def removed_def after_important_def important_def new_module_def)
  moreover have "length (node_requirements undocumented_inputs new_module) \<le> 2"
    by (simp add: node_requirements_def evaluate_node_def Let_def split: option.split)
  moreover have "length (node_issues unix_platform undocumented_inputs new_module) \<le> 1"
    by (simp add: node_issues_def split: option.split)
  ultimately have "\<not> drs_findings_truncated (evaluate_documentation unix_platform undocumented_inputs)"
    and "\<not> documented (doi_policy undocumented_inputs) (doi_after_registry undocumented_inputs) (doi_documents undocumented_inputs) new_module"
    unfolding evaluate_documentation_fields by (simp_all add: undocumented_inputs_def sat_add_def)
  then show "\<exists>r\<in>set (drs_requirements (evaluate_documentation unix_platform undocumented_inputs)). dreq_path r = RepoPath ''a.py''"
    using documentation_requirements_exact [OF parsed, of unix_platform]
    by (auto simp: undocumented_inputs_def new_module_def usize_max_def)
qed

theorem prepared_output_bounded_witness:
  "\<exists>rendered report'. prepare_output short_renderer True (\<lambda>_. (1, 2)) (compact_report 0) = Inr (rendered, report') \<and>
     fits short_renderer True report' rendered"
proof -
  have "\<forall>r. \<exists>s. rd_to_json short_renderer r = Inr s" by (simp add: short_renderer_def)
  moreover have "\<forall>t u. \<exists>rendered. fits short_renderer True (stamp_report u (compact_report t)) rendered" using short_fits by blast
  ultimately show ?thesis
    using prepared_output_bounded [of short_renderer True "\<lambda>_. (1, 2)" "compact_report 0"] by blast
qed

theorem accepted_run_sound_witness:
  "\<exists>evaluated captures rendered report.
     finish_request plain_crates Some steady_clock steady_request sense_opts (Inr [(sense_key, inactive_facts)])
       (memory_metadata MemoryFactCache_new) (memory_metadata MemoryFactCache_new) = Inr evaluated \<and>
     conclude_report plain_crates one_registry_serde unix_platform bare_repository short_renderer InWorktree None [] 1 1 True (\<lambda>_. (1, 2)) evaluated
       = Inr (captures, rendered, report) \<and>
     enforce_report report False False False = Inr () \<and> \<not> has_sense_findings evaluated"
proof -
  obtain evaluated where e: "finish_request plain_crates Some steady_clock steady_request sense_opts (Inr [(sense_key, inactive_facts)])
      (memory_metadata MemoryFactCache_new) (memory_metadata MemoryFactCache_new) = Inr evaluated"
    "sr_status evaluated = SenseClean" "sr_observations evaluated = default_sense_observations" by (rule steady_finish_quiet)
  let ?r = "evaluated\<lparr> sr_effective_policy := (sr_effective_policy evaluated)\<lparr> esp_excluded_paths := [] \<rparr>,
    sr_timing := (sr_timing evaluated)\<lparr> stm_capture_us := 1 \<rparr> \<rparr>"
  let ?out = "stamp_report (1, 2) (?r\<lparr> sr_timing := (sr_timing ?r)\<lparr> stm_documentation_us := 1 \<rparr> \<rparr>)"
  have "apply_documentation plain_crates one_registry_serde unix_platform bare_repository InWorktree None ?r = (no_captures, ?r)"
    by (simp add: apply_documentation_def e(3) default_sense_observations_def needs_evaluation_def Let_def)
  then have run: "conclude_report plain_crates one_registry_serde unix_platform bare_repository short_renderer InWorktree None [] 1 1 True (\<lambda>_. (1, 2)) evaluated
      = Inr (no_captures, ''{}'' @ [line_feed], ?out)"
    by (simp add: conclude_report_def short_prepared Let_def)
  note engine = engine_report_verdict [OF e(1)]
  have "enforce_report ?out False False False = Inr ()"
    using engine(1,3) e(2) by (auto simp: enforce_Inr stamp_report_def partial_coverage_blocks_def has_sense_findings_def structural_findings_def)
  from accepted_run_sound [OF e(1) run this] e(1) run this show ?thesis by blast
qed

end
