(* ===== verification/Spec2Isabelle.thy ===== *)
theory Spec2Isabelle
  imports Schedule VerdictSamples
begin

text \<open>
  \<^bold>\<open>Opcore: a verification development\<close>

  Opcore compares two states of a repository, a baseline and a candidate, and reports what the
  change introduces. It has two halves. The \<^emph>\<open>evaluation engine\<close> analyses every file of both
  states, through a cache of facts, in parallel, and reports the diagnostics that are new. The
  \<^emph>\<open>structural sensor\<close> (\<^verbatim>\<open>src/sense\<close>) looks at the same facts across files: it resolves
  references into a dependency graph and reports the cycles, duplicated code, interface growth and
  missing documentation that the change introduces. Both halves are deterministic functions of their
  inputs with fixed resource limits, and promise that a limit that was reached is reported. This
  library models both halves and proves those promises.

  \<^bold>\<open>Parts and theories.\<close> All paths are below \<^verbatim>\<open>src/src\<close>; one definition per Rust item, named after it.

  \<^item> \<open>Prelude\<close>, \<open>BTree\<close>, \<open>RustStr\<close>, \<open>Budgets\<close>: results and errors as sums, saturating arithmetic at the
    width of the code (\<^verbatim>\<open>usize\<close> is 64-bit), byte strings and the operations of Rust's \<^verbatim>\<open>str\<close>, ordered maps
    and sets as sorted association lists with their laws, and the constants of \<^verbatim>\<open>limits.rs\<close>.
  \<^item> \<open>RepoPaths\<close> (\<^verbatim>\<open>path.rs\<close>), \<open>UniqueJson\<close> (\<^verbatim>\<open>json.rs\<close>), \<open>Identity\<close> (\<^verbatim>\<open>identity.rs\<close>), \<open>DataModel\<close>
    (\<^verbatim>\<open>model.rs\<close>), \<open>Snapshot\<close> (\<^verbatim>\<open>source/snapshot.rs\<close>), \<open>Languages\<close> (\<^verbatim>\<open>source/languages.rs\<close>): validated
    repository paths and their text form, JSON without repeated members, content-derived identities, the
    data that crosses components, source snapshots, and the table of languages.
  \<^item> \<open>LineIndex\<close>, \<open>AnalysisBase\<close>, \<open>Hygiene\<close>, \<open>Preflight\<close>, \<open>Analyze\<close> (\<^verbatim>\<open>analysis/*.rs\<close>): positions,
    line anchors and decoding, the hygiene rules, the structural pre-check of parsers, and the dispatch
    of a file to its analyzer. The language analyzers themselves visit trees of third-party parsers; they
    are the record \<open>analyzers\<close>, an argument.
  \<^item> \<open>GoBuild\<close> (\<^verbatim>\<open>analysis/go/input.rs\<close>, \<^verbatim>\<open>analysis/go.rs\<close>): the build constraints of a Go file, read from
    its name and its build directives, and the facts they decide. The concrete analyzers of the samples
    are built on it, so their results depend on the path.
  \<^item> \<open>FactCache\<close> (\<^verbatim>\<open>cache.rs\<close>, the in-memory store), \<open>Facts\<close> (\<^verbatim>\<open>facts.rs\<close>), \<open>Bounded\<close>, \<open>Compare\<close>,
    \<open>Evaluate\<close>, \<open>Schedule\<close> (\<^verbatim>\<open>engine.rs\<close>): the cache with its quotas and eviction, loading through a
    cache, bounded working sets of findings, rename continuity and the difference of diagnostics, the
    admission of requests, and the parallel run as a step relation whose interleavings are those the
    worker pool allows. What a client relies on of a cache is the locale \<open>fact_cache\<close>, interpreted on the
    memory cache.
  \<^item> \<open>SenseModel\<close> (\<^verbatim>\<open>sense/model.rs\<close>): the data of the sensor.
  \<^item> \<open>ResolverIndex\<close>, \<open>Resolver\<close> (\<^verbatim>\<open>sense/resolver.rs\<close> and its submodules): the index of a view, the
    resolution of references, and projections, which are updated from one view to the next by taking away
    and adding the contributions of the files that changed. \<open>ProjectionEvents\<close>, \<open>ProjectionUpdate\<close>,
    \<open>ProjectionPair\<close>, \<open>ProjectionExact\<close> compare that update with a projection from scratch.
  \<^item> \<open>Scc\<close>, \<open>DepGraph\<close> (\<^verbatim>\<open>sense/graph.rs\<close>): strongly connected components by two iterative passes,
    introduced cycles with trigger edge and shortest witness, path continuity.
  \<^item> \<open>Winnow\<close> (\<^verbatim>\<open>analysis/dedup.rs\<close>), \<open>Evidence\<close> (\<^verbatim>\<open>sense/dedup/regions/evidence.rs\<close>): token
    fingerprints with rolling 64-bit hashes and a deque of minima, and the validating decoder of the
    evidence they write.
  \<^item> \<open>DedupBase\<close>, \<open>Dedup\<close> (\<^verbatim>\<open>sense/dedup.rs\<close>), \<open>Regions\<close> (\<^verbatim>\<open>sense/dedup/regions.rs\<close>): the search for
    duplicated files, callables and regions of tokens, with its limits, issues and coverage; the two loops
    that report share the locale \<open>reporting_loop\<close> of \<open>DedupSound\<close>.
  \<^item> \<open>Metrics\<close>, \<open>MetricsSound\<close> (\<^verbatim>\<open>sense/metrics.rs\<close>): dependency and interface counts of changed paths,
    interface findings, and the reverse impact of a change by a bounded search.
  \<^item> \<open>SenseEngine\<close> (\<^verbatim>\<open>sense/engine.rs\<close>): the evaluation that composes the parts, with the loads of the files
    in order or in a pool (a step relation), the comparison, the status and the report. \<open>SenseLoad\<close>,
    \<open>SenseTotal\<close> and \<open>SenseSound\<close> hold its lemmas and properties, \<open>SenseSamples\<close> a concrete evaluation.
  \<^item> \<open>Documentation\<close> (\<^verbatim>\<open>documentation.rs\<close>, \<^verbatim>\<open>sense/documentation.rs\<close>), \<open>SenseCommand\<close> (\<^verbatim>\<open>sense/cli.rs\<close>,
    \<^verbatim>\<open>sense/hypothesis.rs\<close>): the registry of documents and the requirements of a change, and what the command
    does with a report: documentation, the cut to the output bound, and the verdict. \<open>SenseVerdict\<close> holds the
    properties, \<open>VerdictSamples\<close> concrete runs.

  \<^bold>\<open>What is shown.\<close>

  \<^item> \<^emph>\<open>Evaluation.\<close> Whatever the interleaving and the contents of a cache with right entries, an evaluation
    agrees with a sequential reference or a token signalled a cancellation; it always answers, in a bounded
    number of steps; a clean verdict on all findings means that every path was checked or is listed; an
    unchanged view introduces nothing; requests are admitted exactly within the limits (\<open>Schedule\<close>,
    \<open>Evaluate\<close>). The cache keeps its quotas, returns what was stored and refuses to change a stored entry
    (\<open>FactCache\<close>), so loading a file whose own entry is right is its analysis (\<open>Facts\<close>).
  \<^item> \<^emph>\<open>Keys that are shared.\<close> The key facts are cached under leaves out the path, which the analysis of a Go
    file reads. \<open>windows_twin_shares_facts\<close> of \<open>Facts\<close> shows a file that is given the facts of another one.
    The properties of the evaluation engine therefore assume \<open>no_key_conflict\<close>, of the files of the request
    only: no two of them share a key and differ in their analysis. It holds of any analyzers when no two
    files have the same bytes and language mode (\<open>twins_agree_distinct\<close>, \<open>no_key_conflictI\<close>). The properties
    of one load and of the sensor do not assume it: the sensor loads one file for each key, and its report is
    stated in terms of those files.
  \<^item> \<^emph>\<open>Data.\<close> Accepted paths stay below the root; paths, JSON and digests survive their text forms up to
    the collision recorded in \<open>RepoPaths\<close>; equal identities of different contents are SHA-256 collisions.
  \<^item> \<^emph>\<open>Analysis.\<close> Positions name their byte; hygiene equals its specification; accepted source is shallow.
  \<^item> \<^emph>\<open>Graph.\<close> The incremental projections of a pair are those of its views from scratch, or marked as
    truncated. Components are exactly the classes of mutual reachability; introduced cycles are exactly
    the candidate cycles that no baseline cycle contains, each with a shortest witness.
  \<^item> \<^emph>\<open>Metrics.\<close> Interface findings are exactly the rises above a limit at changed paths; the impact of a
    change is exact or marked as a lower bound; observations are bounded.
  \<^item> \<^emph>\<open>Duplicates, one direction\<close> (\<open>RegionsExact\<close>): the search always returns, and a finding is never the
    work of a hash collision: the tokens stand at every place it counts.
  \<^item> \<^emph>\<open>Duplicates, the other direction\<close> (\<open>Winnow\<close>, \<open>RegionsComplete\<close>, \<open>CopyDetection\<close>): streaming
    fingerprints equal the reference, a shared run of the minimal length shares an anchor, the evidence
    reads back as written, extension finds the maximal region; so a copied run that is new is reported, or
    the search says what it could not look at.
  \<^item> \<^emph>\<open>Limits\<close> (\<open>DedupSound\<close>, \<open>DedupGaps\<close>): identical files are reported exactly, findings are bounded
    and well formed, malformed evidence and every gap of the coverage are reported.
  \<^item> \<^emph>\<open>The sensor\<close> (\<open>SenseSound\<close>): an evaluation ends after a bounded number of cache operations, without a
    panic, and uncancelled with the report computed from the analysis of one file for each key, whatever the
    schedule and the cache; a clean report means that the facts standing for every file are complete, every
    reference was followed and no runtime cycle is new; findings are bounded, and the status is accounted for by issues, except for a cut public surface, which
    \<open>cut_surface_unexplained\<close> shows.
  \<^item> \<^emph>\<open>The command\<close> (\<open>SenseVerdict\<close>): a run that is accepted had no finding, its important modules are
    documented, and its report was clean up to what was allowed; the loop that cuts a report ends, its
    output fits the bound and a cut is never silent; documentation requirements are exact.

  \<^bold>\<open>Errors, bounds and loops.\<close> Errors are \<open>Inl\<close> of a sum or \<open>None\<close>. An index that panics out of range is
  \<open>None\<close>, and the theorems show that it does not happen. Loops are recursion over their list, or
  \<open>function\<close> with a measure where they are not structural (\<open>extend_left\<close>, \<open>extend_right\<close>,
  \<open>decode_loop\<close>, \<open>reach_loop\<close>, \<open>prepare_loop\<close>, the passes of \<open>Scc\<close>); following predecessors in
  \<open>DepGraph\<close> is a \<open>partial_function\<close>, for which termination on the inputs that arise is proved. Only
  the recursive descent of \<open>parse_expression\<close> in \<open>GoBuild\<close> has fuel, four steps for each byte and three, which
  is always enough (\<open>expression_fuel_enough\<close>). \<^verbatim>\<open>sha2\<close>, \<^verbatim>\<open>hex\<close>, \<^verbatim>\<open>base64\<close>, \<^verbatim>\<open>serde_json\<close>, the code that \<^verbatim>\<open>serde\<close> derives and the parsers
  are arguments, with their documented behaviour as named hypotheses where a theorem needs it. So are the
  clock and the captures of a Git repository.

  \<^bold>\<open>Not modelled.\<close> The language analyzers beyond \<open>GoBuild\<close> (they walk trees of third-party parsers), the captures of the Git
  source, hooks, native tools, the remaining command lines and servers (processes, files and text output),
  the on-disk store of \<^verbatim>\<open>cache.rs\<close>, the internals of the worker pool, and the repository policy, whose
  limits are arguments.
\<close>

end
